(* ===== verification/Prelude.thy ===== *)
theory Prelude
  imports Main "HOL-Library.Word" "HOL-Library.Monad_Syntax"
begin

text \<open>
  What the components share: the names of the machine types, the collections the component
  proofs are run with, byte buffers (reading and overwriting a range of a C array, with the
  out-of-range access as \<open>None\<close>) and a few facts on words and lists.

  Conventions of the whole development. A \<open>uint8_t\<close>, \<open>uint16_t\<close>,
  \<open>uint32_t\<close> of the source is a word of that width, a byte buffer a list of 8-bit words.
  A function that can stop the kernel returns an \<open>option\<close>: \<open>None\<close> means that control never
  comes back to the caller, because of a call of \<open>kernelPanic\<close>, an access outside a buffer
  (undefined behaviour in C++), or a loop that does not end. An error the code reports to its
  caller (\<open>return false\<close>, \<open>std::nullopt\<close>, a null pointer) is an ordinary value.
\<close>

unbundle bit_operations_syntax

type_synonym u8 = "8 word"
type_synonym u16 = "16 word"
type_synonym u32 = "32 word"
type_synonym byte = "8 word"
type_synonym bytes = "byte list"

named_theorems unats \<open>values of word expressions as natural numbers\<close>
named_theorems frames \<open>what an operation leaves unchanged\<close>
named_theorems buffers \<open>reads and overwrites of byte buffers\<close>

section \<open>Words as numbers\<close>

lemma unat_add_small:
  "unat (a :: u32) + unat b < 4294967296 \<Longrightarrow> unat (a + b) = unat a + unat b"
  by (simp add: unat_word_ariths)

lemma unat_mult_small:
  "unat (a :: u32) * unat b < 4294967296 \<Longrightarrow> unat (a * b) = unat a * unat b"
  by (simp add: unat_word_ariths)

lemma unat_sub_le: "b \<le> (a :: u32) \<Longrightarrow> unat (a - b) = unat a - unat b"
  by (rule unat_sub)

lemma unat_u32_lt: "unat (x :: u32) < 4294967296"
proof -
  have "unat x < 2 ^ LENGTH(32)" by (rule unsigned_less)
  then show ?thesis by simp
qed

lemma unat_u16_lt: "unat (x :: u16) < 65536"
proof -
  have "unat x < 2 ^ LENGTH(16)" by (rule unsigned_less)
  then show ?thesis by simp
qed

lemma unat_u8_lt: "unat (x :: u8) < 256"
proof -
  have "unat x < 2 ^ LENGTH(8)" by (rule unsigned_less)
  then show ?thesis by simp
qed

lemma bit_u8_high [simp]: "8 \<le> n \<Longrightarrow> bit (b :: u8) n = False"
  using bit_imp_le_length [of b n] by auto

lemma unat_ucast_8_32 [unats]: "unat (ucast (x :: u8) :: u32) = unat x"
  using unat_u8_lt [of x] by (simp add: unsigned_ucast_eq take_bit_nat_eq_self)

lemma unat_ucast_8_16 [unats]: "unat (ucast (x :: u8) :: u16) = unat x"
  using unat_u8_lt [of x] by (simp add: unsigned_ucast_eq take_bit_nat_eq_self)

lemma unat_ucast_16_32 [unats]: "unat (ucast (x :: u16) :: u32) = unat x"
  using unat_u16_lt [of x] by (simp add: unsigned_ucast_eq take_bit_nat_eq_self)

lemma u32_less_iff: "(a :: u32) < b \<longleftrightarrow> unat a < unat b"
  by (rule word_less_nat_alt)

lemma u32_le_iff: "(a :: u32) \<le> b \<longleftrightarrow> unat a \<le> unat b"
  by (rule word_le_nat_alt)

section \<open>Byte buffers\<close>

text \<open>\<open>slice\<close> is the range \<open>[off, off + n)\<close> of a buffer, \<open>blit\<close> a \<open>memcpy\<close> into one.\<close>

definition slice :: "'a list \<Rightarrow> nat \<Rightarrow> nat \<Rightarrow> 'a list option" where
  "slice xs off n = (if off + n \<le> length xs then Some (take n (drop off xs)) else None)"

definition blit :: "'a list \<Rightarrow> nat \<Rightarrow> 'a list \<Rightarrow> 'a list option" where
  "blit xs off ys =
     (if off + length ys \<le> length xs
      then Some (take off xs @ ys @ drop (off + length ys) xs) else None)"

definition rd_at :: "'a list \<Rightarrow> nat \<Rightarrow> 'a option" where
  "rd_at xs i = (if i < length xs then Some (xs ! i) else None)"

definition wr_at :: "'a list \<Rightarrow> nat \<Rightarrow> 'a \<Rightarrow> 'a list option" where
  "wr_at xs i v = (if i < length xs then Some (xs[i := v]) else None)"

lemma length_slice: "slice xs off n = Some ys \<Longrightarrow> length ys = n"
  by (auto simp: slice_def split: if_splits)

lemma length_blit [buffers]: "blit xs off ys = Some zs \<Longrightarrow> length zs = length xs"
  by (auto simp: blit_def split: if_splits)

lemma slice_blit_same [buffers]:
  "blit xs off ys = Some zs \<Longrightarrow> slice zs off (length ys) = Some ys"
  by (auto simp: blit_def slice_def min_def split: if_splits)

lemma nth_blit:
  assumes "blit xs off ys = Some zs" and "i < length xs"
  shows "zs ! i = (if off \<le> i \<and> i < off + length ys then ys ! (i - off) else xs ! i)"
  using assms by (auto simp: blit_def nth_append min_def split: if_splits)

lemma slice_blit_other [buffers]:
  assumes "blit xs off ys = Some zs" and "k + n \<le> off \<or> off + length ys \<le> k"
  shows "slice zs k n = slice xs k n"
proof -
  have len: "length zs = length xs" using assms(1) by (rule length_blit)
  have "take n (drop k zs) = take n (drop k xs)" if "k + n \<le> length xs"
    by (rule nth_equalityI) (use that len assms in \<open>auto simp: nth_blit [OF assms(1)]\<close>)
  then show ?thesis by (simp add: slice_def len)
qed

lemma slice_append_left [buffers]:
  "off + n \<le> length xs \<Longrightarrow> slice (xs @ ys) off n = slice xs off n"
  by (simp add: slice_def)

lemma slice_full: "slice xs 0 (length xs) = Some xs"
  by (simp add: slice_def)

lemma blit_replicate_nth:
  "off + length ys \<le> n \<Longrightarrow> \<exists>zs. blit (replicate n x) off ys = Some zs"
  by (simp add: blit_def)

section \<open>Monadic loops\<close>

text \<open>A \<open>for\<close> loop over a list with a state, stopping the kernel when the body does.\<close>

fun fold_opt :: "('a \<Rightarrow> 's \<Rightarrow> 's option) \<Rightarrow> 'a list \<Rightarrow> 's \<Rightarrow> 's option" where
  "fold_opt f [] s = Some s"
| "fold_opt f (x # xs) s = Option.bind (f x s) (fold_opt f xs)"

lemma fold_opt_append:
  "fold_opt f (xs @ ys) s = Option.bind (fold_opt f xs s) (fold_opt f ys)"
  by (induction xs arbitrary: s) (auto split: Option.bind_splits)

lemma fold_opt_inv:
  assumes "fold_opt f xs s = Some t" and "P s"
    and "\<And>x s t. x \<in> set xs \<Longrightarrow> P s \<Longrightarrow> f x s = Some t \<Longrightarrow> P t"
  shows "P t"
  using assms
proof (induction xs arbitrary: s)
  case Nil
  then show ?case by simp
next
  case (Cons x xs)
  from Cons.prems(1) obtain u where u: "f x s = Some u" and t: "fold_opt f xs u = Some t"
    by (auto split: Option.bind_splits)
  have "P u" using Cons.prems(2) u by (intro Cons.prems(3) [of x s u]) simp_all
  with t show ?case using Cons.prems(3) by (intro Cons.IH [OF t]) auto
qed

end
