(* ===== verification/Bytes.thy ===== *)
theory Bytes
  imports Prelude
begin

text \<open>
  The little-endian readers of \<open>libs/utils.cpp\<close> and their inverses: the stores the code does
  through a cast pointer on the little-endian i386.
\<close>

definition le16 :: "byte \<Rightarrow> byte \<Rightarrow> u16" where
  "le16 b0 b1 = ucast b0 OR push_bit 8 (ucast b1)"

definition le32 :: "byte \<Rightarrow> byte \<Rightarrow> byte \<Rightarrow> byte \<Rightarrow> u32" where
  "le32 b0 b1 b2 b3 =
     ucast b0 OR push_bit 8 (ucast b1) OR push_bit 16 (ucast b2) OR push_bit 24 (ucast b3)"

definition bytes16 :: "u16 \<Rightarrow> bytes" where
  "bytes16 w = [ucast w, ucast (drop_bit 8 w)]"

definition bytes32 :: "u32 \<Rightarrow> bytes" where
  "bytes32 w = [ucast w, ucast (drop_bit 8 w), ucast (drop_bit 16 w), ucast (drop_bit 24 w)]"

definition get_uint8_t :: "bytes \<Rightarrow> nat \<Rightarrow> u8 option" where
  "get_uint8_t data off = rd_at data off"

definition get_uint16_t :: "bytes \<Rightarrow> nat \<Rightarrow> u16 option" where
  "get_uint16_t data off =
     (case slice data off 2 of Some [b0, b1] \<Rightarrow> Some (le16 b0 b1) | _ \<Rightarrow> None)"

definition get_uint32_t :: "bytes \<Rightarrow> nat \<Rightarrow> u32 option" where
  "get_uint32_t data off =
     (case slice data off 4 of Some [b0, b1, b2, b3] \<Rightarrow> Some (le32 b0 b1 b2 b3) | _ \<Rightarrow> None)"

lemma length_bytes16 [simp]: "length (bytes16 w) = 2"
  by (simp add: bytes16_def)

lemma length_bytes32 [simp]: "length (bytes32 w) = 4"
  by (simp add: bytes32_def)

lemma le16_bytes [simp]: "le16 (ucast w) (ucast (drop_bit 8 w)) = w"
  unfolding le16_def by (rule bit_word_eqI) (auto simp: bit_simps)

lemma le32_bytes [simp]:
  "le32 (ucast w) (ucast (drop_bit 8 w)) (ucast (drop_bit 16 w)) (ucast (drop_bit 24 w)) = w"
proof (rule bit_word_eqI)
  fix n
  assume "n < LENGTH(32)"
  then consider "n < 8" | "8 \<le> n" "n < 16" | "16 \<le> n" "n < 24" | "24 \<le> n" "n < 32"
    by fastforce
  then show "bit (le32 (ucast w) (ucast (drop_bit 8 w)) (ucast (drop_bit 16 w))
      (ucast (drop_bit 24 w))) n = bit w n"
    by cases (auto simp: le32_def bit_simps)
qed

lemma bytes16_le16 [simp]: "bytes16 (le16 b0 b1) = [b0, b1]"
  unfolding le16_def bytes16_def
  by (auto intro!: bit_word_eqI simp: bit_simps)

lemma bytes32_le32 [simp]: "bytes32 (le32 b0 b1 b2 b3) = [b0, b1, b2, b3]"
  unfolding le32_def bytes32_def
  by (auto intro!: bit_word_eqI simp: bit_simps)

lemma get_uint32_slice: "slice data off 4 = Some (bytes32 w) \<Longrightarrow> get_uint32_t data off = Some w"
  by (simp add: get_uint32_t_def bytes32_def)

lemma get_uint16_slice: "slice data off 2 = Some (bytes16 w) \<Longrightarrow> get_uint16_t data off = Some w"
  by (simp add: get_uint16_t_def bytes16_def)

lemma length4E:
  assumes "length xs = 4"
  obtains a b c d where "xs = [a, b, c, d]"
  using assms by (auto simp: length_Suc_conv numeral_eq_Suc)

lemma length2E:
  assumes "length xs = 2"
  obtains a b where "xs = [a, b]"
  using assms by (auto simp: length_Suc_conv numeral_eq_Suc)

lemma get_uint32_some: "off + 4 \<le> length data \<Longrightarrow> \<exists>w. get_uint32_t data off = Some w"
proof -
  assume le: "off + 4 \<le> length data"
  then have "length (take 4 (drop off data)) = 4" by simp
  then obtain a b c d where "take 4 (drop off data) = [a, b, c, d]" by (rule length4E)
  with le show ?thesis by (simp add: get_uint32_t_def slice_def)
qed

text \<open>Storing a value and reading it back; a store elsewhere is not seen.\<close>

lemma get_uint32_blit_same:
  "blit data off (bytes32 w) = Some data' \<Longrightarrow> get_uint32_t data' off = Some w"
  using slice_blit_same [of data off "bytes32 w" data'] by (intro get_uint32_slice) simp

lemma get_uint32_blit_other:
  "blit data off ys = Some data' \<Longrightarrow> k + 4 \<le> off \<or> off + length ys \<le> k \<Longrightarrow>
   get_uint32_t data' k = get_uint32_t data k"
  by (simp add: get_uint32_t_def slice_blit_other)

end
