(* ===== verification/Disk.thy ===== *)
theory Disk
  imports Bytes
begin

text \<open>
  The block device under the file system: \<open>VirtualDisk<ATA>\<close> of
  \<open>core/files/partitions/VirtualDisk.h\<close>, which checks the range of a logical block address
  and passes the command to the ATA driver. The drive behind the driver's ports is hardware,
  so it is data of the state: \<open>vd_read\<close> is its answer to a read of a sector (\<open>None\<close>: the
  command reports an error), \<open>vd_wok\<close> says which sectors accept a write, and \<open>vd_torn\<close>
  is what a sector answers after a failed write (any content, as the driver's status check
  comes after the transfer).

  The interface the file system relies on is the locale \<open>block_device\<close>: a write that reports
  success is read back, and other sectors do not change. \<open>put_all\<close> is the loop that writes a
  list of sectors and stops at the first failure.
\<close>

record vdisk =
  vd_start :: u32
  vd_count :: u32
  vd_read :: "u32 \<Rightarrow> bytes option"
  vd_wok :: "u32 \<Rightarrow> bool"
  vd_torn :: "u32 \<Rightarrow> bytes \<Rightarrow> bytes option"

definition isValidSector :: "vdisk \<Rightarrow> u32 \<Rightarrow> bool" where
  "isValidSector d lba \<longleftrightarrow> vd_start d \<le> lba \<and> lba < vd_count d"

definition readSector :: "vdisk \<Rightarrow> u32 \<Rightarrow> bytes option" where
  "readSector d lba = (if \<not> isValidSector d lba then None else vd_read d lba)"

definition writeSector :: "vdisk \<Rightarrow> u32 \<Rightarrow> bytes \<Rightarrow> bool \<times> vdisk" where
  "writeSector d lba buf =
     (if \<not> isValidSector d lba then (False, d)
      else if vd_wok d lba then (True, d\<lparr>vd_read := (vd_read d)(lba := Some buf)\<rparr>)
      else (False, d\<lparr>vd_read := (vd_read d)(lba := vd_torn d lba buf)\<rparr>))"

section \<open>The interface of a block device\<close>

fun put_all :: "('s \<Rightarrow> u32 \<Rightarrow> bytes \<Rightarrow> bool \<times> 's) \<Rightarrow> (u32 \<times> bytes) list \<Rightarrow> 's \<Rightarrow> bool \<times> 's" where
  "put_all wr [] s = (True, s)"
| "put_all wr ((a, x) # ps) s =
     (let (done, s') = wr s a x in if done then put_all wr ps s' else (False, s'))"

lemma put_all_Cons:
  "put_all wr (p # ps) s =
     (if fst (wr s (fst p) (snd p)) then put_all wr ps (snd (wr s (fst p) (snd p)))
      else (False, snd (wr s (fst p) (snd p))))"
  by (cases p) (simp split: prod.splits)

declare put_all.simps(2) [simp del]
declare put_all_Cons [simp]

locale block_device =
  fixes rd :: "'s \<Rightarrow> u32 \<Rightarrow> bytes option"
    and wr :: "'s \<Rightarrow> u32 \<Rightarrow> bytes \<Rightarrow> bool \<times> 's"
    and writable :: "'s \<Rightarrow> u32 \<Rightarrow> bool"
  assumes wr_accepts: "fst (wr s a x) = writable s a"
    and rd_wr_same: "writable s a \<Longrightarrow> rd (snd (wr s a x)) a = Some x"
    and rd_wr_other: "b \<noteq> a \<Longrightarrow> rd (snd (wr s a x)) b = rd s b"
    and writable_wr: "writable (snd (wr s a x)) b = writable s b"
begin

lemma put_all_done:
  "(\<And>a x. (a, x) \<in> set ps \<Longrightarrow> writable s a) \<Longrightarrow> fst (put_all wr ps s)"
proof (induction ps arbitrary: s)
  case Nil
  then show ?case by simp
next
  case (Cons p ps)
  have "fst (wr s (fst p) (snd p))"
    using Cons.prems [of "fst p" "snd p"] by (simp add: wr_accepts)
  moreover have "fst (put_all wr ps (snd (wr s (fst p) (snd p))))"
    using Cons.prems by (intro Cons.IH) (auto simp: writable_wr)
  ultimately show ?case by simp
qed

lemma put_all_writable: "writable (snd (put_all wr ps s)) b = writable s b"
  by (induction ps arbitrary: s) (simp_all add: writable_wr)

lemma put_all_other:
  "b \<notin> fst ` set ps \<Longrightarrow> rd (snd (put_all wr ps s)) b = rd s b"
  by (induction ps arbitrary: s) (simp_all add: rd_wr_other)

lemma put_all_same:
  assumes "(b, x) \<in> set ps" and "distinct (map fst ps)"
    and "\<And>a y. (a, y) \<in> set ps \<Longrightarrow> writable s a"
  shows "rd (snd (put_all wr ps s)) b = Some x"
  using assms
proof (induction ps arbitrary: s)
  case Nil
  then show ?case by simp
next
  case (Cons p ps)
  obtain a y where p: "p = (a, y)" by (cases p)
  have a: "writable s a" using Cons.prems(3) [of a y] by (simp add: p)
  have eq: "put_all wr (p # ps) s = put_all wr ps (snd (wr s a y))"
    using a by (simp add: p wr_accepts)
  show ?case
  proof (cases "(b, x) \<in> set ps")
    case True
    then show ?thesis
      unfolding eq using Cons.prems(2,3)
      by (intro Cons.IH) (auto simp: p writable_wr)
  next
    case False
    then have "b = a" "x = y" using Cons.prems(1) by (auto simp: p)
    moreover have "a \<notin> fst ` set ps" using Cons.prems(2) by (simp add: p)
    ultimately show ?thesis using a by (simp add: put_all_other rd_wr_same wr_accepts p)
  qed
qed

end

definition accepts :: "vdisk \<Rightarrow> u32 \<Rightarrow> bool" where
  "accepts d lba \<longleftrightarrow> isValidSector d lba \<and> vd_wok d lba"

lemma isValidSector_write [simp]:
  "isValidSector (snd (writeSector d a x)) b = isValidSector d b"
  by (simp add: writeSector_def isValidSector_def)

lemma vd_fields_write [simp, frames]:
  "vd_start (snd (writeSector d a x)) = vd_start d"
  "vd_count (snd (writeSector d a x)) = vd_count d"
  "vd_wok (snd (writeSector d a x)) = vd_wok d"
  "vd_torn (snd (writeSector d a x)) = vd_torn d"
  by (simp_all add: writeSector_def)

interpretation dev: block_device readSector writeSector accepts
proof unfold_locales
  fix s a x b
  show "fst (writeSector s a x) = accepts s a"
    by (simp add: writeSector_def accepts_def)
  show "accepts s a \<Longrightarrow> readSector (snd (writeSector s a x)) a = Some x"
    by (simp add: writeSector_def accepts_def readSector_def isValidSector_def)
  show "b \<noteq> a \<Longrightarrow> readSector (snd (writeSector s a x)) b = readSector s b"
    by (auto simp: writeSector_def readSector_def isValidSector_def)
  show "accepts (snd (writeSector s a x)) b = accepts s b"
    by (simp add: accepts_def)
qed

text \<open>
  The range check of \<open>VirtualDisk\<close> compares the address with \<open>countSectors_\<close> itself, not
  with \<open>startSector_ + countSectors_\<close>: of a device that starts at sector \<open>s\<close> only
  \<open>count - s\<close> sectors can be reached.
\<close>

lemma isValidSector_range:
  "{lba. isValidSector d lba} = {vd_start d ..< vd_count d}"
  by (auto simp: isValidSector_def)

lemma isValidSector_card:
  "unat (vd_start d) \<le> unat (vd_count d) \<Longrightarrow>
   card (unat ` {lba. isValidSector d lba}) = unat (vd_count d) - unat (vd_start d)"
proof -
  assume "unat (vd_start d) \<le> unat (vd_count d)"
  have "unat ` {lba. isValidSector d lba} = {unat (vd_start d) ..< unat (vd_count d)}"
  proof (intro equalityI subsetI)
    fix n
    assume n: "n \<in> {unat (vd_start d) ..< unat (vd_count d)}"
    then have "n < 4294967296" using unat_u32_lt [of "vd_count d"] by auto
    then have u: "unat (of_nat n :: u32) = n" by (simp add: unat_of_nat)
    then have "isValidSector d (of_nat n)"
      using n by (simp add: isValidSector_def word_le_nat_alt word_less_nat_alt)
    then show "n \<in> unat ` {lba. isValidSector d lba}" using u by force
  qed (auto simp: isValidSector_def word_le_nat_alt word_less_nat_alt)
  then show ?thesis by simp
qed

end
