(* ===== verification/Fat_Layout.thy ===== *)
theory Fat_Layout
  imports Disk
begin

text \<open>
  The geometry of a FAT partition (\<open>core/files/partitions/Fat32.h\<close>, \<open>Fat32.cpp\<close>): the fields
  read from the BIOS parameter block, the fields computed from them, and the two address
  computations every access goes through. \<open>part_ok\<close> is what a sound FAT32 boot sector
  makes of the fields; \<open>bpb_sound\<close> is that soundness stated on the parsed fields, and
  \<open>mkFAT32Partition_parsed\<close> shows that the constructor's own computation turns it into
  \<open>part_ok\<close>.
\<close>

datatype fat_type = Invalid | FAT12 | FAT16 | FAT32

record part =
  startSector :: u32
  countSectors :: u32
  clusterSizeBytes :: u32
  sectorSize :: u16
  clusterSize :: u8
  countReservedSectors :: u16
  countFATs :: u8
  countRootEntries :: u16
  countSectors16 :: u16
  fatSize16 :: u16
  hiddenSectors :: u32
  totalSectors32 :: u32
  fatSize32 :: u32
  extendedFlags :: u16
  fileSystemVersion :: u16
  rootCluster :: u32
  fsInfoSector :: u16
  backupBootSector :: u16
  driveNumber :: u8
  bootSignature :: u8
  volumeID :: u32
  volumeLabel :: bytes
  fileSystemType :: bytes
  rootDirSectors :: u32
  fatSize :: u32
  totalSectors :: u32
  firstDataSector :: u32
  reservedAndFatSectorsCount :: u32
  dataSectorCount :: u32
  countClusters :: u32
  ptype :: fat_type
  fatOffsetMult :: u8

text \<open>A freshly constructed partition object: the members' default initialisers.\<close>

definition new_part :: "u32 \<Rightarrow> u32 \<Rightarrow> part" where
  "new_part start count =
     \<lparr>startSector = start, countSectors = count, clusterSizeBytes = 0, sectorSize = 0,
      clusterSize = 0, countReservedSectors = 0, countFATs = 0, countRootEntries = 0,
      countSectors16 = 0, fatSize16 = 0, hiddenSectors = 0, totalSectors32 = 0, fatSize32 = 0,
      extendedFlags = 0, fileSystemVersion = 0, rootCluster = 0, fsInfoSector = 0,
      backupBootSector = 0, driveNumber = 0, bootSignature = 0, volumeID = 0,
      volumeLabel = replicate 11 0, fileSystemType = replicate 8 0, rootDirSectors = 0,
      fatSize = 0, totalSectors = 0, firstDataSector = 0, reservedAndFatSectorsCount = 0,
      dataSectorCount = 0, countClusters = 0, ptype = Invalid, fatOffsetMult = 0\<rparr>"

text \<open>
  \<open>parseBIOSParameterBlock\<close>: \<open>(False, p)\<close> when the boot sector cannot be read or a size is
  zero. The fields are stored before the sizes are checked, so a refused boot sector
  leaves them set.
\<close>

definition parse_fields :: "bytes \<Rightarrow> part \<Rightarrow> part option" where
  "parse_fields bs p =
     do { ss \<leftarrow> get_uint16_t bs 11;
          cs \<leftarrow> get_uint8_t bs 13;
          rs \<leftarrow> get_uint16_t bs 14;
          nf \<leftarrow> get_uint8_t bs 16;
          re \<leftarrow> get_uint16_t bs 17;
          c16 \<leftarrow> get_uint16_t bs 19;
          f16 \<leftarrow> get_uint16_t bs 22;
          hs \<leftarrow> get_uint32_t bs 28;
          t32 \<leftarrow> get_uint32_t bs 32;
          f32 \<leftarrow> get_uint32_t bs 36;
          ef \<leftarrow> get_uint16_t bs 40;
          fv \<leftarrow> get_uint16_t bs 42;
          rc \<leftarrow> get_uint32_t bs 44;
          fi \<leftarrow> get_uint16_t bs 48;
          bb \<leftarrow> get_uint16_t bs 50;
          dn \<leftarrow> get_uint8_t bs 64;
          sg \<leftarrow> get_uint8_t bs 66;
          vi \<leftarrow> get_uint32_t bs 67;
          vl \<leftarrow> slice bs 71 11;
          ft \<leftarrow> slice bs 82 8;
          Some (p\<lparr>sectorSize := ss, clusterSize := cs, countReservedSectors := rs,
                  countFATs := nf, countRootEntries := re, countSectors16 := c16,
                  fatSize16 := f16, hiddenSectors := hs, totalSectors32 := t32,
                  fatSize32 := f32, extendedFlags := ef, fileSystemVersion := fv,
                  rootCluster := rc, fsInfoSector := fi, backupBootSector := bb,
                  driveNumber := dn, bootSignature := sg, volumeID := vi,
                  volumeLabel := vl, fileSystemType := ft\<rparr>) }"

definition parseBIOSParameterBlock :: "vdisk \<Rightarrow> part \<Rightarrow> (bool \<times> part) option" where
  "parseBIOSParameterBlock d p =
     (case readSector d (startSector p) of
        None \<Rightarrow> Some (False, p)
      | Some bs \<Rightarrow>
          do { p' \<leftarrow> parse_fields bs p;
               if sectorSize p' = 0 \<or> clusterSize p' = 0 then Some (False, p')
               else Some (True, p') })"

definition classify :: "u32 \<Rightarrow> fat_type" where
  "classify clusters =
     (if clusters < 3 then Invalid else if clusters < 4085 then FAT12
      else if clusters < 65525 then FAT16 else FAT32)"

definition initializeAdditionalFields :: "part \<Rightarrow> bool \<times> part" where
  "initializeAdditionalFields p =
     (let rds = (ucast (countRootEntries p) * 32 + (ucast (sectorSize p) - 1)) div ucast (sectorSize p);
          fs = (if fatSize16 p = 0 then fatSize32 p else ucast (fatSize16 p));
          ts = (if countSectors16 p = 0 then totalSectors32 p else ucast (countSectors16 p));
          first = startSector p + ucast (countReservedSectors p) + ucast (countFATs p) * fs + rds;
          resv = ucast (countReservedSectors p) + ucast (countFATs p) * fs + rds;
          dsec = ts - resv;
          ncl = dsec div ucast (clusterSize p);
          ty = classify ncl;
          mult = (if ty = FAT16 then 2 else if ty = FAT32 then 4 else fatOffsetMult p);
          p' = p\<lparr>rootDirSectors := rds, fatSize := fs, totalSectors := ts,
                 firstDataSector := first, reservedAndFatSectorsCount := resv,
                 dataSectorCount := dsec, countClusters := ncl, ptype := ty,
                 fatOffsetMult := mult\<rparr>
      in (ty = FAT32, p'))"

text \<open>The constructor \<open>FAT32Partition\<close>: each failed step returns early.\<close>

definition mkFAT32Partition :: "vdisk \<Rightarrow> u32 \<Rightarrow> u32 \<Rightarrow> part option" where
  "mkFAT32Partition d start count =
     do { (parsed, p) \<leftarrow> parseBIOSParameterBlock d (new_part start count);
          if \<not> parsed then Some p
          else let (inited, p') = initializeAdditionalFields p in
            if \<not> inited then Some p'
            else Some (p'\<lparr>clusterSizeBytes := ucast (clusterSize p') * ucast (sectorSize p')\<rparr>) }"

section \<open>Address computations\<close>

definition calculateFATOffset :: "part \<Rightarrow> u32 \<Rightarrow> u32 \<times> u32" where
  "calculateFATOffset p c =
     (let off = ucast (fatOffsetMult p) * c;
          sector = ucast (countReservedSectors p) + off div ucast (sectorSize p);
          entry = off mod ucast (sectorSize p)
      in (sector + startSector p, entry))"

definition getFirstSectorOfCluster :: "part \<Rightarrow> u32 \<Rightarrow> u32 option" where
  "getFirstSectorOfCluster p c =
     (if c < rootCluster p \<or> c \<ge> countClusters p then None
      else Some (firstDataSector p + (c - 2) * ucast (clusterSize p)))"

section \<open>Sound geometry\<close>

text \<open>
  The numbers of a FAT32 volume: 512-byte sectors, one entry of every FAT for each cluster,
  the FATs between the boot sector and the data, the data within 32-bit addresses.
\<close>

definition part_ok :: "part \<Rightarrow> bool" where
  "part_ok p \<longleftrightarrow>
     ptype p = FAT32 \<and> fatOffsetMult p = 4 \<and> sectorSize p = 512 \<and>
     0 < clusterSize p \<and> 0 < countFATs p \<and>
     2 \<le> rootCluster p \<and> rootCluster p < countClusters p \<and>
     countClusters p \<le> 0x0FFFFFF6 \<and>
     clusterSizeBytes p = ucast (clusterSize p) * 512 \<and>
     unat (countClusters p) \<le> 128 * unat (fatSize p) \<and>
     unat (startSector p) + unat (countReservedSectors p) + unat (countFATs p) * unat (fatSize p)
       \<le> unat (firstDataSector p) \<and>
     unat (firstDataSector p) + unat (countClusters p) * unat (clusterSize p) < 4294967296"

definition fat_sector :: "part \<Rightarrow> u32 \<Rightarrow> nat" where
  "fat_sector p c =
     unat (startSector p) + unat (countReservedSectors p) + unat c div 128"

definition data_sector :: "part \<Rightarrow> u32 \<Rightarrow> nat" where
  "data_sector p c = unat (firstDataSector p) + (unat c - 2) * unat (clusterSize p)"

lemma part_ok_sums:
  assumes "part_ok p"
  shows "unat (startSector p) + unat (countReservedSectors p) + unat (countFATs p) * unat (fatSize p)
       \<le> unat (firstDataSector p)"
    and "unat (firstDataSector p) + unat (countClusters p) * unat (clusterSize p) < 4294967296"
    and "unat (countClusters p) \<le> 128 * unat (fatSize p)"
  using assms by (simp_all only: part_ok_def)

lemma part_ok_bounds:
  assumes "part_ok p"
  shows "unat (countClusters p) \<le> 268435446" "unat (clusterSize p) < 256" "0 < unat (clusterSize p)"
    "0 < unat (countFATs p)" "unat (fatOffsetMult p) = 4" "unat (sectorSize p) = 512"
proof -
  have "countClusters p \<le> 0x0FFFFFF6" using assms by (simp add: part_ok_def)
  then show "unat (countClusters p) \<le> 268435446" by (simp add: word_le_nat_alt)
  show "unat (clusterSize p) < 256" by (rule unat_u8_lt)
  show "0 < unat (clusterSize p)" "0 < unat (countFATs p)"
    using assms by (auto simp: part_ok_def word_less_nat_alt)
  show "unat (fatOffsetMult p) = 4" "unat (sectorSize p) = 512"
    using assms by (simp_all add: part_ok_def)
qed

definition bpb_resv :: "part \<Rightarrow> nat" where
  "bpb_resv q = unat (countReservedSectors q) + unat (countFATs q) * unat (fatSize32 q)"

definition bpb_clusters :: "part \<Rightarrow> nat" where
  "bpb_clusters q = (unat (totalSectors32 q) - bpb_resv q) div unat (clusterSize q)"

definition bpb_sound :: "part \<Rightarrow> bool" where
  "bpb_sound q \<longleftrightarrow>
     sectorSize q = 512 \<and> 0 < clusterSize q \<and> 0 < countFATs q \<and> countRootEntries q = 0 \<and>
     fatSize16 q = 0 \<and> countSectors16 q = 0 \<and>
     bpb_resv q \<le> unat (totalSectors32 q) \<and>
     unat (startSector q) + unat (totalSectors32 q) < 4294967296 \<and>
     65525 \<le> bpb_clusters q \<and> bpb_clusters q \<le> 0x0FFFFFF6 \<and>
     bpb_clusters q \<le> 128 * unat (fatSize32 q) \<and>
     2 \<le> rootCluster q \<and> unat (rootCluster q) < bpb_clusters q"

lemma bpb_soundD:
  assumes "bpb_sound q"
  shows "bpb_resv q \<le> unat (totalSectors32 q)"
    "unat (startSector q) + unat (totalSectors32 q) < 4294967296"
    "65525 \<le> bpb_clusters q" "bpb_clusters q \<le> 0x0FFFFFF6"
    "bpb_clusters q \<le> 128 * unat (fatSize32 q)" "unat (rootCluster q) < bpb_clusters q"
    "0 < unat (clusterSize q)"
  using assms by (auto simp: bpb_sound_def word_less_nat_alt)

lemma classify_FAT32: "65525 \<le> unat n \<Longrightarrow> classify n = FAT32"
  by (auto simp: classify_def word_less_nat_alt)

lemma initializeAdditionalFields_sound:
  assumes s: "bpb_sound q"
  defines "p \<equiv> snd (initializeAdditionalFields q)"
  shows "fst (initializeAdditionalFields q)"
    and "part_ok (p\<lparr>clusterSizeBytes := ucast (clusterSize p) * ucast (sectorSize p)\<rparr>)"
    and "unat (countClusters p) = bpb_clusters q"
proof -
  note b = bpb_soundD [OF s]
  let ?resv = "ucast (countReservedSectors q) + ucast (countFATs q) * fatSize32 q :: u32"
  have fs: "sectorSize q = 512" "countRootEntries q = 0" "fatSize16 q = 0" "countSectors16 q = 0"
    using s by (simp_all add: bpb_sound_def)
  have m: "unat (ucast (countFATs q) * fatSize32 q) = unat (countFATs q) * unat (fatSize32 q)"
    using b(1,2) by (subst unat_mult_small) (simp_all add: bpb_resv_def unats)
  have resv: "unat ?resv = bpb_resv q"
    using b(1,2) by (subst unat_add_small) (simp_all add: bpb_resv_def unats m)
  have dsec: "unat (totalSectors32 q - ?resv) = unat (totalSectors32 q) - bpb_resv q"
    using b(1) by (subst unat_sub_le) (simp_all add: u32_le_iff resv)
  have ncl: "unat ((totalSectors32 q - ?resv) div ucast (clusterSize q)) = bpb_clusters q"
    by (simp add: unat_div dsec bpb_clusters_def unats)
  have cls: "classify ((totalSectors32 q - ?resv) div ucast (clusterSize q)) = FAT32"
    using b(3) by (intro classify_FAT32) (simp add: ncl)
  have "unat (startSector q + ?resv) = unat (startSector q) + bpb_resv q"
    using b(1,2) by (subst unat_add_small) (simp_all add: resv)
  then have first: "unat (startSector q + ucast (countReservedSectors q) + ucast (countFATs q) * fatSize32 q)
      = unat (startSector q) + bpb_resv q"
    by (simp add: add.assoc)
  have "bpb_clusters q * unat (clusterSize q) \<le> unat (totalSectors32 q) - bpb_resv q"
    by (simp add: bpb_clusters_def)
  then have room: "unat (startSector q) + bpb_resv q + bpb_clusters q * unat (clusterSize q) < 4294967296"
    using b(1,2) by linarith
  show "fst (initializeAdditionalFields q)" "unat (countClusters p) = bpb_clusters q"
    by (simp_all add: p_def initializeAdditionalFields_def Let_def fs cls ncl)
  show "part_ok (p\<lparr>clusterSizeBytes := ucast (clusterSize p) * ucast (sectorSize p)\<rparr>)"
    using b(4-6) room s
    by (simp add: p_def part_ok_def initializeAdditionalFields_def Let_def fs cls ncl first
        u32_less_iff u32_le_iff bpb_sound_def)
      (simp add: bpb_resv_def)
qed

lemma startSector_parse_fields: "parse_fields bs p = Some q \<Longrightarrow> startSector q = startSector p"
  by (auto simp: parse_fields_def split: Option.bind_splits)

lemma mkFAT32Partition_parsed:
  assumes "readSector d start = Some bs" and "parse_fields bs (new_part start count) = Some q"
    and "bpb_sound q"
  shows "\<exists>p. mkFAT32Partition d start count = Some p \<and> part_ok p \<and>
    unat (countClusters p) = bpb_clusters q"
proof -
  have z: "sectorSize q \<noteq> 0" "clusterSize q \<noteq> 0" using assms(3) by (auto simp: bpb_sound_def)
  have st: "startSector (new_part start count) = start" by (simp add: new_part_def)
  show ?thesis
    using initializeAdditionalFields_sound [OF assms(3)] z
    by (simp add: mkFAT32Partition_def parseBIOSParameterBlock_def assms(1,2) st case_prod_unfold Let_def)
qed

text \<open>No wrap-around: on a sound partition the 32-bit computation is the intended one.\<close>

lemma fat_offset_exact:
  assumes ok: "part_ok p" and c: "c < countClusters p"
  shows "unat (fst (calculateFATOffset p c)) = fat_sector p c"
    and "unat (snd (calculateFATOffset p c)) = 4 * (unat c mod 128)"
proof -
  have cc: "unat c < unat (countClusters p)" using c by (simp add: word_less_nat_alt)
  note b = part_ok_bounds [OF ok]
  have mult: "unat (ucast (fatOffsetMult p) * c) = 4 * unat c"
    using cc b by (simp add: unat_mult_small unats)
  have div: "unat (ucast (fatOffsetMult p) * c div ucast (sectorSize p)) = unat c div 128"
    using b by (simp add: unat_div mult unats)
  have md: "unat (ucast (fatOffsetMult p) * c mod ucast (sectorSize p)) = 4 * (unat c mod 128)"
    using b by (simp add: unat_mod mult unats mult_mod_right)
  then show "unat (snd (calculateFATOffset p c)) = 4 * (unat c mod 128)"
    by (simp add: calculateFATOffset_def Let_def)
  have dl: "unat c div 128 < unat (fatSize p)"
    using cc part_ok_sums(3) [OF ok] by (simp add: div_less_iff_less_mult)
  have "unat (fatSize p) \<le> unat (countFATs p) * unat (fatSize p)" using b by simp
  then have sum: "unat (startSector p) + unat (countReservedSectors p) + unat c div 128 < 4294967296"
    using part_ok_sums(1) [OF ok] dl unat_u32_lt [of "firstDataSector p"] by linarith
  have rs: "unat (ucast (countReservedSectors p) +
      ucast (fatOffsetMult p) * c div ucast (sectorSize p) :: u32)
      = unat (countReservedSectors p) + unat c div 128"
    using sum by (subst unat_add_small) (simp_all add: div unats)
  show "unat (fst (calculateFATOffset p c)) = fat_sector p c"
    using sum by (simp add: calculateFATOffset_def Let_def fat_sector_def unat_add_small rs)
qed

lemma fat_offset_entry:
  assumes "part_ok p" and "c < countClusters p"
  shows "unat (snd (calculateFATOffset p c)) + 4 \<le> 512"
  using fat_offset_exact(2) [OF assms] by simp

text \<open>Two clusters share neither an entry nor a sector of data.\<close>

lemma fat_entry_disjoint:
  assumes "part_ok p" and "a < countClusters p" and "b < countClusters p" and "a \<noteq> b"
    and same: "fst (calculateFATOffset p a) = fst (calculateFATOffset p b)"
  shows "unat (snd (calculateFATOffset p a)) + 4 \<le> unat (snd (calculateFATOffset p b)) \<or>
         unat (snd (calculateFATOffset p b)) + 4 \<le> unat (snd (calculateFATOffset p a))"
proof -
  have "fat_sector p a = fat_sector p b"
    using fat_offset_exact(1) assms by metis
  then have "unat a div 128 = unat b div 128" by (simp add: fat_sector_def)
  moreover have "unat a \<noteq> unat b" using assms(4) by (simp add: word_unat_eq_iff)
  ultimately have "unat a mod 128 \<noteq> unat b mod 128"
    by (metis div_mult_mod_eq)
  then show ?thesis
    using fat_offset_exact(2) assms(1,2,3) by auto
qed

lemma first_sector_exact:
  assumes ok: "part_ok p" and c: "rootCluster p \<le> c" "c < countClusters p"
  shows "\<exists>s. getFirstSectorOfCluster p c = Some s \<and> unat s = data_sector p c"
proof -
  have cc: "unat c < unat (countClusters p)" using c(2) by (simp add: word_less_nat_alt)
  have "2 \<le> c" using ok c(1) by (auto simp: part_ok_def)
  then have sub: "unat (c - 2) = unat c - 2" by (simp add: unat_sub_le)
  have "(unat c - 2) * unat (clusterSize p) \<le> unat (countClusters p) * unat (clusterSize p)"
    using cc by (intro mult_le_mono1) simp
  then have sum: "unat (firstDataSector p) + (unat c - 2) * unat (clusterSize p) < 4294967296"
    using part_ok_sums(2) [OF ok] by linarith
  have m: "unat ((c - 2) * ucast (clusterSize p)) = (unat c - 2) * unat (clusterSize p)"
    using sum by (subst unat_mult_small) (simp_all add: sub unats)
  show ?thesis
    using c sum by (simp add: getFirstSectorOfCluster_def data_sector_def unat_add_small m not_less not_le)
qed

lemma data_sector_disjoint:
  assumes "part_ok p" and "2 \<le> unat a" and "2 \<le> unat b" and "a \<noteq> b"
    and "i < unat (clusterSize p)" and "j < unat (clusterSize p)"
  shows "data_sector p a + i \<noteq> data_sector p b + j"
proof
  assume "data_sector p a + i = data_sector p b + j"
  then have e: "(unat a - 2) * unat (clusterSize p) + i = (unat b - 2) * unat (clusterSize p) + j"
    by (simp add: data_sector_def)
  have "unat a - 2 = ((unat a - 2) * unat (clusterSize p) + i) div unat (clusterSize p)"
    using assms(5) by simp
  also have "\<dots> = unat b - 2" using assms(6) by (simp add: e)
  finally have "unat a = unat b" using assms(2,3) by simp
  with assms(4) show False by (simp add: word_unat_eq_iff)
qed

lemma fat_sector_below_data:
  assumes ok: "part_ok p" and c: "c < countClusters p" and k: "k < unat (countFATs p)"
  shows "fat_sector p c + k * unat (fatSize p) < unat (firstDataSector p)"
proof -
  have cc: "unat c < unat (countClusters p)" using c by (simp add: word_less_nat_alt)
  then have "unat c div 128 < unat (fatSize p)"
    using part_ok_sums(3) [OF ok] by (simp add: div_less_iff_less_mult)
  moreover have "(k + 1) * unat (fatSize p) \<le> unat (countFATs p) * unat (fatSize p)"
    using k by (intro mult_le_mono1) simp
  ultimately show ?thesis using part_ok_sums(1) [OF ok] by (simp add: fat_sector_def)
qed

end
