(* ===== verification/Fat_Table.thy ===== *)
theory Fat_Table
  imports Fat_Layout
begin

text \<open>
  The file allocation table: the cluster methods of \<open>FAT32Partition\<close>. The table of a sound
  partition is seen as a function from clusters to 28-bit entries (\<open>fat_tab\<close>); every method
  is shown to be the expected operation on that function.
\<close>

section \<open>Definitions\<close>

definition EOC_MARK :: u32 where "EOC_MARK = 0xFFFFFFFF"

definition parseNextClusterFromFATSector :: "part \<Rightarrow> bytes \<Rightarrow> u32 \<Rightarrow> u32 \<Rightarrow> u32 option" where
  "parseNextClusterFromFATSector p sectorData entryOffset currentCluster =
     (case ptype p of
        FAT32 \<Rightarrow>
          do { v \<leftarrow> get_uint32_t sectorData (unat entryOffset);
               let nextCluster = v AND 0x0FFFFFFF in
               Some (if nextCluster \<ge> 0x0FFFFFF8 then EOC_MARK else nextCluster) }
      | FAT16 \<Rightarrow>
          do { nextCluster \<leftarrow> get_uint16_t sectorData (unat entryOffset);
               Some (if nextCluster \<ge> 0xFFF8 then EOC_MARK else ucast nextCluster) }
      | FAT12 \<Rightarrow>
          do { v \<leftarrow> get_uint16_t sectorData (unat entryOffset);
               let nextCluster = (if currentCluster AND 1 \<noteq> 0 then drop_bit 4 v else v AND 0x0FFF) in
               Some (if nextCluster \<ge> 0xFF8 then EOC_MARK else ucast nextCluster) }
      | Invalid \<Rightarrow> Some EOC_MARK)"

definition getNextCluster :: "part \<Rightarrow> vdisk \<Rightarrow> u32 \<Rightarrow> u32 option" where
  "getNextCluster p d c =
     (if c \<ge> countClusters p then None
      else let (fatSector, entryOffset) = calculateFATOffset p c in
        case readSector d fatSector of
          None \<Rightarrow> Some 0
        | Some sectorData \<Rightarrow> parseNextClusterFromFATSector p sectorData entryOffset c)"

text \<open>
  The traversal with the cached FAT sector. The counter is the number of iterations the
  source's bound leaves; \<open>cachedSector\<close> is \<open>UINT32_MAX\<close> until the first read.
\<close>

fun rcc_loop :: "part \<Rightarrow> vdisk \<Rightarrow> nat \<Rightarrow> u32 \<Rightarrow> u32 list \<Rightarrow> u32 \<Rightarrow> bytes \<Rightarrow> u32 list option" where
  "rcc_loop p d 0 cur clusters cachedSector cached = Some clusters"
| "rcc_loop p d (Suc n) cur clusters cachedSector cached =
     (if \<not> cur < 0x0FFFFFF8 then Some clusters
      else if cur \<in> set clusters then Some clusters
      else if cur = 0 then Some clusters
      else let clusters' = clusters @ [cur];
               (fatSector, entryOffset) = calculateFATOffset p cur in
        case (if fatSector \<noteq> cachedSector then readSector d fatSector else Some cached) of
          None \<Rightarrow> Some clusters'
        | Some sectorData \<Rightarrow>
            do { nextCluster \<leftarrow> parseNextClusterFromFATSector p sectorData entryOffset cur;
                 if nextCluster = EOC_MARK then Some clusters'
                 else rcc_loop p d n nextCluster clusters' fatSector sectorData })"

definition MAX_CHAIN :: nat where "MAX_CHAIN = 1048576"

definition readClusterChain :: "part \<Rightarrow> vdisk \<Rightarrow> u32 \<Rightarrow> u32 list option" where
  "readClusterChain p d start =
     (if start \<ge> countClusters p then None
      else rcc_loop p d MAX_CHAIN start [] EOC_MARK [])"

text \<open>The unoptimised traversal kept in the source as a reference.\<close>

fun rcc_naive :: "part \<Rightarrow> vdisk \<Rightarrow> nat \<Rightarrow> u32 \<Rightarrow> u32 list \<Rightarrow> u32 list option" where
  "rcc_naive p d 0 cur clusters = Some clusters"
| "rcc_naive p d (Suc n) cur clusters =
     (if \<not> cur < 0x0FFFFFF8 then Some clusters
      else if cur \<in> set clusters then Some clusters
      else if cur = 0 then Some clusters
      else do { next \<leftarrow> getNextCluster p d cur;
                rcc_naive p d n next (clusters @ [cur]) })"

definition readClusterChain_ORIGINAL :: "part \<Rightarrow> vdisk \<Rightarrow> u32 \<Rightarrow> u32 list option" where
  "readClusterChain_ORIGINAL p d start =
     (if start \<ge> countClusters p then None else rcc_naive p d MAX_CHAIN start [])"

text \<open>The bounded traversal: skip \<open>skip\<close> clusters, collect at most \<open>required\<close>.\<close>

fun rcc_range_loop ::
  "part \<Rightarrow> vdisk \<Rightarrow> nat \<Rightarrow> u32 \<Rightarrow> u32 \<Rightarrow> u32 \<Rightarrow> u32 list \<Rightarrow> u32 \<Rightarrow> bytes \<Rightarrow> u32 list option" where
  "rcc_range_loop p d 0 cur skip required clusters cachedSector cached = Some clusters"
| "rcc_range_loop p d (Suc n) cur skip required clusters cachedSector cached =
     (if \<not> cur < 0x0FFFFFF8 then Some clusters
      else if length clusters \<ge> unat required then Some clusters
      else let clusters' = (if skip > 0 then clusters else clusters @ [cur]);
               skip' = (if skip > 0 then skip - 1 else skip) in
        if \<not> skip > 0 \<and> cur \<in> set clusters then Some clusters'
        else let (fatSector, entryOffset) = calculateFATOffset p cur in
          case (if fatSector \<noteq> cachedSector then readSector d fatSector else Some cached) of
            None \<Rightarrow> Some clusters'
          | Some sectorData \<Rightarrow>
              do { nextCluster \<leftarrow> parseNextClusterFromFATSector p sectorData entryOffset cur;
                   if nextCluster = EOC_MARK then Some clusters'
                   else rcc_range_loop p d n nextCluster skip' required clusters' fatSector sectorData })"

definition readClusterChain_range :: "part \<Rightarrow> vdisk \<Rightarrow> u32 \<Rightarrow> u32 \<Rightarrow> u32 \<Rightarrow> u32 list option" where
  "readClusterChain_range p d start offset sz =
     (if start \<ge> countClusters p then None
      else let csb = ucast (clusterSize p) * ucast (sectorSize p);
               skip = offset div csb;
               required = (sz + csb - 1) div csb in
        if csb = 0 then None
        else rcc_range_loop p d (unat (countClusters p)) start skip required [] EOC_MARK [])"

definition writeFATs :: "part \<Rightarrow> u32 \<Rightarrow> bytes \<Rightarrow> vdisk \<Rightarrow> bool \<times> vdisk" where
  "writeFATs p fatSector sectorData d =
     put_all writeSector
       (map (\<lambda>fatNum. (fatSector + of_nat fatNum * fatSize p, sectorData)) [0..<unat (countFATs p)]) d"

definition setNextCluster :: "part \<Rightarrow> u32 \<Rightarrow> u32 \<Rightarrow> vdisk \<Rightarrow> (bool \<times> vdisk) option" where
  "setNextCluster p c nextCluster d =
     (if c < 2 \<or> c \<ge> countClusters p then None
      else let (fatSector, entryOffset) = calculateFATOffset p c in
        case readSector d fatSector of
          None \<Rightarrow> Some (False, d)
        | Some sectorData \<Rightarrow>
            (case ptype p of
               FAT32 \<Rightarrow>
                 do { sectorData' \<leftarrow> blit sectorData (unat entryOffset)
                        (bytes32 (nextCluster AND 0x0FFFFFFF));
                      Some (writeFATs p fatSector sectorData' d) }
             | FAT16 \<Rightarrow>
                 do { sectorData' \<leftarrow> blit sectorData (unat entryOffset)
                        (bytes16 (ucast (nextCluster AND 0xFFFF)));
                      Some (writeFATs p fatSector sectorData' d) }
             | FAT12 \<Rightarrow> Some (False, d)
             | Invalid \<Rightarrow> Some (False, d)))"

partial_function (option) free_loop :: "part \<Rightarrow> u32 \<Rightarrow> vdisk \<Rightarrow> vdisk option" where
  "free_loop p c d =
     (if c < 0x0FFFFFF8 then
        do { nextCluster \<leftarrow> getNextCluster p d c;
             r \<leftarrow> setNextCluster p c 0 d;
             if nextCluster = 0 \<or> nextCluster > 0x0FFFFFF7 then Some (snd r)
             else free_loop p nextCluster (snd r) }
      else Some d)"

definition freeClusterChain :: "part \<Rightarrow> u32 \<Rightarrow> vdisk \<Rightarrow> vdisk option" where
  "freeClusterChain p start d = (if start \<ge> countClusters p then None else free_loop p start d)"

function alloc_loop :: "part \<Rightarrow> u32 \<Rightarrow> vdisk \<Rightarrow> (u32 option \<times> vdisk) option" where
  "alloc_loop p c d =
     (if c < countClusters p then
        do { nextCluster \<leftarrow> getNextCluster p d c;
             if nextCluster = 0 then
               do { (done, d') \<leftarrow> setNextCluster p c 0x0FFFFFFF d;
                    if done then Some (Some c, d') else Some (None, d') }
             else alloc_loop p (c + 1) d }
      else Some (None, d))"
  by pat_completeness auto
termination
proof (relation "measure (\<lambda>(p, c, d). unat (countClusters p) - unat c)")
  fix p c d and x :: u32
  assume lt: "c < countClusters p"
  then have "unat (c + 1) = unat c + 1"
    using unat_u32_lt [of "countClusters p"] by (subst unat_add_small) (auto simp: u32_less_iff)
  with lt show "((p, c + 1, d), p, c, d) \<in> measure (\<lambda>(p, c, d). unat (countClusters p) - unat c)"
    by (auto simp: u32_less_iff)
qed simp

definition allocateCluster :: "part \<Rightarrow> vdisk \<Rightarrow> (u32 option \<times> vdisk) option" where
  "allocateCluster p d = alloc_loop p (rootCluster p) d"

declare alloc_loop.simps [simp del]

section \<open>The table as a function\<close>

definition fat_tab :: "part \<Rightarrow> vdisk \<Rightarrow> u32 \<Rightarrow> u32" where
  "fat_tab p d c =
     (case readSector d (fst (calculateFATOffset p c)) of
        None \<Rightarrow> 0
      | Some s \<Rightarrow> (case get_uint32_t s (unat (snd (calculateFATOffset p c))) of
          None \<Rightarrow> 0 | Some v \<Rightarrow> v AND 0x0FFFFFFF))"

definition eoc :: "u32 \<Rightarrow> u32" where
  "eoc v = (if v \<ge> 0x0FFFFFF8 then EOC_MARK else v)"

text \<open>Every sector of the partition up to the end of the clusters can be read and written.\<close>

definition disk_ok :: "part \<Rightarrow> vdisk \<Rightarrow> bool" where
  "disk_ok p d \<longleftrightarrow>
     (\<forall>lba. unat (startSector p) \<le> unat lba \<and>
            unat lba < unat (firstDataSector p) + unat (countClusters p) * unat (clusterSize p) \<longrightarrow>
        accepts d lba \<and> (\<exists>s. readSector d lba = Some s \<and> length s = 512))"

text \<open>The data area as the file layer sees it: what each data sector reads as.\<close>

definition same_data :: "part \<Rightarrow> vdisk \<Rightarrow> vdisk \<Rightarrow> bool" where
  "same_data p d d' \<longleftrightarrow>
     (\<forall>lba. unat (firstDataSector p) \<le> unat lba \<longrightarrow> readSector d' lba = readSector d lba)"

lemma same_data_refl [simp, intro]: "same_data p d d"
  by (simp add: same_data_def)

lemma same_data_trans: "same_data p a b \<Longrightarrow> same_data p b c \<Longrightarrow> same_data p a c"
  by (simp add: same_data_def)

lemma disk_okD:
  assumes "disk_ok p d" and "unat (startSector p) \<le> unat lba"
    and "unat lba < unat (firstDataSector p) + unat (countClusters p) * unat (clusterSize p)"
  shows "accepts d lba" and "\<exists>s. readSector d lba = Some s \<and> length s = 512"
  using assms unfolding disk_ok_def by blast+

lemma fat_sector_in_range:
  assumes "part_ok p" and "c < countClusters p"
  shows "unat (startSector p) \<le> fat_sector p c"
    and "fat_sector p c < unat (firstDataSector p) + unat (countClusters p) * unat (clusterSize p)"
proof -
  show "unat (startSector p) \<le> fat_sector p c" by (simp add: fat_sector_def)
  have "fat_sector p c + 0 * unat (fatSize p) < unat (firstDataSector p)"
    using part_ok_bounds(4) [OF assms(1)] by (intro fat_sector_below_data assms) simp
  then show "fat_sector p c < unat (firstDataSector p) + unat (countClusters p) * unat (clusterSize p)"
    by simp
qed

lemma fat_entry_readable:
  assumes p: "part_ok p" and d: "disk_ok p d" and c: "c < countClusters p"
  obtains s v where "readSector d (fst (calculateFATOffset p c)) = Some s" "length s = 512"
    "get_uint32_t s (unat (snd (calculateFATOffset p c))) = Some v" "fat_tab p d c = v AND 0x0FFFFFFF"
proof -
  have "\<exists>s. readSector d (fst (calculateFATOffset p c)) = Some s \<and> length s = 512"
    using fat_sector_in_range [OF p c] fat_offset_exact(1) [OF p c]
    by (intro disk_okD(2) [OF d]) simp_all
  then obtain s where s: "readSector d (fst (calculateFATOffset p c)) = Some s" "length s = 512"
    by blast
  then obtain v where "get_uint32_t s (unat (snd (calculateFATOffset p c))) = Some v"
    using get_uint32_some fat_offset_entry [OF p c] by metis
  with s that show thesis by (simp add: fat_tab_def)
qed

lemma part_ok_type [simp]: "part_ok p \<Longrightarrow> ptype p = FAT32"
  by (simp add: part_ok_def)

text \<open>Reading an entry is reading the table.\<close>

lemma getNextCluster_tab:
  assumes p: "part_ok p" and d: "disk_ok p d" and c: "c < countClusters p"
  shows "getNextCluster p d c = Some (eoc (fat_tab p d c))"
proof -
  obtain s v where "readSector d (fst (calculateFATOffset p c)) = Some s"
    "get_uint32_t s (unat (snd (calculateFATOffset p c))) = Some v" "fat_tab p d c = v AND 0x0FFFFFFF"
    using fat_entry_readable [OF p d c] by metis
  with p c show ?thesis
    by (simp add: getNextCluster_def parseNextClusterFromFATSector_def eoc_def Let_def
        case_prod_unfold not_le)
qed

section \<open>Setting an entry\<close>

definition fat_copy :: "part \<Rightarrow> u32 \<Rightarrow> nat \<Rightarrow> u32" where
  "fat_copy p c k = fst (calculateFATOffset p c) + of_nat k * fatSize p"

lemma unat_fat_copy:
  assumes p: "part_ok p" and c: "c < countClusters p" and k: "k < unat (countFATs p)"
  shows "unat (fat_copy p c k) = fat_sector p c + k * unat (fatSize p)"
proof -
  have lt: "fat_sector p c + k * unat (fatSize p) < unat (firstDataSector p)"
    by (rule fat_sector_below_data [OF p c k])
  have kk: "unat (of_nat k :: u32) = k"
    using k unat_u8_lt [of "countFATs p"] by (simp add: unat_of_nat)
  have b: "fat_sector p c + k * unat (fatSize p) < 4294967296"
    using lt unat_u32_lt [of "firstDataSector p"] by simp
  then have m: "unat (of_nat k * fatSize p) = k * unat (fatSize p)"
    by (subst unat_mult_small) (simp_all add: kk)
  show ?thesis
    using b by (simp add: fat_copy_def unat_add_small m fat_offset_exact(1) [OF p c])
qed

lemma fat_copy_range:
  assumes p: "part_ok p" and c: "c < countClusters p" and k: "k < unat (countFATs p)"
  shows "unat (startSector p) \<le> unat (fat_copy p c k)"
    and "unat (fat_copy p c k) < unat (firstDataSector p)"
  using fat_sector_below_data [OF p c k] fat_sector_in_range(1) [OF p c]
  by (simp_all add: unat_fat_copy [OF p c k])

lemma fat_copy_inj:
  assumes p: "part_ok p" and c: "c < countClusters p"
    and "k < unat (countFATs p)" and "j < unat (countFATs p)" and "fat_copy p c k = fat_copy p c j"
  shows "k = j"
proof -
  have "0 < unat (countClusters p)" using c by (auto simp: u32_less_iff)
  then have "0 < unat (fatSize p)" using part_ok_sums(3) [OF p] by (cases "unat (fatSize p)") auto
  moreover have "k * unat (fatSize p) = j * unat (fatSize p)"
    using assms(3-5) unat_fat_copy [OF p c] by (metis add_left_cancel)
  ultimately show ?thesis by simp
qed

text \<open>Writing one FAT sector to every copy of the FAT.\<close>

lemma writeFATs_effect:
  assumes p: "part_ok p" and d: "disk_ok p d" and c: "c < countClusters p"
    and len: "length s = 512"
  defines "w \<equiv> writeFATs p (fst (calculateFATOffset p c)) s d"
  shows "fst w" and "disk_ok p (snd w)"
    and "\<And>k. k < unat (countFATs p) \<Longrightarrow> readSector (snd w) (fat_copy p c k) = Some s"
    and "\<And>lba. (\<And>k. k < unat (countFATs p) \<Longrightarrow> lba \<noteq> fat_copy p c k) \<Longrightarrow>
           readSector (snd w) lba = readSector d lba"
proof -
  let ?ps = "map (\<lambda>k. (fat_copy p c k, s)) [0..<unat (countFATs p)]"
  have w: "w = put_all writeSector ?ps d"
    by (simp add: w_def writeFATs_def fat_copy_def)
  have acc: "accepts d a" if "(a, x) \<in> set ?ps" for a x
    using that fat_copy_range [OF p c] by (auto intro!: disk_okD(1) [OF d] trans_less_add1)
  have dist: "distinct (map fst ?ps)"
    by (auto simp: comp_def distinct_map inj_on_def dest: fat_copy_inj [OF p c])
  show "fst w" unfolding w by (rule dev.put_all_done) (rule acc)
  show same: "readSector (snd w) (fat_copy p c k) = Some s" if "k < unat (countFATs p)" for k
    unfolding w using that by (intro dev.put_all_same dist acc) auto
  show other: "readSector (snd w) lba = readSector d lba"
    if "\<And>k. k < unat (countFATs p) \<Longrightarrow> lba \<noteq> fat_copy p c k" for lba
    unfolding w by (rule dev.put_all_other) (use that in fastforce)
  show "disk_ok p (snd w)"
    unfolding disk_ok_def
  proof (intro allI impI conjI)
    fix lba :: u32
    assume r: "unat (startSector p) \<le> unat lba \<and>
      unat lba < unat (firstDataSector p) + unat (countClusters p) * unat (clusterSize p)"
    show "accepts (snd w) lba"
      using r by (simp add: w dev.put_all_writable disk_okD(1) [OF d])
    show "\<exists>s. readSector (snd w) lba = Some s \<and> length s = 512"
    proof (cases "\<exists>k < unat (countFATs p). lba = fat_copy p c k")
      case True
      with same len show ?thesis by blast
    next
      case False
      then have "readSector (snd w) lba = readSector d lba" by (intro other) blast
      with r disk_okD(2) [OF d] show ?thesis by simp
    qed
  qed
qed

lemma masked_idem [simp]: "(v AND 0x0FFFFFFF) AND 0x0FFFFFFF = (v AND 0x0FFFFFFF :: u32)"
  by (simp add: and.assoc)

text \<open>
  The method as one update of the table: the entry of \<open>c\<close> becomes the masked value, every
  other entry and the whole data area are as before, and every copy of the FAT holds the
  same sector.
\<close>

lemma setNextCluster_effect:
  assumes p: "part_ok p" and d: "disk_ok p d" and c: "2 \<le> c" "c < countClusters p"
  obtains d' where "setNextCluster p c v d = Some (True, d')" and "disk_ok p d'"
    and "fat_tab p d' c = v AND 0x0FFFFFFF"
    and "\<And>b. b < countClusters p \<Longrightarrow> b \<noteq> c \<Longrightarrow> fat_tab p d' b = fat_tab p d b"
    and "same_data p d d'"
    and "\<And>k. k < unat (countFATs p) \<Longrightarrow>
          readSector d' (fat_copy p c k) = readSector d' (fat_copy p c 0)"
proof -
  let ?sec = "fst (calculateFATOffset p c)" and ?off = "unat (snd (calculateFATOffset p c))"
  obtain s u where s: "readSector d ?sec = Some s" "length s = 512"
    and u: "get_uint32_t s ?off = Some u"
    using fat_entry_readable [OF p d c(2)] by metis
  obtain s' where s': "blit s ?off (bytes32 (v AND 0x0FFFFFFF)) = Some s'"
    using fat_offset_entry [OF p c(2)] s(2) by (simp add: blit_def)
  then have len: "length s' = 512" using s(2) by (simp add: length_blit)
  define d' where "d' = snd (writeFATs p ?sec s' d)"
  note eff = writeFATs_effect [OF p d c(2) len, folded d'_def]
  have set: "setNextCluster p c v d = Some (True, d')"
  proof -
    have "writeFATs p ?sec s' d = (True, d')"
      using eff(1) by (simp add: d'_def prod_eq_iff)
    with c p s s' show ?thesis
      by (simp add: setNextCluster_def Let_def case_prod_unfold not_less not_le)
  qed
  have copy0: "fat_copy p c 0 = ?sec" by (simp add: fat_copy_def)
  have sec': "readSector d' ?sec = Some s'"
    using eff(3) [of 0] part_ok_bounds(4) [OF p] by (simp add: copy0)
  have tab: "fat_tab p d' c = v AND 0x0FFFFFFF"
    using get_uint32_blit_same [OF s'] by (simp add: fat_tab_def sec')
  have other: "fat_tab p d' b = fat_tab p d b" if b: "b < countClusters p" "b \<noteq> c" for b
  proof (cases "fst (calculateFATOffset p b) = ?sec")
    case True
    have "get_uint32_t s' (unat (snd (calculateFATOffset p b))) =
          get_uint32_t s (unat (snd (calculateFATOffset p b)))"
      using fat_entry_disjoint [OF p b(1) c(2) b(2) True]
      by (intro get_uint32_blit_other [OF s']) auto
    then show ?thesis by (simp add: fat_tab_def True sec' s)
  next
    case False
    have "fst (calculateFATOffset p b) \<noteq> fat_copy p c k" if k: "k < unat (countFATs p)" for k
    proof
      assume e: "fst (calculateFATOffset p b) = fat_copy p c k"
      then have "fat_sector p b = fat_sector p c + k * unat (fatSize p)"
        using unat_fat_copy [OF p c(2) k] fat_offset_exact(1) [OF p b(1)] by simp
      moreover have "unat b div 128 < unat (fatSize p)"
        using b(1) part_ok_sums(3) [OF p]
        by (simp add: div_less_iff_less_mult u32_less_iff)
      ultimately have "k = 0" by (cases k) (simp_all add: fat_sector_def)
      with e False show False by (simp add: copy0)
    qed
    then have "readSector d' (fst (calculateFATOffset p b)) = readSector d (fst (calculateFATOffset p b))"
      by (intro eff(4)) blast
    then show ?thesis by (simp add: fat_tab_def)
  qed
  have "same_data p d d'"
    unfolding same_data_def
    using fat_copy_range(2) [OF p c(2)] by (intro allI impI eff(4)) (metis not_less)
  then show thesis
    using that [OF set eff(2) tab other] eff(3) part_ok_bounds(4) [OF p] by simp
qed

end
