(* ===== verification/Fat_Chain.thy ===== *)
theory Fat_Chain
  imports Fat_Table
begin

text \<open>
  Cluster chains: what \<open>readClusterChain\<close>, \<open>allocateCluster\<close> and \<open>freeClusterChain\<close> do to
  the table. \<open>chain p t start cs\<close> says that \<open>cs\<close> is the chain of \<open>start\<close> in the table \<open>t\<close>:
  distinct clusters of the partition, each linked to the next, the last one marked as the
  end. \<open>tab_upd\<close> is the effect of one \<open>setNextCluster\<close>.
\<close>

section \<open>Updates of the table\<close>

definition tab_upd :: "part \<Rightarrow> vdisk \<Rightarrow> vdisk \<Rightarrow> u32 \<Rightarrow> u32 \<Rightarrow> bool" where
  "tab_upd p d d' c v \<longleftrightarrow>
     disk_ok p d' \<and> same_data p d d' \<and>
     (\<forall>b. b < countClusters p \<longrightarrow> fat_tab p d' b = (if b = c then v else fat_tab p d b))"

lemma tab_updD:
  assumes "tab_upd p d d' c v"
  shows "disk_ok p d'" "same_data p d d'"
    "b < countClusters p \<Longrightarrow> fat_tab p d' b = (if b = c then v else fat_tab p d b)"
  using assms by (simp_all add: tab_upd_def)

lemma setNextCluster_tab_upd:
  assumes "part_ok p" and "disk_ok p d" and "2 \<le> c" and "c < countClusters p"
  shows "\<exists>d'. setNextCluster p c v d = Some (True, d') \<and> tab_upd p d d' c (v AND 0x0FFFFFFF)"
  by (rule setNextCluster_effect [OF assms, of v]) (auto simp: tab_upd_def)

lemma eoc_eq_0 [simp]: "eoc v = 0 \<longleftrightarrow> v = 0"
  by (auto simp: eoc_def EOC_MARK_def)

lemma eoc_small [simp]: "v < 0x0FFFFFF8 \<Longrightarrow> eoc v = v"
  by (simp add: eoc_def not_le [symmetric])

lemma fat_tab_masked: "fat_tab p d c \<le> 0x0FFFFFFF"
proof -
  have "v AND 0x0FFFFFFF \<le> (0x0FFFFFFF :: u32)" for v
    by (rule word_and_le1)
  then show ?thesis by (auto simp: fat_tab_def split: option.splits)
qed

lemma eoc_eq_mark: "v \<le> 0x0FFFFFFF \<Longrightarrow> eoc v = EOC_MARK \<longleftrightarrow> 0x0FFFFFF8 \<le> v"
  by (auto simp: eoc_def EOC_MARK_def)

lemma part_ok_cluster_small: "part_ok p \<Longrightarrow> c < countClusters p \<Longrightarrow> c < 0x0FFFFFF8"
  by (auto simp: part_ok_def intro: less_le_trans dest: order.strict_trans2)

declare rcc_loop.simps(2) [simp del]
declare rcc_naive.simps(2) [simp del]

section \<open>Chains\<close>

fun linked :: "(u32 \<Rightarrow> u32) \<Rightarrow> u32 list \<Rightarrow> bool" where
  "linked t [] \<longleftrightarrow> True"
| "linked t [c] \<longleftrightarrow> 0x0FFFFFF8 \<le> t c"
| "linked t (c # c' # cs) \<longleftrightarrow> t c = c' \<and> linked t (c' # cs)"

definition chain :: "part \<Rightarrow> (u32 \<Rightarrow> u32) \<Rightarrow> u32 \<Rightarrow> u32 list \<Rightarrow> bool" where
  "chain p t start cs \<longleftrightarrow>
     cs \<noteq> [] \<and> hd cs = start \<and> distinct cs \<and>
     list_all (\<lambda>c. 2 \<le> c \<and> c < countClusters p) cs \<and> linked t cs"

lemma linked_cong: "(\<And>c. c \<in> set cs \<Longrightarrow> t c = t' c) \<Longrightarrow> linked t cs = linked t' cs"
  by (induction t cs rule: linked.induct) auto

lemma linked_Cons: "cs \<noteq> [] \<Longrightarrow> linked t (c # cs) \<longleftrightarrow> t c = hd cs \<and> linked t cs"
  by (cases cs) auto

lemma chain_unique: "chain p t start cs \<Longrightarrow> chain p t start cs' \<Longrightarrow> part_ok p \<Longrightarrow> cs = cs'"
proof (induction cs arbitrary: start cs')
  case Nil
  then show ?case by (simp add: chain_def)
next
  case (Cons c cs)
  then obtain xs where cs': "cs' = c # xs" by (cases cs') (auto simp: chain_def)
  have small: "x < 0x0FFFFFF8" if "x < countClusters p" for x
    using part_ok_cluster_small [OF Cons.prems(3)] that by blast
  show ?case
  proof (cases cs)
    case Nil
    then have "0x0FFFFFF8 \<le> t c" using Cons.prems(1) by (auto simp: chain_def)
    then show ?thesis
      using Cons.prems(2) small Nil by (cases xs) (auto simp: cs' chain_def not_le [symmetric])
  next
    case (Cons c2 cs2)
    then have t: "t c = c2" "chain p t c2 cs"
      using Cons.prems(1) by (auto simp: chain_def)
    then have "c2 < 0x0FFFFFF8" using small by (auto simp: chain_def Cons)
    then obtain ys where "xs = c2 # ys"
      using Cons.prems(2) t(1) by (cases xs) (auto simp: cs' chain_def not_le [symmetric])
    then have "chain p t c2 xs" using Cons.prems(2) by (auto simp: cs' chain_def)
    with Cons.IH [OF t(2) _ Cons.prems(3)] show ?thesis by (simp add: cs')
  qed
qed

section \<open>Reading a chain\<close>

definition cache_ok :: "vdisk \<Rightarrow> u32 \<Rightarrow> bytes \<Rightarrow> bool" where
  "cache_ok d sec s \<longleftrightarrow> sec = EOC_MARK \<or> readSector d sec = Some s"

lemma fat_sector_not_mark:
  assumes "part_ok p" and "c < countClusters p"
  shows "fst (calculateFATOffset p c) \<noteq> EOC_MARK"
proof
  assume "fst (calculateFATOffset p c) = EOC_MARK"
  then have "fat_sector p c = 4294967295"
    using fat_offset_exact(1) [OF assms] by (simp add: EOC_MARK_def)
  with fat_sector_in_range(2) [OF assms] part_ok_sums(2) [OF assms(1)] show False by simp
qed

lemma rcc_step:
  assumes p: "part_ok p" and d: "disk_ok p d" and c: "c < countClusters p" and "c \<noteq> 0"
    and "c \<notin> set cl" and cache: "cache_ok d sec s"
  obtains sec' s' where "cache_ok d sec' s'"
    and "rcc_loop p d (Suc n) c cl sec s =
           (if 0x0FFFFFF8 \<le> fat_tab p d c then Some (cl @ [c])
            else rcc_loop p d n (fat_tab p d c) (cl @ [c]) sec' s')"
proof -
  let ?sec = "fst (calculateFATOffset p c)"
  obtain s' v where s': "readSector d ?sec = Some s'"
    and v: "get_uint32_t s' (unat (snd (calculateFATOffset p c))) = Some v"
      "fat_tab p d c = v AND 0x0FFFFFFF"
    using fat_entry_readable [OF p d c] by metis
  have hit: "(if ?sec \<noteq> sec then readSector d ?sec else Some s) = Some s'"
    using cache s' fat_sector_not_mark [OF p c] by (auto simp: cache_ok_def)
  have parse: "parseNextClusterFromFATSector p s' (snd (calculateFATOffset p c)) c =
      Some (eoc (fat_tab p d c))"
    using p v by (simp add: parseNextClusterFromFATSector_def eoc_def Let_def)
  have "rcc_loop p d (Suc n) c cl sec s =
     (if eoc (fat_tab p d c) = EOC_MARK then Some (cl @ [c])
      else rcc_loop p d n (eoc (fat_tab p d c)) (cl @ [c]) ?sec s')"
    using assms(4,5) part_ok_cluster_small [OF p c] hit parse
    by (simp add: rcc_loop.simps(2) Let_def case_prod_unfold)
  moreover have "cache_ok d ?sec s'" using s' by (simp add: cache_ok_def)
  ultimately show thesis
    using that eoc_eq_mark [OF fat_tab_masked] by (metis eoc_small not_le)
qed

lemma rcc_loop_chain:
  assumes p: "part_ok p" and d: "disk_ok p d"
  shows "chain p (fat_tab p d) c cs \<Longrightarrow> distinct (cl @ cs) \<Longrightarrow> cache_ok d sec s \<Longrightarrow>
     length cs \<le> n \<Longrightarrow> rcc_loop p d n c cl sec s = Some (cl @ cs)"
proof (induction cs arbitrary: c cl sec s n)
  case Nil
  then show ?case by (simp add: chain_def)
next
  case (Cons x cs)
  then have x: "x = c" "2 \<le> c" "c < countClusters p" "c \<notin> set cl" by (auto simp: chain_def)
  from x(2) have c0: "c \<noteq> 0" by auto
  obtain m where n: "n = Suc m" using Cons.prems(4) by (cases n) auto
  obtain sec' s' where c': "cache_ok d sec' s'"
    and step: "rcc_loop p d n c cl sec s =
           (if 0x0FFFFFF8 \<le> fat_tab p d c then Some (cl @ [c])
            else rcc_loop p d m (fat_tab p d c) (cl @ [c]) sec' s')"
    using rcc_step [OF p d x(3) c0 x(4) Cons.prems(3)] n by metis
  show ?case
  proof (cases cs)
    case Nil
    then show ?thesis using Cons.prems(1) step by (simp add: chain_def x)
  next
    case (Cons y ys)
    then have y: "fat_tab p d c = y" "chain p (fat_tab p d) y cs"
      using Cons.prems(1) by (auto simp: chain_def x)
    then have "y < 0x0FFFFFF8"
      by (intro part_ok_cluster_small [OF p]) (simp add: chain_def Cons)
    then have "rcc_loop p d n c cl sec s = rcc_loop p d m y (cl @ [c]) sec' s'"
      using step y(1) by (simp add: not_le [symmetric])
    also have "\<dots> = Some ((cl @ [c]) @ cs)"
      using Cons.prems(2,4) x(1) n by (intro Cons.IH [OF y(2) _ c']) auto
    finally show ?thesis by (simp add: x)
  qed
qed

lemma readClusterChain_chain:
  assumes "part_ok p" and "disk_ok p d" and ch: "chain p (fat_tab p d) start cs"
    and "length cs \<le> MAX_CHAIN"
  shows "readClusterChain p d start = Some cs"
proof -
  have "start < countClusters p" using ch by (cases cs) (auto simp: chain_def)
  moreover have "rcc_loop p d MAX_CHAIN start [] EOC_MARK [] = Some ([] @ cs)"
    using assms by (intro rcc_loop_chain) (auto simp: chain_def cache_ok_def)
  ultimately show ?thesis by (simp add: readClusterChain_def)
qed

section \<open>The cached traversal and the reference traversal\<close>

definition tab_closed :: "part \<Rightarrow> (u32 \<Rightarrow> u32) \<Rightarrow> bool" where
  "tab_closed p t \<longleftrightarrow> (\<forall>c. c < countClusters p \<longrightarrow> t c < countClusters p \<or> 0x0FFFFFF8 \<le> t c)"

lemma rcc_loop_naive:
  assumes p: "part_ok p" and d: "disk_ok p d" and cl: "tab_closed p (fat_tab p d)"
  shows "c < countClusters p \<Longrightarrow> cache_ok d sec s \<Longrightarrow>
    rcc_loop p d n c acc sec s = rcc_naive p d n c acc"
proof (induction n arbitrary: c acc sec s)
  case 0
  then show ?case by simp
next
  case (Suc n)
  show ?case
  proof (cases "c = 0 \<or> c \<in> set acc")
    case True
    then show ?thesis
      using part_ok_cluster_small [OF p Suc.prems(1)]
      by (auto simp: rcc_loop.simps(2) rcc_naive.simps(2))
  next
    case False
    then have c0: "c \<noteq> 0" and cn: "c \<notin> set acc" by auto
    obtain sec' s' where c': "cache_ok d sec' s'"
      and step: "rcc_loop p d (Suc n) c acc sec s =
             (if 0x0FFFFFF8 \<le> fat_tab p d c then Some (acc @ [c])
              else rcc_loop p d n (fat_tab p d c) (acc @ [c]) sec' s')"
      using rcc_step [OF p d Suc.prems(1) c0 cn Suc.prems(2)] by metis
    have naive: "rcc_naive p d (Suc n) c acc = rcc_naive p d n (eoc (fat_tab p d c)) (acc @ [c])"
      using False part_ok_cluster_small [OF p Suc.prems(1)]
      by (simp add: rcc_naive.simps(2) getNextCluster_tab [OF p d Suc.prems(1)])
    show ?thesis
    proof (cases "0x0FFFFFF8 \<le> fat_tab p d c")
      case True
      have "rcc_naive p d n EOC_MARK (acc @ [c]) = Some (acc @ [c])"
        by (cases n) (simp_all add: EOC_MARK_def rcc_naive.simps(2))
      with True naive step show ?thesis by (simp add: eoc_def)
    next
      case False
      then have "fat_tab p d c < countClusters p"
        using cl Suc.prems(1) by (auto simp: tab_closed_def)
      with False naive step Suc.IH [OF _ c'] show ?thesis
        by (simp add: not_le [symmetric])
    qed
  qed
qed

lemma readClusterChain_naive:
  assumes "part_ok p" and "disk_ok p d" and "tab_closed p (fat_tab p d)"
  shows "readClusterChain p d start = readClusterChain_ORIGINAL p d start"
  using assms
  by (auto simp: readClusterChain_def readClusterChain_ORIGINAL_def not_le cache_ok_def
      intro!: rcc_loop_naive)

section \<open>Any table, sound or not\<close>

text \<open>
  Whatever the FAT holds (cycles, entries out of range, unreadable sectors), the traversal
  comes back, within its bound, with distinct clusters. All it needs is that a sector that
  can be read has 512 bytes.
\<close>

definition sectors_512 :: "vdisk \<Rightarrow> bool" where
  "sectors_512 d \<longleftrightarrow> (\<forall>lba s. readSector d lba = Some s \<longrightarrow> length s = 512)"

lemma fat_offset_any:
  assumes "sectorSize p = 512" and "fatOffsetMult p = 4"
  shows "unat (snd (calculateFATOffset p c)) + 4 \<le> 512"
proof -
  have "unat (ucast (fatOffsetMult p) * c :: u32) = (4 * unat c) mod 4294967296"
    using assms(2) by (simp add: unat_word_ariths)
  then have "unat (snd (calculateFATOffset p c)) = (4 * unat c) mod 4294967296 mod 512"
    using assms(1) by (simp add: calculateFATOffset_def Let_def unat_mod unats)
  also have "\<dots> = (4 * unat c) mod 512" by (rule mod_mod_cancel) simp
  also have "\<dots> = 4 * (unat c mod 128)" by (simp add: mult_mod_right)
  finally show ?thesis by simp
qed

lemma rcc_loop_returns:
  assumes p: "sectorSize p = 512" "fatOffsetMult p = 4" "ptype p = FAT32"
    and d: "sectors_512 d"
  shows "distinct cl \<Longrightarrow> 0 \<notin> set cl \<Longrightarrow> sec = EOC_MARK \<and> fst (calculateFATOffset p c) \<noteq> EOC_MARK \<or> length s = 512 \<Longrightarrow>
    \<exists>cs. rcc_loop p d n c cl sec s = Some cs \<and> distinct cs \<and> 0 \<notin> set cs \<and>
         length cs \<le> length cl + n \<and> (\<exists>ys. cs = cl @ ys)"
proof (induction n arbitrary: c cl sec s)
  case 0
  then show ?case by simp
next
  case (Suc n)
  let ?sec = "fst (calculateFATOffset p c)"
  show ?case
  proof (cases "c < 0x0FFFFFF8 \<and> c \<notin> set cl \<and> c \<noteq> 0")
    case False
    then have "rcc_loop p d (Suc n) c cl sec s = Some cl" by (auto simp: rcc_loop.simps(2))
    with Suc.prems show ?thesis by simp
  next
    case True
    then have cl': "distinct (cl @ [c])" "0 \<notin> set (cl @ [c])" using Suc.prems by auto
    show ?thesis
    proof (cases "if ?sec \<noteq> sec then readSector d ?sec else Some s")
      case None
      then have "rcc_loop p d (Suc n) c cl sec s = Some (cl @ [c])"
        using True by (simp add: rcc_loop.simps(2) Let_def case_prod_unfold)
      with cl' show ?thesis by simp
    next
      case (Some s')
      have len: "length s' = 512"
        using Some d Suc.prems(3) by (auto simp: sectors_512_def split: if_splits)
      then obtain v where v: "get_uint32_t s' (unat (snd (calculateFATOffset p c))) = Some v"
        using get_uint32_some fat_offset_any [OF p(1,2)] by metis
      define nx where "nx = eoc (v AND 0x0FFFFFFF)"
      have "parseNextClusterFromFATSector p s' (snd (calculateFATOffset p c)) c = Some nx"
        using p v by (simp add: parseNextClusterFromFATSector_def eoc_def Let_def nx_def)
      then have step: "rcc_loop p d (Suc n) c cl sec s =
          (if nx = EOC_MARK then Some (cl @ [c]) else rcc_loop p d n nx (cl @ [c]) ?sec s')"
        using True Some by (simp add: rcc_loop.simps(2) Let_def case_prod_unfold)
      obtain cs where "rcc_loop p d n nx (cl @ [c]) ?sec s' = Some cs" "distinct cs" "0 \<notin> set cs"
        "length cs \<le> length (cl @ [c]) + n" "\<exists>ys. cs = (cl @ [c]) @ ys"
        using Suc.IH [OF cl', of ?sec nx s'] len by blast
      with step cl' show ?thesis by auto
    qed
  qed
qed

section \<open>Allocation\<close>

lemma u32_Suc:
  assumes "(c :: u32) < n"
  shows "unat (c + 1) = unat c + 1" and "c + 1 \<le> b \<longleftrightarrow> c < b"
proof -
  show u: "unat (c + 1) = unat c + 1"
    using assms unat_u32_lt [of n] by (subst unat_add_small) (auto simp: u32_less_iff)
  show "c + 1 \<le> b \<longleftrightarrow> c < b" by (simp add: u32_le_iff u32_less_iff u Suc_le_eq)
qed

text \<open>First fit: the search finds the lowest free cluster, claims it and changes nothing else.\<close>

lemma alloc_loop_none:
  "part_ok p \<Longrightarrow> disk_ok p d \<Longrightarrow>
   (\<And>b. c \<le> b \<Longrightarrow> b < countClusters p \<Longrightarrow> fat_tab p d b \<noteq> 0) \<Longrightarrow>
   alloc_loop p c d = Some (None, d)"
proof (induction p c d rule: alloc_loop.induct)
  case (1 p c d)
  show ?case
  proof (cases "c < countClusters p")
    case True
    have nz: "eoc (fat_tab p d c) \<noteq> 0" using "1.prems"(3) [of c] True by simp
    have "alloc_loop p (c + 1) d = Some (None, d)"
      using True u32_Suc(2) [OF True] "1.prems" nz
      by (intro "1.IH" [OF True getNextCluster_tab [OF "1.prems"(1,2) True] nz]) (auto intro: order.strict_implies_order)
    with True nz show ?thesis
      by (subst alloc_loop.simps) (simp add: getNextCluster_tab [OF "1.prems"(1,2) True])
  next
    case False
    then show ?thesis by (subst alloc_loop.simps) simp
  qed
qed

lemma alloc_loop_some:
  "part_ok p \<Longrightarrow> disk_ok p d \<Longrightarrow> 2 \<le> c \<Longrightarrow> c \<le> b \<Longrightarrow> b < countClusters p \<Longrightarrow>
   fat_tab p d b = 0 \<Longrightarrow> (\<And>a. c \<le> a \<Longrightarrow> a < b \<Longrightarrow> fat_tab p d a \<noteq> 0) \<Longrightarrow>
   \<exists>d'. alloc_loop p c d = Some (Some b, d') \<and> tab_upd p d d' b 0x0FFFFFFF"
proof (induction p c d rule: alloc_loop.induct)
  case (1 p c d)
  then have lt: "c < countClusters p" by (auto intro: le_less_trans)
  note nx = getNextCluster_tab [OF "1.prems"(1,2) lt]
  show ?case
  proof (cases "c = b")
    case True
    have "\<exists>d'. setNextCluster p c 0x0FFFFFFF d = Some (True, d') \<and>
        tab_upd p d d' c (0x0FFFFFFF AND 0x0FFFFFFF)"
      using "1.prems" lt by (intro setNextCluster_tab_upd) simp_all
    with True lt "1.prems"(6) nx show ?thesis
      by (subst alloc_loop.simps) auto
  next
    case False
    then have cb: "c < b" using "1.prems"(4) by simp
    have nz: "eoc (fat_tab p d c) \<noteq> 0" using "1.prems"(7) [of c] cb by simp
    have c1: "unat (c + 1) = unat c + 1" "c + 1 \<le> b" and le: "c + 1 \<le> a \<Longrightarrow> c \<le> a" for a
      using u32_Suc [OF lt] cb by (auto intro: order.strict_implies_order)
    have "2 \<le> c + 1" using c1(1) "1.prems"(3) by (simp add: u32_le_iff)
    then have "\<exists>d'. alloc_loop p (c + 1) d = Some (Some b, d') \<and> tab_upd p d d' b 0x0FFFFFFF"
      using "1.prems" c1(2) le by (intro "1.IH" [OF lt nx nz]) auto
    with lt nz nx show ?thesis by (subst alloc_loop.simps) simp
  qed
qed

lemma least_free:
  assumes "lo \<le> c" and "P (c :: u32)"
  obtains b where "lo \<le> b" "P b" "b \<le> c" "\<And>a. lo \<le> a \<Longrightarrow> a < b \<Longrightarrow> \<not> P a"
proof -
  obtain b where b: "lo \<le> b" "P b" and min: "\<And>a. lo \<le> a \<and> P a \<Longrightarrow> unat b \<le> unat a"
    using ex_has_least_nat [of "\<lambda>b. lo \<le> b \<and> P b" c unat] assms by auto
  have "\<not> P a" if "lo \<le> a" "a < b" for a
    using min [of a] that by (auto simp: u32_less_iff)
  moreover have "b \<le> c" using min [of c] assms by (simp add: u32_le_iff)
  ultimately show thesis using that b by blast
qed

section \<open>Freeing a chain\<close>

lemma free_loop_step:
  assumes p: "part_ok p" and d: "disk_ok p d" and c: "2 \<le> c" "c < countClusters p"
  obtains d' where "tab_upd p d d' c 0"
    and "free_loop p c d =
      (if fat_tab p d c = 0 \<or> 0x0FFFFFF8 \<le> fat_tab p d c then Some d'
       else free_loop p (fat_tab p d c) d')"
proof -
  obtain d' where s: "setNextCluster p c 0 d = Some (True, d')" and u: "tab_upd p d d' c 0"
    using setNextCluster_tab_upd [OF p d c, of 0] by auto
  have "eoc v = 0 \<or> eoc v > 0x0FFFFFF7 \<longleftrightarrow> v = 0 \<or> 0x0FFFFFF8 \<le> v" for v
    by (auto simp: eoc_def EOC_MARK_def word_less_nat_alt word_le_nat_alt)
  then have "free_loop p c d =
      (if fat_tab p d c = 0 \<or> 0x0FFFFFF8 \<le> fat_tab p d c then Some d'
       else free_loop p (eoc (fat_tab p d c)) d')"
    using part_ok_cluster_small [OF p c(2)]
    by (subst free_loop.simps) (simp add: getNextCluster_tab [OF p d c(2)] s)
  then have "free_loop p c d =
      (if fat_tab p d c = 0 \<or> 0x0FFFFFF8 \<le> fat_tab p d c then Some d'
       else free_loop p (fat_tab p d c) d')"
    by (simp add: eoc_def split: if_splits)
  with u show thesis by (rule that)
qed

text \<open>
  Freeing ends on every table whose links stay inside the partition, a cyclic one too: each
  step clears the entry it leaves, so no cluster is visited twice.
\<close>

definition tab_links :: "part \<Rightarrow> (u32 \<Rightarrow> u32) \<Rightarrow> bool" where
  "tab_links p t \<longleftrightarrow>
     (\<forall>c. c < countClusters p \<longrightarrow>
        t c = 0 \<or> 0x0FFFFFF8 \<le> t c \<or> 2 \<le> t c \<and> t c < countClusters p)"

definition used_clusters :: "part \<Rightarrow> (u32 \<Rightarrow> u32) \<Rightarrow> u32 set" where
  "used_clusters p t = {c. c < countClusters p \<and> t c \<noteq> 0}"

lemma free_loop_total:
  assumes p: "part_ok p"
  shows "disk_ok p d \<Longrightarrow> tab_links p (fat_tab p d) \<Longrightarrow> 2 \<le> c \<Longrightarrow> c < countClusters p \<Longrightarrow>
    \<exists>d'. free_loop p c d = Some d' \<and> disk_ok p d' \<and> same_data p d d' \<and> fat_tab p d' c = 0 \<and>
      (\<forall>b. b < countClusters p \<longrightarrow> fat_tab p d' b = 0 \<or> fat_tab p d' b = fat_tab p d b)"
proof (induction "card (used_clusters p (fat_tab p d))" arbitrary: c d rule: less_induct)
  case less
  obtain d1 where u: "tab_upd p d d1 c 0"
    and step: "free_loop p c d =
      (if fat_tab p d c = 0 \<or> 0x0FFFFFF8 \<le> fat_tab p d c then Some d1
       else free_loop p (fat_tab p d c) d1)"
    using free_loop_step [OF p less.prems(1,3,4)] by metis
  note t1 = tab_updD [OF u]
  show ?case
  proof (cases "fat_tab p d c = 0 \<or> 0x0FFFFFF8 \<le> fat_tab p d c")
    case True
    then show ?thesis using step t1 less.prems(4) by auto
  next
    case False
    then have nx: "2 \<le> fat_tab p d c" "fat_tab p d c < countClusters p"
      using less.prems(2,4) by (auto simp: tab_links_def)
    have "used_clusters p (fat_tab p d1) \<subseteq> used_clusters p (fat_tab p d)"
      using t1(3) by (auto simp: used_clusters_def split: if_splits)
    moreover have "c \<in> used_clusters p (fat_tab p d) - used_clusters p (fat_tab p d1)"
      using t1(3) [of c] less.prems(4) False by (simp add: used_clusters_def)
    ultimately have "used_clusters p (fat_tab p d1) \<subset> used_clusters p (fat_tab p d)" by blast
    then have card: "card (used_clusters p (fat_tab p d1)) < card (used_clusters p (fat_tab p d))"
      by (intro psubset_card_mono) simp_all
    have "tab_links p (fat_tab p d1)"
      using less.prems(2) t1(3) by (simp add: tab_links_def)
    then obtain d' where d': "free_loop p (fat_tab p d c) d1 = Some d'" "disk_ok p d'"
      "same_data p d1 d'"
      "\<forall>b. b < countClusters p \<longrightarrow> fat_tab p d' b = 0 \<or> fat_tab p d' b = fat_tab p d1 b"
      using less.hyps [OF card t1(1) _ nx] by blast
    have "fat_tab p d' c = 0" using d'(4) t1(3) less.prems(4) by auto
    moreover have "\<forall>b. b < countClusters p \<longrightarrow> fat_tab p d' b = 0 \<or> fat_tab p d' b = fat_tab p d b"
      using d'(4) t1(3) by (auto split: if_splits)
    moreover have "free_loop p c d = Some d'" using step False d'(1) by simp
    moreover have "same_data p d d'" using t1(2) d'(3) by (rule same_data_trans)
    ultimately show ?thesis using d'(2) by blast
  qed
qed

text \<open>On a proper chain exactly its clusters are freed.\<close>

lemma free_loop_chain:
  assumes p: "part_ok p"
  shows "disk_ok p d \<Longrightarrow> chain p (fat_tab p d) c cs \<Longrightarrow>
    \<exists>d'. free_loop p c d = Some d' \<and> disk_ok p d' \<and> same_data p d d' \<and>
      (\<forall>b. b < countClusters p \<longrightarrow> fat_tab p d' b = (if b \<in> set cs then 0 else fat_tab p d b))"
proof (induction cs arbitrary: c d)
  case Nil
  then show ?case by (simp add: chain_def)
next
  case (Cons x cs)
  then have x: "x = c" "2 \<le> c" "c < countClusters p" "c \<notin> set cs" by (auto simp: chain_def)
  obtain d1 where u: "tab_upd p d d1 c 0"
    and step: "free_loop p c d =
      (if fat_tab p d c = 0 \<or> 0x0FFFFFF8 \<le> fat_tab p d c then Some d1
       else free_loop p (fat_tab p d c) d1)"
    using free_loop_step [OF p Cons.prems(1) x(2,3)] by metis
  note t1 = tab_updD [OF u]
  show ?case
  proof (cases cs)
    case Nil
    then have "0x0FFFFFF8 \<le> fat_tab p d c" using Cons.prems(2) x(1) by (auto simp: chain_def)
    then show ?thesis using step t1 x(1) Nil by auto
  next
    case (Cons y ys)
    then have y: "fat_tab p d c = y" "chain p (fat_tab p d) y cs"
      using Cons.prems(2) by (auto simp: chain_def x)
    then have yr: "2 \<le> y" "y < countClusters p" by (auto simp: chain_def Cons)
    have "fat_tab p d1 b = fat_tab p d b" if "b \<in> set cs" for b
      using that t1(3) [of b] x(4) y(2) by (auto simp: chain_def list_all_iff)
    then have ch1: "chain p (fat_tab p d1) y cs"
      using y(2) linked_cong [of cs "fat_tab p d1" "fat_tab p d"] by (simp add: chain_def)
    obtain d' where d': "free_loop p y d1 = Some d'" "disk_ok p d'" "same_data p d1 d'"
      "\<forall>b. b < countClusters p \<longrightarrow> fat_tab p d' b = (if b \<in> set cs then 0 else fat_tab p d1 b)"
      using Cons.IH [OF t1(1) ch1] by blast
    have "free_loop p c d = Some d'"
      using step d'(1) y(1) yr part_ok_cluster_small [OF p yr(2)]
      by (auto simp: not_le [symmetric])
    moreover have "\<forall>b. b < countClusters p \<longrightarrow>
        fat_tab p d' b = (if b \<in> set (x # cs) then 0 else fat_tab p d b)"
      using d'(4) t1(3) x(1) by auto
    ultimately show ?thesis using d'(2,3) t1(2) same_data_trans by blast
  qed
qed

lemma freeClusterChain_chain:
  assumes "part_ok p" and "disk_ok p d" and ch: "chain p (fat_tab p d) c cs"
  shows "\<exists>d'. freeClusterChain p c d = Some d' \<and> disk_ok p d' \<and> same_data p d d' \<and>
    (\<forall>b. b < countClusters p \<longrightarrow> fat_tab p d' b = (if b \<in> set cs then 0 else fat_tab p d b))"
proof -
  have "c < countClusters p" using ch by (cases cs) (auto simp: chain_def)
  then show ?thesis using free_loop_chain [OF assms] by (simp add: freeClusterChain_def not_le)
qed

lemma readClusterChain_bounded:
  assumes "sectorSize p = 512" and "fatOffsetMult p = 4" and "ptype p = FAT32" and "sectors_512 d"
    and "start < countClusters p" and "fst (calculateFATOffset p start) \<noteq> EOC_MARK"
  shows "\<exists>cs. readClusterChain p d start = Some cs \<and> distinct cs \<and> 0 \<notin> set cs \<and> length cs \<le> MAX_CHAIN"
  using rcc_loop_returns [OF assms(1-4), of "[]" EOC_MARK start "[]" MAX_CHAIN] assms(5,6)
  by (auto simp: readClusterChain_def not_le)

end
