(* ===== verification/Fat_Data.thy ===== *)
theory Fat_Data
  imports Fat_Chain
begin

text \<open>
  The data area: reading and writing whole clusters and reading a file through its chain
  (\<open>writeCluster\<close>, both \<open>readFile\<close>, \<open>readEntireFile\<close> of \<open>Fat32.cpp\<close>). \<open>cluster_data\<close> is
  the content of a cluster; \<open>file_bytes\<close> the content of a chain. A read whose disk access
  fails returns the empty vector, as in the code.
\<close>

section \<open>Definitions\<close>

text \<open>The inner loop of the readers: one cluster into a buffer; \<open>Some None\<close> is a disk error.\<close>

fun readSectors :: "part \<Rightarrow> vdisk \<Rightarrow> u32 \<Rightarrow> nat list \<Rightarrow> bytes \<Rightarrow> bytes option option" where
  "readSectors p d sector [] buf = Some (Some buf)"
| "readSectors p d sector (i # is) buf =
     (case readSector d (sector + of_nat i) of
        None \<Rightarrow> Some None
      | Some s \<Rightarrow>
          do { buf' \<leftarrow> blit buf (i * unat (sectorSize p)) s;
               readSectors p d sector is buf' })"

fun readFile_loop :: "part \<Rightarrow> vdisk \<Rightarrow> u32 list \<Rightarrow> u32 \<Rightarrow> bytes \<Rightarrow> bytes option" where
  "readFile_loop p d [] bytesToRead data = Some data"
| "readFile_loop p d (c # cs) bytesToRead data =
     (if bytesToRead = 0 then Some data
      else do {
        sector \<leftarrow> getFirstSectorOfCluster p c;
        r \<leftarrow> readSectors p d sector [0..<unat (clusterSize p)]
               (replicate (unat (sectorSize p) * unat (clusterSize p)) 0);
        case r of
          None \<Rightarrow> Some []
        | Some buf \<Rightarrow>
            if length buf \<le> unat bytesToRead
            then readFile_loop p d cs (bytesToRead - of_nat (length buf)) (data @ buf)
            else readFile_loop p d cs 0 (data @ take (unat bytesToRead) buf) })"

definition readFile :: "part \<Rightarrow> vdisk \<Rightarrow> u32 \<Rightarrow> u32 \<Rightarrow> bytes option" where
  "readFile p d start sz =
     (if start \<ge> countClusters p then None
      else do { clusters \<leftarrow> readClusterChain p d start;
                if sz > 0x7FFFFFFF then None
                else readFile_loop p d clusters sz [] })"

definition readEntireFile :: "part \<Rightarrow> vdisk \<Rightarrow> u32 \<Rightarrow> bytes option" where
  "readEntireFile p d start =
     (if start \<ge> countClusters p then None else readFile p d start 0x7FFFFFFF)"

text \<open>The reader with an offset; \<open>first\<close> marks the first cluster of the range.\<close>

fun readFileRange_loop ::
  "part \<Rightarrow> vdisk \<Rightarrow> u32 list \<Rightarrow> bool \<Rightarrow> u32 \<Rightarrow> u32 \<Rightarrow> bytes \<Rightarrow> bytes option" where
  "readFileRange_loop p d [] first skipBytes bytesToRead data = Some data"
| "readFileRange_loop p d (c # cs) first skipBytes bytesToRead data =
     (if bytesToRead = 0 then Some data
      else do {
        sector \<leftarrow> getFirstSectorOfCluster p c;
        r \<leftarrow> readSectors p d sector [0..<unat (clusterSize p)]
               (replicate (unat (clusterSizeBytes p)) 0);
        case r of
          None \<Rightarrow> Some []
        | Some buf \<Rightarrow>
            let readStart = (if first then skipBytes else 0);
                readable = min bytesToRead (clusterSizeBytes p - readStart)
            in do { piece \<leftarrow> slice buf (unat readStart) (unat readable);
                    readFileRange_loop p d cs False skipBytes (bytesToRead - readable) (data @ piece) } })"

definition readFileRange :: "part \<Rightarrow> vdisk \<Rightarrow> u32 \<Rightarrow> u32 \<Rightarrow> u32 \<Rightarrow> bytes option" where
  "readFileRange p d start offset sz =
     (if start \<ge> countClusters p then None
      else if clusterSizeBytes p = 0 then None
      else do { clusters \<leftarrow> readClusterChain_range p d start offset sz;
                readFileRange_loop p d clusters True (offset mod clusterSizeBytes p) sz [] })"

fun writeSectors :: "part \<Rightarrow> u32 \<Rightarrow> nat list \<Rightarrow> bytes \<Rightarrow> vdisk \<Rightarrow> (bool \<times> vdisk) option" where
  "writeSectors p sector [] data d = Some (True, d)"
| "writeSectors p sector (i # is) data d =
     do { buf \<leftarrow> slice data (i * unat (sectorSize p)) 512;
          let (done, d') = writeSector d (sector + of_nat i) buf in
          if \<not> done then Some (False, d') else writeSectors p sector is data d' }"

definition writeCluster :: "part \<Rightarrow> u32 \<Rightarrow> bytes \<Rightarrow> vdisk \<Rightarrow> (bool \<times> vdisk) option" where
  "writeCluster p c data d =
     (if length data > unat (clusterSizeBytes p) then Some (False, d)
      else do { sector \<leftarrow> getFirstSectorOfCluster p c;
                writeSectors p sector [0..<unat (clusterSize p)] data d })"

section \<open>Clusters of a sound partition\<close>

definition csize :: "part \<Rightarrow> nat" where
  "csize p = 512 * unat (clusterSize p)"

definition first_sector :: "part \<Rightarrow> u32 \<Rightarrow> u32" where
  "first_sector p c = firstDataSector p + (c - 2) * ucast (clusterSize p)"

definition sector_data :: "vdisk \<Rightarrow> u32 \<Rightarrow> bytes" where
  "sector_data d lba = (case readSector d lba of None \<Rightarrow> [] | Some s \<Rightarrow> s)"

definition cluster_data :: "part \<Rightarrow> vdisk \<Rightarrow> u32 \<Rightarrow> bytes" where
  "cluster_data p d c =
     concat (map (\<lambda>i. sector_data d (first_sector p c + of_nat i)) [0..<unat (clusterSize p)])"

definition file_bytes :: "part \<Rightarrow> vdisk \<Rightarrow> u32 list \<Rightarrow> bytes" where
  "file_bytes p d cs = concat (map (cluster_data p d) cs)"

definition data_cluster :: "part \<Rightarrow> u32 \<Rightarrow> bool" where
  "data_cluster p c \<longleftrightarrow> rootCluster p \<le> c \<and> c < countClusters p"

lemma allocateCluster_cases:
  assumes p: "part_ok p" and d: "disk_ok p d"
  shows "(\<exists>b d'. allocateCluster p d = Some (Some b, d') \<and> data_cluster p b \<and>
             fat_tab p d b = 0 \<and> (\<forall>a. rootCluster p \<le> a \<and> a < b \<longrightarrow> fat_tab p d a \<noteq> 0) \<and>
             tab_upd p d d' b 0x0FFFFFFF) \<or>
         (allocateCluster p d = Some (None, d) \<and> (\<forall>b. data_cluster p b \<longrightarrow> fat_tab p d b \<noteq> 0))"
proof (cases "\<exists>c. data_cluster p c \<and> fat_tab p d c = 0")
  case True
  then obtain c where c: "rootCluster p \<le> c" "c < countClusters p \<and> fat_tab p d c = 0"
    by (auto simp: data_cluster_def)
  obtain b where b: "rootCluster p \<le> b" "b < countClusters p \<and> fat_tab p d b = 0" "b \<le> c"
    and min: "\<And>a. rootCluster p \<le> a \<Longrightarrow> a < b \<Longrightarrow> \<not> (a < countClusters p \<and> fat_tab p d a = 0)"
    using least_free [of "rootCluster p" c "\<lambda>c. c < countClusters p \<and> fat_tab p d c = 0"] c by metis
  have min': "fat_tab p d a \<noteq> 0" if "rootCluster p \<le> a" "a < b" for a
    using min [OF that] that(2) b(2) by auto
  have "2 \<le> rootCluster p" using p by (simp add: part_ok_def)
  then obtain d' where "alloc_loop p (rootCluster p) d = Some (Some b, d')" "tab_upd p d d' b 0x0FFFFFFF"
    using alloc_loop_some [OF p d _ b(1), of] b(2) min' by blast
  with b min' show ?thesis by (auto simp: allocateCluster_def data_cluster_def)
next
  case False
  then show ?thesis
    using alloc_loop_none [OF p d] by (auto simp: allocateCluster_def data_cluster_def)
qed

lemma part_ok_csize:
  assumes "part_ok p"
  shows "unat (clusterSizeBytes p) = csize p" "0 < csize p" "csize p < 131072"
    "unat (sectorSize p) * unat (clusterSize p) = csize p"
proof -
  note b = part_ok_bounds [OF assms]
  have "clusterSizeBytes p = ucast (clusterSize p) * 512" using assms by (simp add: part_ok_def)
  then show "unat (clusterSizeBytes p) = csize p"
    using b by (simp add: csize_def unat_mult_small unats)
  show "0 < csize p" "csize p < 131072" "unat (sectorSize p) * unat (clusterSize p) = csize p"
    using b by (simp_all add: csize_def)
qed

lemma data_clusterD:
  assumes "part_ok p" and "data_cluster p c"
  shows "2 \<le> c" "c < countClusters p" "getFirstSectorOfCluster p c = Some (first_sector p c)"
  using assms by (auto simp: data_cluster_def part_ok_def getFirstSectorOfCluster_def first_sector_def not_le)

lemma unat_data_lba:
  assumes p: "part_ok p" and c: "data_cluster p c" and i: "i < unat (clusterSize p)"
  shows "unat (first_sector p c + of_nat i) = data_sector p c + i"
    and "unat (firstDataSector p) \<le> data_sector p c + i"
    and "data_sector p c + i < unat (firstDataSector p) + unat (countClusters p) * unat (clusterSize p)"
proof -
  have cc: "2 \<le> unat c" "unat c < unat (countClusters p)"
    using data_clusterD [OF p c] by (simp_all add: u32_less_iff u32_le_iff)
  have fs: "unat (first_sector p c) = data_sector p c"
    using first_sector_exact [OF p, of c] c data_clusterD(3) [OF p c] by (simp add: data_cluster_def)
  have "(unat c - 2) * unat (clusterSize p) + i < (unat c - 2 + 1) * unat (clusterSize p)"
    using i by simp
  also have "\<dots> \<le> unat (countClusters p) * unat (clusterSize p)"
    using cc by (intro mult_le_mono1) simp
  finally show lt: "data_sector p c + i < unat (firstDataSector p) + unat (countClusters p) * unat (clusterSize p)"
    by (simp add: data_sector_def)
  show "unat (firstDataSector p) \<le> data_sector p c + i" by (simp add: data_sector_def)
  have "unat (of_nat i :: u32) = i"
    using i unat_u8_lt [of "clusterSize p"] by (simp add: unat_of_nat)
  then show "unat (first_sector p c + of_nat i) = data_sector p c + i"
    using lt part_ok_sums(2) [OF p] by (subst unat_add_small) (simp_all add: fs)
qed

lemma data_lba_ok:
  assumes p: "part_ok p" and d: "disk_ok p d" and c: "data_cluster p c" and i: "i < unat (clusterSize p)"
  shows "accepts d (first_sector p c + of_nat i)"
    and "readSector d (first_sector p c + of_nat i) = Some (sector_data d (first_sector p c + of_nat i))"
    and "length (sector_data d (first_sector p c + of_nat i)) = 512"
proof -
  note u = unat_data_lba [OF p c i]
  have "unat (startSector p) \<le> unat (firstDataSector p)" using part_ok_sums(1) [OF p] by simp
  then have r: "unat (startSector p) \<le> unat (first_sector p c + of_nat i)"
    "unat (first_sector p c + of_nat i) < unat (firstDataSector p) + unat (countClusters p) * unat (clusterSize p)"
    using u by simp_all
  show "accepts d (first_sector p c + of_nat i)" using disk_okD(1) [OF d r] .
  show "readSector d (first_sector p c + of_nat i) = Some (sector_data d (first_sector p c + of_nat i))"
    "length (sector_data d (first_sector p c + of_nat i)) = 512"
    using disk_okD(2) [OF d r] by (auto simp: sector_data_def)
qed

lemma data_lba_inj:
  assumes p: "part_ok p" and "data_cluster p a" "data_cluster p b"
    and "i < unat (clusterSize p)" "j < unat (clusterSize p)"
    and eq: "first_sector p a + of_nat i = first_sector p b + of_nat j"
  shows "a = b \<and> i = j"
proof -
  have e: "data_sector p a + i = data_sector p b + j"
    using unat_data_lba(1) [OF p] assms by metis
  have "2 \<le> unat a" "2 \<le> unat b"
    using data_clusterD(1) [OF p] assms(2,3) by (simp_all add: u32_le_iff)
  then have "a = b" using data_sector_disjoint [OF p] e assms(4,5) by blast
  with e show ?thesis by simp
qed

lemma length_cluster_data:
  assumes "part_ok p" and "disk_ok p d" and "data_cluster p c"
  shows "length (cluster_data p d c) = csize p"
proof -
  have "map length (map (\<lambda>i. sector_data d (first_sector p c + of_nat i)) [0..<unat (clusterSize p)])
      = replicate (unat (clusterSize p)) 512"
    using data_lba_ok(3) [OF assms] by (intro nth_equalityI) simp_all
  then show ?thesis
    by (simp add: cluster_data_def length_concat csize_def sum_list_replicate)
qed

section \<open>Reading a cluster\<close>

lemma blit_append_zeros:
  assumes "length xs = k" and "length ys \<le> n"
  shows "blit (xs @ replicate n 0) k ys = Some (xs @ ys @ replicate (n - length ys) 0)"
  using assms by (simp add: blit_def)

lemma readSectors_from:
  assumes p: "part_ok p" and d: "disk_ok p d" and c: "data_cluster p c"
  defines "N \<equiv> unat (clusterSize p)"
  shows "k \<le> N \<Longrightarrow> length buf = 512 * k \<Longrightarrow>
    readSectors p d (first_sector p c) [k..<N] (buf @ replicate (512 * (N - k)) 0) =
      Some (Some (buf @ concat (map (\<lambda>i. sector_data d (first_sector p c + of_nat i)) [k..<N])))"
proof (induction "N - k" arbitrary: k buf)
  case 0
  then show ?case by simp
next
  case (Suc n)
  let ?s = "sector_data d (first_sector p c + of_nat k)"
  have k: "k < N" using Suc.hyps(2) by simp
  note s = data_lba_ok(2,3) [OF p d c k [unfolded N_def]]
  have up: "[k..<N] = k # [Suc k..<N]" using k by (rule upt_conv_Cons)
  have "512 * (N - k) = 512 + 512 * (N - Suc k)" using k by simp
  then have "blit (buf @ replicate (512 * (N - k)) 0) (k * unat (sectorSize p)) ?s =
      Some (buf @ ?s @ replicate (512 * (N - Suc k)) 0)"
    using Suc.prems(2) s(2) part_ok_bounds(6) [OF p] by (subst blit_append_zeros) simp_all
  moreover have "readSectors p d (first_sector p c) [Suc k..<N]
      ((buf @ ?s) @ replicate (512 * (N - Suc k)) 0) =
      Some (Some ((buf @ ?s) @ concat (map (\<lambda>i. sector_data d (first_sector p c + of_nat i)) [Suc k..<N])))"
    using Suc.hyps(2) Suc.prems s(2) k by (intro Suc.hyps(1)) simp_all
  ultimately show ?case using s unfolding up by simp
qed

lemma readSectors_cluster:
  assumes "part_ok p" and "disk_ok p d" and "data_cluster p c"
  shows "readSectors p d (first_sector p c) [0..<unat (clusterSize p)] (replicate (csize p) 0) =
    Some (Some (cluster_data p d c))"
  using readSectors_from [OF assms, of 0 "[]"]
  by (simp add: cluster_data_def csize_def)

section \<open>Writing a cluster\<close>

text \<open>The effect of storing \<open>x\<close> in cluster \<open>c\<close>; the table and the other clusters are untouched.\<close>

definition data_upd :: "part \<Rightarrow> vdisk \<Rightarrow> vdisk \<Rightarrow> u32 \<Rightarrow> bytes \<Rightarrow> bool" where
  "data_upd p d d' c x \<longleftrightarrow>
     disk_ok p d' \<and>
     (\<forall>b. b < countClusters p \<longrightarrow> fat_tab p d' b = fat_tab p d b) \<and>
     (\<forall>b. data_cluster p b \<longrightarrow> cluster_data p d' b = (if b = c then x else cluster_data p d b))"

lemma writeSectors_put_all:
  assumes p: "part_ok p" and len: "length x = csize p"
  shows "set is \<subseteq> {0..<unat (clusterSize p)} \<Longrightarrow>
    writeSectors p sec is x d =
      Some (put_all writeSector (map (\<lambda>i. (sec + of_nat i, take 512 (drop (512 * i) x))) is) d)"
proof (induction "is" arbitrary: d)
  case Nil
  then show ?case by simp
next
  case (Cons i "is")
  then have "512 * i + 512 \<le> csize p" by (simp add: csize_def)
  then have "slice x (i * unat (sectorSize p)) 512 = Some (take 512 (drop (512 * i) x))"
    using part_ok_bounds(6) [OF p] by (simp add: slice_def len mult.commute)
  with Cons show ?case by (simp add: Let_def case_prod_unfold prod_eq_iff)
qed

lemma concat_pieces:
  "length x = 512 * n \<Longrightarrow> concat (map (\<lambda>i. take 512 (drop (512 * i) x)) [0..<n]) = x"
proof (induction n arbitrary: x)
  case 0
  then show ?case by simp
next
  case (Suc n)
  have "concat (map (\<lambda>i. take 512 (drop (512 * i) (drop 512 x))) [0..<n]) = drop 512 x"
    using Suc.prems by (intro Suc.IH) simp
  moreover have "[0..<Suc n] = 0 # map Suc [0..<n]" by (simp add: upt_conv_Cons map_Suc_upt)
  ultimately show ?case by (simp add: comp_def add.commute)
qed

lemma writeCluster_effect:
  assumes p: "part_ok p" and d: "disk_ok p d" and c: "data_cluster p c" and len: "length x = csize p"
  shows "\<exists>d'. writeCluster p c x d = Some (True, d') \<and> data_upd p d d' c x"
proof -
  let ?n = "unat (clusterSize p)"
  let ?a = "\<lambda>i. first_sector p c + of_nat i"
  let ?ps = "map (\<lambda>i. (?a i, take 512 (drop (512 * i) x))) [0..<?n]"
  define d' where "d' = snd (put_all writeSector ?ps d)"
  have acc: "accepts d a" if "(a, y) \<in> set ?ps" for a y
    using that data_lba_ok(1) [OF p d c] by auto
  have dist: "distinct (map fst ?ps)"
    using data_lba_inj [OF p c c] by (auto simp: comp_def distinct_map inj_on_def)
  have ret: "writeCluster p c x d = Some (True, d')"
  proof -
    have "fst (put_all writeSector ?ps d)" by (rule dev.put_all_done) (rule acc)
    then have "put_all writeSector ?ps d = (True, d')" by (simp add: d'_def prod_eq_iff)
    then show ?thesis
      using writeSectors_put_all [OF p len, of "[0..<?n]" "first_sector p c" d]
      by (simp add: writeCluster_def len part_ok_csize [OF p] data_clusterD(3) [OF p c])
  qed
  have same: "readSector d' (?a i) = Some (take 512 (drop (512 * i) x))" if "i < ?n" for i
    unfolding d'_def using that by (intro dev.put_all_same dist acc) auto
  have other: "readSector d' lba = readSector d lba" if "\<And>i. i < ?n \<Longrightarrow> lba \<noteq> ?a i" for lba
    unfolding d'_def by (rule dev.put_all_other) (use that in fastforce)
  have below: "readSector d' lba = readSector d lba" if "unat lba < unat (firstDataSector p)" for lba
  proof (rule other)
    fix i
    assume "i < ?n"
    then show "lba \<noteq> ?a i" using unat_data_lba(1,2) [OF p c] that by fastforce
  qed
  have "disk_ok p d'"
    unfolding disk_ok_def
  proof (intro allI impI conjI)
    fix lba :: u32
    assume r: "unat (startSector p) \<le> unat lba \<and>
      unat lba < unat (firstDataSector p) + unat (countClusters p) * unat (clusterSize p)"
    show "accepts d' lba"
      using r by (simp add: d'_def dev.put_all_writable disk_okD(1) [OF d])
    show "\<exists>s. readSector d' lba = Some s \<and> length s = 512"
    proof (cases "\<exists>i<?n. lba = ?a i")
      case True
      then obtain i where i: "i < ?n" "lba = ?a i" by blast
      then have "512 * i + 512 \<le> csize p" by (simp add: csize_def)
      with i same len show ?thesis by simp
    next
      case False
      then have "readSector d' lba = readSector d lba" by (intro other) blast
      with r disk_okD(2) [OF d] show ?thesis by simp
    qed
  qed
  moreover have "fat_tab p d' b = fat_tab p d b" if "b < countClusters p" for b
  proof -
    have "fat_sector p b + 0 * unat (fatSize p) < unat (firstDataSector p)"
      using part_ok_bounds(4) [OF p] by (intro fat_sector_below_data p that) simp
    then have "readSector d' (fst (calculateFATOffset p b)) = readSector d (fst (calculateFATOffset p b))"
      by (intro below) (simp add: fat_offset_exact(1) [OF p that])
    then show ?thesis by (simp add: fat_tab_def)
  qed
  moreover have "cluster_data p d' b = (if b = c then x else cluster_data p d b)" if b: "data_cluster p b" for b
  proof (cases "b = c")
    case True
    have "concat (map (\<lambda>i. sector_data d' (?a i)) [0..<?n]) =
        concat (map (\<lambda>i. take 512 (drop (512 * i) x)) [0..<?n])"
      using same by (intro arg_cong [where f = concat] map_cong) (auto simp: sector_data_def)
    also have "\<dots> = x" using len by (intro concat_pieces) (simp add: csize_def)
    finally show ?thesis using True by (simp add: cluster_data_def)
  next
    case False
    have "sector_data d' (first_sector p b + of_nat i) = sector_data d (first_sector p b + of_nat i)"
      if i: "i < ?n" for i
    proof -
      have "readSector d' (first_sector p b + of_nat i) = readSector d (first_sector p b + of_nat i)"
        using data_lba_inj [OF p b c i] False by (intro other) blast
      then show ?thesis by (simp add: sector_data_def)
    qed
    then have "map (\<lambda>i. sector_data d' (first_sector p b + of_nat i)) [0..<?n] =
        map (\<lambda>i. sector_data d (first_sector p b + of_nat i)) [0..<?n]" by simp
    then show ?thesis using False by (simp only: cluster_data_def if_False)
  qed
  ultimately have "data_upd p d d' c x" by (simp add: data_upd_def)
  with ret show ?thesis by blast
qed

lemma same_data_cluster:
  assumes "part_ok p" and "same_data p d d'" and "data_cluster p c"
  shows "cluster_data p d' c = cluster_data p d c"
proof -
  have "sector_data d' (first_sector p c + of_nat i) = sector_data d (first_sector p c + of_nat i)"
    if "i < unat (clusterSize p)" for i
    using assms(2) unat_data_lba(1,2) [OF assms(1,3) that]
    by (simp add: same_data_def sector_data_def)
  then show ?thesis unfolding cluster_data_def by (intro arg_cong [where f = concat] map_cong) auto
qed

section \<open>Reading a file\<close>

lemma readFile_loop_bytes:
  assumes p: "part_ok p" and d: "disk_ok p d"
  shows "list_all (data_cluster p) cs \<Longrightarrow>
    readFile_loop p d cs sz acc = Some (acc @ take (unat sz) (file_bytes p d cs))"
proof (induction cs arbitrary: sz acc)
  case Nil
  then show ?case by (simp add: file_bytes_def)
next
  case (Cons c cs)
  then have c: "data_cluster p c" by simp
  note len = length_cluster_data [OF p d c]
  have rd: "readSectors p d (first_sector p c) [0..<unat (clusterSize p)]
      (replicate (unat (sectorSize p) * unat (clusterSize p)) 0) = Some (Some (cluster_data p d c))"
    using readSectors_cluster [OF p d c] by (simp add: part_ok_csize(4) [OF p])
  have ofn: "unat (of_nat (csize p) :: u32) = csize p"
    using part_ok_csize(3) [OF p] by (simp add: unat_of_nat)
  show ?case
  proof (cases "sz = 0")
    case True
    then show ?thesis by simp
  next
    case False
    then show ?thesis
    proof (cases "csize p \<le> unat sz")
      case True
      then have "unat (sz - of_nat (csize p)) = unat sz - csize p"
        by (subst unat_sub_le) (simp_all add: u32_le_iff ofn)
      with True False Cons show ?thesis
        by (simp add: data_clusterD(3) [OF p c] rd len file_bytes_def)
    next
      case short: False
      with False Cons show ?thesis
        by (simp add: data_clusterD(3) [OF p c] rd len file_bytes_def)
    qed
  qed
qed

lemma readFile_chain:
  assumes p: "part_ok p" and d: "disk_ok p d" and ch: "chain p (fat_tab p d) start cs"
    and len: "length cs \<le> MAX_CHAIN" and dc: "list_all (data_cluster p) cs" and sz: "sz \<le> 0x7FFFFFFF"
  shows "readFile p d start sz = Some (take (unat sz) (file_bytes p d cs))"
proof -
  have "start < countClusters p" using ch by (cases cs) (auto simp: chain_def)
  then show ?thesis
    using readClusterChain_chain [OF p d ch len] readFile_loop_bytes [OF p d dc, of sz "[]"] sz
    by (simp add: readFile_def not_le [symmetric])
qed

lemma length_file_bytes:
  assumes "part_ok p" and "disk_ok p d" and "list_all (data_cluster p) cs"
  shows "length (file_bytes p d cs) = csize p * length cs"
  using assms(3)
  by (induction cs) (simp_all add: file_bytes_def length_cluster_data [OF assms(1,2)])

end
