(* ===== verification/Fat_Volume.thy ===== *)
theory Fat_Volume
  imports Fat_Data
begin

text \<open>
  A small FAT32 volume the properties are applied to: 100000 clusters of one sector at sector
  2048, two FATs, the root directory in cluster 2 with a file \<open>A.TXT\<close> of 600 bytes in clusters 3
  and 4, an empty directory \<open>D\<close> in cluster 5 and a directory \<open>E\<close> with one file in cluster 6. The
  partition record is what \<open>mkFAT32Partition\<close> computes from the boot sector.
\<close>

definition zeros512 :: bytes where
  "zeros512 = replicate 512 0"

definition ex_boot :: bytes where
  "ex_boot =
     [0xEB, 0x58, 0x90, 0x4D, 0x53, 0x57, 0x49, 0x4E, 0x34, 0x2E, 0x31,
      0x00, 0x02, 1, 32, 0, 2, 0, 0, 0, 0, 0xF8, 0, 0, 63, 0, 255, 0,
      0x00, 0x08, 0, 0, 0xC0, 0x8E, 1, 0, 0x00, 0x04, 0, 0, 0, 0, 0, 0, 2, 0, 0, 0,
      1, 0, 6, 0, 0, 0, 0, 0, 0, 0, 0, 0, 0, 0, 0, 0, 0x80, 0, 0x29, 0x78, 0x56, 0x34, 0x12,
      0x50, 0x41, 0x4C, 0x4D, 0x59, 0x52, 0x41, 0x20, 0x20, 0x20, 0x20,
      0x46, 0x41, 0x54, 0x33, 0x32, 0x20, 0x20, 0x20] @ replicate 422 0"

definition ex_fat :: bytes where
  "ex_fat = [0xF8, 0xFF, 0xFF, 0x0F, 0xFF, 0xFF, 0xFF, 0x0F, 0xFF, 0xFF, 0xFF, 0x0F, 4, 0, 0, 0,
     0xFF, 0xFF, 0xFF, 0x0F, 0xFF, 0xFF, 0xFF, 0x0F, 0xFF, 0xFF, 0xFF, 0x0F] @ replicate 484 0"

definition ex_slot :: "bytes \<Rightarrow> u8 \<Rightarrow> u8 \<Rightarrow> u32 \<Rightarrow> bytes" where
  "ex_slot name attr cluster sz =
     name @ [attr, 0, 0, 0, 0x60, 0x21, 0x50, 0x21, 0x50, 0, 0, 0, 0x60, 0x21, 0x50, cluster, 0] @ bytes32 sz"

definition ex_root_slots :: "bytes list" where
  "ex_root_slots =
     [ex_slot (0x41 # replicate 7 0x20 @ [0x54, 0x58, 0x54]) 0x20 3 600,
      ex_slot (0x44 # replicate 10 0x20) 0x10 5 0, ex_slot (0x45 # replicate 10 0x20) 0x10 6 0]"

definition ex_dot_slots :: "u8 \<Rightarrow> bytes list" where
  "ex_dot_slots cluster =
     [ex_slot (0x2E # replicate 10 0x20) 0x10 cluster 0, ex_slot (0x2E # 0x2E # replicate 9 0x20) 0x10 2 0]"

definition ex_dir :: "bytes list \<Rightarrow> bytes" where
  "ex_dir ss = concat (ss @ replicate (16 - length ss) (replicate 32 0))"

definition ex_sub_slots :: "bytes list" where
  "ex_sub_slots = ex_dot_slots 6 @ [ex_slot (0x42 # replicate 10 0x20) 0x20 0 0]"

definition ex_sector :: "u32 \<Rightarrow> bytes" where
  "ex_sector lba =
     (if lba = 2048 then ex_boot else if lba = 2080 \<or> lba = 3104 then ex_fat
      else if lba = 4128 then ex_dir ex_root_slots else if lba = 4131 then ex_dir (ex_dot_slots 5)
      else if lba = 4132 then ex_dir ex_sub_slots else zeros512)"

definition ex_disk :: vdisk where
  "ex_disk =
     \<lparr>vd_start = 0, vd_count = 0x80000000,
      vd_read = (\<lambda>lba. Some (ex_sector lba)),
      vd_wok = (\<lambda>_. True), vd_torn = (\<lambda>_ _. None)\<rparr>"

definition ex_part :: part where
  "ex_part = the (mkFAT32Partition ex_disk 2048 102080)"

lemma length_ex [simp]: "length ex_boot = 512" "length ex_fat = 512" "length zeros512 = 512"
  by (simp_all add: ex_boot_def ex_fat_def zeros512_def)

lemma length_ex_slot [simp]: "length name = 11 \<Longrightarrow> length (ex_slot name a c sz) = 32"
  by (simp add: ex_slot_def)

lemma length_ex_sector [simp]: "length (ex_sector lba) = 512"
  by (simp add: ex_sector_def ex_dir_def ex_root_slots_def ex_dot_slots_def ex_sub_slots_def length_concat
      sum_list_replicate)

lemma ex_sector_fat:
  "ex_sector 2048 = ex_boot" "ex_sector 2080 = ex_fat"
  "2081 \<le> lba \<Longrightarrow> lba < 3104 \<Longrightarrow> ex_sector lba = zeros512"
  by (auto simp: ex_sector_def)

lemma readSector_ex: "readSector ex_disk lba = (if lba < 0x80000000 then Some (ex_sector lba) else None)"
  by (simp add: readSector_def isValidSector_def ex_disk_def)

lemma ex_disk_fields [simp]:
  "vd_start ex_disk = 0" "vd_count ex_disk = 0x80000000" "vd_wok ex_disk lba"
  by (simp_all add: ex_disk_def)

lemma ex_sectors_512: "sectors_512 ex_disk"
  by (auto simp: sectors_512_def readSector_ex split: if_splits)

lemma parse_ex:
  "parse_fields ex_boot p = Some (p\<lparr>sectorSize := 512, clusterSize := 1,
     countReservedSectors := 32, countFATs := 2, countRootEntries := 0, countSectors16 := 0,
     fatSize16 := 0, hiddenSectors := 2048, totalSectors32 := 102080, fatSize32 := 1024,
     extendedFlags := 0, fileSystemVersion := 0, rootCluster := 2, fsInfoSector := 1,
     backupBootSector := 6, driveNumber := 0x80, bootSignature := 0x29, volumeID := 0x12345678,
     volumeLabel := [0x50, 0x41, 0x4C, 0x4D, 0x59, 0x52, 0x41, 0x20, 0x20, 0x20, 0x20],
     fileSystemType := [0x46, 0x41, 0x54, 0x33, 0x32, 0x20, 0x20, 0x20]\<rparr>)"
  unfolding parse_fields_def ex_boot_def get_uint16_t_def get_uint32_t_def get_uint8_t_def rd_at_def
  by (simp add: slice_append_left slice_def le16_def le32_def)

lemma mkFAT32Partition_ex:
  "mkFAT32Partition ex_disk 2048 102080 = Some
     \<lparr>startSector = 2048, countSectors = 102080, clusterSizeBytes = 512, sectorSize = 512,
      clusterSize = 1, countReservedSectors = 32, countFATs = 2, countRootEntries = 0,
      countSectors16 = 0, fatSize16 = 0, hiddenSectors = 2048, totalSectors32 = 102080,
      fatSize32 = 1024, extendedFlags = 0, fileSystemVersion = 0, rootCluster = 2,
      fsInfoSector = 1, backupBootSector = 6, driveNumber = 0x80, bootSignature = 0x29,
      volumeID = 0x12345678,
      volumeLabel = [0x50, 0x41, 0x4C, 0x4D, 0x59, 0x52, 0x41, 0x20, 0x20, 0x20, 0x20],
      fileSystemType = [0x46, 0x41, 0x54, 0x33, 0x32, 0x20, 0x20, 0x20], rootDirSectors = 0,
      fatSize = 1024, totalSectors = 102080, firstDataSector = 4128,
      reservedAndFatSectorsCount = 2080, dataSectorCount = 100000, countClusters = 100000,
      ptype = FAT32, fatOffsetMult = 4\<rparr>"
  unfolding mkFAT32Partition_def parseBIOSParameterBlock_def
  by (simp add: readSector_ex ex_sector_fat parse_ex new_part_def initializeAdditionalFields_def classify_def)

lemma ex_part_fields [simp]:
  "startSector ex_part = 2048" "clusterSizeBytes ex_part = 512" "sectorSize ex_part = 512"
  "clusterSize ex_part = 1" "countReservedSectors ex_part = 32" "countFATs ex_part = 2"
  "rootCluster ex_part = 2" "fatSize ex_part = 1024" "firstDataSector ex_part = 4128"
  "countClusters ex_part = 100000" "ptype ex_part = FAT32" "fatOffsetMult ex_part = 4"
  by (simp_all add: ex_part_def mkFAT32Partition_ex)

lemma ex_part_ok: "part_ok ex_part"
  by (simp add: part_ok_def)

lemma ex_disk_ok: "disk_ok ex_part ex_disk"
  by (auto simp: disk_ok_def accepts_def isValidSector_def readSector_ex u32_less_iff)

lemma slice_zeros:
  "length xs \<le> off \<Longrightarrow> off + n \<le> length xs + m \<Longrightarrow>
   slice (xs @ replicate m 0) off n = Some (replicate n 0)"
  by (simp add: slice_def)

lemma get_uint32_zeros:
  "length xs \<le> off \<Longrightarrow> off + 4 \<le> length xs + m \<Longrightarrow> get_uint32_t (xs @ replicate m 0) off = Some 0"
  by (simp add: get_uint32_t_def slice_zeros numeral_eq_Suc le32_def)

lemma ex_fat_entries:
  "get_uint32_t ex_fat 0 = Some 0x0FFFFFF8" "get_uint32_t ex_fat 4 = Some 0x0FFFFFFF"
  "get_uint32_t ex_fat 8 = Some 0x0FFFFFFF" "get_uint32_t ex_fat 12 = Some 4"
  "get_uint32_t ex_fat 16 = Some 0x0FFFFFFF" "get_uint32_t ex_fat 20 = Some 0x0FFFFFFF"
  "get_uint32_t ex_fat 24 = Some 0x0FFFFFFF"
  unfolding get_uint32_t_def ex_fat_def
  by (simp_all add: slice_append_left slice_def le32_def)

lemma ex_fat_free: "28 \<le> off \<Longrightarrow> off + 4 \<le> 512 \<Longrightarrow> get_uint32_t ex_fat off = Some 0"
  unfolding ex_fat_def by (rule get_uint32_zeros) simp_all

lemma ex_fat_tab:
  "fat_tab ex_part ex_disk 0 = 0x0FFFFFF8" "fat_tab ex_part ex_disk 1 = 0x0FFFFFFF"
  "fat_tab ex_part ex_disk 2 = 0x0FFFFFFF" "fat_tab ex_part ex_disk 3 = 4"
  "fat_tab ex_part ex_disk 4 = 0x0FFFFFFF" "fat_tab ex_part ex_disk 5 = 0x0FFFFFFF"
  "fat_tab ex_part ex_disk 6 = 0x0FFFFFFF"
  by (simp_all add: fat_tab_def calculateFATOffset_def readSector_ex ex_sector_fat ex_fat_entries)

lemma ex_tab_free:
  assumes "7 \<le> c" and "c < 100000"
  shows "fat_tab ex_part ex_disk c = 0"
proof -
  let ?sec = "fst (calculateFATOffset ex_part c)" and ?off = "unat (snd (calculateFATOffset ex_part c))"
  have c: "7 \<le> unat c" "unat c < 100000" using assms by (simp_all add: u32_le_iff u32_less_iff)
  have o: "unat ?sec = 2080 + unat c div 128" "?off = 4 * (unat c mod 128)"
    using fat_offset_exact [OF ex_part_ok, of c] assms(2) by (simp_all add: fat_sector_def)
  show ?thesis
  proof (cases "unat c < 128")
    case True
    then have "?sec = 2080" using o(1) by (simp add: word_unat_eq_iff)
    moreover have "get_uint32_t ex_fat ?off = Some 0"
      using o(2) c True by (intro ex_fat_free) simp_all
    ultimately show ?thesis by (simp add: fat_tab_def readSector_ex ex_sector_fat)
  next
    case False
    then have "1 \<le> unat c div 128" "unat c div 128 < 1024"
      using c(2) by (simp_all add: div_less_iff_less_mult Suc_le_eq div_greater_zero_iff)
    then have "2081 \<le> ?sec" "?sec < 3104" "?sec < 0x80000000"
      using o(1) by (simp_all add: u32_less_iff u32_le_iff)
    then have "readSector ex_disk ?sec = Some ([] @ replicate 512 0)"
      by (simp add: readSector_ex ex_sector_fat zeros512_def)
    moreover have "get_uint32_t ([] @ replicate 512 0) ?off = Some 0"
      using o(2) by (intro get_uint32_zeros) simp_all
    ultimately show ?thesis by (simp add: fat_tab_def)
  qed
qed

lemma ex_tab_cases:
  assumes "c < 100000"
  shows "fat_tab ex_part ex_disk c = 0 \<or> c = 3 \<and> fat_tab ex_part ex_disk c = 4 \<or>
    0x0FFFFFF8 \<le> fat_tab ex_part ex_disk c"
proof (cases "7 \<le> c")
  case True
  with assms show ?thesis by (simp add: ex_tab_free)
next
  case False
  then have "unat c < 7" by (simp add: u32_le_iff)
  then have "c \<in> {0, 1, 2, 3, 4, 5, 6}" by (auto simp: word_unat_eq_iff)
  then show ?thesis by (auto simp: ex_fat_tab)
qed

lemma ex_tab_closed: "tab_closed ex_part (fat_tab ex_part ex_disk)"
  using ex_tab_cases by (fastforce simp: tab_closed_def)

lemma ex_tab_links: "tab_links ex_part (fat_tab ex_part ex_disk)"
  using ex_tab_cases by (fastforce simp: tab_links_def)

lemma ex_chain: "chain ex_part (fat_tab ex_part ex_disk) 3 [3, 4]"
  by (simp add: chain_def ex_fat_tab)

lemma ex_chains_single:
  "chain ex_part (fat_tab ex_part ex_disk) 2 [2]" "chain ex_part (fat_tab ex_part ex_disk) 5 [5]"
  "chain ex_part (fat_tab ex_part ex_disk) 6 [6]"
  by (simp_all add: chain_def ex_fat_tab)

lemma ex_clusters: "list_all (data_cluster ex_part) [2, 3, 4, 5, 6, 7]"
  by (simp add: data_cluster_def)

end
