(* ===== verification/Fat_Laws.thy ===== *)
theory Fat_Laws
  imports Fat_Volume
begin

text \<open>
  The properties of the table, the chains and the data area of a FAT32 volume, each with its
  application to the volume of \<open>Fat_Volume\<close>.
\<close>

lemma bpb_ex: "\<exists>q. parse_fields ex_boot (new_part 2048 102080) = Some q \<and> bpb_sound q"
  by (simp add: parse_ex bpb_sound_def bpb_resv_def bpb_clusters_def new_part_def)

section \<open>Geometry\<close>

text \<open>The constructor of a FAT32 partition computes a sound geometry from any boot sector
  whose fields are sound: it accepts the volume, no 32-bit computation wraps around, and the
  cluster count is the quotient of the data sectors.\<close>

theorem mkFAT32Partition_sound:
  assumes "readSector d start = Some bs" and "parse_fields bs (new_part start count) = Some q"
    and "bpb_sound q"
  shows "\<exists>p. mkFAT32Partition d start count = Some p \<and> part_ok p \<and>
    unat (countClusters p) = bpb_clusters q"
  using assms by (rule mkFAT32Partition_parsed)

theorem mkFAT32Partition_sound_witness:
  "\<exists>p. mkFAT32Partition ex_disk 2048 102080 = Some p \<and> part_ok p"
proof -
  obtain q where q: "parse_fields ex_boot (new_part 2048 102080) = Some q" "bpb_sound q"
    using bpb_ex by blast
  have "readSector ex_disk 2048 = Some ex_boot" by (simp add: readSector_ex ex_sector_fat)
  from mkFAT32Partition_sound [OF this q] show ?thesis by blast
qed

section \<open>The table\<close>

text \<open>C1: Setting the entry of a cluster succeeds on a sound volume, is read back (masked to 28
  bits, end marks as the one end-of-chain value), leaves every other entry and the data area
  alone, and writes every copy of the FAT.\<close>

theorem setNextCluster_getNextCluster:
  assumes "part_ok p" and "disk_ok p d" and "2 \<le> c" and "c < countClusters p"
  shows "\<exists>d'. setNextCluster p c v d = Some (True, d') \<and>
    getNextCluster p d' c = Some (eoc (v AND 0x0FFFFFFF)) \<and>
    (\<forall>b. b < countClusters p \<and> b \<noteq> c \<longrightarrow> getNextCluster p d' b = getNextCluster p d b) \<and>
    same_data p d d' \<and>
    (\<forall>k < unat (countFATs p). readSector d' (fat_copy p c k) = readSector d' (fat_copy p c 0))"
proof (rule setNextCluster_effect [OF assms, of v])
  fix d'
  assume e: "setNextCluster p c v d = Some (True, d')" "disk_ok p d'"
    "fat_tab p d' c = v AND 0x0FFFFFFF" "same_data p d d'"
    "\<And>b. b < countClusters p \<Longrightarrow> b \<noteq> c \<Longrightarrow> fat_tab p d' b = fat_tab p d b"
    "\<And>k. k < unat (countFATs p) \<Longrightarrow> readSector d' (fat_copy p c k) = readSector d' (fat_copy p c 0)"
  have "getNextCluster p d' b = getNextCluster p d b" if "b < countClusters p" "b \<noteq> c" for b
    using e(5) that by (simp add: getNextCluster_tab [OF assms(1)] assms(2) e(2))
  moreover have "getNextCluster p d' c = Some (eoc (v AND 0x0FFFFFFF))"
    by (simp only: getNextCluster_tab [OF assms(1) e(2) assms(4)] e(3))
  ultimately show ?thesis using e(1,4,6) by blast
qed

theorem setNextCluster_getNextCluster_witness:
  "\<exists>d'. setNextCluster ex_part 5 7 ex_disk = Some (True, d') \<and> getNextCluster ex_part d' 5 = Some 7"
proof -
  have "eoc (7 AND 0x0FFFFFFF) = 7" by (simp add: eoc_def)
  then show ?thesis using setNextCluster_getNextCluster [OF ex_part_ok ex_disk_ok, of 5 7] by auto
qed

section \<open>Chains\<close>

text \<open>Reading a chain returns exactly the clusters the table links, in order.\<close>

theorem readClusterChain_exact:
  assumes "part_ok p" and "disk_ok p d" and "chain p (fat_tab p d) start cs"
    and "length cs \<le> MAX_CHAIN"
  shows "readClusterChain p d start = Some cs"
  using assms by (rule readClusterChain_chain)

theorem readClusterChain_exact_witness: "readClusterChain ex_part ex_disk 3 = Some [3, 4]"
  using ex_part_ok ex_disk_ok ex_chain by (rule readClusterChain_exact) (simp add: MAX_CHAIN_def)

text \<open>The traversal that keeps the last FAT sector in a cache returns the same chain as the
  original one, which reads a sector for every entry, on every table whose links stay in the
  partition, cyclic chains included.\<close>

theorem readClusterChain_cache:
  assumes "part_ok p" and "disk_ok p d" and "tab_closed p (fat_tab p d)"
  shows "readClusterChain p d start = readClusterChain_ORIGINAL p d start"
  using assms by (rule readClusterChain_naive)

theorem readClusterChain_cache_witness:
  "readClusterChain ex_part ex_disk 2 = readClusterChain_ORIGINAL ex_part ex_disk 2"
  using ex_part_ok ex_disk_ok ex_tab_closed by (rule readClusterChain_cache)

text \<open>Whatever a corrupted FAT holds (cycles, entries out of range, unreadable sectors), the
  traversal returns, with at most \<open>MAX_CHAIN\<close> distinct non-zero clusters.\<close>

theorem readClusterChain_returns:
  assumes "sectorSize p = 512" and "fatOffsetMult p = 4" and "ptype p = FAT32" and "sectors_512 d"
    and "start < countClusters p" and "fst (calculateFATOffset p start) \<noteq> EOC_MARK"
  shows "\<exists>cs. readClusterChain p d start = Some cs \<and> distinct cs \<and> 0 \<notin> set cs \<and> length cs \<le> MAX_CHAIN"
  using readClusterChain_bounded [OF assms] .

theorem readClusterChain_returns_witness:
  "\<exists>cs. readClusterChain ex_part ex_disk 7 = Some cs \<and> distinct cs \<and> length cs \<le> MAX_CHAIN"
proof -
  have "fst (calculateFATOffset ex_part 7) \<noteq> EOC_MARK"
    by (simp add: calculateFATOffset_def EOC_MARK_def)
  then show ?thesis using readClusterChain_returns [of ex_part ex_disk 7] ex_sectors_512 by auto
qed

section \<open>Allocation and release\<close>

text \<open>Allocation is first fit: it claims the lowest free cluster from the root cluster on,
  marks it as the end of a chain and changes no other entry and no data; with no free cluster
  it reports failure and leaves the disk as it is.\<close>

theorem allocateCluster_first_fit:
  assumes "part_ok p" and "disk_ok p d"
  shows "(\<exists>b d'. allocateCluster p d = Some (Some b, d') \<and> data_cluster p b \<and>
             fat_tab p d b = 0 \<and> (\<forall>a. rootCluster p \<le> a \<and> a < b \<longrightarrow> fat_tab p d a \<noteq> 0) \<and>
             tab_upd p d d' b 0x0FFFFFFF) \<or>
         (allocateCluster p d = Some (None, d) \<and> (\<forall>b. data_cluster p b \<longrightarrow> fat_tab p d b \<noteq> 0))"
  using allocateCluster_cases [OF assms] .

theorem allocateCluster_first_fit_witness:
  "\<exists>d'. allocateCluster ex_part ex_disk = Some (Some 7, d')"
proof -
  have c3: "a \<in> {2, 3, 4, 5, 6}" if "2 \<le> a" "a < 7" for a :: u32
  proof -
    have "unat a \<in> {2, 3, 4, 5, 6}" using that by (auto simp: u32_le_iff u32_less_iff)
    then show ?thesis by (auto simp: word_unat_eq_iff)
  qed
  have low: "fat_tab ex_part ex_disk a \<noteq> 0" if "2 \<le> a" "a < 7" for a
    using c3 [OF that] by (auto simp: ex_fat_tab)
  have "b = 7" if b: "data_cluster ex_part b" "fat_tab ex_part ex_disk b = 0"
    and least: "\<forall>a. rootCluster ex_part \<le> a \<and> a < b \<longrightarrow> fat_tab ex_part ex_disk a \<noteq> 0" for b
  proof -
    have "\<not> b < 7" using low [of b] b by (auto simp: data_cluster_def)
    moreover have "\<not> 7 < b" using least ex_tab_free [of 7] by auto
    ultimately show ?thesis by simp
  qed
  then show ?thesis
    using allocateCluster_first_fit [OF ex_part_ok ex_disk_ok] ex_tab_free [of 7]
    by (fastforce simp: data_cluster_def)
qed

text \<open>Freeing the chain of a cluster ends and clears exactly the entries of that chain; the
  data area is not touched.\<close>

lemma freeClusterChain_exact:
  assumes "part_ok p" and "disk_ok p d" and "chain p (fat_tab p d) c cs"
  shows "\<exists>d'. freeClusterChain p c d = Some d' \<and> disk_ok p d' \<and> same_data p d d' \<and>
    (\<forall>b. b < countClusters p \<longrightarrow> fat_tab p d' b = (if b \<in> set cs then 0 else fat_tab p d b))"
  using freeClusterChain_chain [OF assms] .

lemma freeClusterChain_exact_witness:
  "\<exists>d'. freeClusterChain ex_part 3 ex_disk = Some d' \<and> fat_tab ex_part d' 4 = 0"
  using freeClusterChain_exact [OF ex_part_ok ex_disk_ok ex_chain] by auto

text \<open>C2: Freeing also ends on a table with cyclic chains, as long as the links stay in the
  partition: every step clears the entry it leaves.\<close>

theorem freeClusterChain_terminates:
  assumes "part_ok p" and "disk_ok p d" and "tab_links p (fat_tab p d)"
    and "2 \<le> c" and "c < countClusters p"
  shows "\<exists>d'. freeClusterChain p c d = Some d' \<and> fat_tab p d' c = 0 \<and> same_data p d d'"
  using free_loop_total [OF assms(1-5)] assms(5) by (auto simp: freeClusterChain_def not_le)

theorem freeClusterChain_terminates_witness:
  "\<exists>d'. freeClusterChain ex_part 4 ex_disk = Some d' \<and> fat_tab ex_part d' 4 = 0"
  using freeClusterChain_terminates [OF ex_part_ok ex_disk_ok ex_tab_links, of 4] by auto

section \<open>Data\<close>

text \<open>Writing a full cluster succeeds and stores exactly the given bytes: the cluster reads
  back as them, every other data cluster and the whole table are unchanged.\<close>

lemma writeCluster_stores:
  assumes "part_ok p" and "disk_ok p d" and "data_cluster p c" and "length x = csize p"
  shows "\<exists>d'. writeCluster p c x d = Some (True, d') \<and> data_upd p d d' c x"
  using assms by (rule writeCluster_effect)

lemma writeCluster_stores_witness:
  "\<exists>d'. writeCluster ex_part 4 (replicate 512 7) ex_disk = Some (True, d') \<and>
     cluster_data ex_part d' 4 = replicate 512 7 \<and> cluster_data ex_part d' 3 = cluster_data ex_part ex_disk 3"
proof -
  have "\<exists>d'. writeCluster ex_part 4 (replicate 512 7) ex_disk = Some (True, d') \<and>
      data_upd ex_part ex_disk d' 4 (replicate 512 7)"
    using ex_clusters by (intro writeCluster_stores ex_part_ok ex_disk_ok) (simp_all add: csize_def)
  then show ?thesis using ex_clusters by (auto simp: data_upd_def)
qed

text \<open>Reading a file returns the bytes of its chain's clusters in order, cut to the size.\<close>

lemma readFile_exact:
  assumes "part_ok p" and "disk_ok p d" and "chain p (fat_tab p d) start cs"
    and "length cs \<le> MAX_CHAIN" and "list_all (data_cluster p) cs" and "sz \<le> 0x7FFFFFFF"
  shows "readFile p d start sz = Some (take (unat sz) (file_bytes p d cs))"
  using assms by (rule readFile_chain)

lemma readFile_exact_witness:
  "readFile ex_part ex_disk 3 600 = Some (take 600 (file_bytes ex_part ex_disk [3, 4]))"
proof -
  have "readFile ex_part ex_disk 3 600 = Some (take (unat (600 :: u32)) (file_bytes ex_part ex_disk [3, 4]))"
    using ex_clusters by (intro readFile_exact ex_part_ok ex_disk_ok ex_chain) (simp_all add: MAX_CHAIN_def)
  then show ?thesis by simp
qed

end
