(* ===== verification/Kstring.thy ===== *)
theory Kstring
  imports Bytes
begin

text \<open>
  The string class of the kernel (\<open>libs/string.h\<close>): a vector that ends with a terminator. The
  definitions \<open>str_...\<close> are the methods on that vector (\<open>data_\<close>); the definitions \<open>k...\<close> are
  the same methods on the characters before the terminator, which is how the other theories
  hold a string. \<open>rep s\<close> is the vector of the characters \<open>s\<close>; the refinement lemmas show
  that every method on \<open>rep s\<close> is the corresponding operation on \<open>s\<close>.

  A position is a natural number, \<open>npos\<close> is \<open>None\<close>. The comparison goes through the C string,
  so it stops at the first zero character; \<open>cstr\<close> is that prefix.
\<close>

section \<open>Characters\<close>

definition isdigit :: "u8 \<Rightarrow> bool" where "isdigit c \<longleftrightarrow> 48 \<le> c \<and> c \<le> 57"
definition isupper :: "u8 \<Rightarrow> bool" where "isupper c \<longleftrightarrow> 65 \<le> c \<and> c \<le> 90"
definition islower :: "u8 \<Rightarrow> bool" where "islower c \<longleftrightarrow> 97 \<le> c \<and> c \<le> 122"

definition isalnum :: "u8 \<Rightarrow> bool" where
  "isalnum c \<longleftrightarrow> (48 \<le> c \<and> c \<le> 57) \<or> (65 \<le> c \<and> c \<le> 90) \<or> (97 \<le> c \<and> c \<le> 122)"

definition isalpha :: "u8 \<Rightarrow> bool" where
  "isalpha c \<longleftrightarrow> (65 \<le> c \<and> c \<le> 90) \<or> (97 \<le> c \<and> c \<le> 122)"

definition isspace :: "u8 \<Rightarrow> bool" where
  "isspace c \<longleftrightarrow> c = 32 \<or> c = 10 \<or> c = 9 \<or> c = 11 \<or> c = 12 \<or> c = 13"

definition tolower :: "u8 \<Rightarrow> u8" where "tolower c = (if isupper c then c + 32 else c)"
definition toupper :: "u8 \<Rightarrow> u8" where "toupper c = (if islower c then c - 32 else c)"

text \<open>The whitespace test of \<open>strip\<close> is the one of \<open>isspace\<close>.\<close>

section \<open>The vector\<close>

definition ensure_null_terminator :: "'a :: zero list \<Rightarrow> 'a list" where
  "ensure_null_terminator data = (if data = [] \<or> last data \<noteq> 0 then data @ [0] else data)"

definition str_of_cstr :: "'a :: zero list \<Rightarrow> 'a list" where
  "str_of_cstr cs = ensure_null_terminator (takeWhile (\<lambda>c. c \<noteq> 0) cs)"

definition str_of_range :: "'a :: zero list \<Rightarrow> 'a list" where
  "str_of_range cs = ensure_null_terminator cs"

definition str_size :: "'a list \<Rightarrow> nat" where
  "str_size data = (if length data > 0 then length data - 1 else 0)"

definition str_empty :: "'a :: zero list \<Rightarrow> bool" where
  "str_empty data \<longleftrightarrow> (if data = [] then True else data ! 0 = 0)"

definition str_resize :: "'a :: zero list \<Rightarrow> nat \<Rightarrow> 'a \<Rightarrow> 'a list" where
  "str_resize data count ch =
     ensure_null_terminator (take count data @ replicate (count - length data) ch)"

definition str_at :: "'a list \<Rightarrow> nat \<Rightarrow> 'a option" where
  "str_at data pos =
     (if pos \<ge> str_size data
      then if str_size data = 0 then None else rd_at data (pos mod str_size data)
      else rd_at data pos)"

definition str_push_back :: "'a :: zero list \<Rightarrow> 'a \<Rightarrow> 'a list" where
  "str_push_back data c = ensure_null_terminator (butlast data @ [c] @ [last data])"

definition str_clear :: "'a :: zero list" where
  "str_clear = ensure_null_terminator []"

definition str_append :: "'a :: zero list \<Rightarrow> 'a list \<Rightarrow> 'a list" where
  "str_append data other = ensure_null_terminator (butlast data @ butlast other @ [last data])"

definition str_append_cstr :: "'a :: zero list \<Rightarrow> 'a list \<Rightarrow> 'a list" where
  "str_append_cstr data s = butlast data @ takeWhile (\<lambda>c. c \<noteq> 0) s @ [last data]"

definition str_eq :: "'a :: zero list \<Rightarrow> 'a list \<Rightarrow> bool" where
  "str_eq data other \<longleftrightarrow> takeWhile (\<lambda>c. c \<noteq> 0) data = takeWhile (\<lambda>c. c \<noteq> 0) other"

function str_find :: "'a list \<Rightarrow> 'a \<Rightarrow> nat \<Rightarrow> nat option" where
  "str_find data ch i =
     (if i < str_size data then if data ! i = ch then Some i else str_find data ch (Suc i)
      else None)"
  by pat_completeness auto
termination by (relation "measure (\<lambda>(data, ch, i). str_size data - i)") auto

definition str_erase :: "'a :: zero list \<Rightarrow> nat \<Rightarrow> nat option \<Rightarrow> 'a list" where
  "str_erase data pos len =
     (if pos \<ge> str_size data then data
      else let n = (case len of None \<Rightarrow> str_size data - pos
                    | Some n \<Rightarrow> if pos + n > str_size data then str_size data - pos else n)
           in ensure_null_terminator (take pos data @ drop (pos + n) data))"

definition str_erase_range :: "'a :: zero list \<Rightarrow> nat \<Rightarrow> nat \<Rightarrow> 'a list" where
  "str_erase_range data i j = ensure_null_terminator (take i data @ drop j data)"

function strip_start :: "u8 list \<Rightarrow> nat \<Rightarrow> nat" where
  "strip_start data i =
     (if i < str_size data \<and> isspace (data ! i) then strip_start data (Suc i) else i)"
  by pat_completeness auto
termination by (relation "measure (\<lambda>(data, i). str_size data - i)") auto

fun strip_end :: "u8 list \<Rightarrow> nat \<Rightarrow> nat \<Rightarrow> nat" where
  "strip_end data start 0 = 0"
| "strip_end data start (Suc e) =
     (if Suc e > start \<and> isspace (data ! e) then strip_end data start e else Suc e)"

definition str_strip :: "u8 list \<Rightarrow> u8 list" where
  "str_strip data =
     (let start = strip_start data 0;
          end = strip_end data start (str_size data);
          data' = (if start > 0 \<or> end < str_size data
                   then drop start (take end data @ [last data]) else data)
      in ensure_null_terminator data')"

definition str_substr :: "'a :: zero list \<Rightarrow> nat \<Rightarrow> nat option \<Rightarrow> 'a list" where
  "str_substr data pos count =
     (let pos' = (if pos > str_size data then str_size data else pos);
          len = (case count of None \<Rightarrow> str_size data - pos'
                 | Some n \<Rightarrow> if pos' + n > str_size data then str_size data - pos' else n)
      in str_of_range (take len (drop pos' data)))"

fun find_last_from :: "'a list \<Rightarrow> 'a list \<Rightarrow> nat \<Rightarrow> nat option" where
  "find_last_from data chars 0 = None"
| "find_last_from data chars (Suc i) =
     (if data ! i \<in> set chars then Some i else find_last_from data chars i)"

definition str_find_last_of :: "'a list \<Rightarrow> 'a list \<Rightarrow> nat option \<Rightarrow> nat option" where
  "str_find_last_of data chars pos =
     (case pos of
        None \<Rightarrow> find_last_from data chars (str_size data)
      | Some q \<Rightarrow> find_last_from data chars (if q \<ge> str_size data then str_size data else Suc q))"

definition str_insert :: "'a :: zero list \<Rightarrow> nat \<Rightarrow> 'a list \<Rightarrow> 'a list" where
  "str_insert data pos cs =
     (let pos' = (if pos > str_size data then str_size data else pos)
      in ensure_null_terminator (take pos' data @ cs @ drop pos' data))"

definition str_toLower :: "u8 list \<Rightarrow> u8 list" where
  "str_toLower data =
     ensure_null_terminator (map tolower (take (str_size data) data) @ drop (str_size data) data)"

definition str_toUpper :: "u8 list \<Rightarrow> u8 list" where
  "str_toUpper data =
     ensure_null_terminator (map toupper (take (str_size data) data) @ drop (str_size data) data)"

lemma str_find_bounds: "str_find data ch i = Some e \<Longrightarrow> i \<le> e \<and> e < str_size data"
  by (induction data ch i rule: str_find.induct) (auto split: if_splits)

declare str_find.simps [simp del] strip_start.simps [simp del]

function split_loop :: "'a :: zero list \<Rightarrow> 'a \<Rightarrow> bool \<Rightarrow> nat \<Rightarrow> 'a list list \<Rightarrow> 'a list list" where
  "split_loop data delimiter ignoreEmpty start result =
     (case str_find data delimiter start of
        Some e \<Rightarrow>
          let token = str_of_range (take (e - start) (drop start data));
              result' = (if \<not> str_empty token \<or> \<not> ignoreEmpty then result @ [token] else result)
          in split_loop data delimiter ignoreEmpty (Suc e) result'
      | None \<Rightarrow>
          if start < str_size data
          then let token = str_of_range (butlast (drop start data))
               in if \<not> str_empty token \<or> \<not> ignoreEmpty then result @ [token] else result
          else result)"
  by pat_completeness auto
termination
  by (relation "measure (\<lambda>(data, d, ig, start, r). str_size data - start)")
    (auto dest: str_find_bounds)

definition str_split :: "'a :: zero list \<Rightarrow> 'a \<Rightarrow> bool \<Rightarrow> 'a list list" where
  "str_split data delimiter ignoreEmpty = split_loop data delimiter ignoreEmpty 0 []"

section \<open>The characters\<close>

definition rep :: "'a :: zero list \<Rightarrow> 'a list" where
  "rep s = s @ [0]"

definition str_ok :: "'a :: zero list \<Rightarrow> bool" where
  "str_ok data \<longleftrightarrow> data \<noteq> [] \<and> last data = 0"

definition of_buf :: "'a :: zero list \<Rightarrow> 'a list" where
  "of_buf xs = (if xs \<noteq> [] \<and> last xs = 0 then butlast xs else xs)"

definition cstr :: "'a :: zero list \<Rightarrow> 'a list" where
  "cstr s = takeWhile (\<lambda>c. c \<noteq> 0) s"

definition keq :: "'a :: zero list \<Rightarrow> 'a list \<Rightarrow> bool" where
  "keq s t \<longleftrightarrow> cstr s = cstr t"

definition kempty :: "'a :: zero list \<Rightarrow> bool" where
  "kempty s \<longleftrightarrow> s = [] \<or> hd s = 0"

definition ksubstr :: "'a :: zero list \<Rightarrow> nat \<Rightarrow> nat option \<Rightarrow> 'a list" where
  "ksubstr s pos count =
     of_buf (case count of None \<Rightarrow> drop pos s | Some n \<Rightarrow> take n (drop pos s))"

fun kfind :: "'a list \<Rightarrow> 'a \<Rightarrow> nat option" where
  "kfind [] ch = None"
| "kfind (c # s) ch = (if c = ch then Some 0 else map_option Suc (kfind s ch))"

definition kfind_last :: "'a list \<Rightarrow> 'a \<Rightarrow> nat option" where
  "kfind_last s ch = find_last_from s [ch] (length s)"

definition kstrip :: "u8 list \<Rightarrow> u8 list" where
  "kstrip s = rev (dropWhile isspace (rev (dropWhile isspace s)))"

fun split_on :: "'a \<Rightarrow> 'a list \<Rightarrow> 'a list list" where
  "split_on d [] = [[]]"
| "split_on d (x # xs) =
     (if x = d then [] # split_on d xs
      else (x # hd (split_on d xs)) # tl (split_on d xs))"

definition ksplit :: "'a :: zero list \<Rightarrow> 'a \<Rightarrow> bool \<Rightarrow> 'a list list" where
  "ksplit s d ignoreEmpty =
     (let ts = split_on d s;
          ts' = (if last ts = [] then butlast ts else ts)
      in if ignoreEmpty then filter (\<lambda>t. \<not> kempty t) (map of_buf ts') else map of_buf ts')"

section \<open>Refinement\<close>

lemma str_ok_rep [simp]: "str_ok (rep s)"
  by (simp add: str_ok_def rep_def)

lemma str_ok_iff: "str_ok data \<longleftrightarrow> data = rep (butlast data)"
  unfolding str_ok_def rep_def by (metis append_butlast_last_id snoc_eq_iff_butlast)

lemma ensure_id [simp]: "ensure_null_terminator (rep s) = rep s"
  by (simp add: ensure_null_terminator_def rep_def)

lemma ensure_snoc0 [simp]: "ensure_null_terminator (xs @ [0]) = xs @ [0]"
  by (simp add: ensure_null_terminator_def)

lemma ensure_of_buf: "ensure_null_terminator xs = rep (of_buf xs)"
  by (auto simp: ensure_null_terminator_def rep_def of_buf_def dest: append_butlast_last_id)

lemma str_size_rep [simp]: "str_size (rep s) = length s"
  by (simp add: str_size_def rep_def)

lemma nth_rep [simp]: "i < length s \<Longrightarrow> rep s ! i = s ! i"
  by (simp add: rep_def nth_append)

lemma str_of_range_rep: "str_of_range cs = rep (of_buf cs)"
  by (simp add: str_of_range_def ensure_of_buf)

lemma str_empty_rep [simp]: "str_empty (rep s) = kempty s"
  by (cases s) (auto simp: str_empty_def rep_def kempty_def)

lemma str_push_back_rep [simp]: "str_push_back (rep s) c = rep (s @ [c])"
  by (simp add: str_push_back_def rep_def)
    (metis append.assoc append_Cons append_Nil ensure_snoc0)

lemma str_append_rep [simp]: "str_append (rep s) (rep t) = rep (s @ t)"
  by (simp add: str_append_def rep_def) (metis append.assoc ensure_snoc0)

lemma str_append_cstr_rep [simp]: "str_append_cstr (rep s) t = rep (s @ cstr t)"
  by (simp add: str_append_cstr_def rep_def cstr_def)

lemma cstr_rep: "cstr (rep s) = cstr s"
  by (induction s) (simp_all add: rep_def cstr_def)

lemma str_eq_rep: "str_eq (rep s) (rep t) = keq s t"
  using cstr_rep [of s] cstr_rep [of t] by (simp add: str_eq_def keq_def cstr_def)

lemma cstr_no_zero: "0 \<notin> set (cstr s)"
  unfolding cstr_def by (induction s) auto

lemma of_buf_cstr [simp]: "of_buf (cstr s) = cstr s"
  using cstr_no_zero [of s] last_in_set by (fastforce simp: of_buf_def)

lemma str_of_cstr_rep: "str_of_cstr s = rep (cstr s)"
  by (simp add: str_of_cstr_def ensure_of_buf cstr_def [symmetric])

lemma cstr_id: "0 \<notin> set s \<Longrightarrow> cstr s = s"
  unfolding cstr_def by (induction s) auto

lemma kfind_Some: "kfind s ch = Some i \<Longrightarrow> i < length s \<and> s ! i = ch \<and> (\<forall>j < i. s ! j \<noteq> ch)"
proof (induction s arbitrary: i)
  case Nil
  then show ?case by simp
next
  case (Cons c s)
  show ?case
  proof (cases "c = ch")
    case True
    with Cons.prems show ?thesis by simp
  next
    case False
    with Cons.prems obtain k where k: "i = Suc k" "kfind s ch = Some k" by auto
    with Cons.IH [OF k(2)] False show ?thesis by (auto simp: nth_Cons split: nat.splits)
  qed
qed

lemma str_find_kfind:
  "i \<le> length s \<Longrightarrow> str_find (rep s) ch i = map_option (\<lambda>k. i + k) (kfind (drop i s) ch)"
proof (induction "length s - i" arbitrary: i)
  case 0
  then show ?case by (simp add: str_find.simps)
next
  case (Suc n)
  then have "drop i s = s ! i # drop (Suc i) s" by (simp add: Cons_nth_drop_Suc)
  moreover have "str_find (rep s) ch (Suc i) = map_option (\<lambda>k. Suc i + k) (kfind (drop (Suc i) s) ch)"
    using Suc.hyps(2) by (intro Suc.hyps(1)) auto
  ultimately show ?case
    using Suc.hyps(2) by (subst str_find.simps) (auto simp: option.map_comp comp_def)
qed

lemma str_find_rep: "str_find (rep s) ch 0 = kfind s ch"
  by (simp add: str_find_kfind option.map_ident)

lemma str_substr_rep: "str_substr (rep s) pos count = rep (ksubstr s pos count)"
  by (cases "pos > length s"; cases count)
    (auto simp: str_substr_def ksubstr_def str_of_range_rep Let_def rep_def str_size_def)

lemma find_last_from_take:
  "n \<le> length xs \<Longrightarrow> find_last_from (xs @ ys) cs n = find_last_from xs cs n"
  by (induction n) (auto simp: nth_append)

lemma str_find_last_of_rep: "str_find_last_of (rep s) [ch] None = kfind_last s ch"
  by (simp add: str_find_last_of_def kfind_last_def rep_def find_last_from_take str_size_def)

lemma str_toLower_rep: "str_toLower (rep s) = rep (map tolower s)"
  by (simp add: str_toLower_def rep_def str_size_def)

lemma str_toUpper_rep: "str_toUpper (rep s) = rep (map toupper s)"
  by (simp add: str_toUpper_def rep_def str_size_def)

lemma strip_start_rep:
  "i \<le> length s \<Longrightarrow> strip_start (rep s) i = i + length (takeWhile isspace (drop i s))"
proof (induction "length s - i" arbitrary: i)
  case 0
  then show ?case by (simp add: strip_start.simps)
next
  case (Suc n)
  then have "drop i s = s ! i # drop (Suc i) s" by (simp add: Cons_nth_drop_Suc)
  moreover have "strip_start (rep s) (Suc i) = Suc i + length (takeWhile isspace (drop (Suc i) s))"
    using Suc.hyps(2) by (intro Suc.hyps(1)) auto
  ultimately show ?case using Suc.hyps(2) by (subst strip_start.simps) simp
qed

lemma strip_end_rep:
  "start \<le> e \<Longrightarrow> e \<le> length s \<Longrightarrow>
   strip_end (rep s) start e = start + length (dropWhile isspace (rev (drop start (take e s))))"
proof (induction e)
  case 0
  then show ?case by simp
next
  case (Suc e)
  show ?case
  proof (cases "start \<le> e")
    case True
    then have "drop start (take (Suc e) s) = drop start (take e s) @ [s ! e]"
      using Suc.prems by (simp add: take_Suc_conv_app_nth)
    with True Suc show ?thesis by auto
  next
    case False
    with Suc.prems have "start = Suc e" by simp
    with Suc.prems show ?thesis by simp
  qed
qed

lemma str_strip_rep: "str_strip (rep s) = rep (kstrip s)"
proof -
  define i where "i = length (takeWhile isspace s)"
  define u where "u = dropWhile isspace s"
  have u: "u = drop i s" by (simp add: u_def i_def dropWhile_eq_drop)
  have il: "i \<le> length s" by (simp add: i_def length_takeWhile_le)
  have st: "strip_start (rep s) 0 = i" by (simp add: strip_start_rep i_def)
  define k where "k = dropWhile isspace (rev u)"
  have "strip_end (rep s) i (length s) = i + length k"
    using il by (simp add: strip_end_rep u k_def)
  moreover have kl: "length k \<le> length u" unfolding k_def by (metis length_dropWhile_le length_rev)
  moreover have rk: "rev k = take (length k) u"
  proof -
    have "rev u = takeWhile isspace (rev u) @ k" by (simp add: k_def)
    then have "u = rev k @ rev (takeWhile isspace (rev u))" by (metis rev_append rev_rev_ident)
    then show ?thesis by (metis append_eq_conv_conj length_rev)
  qed
  moreover have "drop i (take (i + length k) (rep s) @ [last (rep s)]) = take (length k) u @ [0]"
    using il kl by (simp add: rep_def u drop_take)
  moreover have "kstrip s = rev k" by (simp add: kstrip_def u_def k_def)
  ultimately have e: "strip_end (rep s) i (length s) = i + length k" "length k \<le> length u"
    "take (length k) u = kstrip s" and
    dr: "drop i (take (i + length k) (rep s) @ [last (rep s)]) = kstrip s @ [0]"
    by simp_all
  show ?thesis
  proof (cases "i > 0 \<or> i + length k < length s")
    case True
    then have "str_strip (rep s) = ensure_null_terminator (kstrip s @ [0])"
      using dr by (simp only: str_strip_def Let_def st str_size_rep e(1) if_True)
    then show ?thesis by (simp add: rep_def)
  next
    case False
    then have "i = 0" "length s \<le> length k" by simp_all
    then have "kstrip s = s" using e(3) by (simp add: u)
    moreover have "str_strip (rep s) = ensure_null_terminator (rep s)"
      using False by (simp only: str_strip_def Let_def st str_size_rep e(1) if_False)
    ultimately show ?thesis by simp
  qed
qed

lemma str_insert_ok: "str_ok (str_insert data pos cs)"
  by (simp add: str_insert_def ensure_of_buf Let_def)

section \<open>Splitting\<close>

lemma split_on_ne [simp]: "split_on d s \<noteq> []"
  by (cases s) auto

lemma split_on_kfind:
  "split_on d s =
     (case kfind s d of None \<Rightarrow> [s] | Some k \<Rightarrow> take k s # split_on d (drop (Suc k) s))"
  by (induction s) (auto split: option.splits)

definition toks :: "'a \<Rightarrow> 'a list \<Rightarrow> 'a list list" where
  "toks d s = (if last (split_on d s) = [] then butlast (split_on d s) else split_on d s)"

lemma toks_None: "kfind s d = None \<Longrightarrow> toks d s = (if s = [] then [] else [s])"
  by (simp add: toks_def split_on_kfind [of d s])

lemma toks_Some: "kfind s d = Some k \<Longrightarrow> toks d s = take k s # toks d (drop (Suc k) s)"
  by (simp add: toks_def split_on_kfind [of d s])

lemma ksplit_toks:
  "ksplit s d ig =
     (if ig then filter (\<lambda>t. \<not> kempty t) (map of_buf (toks d s)) else map of_buf (toks d s))"
  by (simp add: ksplit_def toks_def Let_def)

declare split_loop.simps [simp del]

lemma split_loop_rep:
  "start \<le> length s \<Longrightarrow>
   split_loop (rep s) d ig start result = result @ map rep (ksplit (drop start s) d ig)"
proof (induction "length s - start" arbitrary: start result rule: less_induct)
  case less
  show ?case
  proof (cases "kfind (drop start s) d")
    case None
    have "butlast (drop start (rep s)) = drop start s"
      using less.prems by (simp add: rep_def)
    with None less.prems show ?thesis
      by (subst split_loop.simps)
        (simp add: str_find_kfind ksplit_toks toks_None str_of_range_rep)
  next
    case (Some k)
    then have k: "start + k < length s" by (auto dest: kfind_Some)
    define result' where
      "result' = (if \<not> kempty (of_buf (take k (drop start s))) \<or> \<not> ig
                  then result @ [rep (of_buf (take k (drop start s)))] else result)"
    have "take k (drop start (rep s)) = take k (drop start s)"
      using k by (simp add: rep_def)
    then have "split_loop (rep s) d ig start result = split_loop (rep s) d ig (Suc (start + k)) result'"
      using Some less.prems
      by (subst split_loop.simps) (simp add: str_find_kfind str_of_range_rep result'_def)
    also have "\<dots> = result' @ map rep (ksplit (drop (Suc (start + k)) s) d ig)"
      using k by (intro less.hyps) auto
    finally show ?thesis
      using Some by (simp add: ksplit_toks toks_Some result'_def add.commute)
  qed
qed

lemma str_split_rep: "str_split (rep s) d ig = map rep (ksplit s d ig)"
  by (simp add: str_split_def split_loop_rep)

lemma kfind_append: "d \<notin> set t \<Longrightarrow> kfind (t @ d # r) d = Some (length t)"
  by (induction t) auto

lemma kfind_none: "d \<notin> set t \<Longrightarrow> kfind t d = None"
  by (induction t) auto

definition join_path :: "'a \<Rightarrow> 'a list list \<Rightarrow> 'a list" where
  "join_path d ts = concat (map (\<lambda>t. d # t) ts)"

lemma of_buf_id: "0 \<notin> set t \<Longrightarrow> of_buf t = t"
  using last_in_set by (fastforce simp: of_buf_def)

lemma kempty_id: "0 \<notin> set t \<Longrightarrow> kempty t = (t = [])"
  by (cases t) (auto simp: kempty_def)

lemma toks_join:
  assumes "t \<noteq> []" "d \<notin> set t" "list_all (\<lambda>t. t \<noteq> [] \<and> d \<notin> set t) ts"
  shows "toks d (t @ join_path d ts) = t # ts"
  using assms
proof (induction ts arbitrary: t)
  case Nil
  then show ?case by (simp add: join_path_def toks_None kfind_none)
next
  case (Cons u ts)
  then have "kfind (t @ join_path d (u # ts)) d = Some (length t)"
    by (simp add: join_path_def kfind_append)
  then have "toks d (t @ join_path d (u # ts)) = t # toks d (u @ join_path d ts)"
    by (simp add: toks_Some join_path_def)
  with Cons show ?case by simp
qed

lemma ksplit_join:
  assumes "list_all (\<lambda>t. t \<noteq> [] \<and> d \<notin> set t \<and> 0 \<notin> set t) ts"
  shows "ksplit (join_path d ts) d True = ts"
proof (cases ts)
  case Nil
  then show ?thesis by (simp add: join_path_def ksplit_def)
next
  case (Cons t us)
  then have "toks d (join_path d ts) = [] # toks d (t @ join_path d us)"
    by (subst toks_Some [of _ _ 0]) (simp_all add: join_path_def)
  also have "toks d (t @ join_path d us) = ts"
    using assms Cons by (simp add: toks_join list_all_iff)
  finally have "toks d (join_path d ts) = [] # ts" .
  moreover have "map of_buf ts = ts" "filter (\<lambda>t. \<not> kempty t) ts = ts"
    using assms by (auto simp: list_all_iff of_buf_id kempty_id intro!: map_idI)
  ultimately show ?thesis by (simp add: ksplit_toks of_buf_def kempty_def)
qed

end
