(* ===== verification/Utf.thy ===== *)
theory Utf
  imports Kstring
begin

text \<open>
  The conversions between UTF-8 and UTF-16 of \<open>core/encodings.cpp\<close>, and the copy of the
  decoder inside \<open>createLFNEntries\<close> of \<open>Fat32.cpp\<close>, which differs in one statement: on a bad
  continuation byte it leaves the inner loop (\<open>stop = True\<close>) while the other one goes on with
  the next byte of the sequence. A wide string is held as its 16-bit units: only values of
  type \<open>uint16_t\<close> are ever stored in one. Reads go through the vector with its terminator
  (\<open>rep s\<close>), so reading the terminator is allowed and reading past it is \<open>None\<close>.
\<close>

section \<open>Definitions\<close>

fun utf16_char_to_utf8 :: "u16 \<Rightarrow> bytes" where
  "utf16_char_to_utf8 u =
     (if u < 0x80 then [ucast u]
      else if u < 0x800 then [ucast (drop_bit 6 u OR 0xC0), ucast (u AND 0x3F OR 0x80)]
      else [ucast (drop_bit 12 u OR 0xE0), ucast (drop_bit 6 u AND 0x3F OR 0x80),
            ucast (u AND 0x3F OR 0x80)])"

definition utf16le_to_utf8 :: "u16 list \<Rightarrow> bytes" where
  "utf16le_to_utf8 us = concat (map utf16_char_to_utf8 us)"

definition utf8_lead :: "byte \<Rightarrow> (u32 \<times> nat) option" where
  "utf8_lead c =
     (if c \<le> 0x7F then Some (ucast c, 0)
      else if c AND 0xE0 = 0xC0 then Some (ucast (c AND 0x1F), 1)
      else if c AND 0xF0 = 0xE0 then Some (ucast (c AND 0x0F), 2)
      else if c AND 0xF8 = 0xF0 then Some (ucast (c AND 0x07), 3)
      else None)"

fun utf8_cont :: "bool \<Rightarrow> bytes \<Rightarrow> nat \<Rightarrow> nat \<Rightarrow> nat \<Rightarrow> u32 \<Rightarrow> (nat \<times> u32) option" where
  "utf8_cont stop data 0 i j cp = Some (i, cp)"
| "utf8_cont stop data (Suc n) i j cp =
     do { cc \<leftarrow> rd_at data (i + j);
          if cc AND 0xC0 \<noteq> 0x80 then
            if stop then Some (i + j, cp) else utf8_cont stop data n (i + j) (Suc j) cp
          else utf8_cont stop data n i (Suc j) (push_bit 6 cp OR ucast (cc AND 0x3F)) }"

definition utf16_units :: "u32 \<Rightarrow> u16 list" where
  "utf16_units cp =
     (if cp \<le> 0xFFFF then if cp \<ge> 0xD800 \<and> cp \<le> 0xDFFF then [] else [ucast cp]
      else if cp \<le> 0x10FFFF then
        [0xD800 OR ucast (drop_bit 10 (cp - 0x10000) AND 0x3FF),
         0xDC00 OR ucast ((cp - 0x10000) AND 0x3FF)]
      else [])"

lemma utf8_cont_ge: "utf8_cont stop data n i j cp = Some (i', cp') \<Longrightarrow> i \<le> i'"
  by (induction stop data n i j cp rule: utf8_cont.induct)
    (auto split: Option.bind_splits if_splits)

function utf8_loop :: "bool \<Rightarrow> bytes \<Rightarrow> nat \<Rightarrow> nat \<Rightarrow> u16 list \<Rightarrow> u16 list option" where
  "utf8_loop stop data n i acc =
     (if i < n then
        do { c \<leftarrow> rd_at data i;
             case utf8_lead c of
               None \<Rightarrow> utf8_loop stop data n (Suc i) acc
             | Some (cp, extra) \<Rightarrow>
                 if i + extra \<ge> n then Some acc
                 else case utf8_cont stop data extra i 1 cp of
                        None \<Rightarrow> None
                      | Some (i', cp') \<Rightarrow>
                          utf8_loop stop data n (i' + extra + 1) (acc @ utf16_units cp') }
      else Some acc)"
  by pat_completeness auto
termination
  by (relation "measure (\<lambda>(stop, data, n, i, acc). n - i)") (auto dest: utf8_cont_ge)

definition utf8_to_utf16le :: "bytes \<Rightarrow> u16 list option" where
  "utf8_to_utf16le s = utf8_loop False (rep s) (length s) 0 []"

definition lfn_utf16 :: "bytes \<Rightarrow> u16 list option" where
  "lfn_utf16 s = utf8_loop True (rep s) (length s) 0 []"

declare utf8_loop.simps [simp del]

section \<open>Round trip\<close>

definition surrogate :: "u16 \<Rightarrow> bool" where
  "surrogate u \<longleftrightarrow> 0xD800 \<le> u \<and> u \<le> 0xDFFF"

lemma bit_less_pow:
  assumes "unat u < 2 ^ k" and "bit (u :: u16) n"
  shows "n < k"
proof (rule ccontr)
  assume "\<not> n < k"
  have "unat u div 2 ^ n = 0"
    using assms(1) \<open>\<not> n < k\<close> power_increasing [of k n "2 :: nat"]
    by (auto simp: div_eq_0_iff intro: less_le_trans)
  then have "\<not> bit (unat u) n" by (simp add: bit_iff_odd)
  with assms(2) show False by (simp add: bit_unsigned_iff)
qed

lemma upto32:
  assumes "n < (32 :: nat)"
    and "P 0" "P 1" "P 2" "P 3" "P 4" "P 5" "P 6" "P 7" "P 8" "P 9" "P 10" "P 11" "P 12" "P 13"
    "P 14" "P 15"
    and "\<And>n. 16 \<le> n \<Longrightarrow> n < 32 \<Longrightarrow> P n"
  shows "P n"
proof (cases "n < 16")
  case True
  then have "n \<in> {0, 1, 2, 3, 4, 5, 6, 7, 8, 9, 10, 11, 12, 13, 14, 15}"
    by (simp only: insert_iff empty_iff) presburger
  then show ?thesis using assms(2-17) by auto
next
  case False
  with assms(1,18) show ?thesis by simp
qed

lemma two_byte:
  assumes "(u :: u16) < 0x800"
  shows "push_bit 6 (ucast (ucast (drop_bit 6 u OR 0xC0) AND 0x1F :: byte) :: u32) OR
    ucast (ucast (u AND 0x3F OR 0x80) AND 0x3F :: byte) = ucast u"
proof (rule bit_word_eqI)
  fix n
  assume n: "n < LENGTH(32)"
  have b: "11 \<le> m \<Longrightarrow> \<not> bit u m" for m using bit_less_pow [of u 11 m] assms
    by (auto simp: word_less_nat_alt)
  have h: "16 \<le> m \<Longrightarrow> \<not> bit (0x1F :: byte) (m - 6) \<and> \<not> bit (0x3F :: byte) m" for m by auto
  show "bit (push_bit 6 (ucast (ucast (drop_bit 6 u OR 0xC0) AND 0x1F :: byte) :: u32) OR
    ucast (ucast (u AND 0x3F OR 0x80) AND 0x3F :: byte)) n = bit (ucast u :: u32) n"
    by (rule upto32 [OF n [simplified]]) (auto simp: bit_simps b)
qed

lemma masked_bytes:
  fixes v :: u16
  shows "(ucast (v OR 0x80) AND 0x3F :: byte) = take_bit 6 (ucast v)"
    and "(ucast (v OR 0xE0) AND 0x0F :: byte) = take_bit 4 (ucast v)"
    and "v AND 0x3F = take_bit 6 v"
proof -
  have m: "(0x3F :: byte) = mask 6" "(0x0F :: byte) = mask 4" "(0x3F :: u16) = mask 6"
    by (simp_all add: mask_eq_exp_minus_1)
  show "v AND 0x3F = take_bit 6 v" by (simp only: m take_bit_eq_mask)
  show "(ucast (v OR 0x80) AND 0x3F :: byte) = take_bit 6 (ucast v)"
    unfolding m take_bit_eq_mask [symmetric]
  proof (rule bit_word_eqI)
    fix n
    assume n: "n < LENGTH(8)"
    show "bit (take_bit 6 (ucast (v OR 0x80)) :: byte) n = bit (take_bit 6 (ucast v) :: byte) n"
      by (rule upto32) (use n in \<open>auto simp: bit_simps\<close>)
  qed
  show "(ucast (v OR 0xE0) AND 0x0F :: byte) = take_bit 4 (ucast v)"
    unfolding m take_bit_eq_mask [symmetric]
  proof (rule bit_word_eqI)
    fix n
    assume n: "n < LENGTH(8)"
    show "bit (take_bit 4 (ucast (v OR 0xE0)) :: byte) n = bit (take_bit 4 (ucast v) :: byte) n"
      by (rule upto32) (use n in \<open>auto simp: bit_simps\<close>)
  qed
qed

lemma three_byte:
  fixes u :: u16
  shows "push_bit 6 (push_bit 6 (ucast (ucast (drop_bit 12 u OR 0xE0) AND 0x0F :: byte) :: u32) OR
      ucast (ucast (drop_bit 6 u AND 0x3F OR 0x80) AND 0x3F :: byte)) OR
    ucast (ucast (u AND 0x3F OR 0x80) AND 0x3F :: byte) = ucast u"
  unfolding masked_bytes
proof (rule bit_word_eqI)
  fix n
  assume n: "n < LENGTH(32)"
  have b: "16 \<le> m \<Longrightarrow> \<not> bit u m" for m using bit_imp_le_length [of u m] by auto
  have "n < 6 \<or> 6 \<le> n \<and> n < 12 \<or> 12 \<le> n \<and> n < 16 \<or> 16 \<le> n" by auto
  then show "bit (push_bit 6 (push_bit 6 (ucast (take_bit 4 (ucast (drop_bit 12 u)) :: byte) :: u32) OR
      ucast (take_bit 6 (ucast (take_bit 6 (drop_bit 6 u))) :: byte)) OR
    ucast (take_bit 6 (ucast (take_bit 6 u)) :: byte)) n = bit (ucast u :: u32) n"
    by (elim disjE conjE) (auto simp: bit_simps b)
qed

lemma lead_bits:
  fixes u :: u16
  shows "u < 0x800 \<Longrightarrow> (ucast (drop_bit 6 u OR 0xC0) :: byte) AND 0xE0 = 0xC0"
    and "(ucast (drop_bit 12 u OR 0xE0) :: byte) AND 0xF0 = 0xE0"
    and "(ucast (u AND 0x3F OR 0x80) :: byte) AND 0xC0 = 0x80"
proof -
  show "(ucast (drop_bit 6 u OR 0xC0) :: byte) AND 0xE0 = 0xC0" if "u < 0x800"
  proof (rule bit_word_eqI)
    fix n
    assume n: "n < LENGTH(8)"
    have b: "11 \<le> m \<Longrightarrow> \<not> bit u m" for m using bit_less_pow [of u 11 m] that
      by (auto simp: word_less_nat_alt)
    show "bit ((ucast (drop_bit 6 u OR 0xC0) :: byte) AND 0xE0) n = bit (0xC0 :: byte) n"
      by (rule upto32) (use n in \<open>auto simp: bit_simps b\<close>)
  qed
  have b: "16 \<le> m \<Longrightarrow> \<not> bit u m" for m using bit_imp_le_length [of u m] by auto
  show "(ucast (drop_bit 12 u OR 0xE0) :: byte) AND 0xF0 = 0xE0"
  proof (rule bit_word_eqI)
    fix n
    assume n: "n < LENGTH(8)"
    show "bit ((ucast (drop_bit 12 u OR 0xE0) :: byte) AND 0xF0) n = bit (0xE0 :: byte) n"
      by (rule upto32) (use n in \<open>auto simp: bit_simps b\<close>)
  qed
  show "(ucast (u AND 0x3F OR 0x80) :: byte) AND 0xC0 = 0x80"
  proof (rule bit_word_eqI)
    fix n
    assume n: "n < LENGTH(8)"
    show "bit ((ucast (u AND 0x3F OR 0x80) :: byte) AND 0xC0) n = bit (0x80 :: byte) n"
      by (rule upto32) (use n in \<open>auto simp: bit_simps b\<close>)
  qed
qed

lemma rd_at_mid:
  "rd_at (rep (pre @ x # post)) (length pre) = Some x"
  by (simp add: rd_at_def rep_def nth_append)

lemma rd_at_mid1:
  "rd_at (rep (pre @ x # y # post)) (Suc (length pre)) = Some y"
  by (simp add: rd_at_def rep_def nth_append)

lemma rd_at_mid2:
  "rd_at (rep (pre @ x # y # z # post)) (Suc (Suc (length pre))) = Some z"
  by (simp add: rd_at_def rep_def nth_append)

lemma utf16_units_bmp: "\<not> surrogate u \<Longrightarrow> utf16_units (ucast u) = [u]"
proof -
  assume s: "\<not> surrogate u"
  have lt: "unat u < 65536" by (rule unat_u16_lt)
  have "(ucast u :: u32) \<le> 0xFFFF"
    using lt by (simp add: u32_le_iff unats)
  moreover have "\<not> ((ucast u :: u32) \<ge> 0xD800 \<and> (ucast u :: u32) \<le> 0xDFFF)"
    using s by (auto simp: surrogate_def u32_le_iff unats word_le_nat_alt)
  moreover have "(ucast (ucast u :: u32) :: u16) = u" by (rule bit_word_eqI) (simp add: bit_simps)
  ultimately show ?thesis by (simp add: utf16_units_def)
qed

lemma lead_exclusive:
  fixes c :: byte
  shows "c AND 0xE0 = 0xC0 \<Longrightarrow> \<not> c \<le> 0x7F"
    and "c AND 0xF0 = 0xE0 \<Longrightarrow> \<not> c \<le> 0x7F \<and> c AND 0xE0 \<noteq> 0xC0"
proof -
  have b7: "bit c 7 \<Longrightarrow> \<not> c \<le> 0x7F"
  proof
    assume "bit c 7" "c \<le> 0x7F"
    then have "unat c \<le> 127" by (simp add: word_le_nat_alt)
    then have "unat c div 2 ^ 7 = 0" by (simp add: div_eq_0_iff)
    then have "\<not> bit (unat c) 7" by (simp add: bit_iff_odd)
    with \<open>bit c 7\<close> show False by (simp add: bit_unsigned_iff)
  qed
  show "c AND 0xE0 = 0xC0 \<Longrightarrow> \<not> c \<le> 0x7F"
  proof -
    assume e: "c AND 0xE0 = 0xC0"
    have "bit (c AND 0xE0) 7" unfolding e by simp
    then show ?thesis by (intro b7) (simp add: bit_simps)
  qed
  assume e: "c AND 0xF0 = 0xE0"
  have "bit (c AND 0xF0) 7" "bit (c AND 0xF0) 5" unfolding e by simp_all
  then have "bit c 7" "bit c 5" by (simp_all add: bit_simps)
  then have "bit (c AND 0xE0) 5" by (simp add: bit_simps)
  then have "c AND 0xE0 \<noteq> 0xC0" by auto
  with b7 [OF \<open>bit c 7\<close>] show "\<not> c \<le> 0x7F \<and> c AND 0xE0 \<noteq> 0xC0" by blast
qed

lemma utf8_step:
  assumes ns: "\<not> surrogate u" and i: "i = length pre"
    and s: "s = pre @ utf16_char_to_utf8 u @ post"
  shows "utf8_loop stop (rep s) (length s) i acc =
    utf8_loop stop (rep s) (length s) (i + length (utf16_char_to_utf8 u)) (acc @ [u])"
proof -
  note u1 = utf16_units_bmp [OF ns]
  consider "u < 0x80" | "\<not> u < 0x80" "u < 0x800" | "\<not> u < 0x80" "\<not> u < 0x800" by blast
  then show ?thesis
  proof cases
    case 1
    have "unat (ucast u :: byte) = unat u"
      using 1 by (simp add: unsigned_ucast_eq word_less_nat_alt take_bit_nat_eq_self)
    then have c: "(ucast u :: byte) \<le> 0x7F" "(ucast (ucast u :: byte) :: u32) = ucast u"
      using 1 by (simp_all add: word_le_nat_alt word_less_nat_alt word_unat_eq_iff unats)
    show ?thesis
      using 1 c u1 by (subst utf8_loop.simps) (simp add: s i rd_at_mid utf8_lead_def)
  next
    case 2
    note l = lead_bits(1) [OF 2(2)] lead_bits(3) [of u] lead_exclusive(1) [OF lead_bits(1) [OF 2(2)]]
    show ?thesis
      using 2 l u1 two_byte [OF 2(2)]
      by (subst utf8_loop.simps) (simp add: s i rd_at_mid rd_at_mid1 utf8_lead_def)
  next
    case 3
    note l = lead_bits(2) [of u] lead_bits(3) [of u] lead_bits(3) [of "drop_bit 6 u"]
      lead_exclusive(2) [OF lead_bits(2) [of u]]
    show ?thesis
      using 3 l u1 three_byte [of u]
      by (subst utf8_loop.simps)
        (simp add: s i rd_at_mid rd_at_mid1 rd_at_mid2 utf8_lead_def numeral_2_eq_2)
  qed
qed

lemma utf8_loop_roundtrip:
  "list_all (\<lambda>u. \<not> surrogate u) us \<Longrightarrow> i = length pre \<Longrightarrow> s = pre @ utf16le_to_utf8 us \<Longrightarrow>
   utf8_loop stop (rep s) (length s) i acc = Some (acc @ us)"
proof (induction us arbitrary: pre i acc)
  case Nil
  then show ?case by (subst utf8_loop.simps) (simp add: utf16le_to_utf8_def)
next
  case (Cons u us)
  have s: "s = pre @ utf16_char_to_utf8 u @ utf16le_to_utf8 us"
    using Cons.prems(3) by (simp add: utf16le_to_utf8_def del: utf16_char_to_utf8.simps)
  have "utf8_loop stop (rep s) (length s) i acc =
      utf8_loop stop (rep s) (length s) (i + length (utf16_char_to_utf8 u)) (acc @ [u])"
    using Cons.prems by (intro utf8_step [OF _ _ s]) simp_all
  also have "\<dots> = Some ((acc @ [u]) @ us)"
    using Cons.prems s by (intro Cons.IH [of _ "pre @ utf16_char_to_utf8 u"]) (simp_all del: utf16_char_to_utf8.simps)
  finally show ?case by simp
qed

lemma utf_roundtrip:
  assumes "list_all (\<lambda>u. \<not> surrogate u) us"
  shows "utf8_to_utf16le (utf16le_to_utf8 us) = Some us"
    and "lfn_utf16 (utf16le_to_utf8 us) = Some us"
  using utf8_loop_roundtrip [OF assms, of 0 "[]" "utf16le_to_utf8 us"]
  by (simp_all add: utf8_to_utf16le_def lfn_utf16_def)

lemma utf8_ascii:
  assumes "list_all (\<lambda>c. c < 0x80) s"
  shows "utf16le_to_utf8 (map ucast s) = s" and "lfn_utf16 s = Some (map ucast s)"
proof -
  have "utf16_char_to_utf8 (ucast c) = [c]" if "c < 0x80" for c :: byte
  proof -
    have "(ucast c :: u16) < 0x80"
      using that by (simp add: word_less_nat_alt unats)
    moreover have "(ucast (ucast c :: u16) :: byte) = c" by (rule bit_word_eqI) (simp add: bit_simps)
    ultimately show ?thesis by simp
  qed
  then show e: "utf16le_to_utf8 (map ucast s) = s"
    using assms unfolding utf16le_to_utf8_def
    by (induction s) (simp_all del: utf16_char_to_utf8.simps)
  have "list_all (\<lambda>u. \<not> surrogate u) (map ucast s :: u16 list)"
    using assms by (auto simp: list_all_iff surrogate_def word_le_nat_alt word_less_nat_alt unats)
  from utf_roundtrip(2) [OF this] show "lfn_utf16 s = Some (map ucast s)" by (simp add: e)
qed

end
