(* ===== verification/Fat_Names.thy ===== *)
theory Fat_Names
  imports Utf
begin

text \<open>
  Short and long names of FAT entries (\<open>Fat32.cpp\<close>): legal short-name characters, the unique
  8.3 name of a file, the checksum that ties long-name entries to their short name, and the
  long-name entries themselves (13 UTF-16 units each, last part first). Strings are held as
  their characters (theory \<open>Kstring\<close>); a directory entry as its 32 bytes.
\<close>

section \<open>Short names\<close>

definition strchr_hit :: "bytes \<Rightarrow> byte \<Rightarrow> bool" where
  "strchr_hit cs c \<longleftrightarrow> c \<in> set cs \<or> c = 0"

text \<open>The characters \<open>$%'-_@~`!(){}^#&\<close> and \<open>"*/:<>?\|+,;=[]\<close>.\<close>

definition sfn_special :: bytes where
  "sfn_special = [0x24, 0x25, 0x27, 0x2D, 0x5F, 0x40, 0x7E, 0x60, 0x21, 0x28, 0x29, 0x7B, 0x7D,
     0x5E, 0x23, 0x26]"

definition sfn_invalid :: bytes where
  "sfn_invalid = [0x22, 0x2A, 0x2F, 0x3A, 0x3C, 0x3E, 0x3F, 0x5C, 0x7C, 0x2B, 0x2C, 0x3B, 0x3D,
     0x5B, 0x5D]"

definition isValidSFNCharacter :: "byte \<Rightarrow> bool" where
  "isValidSFNCharacter c \<longleftrightarrow> (isalnum c \<or> strchr_hit sfn_special c) \<and> \<not> strchr_hit sfn_invalid c"

text \<open>The decimal digits of the numeric tail, least significant first; at most nine of them.\<close>

function tail_digits :: "nat \<Rightarrow> nat \<Rightarrow> bytes" where
  "tail_digits temp count =
     (48 + of_nat (temp mod 10)) #
     (if temp div 10 > 0 \<and> count + 1 < 9 then tail_digits (temp div 10) (count + 1) else [])"
  by pat_completeness auto
termination by (relation "measure (\<lambda>(temp, count). 9 - count)") auto

definition with_extension :: "bytes \<Rightarrow> bytes \<Rightarrow> bytes" where
  "with_extension base extension =
     (if \<not> kempty extension then (base @ [0x2E]) @ extension else base)"

definition tail_name :: "bytes \<Rightarrow> bytes \<Rightarrow> nat \<Rightarrow> bytes" where
  "tail_name baseName extension num =
     (let digits = tail_digits num 0;
          tailLen = 1 + length digits;
          baseLen = (if 8 > tailLen then 8 - tailLen else 0);
          baseLen' = (if baseLen > length baseName then length baseName else baseLen)
      in with_extension (ksubstr baseName 0 (Some baseLen') @ [0x7E] @ rev digits) extension)"

function tail_loop :: "bytes \<Rightarrow> bytes \<Rightarrow> bytes list \<Rightarrow> nat \<Rightarrow> bytes" where
  "tail_loop baseName extension existing num =
     (if num \<le> 999999 then
        if \<not> (\<exists>e \<in> set existing. keq e (tail_name baseName extension num))
        then tail_name baseName extension num
        else tail_loop baseName extension existing (num + 1)
      else [])"
  by pat_completeness auto
termination by (relation "measure (\<lambda>(b, e, ex, num). 1000000 - num)") auto

definition sfn_upper :: "bytes \<Rightarrow> bytes" where
  "sfn_upper longName =
     dropWhile (\<lambda>c. c = 0x2E)
       (map (\<lambda>c. if c \<noteq> 0x2E \<and> \<not> isValidSFNCharacter c then 0x5F else c)
         (map toupper (cstr longName)))"

definition base_part :: "bytes \<Rightarrow> bytes" where
  "base_part name = (case kfind_last name 0x2E of None \<Rightarrow> name | Some p \<Rightarrow> ksubstr name 0 (Some p))"

definition ext_part :: "bytes \<Rightarrow> bytes" where
  "ext_part name = (case kfind_last name 0x2E of None \<Rightarrow> [] | Some p \<Rightarrow> ksubstr name (p + 1) None)"

definition generateUniqueShortName :: "bytes \<Rightarrow> bytes list \<Rightarrow> bytes" where
  "generateUniqueShortName longName existing =
     (let upperName = sfn_upper longName;
          baseName = filter (\<lambda>c. c \<noteq> 0x20) (base_part upperName);
          extension = ksubstr (filter (\<lambda>c. c \<noteq> 0x20) (ext_part upperName)) 0 (Some 3);
          needsTail = (length baseName > 8)
      in if \<not> needsTail then
           let base' = ksubstr baseName 0 (Some 8);
               sfn = with_extension base' extension
           in if \<not> (\<exists>e \<in> set existing. keq e sfn) then sfn
              else tail_loop base' extension existing 1
         else tail_loop baseName extension existing 1)"

fun checksum_loop :: "bytes \<Rightarrow> u8 \<Rightarrow> u8" where
  "checksum_loop [] acc = acc"
| "checksum_loop (c # cs) acc =
     checksum_loop cs ((if acc AND 1 \<noteq> 0 then 0x80 else 0) + drop_bit 1 acc + c)"

definition calculateShortNameChecksum :: "bytes \<Rightarrow> u8 option" where
  "calculateShortNameChecksum shortName =
     do { cs \<leftarrow> slice shortName 0 11; Some (checksum_loop cs 0) }"

definition needsLFN :: "bytes \<Rightarrow> bool" where
  "needsLFN fileName =
     (let baseName = base_part fileName;
          extension = ext_part fileName
      in if length baseName > 8 \<or> length extension > 3 then True
         else if list_ex islower baseName then True
         else if list_ex islower extension then True
         else let upperBase = map toupper (cstr baseName);
                  upperExt = map toupper (cstr extension)
              in if list_ex (\<lambda>c. \<not> isValidSFNCharacter c) upperBase then True
                 else if list_ex (\<lambda>c. \<not> isValidSFNCharacter c) upperExt then True
                 else False)"

section \<open>Long names\<close>

text \<open>The 13 slots of an entry: 5 units from byte 1, 6 from byte 14, 2 from byte 28.\<close>

definition slot_off :: "nat \<Rightarrow> nat" where
  "slot_off j = (if j < 5 then 1 + j * 2 else if j < 11 then 14 + (j - 5) * 2 else 28 + (j - 11) * 2)"

definition writeChar :: "bytes \<Rightarrow> nat \<Rightarrow> u16 \<Rightarrow> bytes" where
  "writeChar entry j value =
     entry[slot_off j := ucast (value AND 0xFF), slot_off j + 1 := ucast (drop_bit 8 value AND 0xFF)]"

fun lfn_fill :: "u16 list \<Rightarrow> nat \<Rightarrow> nat list \<Rightarrow> bool \<Rightarrow> bytes \<Rightarrow> bytes" where
  "lfn_fill unicodeName charIndex [] terminated entry = entry"
| "lfn_fill unicodeName charIndex (j # js) terminated entry =
     (let globalIdx = charIndex + j in
      if \<not> terminated \<and> globalIdx < length unicodeName then
        lfn_fill unicodeName charIndex js terminated (writeChar entry j (unicodeName ! globalIdx))
      else if \<not> terminated \<and> globalIdx = length unicodeName then
        lfn_fill unicodeName charIndex js True (writeChar entry j 0)
      else lfn_fill unicodeName charIndex js terminated (writeChar entry j 0xFFFF))"

definition lfn_blank :: bytes where
  "lfn_blank = 0 # replicate 10 0xFF @ replicate 3 0 @ replicate 12 0xFF @ replicate 2 0 @ replicate 4 0xFF"

definition lfn_entry :: "u16 list \<Rightarrow> nat \<Rightarrow> u8 \<Rightarrow> nat \<Rightarrow> bytes" where
  "lfn_entry unicodeName totalEntries checksum i =
     (let seqNum = of_nat (totalEntries - i) :: u8;
          seqNum' = (if i = 0 then seqNum OR 0x40 else seqNum);
          entry = lfn_blank[0 := seqNum', 11 := 0x0F, 12 := 0, 13 := checksum, 26 := 0, 27 := 0,
                            20 := 0, 21 := 0]
      in lfn_fill unicodeName ((totalEntries - 1 - i) * 13) [0..<13] False entry)"

definition createLFNEntries :: "bytes \<Rightarrow> u8 \<Rightarrow> bytes list option" where
  "createLFNEntries longName checksum =
     do { unicodeName \<leftarrow> lfn_utf16 longName;
          let totalEntries = (length unicodeName + 12) div 13 in
          Some (map (lfn_entry unicodeName totalEntries checksum) [0..<totalEntries]) }"

text \<open>What the directory reader takes from a long-name entry.\<close>

definition lfn_slot :: "bytes \<Rightarrow> nat \<Rightarrow> u16" where
  "lfn_slot entry j = le16 (entry ! slot_off j) (entry ! (slot_off j + 1))"

definition lfn_part :: "bytes \<Rightarrow> u16 list" where
  "lfn_part entry = filter (\<lambda>c. c \<noteq> 0) (filter (\<lambda>c. c \<noteq> 0xFFFF) (map (lfn_slot entry) [0..<13]))"

section \<open>The checksum\<close>

definition rot1 :: "u8 \<Rightarrow> u8" where
  "rot1 a = (if a AND 1 \<noteq> 0 then 0x80 else 0) + drop_bit 1 a"

lemma unat_rot1: "unat (rot1 a) = 128 * (unat a mod 2) + unat a div 2"
proof -
  have o: "a AND 1 \<noteq> 0 \<longleftrightarrow> unat a mod 2 \<noteq> 0"
    by (simp add: and_one_eq unat_mod word_unat_eq_iff)
  have d: "unat (drop_bit 1 a) = unat a div 2" by (simp add: drop_bit_eq_div unat_div)
  have lt: "unat a div 2 < 128" using unat_u8_lt [of a] by simp
  show ?thesis
  proof (cases "unat a mod 2 = 0")
    case True
    then show ?thesis using o d by (simp add: rot1_def)
  next
    case False
    then have "unat a mod 2 = 1" by simp
    with False o d lt show ?thesis by (simp add: rot1_def unat_word_ariths)
  qed
qed

lemma rot1_inj: "rot1 a = rot1 b \<Longrightarrow> a = b"
proof -
  assume "rot1 a = rot1 b"
  then have e: "128 * (unat a mod 2) + unat a div 2 = 128 * (unat b mod 2) + unat b div 2"
    using unat_rot1 by metis
  have l: "unat a div 2 < 128" "unat b div 2 < 128" using unat_u8_lt [of a] unat_u8_lt [of b] by simp_all
  have "unat a mod 2 = unat b mod 2"
  proof -
    have "unat a mod 2 = (128 * (unat a mod 2) + unat a div 2) div 128" using l by simp
    also have "\<dots> = unat b mod 2" using l by (simp add: e)
    finally show ?thesis .
  qed
  moreover from this e have "unat a div 2 = unat b div 2" by simp
  ultimately have "unat a = unat b" by (metis div_mult_mod_eq)
  then show ?thesis by (simp add: word_unat_eq_iff)
qed

lemma checksum_loop_Cons: "checksum_loop (c # cs) acc = checksum_loop cs (rot1 acc + c)"
  by (simp only: checksum_loop.simps rot1_def)

declare checksum_loop.simps(2) [simp del]

lemma checksum_loop_inj: "checksum_loop cs a = checksum_loop cs b \<Longrightarrow> a = b"
proof (induction cs arbitrary: a b)
  case Nil
  then show ?case by simp
next
  case (Cons c cs)
  from Cons.prems have "rot1 a + c = rot1 b + c"
    unfolding checksum_loop_Cons by (rule Cons.IH)
  then have "rot1 a = rot1 b" by simp
  then show ?case by (rule rot1_inj)
qed

lemma checksum_loop_differs:
  assumes "x \<noteq> y"
  shows "checksum_loop (cs @ x # ds) acc \<noteq> checksum_loop (cs @ y # ds) acc"
proof (induction cs arbitrary: acc)
  case Nil
  have "rot1 acc + x \<noteq> rot1 acc + y" using assms by simp
  then show ?case using checksum_loop_inj [of ds "rot1 acc + x" "rot1 acc + y"]
    unfolding append_Nil checksum_loop_Cons by blast
next
  case (Cons c cs)
  show ?case unfolding append_Cons checksum_loop_Cons by (rule Cons.IH)
qed

section \<open>Slots of a long-name entry\<close>

lemma slot_off_bound: "j < 13 \<Longrightarrow> slot_off j + 1 < 32"
  by (auto simp: slot_off_def)

lemma slot_off_apart:
  assumes "j < 13" and "k < 13" and "j \<noteq> k"
  shows "slot_off j \<noteq> slot_off k" "slot_off j + 1 \<noteq> slot_off k" "slot_off j \<noteq> slot_off k + 1"
    "slot_off j + 1 \<noteq> slot_off k + 1"
  using assms by (auto simp: slot_off_def)

lemma slot_off_header: "slot_off j \<noteq> 0" "slot_off j + 1 \<noteq> 0" "j < 13 \<Longrightarrow> slot_off j \<notin> {11, 12, 13, 26, 27}"
    "j < 13 \<Longrightarrow> slot_off j + 1 \<notin> {11, 12, 13, 26, 27}"
  by (auto simp: slot_off_def)

lemma length_writeChar [simp]: "length (writeChar e j v) = length e"
  by (simp add: writeChar_def)

lemma writeChar_slot:
  assumes "length e = 32" and "j < 13" and "k < 13"
  shows "lfn_slot (writeChar e j v) k = (if k = j then v else lfn_slot e k)"
proof -
  have m: "(ucast (v AND 0xFF) :: byte) = ucast v" "(ucast (drop_bit 8 v AND 0xFF) :: byte) = ucast (drop_bit 8 v)"
  proof -
    have "(0xFF :: u16) = mask 8" by (simp add: mask_eq_exp_minus_1)
    then show "(ucast (v AND 0xFF) :: byte) = ucast v"
      "(ucast (drop_bit 8 v AND 0xFF) :: byte) = ucast (drop_bit 8 v)"
      unfolding \<open>0xFF = mask 8\<close> take_bit_eq_mask [symmetric]
      by (auto intro!: bit_word_eqI simp: bit_simps)
  qed
  show ?thesis
    using assms slot_off_bound [of j] slot_off_bound [of k] slot_off_apart [of j k]
    by (cases "k = j") (auto simp: lfn_slot_def writeChar_def nth_list_update m)
qed

lemma writeChar_header:
  "j < 13 \<Longrightarrow> i \<in> {0, 11, 12, 13, 26, 27} \<Longrightarrow> writeChar e j v ! i = e ! i"
  using slot_off_header [of j] by (auto simp: writeChar_def nth_list_update)

definition lfn_value :: "u16 list \<Rightarrow> nat \<Rightarrow> u16" where
  "lfn_value us g = (if g < length us then us ! g else if g = length us then 0 else 0xFFFF)"

lemma lfn_fill_length [simp]: "length (lfn_fill us ci js t e) = length e"
  by (induction us ci js t e rule: lfn_fill.induct) (auto simp: Let_def)

lemma lfn_fill_header:
  "list_all (\<lambda>j. j < 13) js \<Longrightarrow> i \<in> {0, 11, 12, 13, 26, 27} \<Longrightarrow> lfn_fill us ci js t e ! i = e ! i"
  by (induction us ci js t e rule: lfn_fill.induct) (auto simp: Let_def writeChar_header)

lemma lfn_fill_slot:
  "length e = 32 \<Longrightarrow> a \<le> 13 \<Longrightarrow> k < 13 \<Longrightarrow> t = (length us < ci + a) \<Longrightarrow>
   lfn_slot (lfn_fill us ci [a..<13] t e) k =
     (if a \<le> k then lfn_value us (ci + k) else lfn_slot e k)"
proof (induction "13 - a" arbitrary: a t e)
  case 0
  then show ?case by simp
next
  case (Suc n)
  then have up: "[a..<13] = a # [Suc a..<13]" by (simp add: upt_conv_Cons)
  define t' where "t' = (length us < ci + Suc a)"
  have "lfn_fill us ci [a..<13] t e = lfn_fill us ci [Suc a..<13] t' (writeChar e a (lfn_value us (ci + a)))"
  proof -
    consider "ci + a < length us" | "ci + a = length us" | "length us < ci + a" by linarith
    then show ?thesis
      unfolding up lfn_fill.simps(2) Let_def
      using Suc.prems(4) by cases (simp_all add: lfn_value_def t'_def)
  qed
  moreover have "lfn_slot (lfn_fill us ci [Suc a..<13] t' (writeChar e a (lfn_value us (ci + a)))) k =
     (if Suc a \<le> k then lfn_value us (ci + k) else lfn_slot (writeChar e a (lfn_value us (ci + a))) k)"
    using Suc.hyps(2) Suc.prems by (intro Suc.hyps(1)) (simp_all add: t'_def)
  moreover have "lfn_slot (writeChar e a (lfn_value us (ci + a))) k =
      (if k = a then lfn_value us (ci + a) else lfn_slot e k)"
    using Suc.hyps(2) Suc.prems by (intro writeChar_slot) simp_all
  moreover have "a \<le> k \<longleftrightarrow> k = a \<or> Suc a \<le> k" by auto
  ultimately show ?case by auto
qed

lemma lfn_fill_header_all:
  "i \<in> {0, 11, 12, 13, 26, 27} \<Longrightarrow> lfn_fill us ci [0..<13] t e ! i = e ! i"
  by (rule lfn_fill_header) (auto simp: list_all_iff)

lemma length_lfn_entry [simp]: "length (lfn_entry us m ck i) = 32"
  by (simp add: lfn_entry_def Let_def lfn_blank_def)

lemma lfn_entry_slot:
  "k < 13 \<Longrightarrow> (m - 1 - i) * 13 \<le> length us \<Longrightarrow>
   lfn_slot (lfn_entry us m ck i) k = lfn_value us ((m - 1 - i) * 13 + k)"
  unfolding lfn_entry_def Let_def
  by (subst lfn_fill_slot) (simp_all add: lfn_blank_def)

lemma lfn_entry_header:
  "lfn_entry us m ck i ! 0 = (if i = 0 then of_nat (m - i) OR 0x40 else of_nat (m - i))"
  "lfn_entry us m ck i ! 11 = 0x0F" "lfn_entry us m ck i ! 13 = ck"
  unfolding lfn_entry_def Let_def
  by (simp_all add: lfn_fill_header_all lfn_blank_def nth_list_update)

section \<open>Long names read back\<close>

lemma lfn_value_part:
  assumes "0 \<notin> set us" and "0xFFFF \<notin> set us"
  shows "filter (\<lambda>c. c \<noteq> 0) (filter (\<lambda>c. c \<noteq> 0xFFFF) (map (\<lambda>k. lfn_value us (ci + k)) [0..<13])) =
    take 13 (drop ci us)"
proof -
  define n where "n = min 13 (length us - ci)"
  have sp: "[0..<13] = [0..<n] @ [n..<13]"
    using upt_add_eq_append [of 0 n "13 - n"] by (simp add: n_def)
  have "map (\<lambda>k. lfn_value us (ci + k)) [0..<n] = take 13 (drop ci us)"
    by (intro nth_equalityI) (auto simp: n_def lfn_value_def)
  moreover have "filter (\<lambda>c. c \<noteq> 0) (filter (\<lambda>c. c \<noteq> 0xFFFF) (take 13 (drop ci us))) = take 13 (drop ci us)"
    using assms by (auto intro!: filter_True dest!: in_set_takeD in_set_dropD)
  moreover have "filter (\<lambda>c. c \<noteq> 0) (filter (\<lambda>c. c \<noteq> 0xFFFF) (map (\<lambda>k. lfn_value us (ci + k)) [n..<13])) = []"
    by (auto simp: filter_empty_conv lfn_value_def n_def)
  ultimately show ?thesis unfolding sp map_append filter_append by simp
qed

lemma lfn_part_entry:
  assumes "0 \<notin> set us" and "0xFFFF \<notin> set us" and "(m - 1 - i) * 13 \<le> length us"
  shows "lfn_part (lfn_entry us m ck i) = take 13 (drop ((m - 1 - i) * 13) us)"
proof -
  have "map (lfn_slot (lfn_entry us m ck i)) [0..<13] =
      map (\<lambda>k. lfn_value us ((m - 1 - i) * 13 + k)) [0..<13]"
    using assms(3) by (intro map_cong) (auto simp: lfn_entry_slot)
  then show ?thesis unfolding lfn_part_def by (simp only: lfn_value_part [OF assms(1,2)])
qed

lemma concat_chunks:
  "length us \<le> 13 * m \<Longrightarrow> concat (map (\<lambda>i. take 13 (drop (i * 13) us)) [0..<m]) = us"
proof (induction m arbitrary: us)
  case 0
  then show ?case by simp
next
  case (Suc m)
  have "concat (map (\<lambda>i. take 13 (drop (i * 13) (drop 13 us))) [0..<m]) = drop 13 us"
    using Suc.prems by (intro Suc.IH) simp
  moreover have "[0..<Suc m] = 0 # map Suc [0..<m]" by (simp add: upt_conv_Cons map_Suc_upt)
  ultimately show ?case by (simp add: comp_def add.commute)
qed

lemma seq_order:
  assumes "k \<le> 31"
  shows "((of_nat k :: u8) OR 0x40) AND 0x1F = of_nat k" and "(of_nat k :: u8) AND 0x1F = of_nat k"
proof -
  have m: "(0x1F :: u8) = mask 5" by (simp add: mask_eq_exp_minus_1)
  have "take_bit 5 (of_nat k :: u8) = of_nat k"
    using assms by (simp add: word_unat_eq_iff unsigned_take_bit_eq unat_of_nat take_bit_nat_eq_self)
  then show "(of_nat k :: u8) AND 0x1F = of_nat k" by (simp only: m take_bit_eq_mask)
  moreover have "((0x40 :: u8) AND 0x1F) = 0" by simp
  ultimately show "((of_nat k :: u8) OR 0x40) AND 0x1F = of_nat k"
    by (simp only: bit.conj_disj_distrib2 or.right_neutral)
qed

section \<open>Uniqueness of short names\<close>

lemma ksubstr_props:
  shows "set (ksubstr s p n) \<subseteq> set s" and "length (ksubstr s p (Some k)) \<le> k"
    and "length (ksubstr s p n) \<le> length s"
proof -
  have o: "set (of_buf xs) \<subseteq> set xs" "length (of_buf xs) \<le> length xs" for xs :: "'a list"
    by (auto simp: of_buf_def dest: in_set_butlastD)
  show "set (ksubstr s p n) \<subseteq> set s"
    unfolding ksubstr_def
    by (rule subset_trans [OF o(1)]) (auto split: option.splits dest: in_set_takeD in_set_dropD)
  show "length (ksubstr s p (Some k)) \<le> k"
    unfolding ksubstr_def by (rule order_trans [OF o(2)]) simp
  show "length (ksubstr s p n) \<le> length s"
    unfolding ksubstr_def by (rule order_trans [OF o(2)]) (auto split: option.splits)
qed

lemma set_base_part: "set (base_part s) \<subseteq> set s"
  using ksubstr_props(1) by (auto simp: base_part_def split: option.splits)

lemma set_ext_part: "set (ext_part s) \<subseteq> set s"
  using ksubstr_props(1) by (auto simp: ext_part_def split: option.splits)

declare tail_digits.simps [simp del] tail_loop.simps [simp del]

lemma tail_digits_chars: "c \<in> set (tail_digits n k) \<Longrightarrow> \<exists>d < 10. c = 48 + of_nat d"
proof (induction n k rule: tail_digits.induct)
  case (1 n k)
  from "1.prems" have "c = 48 + of_nat (n mod 10) \<or>
      (n div 10 > 0 \<and> k + 1 < 9) \<and> c \<in> set (tail_digits (n div 10) (k + 1))"
    by (subst (asm) tail_digits.simps) (auto split: if_splits)
  moreover have "n mod 10 < 10" by simp
  ultimately show ?case using "1.IH" by blast
qed

definition digits_value :: "bytes \<Rightarrow> nat" where
  "digits_value ds = foldr (\<lambda>c v. unat (c - 48) + 10 * v) ds 0"

lemma tail_digits_value:
  "n < 10 ^ (9 - k) \<Longrightarrow> k < 9 \<Longrightarrow> digits_value (tail_digits n k) = n"
proof (induction n k rule: tail_digits.induct)
  case (1 n k)
  have d: "unat (of_nat (n mod 10) :: byte) = n mod 10" by (simp add: unat_of_nat)
  have e: "digits_value (tail_digits n k) = n mod 10 +
      10 * digits_value (if n div 10 > 0 \<and> k + 1 < 9 then tail_digits (n div 10) (k + 1) else [])"
    by (subst tail_digits.simps) (simp add: digits_value_def d)
  show ?case
  proof (cases "n div 10 > 0")
    case False
    then show ?thesis using e by (simp add: digits_value_def)
  next
    case True
    have "10 ^ (9 - k) = 10 * (10 :: nat) ^ (9 - (k + 1))"
      using "1.prems"(2) by (simp flip: power_Suc add: Suc_diff_Suc)
    then have lt: "n div 10 < 10 ^ (9 - (k + 1))"
      using "1.prems"(1) by (simp add: div_less_iff_less_mult mult.commute)
    have "k + 1 < 9"
    proof (rule ccontr)
      assume "\<not> k + 1 < 9"
      with lt have "n div 10 < 1" by simp
      with True show False by simp
    qed
    with True lt "1.IH" e show ?thesis by simp
  qed
qed

lemma tail_digits_no_tilde: "0x7E \<notin> set (tail_digits n k)" "0 \<notin> set (tail_digits n k)"
proof -
  have "48 + of_nat d \<noteq> (0x7E :: byte) \<and> 48 + of_nat d \<noteq> (0 :: byte)" if "d < 10" for d
  proof -
    have "unat (48 + of_nat d :: byte) = 48 + d" using that by (simp add: unat_word_ariths unat_of_nat)
    then show ?thesis using that by auto
  qed
  then show "0x7E \<notin> set (tail_digits n k)" "0 \<notin> set (tail_digits n k)"
    using tail_digits_chars by metis+
qed

lemma with_extension_append: "\<exists>sfx. \<forall>b. with_extension b e = b @ sfx"
  by (cases "kempty e") (auto simp: with_extension_def)

lemma tail_name_inj:
  assumes "tail_name b e n = tail_name b e m" and "n \<le> 999999" and "m \<le> 999999"
  shows "n = m"
proof -
  obtain sfx where sfx: "\<And>b. with_extension b e = b @ sfx"
    using with_extension_append by blast
  obtain p q where pq: "p @ [0x7E] @ rev (tail_digits n 0) = q @ [0x7E] @ rev (tail_digits m 0)"
    using assms(1) by (auto simp: tail_name_def Let_def sfx)
  have tk: "takeWhile (\<lambda>c. c \<noteq> 0x7E) (rev (p @ [0x7E] @ rev ds)) = ds" if "0x7E \<notin> set ds" for p ds :: bytes
  proof -
    have "takeWhile (\<lambda>c. c \<noteq> 0x7E) (ds @ 0x7E # r) = ds" for r using that by (induction ds) auto
    then show ?thesis by simp
  qed
  have "tail_digits n 0 = takeWhile (\<lambda>c. c \<noteq> 0x7E) (rev (p @ [0x7E] @ rev (tail_digits n 0)))"
    using tail_digits_no_tilde(1) by (rule tk [symmetric])
  also have "\<dots> = tail_digits m 0"
    unfolding pq using tail_digits_no_tilde(1) by (rule tk)
  finally have "tail_digits n 0 = tail_digits m 0" .
  moreover have "digits_value (tail_digits n 0) = n" "digits_value (tail_digits m 0) = m"
    by (rule tail_digits_value; use assms(2,3) in simp)+
  ultimately show ?thesis by metis
qed

lemma tail_name_nul_free:
  assumes "0 \<notin> set b" and "0 \<notin> set e"
  shows "0 \<notin> set (tail_name b e n)"
proof -
  have "0 \<notin> set (ksubstr b 0 k)" for k using ksubstr_props(1) [of b 0 k] assms(1) by blast
  then show ?thesis
    using assms(2) tail_digits_no_tilde(2) [of n 0]
    by (simp add: tail_name_def Let_def with_extension_def)
qed

lemma tail_loop_fresh:
  "tail_loop b e ex n = [] \<and> (\<forall>k. n \<le> k \<and> k \<le> 999999 \<longrightarrow> (\<exists>x \<in> set ex. keq x (tail_name b e k))) \<or>
   (\<exists>k. k \<le> 999999 \<and> tail_loop b e ex n = tail_name b e k \<and> (\<forall>x \<in> set ex. \<not> keq x (tail_name b e k)))"
proof (induction b e ex n rule: tail_loop.induct)
  case (1 b e ex n)
  show ?case
  proof (cases "n \<le> 999999 \<and> (\<exists>x \<in> set ex. keq x (tail_name b e n))")
    case True
    then have eq: "tail_loop b e ex n = tail_loop b e ex (n + 1)" by (subst tail_loop.simps) simp
    have "\<forall>k. n \<le> k \<and> k \<le> 999999 \<longrightarrow> (\<exists>x \<in> set ex. keq x (tail_name b e k))"
      if "\<forall>k. n + 1 \<le> k \<and> k \<le> 999999 \<longrightarrow> (\<exists>x \<in> set ex. keq x (tail_name b e k))"
      using that True by (metis Suc_eq_plus1 le_neq_implies_less Suc_leI)
    with "1.IH" True show ?thesis unfolding eq by blast
  next
    case False
    show ?thesis
    proof (cases "n \<le> 999999")
      case True
      with False have "tail_loop b e ex n = tail_name b e n" by (subst tail_loop.simps) simp
      with True False show ?thesis by auto
    next
      case False
      then show ?thesis by (subst tail_loop.simps) auto
    qed
  qed
qed

lemma tail_loop_found:
  assumes "0 \<notin> set b" and "0 \<notin> set e" and "length ex < 999999"
  shows "\<exists>k. k \<le> 999999 \<and> tail_loop b e ex 1 = tail_name b e k \<and>
    (\<forall>x \<in> set ex. \<not> keq x (tail_name b e k))"
proof (rule ccontr)
  assume "\<not> ?thesis"
  then have all: "\<forall>k. 1 \<le> k \<and> k \<le> 999999 \<longrightarrow> (\<exists>x \<in> set ex. keq x (tail_name b e k))"
    using tail_loop_fresh [of b e ex 1] by blast
  have "tail_name b e ` {1..999999} \<subseteq> cstr ` set ex"
  proof
    fix y
    assume "y \<in> tail_name b e ` {1..999999}"
    then obtain k where k: "y = tail_name b e k" "1 \<le> k \<and> k \<le> 999999" by auto
    then obtain x where "x \<in> set ex" "keq x y" using all by blast
    moreover have "cstr y = y" using k(1) tail_name_nul_free [OF assms(1,2)] by (simp add: cstr_id)
    ultimately show "y \<in> cstr ` set ex" by (auto simp: keq_def)
  qed
  then have "card (tail_name b e ` {1..999999}) \<le> card (cstr ` set ex)"
    by (intro card_mono) simp_all
  also have "\<dots> \<le> length ex" by (meson card_image_le card_length finite_set order_trans)
  finally have "card (tail_name b e ` {1..999999}) < 999999" using assms(3) by simp
  moreover have "inj_on (tail_name b e) {1..999999}"
    by (intro inj_onI tail_name_inj [of b e]) simp_all
  then have "card (tail_name b e ` {1..999999}) = 999999" by (simp add: card_image)
  ultimately show False by simp
qed

section \<open>The shape of a short name\<close>

lemma toupper_not_0: "c \<noteq> 0 \<Longrightarrow> toupper c \<noteq> 0"
proof
  assume "c \<noteq> 0" "toupper c = 0"
  then have "islower c" "c - 32 = 0" by (auto simp: toupper_def split: if_splits)
  then show False by (simp add: islower_def)
qed

lemma valid_literals: "isValidSFNCharacter 0x5F" "isValidSFNCharacter 0x7E" "\<not> isValidSFNCharacter 0"
  by (simp_all add: isValidSFNCharacter_def strchr_hit_def sfn_special_def sfn_invalid_def)

lemma valid_digit: "d < 10 \<Longrightarrow> isValidSFNCharacter (48 + of_nat d)"
proof -
  assume "d < 10"
  then have "d \<in> {0, 1, 2, 3, 4, 5, 6, 7, 8, 9}" by (simp only: insert_iff empty_iff) presburger
  then show ?thesis
    by (auto simp: isValidSFNCharacter_def isalnum_def strchr_hit_def sfn_invalid_def)
qed

definition sfn_char :: "byte \<Rightarrow> bool" where
  "sfn_char c \<longleftrightarrow> c = 0x2E \<or> isValidSFNCharacter c"

lemma sfn_char_not_0: "sfn_char c \<Longrightarrow> c \<noteq> 0"
  using valid_literals(3) by (auto simp: sfn_char_def)

lemma sfn_upper_chars: "c \<in> set (sfn_upper s) \<Longrightarrow> sfn_char c"
  using valid_literals(1) unfolding sfn_upper_def
  by (auto simp: sfn_char_def dest!: set_dropWhileD)

lemma with_extension_chars:
  "c \<in> set (with_extension b e) \<Longrightarrow> (\<And>x. x \<in> set b \<union> set e \<Longrightarrow> sfn_char x) \<Longrightarrow> sfn_char c"
  by (auto simp: with_extension_def sfn_char_def split: if_splits)

lemma length_tail_digits: "t < 10 ^ Suc m \<Longrightarrow> length (tail_digits t c) \<le> Suc m"
proof (induction m arbitrary: t c)
  case 0
  then have "t div 10 = 0" by simp
  then show ?case by (subst tail_digits.simps) simp
next
  case (Suc m)
  then have "t div 10 < 10 ^ Suc m" by (simp add: div_less_iff_less_mult mult.commute)
  then have "length (tail_digits (t div 10) (c + 1)) \<le> Suc m" by (rule Suc.IH)
  then show ?case by (subst tail_digits.simps) simp
qed

lemma tail_name_shape:
  assumes "k \<le> 999999"
  shows "\<exists>b'. tail_name b e k = with_extension b' e \<and> length b' \<le> 8 \<and>
     (\<forall>c \<in> set b'. c \<in> set b \<or> isValidSFNCharacter c)"
proof -
  define n where "n = length (tail_digits k 0)"
  have "n \<le> 6" using length_tail_digits [of k 5 0] assms by (simp add: n_def)
  define l where "l = (if 8 - (1 + n) > length b then length b else 8 - (1 + n))"
  define b' where "b' = ksubstr b 0 (Some l) @ [0x7E] @ rev (tail_digits k 0)"
  have "tail_name b e k = with_extension b' e"
    using \<open>n \<le> 6\<close> by (simp add: tail_name_def Let_def n_def [symmetric] l_def b'_def)
  moreover have "length (ksubstr b 0 (Some l)) \<le> 8 - (1 + n)"
    using ksubstr_props(2) [of b 0 l] by (simp add: l_def split: if_splits)
  then have "length b' \<le> 8" using \<open>n \<le> 6\<close> by (simp add: b'_def n_def [symmetric])
  moreover have "c \<in> set b \<or> isValidSFNCharacter c" if "c \<in> set b'" for c
    using that ksubstr_props(1) [of b 0 "Some l"] valid_literals(2)
      tail_digits_chars [of c k 0] valid_digit
    by (auto simp: b'_def)
  ultimately show ?thesis by blast
qed

lemma generateUniqueShortName_spec:
  fixes longName existing
  defines "r \<equiv> generateUniqueShortName longName existing"
  shows "length existing < 999999 \<Longrightarrow> \<forall>x \<in> set existing. \<not> keq x r"
    and "r \<noteq> [] \<Longrightarrow> \<forall>x \<in> set existing. \<not> keq x r"
    and "\<exists>b e. r = with_extension b e \<and> length b \<le> 8 \<and> length e \<le> 3 \<and> (\<forall>c \<in> set b \<union> set e. sfn_char c)"
proof -
  define up where "up = sfn_upper longName"
  define base where "base = filter (\<lambda>c. c \<noteq> 0x20) (base_part up)"
  define ext where "ext = ksubstr (filter (\<lambda>c. c \<noteq> 0x20) (ext_part up)) 0 (Some 3)"
  have bc: "sfn_char c" if "c \<in> set base" for c
    using that set_base_part sfn_upper_chars by (fastforce simp: base_def up_def)
  have ec: "sfn_char c" if "c \<in> set ext" for c
    using that ksubstr_props(1) set_ext_part sfn_upper_chars by (fastforce simp: ext_def up_def)
  have nz: "0 \<notin> set base" "0 \<notin> set ext" using bc ec sfn_char_not_0 by blast+
  have el: "length ext \<le> 3" by (simp add: ext_def ksubstr_props(2))
  define b8 where "b8 = ksubstr base 0 (Some 8)"
  have b8: "b8 = base" if "length base \<le> 8"
    using that nz(1) by (simp add: b8_def ksubstr_def of_buf_id)
  have r: "r = (if length base \<le> 8 \<and> \<not> (\<exists>e \<in> set existing. keq e (with_extension base ext))
      then with_extension base ext else tail_loop base ext existing 1)"
    using b8 unfolding r_def generateUniqueShortName_def Let_def
    by (auto simp: up_def [symmetric] base_def [symmetric] ext_def [symmetric] b8_def [symmetric])
  show "\<forall>x \<in> set existing. \<not> keq x r" if "length existing < 999999"
    using r tail_loop_found [OF nz that] by (auto split: if_splits)
  show "\<forall>x \<in> set existing. \<not> keq x r" if "r \<noteq> []"
    using r that tail_loop_fresh [of base ext existing 1] by (auto split: if_splits)
  show "\<exists>b e. r = with_extension b e \<and> length b \<le> 8 \<and> length e \<le> 3 \<and> (\<forall>c \<in> set b \<union> set e. sfn_char c)"
  proof -
    consider "r = with_extension base ext" "length base \<le> 8" | "r = []"
      | k where "k \<le> 999999" "r = tail_name base ext k"
      using r tail_loop_fresh [of base ext existing 1] by (auto split: if_splits)
    then show ?thesis
    proof cases
      case 1
      with el bc ec show ?thesis by blast
    next
      case 2
      then show ?thesis by (intro exI [of _ "[]"]) (simp add: with_extension_def kempty_def)
    next
      case 3
      then obtain b' where "r = with_extension b' ext" "length b' \<le> 8"
        "\<forall>c \<in> set b'. c \<in> set base \<or> isValidSFNCharacter c"
        using tail_name_shape by metis
      moreover from this(3) bc ec have "\<forall>c \<in> set b' \<union> set ext. sfn_char c"
        by (auto simp: sfn_char_def)
      ultimately show ?thesis using el by blast
    qed
  qed
qed

end
