(* ===== verification/Fat_Entry.thy ===== *)
theory Fat_Entry
  imports Fat_Names Fat_Data
begin

text \<open>
  Directory entries (\<open>Fat32.h\<close>, \<open>Fat32.cpp\<close>): the packed 32-byte record on disk, and the
  object \<open>DirectoryEntry\<close> the operations work on. The object keeps the first cluster in 16
  bits, so the high word of an entry is lost when it is read and written back.
\<close>

section \<open>The record on disk\<close>

record fat_dentry =
  d_shortName :: bytes
  d_attribute :: u8
  d_ntRes :: u8
  d_creationTimeTenth :: u8
  d_creationTime :: u16
  d_creationDate :: u16
  d_lastAccessDate :: u16
  d_firstClusterHigh :: u16
  d_writeTime :: u16
  d_writeDate :: u16
  d_firstClusterLow :: u16
  d_fileSize :: u32

definition dentry_bytes :: "fat_dentry \<Rightarrow> bytes" where
  "dentry_bytes d =
     d_shortName d @ [d_attribute d, d_ntRes d, d_creationTimeTenth d] @
     bytes16 (d_creationTime d) @ bytes16 (d_creationDate d) @ bytes16 (d_lastAccessDate d) @
     bytes16 (d_firstClusterHigh d) @ bytes16 (d_writeTime d) @ bytes16 (d_writeDate d) @
     bytes16 (d_firstClusterLow d) @ bytes32 (d_fileSize d)"

definition dentry_of_bytes :: "bytes \<Rightarrow> fat_dentry" where
  "dentry_of_bytes b =
     \<lparr>d_shortName = take 11 b, d_attribute = b ! 11, d_ntRes = b ! 12, d_creationTimeTenth = b ! 13,
      d_creationTime = le16 (b ! 14) (b ! 15), d_creationDate = le16 (b ! 16) (b ! 17),
      d_lastAccessDate = le16 (b ! 18) (b ! 19), d_firstClusterHigh = le16 (b ! 20) (b ! 21),
      d_writeTime = le16 (b ! 22) (b ! 23), d_writeDate = le16 (b ! 24) (b ! 25),
      d_firstClusterLow = le16 (b ! 26) (b ! 27),
      d_fileSize = le32 (b ! 28) (b ! 29) (b ! 30) (b ! 31)\<rparr>"

definition zero_dentry :: fat_dentry where
  "zero_dentry =
     \<lparr>d_shortName = replicate 11 0, d_attribute = 0, d_ntRes = 0, d_creationTimeTenth = 0,
      d_creationTime = 0, d_creationDate = 0, d_lastAccessDate = 0, d_firstClusterHigh = 0,
      d_writeTime = 0, d_writeDate = 0, d_firstClusterLow = 0, d_fileSize = 0\<rparr>"

abbreviation "ATTR_DIRECTORY \<equiv> (0x10 :: u8)"
abbreviation "ATTR_ARCHIVE \<equiv> (0x20 :: u8)"

section \<open>The object\<close>

record DirectoryEntry =
  e_offset :: u32
  e_directoryStartCluster :: u32
  e_longName :: bytes
  e_shortName :: bytes
  e_attributes :: u8
  e_NTRes :: u8
  e_creationTimeMs :: u8
  e_creationTime :: u16
  e_creationDate :: u16
  e_lastAccessDate :: u16
  e_writeTime :: u16
  e_writeDate :: u16
  e_clusterChain :: u16
  e_fileSize :: u32

definition emptyDirectoryEntry :: DirectoryEntry where
  "emptyDirectoryEntry =
     \<lparr>e_offset = 0, e_directoryStartCluster = 0, e_longName = [], e_shortName = [],
      e_attributes = 0, e_NTRes = 0, e_creationTimeMs = 0, e_creationTime = 0, e_creationDate = 0,
      e_lastAccessDate = 0, e_writeTime = 0, e_writeDate = 0, e_clusterChain = 0, e_fileSize = 0\<rparr>"

text \<open>The long name made from the short one, for an entry without long-name parts.\<close>

definition long_from_short :: "fat_dentry \<Rightarrow> bytes" where
  "long_from_short d =
     (if d_attribute d AND ATTR_ARCHIVE \<noteq> 0 then
        let name = of_buf (take 8 (d_shortName d));
            extension = of_buf (take 3 (drop 8 (d_shortName d)));
            name' = (if d_ntRes d AND 0x08 \<noteq> 0 then map tolower name else name);
            extension' = (if d_ntRes d AND 0x10 \<noteq> 0 then map tolower extension else extension)
        in if \<not> kempty extension' then kstrip name' @ [0x2E] @ kstrip extension'
           else kstrip name'
      else
        let name = of_buf (take 11 (d_shortName d));
            name' = (if d_ntRes d AND 0x08 \<noteq> 0 then map tolower name else name)
        in kstrip name')"

definition mkDirectoryEntry :: "u32 \<Rightarrow> u32 \<Rightarrow> bytes \<Rightarrow> fat_dentry \<Rightarrow> DirectoryEntry" where
  "mkDirectoryEntry offset directoryStartCluster longName d =
     \<lparr>e_offset = offset, e_directoryStartCluster = directoryStartCluster,
      e_longName = (if kempty longName then long_from_short d else longName),
      e_shortName = of_buf (take 11 (d_shortName d)), e_attributes = d_attribute d,
      e_NTRes = d_ntRes d, e_creationTimeMs = d_creationTimeTenth d,
      e_creationTime = d_creationTime d, e_creationDate = d_creationDate d,
      e_lastAccessDate = d_lastAccessDate d, e_writeTime = d_writeTime d,
      e_writeDate = d_writeDate d,
      e_clusterChain = ucast (push_bit 16 (ucast (d_firstClusterHigh d)) OR ucast (d_firstClusterLow d) :: u32),
      e_fileSize = d_fileSize d\<rparr>"

definition getFatDentry :: "DirectoryEntry \<Rightarrow> fat_dentry option" where
  "getFatDentry e =
     do { name \<leftarrow> slice (rep (e_shortName e)) 0 11;
          Some \<lparr>d_shortName = name, d_attribute = e_attributes e, d_ntRes = e_NTRes e,
                d_creationTimeTenth = e_creationTimeMs e, d_creationTime = e_creationTime e,
                d_creationDate = e_creationDate e, d_lastAccessDate = e_lastAccessDate e,
                d_firstClusterHigh = ucast (drop_bit 16 (ucast (e_clusterChain e) :: u32) AND 0xFFFF),
                d_writeTime = e_writeTime e, d_writeDate = e_writeDate e,
                d_firstClusterLow = ucast (ucast (e_clusterChain e) AND 0xFFFF :: u32),
                d_fileSize = e_fileSize e\<rparr> }"

definition setFileSize :: "u32 \<Rightarrow> DirectoryEntry \<Rightarrow> DirectoryEntry" where
  "setFileSize n e = e\<lparr>e_fileSize := n\<rparr>"

definition setClusterChain :: "u32 \<Rightarrow> DirectoryEntry \<Rightarrow> DirectoryEntry" where
  "setClusterChain c e = e\<lparr>e_clusterChain := ucast c\<rparr>"

definition getFirstCluster :: "DirectoryEntry \<Rightarrow> u32" where
  "getFirstCluster e = ucast (e_clusterChain e)"

definition isDirectory :: "DirectoryEntry \<Rightarrow> bool" where
  "isDirectory e \<longleftrightarrow> e_attributes e AND ATTR_DIRECTORY \<noteq> 0"

section \<open>Round trips\<close>

lemma length_dentry_bytes [simp]: "length (d_shortName d) = 11 \<Longrightarrow> length (dentry_bytes d) = 32"
  by (simp add: dentry_bytes_def)

lemma dentry_roundtrip: "length (d_shortName d) = 11 \<Longrightarrow> dentry_of_bytes (dentry_bytes d) = d"
  by (simp add: dentry_bytes_def dentry_of_bytes_def nth_append bytes16_def bytes32_def)

lemma drop_nth: "drop n xs = map ((!) xs) [n..<length xs]"
  by (rule nth_equalityI) simp_all

lemma dentry_bytes_of_bytes: "length b = 32 \<Longrightarrow> dentry_bytes (dentry_of_bytes b) = b"
proof -
  assume len: "length b = 32"
  have "dentry_bytes (dentry_of_bytes b) = take 11 b @ map ((!) b) [11..<32]"
    by (simp add: dentry_bytes_def dentry_of_bytes_def upt_conv_Cons)
  also have "\<dots> = take 11 b @ drop 11 b" by (simp only: drop_nth len)
  finally show ?thesis by simp
qed

lemma slice_rep_of_buf: "length xs = 11 \<Longrightarrow> slice (rep (of_buf xs)) 0 11 = Some xs"
proof -
  assume len: "length xs = 11"
  have "rep (of_buf xs) = xs \<or> rep (of_buf xs) = xs @ [0]"
    by (auto simp: rep_def of_buf_def dest: append_butlast_last_id)
  then show ?thesis using len by (auto simp: slice_def)
qed

lemma cluster_words:
  "ucast (push_bit 16 (ucast hi) OR ucast lo :: u32) = (lo :: u16)"
  "ucast (drop_bit 16 (ucast lo :: u32) AND 0xFFFF) = (0 :: u16)"
  "ucast (ucast lo AND 0xFFFF :: u32) = lo"
proof -
  have m: "(0xFFFF :: u32) = mask 16" by (simp add: mask_eq_exp_minus_1)
  have b: "16 \<le> n \<Longrightarrow> \<not> bit lo n" for n using bit_imp_le_length [of lo n] by auto
  show "ucast (push_bit 16 (ucast hi) OR ucast lo :: u32) = lo"
    by (rule bit_word_eqI) (auto simp: bit_simps)
  show "ucast (drop_bit 16 (ucast lo :: u32) AND 0xFFFF) = (0 :: u16)"
    unfolding m take_bit_eq_mask [symmetric] by (rule bit_word_eqI) (auto simp: bit_simps b)
  show "ucast (ucast lo AND 0xFFFF :: u32) = lo"
    unfolding m take_bit_eq_mask [symmetric] by (rule bit_word_eqI) (auto simp: bit_simps)
qed

text \<open>Reading an entry into the object and back loses the high word of the first cluster only.\<close>

lemma getFatDentry_mk:
  assumes "length (d_shortName d) = 11"
  shows "getFatDentry (mkDirectoryEntry off dc ln d) = Some (d\<lparr>d_firstClusterHigh := 0\<rparr>)"
  using assms by (simp add: getFatDentry_def mkDirectoryEntry_def slice_rep_of_buf cluster_words)

lemma getFirstCluster_mk [simp]:
  "getFirstCluster (mkDirectoryEntry off dc ln d) = ucast (d_firstClusterLow d)"
  by (simp add: getFirstCluster_def mkDirectoryEntry_def cluster_words)

lemma getFirstCluster_set:
  "getFirstCluster (setClusterChain c e) = c AND 0xFFFF"
proof -
  have m: "(0xFFFF :: u32) = mask 16" by (simp add: mask_eq_exp_minus_1)
  show ?thesis
    unfolding m take_bit_eq_mask [symmetric]
    by (rule bit_word_eqI) (auto simp: getFirstCluster_def setClusterChain_def bit_simps)
qed

lemma getFirstCluster_set_small:
  assumes "unat c < 65536"
  shows "getFirstCluster (setClusterChain c e) = c"
proof -
  have m: "(0xFFFF :: u32) = mask 16" by (simp add: mask_eq_exp_minus_1)
  show ?thesis
    unfolding getFirstCluster_set m take_bit_eq_mask [symmetric]
    using assms by (simp add: word_unat_eq_iff unsigned_take_bit_eq take_bit_nat_eq_self)
qed

end
