(* ===== verification/Fat_Dir.thy ===== *)
theory Fat_Dir
  imports Fat_Entry
begin

text \<open>
  Reading directories and paths, and writing one entry back (\<open>getDirectoryEntries\<close>,
  \<open>resolvePathToEntry\<close>, \<open>flushEntry\<close> of \<open>Fat32.cpp\<close>). The long-name parts collected before an
  entry are joined by their order numbers; \<open>std::sort\<close> is modelled by a stable sort, which
  only matters when two parts carry the same order.
\<close>

section \<open>Definitions\<close>

type_synonym lfn_parts = "(u8 \<times> u16 list) list"

definition join_lfn :: "lfn_parts \<Rightarrow> bytes" where
  "join_lfn parts = utf16le_to_utf8 (concat (map snd (sort_key fst parts)))"

function dir_loop ::
  "u32 \<Rightarrow> bytes \<Rightarrow> nat \<Rightarrow> lfn_parts \<Rightarrow> u8 \<Rightarrow> DirectoryEntry list \<Rightarrow> DirectoryEntry list option" where
  "dir_loop dc data i longNameParts lfnChecksum entries =
     (if i < length data then
        if data ! i = 0x00 then Some entries
        else if data ! i = 0xE5 then dir_loop dc data (i + 32) [] 0 entries
        else case slice data i 32 of
          None \<Rightarrow> None
        | Some entry \<Rightarrow>
            if entry ! 11 AND 0x3F = 0x0F then
              dir_loop dc data (i + 32) ((entry ! 0 AND 0x1F, lfn_part entry) # longNameParts)
                (entry ! 13) entries
            else
              let dentry = dentry_of_bytes entry in
              case calculateShortNameChecksum (d_shortName dentry) of
                None \<Rightarrow> None
              | Some shortNameChecksum \<Rightarrow>
                  let longName = (if longNameParts \<noteq> [] \<and> lfnChecksum = shortNameChecksum
                                  then join_lfn longNameParts else []);
                      lfnChecksum' = (if longNameParts \<noteq> [] then 0 else lfnChecksum)
                  in dir_loop dc data (i + 32) [] lfnChecksum'
                       (entries @ [mkDirectoryEntry (of_nat i) dc longName dentry])
      else Some entries)"
  by pat_completeness auto
termination
  by (relation "measure (\<lambda>(dc, data, i, parts, ck, es). length data - i)") auto

definition getDirectoryEntries :: "part \<Rightarrow> vdisk \<Rightarrow> u32 \<Rightarrow> DirectoryEntry list option" where
  "getDirectoryEntries p d directoryStartCluster =
     (if directoryStartCluster \<ge> countClusters p then None
      else do { data \<leftarrow> readEntireFile p d directoryStartCluster;
                dir_loop directoryStartCluster data 0 [] 0 [] })"

definition find_token :: "bytes \<Rightarrow> DirectoryEntry list \<Rightarrow> DirectoryEntry option" where
  "find_token token entries =
     find (\<lambda>e. keq (e_longName e) token \<or> keq (e_shortName e) token) entries"

fun resolve_loop :: "part \<Rightarrow> vdisk \<Rightarrow> bytes list \<Rightarrow> u32 \<Rightarrow> DirectoryEntry option" where
  "resolve_loop p d [] currentCluster = Some emptyDirectoryEntry"
| "resolve_loop p d (token # tokens) currentCluster =
     (if kempty token then resolve_loop p d tokens currentCluster
      else do {
        entries \<leftarrow> getDirectoryEntries p d currentCluster;
        case find_token token entries of
          None \<Rightarrow> Some emptyDirectoryEntry
        | Some e \<Rightarrow>
            if tokens = [] then Some e
            else if isDirectory e then resolve_loop p d tokens (getFirstCluster e)
            else Some emptyDirectoryEntry })"

definition root_entry :: "part \<Rightarrow> DirectoryEntry" where
  "root_entry p =
     mkDirectoryEntry 0 0 [0x2F]
       (zero_dentry\<lparr>d_shortName := 0x2F # replicate 10 0, d_attribute := 0x10,
                    d_firstClusterLow := ucast (rootCluster p AND 0xFFFF)\<rparr>)"

definition resolvePathToEntry :: "part \<Rightarrow> vdisk \<Rightarrow> bytes \<Rightarrow> DirectoryEntry option" where
  "resolvePathToEntry p d path =
     (if kempty path \<or> hd path \<noteq> 0x2F then Some emptyDirectoryEntry
      else let tokens = ksplit path 0x2F True in
        if tokens = [] \<or> (length tokens = 1 \<and> kempty (hd tokens)) then Some (root_entry p)
        else resolve_loop p d tokens (rootCluster p))"

text \<open>
  \<open>flushEntry\<close>. Its first test masks the attributes with \<open>EntryAttribute::Invalid\<close>, which is
  zero, so it never rejects an entry.
\<close>

definition flushEntry :: "part \<Rightarrow> DirectoryEntry \<Rightarrow> vdisk \<Rightarrow> (bool \<times> vdisk) option" where
  "flushEntry p e d =
     (if e_attributes e AND 0x0 \<noteq> 0 then Some (False, d)
      else do {
        dentry \<leftarrow> getFatDentry e;
        if sectorSize p = 0 \<or> clusterSize p = 0 then None
        else let sectorIndex = e_offset e div ucast (sectorSize p);
                 offsetWithinSector = e_offset e mod ucast (sectorSize p);
                 clusterIndex = sectorIndex div ucast (clusterSize p);
                 sectorWithinCluster = sectorIndex mod ucast (clusterSize p)
        in do {
          clusterChain \<leftarrow> readClusterChain p d (e_directoryStartCluster e);
          if unat clusterIndex \<ge> length clusterChain then Some (False, d)
          else do {
            baseSector \<leftarrow> getFirstSectorOfCluster p (clusterChain ! unat clusterIndex);
            r \<leftarrow> readSectors p d baseSector [0..<unat (clusterSize p)]
                   (replicate (unat (clusterSizeBytes p)) 0);
            case r of
              None \<Rightarrow> Some (False, d)
            | Some clusterData \<Rightarrow>
                let offsetWithinCluster = sectorWithinCluster * ucast (sectorSize p) + offsetWithinSector
                in do {
                  clusterData' \<leftarrow> blit clusterData (unat offsetWithinCluster) (dentry_bytes dentry);
                  writeSectors p baseSector [0..<unat (clusterSize p)] clusterData' d } } } })"

declare dir_loop.simps [simp del]

end
