(* ===== verification/Fat_Create.thy ===== *)
theory Fat_Create
  imports Fat_Dir
begin

text \<open>
  Creating entries (\<open>createFile\<close>, \<open>createDirectory\<close> of \<open>Fat32.cpp\<close>): the short name, the entry,
  the free slots in the directory's data, the insertion with its end marker, and the way back
  to the disk. Each step of \<open>createFile\<close> is one definition. The result of a creation is the
  new entry or \<open>None\<close> (\<open>std::nullopt\<close>), the directory's entry, which may get its first cluster,
  and the disk.
\<close>

section \<open>The entry\<close>

definition dotted_short_name :: "DirectoryEntry \<Rightarrow> bytes option" where
  "dotted_short_name e =
     do { b \<leftarrow> slice (rep (e_shortName e)) 0 8;
          x \<leftarrow> slice (rep (e_shortName e)) 8 3;
          let base = map toupper (kstrip (of_buf b));
              ext = map toupper (kstrip (of_buf x))
          in Some (if \<not> kempty ext then (base @ [0x2E]) @ ext else base) }"

text \<open>The names in use; \<open>Some None\<close> when the file name is already there.\<close>

fun existing_short_names :: "DirectoryEntry list \<Rightarrow> bytes \<Rightarrow> bytes list \<Rightarrow> bytes list option option" where
  "existing_short_names [] fileName names = Some (Some names)"
| "existing_short_names (e # es) fileName names =
     (if keq (e_longName e) fileName then Some None
      else do { dotted \<leftarrow> dotted_short_name e;
                existing_short_names es fileName (names @ [dotted]) })"

definition pad_name :: "nat \<Rightarrow> bytes \<Rightarrow> bytes" where
  "pad_name n s =
     map (\<lambda>i. if i < min n (length s) \<and> s ! i \<noteq> 0 then s ! i else 0x20) [0..<n]"

definition padded_short_name :: "bytes \<Rightarrow> bytes" where
  "padded_short_name sfn =
     (let dotPos = kfind sfn 0x2E;
          baseName = (case dotPos of None \<Rightarrow> sfn | Some q \<Rightarrow> ksubstr sfn 0 (Some q));
          extension = (case dotPos of None \<Rightarrow> [] | Some q \<Rightarrow> ksubstr sfn (q + 1) None)
      in pad_name 8 (map toupper baseName) @ pad_name 3 (map toupper extension))"

definition default_date :: u16 where "default_date = 0x5021"
definition default_time :: u16 where "default_time = 0x6000"

definition dated_dentry :: "bytes \<Rightarrow> u8 \<Rightarrow> u32 \<Rightarrow> fat_dentry" where
  "dated_dentry name attr cluster =
     zero_dentry\<lparr>d_shortName := name, d_attribute := attr, d_creationTime := default_time,
       d_creationDate := default_date, d_lastAccessDate := default_date,
       d_firstClusterHigh := ucast (drop_bit 16 cluster AND 0xFFFF),
       d_writeTime := default_time, d_writeDate := default_date,
       d_firstClusterLow := ucast (cluster AND 0xFFFF)\<rparr>"

section \<open>Slots of a directory\<close>

fun slot_free :: "bytes \<Rightarrow> nat \<Rightarrow> nat list \<Rightarrow> bool" where
  "slot_free dirData i [] = True"
| "slot_free dirData i (j # js) =
     (let offset = (i + j) * 32 in
      if offset \<ge> length dirData then True
      else if dirData ! offset \<noteq> 0x00 \<and> dirData ! offset \<noteq> 0xE5 then False
      else slot_free dirData i js)"

definition find_slot :: "bytes \<Rightarrow> nat \<Rightarrow> nat" where
  "find_slot dirData needed =
     (case find (\<lambda>i. slot_free dirData i [0..<needed]) [0..<length dirData div 32 + 1] of
        None \<Rightarrow> 0 | Some i \<Rightarrow> i * 32)"

definition resize_bytes :: "bytes \<Rightarrow> nat \<Rightarrow> bytes" where
  "resize_bytes data n = (if length data < n then data @ replicate (n - length data) 0 else data)"

fun copy_entries :: "bytes list \<Rightarrow> nat \<Rightarrow> bytes \<Rightarrow> bytes option" where
  "copy_entries [] offset dirData = Some dirData"
| "copy_entries (x # xs) offset dirData =
     do { dirData' \<leftarrow> blit dirData offset x; copy_entries xs (offset + 32) dirData' }"

text \<open>The end marker after the new entries: a free slot that follows becomes the end.\<close>

definition mark_end :: "bytes \<Rightarrow> nat \<Rightarrow> bytes" where
  "mark_end dirData offset =
     (if offset < length dirData \<and> (dirData ! offset = 0x00 \<or> dirData ! offset = 0xE5)
      then dirData[offset := 0x00] else dirData)"

definition insert_entries :: "bytes \<Rightarrow> nat \<Rightarrow> bytes list \<Rightarrow> bytes option" where
  "insert_entries dirData insertPos es =
     do { dirData' \<leftarrow> copy_entries es insertPos (resize_bytes dirData (insertPos + length es * 32));
          Some (mark_end dirData' (insertPos + length es * 32)) }"

section \<open>Back to the disk\<close>

function extend_chain ::
  "part \<Rightarrow> DirectoryEntry \<Rightarrow> u32 list \<Rightarrow> nat \<Rightarrow> vdisk \<Rightarrow> (bool \<times> DirectoryEntry \<times> u32 list \<times> vdisk) option" where
  "extend_chain p dir clusterChain totalClusters d =
     (if length clusterChain < totalClusters then
        case allocateCluster p d of
          None \<Rightarrow> None
        | Some (None, d1) \<Rightarrow> Some (False, dir, clusterChain, d1)
        | Some (Some c, d1) \<Rightarrow>
            if clusterChain \<noteq> [] then
              case setNextCluster p (last clusterChain) c d1 of
                None \<Rightarrow> None
              | Some (status, d2) \<Rightarrow> extend_chain p dir (clusterChain @ [c]) totalClusters d2
            else
              case flushEntry p (setClusterChain c dir) d1 of
                None \<Rightarrow> None
              | Some (status, d2) \<Rightarrow>
                  extend_chain p (setClusterChain c dir) (clusterChain @ [c]) totalClusters d2
      else Some (True, dir, clusterChain, d))"
  by pat_completeness auto
termination
  by (relation "measure (\<lambda>(p, dir, cs, n, d). n - length cs)") auto

definition pad_cluster :: "bytes \<Rightarrow> nat \<Rightarrow> bytes" where
  "pad_cluster data n = data @ replicate (n - length data) 0"

text \<open>Writing the directory's data cluster by cluster.\<close>

fun write_clusters :: "part \<Rightarrow> nat \<Rightarrow> u32 list \<Rightarrow> bytes \<Rightarrow> nat list \<Rightarrow> vdisk \<Rightarrow> (bool \<times> vdisk) option" where
  "write_clusters p csb clusterChain dirData [] d = Some (True, d)"
| "write_clusters p csb clusterChain dirData (k # ks) d =
     do { cluster \<leftarrow> rd_at clusterChain k;
          (status, d') \<leftarrow> writeCluster p cluster (pad_cluster (take csb (drop (k * csb) dirData)) csb) d;
          if \<not> status then Some (False, d') else write_clusters p csb clusterChain dirData ks d' }"

definition MAX_DIR_SIZE :: u32 where "MAX_DIR_SIZE = 104857600"

text \<open>The cluster size the code recomputes from its factors, as a 32-bit product.\<close>

definition dirClusterBytes :: "part \<Rightarrow> u32" where
  "dirClusterBytes p = ucast (clusterSize p) * ucast (sectorSize p)"

definition read_dir_data :: "part \<Rightarrow> DirectoryEntry \<Rightarrow> vdisk \<Rightarrow> bytes option" where
  "read_dir_data p dir d =
     do { dirClusterChain \<leftarrow> readClusterChain p d (getFirstCluster dir);
          let actualDirBytes = of_nat (length dirClusterChain) * dirClusterBytes p;
              dirReadSize = min actualDirBytes MAX_DIR_SIZE;
              dirReadSize' = (if dirReadSize = 0 then dirClusterBytes p else dirReadSize)
          in readFile p d (getFirstCluster dir) dirReadSize' }"

definition store_dir_data ::
  "part \<Rightarrow> DirectoryEntry \<Rightarrow> bytes \<Rightarrow> vdisk \<Rightarrow> (bool \<times> DirectoryEntry \<times> vdisk) option" where
  "store_dir_data p dir dirData d =
     (let csb = unat (dirClusterBytes p) in
      if csb = 0 then None
      else let totalClusters = (length dirData + csb - 1) div csb in do {
        clusterChain \<leftarrow> readClusterChain p d (getFirstCluster dir);
        (grown, dir', clusterChain', d1) \<leftarrow> extend_chain p dir clusterChain totalClusters d;
        if \<not> grown then Some (False, dir', d1)
        else do {
          d2 \<leftarrow> (if clusterChain' \<noteq> [] then
                   do { r \<leftarrow> setNextCluster p (last clusterChain') 0x0FFFFFFF d1; Some (snd r) }
                 else Some d1);
          (status, d3) \<leftarrow> write_clusters p csb clusterChain' dirData [0..<totalClusters] d2;
          Some (status, dir', d3) } })"

section \<open>Files and directories\<close>

definition createFile ::
  "part \<Rightarrow> DirectoryEntry \<Rightarrow> bytes \<Rightarrow> u8 \<Rightarrow> vdisk \<Rightarrow> (DirectoryEntry option \<times> DirectoryEntry \<times> vdisk) option" where
  "createFile p dir fileName attributes d =
     (if \<not> isDirectory dir then Some (None, dir, d)
      else do {
        entries \<leftarrow> getDirectoryEntries p d (getFirstCluster dir);
        names \<leftarrow> existing_short_names entries fileName [];
        case names of
          None \<Rightarrow> Some (None, dir, d)
        | Some existingShortNames \<Rightarrow>
            let sfn = generateUniqueShortName fileName existingShortNames in
            if kempty sfn then Some (None, dir, d)
            else let shortName = padded_short_name sfn in do {
              checksum \<leftarrow> calculateShortNameChecksum shortName;
              lfnEntries \<leftarrow> (if needsLFN fileName then createLFNEntries fileName checksum else Some []);
              let newDentry = dated_dentry shortName
                    (if attributes = ATTR_DIRECTORY then 0x10 else attributes) 0 in do {
              dirData \<leftarrow> read_dir_data p dir d;
              let insertPos = find_slot dirData (length lfnEntries + 1);
                  mainEntryOffset = insertPos + length lfnEntries * 32 in do {
              dirData' \<leftarrow> insert_entries dirData insertPos (lfnEntries @ [dentry_bytes newDentry]);
              (status, dir', d') \<leftarrow> store_dir_data p dir dirData' d;
              if \<not> status then Some (None, dir', d')
              else Some (Some (mkDirectoryEntry (of_nat mainEntryOffset) (getFirstCluster dir')
                                 fileName newDentry), dir', d') } } } })"

definition dot_name :: bytes where "dot_name = 0x2E # replicate 10 0x20"
definition dotdot_name :: bytes where "dotdot_name = 0x2E # 0x2E # replicate 9 0x20"

definition createDirectory ::
  "part \<Rightarrow> DirectoryEntry \<Rightarrow> bytes \<Rightarrow> vdisk \<Rightarrow> (DirectoryEntry option \<times> DirectoryEntry \<times> vdisk) option" where
  "createDirectory p parent dirName d =
     do { existingEntries \<leftarrow> getDirectoryEntries p d (getFirstCluster parent);
          if list_ex (\<lambda>e. keq (e_longName e) dirName) existingEntries then Some (None, parent, d)
          else do {
            (created, parent', d1) \<leftarrow> createFile p parent dirName ATTR_DIRECTORY d;
            case created of
              None \<Rightarrow> Some (None, parent', d1)
            | Some dirEntry \<Rightarrow> do {
                (allocated, d2) \<leftarrow> allocateCluster p d1;
                case allocated of
                  None \<Rightarrow> Some (None, parent', d2)
                | Some dirCluster \<Rightarrow>
                    let dotEntry = dated_dentry dot_name ATTR_DIRECTORY dirCluster;
                        dotdotEntry = dated_dentry dotdot_name ATTR_DIRECTORY (getFirstCluster parent')
                    in do {
                      c1 \<leftarrow> blit (replicate (unat (clusterSizeBytes p)) 0) 0 (dentry_bytes dotEntry);
                      dirClusterData \<leftarrow> blit c1 32 (dentry_bytes dotdotEntry);
                      (written, d3) \<leftarrow> writeCluster p dirCluster dirClusterData d2;
                      if \<not> written then do { d4 \<leftarrow> freeClusterChain p dirCluster d3; Some (None, parent', d4) }
                      else do {
                        (chained, d4) \<leftarrow> setNextCluster p dirCluster 0x0FFFFFFF d3;
                        if \<not> chained then do { d5 \<leftarrow> freeClusterChain p dirCluster d4; Some (None, parent', d5) }
                        else let dirEntry' = setClusterChain dirCluster dirEntry in do {
                          (flushed, d5) \<leftarrow> flushEntry p dirEntry' d4;
                          if \<not> flushed then do { d6 \<leftarrow> freeClusterChain p dirCluster d5; Some (None, parent', d6) }
                          else do { verifyEntries \<leftarrow> getDirectoryEntries p d5 (getFirstCluster parent');
                                    Some (Some dirEntry', parent', d5) } } } } } } }"

declare extend_chain.simps [simp del]

section \<open>Deletion\<close>

text \<open>
  Deleting entries (\<open>deleteFile\<close>, \<open>deleteDirectory\<close> of \<open>Fat32.cpp\<close>): the lookup by long name,
  the emptiness test of a directory, the marking of the entry and of its long-name entries,
  and the way back to the disk.
\<close>

definition find_long_name :: "bytes \<Rightarrow> DirectoryEntry list \<Rightarrow> DirectoryEntry option" where
  "find_long_name name entries = find (\<lambda>e. keq (e_longName e) name) entries"

text \<open>Marking the long-name entries before the entry, backwards from \<open>off\<close>.\<close>

function mark_lfn :: "bytes \<Rightarrow> nat \<Rightarrow> bytes option" where
  "mark_lfn dirData off =
     (case rd_at dirData off of
        None \<Rightarrow> None
      | Some firstByte \<Rightarrow>
          (case rd_at dirData (off + 11) of
             None \<Rightarrow> None
           | Some attrByte \<Rightarrow>
               if attrByte AND 0x3F \<noteq> 0x0F then Some dirData
               else let dirData' = dirData[off := 0xE5] in
                 if firstByte AND 0x40 \<noteq> 0 then Some dirData'
                 else if off \<ge> 32 then mark_lfn dirData' (off - 32) else Some dirData'))"
  by pat_completeness auto
termination by (relation "measure (\<lambda>(dirData, off). off)") auto

declare mark_lfn.simps [simp del]

definition mark_deleted :: "bytes \<Rightarrow> nat \<Rightarrow> bytes option" where
  "mark_deleted dirData targetOffset =
     (let dirData' = dirData[targetOffset := 0xE5] in
      if targetOffset \<ge> 32 then mark_lfn dirData' (targetOffset - 32) else Some dirData')"

text \<open>The way back: every cluster of the chain that the data reaches.\<close>

fun rewrite_clusters :: "part \<Rightarrow> nat \<Rightarrow> u32 list \<Rightarrow> nat \<Rightarrow> bytes \<Rightarrow> vdisk \<Rightarrow> (bool \<times> vdisk) option" where
  "rewrite_clusters p csb [] dataOffset dirData d = Some (True, d)"
| "rewrite_clusters p csb (c # cs) dataOffset dirData d =
     (if dataOffset \<ge> length dirData then Some (True, d)
      else do {
        (status, d') \<leftarrow> writeCluster p c (pad_cluster (take csb (drop dataOffset dirData)) csb) d;
        if \<not> status then Some (False, d') else rewrite_clusters p csb cs (dataOffset + csb) dirData d' })"

text \<open>The common tail of both deletions: free the data, mark the slots, write the directory.\<close>

definition remove_entry :: "part \<Rightarrow> DirectoryEntry \<Rightarrow> DirectoryEntry \<Rightarrow> vdisk \<Rightarrow> (bool \<times> vdisk) option" where
  "remove_entry p parent target d =
     do { d1 \<leftarrow> (if getFirstCluster target > 2 then freeClusterChain p (getFirstCluster target) d
                 else Some d);
          dirData \<leftarrow> readEntireFile p d1 (getFirstCluster parent);
          if dirData = [] then Some (False, d1)
          else if unat (e_offset target) \<ge> length dirData then Some (False, d1)
          else do {
            dirData' \<leftarrow> mark_deleted dirData (unat (e_offset target));
            clusterChain \<leftarrow> readClusterChain p d1 (getFirstCluster parent);
            if clusterChain = [] then Some (False, d1)
            else rewrite_clusters p (unat (dirClusterBytes p)) clusterChain 0 dirData' d1 } }"

definition deleteFile :: "part \<Rightarrow> DirectoryEntry \<Rightarrow> bytes \<Rightarrow> vdisk \<Rightarrow> (bool \<times> vdisk) option" where
  "deleteFile p parent fileName d =
     do { entries \<leftarrow> getDirectoryEntries p d (getFirstCluster parent);
          case find_long_name fileName entries of
            None \<Rightarrow> Some (False, d)
          | Some target \<Rightarrow> if isDirectory target then Some (False, d) else remove_entry p parent target d }"

text \<open>The emptiness test on the raw data of a directory.\<close>

function rest_empty :: "bytes \<Rightarrow> nat \<Rightarrow> bool" where
  "rest_empty data offset =
     (if offset < length data then
        if data ! offset = 0x00 then True
        else if data ! offset = 0xE5 then rest_empty data (offset + 32)
        else False
      else True)"
  by pat_completeness auto
termination by (relation "measure (\<lambda>(data, offset). length data - offset)") auto

declare rest_empty.simps [simp del]

definition isValidEmpty :: "bytes \<Rightarrow> bool" where
  "isValidEmpty data \<longleftrightarrow>
     length data \<ge> 96 \<and>
     (data ! 0 = 0x2E \<and> data ! 1 = 0x20 \<and> (data ! 11 = 0x10 \<or> data ! 11 = 0x30)) \<and>
     (data ! 32 = 0x2E \<and> data ! 33 = 0x2E \<and> (data ! 43 = 0x10 \<or> data ! 43 = 0x30)) \<and>
     rest_empty data 64"

definition deleteDirectory :: "part \<Rightarrow> DirectoryEntry \<Rightarrow> bytes \<Rightarrow> vdisk \<Rightarrow> (bool \<times> vdisk) option" where
  "deleteDirectory p parent dirName d =
     do { entries \<leftarrow> getDirectoryEntries p d (getFirstCluster parent);
          case find_long_name dirName entries of
            None \<Rightarrow> Some (False, d)
          | Some target \<Rightarrow>
              if \<not> isDirectory target then Some (False, d)
              else if getFirstCluster target < 2 then Some (False, d)
              else do {
                targetDirData \<leftarrow> readEntireFile p d (getFirstCluster target);
                if targetDirData = [] then Some (False, d)
                else if length targetDirData < 11 then None
                else if \<not> isValidEmpty targetDirData then Some (False, d)
                else remove_entry p parent target d } }"

end
