(* ===== verification/Fat_File.thy ===== *)
theory Fat_File
  imports Fat_Dir
begin

text \<open>
  Reading and writing files through their directory entry (\<open>read\<close>, \<open>append\<close>, \<open>write\<close>,
  \<open>writeAtOffset\<close> of \<open>Fat32.cpp\<close>). The entry is passed by reference in the code, so each writer
  returns its verdict, the entry and the disk.
\<close>

section \<open>Definitions\<close>

definition fetchDataFromEntry :: "part \<Rightarrow> vdisk \<Rightarrow> DirectoryEntry \<Rightarrow> u32 \<Rightarrow> u32 \<Rightarrow> bytes option" where
  "fetchDataFromEntry p d e offset countBytes =
     (if offset \<ge> e_fileSize e then Some []
      else let maxPossibleBytes = e_fileSize e - offset;
               countBytes' = (if countBytes > maxPossibleBytes then maxPossibleBytes else countBytes)
           in do { fileData \<leftarrow> readFile p d (getFirstCluster e) (e_fileSize e);
                   slice fileData (unat offset) (unat countBytes') })"

definition read_entry :: "part \<Rightarrow> vdisk \<Rightarrow> DirectoryEntry \<Rightarrow> u32 \<Rightarrow> u32 \<Rightarrow> bytes option" where
  "read_entry p d e offset countBytes = fetchDataFromEntry p d e offset countBytes"

text \<open>The bytes that still fit in the last cluster.\<close>

definition append_tail ::
  "part \<Rightarrow> DirectoryEntry \<Rightarrow> bytes \<Rightarrow> u32 list \<Rightarrow> vdisk \<Rightarrow> (bool \<times> u32 \<times> vdisk) option" where
  "append_tail p e data clusterChain d =
     (let fileSize = e_fileSize e;
          lastClusterOffset = fileSize mod clusterSizeBytes p
      in if fileSize > 0 \<and> lastClusterOffset \<noteq> 0 \<and> clusterChain \<noteq> [] then
           let bytesToWrite = min (clusterSizeBytes p - lastClusterOffset) (of_nat (length data));
               lastCluster = last clusterChain
           in do { clusterData \<leftarrow> readFile p d lastCluster (clusterSizeBytes p);
                   piece \<leftarrow> slice data 0 (unat bytesToWrite);
                   clusterData' \<leftarrow> blit clusterData (unat lastClusterOffset) piece;
                   (status, d') \<leftarrow> writeCluster p lastCluster clusterData' d;
                   Some (status, bytesToWrite, d') }
         else Some (True, 0, d))"

text \<open>Linking a freshly allocated cluster: into the entry, or behind the last cluster.\<close>

definition append_link ::
  "part \<Rightarrow> DirectoryEntry \<Rightarrow> u32 \<Rightarrow> u32 \<Rightarrow> vdisk \<Rightarrow> (bool \<times> DirectoryEntry \<times> vdisk) option" where
  "append_link p e lastCluster newCluster d =
     (if lastCluster = 0 then
        if getFirstCluster e = 0 then
          let e' = setClusterChain newCluster e in
          do { (status, d') \<leftarrow> flushEntry p e' d; Some (status, e', d') }
        else Some (True, e, d)
      else do { (status, d') \<leftarrow> setNextCluster p lastCluster newCluster d; Some (True, e, d') })"

lemma min_step:
  assumes "0 < (r :: u32)" and "c \<noteq> 0"
  shows "unat (r - min c r) < unat r"
proof -
  have "0 < min c r" using assms by (auto simp: min_def word_gt_0)
  moreover have "min c r \<le> r" by simp
  ultimately show ?thesis using assms(1)
    by (simp add: unat_sub_le u32_less_iff u32_le_iff)
qed

function append_loop ::
  "part \<Rightarrow> bytes \<Rightarrow> DirectoryEntry \<Rightarrow> u32 \<Rightarrow> u32 \<Rightarrow> u32 \<Rightarrow> vdisk \<Rightarrow> (bool \<times> DirectoryEntry \<times> vdisk) option" where
  "append_loop p data e lastCluster remainingBytes writePosition d =
     (if remainingBytes > 0 then
        if clusterSizeBytes p = 0 then None
        else case allocateCluster p d of
          None \<Rightarrow> None
        | Some (None, d1) \<Rightarrow> Some (False, e, d1)
        | Some (Some newCluster, d1) \<Rightarrow>
            (case append_link p e lastCluster newCluster d1 of
               None \<Rightarrow> None
             | Some (status, e', d2) \<Rightarrow>
                 if \<not> status then Some (False, e', d2)
                 else let bytesToWrite = min (clusterSizeBytes p) remainingBytes in
                   case slice data (unat writePosition) (unat bytesToWrite) of
                     None \<Rightarrow> None
                   | Some piece \<Rightarrow>
                       let clusterData = piece @ replicate (unat (clusterSizeBytes p) - length piece) 0 in
                       case writeCluster p newCluster clusterData d2 of
                         None \<Rightarrow> None
                       | Some (status', d3) \<Rightarrow>
                           if \<not> status' then Some (False, e', d3)
                           else append_loop p data e' newCluster (remainingBytes - bytesToWrite)
                                  (writePosition + bytesToWrite) d3)
      else Some (True, e, d))"
  by pat_completeness auto
termination
  by (relation "measure (\<lambda>(p, data, e, lc, rem, wp, d). unat rem)") (simp_all add: min_step)

definition append_entry ::
  "part \<Rightarrow> DirectoryEntry \<Rightarrow> bytes \<Rightarrow> vdisk \<Rightarrow> (bool \<times> DirectoryEntry \<times> vdisk) option" where
  "append_entry p e data d =
     (if clusterSizeBytes p = 0 then None
      else do {
        clusterChain \<leftarrow> readClusterChain p d (getFirstCluster e);
        let lastCluster = (if clusterChain = [] then 0 else last clusterChain) in do {
        (status, written, d1) \<leftarrow> append_tail p e data clusterChain d;
        if \<not> status then Some (False, e, d1)
        else do {
          (status', e', d2) \<leftarrow>
             append_loop p data e lastCluster (of_nat (length data) - written) written d1;
          if \<not> status' then Some (False, e', d2)
          else let e'' = setFileSize (e_fileSize e + of_nat (length data)) e' in
            do { (status'', d3) \<leftarrow> flushEntry p e'' d2; Some (status'', e'', d3) } } } })"

definition write_entry ::
  "part \<Rightarrow> DirectoryEntry \<Rightarrow> bytes \<Rightarrow> vdisk \<Rightarrow> (bool \<times> DirectoryEntry \<times> vdisk) option" where
  "write_entry p e data d =
     do { d1 \<leftarrow> (if getFirstCluster e > 2 then freeClusterChain p (getFirstCluster e) d else Some d);
          (status, e', d2) \<leftarrow> append_entry p (setClusterChain 0 (setFileSize 0 e)) data d1;
          if \<not> status then Some (False, e', d2)
          else do { (status', d3) \<leftarrow> flushEntry p e' d2; Some (status', e', d3) } }"

text \<open>\<open>writeAtOffset\<close>: the loop that grows the chain, and the loop that writes the clusters.\<close>

function offset_alloc ::
  "part \<Rightarrow> DirectoryEntry \<Rightarrow> u32 list \<Rightarrow> nat \<Rightarrow> vdisk \<Rightarrow> (bool \<times> DirectoryEntry \<times> u32 list \<times> vdisk) option" where
  "offset_alloc p e clusterChain clustersNeeded d =
     (if length clusterChain < clustersNeeded then
        case allocateCluster p d of
          None \<Rightarrow> None
        | Some (None, d1) \<Rightarrow> Some (False, e, clusterChain, d1)
        | Some (Some newCluster, d1) \<Rightarrow>
            if clusterChain = [] then
              let e' = setClusterChain newCluster e in
              case flushEntry p e' d1 of
                None \<Rightarrow> None
              | Some (status, d2) \<Rightarrow>
                  if \<not> status then do { d3 \<leftarrow> freeClusterChain p newCluster d2;
                                        Some (False, e', clusterChain, d3) }
                  else offset_alloc p e' (clusterChain @ [newCluster]) clustersNeeded d2
            else
              case setNextCluster p (last clusterChain) newCluster d1 of
                None \<Rightarrow> None
              | Some (status, d2) \<Rightarrow>
                  if \<not> status then do { d3 \<leftarrow> freeClusterChain p newCluster d2;
                                        Some (False, e, clusterChain, d3) }
                  else offset_alloc p e (clusterChain @ [newCluster]) clustersNeeded d2
      else Some (True, e, clusterChain, d))"
  by pat_completeness auto
termination
  by (relation "measure (\<lambda>(p, e, cs, n, d). n - length cs)") auto

fun offset_write ::
  "part \<Rightarrow> bytes \<Rightarrow> u32 \<Rightarrow> nat \<Rightarrow> u32 list \<Rightarrow> nat list \<Rightarrow> u32 \<Rightarrow> vdisk \<Rightarrow> (bool \<times> vdisk) option" where
  "offset_write p data offset startCluster clusterChain [] bytesWritten d = Some (True, d)"
| "offset_write p data offset startCluster clusterChain (clusterIdx # idxs) bytesWritten d =
     (if bytesWritten < of_nat (length data) then do {
        cluster \<leftarrow> rd_at clusterChain clusterIdx;
        let clusterOffset = (if clusterIdx = startCluster then offset mod clusterSizeBytes p else 0);
            remainingInCluster = clusterSizeBytes p - clusterOffset;
            remainingToWrite = of_nat (length data) - bytesWritten;
            chunkSize = min remainingInCluster remainingToWrite;
            needsReadModifyWrite = (clusterOffset > 0 \<or> chunkSize < clusterSizeBytes p)
        in do {
          clusterData \<leftarrow>
            (if needsReadModifyWrite then
               do { r \<leftarrow> readFile p d cluster (clusterSizeBytes p);
                    Some (r @ replicate (unat (clusterSizeBytes p) - length r) 0) }
             else Some (replicate (unat (clusterSizeBytes p)) 0));
          piece \<leftarrow> slice data (unat bytesWritten) (unat chunkSize);
          clusterData' \<leftarrow> blit clusterData (unat clusterOffset) piece;
          (status, d') \<leftarrow> writeCluster p cluster clusterData' d;
          if \<not> status then Some (False, d')
          else offset_write p data offset startCluster clusterChain idxs (bytesWritten + chunkSize) d' } }
      else Some (True, d))"

definition writeAtOffset ::
  "part \<Rightarrow> DirectoryEntry \<Rightarrow> bytes \<Rightarrow> u32 \<Rightarrow> vdisk \<Rightarrow> (bool \<times> DirectoryEntry \<times> vdisk) option" where
  "writeAtOffset p e data offset d =
     (if data = [] then Some (True, e, d)
      else let writeEnd = offset + of_nat (length data) in do {
        (filled, e1, d1) \<leftarrow>
          (if offset > e_fileSize e
           then append_entry p e (replicate (unat (offset - e_fileSize e)) 0) d
           else Some (True, e, d));
        if \<not> filled then Some (False, e1, d1)
        else if clusterSizeBytes p = 0 then None
        else let currentFileSize = e_fileSize e1;
                 startCluster = offset div clusterSizeBytes p;
                 endCluster = (writeEnd - 1) div clusterSizeBytes p;
                 clustersNeeded = endCluster + 1
        in do {
          clusterChain \<leftarrow> (if getFirstCluster e1 > 0 then readClusterChain p d1 (getFirstCluster e1)
                           else Some []);
          (grown, e2, clusterChain', d2) \<leftarrow> offset_alloc p e1 clusterChain (unat clustersNeeded) d1;
          if \<not> grown then Some (False, e2, d2)
          else do {
            (written, d3) \<leftarrow> offset_write p data offset (unat startCluster) clusterChain'
              [unat startCluster..<Suc (unat endCluster)] 0 d2;
            if \<not> written then Some (False, e2, d3)
            else if writeEnd > currentFileSize then
              let e3 = setFileSize writeEnd e2 in
              do { (status, d4) \<leftarrow> flushEntry p e3 d3; Some (status, e3, d4) }
            else Some (True, e2, d3) } } })"

declare append_loop.simps [simp del] offset_alloc.simps [simp del]

end
