(* ===== verification/Fat_Content.thy ===== *)
theory Fat_Content
  imports Fat_Create Fat_File
begin

text \<open>
  The content of a chain under the writers: \<open>same_tab\<close> (the table is as before), the effect of
  writing a whole chain back (\<open>rewrite_clusters\<close>, \<open>write_clusters\<close>) and of writing one entry
  (\<open>flushEntry\<close>).
\<close>

section \<open>Chains and their content\<close>

definition same_tab :: "part \<Rightarrow> vdisk \<Rightarrow> vdisk \<Rightarrow> bool" where
  "same_tab p d d' \<longleftrightarrow>
     disk_ok p d' \<and> (\<forall>b. b < countClusters p \<longrightarrow> fat_tab p d' b = fat_tab p d b)"

definition same_except :: "part \<Rightarrow> vdisk \<Rightarrow> vdisk \<Rightarrow> u32 set \<Rightarrow> bool" where
  "same_except p d d' C \<longleftrightarrow>
     (\<forall>b. data_cluster p b \<and> b \<notin> C \<longrightarrow> cluster_data p d' b = cluster_data p d b)"

lemma same_tab_refl: "disk_ok p d \<Longrightarrow> same_tab p d d"
  by (simp add: same_tab_def)

lemma same_tab_trans: "same_tab p a b \<Longrightarrow> same_tab p b c \<Longrightarrow> same_tab p a c"
  by (simp add: same_tab_def)

lemma same_tabD: "same_tab p d d' \<Longrightarrow> disk_ok p d'"
  by (simp add: same_tab_def)

lemma same_except_refl: "same_except p d d C"
  by (simp add: same_except_def)

lemma same_except_trans:
  "same_except p a b C \<Longrightarrow> same_except p b c D \<Longrightarrow> same_except p a c (C \<union> D)"
  by (simp add: same_except_def)

lemma same_except_mono: "same_except p a b C \<Longrightarrow> C \<subseteq> D \<Longrightarrow> same_except p a b D"
  by (auto simp: same_except_def)

lemma chain_cong:
  assumes "chain p t c cs" and "\<And>b. b \<in> set cs \<Longrightarrow> t' b = t b"
  shows "chain p t' c cs"
  using assms linked_cong [of cs t' t] by (simp add: chain_def)

lemma chain_same_tab: "same_tab p d d' \<Longrightarrow> chain p (fat_tab p d) c cs \<Longrightarrow> chain p (fat_tab p d') c cs"
  by (rule chain_cong) (auto simp: same_tab_def chain_def list_all_iff)

lemma data_upd_same: "data_upd p d d' c x \<Longrightarrow> same_tab p d d' \<and> same_except p d d' {c}"
  by (simp add: data_upd_def same_tab_def same_except_def)

lemma file_bytes_Cons: "file_bytes p d (c # cs) = cluster_data p d c @ file_bytes p d cs"
  by (simp add: file_bytes_def)

lemma file_bytes_append: "file_bytes p d (cs @ ds) = file_bytes p d cs @ file_bytes p d ds"
  by (simp add: file_bytes_def)

lemma file_bytes_same:
  assumes "same_except p d d' C" and "list_all (data_cluster p) cs" and "set cs \<inter> C = {}"
  shows "file_bytes p d' cs = file_bytes p d cs"
  using assms by (induction cs) (auto simp: file_bytes_def same_except_def)

lemma file_bytes_cluster:
  assumes "part_ok p" and "disk_ok p d"
  shows "list_all (data_cluster p) cs \<Longrightarrow> k < length cs \<Longrightarrow>
    take (csize p) (drop (k * csize p) (file_bytes p d cs)) = cluster_data p d (cs ! k)"
proof (induction cs arbitrary: k)
  case Nil
  then show ?case by simp
next
  case (Cons c cs)
  have len: "length (cluster_data p d c) = csize p"
    using Cons.prems by (intro length_cluster_data assms) simp
  show ?case
  proof (cases k)
    case 0
    then show ?thesis by (simp add: file_bytes_Cons len)
  next
    case (Suc j)
    with Cons show ?thesis by (simp add: file_bytes_Cons len)
  qed
qed

lemma readEntireFile_chain:
  assumes p: "part_ok p" and d: "disk_ok p d" and ch: "chain p (fat_tab p d) start cs"
    and len: "length cs \<le> MAX_CHAIN" and dc: "list_all (data_cluster p) cs"
    and sz: "csize p * length cs \<le> 0x7FFFFFFF"
  shows "readEntireFile p d start = Some (file_bytes p d cs)"
proof -
  have "start < countClusters p" using ch by (cases cs) (auto simp: chain_def)
  moreover have "readFile p d start 0x7FFFFFFF = Some (take (unat (0x7FFFFFFF :: u32)) (file_bytes p d cs))"
    by (rule readFile_chain [OF p d ch len dc]) simp
  moreover have "length (file_bytes p d cs) \<le> 0x7FFFFFFF"
    using sz by (simp add: length_file_bytes [OF p d dc])
  ultimately show ?thesis by (simp add: readEntireFile_def not_le)
qed

section \<open>Writing a chain\<close>

lemma rewrite_clusters_effect:
  assumes p: "part_ok p"
  shows "disk_ok p d \<Longrightarrow> list_all (data_cluster p) cs \<Longrightarrow> distinct cs \<Longrightarrow>
    length data = off + csize p * length cs \<Longrightarrow>
    \<exists>d'. rewrite_clusters p (csize p) cs off data d = Some (True, d') \<and> same_tab p d d' \<and>
      same_except p d d' (set cs) \<and> file_bytes p d' cs = drop off data"
proof (induction cs arbitrary: off d)
  case Nil
  then show ?case by (simp add: same_tab_refl same_except_refl file_bytes_def)
next
  case (Cons c cs)
  let ?x = "take (csize p) (drop off data)"
  have len: "length ?x = csize p" using Cons.prems(4) by simp
  obtain d1 where w: "writeCluster p c ?x d = Some (True, d1)" and u: "data_upd p d d1 c ?x"
    using writeCluster_effect [OF p Cons.prems(1) _ len] Cons.prems(2) by auto
  have d1: "disk_ok p d1" using u by (simp add: data_upd_def)
  obtain d' where r: "rewrite_clusters p (csize p) cs (off + csize p) data d1 = Some (True, d')"
    and t: "same_tab p d1 d'" and e: "same_except p d1 d' (set cs)"
    and b: "file_bytes p d' cs = drop (off + csize p) data"
    using Cons.IH [OF d1, of "off + csize p"] Cons.prems(2-4) by auto
  have "off < length data" using Cons.prems(4) part_ok_csize(2) [OF p] by simp
  then have "rewrite_clusters p (csize p) (c # cs) off data d = Some (True, d')"
    using w r len by (simp add: pad_cluster_def not_le)
  moreover have "same_tab p d d'" using data_upd_same [OF u] t by (blast intro: same_tab_trans)
  moreover have "same_except p d d' (set (c # cs))"
    using same_except_trans [OF _ e] data_upd_same [OF u] by (metis insert_is_Un list.simps(15))
  moreover have "cluster_data p d' c = ?x"
    using e u Cons.prems(2,3) by (simp add: same_except_def data_upd_def)
  then have "file_bytes p d' (c # cs) = drop off data"
    using b by (simp add: file_bytes_Cons) (metis add.commute append_take_drop_id drop_drop)
  ultimately show ?case by blast
qed

lemma write_clusters_rewrite:
  assumes "\<And>k. k < n \<Longrightarrow> k * csb < length data" and "n \<le> length cs" and "length data \<le> n * csb"
  shows "k \<le> n \<Longrightarrow>
    write_clusters p csb cs data [k..<n] d = rewrite_clusters p csb (drop k cs) (k * csb) data d"
proof (induction "n - k" arbitrary: k d)
  case 0
  then have "k = n" by simp
  then show ?case using assms(3) by (cases "drop k cs") simp_all
next
  case (Suc m)
  then have k: "k < n" by simp
  then have "drop k cs = cs ! k # drop (Suc k) cs" using assms(2) by (simp add: Cons_nth_drop_Suc)
  moreover have "[k..<n] = k # [Suc k..<n]" using k by (rule upt_conv_Cons)
  moreover have "write_clusters p csb cs data [Suc k..<n] d' =
      rewrite_clusters p csb (drop (Suc k) cs) (k * csb + csb) data d'" for d'
  proof -
    have "write_clusters p csb cs data [Suc k..<n] d' =
        rewrite_clusters p csb (drop (Suc k) cs) (Suc k * csb) data d'"
      using Suc.hyps(2) k by (intro Suc.hyps(1)) simp_all
    then show ?thesis by (simp add: add.commute)
  qed
  ultimately show ?case
    using assms(1) [OF k] assms(2) k
    by (simp add: rd_at_def not_le [symmetric] case_prod_unfold cong: if_cong)
qed

section \<open>Writing one entry\<close>

lemma div_mod_mult: "(a div 512 mod m) * 512 + a mod 512 = a mod (512 * m :: nat)"
  by (simp add: mod_mult2_eq)

lemma blit_concat:
  assumes "length xs = off" and "length ys = n" and "i + length w \<le> n"
  shows "blit (xs @ ys @ zs) (off + i) w = Some (xs @ (take i ys @ w @ drop (i + length w) ys) @ zs)"
  using assms by (simp add: blit_def)

lemma flushEntry_effect:
  assumes p: "part_ok p" and d: "disk_ok p d"
    and ch: "chain p (fat_tab p d) (e_directoryStartCluster e) dcs" and len: "length dcs \<le> MAX_CHAIN"
    and dc: "list_all (data_cluster p) dcs"
    and off: "unat (e_offset e) + 32 \<le> csize p * length dcs" "unat (e_offset e) mod 32 = 0"
    and dn: "getFatDentry e = Some dn" "length (d_shortName dn) = 11"
  shows "\<exists>d'. flushEntry p e d = Some (True, d') \<and> same_tab p d d' \<and> same_except p d d' (set dcs) \<and>
    blit (file_bytes p d dcs) (unat (e_offset e)) (dentry_bytes dn) = Some (file_bytes p d' dcs)"
proof -
  let ?o = "unat (e_offset e)" and ?n = "unat (clusterSize p)"
  note b = part_ok_bounds [OF p] and cs = part_ok_csize [OF p]
  define k where "k = ?o div csize p"
  define i where "i = ?o mod csize p"
  have ki: "?o = k * csize p + i" by (simp add: k_def i_def)
  have kl: "k < length dcs"
    using off(1) cs(2) by (simp add: k_def div_less_iff_less_mult mult.commute)
  have il: "i + 32 \<le> csize p"
  proof -
    have c32: "csize p = 32 * (16 * ?n)" by (simp add: csize_def)
    have "i mod 32 = 0"
      unfolding i_def c32 using off(2) by (simp add: mod_mod_cancel)
    moreover have "i < csize p" using cs(2) by (simp add: i_def)
    ultimately have "i = 32 * (i div 32)" "i div 32 < 16 * ?n"
      unfolding c32 by (auto simp: div_less_iff_less_mult)
    then show ?thesis unfolding c32 by linarith
  qed
  define c where "c = dcs ! k"
  have c: "data_cluster p c" using dc kl by (simp add: c_def list_all_length)
  have cid: "unat (e_offset e div ucast (sectorSize p) div ucast (clusterSize p)) = k"
    using b by (simp add: unat_div unats k_def csize_def div_mult2_eq)
  have ofs: "unat (e_offset e div ucast (sectorSize p) mod ucast (clusterSize p) * ucast (sectorSize p) +
      e_offset e mod ucast (sectorSize p)) = i"
  proof -
    have u1: "unat (e_offset e div ucast (sectorSize p) mod ucast (clusterSize p)) = ?o div 512 mod ?n"
      using b by (simp add: unat_div unat_mod unats)
    have u2: "unat (e_offset e mod ucast (sectorSize p)) = ?o mod 512"
      using b by (simp add: unat_mod unats)
    have lt: "?o div 512 mod ?n < 256" using b(2,3) by (meson mod_less_divisor less_trans)
    have u3: "unat (e_offset e div ucast (sectorSize p) mod ucast (clusterSize p) * ucast (sectorSize p)) =
        (?o div 512 mod ?n) * 512"
      using lt b(6) by (subst unat_mult_small) (simp_all add: u1 unats)
    have "(?o div 512 mod ?n) * 512 + ?o mod 512 < 4294967296"
      using lt mod_less_divisor [of 512 ?o] by linarith
    then show ?thesis
      by (subst unat_add_small) (simp_all add: u2 u3 div_mod_mult i_def csize_def)
  qed
  have lenc: "length (cluster_data p d c) = csize p" by (rule length_cluster_data [OF p d c])
  have lend: "length (dentry_bytes dn) = 32" using dn(2) by simp
  define x where "x = take i (cluster_data p d c) @ dentry_bytes dn @ drop (i + 32) (cluster_data p d c)"
  have x: "blit (cluster_data p d c) i (dentry_bytes dn) = Some x" "length x = csize p"
    using il by (simp_all add: blit_def lenc lend x_def)
  obtain d' where w: "writeCluster p c x d = Some (True, d')" and u: "data_upd p d d' c x"
    using writeCluster_effect [OF p d c x(2)] by blast
  have "flushEntry p e d = Some (True, d')"
  proof -
    have z: "sectorSize p \<noteq> 0" "clusterSize p \<noteq> 0" using b by (auto simp: unat_gt_0)
    have "writeSectors p (first_sector p c) [0..<?n] x d = Some (True, d')"
      using w x(2) by (simp add: writeCluster_def cs(1) data_clusterD(3) [OF p c])
    then show ?thesis
      using kl z x(1)
      by (simp add: flushEntry_def dn(1) Let_def cid ofs readClusterChain_chain [OF p d ch len]
          c_def [symmetric] data_clusterD(3) [OF p c] cs(1) readSectors_cluster [OF p d c])
  qed
  moreover have "same_tab p d d'" "same_except p d d' {c}" using data_upd_same [OF u] by blast+
  moreover have "c \<in> set dcs" using kl by (simp add: c_def)
  moreover have "blit (file_bytes p d dcs) ?o (dentry_bytes dn) = Some (file_bytes p d' dcs)"
  proof -
    have sp: "dcs = take k dcs @ c # drop (Suc k) dcs"
      using kl by (simp add: c_def id_take_nth_drop)
    have dist: "c \<notin> set (take k dcs)" "c \<notin> set (drop (Suc k) dcs)"
      using ch sp by (metis chain_def distinct_append disjoint_iff list.set_intros(1),
          metis chain_def distinct_append distinct.simps(2))
    have dcp: "list_all (data_cluster p) (take k dcs)" "list_all (data_cluster p) (drop (Suc k) dcs)"
      using dc by (auto simp: list_all_iff dest: in_set_takeD in_set_dropD)
    have fb: "file_bytes p d'' dcs =
        file_bytes p d'' (take k dcs) @ cluster_data p d'' c @ file_bytes p d'' (drop (Suc k) dcs)" for d''
      by (subst sp) (simp only: file_bytes_append file_bytes_Cons)
    have "file_bytes p d' (take k dcs) = file_bytes p d (take k dcs)"
      "file_bytes p d' (drop (Suc k) dcs) = file_bytes p d (drop (Suc k) dcs)"
      using dist dcp \<open>same_except p d d' {c}\<close> by (auto intro!: file_bytes_same)
    moreover have "cluster_data p d' c = x" using u c by (simp add: data_upd_def)
    moreover have "length (file_bytes p d (take k dcs)) = k * csize p"
      using kl by (simp add: length_file_bytes [OF p d dcp(1)])
    ultimately show ?thesis
      using il unfolding fb ki
      by (subst blit_concat [of _ _ _ "csize p"]) (simp_all add: lenc lend x_def)
  qed
  ultimately show ?thesis by (blast intro: same_except_mono)
qed

end
