(* ===== verification/Fat_Scan.thy ===== *)
theory Fat_Scan
  imports Fat_Content
begin

text \<open>
  A directory as a list of 32-byte slots. \<open>dir_scan\<close> is the reader of \<open>Fat_Dir\<close> on that list;
  the facts on reading long names back, on the slots a creation may use, on deletion and on
  the emptiness test are stated on it.
\<close>

section \<open>Slots\<close>

definition slots :: "bytes \<Rightarrow> bytes list" where
  "slots data = map (\<lambda>k. take 32 (drop (32 * k) data)) [0..<length data div 32]"

lemma length_slots [simp]: "length (slots data) = length data div 32"
  by (simp add: slots_def)

lemma slots_append:
  "length s = 32 \<Longrightarrow> slots (s @ data) = s # slots data"
proof -
  assume len: "length s = 32"
  have "[0..<length (s @ data) div 32] = 0 # map Suc [0..<length data div 32]"
  proof -
    have "length (s @ data) div 32 = Suc (length data div 32)" using len by simp
    then show ?thesis by (simp only: upt_conv_Cons map_Suc_upt zero_less_Suc)
  qed
  then show ?thesis by (simp add: slots_def len)
qed

lemma slots_concat: "list_all (\<lambda>s. length s = 32) ss \<Longrightarrow> slots (concat ss) = ss"
  by (induction ss) (simp_all add: slots_append, simp add: slots_def)

lemma concat_slots: "length data = 32 * n \<Longrightarrow> concat (slots data) = data"
proof (induction n arbitrary: data)
  case 0
  then show ?case by (simp add: slots_def)
next
  case (Suc n)
  then have "data = take 32 data @ drop 32 data" and len: "length (take 32 data) = 32" by simp_all
  then have "slots data = take 32 data # slots (drop 32 data)" using slots_append by metis
  with Suc show ?case by simp
qed

lemma slots_length: "list_all (\<lambda>s. length s = 32) (slots data)"
proof -
  have "32 * k + 32 \<le> length data" if "k < length data div 32" for k
    using that by (simp add: less_eq_div_iff_mult_less_eq Suc_le_eq [symmetric] mult.commute)
  then show ?thesis by (auto simp: slots_def list_all_iff)
qed

section \<open>The reader on slots\<close>

type_synonym scan_state = "lfn_parts \<times> u8 \<times> DirectoryEntry list"

definition short_checksum :: "bytes \<Rightarrow> u8" where
  "short_checksum s = checksum_loop (take 11 s) 0"

fun scan_step :: "u32 \<Rightarrow> nat \<Rightarrow> bytes \<Rightarrow> scan_state \<Rightarrow> scan_state" where
  "scan_step dc i s (parts, ck, es) =
     (if s ! 0 = 0xE5 then ([], 0, es)
      else if s ! 11 AND 0x3F = 0x0F then ((s ! 0 AND 0x1F, lfn_part s) # parts, s ! 13, es)
      else ([], if parts \<noteq> [] then 0 else ck,
            es @ [mkDirectoryEntry (of_nat i) dc
                    (if parts \<noteq> [] \<and> ck = short_checksum s then join_lfn parts else [])
                    (dentry_of_bytes s)]))"

fun dir_scan :: "u32 \<Rightarrow> nat \<Rightarrow> bytes list \<Rightarrow> scan_state \<Rightarrow> scan_state" where
  "dir_scan dc i [] st = st"
| "dir_scan dc i (s # ss) st = (if s ! 0 = 0x00 then st else dir_scan dc (i + 32) ss (scan_step dc i s st))"

definition listing :: "u32 \<Rightarrow> bytes list \<Rightarrow> DirectoryEntry list" where
  "listing dc ss = snd (snd (dir_scan dc 0 ss ([], 0, [])))"

lemma dir_loop_scan:
  "length data = 32 * n \<Longrightarrow> k \<le> n \<Longrightarrow>
   dir_loop dc data (32 * k) parts ck es =
     Some (snd (snd (dir_scan dc (32 * k) (slots (drop (32 * k) data)) (parts, ck, es))))"
proof (induction "n - k" arbitrary: k parts ck es)
  case 0
  then show ?case by (simp add: dir_loop.simps slots_def)
next
  case (Suc m)
  then have k: "32 * k + 32 \<le> length data" by simp
  define s where "s = take 32 (drop (32 * k) data)"
  have ls: "length s = 32" using k by (simp add: s_def)
  have sp: "drop (32 * k) data = s @ drop (32 * Suc k) data"
    by (simp add: s_def) (metis add.commute append_take_drop_id drop_drop)
  have sl: "slots (drop (32 * k) data) = s # slots (drop (32 * Suc k) data)"
    unfolding sp by (rule slots_append [OF ls])
  have s0: "data ! (32 * k) = s ! 0" using k by (simp add: s_def)
  have slice: "slice data (32 * k) 32 = Some s" using k by (simp add: slice_def s_def)
  have ck': "calculateShortNameChecksum (d_shortName (dentry_of_bytes s)) = Some (short_checksum s)"
    using ls by (simp add: calculateShortNameChecksum_def dentry_of_bytes_def slice_def short_checksum_def)
  have IH: "dir_loop dc data (32 * Suc k) parts' ck' es' =
      Some (snd (snd (dir_scan dc (32 * Suc k) (slots (drop (32 * Suc k) data)) (parts', ck', es'))))"
    for parts' ck' es'
    using Suc.hyps(2) Suc.prems by (intro Suc.hyps(1)) simp_all
  have nx: "32 * k + 32 = 32 * Suc k" by simp
  show ?case
    using k unfolding sl
    by (subst dir_loop.simps)
      (simp only: dir_scan.simps scan_step.simps s0 slice ck' nx IH Let_def option.case if_distrib
        [of Some] snd_conv, simp)
qed

lemma dir_loop_listing:
  "length data = 32 * n \<Longrightarrow> dir_loop dc data 0 [] 0 [] = Some (listing dc (slots data))"
  using dir_loop_scan [of data n 0 dc "[]" 0 "[]"] by (simp add: listing_def)

lemma dir_scan_append:
  "list_all (\<lambda>s. s ! 0 \<noteq> 0x00) xs \<Longrightarrow>
   dir_scan dc i (xs @ ys) st = dir_scan dc (i + 32 * length xs) ys (dir_scan dc i xs st)"
  by (induction xs arbitrary: i st) (simp_all add: add.assoc)

text \<open>The entries found so far are kept.\<close>

lemma dir_scan_entries:
  "\<exists>p' c' fs. dir_scan dc i ss (parts, ck, es) = (p', c', es @ fs) \<and>
     (\<forall>es2. \<exists>p2 c2. dir_scan dc i ss (parts, ck, es2) = (p2, c2, es2 @ fs))"
proof (induction ss arbitrary: i parts ck es)
  case Nil
  then show ?case by simp
next
  case (Cons s ss)
  show ?case
  proof (cases "s ! 0 = 0x00")
    case True
    then show ?thesis by simp
  next
    case False
    define st where "st = scan_step dc i s"
    obtain q c gs where st: "\<And>es. scan_step dc i s (parts, ck, es) = (q, c, es @ gs)"
      by (cases "s ! 0 = 0xE5"; cases "s ! 11 AND 0x3F = 0x0F") simp_all
    obtain p' c' fs where r: "dir_scan dc (i + 32) ss (q, c, es @ gs) = (p', c', (es @ gs) @ fs)"
      and all: "\<And>es2. \<exists>p2 c2. dir_scan dc (i + 32) ss (q, c, es2) = (p2, c2, es2 @ fs)"
      using Cons.IH [of "i + 32" q c "es @ gs"] by blast
    have "\<exists>p2 c2. dir_scan dc i (s # ss) (parts, ck, es2) = (p2, c2, es2 @ gs @ fs)" for es2
      using all [of "es2 @ gs"] False by (simp add: st del: scan_step.simps)
    moreover have "dir_scan dc i (s # ss) (parts, ck, es) = (p', c', es @ gs @ fs)"
      using r False by (simp add: st del: scan_step.simps)
    ultimately show ?thesis by blast
  qed
qed

section \<open>Long names\<close>

lemma seq_byte:
  assumes "1 \<le> k" and "k \<le> 31"
  shows "(of_nat k :: u8) \<noteq> 0" "(of_nat k :: u8) \<noteq> 0xE5"
    "(of_nat k :: u8) OR 0x40 \<noteq> 0" "(of_nat k :: u8) OR 0x40 \<noteq> 0xE5"
proof -
  have u: "unat (of_nat k :: u8) = k" using assms by (simp add: unat_of_nat)
  show nz: "(of_nat k :: u8) \<noteq> 0" using u assms(1) by auto
  show "(of_nat k :: u8) \<noteq> 0xE5" using u assms(2) by auto
  have "((of_nat k :: u8) OR 0x40) AND 0x1F \<noteq> 0" using nz seq_order(1) [OF assms(2)] by simp
  then show "(of_nat k :: u8) OR 0x40 \<noteq> 0" by auto
  show "(of_nat k :: u8) OR 0x40 \<noteq> 0xE5"
  proof
    assume e: "(of_nat k :: u8) OR 0x40 = 0xE5"
    have "bit (of_nat k :: u8) 7" using arg_cong [OF e, of "\<lambda>w. bit w 7"] by (simp add: bit_simps)
    then have "bit (unat (of_nat k :: u8)) 7" by (simp add: bit_unsigned_iff)
    then show False using assms(2) unfolding u by (simp add: bit_iff_odd)
  qed
qed

lemma scan_lfns:
  assumes us: "0 \<notin> set us" "0xFFFF \<notin> set us" and m: "m = (length us + 12) div 13" "m \<le> 31"
  shows "k \<le> m \<Longrightarrow>
    dir_scan dc i (map (lfn_entry us m ck) [0..<k] @ ys) (parts, c, es) =
    dir_scan dc (i + 32 * k) ys
      (map (\<lambda>j. (of_nat (m - j), take 13 (drop ((m - 1 - j) * 13) us))) (rev [0..<k]) @ parts,
       if k = 0 then c else ck, es)"
proof (induction k arbitrary: ys)
  case 0
  then show ?case by simp
next
  case (Suc k)
  let ?s = "lfn_entry us m ck k"
  have km: "1 \<le> m - k" "m - k \<le> 31" using Suc.prems m(2) by simp_all
  have len: "(m - 1 - k) * 13 \<le> length us" using m(1) by simp
  have nz: "?s ! 0 \<noteq> 0" "?s ! 0 \<noteq> 0xE5" using seq_byte [OF km] by (auto simp: lfn_entry_header)
  have ord: "?s ! 0 AND 0x1F = of_nat (m - k)" using seq_order [OF km(2)] by (auto simp: lfn_entry_header)
  have "dir_scan dc i (map (lfn_entry us m ck) [0..<Suc k] @ ys) (parts, c, es) =
      dir_scan dc i (map (lfn_entry us m ck) [0..<k] @ ?s # ys) (parts, c, es)" by simp
  also have "\<dots> = dir_scan dc (i + 32 * k) (?s # ys)
      (map (\<lambda>j. (of_nat (m - j), take 13 (drop ((m - 1 - j) * 13) us))) (rev [0..<k]) @ parts,
       if k = 0 then c else ck, es)"
    using Suc.prems by (intro Suc.IH) simp
  also have "\<dots> = dir_scan dc (i + 32 * Suc k) ys
      (map (\<lambda>j. (of_nat (m - j), take 13 (drop ((m - 1 - j) * 13) us))) (rev [0..<Suc k]) @ parts,
       if Suc k = 0 then c else ck, es)"
    using nz lfn_part_entry [OF us len, of ck]
    by (simp add: ord lfn_entry_header(2,3) add.assoc add.commute [of 32])
  finally show ?case .
qed

lemma join_lfn_chunks:
  assumes m: "m = (length us + 12) div 13" "m \<le> 31"
  shows "join_lfn (map (\<lambda>j. (of_nat (m - j), take 13 (drop ((m - 1 - j) * 13) us))) (rev [0..<m])) =
    utf16le_to_utf8 us"
proof -
  have rv: "map f (rev [0..<m]) = map (\<lambda>j. f (m - 1 - j)) [0..<m]" for f :: "nat \<Rightarrow> 'z"
    by (rule nth_equalityI) (simp_all add: rev_nth)
  have e: "map (\<lambda>j. (of_nat (m - j) :: u8, take 13 (drop ((m - 1 - j) * 13) us))) (rev [0..<m]) =
      map (\<lambda>j. (of_nat (Suc j), take 13 (drop (j * 13) us))) [0..<m]"
    unfolding rv by (rule map_cong) auto
  have "sorted (map fst (map (\<lambda>j. (of_nat (Suc j) :: u8, take 13 (drop (j * 13) us))) [0..<m]))"
    using m(2) by (simp add: sorted_iff_nth_mono word_le_nat_alt unat_of_nat del: of_nat_Suc)
  then have "join_lfn (map (\<lambda>j. (of_nat (Suc j), take 13 (drop (j * 13) us))) [0..<m]) =
      utf16le_to_utf8 (concat (map (\<lambda>j. take 13 (drop (j * 13) us)) [0..<m]))"
    by (simp add: join_lfn_def sort_key_id_if_sorted comp_def del: of_nat_Suc)
  also have "concat (map (\<lambda>j. take 13 (drop (j * 13) us)) [0..<m]) = us"
    using m(1) by (intro concat_chunks) simp
  finally show ?thesis unfolding e .
qed

text \<open>A long name written by \<open>createLFNEntries\<close> is what the reader gives the entry behind it.\<close>

definition regular :: "bytes \<Rightarrow> bool" where
  "regular s \<longleftrightarrow> s ! 0 \<noteq> 0x00 \<and> s ! 0 \<noteq> 0xE5 \<and> s ! 11 AND 0x3F \<noteq> 0x0F"

lemma scan_long_entry:
  assumes name: "lfn_utf16 name = Some us" "utf16le_to_utf8 us = name" "name \<noteq> []"
    and us: "0 \<notin> set us" "0xFFFF \<notin> set us" "length us \<le> 403"
    and lfn: "createLFNEntries name (short_checksum s) = Some lfns" and s: "regular s"
  shows "dir_scan dc i (lfns @ s # ys) ([], c, es) =
    dir_scan dc (i + 32 * length lfns + 32) ys
      ([], 0, es @ [mkDirectoryEntry (of_nat (i + 32 * length lfns)) dc name (dentry_of_bytes s)])"
proof -
  define m where "m = (length us + 12) div 13"
  have us0: "us \<noteq> []" using name by (auto simp: utf16le_to_utf8_def)
  have m1: "m \<le> 31" "0 < m" using us(3) us0 by (simp_all add: m_def div_greater_zero_iff Suc_le_eq)
  have lfns: "lfns = map (lfn_entry us m (short_checksum s)) [0..<m]"
    using lfn name(1) by (simp add: createLFNEntries_def m_def Let_def)
  define parts where
    "parts = map (\<lambda>j. (of_nat (m - j) :: u8, take 13 (drop ((m - 1 - j) * 13) us))) (rev [0..<m])"
  have pn: "parts \<noteq> []" using m1(2) by (simp add: parts_def)
  have jn: "join_lfn parts = name"
    unfolding parts_def using join_lfn_chunks [OF m_def m1(1)] name(2) by simp
  have "dir_scan dc i (lfns @ s # ys) ([], c, es) =
      dir_scan dc (i + 32 * m) (s # ys) (parts, short_checksum s, es)"
    unfolding lfns using scan_lfns [OF us(1,2) m_def m1(1), of m dc i "short_checksum s" "s # ys" "[]" c es] m1(2)
    by (simp add: parts_def)
  then show ?thesis
    using s pn jn by (simp add: regular_def lfns)
qed

end
