(* ===== verification/Fat_Append.thy ===== *)
theory Fat_Append
  imports Fat_Content
begin

text \<open>
  Appending to a file and reading it back. \<open>file_ok\<close> says which chain an entry owns,
  \<open>entry_ok\<close> that the entry's own slot lies in a directory chain. The main result is
  \<open>append_entry_spec\<close>: with room on the volume, appending succeeds and the file then holds its
  old bytes followed by the new ones.
\<close>

section \<open>Chains that grow\<close>

definition free_set :: "part \<Rightarrow> (u32 \<Rightarrow> u32) \<Rightarrow> u32 set" where
  "free_set p t = {b. data_cluster p b \<and> t b = 0}"

lemma linked_nonzero: "linked t cs \<Longrightarrow> list_all (\<lambda>c. 2 \<le> c) cs \<Longrightarrow> b \<in> set cs \<Longrightarrow> t b \<noteq> 0"
  by (induction t cs rule: linked.induct) auto

lemma chain_nonzero: "chain p t c cs \<Longrightarrow> b \<in> set cs \<Longrightarrow> t b \<noteq> 0"
  using linked_nonzero [of t cs b] by (auto simp: chain_def list_all_iff)

lemma linked_snoc:
  "cs \<noteq> [] \<Longrightarrow> linked t cs \<Longrightarrow> distinct cs \<Longrightarrow> n \<notin> set cs \<Longrightarrow>
   (\<And>b. b \<in> set (butlast cs) \<Longrightarrow> t' b = t b) \<Longrightarrow> t' (last cs) = n \<Longrightarrow> 0x0FFFFFF8 \<le> t' n \<Longrightarrow>
   linked t' (cs @ [n])"
  by (induction t cs rule: linked.induct) auto

lemma chain_snoc:
  assumes ch: "chain p t c cs" and n: "n \<notin> set cs" "2 \<le> n" "n < countClusters p"
    and t': "\<And>b. b < countClusters p \<Longrightarrow> t' b = (if b = last cs then n else if b = n then v else t b)"
    and v: "0x0FFFFFF8 \<le> v"
  shows "chain p t' c (cs @ [n])"
proof -
  have ne: "cs \<noteq> []" and dist: "distinct cs" and lt: "\<And>b. b \<in> set cs \<Longrightarrow> b < countClusters p"
    using ch by (auto simp: chain_def list_all_iff)
  have l: "last cs \<in> set cs" using ne by simp
  have bl: "b \<noteq> last cs" if "b \<in> set (butlast cs)" for b
    using that ne dist by (metis append_butlast_last_id distinct_append disjoint_iff list.set_intros(1))
  have tb: "t' b = t b" if "b \<in> set (butlast cs)" for b
    using bl [OF that] that n(1) t' lt by (metis in_set_butlastD)
  have "linked t' (cs @ [n])"
    using ch ne dist n l lt t' v tb
    by (intro linked_snoc [of cs t]) (auto simp: chain_def dest: in_set_butlastD)
  with ch ne dist n show ?thesis by (auto simp: chain_def)
qed

lemma and_mask_small: "v \<le> 0x0FFFFFFF \<Longrightarrow> v AND 0x0FFFFFFF = (v :: u32)"
proof -
  assume "v \<le> 0x0FFFFFFF"
  then have "unat v < 2 ^ 28" by (simp add: u32_le_iff)
  then have "take_bit 28 v = v"
    by (simp add: word_unat_eq_iff unsigned_take_bit_eq take_bit_nat_eq_self)
  moreover have m: "(0x0FFFFFFF :: u32) = mask 28" by (simp add: mask_eq_exp_minus_1)
  ultimately show ?thesis unfolding m by (simp only: take_bit_eq_mask)
qed

lemma allocateCluster_found:
  assumes "part_ok p" and "disk_ok p d" and "b \<in> free_set p (fat_tab p d)"
  obtains c d' where "allocateCluster p d = Some (Some c, d')" "c \<in> free_set p (fat_tab p d)"
    "tab_upd p d d' c 0x0FFFFFFF" "c \<le> b"
  using allocateCluster_cases [OF assms(1,2)] assms(3)
  by (fastforce simp: free_set_def data_cluster_def not_less [symmetric])

lemma tab_upd_same_except:
  assumes "part_ok p" and "tab_upd p d d' c v"
  shows "same_except p d d' {}"
  using same_data_cluster [OF assms(1) tab_updD(2) [OF assms(2)]] by (simp add: same_except_def)

lemma chain_tab_upd:
  assumes "tab_upd p d d' c v" and "chain p (fat_tab p d) s cs" and "c \<notin> set cs"
  shows "chain p (fat_tab p d') s cs"
  using assms by (intro chain_cong [OF assms(2)]) (auto simp: tab_upd_def chain_def list_all_iff)

lemma readClusterChain_0: "part_ok p \<Longrightarrow> readClusterChain p d 0 = Some []"
proof -
  assume p: "part_ok p"
  obtain n where n: "MAX_CHAIN = Suc n" by (simp add: MAX_CHAIN_def numeral_eq_Suc [of "num.One"])
  have "(0 :: u32) < countClusters p"
    using p by (auto simp: part_ok_def u32_less_iff u32_le_iff)
  then show ?thesis by (simp add: readClusterChain_def n rcc_loop.simps(2) not_le)
qed

section \<open>Files and entries\<close>

definition file_ok :: "part \<Rightarrow> vdisk \<Rightarrow> DirectoryEntry \<Rightarrow> u32 list \<Rightarrow> bool" where
  "file_ok p d e cs \<longleftrightarrow>
     list_all (data_cluster p) cs \<and>
     (if cs = [] then getFirstCluster e = 0 else chain p (fat_tab p d) (getFirstCluster e) cs)"

definition entry_ok :: "part \<Rightarrow> vdisk \<Rightarrow> DirectoryEntry \<Rightarrow> u32 list \<Rightarrow> bool" where
  "entry_ok p d e dcs \<longleftrightarrow>
     chain p (fat_tab p d) (e_directoryStartCluster e) dcs \<and> length dcs \<le> MAX_CHAIN \<and>
     list_all (data_cluster p) dcs \<and> unat (e_offset e) + 32 \<le> csize p * length dcs \<and>
     unat (e_offset e) mod 32 = 0 \<and> 10 \<le> length (e_shortName e)"

lemma getFatDentry_some:
  assumes "10 \<le> length (e_shortName e)"
  shows "\<exists>dn. getFatDentry e = Some dn \<and> length (d_shortName dn) = 11"
  using assms by (simp add: getFatDentry_def slice_def rep_def)

lemma flushEntry_ok:
  assumes p: "part_ok p" and d: "disk_ok p d" and e: "entry_ok p d e dcs"
  shows "\<exists>d'. flushEntry p e d = Some (True, d') \<and> same_tab p d d' \<and> same_except p d d' (set dcs)"
proof -
  obtain dn where "getFatDentry e = Some dn" "length (d_shortName dn) = 11"
    using getFatDentry_some e by (auto simp: entry_ok_def)
  with e show ?thesis
    using flushEntry_effect [OF p d, of e dcs dn] by (auto simp: entry_ok_def)
qed

definition same_entry :: "DirectoryEntry \<Rightarrow> DirectoryEntry \<Rightarrow> bool" where
  "same_entry e e' \<longleftrightarrow> e' = e\<lparr>e_clusterChain := e_clusterChain e'\<rparr>"

lemma same_entryD:
  assumes "same_entry e e'"
  shows "e_offset e' = e_offset e" "e_directoryStartCluster e' = e_directoryStartCluster e"
    "e_shortName e' = e_shortName e" "e_fileSize e' = e_fileSize e"
  using assms unfolding same_entry_def
  by (metis DirectoryEntry.ext_inject DirectoryEntry.surjective DirectoryEntry.update_convs(13))+

lemma same_entry_refl [simp]: "same_entry e e"
  by (simp add: same_entry_def)

lemma same_entry_set [simp]: "same_entry e (setClusterChain c e)"
  by (simp add: same_entry_def setClusterChain_def)

lemma same_entry_trans: "same_entry a b \<Longrightarrow> same_entry b c \<Longrightarrow> same_entry a c"
  unfolding same_entry_def by (metis DirectoryEntry.update_convs(13) DirectoryEntry.surjective)

lemma entry_ok_same_entry: "same_entry e e' \<Longrightarrow> entry_ok p d e' dcs = entry_ok p d e dcs"
  by (simp add: entry_ok_def same_entryD)

lemma entry_ok_same_tab: "same_tab p d d' \<Longrightarrow> entry_ok p d e dcs \<Longrightarrow> entry_ok p d' e dcs"
  using chain_same_tab by (auto simp: entry_ok_def)

lemma entry_ok_tab_upd:
  "tab_upd p d d' c v \<Longrightarrow> c \<notin> set dcs \<Longrightarrow> entry_ok p d e dcs \<Longrightarrow> entry_ok p d' e dcs"
  using chain_tab_upd by (auto simp: entry_ok_def)

lemma free_not_in_chain:
  "c \<in> free_set p t \<Longrightarrow> chain p t s cs \<Longrightarrow> c \<notin> set cs"
  using chain_nonzero by (auto simp: free_set_def)

section \<open>Linking a new cluster\<close>

lemma append_link_effect:
  assumes p: "part_ok p" and d: "disk_ok p d" and f: "file_ok p d e cs" and en: "entry_ok p d e dcs"
    and dj: "set cs \<inter> set dcs = {}" and lc: "lc = (if cs = [] then 0 else last cs)"
    and n: "data_cluster p n" "fat_tab p d n = 0x0FFFFFFF" "n \<notin> set cs" "n \<notin> set dcs"
    and small: "cs = [] \<Longrightarrow> unat n < 65536"
  shows "\<exists>e' d'. append_link p e lc n d = Some (True, e', d') \<and> same_entry e e' \<and> disk_ok p d' \<and>
    file_ok p d' e' (cs @ [n]) \<and> entry_ok p d' e' dcs \<and> same_except p d d' (set dcs) \<and>
    (\<forall>b. b < countClusters p \<and> b \<notin> set cs \<longrightarrow> fat_tab p d' b = fat_tab p d b)"
proof (cases "cs = []")
  case True
  let ?e = "setClusterChain n e"
  have e0: "getFirstCluster e = 0" using f True by (simp add: file_ok_def)
  have en': "entry_ok p d ?e dcs" using entry_ok_same_entry [OF same_entry_set] en by blast
  obtain d' where fl: "flushEntry p ?e d = Some (True, d')" and t: "same_tab p d d'"
    and x: "same_except p d d' (set dcs)"
    using flushEntry_ok [OF p d en'] by blast
  have n2: "2 \<le> n" "n < countClusters p" using data_clusterD [OF p n(1)] by blast+
  have "chain p (fat_tab p d) n [n]" using n(2) n2 by (simp add: chain_def)
  then have "file_ok p d' ?e ([] @ [n])"
    using chain_same_tab [OF t] n(1) small True
    by (simp add: file_ok_def getFirstCluster_set_small)
  moreover have "entry_ok p d' ?e dcs" using entry_ok_same_tab [OF t en'] .
  ultimately show ?thesis
    using True lc e0 fl t x by (auto simp: append_link_def same_tab_def)
next
  case False
  have ch: "chain p (fat_tab p d) (getFirstCluster e) cs" and cl: "list_all (data_cluster p) cs"
    using f False by (simp_all add: file_ok_def)
  have lm: "last cs \<in> set cs" using False by simp
  have "data_cluster p (last cs)" using cl lm by (simp add: list_all_iff)
  then have l: "2 \<le> last cs" "last cs < countClusters p" using data_clusterD [OF p] by blast+
  then have l0: "last cs \<noteq> 0" by auto
  have n2: "2 \<le> n" "n < countClusters p" using data_clusterD [OF p n(1)] by blast+
  have nm: "n AND 0x0FFFFFFF = n"
    using part_ok_cluster_small [OF p n2(2)] by (intro and_mask_small) (auto simp: u32_less_iff u32_le_iff)
  obtain d' where s: "setNextCluster p (last cs) n d = Some (True, d')" and u: "tab_upd p d d' (last cs) n"
    using setNextCluster_tab_upd [OF p d l(1,2), of n] by (auto simp: nm)
  have "chain p (fat_tab p d') (getFirstCluster e) (cs @ [n])"
    by (rule chain_snoc [OF ch n(3) n2, of _ "fat_tab p d n"]) (use u n(2) in \<open>auto simp: tab_upd_def\<close>)
  then have "file_ok p d' e (cs @ [n])" using cl n(1) by (simp add: file_ok_def)
  moreover have "entry_ok p d' e dcs"
    using entry_ok_tab_upd [OF u _ en] lm dj by blast
  moreover have "same_except p d d' (set dcs)"
    using tab_upd_same_except [OF p u] by (rule same_except_mono) simp
  moreover have "\<forall>b. b < countClusters p \<and> b \<notin> set cs \<longrightarrow> fat_tab p d' b = fat_tab p d b"
    using u lm by (auto simp: tab_upd_def)
  ultimately show ?thesis
    using False lc l0 s u by (auto simp: append_link_def tab_upd_def)
qed

section \<open>The loop\<close>

lemma free_set_finite: "finite (free_set p t)"
  by simp

definition room :: "part \<Rightarrow> vdisk \<Rightarrow> nat" where
  "room p d = csize p * card (free_set p (fat_tab p d))"

lemma append_loop_spec:
  assumes p: "part_ok p" and len: "length data < 4294967296"
  shows "disk_ok p d \<Longrightarrow> file_ok p d e cs \<Longrightarrow> entry_ok p d e dcs \<Longrightarrow> set cs \<inter> set dcs = {} \<Longrightarrow>
    lc = (if cs = [] then 0 else last cs) \<Longrightarrow> unat wp + unat rem = length data \<Longrightarrow>
    unat rem \<le> room p d \<Longrightarrow>
    (cs = [] \<Longrightarrow> 0 < rem \<Longrightarrow> \<exists>b \<in> free_set p (fat_tab p d). unat b < 65536) \<Longrightarrow>
    \<exists>e' d' cs' k. append_loop p data e lc rem wp d = Some (True, e', d') \<and> same_entry e e' \<and>
      disk_ok p d' \<and> file_ok p d' e' (cs @ cs') \<and> entry_ok p d' e' dcs \<and>
      set (cs @ cs') \<inter> set dcs = {} \<and> csize p * length cs' < unat rem + csize p \<and>
      file_bytes p d' (cs @ cs') = file_bytes p d cs @ drop (unat wp) data @ replicate k 0"
proof (induction "unat rem" arbitrary: d e cs lc rem wp rule: less_induct)
  case less
  note cz = part_ok_csize [OF p]
  show ?case
  proof (cases "0 < rem")
    case False
    then have "rem = 0" by (simp add: word_gt_0)
    then have "append_loop p data e lc rem wp d = Some (True, e, d)" and "drop (unat wp) data = []"
      using less.prems(6) by (simp_all add: append_loop.simps)
    with less.prems cz(2) show ?thesis
      by (intro exI [of _ e] exI [of _ d] exI [of _ "[]"] exI [of _ 0]) simp
  next
    case True
    then have rem0: "0 < unat rem" by (simp add: u32_less_iff)
    have "free_set p (fat_tab p d) \<noteq> {}"
      using less.prems(7) rem0 by (auto simp: room_def)
    then obtain b where b: "b \<in> free_set p (fat_tab p d)" "cs = [] \<Longrightarrow> unat b < 65536"
      using less.prems(8) True by (metis ex_in_conv)
    obtain n d1 where al: "allocateCluster p d = Some (Some n, d1)" and nf: "n \<in> free_set p (fat_tab p d)"
      and u: "tab_upd p d d1 n 0x0FFFFFFF" and nb: "n \<le> b"
      using allocateCluster_found [OF p less.prems(1) b(1)] by metis
    have n: "data_cluster p n" "n < countClusters p" using nf by (auto simp: free_set_def data_cluster_def)
    have ncs: "n \<notin> set cs"
      using less.prems(2) free_not_in_chain [OF nf] by (cases "cs = []") (auto simp: file_ok_def)
    have ndcs: "n \<notin> set dcs" using less.prems(3) free_not_in_chain [OF nf] by (auto simp: entry_ok_def)
    have d1: "disk_ok p d1" using u by (simp add: tab_upd_def)
    have f1: "file_ok p d1 e cs"
      using less.prems(2) chain_tab_upd [OF u _ ncs] by (auto simp: file_ok_def)
    have en1: "entry_ok p d1 e dcs" by (rule entry_ok_tab_upd [OF u ndcs less.prems(3)])
    have tn: "fat_tab p d1 n = 0x0FFFFFFF" using u n by (simp add: tab_upd_def)
    have small: "unat n < 65536" if "cs = []" using nb b(2) that by (simp add: u32_le_iff)
    obtain e2 d2 where lk: "append_link p e lc n d1 = Some (True, e2, d2)" and se: "same_entry e e2"
      and d2: "disk_ok p d2" and f2: "file_ok p d2 e2 (cs @ [n])" and en2: "entry_ok p d2 e2 dcs"
      and x2: "same_except p d1 d2 (set dcs)"
      and t2: "\<And>b. b < countClusters p \<Longrightarrow> b \<notin> set cs \<Longrightarrow> fat_tab p d2 b = fat_tab p d1 b"
      using append_link_effect [OF p d1 f1 en1 less.prems(4,5) n(1) tn ncs ndcs small] by blast
    define m where "m = min (clusterSizeBytes p) rem"
    have um: "unat m = min (csize p) (unat rem)" by (auto simp: m_def min_def u32_le_iff cz(1))
    have pl: "slice data (unat wp) (unat m) = Some (take (unat m) (drop (unat wp) data))"
      using less.prems(6) um by (simp add: slice_def)
    define piece where "piece = take (unat m) (drop (unat wp) data)"
    have lp: "length piece = unat m" using less.prems(6) um by (simp add: piece_def)
    define x where "x = piece @ replicate (csize p - unat m) 0"
    have lx: "length x = csize p" using lp um by (simp add: x_def)
    obtain d3 where w: "writeCluster p n x d2 = Some (True, d3)" and dw: "data_upd p d2 d3 n x"
      using writeCluster_effect [OF p d2 n(1) lx] by blast
    have t3: "same_tab p d2 d3" and x3: "same_except p d2 d3 {n}" using data_upd_same [OF dw] by blast+
    have d3: "disk_ok p d3" using t3 by (rule same_tabD)
    have f3: "file_ok p d3 e2 (cs @ [n])"
      using f2 chain_same_tab [OF t3] by (simp add: file_ok_def)
    have en3: "entry_ok p d3 e2 dcs" using entry_ok_same_tab [OF t3 en2] .
    have step: "append_loop p data e lc rem wp d = append_loop p data e2 n (rem - m) (wp + m) d3"
      using True al lk pl w lp cz(1,2)
      by (subst append_loop.simps)
        (auto simp: Let_def m_def [symmetric] piece_def [symmetric] x_def)
    have um2: "unat m \<le> unat rem" "0 < unat m" using um rem0 cz(2) by simp_all
    have ur: "unat (rem - m) = unat rem - unat m" using um2 by (simp add: unat_sub_le u32_le_iff)
    have uw: "unat (wp + m) = unat wp + unat m"
      using less.prems(6) um2 len by (intro unat_add_small) simp
    have room3: "unat (rem - m) \<le> room p d3"
    proof (cases "csize p \<le> unat rem")
      case False
      then show ?thesis by (simp add: ur um)
    next
      case big: True
      have "free_set p (fat_tab p d) - {n} \<subseteq> free_set p (fat_tab p d3)"
      proof
        fix b
        assume b: "b \<in> free_set p (fat_tab p d) - {n}"
        then have bl: "b < countClusters p" by (auto simp: free_set_def data_cluster_def)
        have "b \<notin> set cs"
          using b less.prems(2) free_not_in_chain [of b p "fat_tab p d"]
          by (cases "cs = []") (auto simp: file_ok_def)
        then have "fat_tab p d3 b = fat_tab p d b"
          using t3 t2 u bl b by (simp add: same_tab_def tab_upd_def)
        with b show "b \<in> free_set p (fat_tab p d3)" by (simp add: free_set_def)
      qed
      then have "card (free_set p (fat_tab p d) - {n}) \<le> card (free_set p (fat_tab p d3))"
        by (intro card_mono) simp_all
      then have "card (free_set p (fat_tab p d)) \<le> card (free_set p (fat_tab p d3)) + 1"
        using nf by simp
      then have "room p d \<le> csize p * (card (free_set p (fat_tab p d3)) + 1)"
        unfolding room_def by (intro mult_le_mono2)
      then show ?thesis using less.prems(7) big by (simp add: room_def ur um)
    qed
    have fb: "file_bytes p d3 (cs @ [n]) = file_bytes p d cs @ x"
    proof -
      have cl: "list_all (data_cluster p) cs" using less.prems(2) by (simp add: file_ok_def)
      have "same_except p d d3 (set dcs \<union> {n})"
        using tab_upd_same_except [OF p u] x2 x3
        by (metis (no_types, lifting) Un_empty_left same_except_trans)
      then have "file_bytes p d3 cs = file_bytes p d cs"
        using cl ncs less.prems(4) by (intro file_bytes_same [of p d d3 "set dcs \<union> {n}"]) auto
      moreover have "cluster_data p d3 n = x" using dw n(1) by (simp add: data_upd_def)
      ultimately show ?thesis by (simp add: file_bytes_append file_bytes_def)
    qed
    have "\<exists>e' d' cs' k. append_loop p data e2 n (rem - m) (wp + m) d3 = Some (True, e', d') \<and>
        same_entry e2 e' \<and> disk_ok p d' \<and> file_ok p d' e' ((cs @ [n]) @ cs') \<and> entry_ok p d' e' dcs \<and>
        set ((cs @ [n]) @ cs') \<inter> set dcs = {} \<and> csize p * length cs' < unat (rem - m) + csize p \<and>
        file_bytes p d' ((cs @ [n]) @ cs') =
          file_bytes p d3 (cs @ [n]) @ drop (unat (wp + m)) data @ replicate k 0"
      using um2 ur uw less.prems(4,6) room3 ndcs rem0
      by (intro less.hyps d3 f3 en3) auto
    then obtain e' d' cs' k where r: "append_loop p data e2 n (rem - m) (wp + m) d3 = Some (True, e', d')"
      "same_entry e2 e'" "disk_ok p d'" "file_ok p d' e' (cs @ n # cs')" "entry_ok p d' e' dcs"
      "set (cs @ n # cs') \<inter> set dcs = {}" "csize p * length cs' < unat (rem - m) + csize p"
      "file_bytes p d' (cs @ n # cs') =
          file_bytes p d3 (cs @ [n]) @ drop (unat (wp + m)) data @ replicate k 0"
      by auto
    have lcs: "csize p * length (n # cs') < unat rem + csize p"
    proof (cases "csize p \<le> unat rem")
      case True
      then show ?thesis using r(7) by (simp add: ur um)
    next
      case False
      then have "csize p * length cs' < csize p" using r(7) by (simp add: ur um)
      then have "cs' = []" by (cases cs') simp_all
      with rem0 show ?thesis by simp
    qed
    have "drop (unat wp) data = piece @ drop (unat (wp + m)) data"
      by (simp add: piece_def uw) (metis add.commute append_take_drop_id drop_drop)
    moreover have "drop (unat (wp + m)) data = [] \<or> csize p = unat m"
      using um less.prems(6) by (auto simp: uw min_def)
    ultimately have "\<exists>k. file_bytes p d' (cs @ n # cs') = file_bytes p d cs @ drop (unat wp) data @ replicate k 0"
      using r(8) fb by (auto simp: x_def replicate_add [symmetric])
    then show ?thesis
      using step r lcs same_entry_trans [OF se r(2)] by (metis (no_types, lifting))
  qed
qed

section \<open>Appending\<close>

text \<open>The chain has exactly the clusters the size needs.\<close>

definition sized :: "part \<Rightarrow> DirectoryEntry \<Rightarrow> u32 list \<Rightarrow> bool" where
  "sized p e cs \<longleftrightarrow>
     unat (e_fileSize e) \<le> csize p * length cs \<and> csize p * length cs < unat (e_fileSize e) + csize p"

definition content :: "part \<Rightarrow> vdisk \<Rightarrow> DirectoryEntry \<Rightarrow> u32 list \<Rightarrow> bytes" where
  "content p d e cs = take (unat (e_fileSize e)) (file_bytes p d cs)"

lemma unat_min: "unat (min a b :: u32) = min (unat a) (unat b)"
  by (simp add: min_def u32_le_iff)

lemma chain_last:
  assumes "chain p t c cs"
  shows "chain p t (last cs) [last cs]"
proof -
  have "linked t xs \<Longrightarrow> xs \<noteq> [] \<Longrightarrow> 0x0FFFFFF8 \<le> t (last xs)" for xs
    by (induction t xs rule: linked.induct) auto
  moreover have "last cs \<in> set cs" using assms by (simp add: chain_def)
  ultimately show ?thesis using assms by (auto simp: chain_def list_all_iff)
qed

lemma append_tail_effect:
  assumes p: "part_ok p" and d: "disk_ok p d" and f: "file_ok p d e cs" and z: "sized p e cs"
    and len: "length data < 4294967296"
  shows "\<exists>w d'. append_tail p e data cs d = Some (True, w, d') \<and> same_tab p d d' \<and>
    same_except p d d' (set cs) \<and> unat w \<le> length data \<and>
    (unat w = length data \<and> unat (e_fileSize e) + length data \<le> csize p * length cs \<or>
     unat (e_fileSize e) + unat w = csize p * length cs) \<and>
    take (unat (e_fileSize e) + unat w) (file_bytes p d' cs) = content p d e cs @ take (unat w) data"
proof -
  let ?fs = "unat (e_fileSize e)"
  note cz = part_ok_csize [OF p]
  have cl: "list_all (data_cluster p) cs" using f by (simp add: file_ok_def)
  note lfb = length_file_bytes [OF p d cl]
  have off: "unat (e_fileSize e mod clusterSizeBytes p) = ?fs mod csize p" by (simp add: unat_mod cz(1))
  show ?thesis
  proof (cases "0 < ?fs \<and> ?fs mod csize p \<noteq> 0 \<and> cs \<noteq> []")
    case False
    have "?fs = csize p * length cs"
    proof (cases "cs = []")
      case True
      with z show ?thesis by (simp add: sized_def)
    next
      case ne: False
      then have "?fs mod csize p = 0" using False by auto
      then obtain q where q: "?fs = csize p * q" by auto
      have "csize p * q \<le> csize p * length cs" "csize p * length cs < csize p * (q + 1)"
        using z unfolding sized_def q by simp_all
      then have "q \<le> length cs" "length cs < q + 1"
        using cz(2) by (simp_all only: mult_le_cancel1 mult_less_cancel1)
      then show ?thesis using q by simp
    qed
    moreover have "append_tail p e data cs d = Some (True, 0, d)"
      using False off by (auto simp: append_tail_def Let_def u32_less_iff word_unat_eq_iff)
    ultimately show ?thesis
      using d lfb by (intro exI [of _ 0] exI [of _ d])
        (simp add: same_tab_refl same_except_refl content_def)
  next
    case True
    define o' where "o' = ?fs mod csize p"
    define c where "c = last cs"
    obtain bs where bs: "cs = bs @ [c]" using True by (metis append_butlast_last_id c_def)
    have fs: "?fs = csize p * length bs + o'"
    proof -
      have e: "?fs = csize p * (?fs div csize p) + o'" by (simp add: o'_def)
      have "o' < csize p" using cz(2) by (simp add: o'_def)
      have "?fs div csize p = length bs"
      proof (rule antisym)
        have "csize p * (?fs div csize p) < csize p * (length bs + 1)"
        proof -
          have "?fs \<le> csize p * (length bs + 1)" using z by (simp add: sized_def bs)
          moreover have "0 < o'" using True by (simp add: o'_def)
          ultimately show ?thesis using e by linarith
        qed
        then have "?fs div csize p < length bs + 1" by (simp only: mult_less_cancel1)
        then show "?fs div csize p \<le> length bs" by simp
        have "csize p * (length bs + 1) < csize p * (?fs div csize p + 2)"
        proof -
          have "csize p * (length bs + 1) < ?fs + csize p" using z by (simp add: sized_def bs)
          moreover have "csize p * (?fs div csize p + 2) = csize p * (?fs div csize p) + csize p + csize p"
            by simp
          ultimately show ?thesis using e \<open>o' < csize p\<close> by linarith
        qed
        then have "length bs + 1 < ?fs div csize p + 2" by (simp only: mult_less_cancel1)
        then show "length bs \<le> ?fs div csize p" by simp
      qed
      with e show ?thesis by simp
    qed
    have c: "data_cluster p c" using cl by (simp add: bs)
    have lc: "length (cluster_data p d c) = csize p" by (rule length_cluster_data [OF p d c])
    have ol: "o' < csize p" using cz(2) by (simp add: o'_def)
    define m where "m = min (clusterSizeBytes p - e_fileSize e mod clusterSizeBytes p) (of_nat (length data))"
    have um: "unat m = min (csize p - o') (length data)"
    proof -
      have "unat (clusterSizeBytes p - e_fileSize e mod clusterSizeBytes p) = csize p - o'"
        using ol by (subst unat_sub_le) (simp_all add: u32_le_iff off cz(1) o'_def)
      moreover have "unat (of_nat (length data) :: u32) = length data" using len by (simp add: unat_of_nat)
      ultimately show ?thesis unfolding m_def unat_min by (simp only:)
    qed
    have "chain p (fat_tab p d) (getFirstCluster e) cs" using f True by (simp add: file_ok_def)
    then have "chain p (fat_tab p d) c [c]" unfolding c_def by (rule chain_last)
    then have "readFile p d c (clusterSizeBytes p) = Some (take (unat (clusterSizeBytes p)) (file_bytes p d [c]))"
      using c cz(1,3) by (intro readFile_chain [OF p d]) (simp_all add: MAX_CHAIN_def u32_le_iff)
    then have rf: "readFile p d c (clusterSizeBytes p) = Some (cluster_data p d c)"
      by (simp add: file_bytes_def cz(1) lc)
    define x where "x = take o' (cluster_data p d c) @ take (unat m) data @ drop (o' + unat m) (cluster_data p d c)"
    have bl: "blit (cluster_data p d c) o' (take (unat m) data) = Some x" and lx: "length x = csize p"
      using um ol by (simp_all add: blit_def lc x_def)
    obtain d' where w: "writeCluster p c x d = Some (True, d')" and u: "data_upd p d d' c x"
      using writeCluster_effect [OF p d c lx] by blast
    have at: "append_tail p e data cs d = Some (True, m, d')"
      using True off rf bl w um
      by (simp add: append_tail_def Let_def m_def [symmetric] c_def [symmetric] slice_def o'_def [symmetric]
          u32_less_iff word_unat_eq_iff)
    have st: "same_tab p d d'" "same_except p d d' {c}" using data_upd_same [OF u] by blast+
    have "c \<notin> set bs" using f by (auto simp: file_ok_def bs chain_def)
    then have "file_bytes p d' bs = file_bytes p d bs"
      using cl by (intro file_bytes_same [OF st(2)]) (auto simp: bs)
    moreover have "cluster_data p d' c = x" using u c by (simp add: data_upd_def)
    ultimately have fb: "file_bytes p d' cs = file_bytes p d bs @ x"
      by (simp add: bs file_bytes_append file_bytes_def)
    have lbs: "length (file_bytes p d bs) = csize p * length bs"
      using cl by (intro length_file_bytes [OF p d]) (simp add: bs)
    have "take (?fs + unat m) (file_bytes p d' cs) = content p d e cs @ take (unat m) data"
    proof -
      have "take (?fs + unat m) (file_bytes p d' cs) = file_bytes p d bs @ take (o' + unat m) x"
        using lbs by (simp add: fb fs)
      also have "take (o' + unat m) x = take o' (cluster_data p d c) @ take (unat m) data"
        using um ol by (simp add: x_def lc)
      finally show ?thesis
        using lbs by (simp add: content_def bs file_bytes_append fs) (simp add: file_bytes_def)
    qed
    moreover have "c \<in> set cs" by (simp add: bs)
    moreover have "unat m = length data \<and> ?fs + length data \<le> csize p * length cs \<or> ?fs + unat m = csize p * length cs"
      using um ol fs by (auto simp: bs min_def)
    moreover have "same_except p d d' (set cs)"
      using st(2) by (rule same_except_mono) (simp add: bs)
    moreover have "unat m \<le> length data" by (simp add: um)
    ultimately show ?thesis using at st(1) by blast
  qed
qed

lemma append_entry_spec:
  assumes p: "part_ok p" and d: "disk_ok p d" and f: "file_ok p d e cs" and en: "entry_ok p d e dcs"
    and dj: "set cs \<inter> set dcs = {}" and z: "sized p e cs" and lcs: "length cs \<le> MAX_CHAIN"
    and total: "unat (e_fileSize e) + length data \<le> 0x7FFFFFFF"
    and room: "length data \<le> room p d"
    and low: "cs = [] \<Longrightarrow> data \<noteq> [] \<Longrightarrow> \<exists>b \<in> free_set p (fat_tab p d). unat b < 65536"
  shows "\<exists>e' d' cs'. append_entry p e data d = Some (True, e', d') \<and> disk_ok p d' \<and>
    file_ok p d' e' cs' \<and> entry_ok p d' e' dcs \<and> set cs' \<inter> set dcs = {} \<and> sized p e' cs' \<and>
    unat (e_fileSize e') = unat (e_fileSize e) + length data \<and>
    content p d' e' cs' = content p d e cs @ data \<and> e_offset e' = e_offset e \<and>
    e_directoryStartCluster e' = e_directoryStartCluster e"
proof -
  let ?fs = "unat (e_fileSize e)"
  note cz = part_ok_csize [OF p]
  have len: "length data < 4294967296" using total by simp
  have cl: "list_all (data_cluster p) cs" using f by (simp add: file_ok_def)
  have rc: "readClusterChain p d (getFirstCluster e) = Some cs"
    using f readClusterChain_0 [OF p] readClusterChain_chain [OF p d _ lcs]
    by (auto simp: file_ok_def split: if_splits)
  obtain w d1 where tl: "append_tail p e data cs d = Some (True, w, d1)" and t1: "same_tab p d d1"
    and x1: "same_except p d d1 (set cs)" and wl: "unat w \<le> length data"
    and w: "unat w = length data \<and> ?fs + length data \<le> csize p * length cs \<or> ?fs + unat w = csize p * length cs"
    and c1: "take (?fs + unat w) (file_bytes p d1 cs) = content p d e cs @ take (unat w) data"
    using append_tail_effect [OF p d f z len] by blast
  have d1: "disk_ok p d1" using t1 by (rule same_tabD)
  have f1: "file_ok p d1 e cs" using f chain_same_tab [OF t1] by (simp add: file_ok_def)
  have en1: "entry_ok p d1 e dcs" by (rule entry_ok_same_tab [OF t1 en])
  have fr1: "free_set p (fat_tab p d1) = free_set p (fat_tab p d)"
    using t1 by (auto simp: free_set_def same_tab_def data_cluster_def)
  define rem where "rem = (of_nat (length data) :: u32) - w"
  have urem: "unat rem = length data - unat w"
    using wl len unfolding rem_def by (subst unat_sub_le) (simp_all add: u32_le_iff unat_of_nat)
  have "\<exists>e2 d2 cs2 k. append_loop p data e (if cs = [] then 0 else last cs) rem w d1 = Some (True, e2, d2) \<and>
      same_entry e e2 \<and> disk_ok p d2 \<and> file_ok p d2 e2 (cs @ cs2) \<and> entry_ok p d2 e2 dcs \<and>
      set (cs @ cs2) \<inter> set dcs = {} \<and> csize p * length cs2 < unat rem + csize p \<and>
      file_bytes p d2 (cs @ cs2) = file_bytes p d1 cs @ drop (unat w) data @ replicate k 0"
  proof (rule append_loop_spec [OF p len d1 f1 en1 dj refl])
    show "unat w + unat rem = length data" using wl by (simp add: urem)
    show "unat rem \<le> Fat_Append.room p d1" using room by (simp add: urem room_def fr1)
    assume "cs = []" "0 < rem"
    then have "data \<noteq> []" using urem by (auto simp: u32_less_iff)
    with \<open>cs = []\<close> show "\<exists>b \<in> free_set p (fat_tab p d1). unat b < 65536" using low fr1 by simp
  qed
  then obtain e2 d2 cs2 k
    where lp: "append_loop p data e (if cs = [] then 0 else last cs) rem w d1 = Some (True, e2, d2)"
      and se: "same_entry e e2" and d2: "disk_ok p d2" and f2: "file_ok p d2 e2 (cs @ cs2)"
      and en2: "entry_ok p d2 e2 dcs" and dj2: "set (cs @ cs2) \<inter> set dcs = {}"
      and l2: "csize p * length cs2 < unat rem + csize p"
      and b2: "file_bytes p d2 (cs @ cs2) = file_bytes p d1 cs @ drop (unat w) data @ replicate k 0"
    by blast
  define e3 where "e3 = setFileSize (e_fileSize e + of_nat (length data)) e2"
  have e3: "getFirstCluster e3 = getFirstCluster e2" "e_offset e3 = e_offset e"
    "e_directoryStartCluster e3 = e_directoryStartCluster e" "e_shortName e3 = e_shortName e"
    "e_fileSize e3 = e_fileSize e + of_nat (length data)"
    using same_entryD [OF se] by (simp_all add: e3_def setFileSize_def getFirstCluster_def)
  have fs3: "unat (e_fileSize e3) = ?fs + length data"
  proof -
    have "unat (of_nat (length data) :: u32) = length data" using len by (simp add: unat_of_nat)
    then show ?thesis using total by (simp add: e3(5) unat_add_small)
  qed
  have en3: "entry_ok p d2 e3 dcs" using en2 same_entryD [OF se] by (simp add: entry_ok_def e3)
  obtain d3 where fl: "flushEntry p e3 d2 = Some (True, d3)" and t3: "same_tab p d2 d3"
    and x3: "same_except p d2 d3 (set dcs)"
    using flushEntry_ok [OF p d2 en3] by blast
  have "append_entry p e data d = Some (True, e3, d3)"
    using rc tl lp fl cz(1,2) same_entryD [OF se]
    by (simp add: append_entry_def Let_def rem_def [symmetric] e3_def [symmetric]) 
       (auto simp: Let_def rem_def [symmetric] e3_def [symmetric])
  moreover have f3: "file_ok p d3 e3 (cs @ cs2)"
    using f2 chain_same_tab [OF t3] by (simp add: file_ok_def e3)
  moreover have "entry_ok p d3 e3 dcs" by (rule entry_ok_same_tab [OF t3 en3])
  moreover have fb3: "file_bytes p d3 (cs @ cs2) = file_bytes p d2 (cs @ cs2)"
    using f2 dj2 by (intro file_bytes_same [OF x3]) (auto simp: file_ok_def)
  moreover have lfb: "length (file_bytes p d3 (cs @ cs2)) = csize p * length (cs @ cs2)"
    using f3 by (intro length_file_bytes [OF p same_tabD [OF t3]]) (simp add: file_ok_def)
  moreover have lb1: "length (file_bytes p d1 cs) = csize p * length cs"
    by (rule length_file_bytes [OF p d1 cl])
  moreover have "sized p e3 (cs @ cs2)"
  proof -
    have "?fs + length data \<le> csize p * length (cs @ cs2)"
    proof -
      have "csize p * length (cs @ cs2) = csize p * length cs + (length data - unat w) + k"
        using lfb by (simp add: fb3 b2 lb1)
      then show ?thesis using w wl by linarith
    qed
    moreover have "csize p * length (cs @ cs2) < ?fs + length data + csize p"
    proof (cases "unat w = length data \<and> ?fs + length data \<le> csize p * length cs")
      case True
      then have "csize p * length cs2 < csize p" using l2 by (simp add: urem)
      then have "cs2 = []" by (cases cs2) simp_all
      with z show ?thesis by (simp add: sized_def)
    next
      case False
      then have "?fs + unat w = csize p * length cs" using w by blast
      with l2 wl show ?thesis by (simp add: urem add_mult_distrib2)
    qed
    ultimately show ?thesis by (simp add: sized_def fs3)
  qed
  moreover have "content p d3 e3 (cs @ cs2) = content p d e cs @ data"
  proof (cases "unat w = length data \<and> ?fs + length data \<le> csize p * length cs")
    case True
    then have "take (?fs + length data) (file_bytes p d3 (cs @ cs2)) = take (?fs + length data) (file_bytes p d1 cs)"
      by (simp add: fb3 b2 lb1)
    with True c1 show ?thesis by (simp add: content_def fs3)
  next
    case False
    then have full: "?fs + unat w = csize p * length cs" using w by blast
    then have "file_bytes p d1 cs = content p d e cs @ take (unat w) data"
      using c1 lb1 by simp
    then have "file_bytes p d3 (cs @ cs2) = content p d e cs @ data @ replicate k 0"
      by (simp add: fb3 b2)
    moreover have "length (content p d e cs) = ?fs"
      using z by (simp add: content_def length_file_bytes [OF p d cl] sized_def)
    ultimately show ?thesis by (simp add: content_def [of p d3] fs3)
  qed
  ultimately show ?thesis using dj2 fs3 e3(2,3) same_tabD [OF t3] by blast
qed

text \<open>Reading through the entry.\<close>

lemma read_entry_content:
  assumes p: "part_ok p" and d: "disk_ok p d" and f: "file_ok p d e cs" and z: "sized p e cs"
    and lcs: "length cs \<le> MAX_CHAIN" and total: "unat (e_fileSize e) \<le> 0x7FFFFFFF"
  shows "read_entry p d e offset n = Some (take (unat n) (drop (unat offset) (content p d e cs)))"
proof (cases "offset < e_fileSize e")
  case False
  have "length (content p d e cs) \<le> unat (e_fileSize e)" by (simp add: content_def)
  with False show ?thesis by (auto simp: read_entry_def fetchDataFromEntry_def not_less u32_le_iff)
next
  case True
  have cl: "list_all (data_cluster p) cs" using f by (simp add: file_ok_def)
  have ne: "cs \<noteq> []" using z True by (auto simp: sized_def u32_less_iff)
  have "readFile p d (getFirstCluster e) (e_fileSize e) = Some (content p d e cs)"
    using f ne lcs cl total
    by (simp add: content_def) (intro readFile_chain [OF p d], simp_all add: file_ok_def u32_le_iff)
  moreover have lc: "length (content p d e cs) = unat (e_fileSize e)"
    using z by (simp add: content_def length_file_bytes [OF p d cl] sized_def)
  moreover have "unat (e_fileSize e - offset) = unat (e_fileSize e) - unat offset"
    using True by (subst unat_sub_le) simp_all
  ultimately show ?thesis
    using True
    by (simp add: read_entry_def fetchDataFromEntry_def not_le [symmetric] Let_def slice_def
        u32_less_iff u32_le_iff) linarith
qed

section \<open>Overwriting\<close>

lemma write_entry_spec:
  assumes p: "part_ok p" and d: "disk_ok p d" and f: "file_ok p d e cs" and en: "entry_ok p d e dcs"
    and dj: "set cs \<inter> set dcs = {}" and root: "cs = [] \<or> 2 < getFirstCluster e"
    and total: "length data \<le> 0x7FFFFFFF"
    and room: "length data \<le> room p d + csize p * length cs"
    and low: "cs = [] \<Longrightarrow> data \<noteq> [] \<Longrightarrow> \<exists>b \<in> free_set p (fat_tab p d). unat b < 65536"
  shows "\<exists>e' d' cs'. write_entry p e data d = Some (True, e', d') \<and> disk_ok p d' \<and>
    file_ok p d' e' cs' \<and> entry_ok p d' e' dcs \<and> set cs' \<inter> set dcs = {} \<and> sized p e' cs' \<and>
    unat (e_fileSize e') = length data \<and> content p d' e' cs' = data"
proof -
  define e0 where "e0 = setClusterChain 0 (setFileSize 0 e)"
  have e0: "getFirstCluster e0 = 0" "e_fileSize e0 = 0" "e_offset e0 = e_offset e"
    "e_directoryStartCluster e0 = e_directoryStartCluster e" "e_shortName e0 = e_shortName e"
    by (simp_all add: e0_def setClusterChain_def setFileSize_def getFirstCluster_def)
  have fc: "getFirstCluster e = (if cs = [] then 0 else hd cs)"
    using f by (cases "cs = []") (simp_all add: file_ok_def chain_def)
  obtain d1 where fr: "(if getFirstCluster e > 2 then freeClusterChain p (getFirstCluster e) d else Some d) = Some d1"
    and d1: "disk_ok p d1" and sd: "same_data p d d1"
    and t1: "\<And>b. b < countClusters p \<Longrightarrow> fat_tab p d1 b = (if b \<in> set cs then 0 else fat_tab p d b)"
  proof (cases "cs = []")
    case True
    then show thesis using that [of d] d fc by simp
  next
    case False
    then have "chain p (fat_tab p d) (getFirstCluster e) cs" "2 < getFirstCluster e"
      using f root by (simp_all add: file_ok_def)
    moreover from this(1) obtain x where "freeClusterChain p (getFirstCluster e) d = Some x" "disk_ok p x"
      "same_data p d x"
      "\<forall>b. b < countClusters p \<longrightarrow> fat_tab p x b = (if b \<in> set cs then 0 else fat_tab p d b)"
      using freeClusterChain_chain [OF p d] by blast
    ultimately show thesis using that [of x] by simp
  qed
  have cl: "list_all (data_cluster p) cs" using f by (simp add: file_ok_def)
  have dist: "distinct cs" using f by (cases "cs = []") (simp_all add: file_ok_def chain_def)
  have f1: "file_ok p d1 e0 []" by (simp add: file_ok_def e0)
  have ch1: "chain p (fat_tab p d1) (e_directoryStartCluster e) dcs"
  proof (rule chain_cong [of p "fat_tab p d"])
    show ch: "chain p (fat_tab p d) (e_directoryStartCluster e) dcs" using en by (simp add: entry_ok_def)
    fix b
    assume b: "b \<in> set dcs"
    then have "b < countClusters p" "b \<notin> set cs" using ch dj by (auto simp: chain_def list_all_iff)
    then show "fat_tab p d1 b = fat_tab p d b" by (simp add: t1)
  qed
  then have en1: "entry_ok p d1 e0 dcs" using en by (simp add: entry_ok_def e0)
  have z1: "sized p e0 []" using part_ok_csize(2) [OF p] by (simp add: sized_def e0)
  have fs: "free_set p (fat_tab p d) \<union> set cs \<subseteq> free_set p (fat_tab p d1)"
    using cl by (auto simp: free_set_def t1 data_cluster_def list_all_iff)
  have "free_set p (fat_tab p d) \<inter> set cs = {}"
    using f free_not_in_chain by (cases "cs = []") (auto simp: file_ok_def)
  then have "card (free_set p (fat_tab p d)) + length cs = card (free_set p (fat_tab p d) \<union> set cs)"
    using dist by (simp add: card_Un_disjoint distinct_card)
  also have "\<dots> \<le> card (free_set p (fat_tab p d1))" using fs by (intro card_mono) simp_all
  finally have "csize p * (card (free_set p (fat_tab p d)) + length cs) \<le> csize p * card (free_set p (fat_tab p d1))"
    by (rule mult_le_mono2)
  then have room1: "length data \<le> Fat_Append.room p d1" using room by (simp add: room_def add_mult_distrib2)
  have low1: "\<exists>b \<in> free_set p (fat_tab p d1). unat b < 65536" if "data \<noteq> []"
  proof (cases "cs = []")
    case True
    with low that fs show ?thesis by blast
  next
    case False
    have "unat (getFirstCluster e) < 65536"
      using unat_u16_lt [of "e_clusterChain e"] by (simp add: getFirstCluster_def unats)
    moreover have "hd cs \<in> free_set p (fat_tab p d1)" using fs False by auto
    ultimately show ?thesis using fc False by auto
  qed
  have "\<exists>e' d' cs'. append_entry p e0 data d1 = Some (True, e', d') \<and> disk_ok p d' \<and>
    file_ok p d' e' cs' \<and> entry_ok p d' e' dcs \<and> set cs' \<inter> set dcs = {} \<and> sized p e' cs' \<and>
    unat (e_fileSize e') = unat (e_fileSize e0) + length data \<and>
    content p d' e' cs' = content p d1 e0 [] @ data \<and> e_offset e' = e_offset e0 \<and>
    e_directoryStartCluster e' = e_directoryStartCluster e0"
    using total room1 low1
    by (intro append_entry_spec [OF p d1 f1 en1 _ z1]) (simp_all add: e0)
  then obtain e' d2 cs' where a: "append_entry p e0 data d1 = Some (True, e', d2)" and d2: "disk_ok p d2"
    and f2: "file_ok p d2 e' cs'" and en2: "entry_ok p d2 e' dcs" and dj2: "set cs' \<inter> set dcs = {}"
    and z2: "sized p e' cs'" and fs2: "unat (e_fileSize e') = length data"
    and c2: "content p d2 e' cs' = data"
    by (auto simp: e0 content_def)
  obtain d3 where fl: "flushEntry p e' d2 = Some (True, d3)" and t3: "same_tab p d2 d3"
    and x3: "same_except p d2 d3 (set dcs)"
    using flushEntry_ok [OF p d2 en2] by blast
  have "write_entry p e data d = Some (True, e', d3)"
    using fr a fl by (simp add: write_entry_def e0_def [symmetric])
  moreover have "file_ok p d3 e' cs'" using f2 chain_same_tab [OF t3] by (simp add: file_ok_def)
  moreover have "entry_ok p d3 e' dcs" by (rule entry_ok_same_tab [OF t3 en2])
  moreover have "content p d3 e' cs' = data"
    using c2 f2 dj2 by (simp add: content_def file_ok_def file_bytes_same [OF x3])
  ultimately show ?thesis using dj2 z2 fs2 same_tabD [OF t3] by blast
qed

end
