(* ===== verification/Fat_Remove.thy ===== *)
theory Fat_Remove
  imports Fat_Scan Fat_Append
begin

text \<open>
  What the deletions do: the marking of an entry and its long-name slots removes exactly that
  entry from the listing of the directory, the emptiness test accepts only directories with the
  two dot entries, and \<open>deleteFile\<close> puts this on the disk.
\<close>

section \<open>Marking\<close>

definition del :: "bytes \<Rightarrow> bytes" where
  "del s = s[0 := 0xE5]"

abbreviation "is_lfn s \<equiv> s ! 11 AND 0x3F = (0x0F :: u8)"

fun mark_back :: "bytes list \<Rightarrow> bytes list" where
  "mark_back [] = []"
| "mark_back (s # ss) =
     (if \<not> is_lfn s then s # ss
      else if s ! 0 AND 0x40 \<noteq> 0 then del s # ss
      else del s # mark_back ss)"

lemma length_mark_back [simp]: "length (mark_back ss) = length ss"
  by (induction ss) auto

lemma mark_back_split:
  "\<exists>L X. ss = L @ X \<and> mark_back ss = map del L @ X \<and> list_all is_lfn L"
proof (induction ss)
  case Nil
  then show ?case by simp
next
  case (Cons s ss)
  then obtain L X where ih: "ss = L @ X" "mark_back ss = map del L @ X" "list_all is_lfn L" by blast
  show ?case
  proof (cases "is_lfn s")
    case False
    then show ?thesis by (intro exI [of _ "[]"] exI [of _ "s # ss"]) simp
  next
    case True
    show ?thesis
    proof (cases "s ! 0 AND 0x40 \<noteq> 0")
      case True
      with \<open>is_lfn s\<close> show ?thesis by (intro exI [of _ "[s]"] exI [of _ ss]) simp
    next
      case False
      with \<open>is_lfn s\<close> ih show ?thesis by (intro exI [of _ "s # L"] exI [of _ X]) simp
    qed
  qed
qed

lemma nth_concat_slots:
  "list_all (\<lambda>s. length s = 32) ss \<Longrightarrow> j < length ss \<Longrightarrow> i < 32 \<Longrightarrow> concat ss ! (32 * j + i) = ss ! j ! i"
proof (induction ss arbitrary: j)
  case Nil
  then show ?case by simp
next
  case (Cons s ss)
  then show ?case by (cases j) (simp_all add: nth_append)
qed

lemma length_concat_slots: "list_all (\<lambda>s. length s = 32) ss \<Longrightarrow> length (concat ss) = 32 * length ss"
  by (induction ss) simp_all

lemma update_concat_slots:
  "list_all (\<lambda>s. length s = 32) ss \<Longrightarrow> j < length ss \<Longrightarrow>
   (concat ss)[32 * j := v] = concat (ss[j := (ss ! j)[0 := v]])"
proof (induction ss arbitrary: j)
  case Nil
  then show ?case by simp
next
  case (Cons s ss)
  then show ?case by (cases j) (simp_all add: list_update_append)
qed

lemma mark_lfn_slots:
  "list_all (\<lambda>s. length s = 32) ss \<Longrightarrow> j < length ss \<Longrightarrow>
   mark_lfn (concat ss) (32 * j) =
     Some (concat (rev (mark_back (rev (take (Suc j) ss))) @ drop (Suc j) ss))"
proof (induction j arbitrary: ss)
  case 0
  then obtain s rest where ss: "ss = s # rest" by (cases ss) auto
  have r: "rd_at (concat ss) 0 = Some (s ! 0)" "rd_at (concat ss) 11 = Some (s ! 11)"
    using 0 by (auto simp: ss rd_at_def nth_append)
  have u: "(concat ss)[0 := 0xE5] = del s @ concat rest"
    using 0 by (auto simp: ss del_def list_update_append)
  show ?case
    using r u by (subst mark_lfn.simps) (simp add: ss)
next
  case (Suc j)
  let ?s = "ss ! Suc j"
  have b: "rd_at (concat ss) (32 * Suc j + i) = Some (?s ! i)" if "i < 32" for i
    using Suc.prems that nth_concat_slots [OF Suc.prems] length_concat_slots [OF Suc.prems(1)]
    by (auto simp: rd_at_def)
  have u: "(concat ss)[32 * Suc j := 0xE5] = concat (ss[Suc j := del ?s])"
    using update_concat_slots [OF Suc.prems] by (simp add: del_def)
  have tk: "take (Suc (Suc j)) ss = take (Suc j) ss @ [?s]"
    using Suc.prems(2) by (simp add: take_Suc_conv_app_nth)
  have sp: "ss = take (Suc j) ss @ ?s # drop (Suc (Suc j)) ss"
    using Suc.prems(2) by (simp add: id_take_nth_drop)
  have up: "ss[Suc j := del ?s] = take (Suc j) ss @ del ?s # drop (Suc (Suc j)) ss"
    using Suc.prems(2) by (simp add: upd_conv_take_nth_drop)
  have IH: "mark_lfn (concat (ss[Suc j := del ?s])) (32 * j) =
      Some (concat (rev (mark_back (rev (take (Suc j) (ss[Suc j := del ?s])))) @ drop (Suc j) (ss[Suc j := del ?s])))"
    using Suc.prems by (intro Suc.IH) (auto simp: list_all_length nth_list_update del_def)
  have dr: "drop (Suc j) (ss[Suc j := del ?s]) = del ?s # drop (Suc (Suc j)) ss"
    using Suc.prems(2) unfolding up by simp
  have b0: "rd_at (concat ss) (32 * Suc j) = Some (?s ! 0)" using b [of 0] by simp
  have sub: "32 * Suc j - 32 = 32 * j" by simp
  show ?case
  proof (cases "is_lfn ?s \<and> ?s ! 0 AND 0x40 = 0")
    case True
    then have "mark_lfn (concat ss) (32 * Suc j) = mark_lfn (concat (ss[Suc j := del ?s])) (32 * j)"
      using b0 b [of 11] u sub by (subst mark_lfn.simps) (simp add: Let_def)
    with True show ?thesis by (simp add: IH dr tk)
  next
    case False
    then have "mark_lfn (concat ss) (32 * Suc j) =
        Some (if is_lfn ?s then concat (ss[Suc j := del ?s]) else concat ss)"
      using b0 b [of 11] u by (subst mark_lfn.simps) (auto simp: Let_def)
    also have "\<dots> = Some (concat (rev (mark_back (rev (take (Suc (Suc j)) ss))) @ drop (Suc (Suc j)) ss))"
    proof -
      have "concat ss = concat (take (Suc j) ss) @ ?s @ concat (drop (Suc (Suc j)) ss)"
        using arg_cong [OF sp, of concat] by simp
      with False show ?thesis by (auto simp: tk up)
    qed
    finally show ?thesis .
  qed
qed

lemma mark_deleted_slots:
  assumes "list_all (\<lambda>s. length s = 32) (A @ t # Y)"
  shows "mark_deleted (concat (A @ t # Y)) (32 * length A) =
    Some (concat (rev (mark_back (rev A)) @ del t # Y))"
proof (cases A rule: rev_cases)
  case Nil
  with assms show ?thesis
    by (simp add: mark_deleted_def del_def list_update_append)
next
  case (snoc B u)
  have u: "(concat (A @ t # Y))[32 * length A := 0xE5] = concat (A @ del t # Y)"
    using update_concat_slots [OF assms, of "length A" "0xE5"] by (simp add: del_def)
  have "mark_lfn (concat (A @ del t # Y)) (32 * length B) =
      Some (concat (rev (mark_back (rev (take (Suc (length B)) (A @ del t # Y)))) @ drop (Suc (length B)) (A @ del t # Y)))"
    using assms by (intro mark_lfn_slots) (simp_all add: snoc del_def)
  then have "mark_lfn (concat (A @ del t # Y)) (32 * length B) =
      Some (concat (rev (mark_back (rev A)) @ del t # Y))"
    by (simp add: snoc)
  then show ?thesis using u by (simp add: mark_deleted_def Let_def snoc)
qed

section \<open>The listing after a deletion\<close>

lemma scan_del:
  "list_all (\<lambda>s. s \<noteq> []) L \<Longrightarrow> dir_scan dc i (map del L @ ys) (p, c, es) =
   dir_scan dc (i + 32 * length L) ys (if L = [] then (p, c, es) else ([], 0, es))"
proof (induction L arbitrary: i p c)
  case Nil
  then show ?case by simp
next
  case (Cons s L)
  have "del s ! 0 = 0xE5" using Cons.prems by (simp add: del_def)
  then show ?case using Cons by (simp add: add.assoc)
qed

lemma scan_state_inv: "(p = [] \<longrightarrow> c = 0) \<Longrightarrow> dir_scan dc i ss (p, c, es) = (p', c', es') \<Longrightarrow> p' = [] \<longrightarrow> c' = 0"
proof (induction ss arbitrary: i p c es)
  case Nil
  then show ?case by simp
next
  case (Cons s ss)
  show ?case
  proof (cases "s ! 0 = 0")
    case True
    with Cons.prems show ?thesis by simp
  next
    case False
    obtain q k fs where st: "scan_step dc i s (p, c, es) = (q, k, fs)" by (cases "scan_step dc i s (p, c, es)")
    then have "q = [] \<longrightarrow> k = 0" using Cons.prems(1) by (auto split: if_splits)
    with Cons.IH [of q k "i + 32" fs] Cons.prems(2) False st show ?thesis by simp
  qed
qed

lemma scan_lfn_run:
  "list_all (\<lambda>s. s ! 0 \<noteq> 0 \<and> is_lfn s) L \<Longrightarrow>
   \<exists>p' c'. dir_scan dc i L (p, c, es) = (p', c', es)"
proof (induction L arbitrary: i p c)
  case Nil
  then show ?case by simp
next
  case (Cons s L)
  then show ?case by (cases "s ! 0 = 0xE5") auto
qed

lemma entry_in_scan:
  "x \<in> set (snd (snd (dir_scan dc i ss (p, c, es)))) \<Longrightarrow> x \<notin> set es \<Longrightarrow>
   \<exists>A t Y p' c' fs. ss = A @ t # Y \<and> list_all (\<lambda>s. s ! 0 \<noteq> 0) A \<and> regular t \<and>
     dir_scan dc i A (p, c, es) = (p', c', fs) \<and>
     x = mkDirectoryEntry (of_nat (i + 32 * length A)) dc
           (if p' \<noteq> [] \<and> c' = short_checksum t then join_lfn p' else []) (dentry_of_bytes t)"
proof (induction ss arbitrary: i p c es)
  case Nil
  then show ?case by simp
next
  case (Cons s ss)
  have s0: "s ! 0 \<noteq> 0" using Cons.prems by (auto split: if_splits)
  obtain q k gs where st: "scan_step dc i s (p, c, es) = (q, k, gs)" by (cases "scan_step dc i s (p, c, es)")
  have r: "x \<in> set (snd (snd (dir_scan dc (i + 32) ss (q, k, gs))))" using Cons.prems(1) s0 st by simp
  show ?case
  proof (cases "x \<in> set gs")
    case True
    then have "regular s \<and> x = mkDirectoryEntry (of_nat i) dc
        (if p \<noteq> [] \<and> c = short_checksum s then join_lfn p else []) (dentry_of_bytes s)"
      using st s0 Cons.prems(2) by (auto simp: regular_def split: if_splits)
    then show ?thesis
      by (intro exI [of _ "[]"] exI [of _ s] exI [of _ ss] exI [of _ p] exI [of _ c] exI [of _ es]) auto
  next
    case False
    obtain A t Y p' c' fs where a: "ss = A @ t # Y" "list_all (\<lambda>s. s ! 0 \<noteq> 0) A" "regular t"
      "dir_scan dc (i + 32) A (q, k, gs) = (p', c', fs)"
      "x = mkDirectoryEntry (of_nat (i + 32 + 32 * length A)) dc
           (if p' \<noteq> [] \<and> c' = short_checksum t then join_lfn p' else []) (dentry_of_bytes t)"
      using Cons.IH [OF r False] by blast
    then have "dir_scan dc i (s # A) (p, c, es) = (p', c', fs)" using s0 st by simp
    moreover have ix: "i + 32 + 32 * length A = i + 32 * length (s # A)" by simp
    ultimately have "s # ss = (s # A) @ t # Y \<and> list_all (\<lambda>s. s ! 0 \<noteq> 0) (s # A) \<and> regular t \<and>
        dir_scan dc i (s # A) (p, c, es) = (p', c', fs) \<and>
        x = mkDirectoryEntry (of_nat (i + 32 * length (s # A))) dc
           (if p' \<noteq> [] \<and> c' = short_checksum t then join_lfn p' else []) (dentry_of_bytes t)"
      using a(1-3) a(5) [unfolded ix] s0 by (simp only: append_Cons list.pred_inject simp_thms)
    then show ?thesis by blast
  qed
qed

text \<open>
  The marking takes one entry out of the listing and leaves the others, in order, with their
  names.
\<close>

lemma listing_mark:
  assumes len: "list_all (\<lambda>s. length s = 32) ss" and x: "x \<in> set (listing dc ss)"
  shows "\<exists>A t Y xs ys. ss = A @ t # Y \<and> e_offset x = of_nat (32 * length A) \<and>
    listing dc ss = xs @ x # ys \<and> listing dc (rev (mark_back (rev A)) @ del t # Y) = xs @ ys"
proof -
  obtain A t Y p c es where a: "ss = A @ t # Y" "list_all (\<lambda>s. s ! 0 \<noteq> 0) A" "regular t"
    and sa: "dir_scan dc 0 A ([], 0, []) = (p, c, es)"
    and xe: "x = mkDirectoryEntry (of_nat (32 * length A)) dc
           (if p \<noteq> [] \<and> c = short_checksum t then join_lfn p else []) (dentry_of_bytes t)"
    using entry_in_scan [of x dc 0 ss "[]" 0 "[]"] x unfolding listing_def by auto
  obtain L X where lx: "rev A = L @ X" "mark_back (rev A) = map del L @ X" "list_all is_lfn L"
    using mark_back_split by blast
  have A: "A = rev X @ rev L" using lx(1) by (metis rev_append rev_rev_ident)
  obtain p1 c1 es1 where sx: "dir_scan dc 0 (rev X) ([], 0, []) = (p1, c1, es1)"
    by (cases "dir_scan dc 0 (rev X) ([], 0, [])")
  have nz: "list_all (\<lambda>s. s ! 0 \<noteq> 0) (rev X)" "list_all (\<lambda>s. s ! 0 \<noteq> 0 \<and> is_lfn s) (rev L)"
    using a(2) lx(3) unfolding A by (auto simp: list_all_iff)
  have "es1 = es"
    using sa scan_lfn_run [OF nz(2), of dc "32 * length (rev X)" p1 c1 es1] sx
    unfolding A by (auto simp: dir_scan_append [OF nz(1)])
  have inv: "p = [] \<longrightarrow> c = 0" using scan_state_inv [OF _ sa] by simp
  have c0: "(if p \<noteq> [] then 0 else c) = 0" using inv by simp
  let ?i = "32 * length A + 32"
  obtain fs where fs: "\<And>es2. \<exists>p2 c2. dir_scan dc ?i Y ([], 0, es2) = (p2, c2, es2 @ fs)"
    using dir_scan_entries [of dc ?i Y "[]" 0 "[]"] by blast
  have l1: "listing dc ss = es @ x # fs"
  proof -
    have "dir_scan dc 0 ss ([], 0, []) = dir_scan dc ?i Y ([], 0, es @ [x])"
      using a(3) c0 by (simp add: a(1) dir_scan_append [OF a(2)] sa regular_def xe)
    then show ?thesis using fs [of "es @ [x]"] by (auto simp: listing_def)
  qed
  have l2: "listing dc (rev (mark_back (rev A)) @ del t # Y) = es @ fs"
  proof -
    have e: "rev (mark_back (rev A)) @ del t # Y = rev X @ map del (rev L @ [t]) @ Y"
      by (simp add: lx(2) rev_map)
    have ne: "list_all (\<lambda>s. s \<noteq> []) (rev L @ [t])"
      using len unfolding a(1) A by (auto simp: list_all_iff dest!: bspec [of _ _ "[]"])
    have "dir_scan dc 0 (rev (mark_back (rev A)) @ del t # Y) ([], 0, []) = dir_scan dc ?i Y ([], 0, es)"
      unfolding e dir_scan_append [OF nz(1)] sx \<open>es1 = es\<close>
      by (simp only: scan_del [OF ne]) (simp add: A algebra_simps)
    then show ?thesis using fs [of es] by (auto simp: listing_def)
  qed
  have "e_offset x = of_nat (32 * length A)" by (simp add: xe mkDirectoryEntry_def)
  with a(1) l1 l2 show ?thesis by blast
qed

section \<open>The emptiness test\<close>

lemma rest_empty_scan:
  "length data = 32 * n \<Longrightarrow> k \<le> n \<Longrightarrow> rest_empty data (32 * k) \<Longrightarrow>
   snd (snd (dir_scan dc i (slots (drop (32 * k) data)) (p, c, es))) = es"
proof (induction "n - k" arbitrary: k i p c)
  case 0
  then show ?case by (simp add: slots_def)
next
  case (Suc m)
  then have k: "32 * k + 32 \<le> length data" by simp
  define s where "s = take 32 (drop (32 * k) data)"
  have ls: "length s = 32" using k by (simp add: s_def)
  have sp: "drop (32 * k) data = s @ drop (32 * Suc k) data"
    by (simp add: s_def) (metis add.commute append_take_drop_id drop_drop)
  have sl: "slots (drop (32 * k) data) = s # slots (drop (32 * Suc k) data)"
    unfolding sp by (rule slots_append [OF ls])
  have s0: "data ! (32 * k) = s ! 0" using k by (simp add: s_def)
  have re: "s ! 0 = 0 \<or> s ! 0 = 0xE5 \<and> rest_empty data (32 * Suc k)"
    using Suc.prems(3) k by (subst (asm) rest_empty.simps) (auto simp: s0 add.commute split: if_splits)
  show ?case
  proof (cases "s ! 0 = 0")
    case True
    then show ?thesis by (simp add: sl)
  next
    case False
    with re have "s ! 0 = 0xE5" "rest_empty data (32 * Suc k)" by auto
    then show ?thesis
      using Suc.hyps(1) [of "Suc k" "i + 32" "[]" 0] Suc.hyps(2) Suc.prems(1) by (simp add: sl)
  qed
qed

lemma isValidEmpty_listing:
  assumes "length data = 32 * n" and "isValidEmpty data"
  shows "length (listing dc (slots data)) = 2"
proof -
  have n: "3 \<le> n" using assms by (simp add: isValidEmpty_def)
  define s0 where "s0 = take 32 data"
  define s1 where "s1 = take 32 (drop 32 data)"
  have l: "length s0 = 32" "length s1 = 32" using n assms(1) by (simp_all add: s0_def s1_def)
  have d: "data = s0 @ s1 @ drop 64 data"
    by (simp add: s0_def s1_def) (metis append_take_drop_id drop_drop numeral_Bit0)
  have sl: "slots data = s0 # s1 # slots (drop 64 data)"
    by (subst d) (simp add: slots_append l)
  have b: "s0 ! 0 = 0x2E" "s0 ! 11 = 0x10 \<or> s0 ! 11 = 0x30" "s1 ! 0 = 0x2E" "s1 ! 11 = 0x10 \<or> s1 ! 11 = 0x30"
    using assms n by (auto simp: isValidEmpty_def s0_def s1_def)
  have "rest_empty data (32 * 2)" using assms(2) by (simp add: isValidEmpty_def)
  then have r: "snd (snd (dir_scan dc 64 (slots (drop 64 data)) (p, c, es))) = es" for p c es
    using rest_empty_scan [OF assms(1), of 2 dc 64 p c es] n by simp
  have reg: "s ! 11 AND 0x3F \<noteq> 0x0F" if "s ! 11 = 0x10 \<or> s ! 11 = 0x30" for s :: bytes
    using that by auto
  show ?thesis
    using b reg [OF b(2)] reg [OF b(4)] by (simp add: listing_def sl r)
qed

section \<open>Deleting on the disk\<close>

definition dir_ok :: "part \<Rightarrow> vdisk \<Rightarrow> DirectoryEntry \<Rightarrow> u32 list \<Rightarrow> bool" where
  "dir_ok p d parent dcs \<longleftrightarrow>
     chain p (fat_tab p d) (getFirstCluster parent) dcs \<and> length dcs \<le> MAX_CHAIN \<and>
     list_all (data_cluster p) dcs \<and> csize p * length dcs \<le> 0x7FFFFFFF"

definition dir_list :: "part \<Rightarrow> vdisk \<Rightarrow> DirectoryEntry \<Rightarrow> u32 list \<Rightarrow> DirectoryEntry list" where
  "dir_list p d parent dcs = listing (getFirstCluster parent) (slots (file_bytes p d dcs))"

lemma csize_slots: "csize p * n = 32 * (16 * unat (clusterSize p) * n)"
  by (simp add: csize_def)

lemma getDirectoryEntries_list:
  assumes p: "part_ok p" and d: "disk_ok p d" and dir: "dir_ok p d parent dcs"
  shows "getDirectoryEntries p d (getFirstCluster parent) = Some (dir_list p d parent dcs)"
proof -
  have "\<not> countClusters p \<le> getFirstCluster parent"
    using dir by (cases dcs) (auto simp: dir_ok_def chain_def)
  moreover have "length (file_bytes p d dcs) = 32 * (16 * unat (clusterSize p) * length dcs)"
    using dir length_file_bytes [OF p d, of dcs] csize_slots [of p "length dcs"] by (simp add: dir_ok_def)
  ultimately show ?thesis
    using dir_loop_listing readEntireFile_chain [OF p d, of "getFirstCluster parent" dcs] dir
    by (simp add: getDirectoryEntries_def dir_ok_def dir_list_def)
qed

lemma unat_dirClusterBytes: "part_ok p \<Longrightarrow> unat (dirClusterBytes p) = csize p"
  using part_ok_bounds [of p] by (simp add: dirClusterBytes_def csize_def unat_mult_small unats)

lemma remove_entry_effect:
  assumes p: "part_ok p" and d: "disk_ok p d" and dir: "dir_ok p d parent dcs"
    and x: "x \<in> set (dir_list p d parent dcs)" and f: "file_ok p d x cs"
    and dj: "set cs \<inter> set dcs = {}" and root: "cs = [] \<or> 2 < getFirstCluster x"
  shows "\<exists>d' xs ys. remove_entry p parent x d = Some (True, d') \<and> disk_ok p d' \<and>
    dir_ok p d' parent dcs \<and> dir_list p d parent dcs = xs @ x # ys \<and> dir_list p d' parent dcs = xs @ ys \<and>
    (\<forall>b. b < countClusters p \<longrightarrow> fat_tab p d' b = (if b \<in> set cs then 0 else fat_tab p d b)) \<and>
    same_except p d d' (set dcs)"
proof -
  let ?dc = "getFirstCluster parent"
  have ch: "chain p (fat_tab p d) ?dc dcs" and len: "length dcs \<le> MAX_CHAIN"
    and dcl: "list_all (data_cluster p) dcs" and sz: "csize p * length dcs \<le> 0x7FFFFFFF"
    using dir by (auto simp: dir_ok_def)
  define step where "step = (if getFirstCluster x > 2 then freeClusterChain p (getFirstCluster x) d else Some d)"
  obtain d1 where s1: "step = Some d1" and d1: "disk_ok p d1" and sd: "same_data p d d1"
    and tab: "\<And>b. b < countClusters p \<Longrightarrow> fat_tab p d1 b = (if b \<in> set cs then 0 else fat_tab p d b)"
  proof (cases "cs = []")
    case True
    with f d that show ?thesis by (simp add: step_def file_ok_def)
  next
    case False
    with f root that show ?thesis
      using freeClusterChain_chain [OF p d, of "getFirstCluster x" cs] by (auto simp: step_def file_ok_def)
  qed
  have same: "file_bytes p d1 dcs = file_bytes p d dcs"
    using dcl same_data_cluster [OF p sd] by (induction dcs) (simp_all add: file_bytes_def)
  have ch1: "chain p (fat_tab p d1) ?dc dcs"
    using dj ch tab by (intro chain_cong [OF ch]) (auto simp: chain_def list_all_iff)
  define data where "data = file_bytes p d dcs"
  have ld: "length data = csize p * length dcs" by (simp add: data_def length_file_bytes [OF p d dcl])
  have ld32: "length data = 32 * (16 * unat (clusterSize p) * length dcs)"
    using ld csize_slots [of p "length dcs"] by simp
  obtain A t Y xs ys where sl: "slots data = A @ t # Y" and off: "e_offset x = of_nat (32 * length A)"
    and l1: "listing ?dc (slots data) = xs @ x # ys"
    and l2: "listing ?dc (rev (mark_back (rev A)) @ del t # Y) = xs @ ys"
    using listing_mark [OF slots_length, of x ?dc data] x by (auto simp: dir_list_def data_def)
  have len32: "list_all (\<lambda>s. length s = 32) (A @ t # Y)" using slots_length [of data] by (simp add: sl)
  have "length (slots data) = Suc (length A + length Y)" by (simp add: sl)
  moreover have "length data = 32 * length (slots data)" unfolding length_slots ld32 by simp
  ultimately have lA: "32 * length A + 32 \<le> length data" by linarith
  have uo: "unat (e_offset x) = 32 * length A"
    using lA ld sz by (simp add: off unat_of_nat del: of_nat_mult)
  define new where "new = rev (mark_back (rev A)) @ del t # Y"
  have md: "mark_deleted data (32 * length A) = Some (concat new)"
    using mark_deleted_slots [OF len32] concat_slots [OF ld32] by (simp add: sl new_def)
  have new32: "list_all (\<lambda>s. length s = 32) new"
  proof -
    have "list_all (\<lambda>s. length s = 32) (mark_back B)" if "list_all (\<lambda>s. length s = 32) B" for B
      using that by (induction B rule: mark_back.induct) (auto simp: del_def)
    from this [of "rev A"] show ?thesis using len32 by (simp add: new_def del_def)
  qed
  have lnew: "length (concat new) = length data"
  proof -
    have "length (concat new) = 32 * length (slots data)"
      using length_concat_slots [OF new32] by (simp add: new_def sl)
    then show ?thesis unfolding length_slots ld32 by simp
  qed
  have b: "unat (dirClusterBytes p) = csize p" by (rule unat_dirClusterBytes [OF p])
  have dist: "distinct dcs" using ch by (simp add: chain_def)
  obtain d' where rw: "rewrite_clusters p (csize p) dcs 0 (concat new) d1 = Some (True, d')"
    and st: "same_tab p d1 d'" and se: "same_except p d1 d' (set dcs)"
    and fb: "file_bytes p d' dcs = concat new"
    using rewrite_clusters_effect [OF p d1 dcl dist, of "concat new" 0] lnew ld by auto
  have ne: "data \<noteq> []" "dcs \<noteq> []" using lA ch by (auto simp: chain_def)
  have "remove_entry p parent x d = Some (True, d')"
    using ne lA readEntireFile_chain [OF p d1 ch1 len dcl sz] readClusterChain_chain [OF p d1 ch1 len]
      s1 [unfolded step_def]
    by (simp add: remove_entry_def same data_def [symmetric] uo md rw b)
  moreover have "dir_list p d' parent dcs = xs @ ys"
    unfolding dir_list_def fb slots_concat [OF new32] using l2 by (simp only: new_def)
  moreover have "dir_list p d parent dcs = xs @ x # ys" using l1 by (simp add: dir_list_def data_def)
  moreover have "disk_ok p d'" using st by (rule same_tabD)
  moreover have "dir_ok p d' parent dcs" using chain_same_tab [OF st ch1] len dcl sz by (simp add: dir_ok_def)
  moreover have "\<forall>b. b < countClusters p \<longrightarrow> fat_tab p d' b = (if b \<in> set cs then 0 else fat_tab p d b)"
    using st tab by (simp add: same_tab_def)
  moreover have "same_except p d d' (set dcs)"
    using se same_data_cluster [OF p sd] by (simp add: same_except_def)
  ultimately show ?thesis by blast
qed

lemma deleteFile_effect:
  assumes p: "part_ok p" and d: "disk_ok p d" and dir: "dir_ok p d parent dcs"
    and x: "find_long_name name (dir_list p d parent dcs) = Some x" "\<not> isDirectory x"
    and f: "file_ok p d x cs" and dj: "set cs \<inter> set dcs = {}" and root: "cs = [] \<or> 2 < getFirstCluster x"
  shows "\<exists>d' xs ys. deleteFile p parent name d = Some (True, d') \<and> disk_ok p d' \<and>
    dir_ok p d' parent dcs \<and> dir_list p d parent dcs = xs @ x # ys \<and> dir_list p d' parent dcs = xs @ ys \<and>
    (\<forall>b. b < countClusters p \<longrightarrow> fat_tab p d' b = (if b \<in> set cs then 0 else fat_tab p d b)) \<and>
    same_except p d d' (set dcs)"
proof -
  have "x \<in> set (dir_list p d parent dcs)"
    using x(1) by (auto simp: find_long_name_def find_Some_iff in_set_conv_nth)
  from remove_entry_effect [OF p d dir this f dj root] show ?thesis
    using getDirectoryEntries_list [OF p d dir] x by (simp add: deleteFile_def)
qed

end
