(* ===== verification/Fat_Insert.thy ===== *)
theory Fat_Insert
  imports Fat_Remove
begin

text \<open>
  What a creation does to a directory: the slots it chooses are free, the new entries go into
  them, and the listing of the directory gains exactly the new entry. The directory that is
  refused a deletion is here too: \<open>deleteDirectory\<close> leaves a directory with entries alone.
\<close>

section \<open>Choosing and filling slots\<close>

lemma slot_freeD:
  "slot_free data i js \<Longrightarrow> \<forall>j \<in> set js. (i + j) * 32 < length data \<Longrightarrow> j \<in> set js \<Longrightarrow>
   data ! ((i + j) * 32) = 0x00 \<or> data ! ((i + j) * 32) = 0xE5"
  by (induction js) (auto simp: Let_def split: if_splits)

lemma slot_free_end: "length data \<le> i * 32 \<Longrightarrow> slot_free data i [0..<n]"
  by (cases n) (simp_all add: upt_conv_Cons del: upt_Suc)

lemma find_slot_free:
  assumes "length data = 32 * m" and i: "find_slot data n = 32 * i" and fit: "i + n \<le> m" and "0 < n"
  shows "\<forall>j < n. slots data ! (i + j) ! 0 = 0x00 \<or> slots data ! (i + j) ! 0 = 0xE5"
proof -
  have ex: "find (\<lambda>i. slot_free data i [0..<n]) [0..<length data div 32 + 1] \<noteq> None"
  proof -
    have "slot_free data (length data div 32) [0..<n]"
      using assms(1) by (intro slot_free_end) simp
    then show ?thesis by (auto simp: find_None_iff)
  qed
  then obtain k where k: "find (\<lambda>i. slot_free data i [0..<n]) [0..<length data div 32 + 1] = Some k" by blast
  then have "k = i" using i by (simp add: find_slot_def)
  have "slot_free data k [0..<n]" using k by (auto simp: find_Some_iff)
  then have sf: "slot_free data i [0..<n]" by (simp add: \<open>k = i\<close>)
  have nth: "slots data ! k ! 0 = data ! (32 * k)" if "k < m" for k
    using that assms(1) by (simp add: slots_def)
  show ?thesis
  proof (intro allI impI)
    fix j assume j: "j < n"
    have "data ! ((i + j) * 32) = 0x00 \<or> data ! ((i + j) * 32) = 0xE5"
      using fit assms(1) j by (intro slot_freeD [OF sf]) auto
    then show "slots data ! (i + j) ! 0 = 0x00 \<or> slots data ! (i + j) ! 0 = 0xE5"
      using nth [of "i + j"] j fit by (simp add: mult.commute)
  qed
qed

lemma copy_entries_blit:
  "list_all (\<lambda>s. length s = 32) es \<Longrightarrow> off + 32 * length es \<le> length data \<Longrightarrow>
   copy_entries es off data = blit data off (concat es)"
proof (induction es arbitrary: off data)
  case Nil
  then show ?case by (simp add: blit_def)
next
  case (Cons e es)
  have b: "blit data off e = Some (take off data @ e @ drop (off + 32) data)"
    using Cons.prems by (simp add: blit_def)
  show ?case
    using Cons.prems Cons.IH [of "off + 32" "take off data @ e @ drop (off + 32) data"]
      length_concat_slots [of es]
    by (simp add: b) (simp add: blit_def algebra_simps)
qed

lemma insert_entries_slots:
  assumes ss: "list_all (\<lambda>s. length s = 32) ss" and es: "list_all (\<lambda>s. length s = 32) es"
    and fit: "i + length es \<le> length ss"
    and next_slot: "i + length es < length ss \<Longrightarrow> ss ! (i + length es) ! 0 \<noteq> 0xE5"
  shows "insert_entries (concat ss) (32 * i) es = Some (concat (take i ss @ es @ drop (i + length es) ss))"
proof -
  let ?n = "length es"
  have tk: "list_all (\<lambda>s. length s = 32) (take i ss)" "list_all (\<lambda>s. length s = 32) (drop (i + ?n) ss)"
    "list_all (\<lambda>s. length s = 32) (take ?n (drop i ss))"
    using ss by (auto simp: list_all_iff dest: in_set_takeD in_set_dropD)
  have sp: "concat ss = concat (take i ss) @ concat (take ?n (drop i ss)) @ concat (drop (i + ?n) ss)"
  proof -
    have "ss = take i ss @ take ?n (drop i ss) @ drop ?n (drop i ss)"
      by (simp only: append_take_drop_id)
    from arg_cong [OF this, of concat] show ?thesis
      by (simp only: concat_append drop_drop add.commute [of ?n])
  qed
  have lens: "length (concat (take i ss)) = 32 * i" "length (concat (take ?n (drop i ss))) = 32 * ?n"
    "length (concat es) = 32 * ?n" "length (concat ss) = 32 * length ss"
    using fit by (simp_all add: length_concat_slots tk es ss)
  define new where "new = take i ss @ es @ drop (i + ?n) ss"
  have b: "blit (concat ss) (32 * i) (concat es) = Some (concat new)"
  proof -
    have "32 * i + 32 * ?n \<le> length (concat ss)" using fit by (simp add: lens(4))
    moreover have "take (32 * i) (concat ss) = concat (take i ss)" by (subst sp) (simp add: lens)
    moreover have "drop (32 * i + 32 * ?n) (concat ss) = concat (drop (i + ?n) ss)"
      by (subst sp) (simp add: lens)
    ultimately show ?thesis by (simp add: blit_def lens(3) new_def)
  qed
  have n32: "list_all (\<lambda>s. length s = 32) new" using tk es by (simp add: new_def)
  have ln: "length new = length ss" using fit by (simp add: new_def)
  have "mark_end (concat new) (32 * i + 32 * ?n) = concat new"
  proof (cases "i + ?n < length ss")
    case True
    have "new ! (i + ?n) = ss ! (i + ?n)" using fit True by (simp add: new_def nth_append)
    moreover have "concat new ! (32 * (i + ?n) + 0) = new ! (i + ?n) ! 0"
      using True by (intro nth_concat_slots n32) (simp_all add: ln)
    moreover have "32 * (i + ?n) = 32 * i + 32 * ?n" by simp
    ultimately have e: "concat new ! (32 * i + 32 * ?n) = ss ! (i + ?n) ! 0" by (simp only: add_0_right)
    show ?thesis
      using next_slot [OF True] by (auto simp: mark_end_def e list_update_same_conv)
  next
    case False
    then show ?thesis by (simp add: mark_end_def length_concat_slots [OF n32] ln)
  qed
  moreover have "resize_bytes (concat ss) (32 * i + 32 * ?n) = concat ss"
    using fit by (simp add: resize_bytes_def lens(4))
  moreover have "copy_entries es (32 * i) (concat ss) = Some (concat new)"
    using copy_entries_blit [OF es, of "32 * i" "concat ss"] fit b by (simp add: lens(4))
  ultimately show ?thesis by (simp add: insert_entries_def new_def mult.commute)
qed

section \<open>The listing after an insertion\<close>

text \<open>
  The slots \<open>i\<close> to \<open>i + n\<close> can take new entries: no end marker before them, no long-name part
  left over just before them, nothing live behind an end marker among them, and no deleted slot
  directly behind them, which the end marker would turn into the end of the directory.
\<close>

definition insertable :: "bytes list \<Rightarrow> nat \<Rightarrow> nat \<Rightarrow> bool" where
  "insertable ss i n \<longleftrightarrow>
     i + n \<le> length ss \<and> list_all (\<lambda>s. s ! 0 \<noteq> 0x00) (take i ss) \<and>
     (0 < i \<longrightarrow> \<not> is_lfn (ss ! (i - 1)) \<or> ss ! (i - 1) ! 0 = 0xE5) \<and>
     (list_ex (\<lambda>s. s ! 0 = 0x00) (take n (drop i ss)) \<longrightarrow>
        list_all (\<lambda>s. s ! 0 = 0x00) (drop (i + n) ss)) \<and>
     (i + n < length ss \<longrightarrow> ss ! (i + n) ! 0 \<noteq> 0xE5)"

lemma scan_clear:
  assumes "list_all (\<lambda>s. s ! 0 \<noteq> 0x00) X" and "X = [] \<or> \<not> is_lfn (last X) \<or> last X ! 0 = 0xE5"
  shows "\<exists>es. dir_scan dc 0 X ([], 0, []) = ([], 0, es)"
proof (cases X rule: rev_cases)
  case Nil
  then show ?thesis by simp
next
  case (snoc Z s)
  obtain p c es where z: "dir_scan dc 0 Z ([], 0, []) = (p, c, es)"
    by (cases "dir_scan dc 0 Z ([], 0, [])")
  have inv: "p = [] \<longrightarrow> c = 0" using scan_state_inv [OF _ z] by simp
  have nz: "list_all (\<lambda>s. s ! 0 \<noteq> 0x00) Z" "s ! 0 \<noteq> 0x00" using assms(1) by (simp_all add: snoc)
  have "\<not> is_lfn s \<or> s ! 0 = 0xE5" using assms(2) by (simp add: snoc)
  then show ?thesis using nz(2) inv by (auto simp: snoc dir_scan_append [OF nz(1)] z)
qed

lemma scan_free:
  "list_all (\<lambda>s. s ! 0 = 0x00 \<or> s ! 0 = 0xE5) F \<Longrightarrow>
   dir_scan dc i (F @ Y) ([], 0, es) =
     (if list_ex (\<lambda>s. s ! 0 = 0x00) F then ([], 0, es) else dir_scan dc (i + 32 * length F) Y ([], 0, es))"
  by (induction F arbitrary: i) (auto simp: add.assoc)

lemma scan_stop: "list_all (\<lambda>s. s ! 0 = 0x00) Y \<Longrightarrow> dir_scan dc i Y st = st"
  by (cases Y) simp_all

lemma listing_insert:
  assumes ins: "insertable ss i (Suc (length lfns))"
    and free: "\<forall>j < Suc (length lfns). ss ! (i + j) ! 0 = 0x00 \<or> ss ! (i + j) ! 0 = 0xE5"
    and scan: "\<And>k ys es. dir_scan dc k (lfns @ s # ys) ([], 0, es) =
      dir_scan dc (k + 32 * length lfns + 32) ys ([], 0, es @ [x k])"
  shows "\<exists>xs ys. listing dc ss = xs @ ys \<and>
    listing dc (take i ss @ (lfns @ [s]) @ drop (i + Suc (length lfns)) ss) = xs @ x (32 * i) # ys"
proof -
  define n where "n = Suc (length lfns)"
  define X where "X = take i ss"
  define F where "F = take n (drop i ss)"
  define Y where "Y = drop (i + n) ss"
  have fit: "i + n \<le> length ss" and nz: "list_all (\<lambda>s. s ! 0 \<noteq> 0x00) X"
    using ins by (auto simp: insertable_def n_def X_def)
  have lX: "length X = i" "length F = n" using fit by (simp_all add: X_def F_def)
  have sp: "ss = X @ F @ Y"
    by (simp only: X_def F_def Y_def add.commute [of i n] drop_drop [symmetric] append_take_drop_id)
  have F: "list_all (\<lambda>s. s ! 0 = 0x00 \<or> s ! 0 = 0xE5) F"
    using free fit by (auto simp: list_all_length F_def n_def)
  have stop: "list_ex (\<lambda>s. s ! 0 = 0x00) F \<Longrightarrow> list_all (\<lambda>s. s ! 0 = 0x00) Y"
    using ins by (simp add: insertable_def F_def Y_def n_def)
  have "X = [] \<or> \<not> is_lfn (last X) \<or> last X ! 0 = 0xE5"
  proof (cases "X = []")
    case False
    then have "0 < i" "last X = ss ! (i - 1)" using fit by (auto simp: X_def last_conv_nth min_def n_def)
    then show ?thesis using ins by (simp add: insertable_def)
  qed simp
  from scan_clear [OF nz this] obtain es where es: "dir_scan dc 0 X ([], 0, []) = ([], 0, es)" by blast
  have old: "dir_scan dc 0 ss ([], 0, []) = dir_scan dc (32 * i + 32 * n) Y ([], 0, es)"
    unfolding sp dir_scan_append [OF nz] es scan_free [OF F] using stop by (simp add: lX scan_stop)
  have new: "dir_scan dc 0 (X @ (lfns @ [s]) @ Y) ([], 0, []) =
      dir_scan dc (32 * i + 32 * n) Y ([], 0, es @ [x (32 * i)])"
    using scan [of "32 * i" Y es] by (simp add: dir_scan_append [OF nz] es lX n_def algebra_simps)
  obtain fs where fs: "\<And>es2. \<exists>p2 c2. dir_scan dc (32 * i + 32 * n) Y ([], 0, es2) = (p2, c2, es2 @ fs)"
    using dir_scan_entries [of dc "32 * i + 32 * n" Y "[]" 0 "[]"] by blast
  have "listing dc ss = es @ fs" using fs [of es] old by (auto simp: listing_def)
  moreover have "listing dc (X @ (lfns @ [s]) @ Y) = es @ x (32 * i) # fs"
    using fs [of "es @ [x (32 * i)]"] new by (auto simp: listing_def)
  ultimately show ?thesis by (simp add: X_def Y_def n_def) blast
qed

section \<open>The new entry\<close>

lemma toupper_sfn: "sfn_char c \<Longrightarrow> toupper c \<noteq> 0 \<and> toupper c \<noteq> 0xE5"
proof -
  assume c: "sfn_char c"
  have "c \<noteq> 0" by (rule sfn_char_not_0 [OF c])
  moreover have "c < 0x80"
    using c by (auto simp: sfn_char_def isValidSFNCharacter_def strchr_hit_def sfn_special_def isalnum_def
      isalpha_def isdigit_def isupper_def islower_def word_le_nat_alt word_less_nat_alt)
  ultimately show ?thesis
    by (auto simp: toupper_def islower_def word_less_nat_alt word_le_nat_alt word_unat_eq_iff unat_sub)
qed

lemma length_pad_name [simp]: "length (pad_name n s) = n"
  by (simp add: pad_name_def)

lemma padded_short_name_ok:
  assumes "list_all sfn_char sfn"
  shows "length (padded_short_name sfn) = 11" "padded_short_name sfn ! 0 \<noteq> 0x00"
    "padded_short_name sfn ! 0 \<noteq> 0xE5"
proof -
  let ?b = "case kfind sfn 0x2E of None \<Rightarrow> sfn | Some q \<Rightarrow> ksubstr sfn 0 (Some q)"
  have sub: "set ?b \<subseteq> set sfn"
    by (auto split: option.splits if_splits simp: ksubstr_def of_buf_def dest!: in_set_butlastD in_set_takeD in_set_dropD)
  have first: "padded_short_name sfn ! 0 = pad_name 8 (map toupper ?b) ! 0"
    by (simp only: padded_short_name_def Let_def nth_append length_pad_name) simp
  have "pad_name 8 (map toupper ?b) ! 0 \<noteq> 0x00 \<and> pad_name 8 (map toupper ?b) ! 0 \<noteq> 0xE5"
  proof (cases ?b)
    case Nil
    then show ?thesis by (simp add: pad_name_def)
  next
    case (Cons c cs)
    then have "c \<in> set sfn" using sub by auto
    then have "sfn_char c" using assms by (auto simp: list_all_iff)
    from toupper_sfn [OF this] show ?thesis by (simp add: pad_name_def Cons)
  qed
  then show "padded_short_name sfn ! 0 \<noteq> 0x00" "padded_short_name sfn ! 0 \<noteq> 0xE5"
    unfolding first by blast+
  show "length (padded_short_name sfn) = 11"
    by (simp add: padded_short_name_def Let_def)
qed

lemma sfn_chars: "list_all sfn_char (generateUniqueShortName name existing)"
proof -
  obtain b e where "generateUniqueShortName name existing = with_extension b e"
    "\<forall>c \<in> set b \<union> set e. sfn_char c"
    using generateUniqueShortName_spec(3) [of name existing] by blast
  then show ?thesis by (auto simp: with_extension_def list_all_iff sfn_char_def)
qed

definition new_dentry :: "bytes \<Rightarrow> u8 \<Rightarrow> fat_dentry" where
  "new_dentry sfn attributes =
     dated_dentry (padded_short_name sfn) (if attributes = ATTR_DIRECTORY then 0x10 else attributes) 0"

lemma new_dentry_bytes:
  assumes "list_all sfn_char sfn" and "attributes AND 0x3F \<noteq> 0x0F"
  defines "s \<equiv> dentry_bytes (new_dentry sfn attributes)"
  shows "length s = 32" "regular s" "dentry_of_bytes s = new_dentry sfn attributes"
    "short_checksum s = checksum_loop (padded_short_name sfn) 0"
proof -
  note ok = padded_short_name_ok [OF assms(1)]
  have l: "length (d_shortName (new_dentry sfn attributes)) = 11"
    by (simp add: new_dentry_def dated_dentry_def ok)
  show ls: "length s = 32" using l by (simp add: s_def)
  show "dentry_of_bytes s = new_dentry sfn attributes" unfolding s_def by (rule dentry_roundtrip [OF l])
  have b: "s = padded_short_name sfn @ attributes # drop 12 s"
    by (simp add: s_def dentry_bytes_def new_dentry_def dated_dentry_def ok)
  have "s ! 0 = padded_short_name sfn ! 0" by (subst b) (simp add: nth_append ok)
  moreover have "s ! 11 = attributes" by (subst b) (simp add: nth_append ok)
  ultimately show "regular s" using ok assms(2) by (simp add: regular_def)
  show "short_checksum s = checksum_loop (padded_short_name sfn) 0"
    by (subst b) (simp add: short_checksum_def ok)
qed

section \<open>Back to the disk\<close>

lemma dir_chainD:
  assumes "dir_ok p d dir dcs"
  shows "chain p (fat_tab p d) (getFirstCluster dir) dcs" "length dcs \<le> MAX_CHAIN"
    "list_all (data_cluster p) dcs" "csize p * length dcs \<le> 0x7FFFFFFF" "dcs \<noteq> []"
  using assms by (auto simp: dir_ok_def chain_def)

lemma read_dir_data_chain:
  assumes p: "part_ok p" and d: "disk_ok p d" and dir: "dir_ok p d dir dcs"
    and small: "csize p * length dcs \<le> unat MAX_DIR_SIZE"
  shows "read_dir_data p dir d = Some (file_bytes p d dcs)"
proof -
  note dc = dir_chainD [OF dir] and cs = part_ok_csize [OF p]
  define n where "n = csize p * length dcs"
  have n: "0 < n" "n \<le> 104857600" using dc(5) cs(2) small by (simp_all add: n_def MAX_DIR_SIZE_def)
  have w: "of_nat (length dcs) * dirClusterBytes p = (of_nat n :: u32)"
    by (simp add: n_def unat_dirClusterBytes [OF p, symmetric])
  have u: "unat (of_nat n :: u32) = n" using n by (simp add: unat_of_nat)
  have sz: "min (of_nat n) MAX_DIR_SIZE = (of_nat n :: u32)" "(of_nat n :: u32) \<noteq> 0"
    "(of_nat n :: u32) \<le> 0x7FFFFFFF"
    using n u by (auto simp: min_def u32_le_iff MAX_DIR_SIZE_def)
  have "readFile p d (getFirstCluster dir) (of_nat n) = Some (take (unat (of_nat n :: u32)) (file_bytes p d dcs))"
    by (rule readFile_chain [OF p d dc(1,2,3) sz(3)])
  moreover have "length (file_bytes p d dcs) = n" by (simp add: n_def length_file_bytes [OF p d dc(3)])
  ultimately show ?thesis
    by (simp add: read_dir_data_def readClusterChain_chain [OF p d dc(1,2)] w sz u)
qed

lemma chain_reend:
  assumes ch: "chain p t c cs" and t': "\<And>b. b < countClusters p \<Longrightarrow> b \<noteq> last cs \<Longrightarrow> t' b = t b"
    and e: "0x0FFFFFF8 \<le> t' (last cs)"
  shows "chain p t' c cs"
proof -
  have "linked t cs \<Longrightarrow> distinct cs \<Longrightarrow> cs \<noteq> [] \<Longrightarrow> \<forall>b \<in> set cs. b \<noteq> last cs \<longrightarrow> t' b = t b \<Longrightarrow>
      0x0FFFFFF8 \<le> t' (last cs) \<Longrightarrow> linked t' cs" for cs
  proof (induction t cs rule: linked.induct)
    case (3 t a b cs)
    have "a \<noteq> last (b # cs)" using 3(3) last_in_set [of "b # cs"] by (metis distinct.simps(2) list.distinct(1))
    with 3 show ?case by simp
  qed simp_all
  with assms show ?thesis by (auto simp: chain_def list_all_iff)
qed

lemma store_dir_data_effect:
  assumes p: "part_ok p" and d: "disk_ok p d" and dir: "dir_ok p d dir dcs"
    and len: "length data = csize p * length dcs"
  shows "\<exists>d'. store_dir_data p dir data d = Some (True, dir, d') \<and> disk_ok p d' \<and> dir_ok p d' dir dcs \<and>
    file_bytes p d' dcs = data \<and> same_except p d d' (set dcs) \<and>
    (\<forall>b. b < countClusters p \<longrightarrow> fat_tab p d' b = (if b = last dcs then 0x0FFFFFFF else fat_tab p d b))"
proof -
  note dc = dir_chainD [OF dir] and cs = part_ok_csize [OF p]
  let ?n = "length dcs"
  have tot: "(length data + csize p - 1) div csize p = ?n"
  proof -
    have "length data + csize p - 1 = (csize p - 1) + csize p * ?n" using cs(2) len by simp
    moreover have "((csize p - 1) + csize p * ?n) div csize p = ?n" using cs(2) by (subst div_mult_self2) simp_all
    ultimately show ?thesis by simp
  qed
  have l: "last dcs \<in> set dcs" using dc(5) by simp
  then have lc: "2 \<le> last dcs" "last dcs < countClusters p"
    using dc(1) by (auto simp: chain_def list_all_iff)
  obtain d1 where s: "setNextCluster p (last dcs) 0x0FFFFFFF d = Some (True, d1)" and d1: "disk_ok p d1"
    and t1: "fat_tab p d1 (last dcs) = 0x0FFFFFFF AND 0x0FFFFFFF"
    and t2: "\<And>b. b < countClusters p \<Longrightarrow> b \<noteq> last dcs \<Longrightarrow> fat_tab p d1 b = fat_tab p d b"
    and sd: "same_data p d d1"
    using setNextCluster_effect [OF p d lc] by metis
  have ch1: "chain p (fat_tab p d1) (getFirstCluster dir) dcs"
    using t1 by (intro chain_reend [OF dc(1) t2]) simp_all
  have dist: "distinct dcs" using dc(1) by (simp add: chain_def)
  obtain d' where w: "rewrite_clusters p (csize p) dcs 0 data d1 = Some (True, d')"
    and st: "same_tab p d1 d'" and se: "same_except p d1 d' (set dcs)" and fb: "file_bytes p d' dcs = data"
    using rewrite_clusters_effect [OF p d1 dc(3) dist, of data 0] len by auto
  have "write_clusters p (csize p) dcs data [0..<?n] d1 = Some (True, d')"
  proof -
    have "k * csize p < length data" if "k < ?n" for k
      using that cs(2) by (simp add: len mult.commute)
    then have "write_clusters p (csize p) dcs data [0..<?n] d1 =
        rewrite_clusters p (csize p) (drop 0 dcs) (0 * csize p) data d1"
      by (intro write_clusters_rewrite) (simp_all add: len mult.commute)
    then show ?thesis using w by simp
  qed
  moreover have "extend_chain p dir dcs ?n d = Some (True, dir, dcs, d)"
    by (subst extend_chain.simps) simp
  ultimately have "store_dir_data p dir data d = Some (True, dir, d')"
    using cs(2) dc(5)
    by (simp add: store_dir_data_def Let_def unat_dirClusterBytes [OF p] tot [unfolded One_nat_def] readClusterChain_chain [OF p d dc(1,2)] s)
  moreover have "dir_ok p d' dir dcs" using dc chain_same_tab [OF st ch1] by (simp add: dir_ok_def)
  moreover have "same_except p d d' (set dcs)"
    using se same_data_cluster [OF p sd] by (simp add: same_except_def)
  moreover have "\<forall>b. b < countClusters p \<longrightarrow> fat_tab p d' b = (if b = last dcs then 0x0FFFFFFF else fat_tab p d b)"
    using st t1 t2 by (simp add: same_tab_def)
  ultimately show ?thesis using same_tabD [OF st] fb by blast
qed

section \<open>Creating a file\<close>

text \<open>The name that a new file has in the listing: the given one, or none for a plain 8.3 name.\<close>

definition listed_name :: "bytes \<Rightarrow> bytes" where
  "listed_name name = (if needsLFN name then name else [])"

definition lfn_count :: "bytes \<Rightarrow> nat" where
  "lfn_count name = (if needsLFN name then (length name + 12) div 13 else 0)"

definition ascii_name :: "bytes \<Rightarrow> bool" where
  "ascii_name name \<longleftrightarrow> name \<noteq> [] \<and> list_all (\<lambda>c. 0 < c \<and> c < 0x80) name \<and> length name \<le> 403"

lemma lfn_entries_scan:
  assumes name: "ascii_name name" and sfn: "list_all sfn_char sfn" and a: "attributes AND 0x3F \<noteq> 0x0F"
  defines "s \<equiv> dentry_bytes (new_dentry sfn attributes)"
  shows "\<exists>lfns. (if needsLFN name then createLFNEntries name (checksum_loop (padded_short_name sfn) 0)
      else Some []) = Some lfns \<and> length lfns = lfn_count name \<and> list_all (\<lambda>s. length s = 32) lfns \<and>
    (\<forall>k ys es dc. dir_scan dc k (lfns @ s # ys) ([], 0, es) =
      dir_scan dc (k + 32 * length lfns + 32) ys ([], 0, es @
        [mkDirectoryEntry (of_nat (k + 32 * length lfns)) dc (listed_name name) (new_dentry sfn attributes)]))"
proof -
  note nd = new_dentry_bytes [OF sfn a, folded s_def]
  show ?thesis
  proof (cases "needsLFN name")
    case False
    then show ?thesis using nd(2,3) by (auto simp: lfn_count_def listed_name_def regular_def)
  next
    case True
    let ?us = "map ucast name :: u16 list"
    have lt: "list_all (\<lambda>c. c < 0x80) name" using name by (auto simp: ascii_name_def list_all_iff)
    note u = utf8_ascii [OF lt]
    have c: "(ucast c :: u16) \<noteq> 0 \<and> (ucast c :: u16) \<noteq> 0xFFFF" if "c \<in> set name" for c
    proof -
      have "0 < unat c" "unat c < 0x80"
        using that name by (auto simp: ascii_name_def list_all_iff word_less_nat_alt)
      then show ?thesis by (auto simp: word_unat_eq_iff unats)
    qed
    then have us: "0 \<notin> set ?us" "0xFFFF \<notin> set ?us" by force+
    have len: "length ?us \<le> 403" using name by (simp add: ascii_name_def)
    obtain lfns where l: "createLFNEntries name (short_checksum s) = Some lfns"
      and ll: "lfns = map (lfn_entry ?us ((length name + 12) div 13) (short_checksum s)) [0..<(length name + 12) div 13]"
      by (simp add: createLFNEntries_def u(2) Let_def)
    have "list_all (\<lambda>s. length s = 32) lfns" by (simp add: ll list_all_iff)
    moreover have "name \<noteq> []" using name by (simp add: ascii_name_def)
    ultimately show ?thesis
      using scan_long_entry [OF u(2) u(1) _ us len l nd(2)] l True
      by (intro exI [of _ lfns]) (simp add: nd(3,4) lfn_count_def listed_name_def ll)
  qed
qed

definition createable :: "part \<Rightarrow> vdisk \<Rightarrow> DirectoryEntry \<Rightarrow> u32 list \<Rightarrow> bytes \<Rightarrow> bool" where
  "createable p d dir dcs name \<longleftrightarrow>
     isDirectory dir \<and> dir_ok p d dir dcs \<and> csize p * length dcs \<le> unat MAX_DIR_SIZE \<and> ascii_name name \<and>
     insertable (slots (file_bytes p d dcs)) (find_slot (file_bytes p d dcs) (lfn_count name + 1) div 32)
       (lfn_count name + 1)"

lemma find_slot_mod: "find_slot data n = 32 * (find_slot data n div 32)"
  by (simp add: find_slot_def split: option.split)

lemma createFile_effect:
  assumes p: "part_ok p" and d: "disk_ok p d" and c: "createable p d dir dcs name"
    and names: "existing_short_names (dir_list p d dir dcs) name [] = Some (Some names)"
    and sfn: "\<not> kempty (generateUniqueShortName name names)" and a: "attributes AND 0x3F \<noteq> 0x0F"
  shows "\<exists>e d' xs ys. createFile p dir name attributes d = Some (Some e, dir, d') \<and> disk_ok p d' \<and>
    dir_ok p d' dir dcs \<and> dir_list p d dir dcs = xs @ ys \<and>
    dir_list p d' dir dcs = xs @ mkDirectoryEntry (e_offset e) (getFirstCluster dir) (listed_name name)
      (new_dentry (generateUniqueShortName name names) attributes) # ys \<and>
    e = mkDirectoryEntry (e_offset e) (getFirstCluster dir) name
      (new_dentry (generateUniqueShortName name names) attributes) \<and>
    same_except p d d' (set dcs) \<and>
    (\<forall>b. b < countClusters p \<longrightarrow> fat_tab p d' b = (if b = last dcs then 0x0FFFFFFF else fat_tab p d b))"
proof -
  let ?sfn = "generateUniqueShortName name names" and ?dc = "getFirstCluster dir"
  let ?n = "lfn_count name + 1"
  define s where "s = dentry_bytes (new_dentry ?sfn attributes)"
  note sc = sfn_chars [of name names]
  have dir: "dir_ok p d dir dcs" and isd: "isDirectory dir" and asc: "ascii_name name"
    and small: "csize p * length dcs \<le> unat MAX_DIR_SIZE"
    using c by (auto simp: createable_def)
  define data where "data = file_bytes p d dcs"
  define i where "i = find_slot data ?n div 32"
  have fs: "find_slot data ?n = 32 * i" unfolding i_def by (rule find_slot_mod)
  have ins: "insertable (slots data) i ?n" using c by (simp add: createable_def data_def i_def)
  have ld: "length data = csize p * length dcs"
    by (simp add: data_def length_file_bytes [OF p d dir_chainD(3) [OF dir]])
  have ld32: "length data = 32 * (16 * unat (clusterSize p) * length dcs)"
    using ld csize_slots [of p "length dcs"] by simp
  have ls: "length (slots data) = 16 * unat (clusterSize p) * length dcs" unfolding length_slots ld32 by simp
  have fit: "i + ?n \<le> length (slots data)" using ins by (simp add: insertable_def)
  obtain lfns where l: "(if needsLFN name then createLFNEntries name (checksum_loop (padded_short_name ?sfn) 0)
      else Some []) = Some lfns" and ll: "length lfns = lfn_count name" and l32: "list_all (\<lambda>s. length s = 32) lfns"
    and scan: "\<And>k ys es dc. dir_scan dc k (lfns @ s # ys) ([], 0, es) =
      dir_scan dc (k + 32 * length lfns + 32) ys ([], 0, es @
        [mkDirectoryEntry (of_nat (k + 32 * length lfns)) dc (listed_name name) (new_dentry ?sfn attributes)])"
    using lfn_entries_scan [OF asc sc a] unfolding s_def by blast
  let ?x = "\<lambda>k. mkDirectoryEntry (of_nat (k + 32 * length lfns)) ?dc (listed_name name) (new_dentry ?sfn attributes)"
  have free: "\<forall>j < ?n. slots data ! (i + j) ! 0 = 0x00 \<or> slots data ! (i + j) ! 0 = 0xE5"
    by (rule find_slot_free [OF ld32 fs fit [unfolded ls]]) simp
  define new where "new = take i (slots data) @ (lfns @ [s]) @ drop (i + ?n) (slots data)"
  obtain xs ys where old_list: "listing ?dc (slots data) = xs @ ys"
    and new_list: "listing ?dc new = xs @ ?x (32 * i) # ys"
    using listing_insert [of "slots data" i lfns ?dc s ?x] ins free scan unfolding new_def by (auto simp: ll)
  have s32: "length s = 32" using new_dentry_bytes(1) [OF sc a] by (simp add: s_def)
  have new32: "list_all (\<lambda>s. length s = 32) new"
    using slots_length [of data] l32 s32 by (auto simp: new_def list_all_iff dest: in_set_takeD in_set_dropD)
  have lnew: "length (concat new) = csize p * length dcs"
  proof -
    have "length new = length (slots data)" using fit by (simp add: new_def ll)
    then show ?thesis using length_concat_slots [OF new32] ld32 ld by (simp only: ls)
  qed
  have ie: "insert_entries data (32 * i) (lfns @ [s]) = Some (concat new)"
  proof -
    have "insert_entries (concat (slots data)) (32 * i) (lfns @ [s]) = Some (concat new)"
      unfolding new_def using ins l32 s32 fit
      by (subst insert_entries_slots [OF slots_length]) (simp_all add: ll insertable_def)
    then show ?thesis by (simp only: concat_slots [OF ld32])
  qed
  obtain d' where st: "store_dir_data p dir (concat new) d = Some (True, dir, d')"
    and d': "disk_ok p d'" "dir_ok p d' dir dcs" "file_bytes p d' dcs = concat new"
      "same_except p d d' (set dcs)"
      "\<forall>b. b < countClusters p \<longrightarrow> fat_tab p d' b = (if b = last dcs then 0x0FFFFFFF else fat_tab p d b)"
    using store_dir_data_effect [OF p d dir lnew] by blast
  define e where "e = mkDirectoryEntry (of_nat (32 * i + 32 * length lfns)) ?dc name (new_dentry ?sfn attributes)"
  have ck: "calculateShortNameChecksum (padded_short_name ?sfn) = Some (checksum_loop (padded_short_name ?sfn) 0)"
    using padded_short_name_ok(1) [OF sc] by (simp add: calculateShortNameChecksum_def slice_def)
  have "createFile p dir name attributes d = Some (Some e, dir, d')"
  proof -
    have nd: "dated_dentry (padded_short_name ?sfn) attributes 0 = new_dentry ?sfn attributes"
      by (simp add: new_dentry_def)
    have fs': "find_slot data (Suc (length lfns)) = 32 * i" using fs by (simp add: ll)
    have off: "32 * i + length lfns * 32 = 32 * i + 32 * length lfns" by simp
    show ?thesis
      using isd sfn l st ie
      by (simp add: createFile_def getDirectoryEntries_list [OF p d dir] names Let_def ck nd fs'
          read_dir_data_chain [OF p d dir small] data_def [symmetric] s_def [symmetric] e_def off
          del: of_nat_add of_nat_mult)
  qed
  moreover have "dir_list p d dir dcs = xs @ ys" using old_list by (simp add: dir_list_def data_def)
  moreover have "dir_list p d' dir dcs = xs @ mkDirectoryEntry (e_offset e) ?dc (listed_name name)
      (new_dentry ?sfn attributes) # ys"
    unfolding dir_list_def d'(3) slots_concat [OF new32] new_list by (simp add: e_def mkDirectoryEntry_def)
  moreover have "e = mkDirectoryEntry (e_offset e) ?dc name (new_dentry ?sfn attributes)"
    by (simp add: e_def mkDirectoryEntry_def)
  ultimately show ?thesis using d' by blast
qed

section \<open>Deleting a directory\<close>

lemma dir_data_length:
  assumes p: "part_ok p" and d: "disk_ok p d" and dir: "dir_ok p d x tcs"
  shows "length (file_bytes p d tcs) = 32 * (16 * unat (clusterSize p) * length tcs)"
    and "512 \<le> length (file_bytes p d tcs)"
proof -
  note dc = dir_chainD [OF dir]
  show l: "length (file_bytes p d tcs) = 32 * (16 * unat (clusterSize p) * length tcs)"
    using csize_slots [of p "length tcs"] by (simp add: length_file_bytes [OF p d dc(3)])
  have "0 < unat (clusterSize p) * length tcs" using part_ok_csize(2) [OF p] dc(5) by (simp add: csize_def)
  then show "512 \<le> length (file_bytes p d tcs)" unfolding l by (simp add: Suc_le_eq)
qed

lemma deleteDirectory_refuses:
  assumes p: "part_ok p" and d: "disk_ok p d" and dir: "dir_ok p d parent dcs"
    and x: "find_long_name name (dir_list p d parent dcs) = Some x" and t: "dir_ok p d x tcs"
    and ne: "length (dir_list p d x tcs) \<noteq> 2"
  shows "deleteDirectory p parent name d = Some (False, d)"
proof -
  note l = dir_data_length [OF p d t] and tc = dir_chainD [OF t]
  have "\<not> isValidEmpty (file_bytes p d tcs)"
    using isValidEmpty_listing [OF l(1)] ne by (auto simp: dir_list_def)
  then show ?thesis
    using l(2) readEntireFile_chain [OF p d tc(1-4)]
    by (auto simp: deleteDirectory_def getDirectoryEntries_list [OF p d dir] x)
qed

lemma deleteDirectory_effect:
  assumes p: "part_ok p" and d: "disk_ok p d" and dir: "dir_ok p d parent dcs"
    and x: "find_long_name name (dir_list p d parent dcs) = Some x" "isDirectory x" "2 < getFirstCluster x"
    and t: "dir_ok p d x tcs" and e: "isValidEmpty (file_bytes p d tcs)" and dj: "set tcs \<inter> set dcs = {}"
  shows "\<exists>d' xs ys. deleteDirectory p parent name d = Some (True, d') \<and> disk_ok p d' \<and>
    dir_ok p d' parent dcs \<and> dir_list p d parent dcs = xs @ x # ys \<and> dir_list p d' parent dcs = xs @ ys \<and>
    (\<forall>b. b < countClusters p \<longrightarrow> fat_tab p d' b = (if b \<in> set tcs then 0 else fat_tab p d b)) \<and>
    same_except p d d' (set dcs)"
proof -
  note l = dir_data_length [OF p d t] and tc = dir_chainD [OF t]
  have "file_ok p d x tcs" using tc by (simp add: file_ok_def)
  moreover have "x \<in> set (dir_list p d parent dcs)"
    using x(1) by (auto simp: find_long_name_def find_Some_iff in_set_conv_nth)
  ultimately have "\<exists>d' xs ys. remove_entry p parent x d = Some (True, d') \<and> disk_ok p d' \<and>
    dir_ok p d' parent dcs \<and> dir_list p d parent dcs = xs @ x # ys \<and> dir_list p d' parent dcs = xs @ ys \<and>
    (\<forall>b. b < countClusters p \<longrightarrow> fat_tab p d' b = (if b \<in> set tcs then 0 else fat_tab p d b)) \<and>
    same_except p d d' (set dcs)"
    using x(3) by (intro remove_entry_effect [OF p d dir _ _ dj]) simp_all
  moreover have "\<not> getFirstCluster x < 2" using x(3) by (simp add: not_less order_less_imp_le)
  moreover have "file_bytes p d tcs \<noteq> []" "\<not> length (file_bytes p d tcs) < 11" using l(2) by auto
  ultimately show ?thesis
    using e readEntireFile_chain [OF p d tc(1-4)]
    by (simp add: deleteDirectory_def getDirectoryEntries_list [OF p d dir] x)
qed

end
