(* ===== verification/Fat_Example.thy ===== *)
theory Fat_Example
  imports Fat_Insert Fat_Volume
begin

text \<open>
  The directories of the example volume: their listings as the code reads them, and the
  chains their entries own. The properties of \<open>Fat_Dir_Laws\<close> are applied here.
\<close>

definition ex_root :: DirectoryEntry where
  "ex_root = root_entry ex_part"

definition ex_A :: DirectoryEntry where
  "ex_A = mkDirectoryEntry 0 2 [] (dentry_of_bytes (ex_root_slots ! 0))"

definition ex_D :: DirectoryEntry where
  "ex_D = mkDirectoryEntry 32 2 [] (dentry_of_bytes (ex_root_slots ! 1))"

definition ex_E :: DirectoryEntry where
  "ex_E = mkDirectoryEntry 64 2 [] (dentry_of_bytes (ex_root_slots ! 2))"

lemma ex_cluster:
  "cluster_data ex_part ex_disk 2 = ex_dir ex_root_slots"
  "cluster_data ex_part ex_disk 5 = ex_dir (ex_dot_slots 5)"
  "cluster_data ex_part ex_disk 6 = ex_dir ex_sub_slots"
  by (simp_all add: cluster_data_def first_sector_def sector_data_def readSector_ex ex_sector_def)

lemma slots_ex_dir:
  assumes "list_all (\<lambda>s. length s = 32) ss"
  shows "slots (ex_dir ss) = ss @ replicate (16 - length ss) (replicate 32 0)"
  unfolding ex_dir_def using assms by (intro slots_concat) (auto simp: list_all_iff)

lemma ex_slots_32:
  "list_all (\<lambda>s. length s = 32) ex_root_slots" "list_all (\<lambda>s. length s = 32) (ex_dot_slots c)"
  "list_all (\<lambda>s. length s = 32) ex_sub_slots"
  by (simp_all add: ex_root_slots_def ex_dot_slots_def ex_sub_slots_def)

lemma spaces:
  "replicate 7 (0x20 :: u8) = [0x20, 0x20, 0x20, 0x20, 0x20, 0x20, 0x20]"
  "replicate 9 (0x20 :: u8) = [0x20, 0x20, 0x20, 0x20, 0x20, 0x20, 0x20, 0x20, 0x20]"
  "replicate 10 (0x20 :: u8) = [0x20, 0x20, 0x20, 0x20, 0x20, 0x20, 0x20, 0x20, 0x20, 0x20]"
  by (simp_all add: numeral_eq_Suc)

lemma ex_slot_bytes:
  assumes "length name = 11"
  shows "ex_slot name a c sz ! 0 = name ! 0" "ex_slot name a c sz ! 11 = a"
    "dentry_of_bytes (ex_slot name a c sz) =
      \<lparr>d_shortName = name, d_attribute = a, d_ntRes = 0, d_creationTimeTenth = 0,
       d_creationTime = 0x6000, d_creationDate = 0x5021, d_lastAccessDate = 0x5021,
       d_firstClusterHigh = 0, d_writeTime = 0x6000, d_writeDate = 0x5021,
       d_firstClusterLow = ucast c, d_fileSize = sz\<rparr>"
  using assms
  by (simp_all add: ex_slot_def dentry_of_bytes_def nth_append le16_def bytes32_def)

lemma scan_pad: "dir_scan dc i (replicate n (replicate 32 0)) st = st"
  by (rule scan_stop) (simp add: list_all_iff)

lemma listing_ex:
  "listing 2 (ex_root_slots @ replicate 13 (replicate 32 0)) = [ex_A, ex_D, ex_E]"
  "length (listing 5 (ex_dot_slots 5 @ replicate 14 (replicate 32 0))) = 2"
  "length (listing 6 (ex_sub_slots @ replicate 13 (replicate 32 0))) = 3"
  by (simp_all add: listing_def ex_root_slots_def ex_dot_slots_def ex_sub_slots_def ex_A_def ex_D_def ex_E_def
    ex_slot_bytes scan_pad)

lemma ex_entries:
  "e_longName ex_A = [0x41, 0x2E, 0x54, 0x58, 0x54]" "e_longName ex_D = [0x44]" "e_longName ex_E = [0x45]"
  "getFirstCluster ex_A = 3" "getFirstCluster ex_D = 5" "getFirstCluster ex_E = 6"
  "e_fileSize ex_A = 600" "e_offset ex_A = 0" "e_directoryStartCluster ex_A = 2"
  "length (e_shortName ex_A) = 11"
  "\<not> isDirectory ex_A" "isDirectory ex_D" "isDirectory ex_E"
  by (simp_all add: ex_A_def ex_D_def ex_E_def ex_root_slots_def ex_slot_bytes spaces mkDirectoryEntry_def
    long_from_short_def Let_def kempty_def of_buf_def kstrip_def isspace_def isDirectory_def getFirstCluster_def)

lemma ex_root_fields: "getFirstCluster ex_root = 2" "isDirectory ex_root"
  by (simp_all add: ex_root_def root_entry_def mkDirectoryEntry_def getFirstCluster_def isDirectory_def
    zero_dentry_def)

lemma ex_data_cluster: "data_cluster ex_part c \<longleftrightarrow> 2 \<le> c \<and> c < 100000"
  by (simp add: data_cluster_def)

lemma ex_csize: "csize ex_part = 512"
  by (simp add: csize_def)

lemma ex_dir_ok:
  "dir_ok ex_part ex_disk ex_root [2]" "dir_ok ex_part ex_disk ex_D [5]" "dir_ok ex_part ex_disk ex_E [6]"
  by (simp_all add: dir_ok_def ex_root_fields ex_entries ex_chains_single ex_data_cluster ex_csize MAX_CHAIN_def)

lemma ex_dir_list:
  "dir_list ex_part ex_disk ex_root [2] = [ex_A, ex_D, ex_E]"
  "length (dir_list ex_part ex_disk ex_D [5]) = 2" "length (dir_list ex_part ex_disk ex_E [6]) = 3"
  using listing_ex
  by (simp_all add: dir_list_def file_bytes_def ex_cluster slots_ex_dir ex_slots_32 ex_root_fields ex_entries
    ex_root_slots_def ex_dot_slots_def ex_sub_slots_def)

lemma ex_file_ok: "file_ok ex_part ex_disk ex_A [3, 4]" "sized ex_part ex_A [3, 4]"
  by (simp_all add: file_ok_def sized_def ex_entries ex_chain ex_data_cluster ex_csize)

lemma ex_entry_ok: "entry_ok ex_part ex_disk ex_A [2]"
  by (simp add: entry_ok_def ex_entries ex_chains_single ex_data_cluster ex_csize MAX_CHAIN_def)

lemma ex_room: "512 \<le> room ex_part ex_disk"
proof -
  have "7 \<in> free_set ex_part (fat_tab ex_part ex_disk)"
    by (simp add: free_set_def ex_data_cluster ex_tab_free)
  then have "0 < card (free_set ex_part (fat_tab ex_part ex_disk))"
    by (auto simp: card_gt_0_iff)
  then show ?thesis by (simp add: room_def ex_csize Suc_le_eq)
qed

lemma ex_find:
  "find_long_name [0x41, 0x2E, 0x54, 0x58, 0x54] [ex_A, ex_D, ex_E] = Some ex_A"
  "find_long_name [0x44] [ex_A, ex_D, ex_E] = Some ex_D"
  "find_long_name [0x45] [ex_A, ex_D, ex_E] = Some ex_E"
  by (simp_all add: find_long_name_def ex_entries keq_def cstr_def)

lemma concat_replicates: "concat (replicate n (replicate m x)) = replicate (n * m) x"
  by (induction n) (simp_all add: replicate_add)

lemma ex_D_empty: "isValidEmpty (file_bytes ex_part ex_disk [5])"
proof -
  have r: "rest_empty (ex_dir (ex_dot_slots 5)) 64"
    by (subst rest_empty.simps) (simp add: ex_dir_def ex_dot_slots_def nth_append concat_replicates)
  show ?thesis
    using r by (simp add: file_bytes_def ex_cluster isValidEmpty_def)
       (simp add: ex_dir_def ex_dot_slots_def ex_slot_def nth_append concat_replicates spaces)
qed

lemmas name_eval = Let_def base_part_def ext_part_def kfind_last_def ksubstr_def of_buf_def keq_def cstr_def
  kempty_def kstrip_def isspace_def islower_def isupper_def isalpha_def isalnum_def isdigit_def toupper_def
  sfn_upper_def isValidSFNCharacter_def strchr_hit_def sfn_special_def sfn_invalid_def with_extension_def
  slice_def rep_def

text \<open>Creating \<open>new.txt\<close> in the root directory: it needs a long-name entry and gets slots 3 and 4.\<close>

definition ex_new :: bytes where
  "ex_new = [0x6E, 0x65, 0x77, 0x2E, 0x74, 0x78, 0x74]"

lemma ex_root_data: "ex_dir ex_root_slots = concat ex_root_slots @ replicate 416 0"
  by (simp add: ex_dir_def ex_root_slots_def concat_replicates)

lemma ex_root_first:
  "ex_dir ex_root_slots ! 0 = 0x41" "ex_dir ex_root_slots ! 32 = 0x44" "ex_dir ex_root_slots ! 64 = 0x45"
  "ex_dir ex_root_slots ! 96 = 0" "ex_dir ex_root_slots ! 128 = 0" "length (ex_dir ex_root_slots) = 512"
  unfolding ex_root_data by (simp_all add: ex_root_slots_def nth_append ex_slot_bytes)

lemma ex_find_slot: "find_slot (ex_dir ex_root_slots) 2 = 96"
proof -
  have "[0..<512 div 32 + 1] = [0, 1, 2, 3] @ [4..<17]"
    by (simp add: upt_conv_Cons)
  moreover have "[0..<2 :: nat] = [0, 1]" by (simp add: upt_conv_Cons)
  ultimately show ?thesis by (simp add: find_slot_def ex_root_first)
qed

lemma ex_needsLFN: "lfn_count ex_new = 1"
  by (simp add: lfn_count_def ex_new_def needsLFN_def name_eval)

lemma ex_createable: "createable ex_part ex_disk ex_root [2] ex_new"
proof -
  have "file_bytes ex_part ex_disk [2] = ex_dir ex_root_slots" by (simp add: file_bytes_def ex_cluster)
  moreover have "insertable (slots (ex_dir ex_root_slots)) 3 (Suc (Suc 0))"
    unfolding slots_ex_dir [OF ex_slots_32(1)]
    by (simp add: insertable_def ex_root_slots_def ex_slot_bytes list_all_iff nth_append)
  ultimately show ?thesis
    using ex_find_slot [unfolded numeral_2_eq_2]
    by (simp add: createable_def ex_root_fields ex_dir_ok ex_csize MAX_DIR_SIZE_def ascii_name_def ex_needsLFN)
      (simp add: ex_new_def)
qed

lemma ex_short_fields:
  "e_shortName ex_A = [0x41, 0x20, 0x20, 0x20, 0x20, 0x20, 0x20, 0x20, 0x54, 0x58, 0x54]"
  "e_shortName ex_D = 0x44 # replicate 10 0x20" "e_shortName ex_E = 0x45 # replicate 10 0x20"
  by (simp_all add: ex_A_def ex_D_def ex_E_def ex_root_slots_def ex_slot_bytes spaces mkDirectoryEntry_def of_buf_def)

lemma ex_short_names:
  "existing_short_names [ex_A, ex_D, ex_E] ex_new [] = Some (Some [[0x41, 0x2E, 0x54, 0x58, 0x54], [0x44], [0x45]])"
  by (simp add: ex_entries ex_new_def dotted_short_name_def ex_short_fields spaces name_eval)

lemma ex_sfn:
  "generateUniqueShortName ex_new [[0x41, 0x2E, 0x54, 0x58, 0x54], [0x44], [0x45]] =
    [0x4E, 0x45, 0x57, 0x2E, 0x54, 0x58, 0x54]"
  by (simp add: generateUniqueShortName_def ex_new_def name_eval)

end
