(* ===== verification/Fat_Dir_Laws.thy ===== *)
theory Fat_Dir_Laws
  imports Fat_Example
begin

text \<open>
  The properties of names, directory entries, files and directories, each with its application
  to the example volume.
\<close>

section \<open>Walking\<close>

text \<open>
  Path resolution against a relation: \<open>path_to p d c ts e\<close> walks the directories on the disk
  along the components \<open>ts\<close> of a path. \<open>resolvePathToEntry\<close> returns the entry the walk ends at.
\<close>

inductive path_to :: "part \<Rightarrow> vdisk \<Rightarrow> u32 \<Rightarrow> bytes list \<Rightarrow> DirectoryEntry \<Rightarrow> bool" for p d where
  path_here: "getDirectoryEntries p d c = Some es \<Longrightarrow> find_token t es = Some e \<Longrightarrow> path_to p d c [t] e"
| path_down: "getDirectoryEntries p d c = Some es \<Longrightarrow> find_token t es = Some e \<Longrightarrow> isDirectory e \<Longrightarrow>
    path_to p d (getFirstCluster e) ts e' \<Longrightarrow> path_to p d c (t # ts) e'"

inductive_cases path_to_NilE: "path_to p d c [] e"
inductive_cases path_to_ConsE: "path_to p d c (t # ts) e"

definition token_ok :: "bytes \<Rightarrow> bool" where
  "token_ok t \<longleftrightarrow> t \<noteq> [] \<and> 0x2F \<notin> set t \<and> 0 \<notin> set t"

lemma token_not_empty: "token_ok t \<Longrightarrow> \<not> kempty t"
  by (auto simp: token_ok_def kempty_id)

lemma path_to_not_nil: "path_to p d c ts e \<Longrightarrow> ts \<noteq> []"
  by (auto elim: path_to_NilE)

lemma path_to_resolve:
  "path_to p d c ts e \<Longrightarrow> list_all token_ok ts \<Longrightarrow> resolve_loop p d ts c = Some e"
proof (induction rule: path_to.induct)
  case (path_here c es t e)
  then show ?case by (simp add: token_not_empty)
next
  case (path_down c es t e ts e')
  then show ?case by (simp add: token_not_empty path_to_not_nil)
qed

lemma resolve_path_to:
  "resolve_loop p d ts c = Some e \<Longrightarrow> e \<noteq> emptyDirectoryEntry \<Longrightarrow> list_all token_ok ts \<Longrightarrow> ts \<noteq> [] \<Longrightarrow>
   path_to p d c ts e"
proof (induction p d ts c rule: resolve_loop.induct)
  case (1 p d c)
  then show ?case by simp
next
  case (2 p d t ts c)
  then have ne: "\<not> kempty t" by (simp add: token_not_empty)
  with 2 show ?case
    by (auto split: Option.bind_splits option.splits if_splits intro: path_here path_down)
qed

lemma resolvePathToEntry_join:
  assumes "list_all token_ok ts" and "ts \<noteq> []"
  shows "resolvePathToEntry p d (join_path 0x2F ts) = resolve_loop p d ts (rootCluster p)"
proof -
  have "ksplit (join_path 0x2F ts) 0x2F True = ts"
    using assms(1) by (intro ksplit_join) (auto simp: token_ok_def list_all_iff)
  moreover have "\<not> (length ts = 1 \<and> kempty (hd ts))"
    using assms token_not_empty by (cases ts) auto
  moreover have "\<not> kempty (join_path 0x2F ts)" "hd (join_path 0x2F ts) = 0x2F"
    using assms(2) by (auto simp: neq_Nil_conv join_path_def kempty_def)
  ultimately show ?thesis using assms(2) by (auto simp: resolvePathToEntry_def Let_def)
qed

lemma resolvePathToEntry_iff:
  assumes "list_all token_ok ts" and "ts \<noteq> []" and "e \<noteq> emptyDirectoryEntry"
  shows "resolvePathToEntry p d (join_path 0x2F ts) = Some e \<longleftrightarrow> path_to p d (rootCluster p) ts e"
  unfolding resolvePathToEntry_join [OF assms(1,2)]
  using path_to_resolve [of p d "rootCluster p" ts e] resolve_path_to [of p d ts "rootCluster p" e] assms
  by blast

section \<open>The end marker\<close>

text \<open>
  \<open>insert_entries\<close> turns a deleted slot behind the new entries into the end of the directory:
  the entry behind it is no longer listed.
\<close>

definition trunc_slot :: "u8 \<Rightarrow> bytes" where
  "trunc_slot c = c # replicate 10 0x20 @ 0x20 # replicate 20 0"

lemma insert_hides_entry:
  "\<exists>data. length (listing 2 (slots data)) = 1 \<and> find_slot data 1 = 0 \<and>
     (\<exists>data'. insert_entries data 0 [trunc_slot 0x41] = Some data' \<and>
        map e_shortName (listing 2 (slots data')) = [[0x41] @ replicate 10 0x20])"
proof (intro exI conjI)
  let ?old = "[trunc_slot 0xE5, trunc_slot 0xE5, trunc_slot 0x42]"
  let ?new = "[trunc_slot 0x41, 0x00 # tl (trunc_slot 0xE5), trunc_slot 0x42]"
  let ?data = "concat ?old"
  have l32: "list_all (\<lambda>s. length s = 32) ?old" "list_all (\<lambda>s. length s = 32) ?new"
    by (simp_all add: trunc_slot_def)
  show "length (listing 2 (slots ?data)) = 1"
    unfolding slots_concat [OF l32(1)] by (simp add: listing_def trunc_slot_def nth_append)
  show "find_slot ?data 1 = 0"
    by (simp add: find_slot_def trunc_slot_def upt_conv_Cons)
  show "insert_entries ?data 0 [trunc_slot 0x41] = Some (concat ?new)"
    by (simp add: insert_entries_def resize_bytes_def blit_def mark_end_def trunc_slot_def nth_append list_update_append)
  show "map e_shortName (listing 2 (slots (concat ?new))) = [[0x41] @ replicate 10 0x20]"
    unfolding slots_concat [OF l32(2)]
    by (simp add: listing_def trunc_slot_def nth_append mkDirectoryEntry_def dentry_of_bytes_def of_buf_def)
qed

section \<open>Directories\<close>

text \<open>C3: Creating a file in a directory with room succeeds, and the listing the code then reads
  from the disk is the old listing with exactly the new entry added, under its name, with the
  unique short name; the table keeps all its chains and no other cluster changes.\<close>

theorem createFile_adds:
  assumes "part_ok p" and "disk_ok p d" and "createable p d dir dcs name"
    and "existing_short_names (dir_list p d dir dcs) name [] = Some (Some names)"
    and "\<not> kempty (generateUniqueShortName name names)" and "attributes AND 0x3F \<noteq> 0x0F"
  shows "\<exists>e d' xs ys. createFile p dir name attributes d = Some (Some e, dir, d') \<and> disk_ok p d' \<and>
    getDirectoryEntries p d (getFirstCluster dir) = Some (xs @ ys) \<and>
    getDirectoryEntries p d' (getFirstCluster dir) =
      Some (xs @ mkDirectoryEntry (e_offset e) (getFirstCluster dir) (listed_name name)
        (new_dentry (generateUniqueShortName name names) attributes) # ys) \<and>
    e = mkDirectoryEntry (e_offset e) (getFirstCluster dir) name
      (new_dentry (generateUniqueShortName name names) attributes) \<and>
    same_except p d d' (set dcs) \<and>
    (\<forall>b. b < countClusters p \<longrightarrow> fat_tab p d' b = (if b = last dcs then 0x0FFFFFFF else fat_tab p d b))"
proof -
  have dir: "dir_ok p d dir dcs" using assms(3) by (simp add: createable_def)
  from createFile_effect [OF assms] show ?thesis
    using getDirectoryEntries_list [OF assms(1,2) dir] getDirectoryEntries_list [OF assms(1)] by fastforce
qed

theorem createFile_adds_witness:
  "\<exists>e d' es. createFile ex_part ex_root ex_new 0x20 ex_disk = Some (Some e, ex_root, d') \<and>
     getDirectoryEntries ex_part d' 2 = Some es \<and> length es = 4 \<and> e_longName e = ex_new"
proof -
  have r: "\<not> kempty (generateUniqueShortName ex_new [[0x41, 0x2E, 0x54, 0x58, 0x54], [0x44], [0x45]])"
    by (simp add: ex_sfn kempty_def)
  have a: "(0x20 :: u8) AND 0x3F \<noteq> 0x0F" by simp
  obtain e d' xs ys where e: "createFile ex_part ex_root ex_new 0x20 ex_disk = Some (Some e, ex_root, d')"
    "getDirectoryEntries ex_part ex_disk (getFirstCluster ex_root) = Some (xs @ ys)"
    "getDirectoryEntries ex_part d' (getFirstCluster ex_root) =
      Some (xs @ mkDirectoryEntry (e_offset e) (getFirstCluster ex_root) (listed_name ex_new)
        (new_dentry (generateUniqueShortName ex_new [[0x41, 0x2E, 0x54, 0x58, 0x54], [0x44], [0x45]]) 0x20) # ys)"
    "e = mkDirectoryEntry (e_offset e) (getFirstCluster ex_root) ex_new
      (new_dentry (generateUniqueShortName ex_new [[0x41, 0x2E, 0x54, 0x58, 0x54], [0x44], [0x45]]) 0x20)"
    using createFile_adds [OF ex_part_ok ex_disk_ok ex_createable
        ex_short_names [folded ex_dir_list(1)] r a] by blast
  have "xs @ ys = [ex_A, ex_D, ex_E]"
    using e(2) getDirectoryEntries_list [OF ex_part_ok ex_disk_ok ex_dir_ok(1)] by (simp add: ex_dir_list)
  from arg_cong [OF this, of length] have "length xs + length ys = 3" by simp
  moreover have "e_longName e = ex_new"
    by (subst e(4)) (simp add: mkDirectoryEntry_def ex_new_def kempty_def)
  ultimately show ?thesis using e(1,3) by (simp add: ex_root_fields)
qed

text \<open>C4: Deleting a file succeeds, takes exactly its entry (with its long-name slots) out of the
  listing of the directory, frees exactly the clusters of its chain and changes no data outside
  the directory.\<close>

theorem deleteFile_removes:
  assumes "part_ok p" and "disk_ok p d" and "dir_ok p d parent dcs"
    and "find_long_name name (dir_list p d parent dcs) = Some x" and "\<not> isDirectory x"
    and "file_ok p d x cs" and "set cs \<inter> set dcs = {}" and "cs = [] \<or> 2 < getFirstCluster x"
  shows "\<exists>d' xs ys. deleteFile p parent name d = Some (True, d') \<and> disk_ok p d' \<and>
    getDirectoryEntries p d (getFirstCluster parent) = Some (xs @ x # ys) \<and>
    getDirectoryEntries p d' (getFirstCluster parent) = Some (xs @ ys) \<and>
    (\<forall>b. b < countClusters p \<longrightarrow> fat_tab p d' b = (if b \<in> set cs then 0 else fat_tab p d b)) \<and>
    same_except p d d' (set dcs)"
  using deleteFile_effect [OF assms] getDirectoryEntries_list [OF assms(1,2,3)]
    getDirectoryEntries_list [OF assms(1)] by fastforce

theorem deleteFile_removes_witness:
  "\<exists>d'. deleteFile ex_part ex_root [0x41, 0x2E, 0x54, 0x58, 0x54] ex_disk = Some (True, d') \<and>
     getDirectoryEntries ex_part d' 2 = Some [ex_D, ex_E] \<and> fat_tab ex_part d' 4 = 0"
proof -
  have f: "find_long_name [0x41, 0x2E, 0x54, 0x58, 0x54] (dir_list ex_part ex_disk ex_root [2]) = Some ex_A"
    by (simp add: ex_dir_list ex_find)
  have j: "set [3, 4] \<inter> set [2 :: u32] = {}" "[3, 4] = [] \<or> 2 < getFirstCluster ex_A"
    by (simp_all add: ex_entries)
  obtain d' xs ys where r: "deleteFile ex_part ex_root [0x41, 0x2E, 0x54, 0x58, 0x54] ex_disk = Some (True, d')"
    "getDirectoryEntries ex_part ex_disk (getFirstCluster ex_root) = Some (xs @ ex_A # ys)"
    "getDirectoryEntries ex_part d' (getFirstCluster ex_root) = Some (xs @ ys)"
    "\<forall>b. b < countClusters ex_part \<longrightarrow> fat_tab ex_part d' b = (if b \<in> set [3, 4] then 0 else fat_tab ex_part ex_disk b)"
    using deleteFile_removes [OF ex_part_ok ex_disk_ok ex_dir_ok(1) f ex_entries(11) ex_file_ok(1) j] by blast
  have "e_longName ex_A \<noteq> e_longName ex_D" "e_longName ex_A \<noteq> e_longName ex_E" by (simp_all add: ex_entries)
  then have "xs @ ys = [ex_D, ex_E]"
    using r(2) getDirectoryEntries_list [OF ex_part_ok ex_disk_ok ex_dir_ok(1)]
    by (auto simp: ex_dir_list Cons_eq_append_conv)
  with r show ?thesis by (auto simp: ex_root_fields)
qed

text \<open>A directory whose listing holds more (or less) than the two dot entries is never deleted:
  the operation reports failure and leaves the disk as it is.\<close>

theorem deleteDirectory_keeps_nonempty:
  assumes "part_ok p" and "disk_ok p d" and "dir_ok p d parent dcs"
    and "find_long_name name (dir_list p d parent dcs) = Some x" and "dir_ok p d x tcs"
    and "length (dir_list p d x tcs) \<noteq> 2"
  shows "deleteDirectory p parent name d = Some (False, d)"
  using assms by (rule deleteDirectory_refuses)

theorem deleteDirectory_keeps_nonempty_witness:
  "deleteDirectory ex_part ex_root [0x45] ex_disk = Some (False, ex_disk)"
  using ex_part_ok ex_disk_ok ex_dir_ok(1) _ ex_dir_ok(3)
  by (rule deleteDirectory_keeps_nonempty) (simp_all add: ex_dir_list ex_find)

text \<open>Deleting an empty directory succeeds, takes exactly its entry out of the parent's listing
  and frees exactly its chain.\<close>

theorem deleteDirectory_removes:
  assumes "part_ok p" and "disk_ok p d" and "dir_ok p d parent dcs"
    and "find_long_name name (dir_list p d parent dcs) = Some x" and "isDirectory x"
    and "2 < getFirstCluster x" and "dir_ok p d x tcs" and "isValidEmpty (file_bytes p d tcs)"
    and "set tcs \<inter> set dcs = {}"
  shows "\<exists>d' xs ys. deleteDirectory p parent name d = Some (True, d') \<and> disk_ok p d' \<and>
    getDirectoryEntries p d (getFirstCluster parent) = Some (xs @ x # ys) \<and>
    getDirectoryEntries p d' (getFirstCluster parent) = Some (xs @ ys) \<and>
    (\<forall>b. b < countClusters p \<longrightarrow> fat_tab p d' b = (if b \<in> set tcs then 0 else fat_tab p d b)) \<and>
    same_except p d d' (set dcs)"
  using deleteDirectory_effect [OF assms] getDirectoryEntries_list [OF assms(1,2,3)]
    getDirectoryEntries_list [OF assms(1)] by fastforce

theorem deleteDirectory_removes_witness:
  "\<exists>d'. deleteDirectory ex_part ex_root [0x44] ex_disk = Some (True, d') \<and> fat_tab ex_part d' 5 = 0"
proof -
  have f: "find_long_name [0x44] (dir_list ex_part ex_disk ex_root [2]) = Some ex_D"
    by (simp add: ex_dir_list ex_find)
  have c: "2 < getFirstCluster ex_D" "set [5] \<inter> set [2 :: u32] = {}" by (simp_all add: ex_entries)
  from deleteDirectory_removes [OF ex_part_ok ex_disk_ok ex_dir_ok(1) f ex_entries(12) c(1) ex_dir_ok(2) ex_D_empty c(2)]
  obtain d' where "deleteDirectory ex_part ex_root [0x44] ex_disk = Some (True, d')"
    "\<forall>b. b < countClusters ex_part \<longrightarrow> fat_tab ex_part d' b = (if b \<in> set [5] then 0 else fat_tab ex_part ex_disk b)"
    by blast
  then show ?thesis by auto
qed

text \<open>C5: A path resolves to an entry exactly when the walk along its components through the
  directories on the disk ends at that entry.\<close>

theorem resolvePathToEntry_walks:
  assumes "list_all token_ok ts" and "ts \<noteq> []" and "e \<noteq> emptyDirectoryEntry"
  shows "resolvePathToEntry p d (join_path 0x2F ts) = Some e \<longleftrightarrow> path_to p d (rootCluster p) ts e"
  using assms by (rule resolvePathToEntry_iff)

theorem resolvePathToEntry_walks_witness:
  "resolvePathToEntry ex_part ex_disk [0x2F, 0x41, 0x2E, 0x54, 0x58, 0x54] = Some ex_A"
proof -
  have t: "list_all token_ok [[0x41, 0x2E, 0x54, 0x58, 0x54]]" "[[0x41, 0x2E, 0x54, 0x58, 0x54 :: u8]] \<noteq> []"
    by (simp_all add: token_ok_def)
  have "e_fileSize ex_A \<noteq> e_fileSize emptyDirectoryEntry" by (simp add: ex_entries emptyDirectoryEntry_def)
  then have e: "ex_A \<noteq> emptyDirectoryEntry" by auto
  have "find_token [0x41, 0x2E, 0x54, 0x58, 0x54] [ex_A, ex_D, ex_E] = Some ex_A"
    by (simp add: find_token_def ex_entries keq_def)
  then have "path_to ex_part ex_disk (rootCluster ex_part) [[0x41, 0x2E, 0x54, 0x58, 0x54]] ex_A"
    using getDirectoryEntries_list [OF ex_part_ok ex_disk_ok ex_dir_ok(1)]
    by (intro path_here) (simp_all add: ex_dir_list ex_root_fields)
  then show ?thesis using resolvePathToEntry_walks [OF t e, of ex_part ex_disk] by (simp add: join_path_def)
qed

end
