(* ===== verification/Fat_File_Laws.thy ===== *)
theory Fat_File_Laws
  imports Fat_Example
begin

text \<open>
  The properties of file contents, of short and long names, and of the encodings under them,
  with their applications.
\<close>

section \<open>Contents\<close>

text \<open>C6: Appending to a file on a volume with room succeeds, and the file then holds its old bytes
  followed by the new ones; its chain keeps the exact length the size needs and stays apart from
  the directory's.\<close>

theorem append_entry_appends:
  assumes "part_ok p" and "disk_ok p d" and "file_ok p d e cs" and "entry_ok p d e dcs"
    and "set cs \<inter> set dcs = {}" and "sized p e cs" and "length cs \<le> MAX_CHAIN"
    and "unat (e_fileSize e) + length data \<le> 0x7FFFFFFF" and "length data \<le> room p d"
    and "cs = [] \<Longrightarrow> data \<noteq> [] \<Longrightarrow> \<exists>b \<in> free_set p (fat_tab p d). unat b < 65536"
  shows "\<exists>e' d' cs'. append_entry p e data d = Some (True, e', d') \<and> disk_ok p d' \<and>
    file_ok p d' e' cs' \<and> entry_ok p d' e' dcs \<and> set cs' \<inter> set dcs = {} \<and> sized p e' cs' \<and>
    unat (e_fileSize e') = unat (e_fileSize e) + length data \<and>
    content p d' e' cs' = content p d e cs @ data"
  using append_entry_spec [OF assms] by blast

theorem append_entry_appends_witness:
  "\<exists>e' d' cs'. append_entry ex_part ex_A [0x68, 0x69] ex_disk = Some (True, e', d') \<and>
     content ex_part d' e' cs' = content ex_part ex_disk ex_A [3, 4] @ [0x68, 0x69]"
proof -
  have r: "length [0x68, 0x69 :: u8] \<le> room ex_part ex_disk" using ex_room by simp
  have s: "unat (e_fileSize ex_A) + length [0x68, 0x69 :: u8] \<le> 0x7FFFFFFF" by (simp add: ex_entries)
  have j: "set [3, 4] \<inter> set [2 :: u32] = {}" "length [3, 4 :: u32] \<le> MAX_CHAIN" by (simp_all add: MAX_CHAIN_def)
  show ?thesis
    using append_entry_appends [OF ex_part_ok ex_disk_ok ex_file_ok(1) ex_entry_ok j(1) ex_file_ok(2) j(2) s r]
    by blast
qed

text \<open>C7: Writing a file replaces its content: whatever it held, it then holds exactly the given
  bytes, with the size set to their number.\<close>

theorem write_entry_replaces:
  assumes "part_ok p" and "disk_ok p d" and "file_ok p d e cs" and "entry_ok p d e dcs"
    and "set cs \<inter> set dcs = {}" and "cs = [] \<or> 2 < getFirstCluster e" and "length data \<le> 0x7FFFFFFF"
    and "length data \<le> room p d + csize p * length cs"
    and "cs = [] \<Longrightarrow> data \<noteq> [] \<Longrightarrow> \<exists>b \<in> free_set p (fat_tab p d). unat b < 65536"
  shows "\<exists>e' d' cs'. write_entry p e data d = Some (True, e', d') \<and> disk_ok p d' \<and>
    file_ok p d' e' cs' \<and> entry_ok p d' e' dcs \<and> set cs' \<inter> set dcs = {} \<and> sized p e' cs' \<and>
    unat (e_fileSize e') = length data \<and> content p d' e' cs' = data"
  using assms by (rule write_entry_spec)

theorem write_entry_replaces_witness:
  "\<exists>e' d' cs'. write_entry ex_part ex_A (replicate 700 0x2A) ex_disk = Some (True, e', d') \<and>
     content ex_part d' e' cs' = replicate 700 0x2A"
proof -
  have j: "set [3, 4] \<inter> set [2 :: u32] = {}" "[3, 4] = [] \<or> 2 < getFirstCluster ex_A"
    by (simp_all add: ex_entries)
  have l: "length (replicate 700 (0x2A :: u8)) \<le> 0x7FFFFFFF"
    "length (replicate 700 (0x2A :: u8)) \<le> room ex_part ex_disk + csize ex_part * length [3, 4 :: u32]"
    using ex_room by (simp_all add: ex_csize)
  show ?thesis
    using write_entry_replaces [OF ex_part_ok ex_disk_ok ex_file_ok(1) ex_entry_ok j l] by blast
qed

text \<open>A ranged read returns exactly the bytes of the content in the range, shortened at its end.\<close>

theorem read_entry_range:
  assumes "part_ok p" and "disk_ok p d" and "file_ok p d e cs" and "sized p e cs"
    and "length cs \<le> MAX_CHAIN" and "unat (e_fileSize e) \<le> 0x7FFFFFFF"
  shows "read_entry p d e offset n = Some (take (unat n) (drop (unat offset) (content p d e cs)))"
  using assms by (rule read_entry_content)

theorem read_entry_range_witness:
  "read_entry ex_part ex_disk ex_A 500 50 = Some (take 50 (drop 500 (content ex_part ex_disk ex_A [3, 4])))"
proof -
  have "read_entry ex_part ex_disk ex_A 500 50 =
      Some (take (unat (50 :: u32)) (drop (unat (500 :: u32)) (content ex_part ex_disk ex_A [3, 4])))"
    using ex_part_ok ex_disk_ok ex_file_ok by (rule read_entry_range) (simp_all add: MAX_CHAIN_def ex_entries)
  then show ?thesis by simp
qed

section \<open>Names\<close>

text \<open>The generated short name differs from every name in use, and is a base of at most eight
  and an extension of at most three legal characters.\<close>

theorem generateUniqueShortName_fresh:
  assumes "length existing < 999999"
  shows "(\<forall>x \<in> set existing. \<not> keq x (generateUniqueShortName longName existing)) \<and>
    (\<exists>b e. generateUniqueShortName longName existing = with_extension b e \<and> length b \<le> 8 \<and>
       length e \<le> 3 \<and> (\<forall>c \<in> set b \<union> set e. sfn_char c))"
  using generateUniqueShortName_spec [where longName = longName and existing = existing] assms by blast

theorem generateUniqueShortName_fresh_witness:
  "\<not> keq [0x44] (generateUniqueShortName ex_new [[0x41, 0x2E, 0x54, 0x58, 0x54], [0x44]])"
  using generateUniqueShortName_fresh [of "[[0x41, 0x2E, 0x54, 0x58, 0x54], [0x44]]" ex_new] by simp

text \<open>The long-name entries written before a short entry are what the directory reader gives
  that entry as its name, wherever they stand: splitting into 13 units, order numbers, padding and
  the checksum all fit together.\<close>

theorem long_name_read_back:
  assumes "lfn_utf16 name = Some us" and "utf16le_to_utf8 us = name" and "name \<noteq> []"
    and "0 \<notin> set us" and "0xFFFF \<notin> set us" and "length us \<le> 403"
    and "createLFNEntries name (short_checksum s) = Some lfns" and "regular s"
    and "length s = 32"
  shows "dir_loop dc (concat (lfns @ [s])) 0 [] 0 [] =
    Some [mkDirectoryEntry (of_nat (32 * length lfns)) dc name (dentry_of_bytes s)]"
proof -
  have "list_all (\<lambda>s. length s = 32) (lfns @ [s])"
    using assms(7,9) by (auto simp: createLFNEntries_def Let_def list_all_iff split: Option.bind_splits)
  from slots_concat [OF this] length_concat_slots [OF this] show ?thesis
    using dir_loop_listing [of "concat (lfns @ [s])" "length (lfns @ [s])" dc]
      scan_long_entry [OF assms(1-8), of dc 0 "[]" 0 "[]"]
    by (simp add: listing_def)
qed

definition ex_long :: bytes where
  "ex_long = [0x61, 0x20, 0x6C, 0x6F, 0x6E, 0x67, 0x20, 0x6E, 0x61, 0x6D, 0x65, 0x2E, 0x74, 0x78, 0x74]"

theorem long_name_read_back_witness:
  "\<exists>lfns. createLFNEntries ex_long (short_checksum (ex_root_slots ! 0)) = Some lfns \<and> length lfns = 2 \<and>
     dir_loop 2 (concat (lfns @ [ex_root_slots ! 0])) 0 [] 0 [] =
       Some [mkDirectoryEntry (of_nat (32 * length lfns)) 2 ex_long (dentry_of_bytes (ex_root_slots ! 0))]"
proof -
  have a: "list_all (\<lambda>c. c < 0x80) ex_long" by (simp add: ex_long_def)
  have n: "ex_long \<noteq> []" "0 \<notin> set (map ucast ex_long :: u16 list)" "0xFFFF \<notin> set (map ucast ex_long :: u16 list)"
    "length (map ucast ex_long :: u16 list) \<le> 403"
    by (simp_all add: ex_long_def)
  have s: "regular (ex_root_slots ! 0)" "length (ex_root_slots ! 0) = 32"
    by (simp_all add: regular_def ex_root_slots_def ex_slot_bytes)
  obtain lfns where l: "createLFNEntries ex_long (short_checksum (ex_root_slots ! 0)) = Some lfns" "length lfns = 2"
    by (simp add: createLFNEntries_def utf8_ascii(2) [OF a]) (simp add: ex_long_def)
  show ?thesis using long_name_read_back [OF utf8_ascii(2,1) [OF a] n l(1) s, of 2] l by blast
qed

text \<open>Reading an entry into its object and writing it back keeps every field except the high
  word of the first cluster, which the object does not hold.\<close>

theorem entry_written_back:
  assumes "length b = 32"
  shows "map_option dentry_bytes (getFatDentry (mkDirectoryEntry off dc ln (dentry_of_bytes b))) =
    Some (take 20 b @ [0, 0] @ drop 22 b)"
proof -
  have l: "length (d_shortName (dentry_of_bytes b)) = 11" using assms by (simp add: dentry_of_bytes_def)
  have "dentry_bytes (dentry_of_bytes b) = b" by (rule dentry_bytes_of_bytes [OF assms])
  moreover have "dentry_bytes (d\<lparr>d_firstClusterHigh := 0\<rparr>) = take 20 (dentry_bytes d) @ [0, 0] @ drop 22 (dentry_bytes d)"
    if "length (d_shortName d) = 11" for d
    using that by (simp add: dentry_bytes_def bytes16_def bytes32_def)
  ultimately show ?thesis by (simp add: getFatDentry_mk [OF l] l)
qed

theorem entry_written_back_witness:
  "map_option dentry_bytes (getFatDentry (mkDirectoryEntry 0 2 [] (dentry_of_bytes (replicate 32 7)))) =
     Some (replicate 20 7 @ [0, 0] @ replicate 10 7)"
  using entry_written_back [of "replicate 32 7" 0 2 "[]"] by simp

text \<open>Text without surrogates survives the two conversions of the file system: encoded to UTF-8
  and decoded again, by either decoder, it is the same.\<close>

theorem utf16_utf8_roundtrip:
  assumes "list_all (\<lambda>u. \<not> surrogate u) us"
  shows "utf8_to_utf16le (utf16le_to_utf8 us) = Some us \<and> lfn_utf16 (utf16le_to_utf8 us) = Some us"
  using utf_roundtrip [OF assms] by blast

theorem utf16_utf8_roundtrip_witness:
  "utf8_to_utf16le (utf16le_to_utf8 [0x0041, 0x00E9, 0x20AC]) = Some [0x0041, 0x00E9, 0x20AC]"
  using utf16_utf8_roundtrip [of "[0x0041, 0x00E9, 0x20AC]"] by (simp add: surrogate_def)

text \<open>A path joined from non-empty components without separators is split back into them.\<close>

theorem str_split_join:
  assumes "list_all (\<lambda>t. t \<noteq> [] \<and> c \<notin> set t \<and> 0 \<notin> set t) ts"
  shows "str_split (rep (join_path c ts)) c True = map rep ts"
  using ksplit_join [OF assms] by (simp add: str_split_rep)

theorem str_split_join_witness:
  "str_split (rep [0x2F, 0x61, 0x2F, 0x62]) 0x2F True = [[0x61, 0], [0x62, 0 :: u8]]"
  using str_split_join [of "0x2F" "[[0x61], [0x62 :: u8]]"] by (simp add: join_path_def rep_def)

end
