(* ===== verification/Heap.thy ===== *)
theory Heap
  imports Prelude
begin

text \<open>
  The kernel heap (\<open>palmyraOS/shared/memory/Heap.cpp\<close>): a doubly linked list of chunks, each a
  16-byte header followed by its block. The headers are a store from addresses to records, so
  that every pointer update of the code is an update of the store; reading an address without a
  header is \<open>None\<close>. Headers of merged chunks stay in the store, as they stay in memory.
  \<open>allocateMemory\<close>, the virtual function that provides pages, is the parameter \<open>am\<close>, with its
  own state in the heap record; \<open>None\<close> is a panic in it.
\<close>

section \<open>Definitions\<close>

record HeapChunk =
  c_size :: u32
  c_alloc :: bool
  c_next :: u32
  c_prev :: u32

record 'e heap =
  chunks :: "u32 \<Rightarrow> HeapChunk option"
  heapList :: u32
  totalMemory :: u32
  totalAllocatedMemory :: u32
  pages :: 'e

abbreviation HEADER :: u32 where "HEADER \<equiv> 16"

definition upd :: "u32 \<Rightarrow> (HeapChunk \<Rightarrow> HeapChunk) \<Rightarrow> 'e heap \<Rightarrow> 'e heap option" where
  "upd a f h = do { c \<leftarrow> chunks h a; Some (h\<lparr>chunks := (chunks h)(a \<mapsto> f c)\<rparr>) }"

definition isPhysicallyContiguous :: "u32 \<Rightarrow> HeapChunk \<Rightarrow> u32 \<Rightarrow> bool" where
  "isPhysicallyContiguous this c other \<longleftrightarrow> this + c_size c + HEADER = other"

definition split :: "u32 \<Rightarrow> u32 \<Rightarrow> 'e heap \<Rightarrow> 'e heap option" where
  "split this sz h =
     do { c \<leftarrow> chunks h this;
          if c_size c \<le> sz + HEADER then Some h
          else let new_chunk = this + HEADER + sz in do {
            let h1 = h\<lparr>chunks := (chunks h)(new_chunk \<mapsto>
                       \<lparr>c_size = c_size c - sz - HEADER, c_alloc = False, c_next = c_next c, c_prev = this\<rparr>)\<rparr>;
            h2 \<leftarrow> (if c_next c \<noteq> 0 then upd (c_next c) (c_prev_update (\<lambda>_. new_chunk)) h1 else Some h1);
            upd this (\<lambda>c. c\<lparr>c_next := new_chunk, c_size := sz\<rparr>) h2 } }"

definition merge_next :: "u32 \<Rightarrow> 'e heap \<Rightarrow> 'e heap option" where
  "merge_next this h =
     do { c \<leftarrow> chunks h this;
          if c_next c = 0 then Some h
          else do {
            n \<leftarrow> chunks h (c_next c);
            if \<not> c_alloc n \<and> isPhysicallyContiguous this c (c_next c) then do {
              h1 \<leftarrow> upd this (\<lambda>c. c\<lparr>c_size := c_size c + (c_size n + HEADER), c_next := c_next n\<rparr>) h;
              if c_next n \<noteq> 0 then upd (c_next n) (c_prev_update (\<lambda>_. this)) h1 else Some h1 }
            else Some h } }"

definition merge_prev :: "u32 \<Rightarrow> 'e heap \<Rightarrow> 'e heap option" where
  "merge_prev this h =
     do { c \<leftarrow> chunks h this;
          if c_prev c = 0 then Some h
          else do {
            p \<leftarrow> chunks h (c_prev c);
            if \<not> c_alloc p \<and> isPhysicallyContiguous (c_prev c) p this then do {
              h1 \<leftarrow> upd (c_prev c) (\<lambda>p. p\<lparr>c_size := c_size p + (c_size c + HEADER), c_next := c_next c\<rparr>) h;
              if c_next c \<noteq> 0 then upd (c_next c) (c_prev_update (\<lambda>_. c_prev c)) h1 else Some h1 }
            else Some h } }"

definition tryMerge :: "u32 \<Rightarrow> 'e heap \<Rightarrow> 'e heap option" where
  "tryMerge this h = do { h1 \<leftarrow> merge_next this h; merge_prev this h1 }"

partial_function (option) hole_loop :: "u32 \<Rightarrow> bool \<Rightarrow> 'e heap \<Rightarrow> u32 \<Rightarrow> u32 \<Rightarrow> u32 option" where
  "hole_loop sz page_align h chunk bestFit =
     (if chunk = 0 then Some bestFit
      else do {
        c \<leftarrow> chunks h chunk;
        if \<not> c_alloc c \<and> sz \<le> c_size c then
          if page_align \<and> (chunk + HEADER) AND 0xFFF \<noteq> 0 then hole_loop sz page_align h (c_next c) bestFit
          else if bestFit = 0 then hole_loop sz page_align h (c_next c) chunk
          else do {
            b \<leftarrow> chunks h bestFit;
            hole_loop sz page_align h (c_next c) (if c_size c < c_size b then chunk else bestFit) }
        else hole_loop sz page_align h (c_next c) bestFit })"

definition findSmallestHole :: "u32 \<Rightarrow> bool \<Rightarrow> 'e heap \<Rightarrow> u32 option" where
  "findSmallestHole sz page_align h = hole_loop sz page_align h (heapList h) 0"

partial_function (option) last_loop :: "'e heap \<Rightarrow> u32 \<Rightarrow> u32 option" where
  "last_loop h lastChunk =
     do { c \<leftarrow> chunks h lastChunk;
          if c_next c \<noteq> 0 then last_loop h (c_next c) else Some lastChunk }"

definition page_round :: "u32 \<Rightarrow> u32" where
  "page_round sz = (sz + HEADER + 0x1000 - 1) AND NOT 0xFFF"

definition requestMoreMemory :: "(u32 \<Rightarrow> 'e \<Rightarrow> (u32 \<times> 'e) option) \<Rightarrow> u32 \<Rightarrow> 'e heap \<Rightarrow> (u32 \<times> 'e heap) option" where
  "requestMoreMemory am sz h =
     (let sz' = page_round sz in do {
        (newMemory, e) \<leftarrow> am sz' (pages h);
        let h0 = h\<lparr>pages := e\<rparr> in
         if newMemory = 0 then Some (0, h0)
         else let h1 = h0\<lparr>chunks := (chunks h0)(newMemory \<mapsto>
                         \<lparr>c_size = sz' - HEADER, c_alloc = False, c_next = 0, c_prev = 0\<rparr>)\<rparr>
           in do {
             h2 \<leftarrow> (if heapList h1 = 0 then Some (h1\<lparr>heapList := newMemory\<rparr>)
                    else do { lastChunk \<leftarrow> last_loop h1 (heapList h1);
                              h' \<leftarrow> upd lastChunk (c_next_update (\<lambda>_. newMemory)) h1;
                              upd newMemory (c_prev_update (\<lambda>_. lastChunk)) h' });
             Some (newMemory, h2\<lparr>totalMemory := totalMemory h2 + sz'\<rparr>) } })"

definition alloc_at :: "u32 \<Rightarrow> u32 \<Rightarrow> 'e heap \<Rightarrow> (u32 \<times> 'e heap) option" where
  "alloc_at chunk actualSize h =
     do { h1 \<leftarrow> split chunk actualSize h;
          h2 \<leftarrow> upd chunk (c_alloc_update (\<lambda>_. True)) h1;
          c \<leftarrow> chunks h2 chunk;
          Some (chunk + HEADER, h2\<lparr>totalAllocatedMemory := totalAllocatedMemory h2 + c_size c\<rparr>) }"

definition alloc :: "(u32 \<Rightarrow> 'e \<Rightarrow> (u32 \<times> 'e) option) \<Rightarrow> u32 \<Rightarrow> bool \<Rightarrow> 'e heap \<Rightarrow> (u32 \<times> 'e heap) option" where
  "alloc am sz page_align h =
     (let actualSize = (if page_align then (sz + 0xFFF) AND NOT 0xFFF else sz) in
      if actualSize = 0 then Some (0, h)
      else do {
        chunk \<leftarrow> findSmallestHole actualSize page_align h;
        if chunk \<noteq> 0 then alloc_at chunk actualSize h
        else do {
          (_, h1) \<leftarrow> requestMoreMemory am actualSize h;
          chunk' \<leftarrow> findSmallestHole actualSize page_align h1;
          if chunk' = 0 then Some (0, h1) else alloc_at chunk' actualSize h1 } })"

partial_function (option) coalesce_loop :: "u32 \<Rightarrow> 'e heap \<Rightarrow> 'e heap option" where
  "coalesce_loop chunk h =
     (if chunk = 0 then Some h
      else do {
        c \<leftarrow> chunks h chunk;
        h1 \<leftarrow> (if \<not> c_alloc c then tryMerge chunk h else Some h);
        c1 \<leftarrow> chunks h1 chunk;
        coalesce_loop (c_next c1) h1 })"

definition coalesceFreeBlocks :: "'e heap \<Rightarrow> 'e heap option" where
  "coalesceFreeBlocks h = coalesce_loop (heapList h) h"

definition free :: "u32 \<Rightarrow> 'e heap \<Rightarrow> 'e heap option" where
  "free p h =
     (if p = 0 then Some h
      else let chunk = p - HEADER in do {
        h1 \<leftarrow> upd chunk (c_alloc_update (\<lambda>_. False)) h;
        c \<leftarrow> chunks h1 chunk;
        let h2 = h1\<lparr>totalAllocatedMemory := totalAllocatedMemory h1 - c_size c\<rparr> in do {
          h3 \<leftarrow> tryMerge chunk h2;
          coalesceFreeBlocks h3 } })"

definition expand :: "(u32 \<Rightarrow> 'e \<Rightarrow> (u32 \<times> 'e) option) \<Rightarrow> u32 \<Rightarrow> 'e heap \<Rightarrow> 'e heap option" where
  "expand am new_size h =
     (if new_size \<le> totalMemory h then Some h
      else do { (_, h1) \<leftarrow> requestMoreMemory am (new_size - totalMemory h) h;
                Some (h1\<lparr>totalMemory := new_size\<rparr>) })"

definition contract :: "u32 \<Rightarrow> 'e heap \<Rightarrow> u32 \<times> 'e heap" where
  "contract new_size h =
     (if new_size \<ge> totalMemory h then (totalMemory h, h)
      else (new_size, h\<lparr>totalMemory := new_size\<rparr>))"

section \<open>The list behind the pointers\<close>

type_synonym block = "u32 \<times> u32 \<times> bool"

fun first_addr :: "block list \<Rightarrow> u32" where
  "first_addr [] = 0"
| "first_addr ((a, sz, al) # bs) = a"

definition next_addr :: "block list \<Rightarrow> u32 \<Rightarrow> u32" where
  "next_addr bs n = (if bs = [] then n else first_addr bs)"

definition last_addr :: "u32 \<Rightarrow> block list \<Rightarrow> u32" where
  "last_addr p bs = (if bs = [] then p else fst (last bs))"

text \<open>The stretch \<open>bs\<close> of the list, after the chunk \<open>p\<close> and before the chunk \<open>n\<close>.\<close>

fun blinked :: "(u32 \<Rightarrow> HeapChunk option) \<Rightarrow> u32 \<Rightarrow> block list \<Rightarrow> u32 \<Rightarrow> bool" where
  "blinked m p [] n \<longleftrightarrow> True"
| "blinked m p ((a, sz, al) # bs) n \<longleftrightarrow>
     m a = Some \<lparr>c_size = sz, c_alloc = al, c_next = next_addr bs n, c_prev = p\<rparr> \<and> blinked m a bs n"

fun extent :: "block \<Rightarrow> nat set" where
  "extent (a, sz, al) = {unat a..<unat a + 16 + unat sz}"

fun block_ok :: "block \<Rightarrow> bool" where
  "block_ok (a, sz, al) \<longleftrightarrow> a \<noteq> 0 \<and> unat a + 16 + unat sz \<le> 4294967296"

fun apart :: "block list \<Rightarrow> bool" where
  "apart [] \<longleftrightarrow> True"
| "apart (b # bs) \<longleftrightarrow> block_ok b \<and> (\<forall>c \<in> set bs. extent b \<inter> extent c = {}) \<and> apart bs"

definition heap_is :: "'e heap \<Rightarrow> block list \<Rightarrow> bool" where
  "heap_is h bs \<longleftrightarrow> heapList h = next_addr bs 0 \<and> blinked (chunks h) 0 bs 0 \<and> apart bs"

definition same_rest :: "'e heap \<Rightarrow> 'e heap \<Rightarrow> bool" where
  "same_rest h h' \<longleftrightarrow> totalMemory h' = totalMemory h \<and> totalAllocatedMemory h' = totalAllocatedMemory h \<and>
     pages h' = pages h \<and> heapList h' = heapList h"

lemma same_rest_refl [simp]: "same_rest h h"
  by (simp add: same_rest_def)

lemma same_rest_trans: "same_rest a b \<Longrightarrow> same_rest b c \<Longrightarrow> same_rest a c"
  by (simp add: same_rest_def)

lemma next_addr_simps [simp]: "next_addr [] n = n" "next_addr (b # bs) n = fst b"
  by (simp_all add: next_addr_def) (cases b, simp)

lemma last_addr_simps [simp]: "last_addr p [] = p" "last_addr p (bs @ [b]) = fst b"
  by (simp_all add: last_addr_def)

lemma last_addr_Cons: "last_addr p (b # bs) = last_addr (fst b) bs"
  by (simp add: last_addr_def)

lemma next_addr_append: "next_addr (xs @ ys) n = next_addr xs (next_addr ys n)"
  by (cases xs) auto

lemma blinked_append:
  "blinked m p (xs @ ys) n \<longleftrightarrow> blinked m p xs (next_addr ys n) \<and> blinked m (last_addr p xs) ys n"
proof (induction xs arbitrary: p)
  case Nil
  then show ?case by simp
next
  case (Cons x xs)
  then show ?case by (cases x) (auto simp: next_addr_append last_addr_Cons)
qed

lemma blinked_frame: "a \<notin> fst ` set bs \<Longrightarrow> blinked (m(a \<mapsto> v)) p bs n = blinked m p bs n"
  by (induction m p bs n rule: blinked.induct) auto

lemma apart_append:
  "apart (xs @ ys) \<longleftrightarrow> apart xs \<and> apart ys \<and> (\<forall>x \<in> set xs. \<forall>y \<in> set ys. extent x \<inter> extent y = {})"
  by (induction xs) auto

lemma apart_ok: "apart bs \<Longrightarrow> b \<in> set bs \<Longrightarrow> block_ok b"
  by (induction bs) auto

lemma extent_addr: "unat (fst b) \<in> extent b"
  by (cases b) simp

lemma apart_addr:
  assumes "apart (xs @ b # ys)"
  shows "fst b \<notin> fst ` set xs" "fst b \<notin> fst ` set ys"
proof -
  have e: "unat (fst c) \<in> extent b \<inter> extent c" if "fst c = fst b" for c
    using extent_addr [of b] extent_addr [of c] that by simp
  show "fst b \<notin> fst ` set xs"
  proof
    assume "fst b \<in> fst ` set xs"
    then obtain c where "c \<in> set xs" "fst c = fst b" by auto
    with e [of c] assms show False by (auto simp: apart_append)
  qed
  show "fst b \<notin> fst ` set ys"
  proof
    assume "fst b \<in> fst ` set ys"
    then obtain c where "c \<in> set ys" "fst c = fst b" by auto
    with e [of c] assms show False by (auto simp: apart_append)
  qed
qed

lemma heap_is_at:
  assumes "heap_is h (xs @ (a, sz, al) # ys)"
  shows "chunks h a = Some \<lparr>c_size = sz, c_alloc = al, c_next = next_addr ys 0, c_prev = last_addr 0 xs\<rparr>"
    and "a \<noteq> 0"
proof -
  show "chunks h a = Some \<lparr>c_size = sz, c_alloc = al, c_next = next_addr ys 0, c_prev = last_addr 0 xs\<rparr>"
    using assms by (simp add: heap_is_def blinked_append)
  have "block_ok (a, sz, al)" using assms by (auto simp: heap_is_def apart_append)
  then show "a \<noteq> 0" by simp
qed

text \<open>The address of a neighbour is null exactly when there is none.\<close>

lemma next_addr_0: "apart bs \<Longrightarrow> next_addr bs 0 = 0 \<longleftrightarrow> bs = []"
  by (cases bs) auto

lemma last_addr_0: "apart bs \<Longrightarrow> last_addr 0 bs = 0 \<longleftrightarrow> bs = []"
  using apart_ok [of bs "last bs"] last_in_set [of bs] by (cases "last bs") (auto simp: last_addr_def)

section \<open>Merging\<close>

fun touch :: "block \<Rightarrow> block \<Rightarrow> bool" where
  "touch (a, sz, al) (b, sb, bl) \<longleftrightarrow> a + sz + HEADER = b"

fun join :: "block \<Rightarrow> block \<Rightarrow> block" where
  "join (a, sz, al) (b, sb, bl) = (a, sz + (sb + HEADER), al)"

abbreviation taken :: "block \<Rightarrow> bool" where "taken b \<equiv> snd (snd b)"

lemma touch_unat:
  assumes "block_ok (a, sz, al)" and "block_ok (b, sb, bl)" and "touch (a, sz, al) (b, sb, bl)"
  shows "unat b = unat a + unat sz + 16" "unat (sz + (sb + HEADER)) = unat sz + unat sb + 16"
proof -
  have le: "unat a + unat sz + 16 \<le> 4294967296" using assms(1) by simp
  have "unat a + unat sz + 16 \<noteq> 4294967296"
  proof
    assume "unat a + unat sz + 16 = 4294967296"
    then have "(of_nat (unat a + unat sz + 16) :: u32) = of_nat 4294967296" by simp
    then have "a + sz + 16 = 0" by simp
    then show False using assms(2,3) by auto
  qed
  then have lt: "unat a + unat sz + 16 < 4294967296" using le by simp
  have "unat (a + sz) = unat a + unat sz" using lt by (intro unat_add_small) simp
  then have "unat (a + sz + 16) = unat a + unat sz + 16" using lt by (subst unat_add_small) simp_all
  then show ub: "unat b = unat a + unat sz + 16" using assms(3) by auto
  have sb: "unat b + 16 + unat sb \<le> 4294967296" using assms(2) by simp
  have u16: "unat (sb + 16) = unat sb + 16"
    using sb ub by (subst unat_add_small) simp_all
  have "a \<noteq> 0" using assms(1) by simp
  then have "0 < unat a" by (simp add: unat_gt_0)
  then show "unat (sz + (sb + HEADER)) = unat sz + unat sb + 16"
    using sb ub u16 by (subst unat_add_small) simp_all
qed

lemma extent_join:
  assumes "block_ok x" and "block_ok y" and "touch x y"
  shows "extent (join x y) = extent x \<union> extent y" "block_ok (join x y)" "fst (join x y) = fst x"
    "taken (join x y) = taken x"
proof -
  obtain a sz al b sb bl where xy: "x = (a, sz, al)" "y = (b, sb, bl)" by (cases x, cases y)
  note u = touch_unat [OF assms [unfolded xy]]
  show "extent (join x y) = extent x \<union> extent y"
    unfolding xy by (simp add: u(2)) (use u(1) in auto)
  show "block_ok (join x y)" using assms(1,2) u unfolding xy by (simp add: u(2))
  show "fst (join x y) = fst x" "taken (join x y) = taken x" by (simp_all add: xy)
qed

lemma apart_join:
  assumes "apart (xs @ x # y # ys)" and "touch x y"
  shows "apart (xs @ join x y # ys)"
proof -
  have "block_ok x" "block_ok y" using assms(1) by (auto simp: apart_append)
  from extent_join [OF this assms(2)] assms(1) show ?thesis by (auto simp: apart_append)
qed

text \<open>A pointer update in the middle of the list.\<close>

lemma upd_at:
  assumes "chunks h a = Some c"
  shows "upd a f h = Some (h\<lparr>chunks := (chunks h)(a \<mapsto> f c)\<rparr>)"
  using assms by (simp add: upd_def)

text \<open>Setting the back pointer of the block behind, if there is one.\<close>

lemma upd_prev_next:
  assumes "blinked m p ys 0" and "apart ys" and "m = chunks h"
  shows "\<exists>m'. (if next_addr ys 0 \<noteq> 0 then upd (next_addr ys 0) (c_prev_update (\<lambda>_. q)) h else Some h) =
      Some (h\<lparr>chunks := m'\<rparr>) \<and> blinked m' q ys 0 \<and> (\<forall>a. a \<noteq> next_addr ys 0 \<or> a = 0 \<longrightarrow> m' a = m a)"
proof (cases ys)
  case Nil
  then show ?thesis using assms(3) by (intro exI [of _ m]) simp
next
  case (Cons y zs)
  obtain b sb bl where y: "y = (b, sb, bl)" by (cases y)
  have "b \<noteq> 0" "b \<notin> fst ` set zs"
    using assms(2) apart_addr(2) [of "[]" y zs] unfolding Cons y by auto
  then show ?thesis
    using assms(1,3) by (intro exI [of _ "m(b \<mapsto> \<lparr>c_size = sb, c_alloc = bl, c_next = next_addr zs 0, c_prev = q\<rparr>)"])
      (simp add: Cons y upd_def blinked_frame)
qed

lemma blinked_cong: "\<forall>k \<in> fst ` set bs. m k = m' k \<Longrightarrow> blinked m p bs n = blinked m' p bs n"
  by (induction m p bs n rule: blinked.induct) auto

lemma join_rep:
  assumes h: "heap_is h (xs @ (a, sz, al) # (b, sb, bl) # zs)" and t: "touch (a, sz, al) (b, sb, bl)"
  shows "\<exists>h'. (do { h1 \<leftarrow> upd a (\<lambda>c. c\<lparr>c_size := c_size c + (sb + HEADER), c_next := next_addr zs 0\<rparr>) h;
      if next_addr zs 0 \<noteq> 0 then upd (next_addr zs 0) (c_prev_update (\<lambda>_. a)) h1 else Some h1 }) = Some h' \<and>
    same_rest h h' \<and> heap_is h' (xs @ join (a, sz, al) (b, sb, bl) # zs) \<and> chunks h' b = chunks h b"
proof -
  let ?x = "(a, sz, al)" and ?y = "(b, sb, bl)"
  note at = heap_is_at [OF h]
  define c where "c = \<lparr>c_size = sz + (sb + HEADER), c_alloc = al, c_next = next_addr zs 0, c_prev = last_addr 0 xs\<rparr>"
  define h1 where "h1 = h\<lparr>chunks := (chunks h)(a \<mapsto> c)\<rparr>"
  have ap: "apart (xs @ ?x # ?y # zs)" using h by (simp add: heap_is_def)
  have ax: "a \<notin> fst ` set xs" "a \<notin> fst ` set (?y # zs)" using apart_addr [OF ap] by simp_all
  have ay: "b \<notin> fst ` set (xs @ [?x])" "b \<notin> fst ` set zs"
    using apart_addr [of "xs @ [?x]" ?y zs] ap by simp_all
  have "blinked (chunks h) b zs 0" using h by (simp add: heap_is_def blinked_append)
  then have "blinked (chunks h1) b zs 0" using ax by (simp add: h1_def blinked_frame)
  moreover have "apart zs" using ap by (simp add: apart_append)
  ultimately obtain m' where m': "(if next_addr zs 0 \<noteq> 0 then upd (next_addr zs 0) (c_prev_update (\<lambda>_. a)) h1 else Some h1) =
      Some (h1\<lparr>chunks := m'\<rparr>)" "blinked m' a zs 0"
    "\<forall>k. k \<noteq> next_addr zs 0 \<or> k = 0 \<longrightarrow> m' k = chunks h1 k"
    using upd_prev_next [of "chunks h1" b zs h1 a] by blast
  have up: "upd a (\<lambda>c. c\<lparr>c_size := c_size c + (sb + HEADER), c_next := next_addr zs 0\<rparr>) h = Some h1"
    by (simp add: upd_at [OF at(1)] h1_def c_def)
  have keep: "m' k = chunks h1 k" if "k \<in> fst ` set xs \<or> k = a \<or> k = b" for k
  proof (cases zs)
    case Nil
    then show ?thesis using m'(3) by auto
  next
    case (Cons z ws)
    have "fst z \<notin> fst ` set (xs @ [?x, ?y])"
      using apart_addr(1) [of "xs @ [?x, ?y]" z ws] ap Cons by simp
    then have "k \<noteq> fst z" using that by auto
    then show ?thesis using m'(3) Cons by simp
  qed
  have "m' a = Some c" using keep [of a] by (simp add: h1_def)
  moreover have "blinked m' 0 xs a"
  proof -
    have "blinked (chunks h) 0 xs a" using h by (simp add: heap_is_def blinked_append)
    moreover have "\<forall>k \<in> fst ` set xs. chunks h k = m' k" using keep ax(1) by (auto simp: h1_def)
    ultimately show ?thesis using blinked_cong by metis
  qed
  ultimately have "heap_is (h1\<lparr>chunks := m'\<rparr>) (xs @ join ?x ?y # zs)"
    using h m'(2) apart_join [OF ap t]
    by (simp add: heap_is_def blinked_append next_addr_append c_def h1_def)
  moreover have "m' b = chunks h b" using keep [of b] ay(1) by (simp add: h1_def)
  ultimately show ?thesis
    using up m'(1) by (intro exI [of _ "h1\<lparr>chunks := m'\<rparr>"]) (simp, simp add: same_rest_def h1_def)
qed

fun merge_right :: "block \<Rightarrow> block list \<Rightarrow> block \<times> block list" where
  "merge_right x [] = (x, [])"
| "merge_right x (y # zs) = (if \<not> taken y \<and> touch x y then (join x y, zs) else (x, y # zs))"

lemma merge_next_rep:
  assumes h: "heap_is h (xs @ x # ys)" and r: "merge_right x ys = (x', ys')"
  shows "\<exists>h'. merge_next (fst x) h = Some h' \<and> same_rest h h' \<and> heap_is h' (xs @ x' # ys')"
proof -
  obtain a sz al where x: "x = (a, sz, al)" by (cases x)
  note at = heap_is_at [OF h [unfolded x]]
  show ?thesis
  proof (cases ys)
    case Nil
    then show ?thesis using at h r x by (auto simp: merge_next_def)
  next
    case (Cons y zs)
    obtain b sb bl where y: "y = (b, sb, bl)" by (cases y)
    have "heap_is h ((xs @ [x]) @ y # zs)" using h by (simp add: Cons)
    note at_y = heap_is_at [OF this [unfolded y]]
    show ?thesis
    proof (cases "\<not> bl \<and> touch x y")
      case False
      then have "merge_next (fst x) h = Some h"
        using at at_y by (auto simp: merge_next_def x y Cons isPhysicallyContiguous_def)
      moreover have "(x', ys') = (x, ys)" using False r by (auto simp: Cons y)
      ultimately show ?thesis using h by simp
    next
      case True
      then have xy: "x' = join x y" "ys' = zs" using r by (auto simp: Cons y)
      have "merge_next (fst x) h = (do { h1 \<leftarrow> upd a (\<lambda>c. c\<lparr>c_size := c_size c + (sb + HEADER), c_next := next_addr zs 0\<rparr>) h;
          if next_addr zs 0 \<noteq> 0 then upd (next_addr zs 0) (c_prev_update (\<lambda>_. a)) h1 else Some h1 })"
        using True at at_y by (simp add: merge_next_def x y Cons isPhysicallyContiguous_def cong: if_cong)
      then show ?thesis using join_rep [of h xs a sz al b sb bl zs] h True xy by (auto simp: x y Cons)
    qed
  qed
qed

text \<open>Merging into the block before; the header of the merged chunk still points onwards.\<close>

definition push :: "block list \<Rightarrow> block \<Rightarrow> block list" where
  "push xs x = (if xs \<noteq> [] \<and> \<not> taken (last xs) \<and> touch (last xs) x
                then butlast xs @ [join (last xs) x] else xs @ [x])"

lemma merge_prev_rep:
  assumes h: "heap_is h (xs @ x # ys)"
  shows "\<exists>h' c. merge_prev (fst x) h = Some h' \<and> same_rest h h' \<and> heap_is h' (push xs x @ ys) \<and>
    chunks h' (fst x) = Some c \<and> c_next c = next_addr ys 0"
proof -
  obtain a sz al where x: "x = (a, sz, al)" by (cases x)
  note at = heap_is_at [OF h [unfolded x]]
  have ap: "apart xs" using h by (simp add: heap_is_def apart_append)
  show ?thesis
  proof (cases xs rule: rev_cases)
    case Nil
    then show ?thesis using at h by (simp add: merge_prev_def x push_def)
  next
    case (snoc ws w)
    obtain b sb bl where w: "w = (b, sb, bl)" by (cases w)
    have h': "heap_is h (ws @ (b, sb, bl) # (a, sz, al) # ys)" using h by (simp add: snoc w x)
    note at_w = heap_is_at [OF h']
    have pv: "last_addr 0 xs = b" by (simp add: snoc w)
    show ?thesis
    proof (cases "\<not> bl \<and> touch w x")
      case False
      then have "merge_prev (fst x) h = Some h"
        using at at_w by (auto simp: merge_prev_def x w snoc isPhysicallyContiguous_def)
      moreover have "push xs x = xs @ [x]" using False by (auto simp: push_def snoc w)
      ultimately show ?thesis using h at by (simp add: x)
    next
      case True
      then have "merge_prev (fst x) h = (do { h1 \<leftarrow> upd b (\<lambda>c. c\<lparr>c_size := c_size c + (sz + HEADER), c_next := next_addr ys 0\<rparr>) h;
          if next_addr ys 0 \<noteq> 0 then upd (next_addr ys 0) (c_prev_update (\<lambda>_. b)) h1 else Some h1 })"
        using at at_w by (simp add: merge_prev_def x w pv isPhysicallyContiguous_def cong: if_cong)
      moreover have "push xs x = ws @ [join w x]" using True by (auto simp: push_def snoc w)
      moreover obtain h2 where "(do { h1 \<leftarrow> upd b (\<lambda>c. c\<lparr>c_size := c_size c + (sz + HEADER), c_next := next_addr ys 0\<rparr>) h;
          if next_addr ys 0 \<noteq> 0 then upd (next_addr ys 0) (c_prev_update (\<lambda>_. b)) h1 else Some h1 }) = Some h2"
        "same_rest h h2" "heap_is h2 (ws @ join w x # ys)" "chunks h2 a = chunks h a"
        using join_rep [OF h'] True by (auto simp: w x)
      ultimately show ?thesis using at by (intro exI [of _ h2]) (simp add: x)
    qed
  qed
qed

lemma join_fields [simp]: "taken (join x y) = taken x" "touch w (join x y) = touch w x" "fst (join x y) = fst x"
  by (cases w; cases x; cases y; simp)+

lemma merge_right_addr: "merge_right x ys = (x', ys') \<Longrightarrow> fst x' = fst x \<and> taken x' = taken x \<and> length ys' \<le> length ys"
  by (cases "(x, ys)" rule: merge_right.cases) (auto split: if_splits)

lemma tryMerge_rep:
  assumes h: "heap_is h (xs @ x # ys)" and r: "merge_right x ys = (x', ys')"
  shows "\<exists>h' c. tryMerge (fst x) h = Some h' \<and> same_rest h h' \<and> heap_is h' (push xs x' @ ys') \<and>
    chunks h' (fst x) = Some c \<and> c_next c = next_addr ys' 0"
proof -
  obtain h1 where h1: "merge_next (fst x) h = Some h1" "same_rest h h1" "heap_is h1 (xs @ x' # ys')"
    using merge_next_rep [OF h r] by blast
  have "fst x' = fst x" using merge_right_addr [OF r] by simp
  then obtain h2 c where "merge_prev (fst x) h1 = Some h2" "same_rest h1 h2" "heap_is h2 (push xs x' @ ys')"
    "chunks h2 (fst x) = Some c" "c_next c = next_addr ys' 0"
    using merge_prev_rep [OF h1(3)] by metis
  then show ?thesis using h1(1) same_rest_trans [OF h1(2)] by (auto simp: tryMerge_def)
qed

section \<open>Coalescing\<close>

function coal :: "block list \<Rightarrow> block list \<Rightarrow> block list" where
  "coal seen [] = seen"
| "coal seen (x # ys) =
     (if taken x then coal (seen @ [x]) ys
      else coal (push seen (fst (merge_right x ys))) (snd (merge_right x ys)))"
  by pat_completeness auto
termination
proof (relation "measure (\<lambda>(seen, ys). length ys)")
  fix seen :: "block list" and x :: block and ys :: "block list"
  show "((push seen (fst (merge_right x ys)), snd (merge_right x ys)), seen, x # ys) \<in> measure (\<lambda>(seen, ys). length ys)"
    using merge_right_addr [of x ys "fst (merge_right x ys)" "snd (merge_right x ys)"] by simp
qed simp_all

lemma coalesce_rep:
  "heap_is h (seen @ ys) \<Longrightarrow>
   \<exists>h'. coalesce_loop (next_addr ys 0) h = Some h' \<and> same_rest h h' \<and> heap_is h' (coal seen ys)"
proof (induction seen ys arbitrary: h rule: coal.induct)
  case (1 seen)
  then show ?case by (subst coalesce_loop.simps) simp
next
  case (2 seen x ys)
  obtain a sz al where x: "x = (a, sz, al)" by (cases x)
  note at = heap_is_at [OF "2.prems" [unfolded x]]
  show ?case
  proof (cases "taken x")
    case True
    have "heap_is h ((seen @ [x]) @ ys)" using "2.prems" by simp
    from "2.IH"(1) [OF True this] obtain h' where
      "coalesce_loop (next_addr ys 0) h = Some h'" "same_rest h h'" "heap_is h' (coal (seen @ [x]) ys)" by blast
    then show ?thesis using at True by (subst coalesce_loop.simps) (simp add: x)
  next
    case False
    obtain x' ys' where r: "merge_right x ys = (x', ys')" by (cases "merge_right x ys")
    obtain h1 c where h1: "tryMerge (fst x) h = Some h1" "same_rest h h1" "heap_is h1 (push seen x' @ ys')"
      "chunks h1 (fst x) = Some c" "c_next c = next_addr ys' 0"
      using tryMerge_rep [OF "2.prems" r] by blast
    have "heap_is h1 (push seen (fst (merge_right x ys)) @ snd (merge_right x ys))" using h1(3) by (simp add: r)
    then obtain h' where
      "coalesce_loop (next_addr ys' 0) h1 = Some h'" "same_rest h1 h'" "heap_is h' (coal (push seen x') ys')"
      using "2.IH"(2) [OF False] by (auto simp: r)
    moreover have "coal seen (x # ys) = coal (push seen x') ys'" using False by (simp add: r)
    moreover have "coalesce_loop (next_addr (x # ys) 0) h = coalesce_loop (next_addr ys' 0) h1"
      using at False h1 by (subst coalesce_loop.simps) (simp add: x)
    ultimately show ?thesis using same_rest_trans [OF h1(2)] by metis
  qed
qed

text \<open>What merging keeps and what it achieves.\<close>

definition live :: "block list \<Rightarrow> block list" where
  "live bs = filter taken bs"

definition bytes_of :: "block list \<Rightarrow> nat" where
  "bytes_of bs = sum_list (map (\<lambda>(a, sz, al). unat sz + 16) bs)"

fun tidy :: "block list \<Rightarrow> bool" where
  "tidy (x # y # zs) \<longleftrightarrow> \<not> (\<not> taken x \<and> \<not> taken y \<and> touch x y) \<and> tidy (y # zs)"
| "tidy _ \<longleftrightarrow> True"

lemma live_simps [simp]: "live [] = []" "live (b # bs) = (if taken b then b # live bs else live bs)"
  "live (xs @ ys) = live xs @ live ys"
  by (simp_all add: live_def)

lemma tidy_snoc:
  "tidy (xs @ [x]) \<longleftrightarrow> tidy xs \<and> (xs = [] \<or> taken (last xs) \<or> taken x \<or> \<not> touch (last xs) x)"
  by (induction xs rule: tidy.induct) auto

lemma push_live: "\<not> taken x \<Longrightarrow> live (push xs x) = live xs"
  by (cases xs rule: rev_cases) (auto simp: push_def)

lemma merge_right_live: "merge_right x ys = (x', ys') \<Longrightarrow> live ys' = live ys"
  by (cases "(x, ys)" rule: merge_right.cases) (auto split: if_splits)

lemma coal_live: "live (coal seen ys) = live seen @ live ys"
proof (induction seen ys rule: coal.induct)
  case (2 seen x ys)
  obtain x' ys' where r: "merge_right x ys = (x', ys')" by (cases "merge_right x ys")
  note k = merge_right_addr [OF r] merge_right_live [OF r]
  show ?case using 2 k by (cases "taken x") (simp_all add: r push_live)
qed simp

lemma tidy_snoc2: "tidy (xs @ [w, x]) \<longleftrightarrow> tidy (xs @ [w]) \<and> (taken w \<or> taken x \<or> \<not> touch w x)"
  using tidy_snoc [of "xs @ [w]" x] by simp

lemma push_tidy: "tidy xs \<Longrightarrow> \<not> taken x \<Longrightarrow> tidy (push xs x)"
  by (cases xs rule: rev_cases) (auto simp: push_def tidy_snoc tidy_snoc2)

lemma coal_tidy: "tidy seen \<Longrightarrow> tidy (coal seen ys)"
proof (induction seen ys rule: coal.induct)
  case (2 seen x ys)
  obtain x' ys' where r: "merge_right x ys = (x', ys')" by (cases "merge_right x ys")
  show ?case using 2 merge_right_addr [OF r] by (simp add: r push_tidy tidy_snoc)
qed simp

end
