(* ===== verification/Heap_Ops.thy ===== *)
theory Heap_Ops
  imports Heap "HOL-Library.Sublist"
begin

text \<open>
  What the operations of the heap do to the list of its blocks: the search is best fit, an
  allocation takes a free block and splits it, a release merges it back.
\<close>

section \<open>Searching\<close>

fun fits :: "u32 \<Rightarrow> block \<Rightarrow> bool" where
  "fits n (a, sz, al) \<longleftrightarrow> \<not> al \<and> n \<le> sz"

fun block_size :: "block \<Rightarrow> u32" where
  "block_size (a, sz, al) = sz"

text \<open>The best block of \<open>bs\<close> so far: none fits and the address is null, or it is a smallest one.\<close>

definition best :: "u32 \<Rightarrow> block list \<Rightarrow> u32 \<Rightarrow> bool" where
  "best n bs r \<longleftrightarrow>
     (r = 0 \<and> (\<forall>b \<in> set bs. \<not> fits n b)) \<or>
     (\<exists>b \<in> set bs. fst b = r \<and> fits n b \<and> (\<forall>c \<in> set bs. fits n c \<longrightarrow> block_size b \<le> block_size c))"

lemma hole_loop_best:
  "heap_is h (seen @ ys) \<Longrightarrow> best n seen r \<Longrightarrow>
   \<exists>r'. hole_loop n False h (next_addr ys 0) r = Some r' \<and> best n (seen @ ys) r'"
proof (induction ys arbitrary: seen r)
  case Nil
  then show ?case by (subst hole_loop.simps) simp
next
  case (Cons y ys)
  obtain a sz al where y: "y = (a, sz, al)" by (cases y)
  note at = heap_is_at [OF Cons.prems(1) [unfolded y]]
  have hs: "heap_is h ((seen @ [y]) @ ys)" using Cons.prems(1) by simp
  have step: "\<exists>r'. hole_loop n False h (next_addr (y # ys) 0) r = hole_loop n False h (next_addr ys 0) r' \<and>
      best n (seen @ [y]) r'"
  proof (cases "fits n y")
    case False
    then have "best n (seen @ [y]) r" using Cons.prems(2) by (auto simp: best_def)
    moreover have "hole_loop n False h a r = hole_loop n False h (next_addr ys 0) r"
      using at False by (subst hole_loop.simps) (auto simp: y)
    ultimately show ?thesis by (auto simp: y)
  next
    case True
    show ?thesis
    proof (cases "r = 0")
      case r: True
      have "\<forall>b \<in> set seen. \<not> fits n b"
      proof (rule ballI)
        fix b assume b: "b \<in> set seen"
        have "\<forall>c \<in> set seen. fst c \<noteq> 0"
        proof
          fix c assume "c \<in> set seen"
          then have "block_ok c" using Cons.prems(1) apart_ok [of "seen @ y # ys" c] by (simp add: heap_is_def)
          then show "fst c \<noteq> 0" by (cases c) simp
        qed
        with b Cons.prems(2) r show "\<not> fits n b" by (auto simp: best_def)
      qed
      then have "best n (seen @ [y]) a" using True by (auto simp: best_def y)
      moreover have "hole_loop n False h a 0 = hole_loop n False h (next_addr ys 0) a"
        using at True by (subst hole_loop.simps) (simp add: y)
      ultimately show ?thesis using r by (auto simp: y)
    next
      case r: False
      then obtain b where b: "b \<in> set seen" "fst b = r" "fits n b"
        "\<forall>c \<in> set seen. fits n c \<longrightarrow> block_size b \<le> block_size c"
        using Cons.prems(2) by (auto simp: best_def)
      obtain xs zs where sp: "seen = xs @ b # zs" using b(1) by (meson split_list)
      obtain sb where bb: "b = (r, sb, False)" using b(2,3) by (cases b) auto
      have at_b: "chunks h r = Some \<lparr>c_size = sb, c_alloc = False, c_next = next_addr (zs @ y # ys) 0, c_prev = last_addr 0 xs\<rparr>"
        using heap_is_at [of h xs r sb False "zs @ y # ys"] Cons.prems(1) by (simp add: sp bb)
      have "hole_loop n False h a r = hole_loop n False h (next_addr ys 0) (if sz < sb then a else r)"
        using at True r at_b by (subst hole_loop.simps) (simp add: y)
      moreover have "best n (seen @ [y]) (if sz < sb then a else r)"
      proof (cases "sz < sb")
        case True
        have "\<forall>c \<in> set seen. fits n c \<longrightarrow> sz \<le> block_size c" using b(4) True by (auto simp: bb)
        then show ?thesis using True \<open>fits n y\<close> by (auto simp: best_def y)
      next
        case False
        then have le: "sb \<le> sz" by simp
        have "\<forall>c \<in> set (seen @ [y]). fits n c \<longrightarrow> block_size b \<le> block_size c"
          using b(4) le by (auto simp: y bb)
        moreover have "b \<in> set (seen @ [y])" using b(1) by simp
        ultimately have "best n (seen @ [y]) r" using b(2,3) unfolding best_def by blast
        then show ?thesis using False by simp
      qed
      ultimately show ?thesis by (auto simp: y)
    qed
  qed
  then show ?case using Cons.IH [OF hs] by auto
qed

lemma findSmallestHole_best:
  assumes "heap_is h bs"
  shows "\<exists>r. findSmallestHole n False h = Some r \<and> best n bs r"
proof -
  have "best n [] 0" by (simp add: best_def)
  from hole_loop_best [of h "[]" bs n 0] assms this show ?thesis
    by (simp add: findSmallestHole_def heap_is_def)
qed

section \<open>Taking a block\<close>

text \<open>The blocks that replace the block \<open>(a, s, False)\<close> when it is cut after \<open>n\<close> bytes; the flag of the first.\<close>

definition split_parts :: "u32 \<Rightarrow> u32 \<Rightarrow> u32 \<Rightarrow> bool \<Rightarrow> block list" where
  "split_parts a s n al =
     (if s \<le> n + HEADER then [(a, s, al)]
      else [(a, n, al), (a + HEADER + n, s - n - HEADER, False)])"

lemma split_numbers:
  assumes "block_ok (a, s, al)" and "n \<le> s" and "\<not> s \<le> n + HEADER"
  shows "unat (a + HEADER + n) = unat a + 16 + unat n" "unat (s - n - HEADER) = unat s - unat n - 16"
    "unat n + 16 < unat s" "a + HEADER + n \<noteq> 0"
proof -
  have a: "0 < unat a" "unat a + 16 + unat s \<le> 4294967296" using assms(1) by (simp_all add: unat_gt_0)
  have ns: "unat n \<le> unat s" using assms(2) by (simp add: u32_le_iff)
  have "unat (n + 16) = unat n + 16" using a ns by (subst unat_add_small) simp_all
  then show lt: "unat n + 16 < unat s" using assms(3) by (simp add: u32_le_iff)
  have "unat (a + 16) = unat a + 16" using a lt by (subst unat_add_small) simp_all
  then show u: "unat (a + HEADER + n) = unat a + 16 + unat n" using a lt by (subst unat_add_small) simp_all
  have "unat (s - n) = unat s - unat n" by (rule unat_sub_le [OF assms(2)])
  then show "unat (s - n - HEADER) = unat s - unat n - 16"
    using lt by (subst unat_sub_le) (simp_all add: u32_le_iff)
  have "unat (a + HEADER + n) \<noteq> 0" using u a by linarith
  then show "a + HEADER + n \<noteq> 0" by auto
qed

lemma apart_split:
  assumes ap: "apart (xs @ (a, s, False) # ys)" and n: "n \<le> s"
  shows "apart (xs @ split_parts a s n al @ ys)"
proof (cases "s \<le> n + HEADER")
  case True
  then show ?thesis using ap by (simp add: split_parts_def apart_append)
next
  case False
  have ok: "block_ok (a, s, False)" using ap by (simp add: apart_append)
  note u = split_numbers [OF ok n False]
  have sub: "extent (a, n, al) \<subseteq> extent (a, s, False)"
    "extent (a + HEADER + n, s - n - HEADER, False) \<subseteq> extent (a, s, False)"
    unfolding extent.simps u(1,2) ivl_subset using u(3) by (simp, linarith)
  have dj: "extent (a, n, al) \<inter> extent (a + HEADER + n, s - n - HEADER, False) = {}"
    by (simp only: extent.simps u) auto
  have "block_ok (a, n, al)" using ok u(3) by auto
  moreover have "block_ok (a + HEADER + n, s - n - HEADER, False)"
    unfolding block_ok.simps u(1,2)
  proof (rule conjI [OF u(4)])
    have "unat a + 16 + unat s \<le> 4294967296" using ok by simp
    then show "unat a + 16 + unat n + 16 + (unat s - unat n - 16) \<le> 4294967296" using u(3) by linarith
  qed
  ultimately have oks: "block_ok (a, n, al)" "block_ok (a + HEADER + n, s - n - HEADER, False)" by simp_all
  have xs: "\<forall>x \<in> set xs. extent x \<inter> extent (a, n, al) = {} \<and> extent x \<inter> extent (a + HEADER + n, s - n - HEADER, False) = {}"
    and ys: "\<forall>y \<in> set ys. extent (a, n, al) \<inter> extent y = {} \<and> extent (a + HEADER + n, s - n - HEADER, False) \<inter> extent y = {}"
    using ap sub unfolding apart_append apart.simps by (force, force)
  have t: "split_parts a s n al = [(a, n, al), (a + HEADER + n, s - n - HEADER, False)]"
    using False by (simp add: split_parts_def)
  have "apart [(a, n, al), (a + HEADER + n, s - n - HEADER, False)]" using oks dj by simp
  with xs ys ap show ?thesis unfolding t apart_append by auto
qed


definition cut :: "u32 \<Rightarrow> u32 \<Rightarrow> u32" where
  "cut s n = (if s \<le> n + HEADER then s else n)"

definition left_over :: "u32 \<Rightarrow> u32 \<Rightarrow> u32 \<Rightarrow> block list" where
  "left_over a s n = (if s \<le> n + HEADER then [] else [(a + HEADER + n, s - n - HEADER, False)])"

lemma split_parts_eq: "split_parts a s n al = (a, cut s n, al) # left_over a s n"
  by (simp add: split_parts_def cut_def left_over_def)

lemma left_over_free [simp]: "live (left_over a s n) = []"
  by (simp add: left_over_def)

lemma cut_enough: "n \<le> s \<Longrightarrow> n \<le> cut s n"
  by (simp add: cut_def)

lemma apart_distinct: "apart bs \<Longrightarrow> distinct (map fst bs)"
proof (induction bs)
  case (Cons b bs)
  then show ?case using apart_addr(2) [of "[]" b bs] by simp
qed simp

lemma split_rep:
  assumes h: "heap_is h (xs @ (a, s, False) # ys)" and n: "n \<le> s"
  shows "\<exists>h'. split a n h = Some h' \<and> same_rest h h' \<and> heap_is h' (xs @ split_parts a s n False @ ys)"
proof (cases "s \<le> n + HEADER")
  case True
  then show ?thesis using heap_is_at [OF h] h by (simp add: split_def split_parts_def)
next
  case False
  let ?new = "a + HEADER + n" and ?r = "s - n - HEADER"
  have ap: "apart (xs @ (a, n, False) # (?new, ?r, False) # ys)"
    using apart_split [of xs a s ys n False] h n False by (simp add: heap_is_def split_parts_def)
  have apy: "apart ys" and y0: "?new \<noteq> 0" "a \<noteq> 0" using ap by (auto simp: apart_append)
  have new: "?new \<notin> fst ` set xs" "?new \<notin> fst ` set ys" "?new \<noteq> a"
    using apart_addr [of "xs @ [(a, n, False)]" "(?new, ?r, False)" ys] ap by auto
  have an: "a \<notin> fst ` set xs" "a \<notin> fst ` set ys" using apart_addr [OF ap] by auto
  have at: "chunks h a = Some \<lparr>c_size = s, c_alloc = False, c_next = next_addr ys 0, c_prev = last_addr 0 xs\<rparr>"
    using heap_is_at [OF h] by simp
  have lk: "blinked (chunks h) 0 xs a" "blinked (chunks h) a ys 0" "heapList h = next_addr xs a"
    using h by (auto simp: heap_is_def blinked_append next_addr_append)
  define h1 where "h1 = h\<lparr>chunks := (chunks h)(?new \<mapsto>
      \<lparr>c_size = ?r, c_alloc = False, c_next = next_addr ys 0, c_prev = a\<rparr>)\<rparr>"
  have y1: "blinked (chunks h1) a ys 0" using lk(2) new by (simp add: h1_def blinked_frame)
  obtain m' where m': "(if next_addr ys 0 \<noteq> 0 then upd (next_addr ys 0) (c_prev_update (\<lambda>_. ?new)) h1 else Some h1) =
      Some (h1\<lparr>chunks := m'\<rparr>)" "blinked m' ?new ys 0" "\<forall>b. b \<noteq> next_addr ys 0 \<or> b = 0 \<longrightarrow> m' b = chunks h1 b"
    using upd_prev_next [OF y1 apy refl, of ?new] by blast
  have ny: "b \<notin> fst ` set ys \<Longrightarrow> m' b = chunks h1 b" for b using m'(3) by (cases ys) auto
  have ma: "m' a = Some \<lparr>c_size = s, c_alloc = False, c_next = next_addr ys 0, c_prev = last_addr 0 xs\<rparr>"
    using ny [OF an(2)] at new(3) by (simp add: h1_def)
  let ?m = "m'(a \<mapsto> \<lparr>c_size = n, c_alloc = False, c_next = ?new, c_prev = last_addr 0 xs\<rparr>)"
  have "split a n h = Some (h1\<lparr>chunks := ?m\<rparr>)"
  proof -
    have "split a n h = Option.bind (if next_addr ys 0 \<noteq> 0 then upd (next_addr ys 0) (c_prev_update (\<lambda>_. ?new)) h1 else Some h1)
        (upd a (\<lambda>c. c\<lparr>c_next := ?new, c_size := n\<rparr>))"
      using at False by (simp add: split_def h1_def Let_def)
    then show ?thesis unfolding m'(1) using ma by (simp add: upd_def)
  qed
  moreover have "heap_is (h1\<lparr>chunks := ?m\<rparr>) (xs @ (a, n, False) # (?new, ?r, False) # ys)"
  proof -
    have dj: "fst ` set xs \<inter> fst ` set ys = {}" using apart_distinct [OF ap] by auto
    have "\<forall>k \<in> fst ` set xs. chunks h k = m' k"
    proof
      fix k assume k: "k \<in> fst ` set xs"
      then have "k \<notin> fst ` set ys" using dj by blast
      moreover have "k \<noteq> ?new" using k new(1) by metis
      ultimately show "chunks h k = m' k" using ny [of k] by (simp add: h1_def)
    qed
    then have "blinked m' 0 xs a" using lk(1) blinked_cong by blast
    then have "blinked ?m 0 xs a" using an by (simp add: blinked_frame)
    moreover have "blinked ?m ?new ys 0" using m'(2) an by (simp add: blinked_frame)
    moreover have "m' ?new = Some \<lparr>c_size = ?r, c_alloc = False, c_next = next_addr ys 0, c_prev = a\<rparr>"
      using ny [OF new(2)] by (simp add: h1_def)
    ultimately show ?thesis using ap lk(3) new(3)
      by (simp add: heap_is_def blinked_append next_addr_append h1_def)
  qed
  ultimately show ?thesis using False by (auto simp: split_parts_def same_rest_def h1_def)
qed

lemma set_flag_rep:
  assumes h: "heap_is h (xs @ (a, s, al) # ys)"
  shows "\<exists>h'. upd a (c_alloc_update (\<lambda>_. v)) h = Some h' \<and> same_rest h h' \<and> heap_is h' (xs @ (a, s, v) # ys) \<and>
    chunks h' a = Some \<lparr>c_size = s, c_alloc = v, c_next = next_addr ys 0, c_prev = last_addr 0 xs\<rparr>"
proof -
  have ap: "apart (xs @ (a, s, al) # ys)" using h by (simp add: heap_is_def)
  note nin = apart_addr [OF ap]
  note at = heap_is_at [OF h]
  have "apart (xs @ (a, s, v) # ys)" using ap by (simp add: apart_append)
  then show ?thesis
    using h at nin by (simp add: upd_at [OF at(1)] same_rest_def heap_is_def blinked_append next_addr_append blinked_frame)
qed

lemma alloc_at_rep:
  assumes h: "heap_is h (xs @ (a, s, False) # ys)" and n: "n \<le> s"
  shows "\<exists>h'. alloc_at a n h = Some (a + HEADER, h') \<and>
    heap_is h' (xs @ (a, cut s n, True) # left_over a s n @ ys) \<and>
    totalAllocatedMemory h' = totalAllocatedMemory h + cut s n \<and> totalMemory h' = totalMemory h \<and> pages h' = pages h"
proof -
  obtain h1 where h1: "split a n h = Some h1" "same_rest h h1"
    "heap_is h1 (xs @ (a, cut s n, False) # left_over a s n @ ys)"
    using split_rep [OF h n] by (auto simp: split_parts_eq)
  obtain h2 where h2: "upd a (c_alloc_update (\<lambda>_. True)) h1 = Some h2" "same_rest h1 h2"
    "heap_is h2 (xs @ (a, cut s n, True) # left_over a s n @ ys)"
    "chunks h2 a = Some \<lparr>c_size = cut s n, c_alloc = True, c_next = next_addr (left_over a s n @ ys) 0, c_prev = last_addr 0 xs\<rparr>"
    using set_flag_rep [OF h1(3), of True] by blast
  have "alloc_at a n h = Some (a + HEADER, h2\<lparr>totalAllocatedMemory := totalAllocatedMemory h2 + cut s n\<rparr>)"
    by (simp add: alloc_at_def h1(1) h2(1,4))
  then show ?thesis using h1(2) h2(2,3) by (simp add: same_rest_def heap_is_def)
qed

section \<open>More memory\<close>

lemma last_loop_rep:
  "bs \<noteq> [] \<Longrightarrow> blinked (chunks h) p bs 0 \<Longrightarrow> apart bs \<Longrightarrow> last_loop h (next_addr bs 0) = Some (last_addr 0 bs)"
proof (induction bs arbitrary: p)
  case (Cons b bs)
  obtain a s al where b: "b = (a, s, al)" by (cases b)
  have ap: "apart bs" and z: "next_addr bs 0 = 0 \<longleftrightarrow> bs = []" using Cons.prems(3) next_addr_0 by auto
  have m: "chunks h a = Some \<lparr>c_size = s, c_alloc = al, c_next = next_addr bs 0, c_prev = p\<rparr>" "blinked (chunks h) a bs 0"
    using Cons.prems(2) by (simp_all add: b)
  show ?case
  proof (cases "bs = []")
    case True
    then show ?thesis using m z by (subst last_loop.simps) (simp add: b last_addr_def)
  next
    case False
    then have "last_loop h (next_addr bs 0) = Some (last_addr 0 bs)" using Cons.IH m(2) ap by blast
    then show ?thesis using m z False by (subst last_loop.simps) (simp add: b last_addr_def)
  qed
qed simp

lemma requestMoreMemory_rep:
  assumes h: "heap_is h bs" and am: "am (page_round n) (pages h) = Some (na, e)" and na: "na \<noteq> 0"
    and ap: "apart (bs @ [(na, page_round n - HEADER, False)])"
  shows "\<exists>h'. requestMoreMemory am n h = Some (na, h') \<and> heap_is h' (bs @ [(na, page_round n - HEADER, False)]) \<and>
    totalMemory h' = totalMemory h + page_round n \<and> totalAllocatedMemory h' = totalAllocatedMemory h \<and> pages h' = e"
proof (cases bs rule: rev_cases)
  case Nil
  then show ?thesis using h am na ap
    by (simp add: requestMoreMemory_def heap_is_def Let_def)
next
  case (snoc xs z)
  obtain a s al where z: "z = (a, s, al)" by (cases z)
  let ?new = "\<lparr>c_size = page_round n - HEADER, c_alloc = False, c_next = 0, c_prev = 0\<rparr>"
  define h1 where "h1 = h\<lparr>pages := e, chunks := (chunks h)(na \<mapsto> ?new)\<rparr>"
  have nin: "na \<notin> fst ` set bs" using apart_addr(1) [OF ap [folded append_Cons [of _ "[]"]]] by simp
  have bn: "bs \<noteq> []" by (simp add: snoc)
  have lk: "blinked (chunks h1) 0 bs 0" using h nin by (simp add: h1_def heap_is_def blinked_frame)
  have apb: "apart bs" using ap by (simp add: apart_append)
  have last: "last_loop h1 (heapList h1) = Some a"
    using last_loop_rep [OF bn lk apb] h by (simp add: h1_def heap_is_def snoc z)
  have an: "a \<noteq> na" "a \<notin> fst ` set xs" "na \<notin> fst ` set xs"
    using nin apart_addr(1) [of xs "(a, s, al)" "[]"] apb by (auto simp: snoc z)
  have at: "chunks h1 a = Some \<lparr>c_size = s, c_alloc = al, c_next = 0, c_prev = last_addr 0 xs\<rparr>" "blinked (chunks h1) 0 xs a"
    using lk by (simp_all add: snoc z blinked_append)
  let ?m = "(chunks h1)(a \<mapsto> \<lparr>c_size = s, c_alloc = al, c_next = na, c_prev = last_addr 0 xs\<rparr>,
      na \<mapsto> ?new\<lparr>c_prev := a\<rparr>)"
  have l0: "heapList h1 \<noteq> 0" using h next_addr_0 [OF apb] bn by (simp add: h1_def heap_is_def)
  have "requestMoreMemory am n h =
      Some (na, h1\<lparr>chunks := ?m, totalMemory := totalMemory h1 + page_round n\<rparr>)"
  proof -
    have "upd a (c_next_update (\<lambda>_. na)) h1 = Some (h1\<lparr>chunks := (chunks h1)(a \<mapsto>
        \<lparr>c_size = s, c_alloc = al, c_next = na, c_prev = last_addr 0 xs\<rparr>)\<rparr>)" by (simp add: upd_at [OF at(1)])
    moreover have "chunks h1 na = Some ?new" by (simp add: h1_def)
    moreover have "h\<lparr>pages := e\<rparr>\<lparr>chunks := (chunks (h\<lparr>pages := e\<rparr>))(na \<mapsto> ?new)\<rparr> = h1" by (simp add: h1_def)
    moreover have "heapList h \<noteq> 0" using l0 by (simp add: h1_def)
    moreover have "last_loop h1 (heapList h) = Some a" using last by (simp add: h1_def)
    moreover have "chunks h a = Some \<lparr>c_size = s, c_alloc = al, c_next = 0, c_prev = last_addr 0 xs\<rparr>"
      using at(1) an(1) by (simp add: h1_def)
    ultimately show ?thesis using am na an(1)
      by (simp add: requestMoreMemory_def Let_def upd_def h1_def)
  qed
  moreover have "heap_is (h1\<lparr>chunks := ?m, totalMemory := totalMemory h1 + page_round n\<rparr>)
      (bs @ [(na, page_round n - HEADER, False)])"
    using ap h at an by (simp add: heap_is_def h1_def snoc z blinked_append next_addr_append blinked_frame)
  ultimately show ?thesis by (simp add: h1_def)
qed

section \<open>The state of the heap\<close>

text \<open>
  \<open>heap_ok h bs\<close>: the pointers of \<open>h\<close> are the list \<open>bs\<close> of disjoint chunks, and the two counters
  are the sums over it (as the 32-bit numbers they are). \<open>cover\<close> is the memory the chunks use.
\<close>

definition cover :: "block list \<Rightarrow> nat set" where
  "cover bs = (\<Union>b \<in> set bs. extent b)"

definition room :: "block list \<Rightarrow> u32" where
  "room bs = sum_list (map (\<lambda>b. block_size b + HEADER) bs)"

definition in_use :: "block list \<Rightarrow> u32" where
  "in_use bs = sum_list (map block_size (live bs))"

definition heap_ok :: "'e heap \<Rightarrow> block list \<Rightarrow> bool" where
  "heap_ok h bs \<longleftrightarrow> heap_is h bs \<and> totalAllocatedMemory h = in_use bs \<and> totalMemory h = room bs"

lemma sums [simp]:
  "cover [] = {}" "cover (b # bs) = extent b \<union> cover bs" "cover (xs @ ys) = cover xs \<union> cover ys"
  "room [] = 0" "room (b # bs) = block_size b + HEADER + room bs" "room (xs @ ys) = room xs + room ys"
  "in_use [] = 0" "in_use (b # bs) = (if taken b then block_size b else 0) + in_use bs"
  "in_use (xs @ ys) = in_use xs + in_use ys"
  by (simp_all add: cover_def room_def in_use_def)

lemma in_use_live: "live xs = live ys \<Longrightarrow> in_use xs = in_use ys"
  by (simp add: in_use_def)

lemma left_over_sums:
  "room (left_over a s n) + cut s n = s" "in_use (left_over a s n) = 0"
  by (auto simp: left_over_def cut_def)

lemma left_over_cover:
  assumes "block_ok (a, s, al)" and "n \<le> s"
  shows "extent (a, cut s n, v) \<union> cover (left_over a s n) = extent (a, s, al)"
proof (cases "s \<le> n + HEADER")
  case True
  then show ?thesis by (simp add: left_over_def cut_def)
next
  case False
  note u = split_numbers [OF assms False]
  have e: "unat a + 16 + unat n + 16 + (unat s - unat n - 16) = unat a + 16 + unat s" using u(3) by linarith
  have d: "{unat a..<unat a + 16 + unat n} \<union> {unat a + 16 + unat n..<unat a + 16 + unat s} = {unat a..<unat a + 16 + unat s}"
    using u(3) by (intro ivl_disj_un_two(3)) linarith+
  show ?thesis
    by (simp only: left_over_def cut_def False if_False sums extent.simps u(1,2) e d Un_empty_right)
qed

text \<open>Merging changes neither the memory in use nor its size.\<close>

lemma merge_right_sums:
  assumes "apart (xs @ x # ys)" and r: "merge_right x ys = (x', ys')"
  shows "apart (xs @ x' # ys')" "cover (x' # ys') = cover (x # ys)" "room (x' # ys') = room (x # ys)"
proof -
  have "apart (xs @ x' # ys') \<and> cover (x' # ys') = cover (x # ys) \<and> room (x' # ys') = room (x # ys)"
  proof (cases ys)
    case Nil
    then show ?thesis using assms by simp
  next
    case (Cons y zs)
    show ?thesis
    proof (cases "\<not> taken y \<and> touch x y")
      case True
      then have m: "x' = join x y" "ys' = zs" using r by (simp_all add: Cons)
      have "block_ok x" "block_ok y" using assms(1) by (auto simp: apart_append Cons)
      then have "extent x' = extent x \<union> extent y" using extent_join True m by simp
      moreover have "room (x' # ys') = room (x # ys)"
        by (cases x; cases y) (simp add: m Cons)
      moreover have "apart (xs @ x' # ys')" using apart_join assms(1) True by (simp add: m Cons)
      ultimately show ?thesis by (auto simp: m Cons)
    next
      case False
      then show ?thesis using r assms(1) by (auto simp: Cons)
    qed
  qed
  then show "apart (xs @ x' # ys')" "cover (x' # ys') = cover (x # ys)" "room (x' # ys') = room (x # ys)" by simp_all
qed

lemma push_sums:
  assumes "apart (xs @ x # ys)"
  shows "apart (push xs x @ ys)" "cover (push xs x) = cover (xs @ [x])" "room (push xs x) = room (xs @ [x])"
proof -
  have "apart (push xs x @ ys) \<and> cover (push xs x) = cover (xs @ [x]) \<and> room (push xs x) = room (xs @ [x])"
  proof (cases xs rule: rev_cases)
    case Nil
    then show ?thesis using assms by (simp add: push_def)
  next
    case (snoc ws w)
    show ?thesis
    proof (cases "\<not> taken w \<and> touch w x")
      case True
      have "block_ok w" "block_ok x" using assms by (auto simp: apart_append snoc)
      then have "extent (join w x) = extent w \<union> extent x" using extent_join True by simp
      moreover have "room [join w x] = room [w, x]" by (cases w; cases x) simp
      moreover have "apart (ws @ join w x # ys)" using apart_join [of ws w x ys] assms True by (simp add: snoc)
      ultimately show ?thesis using True by (auto simp: push_def snoc)
    next
      case False
      then show ?thesis using assms by (auto simp: push_def snoc)
    qed
  qed
  then show "apart (push xs x @ ys)" "cover (push xs x) = cover (xs @ [x])" "room (push xs x) = room (xs @ [x])" by simp_all
qed

lemma coal_sums:
  "apart (seen @ ys) \<Longrightarrow> cover (coal seen ys) = cover seen \<union> cover ys \<and> room (coal seen ys) = room seen + room ys"
proof (induction seen ys rule: coal.induct)
  case (2 seen x ys)
  obtain x' ys' where r: "merge_right x ys = (x', ys')" by (cases "merge_right x ys")
  note m = merge_right_sums [OF "2.prems" r]
  note p = push_sums [OF m(1)]
  show ?case using 2 m p by (cases "taken x") (auto simp: r)
qed simp

section \<open>Allocation and release\<close>

lemma best_0: "apart bs \<Longrightarrow> best n bs 0 \<longleftrightarrow> (\<forall>b \<in> set bs. \<not> fits n b)"
  using apart_ok [of bs] by (fastforce simp: best_def)

lemma best_at:
  assumes "best n bs r" and "r \<noteq> 0"
  shows "\<exists>xs s ys. bs = xs @ (r, s, False) # ys \<and> n \<le> s \<and> (\<forall>c \<in> set bs. fits n c \<longrightarrow> s \<le> block_size c)"
proof -
  obtain b where b: "b \<in> set bs" "fst b = r" "fits n b" "\<forall>c \<in> set bs. fits n c \<longrightarrow> block_size b \<le> block_size c"
    using assms by (auto simp: best_def)
  obtain xs ys where "bs = xs @ b # ys" using b(1) by (meson split_list)
  moreover obtain s where "b = (r, s, False)" "n \<le> s" using b(2,3) by (cases b) auto
  ultimately show ?thesis using b(4) by (metis block_size.simps)
qed

text \<open>
  What a successful allocation does to the blocks: the free block \<open>a\<close> is cut, the first part
  becomes taken, and nothing else changes.
\<close>

definition takes :: "u32 \<Rightarrow> u32 \<Rightarrow> block list \<Rightarrow> block list \<Rightarrow> bool" where
  "takes n a bs bs' \<longleftrightarrow> (\<exists>xs s ys. bs = xs @ (a, s, False) # ys \<and> n \<le> s \<and>
     (\<forall>c \<in> set bs. fits n c \<longrightarrow> s \<le> block_size c) \<and>
     bs' = xs @ (a, cut s n, True) # left_over a s n @ ys)"

lemma alloc_at_ok:
  assumes ok: "heap_ok h bs" and b: "best n bs a" "a \<noteq> 0"
  shows "\<exists>h' bs'. alloc_at a n h = Some (a + HEADER, h') \<and> heap_ok h' bs' \<and> takes n a bs bs' \<and>
    pages h' = pages h \<and> cover bs' = cover bs"
proof -
  obtain xs s ys where bs: "bs = xs @ (a, s, False) # ys" and n: "n \<le> s"
    and m: "\<forall>c \<in> set bs. fits n c \<longrightarrow> s \<le> block_size c"
    using best_at [OF b] by blast
  let ?bs' = "xs @ (a, cut s n, True) # left_over a s n @ ys"
  have h: "heap_is h (xs @ (a, s, False) # ys)" using ok by (simp add: heap_ok_def bs)
  obtain h' where h': "alloc_at a n h = Some (a + HEADER, h')" "heap_is h' ?bs'"
    "totalAllocatedMemory h' = totalAllocatedMemory h + cut s n" "totalMemory h' = totalMemory h" "pages h' = pages h"
    using alloc_at_rep [OF h n] by blast
  have "block_ok (a, s, False)" using h by (auto simp: heap_is_def apart_append)
  then have c: "cover ?bs' = cover bs" using left_over_cover [of a s False n True] n by (auto simp: bs)
  have "room ?bs' = room bs" using left_over_sums(1) [of a s n] by (simp add: bs algebra_simps)
  moreover have "in_use ?bs' = in_use bs + cut s n" by (simp add: bs left_over_sums)
  ultimately have "heap_ok h' ?bs'" using h' ok by (simp add: heap_ok_def)
  moreover have "takes n a bs ?bs'" using bs n m unfolding takes_def by blast
  ultimately show ?thesis using h'(1,5) c by blast
qed

text \<open>What \<open>allocateMemory\<close> has to do: the region it returns is one the heap has not got yet.\<close>

definition grants :: "(u32 \<Rightarrow> 'e \<Rightarrow> (u32 \<times> 'e) option) \<Rightarrow> u32 \<Rightarrow> 'e \<Rightarrow> block list \<Rightarrow> bool" where
  "grants am n e bs \<longleftrightarrow> (case am (page_round n) e of None \<Rightarrow> False | Some (na, e') \<Rightarrow>
     na = 0 \<or> apart (bs @ [(na, page_round n - HEADER, False)]))"

definition grown :: "(u32 \<Rightarrow> 'e \<Rightarrow> (u32 \<times> 'e) option) \<Rightarrow> u32 \<Rightarrow> 'e \<Rightarrow> block list \<Rightarrow> block list" where
  "grown am n e bs = (case am (page_round n) e of None \<Rightarrow> bs | Some (na, e') \<Rightarrow>
     if na = 0 then bs else bs @ [(na, page_round n - HEADER, False)])"

lemma unat_and_not_mask: "unat ((x :: u32) AND NOT 0xFFF) = unat x div 4096 * 4096"
proof -
  have k: "(0xFFF :: u32) = mask 12" by (simp add: mask_eq_exp_minus_1)
  have "x AND NOT 0xFFF = push_bit 12 (drop_bit 12 x)"
    unfolding k by (rule bit_word_eqI) (auto simp: bit_simps)
  then have "x AND NOT 0xFFF = 4096 * drop_bit 12 x" by (simp add: push_bit_eq_mult mult.commute)
  moreover have d: "unat (drop_bit 12 x) = unat x div 4096"
    using unat_drop_bit_eq [of 12 x] by (simp only: drop_bit_eq_div [of 12 "unat x"]) simp
  moreover have "unat (4096 * drop_bit 12 x) = 4096 * (unat x div 4096)"
    using unat_u32_lt [of x] d by (subst unat_mult_small) simp_all
  ultimately show ?thesis by simp
qed

lemma page_round_enough:
  assumes "unat n + 4111 < 4294967296"
  shows "n \<le> page_round n - HEADER" "unat (page_round n) mod 4096 = 0" "unat n + 16 \<le> unat (page_round n)"
proof -
  have "unat (n + 16 + 0x1000 - 1) = unat n + 4111"
  proof -
    have "n + 16 + 0x1000 - 1 = n + 4111" by simp
    then show ?thesis using assms by (simp add: unat_add_small)
  qed
  then have r: "unat (page_round n) = (unat n + 4111) div 4096 * 4096"
    by (simp only: page_round_def unat_and_not_mask)
  then show "unat (page_round n) mod 4096 = 0" by simp
  show ge: "unat n + 16 \<le> unat (page_round n)" unfolding r by linarith
  have "unat (page_round n - HEADER) = unat (page_round n) - 16"
    using ge by (subst unat_sub_le) (simp_all add: u32_le_iff)
  then show "n \<le> page_round n - HEADER" using ge by (simp add: u32_le_iff)
qed

lemma after_request:
  assumes ok: "heap_ok h bs" and g: "grants am n (pages h) bs"
  shows "\<exists>r h'. requestMoreMemory am n h = Some (r, h') \<and> heap_ok h' (grown am n (pages h) bs) \<and>
    pages h' = snd (the (am (page_round n) (pages h)))"
proof -
  obtain na e where am: "am (page_round n) (pages h) = Some (na, e)"
    using g by (auto simp: grants_def split: option.splits)
  show ?thesis
  proof (cases "na = 0")
    case True
    then show ?thesis using am ok by (simp add: requestMoreMemory_def Let_def grown_def heap_ok_def heap_is_def)
  next
    case False
    have "apart (bs @ [(na, page_round n - HEADER, False)])" using g am False by (simp add: grants_def)
    then obtain h' where "requestMoreMemory am n h = Some (na, h')" "heap_is h' (bs @ [(na, page_round n - HEADER, False)])"
      "totalMemory h' = totalMemory h + page_round n" "totalAllocatedMemory h' = totalAllocatedMemory h" "pages h' = e"
      using requestMoreMemory_rep [of h bs am n na e] ok am False by (auto simp: heap_ok_def)
    then show ?thesis using ok am False by (simp add: heap_ok_def grown_def)
  qed
qed

lemma best_none: "best n bs r \<Longrightarrow> apart bs \<Longrightarrow> r = 0 \<longleftrightarrow> (\<forall>b \<in> set bs. \<not> fits n b)"
  using best_0 [of bs n] apart_ok [of bs] by (fastforce simp: best_def)

text \<open>
  An allocation that is not page aligned: a best fitting block is taken; where there is none the
  heap first grows, and the request fails only if it cannot.
\<close>

lemma alloc_rep:
  assumes ok: "heap_ok h bs" and n: "n \<noteq> 0" and g: "grants am n (pages h) bs"
  shows "(\<exists>b \<in> set bs. fits n b) \<Longrightarrow>
      \<exists>a h' bs'. alloc am n False h = Some (a + HEADER, h') \<and> heap_ok h' bs' \<and> takes n a bs bs' \<and>
        pages h' = pages h \<and> cover bs' = cover bs"
    and "\<forall>b \<in> set bs. \<not> fits n b \<Longrightarrow> \<exists>b \<in> set (grown am n (pages h) bs). fits n b \<Longrightarrow>
      \<exists>a h' bs'. alloc am n False h = Some (a + HEADER, h') \<and> heap_ok h' bs' \<and>
        takes n a (grown am n (pages h) bs) bs' \<and> pages h' = snd (the (am (page_round n) (pages h))) \<and>
        cover bs' = cover (grown am n (pages h) bs)"
    and "\<forall>b \<in> set bs. \<not> fits n b \<Longrightarrow> \<forall>b \<in> set (grown am n (pages h) bs). \<not> fits n b \<Longrightarrow>
      \<exists>h'. alloc am n False h = Some (0, h') \<and> heap_ok h' (grown am n (pages h) bs) \<and>
        pages h' = snd (the (am (page_round n) (pages h)))"
proof -
  have hi: "heap_is h bs" and ap: "apart bs" using ok by (auto simp: heap_ok_def heap_is_def)
  obtain r where r: "findSmallestHole n False h = Some r" "best n bs r" using findSmallestHole_best [OF hi] by blast
  note r0 = best_none [OF r(2) ap]
  let ?bs1 = "grown am n (pages h) bs"
  obtain q h1 where q: "requestMoreMemory am n h = Some (q, h1)" "heap_ok h1 ?bs1"
    "pages h1 = snd (the (am (page_round n) (pages h)))" using after_request [OF ok g] by blast
  have ap1: "apart ?bs1" and hi1: "heap_is h1 ?bs1" using q(2) by (auto simp: heap_ok_def heap_is_def)
  obtain r1 where r1: "findSmallestHole n False h1 = Some r1" "best n ?bs1 r1" using findSmallestHole_best [OF hi1] by blast
  note r10 = best_none [OF r1(2) ap1]
  show "\<exists>a h' bs'. alloc am n False h = Some (a + HEADER, h') \<and> heap_ok h' bs' \<and> takes n a bs bs' \<and>
        pages h' = pages h \<and> cover bs' = cover bs" if "\<exists>b \<in> set bs. fits n b"
  proof -
    have "r \<noteq> 0" using r0 that by simp
    moreover have "alloc am n False h = alloc_at r n h" using n r(1) \<open>r \<noteq> 0\<close> by (simp add: alloc_def)
    ultimately show ?thesis using alloc_at_ok [OF ok r(2)] by metis
  qed
  assume none: "\<forall>b \<in> set bs. \<not> fits n b"
  have a: "alloc am n False h = (if r1 = 0 then Some (0, h1) else alloc_at r1 n h1)"
    using n r(1) r0 none q(1) r1(1) by (simp add: alloc_def)
  show "\<exists>a h' bs'. alloc am n False h = Some (a + HEADER, h') \<and> heap_ok h' bs' \<and>
        takes n a ?bs1 bs' \<and> pages h' = snd (the (am (page_round n) (pages h))) \<and> cover bs' = cover ?bs1"
    if "\<exists>b \<in> set ?bs1. fits n b"
  proof -
    have "r1 \<noteq> 0" using r10 that by simp
    then show ?thesis using a alloc_at_ok [OF q(2) r1(2)] q(3) by metis
  qed
  show "\<exists>h'. alloc am n False h = Some (0, h') \<and> heap_ok h' ?bs1 \<and> pages h' = snd (the (am (page_round n) (pages h)))"
    if "\<forall>b \<in> set ?bs1. \<not> fits n b"
    using a q r10 that by simp
qed

lemma live_mid: "live (xs @ (a, s, True) # ys) = live xs @ (a, s, True) # live ys"
  by simp

text \<open>Merging only drops chunks from the list, so the order of the others stays.\<close>

lemma push_order: "subseq (map fst (push xs x)) (map fst xs @ [fst x])"
  by (cases xs rule: rev_cases) (auto simp: push_def)

lemma merge_right_order: "merge_right x ys = (x', ys') \<Longrightarrow> fst x' = fst x \<and> subseq (map fst ys') (map fst ys)"
  by (cases "(x, ys)" rule: merge_right.cases) (auto split: if_splits)

lemma subseq_append_both: "subseq a b \<Longrightarrow> subseq c d \<Longrightarrow> subseq (a @ c) (b @ d)"
  by (rule list_emb_append_mono)

lemma merged_order:
  assumes "merge_right x ys = (x', ys')"
  shows "subseq (map fst (push xs x' @ ys')) (map fst xs @ fst x # map fst ys)"
  using subseq_append_both [OF push_order [of xs x']] merge_right_order [OF assms] by fastforce

lemma coal_order: "subseq (map fst (coal seen ys)) (map fst seen @ map fst ys)"
proof (induction seen ys rule: coal.induct)
  case (2 seen x ys)
  obtain x' ys' where r: "merge_right x ys = (x', ys')" by (cases "merge_right x ys")
  show ?case
  proof (cases "taken x")
    case False
    then have "subseq (map fst (coal seen (x # ys))) (map fst (push seen x' @ ys'))" using 2 by (simp add: r)
    also note merged_order [OF r, of seen]
    finally show ?thesis by simp
  qed (use 2 in simp)
qed simp

text \<open>The list is \<open>tidy\<close> when no chunk and the next one in it are free and touch. Where the chunks stand
  in the order of their addresses, no two free chunks touch at all then.\<close>

abbreviation ascending :: "block list \<Rightarrow> bool" where
  "ascending bs \<equiv> sorted_wrt (<) (map fst bs)"

definition settled :: "block list \<Rightarrow> bool" where
  "settled bs = (\<forall>b \<in> set bs. \<forall>c \<in> set bs. \<not> taken b \<longrightarrow> \<not> taken c \<longrightarrow> \<not> touch b c)"

lemma subseq_ascending: "subseq (map fst bs') (map fst bs) \<Longrightarrow> ascending bs \<Longrightarrow> ascending bs'"
proof -
  have "sorted_wrt R ys \<Longrightarrow> sorted_wrt R xs" if "subseq xs ys" for R :: "u32 \<Rightarrow> u32 \<Rightarrow> bool" and xs ys
    using that by (induction rule: list_emb.induct) (auto dest: list_emb_set)
  then show "subseq (map fst bs') (map fst bs) \<Longrightarrow> ascending bs \<Longrightarrow> ascending bs'" .
qed

lemma ascending_not_touch:
  assumes "apart bs" and "b \<in> set bs" and "c \<in> set bs" and "touch b c"
  shows "fst b < fst c" "\<And>d. d \<in> set bs \<Longrightarrow> fst b < fst d \<Longrightarrow> fst c \<le> fst d"
proof -
  obtain a sz al e se el where bc: "b = (a, sz, al)" "c = (e, se, el)" by (cases b, cases c)
  have ok: "block_ok b" "block_ok c" using assms apart_ok by blast+
  note u = touch_unat(1) [OF ok [unfolded bc] assms(4) [unfolded bc]]
  show "fst b < fst c" using u by (simp add: bc word_less_nat_alt)
  show "fst c \<le> fst d" if "d \<in> set bs" "fst b < fst d" for d
  proof (rule ccontr)
    assume "\<not> fst c \<le> fst d"
    then have "unat (fst d) \<in> extent b" using u that(2) by (simp add: bc word_less_nat_alt word_le_nat_alt)
    then have "extent b \<inter> extent d \<noteq> {}" using extent_addr [of d] by blast
    moreover have "b \<noteq> d" using that(2) by auto
    ultimately show False using assms(1,2) that(1) by (induction bs) auto
  qed
qed

lemma tidy_next: "tidy (xs @ x # y # ys) \<Longrightarrow> taken x \<or> taken y \<or> \<not> touch x y"
  by (induction xs rule: tidy.induct) auto

lemma ascending_settled:
  assumes "apart bs" and "ascending bs" and "tidy bs"
  shows "settled bs"
  unfolding settled_def
proof (intro ballI impI notI)
  fix b c assume b: "b \<in> set bs" and c: "c \<in> set bs" and f: "\<not> taken b" "\<not> taken c" and t: "touch b c"
  note lt = ascending_not_touch [OF assms(1) b c t]
  obtain xs ys where bs: "bs = xs @ b # ys" using b by (meson split_list)
  have "c \<in> set ys" using c lt(1) assms(2) by (fastforce simp: bs sorted_wrt_append)
  then obtain y zs where ys: "ys = y # zs" by (cases ys) auto
  have "fst c \<le> fst y" using lt(2) [of y] assms(2) by (simp add: bs ys sorted_wrt_append)
  then have "c = y" using \<open>c \<in> set ys\<close> assms(2) by (fastforce simp: bs ys sorted_wrt_append)
  then show False using tidy_next [of xs b y zs] assms(3) f t by (simp add: bs ys)
qed

text \<open>A release: exactly the freed block stops being taken, and no free chunk and the next one touch any more.\<close>

lemma free_rep:
  assumes ok: "heap_ok h (xs @ (p - HEADER, s, True) # ys)" and p: "p \<noteq> 0"
  shows "\<exists>h' bs'. free p h = Some h' \<and> heap_ok h' bs' \<and> live bs' = live xs @ live ys \<and> tidy bs' \<and>
    subseq (map fst bs') (map fst (xs @ (p - HEADER, s, True) # ys)) \<and>
    cover bs' = cover (xs @ (p - HEADER, s, True) # ys) \<and> pages h' = pages h"
proof -
  let ?a = "p - HEADER" and ?bs = "xs @ (p - HEADER, s, True) # ys"
  have h: "heap_is h ?bs" using ok by (simp add: heap_ok_def)
  obtain h1 c where h1: "upd ?a (c_alloc_update (\<lambda>_. False)) h = Some h1" "same_rest h h1"
    "heap_is h1 (xs @ (?a, s, False) # ys)" "chunks h1 ?a = Some c" "c_size c = s"
    using set_flag_rep [OF h, of False] by (metis HeapChunk.select_convs(1))
  define h2 where "h2 = h1\<lparr>totalAllocatedMemory := totalAllocatedMemory h1 - s\<rparr>"
  have h2: "heap_is h2 (xs @ (?a, s, False) # ys)" using h1(3) by (simp add: h2_def heap_is_def)
  obtain x' ys' where r: "merge_right (?a, s, False) ys = (x', ys')" by (cases "merge_right (?a, s, False) ys")
  obtain h3 where h3: "tryMerge ?a h2 = Some h3" "same_rest h2 h3" "heap_is h3 (push xs x' @ ys')"
    using tryMerge_rep [OF h2 r] by auto
  have "heap_is h3 ([] @ (push xs x' @ ys'))" using h3(3) by simp
  from coalesce_rep [OF this] obtain h4 where
    h4: "coalesceFreeBlocks h3 = Some h4" "same_rest h3 h4" "heap_is h4 (coal [] (push xs x' @ ys'))"
    using h3(3) by (auto simp: coalesceFreeBlocks_def heap_is_def)
  let ?bs' = "coal [] (push xs x' @ ys')"
  have ap2: "apart (xs @ (?a, s, False) # ys)" using h2 by (simp add: heap_is_def)
  note m = merge_right_sums [OF ap2 r] and pu = push_sums [OF merge_right_sums(1) [OF ap2 r]]
  have ap3: "apart ([] @ (push xs x' @ ys'))" using pu(1) by simp
  have tx: "\<not> taken x'" using merge_right_addr [OF r] by simp
  have lv: "live ?bs' = live xs @ live ys" using merge_right_live [OF r] push_live [OF tx] by (simp add: coal_live)
  have cov: "cover ?bs' = cover ?bs"
    using coal_sums [OF ap3] pu(2) m(2) by (simp add: Un_assoc)
  have rm: "room ?bs' = room ?bs"
    using coal_sums [OF ap3] pu(3) m(3) by (simp add: add.assoc)
  have "in_use ?bs' = in_use (xs @ ys)" using lv by (intro in_use_live) simp
  then have "in_use ?bs' = in_use ?bs - s" by simp
  then have "heap_ok h4 ?bs'"
    using h4 h3(2) h1(2) ok rm by (simp add: heap_ok_def same_rest_def h2_def)
  moreover have "free p h = Some h4" using p h1 h3(1) h4(1) by (simp add: free_def h2_def)
  moreover have "tidy ?bs'" by (rule coal_tidy) simp
  moreover have "subseq (map fst ?bs') (map fst ?bs)"
    using subseq_order.trans [OF coal_order [of "[]" "push xs x' @ ys'"]] merged_order [OF r, of xs] by simp
  moreover have "pages h4 = pages h" using h4(2) h3(2) h1(2) by (simp add: same_rest_def h2_def)
  ultimately show ?thesis using lv cov by blast
qed

end
