(* ===== verification/Phys_Mem.thy ===== *)
theory Phys_Mem
  imports Prelude
begin

text \<open>
  The frame allocator (\<open>core/memory/PhysicalMemory.cpp\<close>): the placement allocator of the early
  kernel, the bitmap with one bit per 4 KiB frame and the two counters. A frame is handed out
  as its address, the null pointer (0) when there is none. The bitmap is the list of the words
  the code clears at start; an access past it is \<open>None\<close>.
\<close>

section \<open>Definitions\<close>

record phys_mem =
  placement_address :: u32
  frameBits :: "u32 list"
  framesCount :: u32
  freeFramesCount :: u32
  allocatedFrames :: u32

definition kmalloc :: "u32 \<Rightarrow> phys_mem \<Rightarrow> u32 \<times> phys_mem" where
  "kmalloc sz s =
     (if sz = 0 then (0, s)
      else (placement_address s, s\<lparr>placement_address := placement_address s + sz\<rparr>))"

definition markFrame :: "u32 \<Rightarrow> phys_mem \<Rightarrow> phys_mem option" where
  "markFrame num s =
     do { w \<leftarrow> rd_at (frameBits s) (unat (num div 32));
          bits \<leftarrow> wr_at (frameBits s) (unat (num div 32)) (w OR push_bit (unat (num mod 32)) 1);
          Some (s\<lparr>frameBits := bits\<rparr>) }"

definition unmarkFrame :: "u32 \<Rightarrow> phys_mem \<Rightarrow> phys_mem option" where
  "unmarkFrame num s =
     do { w \<leftarrow> rd_at (frameBits s) (unat (num div 32));
          bits \<leftarrow> wr_at (frameBits s) (unat (num div 32)) (w AND NOT (push_bit (unat (num mod 32)) 1));
          Some (s\<lparr>frameBits := bits\<rparr>) }"

definition getFrameMark :: "u32 \<Rightarrow> phys_mem \<Rightarrow> bool option" where
  "getFrameMark num s =
     do { w \<leftarrow> rd_at (frameBits s) (unat (num div 32));
          Some (w AND push_bit (unat (num mod 32)) 1 \<noteq> 0) }"

definition unmarkAll :: "phys_mem \<Rightarrow> phys_mem option" where
  "unmarkAll s =
     do { bits \<leftarrow> fold_opt (\<lambda>i bits. wr_at bits i 0) [0..<unat (framesCount s div 32)] (frameBits s);
          Some (s\<lparr>frameBits := bits\<rparr>) }"

fun find_bit :: "u32 \<Rightarrow> nat list \<Rightarrow> nat option" where
  "find_bit w [] = None"
| "find_bit w (j # js) = (if w AND push_bit j 1 = 0 then Some j else find_bit w js)"

fun find_word :: "u32 list \<Rightarrow> nat list \<Rightarrow> u32 option" where
  "find_word bits [] = Some 0"
| "find_word bits (i # is) =
     do { w \<leftarrow> rd_at bits i;
          if w \<noteq> 0xFFFFFFFF then
            (case find_bit w [0..<32] of
               Some j \<Rightarrow> Some (of_nat i * 32 + of_nat j)
             | None \<Rightarrow> find_word bits is)
          else find_word bits is }"

definition findFirstFreeFrame :: "phys_mem \<Rightarrow> u32 option" where
  "findFirstFreeFrame s = find_word (frameBits s) [0..<unat (framesCount s div 32)]"

definition count_alloc :: "u32 \<Rightarrow> phys_mem \<Rightarrow> phys_mem" where
  "count_alloc n s = s\<lparr>allocatedFrames := allocatedFrames s + n, freeFramesCount := freeFramesCount s - n\<rparr>"

definition count_free :: "u32 \<Rightarrow> phys_mem \<Rightarrow> phys_mem" where
  "count_free n s = s\<lparr>allocatedFrames := allocatedFrames s - n, freeFramesCount := freeFramesCount s + n\<rparr>"

definition allocateFrame :: "phys_mem \<Rightarrow> (u32 \<times> phys_mem) option" where
  "allocateFrame s =
     do { frame \<leftarrow> findFirstFreeFrame s;
          if frame = 0 then Some (0, s)
          else do { s1 \<leftarrow> markFrame frame s; Some (push_bit 12 frame, count_alloc 1 s1) } }"

definition freeFrame :: "u32 \<Rightarrow> phys_mem \<Rightarrow> phys_mem option" where
  "freeFrame frame s =
     (if frame = 0 then Some s
      else do { s1 \<leftarrow> unmarkFrame (drop_bit 12 frame) s; Some (count_free 1 s1) })"

text \<open>\<open>findFirstFreeFrames\<close>: the scan for a run of free frames.\<close>

fun find_run :: "phys_mem \<Rightarrow> u32 \<Rightarrow> nat list \<Rightarrow> u32 \<Rightarrow> u32 \<Rightarrow> u32 option" where
  "find_run s num [] consecutive firstFrame = Some 0"
| "find_run s num (i # is) consecutive firstFrame =
     do { marked \<leftarrow> getFrameMark (of_nat i) s;
          if \<not> marked then
            let firstFrame' = (if consecutive = 0 then of_nat i else firstFrame)
            in if consecutive + 1 = num then Some firstFrame'
               else find_run s num is (consecutive + 1) firstFrame'
          else find_run s num is 0 firstFrame }"

definition findFirstFreeFrames :: "u32 \<Rightarrow> phys_mem \<Rightarrow> u32 option" where
  "findFirstFreeFrames num s = find_run s num [0..<unat (framesCount s)] 0 0"

definition allocateFrames :: "u32 \<Rightarrow> phys_mem \<Rightarrow> (u32 \<times> phys_mem) option" where
  "allocateFrames num s =
     do { firstFrame \<leftarrow> findFirstFreeFrames num s;
          if firstFrame = 0 then Some (0, s)
          else do { s1 \<leftarrow> fold_opt (\<lambda>i. markFrame (firstFrame + of_nat i)) [0..<unat num] s;
                    Some (push_bit 12 firstFrame, count_alloc num s1) } }"

definition freeFrames :: "u32 \<Rightarrow> u32 \<Rightarrow> phys_mem \<Rightarrow> phys_mem option" where
  "freeFrames frame num s =
     do { s1 \<leftarrow> fold_opt (\<lambda>i. unmarkFrame (drop_bit 12 frame + of_nat i)) [0..<unat num] s;
          Some (count_free num s1) }"

definition reserveFrame :: "u32 \<Rightarrow> phys_mem \<Rightarrow> phys_mem option" where
  "reserveFrame frame s = do { s1 \<leftarrow> markFrame (drop_bit 12 frame) s; Some (count_alloc 1 s1) }"

text \<open>\<open>isFrameFree\<close> returns the mark, which is set when the frame is in use.\<close>

definition isFrameFree :: "u32 \<Rightarrow> phys_mem \<Rightarrow> bool option" where
  "isFrameFree frame s = getFrameMark (drop_bit 12 frame) s"

text \<open>\<open>initialize\<close>; the bitmap is what \<open>unmarkAll\<close> clears.\<close>

definition initialize :: "u32 \<Rightarrow> u32 \<Rightarrow> phys_mem \<Rightarrow> phys_mem option" where
  "initialize safeSpace memorySize s =
     (let frames = drop_bit 12 memorySize;
          s1 = snd (kmalloc (frames div 32) (s\<lparr>framesCount := frames, freeFramesCount := frames\<rparr>));
          s2 = s1\<lparr>frameBits := replicate (unat (frames div 32)) 0\<rparr>
      in do {
        s3 \<leftarrow> unmarkAll s2;
        let reserved = placement_address s3 + safeSpace;
            reservedUpperAligned = drop_bit 12 reserved + 1
        in fold_opt (\<lambda>i s. do { s' \<leftarrow> markFrame (of_nat i) s; Some (count_alloc 1 s') })
             [0..<unat reservedUpperAligned] s3 })"

section \<open>The bitmap as a set\<close>

definition used :: "phys_mem \<Rightarrow> nat set" where
  "used s = {n. n < 32 * length (frameBits s) \<and> bit (frameBits s ! (n div 32)) (n mod 32)}"

definition same_size :: "phys_mem \<Rightarrow> phys_mem \<Rightarrow> bool" where
  "same_size s s' \<longleftrightarrow>
     length (frameBits s') = length (frameBits s) \<and> framesCount s' = framesCount s \<and>
     freeFramesCount s' = freeFramesCount s \<and> allocatedFrames s' = allocatedFrames s \<and>
     placement_address s' = placement_address s"

lemma unat_index: "unat ((n :: u32) div 32) = unat n div 32" "unat (n mod 32) = unat n mod 32"
  by (simp_all add: unat_div unat_mod)

lemma bit_and_push: "w AND push_bit j 1 \<noteq> 0 \<longleftrightarrow> j < 32 \<and> bit (w :: u32) j"
proof -
  have "w AND push_bit j 1 = (if j < 32 \<and> bit w j then push_bit j 1 else 0)"
    by (rule bit_word_eqI) (auto simp: bit_simps)
  moreover have "j < 32 \<Longrightarrow> (push_bit j 1 :: u32) \<noteq> 0"
    by (simp add: push_bit_eq_mult)
  ultimately show ?thesis by auto
qed

lemma rd_wr_bit:
  assumes "unat (n :: u32) div 32 < length (frameBits s)"
  shows "rd_at (frameBits s) (unat (n div 32)) = Some (frameBits s ! (unat n div 32))"
    "wr_at (frameBits s) (unat (n div 32)) v = Some ((frameBits s)[unat n div 32 := v])"
  using assms by (simp_all add: rd_at_def wr_at_def unat_index)

lemma index_bound: "m < 32 * k \<longleftrightarrow> m div 32 < (k :: nat)"
  by (simp add: div_less_iff_less_mult mult.commute)

lemma used_update:
  assumes "i < length (frameBits s)"
  shows "used (s\<lparr>frameBits := (frameBits s)[i := w]\<rparr>) =
    {n. n < 32 * length (frameBits s) \<and> (if n div 32 = i then bit w (n mod 32) else n \<in> used s)}"
  using assms by (auto simp: used_def index_bound nth_list_update)

lemma markFrame_used:
  assumes "unat n < 32 * length (frameBits s)"
  obtains s' where "markFrame n s = Some s'" "used s' = insert (unat n) (used s)" "same_size s s'"
proof -
  let ?i = "unat n div 32"
  have i: "?i < length (frameBits s)" using assms by (simp add: index_bound)
  let ?w = "frameBits s ! ?i OR push_bit (unat n mod 32) 1"
  have "markFrame n s = Some (s\<lparr>frameBits := (frameBits s)[?i := ?w]\<rparr>)"
    by (simp add: markFrame_def rd_wr_bit [OF i] unat_index(2))
  moreover have "used (s\<lparr>frameBits := (frameBits s)[?i := ?w]\<rparr>) = insert (unat n) (used s)"
  proof -
    have "bit ?w (m mod 32) \<longleftrightarrow> m = unat n \<or> bit (frameBits s ! ?i) (m mod 32)" if "m div 32 = ?i" for m
    proof -
      have "m mod 32 = unat n mod 32 \<longleftrightarrow> m = unat n" using that div_mult_mod_eq [of m 32] div_mult_mod_eq [of "unat n" 32] by metis
      then show ?thesis by (auto simp: bit_simps)
    qed
    then show ?thesis using assms by (auto simp: used_update [OF i]) (auto simp: used_def)
  qed
  ultimately show ?thesis using that by (simp add: same_size_def)
qed

lemma unmarkFrame_used:
  assumes "unat n < 32 * length (frameBits s)"
  obtains s' where "unmarkFrame n s = Some s'" "used s' = used s - {unat n}" "same_size s s'"
proof -
  let ?i = "unat n div 32"
  have i: "?i < length (frameBits s)" using assms by (simp add: index_bound)
  let ?w = "frameBits s ! ?i AND NOT (push_bit (unat n mod 32) 1)"
  have "unmarkFrame n s = Some (s\<lparr>frameBits := (frameBits s)[?i := ?w]\<rparr>)"
    by (simp add: unmarkFrame_def rd_wr_bit [OF i] unat_index(2))
  moreover have "used (s\<lparr>frameBits := (frameBits s)[?i := ?w]\<rparr>) = used s - {unat n}"
  proof -
    have "bit ?w (m mod 32) \<longleftrightarrow> m \<noteq> unat n \<and> bit (frameBits s ! ?i) (m mod 32)" if "m div 32 = ?i" for m
    proof -
      have "m mod 32 = unat n mod 32 \<longleftrightarrow> m = unat n" using that div_mult_mod_eq [of m 32] div_mult_mod_eq [of "unat n" 32] by metis
      then show ?thesis by (auto simp: bit_simps)
    qed
    then show ?thesis using assms by (auto simp: used_update [OF i]) (auto simp: used_def)
  qed
  ultimately show ?thesis using that by (simp add: same_size_def)
qed

lemma getFrameMark_used:
  assumes "unat n < 32 * length (frameBits s)"
  shows "getFrameMark n s = Some (unat n \<in> used s)"
proof -
  have "unat n div 32 < length (frameBits s)" using assms by (simp add: index_bound)
  then show ?thesis using assms by (simp add: getFrameMark_def rd_wr_bit unat_index(2) bit_and_push [unfolded push_bit_of_1] used_def)
qed

section \<open>Searching\<close>

lemma find_bit_Some: "find_bit w js = Some j \<Longrightarrow> set js \<subseteq> {..<32} \<Longrightarrow> sorted js \<Longrightarrow>
    j \<in> set js \<and> \<not> bit w j \<and> (\<forall>k \<in> set js. k < j \<longrightarrow> bit w k)"
proof (induction js)
  case Nil
  then show ?case by simp
next
  case (Cons k js)
  have b: "w AND push_bit k 1 = 0 \<longleftrightarrow> \<not> bit w k" using Cons.prems(2) bit_and_push [of w k] by auto
  show ?case
  proof (cases "bit w k")
    case True
    with Cons b show ?thesis by auto
  next
    case False
    with Cons.prems b show ?thesis by auto
  qed
qed

lemma find_bit_None: "find_bit w js = None \<Longrightarrow> set js \<subseteq> {..<32} \<Longrightarrow> \<forall>k \<in> set js. bit w k"
proof (induction js)
  case (Cons k js)
  have "w AND push_bit k 1 = 0 \<longleftrightarrow> \<not> bit w k" using Cons.prems(2) bit_and_push [of w k] by auto
  with Cons show ?case by (auto split: if_splits)
qed simp

lemma full_word: "(w :: u32) = 0xFFFFFFFF \<longleftrightarrow> (\<forall>k < 32. bit w k)"
proof -
  have m: "(0xFFFFFFFF :: u32) = mask 32" by (simp add: mask_eq_exp_minus_1)
  show ?thesis
  proof
    assume "w = 0xFFFFFFFF"
    then show "\<forall>k < 32. bit w k" unfolding m by (simp add: bit_mask_iff)
  next
    assume "\<forall>k < 32. bit w k"
    then show "w = 0xFFFFFFFF" unfolding m by (intro bit_word_eqI) (simp add: bit_mask_iff)
  qed
qed

text \<open>The frames below the words that are left are all in use.\<close>

lemma find_word_spec:
  assumes "k \<le> length bits" and "length bits \<le> 32768"
    and "\<forall>n < 32 * k. bit (bits ! (n div 32)) (n mod 32)"
  shows "\<exists>r. find_word bits [k..<length bits] = Some r \<and>
    ((\<forall>n < 32 * length bits. bit (bits ! (n div 32)) (n mod 32)) \<and> r = 0 \<or>
     (unat r < 32 * length bits \<and> \<not> bit (bits ! (unat r div 32)) (unat r mod 32) \<and>
      (\<forall>n < unat r. bit (bits ! (n div 32)) (n mod 32))))"
  using assms
proof (induction "length bits - k" arbitrary: k)
  case 0
  then show ?case by simp
next
  case (Suc m)
  then have k: "k < length bits" by simp
  then have up: "[k..<length bits] = k # [Suc k..<length bits]" by (rule upt_conv_Cons)
  have rd: "rd_at bits k = Some (bits ! k)" using k by (simp add: rd_at_def)
  have sub: "set [0..<32] \<subseteq> {..<32 :: nat}" "sorted [0..<32]" by auto
  show ?case
  proof (cases "find_bit (bits ! k) [0..<32]")
    case None
    have all: "\<forall>j < 32. bit (bits ! k) j" using find_bit_None [OF None sub(1)] by auto
    then have "bits ! k = 0xFFFFFFFF" by (simp add: full_word)
    then have "find_word bits [k..<length bits] = find_word bits [Suc k..<length bits]"
      by (simp add: up rd)
    moreover have "\<forall>n < 32 * Suc k. bit (bits ! (n div 32)) (n mod 32)"
    proof (intro allI impI)
      fix n assume n: "n < 32 * Suc k"
      show "bit (bits ! (n div 32)) (n mod 32)"
      proof (cases "n < 32 * k")
        case True
        then show ?thesis using Suc.prems(3) by simp
      next
        case False
        then have "n div 32 = k" using n by simp
        then show ?thesis using all by simp
      qed
    qed
    ultimately show ?thesis using Suc.hyps(1) [of "Suc k"] Suc.hyps(2) Suc.prems k by simp
  next
    case (Some j)
    note j = find_bit_Some [OF Some sub]
    have nf: "bits ! k \<noteq> 0xFFFFFFFF" using j by (auto simp: full_word)
    let ?r = "of_nat k * 32 + of_nat j :: u32"
    have u: "unat ?r = 32 * k + j"
    proof -
      have "?r = of_nat (32 * k + j)" by (simp add: mult.commute)
      moreover have "32 * k + j < 4294967296" using k j Suc.prems(2) by auto
      ultimately show ?thesis by (simp add: unat_of_nat del: of_nat_add of_nat_mult)
    qed
    have "find_word bits [k..<length bits] = Some ?r" using Some nf by (simp add: up rd)
    moreover have "unat ?r div 32 = k" "unat ?r mod 32 = j" using j unfolding u by auto
    moreover have "unat ?r < 32 * length bits" using k j unfolding u by auto
    moreover have "bit (bits ! (n div 32)) (n mod 32)" if n: "n < unat ?r" for n
    proof (cases "n < 32 * k")
      case True
      then show ?thesis using Suc.prems(3) by simp
    next
      case False
      then obtain e where "n = 32 * k + e" by (metis le_Suc_ex not_less)
      then have "n div 32 = k" "n mod 32 < j" using n j unfolding u by auto
      then show ?thesis using j by auto
    qed
    ultimately show ?thesis using j by auto
  qed
qed

section \<open>The invariant\<close>

text \<open>
  The bitmap covers the frames, frame 0 is never free (it stands for the null pointer), and the
  two counters count the marked and the unmarked frames.
\<close>

definition mem_ok :: "phys_mem \<Rightarrow> bool" where
  "mem_ok s \<longleftrightarrow>
     unat (framesCount s) = 32 * length (frameBits s) \<and> length (frameBits s) \<le> 32768 \<and> 0 \<in> used s \<and>
     unat (allocatedFrames s) = card (used s) \<and>
     unat (freeFramesCount s) = 32 * length (frameBits s) - card (used s)"

definition frame_used :: "phys_mem \<Rightarrow> u32 \<Rightarrow> bool" where
  "frame_used s a \<longleftrightarrow> unat (drop_bit 12 a) \<in> used s"

lemma used_finite: "finite (used s)" "used s \<subseteq> {..<32 * length (frameBits s)}"
  by (auto simp: used_def)

lemma used_card: "card (used s) \<le> 32 * length (frameBits s)"
  using card_mono [OF _ used_finite(2) [of s]] by simp

lemma findFirstFreeFrame_spec:
  assumes "mem_ok s"
  shows "\<exists>r. findFirstFreeFrame s = Some r \<and>
    (used s = {..<32 * length (frameBits s)} \<and> r = 0 \<or>
     (r \<noteq> 0 \<and> unat r < 32 * length (frameBits s) \<and> unat r \<notin> used s \<and> (\<forall>n < unat r. n \<in> used s)))"
proof -
  have b: "length (frameBits s) \<le> 32768" and c: "unat (framesCount s div 32) = length (frameBits s)"
    using assms by (simp_all add: mem_ok_def unat_index)
  obtain r where r: "findFirstFreeFrame s = Some r"
    "(\<forall>n < 32 * length (frameBits s). bit (frameBits s ! (n div 32)) (n mod 32)) \<and> r = 0 \<or>
     (unat r < 32 * length (frameBits s) \<and> \<not> bit (frameBits s ! (unat r div 32)) (unat r mod 32) \<and>
      (\<forall>n < unat r. bit (frameBits s ! (n div 32)) (n mod 32)))"
    using find_word_spec [of 0 "frameBits s"] b by (auto simp: findFirstFreeFrame_def c)
  have "r \<noteq> 0" if "unat r \<notin> used s" using that assms by (auto simp: mem_ok_def)
  then show ?thesis using r by (auto simp: used_def)
qed

lemma frame_address:
  assumes "unat (r :: u32) < 1048576"
  shows "drop_bit 12 (push_bit 12 r) = r" "push_bit 12 r = 0 \<longleftrightarrow> r = 0" "unat (push_bit 12 r) = 4096 * unat r"
proof -
  show u: "unat (push_bit 12 r) = 4096 * unat r"
    using assms by (simp add: push_bit_eq_mult unat_mult_small)
  have "unat (drop_bit 12 (push_bit 12 r)) = unat r"
    by (simp add: u drop_bit_eq_div unat_div)
  then show "drop_bit 12 (push_bit 12 r) = r" by (simp add: word_unat_eq_iff)
  show "push_bit 12 r = 0 \<longleftrightarrow> r = 0" using u by (auto simp: word_unat_eq_iff)
qed

lemma u32_dec: "unat (x :: u32) = Suc n \<Longrightarrow> unat (x - 1) = n"
  by (subst unat_sub_le) (auto simp: u32_le_iff)

lemma u32_inc: "unat (x :: u32) < 4294967295 \<Longrightarrow> unat (x + 1) = Suc (unat x)"
  by (subst unat_add_small) auto

lemma mem_ok_alloc:
  assumes ok: "mem_ok s" and n: "n \<notin> used s" "n < 32 * length (frameBits s)"
    and s': "used s' = insert n (used s)" "same_size s s'"
  shows "mem_ok (count_alloc 1 s')"
proof -
  have c: "card (insert n (used s)) = Suc (card (used s))" using n used_finite(1) by simp
  moreover have "insert n (used s) \<subseteq> {..<32 * length (frameBits s)}" using n used_finite(2) by auto
  ultimately have lt: "Suc (card (used s)) \<le> 32 * length (frameBits s)"
    using card_mono [of "{..<32 * length (frameBits s)}" "insert n (used s)"] by simp
  have "unat (freeFramesCount s) = Suc (32 * length (frameBits s) - Suc (card (used s)))"
    using ok lt by (simp add: mem_ok_def)
  from u32_dec [OF this] have "unat (freeFramesCount s - 1) = 32 * length (frameBits s) - Suc (card (used s))" .
  moreover have "unat (allocatedFrames s + 1) = Suc (card (used s))"
    using ok lt by (subst u32_inc) (auto simp: mem_ok_def)
  ultimately show ?thesis
    using ok s' c by (simp add: mem_ok_def same_size_def count_alloc_def used_def)
qed

lemma mem_ok_free:
  assumes ok: "mem_ok s" and n: "n \<in> used s" "n \<noteq> 0"
    and s': "used s' = used s - {n}" "same_size s s'"
  shows "mem_ok (count_free 1 s')"
proof -
  have c: "card (used s) = Suc (card (used s - {n}))" using n(1) used_finite(1) by (metis card_Suc_Diff1)
  have "unat (allocatedFrames s) = Suc (card (used s - {n}))" using ok c by (simp add: mem_ok_def)
  from u32_dec [OF this] have "unat (allocatedFrames s - 1) = card (used s - {n})" .
  moreover have "unat (freeFramesCount s + 1) = 32 * length (frameBits s) - card (used s - {n})"
    using ok c used_card [of s] by (subst u32_inc) (auto simp: mem_ok_def)
  ultimately show ?thesis
    using ok s' n(2) by (simp add: mem_ok_def same_size_def count_free_def used_def)
qed

section \<open>Single frames\<close>

lemma allocateFrame_spec:
  assumes ok: "mem_ok s"
  shows "(used s = {..<32 * length (frameBits s)} \<and> allocateFrame s = Some (0, s)) \<or>
    (\<exists>a s'. allocateFrame s = Some (a, s') \<and> a \<noteq> 0 \<and> mem_ok s' \<and> unat a mod 4096 = 0 \<and>
       \<not> frame_used s a \<and> (\<forall>n < unat (drop_bit 12 a). n \<in> used s) \<and>
       used s' = insert (unat (drop_bit 12 a)) (used s))"
proof -
  obtain r where r: "findFirstFreeFrame s = Some r"
    "used s = {..<32 * length (frameBits s)} \<and> r = 0 \<or>
     (r \<noteq> 0 \<and> unat r < 32 * length (frameBits s) \<and> unat r \<notin> used s \<and> (\<forall>n < unat r. n \<in> used s))"
    using findFirstFreeFrame_spec [OF ok] by blast
  show ?thesis
  proof (cases "r = 0")
    case True
    then have "used s = {..<32 * length (frameBits s)}" using r(2) by simp
    then show ?thesis using r(1) True by (simp add: allocateFrame_def)
  next
    case False
    with r(2) have f: "unat r < 32 * length (frameBits s)" "unat r \<notin> used s" "\<forall>n < unat r. n \<in> used s"
      by auto
    have small: "unat r < 1048576" using f(1) ok by (simp add: mem_ok_def)
    obtain s1 where s1: "markFrame r s = Some s1" "used s1 = insert (unat r) (used s)" "same_size s s1"
      using markFrame_used [OF f(1)] by metis
    have "mem_ok (count_alloc 1 s1)" by (rule mem_ok_alloc [OF ok f(2,1) s1(2,3)])
    moreover have "used (count_alloc 1 s1) = used s1" by (simp add: count_alloc_def used_def)
    moreover have "allocateFrame s = Some (push_bit 12 r, count_alloc 1 s1)"
      using r(1) s1(1) False by (simp add: allocateFrame_def)
    ultimately show ?thesis
      using f s1(2) False frame_address [OF small] by (auto simp: frame_used_def)
  qed
qed

lemma freeFrame_spec:
  assumes ok: "mem_ok s" and a: "unat (drop_bit 12 a) \<noteq> 0" "frame_used s a"
  shows "\<exists>s'. freeFrame a s = Some s' \<and> mem_ok s' \<and> used s' = used s - {unat (drop_bit 12 a)}"
proof -
  have "a \<noteq> 0" using a(1) by auto
  have u: "unat (drop_bit 12 a) \<in> used s" using a(2) by (simp add: frame_used_def)
  then have "unat (drop_bit 12 a) < 32 * length (frameBits s)" using used_finite(2) [of s] by auto
  then obtain s1 where s1: "unmarkFrame (drop_bit 12 a) s = Some s1"
    "used s1 = used s - {unat (drop_bit 12 a)}" "same_size s s1"
    using unmarkFrame_used by metis
  have "mem_ok (count_free 1 s1)" by (rule mem_ok_free [OF ok u a(1) s1(2,3)])
  moreover have "used (count_free 1 s1) = used s1" by (simp add: count_free_def used_def)
  ultimately show ?thesis using s1 \<open>a \<noteq> 0\<close> by (simp add: freeFrame_def)
qed

section \<open>Runs of frames\<close>

definition free_run :: "phys_mem \<Rightarrow> nat \<Rightarrow> nat \<Rightarrow> bool" where
  "free_run s f n \<longleftrightarrow> f + n \<le> 32 * length (frameBits s) \<and> (\<forall>i < n. f + i \<notin> used s)"

lemma find_run_spec:
  assumes ok: "mem_ok s" and num: "0 < unat num"
  shows "k \<le> 32 * length (frameBits s) \<Longrightarrow> unat c \<le> k \<Longrightarrow> unat c < unat num \<Longrightarrow>
    \<forall>i < unat c. k - unat c + i \<notin> used s \<Longrightarrow> (unat c < k \<longrightarrow> k - Suc (unat c) \<in> used s) \<Longrightarrow>
    (c \<noteq> 0 \<longrightarrow> unat f = k - unat c) \<Longrightarrow>
    \<forall>g. free_run s g (unat num) \<longrightarrow> k - unat c \<le> g \<Longrightarrow>
    \<exists>r. find_run s num [k..<32 * length (frameBits s)] c f = Some r \<and>
      ((r = 0 \<and> (\<forall>g. \<not> free_run s g (unat num))) \<or>
       (free_run s (unat r) (unat num) \<and> (\<forall>g < unat r. \<not> free_run s g (unat num))))"
proof (induction "32 * length (frameBits s) - k" arbitrary: k c f)
  case 0
  then have k: "k = 32 * length (frameBits s)" by simp
  have "\<not> free_run s g (unat num)" for g
  proof
    assume g: "free_run s g (unat num)"
    then have "k - unat c \<le> g" "g + unat num \<le> k" using "0.prems"(7) k by (auto simp: free_run_def)
    then show False using "0.prems"(2,3) by linarith
  qed
  then show ?case by (simp add: k)
next
  case (Suc m)
  let ?N = "32 * length (frameBits s)"
  have k: "k < ?N" using Suc.hyps(2) by simp
  then have up: "[k..<?N] = k # [Suc k..<?N]" by (rule upt_conv_Cons)
  have kb: "k < 1048576" using k ok by (simp add: mem_ok_def)
  then have uk: "unat (of_nat k :: u32) = k" by (simp add: unat_of_nat)
  have mark: "getFrameMark (of_nat k) s = Some (k \<in> used s)"
    using getFrameMark_used [of "of_nat k" s] k by (simp add: uk)
  show ?case
  proof (cases "k \<in> used s")
    case True
    have "\<forall>g. free_run s g (unat num) \<longrightarrow> Suc k \<le> g"
    proof (intro allI impI, rule ccontr)
      fix g assume g: "free_run s g (unat num)" "\<not> Suc k \<le> g"
      then have "k - unat c \<le> g" "g \<le> k" using Suc.prems(7) by auto
      moreover have "k < g + unat num" using calculation Suc.prems(2,3) by linarith
      ultimately have "k - g < unat num \<and> g + (k - g) = k" by linarith
      then show False using g(1) True unfolding free_run_def by metis
    qed
    then have "\<exists>r. find_run s num [Suc k..<?N] 0 f = Some r \<and>
      ((r = 0 \<and> (\<forall>g. \<not> free_run s g (unat num))) \<or>
       (free_run s (unat r) (unat num) \<and> (\<forall>g < unat r. \<not> free_run s g (unat num))))"
      using Suc.hyps(2) k num True by (intro Suc.hyps(1)) simp_all
    then show ?thesis using True mark by (simp add: up)
  next
    case False
    define f' where "f' = (if c = 0 then of_nat k else f)"
    have cb: "unat c < 4294967295" using Suc.prems(2) kb by simp
    have uc: "unat (c + 1) = Suc (unat c)" by (rule u32_inc [OF cb])
    have uf: "unat f' = k - unat c" using Suc.prems(6) uk by (auto simp: f'_def)
    have step: "find_run s num [k..<?N] c f =
        (if c + 1 = num then Some f' else find_run s num [Suc k..<?N] (c + 1) f')"
      using False mark by (simp add: up f'_def)
    have run: "\<forall>i < Suc (unat c). k - unat c + i \<notin> used s"
      using Suc.prems(2,4) False by (auto simp: less_Suc_eq)
    show ?thesis
    proof (cases "c + 1 = num")
      case True
      then have n: "unat num = Suc (unat c)" using uc by simp
      have "free_run s (unat f') (unat num)"
        using run Suc.prems(2) k by (auto simp: free_run_def n uf)
      moreover have "\<forall>g < unat f'. \<not> free_run s g (unat num)"
        using Suc.prems(7) uf by auto
      ultimately show ?thesis using True by (simp add: step)
    next
      case False
      have lt: "unat (c + 1) < unat num" using False Suc.prems(3) uc by (auto simp: word_unat_eq_iff)
      have "Suc k - unat (c + 1) = k - unat c" using uc by simp
      then have "\<exists>r. find_run s num [Suc k..<?N] (c + 1) f' = Some r \<and>
        ((r = 0 \<and> (\<forall>g. \<not> free_run s g (unat num))) \<or>
         (free_run s (unat r) (unat num) \<and> (\<forall>g < unat r. \<not> free_run s g (unat num))))"
        using Suc.hyps(2) k lt Suc.prems(2,5,7) run uf uc
        by (intro Suc.hyps(1)) (simp_all add: Suc_diff_le)
      then show ?thesis using False by (simp add: step)
    qed
  qed
qed

lemma same_size_trans: "same_size a b \<Longrightarrow> same_size b c \<Longrightarrow> same_size a c"
  by (simp add: same_size_def)

lemma same_size_refl: "same_size a a"
  by (simp add: same_size_def)

lemma unat_frame:
  assumes "unat f + i < 4294967296"
  shows "unat (f + of_nat i :: u32) = unat f + i"
proof -
  have "unat (of_nat i :: u32) = i" using assms by (simp add: unat_of_nat)
  then show ?thesis using assms by (subst unat_add_small) simp_all
qed

lemma mark_run:
  assumes "unat f + n \<le> 32 * length (frameBits s)" and "length (frameBits s) \<le> 32768" and "k \<le> n"
  shows "\<exists>s'. fold_opt (\<lambda>i. markFrame (f + of_nat i)) [0..<k] s = Some s' \<and> same_size s s' \<and>
    used s' = used s \<union> {unat f..<unat f + k}"
  using assms(3)
proof (induction k)
  case 0
  then show ?case by (simp add: same_size_refl)
next
  case (Suc k)
  then obtain s1 where s1: "fold_opt (\<lambda>i. markFrame (f + of_nat i)) [0..<k] s = Some s1" "same_size s s1"
    "used s1 = used s \<union> {unat f..<unat f + k}" by auto
  have u: "unat (f + of_nat k) = unat f + k" using assms Suc.prems by (intro unat_frame) linarith
  have "unat (f + of_nat k) < 32 * length (frameBits s1)"
    using assms(1) Suc.prems s1(2) by (simp add: u same_size_def)
  then obtain s2 where s2: "markFrame (f + of_nat k) s1 = Some s2" "used s2 = insert (unat f + k) (used s1)"
    "same_size s1 s2"
    using markFrame_used u by metis
  have "fold_opt (\<lambda>i. markFrame (f + of_nat i)) [0..<Suc k] s = Some s2"
    using s1(1) s2(1) by (simp add: fold_opt_append)
  moreover have "{unat f..<unat f + Suc k} = insert (unat f + k) {unat f..<unat f + k}"
    by (simp add: atLeastLessThanSuc)
  then have "used s2 = used s \<union> {unat f..<unat f + Suc k}" using s1(3) s2(2) by blast
  ultimately show ?case using same_size_trans [OF s1(2) s2(3)] by blast
qed

lemma unmark_run:
  assumes "unat f + n \<le> 32 * length (frameBits s)" and "length (frameBits s) \<le> 32768" and "k \<le> n"
  shows "\<exists>s'. fold_opt (\<lambda>i. unmarkFrame (f + of_nat i)) [0..<k] s = Some s' \<and> same_size s s' \<and>
    used s' = used s - {unat f..<unat f + k}"
  using assms(3)
proof (induction k)
  case 0
  then show ?case by (simp add: same_size_refl)
next
  case (Suc k)
  then obtain s1 where s1: "fold_opt (\<lambda>i. unmarkFrame (f + of_nat i)) [0..<k] s = Some s1" "same_size s s1"
    "used s1 = used s - {unat f..<unat f + k}" by auto
  have u: "unat (f + of_nat k) = unat f + k" using assms Suc.prems by (intro unat_frame) linarith
  have "unat (f + of_nat k) < 32 * length (frameBits s1)"
    using assms(1) Suc.prems s1(2) by (simp add: u same_size_def)
  then obtain s2 where s2: "unmarkFrame (f + of_nat k) s1 = Some s2" "used s2 = used s1 - {unat f + k}"
    "same_size s1 s2"
    using unmarkFrame_used u by metis
  have "fold_opt (\<lambda>i. unmarkFrame (f + of_nat i)) [0..<Suc k] s = Some s2"
    using s1(1) s2(1) by (simp add: fold_opt_append)
  moreover have "{unat f..<unat f + Suc k} = insert (unat f + k) {unat f..<unat f + k}"
    by (simp add: atLeastLessThanSuc)
  then have "used s2 = used s - {unat f..<unat f + Suc k}" using s1(3) s2(2) by blast
  ultimately show ?case using same_size_trans [OF s1(2) s2(3)] by blast
qed

lemma findFirstFreeFrames_spec:
  assumes ok: "mem_ok s" and num: "0 < unat num"
  shows "\<exists>r. findFirstFreeFrames num s = Some r \<and>
      ((r = 0 \<and> (\<forall>g. \<not> free_run s g (unat num))) \<or>
       (r \<noteq> 0 \<and> free_run s (unat r) (unat num) \<and> (\<forall>g < unat r. \<not> free_run s g (unat num))))"
proof -
  have n: "unat (framesCount s) = 32 * length (frameBits s)" using ok by (simp add: mem_ok_def)
  have "\<exists>r. find_run s num [0..<32 * length (frameBits s)] 0 0 = Some r \<and>
      ((r = 0 \<and> (\<forall>g. \<not> free_run s g (unat num))) \<or>
       (free_run s (unat r) (unat num) \<and> (\<forall>g < unat r. \<not> free_run s g (unat num))))"
    using num by (intro find_run_spec [OF ok num]) simp_all
  moreover have "r \<noteq> 0" if "free_run s (unat r) (unat num)" for r :: u32
    using that num ok by (auto simp: free_run_def mem_ok_def)
  ultimately show ?thesis unfolding findFirstFreeFrames_def n by metis
qed

lemma mem_ok_count_alloc:
  assumes ok: "mem_ok s" and ss: "same_size s s'" and d: "used s' = used s \<union> F" "used s \<inter> F = {}"
    and c: "card F = unat num" "finite F"
  shows "mem_ok (count_alloc num s')"
proof -
  have cd: "card (used s') = card (used s) + unat num"
    using d c used_finite(1) by (simp add: card_Un_disjoint)
  have le: "card (used s) + unat num \<le> 32 * length (frameBits s)" "length (frameBits s) \<le> 32768"
    using used_card [of s'] cd ss ok by (simp_all add: same_size_def mem_ok_def)
  have "unat (freeFramesCount s - num) = 32 * length (frameBits s) - (card (used s) + unat num)"
    using ok le by (subst unat_sub_le) (auto simp: u32_le_iff mem_ok_def)
  moreover have "unat (allocatedFrames s + num) = card (used s) + unat num"
    using ok le by (subst unat_add_small) (auto simp: mem_ok_def)
  ultimately show ?thesis
    using ok ss d cd by (simp add: mem_ok_def same_size_def count_alloc_def used_def)
qed

lemma mem_ok_count_free:
  assumes ok: "mem_ok s" and ss: "same_size s s'" and d: "used s' = used s - F" "F \<subseteq> used s" "0 \<notin> F"
    and c: "card F = unat num" "finite F"
  shows "mem_ok (count_free num s')"
proof -
  have cd: "card (used s') = card (used s) - unat num"
    using d c by (simp add: card_Diff_subset)
  have le: "unat num \<le> card (used s)" "length (frameBits s) \<le> 32768"
    using card_mono [OF used_finite(1) d(2)] c ok by (simp_all add: mem_ok_def)
  have "unat (freeFramesCount s + num) = 32 * length (frameBits s) - (card (used s) - unat num)"
    using ok le used_card [of s] by (subst unat_add_small) (auto simp: mem_ok_def)
  moreover have "unat (allocatedFrames s - num) = card (used s) - unat num"
    using ok le by (subst unat_sub_le) (auto simp: u32_le_iff mem_ok_def)
  ultimately show ?thesis
    using ok ss d cd by (simp add: mem_ok_def same_size_def count_free_def used_def)
qed

lemma used_count [simp]: "used (count_alloc n s) = used s" "used (count_free n s) = used s"
  by (simp_all add: used_def count_alloc_def count_free_def)

lemma allocateFrames_spec:
  assumes ok: "mem_ok s" and num: "0 < unat num"
  shows "((\<forall>g. \<not> free_run s g (unat num)) \<and> allocateFrames num s = Some (0, s)) \<or>
    (\<exists>a s'. allocateFrames num s = Some (a, s') \<and> a \<noteq> 0 \<and> mem_ok s' \<and>
       free_run s (unat (drop_bit 12 a)) (unat num) \<and>
       (\<forall>g < unat (drop_bit 12 a). \<not> free_run s g (unat num)) \<and>
       used s' = used s \<union> {unat (drop_bit 12 a)..<unat (drop_bit 12 a) + unat num})"
proof -
  obtain r where r: "findFirstFreeFrames num s = Some r"
    "(r = 0 \<and> (\<forall>g. \<not> free_run s g (unat num))) \<or>
     (r \<noteq> 0 \<and> free_run s (unat r) (unat num) \<and> (\<forall>g < unat r. \<not> free_run s g (unat num)))"
    using findFirstFreeFrames_spec [OF ok num] by blast
  show ?thesis
  proof (cases "r = 0")
    case True
    then show ?thesis using r by (simp add: allocateFrames_def)
  next
    case False
    with r(2) have f: "free_run s (unat r) (unat num)" "\<forall>g < unat r. \<not> free_run s g (unat num)" by auto
    have b: "length (frameBits s) \<le> 32768" using ok by (simp add: mem_ok_def)
    have fit: "unat r + unat num \<le> 32 * length (frameBits s)" using f(1) by (simp add: free_run_def)
    obtain s1 where s1: "fold_opt (\<lambda>i. markFrame (r + of_nat i)) [0..<unat num] s = Some s1" "same_size s s1"
      "used s1 = used s \<union> {unat r..<unat r + unat num}"
      using mark_run [OF fit b order_refl] by blast
    have "i \<notin> used s" if "i \<in> {unat r..<unat r + unat num}" for i
      using f(1) that by (auto simp: free_run_def dest!: spec [of _ "i - unat r"])
    then have "used s \<inter> {unat r..<unat r + unat num} = {}" by blast
    then have "mem_ok (count_alloc num s1)" by (intro mem_ok_count_alloc [OF ok s1(2,3)]) simp_all
    moreover have "allocateFrames num s = Some (push_bit 12 r, count_alloc num s1)"
      using r(1) s1(1) False by (simp add: allocateFrames_def)
    moreover have "unat r < 1048576" using fit b num by linarith
    ultimately show ?thesis using f s1(3) False frame_address [of r] by auto
  qed
qed

lemma freeFrames_spec:
  assumes ok: "mem_ok s" and a: "unat (drop_bit 12 a) \<noteq> 0"
    and own: "{unat (drop_bit 12 a)..<unat (drop_bit 12 a) + unat num} \<subseteq> used s"
  shows "\<exists>s'. freeFrames a num s = Some s' \<and> mem_ok s' \<and>
    used s' = used s - {unat (drop_bit 12 a)..<unat (drop_bit 12 a) + unat num}"
proof (cases "num = 0")
  case True
  have "mem_ok (count_free 0 s)" using ok by (simp add: count_free_def mem_ok_def used_def)
  with True show ?thesis by (simp add: freeFrames_def)
next
  case False
  let ?f = "drop_bit 12 a"
  have "unat ?f + unat num - 1 \<in> used s" using own False unat_gt_0 [of num] by (auto simp: subset_iff)
  then have fit: "unat ?f + unat num \<le> 32 * length (frameBits s)"
    using used_finite(2) [of s] by fastforce
  have b: "length (frameBits s) \<le> 32768" using ok by (simp add: mem_ok_def)
  obtain s1 where s1: "fold_opt (\<lambda>i. unmarkFrame (?f + of_nat i)) [0..<unat num] s = Some s1" "same_size s s1"
    "used s1 = used s - {unat ?f..<unat ?f + unat num}"
    using unmark_run [OF fit b order_refl] by blast
  have "mem_ok (count_free num s1)"
    using a by (intro mem_ok_count_free [OF ok s1(2,3) own]) simp_all
  then show ?thesis using s1 by (simp add: freeFrames_def)
qed

section \<open>Initialisation\<close>

lemma fold_wr_0: "k \<le> length bits \<Longrightarrow> fold_opt (\<lambda>i bits. wr_at bits i 0) [0..<k] bits = Some (replicate k 0 @ drop k bits)"
proof (induction k)
  case 0
  then show ?case by simp
next
  case (Suc k)
  then have "drop k bits = bits ! k # drop (Suc k) bits" by (simp add: Cons_nth_drop_Suc)
  with Suc show ?case
    by (simp add: fold_opt_append wr_at_def list_update_append replicate_append_same)
qed

lemma unat_drop12: "unat (drop_bit 12 (x :: u32)) = unat x div 4096"
  by (simp add: drop_bit_eq_div unat_div)

lemma reserve_loop:
  assumes "frameBits s = replicate W 0" and "unat (framesCount s) = 32 * W" and "freeFramesCount s = framesCount s"
    and "allocatedFrames s = 0" and "W \<le> 32768" and "k \<le> 32 * W"
  shows "\<exists>s'. fold_opt (\<lambda>i s. do { s' \<leftarrow> markFrame (of_nat i) s; Some (count_alloc 1 s') }) [0..<k] s = Some s' \<and>
    used s' = {..<k} \<and> length (frameBits s') = W \<and> framesCount s' = framesCount s \<and>
    unat (allocatedFrames s') = k \<and> unat (freeFramesCount s') = 32 * W - k"
  using assms(6)
proof (induction k)
  case 0
  have "used s = {}" using assms(1) by (auto simp: used_def index_bound)
  then show ?case using assms by simp
next
  case (Suc k)
  then obtain s1 where s1: "fold_opt (\<lambda>i s. do { s' \<leftarrow> markFrame (of_nat i) s; Some (count_alloc 1 s') }) [0..<k] s = Some s1"
    "used s1 = {..<k}" "length (frameBits s1) = W" "framesCount s1 = framesCount s"
    "unat (allocatedFrames s1) = k" "unat (freeFramesCount s1) = 32 * W - k" by auto
  have u: "unat (of_nat k :: u32) = k" using Suc.prems assms(5) by (simp add: unat_of_nat)
  have "unat (of_nat k :: u32) < 32 * length (frameBits s1)" using Suc.prems s1(3) by (simp add: u)
  then obtain s2 where s2: "markFrame (of_nat k) s1 = Some s2" "used s2 = insert k (used s1)" "same_size s1 s2"
    using markFrame_used u by metis
  have "unat (freeFramesCount s1) = Suc (32 * W - Suc k)" using s1(6) Suc.prems by simp
  from u32_dec [OF this] have f: "unat (freeFramesCount s1 - 1) = 32 * W - Suc k" .
  have al: "unat (allocatedFrames s1 + 1) = Suc k" using s1(5) Suc.prems assms(5) by (subst u32_inc) simp_all
  have "fold_opt (\<lambda>i s. do { s' \<leftarrow> markFrame (of_nat i) s; Some (count_alloc 1 s') }) [0..<Suc k] s =
      Some (count_alloc 1 s2)"
    using s1(1) s2(1) by (simp add: fold_opt_append)
  moreover have "used s2 = {..<Suc k}" using s1(2) s2(2) by (simp add: lessThan_Suc)
  ultimately show ?case using s1 s2(3) f al by (simp add: same_size_def count_alloc_def used_def)
qed

text \<open>The end of the kernel's own memory after the bitmap was placed.\<close>

definition reserved_end :: "u32 \<Rightarrow> u32 \<Rightarrow> phys_mem \<Rightarrow> u32" where
  "reserved_end safeSpace memorySize s = placement_address s + drop_bit 12 memorySize div 32 + safeSpace"

lemma initialize_spec:
  assumes sz: "unat memorySize mod 131072 = 0" and fresh: "allocatedFrames s = 0"
    and fit: "unat (reserved_end safeSpace memorySize s) < unat memorySize"
  shows "\<exists>s'. initialize safeSpace memorySize s = Some s' \<and> mem_ok s' \<and>
    used s' = {..unat (reserved_end safeSpace memorySize s) div 4096} \<and>
    unat (framesCount s') = unat memorySize div 4096"
proof -
  define W where "W = unat memorySize div 131072"
  have ms: "unat memorySize = 131072 * W"
    using div_mult_mod_eq [of "unat memorySize" 131072] sz unfolding W_def by linarith
  have W: "W < 32768" using unat_u32_lt [of memorySize] by (simp add: W_def div_less_iff_less_mult)
  have fr: "unat (drop_bit 12 memorySize) = 32 * W" by (simp add: unat_drop12 ms)
  have d32: "unat (drop_bit 12 memorySize div 32) = W" by (simp add: unat_div fr)
  let ?e = "reserved_end safeSpace memorySize s"
  define R where "R = unat (drop_bit 12 ?e + 1)"
  have "unat (drop_bit 12 ?e) = unat ?e div 4096" by (rule unat_drop12)
  moreover have "unat ?e div 4096 < 32 * W" using fit ms by (simp add: div_less_iff_less_mult)
  ultimately have R: "R = Suc (unat ?e div 4096)" "R \<le> 32 * W"
    using W unfolding R_def by (subst u32_inc; simp)+
  define s1 where "s1 = snd (kmalloc (drop_bit 12 memorySize div 32)
      (s\<lparr>framesCount := drop_bit 12 memorySize, freeFramesCount := drop_bit 12 memorySize\<rparr>))"
  define s2 where "s2 = s1\<lparr>frameBits := replicate W 0\<rparr>"
  have s2f: "framesCount s2 = drop_bit 12 memorySize" "freeFramesCount s2 = drop_bit 12 memorySize"
    "allocatedFrames s2 = 0" "placement_address s2 = placement_address s + drop_bit 12 memorySize div 32"
    using fresh by (auto simp: s2_def s1_def kmalloc_def)
  have fb: "frameBits s2 = replicate W 0" by (simp add: s2_def)
  have "unmarkAll s2 = Some s2"
    using fold_wr_0 [of W "replicate W (0 :: u32)"] by (simp add: unmarkAll_def s2f d32) (simp add: s2_def)
  then have ini: "initialize safeSpace memorySize s =
      fold_opt (\<lambda>i s. do { s' \<leftarrow> markFrame (of_nat i) s; Some (count_alloc 1 s') }) [0..<R] s2"
    by (simp add: initialize_def Let_def s1_def [symmetric] d32 s2_def [symmetric] s2f reserved_end_def [symmetric]
      R_def)
  obtain s' where s': "initialize safeSpace memorySize s = Some s'" "used s' = {..<R}"
    "length (frameBits s') = W" "framesCount s' = framesCount s2" "unat (allocatedFrames s') = R"
    "unat (freeFramesCount s') = 32 * W - R"
    using reserve_loop [OF fb _ _ s2f(3) _ R(2)] W unfolding ini by (auto simp: s2f fr)
  have "mem_ok s'" using s' W R fr by (simp add: mem_ok_def s2f)
  moreover have "used s' = {..unat ?e div 4096}" using s'(2) by (simp add: R(1) lessThan_Suc_atMost)
  moreover have "unat (framesCount s') = unat memorySize div 4096" using s'(4) by (simp add: s2f unat_drop12)
  ultimately show ?thesis using s'(1) by blast
qed

section \<open>The interface\<close>

text \<open>
  A frame allocator as its users see it: a null answer changes nothing, any other answer is a
  frame nobody uses; giving back a frame in use succeeds.
\<close>

locale frame_allocator =
  fixes alloc :: "'s \<Rightarrow> (u32 \<times> 's) option" and free :: "u32 \<Rightarrow> 's \<Rightarrow> 's option"
    and inv :: "'s \<Rightarrow> bool" and frames :: "'s \<Rightarrow> nat set" and frm :: "u32 \<Rightarrow> nat"
  assumes alloc_ok: "inv s \<Longrightarrow> \<exists>a s'. alloc s = Some (a, s') \<and> inv s' \<and>
      (a = 0 \<and> s' = s \<or> a \<noteq> 0 \<and> frm a \<noteq> 0 \<and> frm a \<notin> frames s \<and> frames s' = insert (frm a) (frames s))"
    and free_ok: "inv s \<Longrightarrow> frm a \<noteq> 0 \<Longrightarrow> frm a \<in> frames s \<Longrightarrow>
      \<exists>s'. free a s = Some s' \<and> inv s' \<and> frames s' = frames s - {frm a}"

text \<open>Users of an allocator: each step takes a frame or gives back one that is held.\<close>

inductive uses :: "('s \<Rightarrow> (u32 \<times> 's) option) \<Rightarrow> (u32 \<Rightarrow> 's \<Rightarrow> 's option) \<Rightarrow> 's \<Rightarrow> u32 list \<Rightarrow> 's \<Rightarrow> u32 list \<Rightarrow> bool"
  for alloc free s0 held0 where
  uses_start: "uses alloc free s0 held0 s0 held0"
| uses_alloc: "uses alloc free s0 held0 s held \<Longrightarrow> alloc s = Some (a, s') \<Longrightarrow> a \<noteq> 0 \<Longrightarrow>
    uses alloc free s0 held0 s' (a # held)"
| uses_full: "uses alloc free s0 held0 s held \<Longrightarrow> alloc s = Some (0, s') \<Longrightarrow> uses alloc free s0 held0 s' held"
| uses_free: "uses alloc free s0 held0 s held \<Longrightarrow> a \<in> set held \<Longrightarrow> free a s = Some s' \<Longrightarrow>
    uses alloc free s0 held0 s' (remove1 a held)"

context frame_allocator begin

definition held_ok :: "'s \<Rightarrow> 's \<Rightarrow> u32 list \<Rightarrow> bool" where
  "held_ok s0 s held \<longleftrightarrow>
     inv s \<and> distinct (map frm held) \<and> 0 \<notin> frm ` set held \<and> frm ` set held \<inter> frames s0 = {} \<and>
     frames s = frames s0 \<union> frm ` set held"

lemma held_ok_alloc:
  assumes "held_ok s0 s held" and "alloc s = Some (a, s')" and "a \<noteq> 0"
  shows "held_ok s0 s' (a # held)"
proof -
  have "inv s" using assms(1) by (simp add: held_ok_def)
  from alloc_ok [OF this] assms(2,3)
  have "inv s'" "frm a \<noteq> 0" "frm a \<notin> frames s" "frames s' = insert (frm a) (frames s)" by auto
  with assms(1) show ?thesis by (auto simp: held_ok_def)
qed

lemma held_ok_full: "held_ok s0 s held \<Longrightarrow> alloc s = Some (0, s') \<Longrightarrow> held_ok s0 s' held"
  using alloc_ok [of s] by (auto simp: held_ok_def)

lemma held_ok_free:
  assumes h: "held_ok s0 s held" and a: "a \<in> set held" and f: "free a s = Some s'"
  shows "held_ok s0 s' (remove1 a held)"
proof -
  have "inv s" "frm a \<noteq> 0" "frm a \<in> frames s" using h a by (auto simp: held_ok_def)
  from free_ok [OF this] f have s': "inv s'" "frames s' = frames s - {frm a}" by auto
  have d: "distinct held" using h by (simp add: held_ok_def distinct_map)
  have inj: "inj_on frm (set held)" using h by (simp add: held_ok_def distinct_map)
  have st: "set (remove1 a held) = set held - {a}" using d by simp
  have im: "frm ` (set held - {a}) = frm ` set held - {frm a}" using inj a by (auto simp: inj_on_def)
  have "distinct (map frm (remove1 a held))"
    using d inj by (auto simp: distinct_map intro: inj_on_subset)
  moreover have "frames s - {frm a} = frames s0 \<union> (frm ` set held - {frm a})"
    using h a by (auto simp: held_ok_def)
  ultimately show ?thesis
    using h s' unfolding held_ok_def st im by (simp only: s'(2)) blast
qed

lemma uses_ok:
  assumes "uses alloc free s0 [] s held" and "inv s0"
  shows "held_ok s0 s held"
  using assms(1)
proof (induction rule: uses.induct)
  case uses_start
  then show ?case using assms(2) by (simp add: held_ok_def)
qed (auto intro: held_ok_alloc held_ok_full held_ok_free)

lemma never_twice:
  assumes "uses alloc free s0 [] s held" and "inv s0"
  shows "distinct (map frm held)" "frm ` set held \<inter> frames s0 = {}"
  using uses_ok [OF assms] by (simp_all add: held_ok_def)

lemma free_never_stuck:
  assumes "uses alloc free s0 [] s held" and "inv s0" and "a \<in> set held"
  shows "\<exists>s'. free a s = Some s'"
proof -
  have "inv s" "frm a \<noteq> 0" "frm a \<in> frames s"
    using uses_ok [OF assms(1,2)] assms(3) by (auto simp: held_ok_def image_iff)
  then show ?thesis using free_ok by blast
qed

end

interpretation pm: frame_allocator allocateFrame freeFrame mem_ok used "\<lambda>a. unat (drop_bit 12 a)"
proof unfold_locales
  fix s assume ok: "mem_ok s"
  from allocateFrame_spec [OF ok]
  show "\<exists>a s'. allocateFrame s = Some (a, s') \<and> mem_ok s' \<and>
      (a = 0 \<and> s' = s \<or> a \<noteq> 0 \<and> unat (drop_bit 12 a) \<noteq> 0 \<and> unat (drop_bit 12 a) \<notin> used s \<and>
       used s' = insert (unat (drop_bit 12 a)) (used s))"
  proof (elim disjE exE conjE)
    assume "allocateFrame s = Some (0, s)"
    with ok show ?thesis by blast
  next
    fix a s'
    assume a: "allocateFrame s = Some (a, s')" "a \<noteq> 0" "mem_ok s'" "\<not> frame_used s a"
      "used s' = insert (unat (drop_bit 12 a)) (used s)"
    moreover have "0 \<in> used s" using ok by (simp add: mem_ok_def)
    ultimately show ?thesis by (metis frame_used_def)
  qed
next
  fix s :: phys_mem and a :: u32
  assume "mem_ok s" "unat (drop_bit 12 a) \<noteq> 0" "unat (drop_bit 12 a) \<in> used s"
  then show "\<exists>s'. freeFrame a s = Some s' \<and> mem_ok s' \<and> used s' = used s - {unat (drop_bit 12 a)}"
    using freeFrame_spec [of s a] by (simp add: frame_used_def)
qed

end
