(* ===== verification/Paging.thy ===== *)
theory Paging
  imports Phys_Mem
begin

text \<open>
  Page directories and page tables (\<open>core/memory/paging.cpp\<close>) above the frame allocator. A page
  table is a frame of 1024 entries; the memory of all frames, read as tables, is the function
  \<open>entry_at\<close> from the address of the frame and the index (the kernel reaches every table at its
  physical address). The objects of class \<open>PagingDirectory\<close> are a store from their addresses.
  \<open>getTable\<close> and \<open>mapPage\<close> call each other, and \<open>allocatePage\<close> and \<open>allocatePages\<close> call
  themselves, so they carry fuel: \<open>None\<close> is a panic or a recursion that does not end. The log
  messages and the flush of the TLB are not modelled.
\<close>

section \<open>Definitions\<close>

text \<open>\<open>PageTableEntry\<close> and \<open>PageDirectoryEntry\<close>: the bits the code names and the nine it does not.\<close>

record page_entry =
  present :: bool
  rw :: bool
  user :: bool
  other_bits :: "9 word"
  frame_no :: "20 word"

definition zero_entry :: page_entry where
  "zero_entry = \<lparr>present = False, rw = False, user = False, other_bits = 0, frame_no = 0\<rparr>"

definition entry_address :: "page_entry \<Rightarrow> u32" where
  "entry_address e = push_bit 12 (ucast (frame_no e))"

record paging_dir =
  pageTables :: "u32 list"
  pageDirectory :: "page_entry list"
  pagesCount :: u32

record paging =
  phys :: phys_mem
  entry_at :: "u32 \<Rightarrow> u32 \<Rightarrow> page_entry"
  dirs :: "u32 \<Rightarrow> paging_dir option"
  currentPageDirectory :: u32
  paging_enabled :: bool
  cr3 :: u32

abbreviation Present :: u32 where "Present \<equiv> 1"
abbreviation ReadWrite :: u32 where "ReadWrite \<equiv> 2"
abbreviation UserSupervisor :: u32 where "UserSupervisor \<equiv> 4"

definition table_index :: "u32 \<Rightarrow> u32" where
  "table_index va = drop_bit 22 va"

definition page_index :: "u32 \<Rightarrow> u32" where
  "page_index va = drop_bit 12 va AND 0x3FF"

definition newPagingDirectory :: "u32 \<Rightarrow> paging \<Rightarrow> paging option" where
  "newPagingDirectory this s =
     (if (this + 4096) AND 0xFFF \<noteq> 0 then None
      else if this AND 0xFFF \<noteq> 0 then None
      else Some (s\<lparr>dirs := (dirs s)(this \<mapsto>
             \<lparr>pageTables = replicate 1024 0, pageDirectory = replicate 1024 zero_entry, pagesCount = 0\<rparr>)\<rparr>))"

definition set_dir :: "u32 \<Rightarrow> paging_dir \<Rightarrow> paging \<Rightarrow> paging" where
  "set_dir this d s = s\<lparr>dirs := (dirs s)(this \<mapsto> d)\<rparr>"

definition isAddressValid :: "paging_dir \<Rightarrow> u32 \<Rightarrow> paging \<Rightarrow> bool option" where
  "isAddressValid d address s =
     (if address = 0 then Some False
      else do {
        e \<leftarrow> rd_at (pageDirectory d) (unat (table_index address));
        if \<not> present e then Some False
        else do { table \<leftarrow> rd_at (pageTables d) (unat (table_index address));
                  Some (present (entry_at s table (page_index address))) } })"

definition setTable :: "u32 \<Rightarrow> u32 \<Rightarrow> u32 \<Rightarrow> paging_dir \<Rightarrow> paging_dir option" where
  "setTable tableIndex tableAddress flags d =
     do { e \<leftarrow> rd_at (pageDirectory d) (unat tableIndex);
          es \<leftarrow> wr_at (pageDirectory d) (unat tableIndex)
             (e\<lparr>present := present e \<or> bit flags 0, rw := rw e \<or> bit flags 1, user := user e \<or> bit flags 2,
                frame_no := ucast (drop_bit 12 tableAddress)\<rparr>);
          Some (d\<lparr>pageDirectory := es\<rparr>) }"

definition setPage :: "u32 \<Rightarrow> u32 \<Rightarrow> u32 \<Rightarrow> u32 \<Rightarrow> paging \<Rightarrow> paging" where
  "setPage table pageIndex physicalAddr flags s =
     (let e = entry_at s table pageIndex;
          e' = e\<lparr>present := bit flags 0, rw := bit flags 1, user := bit flags 2,
                 frame_no := ucast (drop_bit 12 physicalAddr)\<rparr>
      in s\<lparr>entry_at := (entry_at s)(table := (entry_at s table)(pageIndex := e'))\<rparr>)"

definition mapPage_with ::
    "(u32 \<Rightarrow> u32 \<Rightarrow> u32 \<Rightarrow> paging \<Rightarrow> (u32 \<times> paging) option) \<Rightarrow> u32 \<Rightarrow> u32 \<Rightarrow> u32 \<Rightarrow> u32 \<Rightarrow> paging \<Rightarrow> paging option" where
  "mapPage_with gt this physicalAddr virtualAddr flags s =
     (if physicalAddr = 0 \<or> virtualAddr = 0 then Some s
      else do {
        (table, s1) \<leftarrow> gt this (table_index virtualAddr) flags s;
        let s2 = setPage table (page_index virtualAddr) physicalAddr flags s1 in do {
          d \<leftarrow> dirs s2 this;
          Some (set_dir this (d\<lparr>pagesCount := pagesCount d + 1\<rparr>) s2) } })"

fun getTable :: "nat \<Rightarrow> u32 \<Rightarrow> u32 \<Rightarrow> u32 \<Rightarrow> paging \<Rightarrow> (u32 \<times> paging) option" where
  "getTable 0 this tableIndex flags s = None"
| "getTable (Suc k) this tableIndex flags s =
     do { d \<leftarrow> dirs s this;
          physicalAddress \<leftarrow> rd_at (pageTables d) (unat tableIndex);
          e \<leftarrow> rd_at (pageDirectory d) (unat tableIndex);
          if present e \<and> physicalAddress \<noteq> 0 then do {
            d1 \<leftarrow> setTable tableIndex physicalAddress flags d;
            let s1 = set_dir this d1 s in do {
              valid \<leftarrow> (if paging_enabled s1
                        then do { c \<leftarrow> dirs s1 (currentPageDirectory s1); isAddressValid c physicalAddress s1 }
                        else Some True);
              if valid then Some (physicalAddress, s1) else None } }
          else do {
            (newTable, p) \<leftarrow> allocateFrame (phys s);
            if newTable AND 0xFFF \<noteq> 0 \<or> newTable = 0 then None
            else do {
              ts \<leftarrow> wr_at (pageTables d) (unat tableIndex) newTable;
              d1 \<leftarrow> setTable tableIndex newTable flags (d\<lparr>pageTables := ts\<rparr>);
              let s1 = set_dir this d1 (s\<lparr>phys := p\<rparr>) in do {
                s2 \<leftarrow> (if currentPageDirectory s1 \<noteq> 0
                       then mapPage_with (getTable k) (currentPageDirectory s1) newTable newTable (Present OR ReadWrite) s1
                       else Some s1);
                let s3 = s2\<lparr>entry_at := (entry_at s2)(newTable := (\<lambda>_. zero_entry))\<rparr> in do {
                  s4 \<leftarrow> mapPage_with (getTable k) this newTable newTable flags s3;
                  d4 \<leftarrow> dirs s4 this;
                  Some (newTable, set_dir this (d4\<lparr>pagesCount := pagesCount d4 - 1\<rparr>) s4) } } } } }"

definition mapPage :: "nat \<Rightarrow> u32 \<Rightarrow> u32 \<Rightarrow> u32 \<Rightarrow> u32 \<Rightarrow> paging \<Rightarrow> paging option" where
  "mapPage k = mapPage_with (getTable k)"

definition mapPages :: "nat \<Rightarrow> u32 \<Rightarrow> u32 \<Rightarrow> u32 \<Rightarrow> u32 \<Rightarrow> u32 \<Rightarrow> paging \<Rightarrow> paging option" where
  "mapPages k this physicalAddr virtualAddr numPages flags s =
     fold_opt (\<lambda>i. mapPage k this (physicalAddr + of_nat i * 0x1000) (virtualAddr + of_nat i * 0x1000) flags)
       [0..<unat numPages] s"

definition unmapPage :: "u32 \<Rightarrow> u32 \<Rightarrow> paging \<Rightarrow> paging option" where
  "unmapPage this virtualAddr s =
     (if virtualAddr = 0 then Some s
      else do {
        d \<leftarrow> dirs s this;
        e \<leftarrow> rd_at (pageDirectory d) (unat (table_index virtualAddr));
        if present e then
          let table = entry_address e in
          Some (set_dir this (d\<lparr>pagesCount := pagesCount d - 1\<rparr>)
            (s\<lparr>entry_at := (entry_at s)(table := (entry_at s table)(page_index virtualAddr := zero_entry))\<rparr>))
        else Some s })"

definition getPhysicalAddress :: "paging_dir \<Rightarrow> u32 \<Rightarrow> paging \<Rightarrow> u32 option" where
  "getPhysicalAddress d address s =
     (if address = 0 then Some 0
      else do {
        e \<leftarrow> rd_at (pageDirectory d) (unat (table_index address AND 0x3FF));
        if \<not> present e then Some 0
        else do {
          table \<leftarrow> rd_at (pageTables d) (unat (table_index address AND 0x3FF));
          if table = 0 then Some 0
          else let entry = entry_at s table (page_index address) in
            if \<not> present entry then Some 0
            else Some (entry_address entry OR (address AND 0xFFF)) } })"

definition freePage :: "u32 \<Rightarrow> u32 \<Rightarrow> paging \<Rightarrow> paging option" where
  "freePage this pageAddress s =
     (if pageAddress = 0 then Some s
      else do {
        d \<leftarrow> dirs s this;
        e \<leftarrow> rd_at (pageDirectory d) (unat (table_index pageAddress));
        if \<not> present e then None
        else do {
          table \<leftarrow> rd_at (pageTables d) (unat (table_index pageAddress));
          let entry = entry_at s table (page_index pageAddress) in
          if \<not> present entry then None
          else do {
            p \<leftarrow> freeFrame (entry_address entry) (phys s);
            unmapPage this pageAddress (s\<lparr>phys := p\<rparr>) } } })"

fun allocatePage :: "nat \<Rightarrow> u32 \<Rightarrow> u32 \<Rightarrow> paging \<Rightarrow> (u32 \<times> paging) option" where
  "allocatePage 0 this flags s = None"
| "allocatePage (Suc k) this flags s =
     do { (frame, p) \<leftarrow> allocateFrame (phys s);
          if frame = 0 then Some (0, s\<lparr>phys := p\<rparr>)
          else if page_index frame = 1023 then do {
            p1 \<leftarrow> freeFrame frame p;
            (t, s1) \<leftarrow> getTable (Suc k) this (table_index frame + 1) flags (s\<lparr>phys := p1\<rparr>);
            allocatePage k this (Present OR ReadWrite) s1 }
          else do {
            s1 \<leftarrow> mapPage (Suc k) this frame frame flags (s\<lparr>phys := p\<rparr>);
            Some (frame, s1) } }"

fun tables_missing :: "paging_dir \<Rightarrow> nat list \<Rightarrow> bool option" where
  "tables_missing d [] = Some False"
| "tables_missing d (i # is) =
     do { e \<leftarrow> rd_at (pageDirectory d) i; rest \<leftarrow> tables_missing d is; Some (\<not> present e \<or> rest) }"

fun allocatePages :: "nat \<Rightarrow> u32 \<Rightarrow> u32 \<Rightarrow> paging \<Rightarrow> (u32 \<times> paging) option" where
  "allocatePages 0 this numPages s = None"
| "allocatePages (Suc k) this numPages s =
     do { (startFrame, p) \<leftarrow> allocateFrames numPages (phys s);
          let s0 = s\<lparr>phys := p\<rparr> in
          if startFrame = 0 then Some (0, s0)
          else let endAddress = startFrame + numPages * 0x1000;
                   indices = [unat (table_index startFrame)..<Suc (unat (table_index (endAddress - 1)))] in do {
            d \<leftarrow> dirs s0 this;
            again \<leftarrow> tables_missing d indices;
            if again then do {
              p1 \<leftarrow> freeFrames startFrame numPages p;
              s1 \<leftarrow> fold_opt (\<lambda>i s. do { (t, s') \<leftarrow> getTable (Suc k) this (of_nat i) (Present OR ReadWrite) s; Some s' })
                      indices (s0\<lparr>phys := p1\<rparr>);
              allocatePages k this numPages s1 }
            else do {
              s1 \<leftarrow> fold_opt (\<lambda>i. let address = startFrame + 0x1000 * of_nat i in
                       mapPage (Suc k) this address address (Present OR ReadWrite)) [0..<unat numPages] s0;
              Some (startFrame, s1) } } }"

fun destruct_loop :: "page_entry list \<Rightarrow> phys_mem \<Rightarrow> phys_mem option" where
  "destruct_loop [] p = Some p"
| "destruct_loop (e # es) p =
     (if present e then do { p1 \<leftarrow> freeFrame (entry_address e) p; destruct_loop es p1 }
      else destruct_loop es p)"

definition destruct :: "u32 \<Rightarrow> paging \<Rightarrow> paging option" where
  "destruct this s =
     do { d \<leftarrow> dirs s this; p \<leftarrow> destruct_loop (pageDirectory d) (phys s); Some (s\<lparr>phys := p\<rparr>) }"

text \<open>\<open>PagingManager\<close>: the directory in use.\<close>

definition switchPageDirectory :: "u32 \<Rightarrow> paging \<Rightarrow> paging option" where
  "switchPageDirectory newPageDirectory s =
     (if newPageDirectory = 0 then None
      else if newPageDirectory + 4096 = cr3 s then Some s
      else Some (s\<lparr>currentPageDirectory := newPageDirectory, cr3 := newPageDirectory + 4096\<rparr>))"

definition PagingManager_allocatePage :: "nat \<Rightarrow> paging \<Rightarrow> (u32 \<times> paging) option" where
  "PagingManager_allocatePage k s =
     (if currentPageDirectory s = 0 then None
      else allocatePage k (currentPageDirectory s) (Present OR ReadWrite) s)"

definition PagingManager_freePage :: "u32 \<Rightarrow> paging \<Rightarrow> paging option" where
  "PagingManager_freePage pageAddress s =
     (if currentPageDirectory s = 0 then None else freePage (currentPageDirectory s) pageAddress s)"

definition PagingManager_allocatePages :: "nat \<Rightarrow> u32 \<Rightarrow> paging \<Rightarrow> (u32 \<times> paging) option" where
  "PagingManager_allocatePages k numPages s =
     (if currentPageDirectory s = 0 then None else allocatePages k (currentPageDirectory s) numPages s)"

definition PagingManager_initialize :: "paging \<Rightarrow> paging option" where
  "PagingManager_initialize s =
     (if currentPageDirectory s = 0 then None
      else do { s1 \<leftarrow> switchPageDirectory (currentPageDirectory s) s; Some (s1\<lparr>paging_enabled := True\<rparr>) })"

section \<open>Addresses\<close>

lemma table_index_lt: "unat (table_index va) < 1024"
proof -
  have "unat (table_index va) = unat va div 4194304"
    using unat_drop_bit_eq [of 22 va] unfolding table_index_def drop_bit_eq_div [of 22 "unat va"] by simp
  then show ?thesis using unat_u32_lt [of va] by (simp add: div_less_iff_less_mult)
qed

lemma mask_10: "(0x3FF :: u32) = mask 10" and mask_12: "(0xFFF :: u32) = mask 12"
  by (simp_all add: mask_eq_exp_minus_1)

lemma table_index_mask [simp]: "table_index va AND 0x3FF = table_index va"
  unfolding table_index_def mask_10 by (rule bit_word_eqI) (auto simp: bit_simps dest: bit_imp_le_length)

lemma same_page:
  "drop_bit 12 (va :: u32) = drop_bit 12 vb \<longleftrightarrow> table_index va = table_index vb \<and> page_index va = page_index vb"
proof
  assume "drop_bit 12 va = drop_bit 12 vb"
  then have "drop_bit 10 (drop_bit 12 va) = drop_bit 10 (drop_bit 12 vb)" "page_index va = page_index vb"
    by (simp_all add: page_index_def)
  then show "table_index va = table_index vb \<and> page_index va = page_index vb"
    by (simp add: table_index_def drop_bit_drop_bit)
next
  assume eq: "table_index va = table_index vb \<and> page_index va = page_index vb"
  show "drop_bit 12 va = drop_bit 12 vb"
  proof (rule bit_word_eqI)
    fix n assume "n < LENGTH(32)"
    have t: "bit (drop_bit 22 va) (n - 10) = bit (drop_bit 22 vb) (n - 10)"
      using eq by (simp add: table_index_def)
    have p: "bit (drop_bit 12 va AND mask 10) n = bit (drop_bit 12 vb AND mask 10) n"
      using eq by (simp add: page_index_def mask_10)
    show "bit (drop_bit 12 va) n = bit (drop_bit 12 vb) n"
    proof (cases "n < 10")
      case True
      then show ?thesis using p by (simp add: bit_simps)
    next
      case False
      then have "22 + (n - 10) = 12 + n" by simp
      then show ?thesis using t by (simp add: bit_simps)
    qed
  qed
qed

lemma entry_address_drop:
  "entry_address (e\<lparr>frame_no := ucast (drop_bit 12 (pa :: u32))\<rparr>) = pa AND NOT 0xFFF"
  unfolding entry_address_def mask_12 by (rule bit_word_eqI) (auto simp: bit_simps)

section \<open>Well-formed directories\<close>

definition dir_ok :: "paging_dir \<Rightarrow> bool" where
  "dir_ok d \<longleftrightarrow> length (pageTables d) = 1024 \<and> length (pageDirectory d) = 1024 \<and>
     (\<forall>i < 1024. present (pageDirectory d ! i) \<longrightarrow>
        pageTables d ! i \<noteq> 0 \<and> pageTables d ! i AND 0xFFF = 0 \<and>
        entry_address (pageDirectory d ! i) = pageTables d ! i) \<and>
     (\<forall>i < 1024. \<forall>j < 1024. present (pageDirectory d ! i) \<longrightarrow> present (pageDirectory d ! j) \<longrightarrow>
        pageTables d ! i = pageTables d ! j \<longrightarrow> i = j)"

definition has_table :: "paging_dir \<Rightarrow> u32 \<Rightarrow> bool" where
  "has_table d va \<longleftrightarrow> present (pageDirectory d ! unat (table_index va))"

definition table_of :: "paging_dir \<Rightarrow> u32 \<Rightarrow> u32" where
  "table_of d va = pageTables d ! unat (table_index va)"

text \<open>With paging on, the code insists that a table is mapped in the directory in use.\<close>

definition visible :: "paging \<Rightarrow> u32 \<Rightarrow> bool" where
  "visible s pa \<longleftrightarrow> (paging_enabled s \<longrightarrow>
     (\<exists>c. dirs s (currentPageDirectory s) = Some c \<and> isAddressValid c pa s = Some True))"

text \<open>The directory \<open>d'\<close> has the same tables as \<open>d\<close>; only access rights and the count may differ.\<close>

definition same_tables :: "paging_dir \<Rightarrow> paging_dir \<Rightarrow> bool" where
  "same_tables d d' \<longleftrightarrow> pageTables d' = pageTables d \<and> length (pageDirectory d') = length (pageDirectory d) \<and>
     (\<forall>i < length (pageDirectory d). present (pageDirectory d' ! i) = present (pageDirectory d ! i) \<and>
        (present (pageDirectory d ! i) \<longrightarrow> entry_address (pageDirectory d' ! i) = entry_address (pageDirectory d ! i)))"

lemma same_tables_refl [simp]: "same_tables d d"
  by (simp add: same_tables_def)

lemma same_tables_trans: "same_tables a b \<Longrightarrow> same_tables b c \<Longrightarrow> same_tables a c"
  by (simp add: same_tables_def)

lemma same_tables_count [simp]: "same_tables a (b\<lparr>pagesCount := n\<rparr>) = same_tables a b"
  "same_tables (a\<lparr>pagesCount := n\<rparr>) b = same_tables a b"
  by (simp_all add: same_tables_def)

lemma same_tables_ok: "dir_ok d \<Longrightarrow> same_tables d d' \<Longrightarrow> dir_ok d'"
  unfolding dir_ok_def same_tables_def by metis

lemma same_tables_get:
  assumes "same_tables d d'" and "length (pageDirectory d) = 1024"
  shows "has_table d' va = has_table d va" "table_of d' va = table_of d va"
    "isAddressValid d' pa s = isAddressValid d pa s"
  using assms table_index_lt [of va] table_index_lt [of pa]
  by (auto simp: same_tables_def has_table_def table_of_def isAddressValid_def rd_at_def)

lemma translate_eq:
  assumes "dir_ok d"
  shows "getPhysicalAddress d va s =
    (if va \<noteq> 0 \<and> has_table d va \<and> present (entry_at s (table_of d va) (page_index va))
     then Some (entry_address (entry_at s (table_of d va) (page_index va)) OR (va AND 0xFFF)) else Some 0)"
  using assms table_index_lt [of va]
  by (auto simp: getPhysicalAddress_def has_table_def table_of_def rd_at_def dir_ok_def Let_def)

lemma table_of_inj:
  assumes "dir_ok d" and "has_table d va" and "has_table d vb" and "table_of d va = table_of d vb"
  shows "table_index va = table_index vb"
proof -
  have "unat (table_index va) = unat (table_index vb)"
    using assms table_index_lt [of va] table_index_lt [of vb] unfolding dir_ok_def has_table_def table_of_def by blast
  then show ?thesis by (simp add: word_unat_eq_iff)
qed

lemma setTable_present:
  assumes ok: "dir_ok d" and ht: "has_table d va"
  shows "\<exists>d'. setTable (table_index va) (table_of d va) flags d = Some d' \<and> same_tables d d' \<and> pagesCount d' = pagesCount d"
proof -
  let ?i = "unat (table_index va)"
  let ?e = "pageDirectory d ! ?i"
  let ?e' = "?e\<lparr>present := present ?e \<or> bit flags 0, rw := rw ?e \<or> bit flags 1, user := user ?e \<or> bit flags 2,
      frame_no := ucast (drop_bit 12 (table_of d va))\<rparr>"
  have i: "?i < 1024" "length (pageDirectory d) = 1024" using ok table_index_lt by (simp_all add: dir_ok_def)
  have t: "table_of d va AND 0xFFF = 0" "entry_address ?e = table_of d va"
    using ok ht i by (simp_all add: dir_ok_def has_table_def table_of_def)
  have "table_of d va AND NOT 0xFFF = table_of d va"
  proof (rule bit_word_eqI)
    fix n assume n: "n < LENGTH(32)"
    have "bit (table_of d va AND 0xFFF) n = False" using t(1) by simp
    then show "bit (table_of d va AND NOT 0xFFF) n = bit (table_of d va) n"
      using n unfolding mask_12 by (auto simp: bit_simps)
  qed
  then have "entry_address ?e' = entry_address ?e" by (simp only: entry_address_drop t(2))
  moreover have "setTable (table_index va) (table_of d va) flags d = Some (d\<lparr>pageDirectory := (pageDirectory d)[?i := ?e']\<rparr>)"
    using i by (simp add: setTable_def rd_at_def wr_at_def)
  moreover have "present ?e' = present ?e" using ht by (simp add: has_table_def)
  ultimately show ?thesis using i by (auto simp: same_tables_def nth_list_update)
qed

lemma set_dir_simps [simp]:
  "dirs (set_dir a d s) = (dirs s)(a \<mapsto> d)" "phys (set_dir a d s) = phys s"
  "currentPageDirectory (set_dir a d s) = currentPageDirectory s" "paging_enabled (set_dir a d s) = paging_enabled s"
  "entry_at (set_dir a d s) = entry_at s"
  by (simp_all add: set_dir_def)

text \<open>With its table there, a page is mapped in one step; nothing but its entry changes.\<close>

lemma getTable_present:
  assumes d: "dirs s this = Some d" "dir_ok d" "has_table d va" and v: "visible s (table_of d va)"
  shows "\<exists>d1. getTable (Suc k) this (table_index va) flags s = Some (table_of d va, set_dir this d1 s) \<and>
    same_tables d d1 \<and> pagesCount d1 = pagesCount d"
proof -
  have i: "unat (table_index va) < 1024" "length (pageTables d) = 1024" "length (pageDirectory d) = 1024"
    using d table_index_lt by (simp_all add: dir_ok_def)
  have rd: "rd_at (pageTables d) (unat (table_index va)) = Some (table_of d va)"
    "rd_at (pageDirectory d) (unat (table_index va)) = Some (pageDirectory d ! unat (table_index va))"
    using i by (simp_all add: rd_at_def table_of_def)
  have nz: "table_of d va \<noteq> 0" "present (pageDirectory d ! unat (table_index va))"
    using d i by (simp_all add: dir_ok_def has_table_def table_of_def)
  obtain d1 where d1: "setTable (table_index va) (table_of d va) flags d = Some d1" "same_tables d d1" "pagesCount d1 = pagesCount d"
    using setTable_present [OF d(2,3)] by blast
  have va: "isAddressValid c x (set_dir this d1 s) = isAddressValid c x s" for c x
    by (simp add: isAddressValid_def set_dir_def cong: if_cong)
  have vis: "paging_enabled s \<Longrightarrow> \<exists>c. dirs (set_dir this d1 s) (currentPageDirectory s) = Some c \<and>
      isAddressValid c (table_of d va) (set_dir this d1 s) = Some True"
    using v d(1) same_tables_get(3) [OF d1(2) i(3)] by (auto simp: visible_def va)
  have "getTable (Suc k) this (table_index va) flags s = Some (table_of d va, set_dir this d1 s)"
    using vis by (cases "paging_enabled s") (auto simp: d(1) rd nz d1(1))
  then show ?thesis using d1 by blast
qed

definition page_entry_for :: "u32 \<Rightarrow> u32 \<Rightarrow> page_entry \<Rightarrow> page_entry" where
  "page_entry_for pa flags e = e\<lparr>present := bit flags 0, rw := bit flags 1, user := bit flags 2,
     frame_no := ucast (drop_bit 12 pa)\<rparr>"

definition put_entry :: "u32 \<Rightarrow> u32 \<Rightarrow> page_entry \<Rightarrow> paging \<Rightarrow> paging" where
  "put_entry table i e s = s\<lparr>entry_at := (entry_at s)(table := (entry_at s table)(i := e))\<rparr>"

lemma put_entry_simps [simp]:
  "dirs (put_entry t i e s) = dirs s" "phys (put_entry t i e s) = phys s"
  "currentPageDirectory (put_entry t i e s) = currentPageDirectory s" "paging_enabled (put_entry t i e s) = paging_enabled s"
  "entry_at (put_entry t i e s) t' i' = (if t' = t \<and> i' = i then e else entry_at s t' i')"
  by (simp_all add: put_entry_def)

lemma mapPage_present:
  assumes d: "dirs s this = Some d" "dir_ok d" "has_table d va" and v: "visible s (table_of d va)"
    and nz: "pa \<noteq> 0" "va \<noteq> 0"
  shows "\<exists>d' e. mapPage (Suc k) this pa va flags s =
      Some (set_dir this d' (put_entry (table_of d va) (page_index va) (page_entry_for pa flags e) s)) \<and>
    same_tables d d' \<and> pagesCount d' = pagesCount d + 1"
proof -
  obtain d1 where d1: "getTable (Suc k) this (table_index va) flags s = Some (table_of d va, set_dir this d1 s)"
    "same_tables d d1" "pagesCount d1 = pagesCount d"
    using getTable_present [OF d v] by blast
  let ?e = "entry_at s (table_of d va) (page_index va)" and ?d' = "d1\<lparr>pagesCount := pagesCount d1 + 1\<rparr>"
  have "mapPage (Suc k) this pa va flags s =
      Some (set_dir this ?d' (put_entry (table_of d va) (page_index va) (page_entry_for pa flags ?e) s))"
    using nz by (simp add: mapPage_def mapPage_with_def d1(1) setPage_def Let_def del: getTable.simps)
      (simp add: set_dir_def put_entry_def page_entry_for_def)
  then show ?thesis using d1 by (intro exI [of _ ?d'] exI [of _ ?e]) simp
qed

lemma mapPage_translate:
  assumes d: "dirs s this = Some d" "dir_ok d" "has_table d va" and v: "visible s (table_of d va)"
    and nz: "pa \<noteq> 0" "va \<noteq> 0"
  shows "\<exists>s' d'. mapPage (Suc k) this pa va flags s = Some s' \<and> dirs s' this = Some d' \<and> dir_ok d' \<and>
    same_tables d d' \<and> pagesCount d' = pagesCount d + 1 \<and> phys s' = phys s \<and>
    currentPageDirectory s' = currentPageDirectory s \<and> paging_enabled s' = paging_enabled s \<and>
    (\<forall>a. a \<noteq> this \<longrightarrow> dirs s' a = dirs s a) \<and>
    (\<forall>t i. t \<noteq> table_of d va \<or> i \<noteq> page_index va \<longrightarrow> entry_at s' t i = entry_at s t i) \<and>
    (\<forall>x. x \<noteq> 0 \<longrightarrow> getPhysicalAddress d' x s' =
      (if drop_bit 12 x = drop_bit 12 va
       then Some (if bit flags 0 then pa AND NOT 0xFFF OR (x AND 0xFFF) else 0)
       else getPhysicalAddress d x s))"
proof -
  obtain d' e where m: "mapPage (Suc k) this pa va flags s =
      Some (set_dir this d' (put_entry (table_of d va) (page_index va) (page_entry_for pa flags e) s))"
    "same_tables d d'" "pagesCount d' = pagesCount d + 1"
    using mapPage_present [OF d v nz] by blast
  let ?s' = "set_dir this d' (put_entry (table_of d va) (page_index va) (page_entry_for pa flags e) s)"
  have ok': "dir_ok d'" using same_tables_ok [OF d(2) m(2)] .
  have len: "length (pageDirectory d) = 1024" using d(2) by (simp add: dir_ok_def)
  note g = same_tables_get [OF m(2) len]
  have ad: "entry_address (page_entry_for pa flags e) = pa AND NOT 0xFFF"
    using entry_address_drop by (simp add: page_entry_for_def)
  have "getPhysicalAddress d' x ?s' = (if drop_bit 12 x = drop_bit 12 va
       then Some (if bit flags 0 then pa AND NOT 0xFFF OR (x AND 0xFFF) else 0)
       else getPhysicalAddress d x s)" if x: "x \<noteq> 0" for x
  proof (cases "drop_bit 12 x = drop_bit 12 va")
    case True
    then have "table_index x = table_index va" "page_index x = page_index va" by (simp_all add: same_page)
    then have "has_table d x" "table_of d x = table_of d va" "page_index x = page_index va"
      using d(3) by (simp_all add: has_table_def table_of_def)
    then show ?thesis using True x by (simp add: translate_eq [OF ok'] g ad) (simp add: page_entry_for_def)
  next
    case False
    have "\<not> (table_of d x = table_of d va \<and> page_index x = page_index va)" if "has_table d x"
      using False that table_of_inj [OF d(2) that d(3)] by (auto simp: same_page)
    then show ?thesis using False by (auto simp: translate_eq [OF ok'] translate_eq [OF d(2)] g)
  qed
  then show ?thesis using m ok' by (intro exI [of _ ?s'] exI [of _ d']) auto
qed

lemma visible_after:
  assumes d: "dirs s this = Some d" "dir_ok d" "same_tables d d'" and e: "present e" and v: "visible s x"
  shows "visible (set_dir this d' (put_entry t i e s)) x"
proof -
  have len: "length (pageDirectory d) = 1024" using d(2) by (simp add: dir_ok_def)
  let ?s' = "set_dir this d' (put_entry t i e s)"
  have grow: "isAddressValid c x ?s' = Some True" if "isAddressValid c x s = Some True" for c
    using that e by (auto simp: isAddressValid_def split: if_splits Option.bind_splits)
  show ?thesis
    using v grow d(1) same_tables_get(3) [OF d(3) len] unfolding visible_def by (auto split: if_splits)
qed

lemma mapPage_visible:
  assumes "dirs s this = Some d" "dir_ok d" "has_table d va" "visible s (table_of d va)" "pa \<noteq> 0" "va \<noteq> 0"
    and m: "mapPage (Suc k) this pa va flags s = Some s'" and f: "bit flags 0" and v: "visible s x"
  shows "visible s' x"
proof -
  obtain d' e where "s' = set_dir this d' (put_entry (table_of d va) (page_index va) (page_entry_for pa flags e) s)"
    "same_tables d d'"
    using mapPage_present [OF assms(1-6), of k flags] m by auto
  then show ?thesis
    using visible_after [OF assms(1,2) _ _ v, of d' "page_entry_for pa flags e"] f by (simp add: page_entry_for_def)
qed

section \<open>Ranges of pages\<close>

text \<open>The \<open>i\<close>-th page after an address.\<close>

abbreviation page_up :: "u32 \<Rightarrow> nat \<Rightarrow> u32" where
  "page_up a i \<equiv> a + of_nat i * 0x1000"

text \<open>Every table the range needs is there and can be reached.\<close>

definition ready :: "u32 \<Rightarrow> paging \<Rightarrow> u32 \<Rightarrow> nat \<Rightarrow> bool" where
  "ready this s va n \<longleftrightarrow> (\<exists>d. dirs s this = Some d \<and> dir_ok d \<and>
     (\<forall>i < n. has_table d (page_up va i) \<and> visible s (table_of d (page_up va i))))"

text \<open>What mapping the pages from \<open>va\<close> to those from \<open>pa\<close> does to the translation of addresses.\<close>

definition remapped :: "(u32 \<Rightarrow> u32 option) \<Rightarrow> (u32 \<Rightarrow> u32 option) \<Rightarrow> u32 \<Rightarrow> u32 \<Rightarrow> nat \<Rightarrow> bool" where
  "remapped f g pa va n \<longleftrightarrow>
     (\<forall>i < n. \<forall>x. x \<noteq> 0 \<longrightarrow> drop_bit 12 x = drop_bit 12 (page_up va i) \<longrightarrow>
        g x = Some (page_up pa i AND NOT 0xFFF OR (x AND 0xFFF))) \<and>
     (\<forall>x. x \<noteq> 0 \<longrightarrow> (\<forall>i < n. drop_bit 12 x \<noteq> drop_bit 12 (page_up va i)) \<longrightarrow> g x = f x)"

definition only_maps :: "u32 \<Rightarrow> paging \<Rightarrow> paging \<Rightarrow> bool" where
  "only_maps this s s' \<longleftrightarrow> phys s' = phys s \<and> currentPageDirectory s' = currentPageDirectory s \<and>
     paging_enabled s' = paging_enabled s \<and> (\<forall>a. a \<noteq> this \<longrightarrow> dirs s' a = dirs s a) \<and>
     (\<forall>x. visible s x \<longrightarrow> visible s' x)"

lemma map_range:
  assumes "dirs s this = Some d" "dir_ok d" "\<forall>i < n. has_table d (page_up va i) \<and> visible s (table_of d (page_up va i))"
    and nz: "\<forall>i < n. page_up pa i \<noteq> 0 \<and> page_up va i \<noteq> 0"
    and inj: "\<forall>i < n. \<forall>j < n. drop_bit 12 (page_up va i) = drop_bit 12 (page_up va j) \<longrightarrow> i = j"
    and f: "bit flags 0"
  shows "\<exists>s' d'. fold_opt (\<lambda>i. mapPage (Suc k) this (page_up pa i) (page_up va i) flags) [0..<n] s = Some s' \<and>
    dirs s' this = Some d' \<and> dir_ok d' \<and> same_tables d d' \<and> only_maps this s s' \<and>
    pagesCount d' = pagesCount d + of_nat n \<and>
    remapped (\<lambda>x. getPhysicalAddress d x s) (\<lambda>x. getPhysicalAddress d' x s') pa va n"
  using assms(3-5)
proof (induction n)
  case 0
  then show ?case using assms(1,2) by (simp add: remapped_def only_maps_def)
next
  case (Suc n)
  then obtain s1 d1 where s1: "fold_opt (\<lambda>i. mapPage (Suc k) this (page_up pa i) (page_up va i) flags) [0..<n] s = Some s1"
    "dirs s1 this = Some d1" "dir_ok d1" "same_tables d d1" "only_maps this s s1" "pagesCount d1 = pagesCount d + of_nat n"
    "remapped (\<lambda>x. getPhysicalAddress d x s) (\<lambda>x. getPhysicalAddress d1 x s1) pa va n" by auto
  have len: "length (pageDirectory d) = 1024" using assms(2) by (simp add: dir_ok_def)
  note g = same_tables_get(1,2) [OF s1(4) len]
  have v: "has_table d1 (page_up va n)" "visible s1 (table_of d1 (page_up va n))"
    using Suc.prems(1) s1(5) by (auto simp: g only_maps_def)
  have z: "page_up pa n \<noteq> 0" "page_up va n \<noteq> 0" using Suc.prems(2) by auto
  obtain s2 d2 where s2: "mapPage (Suc k) this (page_up pa n) (page_up va n) flags s1 = Some s2"
    "dirs s2 this = Some d2" "dir_ok d2" "same_tables d1 d2" "pagesCount d2 = pagesCount d1 + 1" "phys s2 = phys s1"
    "currentPageDirectory s2 = currentPageDirectory s1" "paging_enabled s2 = paging_enabled s1"
    "\<forall>a. a \<noteq> this \<longrightarrow> dirs s2 a = dirs s1 a"
    "\<forall>x. x \<noteq> 0 \<longrightarrow> getPhysicalAddress d2 x s2 =
      (if drop_bit 12 x = drop_bit 12 (page_up va n)
       then Some (if bit flags 0 then page_up pa n AND NOT 0xFFF OR (x AND 0xFFF) else 0)
       else getPhysicalAddress d1 x s1)"
    using mapPage_translate [OF s1(2,3) v z, of k flags] by blast
  have "only_maps this s s2"
    using s1(5) s2 mapPage_visible [OF s1(2,3) v z s2(1) f] by (simp add: only_maps_def)
  moreover have "remapped (\<lambda>x. getPhysicalAddress d x s) (\<lambda>x. getPhysicalAddress d2 x s2) pa va (Suc n)"
  proof -
    have "drop_bit 12 (page_up va i) \<noteq> drop_bit 12 (page_up va n)" if "i < n" for i
      using Suc.prems(3) that less_SucI by blast
    then show ?thesis using s1(7) s2(10) f by (auto simp: remapped_def less_Suc_eq)
  qed
  ultimately show ?case
    using s1 s2 same_tables_trans by (intro exI [of _ s2] exI [of _ d2]) (auto simp: fold_opt_append algebra_simps)
qed

lemma unat_page_up:
  assumes "unat (va :: u32) + 4096 * n \<le> 4294967296" and "i < n"
  shows "unat (page_up va i) = unat va + 4096 * i"
proof -
  have i: "4096 * i < 4294967296" using assms by linarith
  then have "unat (of_nat i :: u32) = i" by (simp add: unat_of_nat)
  then have "unat (of_nat i * 0x1000 :: u32) = 4096 * i" using i by (subst unat_mult_small) simp_all
  then show ?thesis using assms by (subst unat_add_small) simp_all
qed

lemma unat_drop12_div: "unat (drop_bit 12 (x :: u32)) = unat x div 4096"
  using unat_drop_bit_eq [of 12 x] by (simp only: drop_bit_eq_div [of 12 "unat x"]) simp

lemma page_up_inj:
  assumes "unat (va :: u32) + 4096 * n \<le> 4294967296"
  shows "\<forall>i < n. \<forall>j < n. drop_bit 12 (page_up va i) = drop_bit 12 (page_up va j) \<longrightarrow> i = j"
proof (intro allI impI)
  fix i j assume i: "i < n" and j: "j < n" and eq: "drop_bit 12 (page_up va i) = drop_bit 12 (page_up va j)"
  have "(unat va + 4096 * i) div 4096 = (unat va + 4096 * j) div 4096"
    using arg_cong [OF eq, of unat] unfolding unat_drop12_div unat_page_up [OF assms i] unat_page_up [OF assms j] .
  then show "i = j" by simp
qed

lemma mapPages_rep:
  assumes r: "ready this s va (unat n)" and d: "dirs s this = Some d"
    and nz: "\<forall>i < unat n. page_up pa i \<noteq> 0 \<and> page_up va i \<noteq> 0"
    and fit: "unat va + 4096 * unat n \<le> 4294967296" and f: "bit flags 0"
  shows "\<exists>s' d'. mapPages (Suc k) this pa va n flags s = Some s' \<and>
    dirs s' this = Some d' \<and> dir_ok d' \<and> same_tables d d' \<and> only_maps this s s' \<and>
    pagesCount d' = pagesCount d + n \<and>
    remapped (\<lambda>x. getPhysicalAddress d x s) (\<lambda>x. getPhysicalAddress d' x s') pa va (unat n)"
  using map_range [OF d _ _ nz page_up_inj [OF fit] f, of k] r d by (auto simp: mapPages_def ready_def)

section \<open>Removing pages\<close>

lemma unmapPage_rep:
  assumes d: "dirs s this = Some d" "dir_ok d" and t: "has_table d va" and nz: "va \<noteq> 0"
  shows "\<exists>s' d'. unmapPage this va s = Some s' \<and> dirs s' this = Some d' \<and> dir_ok d' \<and> same_tables d d' \<and>
    pagesCount d' = pagesCount d - 1 \<and> phys s' = phys s \<and>
    (\<forall>x. x \<noteq> 0 \<longrightarrow> getPhysicalAddress d' x s' =
      (if drop_bit 12 x = drop_bit 12 va then Some 0 else getPhysicalAddress d x s))"
proof -
  let ?i = "unat (table_index va)" and ?d' = "d\<lparr>pagesCount := pagesCount d - 1\<rparr>"
  have i: "?i < 1024" "length (pageDirectory d) = 1024" using d(2) table_index_lt by (simp_all add: dir_ok_def)
  have e: "entry_address (pageDirectory d ! ?i) = table_of d va"
    using d(2) t i by (simp add: dir_ok_def has_table_def table_of_def)
  let ?s' = "set_dir this ?d' (put_entry (table_of d va) (page_index va) zero_entry s)"
  have st: "same_tables d ?d'" by simp
  have ok': "dir_ok ?d'" using same_tables_ok [OF d(2) st] .
  note g = same_tables_get [OF st i(2)]
  have "unmapPage this va s = Some ?s'"
    using nz t i e d(1) by (simp add: unmapPage_def rd_at_def has_table_def Let_def set_dir_def put_entry_def)
  moreover have "getPhysicalAddress ?d' x ?s' =
      (if drop_bit 12 x = drop_bit 12 va then Some 0 else getPhysicalAddress d x s)" if x: "x \<noteq> 0" for x
  proof (cases "drop_bit 12 x = drop_bit 12 va")
    case True
    then have "table_index x = table_index va" "page_index x = page_index va" by (simp_all add: same_page)
    then show ?thesis using True x by (simp add: translate_eq [OF ok'] g table_of_def zero_entry_def)
  next
    case False
    have "\<not> (table_of d x = table_of d va \<and> page_index x = page_index va)" if "has_table d x"
      using False that table_of_inj [OF d(2) that t] by (auto simp: same_page)
    then show ?thesis using False by (auto simp: translate_eq [OF ok'] translate_eq [OF d(2)] g)
  qed
  ultimately show ?thesis using st ok' by (intro exI [of _ ?s'] exI [of _ ?d']) auto
qed

text \<open>\<open>freePage\<close> gives back the frame behind a mapped page; a page without a frame is a panic.\<close>

lemma freePage_rep:
  assumes d: "dirs s this = Some d" "dir_ok d" and m: "mem_ok (phys s)" and nz: "va \<noteq> 0"
    and tr: "getPhysicalAddress d va s = Some pa"
    and own: "pa AND NOT 0xFFF \<noteq> 0" "frame_used (phys s) (pa AND NOT 0xFFF)"
  shows "\<exists>s' d'. freePage this va s = Some s' \<and> dirs s' this = Some d' \<and> dir_ok d' \<and> mem_ok (phys s') \<and>
    used (phys s') = used (phys s) - {unat (drop_bit 12 pa)} \<and>
    (\<forall>x. x \<noteq> 0 \<longrightarrow> getPhysicalAddress d' x s' =
      (if drop_bit 12 x = drop_bit 12 va then Some 0 else getPhysicalAddress d x s))"
proof -
  let ?i = "unat (table_index va)" and ?e = "entry_at s (table_of d va) (page_index va)"
  have i: "?i < 1024" "length (pageDirectory d) = 1024" "length (pageTables d) = 1024"
    using d(2) table_index_lt by (simp_all add: dir_ok_def)
  have pa0: "pa \<noteq> 0" using own(1) by auto
  then have t: "has_table d va" "present ?e" "pa = entry_address ?e OR (va AND 0xFFF)"
    using tr nz by (auto simp: translate_eq [OF d(2)] split: if_splits)
  have ea: "entry_address ?e = pa AND NOT 0xFFF"
    unfolding t(3) entry_address_def mask_12 by (rule bit_word_eqI) (auto simp: bit_simps)
  have dr: "drop_bit 12 (pa AND NOT 0xFFF) = drop_bit 12 pa"
    unfolding mask_12 by (rule bit_word_eqI) (auto simp: bit_simps dest: bit_imp_le_length)
  have "unat (drop_bit 12 (pa AND NOT 0xFFF)) \<noteq> 0"
  proof
    assume "unat (drop_bit 12 (pa AND NOT 0xFFF)) = 0"
    then have "drop_bit 12 pa = 0" unfolding dr by (simp only: unsigned_eq_0_iff)
    then have "push_bit 12 (drop_bit 12 pa) = 0" by simp
    moreover have "push_bit 12 (drop_bit 12 pa) = pa AND NOT 0xFFF"
      unfolding mask_12 by (rule bit_word_eqI) (auto simp: bit_simps)
    ultimately show False using own(1) by simp
  qed
  from freeFrame_spec [OF m this own(2), unfolded dr, folded ea]
  obtain p where p: "freeFrame (entry_address ?e) (phys s) = Some p" "mem_ok p"
    "used p = used (phys s) - {unat (drop_bit 12 pa)}" by (elim exE conjE)
  let ?s1 = "s\<lparr>phys := p\<rparr>"
  have d1: "dirs ?s1 this = Some d" using d(1) by simp
  obtain s' d' where s': "unmapPage this va ?s1 = Some s'" "dirs s' this = Some d'" "dir_ok d'" "phys s' = p"
    "\<forall>x. x \<noteq> 0 \<longrightarrow> getPhysicalAddress d' x s' =
      (if drop_bit 12 x = drop_bit 12 va then Some 0 else getPhysicalAddress d x ?s1)"
    using unmapPage_rep [OF d1 d(2) t(1) nz] by auto
  have "getPhysicalAddress d x ?s1 = getPhysicalAddress d x s" for x by (simp add: translate_eq [OF d(2)])
  moreover have "freePage this va s = Some s'"
    using nz d(1) i t(1,2) p(1) s'(1)
    by (simp add: freePage_def rd_at_def has_table_def [symmetric] table_of_def [symmetric] Let_def)
  ultimately show ?thesis using s' p(2,3) by (intro exI [of _ s'] exI [of _ d']) simp
qed

section \<open>Allocating pages\<close>

text \<open>Every frame of the machine has its table in the directory, within reach.\<close>

definition tables_ready :: "u32 \<Rightarrow> paging \<Rightarrow> bool" where
  "tables_ready this s \<longleftrightarrow> (\<exists>d. dirs s this = Some d \<and> dir_ok d \<and>
     (\<forall>i. i * 4194304 < 131072 * length (frameBits (phys s)) \<longrightarrow> i < 1024 \<longrightarrow>
        present (pageDirectory d ! i) \<and> visible s (pageTables d ! i)))"

lemma tables_missing_none:
  "\<forall>i \<in> set is. i < length (pageDirectory d) \<and> present (pageDirectory d ! i) \<Longrightarrow> tables_missing d is = Some False"
  by (induction "is") (auto simp: rd_at_def)

lemma ready_index:
  assumes "\<forall>i. i * 4194304 < T \<longrightarrow> i < 1024 \<longrightarrow> P i" and "unat (va :: u32) < T"
  shows "P (unat (table_index va))"
proof -
  have "unat (table_index va) = unat va div 4194304"
    using unat_drop_bit_eq [of 22 va] unfolding table_index_def drop_bit_eq_div [of 22 "unat va"] by simp
  then have "unat (table_index va) * 4194304 \<le> unat va" by simp
  then have "unat (table_index va) * 4194304 < T" using assms(2) by linarith
  then show ?thesis using assms(1) table_index_lt by blast
qed

lemma markFrame_length: "markFrame n s = Some s' \<Longrightarrow> length (frameBits s') = length (frameBits s)"
  by (auto simp: markFrame_def wr_at_def split: if_splits Option.bind_splits)

lemma unmarkFrame_length: "unmarkFrame n s = Some s' \<Longrightarrow> length (frameBits s') = length (frameBits s)"
  by (auto simp: unmarkFrame_def wr_at_def split: if_splits Option.bind_splits)

lemma fold_length:
  assumes "fold_opt f is s = Some s'" and "\<And>i s t. f i s = Some t \<Longrightarrow> length (frameBits t) = length (frameBits s)"
  shows "length (frameBits s') = length (frameBits s)"
  using fold_opt_inv [OF assms(1), of "\<lambda>t. length (frameBits t) = length (frameBits s)"] assms(2) by simp

lemma allocateFrames_length: "allocateFrames n s = Some (a, s') \<Longrightarrow> length (frameBits s') = length (frameBits s)"
  by (auto simp: allocateFrames_def count_alloc_def split: if_splits Option.bind_splits
      dest!: fold_length [OF _ markFrame_length])

lemma push_12_aligned: "unat (push_bit 12 (r :: u32)) mod 4096 = 0"
proof -
  have "unat (push_bit 12 r) = unat r * 4096 mod 4294967296"
    by (simp add: push_bit_eq_mult unat_word_ariths)
  then show ?thesis using mod_mod_cancel [of 4096 4294967296 "unat r * 4096"] by simp
qed

lemma allocateFrames_aligned: "allocateFrames n s = Some (a, s') \<Longrightarrow> unat a mod 4096 = 0"
  by (auto simp: allocateFrames_def push_12_aligned split: if_splits Option.bind_splits)

lemma allocateFrame_length: "allocateFrame s = Some (a, s') \<Longrightarrow> length (frameBits s') = length (frameBits s)"
  by (auto simp: allocateFrame_def count_alloc_def split: if_splits Option.bind_splits dest!: markFrame_length)

lemma freeFrame_length: "freeFrame a s = Some s' \<Longrightarrow> length (frameBits s') = length (frameBits s)"
  by (auto simp: freeFrame_def count_free_def split: if_splits Option.bind_splits dest!: unmarkFrame_length)

lemma last_page:
  assumes "unat (a :: u32) + 4096 * unat (n :: u32) \<le> 4294967296" and "0 < unat n"
  shows "unat (a + n * 0x1000 - 1) = unat a + 4096 * unat n - 1"
proof -
  let ?k = "unat a + 4096 * unat n"
  have "(of_nat (?k - 1) :: u32) = of_nat ?k - 1" using assms(2) by (subst of_nat_diff) simp_all
  also have "(of_nat ?k :: u32) = a + n * 0x1000" by simp
  finally have "a + n * 0x1000 - 1 = of_nat (?k - 1)" by simp
  moreover have "?k - 1 < 4294967296" using assms by linarith
  ultimately show ?thesis by (simp add: unat_of_nat)
qed

text \<open>
  A run of pages: the first run of free frames that is long enough, each mapped to itself, or
  null and no change.
\<close>

lemma allocatePages_rep:
  assumes m: "mem_ok (phys s)" and r: "tables_ready this s" and d: "dirs s this = Some d" and n: "0 < unat n"
  shows "((\<forall>g. \<not> free_run (phys s) g (unat n)) \<and> allocatePages (Suc k) this n s = Some (0, s)) \<or>
    (\<exists>a s' d'. allocatePages (Suc k) this n s = Some (a, s') \<and> a \<noteq> 0 \<and> unat a mod 4096 = 0 \<and>
       mem_ok (phys s') \<and> tables_ready this s' \<and> dirs s' this = Some d' \<and>
       free_run (phys s) (unat a div 4096) (unat n) \<and>
       used (phys s') = used (phys s) \<union> {unat a div 4096..<unat a div 4096 + unat n} \<and>
       currentPageDirectory s' = currentPageDirectory s \<and>
       remapped (\<lambda>x. getPhysicalAddress d x s) (\<lambda>x. getPhysicalAddress d' x s') a a (unat n))"
proof -
  consider (full) "\<forall>g. \<not> free_run (phys s) g (unat n)" "allocateFrames n (phys s) = Some (0, phys s)"
    | (found) a p where "allocateFrames n (phys s) = Some (a, p)" "a \<noteq> 0" "mem_ok p"
       "free_run (phys s) (unat (drop_bit 12 a)) (unat n)"
       "used p = used (phys s) \<union> {unat (drop_bit 12 a)..<unat (drop_bit 12 a) + unat n}"
    using allocateFrames_spec [OF m n] by blast
  then show ?thesis
  proof cases
    case full
    then show ?thesis by simp
  next
    case found
    let ?s0 = "s\<lparr>phys := p\<rparr>" and ?T = "131072 * length (frameBits (phys s))"
    have al: "unat a mod 4096 = 0" using found(1,2) allocateFrames_aligned by blast
    have ua: "unat a = 4096 * unat (drop_bit 12 a)" using al by (simp only: unat_drop12_div) (simp add: mod_eq_0_iff_dvd)
    have fit: "unat a + 4096 * unat n \<le> ?T" using found(4) ua by (simp add: free_run_def)
    have T: "?T \<le> 4294967296" using m by (simp add: mem_ok_def)
    have fit': "unat a + 4096 * unat n \<le> 4294967296" using fit T by linarith
    have dok: "dir_ok d" and pr: "\<forall>i. i * 4194304 < ?T \<longrightarrow> i < 1024 \<longrightarrow> present (pageDirectory d ! i) \<and> visible s (pageTables d ! i)"
      using r d by (auto simp: tables_ready_def)
    have len: "length (pageDirectory d) = 1024" using dok by (simp add: dir_ok_def)
    have up: "unat (page_up a i) = unat a + 4096 * i" if "i < unat n" for i using unat_page_up [OF fit' that] .
    have vis0: "visible ?s0 x = visible s x" for x
      by (simp add: visible_def isAddressValid_def cong: if_cong)
    have tabs: "\<forall>i < unat n. has_table d (page_up a i) \<and> visible ?s0 (table_of d (page_up a i))"
    proof (intro allI impI)
      fix i assume i: "i < unat n"
      then have "unat (page_up a i) < ?T" using up [OF i] fit by linarith
      from ready_index [OF pr this] show "has_table d (page_up a i) \<and> visible ?s0 (table_of d (page_up a i))"
        by (simp add: has_table_def table_of_def vis0)
    qed
    have nz: "\<forall>i < unat n. page_up a i \<noteq> 0 \<and> page_up a i \<noteq> 0"
    proof (intro allI impI)
      fix i assume i: "i < unat n"
      have "unat (page_up a i) \<noteq> 0" using up [OF i] found(2) by (simp add: unsigned_eq_0_iff)
      then show "page_up a i \<noteq> 0 \<and> page_up a i \<noteq> 0" by auto
    qed
    have d0: "dirs ?s0 this = Some d" using d by simp
    obtain s' d' where s': "fold_opt (\<lambda>i. mapPage (Suc k) this (page_up a i) (page_up a i) (Present OR ReadWrite)) [0..<unat n] ?s0 = Some s'"
      "dirs s' this = Some d'" "dir_ok d'" "same_tables d d'" "only_maps this ?s0 s'"
      "remapped (\<lambda>x. getPhysicalAddress d x ?s0) (\<lambda>x. getPhysicalAddress d' x s') a a (unat n)"
      using map_range [OF d0 dok tabs nz page_up_inj [OF fit'], of "Present OR ReadWrite" k] by (auto simp: bit_simps)
    have last: "unat (a + n * 0x1000 - 1) < ?T" using last_page [OF fit' n] fit n by linarith
    have miss: "tables_missing d [unat (table_index a)..<Suc (unat (table_index (a + n * 0x1000 - 1)))] = Some False"
    proof (rule tables_missing_none, rule ballI)
      fix i assume "i \<in> set [unat (table_index a)..<Suc (unat (table_index (a + n * 0x1000 - 1)))]"
      then have le: "i \<le> unat (table_index (a + n * 0x1000 - 1))" by auto
      have "unat (table_index (a + n * 0x1000 - 1)) * 4194304 < ?T"
        using ready_index [of ?T "\<lambda>i. i * 4194304 < ?T", OF _ last] by blast
      then have "i * 4194304 < ?T" using le by linarith
      moreover have "i < 1024" using le table_index_lt [of "a + n * 0x1000 - 1"] by linarith
      ultimately show "i < length (pageDirectory d) \<and> present (pageDirectory d ! i)" using pr len by simp
    qed
    have run: "allocatePages (Suc k) this n s = Some (a, s')"
      using found(1,2) d miss s'(1) by (simp add: Let_def mult.commute del: upt_Suc)
    have fb: "length (frameBits (phys s')) = length (frameBits (phys s))"
      using s'(5) allocateFrames_length [OF found(1)] by (simp add: only_maps_def)
    have "tables_ready this s'"
      using s'(2-5) pr len by (auto simp: tables_ready_def fb only_maps_def same_tables_def vis0)
    moreover have "getPhysicalAddress d x ?s0 = getPhysicalAddress d x s" for x by (simp add: translate_eq [OF dok])
    moreover have "unat (drop_bit 12 a) = unat a div 4096" by (rule unat_drop12_div)
    ultimately show ?thesis using run found s' al by (simp add: only_maps_def)
  qed
qed

text \<open>A frame taken and given back leaves an allocator that hands out the same frame again.\<close>

lemma allocate_free_again:
  assumes m: "mem_ok p" and a: "allocateFrame p = Some (a, p')" "a \<noteq> 0"
  shows "\<exists>q. freeFrame a p' = Some q \<and> mem_ok q \<and> (\<exists>q'. allocateFrame q = Some (a, q'))"
proof -
  have p': "mem_ok p'" "unat a mod 4096 = 0" "\<not> frame_used p a" "\<forall>n < unat (drop_bit 12 a). n \<in> used p"
    "used p' = insert (unat (drop_bit 12 a)) (used p)"
    using allocateFrame_spec [OF m] a by auto
  let ?f = "unat (drop_bit 12 a)"
  have z: "?f \<noteq> 0" using p'(3) m by (metis frame_used_def mem_ok_def)
  have u: "frame_used p' a" by (simp add: frame_used_def p'(5))
  obtain q where q: "freeFrame a p' = Some q" "mem_ok q" "used q = used p' - {?f}"
    using freeFrame_spec [OF p'(1) z u] by blast
  have same: "used q = used p" using q(3) p'(3,5) by (auto simp: frame_used_def)
  have len: "length (frameBits q) = length (frameBits p)"
    using freeFrame_length [OF q(1)] allocateFrame_length [OF a(1)] by simp
  have "?f < 32 * length (frameBits q)" using used_finite(2) [of p'] p'(5) freeFrame_length [OF q(1)] by auto
  moreover have "?f \<notin> used q" using same p'(3) by (simp add: frame_used_def)
  ultimately have "used q \<noteq> {..<32 * length (frameBits q)}" by auto
  then obtain b q' where b: "allocateFrame q = Some (b, q')" "unat b mod 4096 = 0" "\<not> frame_used q b"
    "\<forall>n < unat (drop_bit 12 b). n \<in> used q"
    using allocateFrame_spec [OF q(2)] by (elim disjE exE conjE) simp_all
  have "unat (drop_bit 12 b) = ?f"
    using b(3,4) p'(3,4) unfolding frame_used_def same by (metis linorder_neqE_nat)
  then have "unat b div 4096 = unat a div 4096" by (simp only: unat_drop12_div)
  then have "unat b = unat a" using b(2) p'(2) by (metis div_mult_mod_eq)
  then have "b = a" by (simp add: word_unat_eq_iff)
  then show ?thesis using q(1,2) b(1) by blast
qed

text \<open>
  When the lowest free frame is the last one of a table and the next table is there already,
  \<open>allocatePage\<close> gives the frame back, asks for the table it has, and calls itself again.
\<close>

lemma allocatePage_loops:
  assumes "mem_ok (phys s)" "allocateFrame (phys s) = Some (a, p)" "a \<noteq> 0" "page_index a = 1023"
    and "dirs s this = Some d" "dir_ok d" "has_table d va" "table_index va = table_index a + 1"
    and "visible s (table_of d va)"
  shows "allocatePage k this flags s = None"
  using assms
proof (induction k arbitrary: s p d flags)
  case 0
  show ?case by simp
next
  case (Suc k)
  note pr = Suc.prems
  obtain q q' where q: "freeFrame a p = Some q" "mem_ok q" "allocateFrame q = Some (a, q')"
    using allocate_free_again [OF pr(1-3)] by blast
  let ?s1 = "s\<lparr>phys := q\<rparr>"
  have vis: "visible ?s1 x = visible s x" for x by (simp add: visible_def isAddressValid_def cong: if_cong)
  have d: "dirs ?s1 this = Some d" using pr(5) by simp
  obtain d1 where d1: "getTable (Suc k) this (table_index va) flags ?s1 = Some (table_of d va, set_dir this d1 ?s1)"
    "same_tables d d1"
    using getTable_present [OF d pr(6,7), of k flags] pr(9) vis by blast
  have len: "length (pageDirectory d) = 1024" using pr(6) by (simp add: dir_ok_def)
  note g = same_tables_get [OF d1(2) len]
  have "set_dir this d1 ?s1 = set_dir this d1 (put_entry x i (entry_at ?s1 x i) ?s1)" for x i
    by (simp add: put_entry_def)
  have v1: "visible (set_dir this d1 ?s1) x" if "visible ?s1 x" for x
  proof -
    have va: "isAddressValid c x (set_dir this d1 ?s1) = isAddressValid c x ?s1" for c
      by (simp add: isAddressValid_def cong: if_cong)
    show ?thesis using that d g(3) by (auto simp: visible_def va)
  qed
  have "allocatePage k this (Present OR ReadWrite) (set_dir this d1 ?s1) = None"
  proof (rule Suc.IH)
    show "mem_ok (phys (set_dir this d1 ?s1))" "allocateFrame (phys (set_dir this d1 ?s1)) = Some (a, q')"
      "dirs (set_dir this d1 ?s1) this = Some d1" using q by simp_all
    show "dir_ok d1" using same_tables_ok [OF pr(6) d1(2)] .
    show "has_table d1 va" "visible (set_dir this d1 ?s1) (table_of d1 va)" using pr(7,9) v1 vis by (simp_all add: g)
  qed (use pr in simp_all)
  then show ?case using pr(2-4) q(1) d1(1) by (simp add: pr(8) [symmetric] del: getTable.simps)
qed

end
