(* ===== verification/Kernel_Heap.thy ===== *)
theory Kernel_Heap
  imports Heap_Ops Paging
begin

text \<open>
  The kernel's heap: \<open>core/memory/KernelHeap.cpp\<close> gives the heap of \<open>Heap.cpp\<close> pages of the
  page directory in use. The interface \<open>page_source\<close> states what the heap needs of that; its
  lemmas show what the clients of the heap get, for any sequence of requests.
\<close>

section \<open>Definitions\<close>

definition allocateMemory :: "nat \<Rightarrow> u32 \<Rightarrow> paging \<Rightarrow> (u32 \<times> paging) option" where
  "allocateMemory k sz e = PagingManager_allocatePages k (drop_bit 12 sz) e"

definition HeapManager_freePage :: "u32 \<Rightarrow> paging \<Rightarrow> paging option" where
  "HeapManager_freePage address e = PagingManager_freePage address e"

partial_function (option) next_aligned :: "paging heap \<Rightarrow> u32 \<Rightarrow> u32 option" where
  "next_aligned h chunk =
     (if chunk \<noteq> 0 \<and> chunk AND 0xFFF \<noteq> 0 then do { c \<leftarrow> chunks h chunk; next_aligned h (c_next c) }
      else Some chunk)"

partial_function (option) destroy_loop :: "u32 \<Rightarrow> paging heap \<Rightarrow> paging heap option" where
  "destroy_loop current h =
     (if current = 0 then Some h
      else do {
        c \<leftarrow> chunks h current;
        nextPageAligned \<leftarrow> next_aligned h (c_next c);
        e \<leftarrow> PagingManager_freePage current (pages h);
        destroy_loop nextPageAligned (h\<lparr>pages := e\<rparr>) })"

definition HeapManager_destroy :: "paging heap \<Rightarrow> paging heap option" where
  "HeapManager_destroy h = destroy_loop (heapList h) h"

text \<open>An empty heap, and clients of a heap: they ask for blocks and release those they hold.\<close>

definition empty_heap :: "'e \<Rightarrow> 'e heap" where
  "empty_heap e = \<lparr>chunks = Map.empty, heapList = 0, totalMemory = 0, totalAllocatedMemory = 0, pages = e\<rparr>"

datatype request = Acquire u32 | Release nat

fun serve :: "(u32 \<Rightarrow> 'e \<Rightarrow> (u32 \<times> 'e) option) \<Rightarrow> request list \<Rightarrow> 'e heap \<times> (u32 \<times> u32) list \<Rightarrow>
    ('e heap \<times> (u32 \<times> u32) list) option" where
  "serve am [] st = Some st"
| "serve am (Acquire n # rs) (h, held) =
     do { (p, h') \<leftarrow> alloc am n False h; serve am rs (h', if p = 0 then held else (p, n) # held) }"
| "serve am (Release i # rs) (h, held) =
     (if i < length held
      then do { h' \<leftarrow> free (fst (held ! i)) h; serve am rs (h', take i held @ drop (Suc i) held) }
      else serve am rs (h, held))"

definition small_request :: "request \<Rightarrow> bool" where
  "small_request r = (case r of Acquire n \<Rightarrow> unat n + 4111 < 4294967296 | Release i \<Rightarrow> True)"

text \<open>The bytes of the block \<open>(p, n)\<close> a client holds.\<close>

fun block_bytes :: "u32 \<times> u32 \<Rightarrow> nat set" where
  "block_bytes (p, n) = {unat p..<unat p + unat n}"

section \<open>The interface\<close>

lemma apart_pair: "apart bs \<Longrightarrow> b \<in> set bs \<Longrightarrow> c \<in> set bs \<Longrightarrow> b \<noteq> c \<Longrightarrow> extent b \<inter> extent c = {}"
  by (induction bs) auto

locale page_source =
  fixes am :: "u32 \<Rightarrow> 'e \<Rightarrow> (u32 \<times> 'e) option" and inv :: "'e \<Rightarrow> bool" and owned :: "'e \<Rightarrow> nat set"
  assumes gives: "inv e \<Longrightarrow> 0 < unat sz \<Longrightarrow> unat sz mod 4096 = 0 \<Longrightarrow>
    \<exists>a e'. am sz e = Some (a, e') \<and> inv e' \<and>
      (a = 0 \<and> owned e' = owned e \<or>
       a \<noteq> 0 \<and> unat a + unat sz \<le> 4294967296 \<and> {unat a..<unat a + unat sz} \<inter> owned e = {} \<and>
       owned e' = owned e \<union> {unat a..<unat a + unat sz})"

context page_source begin

text \<open>
  A sound heap: its pointers form a list of disjoint chunks that lie in memory it was given since
  the state \<open>e0\<close>, hence outside all that was in use then.
\<close>

definition sound :: "'e \<Rightarrow> 'e heap \<Rightarrow> block list \<Rightarrow> bool" where
  "sound e0 h bs \<longleftrightarrow> heap_ok h bs \<and> inv (pages h) \<and> owned e0 \<subseteq> owned (pages h) \<and>
     cover bs \<subseteq> owned (pages h) - owned e0"

lemma grows:
  assumes s: "sound e0 h bs" and n: "unat n + 4111 < 4294967296"
  shows "grants am n (pages h) bs" "inv (snd (the (am (page_round n) (pages h))))"
    "owned e0 \<subseteq> owned (snd (the (am (page_round n) (pages h))))"
    "cover (grown am n (pages h) bs) \<subseteq> owned (snd (the (am (page_round n) (pages h)))) - owned e0"
    "live (grown am n (pages h) bs) = live bs"
proof -
  note pr = page_round_enough [OF n]
  have iv: "inv (pages h)" and ap: "apart bs" and cv: "cover bs \<subseteq> owned (pages h) - owned e0" "owned e0 \<subseteq> owned (pages h)"
    using s by (auto simp: sound_def heap_ok_def heap_is_def)
  have "0 < unat (page_round n)" using pr(3) by linarith
  from gives [OF iv this pr(2)] obtain a e' where am: "am (page_round n) (pages h) = Some (a, e')" "inv e'"
    "a = 0 \<and> owned e' = owned (pages h) \<or>
       a \<noteq> 0 \<and> unat a + unat (page_round n) \<le> 4294967296 \<and> {unat a..<unat a + unat (page_round n)} \<inter> owned (pages h) = {} \<and>
       owned e' = owned (pages h) \<union> {unat a..<unat a + unat (page_round n)}" by blast
  have sz: "unat (page_round n - HEADER) = unat (page_round n) - 16"
    using pr(3) by (subst unat_sub_le) (simp_all add: u32_le_iff)
  have ex: "extent (a, page_round n - HEADER, False) = {unat a..<unat a + unat (page_round n)}"
    using pr(3) by (simp add: sz)
  have gr: "a \<noteq> 0 \<Longrightarrow> apart (bs @ [(a, page_round n - HEADER, False)])"
  proof -
    assume "a \<noteq> 0"
    then have a: "unat a + unat (page_round n) \<le> 4294967296" "{unat a..<unat a + unat (page_round n)} \<inter> owned (pages h) = {}"
      using am(3) by auto
    have "extent x \<inter> {unat a..<unat a + unat (page_round n)} = {}" if "x \<in> set bs" for x
    proof -
      have "extent x \<subseteq> owned (pages h)" using that cv(1) by (auto simp: cover_def)
      then show ?thesis using a(2) by blast
    qed
    then show ?thesis using ap a(1) \<open>a \<noteq> 0\<close> pr(3) ex by (simp add: apart_append sz)
  qed
  then show "grants am n (pages h) bs" by (cases "a = 0") (simp_all add: grants_def am(1))
  show "inv (snd (the (am (page_round n) (pages h))))" by (simp add: am)
  show "owned e0 \<subseteq> owned (snd (the (am (page_round n) (pages h))))" using am(3) cv(2) by (auto simp: am(1))
  show "cover (grown am n (pages h) bs) \<subseteq> owned (snd (the (am (page_round n) (pages h)))) - owned e0"
    using am(3) cv by (auto simp: grown_def am(1) ex simp del: extent.simps)
  show "live (grown am n (pages h) bs) = live bs" by (simp add: grown_def am(1))
qed

text \<open>What an allocation and a release give the client, in terms of the live blocks.\<close>

lemma takes_live:
  assumes "takes n a bs bs'"
  shows "\<exists>xs t ys. live bs = xs @ ys \<and> live bs' = xs @ (a, t, True) # ys \<and> n \<le> t"
proof -
  obtain xs s ys where b: "bs = xs @ (a, s, False) # ys" "n \<le> s" "bs' = xs @ (a, cut s n, True) # left_over a s n @ ys"
    using assms by (auto simp: takes_def)
  then show ?thesis
    by (intro exI [of _ "live xs"] exI [of _ "cut s n"] exI [of _ "live ys"]) (simp add: cut_enough)
qed

lemma alloc_sound:
  assumes s: "sound e0 h bs" and n: "unat n + 4111 < 4294967296"
  shows "\<exists>p h' bs'. alloc am n False h = Some (p, h') \<and> sound e0 h' bs' \<and>
    (p = 0 \<and> live bs' = live bs \<or>
     (\<exists>xs t ys. live bs = xs @ ys \<and> live bs' = xs @ (p - HEADER, t, True) # ys \<and> n \<le> t))"
proof (cases "n = 0")
  case True
  then show ?thesis using s by (simp add: alloc_def) blast
next
  case False
  note g = grows [OF s n]
  have ok: "heap_ok h bs" using s by (simp add: sound_def)
  note r = alloc_rep [OF ok False g(1)]
  consider "\<exists>b \<in> set bs. fits n b" | "\<forall>b \<in> set bs. \<not> fits n b" "\<exists>b \<in> set (grown am n (pages h) bs). fits n b"
    | "\<forall>b \<in> set bs. \<not> fits n b" "\<forall>b \<in> set (grown am n (pages h) bs). \<not> fits n b" by blast
  then show ?thesis
  proof cases
    case 1
    from r(1) [OF 1] obtain a h' bs' where a: "alloc am n False h = Some (a + HEADER, h')" "heap_ok h' bs'"
      "takes n a bs bs'" "pages h' = pages h" "cover bs' = cover bs" by blast
    then have "sound e0 h' bs'" using s by (simp add: sound_def)
    then show ?thesis using a(1) takes_live [OF a(3)]
      by (intro exI [of _ "a + HEADER"] exI [of _ h'] exI [of _ bs']) simp
  next
    case 2
    from r(2) [OF 2] obtain a h' bs' where a: "alloc am n False h = Some (a + HEADER, h')" "heap_ok h' bs'"
      "takes n a (grown am n (pages h) bs) bs'" "pages h' = snd (the (am (page_round n) (pages h)))"
      "cover bs' = cover (grown am n (pages h) bs)" by blast
    then have "sound e0 h' bs'" using g by (simp add: sound_def)
    then show ?thesis using a(1) takes_live [OF a(3)] g(5)
      by (intro exI [of _ "a + HEADER"] exI [of _ h'] exI [of _ bs']) simp
  next
    case 3
    from r(3) [OF 3] obtain h' where "alloc am n False h = Some (0, h')" "heap_ok h' (grown am n (pages h) bs)"
      "pages h' = snd (the (am (page_round n) (pages h)))" by blast
    then show ?thesis using g by (intro exI [of _ 0] exI [of _ h'] exI [of _ "grown am n (pages h) bs"]) (simp add: sound_def)
  qed
qed

lemma free_sound:
  assumes s: "sound e0 h bs" and b: "(p - HEADER, t, True) \<in> set bs" and p: "p \<noteq> 0"
  shows "\<exists>h' bs'. free p h = Some h' \<and> sound e0 h' bs' \<and> tidy bs' \<and>
    live bs' = remove1 (p - HEADER, t, True) (live bs)"
proof -
  obtain xs ys where bs: "bs = xs @ (p - HEADER, t, True) # ys" using b by (meson split_list)
  have ok: "heap_ok h (xs @ (p - HEADER, t, True) # ys)" using s by (simp add: sound_def bs)
  from free_rep [OF ok p] obtain h' bs' where r: "free p h = Some h'" "heap_ok h' bs'" "live bs' = live xs @ live ys" "tidy bs'"
    "cover bs' = cover bs" "pages h' = pages h" unfolding bs by blast
  have "apart bs" using s by (simp add: sound_def heap_ok_def heap_is_def)
  then have "(p - HEADER, t, True) \<notin> set xs" using apart_addr(1) [of xs "(p - HEADER, t, True)" ys] by (force simp: bs)
  then have "(p - HEADER, t, True) \<notin> set (live xs)" by (simp add: live_def)
  then have "remove1 (p - HEADER, t, True) (live bs) = live bs'" by (simp add: bs r(3) remove1_append)
  moreover have "sound e0 h' bs'" using r s by (simp add: sound_def)
  ultimately show ?thesis using r by metis
qed

text \<open>Any sequence of requests.\<close>

definition held_in :: "block list \<Rightarrow> (u32 \<times> u32) list \<Rightarrow> bool" where
  "held_in bs held \<longleftrightarrow> distinct (map fst held) \<and>
     (\<forall>(p, n) \<in> set held. p \<noteq> 0 \<and> (\<exists>t. (p - HEADER, t, True) \<in> set (live bs) \<and> n \<le> t))"

lemma held_acquire:
  assumes h: "held_in bs held" and s': "sound e0 h' bs'"
    and l: "live bs = xs @ ys" "live bs' = xs @ (p - HEADER, t, True) # ys" and n: "n \<le> t" and p: "p \<noteq> 0"
  shows "held_in bs' ((p, n) # held)"
proof -
  have "apart bs'" using s' by (simp add: sound_def heap_ok_def heap_is_def)
  then have "distinct (map fst bs')" by (rule apart_distinct)
  then have "distinct (map fst (live bs'))" unfolding live_def by (rule distinct_map_filter)
  then have fresh: "p - HEADER \<notin> fst ` set (live bs)" by (auto simp: l)
  have "p \<notin> fst ` set held"
  proof
    assume "p \<in> fst ` set held"
    then obtain m u where "(p, m) \<in> set held" "(p - HEADER, u, True) \<in> set (live bs)" using h by (force simp: held_in_def)
    then show False using fresh by force
  qed
  then show ?thesis using h n p by (auto simp: held_in_def l)
qed

lemma held_release:
  assumes h: "held_in bs held" and s: "sound e0 h bs" and i: "i < length held"
    and m: "(fst (held ! i) - HEADER, t, True) \<in> set (live bs)"
    and l: "live bs' = remove1 (fst (held ! i) - HEADER, t, True) (live bs)"
  shows "held_in bs' (take i held @ drop (Suc i) held)"
proof -
  obtain p k where pk: "held ! i = (p, k)" by (cases "held ! i")
  have sp: "held = take i held @ (p, k) # drop (Suc i) held" using id_take_nth_drop [OF i] by (simp add: pk)
  have d: "distinct (map fst (take i held @ (p, k) # drop (Suc i) held))" using h sp by (simp add: held_in_def)
  have "\<exists>u. (q - HEADER, u, True) \<in> set (live bs') \<and> n \<le> u"
    if q: "(q, n) \<in> set (take i held @ drop (Suc i) held)" for q n
  proof -
    have "(q, n) \<in> set held" using q sp by (metis Un_iff insert_iff list.simps(15) set_append)
    then obtain u where u: "(q - HEADER, u, True) \<in> set (live bs)" "n \<le> u" using h by (force simp: held_in_def)
    have "q \<noteq> p" using d q by force
    then have "(q - HEADER, u, True) \<noteq> (p - HEADER, t, True)" by simp
    then have "(q - HEADER, u, True) \<in> set (live bs')" using u(1) by (simp add: l pk in_set_remove1)
    then show ?thesis using u(2) by blast
  qed
  moreover have "q \<noteq> 0" if "(q, n) \<in> set (take i held @ drop (Suc i) held)" for q n
    using h that by (auto simp: held_in_def dest!: in_set_takeD in_set_dropD)
  ultimately show ?thesis using d by (auto simp: held_in_def)
qed

lemma serve_sound:
  "sound e0 h bs \<Longrightarrow> held_in bs held \<Longrightarrow> list_all small_request rs \<Longrightarrow>
   \<exists>h' held' bs'. serve am rs (h, held) = Some (h', held') \<and> sound e0 h' bs' \<and> held_in bs' held'"
proof (induction rs arbitrary: h bs held)
  case Nil
  then show ?case by auto
next
  case (Cons r rs)
  show ?case
  proof (cases r)
    case (Acquire n)
    then have "unat n + 4111 < 4294967296" using Cons.prems(3) by (simp add: small_request_def)
    from alloc_sound [OF Cons.prems(1) this] obtain p h1 bs1 where a: "alloc am n False h = Some (p, h1)" "sound e0 h1 bs1"
      "p = 0 \<and> live bs1 = live bs \<or> (\<exists>xs t ys. live bs = xs @ ys \<and> live bs1 = xs @ (p - HEADER, t, True) # ys \<and> n \<le> t)"
      by blast
    have "held_in bs1 (if p = 0 then held else (p, n) # held)"
    proof (cases "p = 0")
      case True
      have "set (live bs) \<subseteq> set (live bs1)" using a(3) by auto
      then show ?thesis using Cons.prems(2) True by (fastforce simp: held_in_def)
    next
      case False
      then show ?thesis using a(3) held_acquire [OF Cons.prems(2) a(2)] by auto
    qed
    from Cons.IH [OF a(2) this] Cons.prems(3) show ?thesis using a(1) by (simp add: Acquire)
  next
    case (Release i)
    show ?thesis
    proof (cases "i < length held")
      case True
      obtain p k where pk: "held ! i = (p, k)" by (cases "held ! i")
      have "(p, k) \<in> set held" using True pk nth_mem by metis
      then obtain t where t: "(p - HEADER, t, True) \<in> set (live bs)" "p \<noteq> 0" using Cons.prems(2) by (force simp: held_in_def)
      then have "(p - HEADER, t, True) \<in> set bs" by (simp add: live_def)
      from free_sound [OF Cons.prems(1) this t(2)] obtain h1 bs1 where f: "free p h = Some h1" "sound e0 h1 bs1"
        "live bs1 = remove1 (p - HEADER, t, True) (live bs)" by blast
      have "held_in bs1 (take i held @ drop (Suc i) held)"
        using held_release [OF Cons.prems(2,1) True] t f(3) by (simp add: pk)
      from Cons.IH [OF f(2) this] Cons.prems(3) show ?thesis using f(1) True by (simp add: Release pk)
    next
      case False
      then show ?thesis using Cons.IH [OF Cons.prems(1,2)] Cons.prems(3) by (simp add: Release)
    qed
  qed
qed

text \<open>A block held lies in the chunk before it, so two of them never overlap.\<close>

lemma held_inside:
  assumes s: "sound e0 h bs" and h: "held_in bs held" and rk: "(r, k) \<in> set held"
  shows "\<exists>b \<in> set bs. fst b = r - HEADER \<and> block_bytes (r, k) \<subseteq> extent b"
proof -
  have ap: "apart bs" using s by (simp add: sound_def heap_ok_def heap_is_def)
  obtain t where t: "(r - HEADER, t, True) \<in> set bs" "k \<le> t" "r \<noteq> 0" using h rk by (force simp: held_in_def live_def)
  let ?a = "r - HEADER"
  have ok: "unat ?a + 16 + unat t \<le> 4294967296" using apart_ok [OF ap t(1)] by simp
  have "unat ?a + 16 \<noteq> 4294967296"
  proof
    assume "unat ?a + 16 = 4294967296"
    then have "(of_nat (unat ?a + 16) :: u32) = of_nat 4294967296" by simp
    then have "?a + 16 = 0" by simp
    then show False using t(3) by simp
  qed
  then have "unat (?a + 16) = unat ?a + 16" using ok by (subst unat_add_small) simp_all
  then have "unat r = unat ?a + 16" by simp
  then have "block_bytes (r, k) \<subseteq> extent (?a, t, True)" using t(2) by (auto simp: u32_le_iff)
  then show ?thesis using t(1) by force
qed

lemma held_disjoint:
  assumes s: "sound e0 h bs" and h: "held_in bs held" and ij: "i < j" "j < length held"
  shows "block_bytes (held ! i) \<inter> block_bytes (held ! j) = {}"
proof -
  have ap: "apart bs" using s by (simp add: sound_def heap_ok_def heap_is_def)
  obtain p n q m where pq: "held ! i = (p, n)" "held ! j = (q, m)" by (cases "held ! i"; cases "held ! j") auto
  have mem: "(p, n) \<in> set held" "(q, m) \<in> set held" using ij pq nth_mem by (metis less_trans)+
  obtain b c where bc: "b \<in> set bs" "fst b = p - HEADER" "block_bytes (p, n) \<subseteq> extent b"
    "c \<in> set bs" "fst c = q - HEADER" "block_bytes (q, m) \<subseteq> extent c"
    using held_inside [OF s h mem(1)] held_inside [OF s h mem(2)] by blast
  have "p \<noteq> q" using h ij pq nth_eq_iff_index_eq [of "map fst held" i j] by (auto simp: held_in_def)
  then have "b \<noteq> c" using bc(2,5) by auto
  then have "extent b \<inter> extent c = {}" using apart_pair [OF ap bc(1,4)] by blast
  then have "block_bytes (p, n) \<inter> block_bytes (q, m) = {}" using bc(3,6) by blast
  then show ?thesis by (simp only: pq)
qed

lemma empty_sound: "inv e \<Longrightarrow> sound e (empty_heap e) []"
  by (simp add: sound_def heap_ok_def heap_is_def empty_heap_def)

lemma clients_safe:
  assumes "inv e" and "list_all small_request rs"
  shows "\<exists>h held bs. serve am rs (empty_heap e, []) = Some (h, held) \<and> heap_ok h bs \<and>
    (\<forall>x \<in> set held. block_bytes x \<subseteq> owned (pages h) - owned e) \<and>
    (\<forall>i j. i < j \<longrightarrow> j < length held \<longrightarrow> block_bytes (held ! i) \<inter> block_bytes (held ! j) = {})"
proof -
  have "held_in [] []" by (simp add: held_in_def)
  from serve_sound [OF empty_sound [OF assms(1)] this assms(2)] obtain h held bs where
    r: "serve am rs (empty_heap e, []) = Some (h, held)" "sound e h bs" "held_in bs held" by blast
  have "block_bytes x \<subseteq> cover bs" if "x \<in> set held" for x
    using held_inside [OF r(2,3), of "fst x" "snd x"] that by (auto simp: cover_def)
  then have "\<forall>x \<in> set held. block_bytes x \<subseteq> owned (pages h) - owned e" using r(2) by (force simp: sound_def)
  then show ?thesis using held_disjoint [OF r(2,3)] r(1,2) by (auto simp: sound_def)
qed

end

section \<open>The kernel's pages\<close>

text \<open>The state the kernel runs in: a well-formed frame allocator, and a directory with all tables.\<close>

definition kernel_inv :: "paging \<Rightarrow> bool" where
  "kernel_inv e \<longleftrightarrow> mem_ok (phys e) \<and> currentPageDirectory e \<noteq> 0 \<and> tables_ready (currentPageDirectory e) e"

definition kernel_owned :: "paging \<Rightarrow> nat set" where
  "kernel_owned e = {x. x div 4096 \<in> used (phys e)}"

lemma frames_bytes:
  assumes "a mod 4096 = 0"
  shows "x div 4096 \<in> {a div 4096..<a div 4096 + n} \<longleftrightarrow> x \<in> {a..<a + 4096 * (n :: nat)}"
proof -
  obtain q where q: "a = 4096 * q" using assms by (auto simp: mod_eq_0_iff_dvd)
  have "x div 4096 < q + n \<longleftrightarrow> x < 4096 * q + 4096 * n" by (simp add: div_less_iff_less_mult algebra_simps)
  moreover have "q \<le> x div 4096 \<longleftrightarrow> 4096 * q \<le> x" by (simp add: less_eq_div_iff_mult_less_eq algebra_simps)
  ultimately show ?thesis by (simp add: q)
qed

interpretation kh: page_source "allocateMemory (Suc k)" kernel_inv kernel_owned for k
proof unfold_locales
  fix e :: paging and sz :: u32
  assume inv: "kernel_inv e" and pos: "0 < unat sz" and al: "unat sz mod 4096 = 0"
  let ?c = "currentPageDirectory e" and ?n = "drop_bit 12 sz"
  have sz: "unat sz = 4096 * unat ?n" using al by (simp only: unat_drop12_div) (simp add: mod_eq_0_iff_dvd)
  have n: "0 < unat ?n" using pos unfolding sz by simp
  have m: "mem_ok (phys e)" and r: "tables_ready ?c e" and c: "?c \<noteq> 0" using inv by (simp_all add: kernel_inv_def)
  obtain d where d: "dirs e ?c = Some d" using r by (auto simp: tables_ready_def)
  have am: "allocateMemory (Suc k) sz e = allocatePages (Suc k) ?c ?n e"
    using c by (simp add: allocateMemory_def PagingManager_allocatePages_def)
  from allocatePages_rep [OF m r d n, of k]
  show "\<exists>a e'. allocateMemory (Suc k) sz e = Some (a, e') \<and> kernel_inv e' \<and>
      (a = 0 \<and> kernel_owned e' = kernel_owned e \<or>
       a \<noteq> 0 \<and> unat a + unat sz \<le> 4294967296 \<and> {unat a..<unat a + unat sz} \<inter> kernel_owned e = {} \<and>
       kernel_owned e' = kernel_owned e \<union> {unat a..<unat a + unat sz})"
  proof (elim disjE exE conjE)
    assume "allocatePages (Suc k) ?c ?n e = Some (0, e)"
    then show ?thesis using inv am by simp
  next
    fix a e' d'
    assume a: "allocatePages (Suc k) ?c ?n e = Some (a, e')" "a \<noteq> 0" "unat a mod 4096 = 0" "mem_ok (phys e')"
      "tables_ready ?c e'" "free_run (phys e) (unat a div 4096) (unat ?n)"
      "used (phys e') = used (phys e) \<union> {unat a div 4096..<unat a div 4096 + unat ?n}"
      "currentPageDirectory e' = ?c"
    note fb = frames_bytes [OF a(3), of _ "unat ?n", folded sz]
    have "unat a div 4096 + unat ?n \<le> 1048576" using a(6) m by (auto simp: free_run_def mem_ok_def)
    then have fit: "unat a + unat sz \<le> 4294967296" using div_mult_mod_eq [of "unat a" 4096] a(3) sz by linarith
    have "unat a div 4096 + i \<notin> used (phys e)" if "i < unat ?n" for i using a(6) that by (simp add: free_run_def)
    then have "x div 4096 \<notin> used (phys e)" if "x \<in> {unat a..<unat a + unat sz}" for x
      using that unfolding fb [symmetric] by (auto dest!: spec [of _ "x div 4096 - unat a div 4096"] simp: le_iff_add)
    then have "{unat a..<unat a + unat sz} \<inter> kernel_owned e = {}" by (auto simp: kernel_owned_def)
    moreover have "kernel_owned e' = kernel_owned e \<union> {unat a..<unat a + unat sz}"
      unfolding kernel_owned_def a(7) using fb by blast
    moreover have "kernel_inv e'" using a c by (simp add: kernel_inv_def)
    ultimately show ?thesis using a(1,2) fit am by auto
  qed
qed

end
