(* ===== verification/Mem_Laws.thy ===== *)
theory Mem_Laws
  imports Kernel_Heap
begin

text \<open>
  The properties of memory management, from the frame bitmap over the page tables to the kernel
  heap, each with its application to a small machine of 256 KiB.
\<close>

section \<open>A small machine\<close>

text \<open>64 frames, the first six reserved; a directory whose first table is the frame \<open>0x5000\<close>.\<close>

definition ex_boot :: phys_mem where
  "ex_boot = \<lparr>placement_address = 0x5000, frameBits = [], framesCount = 0, freeFramesCount = 0, allocatedFrames = 0\<rparr>"

definition ex_mem :: phys_mem where
  "ex_mem = the (initialize 0 262144 ex_boot)"

definition ex_page_dir :: paging_dir where
  "ex_page_dir = \<lparr>pageTables = 0x5000 # replicate 1023 0,
     pageDirectory = \<lparr>present = True, rw = True, user = False, other_bits = 0, frame_no = 5\<rparr> # replicate 1023 zero_entry,
     pagesCount = 0\<rparr>"

definition ex_paging :: paging where
  "ex_paging = \<lparr>phys = ex_mem, entry_at = (\<lambda>_ _. zero_entry), dirs = [0x100000 \<mapsto> ex_page_dir],
     currentPageDirectory = 0x100000, paging_enabled = False, cr3 = 0x101000\<rparr>"

lemma ex_reserved: "reserved_end 0 262144 ex_boot = 0x5002"
  by (simp add: reserved_end_def ex_boot_def drop_bit_eq_div)

lemma ex_mem: "initialize 0 262144 ex_boot = Some ex_mem" "mem_ok ex_mem" "used ex_mem = {..5}" "length (frameBits ex_mem) = 2"
proof -
  have f: "allocatedFrames ex_boot = 0" by (simp add: ex_boot_def)
  obtain s where s: "initialize 0 262144 ex_boot = Some s" "mem_ok s" "used s = {..5}" "unat (framesCount s) = 64"
    using initialize_spec [of 262144 ex_boot 0] f by (auto simp: ex_reserved)
  then show "initialize 0 262144 ex_boot = Some ex_mem" "mem_ok ex_mem" "used ex_mem = {..5}"
    "length (frameBits ex_mem) = 2" by (auto simp: ex_mem_def mem_ok_def)
qed

lemma ex_page_dir_ok: "dir_ok ex_page_dir"
  by (auto simp: dir_ok_def ex_page_dir_def nth_Cons' zero_entry_def entry_address_def push_bit_eq_mult)

lemma ex_paging_fields [simp]: "phys ex_paging = ex_mem" "dirs ex_paging 0x100000 = Some ex_page_dir"
  "currentPageDirectory ex_paging = 0x100000" "visible ex_paging x"
  by (simp_all add: ex_paging_def visible_def)

lemma ex_has_table: "unat va < 4194304 \<Longrightarrow> has_table ex_page_dir va" "unat va < 4194304 \<Longrightarrow> table_of ex_page_dir va = 0x5000"
proof -
  assume "unat va < 4194304"
  then have "unat (table_index va) = 0"
    using unat_drop_bit_eq [of 22 va] unfolding table_index_def drop_bit_eq_div [of 22 "unat va"] by simp
  then show "has_table ex_page_dir va" "table_of ex_page_dir va = 0x5000"
    by (simp_all add: has_table_def table_of_def ex_page_dir_def)
qed

lemma ex_tables_ready: "tables_ready 0x100000 ex_paging"
  using ex_page_dir_ok by (auto simp: tables_ready_def ex_mem(4) ex_page_dir_def nth_Cons')

lemma ex_kernel: "kernel_inv ex_paging"
  using ex_mem(2) ex_tables_ready by (simp add: kernel_inv_def)

lemma ex_free: "free_run ex_mem 6 n" if "n \<le> 58" for n
  using that by (auto simp: free_run_def ex_mem)

section \<open>Frames\<close>

text \<open>Initialising the frame allocator establishes its invariant: the counters are those of the
  bitmap, one bit per frame of the machine, and exactly the frames up to the end of the kernel
  (with its bitmap and the safety space) are in use.\<close>

theorem initialize_establishes:
  assumes "unat memorySize mod 131072 = 0" and "allocatedFrames s = 0"
    and "unat (reserved_end safeSpace memorySize s) < unat memorySize"
  shows "\<exists>s'. initialize safeSpace memorySize s = Some s' \<and> mem_ok s' \<and>
    used s' = {..unat (reserved_end safeSpace memorySize s) div 4096} \<and>
    unat (framesCount s') = unat memorySize div 4096"
  using initialize_spec [OF assms] .

theorem initialize_establishes_witness:
  "\<exists>s'. initialize 0 262144 ex_boot = Some s' \<and> mem_ok s' \<and> used s' = {..5}"
proof -
  have "allocatedFrames ex_boot = 0" by (simp add: ex_boot_def)
  then show ?thesis using initialize_establishes [of 262144 ex_boot 0] by (auto simp: ex_reserved)
qed

text \<open>Allocating a frame never fails while one is free: the lowest free frame is returned as its
  page-aligned address and marked, and the counters keep matching the bitmap; only with every
  frame in use the answer is null, and then nothing changes.\<close>

theorem allocateFrame_lowest:
  assumes "mem_ok s"
  shows "(used s = {..<32 * length (frameBits s)} \<and> allocateFrame s = Some (0, s)) \<or>
    (\<exists>a s'. allocateFrame s = Some (a, s') \<and> a \<noteq> 0 \<and> mem_ok s' \<and> unat a mod 4096 = 0 \<and>
       \<not> frame_used s a \<and> (\<forall>n < unat (drop_bit 12 a). n \<in> used s) \<and>
       used s' = insert (unat (drop_bit 12 a)) (used s))"
  using allocateFrame_spec [OF assms] .

theorem allocateFrame_lowest_witness:
  "\<exists>s'. allocateFrame ex_mem = Some (0x6000, s') \<and> mem_ok s'"
proof -
  have "63 \<notin> used ex_mem" "63 \<in> {..<32 * length (frameBits ex_mem)}" by (simp_all add: ex_mem(3,4))
  then have nf: "used ex_mem \<noteq> {..<32 * length (frameBits ex_mem)}" by blast
  from allocateFrame_lowest [OF ex_mem(2)] nf obtain a s' where
    a: "allocateFrame ex_mem = Some (a, s')" "mem_ok s'" "unat a mod 4096 = 0" "\<not> frame_used ex_mem a"
    "\<forall>n < unat (drop_bit 12 a). n \<in> used ex_mem" by (elim disjE exE conjE) simp_all
  have "5 < unat (drop_bit 12 a)" using a(4) by (simp only: frame_used_def ex_mem(3) atMost_iff not_le)
  moreover have "\<not> 6 < unat (drop_bit 12 a)" using a(5) unfolding ex_mem(3) by auto
  ultimately have "unat a div 4096 = 6" unfolding unat_drop12_div by linarith
  then have "unat a = 24576" using a(3) div_mult_mod_eq [of "unat a" 4096] by linarith
  then have "of_nat (unat a) = (of_nat 24576 :: u32)" by (rule arg_cong)
  then have "a = 0x6000" by simp
  then show ?thesis using a by blast
qed

text \<open>Allocating a run of frames takes the first run of free frames that is long enough (null
  exactly when there is none), and giving the run back restores the set of frames in use.\<close>

theorem allocateFrames_freeFrames:
  assumes "mem_ok s" and "0 < unat n"
  shows "((\<forall>g. \<not> free_run s g (unat n)) \<and> allocateFrames n s = Some (0, s)) \<or>
    (\<exists>a s' s''. allocateFrames n s = Some (a, s') \<and> a \<noteq> 0 \<and> mem_ok s' \<and>
       free_run s (unat (drop_bit 12 a)) (unat n) \<and> (\<forall>g < unat (drop_bit 12 a). \<not> free_run s g (unat n)) \<and>
       used s' = used s \<union> {unat (drop_bit 12 a)..<unat (drop_bit 12 a) + unat n} \<and>
       freeFrames a n s' = Some s'' \<and> mem_ok s'' \<and> used s'' = used s)"
proof (rule disjE [OF allocateFrames_spec [OF assms]])
  assume "\<exists>a s'. allocateFrames n s = Some (a, s') \<and> a \<noteq> 0 \<and> mem_ok s' \<and>
       free_run s (unat (drop_bit 12 a)) (unat n) \<and> (\<forall>g < unat (drop_bit 12 a). \<not> free_run s g (unat n)) \<and>
       used s' = used s \<union> {unat (drop_bit 12 a)..<unat (drop_bit 12 a) + unat n}"
  then obtain a s' where a: "allocateFrames n s = Some (a, s')" "a \<noteq> 0" "mem_ok s'"
    "free_run s (unat (drop_bit 12 a)) (unat n)" "\<forall>g < unat (drop_bit 12 a). \<not> free_run s g (unat n)"
    "used s' = used s \<union> {unat (drop_bit 12 a)..<unat (drop_bit 12 a) + unat n}" by blast
  let ?f = "unat (drop_bit 12 a)"
  have out: "?f + i \<notin> used s" if "i < unat n" for i using a(4) that by (simp add: free_run_def)
  have dj: "used s \<inter> {?f..<?f + unat n} = {}"
  proof (rule equals0I)
    fix x assume x: "x \<in> used s \<inter> {?f..<?f + unat n}"
    then have "?f + (x - ?f) = x" "x - ?f < unat n" by auto
    then show False using out [of "x - ?f"] x by simp
  qed
  have "0 \<in> used s" using assms(1) by (simp add: mem_ok_def)
  then have "?f \<noteq> 0" using out [of 0] assms(2) by (metis add_0_right)
  from freeFrames_spec [OF a(3) this] a(6) obtain s'' where "freeFrames a n s' = Some s''" "mem_ok s''"
    "used s'' = used s' - {?f..<?f + unat n}" by blast
  moreover have "used s' - {?f..<?f + unat n} = used s" using dj a(6) by blast
  ultimately show ?thesis using a by metis
qed simp

theorem allocateFrames_freeFrames_witness:
  "\<exists>a s' s''. allocateFrames 10 ex_mem = Some (a, s') \<and> unat (drop_bit 12 a) = 6 \<and> freeFrames a 10 s' = Some s'' \<and>
     used s'' = {..5}"
proof -
  have n: "0 < unat (10 :: u32)" by simp
  have run: "free_run ex_mem 6 (unat (10 :: u32))" using ex_free [of 10] by simp
  from allocateFrames_freeFrames [OF ex_mem(2) n] run obtain a s' s'' where
    a: "allocateFrames 10 ex_mem = Some (a, s')" "free_run ex_mem (unat (drop_bit 12 a)) (unat (10 :: u32))"
    "\<forall>g < unat (drop_bit 12 a). \<not> free_run ex_mem g (unat (10 :: u32))"
    "freeFrames a 10 s' = Some s''" "used s'' = used ex_mem" by blast
  have "\<not> 6 < unat (drop_bit 12 a)" using a(3) run by blast
  moreover have "unat (drop_bit 12 a) + 0 \<notin> used ex_mem" using a(2) unfolding free_run_def by (auto dest: spec [of _ 0])
  ultimately have "unat (drop_bit 12 a) = 6" unfolding ex_mem(3) by simp
  then show ?thesis using a(1,4,5) ex_mem(3) by auto
qed

text \<open>C8: Whatever sequence of allocations and releases runs, the frames handed out and not yet given
  back are pairwise distinct, none of them was in use at the start, and each can be given back.\<close>

theorem frames_never_twice:
  assumes "uses allocateFrame freeFrame s0 [] s held" and "mem_ok s0"
  shows "distinct (map (\<lambda>a. unat (drop_bit 12 a)) held) \<and>
    (\<lambda>a. unat (drop_bit 12 a)) ` set held \<inter> used s0 = {} \<and>
    (\<forall>a \<in> set held. \<exists>s'. freeFrame a s = Some s')"
  using pm.never_twice [OF assms] pm.free_never_stuck [OF assms] by blast

theorem frames_never_twice_witness:
  "\<exists>s a b. uses allocateFrame freeFrame ex_mem [] s [b, a] \<and>
     unat (drop_bit 12 a) \<noteq> unat (drop_bit 12 b)"
proof -
  have grab: "\<exists>a s'. allocateFrame s = Some (a, s') \<and> a \<noteq> 0 \<and> mem_ok s' \<and> length (frameBits s') = 2 \<and> 63 \<notin> used s'"
    if s: "mem_ok s" "length (frameBits s) = 2" "used s = {..5} \<or> used s = {..6}" for s
  proof -
    have "63 \<notin> used s" "(63 :: nat) \<in> {..<32 * length (frameBits s)}" using s(2,3) by auto
    then have "used s \<noteq> {..<32 * length (frameBits s)}" by blast
    then obtain a s' where a: "allocateFrame s = Some (a, s')" "a \<noteq> 0" "mem_ok s'"
      "\<forall>n < unat (drop_bit 12 a). n \<in> used s" "used s' = insert (unat (drop_bit 12 a)) (used s)"
      using allocateFrame_spec [OF s(1)] by blast
    have "\<not> 63 \<le> unat (drop_bit 12 a)"
    proof
      assume "63 \<le> unat (drop_bit 12 a)"
      then have "(62 :: nat) \<in> used s" using a(4) by simp
      then show False using s(3) by auto
    qed
    then have "63 \<notin> used s'" using a(5) \<open>63 \<notin> used s\<close> by auto
    then show ?thesis using a allocateFrame_length [OF a(1)] s(2) by simp
  qed
  obtain a s1 where a: "allocateFrame ex_mem = Some (a, s1)" "a \<noteq> 0" "mem_ok s1" "length (frameBits s1) = 2" "63 \<notin> used s1"
    using grab [OF ex_mem(2,4)] ex_mem(3) by blast
  have "(63 :: nat) \<in> {..<32 * length (frameBits s1)}" using a(4) by simp
  then have "used s1 \<noteq> {..<32 * length (frameBits s1)}" using a(5) by blast
  then obtain b s2 where b: "allocateFrame s1 = Some (b, s2)" "b \<noteq> 0" using allocateFrame_spec [OF a(3)] by blast
  have "uses allocateFrame freeFrame ex_mem [] s1 [a]" by (rule uses_alloc [where alloc = allocateFrame, OF _ a(1,2)]) (rule uses_start)
  then have "uses allocateFrame freeFrame ex_mem [] s2 [b, a]" by (rule uses_alloc [where alloc = allocateFrame, OF _ b])
  then show ?thesis using frames_never_twice [OF _ ex_mem(2)] by fastforce
qed

section \<open>Pages\<close>

text \<open>C9: Mapping a range of pages whose tables are there succeeds, and translating an address then
  gives the new frame with the offset kept for every page of the range, and the old answer for
  every other address; the frame allocator and the other directories are untouched.\<close>

theorem mapPages_translates:
  assumes "ready this s va (unat n)" and "dirs s this = Some d"
    and "\<forall>i < unat n. page_up pa i \<noteq> 0 \<and> page_up va i \<noteq> 0"
    and "unat va + 4096 * unat n \<le> 4294967296" and "bit flags 0"
  shows "\<exists>s' d'. mapPages (Suc k) this pa va n flags s = Some s' \<and> dirs s' this = Some d' \<and> dir_ok d' \<and>
    (\<forall>i < unat n. \<forall>x. x \<noteq> 0 \<longrightarrow> drop_bit 12 x = drop_bit 12 (page_up va i) \<longrightarrow>
       getPhysicalAddress d' x s' = Some (page_up pa i AND NOT 0xFFF OR (x AND 0xFFF))) \<and>
    (\<forall>x. x \<noteq> 0 \<longrightarrow> (\<forall>i < unat n. drop_bit 12 x \<noteq> drop_bit 12 (page_up va i)) \<longrightarrow>
       getPhysicalAddress d' x s' = getPhysicalAddress d x s) \<and>
    pagesCount d' = pagesCount d + n \<and> phys s' = phys s \<and> (\<forall>a. a \<noteq> this \<longrightarrow> dirs s' a = dirs s a)"
proof -
  obtain s' d' where m: "mapPages (Suc k) this pa va n flags s = Some s'" "dirs s' this = Some d'" "dir_ok d'"
    "only_maps this s s'" "pagesCount d' = pagesCount d + n"
    "remapped (\<lambda>x. getPhysicalAddress d x s) (\<lambda>x. getPhysicalAddress d' x s') pa va (unat n)"
    using mapPages_rep [OF assms, of k] by blast
  then show ?thesis unfolding remapped_def only_maps_def by (intro exI [of _ s'] exI [of _ d']) blast
qed

theorem mapPages_translates_witness:
  "\<exists>s' d'. mapPages 1 0x100000 0x9000 0x2000 3 3 ex_paging = Some s' \<and> dirs s' 0x100000 = Some d' \<and>
     getPhysicalAddress d' 0x3ABC s' = Some 0xAABC"
proof -
  have u: "unat (page_up 0x2000 i) = 8192 + 4096 * i" if "i < 3" for i
    using unat_page_up [of "0x2000" 3 i] that by simp
  have r: "ready 0x100000 ex_paging 0x2000 (unat (3 :: u32))"
    using ex_page_dir_ok u by (auto simp: ready_def intro!: ex_has_table)
  have z: "\<forall>i < unat (3 :: u32). page_up 0x9000 i \<noteq> 0 \<and> page_up 0x2000 i \<noteq> 0"
  proof (intro allI impI)
    fix i assume "i < unat (3 :: u32)"
    then have "i = 0 \<or> i = 1 \<or> i = 2" by auto
    then show "page_up 0x9000 i \<noteq> 0 \<and> page_up 0x2000 i \<noteq> 0" by auto
  qed
  have b: "unat (0x2000 :: u32) + 4096 * unat (3 :: u32) \<le> 4294967296" "bit (3 :: u32) 0" by simp_all
  obtain s' d' where m: "mapPages 1 0x100000 0x9000 0x2000 3 3 ex_paging = Some s'" "dirs s' 0x100000 = Some d'"
    "\<forall>i < unat (3 :: u32). \<forall>x. x \<noteq> 0 \<longrightarrow> drop_bit 12 x = drop_bit 12 (page_up 0x2000 i) \<longrightarrow>
       getPhysicalAddress d' x s' = Some (page_up 0x9000 i AND NOT 0xFFF OR (x AND 0xFFF))"
    using mapPages_translates [where k = 0, OF r ex_paging_fields(2) z b] by auto
  have "drop_bit 12 (0x3ABC :: u32) = drop_bit 12 (page_up 0x2000 1)" by (simp add: drop_bit_eq_div)
  then have "getPhysicalAddress d' 0x3ABC s' = Some (page_up 0x9000 1 AND NOT 0xFFF OR (0x3ABC AND 0xFFF))"
    using m(3)[rule_format, of 1 "0x3ABC"] by simp
  then show ?thesis using m(1,2) by simp
qed

text \<open>Freeing a mapped page gives its frame back to the allocator, ends the translation of
  exactly this page and leaves every other page as it was.\<close>

theorem freePage_releases:
  assumes "dirs s this = Some d" and "dir_ok d" and "mem_ok (phys s)" and "va \<noteq> 0"
    and "getPhysicalAddress d va s = Some pa" and "pa AND NOT 0xFFF \<noteq> 0" and "frame_used (phys s) (pa AND NOT 0xFFF)"
  shows "\<exists>s' d'. freePage this va s = Some s' \<and> dirs s' this = Some d' \<and> dir_ok d' \<and> mem_ok (phys s') \<and>
    used (phys s') = used (phys s) - {unat (drop_bit 12 pa)} \<and>
    (\<forall>x. x \<noteq> 0 \<longrightarrow> getPhysicalAddress d' x s' =
      (if drop_bit 12 x = drop_bit 12 va then Some 0 else getPhysicalAddress d x s))"
  using freePage_rep [OF assms] .

definition ex_mapped :: paging where
  "ex_mapped = ex_paging\<lparr>entry_at := (\<lambda>_ i. if i = 3 then \<lparr>present = True, rw = True, user = False, other_bits = 0, frame_no = 4\<rparr>
     else zero_entry)\<rparr>"

theorem freePage_releases_witness:
  "\<exists>s' d'. freePage 0x100000 0x3010 ex_mapped = Some s' \<and> used (phys s') = {..5} - {4} \<and>
     dirs s' 0x100000 = Some d' \<and> getPhysicalAddress d' 0x3010 s' = Some 0"
proof -
  have pi: "page_index 0x3010 = 3" by (simp add: page_index_def drop_bit_eq_div)
  have t: "has_table ex_page_dir 0x3010" "table_of ex_page_dir 0x3010 = 0x5000" using ex_has_table [of "0x3010"] by simp_all
  have g: "getPhysicalAddress ex_page_dir 0x3010 ex_mapped = Some 0x4010"
    by (simp add: translate_eq [OF ex_page_dir_ok] t pi ex_mapped_def entry_address_def push_bit_eq_mult)
  have f: "phys ex_mapped = ex_mem" "dirs ex_mapped 0x100000 = Some ex_page_dir" by (simp_all add: ex_mapped_def)
  have k: "(0x4010 :: u32) AND NOT 0xFFF = 0x4000" by simp
  have d: "unat (drop_bit 12 (0x4000 :: u32)) = 4" "unat (drop_bit 12 (0x4010 :: u32)) = 4" by (simp_all add: drop_bit_eq_div)
  have o: "(0x4010 :: u32) AND NOT 0xFFF \<noteq> 0" "frame_used (phys ex_mapped) (0x4010 AND NOT 0xFFF)"
    unfolding k by (simp_all add: f frame_used_def d ex_mem(3))
  have m: "mem_ok (phys ex_mapped)" using ex_mem(2) by (simp add: f)
  show ?thesis
    using freePage_releases [OF f(2) ex_page_dir_ok m _ g o] by (auto simp: f(1) d ex_mem(3))
qed

text \<open>C10: When the lowest free frame is the last one of a page table and the next table exists,
  allocating a page never returns, whatever the fuel: the frame is given back, the table is
  there, and the same frame is found again.\<close>

theorem allocatePage_diverges:
  assumes "mem_ok (phys s)" and "allocateFrame (phys s) = Some (a, p)" and "a \<noteq> 0" and "page_index a = 1023"
    and "dirs s this = Some d" and "dir_ok d" and "has_table d va" and "table_index va = table_index a + 1"
    and "visible s (table_of d va)"
  shows "allocatePage k this flags s = None"
  using allocatePage_loops [OF assms] .

text \<open>8 MiB of which all but the frame 1023 of the first 4 MiB are in use.\<close>

definition ex_mem8 :: phys_mem where
  "ex_mem8 = the (initialize 0x3F8FC0 8388608 ex_boot)"

definition ex_page_dir8 :: paging_dir where
  "ex_page_dir8 = \<lparr>pageTables = 0x5000 # 0x6000 # replicate 1022 0,
     pageDirectory = \<lparr>present = True, rw = True, user = False, other_bits = 0, frame_no = 5\<rparr> #
       \<lparr>present = True, rw = True, user = False, other_bits = 0, frame_no = 6\<rparr> # replicate 1022 zero_entry,
     pagesCount = 0\<rparr>"

lemma ex_mem8: "mem_ok ex_mem8" "used ex_mem8 = {..1022}" "length (frameBits ex_mem8) = 64"
proof -
  have f: "allocatedFrames ex_boot = 0" by (simp add: ex_boot_def)
  have e: "reserved_end 0x3F8FC0 8388608 ex_boot = 0x3FE000" by (simp add: reserved_end_def ex_boot_def drop_bit_eq_div)
  obtain s where s: "initialize 0x3F8FC0 8388608 ex_boot = Some s" "mem_ok s" "used s = {..1022}" "unat (framesCount s) = 2048"
    using initialize_spec [of 8388608 ex_boot "0x3F8FC0"] f by (auto simp: e)
  then show "mem_ok ex_mem8" "used ex_mem8 = {..1022}" "length (frameBits ex_mem8) = 64"
    by (auto simp: ex_mem8_def mem_ok_def)
qed

lemma ex_mem8_next: "\<exists>p. allocateFrame ex_mem8 = Some (0x3FF000, p)"
proof -
  have "2047 \<notin> used ex_mem8" "2047 \<in> {..<32 * length (frameBits ex_mem8)}" by (simp_all add: ex_mem8(2,3))
  then have "used ex_mem8 \<noteq> {..<32 * length (frameBits ex_mem8)}" by blast
  with allocateFrame_spec [OF ex_mem8(1)] obtain a p where a: "allocateFrame ex_mem8 = Some (a, p)" "unat a mod 4096 = 0"
    "\<not> frame_used ex_mem8 a" "\<forall>n < unat (drop_bit 12 a). n \<in> used ex_mem8" by (elim disjE exE conjE) simp_all
  have "1022 < unat (drop_bit 12 a)" using a(3) by (simp only: frame_used_def ex_mem8(2) atMost_iff not_le)
  moreover have "\<not> 1023 < unat (drop_bit 12 a)" using a(4) unfolding ex_mem8(2) by auto
  ultimately have "unat a div 4096 = 1023" unfolding unat_drop12_div by linarith
  then have "unat a = 4190208" using a(2) div_mult_mod_eq [of "unat a" 4096] by linarith
  then have "of_nat (unat a) = (of_nat 4190208 :: u32)" by (rule arg_cong)
  then have "a = 0x3FF000" by simp
  then show ?thesis using a(1) by blast
qed

theorem allocatePage_diverges_witness:
  "allocatePage 1000 0x100000 3 (ex_paging\<lparr>phys := ex_mem8, dirs := [0x100000 \<mapsto> ex_page_dir8]\<rparr>) = None"
proof -
  let ?s = "ex_paging\<lparr>phys := ex_mem8, dirs := [0x100000 \<mapsto> ex_page_dir8]\<rparr>"
  obtain p where p: "allocateFrame (phys ?s) = Some (0x3FF000, p)" using ex_mem8_next by auto
  have m: "mem_ok (phys ?s)" "dirs ?s 0x100000 = Some ex_page_dir8" by (simp_all add: ex_mem8)
  have d: "dir_ok ex_page_dir8"
    by (auto simp: dir_ok_def ex_page_dir8_def nth_Cons' zero_entry_def entry_address_def push_bit_eq_mult)
  have i: "page_index 0x3FF000 = 1023" "table_index 0x400000 = table_index 0x3FF000 + 1" "table_index 0x400000 = 1"
    by (simp_all add: page_index_def table_index_def drop_bit_eq_div)
  have t: "has_table ex_page_dir8 0x400000" by (simp add: has_table_def i(3) ex_page_dir8_def)
  have v: "visible ?s x" for x by (simp add: visible_def ex_paging_def)
  show ?thesis by (rule allocatePage_diverges [OF m(1) p _ i(1) m(2) d t i(2) v]) simp
qed

section \<open>The heap\<close>

text \<open>C11: An allocation takes a smallest free chunk that is large enough, cuts off what it does not
  need and marks it, growing the heap first where no chunk fits; the list of chunks is otherwise
  unchanged, the counters follow, and the answer is null exactly when nothing fits even then.\<close>

theorem alloc_best_fit:
  assumes "heap_ok h bs" and "n \<noteq> 0" and "grants am n (pages h) bs"
  shows "let bs1 = (if \<exists>b \<in> set bs. fits n b then bs else grown am n (pages h) bs) in
    if \<exists>b \<in> set bs1. fits n b
    then \<exists>a h' bs'. alloc am n False h = Some (a + HEADER, h') \<and> heap_ok h' bs' \<and> takes n a bs1 bs'
    else \<exists>h'. alloc am n False h = Some (0, h') \<and> heap_ok h' bs1"
proof (cases "\<exists>b \<in> set bs. fits n b")
  case True
  then show ?thesis using alloc_rep(1) [OF assms True] unfolding Let_def by (simp only: if_True) blast
next
  case no: False
  then have none: "\<forall>b \<in> set bs. \<not> fits n b" by blast
  show ?thesis
  proof (cases "\<exists>b \<in> set (grown am n (pages h) bs). fits n b")
    case True
    then show ?thesis using alloc_rep(2) [OF assms none True] unfolding Let_def by (simp only: no if_True if_False) blast
  next
    case False
    then have "\<forall>b \<in> set (grown am n (pages h) bs). \<not> fits n b" by blast
    from alloc_rep(3) [OF assms none this] show ?thesis unfolding Let_def by (simp only: no False if_False) blast
  qed
qed

definition ex_am :: "u32 \<Rightarrow> unit \<Rightarrow> (u32 \<times> unit) option" where
  "ex_am sz e = Some (0x10000, e)"

theorem alloc_best_fit_witness:
  "\<exists>h' bs'. alloc ex_am 100 False (empty_heap ()) = Some (0x10010, h') \<and> heap_ok h' bs' \<and>
     takes 100 0x10000 [(0x10000, 4080, False)] bs'"
proof -
  have ok: "heap_ok (empty_heap ()) []" by (simp add: heap_ok_def heap_is_def empty_heap_def)
  have n: "(100 :: u32) \<noteq> 0" by simp
  have r: "page_round 100 = 4096" by (simp add: page_round_def)
  have g: "grants ex_am 100 (pages (empty_heap ())) []" and gr: "grown ex_am 100 (pages (empty_heap ())) [] = [(0x10000, 4080, False)]"
    by (simp_all add: grants_def grown_def ex_am_def r)
  have f: "\<not> (\<exists>b \<in> set []. fits 100 b)" "\<exists>b \<in> set [(0x10000, 4080, False)]. fits 100 b" by simp_all
  have "\<exists>a h' bs'. alloc ex_am 100 False (empty_heap ()) = Some (a + HEADER, h') \<and> heap_ok h' bs' \<and>
      takes 100 a [(0x10000, 4080, False)] bs'"
    using alloc_best_fit [OF ok n g] unfolding gr Let_def by (simp only: f if_True if_False)
  then obtain a h' bs' where a: "alloc ex_am 100 False (empty_heap ()) = Some (a + HEADER, h')" "heap_ok h' bs'"
    "takes 100 a [(0x10000, 4080, False)] bs'" by blast
  have "a = 0x10000" using a(3) by (auto simp: takes_def Cons_eq_append_conv)
  then show ?thesis using a by auto
qed

text \<open>C12: Releasing a block un-marks exactly its chunk and merges it with its free neighbours in the list;
  every other live block stays where it is, the chunks cover the same memory, the counters follow,
  chunks only leave the list, so that the others keep their order, and no chunk and the next one in the
  list are left both free and touching. If the chunks stood in the order of their addresses, no two
  free chunks of the whole heap are left touching.\<close>

theorem free_merges:
  assumes "heap_ok h (xs @ (p - HEADER, s, True) # ys)" and "p \<noteq> 0"
  shows "\<exists>h' bs'. free p h = Some h' \<and> heap_ok h' bs' \<and> live bs' = live xs @ live ys \<and> tidy bs' \<and>
    subseq (map fst bs') (map fst (xs @ (p - HEADER, s, True) # ys)) \<and>
    (ascending (xs @ (p - HEADER, s, True) # ys) \<longrightarrow> ascending bs' \<and> settled bs') \<and>
    cover bs' = cover (xs @ (p - HEADER, s, True) # ys) \<and> pages h' = pages h"
proof -
  obtain h' bs' where r: "free p h = Some h'" "heap_ok h' bs'" "live bs' = live xs @ live ys" "tidy bs'"
    "subseq (map fst bs') (map fst (xs @ (p - HEADER, s, True) # ys))"
    "cover bs' = cover (xs @ (p - HEADER, s, True) # ys)" "pages h' = pages h"
    using free_rep [OF assms] by blast
  have "apart bs'" using r(2) by (simp add: heap_ok_def heap_is_def)
  then show ?thesis using r subseq_ascending [OF r(5)] ascending_settled [of bs'] by blast
qed

theorem free_merges_witness:
  "\<exists>h' bs'. free 0x10010 (\<lparr>chunks = [0x10000 \<mapsto> \<lparr>c_size = 100, c_alloc = True, c_next = 0, c_prev = 0\<rparr>],
      heapList = 0x10000, totalMemory = 116, totalAllocatedMemory = 100, pages = ()\<rparr>) = Some h' \<and>
    heap_ok h' bs' \<and> live bs' = [] \<and> totalAllocatedMemory h' = 0"
proof -
  let ?h = "\<lparr>chunks = [0x10000 \<mapsto> \<lparr>c_size = 100, c_alloc = True, c_next = 0, c_prev = 0\<rparr>],
      heapList = 0x10000, totalMemory = 116, totalAllocatedMemory = 100, pages = ()\<rparr>"
  have ok: "heap_ok ?h ([] @ (0x10010 - HEADER, 100, True) # [])" by (simp add: heap_ok_def heap_is_def)
  obtain h' bs' where f: "free 0x10010 ?h = Some h'" "heap_ok h' bs'" "live bs' = []"
    using free_merges [OF ok] by auto
  then show ?thesis by (auto simp: heap_ok_def in_use_def)
qed

text \<open>C13: Over the kernel's paging and frame allocator, any sequence of requests to the heap runs to
  its end without a panic; at the end the blocks held do not overlap, lie in frames that were
  free before, so never in the kernel, its page tables or another process's pages, and belong to
  frames now marked in use.\<close>

theorem kernel_heap_safe:
  assumes "kernel_inv e" and "list_all small_request rs"
  shows "\<exists>h held bs. serve (allocateMemory (Suc k)) rs (empty_heap e, []) = Some (h, held) \<and> heap_ok h bs \<and>
    (\<forall>x \<in> set held. block_bytes x \<subseteq> kernel_owned (pages h) - kernel_owned e) \<and>
    (\<forall>i j. i < j \<longrightarrow> j < length held \<longrightarrow> block_bytes (held ! i) \<inter> block_bytes (held ! j) = {})"
  using kh.clients_safe [OF assms] .

theorem kernel_heap_safe_witness:
  "\<exists>h held. serve (allocateMemory 1) [Acquire 100, Acquire 5000, Release 0, Acquire 16] (empty_heap ex_paging, []) = Some (h, held)"
proof -
  have "list_all small_request [Acquire 100, Acquire 5000, Release 0, Acquire 16]" by (simp add: small_request_def)
  from kernel_heap_safe [OF ex_kernel this, of 0] show ?thesis by auto
qed

section \<open>Where the code departs from its intent\<close>

text \<open>Chunks are merged with their neighbours in the list only. New memory goes to the end of the list,
  wherever it lies, so that a release can leave two free chunks that touch, neither of which holds what
  both together could.\<close>

lemma free_leaves_touching:
  "\<exists>h'. free 0x10010 (\<lparr>chunks = [0x20000 \<mapsto> \<lparr>c_size = 4080, c_alloc = False, c_next = 0x10000, c_prev = 0\<rparr>,
        0x10000 \<mapsto> \<lparr>c_size = 65520, c_alloc = True, c_next = 0, c_prev = 0x20000\<rparr>],
      heapList = 0x20000, totalMemory = 69632, totalAllocatedMemory = 65520, pages = ()\<rparr>) = Some h' \<and>
    heap_ok h' [(0x20000, 4080, False), (0x10000, 65520, False)] \<and> touch (0x10000, 65520, False) (0x20000, 4080, False)"
  by (auto simp: free_def upd_def tryMerge_def merge_next_def merge_prev_def isPhysicallyContiguous_def coalesceFreeBlocks_def
      coalesce_loop.simps [of "0x20000"] coalesce_loop.simps [of "0x10000"] coalesce_loop.simps [of 0]
      heap_ok_def heap_is_def in_use_def)

text \<open>\<open>isFrameFree\<close> answers whether the frame is in use.\<close>

lemma isFrameFree_inverted:
  assumes "mem_ok s" and "unat (drop_bit 12 a) < 32 * length (frameBits s)"
  shows "isFrameFree a s = Some (frame_used s a)"
  using getFrameMark_used [OF assms(2)] by (simp add: isFrameFree_def frame_used_def)

text \<open>
  A page-aligned request on a fresh heap takes pages and still fails: the block of a chunk at a
  page boundary starts 16 bytes after it.
\<close>

lemma alloc_page_align_fails:
  assumes "am (page_round n') e = Some (a, e')" and "n' = (n + 0xFFF) AND NOT 0xFFF" and "n' \<noteq> 0"
    and "a \<noteq> 0" and "(a + HEADER) AND 0xFFF \<noteq> 0"
  shows "\<exists>h'. alloc am n True (empty_heap e) = Some (0, h') \<and> totalMemory h' = page_round n'"
proof -
  let ?h = "\<lparr>chunks = [a \<mapsto> \<lparr>c_size = page_round n' - HEADER, c_alloc = False, c_next = 0, c_prev = 0\<rparr>], heapList = a,
      totalMemory = page_round n', totalAllocatedMemory = 0, pages = e'\<rparr>"
  have "findSmallestHole n' True (empty_heap e) = Some 0"
    unfolding findSmallestHole_def by (subst hole_loop.simps) (simp add: empty_heap_def)
  moreover have "requestMoreMemory am n' (empty_heap e) = Some (a, ?h)"
    using assms(1,4) by (simp add: requestMoreMemory_def empty_heap_def Let_def)
  moreover have "hole_loop n' True ?h 0 0 = Some 0" by (subst hole_loop.simps) simp
  then have "findSmallestHole n' True ?h = Some 0"
    unfolding findSmallestHole_def using assms(4,5) by (subst hole_loop.simps) simp
  ultimately have "alloc am n True (empty_heap e) = Some (0, ?h)" using assms(3)
    by (simp only: alloc_def if_True assms(2) [symmetric] Let_def) simp
  then show ?thesis by simp
qed

end
