(* ===== verification/Libgcc.thy ===== *)
theory Libgcc
  imports Prelude "HOL-Library.Signed_Division"
begin

text \<open>
  The 64-bit division routines the compiler calls on a 32-bit machine (\<open>libs/libgcc.cpp\<close>): long
  division bit by bit, and the signed variants over it. A pointer to the remainder that may be
  null is an option: the result holds the value written through it.
\<close>

type_synonym u64 = "64 word"

section \<open>Definitions\<close>

text \<open>One round of the loop of \<open>__udivdi3\<close> and \<open>__umoddi3\<close> on \<open>(quotient, remainder)\<close>.\<close>

definition div_round :: "u64 \<Rightarrow> u64 \<Rightarrow> nat \<Rightarrow> u64 \<times> u64 \<Rightarrow> u64 \<times> u64" where
  "div_round dividend divisor i = (\<lambda>(quotient, remainder).
     let remainder' = push_bit 1 remainder OR (drop_bit i dividend AND 1)
     in if divisor \<le> remainder' then (quotient OR push_bit i 1, remainder' - divisor)
        else (quotient, remainder'))"

definition div_loop :: "u64 \<Rightarrow> u64 \<Rightarrow> u64 \<times> u64" where
  "div_loop dividend divisor = fold (div_round dividend divisor) (rev [0..<64]) (0, 0)"

definition udivdi3 :: "u64 \<Rightarrow> u64 \<Rightarrow> u64" where
  "udivdi3 dividend divisor = (if divisor = 0 then 0 else fst (div_loop dividend divisor))"

definition umoddi3 :: "u64 \<Rightarrow> u64 \<Rightarrow> u64" where
  "umoddi3 dividend divisor = (if divisor = 0 then 0 else snd (div_loop dividend divisor))"

definition divdi3 :: "u64 \<Rightarrow> u64 \<Rightarrow> u64" where
  "divdi3 dividend divisor =
     (if divisor = 0 then 0
      else let negative_result = ((dividend <s 0) \<noteq> (divisor <s 0));
               abs_dividend = (if dividend <s 0 then - dividend else dividend);
               abs_divisor = (if divisor <s 0 then - divisor else divisor);
               abs_quotient = udivdi3 abs_dividend abs_divisor
           in if negative_result then - abs_quotient else abs_quotient)"

definition moddi3 :: "u64 \<Rightarrow> u64 \<Rightarrow> u64" where
  "moddi3 dividend divisor =
     (if divisor = 0 then 0
      else let abs_dividend = (if dividend <s 0 then - dividend else dividend);
               abs_divisor = (if divisor <s 0 then - divisor else divisor);
               abs_remainder = umoddi3 abs_dividend abs_divisor
           in if dividend <s 0 then - abs_remainder else abs_remainder)"

definition divmoddi4 :: "u64 \<Rightarrow> u64 \<Rightarrow> u64 option \<Rightarrow> u64 \<times> u64 option" where
  "divmoddi4 dividend divisor remainder =
     (if divisor = 0 then (0, map_option (\<lambda>_. 0) remainder)
      else (divdi3 dividend divisor, map_option (\<lambda>_. moddi3 dividend divisor) remainder))"

definition udivmoddi4 :: "u64 \<Rightarrow> u64 \<Rightarrow> u64 option \<Rightarrow> u64 \<times> u64 option" where
  "udivmoddi4 dividend divisor remainder =
     (if divisor = 0 then (0, map_option (\<lambda>_. 0) remainder)
      else (udivdi3 dividend divisor, map_option (\<lambda>_. umoddi3 dividend divisor) remainder))"

section \<open>Long division\<close>

text \<open>
  After the bits from \<open>k\<close> upwards: quotient and remainder of the dividend without its last \<open>k\<close>
  bits, the quotient with \<open>k\<close> bits still to come. The remainder never exceeds that part of the
  dividend, so shifting it cannot overflow.
\<close>

definition div_inv :: "u64 \<Rightarrow> u64 \<Rightarrow> nat \<Rightarrow> u64 \<times> u64 \<Rightarrow> bool" where
  "div_inv d n k = (\<lambda>(q, r). \<exists>Q. unat q = Q * 2 ^ k \<and> Q * unat n + unat r = unat d div 2 ^ k \<and> unat r < unat n)"

lemma unat_u64_lt: "unat (x :: u64) < 18446744073709551616"
proof -
  have "unat x < 2 ^ LENGTH(64)" by (rule unsigned_less)
  then show ?thesis by simp
qed

lemma div_pow_Suc: "a div 2 ^ k = 2 * (a div 2 ^ Suc k) + a div 2 ^ k mod 2" for a :: nat
proof -
  have "a div 2 ^ Suc k = a div 2 ^ k div 2" by (simp only: power_Suc2 div_mult2_eq)
  then show ?thesis by (simp add: mult_div_mod_eq)
qed

lemma low_bit:
  assumes "unat r \<le> unat d div 2 ^ Suc k"
  shows "unat (push_bit 1 r OR (drop_bit k d AND 1)) = 2 * unat r + unat (d :: u64) div 2 ^ k mod 2"
proof -
  have b: "unat (drop_bit k d AND 1) = unat d div 2 ^ k mod 2"
    by (simp only: unsigned_and_eq unat_drop_bit_eq drop_bit_eq_div [of k "unat d"]) (simp add: and_one_eq)
  have "push_bit 1 r AND 1 = 0"
    by (rule bit_word_eqI) (auto simp only: bit_and_iff bit_1_iff bit_push_bit_iff bit_0_eq bot_apply bot_bool_def not_one_le_zero)
  then have "(push_bit 1 r) AND (drop_bit k d AND 1) = 0" by (simp only: and.left_commute [of "push_bit 1 r"]) simp
  then have s: "push_bit 1 r OR (drop_bit k d AND 1) = push_bit 1 r + (drop_bit k d AND 1)"
    by (simp only: disjunctive_add_eq_or)
  have p: "push_bit 1 r = 2 * r" by (simp add: push_bit_eq_mult mult.commute)
  have e: "push_bit 1 r OR (drop_bit k d AND 1) = 2 * r + (drop_bit k d AND 1)"
    by (rule trans [OF s]) (rule arg_cong2 [where f = "(+)", OF p refl])
  have "2 * unat r + unat d div 2 ^ k mod 2 \<le> unat d div 2 ^ k" using assms div_pow_Suc [of "unat d" k] by linarith
  moreover have "unat d div 2 ^ k \<le> unat d" by simp
  ultimately have lt: "2 * unat r + unat d div 2 ^ k mod 2 < 18446744073709551616" using unat_u64_lt [of d] by linarith
  then have "unat (2 * r) = 2 * unat r" by (simp add: unat_word_ariths)
  then show ?thesis using lt unfolding e by (simp add: unat_word_ariths b)
qed

lemma set_bit_add:
  assumes "unat (q :: u64) = Q * 2 ^ Suc k" and "k < 64"
  shows "unat (q OR push_bit k 1) = (2 * Q + 1) * 2 ^ k"
proof -
  have nb: "\<not> bit q k"
  proof -
    have "unat q div 2 ^ k = 2 * Q" using assms(1) by simp
    then have "even (unat q div 2 ^ k)" by simp
    then have "\<not> bit (unat q) k" by (simp add: bit_iff_odd)
    then show ?thesis by (simp add: bit_unsigned_iff)
  qed
  have "q AND push_bit k 1 = 0" using nb by (intro bit_word_eqI) (auto simp: bit_simps bit_1_iff)
  then have e: "q OR push_bit k 1 = q + push_bit k 1" by (simp only: disjunctive_add_eq_or)
  have p: "unat (push_bit k 1 :: u64) = 2 ^ k"
  proof -
    have "push_bit k 1 = (of_nat (2 ^ k) :: u64)" by simp
    moreover have "(2 :: nat) ^ k < 2 ^ 64" using assms(2) by (rule power_strict_increasing) simp
    ultimately show ?thesis by (simp only: unat_of_nat) simp
  qed
  have "unat (q OR push_bit k 1) < 18446744073709551616" by (rule unat_u64_lt)
  have p64: "(2 :: nat) ^ 64 = 2 ^ (63 - k) * 2 ^ Suc k" using assms(2) by (simp flip: power_add)
  have "Q * 2 ^ Suc k < 2 ^ 64" using unat_u64_lt [of q] assms(1) by simp
  then have "Q * 2 ^ Suc k < 2 ^ (63 - k) * 2 ^ Suc k" unfolding p64 .
  then have "Q < 2 ^ (63 - k)" by (simp only: mult_less_cancel2)
  then have "Q + 1 \<le> 2 ^ (63 - k)" by simp
  then have "(Q + 1) * 2 ^ Suc k \<le> 2 ^ 64" unfolding p64 by (rule mult_le_mono1)
  moreover have "(Q + 1) * 2 ^ Suc k = Q * 2 ^ Suc k + 2 * 2 ^ k" by simp
  moreover have "(0 :: nat) < 2 ^ k" by simp
  ultimately have "Q * 2 ^ Suc k + 2 ^ k < 2 ^ 64" by linarith
  then have "unat (q + push_bit k 1) = unat q + 2 ^ k" using p assms(1) by (simp add: unat_word_ariths)
  then show ?thesis using e assms(1) by (simp add: algebra_simps)
qed

lemma div_round_inv:
  assumes inv: "div_inv d n (Suc k) s" and k: "k < 64"
  shows "div_inv d n k (div_round d n k s)"
proof -
  obtain q r where s: "s = (q, r)" by (cases s)
  obtain Q where Q: "unat q = Q * 2 ^ Suc k" "Q * unat n + unat r = unat d div 2 ^ Suc k" "unat r < unat n"
    using inv by (auto simp: div_inv_def s)
  let ?r = "push_bit 1 r OR (drop_bit k d AND 1)"
  have r: "unat ?r = 2 * unat r + unat d div 2 ^ k mod 2" using Q(2) by (intro low_bit) linarith
  have eq: "2 * Q * unat n + unat ?r = unat d div 2 ^ k"
    unfolding r using div_pow_Suc [of "unat d" k] Q(2) by (simp add: algebra_simps)
  have lt: "unat ?r < 2 * unat n" unfolding r using Q(3) by linarith
  show ?thesis
  proof (cases "n \<le> ?r")
    case True
    then have le: "unat n \<le> unat ?r" by (simp only: word_le_nat_alt)
    have "unat (?r - n) = unat ?r - unat n" by (rule unat_sub [OF True])
    then have "(2 * Q + 1) * unat n + unat (?r - n) = unat d div 2 ^ k" "unat (?r - n) < unat n"
      using eq le lt by (simp_all add: algebra_simps)
    moreover have "unat (q OR push_bit k 1) = (2 * Q + 1) * 2 ^ k" by (rule set_bit_add [OF Q(1) k])
    moreover have "div_round d n k s = (q OR push_bit k 1, ?r - n)" using True by (simp only: s div_round_def Let_def split if_True)
    ultimately show ?thesis by (auto simp only: div_inv_def split)
  next
    case False
    then have "unat ?r < unat n" by (simp only: word_le_nat_alt not_le)
    moreover have "unat q = (2 * Q) * 2 ^ k" using Q(1) by simp
    moreover have "div_round d n k s = (q, ?r)" using False by (simp only: s div_round_def Let_def split if_False)
    ultimately show ?thesis using eq by (auto simp only: div_inv_def split)
  qed
qed

lemma div_rounds:
  assumes "k \<le> 64" and "div_inv d n k s"
  shows "div_inv d n 0 (fold (div_round d n) (rev [0..<k]) s)"
  using assms by (induction k arbitrary: s) (simp_all add: div_round_inv)

lemma div_loop_exact:
  assumes "n \<noteq> 0"
  shows "unat (fst (div_loop d n)) = unat d div unat n" "unat (snd (div_loop d n)) = unat d mod unat n"
proof -
  have "unat d div 2 ^ 64 = 0" using unat_u64_lt [of d] by simp
  moreover have "0 < unat n" using assms by (simp add: unat_gt_0)
  ultimately have "div_inv d n 64 (0, 0)" by (simp add: div_inv_def)
  from div_rounds [OF order_refl this] have "div_inv d n 0 (div_loop d n)" by (simp only: div_loop_def)
  then have "unat (fst (div_loop d n)) * unat n + unat (snd (div_loop d n)) = unat d" "unat (snd (div_loop d n)) < unat n"
    by (auto simp: div_inv_def split: prod.splits)
  then show "unat (fst (div_loop d n)) = unat d div unat n" "unat (snd (div_loop d n)) = unat d mod unat n"
    by (metis add.commute div_mult_self3 div_less add_0_right assms unsigned_eq_0_iff, metis mod_less mod_mult_self3)
qed

lemma udivdi3_exact: "n \<noteq> 0 \<Longrightarrow> udivdi3 d n = d div n"
  using div_loop_exact(1) [of n d] by (simp add: udivdi3_def word_unat_eq_iff unat_div)

lemma umoddi3_exact: "n \<noteq> 0 \<Longrightarrow> umoddi3 d n = d mod n"
  using div_loop_exact(2) [of n d] by (simp add: umoddi3_def word_unat_eq_iff unat_mod)

section \<open>Signed division\<close>

lemma sint_u64: "sint (a :: u64) = (if uint a < 9223372036854775808 then uint a else uint a - 18446744073709551616)"
proof -
  have u: "0 \<le> uint a" "uint a < 18446744073709551616" using uint_lt2p [of a] by simp_all
  have "sint a = (uint a + 9223372036854775808) mod 18446744073709551616 - 9223372036854775808"
    using int_word_sint [of "uint a", where 'a = 64] by simp
  moreover have "(uint a + 9223372036854775808) mod 18446744073709551616 =
      (if uint a < 9223372036854775808 then uint a + 9223372036854775808 else uint a - 9223372036854775808)"
  proof (cases "uint a < 9223372036854775808")
    case True
    then show ?thesis using u by simp
  next
    case False
    have "(uint a + 9223372036854775808) mod 18446744073709551616 =
        (uint a - 9223372036854775808 + 18446744073709551616) mod 18446744073709551616" by (simp add: add.commute)
    also have "\<dots> = uint a - 9223372036854775808" using u False by (simp only: mod_add_self2) (simp add: mod_pos_pos_trivial)
    finally show ?thesis using False by simp
  qed
  ultimately show ?thesis by simp
qed

lemma sless_0: "a <s 0 \<longleftrightarrow> sint (a :: u64) < 0"
  by (simp add: word_sless_alt)

lemma uint_minus: "a \<noteq> 0 \<Longrightarrow> uint (- a :: u64) = 18446744073709551616 - uint a"
proof -
  assume "a \<noteq> 0"
  then have "uint a \<noteq> 0" by (simp only: uint_0_iff) simp
  moreover have "0 \<le> uint a" by simp
  ultimately have u: "0 < uint a" "uint a < 18446744073709551616" using uint_lt2p [of a] by (linarith, simp)
  have "uint (- a) = (- uint a) mod 18446744073709551616" by (simp add: uint_word_ariths)
  also have "\<dots> = (18446744073709551616 - uint a) mod 18446744073709551616" by (simp add: minus_mod_eq_mult_div)
  also have "\<dots> = 18446744073709551616 - uint a" using u by (intro mod_pos_pos_trivial) simp_all
  finally show ?thesis .
qed

lemma abs_u64: "uint (if a <s 0 then - a else a) = \<bar>sint (a :: u64)\<bar>"
proof (cases "a = 0")
  case False
  then show ?thesis using uint_minus [OF False] uint_lt2p [of a] by (auto simp: sless_0 sint_u64)
qed simp

lemma sint_neg: "a \<noteq> 0 \<Longrightarrow> uint a \<le> 9223372036854775808 \<Longrightarrow> sint (- a :: u64) = - uint a"
  using uint_minus [of a] by (simp add: sint_u64)

text \<open>The signed routines are truncating division, where the quotient is a 64-bit number at all.\<close>

lemma uint_divide: "uint (x div y :: u64) = uint x div uint y" "uint (x mod y :: u64) = uint x mod uint y"
  by (simp_all add: uint_div uint_mod)

lemma sint_range: "- 9223372036854775808 \<le> sint (a :: u64)" "sint a < 9223372036854775808"
  using sint_ge [of a] sint_lt [of a] by simp_all

lemma moddi3_exact:
  assumes "b \<noteq> 0"
  shows "sint (moddi3 a b) = sint a smod sint b"
proof -
  let ?x = "if a <s 0 then - a else a" and ?y = "if b <s 0 then - b else b"
  have y: "?y \<noteq> 0" using assms by simp
  have sb: "sint b \<noteq> 0" using assms by (simp only: signed_eq_0_iff) simp
  have u: "uint (?x mod ?y) = \<bar>sint a\<bar> mod \<bar>sint b\<bar>" by (simp only: uint_divide abs_u64)
  have le: "\<bar>sint b\<bar> \<le> 9223372036854775808" using sint_range [of b] by (simp add: abs_le_iff)
  have lt: "uint (?x mod ?y) < 9223372036854775808"
    unfolding u using sb le pos_mod_bound [of "\<bar>sint b\<bar>" "\<bar>sint a\<bar>"] by linarith
  have pos: "sint (?x mod ?y) = uint (?x mod ?y)" using lt by (simp only: sint_u64 if_True)
  have m: "moddi3 a b = (if a <s 0 then - (?x mod ?y) else ?x mod ?y)"
    using assms by (simp only: moddi3_def Let_def if_False umoddi3_exact [OF y])
  show ?thesis
  proof (cases "a <s 0")
    case True
    then have sa: "sint a < 0" by (simp only: sless_0)
    have "sint (- (?x mod ?y)) = - uint (?x mod ?y)"
    proof (cases "?x mod ?y = 0")
      case z: True
      show ?thesis unfolding z by simp
    next
      case False
      then show ?thesis using lt by (intro sint_neg) simp_all
    qed
    then show ?thesis using True sa u unfolding m by (simp only: if_True smod_int_alt_def) simp
  next
    case False
    then have sa: "0 \<le> sint a" by (simp only: sless_0 not_less)
    have "sint a smod sint b = \<bar>sint a\<bar> mod \<bar>sint b\<bar>"
      using sa by (cases "sint a = 0") (simp_all add: smod_int_alt_def)
    then show ?thesis using False pos u unfolding m by (simp only: if_False)
  qed
qed

lemma divdi3_exact:
  assumes "b \<noteq> 0" and ov: "\<not> (sint a = - 9223372036854775808 \<and> sint b = - 1)"
  shows "sint (divdi3 a b) = sint a sdiv sint b"
proof -
  let ?x = "if a <s 0 then - a else a" and ?y = "if b <s 0 then - b else b"
  have y: "?y \<noteq> 0" using assms by simp
  have sb: "sint b \<noteq> 0" using assms by (simp only: signed_eq_0_iff) simp
  have u: "uint (?x div ?y) = \<bar>sint a\<bar> div \<bar>sint b\<bar>" by (simp only: uint_divide abs_u64)
  have la: "\<bar>sint a\<bar> \<le> 9223372036854775808" using sint_range [of a] by (simp add: abs_le_iff)
  have "\<bar>sint a\<bar> div \<bar>sint b\<bar> \<le> \<bar>sint a\<bar>" using zdiv_mono2 [of "\<bar>sint a\<bar>" 1 "\<bar>sint b\<bar>"] sb by simp
  then have le: "uint (?x div ?y) \<le> 9223372036854775808" unfolding u using la by linarith
  have m: "divdi3 a b = (if (a <s 0) \<noteq> (b <s 0) then - (?x div ?y) else ?x div ?y)"
    using assms(1) by (simp only: divdi3_def Let_def if_False udivdi3_exact [OF y])
  show ?thesis
  proof (cases "(a <s 0) \<noteq> (b <s 0)")
    case True
    have neg: "sint (- (?x div ?y)) = - uint (?x div ?y)"
    proof (cases "?x div ?y = 0")
      case z: True
      show ?thesis unfolding z by simp
    next
      case False
      then show ?thesis using le by (rule sint_neg)
    qed
    have "sint a sdiv sint b = - (\<bar>sint a\<bar> div \<bar>sint b\<bar>)"
      using True sb unfolding sless_0 signed_divide_int_def by (auto simp: sgn_if)
    then show ?thesis unfolding m if_P [OF True] neg u by (rule sym)
  next
    case False
    have sd: "sint a sdiv sint b = \<bar>sint a\<bar> div \<bar>sint b\<bar>"
      using False sb unfolding sless_0 signed_divide_int_def by (auto simp: sgn_if)
    have "\<bar>sint a\<bar> div \<bar>sint b\<bar> < 9223372036854775808"
    proof (cases "sint a = - 9223372036854775808")
      case True
      then have "sint b < 0" "sint b \<noteq> - 1" using False ov by (auto simp: sless_0)
      then have "2 \<le> \<bar>sint b\<bar>" by linarith
      then have "\<bar>sint a\<bar> div \<bar>sint b\<bar> \<le> \<bar>sint a\<bar> div 2" by (intro zdiv_mono2) simp_all
      then show ?thesis using True by simp
    next
      case na: False
      then have "\<bar>sint a\<bar> < 9223372036854775808" using sint_range [of a] by linarith
      moreover have "\<bar>sint a\<bar> div \<bar>sint b\<bar> \<le> \<bar>sint a\<bar>" using zdiv_mono2 [of "\<bar>sint a\<bar>" 1 "\<bar>sint b\<bar>"] sb by simp
      ultimately show ?thesis by linarith
    qed
    then have "sint (?x div ?y) = uint (?x div ?y)" unfolding u [symmetric] by (simp only: sint_u64 if_True)
    then show ?thesis unfolding m if_not_P [OF False] sd u .
  qed
qed

end
