(* ===== verification/Number_Text.thy ===== *)
theory Number_Text
  imports Kstring Libgcc
begin

text \<open>
  Numbers as text (\<open>libs/stdlib.cpp\<close>). A pointer into a C string is the list of bytes from it on,
  terminator included; reading past the list is \<open>None\<close>, as is a division by zero. \<open>long\<close> has 32
  bits on this machine, and a sum or product that does not fit wraps. The printing functions
  return the bytes they leave in the caller's buffer, which has to be long enough for them.
\<close>

section \<open>Definitions\<close>

fun skip_space :: "bytes \<Rightarrow> bytes option" where
  "skip_space [] = None"
| "skip_space (c # cs) = (if isspace c then skip_space cs else Some (c # cs))"

definition digit_of :: "byte \<Rightarrow> u32 option" where
  "digit_of c =
     (if isdigit c then Some (ucast c - 48)
      else if isalpha c then Some (ucast (toupper c) - 65 + 10)
      else None)"

text \<open>The \<open>while (*nptr)\<close> loop: the value so far and the rest of the string.\<close>

fun num_loop :: "u32 \<Rightarrow> bytes \<Rightarrow> u32 \<Rightarrow> (u32 \<times> bytes) option" where
  "num_loop base [] result = None"
| "num_loop base (c # cs) result =
     (if c = 0 then Some (result, c # cs)
      else case digit_of c of
        None \<Rightarrow> Some (result, c # cs)
      | Some digit \<Rightarrow> if base \<le> digit then Some (result, c # cs)
                      else num_loop base cs (result * base + digit))"

text \<open>\<open>Validate base\<close>: the prefixes \<open>0x\<close> and \<open>0\<close>.\<close>

definition hex_prefix :: "u32 \<Rightarrow> bytes \<Rightarrow> (u32 \<times> bytes) option" where
  "hex_prefix base s =
     (if base = 0 \<or> base = 16
      then do {
        c \<leftarrow> rd_at s 0;
        if c = 48 then do {
          x \<leftarrow> rd_at s 1;
          if x = 120 \<or> x = 88 then Some (16, drop 2 s) else Some (base, s) }
        else Some (base, s) }
      else Some (base, s))"

definition octal_prefix :: "u32 \<Rightarrow> bytes \<Rightarrow> (u32 \<times> bytes) option" where
  "octal_prefix base s =
     (if base = 0 then do { c \<leftarrow> rd_at s 0; if c = 48 then Some (8, drop 1 s) else Some (10, s) }
      else Some (base, s))"

definition strtol :: "bytes \<Rightarrow> u32 \<Rightarrow> (u32 \<times> bytes) option" where
  "strtol nptr base =
     do { s \<leftarrow> skip_space nptr;
          c \<leftarrow> rd_at s 0;
          let (sign, s1) = (if c = 45 \<or> c = 43 then (if c = 45 then - 1 else 1, drop 1 s) else (1, s)) in do {
            (base2, s2) \<leftarrow> hex_prefix base s1;
            (base3, s3) \<leftarrow> octal_prefix base2 s2;
            (result, s4) \<leftarrow> num_loop base3 s3 0;
            Some (result * sign, s4) } }"

definition strtoul :: "bytes \<Rightarrow> u32 \<Rightarrow> (u32 \<times> bytes) option" where
  "strtoul nptr base =
     do { s \<leftarrow> skip_space nptr;
          (base2, s2) \<leftarrow> hex_prefix base s;
          (base3, s3) \<leftarrow> octal_prefix base2 s2;
          num_loop base3 s3 0 }"

definition atoi :: "bytes \<Rightarrow> u32 option" where
  "atoi str = map_option fst (strtol str 10)"

text \<open>\<open>reverse\<close>: swapping from both ends.\<close>

function reverse_loop :: "bytes \<Rightarrow> nat \<Rightarrow> nat \<Rightarrow> bytes" where
  "reverse_loop str start e =
     (if start < e then reverse_loop (str[start := str ! e, e := str ! start]) (Suc start) (e - 1) else str)"
  by pat_completeness auto
termination by (relation "measure (\<lambda>(str, start, e). e - start)") auto

declare reverse_loop.simps [simp del]

definition reverse :: "bytes \<Rightarrow> nat \<Rightarrow> bytes" where
  "reverse str len = (if len = 0 then str else reverse_loop str 0 (len - 1))"

text \<open>The digits of an unsigned number, last one first, and the text of it.\<close>

definition digit_char :: "bool \<Rightarrow> 'w::len word \<Rightarrow> byte" where
  "digit_char upper_case rem =
     (if 9 < rem then ucast rem + (if upper_case then 65 - 10 else 97 - 10) else ucast rem + 48)"

partial_function (option) udigits :: "'w::len word \<Rightarrow> bool \<Rightarrow> 'w word \<Rightarrow> bytes \<Rightarrow> bytes option" where
  "udigits base upper_case num str =
     (if num = 0 then Some str
      else if base = 0 then None
      else udigits base upper_case (num div base) (str @ [digit_char upper_case (num mod base)]))"

definition itoa_unsigned :: "'w::len word \<Rightarrow> 'w word \<Rightarrow> bool \<Rightarrow> bytes option" where
  "itoa_unsigned num base upper_case =
     (if num = 0 then Some [48, 0]
      else do { str \<leftarrow> udigits base upper_case num []; Some (reverse (str @ [0]) (length str)) })"

definition itoa_u32 :: "u32 \<Rightarrow> u32 \<Rightarrow> bool \<Rightarrow> bytes option" where
  "itoa_u32 num base upper_case = itoa_unsigned num base upper_case"

definition uitoa64 :: "u64 \<Rightarrow> u32 \<Rightarrow> bool \<Rightarrow> bytes option" where
  "uitoa64 num base upper_case = itoa_unsigned num (scast base) upper_case"

text \<open>The signed versions; the remainder of a negative number is negative, or zero.\<close>

definition signed_digit_char :: "bool \<Rightarrow> int \<Rightarrow> byte" where
  "signed_digit_char upper_case rem =
     (if 9 < rem then word_of_int (rem + (if upper_case then 65 - 10 else 97 - 10)) else word_of_int (rem + 48))"

partial_function (option) sdigits :: "int \<Rightarrow> bool \<Rightarrow> int \<Rightarrow> bytes \<Rightarrow> bytes option" where
  "sdigits base upper_case num str =
     (if num = 0 then Some str
      else if base = 0 then None
      else sdigits base upper_case (num sdiv base) (str @ [signed_digit_char upper_case (num smod base)]))"

definition itoa_signed :: "'w::len word \<Rightarrow> int \<Rightarrow> bool \<Rightarrow> bytes option" where
  "itoa_signed num base upper_case =
     (if num = 0 then Some [48, 0]
      else let isNegative = (sint num < 0 \<and> base = 10);
               num' = (if isNegative then - num else num)
      in do { ds \<leftarrow> sdigits base upper_case (sint num') [];
              let str = (if isNegative then ds @ [45] else ds) in
              Some (reverse (str @ [0]) (length str)) })"

definition itoa :: "u32 \<Rightarrow> u32 \<Rightarrow> bool \<Rightarrow> bytes option" where
  "itoa num base upper_case = itoa_signed num (sint base) upper_case"

definition itoa64 :: "u64 \<Rightarrow> u32 \<Rightarrow> bool \<Rightarrow> bytes option" where
  "itoa64 num base upper_case = itoa_signed num (sint base) upper_case"

section \<open>Reversing\<close>

lemma reverse_loop_rev:
  "e < length xs \<Longrightarrow> start \<le> Suc e \<Longrightarrow>
   reverse_loop xs start e = take start xs @ rev (take (Suc e - start) (drop start xs)) @ drop (Suc e) xs"
proof (induction xs start e rule: reverse_loop.induct)
  case (1 xs start e)
  show ?case
  proof (cases "start < e")
    case False
    then have "start = e \<or> start = Suc e" using "1.prems"(2) by auto
    then show ?thesis
    proof
      assume s: "start = e"
      have "take e xs @ xs ! e # drop (Suc e) xs = xs" using "1.prems"(1) by (simp add: id_take_nth_drop [symmetric])
      then show ?thesis using "1.prems"(1) s by (subst reverse_loop.simps) (simp add: take_Suc_conv_app_nth Cons_nth_drop_Suc [symmetric])
    next
      assume "start = Suc e"
      then show ?thesis by (subst reverse_loop.simps) simp
    qed
  next
    case True
    let ?ys = "xs[start := xs ! e, e := xs ! start]"
    have ih: "reverse_loop ?ys (Suc start) (e - 1) =
        take (Suc start) ?ys @ rev (take (Suc (e - 1) - Suc start) (drop (Suc start) ?ys)) @ drop (Suc (e - 1)) ?ys"
      using "1.IH" [OF True] "1.prems" True by simp
    have e: "Suc (e - 1) = e" using True by simp
    have eq: "reverse_loop xs start e = reverse_loop ?ys (Suc start) (e - 1)"
      using True by (subst reverse_loop.simps) simp
    show ?thesis unfolding eq ih e
    proof (rule nth_equalityI)
      show "length (take (Suc start) ?ys @ rev (take (e - Suc start) (drop (Suc start) ?ys)) @ drop e ?ys) =
          length (take start xs @ rev (take (Suc e - start) (drop start xs)) @ drop (Suc e) xs)"
        using "1.prems" True by simp
    next
      fix i assume "i < length (take (Suc start) ?ys @ rev (take (e - Suc start) (drop (Suc start) ?ys)) @ drop e ?ys)"
      then have i: "i < length xs" using "1.prems" True by simp
      have l: "(take (Suc start) ?ys @ rev (take (e - Suc start) (drop (Suc start) ?ys)) @ drop e ?ys) ! i =
          (if i \<le> start then ?ys ! i else if i < e then ?ys ! (start + e - i) else ?ys ! i)"
        using i "1.prems" True
        by (auto simp: nth_append rev_nth min_def not_less le_Suc_eq algebra_simps intro!: arg_cong [where f = "nth xs"])
      have r: "(take start xs @ rev (take (Suc e - start) (drop start xs)) @ drop (Suc e) xs) ! i =
          (if i < start then xs ! i else if i \<le> e then xs ! (start + e - i) else xs ! i)"
        using i "1.prems" True
        by (auto simp: nth_append rev_nth min_def not_less le_Suc_eq algebra_simps intro!: arg_cong [where f = "nth xs"])
      show "(take (Suc start) ?ys @ rev (take (e - Suc start) (drop (Suc start) ?ys)) @ drop e ?ys) ! i =
          (take start xs @ rev (take (Suc e - start) (drop start xs)) @ drop (Suc e) xs) ! i"
        unfolding l r using i True "1.prems" by (auto simp: nth_list_update)
    qed
  qed
qed

lemma reverse_rev: "reverse (xs @ [z]) (length xs) = rev xs @ [z]"
  by (cases xs) (simp_all add: reverse_def reverse_loop_rev)

section \<open>Printing and parsing\<close>

lemma digit_of_char_small: "list_all (\<lambda>n. digit_of (digit_char up (word_of_nat n :: u32)) = Some (word_of_nat n)) [0..<36]"
  by (cases up) (simp_all add: upt_conv_Cons digit_of_def digit_char_def isdigit_def isalpha_def toupper_def islower_def)

lemma digit_char_nonzero_small:
  "list_all (\<lambda>n. let c = digit_char up (word_of_nat n :: u32) in c \<noteq> 0 \<and> \<not> isspace c \<and> c \<noteq> 45 \<and> c \<noteq> 43 \<and> (c = 48) = (n = 0)) [0..<36]"
  by (cases up) (simp_all add: upt_conv_Cons digit_char_def isspace_def Let_def)

lemma digit_of_char:
  assumes "unat (d :: u32) < 36"
  shows "digit_of (digit_char up d) = Some d" "digit_char up d \<noteq> 0" "\<not> isspace (digit_char up d)"
    "digit_char up d \<noteq> 45" "digit_char up d \<noteq> 43" "digit_char up d = 48 \<longleftrightarrow> d = 0"
proof -
  have m: "unat d \<in> set [0..<36]" using assms by simp
  have d: "word_of_nat (unat d) = d" by simp
  have z: "unat d = 0 \<longleftrightarrow> d = 0" by (simp add: unsigned_eq_0_iff)
  show "digit_of (digit_char up d) = Some d"
    using digit_of_char_small [of up, unfolded list_all_iff, rule_format, OF m] by (simp only: d)
  note f = digit_char_nonzero_small [of up, unfolded list_all_iff, rule_format, OF m, unfolded d Let_def z]
  show "digit_char up d \<noteq> 0" "\<not> isspace (digit_char up d)"
    "digit_char up d \<noteq> 45" "digit_char up d \<noteq> 43" "digit_char up d = 48 \<longleftrightarrow> d = 0"
    using f by blast+
qed

text \<open>The digits of a number, last one first.\<close>

function digs :: "u32 \<Rightarrow> u32 \<Rightarrow> u32 list" where
  "digs base num = (if num = 0 \<or> base < 2 then [] else num mod base # digs base (num div base))"
  by pat_completeness auto
termination
proof (relation "measure (\<lambda>(base, num). unat num)")
  fix base num :: u32
  assume "\<not> (num = 0 \<or> base < 2)"
  then have "0 < unat num" "2 \<le> unat base" by (simp_all add: unat_gt_0 word_less_nat_alt not_less)
  then show "((base, num div base), base, num) \<in> measure (\<lambda>(base, num). unat num)" by (simp add: unat_div)
qed simp

declare digs.simps [simp del]

lemma udigits_digs: "2 \<le> base \<Longrightarrow> udigits base up num str = Some (str @ map (digit_char up) (digs base num))"
proof (induction base num arbitrary: str rule: digs.induct)
  case (1 base num)
  then show ?case
    by (subst udigits.simps, subst digs.simps) (auto simp: not_less)
qed

lemma digs_less: "d \<in> set (digs base num) \<Longrightarrow> 2 \<le> base \<Longrightarrow> d < base"
proof (induction base num rule: digs.induct)
  case (1 base num)
  have "0 < base" using "1.prems"(2) by (simp add: word_less_nat_alt word_le_nat_alt)
  then have "num mod base < base" by (simp add: word_less_nat_alt unat_mod)
  then show ?case using 1 by (subst (asm) digs.simps) (auto split: if_splits)
qed

definition horner :: "u32 \<Rightarrow> u32 list \<Rightarrow> u32 \<Rightarrow> u32" where
  "horner base ds r = foldl (\<lambda>r d. r * base + d) r ds"

lemma horner_digs: "2 \<le> base \<Longrightarrow> horner base (rev (digs base num)) 0 = num"
proof (induction base num rule: digs.induct)
  case (1 base num)
  show ?case
  proof (cases "num = 0")
    case True
    then show ?thesis by (subst digs.simps) (simp add: horner_def)
  next
    case False
    have "\<not> base < 2" using "1.prems" by simp
    then have "horner base (rev (digs base num)) 0 = num div base * base + num mod base"
      using 1 False by (subst digs.simps) (simp add: horner_def)
    then show ?thesis by (simp only: div_mult_mod_eq)
  qed
qed

lemma num_loop_digits:
  assumes "\<forall>d \<in> set ds. d < base" and "unat base \<le> 36"
  shows "num_loop base (map (digit_char up) ds @ [0]) r = Some (horner base ds r, [0])"
  using assms(1)
proof (induction ds arbitrary: r)
  case Nil
  then show ?case by (simp add: horner_def)
next
  case (Cons d ds)
  have "unat d < 36" using Cons.prems assms(2) by (simp add: word_less_nat_alt)
  then show ?case using Cons digit_of_char [of d up] by (simp add: horner_def not_le)
qed

lemma digs_nonempty: "num \<noteq> 0 \<Longrightarrow> 2 \<le> base \<Longrightarrow> digs base num \<noteq> [] \<and> last (digs base num) \<noteq> 0"
proof (induction base num rule: digs.induct)
  case (1 base num)
  have nb: "\<not> base < 2" using "1.prems"(2) by simp
  have e: "digs base num = num mod base # digs base (num div base)" using "1.prems"(1) nb by (subst digs.simps) simp
  show ?case
  proof (cases "num div base = 0")
    case True
    then have "num mod base = num" using div_mult_mod_eq [of num base] by simp
    moreover have "digs base (num div base) = []" using True by (subst digs.simps) simp
    ultimately show ?thesis using e "1.prems"(1) by simp
  next
    case False
    then show ?thesis using 1 nb e by simp
  qed
qed

text \<open>What the printing function leaves in the buffer.\<close>

lemma itoa_u32_text:
  assumes "num \<noteq> 0" and "2 \<le> base"
  shows "itoa_u32 num base up = Some (map (digit_char up) (rev (digs base num)) @ [0])"
proof -
  let ?s = "map (digit_char up) (digs base num)"
  have "udigits base up num [] = Some ?s" using udigits_digs [OF assms(2)] by simp
  then show ?thesis using assms(1) reverse_rev [of ?s 0] by (simp add: itoa_u32_def itoa_unsigned_def rev_map)
qed

lemma strtoul_itoa:
  assumes "2 \<le> base" and "unat base \<le> 36"
  shows "\<exists>s. itoa_u32 num base up = Some s \<and> strtoul s base = Some (num, [0])"
proof (cases "num = 0")
  case True
  have b: "base \<noteq> 0" using assms(1) by auto
  have "num_loop b [48, 0] 0 = Some (0, [0])" if "2 \<le> b" for b
    using that by (auto simp: digit_of_def isdigit_def word_le_nat_alt)
  from this [of base] this [of 16] assms(1) show ?thesis using True b
    by (simp add: itoa_u32_def itoa_unsigned_def strtoul_def isspace_def hex_prefix_def octal_prefix_def rd_at_def
        del: num_loop.simps)
next
  case False
  let ?ds = "rev (digs base num)"
  have ne: "?ds \<noteq> []" "hd ?ds \<noteq> 0" using digs_nonempty [OF False assms(1)] by (simp_all add: hd_rev)
  obtain d ds where ds: "?ds = d # ds" using ne(1) by (cases ?ds) auto
  have lt: "\<forall>x \<in> set ?ds. x < base" using digs_less assms(1) by auto
  then have d36: "unat d < 36" using assms(2) by (simp add: ds word_less_nat_alt)
  note c = digit_of_char [OF d36, of up]
  let ?s = "map (digit_char up) ?ds @ [0]"
  have "skip_space ?s = Some ?s" using c(3) by (simp add: ds)
  moreover have "digit_char up d \<noteq> 48" using c(6) ne(2) by (simp add: ds)
  then have "hex_prefix base ?s = Some (base, ?s)" by (simp add: hex_prefix_def rd_at_def ds)
  moreover have "octal_prefix base ?s = Some (base, ?s)" using assms(1) by (auto simp: octal_prefix_def)
  ultimately have "strtoul ?s base = num_loop base ?s 0" by (simp add: strtoul_def)
  then have "strtoul ?s base = Some (num, [0])"
    using num_loop_digits [OF lt assms(2)] horner_digs [OF assms(1)] by simp
  then show ?thesis using itoa_u32_text [OF False assms(1)] by blast
qed

section \<open>Signed numbers in base ten\<close>

lemma sint_u32: "sint (a :: u32) = (if uint a < 2147483648 then uint a else uint a - 4294967296)"
proof -
  have u: "0 \<le> uint a" "uint a < 4294967296" using uint_lt2p [of a] by simp_all
  have "sint a = (uint a + 2147483648) mod 4294967296 - 2147483648"
    using int_word_sint [of "uint a", where 'a = 32] by simp
  moreover have "(uint a + 2147483648) mod 4294967296 =
      (if uint a < 2147483648 then uint a + 2147483648 else uint a - 2147483648)"
  proof (cases "uint a < 2147483648")
    case True
    then show ?thesis using u by simp
  next
    case False
    have "(uint a + 2147483648) mod 4294967296 = (uint a - 2147483648 + 4294967296) mod 4294967296"
      by (simp add: add.commute)
    also have "\<dots> = uint a - 2147483648" using u False by (simp only: mod_add_self2) (simp add: mod_pos_pos_trivial)
    finally show ?thesis using False by simp
  qed
  ultimately show ?thesis by simp
qed

lemma sint_u32_abs:
  assumes "sint (a :: u32) \<noteq> - 2147483648"
  shows "sint (if sint a < 0 then - a else a) = int (unat (if sint a < 0 then - a else a))"
proof (cases "sint a < 0")
  case False
  then have "uint a < 2147483648" using uint_lt2p [of a] by (auto simp: sint_u32 split: if_splits)
  then show ?thesis using False by (simp add: sint_u32)
next
  case True
  then have u: "2147483648 < uint a" "uint a < 4294967296"
    using assms uint_lt2p [of a] by (auto simp: sint_u32 split: if_splits)
  have "uint (- a) = (- uint a) mod 4294967296" by (simp add: uint_word_ariths)
  also have "\<dots> = (4294967296 - uint a) mod 4294967296" by (simp add: minus_mod_eq_mult_div)
  also have "\<dots> = 4294967296 - uint a" using u by (intro mod_pos_pos_trivial) simp_all
  finally have "uint (- a) < 2147483648" using u by linarith
  then show ?thesis using True by (simp add: sint_u32)
qed

lemma signed_digit_char_unat:
  assumes "unat (d :: u32) < 36"
  shows "signed_digit_char up (int (unat d)) = digit_char up d"
proof -
  have e: "(word_of_int (int (unat d)) :: u8) = ucast d" by simp
  have "9 < int (unat d) \<longleftrightarrow> 9 < unat d" by linarith
  also have "9 < unat d \<longleftrightarrow> 9 < d" by (simp add: word_less_nat_alt)
  finally have "9 < int (unat d) \<longleftrightarrow> 9 < d" .
  then show ?thesis by (simp add: signed_digit_char_def digit_char_def e)
qed

lemma sdigits_udigits: "base = 10 \<Longrightarrow> sdigits 10 up (int (unat (w :: u32))) str = udigits base up w str"
proof (induction base w arbitrary: str rule: digs.induct)
  case (1 base w)
  show ?case
  proof (cases "w = 0")
    case True
    then show ?thesis by (subst udigits.simps, subst sdigits.simps) simp
  next
    case False
    have "0 < int (unat w)" using False by (simp only: of_nat_0_less_iff unat_gt_0) simp
    then have dv: "int (unat w) sdiv 10 = int (unat (w div 10))" "int (unat w) smod 10 = int (unat (w mod 10))"
      by (simp_all add: signed_divide_int_def signed_modulo_int_def sgn_if unat_div unat_mod zdiv_int zmod_int)
    have "unat (w mod 10) < 10" by (simp add: unat_mod)
    then have c: "signed_digit_char up (int (unat (w mod 10))) = digit_char up (w mod 10)"
      by (intro signed_digit_char_unat) simp
    have z: "int (unat w) \<noteq> 0" using False by (simp add: unsigned_eq_0_iff)
    have ih: "sdigits 10 up (int (unat (w div 10))) (str @ [digit_char up (w mod 10)]) =
        udigits base up (w div 10) (str @ [digit_char up (w mod 10)])"
      using 1 False by simp
    have "sdigits 10 up (int (unat w)) str = sdigits 10 up (int (unat (w div 10))) (str @ [digit_char up (w mod 10)])"
      by (subst sdigits.simps) (simp only: z dv c if_False simp_thms, simp)
    also have "\<dots> = udigits base up w str"
      unfolding ih using False 1(2) by (subst (2) udigits.simps) simp
    finally show ?thesis .
  qed
qed

lemma itoa_text:
  assumes "num \<noteq> 0" and "sint num \<noteq> - 2147483648"
  shows "itoa num 10 up = Some ((if sint num < 0 then [45] else []) @
    map (digit_char up) (rev (digs 10 (if sint num < 0 then - num else num))) @ [0])"
proof -
  let ?n = "if sint num < 0 then - num else num"
  let ?ds = "map (digit_char up) (digs 10 ?n)"
  have pos: "sint ?n = int (unat ?n)" using assms(2) sint_u32_abs [of num] by simp
  have d: "sdigits 10 up (sint ?n) [] = Some ?ds"
    unfolding pos using sdigits_udigits [OF refl, of up ?n "[]"] udigits_digs [of 10 up ?n "[]"] by simp
  have t: "sint (10 :: u32) = 10" by simp
  show ?thesis
  proof (cases "sint num < 0")
    case True
    then show ?thesis using d assms(1) reverse_rev [of "?ds @ [45]" 0] by (simp add: itoa_def itoa_signed_def t rev_map)
  next
    case False
    then show ?thesis using d assms(1) reverse_rev [of ?ds 0] by (simp add: itoa_def itoa_signed_def t rev_map)
  qed
qed

lemma strtol_digits:
  assumes "n \<noteq> 0"
  shows "strtol (map (digit_char up) (rev (digs 10 n)) @ [0]) 10 = Some (n, [0])"
    "strtol (45 # map (digit_char up) (rev (digs 10 n)) @ [0]) 10 = Some (- n, [0])"
proof -
  let ?ds = "rev (digs 10 n)"
  have b: "(2 :: u32) \<le> 10" "unat (10 :: u32) \<le> 36" by simp_all
  have ne: "?ds \<noteq> []" using digs_nonempty [OF assms b(1)] by simp
  obtain d ds where ds: "?ds = d # ds" using ne by (cases ?ds) auto
  have lt: "\<forall>x \<in> set ?ds. x < 10" using digs_less b(1) by auto
  then have d36: "unat d < 36" by (simp add: ds word_less_nat_alt)
  note c = digit_of_char [OF d36, of up]
  have nl: "num_loop 10 (map (digit_char up) ?ds @ [0]) 0 = Some (n, [0])"
    using num_loop_digits [OF lt b(2)] horner_digs [OF b(1)] by simp
  have pre: "hex_prefix 10 s = Some (10, s)" "octal_prefix 10 s = Some (10, s)" for s
    by (simp_all add: hex_prefix_def octal_prefix_def)
  show "strtol (map (digit_char up) ?ds @ [0]) 10 = Some (n, [0])"
    using c(3-5) nl by (simp add: strtol_def ds rd_at_def pre del: num_loop.simps)
  show "strtol (45 # map (digit_char up) ?ds @ [0]) 10 = Some (- n, [0])"
    using nl by (simp add: strtol_def rd_at_def isspace_def pre del: num_loop.simps)
qed

lemma atoi_itoa:
  assumes "sint num \<noteq> - 2147483648"
  shows "\<exists>s. itoa num 10 up = Some s \<and> atoi s = Some num"
proof (cases "num = 0")
  case True
  then show ?thesis
    by (simp add: itoa_def itoa_signed_def atoi_def strtol_def isspace_def rd_at_def hex_prefix_def octal_prefix_def digit_of_def isdigit_def)
next
  case False
  then have "- num \<noteq> 0" by simp
  then show ?thesis
    using itoa_text [OF False assms, of up] strtol_digits [OF False, of up] strtol_digits [of "- num" up]
    by (auto simp: atoi_def)
qed

text \<open>The most negative number has no positive counterpart; its digits come out as other characters.\<close>

lemma itoa_most_negative: "itoa 0x80000000 10 False = Some [45, 46, 47, 44, 41, 44, 40, 45, 42, 44, 40, 0]"
  by (simp add: itoa_def itoa_signed_def sdigits.simps signed_digit_char_def signed_divide_int_def signed_modulo_int_def
      reverse_def reverse_loop.simps)

end
