(* ===== verification/Vfs.thy ===== *)
theory Vfs
  imports Kstring
begin

text \<open>
  The tree of inodes (\<open>core/files/VirtualFileSystemBase.cpp\<close>, \<open>VirtualFileSystem.cpp\<close>), with
  the methods of the base class \<open>InodeBase\<close>. Inodes are a store from addresses to records; a null
  pointer is 0, and following a null or freed pointer is \<open>None\<close>, as is a panic. The heap is the
  list of the addresses it will hand out (empty: it is full) and the list of those given back.
  The device functions behind \<open>FunctionInode\<close> and the contents they produce are not modelled.
\<close>

section \<open>Definitions\<close>

datatype inode_type = Invalid | FIFO | CharacterDevice | Directory | BlockDevice | File | Link

record inode =
  inodeNumber :: u32
  mode :: u32
  itype :: inode_type
  userId :: u32
  groupId :: u32
  superBlock :: u32
  dentries :: "(bytes \<times> u32) list"

record vfs =
  inodes :: "u32 \<Rightarrow> inode option"
  inode_counter :: u32
  superblocks :: "u32 \<Rightarrow> u32 list option"
  rootNode :: u32
  deviceInode :: u32
  binaryInode :: u32
  addresses :: "u32 list"
  freed :: "u32 list"

text \<open>\<open>KMap\<close> keeps its keys in the order of the vectors behind the strings, where \<open>char\<close> is signed.\<close>

fun vec_less :: "bytes \<Rightarrow> bytes \<Rightarrow> bool" where
  "vec_less xs [] = False"
| "vec_less [] (y # ys) = True"
| "vec_less (x # xs) (y # ys) = (sint x < sint y \<or> \<not> sint y < sint x \<and> vec_less xs ys)"

definition name_less :: "bytes \<Rightarrow> bytes \<Rightarrow> bool" where
  "name_less a b = vec_less (rep a) (rep b)"

fun dentry_put :: "bytes \<Rightarrow> 'v \<Rightarrow> (bytes \<times> 'v) list \<Rightarrow> (bytes \<times> 'v) list" where
  "dentry_put k v [] = [(k, v)]"
| "dentry_put k v ((k', v') # ds) =
     (if name_less k k' then (k, v) # (k', v') # ds
      else if name_less k' k then (k', v') # dentry_put k v ds
      else (k', v) # ds)"

fun dentry_find :: "bytes \<Rightarrow> (bytes \<times> 'v) list \<Rightarrow> 'v option" where
  "dentry_find k [] = None"
| "dentry_find k ((k', v') # ds) = (if \<not> name_less k k' \<and> \<not> name_less k' k then Some v' else dentry_find k ds)"

fun dentry_erase :: "bytes \<Rightarrow> (bytes \<times> 'v) list \<Rightarrow> (bytes \<times> 'v) list" where
  "dentry_erase k [] = []"
| "dentry_erase k ((k', v') # ds) =
     (if \<not> name_less k k' \<and> \<not> name_less k' k then ds else (k', v') # dentry_erase k ds)"

definition newInode :: "inode_type \<Rightarrow> u32 \<Rightarrow> u32 \<Rightarrow> u32 \<Rightarrow> vfs \<Rightarrow> u32 \<times> vfs" where
  "newInode t m u g s =
     (case addresses s of
        [] \<Rightarrow> (0, s)
      | a # as \<Rightarrow> (a, s\<lparr>addresses := as, inode_counter := inode_counter s + 1,
          inodes := (inodes s)(a \<mapsto> \<lparr>inodeNumber = inode_counter s, mode = m, itype = t, userId = u, groupId = g,
            superBlock = 0, dentries = []\<rparr>)\<rparr>))"

definition newObject :: "vfs \<Rightarrow> u32 \<times> vfs" where
  "newObject s = (case addresses s of [] \<Rightarrow> (0, s) | a # as \<Rightarrow> (a, s\<lparr>addresses := as\<rparr>))"

definition heap_free :: "u32 \<Rightarrow> vfs \<Rightarrow> vfs" where
  "heap_free p s = (if p = 0 then s else s\<lparr>inodes := (inodes s)(p := None), freed := freed s @ [p]\<rparr>)"

definition deref :: "u32 \<Rightarrow> vfs \<Rightarrow> inode option" where
  "deref p s = (if p = 0 then None else inodes s p)"

definition set_inode :: "u32 \<Rightarrow> inode \<Rightarrow> vfs \<Rightarrow> vfs" where
  "set_inode p i s = s\<lparr>inodes := (inodes s)(p \<mapsto> i)\<rparr>"

definition addDentry :: "u32 \<Rightarrow> bytes \<Rightarrow> u32 \<Rightarrow> vfs \<Rightarrow> vfs option" where
  "addDentry this name dentry s =
     (if dentry = 0 then None
      else do {
        t \<leftarrow> deref this s;
        d \<leftarrow> deref dentry s;
        let s1 = set_inode dentry (d\<lparr>superBlock := superBlock t\<rparr>) s in do {
          t1 \<leftarrow> deref this s1;
          Some (set_inode this (t1\<lparr>dentries := dentry_put name dentry (dentries t1)\<rparr>) s1) } })"

definition getDentry :: "u32 \<Rightarrow> bytes \<Rightarrow> vfs \<Rightarrow> u32 option" where
  "getDentry this name s =
     do { t \<leftarrow> deref this s; Some (case dentry_find name (dentries t) of Some p \<Rightarrow> p | None \<Rightarrow> 0) }"

definition removeDentry :: "u32 \<Rightarrow> bytes \<Rightarrow> vfs \<Rightarrow> (bool \<times> vfs) option" where
  "removeDentry this name s =
     do { t \<leftarrow> deref this s;
          (case dentry_find name (dentries t) of
             None \<Rightarrow> Some (False, s)
           | Some p \<Rightarrow> let s1 = heap_free p s in do {
               t1 \<leftarrow> deref this s1;
               Some (True, set_inode this (t1\<lparr>dentries := dentry_erase name (dentries t1)\<rparr>) s1) }) }"

text \<open>The loop stops at \<open>offset + count\<close> entries after the first \<open>offset\<close>.\<close>

definition getDentries :: "u32 \<Rightarrow> nat \<Rightarrow> nat \<Rightarrow> vfs \<Rightarrow> (bytes \<times> u32) list option" where
  "getDentries this offset count s =
     do { t \<leftarrow> deref this s;
          if offset \<le> length (dentries t) then Some (take (offset + count) (drop offset (dentries t))) else None }"

definition clearDentries :: "u32 \<Rightarrow> vfs \<Rightarrow> vfs option" where
  "clearDentries this s =
     do { t \<leftarrow> deref this s;
          let s1 = fold (\<lambda>(name, p). heap_free p) (dentries t) s in do {
            t1 \<leftarrow> deref this s1; Some (set_inode this (t1\<lparr>dentries := []\<rparr>) s1) } }"

text \<open>\<open>SuperBlockBase\<close>: the inodes of a superblock.\<close>

definition addInode :: "u32 \<Rightarrow> u32 \<Rightarrow> vfs \<Rightarrow> vfs option" where
  "addInode sb p s = do { is \<leftarrow> superblocks s sb; Some (s\<lparr>superblocks := (superblocks s)(sb \<mapsto> is @ [p])\<rparr>) }"

definition removeInode :: "u32 \<Rightarrow> u32 \<Rightarrow> vfs \<Rightarrow> (bool \<times> vfs) option" where
  "removeInode sb p s =
     do { is \<leftarrow> superblocks s sb;
          if p \<in> set is then Some (True, s\<lparr>superblocks := (superblocks s)(sb \<mapsto> remove1 p is)\<rparr>) else Some (False, s) }"

definition allocateInode :: "u32 \<Rightarrow> inode_type \<Rightarrow> u32 \<Rightarrow> u32 \<Rightarrow> u32 \<Rightarrow> vfs \<Rightarrow> (u32 \<times> vfs) option" where
  "allocateInode sb t m u g s =
     (let (p, s1) = newInode t m u g s in
      if p = 0 then Some (0, s1)
      else do {
        i \<leftarrow> deref p s1;
        s2 \<leftarrow> addInode sb p (set_inode p (i\<lparr>superBlock := sb\<rparr>) s1);
        Some (p, s2) })"

definition destroyInode :: "u32 \<Rightarrow> u32 \<Rightarrow> vfs \<Rightarrow> (bool \<times> vfs) option" where
  "destroyInode sb p s =
     do { (found, s1) \<leftarrow> removeInode sb p s;
          Some (if found then (True, heap_free p s1) else (False, s1)) }"

text \<open>\<open>VirtualFileSystem\<close>: inodes by path.\<close>

fun traversePath :: "u32 \<Rightarrow> bytes list \<Rightarrow> vfs \<Rightarrow> u32 option" where
  "traversePath currentInode [] s = Some currentInode"
| "traversePath currentInode (component # components) s =
     do { dentry \<leftarrow> getDentry currentInode component s;
          if dentry = 0 then Some 0 else traversePath dentry components s }"

definition components_of :: "bytes \<Rightarrow> bytes list" where
  "components_of path = ksplit path 0x2F True"

definition getInodeByPath :: "bytes \<Rightarrow> vfs \<Rightarrow> u32 option" where
  "getInodeByPath path s =
     (if rootNode s = 0 then None else traversePath (rootNode s) (components_of path) s)"

definition getParentDirectory :: "u32 \<Rightarrow> bytes list \<Rightarrow> vfs \<Rightarrow> u32 option" where
  "getParentDirectory root path s = (if path = [] then None else traversePath root (butlast path) s)"

definition setInodeByPath :: "bytes \<Rightarrow> u32 \<Rightarrow> vfs \<Rightarrow> (bool \<times> vfs) option" where
  "setInodeByPath path p s =
     (if rootNode s = 0 then None
      else let components = components_of path in
        if components = [] then Some (False, s)
        else do {
          currentInode \<leftarrow> getParentDirectory (rootNode s) components s;
          if currentInode = 0 then Some (False, s)
          else do { s1 \<leftarrow> addDentry currentInode (last components) p s; Some (True, s1) } })"

definition vfs_createDirectory :: "bytes \<Rightarrow> u32 \<Rightarrow> u32 \<Rightarrow> u32 \<Rightarrow> vfs \<Rightarrow> (u32 \<times> vfs) option" where
  "vfs_createDirectory path m u g s =
     (if rootNode s = 0 then None
      else let components = components_of path in
        if components = [] then Some (0, s)
        else do {
          currentInode \<leftarrow> getParentDirectory (rootNode s) components s;
          if currentInode = 0 then Some (0, s)
          else let (directory, s1) = newInode Directory m u g s in do {
            (ok, s2) \<leftarrow> setInodeByPath path directory s1;
            if \<not> ok then Some (0, heap_free directory s2) else Some (directory, s2) } })"

definition getContent :: "bytes \<Rightarrow> vfs \<Rightarrow> (bytes \<times> u32) list option" where
  "getContent path s =
     do { p \<leftarrow> getInodeByPath path s;
          if p = 0 then Some []
          else do { i \<leftarrow> deref p s; if itype i \<noteq> Directory then Some [] else getDentries p 0 100 s } }"

definition getType :: "bytes \<Rightarrow> vfs \<Rightarrow> inode_type option" where
  "getType path s =
     do { p \<leftarrow> getInodeByPath path s;
          if p = 0 then Some Invalid else do { i \<leftarrow> deref p s; Some (itype i) } }"

definition removeInodeByPath :: "bytes \<Rightarrow> vfs \<Rightarrow> (bool \<times> vfs) option" where
  "removeInodeByPath path s =
     do { parentInode \<leftarrow> getParentDirectory (rootNode s) (components_of path) s;
          if parentInode = 0 then Some (False, s)
          else let fileName = last (components_of path) in do {
            p \<leftarrow> getDentry parentInode fileName s;
            if p = 0 then Some (False, s)
            else do {
              (ok, s1) \<leftarrow> removeDentry parentInode fileName s;
              if \<not> ok then Some (False, s1) else Some (True, heap_free p s1) } } }"

text \<open>
  \<open>initialize\<close>: the root, the directories of the device file system and its nodes. The paths are
  the literals of the code. A failed creation deep in the tree is not an error for the caller.
\<close>

definition path_dev :: bytes where "path_dev = [0x2F, 0x64, 0x65, 0x76]"
definition path_bin :: bytes where "path_bin = [0x2F, 0x62, 0x69, 0x6E]"
definition path_test :: bytes where "path_test = path_dev @ [0x2F, 0x74, 0x65, 0x73, 0x74]"
definition path_sub :: bytes where "path_sub = path_dev @ [0x2F, 0x73, 0x75, 0x62, 0x2F]"
definition path_sub_test :: bytes where "path_sub_test = path_sub @ [0x74, 0x65, 0x73, 0x74]"
definition path_proc :: bytes where "path_proc = [0x2F, 0x70, 0x72, 0x6F, 0x63, 0x2F]"
definition path_driver :: bytes where "path_driver = path_proc @ [0x64, 0x72, 0x69, 0x76, 0x65, 0x72]"
definition path_sys :: bytes where "path_sys = [0x2F, 0x73, 0x79, 0x73, 0x2F]"
definition path_class :: bytes where "path_class = path_sys @ [0x63, 0x6C, 0x61, 0x73, 0x73, 0x2F]"
definition path_graphics :: bytes where
  "path_graphics = path_class @ [0x67, 0x72, 0x61, 0x70, 0x68, 0x69, 0x63, 0x73, 0x2F]"
definition path_fb0 :: bytes where "path_fb0 = path_graphics @ [0x66, 0x62, 0x30, 0x2F]"
definition path_modes :: bytes where "path_modes = path_fb0 @ [0x6D, 0x6F, 0x64, 0x65, 0x73]"

definition mkdir_all :: "bytes list \<Rightarrow> vfs \<Rightarrow> vfs option" where
  "mkdir_all paths s = fold_opt (\<lambda>path s. map_option snd (vfs_createDirectory path 0x100 0 0 s)) paths s"

text \<open>\<open>allocateInode\<close> and \<open>setInodeByPath\<close> for \<open>/dev\<close> and \<open>/bin\<close>.\<close>

definition device_directory :: "u32 \<Rightarrow> bytes \<Rightarrow> (u32 \<Rightarrow> vfs \<Rightarrow> vfs) \<Rightarrow> vfs \<Rightarrow> (bool \<times> vfs) option" where
  "device_directory sb path store s =
     do { (d, s1) \<leftarrow> allocateInode sb Directory 0x1A4 0 0 s;
          if d = 0 then Some (False, store d s1) else setInodeByPath path d (store d s1) }"

definition newFunctionInode :: "vfs \<Rightarrow> u32 \<times> vfs" where
  "newFunctionInode s = newInode CharacterDevice 0x1A4 0 0 s"

definition initializeDeviceFileSystem :: "vfs \<Rightarrow> (bool \<times> vfs) option" where
  "initializeDeviceFileSystem s =
     (if rootNode s = 0 then None
      else let (fs, s1) = newObject s in
      if fs = 0 then Some (False, s1)
      else let (sb, s2) = newObject s1 in
      if sb = 0 then Some (False, s2)
      else do {
        (ok, s3) \<leftarrow> device_directory sb path_dev (\<lambda>d s. s\<lparr>deviceInode := d\<rparr>)
                      (s2\<lparr>superblocks := (superblocks s2)(sb \<mapsto> [])\<rparr>);
        if \<not> ok then Some (False, s3)
        else do {
          (ok, s4) \<leftarrow> device_directory sb path_bin (\<lambda>d s. s\<lparr>binaryInode := d\<rparr>) s3;
          if \<not> ok then Some (False, s4)
          else let (testInode, s5) = newFunctionInode s4 in
          if testInode = 0 then Some (False, s5)
          else do {
            (_, s6) \<leftarrow> setInodeByPath path_test testInode s5;
            s7 \<leftarrow> mkdir_all [path_sub] s6;
            (_, s8) \<leftarrow> setInodeByPath path_sub_test testInode s7;
            s9 \<leftarrow> mkdir_all [path_proc, path_driver, path_sys, path_class, path_graphics, path_fb0] s8;
            let (modesInode, s10) = newFunctionInode s9 in
            if modesInode = 0 then Some (False, s10)
            else do { (_, s11) \<leftarrow> setInodeByPath path_modes modesInode s10; Some (True, s11) } } } })"

definition vfs_initialize :: "vfs \<Rightarrow> vfs option" where
  "vfs_initialize s =
     (let (root, s1) = newInode Directory 0x1ED 0 0 s in
      if root = 0 then None else map_option snd (initializeDeviceFileSystem (s1\<lparr>rootNode := root\<rparr>)))"

section \<open>Directory entries\<close>

lemma vec_less_irrefl: "\<not> vec_less a a"
  by (induction a) simp_all

lemma vec_less_total: "\<not> vec_less a b \<Longrightarrow> \<not> vec_less b a \<Longrightarrow> a = b"
proof (induction a b rule: vec_less.induct)
  case (3 x xs y ys)
  then have "sint x = sint y" by auto
  then show ?case using 3 by (auto simp: signed_word_eqI)
next
  case (1 xs)
  then show ?case by (cases xs) auto
qed auto

lemma same_name: "(\<not> name_less a b \<and> \<not> name_less b a) = (a = b)"
proof -
  have "rep a = rep b \<longleftrightarrow> a = b" by (simp add: rep_def)
  then show ?thesis using vec_less_irrefl vec_less_total unfolding name_less_def by metis
qed

lemma name_less_irrefl [simp]: "\<not> name_less a a"
  by (simp add: name_less_def vec_less_irrefl)

lemma dentry_find_map: "dentry_find k ds = map_of ds k"
  by (induction ds) (auto simp: same_name)

lemma dentry_put_find: "dentry_find k (dentry_put k' v ds) = (if k = k' then Some v else dentry_find k ds)"
  unfolding dentry_find_map
proof (induction ds)
  case (Cons d ds)
  obtain a b where d: "d = (a, b)" by (cases d)
  show ?case using Cons same_name [of k' a] by (auto simp: d)
qed auto

text \<open>What adding an entry changes for the walks through the tree: one edge.\<close>

lemma addDentry_spec:
  assumes "deref this s = Some t" and "deref x s = Some d"
  shows "\<exists>s'. addDentry this name x s = Some s' \<and> rootNode s' = rootNode s \<and> freed s' = freed s \<and>
    (\<forall>p c. getDentry p c s' = (if p = this \<and> c = name then Some x else getDentry p c s))"
proof -
  have nz: "this \<noteq> 0" "x \<noteq> 0" using assms by (auto simp: deref_def split: if_splits)
  let ?s1 = "set_inode x (d\<lparr>superBlock := superBlock t\<rparr>) s"
  obtain t1 where t1: "deref this ?s1 = Some t1" "dentries t1 = dentries t"
    using assms nz by (cases "this = x") (auto simp: deref_def set_inode_def)
  let ?s2 = "set_inode this (t1\<lparr>dentries := dentry_put name x (dentries t1)\<rparr>) ?s1"
  have "addDentry this name x s = Some ?s2" using assms nz t1 by (simp add: addDentry_def)
  moreover have "getDentry p c ?s2 = (if p = this \<and> c = name then Some x else getDentry p c s)" for p c
    using assms nz t1 by (auto simp: getDentry_def deref_def set_inode_def dentry_put_find)
  ultimately show ?thesis by (auto simp: set_inode_def)
qed

text \<open>A walk along \<open>cs\<close> from \<open>r\<close> takes the edge \<open>name\<close> out of \<open>p\<close>.\<close>

fun uses_edge :: "u32 \<Rightarrow> bytes \<Rightarrow> u32 \<Rightarrow> bytes list \<Rightarrow> vfs \<Rightarrow> bool" where
  "uses_edge p name r [] s = False"
| "uses_edge p name r (c # cs) s =
     (r = p \<and> c = name \<or> (case getDentry r c s of Some d \<Rightarrow> d \<noteq> 0 \<and> uses_edge p name d cs s | None \<Rightarrow> False))"

lemma traverse_other:
  assumes "\<forall>q c. getDentry q c s' = (if q = p \<and> c = name then Some x else getDentry q c s)"
    and "\<not> uses_edge p name r cs s"
  shows "traversePath r cs s' = traversePath r cs s"
  using assms(2)
proof (induction cs arbitrary: r)
  case (Cons c cs)
  then show ?case using assms(1) by (cases "getDentry r c s") auto
qed simp

lemma traverse_append: "traversePath r (xs @ [c]) s =
    do { m \<leftarrow> traversePath r xs s; if m = 0 \<and> xs \<noteq> [] then Some 0 else traversePath m [c] s }"
proof (induction xs arbitrary: r)
  case (Cons x xs)
  show ?case
  proof (cases "getDentry r x s")
    case (Some d)
    have "traversePath d xs s = Some 0 \<Longrightarrow> xs = [] \<Longrightarrow> d = 0" by simp
    then show ?thesis using Some Cons by (cases "traversePath d xs s") auto
  qed simp
qed simp

lemma set_then_get:
  assumes root: "rootNode s \<noteq> 0" and c: "components_of path \<noteq> []"
    and parent: "traversePath (rootNode s) (butlast (components_of path)) s = Some p" "deref p s = Some t"
    and x: "deref x s = Some d"
    and once: "\<not> uses_edge p (last (components_of path)) (rootNode s) (butlast (components_of path)) s"
  shows "\<exists>s'. setInodeByPath path x s = Some (True, s') \<and> getInodeByPath path s' = Some x \<and> freed s' = freed s \<and>
    (\<forall>other. \<not> uses_edge p (last (components_of path)) (rootNode s) (components_of other) s \<longrightarrow>
       getInodeByPath other s' = getInodeByPath other s)"
proof -
  let ?cs = "components_of path"
  have pz: "p \<noteq> 0" and xz: "x \<noteq> 0" using parent(2) x by (auto simp: deref_def split: if_splits)
  obtain s' where s': "addDentry p (last ?cs) x s = Some s'" "rootNode s' = rootNode s" "freed s' = freed s"
    "\<forall>q c. getDentry q c s' = (if q = p \<and> c = last ?cs then Some x else getDentry q c s)"
    using addDentry_spec [OF parent(2) x] by blast
  have "setInodeByPath path x s = Some (True, s')"
    using root c parent(1) pz s'(1) by (simp add: setInodeByPath_def getParentDirectory_def)
  moreover have "traversePath (rootNode s) ?cs s' = Some x"
  proof -
    have b: "traversePath (rootNode s) (butlast ?cs) s' = Some p"
      using traverse_other [OF s'(4) once] parent(1) by simp
    have "traversePath (rootNode s) (butlast ?cs @ [last ?cs]) s' = Some x"
      unfolding traverse_append using b pz s'(4) xz by simp
    then show ?thesis using c by simp
  qed
  then have "getInodeByPath path s' = Some x" using root s'(2) by (simp add: getInodeByPath_def)
  moreover have "getInodeByPath other s' = getInodeByPath other s"
    if "\<not> uses_edge p (last ?cs) (rootNode s) (components_of other) s" for other
    using traverse_other [OF s'(4) that] s'(2) by (simp add: getInodeByPath_def)
  ultimately show ?thesis using s'(3) by blast
qed

text \<open>Removing an inode by its path gives it back to the heap twice.\<close>

lemma remove_frees_twice:
  assumes "components_of path \<noteq> []" "traversePath (rootNode s) (butlast (components_of path)) s = Some p" "deref p s = Some t"
    and "getDentry p (last (components_of path)) s = Some x" "x \<noteq> 0" "x \<noteq> p"
  shows "\<exists>s'. removeInodeByPath path s = Some (True, s') \<and> freed s' = freed s @ [x, x]"
proof -
  have pz: "p \<noteq> 0" using assms(3) by (auto simp: deref_def split: if_splits)
  have f: "dentry_find (last (components_of path)) (dentries t) = Some x"
    using assms(3-5) by (auto simp: getDentry_def split: option.splits)
  have "deref p (heap_free x s) = Some t"
    using assms(3,5,6) by (auto simp: deref_def heap_free_def split: if_splits)
  then show ?thesis
    using assms pz f by (simp add: removeInodeByPath_def getParentDirectory_def removeDentry_def)
      (simp add: heap_free_def set_inode_def)
qed

end
