(* ===== verification/Kernel_Laws.thy ===== *)
theory Kernel_Laws
  imports Libgcc Number_Text Vfs
begin

text \<open>
  The properties of the services around storage and memory: 64-bit division, numbers as text
  and the tree of inodes.
\<close>

section \<open>Division and numbers\<close>

text \<open>C30: The division routines of the runtime agree with division on 64-bit words: the unsigned
  ones with \<open>div\<close> and \<open>mod\<close>, the signed ones with truncating division of the signed values, the
  one exception being the quotient that does not fit; the combined routines return both.\<close>

theorem division_exact:
  assumes "b \<noteq> 0"
  shows "udivmoddi4 a b (Some r) = (a div b, Some (a mod b)) \<and>
    (\<exists>q m. divmoddi4 a b (Some r) = (q, Some m) \<and> sint m = sint a smod sint b \<and>
       (if sint a = - 9223372036854775808 \<and> sint b = - 1 then q = a else sint q = sint a sdiv sint b))"
proof -
  have u: "udivmoddi4 a b (Some r) = (a div b, Some (a mod b))"
    using assms udivdi3_exact [OF assms, of a] umoddi3_exact [OF assms, of a] by (simp add: udivmoddi4_def)
  have q: "divdi3 a b = a" if "sint a = - 9223372036854775808" "sint b = - 1"
  proof -
    have "b = - 1" using that(2) by (simp add: signed_word_eqI)
    moreover have "a = 0x8000000000000000" using that(1) by (simp add: signed_word_eqI)
    ultimately show ?thesis by (simp add: divdi3_def udivdi3_exact sless_0)
  qed
  show ?thesis
    using u q assms moddi3_exact [OF assms, of a] divdi3_exact [OF assms, of a] by (simp add: divmoddi4_def)
qed

lemma division_exact_witness:
  "udivmoddi4 1000000007 97 (Some 0) = (10309278, Some 41) \<and>
   (\<exists>q m. divmoddi4 (- 1000000007) 97 (Some 0) = (q, Some m) \<and> sint m = - 41 \<and> sint q = - 10309278)"
proof -
  have u: "udivmoddi4 1000000007 97 (Some 0) = (10309278, Some 41)"
    using division_exact [of 97 1000000007 0] by simp
  show ?thesis
    using u division_exact [of 97 "- 1000000007" 0] by (auto simp: signed_divide_int_def signed_modulo_int_def)
qed

text \<open>What the kernel prints it reads back: an unsigned number in every base from 2 to 36, and a
  signed number in base ten other than the most negative one.\<close>

theorem print_then_parse:
  assumes "2 \<le> base" and "unat base \<le> 36" and "sint z \<noteq> - 2147483648"
  shows "(\<exists>s. itoa_u32 n base up = Some s \<and> strtoul s base = Some (n, [0])) \<and>
    (\<exists>s. itoa z 10 up = Some s \<and> atoi s = Some z)"
  using strtoul_itoa [OF assms(1,2)] atoi_itoa [OF assms(3)] by blast

lemma print_then_parse_witness:
  "(\<exists>s. itoa_u32 0xBEEF 16 False = Some s \<and> strtoul s 16 = Some (0xBEEF, [0])) \<and>
   (\<exists>s. itoa (- 42) 10 False = Some s \<and> atoi s = Some (- 42))"
  using print_then_parse [of 16 "- 42" "0xBEEF" False] by simp

section \<open>Inodes by path\<close>

text \<open>Setting an inode at a path whose parent exists makes the lookup of that path return it, frees
  nothing, and leaves every lookup that does not pass the changed entry as it was.\<close>

lemma set_then_get_inode:
  assumes "rootNode s \<noteq> 0" and "components_of path \<noteq> []"
    and "traversePath (rootNode s) (butlast (components_of path)) s = Some p" and "deref p s = Some t"
    and "deref x s = Some d"
    and "\<not> uses_edge p (last (components_of path)) (rootNode s) (butlast (components_of path)) s"
  shows "\<exists>s'. setInodeByPath path x s = Some (True, s') \<and> getInodeByPath path s' = Some x \<and> freed s' = freed s \<and>
    (\<forall>other. uses_edge p (last (components_of path)) (rootNode s) (components_of other) s \<or>
       getInodeByPath other s' = getInodeByPath other s)"
  using set_then_get [OF assms] by blast

text \<open>A root with the directory \<open>dev\<close>, and a node to be set at \<open>/dev/fb\<close>.\<close>

definition ex_tree :: vfs where
  "ex_tree = \<lparr>inodes = [0x1000 \<mapsto> \<lparr>inodeNumber = 1, mode = 0, itype = Directory, userId = 0, groupId = 0, superBlock = 0,
       dentries = [([0x64, 0x65, 0x76], 0x2000)]\<rparr>,
     0x2000 \<mapsto> \<lparr>inodeNumber = 2, mode = 0, itype = Directory, userId = 0, groupId = 0, superBlock = 0, dentries = []\<rparr>,
     0x3000 \<mapsto> \<lparr>inodeNumber = 3, mode = 0, itype = CharacterDevice, userId = 0, groupId = 0, superBlock = 0, dentries = []\<rparr>],
     inode_counter = 4, superblocks = Map.empty, rootNode = 0x1000, deviceInode = 0, binaryInode = 0, addresses = [], freed = []\<rparr>"

lemma ex_components: "components_of [0x2F, 0x64, 0x65, 0x76, 0x2F, 0x66, 0x62] = [[0x64, 0x65, 0x76], [0x66, 0x62]]"
  by code_simp

lemma set_then_get_inode_witness:
  "\<exists>s'. setInodeByPath [0x2F, 0x64, 0x65, 0x76, 0x2F, 0x66, 0x62] 0x3000 ex_tree = Some (True, s') \<and>
    getInodeByPath [0x2F, 0x64, 0x65, 0x76, 0x2F, 0x66, 0x62] s' = Some 0x3000"
proof -
  let ?dev = "\<lparr>inodeNumber = 2, mode = 0, itype = Directory, userId = 0, groupId = 0, superBlock = 0, dentries = []\<rparr>"
  let ?node = "\<lparr>inodeNumber = 3, mode = 0, itype = CharacterDevice, userId = 0, groupId = 0, superBlock = 0, dentries = []\<rparr>"
  have d: "deref 0x2000 ex_tree = Some ?dev" "deref 0x3000 ex_tree = Some ?node" "rootNode ex_tree \<noteq> 0"
    by (simp_all add: deref_def ex_tree_def)
  have g: "getDentry 0x1000 [0x64, 0x65, 0x76] ex_tree = Some 0x2000"
    by (simp add: getDentry_def deref_def ex_tree_def)
  have r: "rootNode ex_tree = 0x1000" by (simp add: ex_tree_def)
  show ?thesis
    using set_then_get_inode [of ex_tree "[0x2F, 0x64, 0x65, 0x76, 0x2F, 0x66, 0x62]" "0x2000" ?dev "0x3000" ?node] d g
    by (auto simp: ex_components r)
qed

end
