(* ===== verification/Cstring.thy ===== *)
theory Cstring
  imports Kstring
begin

text \<open>
  The C library on memory and strings (\<open>libs/memory.cpp\<close>, \<open>libs/string.cpp\<close>). A pointer that is
  only read through is the list of bytes from it on. Where the code writes, or keeps a pointer
  between calls, the memory is one list and a pointer an index into it, so that source and
  destination may overlap. An access outside the list is \<open>None\<close>; a null pointer that the code
  tests for is an option.
\<close>

section \<open>Memory\<close>

fun memchr :: "bytes \<Rightarrow> byte \<Rightarrow> nat list \<Rightarrow> nat option option" where
  "memchr p value [] = Some None"
| "memchr p value (i # is) = do { b \<leftarrow> rd_at p i; if b = value then Some (Some i) else memchr p value is }"

fun memcmp :: "bytes \<Rightarrow> bytes \<Rightarrow> nat list \<Rightarrow> int option" where
  "memcmp p1 p2 [] = Some 0"
| "memcmp p1 p2 (i # is) =
     do { a \<leftarrow> rd_at p1 i; b \<leftarrow> rd_at p2 i;
          if a \<noteq> b then Some (uint a - uint b) else memcmp p1 p2 is }"

definition copy_byte :: "nat \<Rightarrow> nat \<Rightarrow> nat \<Rightarrow> 'a list \<Rightarrow> 'a list option" where
  "copy_byte d s i mem = do { b \<leftarrow> rd_at mem (s + i); wr_at mem (d + i) b }"

definition memcpy :: "nat \<Rightarrow> nat \<Rightarrow> nat \<Rightarrow> 'a list \<Rightarrow> 'a list option" where
  "memcpy d s num mem = fold_opt (copy_byte d s) [0..<num] mem"

definition memset :: "nat \<Rightarrow> 'a \<Rightarrow> nat \<Rightarrow> 'a list \<Rightarrow> 'a list option" where
  "memset p value num mem = fold_opt (\<lambda>i mem. wr_at mem (p + i) value) [0..<num] mem"

definition memmove :: "nat \<Rightarrow> nat \<Rightarrow> nat \<Rightarrow> 'a list \<Rightarrow> 'a list option" where
  "memmove d s n mem =
     (if d < s then fold_opt (copy_byte d s) [0..<n] mem
      else fold_opt (copy_byte d s) (rev [0..<n]) mem)"

section \<open>Strings that are read\<close>

fun strlen :: "'c::zero list \<Rightarrow> nat option" where
  "strlen [] = None"
| "strlen (c # cs) = (if c = 0 then Some 0 else map_option Suc (strlen cs))"

fun strchr :: "bytes \<Rightarrow> byte \<Rightarrow> nat option option" where
  "strchr [] c = None"
| "strchr (x # xs) c =
     (if x = c then Some (Some 0) else if x = 0 then Some None
      else map_option (map_option Suc) (strchr xs c))"

text \<open>\<open>val\<close> is how the code reads a character for the result: unsigned, or as a \<open>wchar_t\<close>.\<close>

fun strcmp_with :: "('c::zero \<Rightarrow> int) \<Rightarrow> 'c list \<Rightarrow> 'c list \<Rightarrow> int option" where
  "strcmp_with val (a # as) (b # bs) =
     (if a \<noteq> 0 \<and> a = b then strcmp_with val as bs else Some (val a - val b))"
| "strcmp_with val as bs = None"

definition strcmp :: "bytes \<Rightarrow> bytes \<Rightarrow> int option" where
  "strcmp s1 s2 = strcmp_with uint s1 s2"

definition wcscmp :: "u32 list \<Rightarrow> u32 list \<Rightarrow> int option" where
  "wcscmp s1 s2 = strcmp_with sint s1 s2"

fun strncmp :: "bytes \<Rightarrow> bytes \<Rightarrow> nat \<Rightarrow> int option" where
  "strncmp as bs 0 = Some 0"
| "strncmp (a # as) (b # bs) (Suc n) =
     (if a \<noteq> b then Some (uint a - uint b) else if a = 0 then Some 0 else strncmp as bs n)"
| "strncmp as bs (Suc n) = None"

fun strcasecmp :: "bytes \<Rightarrow> bytes \<Rightarrow> int option" where
  "strcasecmp (a # as) (b # bs) =
     (if tolower a = tolower b then if a = 0 then Some 0 else strcasecmp as bs
      else Some (uint (tolower a) - uint (tolower b)))"
| "strcasecmp as bs = None"

fun strncasecmp :: "bytes \<Rightarrow> bytes \<Rightarrow> nat \<Rightarrow> int option" where
  "strncasecmp as bs 0 = Some 0"
| "strncasecmp (a # as) (b # bs) (Suc n) =
     (if tolower a \<noteq> tolower b then Some (uint (tolower a) - uint (tolower b))
      else if a = 0 then Some 0 else strncasecmp as bs n)"
| "strncasecmp as bs (Suc n) = None"

fun strpbrk_in :: "byte \<Rightarrow> bytes \<Rightarrow> bool option" where
  "strpbrk_in c [] = None"
| "strpbrk_in c (a # as) = (if a = 0 then Some False else if c = a then Some True else strpbrk_in c as)"

fun strpbrk :: "bytes \<Rightarrow> bytes \<Rightarrow> nat option option" where
  "strpbrk [] accept = None"
| "strpbrk (c # cs) accept =
     (if c = 0 then Some None
      else do { found \<leftarrow> strpbrk_in c accept;
                if found then Some (Some 0) else map_option (map_option Suc) (strpbrk cs accept) })"

section \<open>Strings that are written\<close>

text \<open>The destination is a buffer of its own; the result is its new contents.\<close>

fun strcpy :: "bytes \<Rightarrow> bytes \<Rightarrow> bytes option" where
  "strcpy (d # ds) (c # cs) = (if c = 0 then Some (0 # ds) else map_option ((#) c) (strcpy ds cs))"
| "strcpy ds cs = None"

text \<open>After the terminator \<open>n\<close> has been decremented once for it and the padding fills the rest.\<close>

fun strncpy :: "bytes \<Rightarrow> bytes \<Rightarrow> nat \<Rightarrow> bytes option" where
  "strncpy ds cs 0 = Some ds"
| "strncpy (d # ds) (c # cs) (Suc n) =
     (if c = 0 then map_option ((#) 0) (if n \<le> length ds then Some (replicate n 0 @ drop n ds) else None)
      else map_option ((#) c) (strncpy ds cs n))"
| "strncpy ds cs (Suc n) = None"

fun strcat :: "bytes \<Rightarrow> bytes \<Rightarrow> bytes option" where
  "strcat [] cs = None"
| "strcat (d # ds) cs = (if d = 0 then strcpy (d # ds) cs else map_option ((#) d) (strcat ds cs))"

text \<open>
  \<open>strtok\<close> and \<open>strsep\<close> write a terminator behind the token they return; the pointer they keep for
  the next call is an index into the same memory, \<open>None\<close> for a null pointer.
\<close>

fun skip_while :: "bool \<Rightarrow> bytes \<Rightarrow> bytes \<Rightarrow> nat option" where
  "skip_while want delim [] = None"
| "skip_while want delim (ch # s) =
     (if ch = 0 then Some 0
      else do { found \<leftarrow> strchr delim ch;
                if (found \<noteq> None) = want then map_option Suc (skip_while want delim s) else Some 0 })"

definition strtok :: "nat option \<Rightarrow> bytes \<Rightarrow> nat option \<Rightarrow> bytes \<Rightarrow> (nat option \<times> nat option \<times> bytes) option" where
  "strtok s delim saved mem =
     (case (if s = None then saved else s) of
        None \<Rightarrow> Some (None, saved, mem)
      | Some p \<Rightarrow> do {
          n \<leftarrow> skip_while True delim (drop p mem);
          let token_start = p + n in do {
            c \<leftarrow> rd_at mem token_start;
            if c = 0 then Some (None, None, mem)
            else do {
              k \<leftarrow> skip_while False delim (drop token_start mem);
              e \<leftarrow> rd_at mem (token_start + k);
              if e \<noteq> 0 then do { mem' \<leftarrow> wr_at mem (token_start + k) 0;
                                  Some (Some token_start, Some (token_start + k + 1), mem') }
              else Some (Some token_start, None, mem) } } })"

function strsep_loop :: "nat \<Rightarrow> bytes \<Rightarrow> bytes \<Rightarrow> (nat option \<times> nat option \<times> bytes) option" where
  "strsep_loop start delim mem =
     (case strpbrk (drop start mem) delim of
        None \<Rightarrow> None
      | Some None \<Rightarrow> Some (Some start, None, mem)
      | Some (Some k) \<Rightarrow>
          (case wr_at mem (start + k) 0 of
             None \<Rightarrow> None
           | Some mem' \<Rightarrow>
               if k \<noteq> 0 then Some (Some start, Some (start + k + 1), mem')
               else strsep_loop (start + 1) delim mem'))"
  by pat_completeness auto
termination
  by (relation "measure (\<lambda>(start, delim, mem). length mem - start)") (auto simp: wr_at_def split: if_splits)

definition strsep :: "nat option \<Rightarrow> bytes \<Rightarrow> bytes \<Rightarrow> (nat option \<times> nat option \<times> bytes) option" where
  "strsep stringp delim mem =
     (case stringp of None \<Rightarrow> Some (None, None, mem) | Some start \<Rightarrow> strsep_loop start delim mem)"

section \<open>Copying\<close>

text \<open>\<open>moved d s\<close> is the memory with the bytes of the indices in \<open>I\<close> copied.\<close>

definition moved :: "nat \<Rightarrow> nat \<Rightarrow> nat set \<Rightarrow> 'a list \<Rightarrow> 'a list" where
  "moved d s I mem = map (\<lambda>j. if d \<le> j \<and> j - d \<in> I then mem ! (s + (j - d)) else mem ! j) [0..<length mem]"

lemma length_moved [simp]: "length (moved d s I mem) = length mem"
  by (simp add: moved_def)

lemma moved_empty [simp]: "moved d s {} mem = mem"
  by (simp add: moved_def map_nth)

lemma moved_range: "s + n \<le> length mem \<Longrightarrow> d + n \<le> length mem \<Longrightarrow>
    Some (moved d s {..<n} mem) = blit mem d (take n (drop s mem))"
  by (auto simp: blit_def moved_def nth_append intro!: nth_equalityI)

lemma copy_byte_moved:
  assumes "s + i < length mem" and "d + i < length mem" and "\<not> (d \<le> s + i \<and> s + i - d \<in> I)"
  shows "copy_byte d s i (moved d s I mem) = Some (moved d s (insert i I) mem)"
proof -
  have "moved d s I mem ! (s + i) = mem ! (s + i)" using assms by (auto simp: moved_def)
  moreover have "(moved d s I mem)[d + i := mem ! (s + i)] = moved d s (insert i I) mem"
    using assms(2) by (intro nth_equalityI) (auto simp: moved_def nth_list_update)
  ultimately show ?thesis using assms by (simp add: copy_byte_def rd_at_def wr_at_def)
qed

lemma copy_up:
  assumes "s + n \<le> length mem" and "d + n \<le> length mem" and "d \<le> s \<or> s + n \<le> d" and "k \<le> n"
  shows "fold_opt (copy_byte d s) [0..<k] mem = Some (moved d s {..<k} mem)"
  using assms(4)
proof (induction k)
  case (Suc k)
  have "\<not> (d \<le> s + k \<and> s + k - d \<in> {..<k})" using assms(3) Suc.prems by auto
  then have "copy_byte d s k (moved d s {..<k} mem) = Some (moved d s (insert k {..<k}) mem)"
    using assms(1,2) Suc.prems by (intro copy_byte_moved) simp_all
  moreover have "insert k {..<k} = {..<Suc k}" by auto
  ultimately show ?case using Suc by (simp add: fold_opt_append)
qed simp

lemma copy_down:
  assumes "s + n \<le> length mem" and "d + n \<le> length mem" and "s \<le> d" and "k \<le> n"
  shows "fold_opt (copy_byte d s) (rev [n - k..<n]) mem = Some (moved d s {n - k..<n} mem)"
  using assms(4)
proof (induction k)
  case (Suc k)
  let ?i = "n - Suc k"
  have up: "[n - Suc k..<n] = ?i # [n - k..<n]" using Suc.prems by (simp add: upt_conv_Cons Suc_diff_Suc)
  have "\<not> (d \<le> s + ?i \<and> s + ?i - d \<in> {n - k..<n})" using assms(3) Suc.prems by auto
  then have "copy_byte d s ?i (moved d s {n - k..<n} mem) = Some (moved d s (insert ?i {n - k..<n}) mem)"
    using assms(1,2) Suc.prems by (intro copy_byte_moved) simp_all
  moreover have "insert ?i {n - k..<n} = {n - Suc k..<n}" using Suc.prems by auto
  ultimately show ?case using Suc unfolding up by (simp add: fold_opt_append)
qed simp

text \<open>\<open>memmove\<close> copies correctly however the ranges overlap, \<open>memcpy\<close> where the source is not overtaken.\<close>

lemma memmove_exact:
  assumes "s + n \<le> length mem" and "d + n \<le> length mem"
  shows "memmove d s n mem = blit mem d (take n (drop s mem))"
proof (cases "d < s")
  case True
  then show ?thesis using copy_up [OF assms, of n] moved_range [OF assms] by (simp add: memmove_def)
next
  case False
  have "{n - n..<n} = {..<n}" by auto
  then show ?thesis using False copy_down [OF assms, of n] moved_range [OF assms] by (simp add: memmove_def)
qed

lemma memcpy_exact:
  assumes "s + n \<le> length mem" and "d + n \<le> length mem" and "d \<le> s \<or> s + n \<le> d"
  shows "memcpy d s n mem = blit mem d (take n (drop s mem))"
  using copy_up [OF assms, of n] moved_range [OF assms(1,2)] by (simp add: memcpy_def)

text \<open>With an overlap upwards it repeats the beginning of the source.\<close>

lemma memcpy_overlap: "memcpy 1 0 3 [a, b, c, d] = Some [a, a, a, a]"
  by (simp add: memcpy_def upt_conv_Cons copy_byte_def rd_at_def wr_at_def)

section \<open>Comparing and copying strings\<close>

abbreviation terminated :: "'c::zero list \<Rightarrow> bool" where
  "terminated s \<equiv> 0 \<in> set s"

abbreviation text_of :: "'c::zero list \<Rightarrow> 'c list" where
  "text_of s \<equiv> takeWhile (\<lambda>c. c \<noteq> 0) s"

lemma strlen_text: "terminated s \<Longrightarrow> strlen s = Some (length (text_of s))"
  by (induction s) auto

lemma strcmp_with_zero:
  "inj val \<Longrightarrow> terminated a \<Longrightarrow> terminated b \<Longrightarrow>
   \<exists>r. strcmp_with val a b = Some r \<and> (r = 0 \<longleftrightarrow> text_of a = text_of b)"
proof (induction val a b rule: strcmp_with.induct)
  case (1 val a as b bs)
  then show ?case by (cases "a \<noteq> 0 \<and> a = b") (auto simp: inj_eq)
qed auto

lemma strcmp_zero:
  "terminated a \<Longrightarrow> terminated b \<Longrightarrow> \<exists>r. strcmp a b = Some r \<and> (r = 0 \<longleftrightarrow> text_of a = text_of b)"
  unfolding strcmp_def by (rule strcmp_with_zero [rotated]) (auto intro: injI simp: word_uint_eq_iff)

lemma strcpy_text:
  "terminated s \<Longrightarrow> length (text_of s) < length d \<Longrightarrow>
   strcpy d s = Some (text_of s @ 0 # drop (Suc (length (text_of s))) d)"
proof (induction d s rule: strcpy.induct)
  case (1 d ds c cs)
  then show ?case by (cases "c = 0") auto
qed auto

lemma strncpy_text:
  "terminated s \<Longrightarrow> length (text_of s) < n \<Longrightarrow> n \<le> length d \<Longrightarrow>
   strncpy d s n = Some (text_of s @ replicate (n - length (text_of s)) 0 @ drop n d)"
proof (induction d s n rule: strncpy.induct)
  case (2 d ds c cs n)
  show ?case
  proof (cases "c = 0")
    case False
    then show ?thesis using 2 by auto
  qed (use 2 in simp)
qed auto

end
