(* ===== verification/Net_Interface.thy ===== *)
theory Net_Interface
  imports Bytes Cstring
begin

text \<open>
  Network interfaces (\<open>core/network/NetworkInterface.cpp\<close>, \<open>NetworkManager.cpp\<close>) and the transmit
  path of the driver (\<open>PCnetDriver.cpp\<close>). An interface is a record in a store, a pointer its
  address. The record \<open>netmgr\<close> is the bottom of the network stack; every protocol above it extends
  it with its own static members, so that a function of a lower layer applies to the state of the
  whole stack.

  The rings the driver shares with the device are in \<open>Card\<close>; here what the device does with
  them is in the state: \<open>ring_free\<close> says of the transmissions to come whether the device has given
  the next descriptor back, \<open>rx\<close> which frames come in during each of the polling periods to come,
  and \<open>sent\<close> holds the frames handed to the device.
\<close>

type_synonym u64 = "64 word"

datatype if_state = Down | Up | Error

record netif =
  if_name :: bytes
  macAddress_of :: bytes
  if_ipAddress :: u32
  if_subnetMask :: u32
  if_gateway :: u32
  if_state :: if_state
  mtu :: u16
  promiscuousMode :: bool
  txPackets :: u64
  rxPackets :: u64
  txBytes :: u64
  rxBytes :: u64
  txErrors :: u32
  rxErrors :: u32
  rxDropped :: u32

record netmgr =
  nm_initialized :: bool
  interfaces :: "u32 list"
  interfaceCount :: u8
  defaultInterface :: u32
  netif_at :: "u32 \<Rightarrow> netif option"
  ring_free :: "bool list"
  sent :: "bytes list"
  rx :: "bytes list list"

section \<open>Interfaces\<close>

definition newNetworkInterface :: "bytes option \<Rightarrow> bytes option \<Rightarrow> netif option" where
  "newNetworkInterface name mac =
     do { n \<leftarrow> (case name of None \<Rightarrow> Some (replicate 16 0) | Some s \<Rightarrow> strncpy (replicate 16 0) s 15);
          m \<leftarrow> (case mac of None \<Rightarrow> Some (replicate 6 0) | Some b \<Rightarrow> slice b 0 6);
          Some \<lparr>if_name = n, macAddress_of = m, if_ipAddress = 0, if_subnetMask = 0, if_gateway = 0, if_state = Down,
            mtu = 1500, promiscuousMode = False, txPackets = 0, rxPackets = 0, txBytes = 0, rxBytes = 0,
            txErrors = 0, rxErrors = 0, rxDropped = 0\<rparr> }"

definition enable :: "netif \<Rightarrow> bool \<times> netif" where
  "enable i = (if if_state i = Error then (False, i) else (True, i\<lparr>if_state := Up\<rparr>))"

definition disable :: "netif \<Rightarrow> bool \<times> netif" where
  "disable i = (True, i\<lparr>if_state := Down\<rparr>)"

definition updateStatistics :: "u32 \<Rightarrow> bool \<Rightarrow> bool \<Rightarrow> netif \<Rightarrow> netif" where
  "updateStatistics n isTx isError i =
     (if isTx
      then if isError then i\<lparr>txErrors := txErrors i + 1\<rparr>
           else i\<lparr>txPackets := txPackets i + 1, txBytes := txBytes i + ucast n\<rparr>
      else if isError then i\<lparr>rxErrors := rxErrors i + 1\<rparr>
           else i\<lparr>rxPackets := rxPackets i + 1, rxBytes := rxBytes i + ucast n\<rparr>)"

definition resetStatistics :: "netif \<Rightarrow> netif" where
  "resetStatistics i = i\<lparr>txPackets := 0, rxPackets := 0, txBytes := 0, rxBytes := 0, txErrors := 0, rxErrors := 0,
     rxDropped := 0\<rparr>"

definition netif_deref :: "u32 \<Rightarrow> 'a netmgr_scheme \<Rightarrow> netif option" where
  "netif_deref p s = (if p = 0 then None else netif_at s p)"

definition netif_update :: "u32 \<Rightarrow> (netif \<Rightarrow> netif) \<Rightarrow> 'a netmgr_scheme \<Rightarrow> 'a netmgr_scheme option" where
  "netif_update p f s = do { i \<leftarrow> netif_deref p s; Some (s\<lparr>netif_at := (netif_at s)(p \<mapsto> f i)\<rparr>) }"

section \<open>The manager\<close>

definition nm_initialize :: "'a netmgr_scheme \<Rightarrow> bool \<times> 'a netmgr_scheme" where
  "nm_initialize s =
     (if nm_initialized s then (True, s)
      else (True, s\<lparr>interfaces := replicate 8 0, interfaceCount := 0, defaultInterface := 0, nm_initialized := True\<rparr>))"

text \<open>The loop over the registered interfaces that compares names: the first index that matches.\<close>

fun find_name :: "bytes \<Rightarrow> nat list \<Rightarrow> 'a netmgr_scheme \<Rightarrow> nat option option" where
  "find_name name [] s = Some None"
| "find_name name (i # is) s =
     do { p \<leftarrow> rd_at (interfaces s) i;
          if p = 0 then find_name name is s
          else do { f \<leftarrow> netif_deref p s; c \<leftarrow> strcmp (if_name f) name;
                    if c = 0 then Some (Some i) else find_name name is s } }"

fun find_pointer :: "u32 \<Rightarrow> nat list \<Rightarrow> 'a netmgr_scheme \<Rightarrow> u8 option" where
  "find_pointer p [] s = Some 0xFF"
| "find_pointer p (i # is) s = do { q \<leftarrow> rd_at (interfaces s) i; if q = p then Some (of_nat i) else find_pointer p is s }"

definition findInterfaceIndex :: "u32 \<Rightarrow> 'a netmgr_scheme \<Rightarrow> u8 option" where
  "findInterfaceIndex p s = find_pointer p [0..<unat (interfaceCount s)] s"

definition registerInterface :: "u32 \<Rightarrow> 'a netmgr_scheme \<Rightarrow> (bool \<times> 'a netmgr_scheme) option" where
  "registerInterface p s =
     (if \<not> nm_initialized s then Some (False, s)
      else if p = 0 then Some (False, s)
      else if 8 \<le> interfaceCount s then Some (False, s)
      else do {
        f \<leftarrow> netif_deref p s;
        same \<leftarrow> find_name (if_name f) [0..<unat (interfaceCount s)] s;
        if same \<noteq> None then Some (False, s)
        else do {
          ifs \<leftarrow> wr_at (interfaces s) (unat (interfaceCount s)) p;
          let s1 = s\<lparr>interfaces := ifs, interfaceCount := interfaceCount s + 1\<rparr> in
          Some (True, if interfaceCount s1 = 1 then s1\<lparr>defaultInterface := p\<rparr> else s1) } })"

definition unregisterInterface :: "u32 \<Rightarrow> 'a netmgr_scheme \<Rightarrow> (bool \<times> 'a netmgr_scheme) option" where
  "unregisterInterface p s =
     (if \<not> nm_initialized s \<or> p = 0 then Some (False, s)
      else do {
        index \<leftarrow> findInterfaceIndex p s;
        if index = 0xFF then Some (False, s)
        else let s1 = (if defaultInterface s = p then s\<lparr>defaultInterface := 0\<rparr> else s) in do {
          ifs \<leftarrow> fold_opt (\<lambda>i ifs. do { q \<leftarrow> rd_at ifs (i + 1); wr_at ifs i q })
                   [unat index..<unat (interfaceCount s1) - 1] (interfaces s1);
          ifs' \<leftarrow> wr_at ifs (unat (interfaceCount s1 - 1)) 0;
          Some (True, s1\<lparr>interfaces := ifs', interfaceCount := interfaceCount s1 - 1\<rparr>) } })"

definition getInterface_name :: "bytes option \<Rightarrow> 'a netmgr_scheme \<Rightarrow> u32 option" where
  "getInterface_name name s =
     (case name of
        None \<Rightarrow> Some 0
      | Some n \<Rightarrow>
          if \<not> nm_initialized s then Some 0
          else do { found \<leftarrow> find_name n [0..<unat (interfaceCount s)] s;
                    (case found of None \<Rightarrow> Some 0 | Some i \<Rightarrow> rd_at (interfaces s) i) })"

definition getInterface :: "u8 \<Rightarrow> 'a netmgr_scheme \<Rightarrow> u32 option" where
  "getInterface index s =
     (if \<not> nm_initialized s \<or> interfaceCount s \<le> index then Some 0 else rd_at (interfaces s) (unat index))"

definition setDefaultInterface :: "u32 \<Rightarrow> 'a netmgr_scheme \<Rightarrow> (bool \<times> 'a netmgr_scheme) option" where
  "setDefaultInterface p s =
     (if \<not> nm_initialized s \<or> p = 0 then Some (False, s)
      else do { index \<leftarrow> findInterfaceIndex p s;
                Some (if index = 0xFF then (False, s) else (True, s\<lparr>defaultInterface := p\<rparr>)) })"

definition setDefaultInterface_name :: "bytes option \<Rightarrow> 'a netmgr_scheme \<Rightarrow> (bool \<times> 'a netmgr_scheme) option" where
  "setDefaultInterface_name name s =
     do { p \<leftarrow> getInterface_name name s; if p = 0 then Some (False, s) else setDefaultInterface p s }"

section \<open>Transmission\<close>

text \<open>The driver: frames below the minimum are padded with zeroes; \<open>len\<close> bytes are read.\<close>

definition driver_sendPacket :: "u32 \<Rightarrow> bytes \<Rightarrow> u32 \<Rightarrow> 'a netmgr_scheme \<Rightarrow> (bool \<times> 'a netmgr_scheme) option" where
  "driver_sendPacket p data len s =
     do { i \<leftarrow> netif_deref p s;
          if if_state i \<noteq> Up then Some (False, s)
          else if 1536 < len then do { s1 \<leftarrow> netif_update p (updateStatistics len True True) s; Some (False, s1) }
          else let txLen = (if len < 60 then 60 else len) in
            (case ring_free s of
               True # answers \<Rightarrow> do {
                 d \<leftarrow> slice data 0 (unat len);
                 s1 \<leftarrow> netif_update p (updateStatistics txLen True False) s;
                 Some (True, s1\<lparr>ring_free := answers, sent := sent s1 @ [d @ replicate (unat (txLen - len)) 0]\<rparr>) }
             | answers \<Rightarrow> do {
                 s1 \<leftarrow> netif_update p (updateStatistics len True True) s;
                 Some (False, s1\<lparr>ring_free := tl answers\<rparr>) }) }"

definition nm_sendPacket :: "bytes \<Rightarrow> u32 \<Rightarrow> 'a netmgr_scheme \<Rightarrow> (bool \<times> 'a netmgr_scheme) option" where
  "nm_sendPacket data len s =
     (if \<not> nm_initialized s then Some (False, s)
      else if defaultInterface s = 0 then Some (False, s)
      else do { i \<leftarrow> netif_deref (defaultInterface s) s;
                if if_state i \<noteq> Up then Some (False, s)
                else driver_sendPacket (defaultInterface s) data len s })"

definition sendPacketTo :: "bytes option \<Rightarrow> bytes \<Rightarrow> u32 \<Rightarrow> 'a netmgr_scheme \<Rightarrow> (bool \<times> 'a netmgr_scheme) option" where
  "sendPacketTo name data len s =
     do { p \<leftarrow> getInterface_name name s;
          if p = 0 then Some (False, s)
          else do { i \<leftarrow> netif_deref p s;
                    if if_state i \<noteq> Up then Some (False, s) else driver_sendPacket p data len s } }"

section \<open>A working link\<close>

definition link_up :: "'a netmgr_scheme \<Rightarrow> bool" where
  "link_up s \<longleftrightarrow> nm_initialized s \<and> defaultInterface s \<noteq> 0 \<and>
     (\<exists>i. netif_at s (defaultInterface s) = Some i \<and> if_state i = Up)"

text \<open>What a successful transmission does to the state.\<close>

definition transmit :: "bytes \<Rightarrow> 'a netmgr_scheme \<Rightarrow> 'a netmgr_scheme" where
  "transmit f s = s\<lparr>ring_free := tl (ring_free s), sent := sent s @ [f @ replicate (60 - length f) 0],
     netif_at := (netif_at s)(defaultInterface s \<mapsto>
       updateStatistics (of_nat (max 60 (length f))) True False (the (netif_at s (defaultInterface s))))\<rparr>"

lemma updateStatistics_state [simp]: "if_state (updateStatistics n t e i) = if_state i" "macAddress_of (updateStatistics n t e i) = macAddress_of i"
  by (simp_all add: updateStatistics_def)

lemma transmit_fields [simp]: "defaultInterface (transmit f s) = defaultInterface s" "ring_free (transmit f s) = tl (ring_free s)"
  "sent (transmit f s) = sent s @ [f @ replicate (60 - length f) 0]" "rx (transmit f s) = rx s"
  by (simp_all add: transmit_def)

lemma link_up_transmit [simp]: "link_up s \<Longrightarrow> link_up (transmit f s)"
  by (auto simp: link_up_def transmit_def)

text \<open>A frame on a link that is up goes out, zero-padded, when the device has a descriptor to spare.\<close>

lemma nm_sendPacket_up:
  assumes up: "link_up s" and free: "ring_free s \<noteq> []" "hd (ring_free s)" and len: "unat n \<le> length data" "unat n \<le> 1514"
  shows "nm_sendPacket data n s = Some (True, transmit (take (unat n) data) s)"
proof -
  obtain i where i: "nm_initialized s" "defaultInterface s \<noteq> 0" "netif_at s (defaultInterface s) = Some i" "if_state i = Up"
    using up by (auto simp: link_up_def)
  obtain r where r: "ring_free s = True # r" using free by (cases "ring_free s") auto
  have n: "\<not> 1536 < n" using len(2) by (simp add: word_less_nat_alt)
  have u: "unat ((if n < 60 then 60 else n) - n) = 60 - unat n"
    by (simp add: word_less_nat_alt unat_sub_if_size word_le_nat_alt)
  have m: "(if n < 60 then 60 else n) = of_nat (max 60 (unat n))"
    by (auto simp: word_less_nat_alt max_def)
  have t: "length (take (unat n) data) = unat n" using len(1) by simp
  show ?thesis
    using i r n len(1) t
    by (simp add: nm_sendPacket_def driver_sendPacket_def netif_deref_def netif_update_def slice_def transmit_def Let_def u [unfolded m] m
        del: of_nat_max)
qed

end
