(* ===== verification/Arp.thy ===== *)
theory Arp
  imports Net_Interface
begin

text \<open>
  Address resolution (\<open>core/network/ARP.cpp\<close>): the table from IP to MAC addresses, the frames
  the kernel builds and what it does with those it receives. The static members extend the
  record of the network manager; a pointer that may be null is an option. Waiting for an answer
  polls the interface; \<open>poll\<close> is what that does to the state, with every layer above. The buffer
  for the resolved address is the result. The messages to the log are not modelled.
\<close>

section \<open>The contract of a table\<close>

text \<open>
  The contract of the small tables of the network stack (addresses here, ports in \<open>Udp\<close>): a map with room for a
  fixed number of keys. A table that keeps it can be filled up to that number.
\<close>

text \<open>Adding one entry after the other, all of them accepted.\<close>

fun put_all :: "('k \<Rightarrow> 'v \<Rightarrow> 's \<Rightarrow> (bool \<times> 's) option) \<Rightarrow> ('k \<times> 'v) list \<Rightarrow> 's \<Rightarrow> 's option" where
  "put_all put [] s = Some s"
| "put_all put ((k, v) # kvs) s = do { (ok, s1) \<leftarrow> put k v s; if ok then put_all put kvs s1 else None }"

locale bounded_table =
  fixes put :: "'k \<Rightarrow> 'v \<Rightarrow> 's \<Rightarrow> (bool \<times> 's) option" and valid_table :: "'s \<Rightarrow> bool"
    and table :: "'s \<Rightarrow> 'k \<Rightarrow> 'v option" and legal :: "'k \<Rightarrow> 'v \<Rightarrow> bool" and room :: nat
  assumes finite_table: "valid_table s \<Longrightarrow> finite (dom (table s))"
    and put_new: "valid_table s \<Longrightarrow> legal k v \<Longrightarrow> k \<notin> dom (table s) \<Longrightarrow> card (dom (table s)) < room \<Longrightarrow>
      \<exists>s'. put k v s = Some (True, s') \<and> valid_table s' \<and> table s' = (table s)(k \<mapsto> v)"
begin

lemma fill:
  assumes "valid_table s" and "distinct (map fst kvs)" and "\<forall>(k, v) \<in> set kvs. legal k v \<and> k \<notin> dom (table s)"
    and "card (dom (table s)) + length kvs \<le> room"
  shows "\<exists>s'. put_all put kvs s = Some s' \<and> valid_table s' \<and> table s' = table s ++ map_of kvs"
  using assms
proof (induction kvs arbitrary: s)
  case (Cons kv kvs)
  obtain k v where kv: "kv = (k, v)" by (cases kv)
  have n: "legal k v" "k \<notin> dom (table s)" "card (dom (table s)) < room" using Cons.prems kv by auto
  obtain s1 where s1: "put k v s = Some (True, s1)" "valid_table s1" "table s1 = (table s)(k \<mapsto> v)"
    using put_new [OF Cons.prems(1) n] by blast
  have "card (dom (table s1)) = Suc (card (dom (table s)))"
    using n(2) finite_table [OF Cons.prems(1)] by (simp add: s1(3) domIff)
  moreover have "\<forall>(k', v') \<in> set kvs. legal k' v' \<and> k' \<notin> dom (table s1)"
    using Cons.prems(2,3) kv by (auto simp: s1(3) image_iff)
  ultimately obtain s' where s': "put_all put kvs s1 = Some s'" "valid_table s'" "table s' = table s1 ++ map_of kvs"
    using Cons.IH [OF s1(2)] Cons.prems(2,4) by auto
  have "k \<notin> dom (map_of kvs)" using Cons.prems(2) kv by (simp add: dom_map_of_conv_image_fst)
  then have "table s' = table s ++ map_of (kv # kvs)"
    by (intro ext) (auto simp: s'(3) s1(3) kv map_add_def split: option.split)
  moreover have "put_all put (kv # kvs) s = Some s'" using s'(1) s1(1) by (simp add: kv)
  ultimately show ?case using s'(2) by blast
qed simp

end

section \<open>Definitions\<close>

record cache_entry =
  ipAddress :: u32
  macAddress :: bytes
  timestamp :: u32
  valid :: bool

record arp = netmgr +
  initialized :: bool
  localIP :: u32
  localMAC :: bytes
  cache :: "cache_entry list"
  cacheCount :: u8
  dummyTime :: u32

definition toBigEndian16 :: "u16 \<Rightarrow> u16" where
  "toBigEndian16 v = push_bit 8 (v AND 0xFF) OR (drop_bit 8 v AND 0xFF)"

definition toBigEndian32 :: "u32 \<Rightarrow> u32" where
  "toBigEndian32 v = push_bit 24 (v AND 0xFF) OR push_bit 8 (v AND 0xFF00) OR
     drop_bit 8 (v AND 0xFF0000) OR (drop_bit 24 v AND 0xFF)"

definition arp_initialize :: "u32 \<Rightarrow> bytes option \<Rightarrow> 'a arp_scheme \<Rightarrow> (bool \<times> 'a arp_scheme) option" where
  "arp_initialize ip mac s =
     (if initialized s then Some (True, s)
      else case mac of
        None \<Rightarrow> Some (False, s)
      | Some m \<Rightarrow> do { m6 \<leftarrow> slice m 0 6;
          Some (True, s\<lparr>localIP := ip, localMAC := m6, cacheCount := 0, initialized := True\<rparr>) })"

fun find_from :: "cache_entry list \<Rightarrow> nat list \<Rightarrow> u32 \<Rightarrow> nat option option" where
  "find_from es [] ip = Some None"
| "find_from es (i # is) ip =
     do { e \<leftarrow> rd_at es i;
          if valid e \<and> ipAddress e = ip then Some (Some i) else find_from es is ip }"

definition findCacheEntry :: "u32 \<Rightarrow> 'a arp_scheme \<Rightarrow> nat option option" where
  "findCacheEntry ip s = find_from (cache s) [0..<unat (cacheCount s)] ip"

definition isCacheEntryExpired :: "cache_entry option \<Rightarrow> bool" where
  "isCacheEntryExpired entry = (entry = None)"

definition getSystemTime :: "'a arp_scheme \<Rightarrow> u32 \<times> 'a arp_scheme" where
  "getSystemTime s = (dummyTime s + 1, s\<lparr>dummyTime := dummyTime s + 1\<rparr>)"

definition addCacheEntry :: "u32 \<Rightarrow> bytes option \<Rightarrow> 'a arp_scheme \<Rightarrow> (bool \<times> 'a arp_scheme) option" where
  "addCacheEntry ip mac s =
     (if \<not> initialized s then Some (False, s)
      else case mac of
        None \<Rightarrow> Some (False, s)
      | Some m \<Rightarrow> do {
          found \<leftarrow> findCacheEntry ip s;
          (case found of
             Some i \<Rightarrow> do {
               m6 \<leftarrow> slice m 0 6;
               e \<leftarrow> rd_at (cache s) i;
               let (t, s1) = getSystemTime s in do {
                 es \<leftarrow> wr_at (cache s1) i (e\<lparr>macAddress := m6, timestamp := t, valid := True\<rparr>);
                 Some (True, s1\<lparr>cache := es\<rparr>) } }
           | None \<Rightarrow>
               if 32 \<le> cacheCount s then Some (False, s)
               else do {
                 m6 \<leftarrow> slice m 0 6;
                 let (t, s1) = getSystemTime s in do {
                   es \<leftarrow> wr_at (cache s1) (unat (cacheCount s1))
                      \<lparr>ipAddress = ip, macAddress = m6, timestamp = t, valid = True\<rparr>;
                   Some (True, s1\<lparr>cache := es, cacheCount := cacheCount s1 + 1\<rparr>) } }) })"

definition clearCache :: "'a arp_scheme \<Rightarrow> 'a arp_scheme option" where
  "clearCache s =
     (if \<not> initialized s then Some s
      else do {
        es \<leftarrow> fold_opt (\<lambda>i es. do { e \<leftarrow> rd_at es i; wr_at es i (e\<lparr>valid := False\<rparr>) })
                [0..<unat (cacheCount s)] (cache s);
        Some (s\<lparr>cache := es, cacheCount := 0\<rparr>) })"

text \<open>The frame of both kinds of packet: Ethernet header, ARP packet, padding to 60 bytes.\<close>

definition arp_frame :: "bytes \<Rightarrow> bytes \<Rightarrow> u16 \<Rightarrow> u32 \<Rightarrow> bytes \<Rightarrow> u32 \<Rightarrow> bytes" where
  "arp_frame destMAC srcMAC operation senderIP targetMAC targetIP =
     destMAC @ srcMAC @ bytes16 (toBigEndian16 0x0806) @
     bytes16 (toBigEndian16 1) @ bytes16 (toBigEndian16 0x0800) @ [6, 4] @ bytes16 (toBigEndian16 operation) @
     srcMAC @ bytes32 (toBigEndian32 senderIP) @ targetMAC @ bytes32 (toBigEndian32 targetIP) @
     replicate 18 0"

definition sendARPRequest :: "u32 \<Rightarrow> 'a arp_scheme \<Rightarrow> (bool \<times> 'a arp_scheme) option" where
  "sendARPRequest targetIP s =
     (if \<not> initialized s then Some (False, s)
      else nm_sendPacket (arp_frame (replicate 6 0xFF) (localMAC s) 1 (localIP s) (replicate 6 0) targetIP) 60 s)"

definition sendARPReply :: "u32 \<Rightarrow> bytes option \<Rightarrow> 'a arp_scheme \<Rightarrow> (bool \<times> 'a arp_scheme) option" where
  "sendARPReply targetIP targetMAC s =
     (if \<not> initialized s then Some (False, s)
      else case targetMAC of
        None \<Rightarrow> Some (False, s)
      | Some m \<Rightarrow> do { m6 \<leftarrow> slice m 0 6;
          nm_sendPacket (arp_frame m6 (localMAC s) 2 (localIP s) m6 targetIP) 60 s })"

definition handleARPPacket :: "bytes \<Rightarrow> u32 \<Rightarrow> 'a arp_scheme \<Rightarrow> (bool \<times> 'a arp_scheme) option" where
  "handleARPPacket frame frameLength s =
     (if \<not> initialized s then Some (False, s)
      else if frameLength < 14 + 28 then Some (False, s)
      else do {
        hardwareType \<leftarrow> get_uint16_t frame 14;
        protocolType \<leftarrow> get_uint16_t frame 16;
        macSize \<leftarrow> get_uint8_t frame 18;
        ipSize \<leftarrow> get_uint8_t frame 19;
        if toBigEndian16 hardwareType \<noteq> 1 \<or> toBigEndian16 protocolType \<noteq> 0x0800 \<or> macSize \<noteq> 6 \<or> ipSize \<noteq> 4
        then Some (False, s)
        else do {
          operation \<leftarrow> get_uint16_t frame 20;
          sender \<leftarrow> get_uint32_t frame 28;
          target \<leftarrow> get_uint32_t frame 38;
          senderMAC \<leftarrow> slice frame 22 6;
          let op = toBigEndian16 operation; senderIP = toBigEndian32 sender; targetIP = toBigEndian32 target in do {
            s1 \<leftarrow> (if op = 1 \<or> op = 2 then map_option snd (addCacheEntry senderIP (Some senderMAC) s) else Some s);
            if op = 1 then
              if targetIP = localIP s1 then do { r \<leftarrow> sendARPReply senderIP (Some senderMAC) s1; Some (True, snd r) }
              else Some (True, s1)
            else if op = 2 then Some (True, s1)
            else Some (False, s1) } } })"

text \<open>The address in the table that \<open>resolveMacAddress\<close> copies out, if there is one.\<close>

definition cached :: "u32 \<Rightarrow> 'a arp_scheme \<Rightarrow> bytes option option" where
  "cached ip s =
     do { found \<leftarrow> findCacheEntry ip s;
          (case found of
             None \<Rightarrow> Some None
           | Some i \<Rightarrow> do { e \<leftarrow> rd_at (cache s) i;
               Some (if valid e \<and> \<not> isCacheEntryExpired (Some e) then Some (macAddress e) else None) }) }"

text \<open>
  The attempts to resolve. The polling loop runs only when there is an interface.
\<close>

fun attempts :: "('a arp_scheme \<Rightarrow> 'a arp_scheme option) \<Rightarrow> u32 \<Rightarrow> nat \<Rightarrow> 'a arp_scheme \<Rightarrow> (bytes option \<times> 'a arp_scheme) option" where
  "attempts poll ip 0 s = Some (None, s)"
| "attempts poll ip (Suc n) s =
     do { (ok, s1) \<leftarrow> sendARPRequest ip s;
          if \<not> ok then attempts poll ip n s1
          else do {
            s2 \<leftarrow> (if defaultInterface s1 = 0 then Some s1 else poll s1);
            c \<leftarrow> cached ip s2;
            (case c of Some m \<Rightarrow> Some (Some m, s2) | None \<Rightarrow> attempts poll ip n s2) } }"

definition resolveMacAddress :: "('a arp_scheme \<Rightarrow> 'a arp_scheme option) \<Rightarrow> u32 \<Rightarrow> 'a arp_scheme \<Rightarrow> (bytes option \<times> 'a arp_scheme) option" where
  "resolveMacAddress poll ip s =
     (if \<not> initialized s then Some (None, s)
      else do {
        c \<leftarrow> cached ip s;
        (case c of Some m \<Rightarrow> Some (Some m, s) | None \<Rightarrow> attempts poll ip 3 s) })"

section \<open>The table as a map\<close>

definition entries :: "'a arp_scheme \<Rightarrow> cache_entry list" where
  "entries s = take (unat (cacheCount s)) (cache s)"

definition arp_map :: "'a arp_scheme \<Rightarrow> u32 \<Rightarrow> bytes option" where
  "arp_map s = map_of (map (\<lambda>e. (ipAddress e, macAddress e)) (entries s))"

definition arp_ok :: "'a arp_scheme \<Rightarrow> bool" where
  "arp_ok s \<longleftrightarrow> initialized s \<and> length (localMAC s) = 6 \<and> length (cache s) = 32 \<and> cacheCount s \<le> 32 \<and>
     distinct (map ipAddress (entries s)) \<and> (\<forall>e \<in> set (entries s). valid e \<and> length (macAddress e) = 6)"

lemma count_le: "arp_ok s \<Longrightarrow> unat (cacheCount s) \<le> 32"
  by (simp add: arp_ok_def word_le_nat_alt)

lemma length_entries: "arp_ok s \<Longrightarrow> length (entries s) = unat (cacheCount s)"
  using count_le [of s] by (simp add: entries_def arp_ok_def)

lemma find_from_spec:
  assumes "\<forall>i \<in> set is. i < length es \<and> valid (es ! i)"
  shows "find_from es is ip = Some (List.find (\<lambda>i. ipAddress (es ! i) = ip) is)"
  using assms by (induction "is") (auto simp: rd_at_def)

lemma findCacheEntry_spec:
  assumes ok: "arp_ok s"
  shows "(findCacheEntry ip s = Some None \<and> ip \<notin> ipAddress ` set (entries s)) \<or>
    (\<exists>i < length (entries s). findCacheEntry ip s = Some (Some i) \<and> ipAddress (entries s ! i) = ip)"
proof -
  have n: "unat (cacheCount s) \<le> 32" "length (cache s) = 32" using count_le [OF ok] ok by (simp_all add: arp_ok_def)
  have e: "entries s ! i = cache s ! i" if "i < unat (cacheCount s)" for i using that by (simp add: entries_def)
  have "valid (cache s ! i)" if "i < unat (cacheCount s)" for i
    using ok that e [OF that] nth_mem [of i "entries s"] length_entries [OF ok] by (force simp: arp_ok_def)
  then have f: "findCacheEntry ip s = Some (List.find (\<lambda>i. ipAddress (cache s ! i) = ip) [0..<unat (cacheCount s)])"
    using n unfolding findCacheEntry_def by (intro find_from_spec) auto
  show ?thesis
  proof (cases "List.find (\<lambda>i. ipAddress (cache s ! i) = ip) [0..<unat (cacheCount s)]")
    case None
    then have "\<forall>i < unat (cacheCount s). ipAddress (cache s ! i) \<noteq> ip" by (auto simp: find_None_iff)
    have "ip \<notin> ipAddress ` set (entries s)"
    proof
      assume "ip \<in> ipAddress ` set (entries s)"
      then obtain i where "i < length (entries s)" "ipAddress (entries s ! i) = ip" by (auto simp: in_set_conv_nth)
      then show False using e [of i] length_entries [OF ok] \<open>\<forall>i < unat (cacheCount s). ipAddress (cache s ! i) \<noteq> ip\<close> by simp
    qed
    then show ?thesis using f None by simp
  next
    case (Some i)
    then have "i < unat (cacheCount s)" "ipAddress (cache s ! i) = ip" by (auto simp: find_Some_iff)
    then show ?thesis using f Some e length_entries [OF ok] by auto
  qed
qed

lemma map_of_replace:
  assumes "distinct (map fst xs)" and "i < length xs" and "fst (xs ! i) = k"
  shows "map_of (xs[i := (k, v)]) = (map_of xs)(k \<mapsto> v)"
  using assms
proof (induction xs arbitrary: i)
  case (Cons x xs)
  show ?case
  proof (cases i)
    case 0
    then show ?thesis using Cons.prems by (cases x) auto
  next
    case (Suc j)
    then have "fst x \<noteq> k" using Cons.prems by auto
    then show ?thesis using Cons Suc by (cases x) (auto simp: fun_upd_twist)
  qed
qed simp

lemma slice_whole: "length m = n \<Longrightarrow> slice m 0 n = Some m"
  by (simp add: slice_def)

text \<open>Nothing but the table has changed.\<close>

definition only_table :: "'a arp_scheme \<Rightarrow> 'a arp_scheme \<Rightarrow> bool" where
  "only_table s s' \<longleftrightarrow> s' = s\<lparr>cache := cache s', cacheCount := cacheCount s', dummyTime := dummyTime s'\<rparr>"

lemma only_table_fields:
  assumes "only_table s s'"
  shows "nm_initialized s' = nm_initialized s" "interfaces s' = interfaces s" "defaultInterface s' = defaultInterface s"
    "netif_at s' = netif_at s" "ring_free s' = ring_free s" "sent s' = sent s" "rx s' = rx s" "localIP s' = localIP s"
    "localMAC s' = localMAC s" "arp.more s' = arp.more s"
  by (subst assms [unfolded only_table_def], simp)+

text \<open>Adding an address is an update of the map, unless the table is full.\<close>

lemma addCacheEntry_spec:
  assumes ok: "arp_ok s" and m: "length m = 6"
  shows "if ip \<in> dom (arp_map s) \<or> cacheCount s < 32
    then \<exists>s'. addCacheEntry ip (Some m) s = Some (True, s') \<and> arp_ok s' \<and> arp_map s' = (arp_map s)(ip \<mapsto> m) \<and>
      localIP s' = localIP s \<and> localMAC s' = localMAC s \<and> only_table s s'
    else addCacheEntry ip (Some m) s = Some (False, s)"
proof -
  have i0: "initialized s" and n: "unat (cacheCount s) \<le> 32" "length (cache s) = 32"
    using count_le [OF ok] ok by (simp_all add: arp_ok_def)
  note le = length_entries [OF ok]
  have dm: "dom (arp_map s) = ipAddress ` set (entries s)"
    by (simp add: arp_map_def dom_map_of_conv_image_fst image_image)
  consider (new) "findCacheEntry ip s = Some None" "ip \<notin> dom (arp_map s)"
    | (old) i where "i < length (entries s)" "findCacheEntry ip s = Some (Some i)" "ipAddress (entries s ! i) = ip"
    using findCacheEntry_spec [OF ok, of ip] by (auto simp: dm)
  then show ?thesis
  proof cases
    case old
    have i: "i < unat (cacheCount s)" "i < 32" using old(1) le n by simp_all
    have ci: "cache s ! i = entries s ! i" using i by (simp add: entries_def)
    let ?e = "(entries s ! i)\<lparr>macAddress := m, timestamp := dummyTime s + 1, valid := True\<rparr>"
    let ?s' = "s\<lparr>dummyTime := dummyTime s + 1, cache := (cache s)[i := ?e]\<rparr>"
    have ent: "entries ?s' = (entries s)[i := ?e]" by (simp add: entries_def take_update_swap)
    have run: "addCacheEntry ip (Some m) s = Some (True, ?s')"
      using i0 old(2) i n m by (simp add: addCacheEntry_def slice_whole rd_at_def wr_at_def getSystemTime_def ci)
    have kf: "map ipAddress (entries ?s') = map ipAddress (entries s)"
      unfolding ent using old(1) by (simp add: map_update list_update_same_conv)
    have "valid e \<and> length (macAddress e) = 6" if "e \<in> set (entries ?s')" for e
      using that set_update_subset_insert [of "entries s" i ?e] ok m unfolding ent by (auto simp: arp_ok_def)
    then have "arp_ok ?s'" using ok kf by (simp add: arp_ok_def)
    moreover have "arp_map ?s' = (arp_map s)(ip \<mapsto> m)"
    proof -
      let ?kv = "\<lambda>e. (ipAddress e, macAddress e)"
      have "map ?kv (entries ?s') = (map ?kv (entries s))[i := (ip, m)]"
        unfolding ent by (simp add: map_update old(3))
      moreover have "distinct (map fst (map ?kv (entries s)))" using ok by (simp add: arp_ok_def comp_def)
      ultimately show ?thesis using map_of_replace [of "map ?kv (entries s)" i ip m] old(1,3) by (simp add: arp_map_def)
    qed
    moreover have "ip \<in> dom (arp_map s)" using old(1,3) by (auto simp: dm)
    moreover have "only_table s ?s'" by (simp add: only_table_def)
    ultimately show ?thesis using run by auto
  next
    case new
    show ?thesis
    proof (cases "cacheCount s < 32")
      case False
      then have "32 \<le> cacheCount s" by simp
      then show ?thesis using i0 new False by (simp add: addCacheEntry_def)
    next
      case True
      let ?n = "unat (cacheCount s)"
      have lt: "?n < 32" using True by (simp add: word_less_nat_alt)
      have n1: "unat (cacheCount s + 1) = Suc ?n" using lt by (simp add: unat_word_ariths)
      let ?e = "\<lparr>ipAddress = ip, macAddress = m, timestamp = dummyTime s + 1, valid = True\<rparr>"
      let ?s' = "s\<lparr>dummyTime := dummyTime s + 1, cache := (cache s)[?n := ?e], cacheCount := cacheCount s + 1\<rparr>"
      have run: "addCacheEntry ip (Some m) s = Some (True, ?s')"
        using i0 new(1) True lt n m by (simp add: addCacheEntry_def slice_whole wr_at_def getSystemTime_def not_le)
      have ent: "entries ?s' = entries s @ [?e]"
        using lt n by (simp add: entries_def n1 take_Suc_conv_app_nth)
      have "cacheCount s + 1 \<le> 32" using lt by (simp add: word_le_nat_alt n1)
      then have "arp_ok ?s'" using ok m new(2) by (auto simp: arp_ok_def ent dm)
      moreover have "arp_map ?s' = (arp_map s)(ip \<mapsto> m)"
      proof
        fix k
        have "arp_map s ip = None" using new(2) by auto
        then show "arp_map ?s' k = ((arp_map s)(ip \<mapsto> m)) k"
          by (auto simp: arp_map_def ent map_add_def split: option.splits)
      qed
      moreover have "only_table s ?s'" by (simp add: only_table_def)
      ultimately show ?thesis using run True by auto
    qed
  qed
qed

lemma cached_spec:
  assumes ok: "arp_ok s"
  shows "cached ip s = Some (arp_map s ip)"
proof -
  have n: "unat (cacheCount s) \<le> 32" "length (cache s) = 32" using count_le [OF ok] ok by (simp_all add: arp_ok_def)
  have d: "distinct (map fst (map (\<lambda>e. (ipAddress e, macAddress e)) (entries s)))" using ok by (simp add: arp_ok_def comp_def)
  from findCacheEntry_spec [OF ok, of ip] show ?thesis
  proof (elim disjE exE conjE)
    assume f: "findCacheEntry ip s = Some None" "ip \<notin> ipAddress ` set (entries s)"
    then have "arp_map s ip = None" by (simp add: arp_map_def map_of_eq_None_iff image_image)
    then show ?thesis using f by (simp add: cached_def)
  next
    fix i assume f: "i < length (entries s)" "findCacheEntry ip s = Some (Some i)" "ipAddress (entries s ! i) = ip"
    have ci: "cache s ! i = entries s ! i" "i < 32" using f(1) length_entries [OF ok] n by (simp_all add: entries_def)
    have v: "valid (entries s ! i)" using ok nth_mem [OF f(1)] by (simp add: arp_ok_def)
    have "(ip, macAddress (entries s ! i)) \<in> set (map (\<lambda>e. (ipAddress e, macAddress e)) (entries s))"
      using f(1,3) by force
    then have "arp_map s ip = Some (macAddress (entries s ! i))" using d unfolding arp_map_def by (rule map_of_is_SomeI [rotated])
    then show ?thesis using f(2) ci n v by (simp add: cached_def rd_at_def isCacheEntryExpired_def)
  qed
qed

text \<open>The table keeps the contract.\<close>

lemma card_arp_map: "arp_ok s \<Longrightarrow> card (dom (arp_map s)) = unat (cacheCount s)"
proof -
  assume ok: "arp_ok s"
  have "dom (arp_map s) = set (map ipAddress (entries s))"
    by (simp add: arp_map_def dom_map_of_conv_image_fst image_image)
  moreover have "distinct (map ipAddress (entries s))" using ok by (simp add: arp_ok_def)
  ultimately show ?thesis using distinct_card [of "map ipAddress (entries s)"] length_entries [OF ok] by simp
qed

interpretation arp_table: bounded_table "\<lambda>ip m. addCacheEntry ip (Some m)" arp_ok arp_map "\<lambda>_ m. length m = 6" 32
proof unfold_locales
  fix s :: "'a arp_scheme" and ip :: u32 and m :: bytes
  show "finite (dom (arp_map s))" by (simp add: arp_map_def finite_dom_map_of)
  assume ok: "arp_ok s" "length m = 6" and room: "card (dom (arp_map s)) < 32"
  then have "cacheCount s < 32" by (simp add: card_arp_map word_less_nat_alt)
  then show "\<exists>s'. addCacheEntry ip (Some m) s = Some (True, s') \<and> arp_ok s' \<and> arp_map s' = (arp_map s)(ip \<mapsto> m)"
    using addCacheEntry_spec [OF ok, of ip] by auto
qed

section \<open>Frames\<close>

lemma toBigEndian16_twice [simp]: "toBigEndian16 (toBigEndian16 v) = v"
proof (rule bit_word_eqI)
  fix n assume "n < LENGTH(16)"
  have m: "(0xFF :: u16) = mask 8" by (simp add: mask_eq_exp_minus_1)
  consider "n < 8" | "8 \<le> n" "n < 16" using \<open>n < LENGTH(16)\<close> by fastforce
  then show "bit (toBigEndian16 (toBigEndian16 v)) n = bit v n"
    unfolding toBigEndian16_def m by cases (auto simp: bit_simps)
qed

lemma toBigEndian32_twice [simp]: "toBigEndian32 (toBigEndian32 v) = v"
proof (rule bit_word_eqI)
  fix n assume n: "n < LENGTH(32)"
  have m: "(0xFF :: u32) = mask 8" "(0xFF00 :: u32) = push_bit 8 (mask 8)" "(0xFF0000 :: u32) = push_bit 16 (mask 8)"
    by (simp_all add: mask_eq_exp_minus_1 push_bit_eq_mult)
  have b1: "bit (toBigEndian32 w) k = bit w (k + 24)" if "k < 8" for w k
    unfolding toBigEndian32_def m using that by (auto simp: bit_simps algebra_simps)
  have b2: "bit (toBigEndian32 w) k = bit w (k + 8)" if "8 \<le> k" "k < 16" for w k
    unfolding toBigEndian32_def m using that by (auto simp: bit_simps algebra_simps)
  have b3: "bit (toBigEndian32 w) k = bit w (k - 8)" if "16 \<le> k" "k < 24" for w k
    unfolding toBigEndian32_def m using that by (auto simp: bit_simps algebra_simps)
  have b4: "bit (toBigEndian32 w) k = bit w (k - 24)" if "24 \<le> k" "k < 32" for w k
    unfolding toBigEndian32_def m using that by (auto simp: bit_simps algebra_simps)
  consider "n < 8" | "8 \<le> n" "n < 16" | "16 \<le> n" "n < 24" | "24 \<le> n" "n < 32" using n by fastforce
  then show "bit (toBigEndian32 (toBigEndian32 v)) n = bit v n"
  proof cases
    case 1
    then show ?thesis using b1 [of n "toBigEndian32 v"] b4 [of "n + 24" v] by simp
  next
    case 2
    then show ?thesis using b2 [of n "toBigEndian32 v"] b3 [of "n + 8" v] by simp
  next
    case 3
    then show ?thesis using b3 [of n "toBigEndian32 v"] b2 [of "n - 8" v] by simp
  next
    case 4
    then show ?thesis using b4 [of n "toBigEndian32 v"] b1 [of "n - 24" v] by simp
  qed
qed

lemma slice_at: "length xs = off \<Longrightarrow> length ys = n \<Longrightarrow> slice (xs @ ys @ zs) off n = Some ys"
  by (auto simp: slice_def)

text \<open>The receiver finds the fields of a frame where the sender put them.\<close>

lemma arp_frame_fields:
  fixes op :: u16 and sip tip :: u32
  assumes l: "length dst = 6" "length src = 6" "length tm = 6"
  defines "f \<equiv> arp_frame dst src op sip tm tip"
  shows "length f = 60" "get_uint16_t f 14 = Some (toBigEndian16 1)" "get_uint16_t f 16 = Some (toBigEndian16 0x0800)"
    "get_uint8_t f 18 = Some 6" "get_uint8_t f 19 = Some 4" "get_uint16_t f 20 = Some (toBigEndian16 op)"
    "get_uint32_t f 28 = Some (toBigEndian32 sip)" "get_uint32_t f 38 = Some (toBigEndian32 tip)"
    "slice f 22 6 = Some src"
proof -
  let ?et = "bytes16 (toBigEndian16 0x0806)" and ?hw = "bytes16 (toBigEndian16 1)" and ?pt = "bytes16 (toBigEndian16 0x0800)"
  let ?op = "bytes16 (toBigEndian16 op)" and ?s = "bytes32 (toBigEndian32 sip)" and ?t = "bytes32 (toBigEndian32 tip)"
  have f: "f = dst @ src @ ?et @ ?hw @ ?pt @ [6, 4] @ ?op @ src @ ?s @ tm @ ?t @ replicate 18 0"
    by (simp add: f_def arp_frame_def)
  show "length f = 60" using l by (simp add: f)
  show "get_uint16_t f 14 = Some (toBigEndian16 1)"
    using slice_at [of "dst @ src @ ?et" 14 ?hw 2] l by (intro get_uint16_slice) (simp add: f)
  show "get_uint16_t f 16 = Some (toBigEndian16 0x0800)"
    using slice_at [of "dst @ src @ ?et @ ?hw" 16 ?pt 2] l by (intro get_uint16_slice) (simp add: f)
  show "get_uint8_t f 18 = Some 6" using l by (simp add: f get_uint8_t_def rd_at_def nth_append)
  show "get_uint8_t f 19 = Some 4" using l by (simp add: f get_uint8_t_def rd_at_def nth_append)
  show "get_uint16_t f 20 = Some (toBigEndian16 op)"
    using slice_at [of "dst @ src @ ?et @ ?hw @ ?pt @ [6, 4]" 20 ?op 2] l by (intro get_uint16_slice) (simp add: f)
  show "slice f 22 6 = Some src"
    using slice_at [of "dst @ src @ ?et @ ?hw @ ?pt @ [6, 4] @ ?op" 22 src 6] l by (simp add: f)
  show "get_uint32_t f 28 = Some (toBigEndian32 sip)"
    using slice_at [of "dst @ src @ ?et @ ?hw @ ?pt @ [6, 4] @ ?op @ src" 28 ?s 4] l by (intro get_uint32_slice) (simp add: f)
  show "get_uint32_t f 38 = Some (toBigEndian32 tip)"
    using slice_at [of "dst @ src @ ?et @ ?hw @ ?pt @ [6, 4] @ ?op @ src @ ?s @ tm" 38 ?t 4] l
    by (intro get_uint32_slice) (simp add: f)
qed

lemma arp_ok_transmit [simp]: "arp_ok (transmit f s) = arp_ok s" "arp_map (transmit f s) = arp_map s"
  "localIP (transmit f s) = localIP s" "localMAC (transmit f s) = localMAC s" "initialized (transmit f s) = initialized s"
  by (simp_all add: arp_ok_def arp_map_def entries_def transmit_def)

text \<open>The messages on a working link.\<close>

definition can_send :: "'a arp_scheme \<Rightarrow> bool" where
  "can_send s \<longleftrightarrow> link_up s \<and> ring_free s \<noteq> [] \<and> hd (ring_free s)"

lemma nm_sendPacket_60:
  "can_send s \<Longrightarrow> length f = 60 \<Longrightarrow> nm_sendPacket f 60 s = Some (True, transmit f s)"
  using nm_sendPacket_up [of s 60 f] by (simp add: can_send_def)

lemma request_step:
  assumes "arp_ok s" and "can_send s"
  shows "sendARPRequest ip s =
    Some (True, transmit (arp_frame (replicate 6 0xFF) (localMAC s) 1 (localIP s) (replicate 6 0) ip) s)"
  using assms arp_frame_fields(1) [of "replicate 6 0xFF" "localMAC s" "replicate 6 0"]
  by (simp add: sendARPRequest_def arp_ok_def nm_sendPacket_60)

text \<open>A request for the own address: the sender is learnt and a reply goes out.\<close>

lemma handle_request:
  assumes ok: "arp_ok s" and l: "length dst = 6" "length src = 6" "length tm = 6"
    and room: "sip \<in> dom (arp_map s) \<or> cacheCount s < 32" and send: "can_send s"
  shows "\<exists>s1. addCacheEntry sip (Some src) s = Some (True, s1) \<and> arp_ok s1 \<and> arp_map s1 = (arp_map s)(sip \<mapsto> src) \<and>
    localIP s1 = localIP s \<and> localMAC s1 = localMAC s \<and> only_table s s1 \<and>
    handleARPPacket (arp_frame dst src 1 sip tm (localIP s)) 60 s =
      Some (True, transmit (arp_frame src (localMAC s) 2 (localIP s) src sip) s1)"
proof -
  obtain s1 where s1: "addCacheEntry sip (Some src) s = Some (True, s1)" "arp_ok s1" "arp_map s1 = (arp_map s)(sip \<mapsto> src)"
    "localIP s1 = localIP s" "localMAC s1 = localMAC s" "only_table s s1"
    using addCacheEntry_spec [OF ok l(2), of sip] room by auto
  have i: "initialized s" "initialized s1" "length (localMAC s) = 6" using ok s1(2) by (simp_all add: arp_ok_def)
  have "can_send s1" using send only_table_fields [OF s1(6)] by (simp add: can_send_def link_up_def)
  then show ?thesis
    using s1 i arp_frame_fields(1) [OF l(2) i(3) l(2)]
    by (simp add: handleARPPacket_def arp_frame_fields [OF l] sendARPReply_def slice_whole l nm_sendPacket_60)
qed

lemma handle_reply:
  assumes ok: "arp_ok s" and l: "length dst = 6" "length src = 6" "length tm = 6"
    and room: "sip \<in> dom (arp_map s) \<or> cacheCount s < 32"
  shows "\<exists>s1. handleARPPacket (arp_frame dst src 2 sip tm tip) 60 s = Some (True, s1) \<and> arp_ok s1 \<and>
    arp_map s1 = (arp_map s)(sip \<mapsto> src) \<and> only_table s s1"
proof -
  obtain s1 where s1: "addCacheEntry sip (Some src) s = Some (True, s1)" "arp_ok s1" "arp_map s1 = (arp_map s)(sip \<mapsto> src)"
    "only_table s s1"
    using addCacheEntry_spec [OF ok l(2), of sip] room by auto
  have i: "initialized s" using ok by (simp add: arp_ok_def)
  show ?thesis using s1 i by (simp add: handleARPPacket_def arp_frame_fields [OF l])
qed

end
