(* ===== verification/Ipv4.thy ===== *)
theory Ipv4
  imports Arp
begin

text \<open>
  The Internet layer (\<open>core/network/IPv4.cpp\<close>): the header with its checksum, sending through the
  next hop and taking a received frame apart. The handler of the payload, \<open>routePacket\<close>, needs the
  protocols above and is a parameter here. A payload is a pointer into the frame, which is the
  bytes from there on, and a length of its own.
\<close>

record ipv4 = arp +
  ip_initialized :: bool
  ip_localIP :: u32
  subnetMask :: u32
  gateway :: u32

section \<open>The checksum\<close>

text \<open>The sum of the big-endian 16-bit words, the last one filled up with a zero byte.\<close>

fun sum16 :: "bytes \<Rightarrow> u32 \<Rightarrow> u32" where
  "sum16 [] acc = acc"
| "sum16 [b] acc = acc + ucast (le16 0 b)"
| "sum16 (a # b # bs) acc = sum16 bs (acc + ucast (le16 b a))"

lemma unat_halves: "unat (drop_bit 16 (x :: u32)) = unat x div 65536" "unat (x AND 0xFFFF) = unat x mod 65536"
proof -
  show "unat (drop_bit 16 x) = unat x div 65536"
    using unat_drop_bit_eq [of 16 x] drop_bit_eq_div [of 16 "unat x"] by simp
  have m: "(0xFFFF :: u32) = mask 16" by (simp add: mask_eq_exp_minus_1)
  show "unat (x AND 0xFFFF) = unat x mod 65536"
    unfolding m take_bit_eq_mask [symmetric] unsigned_take_bit_eq by (simp add: take_bit_eq_mod)
qed

lemma unat_fold_step: "unat ((x AND 0xFFFF) + drop_bit 16 (x :: u32)) = unat x mod 65536 + unat x div 65536"
proof -
  have "unat x div 65536 < 65536" using unat_u32_lt [of x] by (simp add: less_mult_imp_div_less)
  moreover have "unat x mod 65536 < 65536" by simp
  ultimately have "unat x mod 65536 + unat x div 65536 < 4294967296" by linarith
  then show ?thesis by (simp add: unat_add_small unat_halves)
qed

lemma drop_16_zero: "drop_bit 16 (x :: u32) = 0 \<longleftrightarrow> unat x < 65536"
proof -
  have "drop_bit 16 x = 0 \<longleftrightarrow> unat (drop_bit 16 x) = 0" by (simp add: unsigned_eq_0_iff)
  then show ?thesis by (simp add: unat_halves div_eq_0_iff)
qed

function fold_carries :: "u32 \<Rightarrow> u32" where
  "fold_carries acc =
     (if drop_bit 16 acc = 0 then acc else fold_carries ((acc AND 0xFFFF) + drop_bit 16 acc))"
  by pat_completeness auto
termination
proof (relation "measure unat")
  fix x :: u32
  assume "drop_bit 16 x \<noteq> 0"
  then have "1 \<le> unat x div 65536" by (simp add: drop_16_zero Suc_le_eq div_greater_zero_iff)
  moreover have "unat x = 65536 * (unat x div 65536) + unat x mod 65536" by simp
  ultimately have "unat x mod 65536 + unat x div 65536 < unat x" by linarith
  then show "((x AND 0xFFFF) + drop_bit 16 x, x) \<in> measure unat" by (simp add: unat_fold_step)
qed simp

declare fold_carries.simps [simp del]

definition calculateChecksum :: "bytes \<Rightarrow> u16 option" where
  "calculateChecksum header = do { h \<leftarrow> slice header 0 20; Some (ucast (NOT (fold_carries (sum16 h 0)))) }"

section \<open>Operations\<close>

definition ip_initialize :: "u32 \<Rightarrow> u32 \<Rightarrow> u32 \<Rightarrow> 'a ipv4_scheme \<Rightarrow> bool \<times> 'a ipv4_scheme" where
  "ip_initialize ip netmask gw s =
     (if ip_initialized s then (True, s)
      else (True, s\<lparr>ip_localIP := ip, subnetMask := netmask, gateway := gw, ip_initialized := True\<rparr>))"

definition isLocalAddress :: "u32 \<Rightarrow> 'a ipv4_scheme \<Rightarrow> bool" where
  "isLocalAddress ip s \<longleftrightarrow> ip AND subnetMask s = ip_localIP s AND subnetMask s"

definition ip_header :: "u16 \<Rightarrow> u8 \<Rightarrow> u16 \<Rightarrow> u32 \<Rightarrow> u32 \<Rightarrow> bytes" where
  "ip_header totalLength protocol checksum sourceIP destIP =
     [0x45, 0] @ bytes16 (toBigEndian16 totalLength) @ bytes16 (toBigEndian16 0x1234) @ bytes16 (toBigEndian16 0) @
     [64, protocol] @ bytes16 checksum @ bytes32 (toBigEndian32 sourceIP) @ bytes32 (toBigEndian32 destIP)"

definition finished_header :: "u16 \<Rightarrow> u8 \<Rightarrow> u32 \<Rightarrow> u32 \<Rightarrow> bytes option" where
  "finished_header totalLength protocol sourceIP destIP =
     do { c \<leftarrow> calculateChecksum (ip_header totalLength protocol 0 sourceIP destIP);
          Some (ip_header totalLength protocol (toBigEndian16 c) sourceIP destIP) }"

definition ip_sendPacket ::
    "('a ipv4_scheme \<Rightarrow> 'a ipv4_scheme option) \<Rightarrow> u32 \<Rightarrow> u8 \<Rightarrow> bytes \<Rightarrow> u32 \<Rightarrow> 'a ipv4_scheme \<Rightarrow> (bool \<times> 'a ipv4_scheme) option" where
  "ip_sendPacket poll destIP protocol payload payloadLength s =
     (if \<not> ip_initialized s then Some (False, s)
      else let frameSize = 14 + 20 + payloadLength in
      if 1514 < frameSize then Some (False, s)
      else do {
        header \<leftarrow> finished_header (ucast (20 + payloadLength)) protocol (ip_localIP s) destIP;
        body \<leftarrow> slice payload 0 (unat payloadLength);
        if 1514 < 34 + length body then None
        else do {
          (destMAC, s1) \<leftarrow> resolveMacAddress poll (if isLocalAddress destIP s then destIP else gateway s) s;
          (case destMAC of
             None \<Rightarrow> Some (False, s1)
           | Some mac \<Rightarrow>
               if defaultInterface s1 = 0 then Some (False, s1)
               else do {
                 iface \<leftarrow> netif_deref (defaultInterface s1) s1;
                 nm_sendPacket (mac @ macAddress_of iface @ bytes16 (toBigEndian16 0x0800) @ header @ body) frameSize s1 }) } })"

definition handleIPv4Packet ::
    "(u32 \<Rightarrow> u8 \<Rightarrow> bytes \<Rightarrow> u32 \<Rightarrow> 'a ipv4_scheme \<Rightarrow> (bool \<times> 'a ipv4_scheme) option) \<Rightarrow>
     bytes \<Rightarrow> u32 \<Rightarrow> 'a ipv4_scheme \<Rightarrow> (bool \<times> 'a ipv4_scheme) option" where
  "handleIPv4Packet routePacket frame frameLength s =
     (if \<not> ip_initialized s then Some (False, s)
      else if frameLength < 14 + 20 then Some (False, s)
      else do {
        versionAndIHL \<leftarrow> get_uint8_t frame 14;
        if drop_bit 4 versionAndIHL AND 0x0F \<noteq> 4 then Some (False, s)
        else do {
          ttl \<leftarrow> get_uint8_t frame 22;
          if ttl = 0 then Some (False, s)
          else do {
            total \<leftarrow> get_uint16_t frame 16;
            dest \<leftarrow> get_uint32_t frame 30;
            let totalLength = toBigEndian16 total;
                ihl = (versionAndIHL AND 0x0F) * 4;
                payloadLength = (ucast totalLength - ucast ihl :: u32);
                destIP = toBigEndian32 dest in
            if destIP \<noteq> ip_localIP s then Some (False, s)
            else if frameLength - 14 - ucast ihl < payloadLength then Some (False, s)
            else do {
              protocol \<leftarrow> get_uint8_t frame 23;
              source \<leftarrow> get_uint32_t frame 26;
              routePacket (toBigEndian32 source) protocol (drop (14 + unat ihl) frame) payloadLength s } } } })"

section \<open>Checksum arithmetic\<close>

text \<open>The sum as a natural number, and the one's complement sum it is folded to.\<close>

fun total16 :: "bytes \<Rightarrow> nat" where
  "total16 [] = 0"
| "total16 [b] = unat (le16 0 b)"
| "total16 (a # b # bs) = unat (le16 b a) + total16 bs"

lemma sum16_total: "unat acc + total16 xs < 4294967296 \<Longrightarrow> unat (sum16 xs acc) = unat acc + total16 xs"
proof (induction xs acc rule: sum16.induct)
  case (3 a b bs acc)
  then have "unat (acc + ucast (le16 b a)) = unat acc + unat (le16 b a)" by (simp add: unat_add_small unat_ucast_16_32)
  then show ?case using 3 by simp
qed (simp_all add: unat_add_small unat_ucast_16_32)

lemma total16_bound: "total16 xs \<le> 65535 * length xs"
proof (induction xs rule: total16.induct)
  case (3 a b bs)
  then show ?case using unat_u16_lt [of "le16 b a"] by simp
next
  case (2 b)
  then show ?case using unat_u16_lt [of "le16 0 b"] by simp
qed simp

definition ones :: "nat \<Rightarrow> nat" where
  "ones n = (if n = 0 then 0 else (n - 1) mod 65535 + 1)"

lemma ones_le: "ones n \<le> 65535"
proof -
  have "(n - 1) mod 65535 < 65535" by simp
  then have "(n - 1) mod 65535 + 1 \<le> 65535" by linarith
  then show ?thesis by (simp only: ones_def split: if_split) simp
qed

lemma ones_fold: "65536 \<le> n \<Longrightarrow> ones (n mod 65536 + n div 65536) = ones n"
proof -
  assume "65536 \<le> n"
  define h l where "h = n div 65536" and "l = n mod 65536"
  have n: "n = 65536 * h + l" by (simp add: h_def l_def)
  have h: "1 \<le> h" using \<open>65536 \<le> n\<close> by (simp add: h_def Suc_le_eq div_greater_zero_iff)
  have "n - 1 = (l + h - 1) + 65535 * h" using h n by linarith
  then have "(n - 1) mod 65535 = (l + h - 1) mod 65535" by (simp only: mod_mult_self2)
  then show ?thesis using h \<open>65536 \<le> n\<close> by (simp add: ones_def flip: h_def l_def)
qed

lemma fold_carries_ones: "unat (fold_carries x) = ones (unat x)"
proof (induction x rule: fold_carries.induct)
  case (1 x)
  show ?case
  proof (cases "unat x < 65536")
    case True
    then have "fold_carries x = x" by (subst fold_carries.simps) (simp add: drop_16_zero)
    then show ?thesis using True by (simp add: ones_def)
  next
    case False
    then have d: "drop_bit 16 x \<noteq> 0" by (simp add: drop_16_zero)
    have "fold_carries x = fold_carries ((x AND 0xFFFF) + drop_bit 16 x)"
      using d by (subst fold_carries.simps) simp
    then show ?thesis using 1 [OF d] False ones_fold [of "unat x"] by (simp add: unat_fold_step)
  qed
qed

lemma mod_offset: "n = a + m * q \<Longrightarrow> n mod m = a mod m" for n :: nat
  by simp

lemma neg_mod: "0 \<le> u \<Longrightarrow> u < m \<Longrightarrow> (- u - 1) mod m = m - 1 - u" for u m :: int
proof -
  assume "0 \<le> u" "u < m"
  then have "(m - 1 - u) mod m = m - 1 - u" by (intro mod_pos_pos_trivial) linarith+
  moreover have "(- u - 1) mod m = (m - 1 - u) mod m" using mod_add_self2 [of "- u - 1" m] by (simp add: algebra_simps)
  ultimately show ?thesis by simp
qed

lemma unat_complement:
  assumes "unat (x :: u32) \<le> 65535"
  shows "unat (ucast (NOT x) :: u16) = 65535 - unat x"
proof -
  have "int (unat x) = uint x" by simp
  then have r: "0 \<le> uint x" "uint x \<le> 65535" using assms by linarith+
  have "uint (NOT x) = (- uint x - 1) mod 4294967296" by (simp add: not_eq_complement uint_word_ariths mod_diff_left_eq)
  also have "\<dots> = 4294967296 - 1 - uint x" using r by (intro neg_mod) linarith+
  finally have "uint (NOT x) = 4294967295 - uint x" by simp
  moreover have "int (unat (NOT x)) = uint (NOT x)" by simp
  ultimately have "unat (NOT x) = 4294967295 - unat x" using \<open>int (unat x) = uint x\<close> assms by linarith
  moreover have "(4294967295 - unat x) mod 65536 = 65535 - unat x"
  proof -
    have "4294967295 - unat x = (65535 - unat x) + 65536 * 65535" using assms by linarith
    moreover have "65535 - unat x < 65536" by simp
    ultimately show ?thesis by (simp only: mod_mult_self2 mod_less)
  qed
  ultimately show ?thesis by (simp add: unsigned_ucast_eq take_bit_eq_mod)
qed

text \<open>Any data with the checksum in it sums to all ones.\<close>

lemma ones_complement:
  assumes "0 < t"
  shows "ones (t + (65535 - ones t)) = 65535"
proof -
  define q r where "q = (t - 1) div 65535" and "r = (t - 1) mod 65535"
  have o: "ones t = r + 1" using assms by (simp add: ones_def r_def)
  have "t - 1 = 65535 * q + r" by (simp add: q_def r_def)
  moreover have "r < 65535" by (simp add: r_def)
  ultimately have "t + (65535 - ones t) - 1 = 65534 + 65535 * q" using assms unfolding o by linarith
  then have "(t + (65535 - ones t) - 1) mod 65535 = 65534 mod 65535" by (rule mod_offset)
  also have "\<dots> = 65534" by simp
  finally have "(t + (65535 - ones t) - 1) mod 65535 = 65534" .
  then show ?thesis using assms by (simp add: ones_def)
qed

lemma bytes16_big: "bytes16 (toBigEndian16 c) = [ucast (drop_bit 8 c), ucast c]"
proof -
  have m: "(0xFF :: u16) = mask 8" by (simp add: mask_eq_exp_minus_1)
  show ?thesis unfolding bytes16_def toBigEndian16_def m by (auto intro!: bit_word_eqI simp: bit_simps)
qed

lemma length_ip_header [simp]: "length (ip_header len p c sip dip) = 20"
  by (simp add: ip_header_def)

lemma total16_header: "total16 (ip_header len p (toBigEndian16 c) sip dip) = total16 (ip_header len p 0 sip dip) + unat c"
proof -
  have z: "le16 (0 :: byte) 0 = 0" by (simp add: le16_def)
  have b: "bytes16 0 = [0, 0]" by (simp add: bytes16_def)
  show ?thesis unfolding ip_header_def bytes16_big b bytes32_def by (simp only: append.simps total16.simps le16_bytes z unsigned_0)
qed

lemma calculateChecksum_header:
  "calculateChecksum (ip_header len p c sip dip) = Some (ucast (NOT (fold_carries (sum16 (ip_header len p c sip dip) 0))))"
  by (simp add: calculateChecksum_def slice_def)

lemma finished_header_some: "\<exists>c. finished_header len p sip dip = Some (ip_header len p c sip dip)"
  unfolding finished_header_def calculateChecksum_header bind.bind_lunit by blast

text \<open>The receiver's test of RFC 1071: the checksum over a finished header is zero.\<close>

lemma finished_header_verifies:
  assumes "finished_header len p sip dip = Some h"
  shows "calculateChecksum h = Some 0"
proof -
  let ?h0 = "ip_header len p 0 sip dip"
  let ?f = "fold_carries (sum16 ?h0 0)"
  let ?c = "ucast (NOT ?f) :: u16"
  have h: "h = ip_header len p (toBigEndian16 ?c) sip dip"
    using assms by (simp add: finished_header_def calculateChecksum_header)
  have b: "total16 (ip_header len p x sip dip) \<le> 65535 * 20" for x
    using total16_bound [of "ip_header len p x sip dip"] by simp
  have s0: "unat (sum16 ?h0 0) = total16 ?h0" using b [of 0] sum16_total [of 0 ?h0] by simp
  have pos: "0 < total16 ?h0" by (simp add: ip_header_def le16_def)
  have f: "unat ?f = ones (total16 ?h0)" by (simp add: fold_carries_ones s0)
  have c: "unat ?c = 65535 - ones (total16 ?h0)" using ones_le [of "total16 ?h0"] by (simp add: unat_complement f)
  have "unat (sum16 h 0) = total16 ?h0 + (65535 - ones (total16 ?h0))"
    using b [of "toBigEndian16 ?c"] sum16_total [of 0 h] c unfolding h by (simp add: total16_header)
  then have "unat (fold_carries (sum16 h 0)) = 65535" using ones_complement [OF pos] by (simp add: fold_carries_ones)
  then have "unat (ucast (NOT (fold_carries (sum16 h 0))) :: u16) = 0" by (subst unat_complement) simp_all
  then have "(ucast (NOT (fold_carries (sum16 h 0))) :: u16) = 0" by (simp only: unsigned_eq_0_iff)
  then show ?thesis unfolding h by (simp only: calculateChecksum_header)
qed

section \<open>Frames\<close>

definition ip_frame :: "bytes \<Rightarrow> bytes \<Rightarrow> u16 \<Rightarrow> u8 \<Rightarrow> u16 \<Rightarrow> u32 \<Rightarrow> u32 \<Rightarrow> bytes \<Rightarrow> bytes" where
  "ip_frame dst src len p c sip dip body =
     dst @ src @ bytes16 (toBigEndian16 0x0800) @ ip_header len p c sip dip @ body"

lemma length_ip_frame: "length dst = 6 \<Longrightarrow> length src = 6 \<Longrightarrow> length (ip_frame dst src len p c sip dip body) = 34 + length body"
  by (simp add: ip_frame_def)

lemma ip_frame_fields:
  fixes body :: bytes and dip sip :: u32 and c len :: u16 and p :: u8
  assumes l: "length dst = 6" "length src = 6"
  defines "f \<equiv> ip_frame dst src len p c sip dip body"
  shows "get_uint8_t f 14 = Some 0x45" "get_uint16_t f 16 = Some (toBigEndian16 len)" "get_uint8_t f 22 = Some 64"
    "get_uint8_t f 23 = Some p" "get_uint32_t f 26 = Some (toBigEndian32 sip)" "get_uint32_t f 30 = Some (toBigEndian32 dip)"
    "drop 34 f = body" "get_uint8_t f 12 = Some 0x08" "get_uint8_t f 13 = Some 0x00"
proof -
  let ?et = "bytes16 (toBigEndian16 0x0800)" and ?l = "bytes16 (toBigEndian16 len)" and ?id = "bytes16 (toBigEndian16 0x1234)"
  let ?fl = "bytes16 (toBigEndian16 0)" and ?s = "bytes32 (toBigEndian32 sip)" and ?d = "bytes32 (toBigEndian32 dip)"
  have f: "f = dst @ src @ ?et @ [0x45, 0] @ ?l @ ?id @ ?fl @ [64, p] @ bytes16 c @ ?s @ ?d @ body"
    by (simp add: f_def ip_frame_def ip_header_def)
  have e: "?et = [0x08, 0x00]" by (simp add: bytes16_big drop_bit_eq_div)
  show "get_uint8_t f 14 = Some 0x45" using l by (simp add: f get_uint8_t_def rd_at_def nth_append)
  show "get_uint8_t f 12 = Some 0x08" "get_uint8_t f 13 = Some 0x00"
    using l by (simp_all add: f e get_uint8_t_def rd_at_def nth_append)
  show "get_uint16_t f 16 = Some (toBigEndian16 len)"
    using slice_at [of "dst @ src @ ?et @ [0x45, 0]" 16 ?l 2] l by (intro get_uint16_slice) (simp add: f)
  show "get_uint8_t f 22 = Some 64" "get_uint8_t f 23 = Some p"
    using l by (simp_all add: f get_uint8_t_def rd_at_def nth_append)
  show "get_uint32_t f 26 = Some (toBigEndian32 sip)"
    using slice_at [of "dst @ src @ ?et @ [0x45, 0] @ ?l @ ?id @ ?fl @ [64, p] @ bytes16 c" 26 ?s 4] l
    by (intro get_uint32_slice) (simp add: f)
  show "get_uint32_t f 30 = Some (toBigEndian32 dip)"
    using slice_at [of "dst @ src @ ?et @ [0x45, 0] @ ?l @ ?id @ ?fl @ [64, p] @ bytes16 c @ ?s" 30 ?d 4] l
    by (intro get_uint32_slice) (simp add: f)
  show "drop 34 f = body" using l by (simp add: f)
qed

text \<open>The receiver hands the payload on, with the padding of the frame behind it.\<close>

lemma handle_ip_frame:
  assumes s: "ip_initialized s" "ip_localIP s = dip" and l: "length dst = 6" "length src = 6"
    and b: "length body + length pad \<le> 1480"
  shows "handleIPv4Packet route (ip_frame dst src (of_nat (20 + length body)) p c sip dip (body @ pad))
      (of_nat (34 + length body + length pad)) s = route sip p (body @ pad) (of_nat (length body)) s"
proof -
  let ?n = "length body" and ?k = "length pad"
  have n1: "\<not> (of_nat (34 + ?n + ?k) :: u32) < 14 + 20"
    using b by (simp add: word_less_nat_alt unat_of_nat del: of_nat_add)
  have t: "unat (of_nat (20 + ?n) :: u16) = 20 + ?n" using b by (simp add: unat_of_nat del: of_nat_add)
  have p1: "ucast (of_nat (20 + ?n) :: u16) - ucast (20 :: u8) = (of_nat ?n :: u32)"
  proof -
    have "(ucast (of_nat (20 + ?n) :: u16) :: u32) = of_nat (20 + ?n)"
      by (rule word_unat_eq_iff [THEN iffD2]) (use b t in \<open>simp add: unat_ucast_16_32 unat_of_nat del: of_nat_add\<close>)
    then show ?thesis by simp
  qed
  have p2: "(of_nat (34 + ?n + ?k) :: u32) - 14 - ucast (20 :: u8) = of_nat (?n + ?k)" by simp
  have p3: "\<not> (of_nat (?n + ?k) :: u32) < of_nat ?n"
    using b by (simp add: word_less_nat_alt unat_of_nat del: of_nat_add)
  have v: "drop_bit 4 (0x45 :: u8) AND 0x0F = 4" "((0x45 :: u8) AND 0x0F) * 4 = 20" by (simp_all add: drop_bit_eq_div)
  have u20: "unat (20 :: u8) = 20" by simp
  show ?thesis
    unfolding handleIPv4Packet_def ip_frame_fields [OF l] bind.bind_lunit Let_def toBigEndian16_twice toBigEndian32_twice v p1 p2
    using s n1 p3 ip_frame_fields(7) [OF l] by (simp add: u20 del: of_nat_add)
qed

text \<open>Sending on a working link to a next hop whose address is known.\<close>

definition next_hop :: "u32 \<Rightarrow> 'a ipv4_scheme \<Rightarrow> u32" where
  "next_hop ip s = (if isLocalAddress ip s then ip else gateway s)"

definition own_mac :: "'a netmgr_scheme \<Rightarrow> bytes" where
  "own_mac s = macAddress_of (the (netif_at s (defaultInterface s)))"

lemma own_mac_transmit [simp]: "own_mac (transmit f s) = own_mac s"
  by (simp add: own_mac_def transmit_def)

lemma ip_sendPacket_known:
  assumes ok: "arp_ok s" "ip_initialized s" "can_send s" and hop: "arp_map s (next_hop dip s) = Some mac" "length mac = 6"
    and src: "length (own_mac s) = 6" and body: "slice payload 0 (unat n) = Some body" "length body \<le> 1480"
  shows "\<exists>c. ip_sendPacket poll dip p payload n s =
    Some (True, transmit (ip_frame mac (own_mac s) (of_nat (20 + length body)) p c (ip_localIP s) dip body) s)"
proof -
  let ?b = "length body"
  have n: "unat n = ?b" using length_slice [OF body(1)] by simp
  have n': "n = of_nat ?b" unfolding n [symmetric] by simp
  have fs: "unat (14 + 20 + n) = 34 + ?b"
    using body(2) unat_add_small [of "34" n] n by simp
  have h: "(ucast (20 + n) :: u16) = of_nat (20 + ?b)" 
  proof (rule word_unat_eq_iff [THEN iffD2])
    have "unat (20 + n) = 20 + ?b" using body(2) unat_add_small [of "20" n] n by simp
    then show "unat (ucast (20 + n) :: u16) = unat (of_nat (20 + ?b) :: u16)"
      using body(2) by (simp add: unsigned_ucast_eq take_bit_eq_mod unat_of_nat del: of_nat_add)
  qed
  obtain i where i: "defaultInterface s \<noteq> 0" "netif_at s (defaultInterface s) = Some i"
    using ok(3) by (auto simp: can_send_def link_up_def)
  obtain c where c: "finished_header (of_nat (20 + ?b)) p (ip_localIP s) dip =
      Some (ip_header (of_nat (20 + ?b)) p c (ip_localIP s) dip)"
    using finished_header_some by blast
  let ?f = "ip_frame mac (own_mac s) (of_nat (20 + ?b)) p c (ip_localIP s) dip body"
  have lf: "length ?f = 34 + ?b" using length_ip_frame [OF hop(2) src] .
  have up: "link_up s" "ring_free s \<noteq> []" "hd (ring_free s)" using ok(3) by (simp_all add: can_send_def)
  have snd: "nm_sendPacket ?f (14 + 20 + n) s = Some (True, transmit ?f s)"
    using nm_sendPacket_up [OF up, of "14 + 20 + n" ?f] fs lf body(2) by simp
  have r: "resolveMacAddress poll (next_hop dip s) s = Some (Some mac, s)"
    using ok(1) hop(1) cached_spec [OF ok(1)] by (simp add: resolveMacAddress_def arp_ok_def)
  have big: "\<not> 1514 < 14 + 20 + n" using fs body(2) by (simp add: word_less_nat_alt)
  have "ip_sendPacket poll dip p payload n s = Some (True, transmit ?f s)"
    using ok(2) big i c r snd body
    by (simp add: ip_sendPacket_def Let_def h netif_deref_def own_mac_def ip_frame_def del: of_nat_add flip: next_hop_def)
  then show ?thesis by blast
qed

end
