(* ===== verification/Icmp.thy ===== *)
theory Icmp
  imports Ipv4
begin

text \<open>
  Echo requests and replies (\<open>core/network/ICMP.cpp\<close>). A message is built in a buffer of 256 bytes;
  the data is copied behind the header whatever its length, so a longer message is \<open>None\<close>.
\<close>

record icmp = ipv4 +
  icmp_initialized :: bool
  ping_targetIP :: u32
  ping_sentTime :: u32
  ping_id :: u16
  ping_sequence :: u16
  replyReceived :: bool
  ping_replyTime :: u32
  icmp_dummyTime :: u32

section \<open>Definitions\<close>

definition icmp_initialize :: "'a icmp_scheme \<Rightarrow> bool \<times> 'a icmp_scheme" where
  "icmp_initialize s = (True, if icmp_initialized s then s else s\<lparr>icmp_initialized := True\<rparr>)"

definition getSystemTimeMs :: "'a icmp_scheme \<Rightarrow> u32 \<times> 'a icmp_scheme" where
  "getSystemTimeMs s = (icmp_dummyTime s + 1, s\<lparr>icmp_dummyTime := icmp_dummyTime s + 1\<rparr>)"

definition icmp_checksum :: "bytes \<Rightarrow> u32 \<Rightarrow> u16 option" where
  "icmp_checksum message len =
     do { m \<leftarrow> slice message 0 (unat len); Some (ucast (NOT (fold_carries (sum16 m 0)))) }"

definition echo_header :: "u8 \<Rightarrow> u16 \<Rightarrow> u16 \<Rightarrow> u16 \<Rightarrow> bytes" where
  "echo_header type checksum ident seq =
     [type, 0] @ bytes16 checksum @ bytes16 (toBigEndian16 ident) @ bytes16 (toBigEndian16 seq)"

text \<open>The message and its size, for both kinds.\<close>

definition echo_message :: "u8 \<Rightarrow> u16 \<Rightarrow> u16 \<Rightarrow> bytes \<Rightarrow> u32 \<Rightarrow> (bytes \<times> u32) option" where
  "echo_message type ident seq data dataLength =
     do { d \<leftarrow> slice data 0 (unat dataLength);
          if 256 < 8 + length d then None
          else let messageSize = 8 + dataLength in do {
            c \<leftarrow> icmp_checksum (echo_header type 0 ident seq @ d) messageSize;
            Some (echo_header type (toBigEndian16 c) ident seq @ d, messageSize) } }"

definition sendEchoReply ::
    "('a icmp_scheme \<Rightarrow> 'a icmp_scheme option) \<Rightarrow> u32 \<Rightarrow> u16 \<Rightarrow> u16 \<Rightarrow> bytes \<Rightarrow> u32 \<Rightarrow> 'a icmp_scheme \<Rightarrow>
     (bool \<times> 'a icmp_scheme) option" where
  "sendEchoReply poll destIP ident seq data dataLength s =
     (if \<not> icmp_initialized s then Some (False, s)
      else do { (message, messageSize) \<leftarrow> echo_message 0 ident seq data dataLength;
                ip_sendPacket poll destIP 1 message messageSize s })"

text \<open>Waiting for the reply: at most 500 rounds of polling.\<close>

fun ping_wait :: "('a icmp_scheme \<Rightarrow> 'a icmp_scheme option) \<Rightarrow> nat \<Rightarrow> 'a icmp_scheme \<Rightarrow> 'a icmp_scheme option" where
  "ping_wait poll 0 s = Some s"
| "ping_wait poll (Suc n) s =
     (if replyReceived s then Some s
      else do { s1 \<leftarrow> (if defaultInterface s = 0 then Some s else poll s); ping_wait poll n s1 })"

text \<open>The result is the round-trip time, if the ping succeeds.\<close>

definition pingWithData ::
    "('a icmp_scheme \<Rightarrow> 'a icmp_scheme option) \<Rightarrow> u32 \<Rightarrow> bytes \<Rightarrow> u32 \<Rightarrow> 'a icmp_scheme \<Rightarrow> (u32 option \<times> 'a icmp_scheme) option" where
  "pingWithData poll targetIP data dataLength s =
     (if \<not> icmp_initialized s then Some (None, s)
      else do {
        (message, messageSize) \<leftarrow> echo_message 8 0x1234 1 data dataLength;
        let (t, s1) = getSystemTimeMs (s\<lparr>ping_targetIP := targetIP\<rparr>);
            s2 = s1\<lparr>ping_sentTime := t, ping_id := 0x1234, ping_sequence := 1, replyReceived := False\<rparr> in do {
          (ok, s3) \<leftarrow> ip_sendPacket poll targetIP 1 message messageSize s2;
          if \<not> ok then Some (None, s3)
          else do {
            s4 \<leftarrow> ping_wait poll 500 s3;
            if \<not> replyReceived s4 then Some (None, s4)
            else Some (Some (ping_replyTime s4 - ping_sentTime s4), s4) } } })"

definition ping :: "('a icmp_scheme \<Rightarrow> 'a icmp_scheme option) \<Rightarrow> u32 \<Rightarrow> 'a icmp_scheme \<Rightarrow> (u32 option \<times> 'a icmp_scheme) option" where
  "ping poll targetIP s = pingWithData poll targetIP [] 0 s"

definition handleICMPPacket ::
    "('a icmp_scheme \<Rightarrow> 'a icmp_scheme option) \<Rightarrow> bytes \<Rightarrow> u32 \<Rightarrow> u32 \<Rightarrow> 'a icmp_scheme \<Rightarrow> (bool \<times> 'a icmp_scheme) option" where
  "handleICMPPacket poll payload payloadLength sourceIP s =
     (if \<not> icmp_initialized s then Some (False, s)
      else if payloadLength < 8 then Some (False, s)
      else do {
        type \<leftarrow> get_uint8_t payload 0;
        i \<leftarrow> get_uint16_t payload 4;
        q \<leftarrow> get_uint16_t payload 6;
        let echoId = toBigEndian16 i; echoSeq = toBigEndian16 q in
        if type = 0 \<and> ping_targetIP s = sourceIP \<and> echoId = ping_id s \<and> echoSeq = ping_sequence s
        then let (t, s1) = getSystemTimeMs (s\<lparr>replyReceived := True\<rparr>) in Some (True, s1\<lparr>ping_replyTime := t\<rparr>)
        else if type = 8 then sendEchoReply poll sourceIP echoId echoSeq (drop 8 payload) (payloadLength - 8) s
        else Some (False, s) })"

section \<open>Messages\<close>

lemma echo_message_some:
  assumes "slice data 0 (unat n) = Some d" and "length d \<le> 248"
  shows "\<exists>c. echo_message type ident seq data n = Some (echo_header type c ident seq @ d, 8 + n)"
proof -
  have n: "unat n = length d" using length_slice [OF assms(1)] by simp
  have u: "unat (8 + n) = 8 + length d" using assms(2) unat_add_small [of "8" n] n by simp
  have "length (echo_header type 0 ident seq) = 8" by (simp add: echo_header_def)
  then have "icmp_checksum (echo_header type 0 ident seq @ d) (8 + n) =
      Some (ucast (NOT (fold_carries (sum16 (echo_header type 0 ident seq @ d) 0))))"
    by (simp add: icmp_checksum_def slice_def u)
  then show ?thesis using assms by (auto simp: echo_message_def)
qed

text \<open>More data than the buffer has room for is written past its end.\<close>

lemma echo_message_overflow:
  assumes "slice data 0 (unat n) = Some d" and "248 < length d"
  shows "echo_message type ident seq data n = None"
  using assms by (simp add: echo_message_def)

lemma echo_fields:
  fixes d :: bytes and c i q :: u16 and type :: u8
  defines "m \<equiv> echo_header type c i q @ d"
  shows "get_uint8_t m 0 = Some type" "get_uint16_t m 4 = Some (toBigEndian16 i)" "get_uint16_t m 6 = Some (toBigEndian16 q)"
    "drop 8 m = d" "length m = 8 + length d"
proof -
  have m: "m = [type, 0] @ bytes16 c @ bytes16 (toBigEndian16 i) @ bytes16 (toBigEndian16 q) @ d"
    by (simp add: m_def echo_header_def)
  show "get_uint8_t m 0 = Some type" by (simp add: m get_uint8_t_def rd_at_def)
  show "get_uint16_t m 4 = Some (toBigEndian16 i)"
    using slice_at [of "[type, 0] @ bytes16 c" 4 "bytes16 (toBigEndian16 i)" 2] by (intro get_uint16_slice) (simp add: m)
  show "get_uint16_t m 6 = Some (toBigEndian16 q)"
    using slice_at [of "[type, 0] @ bytes16 c @ bytes16 (toBigEndian16 i)" 6 "bytes16 (toBigEndian16 q)" 2]
    by (intro get_uint16_slice) (simp add: m)
  show "drop 8 m = d" "length m = 8 + length d" by (simp_all add: m)
qed

end
