(* ===== verification/Udp.thy ===== *)
theory Udp
  imports Icmp
begin

text \<open>
  Datagrams (\<open>core/network/UDP.cpp\<close>): ports and their handlers, sending and receiving. A handler is
  a function pointer; the kernel binds two functions, the receive callback of the sockets and the
  one of the resolver. What the call of a handler does is a parameter, since both lie above this
  layer. The data pointer of a datagram is never null here.
\<close>

datatype udp_handler = SocketCallback | DnsCallback

record port_binding =
  pb_port :: u16
  pb_handler :: "udp_handler option"
  pb_active :: bool

record udp = icmp +
  udp_initialized :: bool
  nextEphemeralPort :: u16
  portBindings :: "port_binding list"
  boundPortCount :: u8

section \<open>Ports\<close>

definition udp_initialize :: "'a udp_scheme \<Rightarrow> bool \<times> 'a udp_scheme" where
  "udp_initialize s =
     (if udp_initialized s then (True, s)
      else (True, s\<lparr>portBindings := replicate 16 \<lparr>pb_port = 0, pb_handler = None, pb_active = False\<rparr>,
        boundPortCount := 0, nextEphemeralPort := 49152, udp_initialized := True\<rparr>))"

fun find_binding :: "(port_binding \<Rightarrow> bool) \<Rightarrow> port_binding list \<Rightarrow> nat list \<Rightarrow> nat option option" where
  "find_binding P bs [] = Some None"
| "find_binding P bs (i # is) = do { b \<leftarrow> rd_at bs i; if P b then Some (Some i) else find_binding P bs is }"

definition findPortBinding :: "u16 \<Rightarrow> 'a udp_scheme \<Rightarrow> nat option option" where
  "findPortBinding port s = find_binding (\<lambda>b. pb_active b \<and> pb_port b = port) (portBindings s) [0..<16]"

definition bindPort :: "u16 \<Rightarrow> udp_handler option \<Rightarrow> 'a udp_scheme \<Rightarrow> (bool \<times> 'a udp_scheme) option" where
  "bindPort port handler s =
     (if \<not> udp_initialized s then Some (False, s)
      else if port = 0 \<or> handler = None then Some (False, s)
      else do {
        bound \<leftarrow> findPortBinding port s;
        if bound \<noteq> None then Some (False, s)
        else if 16 \<le> boundPortCount s then Some (False, s)
        else do {
          free \<leftarrow> find_binding (\<lambda>b. \<not> pb_active b) (portBindings s) [0..<16];
          (case free of
             None \<Rightarrow> Some (False, s)
           | Some i \<Rightarrow> do {
               bs \<leftarrow> wr_at (portBindings s) i \<lparr>pb_port = port, pb_handler = handler, pb_active = True\<rparr>;
               Some (True, s\<lparr>portBindings := bs, boundPortCount := boundPortCount s + 1\<rparr>) }) } })"

definition unbindPort :: "u16 \<Rightarrow> 'a udp_scheme \<Rightarrow> (bool \<times> 'a udp_scheme) option" where
  "unbindPort port s =
     (if \<not> udp_initialized s then Some (False, s)
      else do {
        bound \<leftarrow> findPortBinding port s;
        (case bound of
           None \<Rightarrow> Some (False, s)
         | Some i \<Rightarrow> do {
             b \<leftarrow> rd_at (portBindings s) i;
             bs \<leftarrow> wr_at (portBindings s) i (b\<lparr>pb_active := False, pb_handler := None\<rparr>);
             Some (True, s\<lparr>portBindings := bs, boundPortCount := boundPortCount s - 1\<rparr>) }) })"

text \<open>The next port has 16 bits, so the comparison with the end of the range never holds.\<close>

fun ephemeral_loop :: "nat \<Rightarrow> 'a udp_scheme \<Rightarrow> (u16 \<times> 'a udp_scheme) option" where
  "ephemeral_loop 0 s = Some (0, s)"
| "ephemeral_loop (Suc n) s =
     (let candidatePort = nextEphemeralPort s;
          s1 = s\<lparr>nextEphemeralPort := nextEphemeralPort s + 1\<rparr>;
          s2 = (if 65535 < nextEphemeralPort s1 then s1\<lparr>nextEphemeralPort := 49152\<rparr> else s1) in do {
        bound \<leftarrow> findPortBinding candidatePort s2;
        if bound = None then Some (candidatePort, s2) else ephemeral_loop n s2 })"

definition allocateEphemeralPort :: "'a udp_scheme \<Rightarrow> (u16 \<times> 'a udp_scheme) option" where
  "allocateEphemeralPort s = ephemeral_loop 100 s"

section \<open>Datagrams\<close>

definition ip_bytes :: "u32 \<Rightarrow> bytes" where
  "ip_bytes ip = [ucast (drop_bit 24 ip), ucast (drop_bit 16 ip), ucast (drop_bit 8 ip), ucast ip]"

definition pseudo_header :: "u32 \<Rightarrow> u32 \<Rightarrow> u32 \<Rightarrow> bytes" where
  "pseudo_header sourceIP destinationIP dataLength =
     (let udpLength = (ucast (8 + dataLength) :: u16) in
      ip_bytes sourceIP @ ip_bytes destinationIP @ [0, 17, ucast (drop_bit 8 udpLength), ucast udpLength])"

definition calculateChecksumWithPseudoHeader :: "u32 \<Rightarrow> u32 \<Rightarrow> bytes \<Rightarrow> bytes \<Rightarrow> u32 \<Rightarrow> u16 option" where
  "calculateChecksumWithPseudoHeader sourceIP destinationIP udpHeader data dataLength =
     do { h \<leftarrow> slice udpHeader 0 8;
          d \<leftarrow> slice data 0 (unat dataLength);
          let acc = sum16 d (sum16 h (sum16 (pseudo_header sourceIP destinationIP dataLength) 0));
              result = (ucast (NOT (fold_carries acc)) :: u16)
          in Some (if result = 0 then 0xFFFF else result) }"

definition udp_header :: "u16 \<Rightarrow> u16 \<Rightarrow> u16 \<Rightarrow> u16 \<Rightarrow> bytes" where
  "udp_header sourcePort destinationPort len checksum =
     bytes16 (toBigEndian16 sourcePort) @ bytes16 (toBigEndian16 destinationPort) @ bytes16 (toBigEndian16 len) @ bytes16 checksum"

definition udp_datagram :: "u32 \<Rightarrow> u32 \<Rightarrow> u16 \<Rightarrow> u16 \<Rightarrow> bytes \<Rightarrow> u32 \<Rightarrow> bytes option" where
  "udp_datagram sourceIP destinationIP sourcePort destinationPort data dataLength =
     do { d \<leftarrow> slice data 0 (unat dataLength);
          if 65507 < 8 + length d then None
          else let header = udp_header sourcePort destinationPort (ucast (8 + dataLength)) in do {
            c \<leftarrow> calculateChecksumWithPseudoHeader sourceIP destinationIP (header 0) data dataLength;
            Some (header (toBigEndian16 (if c = 0 then 0xFFFF else c)) @ d) } }"

definition sendDatagram ::
    "('a udp_scheme \<Rightarrow> 'a udp_scheme option) \<Rightarrow> u32 \<Rightarrow> u16 \<Rightarrow> u16 \<Rightarrow> bytes \<Rightarrow> u32 \<Rightarrow> 'a udp_scheme \<Rightarrow> (bool \<times> 'a udp_scheme) option" where
  "sendDatagram poll destinationIP destinationPort sourcePort data dataLength s =
     (if \<not> udp_initialized s then Some (False, s)
      else if 65507 < dataLength then Some (False, s)
      else do {
        (port, s1) \<leftarrow> (if sourcePort = 0 then allocateEphemeralPort s else Some (sourcePort, s));
        if port = 0 then Some (False, s1)
        else do {
          datagram \<leftarrow> udp_datagram (ip_localIP s1) destinationIP port destinationPort data dataLength;
          ip_sendPacket poll destinationIP 17 datagram (8 + dataLength) s1 } })"

definition handleUDPPacket ::
    "(udp_handler \<Rightarrow> u32 \<Rightarrow> u16 \<Rightarrow> bytes \<Rightarrow> u32 \<Rightarrow> 'a udp_scheme \<Rightarrow> 'a udp_scheme option) \<Rightarrow>
     bytes \<Rightarrow> u32 \<Rightarrow> u32 \<Rightarrow> u32 \<Rightarrow> 'a udp_scheme \<Rightarrow> (bool \<times> 'a udp_scheme) option" where
  "handleUDPPacket call payload payloadLength sourceIP destinationIP s =
     (if \<not> udp_initialized s then Some (False, s)
      else if payloadLength < 8 then Some (False, s)
      else do {
        sp \<leftarrow> get_uint16_t payload 0;
        dp \<leftarrow> get_uint16_t payload 2;
        dl \<leftarrow> get_uint16_t payload 4;
        ck \<leftarrow> get_uint16_t payload 6;
        let sourcePort = toBigEndian16 sp; destinationPort = toBigEndian16 dp;
            datagramLength = toBigEndian16 dl; receivedChecksum = toBigEndian16 ck;
            dataLength = (ucast datagramLength - 8 :: u32) in
        if datagramLength < 8 \<or> payloadLength < ucast datagramLength then Some (False, s)
        else do {
          valid \<leftarrow> (if receivedChecksum \<noteq> 0
                    then do { h \<leftarrow> slice payload 0 6;
                              c \<leftarrow> calculateChecksumWithPseudoHeader sourceIP destinationIP (h @ [0, 0]) (drop 8 payload) dataLength;
                              Some (c = receivedChecksum) }
                    else Some True);
          if \<not> valid then Some (False, s)
          else do {
            binding \<leftarrow> findPortBinding destinationPort s;
            (case binding of
               None \<Rightarrow> Some (False, s)
             | Some i \<Rightarrow> do {
                 b \<leftarrow> rd_at (portBindings s) i;
                 (case (pb_active b, pb_handler b) of
                    (True, Some handler) \<Rightarrow> do { s1 \<leftarrow> call handler sourceIP sourcePort (drop 8 payload) dataLength s; Some (True, s1) }
                  | _ \<Rightarrow> Some (False, s)) }) } } })"

section \<open>The table of ports\<close>

definition bound :: "port_binding list \<Rightarrow> port_binding list" where
  "bound bs = filter pb_active bs"

definition bindings_ok :: "port_binding list \<Rightarrow> bool" where
  "bindings_ok bs \<longleftrightarrow> length bs = 16 \<and> distinct (map pb_port (bound bs)) \<and>
     (\<forall>b \<in> set (bound bs). pb_port b \<noteq> 0 \<and> pb_handler b \<noteq> None)"

definition udp_ok :: "'a udp_scheme \<Rightarrow> bool" where
  "udp_ok s \<longleftrightarrow> udp_initialized s \<and> bindings_ok (portBindings s) \<and>
     unat (boundPortCount s) = length (bound (portBindings s))"

definition bindings_map :: "port_binding list \<Rightarrow> u16 \<Rightarrow> udp_handler option" where
  "bindings_map bs = map_of (map (\<lambda>b. (pb_port b, the (pb_handler b))) (bound bs))"

definition udp_map :: "'a udp_scheme \<Rightarrow> u16 \<Rightarrow> udp_handler option" where
  "udp_map s = bindings_map (portBindings s)"

lemma find_binding_spec:
  assumes "\<forall>i \<in> set is. i < length bs"
  shows "find_binding P bs is = Some (List.find (\<lambda>i. P (bs ! i)) is)"
  using assms by (induction "is") (auto simp: rd_at_def)

lemma find_binding_cases:
  assumes "length bs = 16"
  obtains "find_binding P bs [0..<16] = Some None" "\<forall>b \<in> set bs. \<not> P b"
    | i where "find_binding P bs [0..<16] = Some (Some i)" "i < 16" "P (bs ! i)"
proof -
  have f: "find_binding P bs [0..<16] = Some (List.find (\<lambda>i. P (bs ! i)) [0..<16])"
    using assms by (intro find_binding_spec) simp
  show thesis
  proof (cases "List.find (\<lambda>i. P (bs ! i)) [0..<16]")
    case None
    then have "\<forall>i < 16. \<not> P (bs ! i)" by (simp only: find_None_iff set_upt) simp
    then have "\<forall>b \<in> set bs. \<not> P b" using assms by (metis in_set_conv_nth)
    then show thesis using f None that(1) by simp
  next
    case (Some i)
    then have "i < 16" "P (bs ! i)" by (auto simp only: find_Some_iff length_upt nth_upt)
    then show thesis using f Some that(2) by simp
  qed
qed

text \<open>The bound ports around one slot of the table.\<close>

lemma bound_split:
  assumes "i < length bs"
  shows "bound bs = bound (take i bs) @ (if pb_active (bs ! i) then [bs ! i] else []) @ bound (drop (Suc i) bs)"
    "bound (bs[i := b]) = bound (take i bs) @ (if pb_active b then [b] else []) @ bound (drop (Suc i) bs)"
proof -
  show "bound bs = bound (take i bs) @ (if pb_active (bs ! i) then [bs ! i] else []) @ bound (drop (Suc i) bs)"
    by (subst id_take_nth_drop [OF assms]) (simp add: bound_def)
  show "bound (bs[i := b]) = bound (take i bs) @ (if pb_active b then [b] else []) @ bound (drop (Suc i) bs)"
    using assms by (simp add: upd_conv_take_nth_drop bound_def)
qed

lemma dom_bindings: "dom (bindings_map bs) = pb_port ` set (bound bs)"
  by (simp add: bindings_map_def dom_map_of_conv_image_fst image_image)

lemma card_bindings: "bindings_ok bs \<Longrightarrow> card (dom (bindings_map bs)) = length (bound bs)"
  using distinct_card [of "map pb_port (bound bs)"] by (simp add: dom_bindings bindings_ok_def)

lemma bind_slot:
  fixes h :: udp_handler
  assumes ok: "bindings_ok bs" and i: "i < 16" "\<not> pb_active (bs ! i)" and p: "p \<noteq> 0" "p \<notin> dom (bindings_map bs)"
  defines "bs' \<equiv> bs[i := \<lparr>pb_port = p, pb_handler = Some h, pb_active = True\<rparr>]"
  shows "bindings_ok bs'" "bindings_map bs' = (bindings_map bs)(p \<mapsto> h)" "length (bound bs') = Suc (length (bound bs))"
proof -
  let ?A = "bound (take i bs)" and ?B = "bound (drop (Suc i) bs)"
  have il: "i < length bs" using ok i(1) by (simp add: bindings_ok_def)
  have old: "bound bs = ?A @ ?B" using bound_split(1) [OF il] i(2) by simp
  have new: "bound bs' = ?A @ \<lparr>pb_port = p, pb_handler = Some h, pb_active = True\<rparr> # ?B"
    using bound_split(2) [OF il] unfolding bs'_def by simp
  have np: "p \<notin> pb_port ` set ?A" "p \<notin> pb_port ` set ?B" using p(2) by (auto simp: dom_bindings old)
  show "length (bound bs') = Suc (length (bound bs))" by (simp add: old new)
  show "bindings_ok bs'" using ok np p(1) unfolding bindings_ok_def new old by (auto simp: bs'_def)
  show "bindings_map bs' = (bindings_map bs)(p \<mapsto> h)"
    using np by (auto simp: bindings_map_def new old map_add_def map_of_eq_None_iff image_image fun_eq_iff split: option.splits
        dest!: map_of_SomeD)
qed

lemma unbind_slot:
  assumes ok: "bindings_ok bs" and i: "i < 16" "pb_active (bs ! i)" "pb_port (bs ! i) = p"
  defines "bs' \<equiv> bs[i := (bs ! i)\<lparr>pb_active := False, pb_handler := None\<rparr>]"
  shows "bindings_ok bs'" "bindings_map bs' = (bindings_map bs)(p := None)" "Suc (length (bound bs')) = length (bound bs)"
proof -
  let ?A = "bound (take i bs)" and ?B = "bound (drop (Suc i) bs)"
  have il: "i < length bs" using ok i(1) by (simp add: bindings_ok_def)
  have old: "bound bs = ?A @ bs ! i # ?B" using bound_split(1) [OF il] i(2) by simp
  have new: "bound bs' = ?A @ ?B" using bound_split(2) [OF il] unfolding bs'_def by simp
  have np: "p \<notin> pb_port ` set ?A" "p \<notin> pb_port ` set ?B"
    using ok i(3) unfolding bindings_ok_def old by auto
  show "Suc (length (bound bs')) = length (bound bs)" by (simp add: old new)
  show "bindings_ok bs'" using ok unfolding bindings_ok_def new old by (auto simp: bs'_def)
  have "bindings_map bs' p = None" using np by (auto simp: bindings_map_def new map_add_def map_of_eq_None_iff image_image split: option.splits dest!: map_of_SomeD)
  then show "bindings_map bs' = (bindings_map bs)(p := None)"
    using i(3) by (auto simp: bindings_map_def new old map_add_def fun_eq_iff split: option.splits)
qed

lemma findPortBinding_cases:
  assumes ok: "udp_ok s"
  obtains "findPortBinding p s = Some None" "p \<notin> dom (udp_map s)"
    | i h where "findPortBinding p s = Some (Some i)" "i < 16" "pb_active (portBindings s ! i)" "pb_port (portBindings s ! i) = p"
        "pb_handler (portBindings s ! i) = Some h" "udp_map s p = Some h"
proof -
  have b: "bindings_ok (portBindings s)" "length (portBindings s) = 16" using ok by (simp_all add: udp_ok_def bindings_ok_def)
  from b(2) show thesis
  proof (rule find_binding_cases [of "portBindings s" "\<lambda>b. pb_active b \<and> pb_port b = p"])
    assume f: "find_binding (\<lambda>b. pb_active b \<and> pb_port b = p) (portBindings s) [0..<16] = Some None"
      "\<forall>b \<in> set (portBindings s). \<not> (pb_active b \<and> pb_port b = p)"
    then have "p \<notin> dom (udp_map s)" unfolding udp_map_def dom_bindings by (auto simp: bound_def)
    then show thesis using that(1) f(1) by (simp add: findPortBinding_def)
  next
    fix i assume i: "find_binding (\<lambda>b. pb_active b \<and> pb_port b = p) (portBindings s) [0..<16] = Some (Some i)" "i < 16"
      "pb_active (portBindings s ! i) \<and> pb_port (portBindings s ! i) = p"
    let ?b = "portBindings s ! i"
    have m: "?b \<in> set (bound (portBindings s))" using i(2,3) b(2) by (simp add: bound_def)
    obtain h where h: "pb_handler ?b = Some h" using b(1) m by (auto simp: bindings_ok_def)
    have "distinct (map fst (map (\<lambda>b. (pb_port b, the (pb_handler b))) (bound (portBindings s))))"
      using b(1) by (simp add: bindings_ok_def comp_def)
    moreover have "(p, h) \<in> set (map (\<lambda>b. (pb_port b, the (pb_handler b))) (bound (portBindings s)))"
      using m i(3) h by force
    ultimately have "udp_map s p = Some h" unfolding udp_map_def bindings_map_def by (rule map_of_is_SomeI)
    then show thesis using that(2) i h by (simp add: findPortBinding_def)
  qed
qed

text \<open>Binding and unbinding are updates of the map from ports to handlers.\<close>

lemma bindPort_spec:
  assumes ok: "udp_ok s"
  shows "if p \<noteq> 0 \<and> p \<notin> dom (udp_map s) \<and> card (dom (udp_map s)) < 16
    then \<exists>bs. bindPort p (Some h) s = Some (True, s\<lparr>portBindings := bs, boundPortCount := boundPortCount s + 1\<rparr>) \<and>
      udp_ok (s\<lparr>portBindings := bs, boundPortCount := boundPortCount s + 1\<rparr>) \<and> bindings_map bs = (udp_map s)(p \<mapsto> h)
    else bindPort p (Some h) s = Some (False, s)"
proof -
  have i0: "udp_initialized s" and b: "bindings_ok (portBindings s)" "length (portBindings s) = 16"
    and n: "unat (boundPortCount s) = length (bound (portBindings s))"
    using ok by (simp_all add: udp_ok_def bindings_ok_def)
  have full: "16 \<le> boundPortCount s \<longleftrightarrow> \<not> card (dom (udp_map s)) < 16"
    by (simp add: word_le_nat_alt n card_bindings [OF b(1)] udp_map_def not_less)
  show ?thesis
  proof (cases "p = 0")
    case True
    then show ?thesis using i0 by (simp add: bindPort_def)
  next
    case False
    from ok show ?thesis
    proof (rule findPortBinding_cases [of s p])
      fix i h' assume "findPortBinding p s = Some (Some i)" "udp_map s p = Some h'"
      then show ?thesis using i0 by (auto simp: bindPort_def)
    next
      assume f: "findPortBinding p s = Some None" "p \<notin> dom (udp_map s)"
      show ?thesis
      proof (cases "card (dom (udp_map s)) < 16")
        case False
        then show ?thesis using i0 f \<open>p \<noteq> 0\<close> full by (simp add: bindPort_def)
      next
        case True
        from b(2) show ?thesis
        proof (rule find_binding_cases [of "portBindings s" "\<lambda>b. \<not> pb_active b"])
          assume "\<forall>b \<in> set (portBindings s). \<not> \<not> pb_active b"
          then have "bound (portBindings s) = portBindings s" by (simp add: bound_def filter_id_conv)
          then show ?thesis using True b card_bindings [OF b(1)] by (simp add: udp_map_def)
        next
          fix i assume i: "find_binding (\<lambda>b. \<not> pb_active b) (portBindings s) [0..<16] = Some (Some i)" "i < 16"
            "\<not> pb_active (portBindings s ! i)"
          note bs = bind_slot [OF b(1) i(2,3) \<open>p \<noteq> 0\<close> f(2) [unfolded udp_map_def], of h]
          have "unat (boundPortCount s + 1) = Suc (unat (boundPortCount s))"
            using True full by (simp add: unat_word_ariths word_le_nat_alt)
          moreover have "bindPort p (Some h) s = Some (True, s\<lparr>portBindings := (portBindings s)[i :=
              \<lparr>pb_port = p, pb_handler = Some h, pb_active = True\<rparr>], boundPortCount := boundPortCount s + 1\<rparr>)"
            using i0 i b(2) f True full \<open>p \<noteq> 0\<close> by (simp add: bindPort_def wr_at_def)
          ultimately show ?thesis
            using bs i0 f True n \<open>p \<noteq> 0\<close> unfolding udp_ok_def udp_map_def
            by (intro if_P [THEN iffD2] conjI exI [of _ "(portBindings s)[i := \<lparr>pb_port = p, pb_handler = Some h, pb_active = True\<rparr>]"])
              simp_all
        qed
      qed
    qed
  qed
qed

lemma unbindPort_spec:
  assumes ok: "udp_ok s"
  shows "if p \<in> dom (udp_map s)
    then \<exists>bs. unbindPort p s = Some (True, s\<lparr>portBindings := bs, boundPortCount := boundPortCount s - 1\<rparr>) \<and>
      udp_ok (s\<lparr>portBindings := bs, boundPortCount := boundPortCount s - 1\<rparr>) \<and> bindings_map bs = (udp_map s)(p := None)
    else unbindPort p s = Some (False, s)"
proof -
  have i0: "udp_initialized s" and b: "bindings_ok (portBindings s)" "length (portBindings s) = 16"
    and n: "unat (boundPortCount s) = length (bound (portBindings s))"
    using ok by (simp_all add: udp_ok_def bindings_ok_def)
  from ok show ?thesis
  proof (rule findPortBinding_cases [of s p])
    assume "findPortBinding p s = Some None" "p \<notin> dom (udp_map s)"
    then show ?thesis using i0 by (simp add: unbindPort_def)
  next
    fix i h assume i: "findPortBinding p s = Some (Some i)" "i < 16" "pb_active (portBindings s ! i)"
      "pb_port (portBindings s ! i) = p" "udp_map s p = Some h"
    note bs = unbind_slot [OF b(1) i(2,3,4)]
    have "0 < unat (boundPortCount s)" using n bs(3) by linarith
    then have "0 < boundPortCount s" by (simp add: word_less_nat_alt)
    then have "1 \<le> boundPortCount s" by (simp add: word_le_nat_alt word_less_nat_alt)
    then have "unat (boundPortCount s - 1) = unat (boundPortCount s) - 1" by (simp add: unat_sub)
    then show ?thesis
      using bs i0 i b(2) n by (auto simp: unbindPort_def wr_at_def rd_at_def udp_ok_def udp_map_def)
  qed
qed

interpretation udp_ports: bounded_table "\<lambda>p h. bindPort p (Some h)" udp_ok udp_map "\<lambda>p h. p \<noteq> 0" 16
proof unfold_locales
  fix s :: "'a udp_scheme" and p :: u16 and h
  show "finite (dom (udp_map s))" by (simp add: udp_map_def bindings_map_def finite_dom_map_of)
  assume "udp_ok s" "p \<noteq> 0" "p \<notin> dom (udp_map s)" "card (dom (udp_map s)) < 16"
  then show "\<exists>s'. bindPort p (Some h) s = Some (True, s') \<and> udp_ok s' \<and> udp_map s' = (udp_map s)(p \<mapsto> h)"
    using bindPort_spec [of s p h] by (auto simp: udp_map_def)
qed

text \<open>After the last port of the range the counter starts again at port 0, which counts as a failure.\<close>

lemma ephemeral_wraps:
  assumes ok: "udp_ok s" and n: "nextEphemeralPort s = 65535" and free: "65535 \<notin> dom (udp_map s)" "0 \<notin> dom (udp_map s)"
  shows "\<exists>s1 s2. allocateEphemeralPort s = Some (65535, s1) \<and> allocateEphemeralPort s1 = Some (0, s2)"
proof -
  have find: "findPortBinding p (s\<lparr>nextEphemeralPort := x\<rparr>) = Some None" if "p \<notin> dom (udp_map s)" for p x
    using ok that by (cases rule: findPortBinding_cases [of s p]) (auto simp: findPortBinding_def)
  have h: "(100 :: nat) = Suc 99" by simp
  have "allocateEphemeralPort s = Some (65535, s\<lparr>nextEphemeralPort := 0\<rparr>)"
    unfolding allocateEphemeralPort_def h ephemeral_loop.simps Let_def using n find [OF free(1)] by simp
  moreover have "allocateEphemeralPort (s\<lparr>nextEphemeralPort := 0\<rparr>) = Some (0, s\<lparr>nextEphemeralPort := 1\<rparr>)"
    unfolding allocateEphemeralPort_def h ephemeral_loop.simps Let_def using find [OF free(2)] by simp
  ultimately show ?thesis by blast
qed

section \<open>A datagram arrives as it was sent\<close>

lemma length_udp_header [simp]: "length (udp_header sp dp n c) = 8"
  by (simp add: udp_header_def)

lemma udp_fields:
  fixes d :: bytes and sp dp n c :: u16
  defines "m \<equiv> udp_header sp dp n c @ d"
  shows "get_uint16_t m 0 = Some (toBigEndian16 sp)" "get_uint16_t m 2 = Some (toBigEndian16 dp)"
    "get_uint16_t m 4 = Some (toBigEndian16 n)" "get_uint16_t m 6 = Some c" "drop 8 m = d" "slice m 0 8 = Some (udp_header sp dp n c)"
    "slice m 0 6 = Some (bytes16 (toBigEndian16 sp) @ bytes16 (toBigEndian16 dp) @ bytes16 (toBigEndian16 n))"
proof -
  let ?s = "bytes16 (toBigEndian16 sp)" and ?d = "bytes16 (toBigEndian16 dp)" and ?n = "bytes16 (toBigEndian16 n)"
  have m: "m = ?s @ ?d @ ?n @ bytes16 c @ d" by (simp add: m_def udp_header_def)
  show "get_uint16_t m 0 = Some (toBigEndian16 sp)"
    using slice_at [of "[]" 0 ?s 2] by (intro get_uint16_slice) (simp add: m)
  show "get_uint16_t m 2 = Some (toBigEndian16 dp)"
    using slice_at [of ?s 2 ?d 2] by (intro get_uint16_slice) (simp add: m)
  show "get_uint16_t m 4 = Some (toBigEndian16 n)"
    using slice_at [of "?s @ ?d" 4 ?n 2] by (intro get_uint16_slice) (simp add: m)
  show "get_uint16_t m 6 = Some c"
    using slice_at [of "?s @ ?d @ ?n" 6 "bytes16 c" 2] by (intro get_uint16_slice) (simp add: m)
  show "drop 8 m = d" "slice m 0 8 = Some (udp_header sp dp n c)" by (simp_all add: m udp_header_def slice_def)
  show "slice m 0 6 = Some (?s @ ?d @ ?n)" by (simp add: m slice_def)
qed

lemma udp_header_zero: "udp_header sp dp n 0 = bytes16 (toBigEndian16 sp) @ bytes16 (toBigEndian16 dp) @ bytes16 (toBigEndian16 n) @ [0, 0]"
  by (simp add: udp_header_def) (simp add: bytes16_def)

lemma udp_datagram_some:
  assumes d: "slice data 0 (unat n) = Some d" and l: "length d \<le> 65499"
  shows "\<exists>c. udp_datagram sip dip sp dp data n = Some (udp_header sp dp (of_nat (8 + length d)) (toBigEndian16 c) @ d) \<and> c \<noteq> 0 \<and>
    calculateChecksumWithPseudoHeader sip dip (udp_header sp dp (of_nat (8 + length d)) 0) d n = Some c"
proof -
  have n: "unat n = length d" using length_slice [OF d] by simp
  have u: "unat (8 + n) = 8 + length d" using l unat_add_small [of "8" n] n by simp
  have h: "(ucast (8 + n) :: u16) = of_nat (8 + length d)"
  proof (rule word_unat_eq_iff [THEN iffD2])
    show "unat (ucast (8 + n) :: u16) = unat (of_nat (8 + length d) :: u16)"
      using l by (simp add: unsigned_ucast_eq take_bit_eq_mod unat_of_nat u del: of_nat_add)
  qed
  have s: "slice d 0 (unat n) = Some d" by (simp add: n slice_def)
  let ?h = "udp_header sp dp (of_nat (8 + length d)) 0"
  have h8: "slice ?h 0 8 = Some ?h" by (simp add: slice_def)
  define r where "r = (ucast (NOT (fold_carries (sum16 d (sum16 ?h (sum16 (pseudo_header sip dip n) 0))))) :: u16)"
  define c where "c = (if r = 0 then 0xFFFF else r)"
  have c: "c \<noteq> 0" by (simp add: c_def)
  have e1: "calculateChecksumWithPseudoHeader sip dip ?h data n = Some c"
    and e2: "calculateChecksumWithPseudoHeader sip dip ?h d n = Some c"
    by (simp_all only: calculateChecksumWithPseudoHeader_def Let_def h8 d s bind.bind_lunit c_def r_def)
  have "udp_datagram sip dip sp dp data n = Some (udp_header sp dp (of_nat (8 + length d)) (toBigEndian16 c) @ d)"
    unfolding udp_datagram_def Let_def d bind.bind_lunit h e1 using c l by (simp del: of_nat_add)
  then show ?thesis using c e2 by blast
qed

text \<open>What the receiver makes of it: the bytes behind it do not matter.\<close>

lemma handle_udp_datagram:
  assumes ok: "udp_ok s" and h: "udp_map s dp = Some h" and d: "length d \<le> 65499"
    and c: "c \<noteq> 0" "calculateChecksumWithPseudoHeader sip dip (udp_header sp dp (of_nat (8 + length d)) 0) d (of_nat (length d)) = Some c"
  shows "handleUDPPacket call (udp_header sp dp (of_nat (8 + length d)) (toBigEndian16 c) @ d @ pad) (of_nat (8 + length d)) sip dip s =
    map_option (\<lambda>s1. (True, s1)) (call h sip sp (d @ pad) (of_nat (length d)) s)"
proof -
  let ?n = "length d"
  note f = udp_fields [where d = "d @ pad" and sp = sp and dp = dp and n = "of_nat (8 + ?n)" and c = "toBigEndian16 c"]
  have n1: "unat (of_nat (8 + ?n) :: u32) = 8 + ?n" "unat (of_nat (8 + ?n) :: u16) = 8 + ?n" "unat (of_nat ?n :: u32) = ?n"
    using d by (simp_all add: unat_of_nat del: of_nat_add)
  have n2: "\<not> (of_nat (8 + ?n) :: u32) < 8" "\<not> (of_nat (8 + ?n) :: u16) < 8"
    by (simp_all only: word_less_nat_alt n1) simp_all
  have n3: "(ucast (of_nat (8 + ?n) :: u16) :: u32) = of_nat (8 + ?n)"
    by (rule word_unat_eq_iff [THEN iffD2]) (simp only: unat_ucast_16_32 n1)
  have n4: "(of_nat (8 + ?n) :: u32) - 8 = of_nat ?n" by simp
  have s8: "slice (d @ pad) 0 (unat (of_nat ?n :: u32)) = slice d 0 (unat (of_nat ?n :: u32))"
    unfolding n1 by (simp add: slice_def)
  have ck: "calculateChecksumWithPseudoHeader sip dip
      ((bytes16 (toBigEndian16 sp) @ bytes16 (toBigEndian16 dp) @ bytes16 (toBigEndian16 (of_nat (8 + ?n)))) @ [0, 0]) (d @ pad) (of_nat ?n) = Some c"
    using c(2) unfolding udp_header_zero calculateChecksumWithPseudoHeader_def s8 by simp
  obtain i where i: "findPortBinding dp s = Some (Some i)" "i < 16" "pb_active (portBindings s ! i)" "pb_handler (portBindings s ! i) = Some h"
    using ok by (cases rule: findPortBinding_cases [of s dp]) (use h in auto)
  have l: "length (portBindings s) = 16" "udp_initialized s" using ok by (simp_all add: udp_ok_def bindings_ok_def)
  show ?thesis
    unfolding handleUDPPacket_def f bind.bind_lunit Let_def toBigEndian16_twice n3 n4 ck
    using n2 c(1) i l by (simp add: rd_at_def map_option_case del: of_nat_add split: option.split)
qed

end
