(* ===== verification/Sockets.thy ===== *)
theory Sockets
  imports Udp
begin

text \<open>
  The sockets of the kernel (\<open>core/network/UDPSocket.cpp\<close>, \<open>ICMPSocket.cpp\<close>): objects with a queue of
  received packets, and the registries through which received packets find them. A packet in a
  queue holds its bytes; the kernel heap is seen through \<open>heap_answers\<close>, which says of the
  allocations to come whether they succeed. A negative error number returned as \<open>size_t\<close> is the
  32-bit word. A socket's \<open>listen\<close>, \<open>accept\<close> and \<open>shutdown\<close> only return an error and are left out.
\<close>

datatype sock_state = Unbound | Bound | Connected

record packet =
  p_srcIP :: u32
  p_srcPort :: u16
  p_data :: bytes

record usocket =
  us_state :: sock_state
  us_localIP :: u32
  us_localPort :: u16
  us_remoteIP :: u32
  us_remotePort :: u16
  nonBlocking :: bool
  reuseAddr :: bool
  broadcast :: bool
  lastError :: u32
  receiveQueue :: "packet list option"

record isocket =
  is_state :: sock_state
  is_localIP :: u32
  is_remoteIP :: u32
  is_nonBlocking :: bool
  is_lastError :: u32
  is_receiveQueue :: "packet list option"

record socks = udp +
  usockets :: "u32 \<Rightarrow> usocket option"
  socketRegistry :: "u32 list"
  registryPorts :: "u16 list"
  registryCount :: u8
  isockets :: "u32 \<Rightarrow> isocket option"
  icmpRegistry :: "u32 list"
  icmpRegistryCount :: u8
  heap_answers :: "bool list"

definition heap_alloc :: "u32 \<Rightarrow> 'a socks_scheme \<Rightarrow> bool \<times> 'a socks_scheme" where
  "heap_alloc n s =
     (if n = 0 then (False, s)
      else case heap_answers s of [] \<Rightarrow> (False, s) | a # as \<Rightarrow> (a, s\<lparr>heap_answers := as\<rparr>))"

definition us_deref :: "u32 \<Rightarrow> 'a socks_scheme \<Rightarrow> usocket option" where
  "us_deref p s = (if p = 0 then None else usockets s p)"

definition us_set :: "u32 \<Rightarrow> usocket \<Rightarrow> 'a socks_scheme \<Rightarrow> 'a socks_scheme" where
  "us_set p t s = s\<lparr>usockets := (usockets s)(p \<mapsto> t)\<rparr>"

section \<open>The registry of UDP sockets\<close>

fun find_slot_of :: "('b \<Rightarrow> bool) \<Rightarrow> 'b list \<Rightarrow> nat list \<Rightarrow> nat option option" where
  "find_slot_of P xs [] = Some None"
| "find_slot_of P xs (i # is) = do { x \<leftarrow> rd_at xs i; if P x then Some (Some i) else find_slot_of P xs is }"

definition registerSocket :: "u16 \<Rightarrow> u32 \<Rightarrow> 'a socks_scheme \<Rightarrow> 'a socks_scheme option" where
  "registerSocket port p s =
     (if 16 \<le> registryCount s then Some s
      else do {
        slot \<leftarrow> find_slot_of (\<lambda>q. q = 0) (socketRegistry s) [0..<16];
        (case slot of
           None \<Rightarrow> Some s
         | Some i \<Rightarrow> do {
             qs \<leftarrow> wr_at (socketRegistry s) i p;
             ps \<leftarrow> wr_at (registryPorts s) i port;
             Some (s\<lparr>socketRegistry := qs, registryPorts := ps, registryCount := registryCount s + 1\<rparr>) }) })"

definition unregisterSocket :: "u16 \<Rightarrow> 'a socks_scheme \<Rightarrow> 'a socks_scheme option" where
  "unregisterSocket port s =
     do { slot \<leftarrow> find_slot_of (\<lambda>q. q = port) (registryPorts s) [0..<16];
          (case slot of
             None \<Rightarrow> Some s
           | Some i \<Rightarrow> do {
               qs \<leftarrow> wr_at (socketRegistry s) i 0;
               ps \<leftarrow> wr_at (registryPorts s) i 0;
               Some (s\<lparr>socketRegistry := qs, registryPorts := ps, registryCount := registryCount s - 1\<rparr>) }) }"

definition findSocket :: "u16 \<Rightarrow> 'a socks_scheme \<Rightarrow> u32 option" where
  "findSocket port s =
     do { slot \<leftarrow> find_slot_of (\<lambda>q. q = port) (registryPorts s) [0..<16];
          (case slot of None \<Rightarrow> Some 0 | Some i \<Rightarrow> rd_at (socketRegistry s) i) }"

section \<open>Receiving\<close>

definition handleIncomingPacket :: "u32 \<Rightarrow> u32 \<Rightarrow> u16 \<Rightarrow> bytes \<Rightarrow> u32 \<Rightarrow> 'a socks_scheme \<Rightarrow> 'a socks_scheme option" where
  "handleIncomingPacket this srcIP srcPort data len s =
     do { t \<leftarrow> us_deref this s;
          (case receiveQueue t of
             None \<Rightarrow> Some s
           | Some q \<Rightarrow>
               if 64 \<le> length q then Some s
               else let (ok, s1) = heap_alloc len s in
                 if \<not> ok then Some s1
                 else do {
                   d \<leftarrow> slice data 0 (unat len);
                   Some (us_set this (t\<lparr>receiveQueue := Some (q @ [\<lparr>p_srcIP = srcIP, p_srcPort = srcPort, p_data = d\<rparr>])\<rparr>) s1) }) }"

definition udpReceiveCallbackTrampoline :: "u32 \<Rightarrow> u16 \<Rightarrow> bytes \<Rightarrow> u32 \<Rightarrow> 'a socks_scheme \<Rightarrow> 'a socks_scheme option" where
  "udpReceiveCallbackTrampoline srcIP srcPort data len s =
     (if registryCount s = 0 then Some s
      else fold_opt (\<lambda>i s. do { p \<leftarrow> rd_at (socketRegistry s) i;
                                if p \<noteq> 0 then handleIncomingPacket p srcIP srcPort data len s else Some s }) [0..<16] s)"

text \<open>The return value, and what has been copied to the caller when a packet was there.\<close>

definition recvfrom :: "u32 \<Rightarrow> u32 \<Rightarrow> 'a socks_scheme \<Rightarrow> ((u32 \<times> packet option) \<times> 'a socks_scheme) option" where
  "recvfrom this len s =
     do { t \<leftarrow> us_deref this s;
          (case receiveQueue t of
             None \<Rightarrow> Some ((- 9, None), s)
           | Some [] \<Rightarrow> Some ((if nonBlocking t then - 11 else 0, None), s)
           | Some (pkt # q) \<Rightarrow>
               let copySize = min (length (p_data pkt)) (unat len) in
               Some ((of_nat copySize, Some (pkt\<lparr>p_data := take copySize (p_data pkt)\<rparr>)),
                     us_set this (t\<lparr>receiveQueue := Some q\<rparr>) s)) }"

definition getBytesAvailable :: "u32 \<Rightarrow> 'a socks_scheme \<Rightarrow> nat option" where
  "getBytesAvailable this s =
     do { t \<leftarrow> us_deref this s;
          Some (case receiveQueue t of Some (pkt # q) \<Rightarrow> length (p_data pkt) | _ \<Rightarrow> 0) }"

section \<open>Opening, binding, sending and closing\<close>

definition newUDPSocket :: "u32 \<Rightarrow> 'a socks_scheme \<Rightarrow> 'a socks_scheme" where
  "newUDPSocket this s =
     (let (ok, s1) = heap_alloc 1 s in
      us_set this \<lparr>us_state = Unbound, us_localIP = 0, us_localPort = 0, us_remoteIP = 0, us_remotePort = 0,
        nonBlocking = False, reuseAddr = False, broadcast = False, lastError = (if ok then 0 else 12),
        receiveQueue = (if ok then Some [] else None)\<rparr> s1)"

definition udp_bind :: "u32 \<Rightarrow> u32 \<Rightarrow> u16 \<Rightarrow> 'a socks_scheme \<Rightarrow> (int \<times> 'a socks_scheme) option" where
  "udp_bind this ip port s =
     do { t \<leftarrow> us_deref this s;
          if us_state t \<noteq> Unbound then Some (- 22, s)
          else if port = 0 then Some (- 22, s)
          else do {
            (success, s1) \<leftarrow> bindPort port (Some SocketCallback) s;
            if \<not> success then Some (- 98, s1)
            else do {
              s2 \<leftarrow> registerSocket port this s1;
              Some (0, us_set this (t\<lparr>us_localIP := ip, us_localPort := port, us_state := Bound\<rparr>) s2) } } }"

definition udp_connect :: "u32 \<Rightarrow> u32 \<Rightarrow> u16 \<Rightarrow> 'a socks_scheme \<Rightarrow> (int \<times> 'a socks_scheme) option" where
  "udp_connect this ip port s =
     do { t \<leftarrow> us_deref this s;
          Some (0, us_set this (t\<lparr>us_remoteIP := ip, us_remotePort := port, us_state := Connected\<rparr>) s) }"

text \<open>The part of \<open>sendto\<close> that gives an unbound socket a port: \<open>Inl\<close> is the error it returns.\<close>

definition auto_bind :: "u32 \<Rightarrow> 'a socks_scheme \<Rightarrow> ((int + u16) \<times> 'a socks_scheme) option" where
  "auto_bind this s =
     do { t \<leftarrow> us_deref this s;
          if us_localPort t \<noteq> 0 then Some (Inr (us_localPort t), s)
          else do {
            (srcPort, s1) \<leftarrow> allocateEphemeralPort s;
            if srcPort = 0 then Some (Inl (- 11), s1)
            else do {
              (bindSuccess, s2) \<leftarrow> bindPort srcPort (Some SocketCallback) s1;
              if \<not> bindSuccess then Some (Inl (- 98), us_set this (t\<lparr>us_localPort := 0\<rparr>) s2)
              else do {
                s3 \<leftarrow> registerSocket srcPort this s2;
                Some (Inr srcPort, us_set this (t\<lparr>us_localPort := srcPort, us_state := Bound\<rparr>) s3) } } } }"

definition sendto ::
    "('a socks_scheme \<Rightarrow> 'a socks_scheme option) \<Rightarrow> u32 \<Rightarrow> bytes \<Rightarrow> u32 \<Rightarrow> u32 \<Rightarrow> u16 \<Rightarrow> 'a socks_scheme \<Rightarrow> (u32 \<times> 'a socks_scheme) option" where
  "sendto poll this buffer len destIP destPort s =
     do { (r, s1) \<leftarrow> auto_bind this s;
          (case r of
             Inl e \<Rightarrow> Some (word_of_int e, s1)
           | Inr srcPort \<Rightarrow> do {
               (success, s2) \<leftarrow> sendDatagram poll destIP destPort srcPort buffer len s1;
               Some (if \<not> success then - 5 else len, s2) }) }"

definition release_port :: "usocket \<Rightarrow> 'a socks_scheme \<Rightarrow> 'a socks_scheme option" where
  "release_port t s =
     (if us_state t \<noteq> Unbound \<and> us_localPort t \<noteq> 0
      then do { (_, s1) \<leftarrow> unbindPort (us_localPort t) s; unregisterSocket (us_localPort t) s1 }
      else Some s)"

definition udp_close :: "u32 \<Rightarrow> 'a socks_scheme \<Rightarrow> (int \<times> 'a socks_scheme) option" where
  "udp_close this s =
     do { t \<leftarrow> us_deref this s;
          s1 \<leftarrow> release_port t s;
          Some (0, us_set this (t\<lparr>us_state := Unbound, us_localPort := 0\<rparr>) s1) }"

definition destroyUDPSocket :: "u32 \<Rightarrow> 'a socks_scheme \<Rightarrow> 'a socks_scheme option" where
  "destroyUDPSocket this s =
     do { t \<leftarrow> us_deref this s; s1 \<leftarrow> release_port t s; Some (s1\<lparr>usockets := (usockets s1)(this := None)\<rparr>) }"

definition udp_setsockopt :: "u32 \<Rightarrow> u32 \<Rightarrow> u32 \<Rightarrow> u32 \<Rightarrow> u32 \<Rightarrow> 'a socks_scheme \<Rightarrow> (int \<times> 'a socks_scheme) option" where
  "udp_setsockopt this level optname optval optlen s =
     do { t \<leftarrow> us_deref this s;
          if level \<noteq> 1 then Some (- 92, s)
          else if optname = 2
          then Some (if optlen < 4 then (- 22, s) else (0, us_set this (t\<lparr>reuseAddr := (optval \<noteq> 0)\<rparr>) s))
          else if optname = 6
          then Some (if optlen < 4 then (- 22, s) else (0, us_set this (t\<lparr>broadcast := (optval \<noteq> 0)\<rparr>) s))
          else Some (- 92, s) }"

text \<open>\<open>out\<close> says whether both pointers are there; the value written comes with the result.\<close>

definition udp_getsockopt :: "u32 \<Rightarrow> u32 \<Rightarrow> u32 \<Rightarrow> bool \<Rightarrow> u32 \<Rightarrow> 'a socks_scheme \<Rightarrow> ((int \<times> u32 option) \<times> 'a socks_scheme) option" where
  "udp_getsockopt this level optname out optlen s =
     do { t \<leftarrow> us_deref this s;
          if \<not> out then Some ((- 22, None), s)
          else if level \<noteq> 1 then Some ((- 92, None), s)
          else if optname \<notin> {2, 3, 4, 6} then Some ((- 92, None), s)
          else if optlen < 4 then Some ((- 22, None), s)
          else if optname = 3 then Some ((0, Some 2), s)
          else if optname = 4 then Some ((0, Some (lastError t)), us_set this (t\<lparr>lastError := 0\<rparr>) s)
          else if optname = 2 then Some ((0, Some (if reuseAddr t then 1 else 0)), s)
          else Some ((0, Some (if broadcast t then 1 else 0)), s) }"

section \<open>Raw ICMP sockets\<close>

definition is_deref :: "u32 \<Rightarrow> 'a socks_scheme \<Rightarrow> isocket option" where
  "is_deref p s = (if p = 0 then None else isockets s p)"

definition is_set :: "u32 \<Rightarrow> isocket \<Rightarrow> 'a socks_scheme \<Rightarrow> 'a socks_scheme" where
  "is_set p t s = s\<lparr>isockets := (isockets s)(p \<mapsto> t)\<rparr>"

definition icmp_registerSocket :: "u32 \<Rightarrow> 'a socks_scheme \<Rightarrow> 'a socks_scheme option" where
  "icmp_registerSocket p s =
     (if 16 \<le> icmpRegistryCount s then Some s
      else do {
        slot \<leftarrow> find_slot_of (\<lambda>q. q = 0) (icmpRegistry s) [0..<16];
        (case slot of
           None \<Rightarrow> Some s
         | Some i \<Rightarrow> do { qs \<leftarrow> wr_at (icmpRegistry s) i p;
                          Some (s\<lparr>icmpRegistry := qs, icmpRegistryCount := icmpRegistryCount s + 1\<rparr>) }) })"

definition icmp_unregisterSocket :: "u32 \<Rightarrow> 'a socks_scheme \<Rightarrow> 'a socks_scheme option" where
  "icmp_unregisterSocket p s =
     do { slot \<leftarrow> find_slot_of (\<lambda>q. q = p) (icmpRegistry s) [0..<16];
          (case slot of
             None \<Rightarrow> Some s
           | Some i \<Rightarrow> do { qs \<leftarrow> wr_at (icmpRegistry s) i 0;
                            Some (s\<lparr>icmpRegistry := qs, icmpRegistryCount := icmpRegistryCount s - 1\<rparr>) }) }"

definition newICMPSocket :: "u32 \<Rightarrow> 'a socks_scheme \<Rightarrow> 'a socks_scheme option" where
  "newICMPSocket this s =
     (let (ok, s1) = heap_alloc 1 s;
          s2 = is_set this \<lparr>is_state = Unbound, is_localIP = 0, is_remoteIP = 0, is_nonBlocking = False,
                 is_lastError = (if ok then 0 else 12), is_receiveQueue = (if ok then Some [] else None)\<rparr> s1
      in if ok then icmp_registerSocket this s2 else Some s2)"

definition destroyICMPSocket :: "u32 \<Rightarrow> 'a socks_scheme \<Rightarrow> 'a socks_scheme option" where
  "destroyICMPSocket this s =
     do { s1 \<leftarrow> icmp_unregisterSocket this s; Some (s1\<lparr>isockets := (isockets s1)(this := None)\<rparr>) }"

definition icmp_bind :: "u32 \<Rightarrow> u32 \<Rightarrow> 'a socks_scheme \<Rightarrow> (int \<times> 'a socks_scheme) option" where
  "icmp_bind this ip s =
     do { t \<leftarrow> is_deref this s; Some (0, is_set this (t\<lparr>is_localIP := ip, is_state := Unbound\<rparr>) s) }"

definition icmp_connect :: "u32 \<Rightarrow> u32 \<Rightarrow> 'a socks_scheme \<Rightarrow> (int \<times> 'a socks_scheme) option" where
  "icmp_connect this ip s =
     do { t \<leftarrow> is_deref this s; Some (0, is_set this (t\<lparr>is_remoteIP := ip, is_state := Connected\<rparr>) s) }"

definition icmp_sendto ::
    "('a socks_scheme \<Rightarrow> 'a socks_scheme option) \<Rightarrow> bytes option \<Rightarrow> u32 \<Rightarrow> u32 \<Rightarrow> 'a socks_scheme \<Rightarrow> (u32 \<times> 'a socks_scheme) option" where
  "icmp_sendto poll buffer len destIP s =
     (case buffer of
        None \<Rightarrow> Some (- 22, s)
      | Some b \<Rightarrow>
          if len = 0 then Some (- 22, s)
          else do { (success, s1) \<leftarrow> ip_sendPacket poll destIP 1 b len s; Some (if \<not> success then - 5 else len, s1) })"

definition icmp_recvfrom :: "u32 \<Rightarrow> u32 \<Rightarrow> 'a socks_scheme \<Rightarrow> ((u32 \<times> packet option) \<times> 'a socks_scheme) option" where
  "icmp_recvfrom this len s =
     do { t \<leftarrow> is_deref this s;
          (case is_receiveQueue t of
             None \<Rightarrow> Some ((- 9, None), s)
           | Some [] \<Rightarrow> Some ((if is_nonBlocking t then - 11 else 0, None), s)
           | Some (pkt # q) \<Rightarrow>
               let copySize = min (length (p_data pkt)) (unat len) in
               Some ((of_nat copySize, Some (pkt\<lparr>p_srcPort := 0, p_data := take copySize (p_data pkt)\<rparr>)),
                     is_set this (t\<lparr>is_receiveQueue := Some q\<rparr>) s)) }"

definition icmp_getBytesAvailable :: "u32 \<Rightarrow> 'a socks_scheme \<Rightarrow> nat option" where
  "icmp_getBytesAvailable this s =
     do { t \<leftarrow> is_deref this s;
          Some (case is_receiveQueue t of Some (pkt # q) \<Rightarrow> length (p_data pkt) | _ \<Rightarrow> 0) }"

definition icmp_close :: "u32 \<Rightarrow> 'a socks_scheme \<Rightarrow> (int \<times> 'a socks_scheme) option" where
  "icmp_close this s = do { t \<leftarrow> is_deref this s; Some (0, is_set this (t\<lparr>is_state := Unbound\<rparr>) s) }"

definition icmp_setsockopt :: "u32 \<Rightarrow> u32 \<Rightarrow> int" where
  "icmp_setsockopt level optname = - 92"

definition icmp_getsockopt :: "u32 \<Rightarrow> u32 \<Rightarrow> u32 \<Rightarrow> bool \<Rightarrow> u32 \<Rightarrow> 'a socks_scheme \<Rightarrow> ((int \<times> u32 option) \<times> 'a socks_scheme) option" where
  "icmp_getsockopt this level optname out optlen s =
     do { t \<leftarrow> is_deref this s;
          if \<not> out then Some ((- 22, None), s)
          else if level \<noteq> 1 then Some ((- 92, None), s)
          else if optname = 3 then Some (if optlen < 4 then (- 22, None) else (0, Some 3), s)
          else if optname = 4
          then Some (if optlen < 4 then ((- 22, None), s)
                     else ((0, Some (is_lastError t)), is_set this (t\<lparr>is_lastError := 0\<rparr>) s))
          else Some ((- 92, None), s) }"

definition deliverPacket :: "u32 \<Rightarrow> u32 \<Rightarrow> bytes \<Rightarrow> u32 \<Rightarrow> 'a socks_scheme \<Rightarrow> 'a socks_scheme option" where
  "deliverPacket this srcIP icmpData len s =
     do { t \<leftarrow> is_deref this s;
          (case is_receiveQueue t of
             None \<Rightarrow> Some s
           | Some q \<Rightarrow>
               if is_state t = Connected \<and> srcIP \<noteq> is_remoteIP t then Some s
               else if 64 \<le> length q then Some s
               else let (ok, s1) = heap_alloc len s in
                 if \<not> ok then Some s1
                 else do {
                   d \<leftarrow> slice icmpData 0 (unat len);
                   Some (is_set this (t\<lparr>is_receiveQueue := Some (q @ [\<lparr>p_srcIP = srcIP, p_srcPort = 0, p_data = d\<rparr>])\<rparr>) s1) }) }"

definition deliverToAllSockets :: "u32 \<Rightarrow> bytes \<Rightarrow> u32 \<Rightarrow> 'a socks_scheme \<Rightarrow> 'a socks_scheme option" where
  "deliverToAllSockets srcIP icmpData len s =
     fold_opt (\<lambda>i s. do { p \<leftarrow> rd_at (icmpRegistry s) i;
                          if p \<noteq> 0 then deliverPacket p srcIP icmpData len s else Some s }) [0..<16] s"

end
