(* ===== verification/Dns.thy ===== *)
theory Dns
  imports Sockets
begin

text \<open>
  The resolver (\<open>core/network/DNS.cpp\<close>): its cache, the query it sends, the response it takes apart
  and names in wire format. Offsets into a response are natural numbers: a response is the data
  of a datagram, shorter than 65536 bytes, so the 32-bit offsets of the code cannot wrap.
\<close>

record dns_entry =
  de_domainName :: bytes
  de_ipAddress :: u32
  de_timestamp :: u32
  de_valid :: bool

record dns = socks +
  dns_initialized :: bool
  dns_cache :: "dns_entry list"
  dns_cacheCount :: u8
  queryDomain :: bytes
  transactionID :: u16
  serverIP :: u32
  responseReceived :: bool
  resolvedIP :: u32
  dnsPortBound :: bool

section \<open>The cache\<close>

definition dns_initialize :: "'a dns_scheme \<Rightarrow> bool \<times> 'a dns_scheme" where
  "dns_initialize s =
     (True, if dns_initialized s then s else s\<lparr>dns_cacheCount := 0, dns_initialized := True\<rparr>)"

fun dns_find :: "bytes \<Rightarrow> dns_entry list \<Rightarrow> nat list \<Rightarrow> nat option option" where
  "dns_find name es [] = Some None"
| "dns_find name es (i # is) =
     do { e \<leftarrow> rd_at es i;
          if de_valid e then do { c \<leftarrow> strcmp (de_domainName e) name;
                                  if c = 0 then Some (Some i) else dns_find name es is }
          else dns_find name es is }"

definition dns_findCacheEntry :: "bytes \<Rightarrow> 'a dns_scheme \<Rightarrow> nat option option" where
  "dns_findCacheEntry name s = dns_find name (dns_cache s) [0..<unat (dns_cacheCount s)]"

definition dns_addCacheEntry :: "bytes option \<Rightarrow> u32 \<Rightarrow> 'a dns_scheme \<Rightarrow> (bool \<times> 'a dns_scheme) option" where
  "dns_addCacheEntry domainName ip s =
     (if \<not> dns_initialized s then Some (False, s)
      else case domainName of
        None \<Rightarrow> Some (False, s)
      | Some name \<Rightarrow> do {
          n \<leftarrow> strlen name;
          if 255 \<le> n then Some (False, s)
          else do {
            found \<leftarrow> dns_findCacheEntry name s;
            (case found of
               Some i \<Rightarrow> do {
                 e \<leftarrow> rd_at (dns_cache s) i;
                 es \<leftarrow> wr_at (dns_cache s) i (e\<lparr>de_ipAddress := ip, de_timestamp := 0, de_valid := True\<rparr>);
                 Some (True, s\<lparr>dns_cache := es\<rparr>) }
             | None \<Rightarrow>
                 if 32 \<le> dns_cacheCount s then Some (False, s)
                 else do {
                   e \<leftarrow> rd_at (dns_cache s) (unat (dns_cacheCount s));
                   d \<leftarrow> strcpy (de_domainName e) name;
                   es \<leftarrow> wr_at (dns_cache s) (unat (dns_cacheCount s))
                     \<lparr>de_domainName = d, de_ipAddress = ip, de_timestamp = 0, de_valid = True\<rparr>;
                   Some (True, s\<lparr>dns_cache := es, dns_cacheCount := dns_cacheCount s + 1\<rparr>) }) } })"

definition dns_clearCache :: "'a dns_scheme \<Rightarrow> 'a dns_scheme option" where
  "dns_clearCache s =
     (if \<not> dns_initialized s then Some s
      else do {
        es \<leftarrow> fold_opt (\<lambda>i es. do { e \<leftarrow> rd_at es i; wr_at es i (e\<lparr>de_valid := False\<rparr>) })
                [0..<unat (dns_cacheCount s)] (dns_cache s);
        Some (s\<lparr>dns_cache := es, dns_cacheCount := 0\<rparr>) })"

section \<open>Names in wire format\<close>

definition dns_lower :: "byte \<Rightarrow> byte" where
  "dns_lower c = (if 65 \<le> c \<and> c \<le> 90 then c + 32 else c)"

text \<open>
  The loop over the positions of the name: the bytes written so far, or the error 0 as \<open>None\<close>
  inside. An empty label is skipped without moving its start.
\<close>

fun encode_loop :: "bytes \<Rightarrow> nat \<Rightarrow> nat list \<Rightarrow> nat \<Rightarrow> bytes \<Rightarrow> bytes option option" where
  "encode_loop name bufferSize [] labelStart out = Some (Some out)"
| "encode_loop name bufferSize (i # is) labelStart out =
     do { c \<leftarrow> rd_at name i;
          if c = 0x2E \<or> c = 0
          then let labelLength = i - labelStart in
            if labelLength = 0 then encode_loop name bufferSize is labelStart out
            else if 63 < labelLength then Some None
            else if bufferSize \<le> length out + 1 + labelLength then Some None
            else do { label \<leftarrow> slice name labelStart labelLength;
                      encode_loop name bufferSize is (i + 1) (out @ of_nat labelLength # map dns_lower label) }
          else encode_loop name bufferSize is labelStart out }"

text \<open>The bytes written; none stands for the error value 0.\<close>

definition encodeDomainName :: "bytes \<Rightarrow> nat \<Rightarrow> bytes option" where
  "encodeDomainName name bufferSize =
     (if bufferSize < 2 then Some []
      else do {
        n \<leftarrow> strlen name;
        if n = 0 \<or> 255 \<le> n then Some []
        else do {
          r \<leftarrow> encode_loop name bufferSize [0..<Suc n] 0 [];
          Some (case r of None \<Rightarrow> [] | Some out \<Rightarrow> if bufferSize \<le> length out then [] else out @ [0]) } })"

text \<open>Copying a label stops when the output is full; the input position stays where it is then.\<close>

fun copy_label :: "bytes \<Rightarrow> nat \<Rightarrow> nat \<Rightarrow> nat \<Rightarrow> bytes \<Rightarrow> (nat \<times> bytes) option" where
  "copy_label buffer outMax 0 inp out = Some (inp, out)"
| "copy_label buffer outMax (Suc k) inp out =
     (if length out < outMax - 1 then do { b \<leftarrow> rd_at buffer inp; copy_label buffer outMax k (inp + 1) (out @ [b]) }
      else Some (inp, out))"

fun decode_loop :: "nat \<Rightarrow> bytes \<Rightarrow> nat \<Rightarrow> nat \<Rightarrow> nat \<Rightarrow> bytes \<Rightarrow> (bool \<times> bytes) option" where
  "decode_loop 0 buffer bufferSize outMax inp out = None"
| "decode_loop (Suc fuel) buffer bufferSize outMax inp out =
     (if bufferSize \<le> inp then Some (False, out @ [0])
      else do {
        labelLength \<leftarrow> rd_at buffer inp;
        if labelLength = 0
        then Some (True, (if out \<noteq> [] \<and> last out = 0x2E then butlast out else out) @ [0])
        else if labelLength AND 0xC0 = 0xC0 then Some (False, out)
        else if 63 < labelLength \<or> bufferSize < inp + 1 + unat labelLength then Some (False, out)
        else do {
          (inp', out') \<leftarrow> copy_label buffer outMax (unat labelLength) (inp + 1)
             (if out \<noteq> [] \<and> length out < outMax - 1 then out @ [0x2E] else out);
          decode_loop fuel buffer bufferSize outMax inp' out' } })"

text \<open>Every round reads at least one byte, so one round more than there are bytes is enough.\<close>

definition decodeDomainName :: "bytes \<Rightarrow> nat \<Rightarrow> nat \<Rightarrow> (bool \<times> bytes) option" where
  "decodeDomainName buffer bufferSize outMaxLength =
     (if outMaxLength = 0 then Some (False, []) else decode_loop (Suc bufferSize) buffer bufferSize outMaxLength 0 [])"

section \<open>Queries and responses\<close>

definition dns_query :: "bytes \<Rightarrow> bytes" where
  "dns_query encoded =
     bytes16 (toBigEndian16 0x1234) @ bytes16 (toBigEndian16 0x0100) @ bytes16 (toBigEndian16 1) @
     bytes16 0 @ bytes16 0 @ bytes16 0 @ encoded @ bytes16 (toBigEndian16 1) @ bytes16 (toBigEndian16 1)"

definition sendDNSQuery ::
    "('a dns_scheme \<Rightarrow> 'a dns_scheme option) \<Rightarrow> bytes option \<Rightarrow> u32 \<Rightarrow> 'a dns_scheme \<Rightarrow> (bool \<times> 'a dns_scheme) option" where
  "sendDNSQuery poll domainName dnsServerIP s =
     (case domainName of
        None \<Rightarrow> Some (False, s)
      | Some name \<Rightarrow> do {
          encoded \<leftarrow> encodeDomainName name (512 - 12);
          if encoded = [] then Some (False, s)
          else if 512 < length (dns_query encoded) then None
          else do {
            q \<leftarrow> strcpy (queryDomain s) name;
            let s1 = s\<lparr>queryDomain := q, transactionID := 0x1234, serverIP := dnsServerIP, responseReceived := False, resolvedIP := 0\<rparr>
            in do {
              s2 \<leftarrow> (if dnsPortBound s1 then Some s1
                     else do { (_, t) \<leftarrow> bindPort 54321 (Some DnsCallback) s1; Some (t\<lparr>dnsPortBound := True\<rparr>) });
              sendDatagram poll dnsServerIP 53 54321 (dns_query encoded) (of_nat (length (dns_query encoded))) s2 } } })"

text \<open>Skipping the name of the question, which ends at a zero byte or a compression pointer.\<close>

function skip_question :: "bytes \<Rightarrow> nat \<Rightarrow> nat \<Rightarrow> nat option" where
  "skip_question data len off =
     (if off < len
      then case rd_at data off of
          None \<Rightarrow> None
        | Some l \<Rightarrow> if l = 0 then Some off
                    else if 192 \<le> l then Some (off + 2)
                    else skip_question data len (off + 1 + unat l)
      else Some off)"
  by pat_completeness auto
termination by (relation "measure (\<lambda>(data, len, off). len - off)") auto

function skip_name :: "bytes \<Rightarrow> nat \<Rightarrow> nat \<Rightarrow> nat option" where
  "skip_name data len off =
     (if off < len
      then case rd_at data off of
          None \<Rightarrow> None
        | Some l \<Rightarrow> if l = 0 then Some off else skip_name data len (off + 1 + unat l)
      else Some off)"
  by pat_completeness auto
termination by (relation "measure (\<lambda>(data, len, off). len - off)") auto

declare skip_question.simps [simp del] skip_name.simps [simp del]

definition be16_at :: "bytes \<Rightarrow> nat \<Rightarrow> u16 option" where
  "be16_at data off = do { a \<leftarrow> rd_at data off; b \<leftarrow> rd_at data (off + 1); Some (push_bit 8 (ucast a) OR ucast b) }"

definition be32_at :: "bytes \<Rightarrow> nat \<Rightarrow> u32 option" where
  "be32_at data off =
     do { a \<leftarrow> rd_at data off; b \<leftarrow> rd_at data (off + 1); c \<leftarrow> rd_at data (off + 2); d \<leftarrow> rd_at data (off + 3);
          Some (push_bit 24 (ucast a) OR push_bit 16 (ucast b) OR push_bit 8 (ucast c) OR ucast d) }"

text \<open>The answers: the address of the first A record, if there is one.\<close>

fun parse_answers :: "bytes \<Rightarrow> nat \<Rightarrow> nat \<Rightarrow> nat \<Rightarrow> u32 option option" where
  "parse_answers data len 0 off = Some None"
| "parse_answers data len (Suc n) off =
     (if len \<le> off then Some None
      else do {
        b \<leftarrow> rd_at data off;
        off1 \<leftarrow> (if b AND 0xC0 = 0xC0 then Some (off + 2) else map_option Suc (skip_name data len off));
        if len < off1 + 10 then Some None
        else do {
          answerType \<leftarrow> be16_at data off1;
          answerClass \<leftarrow> be16_at data (off1 + 2);
          rdataLength \<leftarrow> be16_at data (off1 + 8);
          let off2 = off1 + 10 in
          if answerType = 1 \<and> answerClass = 1 \<and> rdataLength = 4 \<and> off2 + 4 \<le> len
          then map_option Some (be32_at data off2)
          else parse_answers data len n (off2 + unat rdataLength) } })"

definition handleDNSResponse :: "bytes \<Rightarrow> u32 \<Rightarrow> u32 \<Rightarrow> 'a dns_scheme \<Rightarrow> 'a dns_scheme option" where
  "handleDNSResponse responseData responseLength server s =
     (if responseLength < 12 then Some s
      else do {
        tid \<leftarrow> get_uint16_t responseData 0;
        fl \<leftarrow> get_uint16_t responseData 2;
        an \<leftarrow> get_uint16_t responseData 6;
        let flags = toBigEndian16 fl; len = unat responseLength in
        if toBigEndian16 tid \<noteq> transactionID s then Some s
        else if flags AND 0x000F \<noteq> 0 then Some s
        else if flags AND 0x8000 = 0 then Some s
        else do {
          off \<leftarrow> skip_question responseData len 12;
          r \<leftarrow> parse_answers responseData len (unat (toBigEndian16 an)) (off + 1 + 4);
          Some (case r of None \<Rightarrow> s | Some ip \<Rightarrow> s\<lparr>responseReceived := True, resolvedIP := ip\<rparr>) } })"

section \<open>Resolving\<close>

fun dns_wait :: "('a dns_scheme \<Rightarrow> 'a dns_scheme option) \<Rightarrow> nat \<Rightarrow> 'a dns_scheme \<Rightarrow> 'a dns_scheme option" where
  "dns_wait poll 0 s = Some s"
| "dns_wait poll (Suc n) s =
     (if responseReceived s then Some s
      else do { s1 \<leftarrow> (if defaultInterface s = 0 then Some s else poll s); dns_wait poll n s1 })"

definition dns_server :: "'a dns_scheme \<Rightarrow> u32" where
  "dns_server s = (if ip_localIP s AND 0xFFFFFF00 = 0x0A000200 then 0x0A000203 else 0x08080808)"

definition resolveDomain ::
    "('a dns_scheme \<Rightarrow> 'a dns_scheme option) \<Rightarrow> bytes option \<Rightarrow> 'a dns_scheme \<Rightarrow> (u32 option \<times> 'a dns_scheme) option" where
  "resolveDomain poll domainName s =
     (if \<not> dns_initialized s then Some (None, s)
      else case domainName of
        None \<Rightarrow> Some (None, s)
      | Some name \<Rightarrow> do {
          found \<leftarrow> dns_findCacheEntry name s;
          (case found of
             Some i \<Rightarrow> do { e \<leftarrow> rd_at (dns_cache s) i; Some (Some (de_ipAddress e), s) }
           | None \<Rightarrow> do {
               (ok, s1) \<leftarrow> sendDNSQuery poll domainName (dns_server s) s;
               if \<not> ok then Some (None, s1)
               else do {
                 s2 \<leftarrow> dns_wait poll 500 s1;
                 if \<not> responseReceived s2 then Some (None, s2)
                 else do { (_, s3) \<leftarrow> dns_addCacheEntry domainName (resolvedIP s2) s2; Some (Some (resolvedIP s2), s3) } } }) })"

end
