(* ===== verification/Net.thy ===== *)
theory Net
  imports Dns
begin

text \<open>
  The stack put together: which protocol gets a payload (\<open>IPv4::routePacket\<close>), which layer a frame
  (\<open>PCnetDriver::processReceivedPackets\<close>), what the handler of a port does, and the polling of the
  interface. The layers call each other in a circle: an echo request that comes in while the
  kernel waits for an ARP reply makes it resolve an address and wait again. \<open>poll\<close> therefore has
  fuel; every waiting period consumes one element of \<open>rx\<close>, so its length plus one is enough.

  The frames of a period count as taken when their handling begins. The driver gives the descriptor
  of a frame back only afterwards, so that polling while a frame is handled sees that frame again:
  \<open>Card\<close> has the ring, shows that both agree on frames that do not poll, and what happens to the others.

  A frame is the list of its bytes; reading behind its end, which in the driver is a buffer with
  what earlier frames left there, is \<open>None\<close>.
\<close>

section \<open>Definitions\<close>

definition call_handler :: "udp_handler \<Rightarrow> u32 \<Rightarrow> u16 \<Rightarrow> bytes \<Rightarrow> u32 \<Rightarrow> 'a dns_scheme \<Rightarrow> 'a dns_scheme option" where
  "call_handler h srcIP srcPort data len s =
     (case h of
        SocketCallback \<Rightarrow> udpReceiveCallbackTrampoline srcIP srcPort data len s
      | DnsCallback \<Rightarrow> handleDNSResponse data len srcIP s)"

definition routePacket ::
    "('a dns_scheme \<Rightarrow> 'a dns_scheme option) \<Rightarrow> u32 \<Rightarrow> u8 \<Rightarrow> bytes \<Rightarrow> u32 \<Rightarrow> 'a dns_scheme \<Rightarrow> (bool \<times> 'a dns_scheme) option" where
  "routePacket poll sourceIP protocol payload payloadLength s =
     (if protocol = 1
      then do { (_, s1) \<leftarrow> handleICMPPacket poll payload payloadLength sourceIP s;
                s2 \<leftarrow> deliverToAllSockets sourceIP payload payloadLength s1;
                Some (True, s2) }
      else if protocol = 17
      then handleUDPPacket call_handler payload payloadLength sourceIP (ip_localIP s) s
      else Some (False, s))"

definition process_frame :: "('a dns_scheme \<Rightarrow> 'a dns_scheme option) \<Rightarrow> bytes \<Rightarrow> 'a dns_scheme \<Rightarrow> 'a dns_scheme option" where
  "process_frame poll frame s =
     (let n = length frame; frameLength = of_nat n :: u32 in
      if 14 \<le> n \<and> n \<le> 1518
      then do {
        hi \<leftarrow> get_uint8_t frame 12;
        lo \<leftarrow> get_uint8_t frame 13;
        let etherType = (push_bit 8 (ucast hi) OR ucast lo :: u16) in do {
          (_, s1) \<leftarrow> (if etherType = 0x0806 then handleARPPacket frame frameLength s
                     else if etherType = 0x0800 then handleIPv4Packet (routePacket poll) frame frameLength s
                     else Some (True, s));
          netif_update (defaultInterface s1) (updateStatistics frameLength False False) s1 } }
      else netif_update (defaultInterface s) (updateStatistics 0 False True) s)"

fun poll :: "nat \<Rightarrow> 'a dns_scheme \<Rightarrow> 'a dns_scheme option" where
  "poll 0 s = None"
| "poll (Suc fuel) s =
     (case rx s of [] \<Rightarrow> Some s | frames # later \<Rightarrow> fold_opt (process_frame (poll fuel)) frames (s\<lparr>rx := later\<rparr>))"

section \<open>Delivery to the sockets\<close>

definition queue_of :: "u32 \<Rightarrow> 'a socks_scheme \<Rightarrow> packet list option" where
  "queue_of p s = Option.bind (us_deref p s) receiveQueue"

lemma incoming_step:
  assumes q: "queue_of p s = Some q" "length q < 64" and h: "heap_answers s = True # as"
    and d: "len \<noteq> 0" "slice data 0 (unat len) = Some d"
  shows "\<exists>us. handleIncomingPacket p ip port data len s = Some (s\<lparr>usockets := us, heap_answers := as\<rparr>) \<and>
    (\<forall>x. queue_of x (s\<lparr>usockets := us, heap_answers := as\<rparr>) =
      (if x = p then Some (q @ [\<lparr>p_srcIP = ip, p_srcPort = port, p_data = d\<rparr>]) else queue_of x s))"
proof -
  obtain t where t: "us_deref p s = Some t" "receiveQueue t = Some q" "p \<noteq> 0"
    using q(1) by (auto simp: queue_of_def us_deref_def split: Option.bind_splits if_splits)
  let ?us = "(usockets s)(p \<mapsto> t\<lparr>receiveQueue := Some (q @ [\<lparr>p_srcIP = ip, p_srcPort = port, p_data = d\<rparr>])\<rparr>)"
  have "handleIncomingPacket p ip port data len s = Some (s\<lparr>usockets := ?us, heap_answers := as\<rparr>)"
    using t q(2) h d by (simp add: handleIncomingPacket_def heap_alloc_def us_set_def)
  moreover have "queue_of x (s\<lparr>usockets := ?us, heap_answers := as\<rparr>) =
      (if x = p then Some (q @ [\<lparr>p_srcIP = ip, p_srcPort = port, p_data = d\<rparr>]) else queue_of x s)" for x
    using t(3) by (simp add: queue_of_def us_deref_def)
  ultimately show ?thesis by blast
qed

abbreviation registered :: "u32 list \<Rightarrow> nat list \<Rightarrow> u32 list" where
  "registered reg is \<equiv> filter (\<lambda>p. p \<noteq> 0) (map ((!) reg) is)"

lemma trampoline_loop:
  assumes "\<forall>i \<in> set is. i < length (socketRegistry s)" and "distinct (registered (socketRegistry s) is)"
    and "\<forall>p \<in> set (registered (socketRegistry s) is). \<exists>q. queue_of p s = Some q \<and> length q < 64"
    and "heap_answers s = replicate (length (registered (socketRegistry s) is)) True @ rest"
    and "len \<noteq> 0" "slice data 0 (unat len) = Some d"
  shows "\<exists>us. fold_opt (\<lambda>i s. do { p \<leftarrow> rd_at (socketRegistry s) i;
        if p \<noteq> 0 then handleIncomingPacket p ip port data len s else Some s }) is s =
      Some (s\<lparr>usockets := us, heap_answers := rest\<rparr>) \<and>
    (\<forall>x. queue_of x (s\<lparr>usockets := us, heap_answers := rest\<rparr>) =
      (if x \<in> set (registered (socketRegistry s) is)
       then map_option (\<lambda>q. q @ [\<lparr>p_srcIP = ip, p_srcPort = port, p_data = d\<rparr>]) (queue_of x s) else queue_of x s))"
  using assms(1-4)
proof (induction "is" arbitrary: s)
  case Nil
  then have "s\<lparr>usockets := usockets s, heap_answers := rest\<rparr> = s" by simp
  then show ?case by (intro exI [of _ "usockets s"]) simp
next
  case (Cons i "is")
  let ?p = "socketRegistry s ! i"
  have rd: "rd_at (socketRegistry s) i = Some ?p" using Cons.prems(1) by (simp add: rd_at_def)
  show ?case
  proof (cases "?p = 0")
    case True
    then show ?thesis using Cons.IH [of s] Cons.prems rd by simp
  next
    case False
    obtain q where q: "queue_of ?p s = Some q" "length q < 64" using Cons.prems(3) False by auto
    let ?as = "replicate (length (registered (socketRegistry s) is)) True @ rest"
    have h: "heap_answers s = True # ?as" using Cons.prems(4) False by simp
    obtain us where us: "handleIncomingPacket ?p ip port data len s = Some (s\<lparr>usockets := us, heap_answers := ?as\<rparr>)"
      "\<And>x. queue_of x (s\<lparr>usockets := us, heap_answers := ?as\<rparr>) =
        (if x = ?p then Some (q @ [\<lparr>p_srcIP = ip, p_srcPort = port, p_data = d\<rparr>]) else queue_of x s)"
      using incoming_step [OF q h assms(5,6)] by blast
    let ?s1 = "s\<lparr>usockets := us, heap_answers := ?as\<rparr>"
    have np: "?p \<notin> set (registered (socketRegistry s) is)" using Cons.prems(2) False by auto
    have pre: "\<forall>i \<in> set is. i < length (socketRegistry ?s1)" "distinct (registered (socketRegistry ?s1) is)"
      "\<forall>p \<in> set (registered (socketRegistry ?s1) is). \<exists>q. queue_of p ?s1 = Some q \<and> length q < 64"
      "heap_answers ?s1 = replicate (length (registered (socketRegistry ?s1) is)) True @ rest"
      using Cons.prems us(2) np False by auto
    obtain us' where us': "fold_opt (\<lambda>i s. do { p \<leftarrow> rd_at (socketRegistry s) i;
          if p \<noteq> 0 then handleIncomingPacket p ip port data len s else Some s }) is ?s1 =
        Some (?s1\<lparr>usockets := us', heap_answers := rest\<rparr>)"
      "\<And>x. queue_of x (?s1\<lparr>usockets := us', heap_answers := rest\<rparr>) =
        (if x \<in> set (registered (socketRegistry ?s1) is)
         then map_option (\<lambda>q. q @ [\<lparr>p_srcIP = ip, p_srcPort = port, p_data = d\<rparr>]) (queue_of x ?s1) else queue_of x ?s1)"
      using Cons.IH [OF pre] by blast
    have "queue_of x (s\<lparr>usockets := us', heap_answers := rest\<rparr>) =
        (if x \<in> set (registered (socketRegistry s) (i # is))
         then map_option (\<lambda>q. q @ [\<lparr>p_srcIP = ip, p_srcPort = port, p_data = d\<rparr>]) (queue_of x s) else queue_of x s)" for x
      using us'(2) [of x] us(2) [of x] np q(1) False by auto
    then show ?thesis using us'(1) us(1) rd False by (intro exI [of _ us']) simp
  qed
qed

lemma queue_of_netif [simp]: "queue_of x (s\<lparr>netif_at := n\<rparr>) = queue_of x s"
  by (simp add: queue_of_def us_deref_def)

section \<open>Frames through the stack\<close>

definition has_interface :: "'a netmgr_scheme \<Rightarrow> bool" where
  "has_interface s \<longleftrightarrow> defaultInterface s \<noteq> 0 \<and> netif_at s (defaultInterface s) \<noteq> None"

lemma link_up_interface: "link_up s \<Longrightarrow> has_interface s"
  by (auto simp: link_up_def has_interface_def)

lemma netif_update_some:
  "has_interface s \<Longrightarrow> \<exists>n. netif_update (defaultInterface s) f s = Some (s\<lparr>netif_at := n\<rparr>)"
  by (auto simp: has_interface_def netif_update_def netif_deref_def)

lemma process_ip_frame:
  assumes s: "ip_initialized s" "ip_localIP s = dip" and l: "length dst = 6" "length src = 6"
    and b: "length body + length pad \<le> 1480"
  shows "process_frame P (ip_frame dst src (of_nat (20 + length body)) p c sip dip (body @ pad)) s =
    do { (_, s1) \<leftarrow> routePacket P sip p (body @ pad) (of_nat (length body)) s;
         netif_update (defaultInterface s1) (updateStatistics (of_nat (34 + length body + length pad)) False False) s1 }"
proof -
  let ?f = "ip_frame dst src (of_nat (20 + length body)) p c sip dip (body @ pad)"
  have n: "length ?f = 34 + length body + length pad" using length_ip_frame [OF l] by simp
  have et: "(push_bit 8 (ucast (0x08 :: u8)) OR ucast (0x00 :: u8) :: u16) = 0x0800" by (simp add: push_bit_eq_mult)
  show ?thesis
    unfolding process_frame_def Let_def ip_frame_fields [OF l] bind.bind_lunit et n handle_ip_frame [OF s l b]
    using b by simp
qed

lemma bound_sendto:
  assumes sock: "us_deref this s = Some t" "us_localPort t = sp" "sp \<noteq> 0"
    and ok: "udp_initialized s" "arp_ok s" "ip_initialized s" "can_send s"
    and hop: "arp_map s (next_hop dip s) = Some mac" "length mac = 6" "length (own_mac s) = 6"
    and d: "slice buffer 0 (unat n) = Some d" "length d \<le> 1472"
  shows "\<exists>c ck. sendto P this buffer n dip dp s = Some (n,
      transmit (ip_frame mac (own_mac s) (of_nat (20 + (8 + length d))) 17 c (ip_localIP s) dip
        (udp_header sp dp (of_nat (8 + length d)) (toBigEndian16 ck) @ d)) s) \<and> ck \<noteq> 0 \<and>
    calculateChecksumWithPseudoHeader (ip_localIP s) dip (udp_header sp dp (of_nat (8 + length d)) 0) d (of_nat (length d)) = Some ck"
proof -
  have nl: "unat n = length d" using length_slice [OF d(1)] by simp
  then have n: "n = of_nat (length d)" unfolding nl [symmetric] by simp
  obtain ck where ck: "udp_datagram (ip_localIP s) dip sp dp buffer n =
        Some (udp_header sp dp (of_nat (8 + length d)) (toBigEndian16 ck) @ d)" "ck \<noteq> 0"
      "calculateChecksumWithPseudoHeader (ip_localIP s) dip (udp_header sp dp (of_nat (8 + length d)) 0) d n = Some ck"
    using udp_datagram_some [OF d(1), of "ip_localIP s" dip sp dp] d(2) by auto
  let ?dg = "udp_header sp dp (of_nat (8 + length d)) (toBigEndian16 ck) @ d"
  have u: "unat (8 + n) = 8 + length d" using d(2) unat_add_small [of "8" n] nl by simp
  have sl: "slice ?dg 0 (unat (8 + n)) = Some ?dg" unfolding u by (simp add: slice_def)
  obtain c where c: "ip_sendPacket P dip 17 ?dg (8 + n) s =
      Some (True, transmit (ip_frame mac (own_mac s) (of_nat (20 + length ?dg)) 17 c (ip_localIP s) dip ?dg) s)"
    using ip_sendPacket_known [OF ok(2-4) hop sl] d(2) by auto
  have "\<not> 65507 < n" using d(2) nl by (simp add: word_less_nat_alt)
  then have "sendDatagram P dip dp sp buffer n s =
      Some (True, transmit (ip_frame mac (own_mac s) (of_nat (20 + length ?dg)) 17 c (ip_localIP s) dip ?dg) s)"
    using ok(1) sock(3) ck(1) c by (simp add: sendDatagram_def del: of_nat_add)
  then have "sendto P this buffer n dip dp s =
      Some (n, transmit (ip_frame mac (own_mac s) (of_nat (20 + length ?dg)) 17 c (ip_localIP s) dip ?dg) s)"
    using sock by (simp add: sendto_def auto_bind_def del: of_nat_add)
  then show ?thesis using ck(2,3) unfolding n [symmetric] by auto
qed

text \<open>The receiving side: the datagram ends up in the queue of every registered socket.\<close>

definition sockets_ready :: "'a socks_scheme \<Rightarrow> bool" where
  "sockets_ready s \<longleftrightarrow> length (socketRegistry s) = 16 \<and> registryCount s \<noteq> 0 \<and>
     distinct (registered (socketRegistry s) [0..<16]) \<and>
     list_all (\<lambda>p. case queue_of p s of Some q \<Rightarrow> length q < 64 | None \<Rightarrow> False) (registered (socketRegistry s) [0..<16]) \<and>
     take (length (registered (socketRegistry s) [0..<16])) (heap_answers s) =
       replicate (length (registered (socketRegistry s) [0..<16])) True"

lemma datagram_arrives:
  assumes b: "udp_ok s" "udp_map s dp = Some SocketCallback" "ip_initialized s" "has_interface s" "sockets_ready s"
    and l: "length dst = 6" "length src = 6" and d: "d \<noteq> []" "length d + length pad \<le> 1472"
    and ck: "ck \<noteq> 0" "calculateChecksumWithPseudoHeader sip (ip_localIP s) (udp_header sp dp (of_nat (8 + length d)) 0) d
      (of_nat (length d)) = Some ck"
  shows "\<exists>s'. process_frame P (ip_frame dst src (of_nat (20 + (8 + length d))) 17 c sip (ip_localIP s)
      ((udp_header sp dp (of_nat (8 + length d)) (toBigEndian16 ck) @ d) @ pad)) s = Some s' \<and>
    (\<forall>x. queue_of x s' = (if x \<in> set (registered (socketRegistry s) [0..<16])
      then map_option (\<lambda>q. q @ [\<lparr>p_srcIP = sip, p_srcPort = sp, p_data = d\<rparr>]) (queue_of x s) else queue_of x s))"
proof -
  let ?n = "length d" and ?R = "registered (socketRegistry s) [0..<16]"
  let ?dg = "udp_header sp dp (of_nat (8 + ?n)) (toBigEndian16 ck) @ d"
  have ldg: "length ?dg = 8 + ?n" by simp
  have un: "unat (of_nat ?n :: u32) = ?n" using d(2) by (simp add: unat_of_nat)
  then have nz: "(of_nat ?n :: u32) \<noteq> 0" using d(1) by (metis length_0_conv unsigned_0)
  have sl: "slice (d @ pad) 0 (unat (of_nat ?n :: u32)) = Some d" unfolding un by (simp add: slice_def)
  define rest where "rest = drop (length ?R) (heap_answers s)"
  have h: "heap_answers s = replicate (length ?R) True @ rest"
    using b(5) append_take_drop_id [of "length ?R" "heap_answers s"] by (simp only: sockets_ready_def rest_def)
  have pre: "\<forall>i \<in> set [0..<16]. i < length (socketRegistry s)" "distinct ?R"
    "\<forall>p \<in> set ?R. \<exists>q. queue_of p s = Some q \<and> length q < 64"
    using b(5) by (auto simp: sockets_ready_def list_all_iff split: option.splits)
  obtain us where us: "udpReceiveCallbackTrampoline sip sp (d @ pad) (of_nat ?n) s = Some (s\<lparr>usockets := us, heap_answers := rest\<rparr>)"
    "\<And>x. queue_of x (s\<lparr>usockets := us, heap_answers := rest\<rparr>) = (if x \<in> set ?R
       then map_option (\<lambda>q. q @ [\<lparr>p_srcIP = sip, p_srcPort = sp, p_data = d\<rparr>]) (queue_of x s) else queue_of x s)"
    using trampoline_loop [OF pre h nz sl, of sip sp] b(5)
    unfolding udpReceiveCallbackTrampoline_def sockets_ready_def by auto
  let ?s1 = "s\<lparr>usockets := us, heap_answers := rest\<rparr>"
  have "handleUDPPacket call_handler (?dg @ pad) (of_nat (length ?dg)) sip (ip_localIP s) s = Some (True, ?s1)"
    using handle_udp_datagram [OF b(1,2) _ ck, of call_handler pad] d(2) us(1)
    by (simp add: call_handler_def del: of_nat_add)
  then have r: "routePacket P sip 17 (?dg @ pad) (of_nat (length ?dg)) s = Some (True, ?s1)"
    by (simp add: routePacket_def)
  have "has_interface ?s1" using b(4) by (simp add: has_interface_def)
  then obtain n' where n': "netif_update (defaultInterface ?s1) (updateStatistics (of_nat (34 + length ?dg + length pad)) False False) ?s1
      = Some (?s1\<lparr>netif_at := n'\<rparr>)"
    using netif_update_some by blast
  have "process_frame P (ip_frame dst src (of_nat (20 + length ?dg)) 17 c sip (ip_localIP s) (?dg @ pad)) s = Some (?s1\<lparr>netif_at := n'\<rparr>)"
    using process_ip_frame [OF b(3) refl l, of ?dg pad P 17 c sip] d(2) n' unfolding r by (simp del: of_nat_add)
  then show ?thesis using us(2) unfolding ldg by (intro exI [of _ "?s1\<lparr>netif_at := n'\<rparr>"]) simp
qed

end
