(* ===== verification/Net_Poll.thy ===== *)
theory Net_Poll
  imports Net
begin

text \<open>
  The fuel of the polling loop. Only polling takes frames out of \<open>rx\<close>; everything else leaves
  \<open>rx\<close> as it is. So the recursion through a waiting ARP request is on a shorter \<open>rx\<close>, and two polls
  that agree on shorter ones make every layer behave the same.
\<close>

lemma bind_SomeE: "Option.bind m f = Some y \<Longrightarrow> (\<And>x. m = Some x \<Longrightarrow> f x = Some y \<Longrightarrow> thesis) \<Longrightarrow> thesis"
  by (cases m) auto

section \<open>What leaves the frames alone\<close>

lemma netif_update_rx: "netif_update p f s = Some s' \<Longrightarrow> rx s' = rx s"
  by (auto simp: netif_update_def bind_eq_Some_conv)

lemma nm_sendPacket_rx: "nm_sendPacket f l s = Some (b, s') \<Longrightarrow> rx s' = rx s"
  by (auto simp: nm_sendPacket_def driver_sendPacket_def bind_eq_Some_conv Let_def dest!: netif_update_rx
      split: if_splits list.splits bool.splits)

lemma sendARPRequest_rx: "sendARPRequest ip s = Some (b, s') \<Longrightarrow> rx s' = rx s"
  by (auto simp: sendARPRequest_def dest: nm_sendPacket_rx split: if_splits)

lemma sendARPReply_rx: "sendARPReply ip m s = Some (b, s') \<Longrightarrow> rx s' = rx s"
  by (auto simp: sendARPReply_def bind_eq_Some_conv dest: nm_sendPacket_rx split: if_splits option.splits)

lemma addCacheEntry_rx: "addCacheEntry ip m s = Some (b, s') \<Longrightarrow> rx s' = rx s"
  by (auto simp: addCacheEntry_def bind_eq_Some_conv getSystemTime_def Let_def split: if_splits option.splits)

lemma handleARPPacket_rx: "handleARPPacket f l s = Some (b, s') \<Longrightarrow> rx s' = rx s"
  by (auto simp: handleARPPacket_def bind_eq_Some_conv Let_def dest!: addCacheEntry_rx sendARPReply_rx split: if_splits)

lemma fold_opt_rx:
  assumes "\<And>i s s'. f i s = Some s' \<Longrightarrow> rx s' = rx s" and "fold_opt f is s = Some s'"
  shows "rx s' = rx s"
  using assms(2) by (induction "is" arbitrary: s) (auto simp: bind_eq_Some_conv dest: assms(1))

lemma heap_alloc_rx: "rx (snd (heap_alloc n s)) = rx s"
  by (simp add: heap_alloc_def split: list.split)

lemma us_set_rx [simp]: "rx (us_set p t s) = rx s" and is_set_rx [simp]: "rx (is_set p u s) = rx s"
  by (simp_all add: us_set_def is_set_def)

lemma handleIncomingPacket_rx: "handleIncomingPacket p ip port d l s = Some s' \<Longrightarrow> rx s' = rx s"
  using heap_alloc_rx [of l s]
  by (auto simp: handleIncomingPacket_def bind_eq_Some_conv case_prod_unfold Let_def split: if_splits option.split_asm)

lemma deliverPacket_rx: "deliverPacket p ip d l s = Some s' \<Longrightarrow> rx s' = rx s"
  using heap_alloc_rx [of l s]
  by (auto simp: deliverPacket_def bind_eq_Some_conv case_prod_unfold Let_def split: if_splits option.split_asm)

lemma trampoline_rx:
  assumes "udpReceiveCallbackTrampoline ip port d l s = Some s'"
  shows "rx s' = rx s"
proof (cases "registryCount s = 0")
  case True
  then show ?thesis using assms by (simp add: udpReceiveCallbackTrampoline_def)
next
  case False
  show ?thesis using assms unfolding udpReceiveCallbackTrampoline_def if_not_P [OF False]
    by (rule fold_opt_rx [rotated]) (auto simp: bind_eq_Some_conv dest: handleIncomingPacket_rx split: if_splits)
qed

lemma deliverToAllSockets_rx: "deliverToAllSockets ip d l s = Some s' \<Longrightarrow> rx s' = rx s"
  unfolding deliverToAllSockets_def
  by (erule fold_opt_rx [rotated]) (auto simp: bind_eq_Some_conv dest: deliverPacket_rx split: if_splits)

lemma handleDNSResponse_rx: "handleDNSResponse d l ip s = Some s' \<Longrightarrow> rx s' = rx s"
  by (auto simp: handleDNSResponse_def bind_eq_Some_conv Let_def split: if_splits option.splits)

lemma call_handler_rx: "call_handler h ip port d l s = Some s' \<Longrightarrow> rx s' = rx s"
  by (auto simp: call_handler_def dest: trampoline_rx handleDNSResponse_rx split: udp_handler.splits)

lemma handleUDPPacket_rx: "handleUDPPacket call_handler p l sip dip s = Some (b, s') \<Longrightarrow> rx s' = rx s"
  by (auto simp: handleUDPPacket_def bind_eq_Some_conv Let_def dest: call_handler_rx
      split: if_splits option.splits bool.splits)

section \<open>What only polling shortens\<close>

definition shrinks :: "('a netmgr_scheme \<Rightarrow> 'a netmgr_scheme option) \<Rightarrow> bool" where
  "shrinks P \<longleftrightarrow> (\<forall>s s'. P s = Some s' \<longrightarrow> length (rx s') \<le> length (rx s))"

lemma shrinksD: "shrinks P \<Longrightarrow> P s = Some s' \<Longrightarrow> length (rx s') \<le> length (rx s)"
  by (simp add: shrinks_def)

definition agree :: "nat \<Rightarrow> ('a netmgr_scheme \<Rightarrow> 'a netmgr_scheme option) \<Rightarrow> ('a netmgr_scheme \<Rightarrow> 'a netmgr_scheme option) \<Rightarrow> bool" where
  "agree n P Q \<longleftrightarrow> (\<forall>s. length (rx s) \<le> n \<longrightarrow> P s = Q s)"

lemma agreeD: "agree n P Q \<Longrightarrow> length (rx s) \<le> n \<Longrightarrow> P s = Q s"
  by (simp add: agree_def)

lemma attempts_shrinks:
  "shrinks P \<Longrightarrow> attempts P ip k s = Some (r, s') \<Longrightarrow> length (rx s') \<le> length (rx s)"
proof (induction k arbitrary: s)
  case (Suc k)
  then obtain ok s1 where s1: "sendARPRequest ip s = Some (ok, s1)" by (auto simp: bind_eq_Some_conv)
  note e1 = sendARPRequest_rx [OF s1]
  show ?case
  proof (cases ok)
    case False
    then show ?thesis using Suc.prems(2) Suc.IH [OF Suc.prems(1), of s1] s1 e1 by simp
  next
    case True
    obtain s2 c where s2: "(if defaultInterface s1 = 0 then Some s1 else P s1) = Some s2" "cached ip s2 = Some c"
      "(case c of Some m \<Rightarrow> Some (Some m, s2) | None \<Rightarrow> attempts P ip k s2) = Some (r, s')"
      using Suc.prems(2) s1 True by (auto simp: bind_eq_Some_conv split: if_splits)
    have "length (rx s2) \<le> length (rx s)"
      using s2(1) shrinksD [OF Suc.prems(1), of s1 s2] e1 by (auto split: if_splits)
    then show ?thesis using s2(3) Suc.IH [OF Suc.prems(1), of s2] by (auto split: option.splits)
  qed
qed simp

lemma attempts_agree:
  "shrinks P \<Longrightarrow> agree n P Q \<Longrightarrow> length (rx s) \<le> n \<Longrightarrow> attempts P ip k s = attempts Q ip k s"
proof (induction k arbitrary: s)
  case (Suc k)
  have "(case y of (ok, s1) \<Rightarrow> if \<not> ok then attempts P ip k s1
        else do { s2 \<leftarrow> (if defaultInterface s1 = 0 then Some s1 else P s1); c \<leftarrow> cached ip s2;
                  (case c of Some m \<Rightarrow> Some (Some m, s2) | None \<Rightarrow> attempts P ip k s2) }) =
      (case y of (ok, s1) \<Rightarrow> if \<not> ok then attempts Q ip k s1
        else do { s2 \<leftarrow> (if defaultInterface s1 = 0 then Some s1 else Q s1); c \<leftarrow> cached ip s2;
                  (case c of Some m \<Rightarrow> Some (Some m, s2) | None \<Rightarrow> attempts Q ip k s2) })"
    if y: "sendARPRequest ip s = Some y" for y
  proof -
    obtain ok s1 where p: "y = (ok, s1)" by (cases y)
    then have le: "length (rx s1) \<le> n" using sendARPRequest_rx [of ip s ok s1] y Suc.prems(3) by simp
    have pq: "P s1 = Q s1" using Suc.prems(2) le by (simp add: agree_def)
    have "attempts P ip k s2 = attempts Q ip k s2" if "(if defaultInterface s1 = 0 then Some s1 else P s1) = Some s2" for s2
      using that le Suc.prems(1) by (intro Suc.IH Suc.prems) (auto simp: shrinks_def split: if_splits, fastforce)
    then show ?thesis using Suc.IH [OF Suc.prems(1,2) le] p pq
      by (auto intro!: bind_option_cong split: option.splits)
  qed
  then show ?case by (auto intro!: bind_option_cong)
qed simp

section \<open>Through the layers\<close>

lemma resolveMacAddress_shrinks:
  "shrinks P \<Longrightarrow> resolveMacAddress P ip s = Some (r, s') \<Longrightarrow> length (rx s') \<le> length (rx s)"
  by (auto simp: resolveMacAddress_def bind_eq_Some_conv dest: attempts_shrinks split: if_splits option.splits)

lemma resolveMacAddress_agree:
  assumes "shrinks P" and "agree n P Q" and "length (rx s) \<le> n"
  shows "resolveMacAddress P ip s = resolveMacAddress Q ip s"
  unfolding resolveMacAddress_def attempts_agree [OF assms] by (rule refl)

lemma ip_sendPacket_shrinks:
  assumes P: "shrinks P" and "ip_sendPacket P ip p d l s = Some (b, s')"
  shows "length (rx s') \<le> length (rx s)"
proof -
  have "length (rx s') \<le> length (rx s)"
    if "resolveMacAddress P x s = Some (m, s1)"
      "(case m of None \<Rightarrow> Some (False, s1)
        | Some mac \<Rightarrow> if defaultInterface s1 = 0 then Some (False, s1)
            else do { i \<leftarrow> netif_deref (defaultInterface s1) s1; nm_sendPacket (g mac i) n s1 }) = Some (b, s')" for x m s1 g n
    using resolveMacAddress_shrinks [OF P that(1)] that(2)
    by (auto simp: bind_eq_Some_conv dest: nm_sendPacket_rx split: option.splits if_splits)
  then show ?thesis using assms(2) unfolding ip_sendPacket_def Let_def
    by (auto simp: bind_eq_Some_conv split: if_splits)
qed

lemma ip_sendPacket_agree:
  assumes "shrinks P" and "agree n P Q" and "length (rx s) \<le> n"
  shows "ip_sendPacket P ip p d l s = ip_sendPacket Q ip p d l s"
  unfolding ip_sendPacket_def resolveMacAddress_agree [OF assms] by (rule refl)

lemma handleICMPPacket_shrinks:
  "shrinks P \<Longrightarrow> handleICMPPacket P d l ip s = Some (b, s') \<Longrightarrow> length (rx s') \<le> length (rx s)"
  by (auto simp: handleICMPPacket_def sendEchoReply_def getSystemTimeMs_def bind_eq_Some_conv Let_def
      dest: ip_sendPacket_shrinks split: if_splits)

lemma handleICMPPacket_agree:
  assumes "shrinks P" and "agree n P Q" and "length (rx s) \<le> n"
  shows "handleICMPPacket P d l ip s = handleICMPPacket Q d l ip s"
  unfolding handleICMPPacket_def sendEchoReply_def ip_sendPacket_agree [OF assms] by (rule refl)

lemma routePacket_shrinks:
  "shrinks P \<Longrightarrow> routePacket P ip p d l s = Some (b, s') \<Longrightarrow> length (rx s') \<le> length (rx s)"
  by (auto simp: routePacket_def bind_eq_Some_conv dest!: deliverToAllSockets_rx
      dest: handleICMPPacket_shrinks handleUDPPacket_rx split: if_splits)

lemma routePacket_agree:
  assumes "shrinks P" and "agree n P Q" and "length (rx s) \<le> n"
  shows "routePacket P ip p d l s = routePacket Q ip p d l s"
  unfolding routePacket_def handleICMPPacket_agree [OF assms] by (rule refl)

lemma handleIPv4Packet_result:
  "handleIPv4Packet R f l s = Some (b, s') \<Longrightarrow> s' = s \<or> (\<exists>ip p d n. R ip p d n s = Some (b, s'))"
  by (auto simp: handleIPv4Packet_def bind_eq_Some_conv Let_def split: if_splits)

lemma handleIPv4Packet_cong:
  assumes "\<And>ip p d n. R ip p d n s = R' ip p d n s"
  shows "handleIPv4Packet R f l s = handleIPv4Packet R' f l s"
  unfolding handleIPv4Packet_def assms by (rule refl)

lemma process_frame_shrinks:
  assumes P: "shrinks P" and "process_frame P f s = Some s'"
  shows "length (rx s') \<le> length (rx s)"
proof -
  have d: "length (rx s1) \<le> length (rx s)"
    if "(if e = 0x0806 then handleARPPacket f n s
         else if e = 0x0800 then handleIPv4Packet (routePacket P) f n s else Some (True, s)) = Some (b, s1)"
    for e :: u16 and n b s1
    using that routePacket_shrinks [OF P]
    by (auto dest: handleARPPacket_rx handleIPv4Packet_result split: if_splits)
  show ?thesis
  proof (cases "14 \<le> length f \<and> length f \<le> 1518")
    case False
    show ?thesis using assms(2) unfolding process_frame_def Let_def if_not_P [OF False] by (simp add: netif_update_rx)
  next
    case True
    from assms(2) obtain e :: u16 and n r where r: "(if e = 0x0806 then handleARPPacket f n s
         else if e = 0x0800 then handleIPv4Packet (routePacket P) f n s else Some (True, s)) = Some r"
      "(case r of (b, s1) \<Rightarrow> netif_update (defaultInterface s1) (updateStatistics n False False) s1) = Some s'"
      unfolding process_frame_def Let_def if_P [OF True] by (elim bind_SomeE)
    then show ?thesis by (cases r) (auto dest!: d netif_update_rx)
  qed
qed

lemma process_frame_agree:
  assumes "shrinks P" and "agree n P Q" and "length (rx s) \<le> n"
  shows "process_frame P f s = process_frame Q f s"
proof -
  have e: "handleIPv4Packet (routePacket P) f l s = handleIPv4Packet (routePacket Q) f l s" for l
    using routePacket_agree [OF assms] by (rule handleIPv4Packet_cong)
  show ?thesis unfolding process_frame_def e by (rule refl)
qed

section \<open>Enough fuel\<close>

lemma frames_shrink:
  assumes P: "shrinks P"
  shows "fold_opt (process_frame P) fs s = Some s' \<Longrightarrow> length (rx s') \<le> length (rx s)"
proof (induction fs arbitrary: s)
  case (Cons f fs)
  then show ?case using process_frame_shrinks [OF P, of f s] by (fastforce simp: bind_eq_Some_conv)
qed simp

lemma frames_agree:
  assumes "shrinks P" and "agree n P Q"
  shows "length (rx s) \<le> n \<Longrightarrow> fold_opt (process_frame P) fs s = fold_opt (process_frame Q) fs s"
proof (induction fs arbitrary: s)
  case (Cons f fs)
  have "fold_opt (process_frame P) fs t = fold_opt (process_frame Q) fs t" if "process_frame P f s = Some t" for t
    using process_frame_shrinks [OF assms(1) that] Cons by simp
  then show ?case using process_frame_agree [OF assms Cons.prems] by (auto intro!: bind_option_cong)
qed simp

lemma poll_shrinks: "shrinks (poll k)"
proof (induction k)
  case (Suc k)
  show ?case using frames_shrink [OF Suc] by (fastforce simp: shrinks_def split: list.splits)
qed (simp add: shrinks_def)

lemma poll_agree: "n < j \<Longrightarrow> n < k \<Longrightarrow> agree n (poll j) (poll k :: 'a dns_scheme \<Rightarrow> 'a dns_scheme option)"
proof (induction n arbitrary: j k rule: less_induct)
  case (less n)
  obtain j' k' where jk: "j = Suc j'" "k = Suc k'" using less.prems by (cases j; cases k) auto
  have "poll j s = poll k s" if s: "length (rx s) \<le> n" for s :: "'a dns_scheme"
  proof (cases "rx s")
    case (Cons fs later)
    let ?m = "length later"
    have m: "?m < n" using s Cons by simp
    have "agree ?m (poll j') (poll k' :: 'a dns_scheme \<Rightarrow> 'a dns_scheme option)"
      using m less.prems jk by (intro less.IH) auto
    then show ?thesis using frames_agree [OF poll_shrinks, of ?m j' "poll k'" "s\<lparr>rx := later\<rparr>" fs] Cons jk by simp
  qed (simp add: jk)
  then show ?case by (simp add: agree_def)
qed

text \<open>One unit more than there are batches of frames is enough.\<close>

lemma poll_enough: "length (rx s) < k \<Longrightarrow> poll k s = poll (Suc (length (rx s))) s"
  by (rule agreeD [OF poll_agree [of "length (rx s)" k "Suc (length (rx s))"]]) simp_all

end
