(* ===== verification/Net_Echo.thy ===== *)
theory Net_Echo
  imports Net
begin

text \<open>
  What the stack does with echo messages and ARP frames, and why the fuel of the polling loop is
  enough.
\<close>

section \<open>Echo requests and replies\<close>

lemma deliver_none: "icmpRegistry s = replicate 16 0 \<Longrightarrow> deliverToAllSockets ip data n s = Some s"
proof -
  assume r: "icmpRegistry s = replicate 16 0"
  have "fold_opt (\<lambda>i s. do { p \<leftarrow> rd_at (icmpRegistry s) i;
      if p \<noteq> 0 then deliverPacket p ip data n s else Some s }) is s = Some s" if "\<forall>i \<in> set is. i < 16" for "is"
    using that r by (induction "is") (simp_all add: rd_at_def)
  then show ?thesis by (simp add: deliverToAllSockets_def)
qed

text \<open>A request goes to the function that answers it, then to the sockets.\<close>

lemma process_echo:
  fixes d pad :: bytes and s :: "'a dns_scheme"
  assumes ok: "icmp_initialized s" "ip_initialized s" and l: "length dst = 6" "length src = 6" and d: "length d + length pad \<le> 1472"
  shows "process_frame P (ip_frame dst src (of_nat (20 + (8 + length d))) 1 c sip (ip_localIP s) ((echo_header 8 ck i q @ d) @ pad)) s =
    do { (_, s1) \<leftarrow> sendEchoReply P sip i q (d @ pad) (of_nat (length d)) s;
         s2 \<leftarrow> deliverToAllSockets sip ((echo_header 8 ck i q @ d) @ pad) (of_nat (8 + length d)) s1;
         netif_update (defaultInterface s2) (updateStatistics (of_nat (34 + (8 + length d) + length pad)) False False) s2 }"
proof -
  let ?m = "echo_header 8 ck i q @ d"
  have lm: "length ?m = 8 + length d" by (simp add: echo_header_def)
  note f = echo_fields [where d = "d @ pad" and type = 8 and c = ck and i = i and q = q]
  have "unat (of_nat (8 + length d) :: u32) = 8 + length d" using d by (simp add: unat_of_nat del: of_nat_add)
  then have n8: "\<not> (of_nat (8 + length d) :: u32) < 8" by (simp add: word_less_nat_alt del: of_nat_add)
  have sub: "(of_nat (8 + length d) :: u32) - 8 = of_nat (length d)" by simp
  have h: "handleICMPPacket P (?m @ pad) (of_nat (length ?m)) sip s = sendEchoReply P sip i q (d @ pad) (of_nat (length d)) s"
    using ok(1) n8 f unfolding lm by (simp add: handleICMPPacket_def sub del: of_nat_add)
  have r: "routePacket P sip 1 (?m @ pad) (of_nat (length ?m)) s =
    do { (_, s1) \<leftarrow> sendEchoReply P sip i q (d @ pad) (of_nat (length d)) s;
         s2 \<leftarrow> deliverToAllSockets sip (?m @ pad) (of_nat (length ?m)) s1; Some (True, s2) }"
    unfolding routePacket_def h by simp
  have "process_frame P (ip_frame dst src (of_nat (20 + length ?m)) 1 c sip (ip_localIP s) (?m @ pad)) s =
    do { (_, s1) \<leftarrow> routePacket P sip 1 (?m @ pad) (of_nat (length ?m)) s;
         netif_update (defaultInterface s1) (updateStatistics (of_nat (34 + length ?m + length pad)) False False) s1 }"
    using process_ip_frame [OF ok(2) refl l, of ?m pad P 1 c sip] d lm by (simp del: of_nat_add)
  then show ?thesis unfolding r unfolding lm by (auto simp del: of_nat_add split: Option.bind_splits)
qed

text \<open>A request whose data fits the buffer of the reply is answered with the same identifier, number
  and data; longer data runs over the end of that buffer.\<close>

lemma echo_request:
  fixes i q ck c :: u16 and d pad dst src :: bytes and sip :: u32 and s :: "'a dns_scheme"
  assumes ok: "icmp_initialized s" "ip_initialized s" "arp_ok s" "can_send s" "icmpRegistry s = replicate 16 0"
    and hop: "arp_map s (next_hop sip s) = Some mac" "length mac = 6" "length (own_mac s) = 6"
    and l: "length dst = 6" "length src = 6" and d: "length d + length pad \<le> 1472"
  defines "req \<equiv> ip_frame dst src (of_nat (20 + (8 + length d))) 1 c sip (ip_localIP s) ((echo_header 8 ck i q @ d) @ pad)"
  shows "if length d \<le> 248
    then \<exists>s' c' ck'. process_frame P req s = Some s' \<and>
      sent s' = sent (transmit (ip_frame mac (own_mac s) (of_nat (20 + (8 + length d))) 1 c' (ip_localIP s) sip
        (echo_header 0 ck' i q @ d)) s)
    else process_frame P req s = None"
proof -
  let ?n = "length d"
  note pf = process_echo [OF ok(1,2) l d, of P c sip ck i q, folded req_def]
  have un: "unat (of_nat (8 + ?n) :: u32) = 8 + ?n" "unat (of_nat ?n :: u32) = ?n"
    using d by (simp_all add: unat_of_nat del: of_nat_add)
  have sl: "slice (d @ pad) 0 (unat (of_nat ?n :: u32)) = Some d" unfolding un by (simp add: slice_def)
  show ?thesis
  proof (cases "?n \<le> 248")
    case False
    then have "sendEchoReply P sip i q (d @ pad) (of_nat ?n) s = None"
      using ok(1) echo_message_overflow [OF sl] by (simp add: sendEchoReply_def)
    then show ?thesis using False unfolding pf by simp
  next
    case True
    obtain ck' where ck': "echo_message 0 i q (d @ pad) (of_nat ?n) = Some (echo_header 0 ck' i q @ d, 8 + of_nat ?n)"
      using echo_message_some [OF sl True] by blast
    let ?r = "echo_header 0 ck' i q @ d"
    have lr: "length ?r = 8 + ?n" by (simp add: echo_header_def)
    have e8: "8 + of_nat ?n = (of_nat (8 + ?n) :: u32)" by simp
    have sr: "slice ?r 0 (unat (8 + of_nat ?n :: u32)) = Some ?r" unfolding e8 un by (rule slice_whole [OF lr])
    obtain c' where c': "ip_sendPacket P sip 1 ?r (8 + of_nat ?n) s =
        Some (True, transmit (ip_frame mac (own_mac s) (of_nat (20 + length ?r)) 1 c' (ip_localIP s) sip ?r) s)"
      using ip_sendPacket_known [OF ok(3,2,4) hop sr] True lr by auto
    let ?s1 = "transmit (ip_frame mac (own_mac s) (of_nat (20 + length ?r)) 1 c' (ip_localIP s) sip ?r) s"
    have r1: "icmpRegistry (transmit f s) = replicate 16 0" for f using ok(5) by (simp add: transmit_def)
    have "sendEchoReply P sip i q (d @ pad) (of_nat ?n) s = Some (True, ?s1)"
      using ok(1) ck' c' by (simp add: sendEchoReply_def)
    moreover have "has_interface ?s1" using ok(4) by (intro link_up_interface link_up_transmit) (simp add: can_send_def)
    then obtain n' where "netif_update (defaultInterface ?s1) (updateStatistics (of_nat (34 + (8 + ?n) + length pad)) False False) ?s1
        = Some (?s1\<lparr>netif_at := n'\<rparr>)"
      using netif_update_some by blast
    ultimately have "process_frame P req s = Some (?s1\<lparr>netif_at := n'\<rparr>)" unfolding pf by (simp add: deliver_none r1 del: of_nat_add)
    then have "process_frame P req s = Some (?s1\<lparr>netif_at := n'\<rparr>) \<and> sent (?s1\<lparr>netif_at := n'\<rparr>) = sent ?s1" by simp
    then show ?thesis unfolding if_P [OF True] lr by blast
  qed
qed

text \<open>The reply to the pending ping is accepted.\<close>

lemma echo_reply:
  assumes ok: "icmp_initialized s" "ip_initialized s" "has_interface s" "icmpRegistry s = replicate 16 0"
    and pend: "ping_targetIP s = sip" "ping_id s = i" "ping_sequence s = q"
    and l: "length dst = 6" "length src = 6" and d: "length d + length pad \<le> 1472"
  shows "\<exists>s'. process_frame P (ip_frame dst src (of_nat (20 + (8 + length d))) 1 c sip (ip_localIP s)
      ((echo_header 0 ck i q @ d) @ pad)) s = Some s' \<and>
    replyReceived s' \<and> ping_replyTime s' = icmp_dummyTime s + 1 \<and> sent s' = sent s"
proof -
  let ?n = "length d"
  let ?m = "echo_header 0 ck i q @ d"
  have lm: "length ?m = 8 + ?n" by (simp add: echo_header_def)
  note f = echo_fields [where d = "d @ pad" and type = 0 and c = ck and i = i and q = q]
  have "unat (of_nat (8 + ?n) :: u32) = 8 + ?n" using d by (simp add: unat_of_nat del: of_nat_add)
  then have n8: "\<not> (of_nat (8 + ?n) :: u32) < 8" by (simp add: word_less_nat_alt del: of_nat_add)
  let ?s1 = "s\<lparr>replyReceived := True, ping_replyTime := icmp_dummyTime s + 1, icmp_dummyTime := icmp_dummyTime s + 1\<rparr>"
  have h: "handleICMPPacket P (?m @ pad) (of_nat (length ?m)) sip s = Some (True, ?s1)"
    using ok(1) n8 f pend unfolding lm by (simp add: handleICMPPacket_def getSystemTimeMs_def del: of_nat_add)
  have "icmpRegistry ?s1 = replicate 16 0" using ok(4) by simp
  from deliver_none [OF this] have "routePacket P sip 1 (?m @ pad) (of_nat (length ?m)) s = Some (True, ?s1)"
    unfolding routePacket_def h by simp
  moreover have "has_interface ?s1" using ok(3) by (simp add: has_interface_def)
  then obtain n' where "netif_update (defaultInterface ?s1) (updateStatistics (of_nat (34 + length ?m + length pad)) False False) ?s1
      = Some (?s1\<lparr>netif_at := n'\<rparr>)"
    using netif_update_some by blast
  moreover have "process_frame P (ip_frame dst src (of_nat (20 + length ?m)) 1 c sip (ip_localIP s) (?m @ pad)) s =
    do { (_, s1) \<leftarrow> routePacket P sip 1 (?m @ pad) (of_nat (length ?m)) s;
         netif_update (defaultInterface s1) (updateStatistics (of_nat (34 + length ?m + length pad)) False False) s1 }"
    using process_ip_frame [OF ok(2) refl l, of ?m pad P 1 c sip] d lm by (simp del: of_nat_add)
  ultimately show ?thesis unfolding lm by simp
qed

section \<open>ARP frames\<close>

lemma process_arp_frame:
  assumes "length dst = 6" "length src = 6" "length tm = 6"
  shows "process_frame P (arp_frame dst src op sip tm tip) s =
    do { (_, s1) \<leftarrow> handleARPPacket (arp_frame dst src op sip tm tip) 60 s;
         netif_update (defaultInterface s1) (updateStatistics 60 False False) s1 }"
proof -
  let ?f = "arp_frame dst src op sip tm tip"
  have l: "length ?f = 60" using arp_frame_fields(1) [OF assms] .
  have "bytes16 (toBigEndian16 0x0806) = [0x08, 0x06]" by (simp add: bytes16_big drop_bit_eq_div)
  then have f: "get_uint8_t ?f 12 = Some 0x08" "get_uint8_t ?f 13 = Some 0x06"
    using assms by (simp_all add: arp_frame_def get_uint8_t_def rd_at_def nth_append)
  have et: "(push_bit 8 (ucast (0x08 :: u8)) OR ucast (0x06 :: u8) :: u16) = 0x0806" by (simp add: push_bit_eq_mult)
  show ?thesis unfolding process_frame_def Let_def f bind.bind_lunit et l by simp
qed

lemma processed_arp_frame:
  assumes l: "length dst = 6" "length src = 6" "length tm = 6" and i: "has_interface s1"
    and h: "handleARPPacket (arp_frame dst src op sip tm tip) 60 s = Some (b, s1)"
  shows "\<exists>n. process_frame P (arp_frame dst src op sip tm tip) s = Some (s1\<lparr>netif_at := n\<rparr>)"
  using netif_update_some [OF i] by (simp add: process_arp_frame [OF l] h)

lemma arp_ok_link [simp]: "arp_ok (s\<lparr>netif_at := n\<rparr>) = arp_ok s" "arp_map (s\<lparr>netif_at := n\<rparr>) = arp_map s"
  "arp_ok (s\<lparr>rx := fs\<rparr>) = arp_ok s" "arp_map (s\<lparr>rx := fs\<rparr>) = arp_map s"
  by (simp_all add: arp_ok_def arp_map_def entries_def)

lemma only_table_interface: "only_table s s' \<Longrightarrow> has_interface s' = has_interface s"
  by (simp add: has_interface_def only_table_fields)

text \<open>The request reaches its target, which learns the asker and replies.\<close>

lemma request_answered:
  assumes b: "arp_ok b" "can_send b" "sip \<in> dom (arp_map b) \<or> cacheCount b < 32" and m: "length mac = 6"
  shows "\<exists>b'. process_frame P (arp_frame (replicate 6 0xFF) mac 1 sip (replicate 6 0) (localIP b)) b = Some b' \<and>
    sent b' = sent b @ [arp_frame mac (localMAC b) 2 (localIP b) mac sip] \<and> arp_map b' = (arp_map b)(sip \<mapsto> mac)"
proof -
  have l: "length (replicate 6 (0xFF :: byte)) = 6" "length (replicate 6 (0 :: byte)) = 6" by simp_all
  have m6: "length (localMAC b) = 6" using b(1) by (simp add: arp_ok_def)
  let ?g = "arp_frame mac (localMAC b) 2 (localIP b) mac sip"
  obtain b1 where b1: "arp_ok b1" "arp_map b1 = (arp_map b)(sip \<mapsto> mac)" "only_table b b1"
    "handleARPPacket (arp_frame (replicate 6 0xFF) mac 1 sip (replicate 6 0) (localIP b)) 60 b = Some (True, transmit ?g b1)"
    using handle_request [OF b(1) l(1) m l(2) b(3,2)] by blast
  have up: "link_up b1" using b(2) only_table_fields [OF b1(3)] by (simp add: can_send_def link_up_def)
  obtain n where "process_frame P (arp_frame (replicate 6 0xFF) mac 1 sip (replicate 6 0) (localIP b)) b =
      Some (transmit ?g b1\<lparr>netif_at := n\<rparr>)"
    using processed_arp_frame [OF l(1) m l(2) link_up_interface [OF link_up_transmit [OF up]] b1(4)] by blast
  then show ?thesis using b1(2) only_table_fields(6) [OF b1(3)] arp_frame_fields(1) [OF m m6 m] by simp
qed

text \<open>The reply arrives while the asker polls for the first time.\<close>

lemma reply_resolves:
  assumes a: "arp_ok a" "can_send a" "arp_map a ip = None" "cacheCount a < 32" and m: "length mac = 6"
    and r: "rx a = [arp_frame (localMAC a) mac 2 ip (localMAC a) (localIP a)] # later"
  shows "\<exists>a'. resolveMacAddress (poll (Suc k)) ip a = Some (Some mac, a') \<and>
    sent a' = sent a @ [arp_frame (replicate 6 0xFF) (localMAC a) 1 (localIP a) (replicate 6 0) ip] \<and>
    arp_map a' = (arp_map a)(ip \<mapsto> mac) \<and> rx a' = later"
proof -
  let ?f = "arp_frame (replicate 6 0xFF) (localMAC a) 1 (localIP a) (replicate 6 0) ip"
  let ?g = "arp_frame (localMAC a) mac 2 ip (localMAC a) (localIP a)"
  have m6: "length (localMAC a) = 6" using a(1) by (simp add: arp_ok_def)
  have lf: "length ?f = 60" using m6 by (intro arp_frame_fields(1)) simp_all
  let ?s1 = "transmit ?f a" and ?s2 = "transmit ?f a\<lparr>rx := later\<rparr>"
  have up: "link_up ?s1" "has_interface ?s2"
    using a(2) link_up_interface [of ?s1] by (simp_all add: can_send_def has_interface_def)
  have "cacheCount ?s1 = cacheCount a" by (simp add: transmit_def)
  then have ok2: "arp_ok ?s2" "ip \<in> dom (arp_map ?s2) \<or> cacheCount ?s2 < 32" using a by simp_all
  obtain s3 where s3: "handleARPPacket ?g 60 ?s2 = Some (True, s3)" "arp_ok s3"
    "arp_map s3 = (arp_map ?s2)(ip \<mapsto> mac)" "only_table ?s2 s3"
    using handle_reply [OF ok2(1) m6 m m6 ok2(2)] by blast
  have "has_interface s3" using up(2) only_table_interface [OF s3(4)] by simp
  then obtain n where n: "process_frame (poll k) ?g ?s2 = Some (s3\<lparr>netif_at := n\<rparr>)"
    using processed_arp_frame [OF m6 m m6 _ s3(1)] by blast
  have "cached ip (s3\<lparr>netif_at := n\<rparr>) = Some (Some mac)" by (simp add: cached_spec s3)
  moreover have "poll (Suc k) ?s1 = Some (s3\<lparr>netif_at := n\<rparr>)" using r n by simp
  moreover have "defaultInterface ?s1 \<noteq> 0" using up(1) by (simp add: link_up_def)
  ultimately have "attempts (poll (Suc k)) ip 3 a = Some (Some mac, s3\<lparr>netif_at := n\<rparr>)"
    using request_step [OF a(1,2), of ip] by (simp add: numeral_3_eq_3 del: poll.simps)
  moreover have "initialized a" "cached ip a = Some None" using a(1,3) by (simp_all add: arp_ok_def cached_spec)
  ultimately have "resolveMacAddress (poll (Suc k)) ip a = Some (Some mac, s3\<lparr>netif_at := n\<rparr>)"
    by (simp add: resolveMacAddress_def)
  then show ?thesis using s3(3) only_table_fields [OF s3(4)] lf by simp
qed

end
