(* ===== verification/Dns_Laws.thy ===== *)
theory Dns_Laws
  imports Dns
begin

text \<open>
  The resolver on arbitrary input: taking a response apart reads nothing outside it, and names
  survive the wire.
\<close>

section \<open>Responses\<close>

lemma skip_question_some: "len \<le> length data \<Longrightarrow> \<exists>p. skip_question data len off = Some p"
proof (induction data len off rule: skip_question.induct)
  case (1 data len off)
  show ?case
  proof (cases "off < len")
    case True
    then have "rd_at data off = Some (data ! off)" using 1 by (simp add: rd_at_def)
    then show ?thesis using 1 True by (subst skip_question.simps) auto
  qed (subst skip_question.simps, simp)
qed

lemma skip_name_some: "len \<le> length data \<Longrightarrow> \<exists>p. skip_name data len off = Some p"
proof (induction data len off rule: skip_name.induct)
  case (1 data len off)
  show ?case
  proof (cases "off < len")
    case True
    then have "rd_at data off = Some (data ! off)" using 1 by (simp add: rd_at_def)
    then show ?thesis using 1 True by (subst skip_name.simps) auto
  qed (subst skip_name.simps, simp)
qed

lemma get_uint16_some: "off + 2 \<le> length data \<Longrightarrow> \<exists>v. get_uint16_t data off = Some v"
proof -
  assume "off + 2 \<le> length data"
  then have "slice data off 2 = Some [data ! off, data ! Suc off]"
    by (simp add: slice_def numeral_2_eq_2 take_Suc_conv_app_nth)
  then show ?thesis by (simp add: get_uint16_t_def)
qed

lemma be16_at_some: "off + 2 \<le> length data \<Longrightarrow> \<exists>v. be16_at data off = Some v"
  by (simp add: be16_at_def rd_at_def)

lemma be32_at_some: "off + 4 \<le> length data \<Longrightarrow> \<exists>v. be32_at data off = Some v"
  by (simp add: be32_at_def rd_at_def)

lemma parse_answers_some: "len \<le> length data \<Longrightarrow> \<exists>r. parse_answers data len n off = Some r"
proof (induction n arbitrary: off)
  case (Suc n)
  show ?case
  proof (cases "len \<le> off")
    case False
    then have "rd_at data off = Some (data ! off)" using Suc.prems by (simp add: rd_at_def)
    moreover obtain q where q: "(if data ! off AND 0xC0 = 0xC0 then Some (off + 2) else map_option Suc (skip_name data len off)) = Some q"
      using skip_name_some [OF Suc.prems, of off] by (cases "data ! off AND 0xC0 = 0xC0") auto
    moreover have "\<exists>r. (if len < q + 10 then Some None
      else do {
        answerType \<leftarrow> be16_at data q; answerClass \<leftarrow> be16_at data (q + 2); rdataLength \<leftarrow> be16_at data (q + 8);
        let off2 = q + 10 in
          if answerType = 1 \<and> answerClass = 1 \<and> rdataLength = 4 \<and> off2 + 4 \<le> len
          then map_option Some (be32_at data off2)
          else parse_answers data len n (off2 + unat rdataLength) }) = Some r"
    proof (cases "len < q + 10")
      case False
      then obtain t c l where v: "be16_at data q = Some t" "be16_at data (q + 2) = Some c" "be16_at data (q + 8) = Some l"
        using be16_at_some [of q data] be16_at_some [of "q + 2" data] be16_at_some [of "q + 8" data] Suc.prems by fastforce
      show ?thesis
      proof (cases "q + 10 + 4 \<le> len")
        case True
        then obtain a where "be32_at data (q + 10) = Some a" using be32_at_some [of "q + 10" data] Suc.prems by fastforce
        then show ?thesis using False v Suc.IH [OF Suc.prems] by (simp add: Let_def)
      next
        case nf: False
        then show ?thesis using False v Suc.IH [OF Suc.prems] by (simp add: Let_def)
      qed
    qed simp
    ultimately show ?thesis using False by simp
  qed simp
qed simp

text \<open>Whatever a server sends, the response is read within its bounds and changes at most the
  result of the pending query.\<close>

lemma handleDNSResponse_total:
  assumes l: "unat len \<le> length data"
  shows "\<exists>s'. handleDNSResponse data len server s = Some s' \<and>
    (s' = s \<or> (\<exists>ip tid. get_uint16_t data 0 = Some tid \<and> toBigEndian16 tid = transactionID s \<and>
       s' = s\<lparr>responseReceived := True, resolvedIP := ip\<rparr>))"
proof (cases "len < 12")
  case True
  then show ?thesis by (simp add: handleDNSResponse_def)
next
  case False
  then have l12: "12 \<le> length data" using l by (simp add: word_less_nat_alt)
  have g: "\<exists>v. get_uint16_t data k = Some v" if "k + 2 \<le> 12" for k
    using that l12 by (intro get_uint16_some) simp
  obtain t f a where v: "get_uint16_t data 0 = Some t" "get_uint16_t data 2 = Some f" "get_uint16_t data 6 = Some a"
    using g [of 0] g [of 2] g [of 6] by auto
  obtain off where off: "skip_question data (unat len) 12 = Some off" using skip_question_some [OF l] by blast
  obtain r where r: "parse_answers data (unat len) (unat (toBigEndian16 a)) (off + 1 + 4) = Some r"
    using parse_answers_some [OF l] by blast
  show ?thesis using False v off r by (auto simp: handleDNSResponse_def Let_def split: option.split)
qed

section \<open>Names\<close>

text \<open>A label is what stands between the dots of a name; \<open>wire\<close> is the format of the protocol,
  in lower case and without the zero byte at its end.\<close>

fun dotted :: "bytes list \<Rightarrow> bytes" where
  "dotted [] = []"
| "dotted [l] = l"
| "dotted (l # m # ls) = l @ 0x2E # dotted (m # ls)"

definition wire :: "bytes list \<Rightarrow> bytes" where
  "wire ls = concat (map (\<lambda>l. of_nat (length l) # map dns_lower l) ls)"

definition proper_label :: "bytes \<Rightarrow> bool" where
  "proper_label l \<longleftrightarrow> l \<noteq> [] \<and> length l \<le> 63 \<and> 0x2E \<notin> set l \<and> 0 \<notin> set l"

lemma wire_simps [simp]: "wire [] = []" "wire (l # ls) = of_nat (length l) # map dns_lower l @ wire ls"
  by (simp_all add: wire_def)

lemma dns_lower_dot [simp]: "dns_lower c = 0x2E \<longleftrightarrow> c = 0x2E"
proof -
  have "c = 14" if "c + 32 = (0x2E :: u8)" using that by (simp add: eq_diff_eq [symmetric])
  then show ?thesis by (auto simp: dns_lower_def)
qed

lemma dns_lower_of_dot [simp]: "dns_lower 0x2E = 0x2E"
  by (simp add: dns_lower_def)

lemma dotted_Cons: "dotted (l # ls) = l @ (if ls = [] then [] else 0x2E # dotted ls)"
  by (cases ls) simp_all

lemma length_wire: "ls \<noteq> [] \<Longrightarrow> length (wire ls) = length (dotted ls) + 1"
  by (induction ls rule: dotted.induct) simp_all

lemma encode_skip:
  assumes "\<forall>i \<in> set is. i < length name \<and> name ! i \<noteq> 0x2E \<and> name ! i \<noteq> 0"
  shows "encode_loop name bs (is @ js) start out = encode_loop name bs js start out"
  using assms by (induction "is") (simp_all add: rd_at_def)

lemma encode_label:
  assumes l: "proper_label l" and d: "drop p name = l @ sep # rest" "sep = 0x2E \<or> sep = 0"
    and b: "length out + 1 + length l < bs"
  shows "encode_loop name bs ([p..<p + length l] @ (p + length l) # js) p out =
    encode_loop name bs js (p + length l + 1) (out @ of_nat (length l) # map dns_lower l)"
proof -
  have p: "p + length l < length name" using arg_cong [OF d(1), of length] by simp
  have nth: "name ! (p + i) = (l @ sep # rest) ! i" for i
    unfolding d(1) [symmetric] using p by (simp add: nth_drop)
  have "\<forall>i \<in> set [p..<p + length l]. i < length name \<and> name ! i \<noteq> 0x2E \<and> name ! i \<noteq> 0"
  proof
    fix i assume "i \<in> set [p..<p + length l]"
    then obtain k where k: "i = p + k" "k < length l" by (auto simp: le_iff_add)
    then have "name ! i \<in> set l" using nth [of k] by (simp add: nth_append)
    then show "i < length name \<and> name ! i \<noteq> 0x2E \<and> name ! i \<noteq> 0"
      using l k p by (auto simp: proper_label_def)
  qed
  note skip = encode_skip [OF this]
  have r: "rd_at name (p + length l) = Some sep" using p nth [of "length l"] by (simp add: rd_at_def nth_append)
  have sl: "slice name p (length l) = Some l" using p d(1) by (simp add: slice_def)
  show ?thesis unfolding skip using r sl d(2) l b by (auto simp: proper_label_def Let_def)
qed

lemma upt_around: "[p..<p + a + 1 + b] = [p..<p + a] @ (p + a) # [p + a + 1..<p + a + 1 + b]"
  using upt_add_eq_append [of p "p + a" "1 + b"] by (simp add: upt_conv_Cons add_ac)

lemma encode_labels:
  assumes "ls \<noteq> []" and "list_all proper_label ls" and "drop p name = dotted ls @ 0 # rest"
    and "length out + length (wire ls) < bs"
  shows "encode_loop name bs [p..<p + length (dotted ls) + 1] p out = Some (Some (out @ wire ls))"
  using assms
proof (induction ls arbitrary: p out rule: dotted.induct)
  case (2 l)
  then show ?case using encode_label [of l p name 0 rest out bs "[]"] by simp
next
  case (3 l m ls)
  let ?d = "dotted (m # ls)" and ?out = "out @ of_nat (length l) # map dns_lower l"
  have d: "drop p name = l @ 0x2E # ?d @ 0 # rest" using 3 by simp
  have dp: "drop (p + length l + 1) name = ?d @ 0 # rest"
    using arg_cong [OF d, of "drop (length l + 1)"] by (simp add: add_ac)
  have u: "[p..<p + length (dotted (l # m # ls)) + 1] =
      [p..<p + length l] @ (p + length l) # [p + length l + 1..<p + length l + 1 + length ?d + 1]"
    using upt_around [of p "length l" "length ?d + 1"] by (simp add: add_ac)
  have e: "encode_loop name bs [p + length l + 1..<p + length l + 1 + length ?d + 1] (p + length l + 1) ?out =
      Some (Some (?out @ wire (m # ls)))"
    using 3 dp by (intro 3) simp_all
  have lb: "proper_label l" "length out + 1 + length l < bs" using 3 by simp_all
  show ?case unfolding u add.assoc [of "p + length l + 1" "length ?d" 1, symmetric]
      encode_label [OF lb(1) d disjI1 [OF refl] lb(2)] e by simp
qed simp

text \<open>What the encoder makes of a name, and what the decoder makes of that.\<close>

lemma strlen_prefix: "0 \<notin> set t \<Longrightarrow> strlen (t @ 0 # rest) = Some (length t)"
  by (induction t) simp_all

lemma strlen_dotted:
  assumes "list_all proper_label ls"
  shows "strlen (dotted ls @ 0 # rest) = Some (length (dotted ls))"
proof -
  have "0 \<notin> set (dotted ls)" using assms
    by (induction ls rule: dotted.induct) (auto simp: proper_label_def)
  then show ?thesis by (rule strlen_prefix)
qed

lemma encodeDomainName_wire:
  assumes "ls \<noteq> []" and "list_all proper_label ls" and "length (dotted ls) < 255" and "length (dotted ls) + 2 \<le> bs"
  shows "encodeDomainName (dotted ls @ 0 # rest) bs = Some (wire ls @ [0])"
proof -
  have "dotted ls \<noteq> []" using assms(1,2) by (cases ls rule: dotted.cases) (auto simp: proper_label_def)
  moreover have "encode_loop (dotted ls @ 0 # rest) bs [0..<Suc (length (dotted ls))] 0 [] = Some (Some (wire ls))"
    using encode_labels [OF assms(1,2), of 0 _ rest "[]" bs] assms(4) length_wire [OF assms(1)] by simp
  ultimately show ?thesis
    using assms(3,4) strlen_dotted [OF assms(2)] length_wire [OF assms(1)] by (simp add: encodeDomainName_def)
qed

fun spelled :: "bytes \<Rightarrow> bytes list \<Rightarrow> bytes" where
  "spelled out [] = out"
| "spelled out (l # ls) = spelled ((if out = [] then [] else out @ [0x2E]) @ map dns_lower l) ls"

lemma length_spelled: "length out \<le> length (spelled out ls)"
  by (induction out ls rule: spelled.induct) auto

lemma spelled_dotted:
  "out \<noteq> [] \<Longrightarrow> spelled out ls = out @ (if ls = [] then [] else 0x2E # map dns_lower (dotted ls))"
  by (induction ls arbitrary: out) (simp_all add: dotted_Cons)

lemma copy_label_all:
  assumes "drop inp buffer = l @ rest" and "length out + length l < outMax"
  shows "copy_label buffer outMax (length l) inp out = Some (inp + length l, out @ l)"
  using assms
proof (induction l arbitrary: inp out)
  case (Cons x l)
  have "inp < length buffer" using Cons.prems(1) by (metis drop_eq_Nil2 append_Cons list.distinct(1) not_le)
  moreover have "buffer ! inp = x" "drop (Suc inp) buffer = l @ rest"
    using Cons.prems(1) Cons_nth_drop_Suc [OF calculation] by simp_all
  ultimately show ?case using Cons.IH [of "Suc inp" "out @ [x]"] Cons.prems(2) by (simp add: rd_at_def)
qed simp

lemma small_length:
  assumes "n \<le> 63"
  shows "unat (of_nat n :: u8) = n" "(of_nat n :: u8) AND 0xC0 \<noteq> 0xC0" "\<not> 63 < (of_nat n :: u8)"
proof -
  show u: "unat (of_nat n :: u8) = n" using assms by (simp add: unat_of_nat)
  show "\<not> 63 < (of_nat n :: u8)" using u assms by (simp add: word_less_nat_alt)
  have "(of_nat n :: u8) AND 0xC0 \<le> of_nat n" by (rule word_and_le2)
  moreover have "\<not> (0xC0 :: u8) \<le> of_nat n" using u assms by (simp add: word_le_nat_alt)
  ultimately show "(of_nat n :: u8) AND 0xC0 \<noteq> 0xC0" by metis
qed

lemma decode_labels:
  assumes "list_all proper_label ls" and "drop inp buffer = wire ls @ 0 # rest"
    and "inp + length (wire ls) < bs" and "bs \<le> length buffer"
    and "length (spelled out ls) < outMax" and "length ls < fuel" and "out = [] \<or> last out \<noteq> 0x2E"
  shows "decode_loop fuel buffer bs outMax inp out = Some (True, spelled out ls @ [0])"
  using assms
proof (induction ls arbitrary: inp out fuel)
  case Nil
  obtain f where f: "fuel = Suc f" using Nil by (cases fuel) auto
  have "rd_at buffer inp = Some 0" using Nil.prems(2-4) by (simp add: rd_at_def) (metis nth_via_drop append_Nil wire_simps(1))
  then show ?case using Nil by (auto simp: f)
next
  case (Cons l ls)
  obtain f where f: "fuel = Suc f" using Cons.prems(6) by (cases fuel) auto
  let ?w = "of_nat (length l) :: u8" and ?o = "if out = [] then [] else out @ [0x2E]"
  have l: "l \<noteq> []" "length l \<le> 63" "0x2E \<notin> set l" using Cons.prems(1) by (simp_all add: proper_label_def)
  note w = small_length [OF l(2)]
  have w0: "?w \<noteq> 0" using w(1) l(1) by (metis length_0_conv unsigned_0)
  have r: "rd_at buffer inp = Some ?w" using Cons.prems(2-4) by (simp add: rd_at_def nth_via_drop)
  have d: "drop (inp + 1) buffer = map dns_lower l @ wire ls @ 0 # rest"
    using Cons.prems(2) by (metis Suc_eq_plus1 append_assoc append_Cons drop_Suc list.sel(3) tl_drop wire_simps(2))
  have "length ?o + length l < outMax"
    using Cons.prems(5) length_spelled [of "?o @ map dns_lower l" ls] by simp
  then have c: "copy_label buffer outMax (length l) (inp + 1) ?o = Some (inp + 1 + length l, ?o @ map dns_lower l)"
    and o: "(if out \<noteq> [] \<and> length out < outMax - 1 then out @ [0x2E] else out) = ?o"
    using copy_label_all [OF d, of ?o outMax] by (auto split: if_splits)
  have d2: "drop (inp + 1 + length l) buffer = wire ls @ 0 # rest"
    using arg_cong [OF d, of "drop (length l)"] by (simp add: add_ac)
  have "last (?o @ map dns_lower l) \<noteq> 0x2E" using l(1,3) by (simp add: last_map) (metis last_in_set)
  then have "decode_loop f buffer bs outMax (inp + 1 + length l) (?o @ map dns_lower l) = Some (True, spelled out (l # ls) @ [0])"
    using Cons.IH [OF _ d2, of "?o @ map dns_lower l" f] Cons.prems f by simp
  then show ?case using Cons.prems(3) r w w0 c o by (simp add: f del: spelled.simps)
qed

lemma decodeDomainName_wire:
  assumes "ls \<noteq> []" and "list_all proper_label ls" and "length (dotted ls) < outMax"
  shows "decodeDomainName (wire ls @ [0]) (length (wire ls @ [0])) outMax = Some (True, map dns_lower (dotted ls) @ [0])"
proof -
  obtain l m where ls: "ls = l # m" using assms(1) by (cases ls) auto
  have "l \<noteq> []" using assms(2) ls by (simp add: proper_label_def)
  then have sp: "spelled [] ls = map dns_lower (dotted ls)"
    using spelled_dotted [of "map dns_lower l" m] by (simp add: ls dotted_Cons)
  have "length ls \<le> length (wire ls)" by (induction ls) simp_all
  then show ?thesis
    using decode_labels [of ls 0 "wire ls @ [0]" "[]" "length (wire ls @ [0])" "[]" outMax "Suc (length (wire ls @ [0]))"] assms sp
    by (simp add: decodeDomainName_def)
qed

end
