(* ===== verification/Net_Laws.thy ===== *)
theory Net_Laws
  imports Net_Poll Net_Echo Dns_Laws
begin

text \<open>
  The properties of the network stack: the tables of addresses and ports, address resolution
  between two hosts, delivery of a datagram from socket to socket, echo messages, names and
  responses of the resolver, and the fuel of the polling loop.
\<close>

section \<open>A host\<close>

text \<open>A host with its interface up, one UDP socket bound to port 7 and the neighbours given.\<close>

definition ex_netif :: "byte \<Rightarrow> netif" where
  "ex_netif b = \<lparr>if_name = replicate 16 0, macAddress_of = [2, 0, 0, 0, 0, b], if_ipAddress = 0, if_subnetMask = 0,
     if_gateway = 0, if_state = Up, mtu = 1500, promiscuousMode = False, txPackets = 0, rxPackets = 0, txBytes = 0,
     rxBytes = 0, txErrors = 0, rxErrors = 0, rxDropped = 0\<rparr>"

definition ex_socket :: usocket where
  "ex_socket = \<lparr>us_state = Bound, us_localIP = 0, us_localPort = 7, us_remoteIP = 0, us_remotePort = 0, nonBlocking = True,
     reuseAddr = False, broadcast = False, lastError = 0, receiveQueue = Some []\<rparr>"

definition ex_cache :: "(u32 \<times> bytes) list \<Rightarrow> cache_entry list" where
  "ex_cache ns = map (\<lambda>(ip, m). \<lparr>ipAddress = ip, macAddress = m, timestamp = 0, valid = True\<rparr>) ns @
     replicate (32 - length ns) \<lparr>ipAddress = 0, macAddress = [], timestamp = 0, valid = False\<rparr>"

definition ex_ports :: "port_binding list" where
  "ex_ports = \<lparr>pb_port = 7, pb_handler = Some SocketCallback, pb_active = True\<rparr> #
     replicate 15 \<lparr>pb_port = 0, pb_handler = None, pb_active = False\<rparr>"

definition ex_host :: "u32 \<Rightarrow> byte \<Rightarrow> (u32 \<times> bytes) list \<Rightarrow> bytes list list \<Rightarrow> dns" where
  "ex_host ip b ns incoming = \<lparr>nm_initialized = True, interfaces = [0x100], interfaceCount = 1, defaultInterface = 0x100,
     netif_at = [0x100 \<mapsto> ex_netif b], ring_free = replicate 4 True, sent = [], rx = incoming,
     initialized = True, localIP = ip, localMAC = [2, 0, 0, 0, 0, b], cache = ex_cache ns, cacheCount = of_nat (length ns), dummyTime = 0,
     ip_initialized = True, ip_localIP = ip, subnetMask = 0xFFFFFF00, gateway = 0x0A000202,
     icmp_initialized = True, ping_targetIP = 0, ping_sentTime = 0, ping_id = 0, ping_sequence = 0, replyReceived = False,
     ping_replyTime = 0, icmp_dummyTime = 0,
     udp_initialized = True, nextEphemeralPort = 49152, portBindings = ex_ports, boundPortCount = 1,
     usockets = [0x200 \<mapsto> ex_socket], socketRegistry = 0x200 # replicate 15 0, registryPorts = 7 # replicate 15 0, registryCount = 1,
     isockets = Map.empty, icmpRegistry = replicate 16 0, icmpRegistryCount = 0, heap_answers = replicate 4 True,
     dns_initialized = True, dns_cache = [], dns_cacheCount = 0, queryDomain = replicate 255 0, transactionID = 0x1234, serverIP = 0,
     responseReceived = False, resolvedIP = 0, dnsPortBound = False\<rparr>"

lemma ex_host_fields: "localIP (ex_host ip b ns fs) = ip" "ip_localIP (ex_host ip b ns fs) = ip"
  "localMAC (ex_host ip b ns fs) = [2, 0, 0, 0, 0, b]" "sent (ex_host ip b ns fs) = []" "rx (ex_host ip b ns fs) = fs"
  "cacheCount (ex_host ip b ns fs) = of_nat (length ns)" "ip_initialized (ex_host ip b ns fs)"
  "icmp_initialized (ex_host ip b ns fs)" "udp_initialized (ex_host ip b ns fs)" "defaultInterface (ex_host ip b ns fs) = 0x100"
  "own_mac (ex_host ip b ns fs) = [2, 0, 0, 0, 0, b]" "icmpRegistry (ex_host ip b ns fs) = replicate 16 0"
  "transactionID (ex_host ip b ns fs) = 0x1234" "us_deref 0x200 (ex_host ip b ns fs) = Some ex_socket"
  "gateway (ex_host ip b ns fs) = 0x0A000202" "subnetMask (ex_host ip b ns fs) = 0xFFFFFF00"
  by (simp_all add: ex_host_def own_mac_def ex_netif_def us_deref_def)

lemma ex_host_arp:
  assumes "length ns \<le> 32" "distinct (map fst ns)" "\<forall>(ip, m) \<in> set ns. length m = 6"
  shows "arp_ok (ex_host ip b ns fs)" "arp_map (ex_host ip b ns fs) = map_of ns"
proof -
  have u: "unat (of_nat (length ns) :: u8) = length ns" using assms(1) by (simp add: unat_of_nat)
  have e: "entries (ex_host ip b ns fs) = map (\<lambda>(ip, m). \<lparr>ipAddress = ip, macAddress = m, timestamp = 0, valid = True\<rparr>) ns"
    by (simp add: entries_def ex_host_def u ex_cache_def)
  have "(of_nat (length ns) :: u8) \<le> 32" using u assms(1) by (simp add: word_le_nat_alt)
  moreover have "length (ex_cache ns) = 32" using assms(1) by (simp add: ex_cache_def)
  moreover have "map ipAddress (entries (ex_host ip b ns fs)) = map fst ns" by (simp add: e case_prod_unfold)
  then have "distinct (map ipAddress (entries (ex_host ip b ns fs)))" using assms(2) by simp
  moreover have "\<forall>c \<in> set (entries (ex_host ip b ns fs)). valid c \<and> length (macAddress c) = 6"
    using assms(3) by (auto simp: e)
  ultimately show "arp_ok (ex_host ip b ns fs)" unfolding arp_ok_def by (simp add: ex_host_def)
  show "arp_map (ex_host ip b ns fs) = map_of ns" by (simp add: arp_map_def e case_prod_unfold comp_def)
qed

lemma ex_host_link: "can_send (ex_host ip b ns fs)" "has_interface (ex_host ip b ns fs)"
  by (simp_all add: can_send_def link_up_def has_interface_def ex_host_def ex_netif_def)

lemma ex_host_udp: "udp_ok (ex_host ip b ns fs)" "udp_map (ex_host ip b ns fs) = [7 \<mapsto> SocketCallback]"
  by (simp_all add: udp_ok_def bindings_ok_def bound_def udp_map_def bindings_map_def ex_host_def ex_ports_def)

lemma ex_host_sockets: "sockets_ready (ex_host ip b ns fs)" "queue_of 0x200 (ex_host ip b ns fs) = Some []"
  "registered (socketRegistry (ex_host ip b ns fs)) [0..<16] = [0x200]"
proof -
  show q: "queue_of 0x200 (ex_host ip b ns fs) = Some []"
    by (simp add: queue_of_def ex_host_fields) (simp add: ex_socket_def)
  show r: "registered (socketRegistry (ex_host ip b ns fs)) [0..<16] = [0x200]"
    by (simp add: ex_host_def upt_rec)
  show "sockets_ready (ex_host ip b ns fs)"
    unfolding sockets_ready_def r by (simp add: q) (simp add: ex_host_def)
qed

section \<open>Tables\<close>

text \<open>The table of addresses is a map with room for 32 addresses: adding an address that is
  present, or while fewer than 32 are, updates the map and nothing else, and every later lookup
  sees the updated map; otherwise the addition is refused and the table stays as it is.\<close>

lemma arp_table_map:
  assumes "arp_ok s" and "length mac = 6"
  shows "cached ip s = Some (arp_map s ip) \<and>
    (if ip \<in> dom (arp_map s) \<or> card (dom (arp_map s)) < 32
     then \<exists>s'. addCacheEntry ip (Some mac) s = Some (True, s') \<and> arp_ok s' \<and>
       (\<forall>x. cached x s' = Some (((arp_map s)(ip \<mapsto> mac)) x)) \<and>
       s' = s\<lparr>cache := cache s', cacheCount := cacheCount s', dummyTime := dummyTime s'\<rparr>
     else addCacheEntry ip (Some mac) s = Some (False, s))"
proof -
  have c: "card (dom (arp_map s)) < 32 \<longleftrightarrow> cacheCount s < 32"
    by (simp add: card_arp_map [OF assms(1)] word_less_nat_alt)
  show ?thesis
  proof (cases "ip \<in> dom (arp_map s) \<or> cacheCount s < 32")
    case True
    then obtain s' where s': "addCacheEntry ip (Some mac) s = Some (True, s')" "arp_ok s'"
      "arp_map s' = (arp_map s)(ip \<mapsto> mac)" "only_table s s'"
      using addCacheEntry_spec [OF assms, of ip] by auto
    have "\<forall>x. cached x s' = Some (((arp_map s)(ip \<mapsto> mac)) x)"
      unfolding cached_spec [OF s'(2)] s'(3) by (intro allI refl)
    then show ?thesis unfolding c if_P [OF True] using s' cached_spec [OF assms(1)] unfolding only_table_def by blast
  next
    case False
    then have "addCacheEntry ip (Some mac) s = Some (False, s)" using addCacheEntry_spec [OF assms, of ip] by simp
    then show ?thesis unfolding c if_not_P [OF False] using cached_spec [OF assms(1)] by blast
  qed
qed

lemma arp_table_map_witness:
  "\<exists>s'. addCacheEntry 0x0A00020F (Some [1, 2, 3, 4, 5, 6]) (ex_host 0x0A000202 1 [] []) = Some (True, s') \<and> arp_ok s' \<and>
    cached 0x0A00020F s' = Some (Some [1, 2, 3, 4, 5, 6])"
  using arp_table_map [of "ex_host 0x0A000202 1 [] []" "[1, 2, 3, 4, 5, 6]" "0x0A00020F"]
  by (simp add: ex_host_arp) (elim conjE exE, intro exI conjI, assumption+, simp)

text \<open>The table of ports is a map from at most 16 ports to handlers: binding succeeds exactly for a
  port that is not zero, not bound and finds room, and unbinding exactly for a bound one; both
  change the map at that port only, and a call that fails changes nothing.\<close>

theorem udp_port_table:
  assumes "udp_ok s"
  shows "(if p \<noteq> 0 \<and> p \<notin> dom (udp_map s) \<and> card (dom (udp_map s)) < 16
      then \<exists>s'. bindPort p (Some h) s = Some (True, s') \<and> udp_ok s' \<and> udp_map s' = (udp_map s)(p \<mapsto> h)
      else bindPort p (Some h) s = Some (False, s)) \<and>
    (if p \<in> dom (udp_map s)
      then \<exists>s'. unbindPort p s = Some (True, s') \<and> udp_ok s' \<and> udp_map s' = (udp_map s)(p := None)
      else unbindPort p s = Some (False, s))"
proof -
  have b: "bindings_map bs = m \<Longrightarrow> udp_map (s\<lparr>portBindings := bs, boundPortCount := n\<rparr>) = m" for bs m n
    by (simp add: udp_map_def)
  show ?thesis
    using bindPort_spec [OF assms, of p h] unbindPort_spec [OF assms, of p]
    by (cases "p \<noteq> 0 \<and> p \<notin> dom (udp_map s) \<and> card (dom (udp_map s)) < 16"; cases "p \<in> dom (udp_map s)")
      (simp_all only: if_True if_False simp_thms, (blast intro: b)+)
qed

lemma udp_port_table_witness:
  "(\<exists>s'. bindPort 53 (Some DnsCallback) (ex_host 1 1 [] []) = Some (True, s') \<and> udp_map s' = [7 \<mapsto> SocketCallback, 53 \<mapsto> DnsCallback]) \<and>
    unbindPort 53 (ex_host 1 1 [] []) = Some (False, ex_host 1 1 [] [])"
  using udp_port_table [OF ex_host_udp(1) [of 1 1 "[]" "[]"], of 53 DnsCallback] by (auto simp: ex_host_udp)

text \<open>Any 16 addresses can be learnt by an empty table, and then be used without asking for them.\<close>

lemma arp_learns_all:
  assumes "arp_ok s" and "arp_map s = Map.empty" and "distinct (map fst kvs)" and "\<forall>(ip, m) \<in> set kvs. length m = 6"
    and "length kvs \<le> 32"
  shows "\<exists>s'. put_all (\<lambda>ip m. addCacheEntry ip (Some m)) kvs s = Some s' \<and>
    (\<forall>(ip, m) \<in> set kvs. resolveMacAddress P ip s' = Some (Some m, s'))"
proof -
  obtain s' where s': "put_all (\<lambda>ip m. addCacheEntry ip (Some m)) kvs s = Some s'" "arp_ok s'" "arp_map s' = map_of kvs"
    using arp_table.fill [OF assms(1,3), unfolded assms(2)] assms(4,5) by auto
  have "resolveMacAddress P ip s' = Some (Some m, s')" if "(ip, m) \<in> set kvs" for ip m
    using s'(2,3) map_of_is_SomeI [OF assms(3) that] by (simp add: resolveMacAddress_def cached_spec arp_ok_def)
  then show ?thesis using s'(1) by blast
qed

section \<open>Two hosts\<close>

text \<open>C31: Two hosts resolve an address: a request that reaches its target makes the target learn the
  asker and send one reply, and when that reply arrives while the asker polls for the first time,
  the asker returns the address of the target, having sent exactly one frame and learnt exactly
  one entry.\<close>

theorem arp_exchange:
  assumes "arp_ok a" and "arp_ok b" and "can_send a" and "can_send b" and "localIP b \<notin> dom (arp_map a)"
    and "card (dom (arp_map a)) < 32" and "card (dom (arp_map b)) < 32"
  shows "\<exists>f g b' a'. process_frame P f b = Some b' \<and> sent b' = sent b @ [g] \<and>
    resolveMacAddress (poll (Suc k)) (localIP b) (a\<lparr>rx := [[g]]\<rparr>) = Some (Some (localMAC b), a') \<and>
    sent a' = sent a @ [f] \<and> arp_map a' = (arp_map a)(localIP b \<mapsto> localMAC b) \<and>
    arp_map b' = (arp_map b)(localIP a \<mapsto> localMAC a)"
proof -
  have m: "length (localMAC a) = 6" "length (localMAC b) = 6" using assms(1,2) by (simp_all add: arp_ok_def)
  have room: "cacheCount a < 32" "localIP a \<in> dom (arp_map b) \<or> cacheCount b < 32"
    using assms(6,7) by (simp_all add: card_arp_map assms(1,2) word_less_nat_alt)
  let ?f = "arp_frame (replicate 6 0xFF) (localMAC a) 1 (localIP a) (replicate 6 0) (localIP b)"
  let ?g = "arp_frame (localMAC a) (localMAC b) 2 (localIP b) (localMAC a) (localIP a)"
  obtain b' where b': "process_frame P ?f b = Some b'" "sent b' = sent b @ [?g]"
    "arp_map b' = (arp_map b)(localIP a \<mapsto> localMAC a)"
    using request_answered [OF assms(2,4) room(2) m(1)] by blast
  let ?a = "a\<lparr>rx := [[?g]]\<rparr>"
  have "arp_ok ?a" "can_send ?a" "arp_map ?a (localIP b) = None" "cacheCount ?a < 32"
    using assms(1,3,5) room(1) by (auto simp: can_send_def link_up_def)
  then obtain a' where "resolveMacAddress (poll (Suc k)) (localIP b) ?a = Some (Some (localMAC b), a')"
    "sent a' = sent a @ [?f]" "arp_map a' = (arp_map a)(localIP b \<mapsto> localMAC b)"
    using reply_resolves [of ?a "localIP b" "localMAC b" "[]" k] m(2) by auto
  then show ?thesis using b' by blast
qed

lemma arp_exchange_witness:
  "\<exists>f g b' a'. process_frame (poll 1) f (ex_host 0x0A000202 2 [] []) = Some b' \<and> sent b' = [g] \<and>
    resolveMacAddress (poll 1) 0x0A000202 (ex_host 0x0A00020F 1 [] []\<lparr>rx := [[g]]\<rparr>) = Some (Some [2, 0, 0, 0, 0, 2], a') \<and>
    sent a' = [f]"
  using arp_exchange [of "ex_host 0x0A00020F 1 [] []" "ex_host 0x0A000202 2 [] []" "poll 1" 0]
  by (simp add: ex_host_fields ex_host_arp ex_host_link del: poll.simps) blast

text \<open>C32: A datagram sent through a bound socket to a host whose address is known leaves as one frame,
  and that frame puts exactly the bytes sent, with the address and port of the sender, at the end
  of the queue of every registered socket of the receiver.\<close>

theorem datagram_delivered:
  assumes "us_deref p a = Some t" and "us_localPort t = sp" and "sp \<noteq> 0" and "udp_initialized a" and "arp_ok a"
    and "ip_initialized a" and "can_send a" and "arp_map a (next_hop (ip_localIP b) a) = Some mac" and "length mac = 6"
    and "length (own_mac a) = 6" and "slice buffer 0 (unat n) = Some d" and "d \<noteq> []" and "length d \<le> 1472"
    and "udp_ok b" and "udp_map b dp = Some SocketCallback" and "ip_initialized b" and "has_interface b" and "sockets_ready b"
  shows "\<exists>f a' b'. sendto P p buffer n (ip_localIP b) dp a = Some (n, a') \<and> sent a' = sent a @ [f] \<and>
    process_frame Q f b = Some b' \<and>
    (\<forall>x. queue_of x b' = (if x \<in> set (registered (socketRegistry b) [0..<16])
      then map_option (\<lambda>q. q @ [\<lparr>p_srcIP = ip_localIP a, p_srcPort = sp, p_data = d\<rparr>]) (queue_of x b) else queue_of x b))"
proof -
  obtain c ck where out: "sendto P p buffer n (ip_localIP b) dp a = Some (n,
      transmit (ip_frame mac (own_mac a) (of_nat (20 + (8 + length d))) 17 c (ip_localIP a) (ip_localIP b)
        (udp_header sp dp (of_nat (8 + length d)) (toBigEndian16 ck) @ d)) a)"
    and ck: "ck \<noteq> 0" "calculateChecksumWithPseudoHeader (ip_localIP a) (ip_localIP b)
      (udp_header sp dp (of_nat (8 + length d)) 0) d (of_nat (length d)) = Some ck"
    using bound_sendto [OF assms(1-11,13)] by blast
  let ?dg = "udp_header sp dp (of_nat (8 + length d)) (toBigEndian16 ck) @ d"
  let ?f = "ip_frame mac (own_mac a) (of_nat (20 + (8 + length d))) 17 c (ip_localIP a) (ip_localIP b) ?dg"
  define pad :: bytes where "pad = replicate (60 - length ?f) 0"
  have "length d + length pad \<le> 1472" using assms(13) length_ip_frame [OF assms(9,10)] by (simp add: pad_def del: of_nat_add)
  then obtain b' where b': "process_frame Q (ip_frame mac (own_mac a) (of_nat (20 + (8 + length d))) 17 c (ip_localIP a)
      (ip_localIP b) (?dg @ pad)) b = Some b'"
    "\<forall>x. queue_of x b' = (if x \<in> set (registered (socketRegistry b) [0..<16])
      then map_option (\<lambda>q. q @ [\<lparr>p_srcIP = ip_localIP a, p_srcPort = sp, p_data = d\<rparr>]) (queue_of x b) else queue_of x b)"
    using datagram_arrives [OF assms(14-18,9,10,12) _ ck, of pad Q c] by blast
  have "ip_frame mac (own_mac a) (of_nat (20 + (8 + length d))) 17 c (ip_localIP a) (ip_localIP b) (?dg @ pad) = ?f @ pad"
    by (simp add: ip_frame_def)
  then have "process_frame Q (?f @ pad) b = Some b'" using b'(1) by simp
  moreover have "sent (transmit ?f a) = sent a @ [?f @ pad]" unfolding pad_def by (rule transmit_fields)
  ultimately show ?thesis using out b'(2) by blast
qed

lemma datagram_delivered_witness:
  "\<exists>f a' b'. sendto (poll 1) 0x200 [1, 2, 3] 3 0x0A000202 7 (ex_host 0x0A00020F 1 [(0x0A000202, [2, 0, 0, 0, 0, 2])] []) = Some (3, a') \<and>
    sent a' = [f] \<and> process_frame (poll 1) f (ex_host 0x0A000202 2 [] []) = Some b' \<and>
    queue_of 0x200 b' = Some [\<lparr>p_srcIP = 0x0A00020F, p_srcPort = 7, p_data = [1, 2, 3]\<rparr>]"
proof -
  let ?a = "ex_host 0x0A00020F 1 [(0x0A000202, [2, 0, 0, 0, 0, 2])] []" and ?b = "ex_host 0x0A000202 2 [] []"
  have hop: "next_hop 0x0A000202 ?a = 0x0A000202"
    by (simp add: next_hop_def isLocalAddress_def ex_host_fields)
  have p: "us_localPort ex_socket = 7" by (simp add: ex_socket_def)
  obtain f a' b' where r: "sendto (poll 1) 0x200 [1, 2, 3] 3 0x0A000202 7 ?a = Some (3, a')" "sent a' = [f]"
    "process_frame (poll 1) f ?b = Some b'"
    "\<forall>x. queue_of x b' = (if x \<in> set (registered (socketRegistry ?b) [0..<16])
      then map_option (\<lambda>q. q @ [\<lparr>p_srcIP = ip_localIP ?a, p_srcPort = 7, p_data = [1, 2, 3]\<rparr>]) (queue_of x ?b) else queue_of x ?b)"
    using datagram_delivered [of "0x200" ?a ex_socket 7 ?b "[2, 0, 0, 0, 0, 2]" "[1, 2, 3]" 3 "[1, 2, 3]" 7 "poll 1" "poll 1"]
    by (simp add: ex_host_fields ex_host_arp ex_host_link ex_host_udp ex_host_sockets(1) hop p slice_def del: poll.simps) blast
  have "queue_of 0x200 b' = Some [\<lparr>p_srcIP = 0x0A00020F, p_srcPort = 7, p_data = [1, 2, 3]\<rparr>]"
    using spec [OF r(4), of "0x200"] by (simp add: ex_host_sockets ex_host_fields)
  then show ?thesis using r(1-3) by blast
qed

section \<open>Echo messages\<close>

text \<open>C33: An echo request whose data has at most 248 bytes is answered with one frame that carries the
  same identifier, number and data back to the asker; a request with more data is copied past the
  end of the buffer on the stack.\<close>

theorem echo_request_answered:
  fixes i q ck c :: u16 and d pad dst src :: bytes and sip :: u32 and s :: "'a dns_scheme"
  assumes "icmp_initialized s" and "ip_initialized s" and "arp_ok s" and "can_send s" and "icmpRegistry s = replicate 16 0"
    and "arp_map s (next_hop sip s) = Some mac" and "length mac = 6" and "length (own_mac s) = 6"
    and "length dst = 6" and "length src = 6" and "length d + length pad \<le> 1472"
  shows "if length d \<le> 248
    then \<exists>s' c' ck'. process_frame P (ip_frame dst src (of_nat (20 + (8 + length d))) 1 c sip (ip_localIP s)
          ((echo_header 8 ck i q @ d) @ pad)) s = Some s' \<and>
      sent s' = sent (transmit (ip_frame mac (own_mac s) (of_nat (20 + (8 + length d))) 1 c' (ip_localIP s) sip
        (echo_header 0 ck' i q @ d)) s)
    else process_frame P (ip_frame dst src (of_nat (20 + (8 + length d))) 1 c sip (ip_localIP s)
          ((echo_header 8 ck i q @ d) @ pad)) s = None"
  using echo_request [OF assms] .

lemma echo_request_answered_witness:
  "process_frame (poll 1) (ip_frame (replicate 6 0) (replicate 6 0) (of_nat (20 + (8 + length (replicate 300 (0 :: byte))))) 1 0
      0x0A000202 0x0A00020F ((echo_header 8 0 1 1 @ replicate 300 0) @ []))
    (ex_host 0x0A00020F 1 [(0x0A000202, [2, 0, 0, 0, 0, 2])] []) = None"
proof -
  let ?a = "ex_host 0x0A00020F 1 [(0x0A000202, [2, 0, 0, 0, 0, 2])] []"
  have hop: "next_hop 0x0A000202 ?a = 0x0A000202"
    by (simp add: next_hop_def isLocalAddress_def ex_host_fields)
  show ?thesis
    using echo_request_answered [of ?a "0x0A000202" "[2, 0, 0, 0, 0, 2]" "replicate 6 0" "replicate 6 0" "replicate 300 0" "[]" "poll 1" 0 0 1 1]
    by (simp only: ex_host_fields ex_host_arp ex_host_link hop length_replicate) (simp add: ex_host_arp)
qed

section \<open>The resolver\<close>

text \<open>A name of labels of at most 63 bytes each survives the wire: encoded into a buffer with room
  for it and decoded again, it is the same name in lower case.\<close>

theorem dns_name_roundtrip:
  assumes "ls \<noteq> []" and "list_all proper_label ls" and "length (dotted ls) < 255"
  shows "\<exists>w. encodeDomainName (dotted ls @ 0 # rest) 500 = Some w \<and> w \<noteq> [] \<and>
    decodeDomainName w (length w) 256 = Some (True, map dns_lower (dotted ls) @ [0])"
  using encodeDomainName_wire [OF assms, of 500 rest] decodeDomainName_wire [OF assms(1,2), of 256] assms(3) by simp

lemma dns_name_roundtrip_witness:
  "\<exists>w. encodeDomainName [0x57, 0x2E, 0x6F, 0x73, 0] 500 = Some w \<and>
    decodeDomainName w (length w) 256 = Some (True, [0x77, 0x2E, 0x6F, 0x73, 0])"
  using dns_name_roundtrip [of "[[0x57], [0x6F, 0x73]]" "[]"]
  by (auto simp: proper_label_def dns_lower_def)

text \<open>C36: Whatever bytes arrive as a response, they are read within their bounds, and nothing changes
  but the answer to the query whose number they carry.\<close>

theorem dns_response_safe:
  assumes "unat len \<le> length data"
  shows "\<exists>s'. handleDNSResponse data len server s = Some s' \<and>
    (s' = s \<or> (\<exists>ip tid. get_uint16_t data 0 = Some tid \<and> toBigEndian16 tid = transactionID s \<and>
       s' = s\<lparr>responseReceived := True, resolvedIP := ip\<rparr>))"
  using handleDNSResponse_total [OF assms] .

lemma dns_response_safe_witness:
  "\<exists>s'. handleDNSResponse (replicate 14 0xC0) 14 0x08080808 (ex_host 1 1 [] []) = Some s' \<and> sent s' = []"
  using dns_response_safe [of 14 "replicate 14 0xC0" "0x08080808" "ex_host 1 1 [] []"]
  by (auto simp: ex_host_fields)

section \<open>Polling\<close>

text \<open>The nesting of polls is no deeper than the number of batches of frames still to come: any fuel
  above that number gives the same result.\<close>

theorem poll_fuel:
  assumes "length (rx s) < k"
  shows "poll k s = poll (Suc (length (rx s))) s"
  using poll_enough [OF assms] .

lemma poll_fuel_witness: "poll 9 (ex_host 1 1 [] [[], []]) = poll 3 (ex_host 1 1 [] [[], []])"
  using poll_fuel [of "ex_host 1 1 [] [[], []]" 9] by (simp add: ex_host_fields numeral_3_eq_3 del: poll.simps)

end
