(* ===== verification/Frame_Buffer.thy ===== *)
theory Frame_Buffer
  imports Bytes Cstring Number_Text
begin

text \<open>
  Drawing (\<open>core/FrameBuffer.cpp\<close>, \<open>core/Display.cpp\<close>, and the classes \<open>Glyph\<close> and \<open>Font\<close> of
  \<open>core/Font.h\<close>). The back buffer is a list of pixels; writing outside it is \<open>None\<close>. An \<open>int\<close> is
  a 32-bit word read with \<open>sint\<close> where the code compares it. The glyph tables are data, so a font is
  a list of glyphs. The lemmas show that the shapes never leave the buffer and what they paint.
\<close>

unbundle bit_operations_syntax

section \<open>Definitions\<close>

definition color_of :: "u8 \<Rightarrow> u8 \<Rightarrow> u8 \<Rightarrow> u8 \<Rightarrow> u32" where
  "color_of red green blue alpha = le32 blue green red alpha"

record framebuf =
  fb_width :: u16
  fb_height :: u16
  fb_front :: "u32 list"
  fb_back :: "u32 list"

definition fb_w :: "framebuf \<Rightarrow> u32" where
  "fb_w fb = ucast (fb_width fb)"

definition fb_h :: "framebuf \<Rightarrow> u32" where
  "fb_h fb = ucast (fb_height fb)"

definition getSize :: "framebuf \<Rightarrow> u32" where
  "getSize fb = fb_w fb * fb_h fb * 4"

definition plot :: "u32 \<Rightarrow> u32 \<Rightarrow> framebuf \<Rightarrow> framebuf option" where
  "plot index c fb = map_option (\<lambda>b. fb\<lparr>fb_back := b\<rparr>) (wr_at (fb_back fb) (unat index) c)"

definition fb_fill :: "u32 \<Rightarrow> framebuf \<Rightarrow> framebuf option" where
  "fb_fill c fb = fold_opt (\<lambda>i. plot (of_nat i) c) [0..<unat (fb_h fb * fb_w fb)] fb"

definition ordered :: "u32 \<Rightarrow> u32 \<Rightarrow> u32 \<times> u32" where
  "ordered a b = (if b < a then (b, a) else (a, b))"

definition drawRect :: "u32 \<Rightarrow> u32 \<Rightarrow> u32 \<Rightarrow> u32 \<Rightarrow> u32 \<Rightarrow> framebuf \<Rightarrow> framebuf option" where
  "drawRect x1 y1 x2 y2 c fb =
     (if fb_w fb = 0 \<or> fb_h fb = 0 then Some fb
      else
        let (xa, xb) = ordered (min x1 (fb_w fb)) (min x2 (fb_w fb));
            (ya, yb) = ordered (min y1 (fb_h fb)) (min y2 (fb_h fb))
        in if xa = xb \<or> ya = yb then Some fb
           else fold_opt (\<lambda>y. fold_opt (\<lambda>i. plot (xa + of_nat y * fb_w fb + of_nat i) c) [0..<unat (xb - xa)])
                  [unat ya..<unat yb] fb)"

definition drawPixel :: "u32 \<Rightarrow> u32 \<Rightarrow> u32 \<Rightarrow> framebuf \<Rightarrow> framebuf option" where
  "drawPixel x y c fb = plot (x + y * fb_w fb) c fb"

definition swapBuffers :: "framebuf \<Rightarrow> framebuf option" where
  "swapBuffers fb =
     do { px \<leftarrow> slice (fb_back fb) 0 (unat (fb_w fb * fb_h fb));
          front \<leftarrow> blit (fb_front fb) 0 px;
          Some (fb\<lparr>fb_front := front\<rparr>) }"

subsection \<open>Brush\<close>

text \<open>The exchange of \<open>y1\<close> and \<open>y2\<close> in \<open>drawVLine\<close> leaves both equal to \<open>y1\<close>.\<close>

definition drawVLine :: "u32 \<Rightarrow> u32 \<Rightarrow> u32 \<Rightarrow> u32 \<Rightarrow> framebuf \<Rightarrow> framebuf option" where
  "drawVLine x y1 y2 c fb =
     (if fb_w fb \<le> x then Some fb
      else let temp = y1;
               yb = (if y2 < y1 then y1 else y2);
               ya = (if y2 < y1 then temp else y1)
        in if fb_h fb \<le> ya then Some fb
           else let yb = (if fb_h fb \<le> yb then fb_h fb - 1 else yb)
             in fold_opt (\<lambda>y. plot (of_nat y * fb_w fb + x) c) [unat ya..<Suc (unat yb)] fb)"

definition drawHLine :: "u32 \<Rightarrow> u32 \<Rightarrow> u32 \<Rightarrow> u32 \<Rightarrow> framebuf \<Rightarrow> framebuf option" where
  "drawHLine x1 x2 y c fb =
     (if fb_h fb \<le> y then Some fb
      else let (xa, xb) = ordered x1 x2
        in if fb_w fb \<le> xa then Some fb
           else let xb = (if fb_w fb \<le> xb then fb_w fb - 1 else xb)
             in fold_opt (\<lambda>x. plot (y * fb_w fb + of_nat x) c) [unat xa..<Suc (unat xb)] fb)"

definition drawFrame :: "u32 \<Rightarrow> u32 \<Rightarrow> u32 \<Rightarrow> u32 \<Rightarrow> u32 \<Rightarrow> framebuf \<Rightarrow> framebuf option" where
  "drawFrame x1 y1 x2 y2 c fb =
     do { fb \<leftarrow> drawHLine x1 (x2 - 1) y1 c fb;
          fb \<leftarrow> drawHLine x1 (x2 - 1) (y2 - 1) c fb;
          fb \<leftarrow> drawVLine x1 y1 (y2 - 1) c fb;
          drawVLine (x2 - 1) y1 (y2 - 1) c fb }"

definition magnitude :: "u32 \<Rightarrow> u32" where
  "magnitude d = (if sint d < 0 then - d else d)"

fun line_loop :: "nat \<Rightarrow> u32 \<Rightarrow> u32 \<Rightarrow> u32 \<Rightarrow> u32 \<Rightarrow> u32 \<Rightarrow> u32 \<Rightarrow> u32 \<Rightarrow> u32 \<Rightarrow> u32 \<Rightarrow> u32 \<Rightarrow> framebuf \<Rightarrow> framebuf option" where
  "line_loop 0 dx dy sx sy x1 y1 c x y err fb = Some fb"
| "line_loop (Suc n) dx dy sx sy x1 y1 c x y err fb =
     do { fb \<leftarrow> (if 0 \<le> sint x \<and> sint x < sint (fb_w fb) \<and> 0 \<le> sint y \<and> sint y < sint (fb_h fb)
              then drawPixel x y c fb else Some fb);
          if x = x1 \<and> y = y1 then Some fb
          else
            let e2 = 2 * err;
                (err, x) = (if sint (- dy) < sint e2 then (err - dy, x + sx) else (err, x));
                (err, y) = (if sint e2 < sint dx then (err + dx, y + sy) else (err, y))
            in line_loop n dx dy sx sy x1 y1 c x y err fb }"

definition drawLine :: "u32 \<Rightarrow> u32 \<Rightarrow> u32 \<Rightarrow> u32 \<Rightarrow> u32 \<Rightarrow> framebuf \<Rightarrow> framebuf option" where
  "drawLine x0 y0 x1 y1 c fb =
     (let dx = magnitude (x1 - x0);
          dy = magnitude (y1 - y0);
          sx = (if x0 < x1 then 1 else - 1);
          sy = (if y0 < y1 then 1 else - 1)
      in line_loop (nat (sint (dx + dy) + 1)) dx dy sx sy x1 y1 c x0 y0 (dx - dy) fb)"

definition plotCirclePerimeterPoints :: "u32 \<Rightarrow> u32 \<Rightarrow> u32 \<Rightarrow> u32 \<Rightarrow> u32 \<Rightarrow> framebuf \<Rightarrow> framebuf option" where
  "plotCirclePerimeterPoints cx cy x y c fb =
     fold_opt (\<lambda>(px, py). drawPixel px py c)
       [(cx + x, cy + y), (cx - x, cy + y), (cx + x, cy - y), (cx - x, cy - y),
        (cx + y, cy + x), (cx - y, cy + x), (cx + y, cy - x), (cx - y, cy - x)] fb"

definition fillCircleSymmetricScanlines :: "u32 \<Rightarrow> u32 \<Rightarrow> u32 \<Rightarrow> u32 \<Rightarrow> u32 \<Rightarrow> framebuf \<Rightarrow> framebuf option" where
  "fillCircleSymmetricScanlines cx cy x y c fb =
     fold_opt (\<lambda>(xa, xb, py). drawHLine xa xb py c)
       [(cx - x, cx + x, cy + y), (cx - x, cx + x, cy - y), (cx - y, cx + y, cy + x), (cx - y, cx + y, cy - x)] fb"

definition circle_points :: "bool \<Rightarrow> u32 \<Rightarrow> u32 \<Rightarrow> u32 \<Rightarrow> u32 \<Rightarrow> u32 \<Rightarrow> framebuf \<Rightarrow> framebuf option" where
  "circle_points filled cx cy x y c =
     (if filled then fillCircleSymmetricScanlines cx cy x y c else plotCirclePerimeterPoints cx cy x y c)"

lemma sint_inc: "sint (x + 1) = sint x + 1" if "sint x < sint y" for x y :: u32
  using that sint_greater_eq [of x] sint_lt [of y] by (subst sint_word_ariths) (simp add: signed_take_bit_int_eq_self)

lemma sint_dec: "sint (y - 1) = sint y - 1" if "sint x < sint y" for x y :: u32
  using that sint_greater_eq [of x] sint_lt [of y] by (subst sint_word_ariths) (simp add: signed_take_bit_int_eq_self)

function circle_loop :: "bool \<Rightarrow> u32 \<Rightarrow> u32 \<Rightarrow> u32 \<Rightarrow> u32 \<Rightarrow> u32 \<Rightarrow> u32 \<Rightarrow> framebuf \<Rightarrow> framebuf option" where
  "circle_loop filled cx cy c x y p fb =
     (if sint x < sint y then
        let x = x + 1;
            (y, p) = (if sint p < 0 then (y, p + (2 * x + 1)) else (y - 1, p + (2 * (x - (y - 1)) + 1)))
        in do { fb \<leftarrow> circle_points filled cx cy x y c fb; circle_loop filled cx cy c x y p fb }
      else Some fb)"
  by pat_completeness auto
termination
  by (relation "measure (\<lambda>(filled, cx, cy, c, x, y, p, fb). nat (sint y - sint x))")
    (auto simp: sint_inc sint_dec split: if_splits)

definition drawCircle :: "u32 \<Rightarrow> u32 \<Rightarrow> u32 \<Rightarrow> u32 \<Rightarrow> bool \<Rightarrow> framebuf \<Rightarrow> framebuf option" where
  "drawCircle cx cy r c filled fb =
     do { fb \<leftarrow> circle_points filled cx cy 0 r c fb; circle_loop filled cx cy c 0 r (1 - r) fb }"

definition fillCircle :: "u32 \<Rightarrow> u32 \<Rightarrow> u32 \<Rightarrow> u32 \<Rightarrow> framebuf \<Rightarrow> framebuf option" where
  "fillCircle cx cy r c fb = drawCircle cx cy r c True fb"

section \<open>What the shapes paint\<close>

text \<open>\<open>painted A c fb\<close> has the pixels with an index in \<open>A\<close> set to \<open>c\<close>, and nothing else changed.\<close>

definition paint :: "nat set \<Rightarrow> 'c \<Rightarrow> 'c list \<Rightarrow> 'c list" where
  "paint A c xs = map (\<lambda>k. if k \<in> A then c else xs ! k) [0..<length xs]"

definition painted :: "nat set \<Rightarrow> u32 \<Rightarrow> framebuf \<Rightarrow> framebuf" where
  "painted A c fb = fb\<lparr>fb_back := paint A c (fb_back fb)\<rparr>"

definition fb_ok :: "framebuf \<Rightarrow> bool" where
  "fb_ok fb = (length (fb_back fb) = unat (fb_h fb) * unat (fb_w fb))"

text \<open>The index of the pixel in column \<open>x\<close> and row \<open>y\<close>.\<close>

definition px :: "framebuf \<Rightarrow> nat \<Rightarrow> nat \<Rightarrow> nat" where
  "px fb x y = y * unat (fb_w fb) + x"

lemma length_paint [simp]: "length (paint A c xs) = length xs"
  by (simp add: paint_def)

lemma nth_paint [simp]: "k < length xs \<Longrightarrow> paint A c xs ! k = (if k \<in> A then c else xs ! k)"
  by (simp add: paint_def)

lemma paint_empty [simp]: "paint {} c xs = xs"
  by (rule nth_equalityI) simp_all

lemma paint_paint [simp]: "paint A c (paint B c xs) = paint (A \<union> B) c xs"
  by (rule nth_equalityI) simp_all

lemma painted_simps [simp]:
  "fb_width (painted A c fb) = fb_width fb" "fb_height (painted A c fb) = fb_height fb"
  "fb_front (painted A c fb) = fb_front fb" "fb_back (painted A c fb) = paint A c (fb_back fb)"
  "fb_w (painted A c fb) = fb_w fb" "fb_h (painted A c fb) = fb_h fb" "px (painted A c fb) = px fb"
  "fb_ok (painted A c fb) = fb_ok fb" "painted {} c fb = fb" "painted A c (painted B c fb) = painted (A \<union> B) c fb"
  by (simp_all add: painted_def fb_w_def fb_h_def fb_ok_def px_def [abs_def])

lemma update_paint: "xs[i := c] = paint {i} c xs"
  by (rule nth_equalityI) (simp_all add: nth_list_update)

lemma plot_painted: "unat i < length (fb_back fb) \<Longrightarrow> plot i c fb = Some (painted {unat i} c fb)"
  by (simp add: plot_def wr_at_def painted_def update_paint)

lemma fold_painted:
  assumes "\<And>x B. x \<in> set xs \<Longrightarrow> f x (painted B c fb) = Some (painted (A x \<union> B) c fb)"
  shows "fold_opt f xs (painted B c fb) = Some (painted ((\<Union>x\<in>set xs. A x) \<union> B) c fb)"
  using assms
proof (induction xs arbitrary: B)
  case (Cons x xs)
  have "fold_opt f (x # xs) (painted B c fb) = fold_opt f xs (painted (A x \<union> B) c fb)"
    using Cons.prems by simp
  also have "\<dots> = Some (painted ((\<Union>x\<in>set xs. A x) \<union> (A x \<union> B)) c fb)"
    using Cons by simp
  finally show ?case by (simp add: Un_ac)
qed simp

lemma fold_painted_start:
  assumes "\<And>x B. x \<in> set xs \<Longrightarrow> f x (painted B c fb) = Some (painted (A x \<union> B) c fb)"
  shows "fold_opt f xs fb = Some (painted (\<Union>x\<in>set xs. A x) c fb)"
  using fold_painted [where B = "{}", OF assms] by simp

lemma fb_dims: "unat (fb_w fb) < 2 ^ 16" "unat (fb_h fb) < 2 ^ 16"
  using unsigned_less [of "fb_width fb", where ?'a = nat] unsigned_less [of "fb_height fb", where ?'a = nat]
  by (simp_all add: fb_w_def fb_h_def unsigned_ucast_eq take_bit_nat_eq_self)

lemma px_less: "fb_ok fb \<Longrightarrow> x < unat (fb_w fb) \<Longrightarrow> y < unat (fb_h fb) \<Longrightarrow> px fb x y < length (fb_back fb)"
proof -
  assume "fb_ok fb" and x: "x < unat (fb_w fb)" and y: "y < unat (fb_h fb)"
  have "y * unat (fb_w fb) + x < (y + 1) * unat (fb_w fb)" using x by simp
  also have "\<dots> \<le> unat (fb_h fb) * unat (fb_w fb)" using y by (intro mult_le_mono1) simp
  finally show ?thesis using \<open>fb_ok fb\<close> by (simp add: fb_ok_def px_def)
qed

lemma px_inj:
  assumes "px fb x y = px fb x' y'" and "x < unat (fb_w fb)" and "x' < unat (fb_w fb)"
  shows "x = x' \<and> y = y'"
proof -
  have "y = px fb x y div unat (fb_w fb)" "y' = px fb x' y' div unat (fb_w fb)"
    "x = px fb x y mod unat (fb_w fb)" "x' = px fb x' y' mod unat (fb_w fb)"
    using assms(2,3) by (simp_all add: px_def)
  then show ?thesis using assms(1) by metis
qed

text \<open>The code's index, in 32-bit arithmetic, is that index.\<close>

lemma unat_px:
  assumes "x < unat (fb_w fb)" and "y < unat (fb_h fb)"
  shows "unat (of_nat y * fb_w fb + of_nat x) = px fb x y" "unat (of_nat x + of_nat y * fb_w fb) = px fb x y"
proof -
  have w: "unat (fb_w fb) < 2 ^ 16" and h: "unat (fb_h fb) < 2 ^ 16" by (rule fb_dims)+
  have ny: "unat (of_nat y :: u32) = y" and nx: "unat (of_nat x :: u32) = x"
    using assms w h by (simp_all add: unat_of_nat)
  have "y * unat (fb_w fb) + x < (y + 1) * unat (fb_w fb)" using assms(1) by simp
  also have "\<dots> \<le> 2 ^ 16 * unat (fb_w fb)" using assms(2) h by (intro mult_le_mono1) simp
  also have "\<dots> \<le> 2 ^ 16 * 2 ^ 16" using w by (intro mult_le_mono2) simp
  finally have lt: "y * unat (fb_w fb) + x < 2 ^ 32" by simp
  have m: "unat (of_nat y * fb_w fb) = y * unat (fb_w fb)"
    using lt ny by (subst unat_mult_lem [THEN iffD1]) simp_all
  show "unat (of_nat y * fb_w fb + of_nat x) = px fb x y"
    using lt m nx by (subst unat_add_lem [THEN iffD1]) (simp_all add: px_def)
  then show "unat (of_nat x + of_nat y * fb_w fb) = px fb x y" by (simp add: add.commute)
qed

lemma plot_px:
  assumes "fb_ok fb" and "x < unat (fb_w fb)" and "y < unat (fb_h fb)"
  shows "plot (of_nat y * fb_w fb + of_nat x) c (painted B c fb) = Some (painted ({px fb x y} \<union> B) c fb)"
  using assms px_less [OF assms] by (subst plot_painted) (simp_all add: unat_px)

definition hspan :: "framebuf \<Rightarrow> nat \<Rightarrow> nat \<Rightarrow> nat \<Rightarrow> nat set" where
  "hspan fb xa xb y = (if y < unat (fb_h fb) then {px fb x y |x. xa \<le> x \<and> x \<le> xb \<and> x < unat (fb_w fb)} else {})"

definition vspan :: "framebuf \<Rightarrow> nat \<Rightarrow> nat \<Rightarrow> nat \<Rightarrow> nat set" where
  "vspan fb x ya yb = (if x < unat (fb_w fb) then {px fb x y |y. ya \<le> y \<and> y \<le> yb \<and> y < unat (fb_h fb)} else {})"

lemma ordered_min_max: "ordered a b = (min a b, max a b)"
  by (auto simp: ordered_def min_def max_def)

lemma unat_clip: "unat (if h \<le> y then h - 1 else y) = min (unat y) (unat h - 1)" if "a < h" for a h y :: u32
proof -
  have "unat (h - 1) = unat h - 1" using that by (subst unat_sub) (auto simp: word_le_nat_alt word_less_nat_alt)
  then show ?thesis using that by (auto simp: min_def word_le_nat_alt word_less_nat_alt)
qed

lemma in_clip:
  fixes a h y :: u32
  assumes "a < h"
  shows "k \<in> set [unat a..<Suc (unat (if h \<le> y then h - 1 else y))] \<longleftrightarrow> unat a \<le> k \<and> k \<le> unat y \<and> k < unat h"
  using assms unat_clip [of a h y] by (simp only: set_upt) (auto simp: word_less_nat_alt)

lemma drawHLine_painted:
  assumes ok: "fb_ok fb"
  shows "drawHLine x1 x2 y c fb = Some (painted (hspan fb (unat (min x1 x2)) (unat (max x1 x2)) (unat y)) c fb)"
proof (cases "fb_h fb \<le> y \<or> fb_w fb \<le> min x1 x2")
  case True
  then have "hspan fb (unat (min x1 x2)) (unat (max x1 x2)) (unat y) = {}"
    by (auto simp: hspan_def word_le_nat_alt)
  then show ?thesis using True by (auto simp: drawHLine_def ordered_min_max)
next
  case False
  then have y: "unat y < unat (fb_h fb)" and x: "min x1 x2 < fb_w fb"
    by (auto simp: word_less_nat_alt word_le_nat_alt)
  let ?xs = "[unat (min x1 x2)..<Suc (unat (if fb_w fb \<le> max x1 x2 then fb_w fb - 1 else max x1 x2))]"
  have "fold_opt (\<lambda>x. plot (y * fb_w fb + of_nat x) c) ?xs fb = Some (painted (\<Union>x\<in>set ?xs. {px fb x (unat y)}) c fb)"
  proof (rule fold_painted_start)
    fix x B
    assume "x \<in> set ?xs"
    then have "x < unat (fb_w fb)" using x by (simp only: in_clip)
    from plot_px [OF ok this y] show "plot (y * fb_w fb + of_nat x) c (painted B c fb) = Some (painted ({px fb x (unat y)} \<union> B) c fb)"
      by simp
  qed
  moreover have "(\<Union>x\<in>set ?xs. {px fb x (unat y)}) = hspan fb (unat (min x1 x2)) (unat (max x1 x2)) (unat y)"
    using y x by (auto simp only: hspan_def in_clip if_True UN_iff singleton_iff mem_Collect_eq)
  moreover have "\<not> (fb_w fb \<le> x1 \<and> fb_w fb \<le> x2)" using False by auto
  ultimately show ?thesis using False by (auto simp add: drawHLine_def ordered_min_max simp del: upt_Suc)
qed

text \<open>The vertical line with its ends the wrong way round is a single pixel.\<close>

lemma drawVLine_painted:
  assumes ok: "fb_ok fb"
  shows "drawVLine x y1 y2 c fb = Some (painted (vspan fb (unat x) (unat y1) (max (unat y1) (unat y2))) c fb)"
proof (cases "fb_w fb \<le> x \<or> fb_h fb \<le> y1")
  case True
  then have "vspan fb (unat x) (unat y1) (max (unat y1) (unat y2)) = {}"
    by (auto simp: vspan_def word_le_nat_alt)
  then show ?thesis using True by (auto simp: drawVLine_def)
next
  case False
  then have x: "unat x < unat (fb_w fb)" and y: "y1 < fb_h fb"
    by (auto simp: word_less_nat_alt word_le_nat_alt)
  let ?yb = "if y2 < y1 then y1 else y2"
  let ?ys = "[unat y1..<Suc (unat (if fb_h fb \<le> ?yb then fb_h fb - 1 else ?yb))]"
  have yb: "unat ?yb = max (unat y1) (unat y2)" by (auto simp: word_less_nat_alt max_def)
  have "fold_opt (\<lambda>y. plot (of_nat y * fb_w fb + x) c) ?ys fb = Some (painted (\<Union>y\<in>set ?ys. {px fb (unat x) y}) c fb)"
  proof (rule fold_painted_start)
    fix y B
    assume "y \<in> set ?ys"
    then have "y < unat (fb_h fb)" using \<open>y1 < fb_h fb\<close> by (simp only: in_clip)
    from plot_px [OF ok x this] show "plot (of_nat y * fb_w fb + x) c (painted B c fb) = Some (painted ({px fb (unat x) y} \<union> B) c fb)"
      by simp
  qed
  moreover have "(\<Union>y\<in>set ?ys. {px fb (unat x) y}) = vspan fb (unat x) (unat y1) (max (unat y1) (unat y2))"
    using x y by (auto simp only: vspan_def in_clip if_True UN_iff singleton_iff mem_Collect_eq yb)
  ultimately show ?thesis using False by (simp add: drawVLine_def del: upt_Suc)
qed

definition rect :: "framebuf \<Rightarrow> nat \<Rightarrow> nat \<Rightarrow> nat \<Rightarrow> nat \<Rightarrow> nat set" where
  "rect fb xa ya xb yb =
     {px fb x y |x y. (xa \<le> x \<and> x < xb \<and> x < unat (fb_w fb)) \<and> (ya \<le> y \<and> y < yb \<and> y < unat (fb_h fb))}"

lemma clip_range:
  "min (min a w) (min b w) \<le> x \<and> x < max (min a w) (min b w) \<longleftrightarrow> min a b \<le> x \<and> x < max a b \<and> x < (w :: nat)"
  by linarith

lemma rows_painted:
  assumes ok: "fb_ok fb" and x: "xa \<le> xb" "xb \<le> fb_w fb" and y: "yb \<le> fb_h fb"
  shows "fold_opt (\<lambda>y. fold_opt (\<lambda>i. plot (xa + of_nat y * fb_w fb + of_nat i) c) [0..<unat (xb - xa)]) [unat ya..<unat yb] fb =
    Some (painted {px fb x y |x y. (unat xa \<le> x \<and> x < unat xb) \<and> (unat ya \<le> y \<and> y < unat yb)} c fb)"
proof -
  have len: "unat (xb - xa) = unat xb - unat xa" using x(1) by (simp add: unat_sub)
  have le: "unat xa \<le> unat xb" "unat xb \<le> unat (fb_w fb)" "unat yb \<le> unat (fb_h fb)"
    using x y by (simp_all add: word_le_nat_alt)
  let ?xs = "[0..<unat (xb - xa)]"
  have row: "fold_opt (\<lambda>i. plot (xa + of_nat y * fb_w fb + of_nat i) c) ?xs (painted B c fb) =
      Some (painted ((\<Union>i\<in>set ?xs. {px fb (unat xa + i) y}) \<union> B) c fb)" if "y \<in> set [unat ya..<unat yb]" for y B
  proof (rule fold_painted)
    fix i B
    assume "i \<in> set ?xs"
    then have "unat xa + i < unat (fb_w fb)" "y < unat (fb_h fb)" using that le by (simp_all add: len)
    note px = plot_px [OF ok this, of c B]
    have "xa + of_nat y * fb_w fb + of_nat i = of_nat y * fb_w fb + of_nat (unat xa + i)" by simp
    then show "plot (xa + of_nat y * fb_w fb + of_nat i) c (painted B c fb) = Some (painted ({px fb (unat xa + i) y} \<union> B) c fb)"
      by (simp only: px)
  qed
  have inner: "(\<Union>i\<in>set ?xs. {px fb (unat xa + i) y}) = {px fb x y |x. unat xa \<le> x \<and> x < unat xb}" for y
  proof (intro equalityI subsetI)
    fix k
    assume "k \<in> {px fb x y |x. unat xa \<le> x \<and> x < unat xb}"
    then obtain x where k: "k = px fb x y" "unat xa \<le> x" "x < unat xb" by blast
    then show "k \<in> (\<Union>i\<in>set ?xs. {px fb (unat xa + i) y})"
      by (intro UN_I [where a = "x - unat xa"]) (simp_all add: len)
  qed (auto simp: len)
  have "(\<Union>y\<in>set [unat ya..<unat yb]. \<Union>i\<in>set ?xs. {px fb (unat xa + i) y}) =
      {px fb x y |x y. (unat xa \<le> x \<and> x < unat xb) \<and> (unat ya \<le> y \<and> y < unat yb)}"
    unfolding inner by fastforce
  moreover have "fold_opt (\<lambda>y. fold_opt (\<lambda>i. plot (xa + of_nat y * fb_w fb + of_nat i) c) ?xs) [unat ya..<unat yb] fb =
      Some (painted (\<Union>y\<in>set [unat ya..<unat yb]. \<Union>i\<in>set ?xs. {px fb (unat xa + i) y}) c fb)"
    by (rule fold_painted_start) (rule row)
  ultimately show ?thesis by simp
qed

lemma unat_min_max: "unat (min a b) = min (unat a) (unat b)" "unat (max a b) = max (unat a) (unat b)" for a b :: u32
  by (auto simp: min_def max_def word_le_nat_alt)

lemma drawRect_painted:
  assumes ok: "fb_ok fb"
  shows "drawRect x1 y1 x2 y2 c fb =
    Some (painted (rect fb (unat (min x1 x2)) (unat (min y1 y2)) (unat (max x1 x2)) (unat (max y1 y2))) c fb)"
proof -
  let ?w = "fb_w fb" and ?h = "fb_h fb"
  define xa xb ya yb where d: "xa = min (min x1 ?w) (min x2 ?w)" "xb = max (min x1 ?w) (min x2 ?w)"
    "ya = min (min y1 ?h) (min y2 ?h)" "yb = max (min y1 ?h) (min y2 ?h)"
  let ?R = "rect fb (unat (min x1 x2)) (unat (min y1 y2)) (unat (max x1 x2)) (unat (max y1 y2))"
  have R: "?R = {px fb x y |x y. (unat xa \<le> x \<and> x < unat xb) \<and> (unat ya \<le> y \<and> y < unat yb)}"
    unfolding rect_def d unat_min_max clip_range by (rule refl)
  have "xa \<le> xb" "xb \<le> ?w" "yb \<le> ?h" by (auto simp: d min_def max_def)
  note rows = rows_painted [OF ok this, of c ya, folded R]
  show ?thesis
  proof (cases "?w = 0 \<or> ?h = 0 \<or> xa = xb \<or> ya = yb")
    case True
    then have e: "xa = xb \<or> ya = yb" by (elim disjE) (simp_all add: d)
    then have "?R = {}" unfolding R by (elim disjE) simp_all
    then show ?thesis using e by (simp add: drawRect_def ordered_min_max Let_def flip: d)
  next
    case False
    then show ?thesis using rows by (simp add: drawRect_def ordered_min_max Let_def flip: d)
  qed
qed

text \<open>A pixel on the screen has the new colour just when it lies in the rectangle.\<close>

lemma nth_rect:
  assumes "fb_ok fb" and "x < unat (fb_w fb)" and "y < unat (fb_h fb)"
  shows "fb_back (painted (rect fb xa ya xb yb) c fb) ! px fb x y =
    (if xa \<le> x \<and> x < xb \<and> ya \<le> y \<and> y < yb then c else fb_back fb ! px fb x y)"
proof -
  have "px fb x y \<in> rect fb xa ya xb yb \<longleftrightarrow> xa \<le> x \<and> x < xb \<and> ya \<le> y \<and> y < yb"
    using assms(2,3) by (auto simp: rect_def dest: px_inj)
  then show ?thesis using px_less [OF assms] by simp
qed

section \<open>Every line stays in the buffer\<close>

definition frame_safe :: "(framebuf \<Rightarrow> framebuf option) \<Rightarrow> bool" where
  "frame_safe f = (\<forall>fb. fb_ok fb \<longrightarrow> (\<exists>b. f fb = Some (fb\<lparr>fb_back := b\<rparr>) \<and> length b = length (fb_back fb)))"

lemma frame_safeI [intro]:
  "(\<And>fb. fb_ok fb \<Longrightarrow> \<exists>A. f fb = Some (painted A c fb)) \<Longrightarrow> frame_safe f"
  unfolding frame_safe_def painted_def by (metis length_paint)

lemma frame_safe_ok: "fb_ok fb \<Longrightarrow> length b = length (fb_back fb) \<Longrightarrow> fb_ok (fb\<lparr>fb_back := b\<rparr>)"
  by (simp add: fb_ok_def fb_w_def fb_h_def)

lemma frame_safe_bind:
  assumes "frame_safe f" and "frame_safe g"
  shows "frame_safe (\<lambda>fb. Option.bind (f fb) g)"
  unfolding frame_safe_def
proof clarify
  fix fb
  assume ok: "fb_ok fb"
  with assms(1) obtain b where f: "f fb = Some (fb\<lparr>fb_back := b\<rparr>)" and b: "length b = length (fb_back fb)"
    by (auto simp: frame_safe_def)
  with assms(2) frame_safe_ok [OF ok b] obtain b' where
    "g (fb\<lparr>fb_back := b\<rparr>) = Some (fb\<lparr>fb_back := b\<rparr>\<lparr>fb_back := b'\<rparr>)" "length b' = length b"
    by (fastforce simp: frame_safe_def)
  with f b show "\<exists>b. Option.bind (f fb) g = Some (fb\<lparr>fb_back := b\<rparr>) \<and> length b = length (fb_back fb)"
    by (intro exI [where x = b']) simp
qed

lemma frame_safe_Some: "frame_safe Some"
proof -
  have "\<exists>b. Some fb = Some (fb\<lparr>fb_back := b\<rparr>) \<and> length b = length (fb_back fb)" for fb
    by (rule exI [where x = "fb_back fb"]) simp
  then show ?thesis unfolding frame_safe_def by blast
qed

lemma frame_safe_if: "frame_safe f \<Longrightarrow> frame_safe g \<Longrightarrow> frame_safe (\<lambda>fb. if b then f fb else g fb)"
  by (cases b) simp_all

lemma frame_safe_fold: "(\<And>x. x \<in> set xs \<Longrightarrow> frame_safe (f x)) \<Longrightarrow> frame_safe (fold_opt f xs)"
proof (induction xs)
  case Nil
  have "fold_opt f [] = Some" by (simp add: fun_eq_iff)
  then show ?case by (simp add: frame_safe_Some)
next
  case (Cons x xs)
  have "fold_opt f (x # xs) = (\<lambda>fb. Option.bind (f x fb) (fold_opt f xs))" by (simp add: fun_eq_iff)
  with Cons show ?case by (simp add: frame_safe_bind)
qed

lemma drawHLine_safe [intro, simp]: "frame_safe (drawHLine x1 x2 y c)"
  using drawHLine_painted by blast

lemma drawVLine_safe [intro, simp]: "frame_safe (drawVLine x y1 y2 c)"
  using drawVLine_painted by blast

lemma drawRect_safe [intro, simp]: "frame_safe (drawRect x1 y1 x2 y2 c)"
  using drawRect_painted by blast

lemma drawFrame_safe: "frame_safe (drawFrame x1 y1 x2 y2 c)"
  unfolding drawFrame_def [abs_def] by (intro frame_safe_bind drawHLine_safe drawVLine_safe)

lemma drawPixel_painted:
  assumes "fb_ok fb" and "unat x < unat (fb_w fb)" and "unat y < unat (fb_h fb)"
  shows "drawPixel x y c fb = Some (painted {px fb (unat x) (unat y)} c fb)"
  using plot_px [OF assms, of c "{}"] by (simp add: drawPixel_def add.commute)

lemma sint_nonneg: "0 \<le> sint v \<Longrightarrow> sint v = int (unat v)" for v :: u32
  using unsigned_less [of v, where ?'a = int] by (simp add: sint_u32 split: if_splits)

lemma sint_range_unat: "0 \<le> sint x \<Longrightarrow> sint x < sint w \<Longrightarrow> unat x < unat w" for x w :: u32
  using sint_nonneg [of x] sint_nonneg [of w] by linarith

lemma line_loop_safe: "frame_safe (line_loop n dx dy sx sy x1 y1 c x y err)"
proof (induction n arbitrary: x y err)
  case 0
  have "line_loop 0 dx dy sx sy x1 y1 c x y err = Some" by (simp add: fun_eq_iff)
  then show ?case by (simp add: frame_safe_Some)
next
  case (Suc n)
  let ?draw = "\<lambda>fb. if 0 \<le> sint x \<and> sint x < sint (fb_w fb) \<and> 0 \<le> sint y \<and> sint y < sint (fb_h fb)
              then drawPixel x y c fb else Some fb"
  have "frame_safe ?draw"
  proof (rule frame_safeI)
    fix fb
    assume ok: "fb_ok fb"
    show "\<exists>A. ?draw fb = Some (painted A c fb)"
    proof (cases "0 \<le> sint x \<and> sint x < sint (fb_w fb) \<and> 0 \<le> sint y \<and> sint y < sint (fb_h fb)")
      case True
      then have "unat x < unat (fb_w fb)" "unat y < unat (fb_h fb)"
        by (blast intro: sint_range_unat)+
      then show ?thesis using True drawPixel_painted [OF ok] by auto
    next
      case False
      then show ?thesis by (auto intro: exI [where x = "{}"])
    qed
  qed
  moreover have "frame_safe (\<lambda>fb. if x = x1 \<and> y = y1 then Some fb
          else
            let e2 = 2 * err;
                (err, x) = (if sint (- dy) < sint e2 then (err - dy, x + sx) else (err, x));
                (err, y) = (if sint e2 < sint dx then (err + dx, y + sy) else (err, y))
            in line_loop n dx dy sx sy x1 y1 c x y err fb)"
    using Suc.IH frame_safe_Some
    by (cases "sint (- dy) < sint (2 * err)"; cases "sint (2 * err) < sint dx") (simp_all add: Let_def frame_safe_if)
  ultimately show ?case
    unfolding line_loop.simps [abs_def] by (rule frame_safe_bind)
qed

lemma drawLine_safe: "frame_safe (drawLine x0 y0 x1 y1 c)"
  unfolding drawLine_def [abs_def] Let_def by (rule line_loop_safe)

text \<open>A filled circle is drawn with clipped lines; the points of an outline are not clipped.\<close>

lemma scanlines_safe: "frame_safe (fillCircleSymmetricScanlines cx cy x y c)"
  unfolding fillCircleSymmetricScanlines_def [abs_def] by (rule frame_safe_fold) (auto simp: split_beta)

lemma circle_loop_safe: "frame_safe (circle_loop True cx cy c x y p)"
proof (induction "nat (sint y - sint x)" arbitrary: x y p rule: less_induct)
  case less
  show ?case
  proof (cases "sint x < sint y")
    case False
    then have "circle_loop True cx cy c x y p = Some" by (simp add: fun_eq_iff)
    then show ?thesis by (simp add: frame_safe_Some)
  next
    case True
    obtain y' q where yq: "(if sint p < 0 then (y, p + (2 * (x + 1) + 1)) else (y - 1, p + (2 * (x + 1 - (y - 1)) + 1))) = (y', q)"
      by (cases "sint p < 0") auto
    have "nat (sint y' - sint (x + 1)) < nat (sint y - sint x)"
      using yq True sint_inc [OF True] sint_dec [OF True] by (auto split: if_splits)
    then have "frame_safe (circle_loop True cx cy c (x + 1) y' q)" by (rule less)
    moreover have "circle_loop True cx cy c x y p =
        (\<lambda>fb. Option.bind (circle_points True cx cy (x + 1) y' c fb) (circle_loop True cx cy c (x + 1) y' q))"
      by (subst circle_loop.simps [abs_def]) (simp add: fun_eq_iff True yq Let_def)
    ultimately show ?thesis
      using scanlines_safe by (simp add: frame_safe_bind circle_points_def [abs_def])
  qed
qed

lemma fillCircle_safe: "frame_safe (fillCircle cx cy r c)"
  unfolding fillCircle_def [abs_def] drawCircle_def [abs_def]
  by (intro frame_safe_bind circle_loop_safe) (simp add: circle_points_def [abs_def] scanlines_safe)

lemma drawCircle_outside:
  "drawCircle 0 0 1 c False \<lparr>fb_width = 4, fb_height = 4, fb_front = replicate 16 0, fb_back = replicate 16 0\<rparr> = None"
  by (simp add: drawCircle_def circle_points_def plotCirclePerimeterPoints_def drawPixel_def plot_def wr_at_def
      fb_w_def)

end
