(* ===== verification/Windows.thy ===== *)
theory Windows
  imports Frame_Buffer
begin

text \<open>
  The windows and their events (\<open>core/tasks/WindowManager.cpp\<close>): requesting, closing and raising
  windows, the queues of keyboard and mouse events, dragging, and the part of the screen a window
  covers. The static members of \<open>WindowManager\<close> are the record \<open>wm\<close>; a queue that has not been
  allocated yet is \<open>None\<close>, and using it is a null dereference. An \<open>int\<close> is a 32-bit word read with
  \<open>sint\<close>. Composing, which runs inside an atomic section of the scheduler, is in \<open>Compositor\<close>; the
  status text it prints and the endless loop of its thread are not modelled.
\<close>

section \<open>Definitions\<close>

record key_event =
  ke_key :: u8
  ke_pressed :: bool
  ke_ctrl :: bool
  ke_shift :: bool
  ke_alt :: bool
  ke_valid :: bool

record mouse_event =
  me_x :: u32
  me_y :: u32
  me_left :: bool
  me_right :: bool
  me_middle :: bool
  me_event :: bool

definition no_key :: key_event where
  "no_key = \<lparr>ke_key = 0, ke_pressed = False, ke_ctrl = False, ke_shift = False, ke_alt = False, ke_valid = False\<rparr>"

definition no_mouse :: mouse_event where
  "no_mouse = \<lparr>me_x = 0, me_y = 0, me_left = False, me_right = False, me_middle = False, me_event = False\<rparr>"

record window =
  w_id :: u32
  w_x :: u32
  w_y :: u32
  w_z :: u32
  w_width :: u32
  w_height :: u32
  w_name :: bytes
  w_buffer :: u32
  w_visible :: bool
  w_movable :: bool
  w_keys :: "key_event list"
  w_mouse :: "mouse_event list"

record drag_state =
  d_window :: u32
  d_offsetX :: u32
  d_offsetY :: u32
  d_dragging :: bool

record wm =
  wins :: "window list"
  activeWindowId :: u32
  keyQueue :: "key_event list option"
  mouseQueue :: "mouse_event list option"
  deletedQueue :: "u32 list option"
  mouseX :: u32
  mouseY :: u32
  leftDown :: bool
  wasLeftDown :: bool
  drag :: drag_state
  sortingNeeded :: bool
  window_count :: u32
  screen :: framebuf

subsection \<open>One window\<close>

text \<open>The constructor formats a name into a local buffer and then assigns the literal \<open>str_buffer\<close>.\<close>

definition str_buffer :: bytes where
  "str_buffer = [115, 116, 114, 95, 98, 117, 102, 102, 101, 114]"

definition newWindow :: "u32 \<Rightarrow> u32 \<Rightarrow> u32 \<Rightarrow> u32 \<Rightarrow> u32 \<Rightarrow> u32 \<Rightarrow> window" where
  "newWindow i buf x y width height =
     \<lparr>w_id = i, w_x = x, w_y = y, w_z = 0, w_width = width, w_height = height, w_name = str_buffer, w_buffer = buf,
      w_visible = True, w_movable = True, w_keys = [], w_mouse = []\<rparr>"

definition push_bounded :: "'e \<Rightarrow> 'e list \<Rightarrow> 'e list" where
  "push_bounded e q = (if 20 < length q then tl q else q) @ [e]"

definition win_queueKeyboardEvent :: "key_event \<Rightarrow> window \<Rightarrow> window option" where
  "win_queueKeyboardEvent e w = (if ke_valid e then Some (w\<lparr>w_keys := push_bounded e (w_keys w)\<rparr>) else None)"

definition win_popKeyboardEvent :: "window \<Rightarrow> key_event \<times> window" where
  "win_popKeyboardEvent w = (case w_keys w of [] \<Rightarrow> (no_key, w) | e # q \<Rightarrow> (e, w\<lparr>w_keys := q\<rparr>))"

definition win_queueMouseEvent :: "mouse_event \<Rightarrow> window \<Rightarrow> window" where
  "win_queueMouseEvent e w =
     w\<lparr>w_mouse := push_bounded (e\<lparr>me_x := me_x e - w_x w, me_y := me_y e - w_y w\<rparr>) (w_mouse w)\<rparr>"

definition win_popMouseEvent :: "wm \<Rightarrow> window \<Rightarrow> mouse_event \<times> window" where
  "win_popMouseEvent s w =
     (case w_mouse w of
        [] \<Rightarrow> (no_mouse\<lparr>me_x := mouseX s - w_x w, me_y := mouseY s - w_y w, me_left := leftDown s\<rparr>, w)
      | e # q \<Rightarrow> (e, w\<lparr>w_mouse := q\<rparr>))"

definition win_setPosition :: "u32 \<Rightarrow> u32 \<Rightarrow> window \<Rightarrow> window" where
  "win_setPosition x y w = w\<lparr>w_x := x, w_y := y\<rparr>"

definition win_setMovable :: "bool \<Rightarrow> window \<Rightarrow> window" where
  "win_setMovable b w = w\<lparr>w_movable := b\<rparr>"

subsection \<open>The list of windows\<close>

fun at_window :: "u32 \<Rightarrow> (window \<Rightarrow> window) \<Rightarrow> window list \<Rightarrow> window list" where
  "at_window i f [] = []"
| "at_window i f (w # ws) = (if w_id w = i then f w # ws else w # at_window i f ws)"

definition getWindowById :: "u32 \<Rightarrow> wm \<Rightarrow> window option" where
  "getWindowById i s = find (\<lambda>w. w_id w = i) (wins s)"

definition wm_initialize :: "wm \<Rightarrow> wm" where
  "wm_initialize s =
     s\<lparr>keyQueue := Some [], mouseQueue := Some [], deletedQueue := Some [],
       mouseX := fb_w (screen s) div 2, mouseY := fb_h (screen s) div 2\<rparr>"

definition raise_window :: "u32 \<Rightarrow> nat \<Rightarrow> window \<Rightarrow> window" where
  "raise_window i n w =
     (if w_id w = i then w\<lparr>w_z := of_nat n\<rparr> else if 0 < w_z w then w\<lparr>w_z := w_z w - 1\<rparr> else w)"

definition setActiveWindow :: "u32 \<Rightarrow> wm \<Rightarrow> wm" where
  "setActiveWindow i s =
     s\<lparr>wins := map (raise_window i (length (wins s))) (wins s),
       activeWindowId := (if i \<in> w_id ` set (wins s) then i else activeWindowId s), sortingNeeded := True\<rparr>"

definition requestWindow :: "u32 \<Rightarrow> u32 \<Rightarrow> u32 \<Rightarrow> u32 \<Rightarrow> u32 \<Rightarrow> wm \<Rightarrow> u32 \<times> wm" where
  "requestWindow buf x y width height s =
     (let i = window_count s + 1;
          s = s\<lparr>window_count := i, wins := wins s @ [newWindow i buf x y width height]\<rparr>
      in (i, setActiveWindow i s))"

text \<open>No window has the number 0, so the call at the end lowers every window and keeps the active one.\<close>

definition closeWindow :: "u32 \<Rightarrow> wm \<Rightarrow> wm option" where
  "closeWindow i s =
     (if i \<in> w_id ` set (wins s) then
        do { q \<leftarrow> deletedQueue s;
             Some (setActiveWindow 0
               (s\<lparr>wins := at_window i (\<lambda>w. w\<lparr>w_visible := False\<rparr>) (wins s), deletedQueue := Some (q @ [i])\<rparr>)) }
      else Some (setActiveWindow 0 s))"

definition doEraseWindows :: "wm \<Rightarrow> wm option" where
  "doEraseWindows s =
     do { q \<leftarrow> deletedQueue s;
          Some (s\<lparr>wins := fold (\<lambda>i. filter (\<lambda>w. w_id w \<noteq> i)) q (wins s), deletedQueue := Some []\<rparr>) }"

definition inside :: "u32 \<Rightarrow> u32 \<Rightarrow> window \<Rightarrow> bool" where
  "inside x y w =
     (sint (w_x w) \<le> sint x \<and> sint x < sint (w_x w + w_width w) \<and>
      sint (w_y w) \<le> sint y \<and> sint y < sint (w_y w + w_height w))"

definition getWindowAtPosition :: "u32 \<Rightarrow> u32 \<Rightarrow> wm \<Rightarrow> u32" where
  "getWindowAtPosition x y s =
     (case find (\<lambda>w. w_visible w \<and> inside x y w) (rev (wins s)) of Some w \<Rightarrow> w_id w | None \<Rightarrow> 0)"

subsection \<open>Mouse and keyboard\<close>

definition clamp :: "u32 \<Rightarrow> u32 \<Rightarrow> u32 \<Rightarrow> u32" where
  "clamp v lo hi = (if sint v < sint lo then lo else if sint hi < sint v then hi else v)"

definition updateMousePosition :: "mouse_event \<Rightarrow> u32 \<Rightarrow> u32 \<Rightarrow> wm \<Rightarrow> wm" where
  "updateMousePosition e width height s =
     s\<lparr>mouseX := clamp (mouseX s + me_x e) 0 (width - 1), mouseY := clamp (mouseY s + me_y e) 0 (height - 1)\<rparr>"

definition startDragging :: "wm \<Rightarrow> wm" where
  "startDragging s =
     (let i = getWindowAtPosition (mouseX s) (mouseY s) s in
      if i = 0 then s
      else case getWindowById i s of
        None \<Rightarrow> s
      | Some w \<Rightarrow>
          if \<not> w_movable w then s
          else let s = setActiveWindow i s in
            if 22 < mouseY s - w_y w then s
            else s\<lparr>drag := \<lparr>d_window = i, d_offsetX = mouseX s - w_x w, d_offsetY = mouseY s - w_y w, d_dragging = True\<rparr>\<rparr>)"

definition updateDragging :: "wm \<Rightarrow> wm" where
  "updateDragging s =
     (if \<not> d_dragging (drag s) \<or> d_window (drag s) = 0 then s
      else case getWindowById (d_window (drag s)) s of
        None \<Rightarrow> s
      | Some w \<Rightarrow>
          let x = clamp (mouseX s - d_offsetX (drag s)) (2 - fb_w (screen s)) (fb_w (screen s) - 2);
              y = clamp (mouseY s - d_offsetY (drag s)) 0 (fb_h (screen s) - 2)
          in s\<lparr>wins := at_window (d_window (drag s)) (win_setPosition x y) (wins s)\<rparr>)"

definition stopDragging :: "wm \<Rightarrow> wm" where
  "stopDragging s = s\<lparr>drag := (drag s)\<lparr>d_window := 0, d_dragging := False\<rparr>\<rparr>"

definition updateMouseButtonState :: "mouse_event \<Rightarrow> wm \<Rightarrow> wm" where
  "updateMouseButtonState e s =
     (let s = s\<lparr>wasLeftDown := leftDown s, leftDown := me_left e\<rparr> in
      if leftDown s then
        (if \<not> wasLeftDown s then startDragging s else if d_dragging (drag s) then updateDragging s else s)
      else if wasLeftDown s \<and> d_dragging (drag s) then stopDragging s else s)"

definition queueMouseEvent :: "mouse_event \<Rightarrow> wm \<Rightarrow> wm" where
  "queueMouseEvent e s =
     (let s = updateMousePosition e (fb_w (screen s)) (fb_h (screen s)) s;
          s = updateMouseButtonState e s;
          e = e\<lparr>me_x := mouseX s, me_y := mouseY s\<rparr>
      in case mouseQueue s of None \<Rightarrow> s | Some q \<Rightarrow> s\<lparr>mouseQueue := Some (q @ [e])\<rparr>)"

text \<open>The loop of the Alt+Tab branch visits the windows after the active one, wrapping around.\<close>

fun next_window :: "window list \<Rightarrow> nat \<Rightarrow> nat list \<Rightarrow> nat" where
  "next_window ws cur [] = cur"
| "next_window ws cur (i # is) = (if i \<noteq> cur \<and> \<not> w_visible (ws ! i) then next_window ws cur is else i)"

definition around :: "nat \<Rightarrow> nat \<Rightarrow> nat list" where
  "around n cur = map (\<lambda>i. (cur + 1 + i) mod n) [0..<n]"

fun index_of :: "('a \<Rightarrow> bool) \<Rightarrow> 'a list \<Rightarrow> nat option" where
  "index_of P [] = None"
| "index_of P (x # xs) = (if P x then Some 0 else map_option Suc (index_of P xs))"

definition queueKeyboardEvent :: "key_event \<Rightarrow> wm \<Rightarrow> wm" where
  "queueKeyboardEvent e s =
     (if ke_key e = 9 \<and> ke_alt e \<and> \<not> ke_pressed e then
        (case index_of (\<lambda>w. w_id w = activeWindowId s) (wins s) of
           Some cur \<Rightarrow>
             let nxt = wins s ! next_window (wins s) cur (around (length (wins s)) cur) in
               if w_visible nxt then setActiveWindow (w_id nxt) s else s
         | None \<Rightarrow> setActiveWindow 0 s)
      else case keyQueue s of None \<Rightarrow> s | Some q \<Rightarrow> s\<lparr>keyQueue := Some (q @ [e])\<rparr>)"

definition wm_popKeyboardEvent :: "u32 \<Rightarrow> wm \<Rightarrow> key_event \<times> wm" where
  "wm_popKeyboardEvent i s =
     (case getWindowById i s of
        None \<Rightarrow> (no_key, s)
      | Some w \<Rightarrow> (fst (win_popKeyboardEvent w), s\<lparr>wins := at_window i (\<lambda>w. snd (win_popKeyboardEvent w)) (wins s)\<rparr>))"

definition wm_popMouseEvent :: "u32 \<Rightarrow> wm \<Rightarrow> mouse_event \<times> wm" where
  "wm_popMouseEvent i s =
     (case getWindowById i s of
        None \<Rightarrow> (no_mouse, s)
      | Some w \<Rightarrow> (fst (win_popMouseEvent s w), s\<lparr>wins := at_window i (\<lambda>w. snd (win_popMouseEvent s w)) (wins s)\<rparr>))"

definition forwardMouseEvents :: "wm \<Rightarrow> wm option" where
  "forwardMouseEvents s =
     do { q \<leftarrow> mouseQueue s;
          Some (if wins s = [] then s\<lparr>mouseQueue := Some []\<rparr>
            else fold (\<lambda>e s. let i = getWindowAtPosition (me_x e) (me_y e) s in
                   if i = 0 then s else s\<lparr>wins := at_window i (win_queueMouseEvent e) (wins s)\<rparr>)
                 q (s\<lparr>mouseQueue := Some []\<rparr>)) }"

text \<open>An event leaves the queue only when the active window is there to take it.\<close>

fun forward_keys :: "nat \<Rightarrow> key_event list \<Rightarrow> wm \<Rightarrow> wm option" where
  "forward_keys 0 q s = Some (s\<lparr>keyQueue := Some q\<rparr>)"
| "forward_keys (Suc n) q s =
     (case (getWindowById (activeWindowId s) s, q) of
        (None, _) \<Rightarrow> forward_keys n q s
      | (Some w, []) \<Rightarrow> None
      | (Some w, e # q) \<Rightarrow> do {
          w \<leftarrow> win_queueKeyboardEvent e w;
          forward_keys n q (s\<lparr>wins := at_window (activeWindowId s) (\<lambda>_. w) (wins s)\<rparr>) })"

definition forwardKeyboardEvents :: "wm \<Rightarrow> wm option" where
  "forwardKeyboardEvents s =
     do { q \<leftarrow> keyQueue s;
          if wins s = [] then Some (s\<lparr>keyQueue := Some []\<rparr>) else forward_keys (length q) q s }"

subsection \<open>The part of the screen a window covers\<close>

definition clip_window :: "framebuf \<Rightarrow> window \<Rightarrow> (u32 \<times> u32 \<times> u32 \<times> u32) option" where
  "clip_window fb w =
     (let left = w_x w; top' = w_y w; right = left + w_width w; bottom = top' + w_height w;
          clipLeft = (if sint left < 0 then 0 else left);
          clipTop = (if sint top' < 0 then 0 else top');
          clipRight = (if sint (fb_w fb) < sint right then fb_w fb else right);
          clipBottom = (if sint (fb_h fb) < sint bottom then fb_h fb else bottom)
      in if sint clipRight \<le> sint clipLeft \<or> sint clipBottom \<le> sint clipTop then None
         else Some (clipLeft, clipTop, clipRight - clipLeft, clipBottom - clipTop))"

text \<open>Line by line; \<open>mem\<close> gives the pixel at an address.\<close>

definition copy_window :: "(u32 \<Rightarrow> u32) \<Rightarrow> window \<Rightarrow> u32 \<times> u32 \<times> u32 \<times> u32 \<Rightarrow> framebuf \<Rightarrow> framebuf option" where
  "copy_window mem w c fb =
     (let (clipLeft, clipTop, copyWidth, copyHeight) = c;
          srcStartX = clipLeft - w_x w; srcStartY = clipTop - w_y w
      in fold_opt (\<lambda>y. fold_opt (\<lambda>i.
             plot ((clipTop + of_nat y) * fb_w fb + clipLeft + of_nat i)
               (mem (w_buffer w + 4 * ((srcStartY + of_nat y) * w_width w + srcStartX + of_nat i))))
           [0..<unat copyWidth]) [0..<unat copyHeight] fb)"

definition renderMouseCursor :: "wm \<Rightarrow> wm option" where
  "renderMouseCursor s =
     (let x = mouseX s; y = mouseY s; black = color_of 2 2 2 255;
          color = (if leftDown s then color_of 252 177 3 255 else color_of 245 245 245 255)
      in do {
        fb \<leftarrow> drawLine (x + 1) y (x + 8 + 1) (y + 12) black (screen s);
        fb \<leftarrow> drawVLine (x - 1) y (y + 12) black fb;
        fb \<leftarrow> drawHLine x (x + 8) (y + 12 + 1) black fb;
        fb \<leftarrow> drawLine x y (x + 8) (y + 12) color fb;
        fb \<leftarrow> drawVLine x y (y + 12) color fb;
        fb \<leftarrow> drawHLine x (x + 8) (y + 12) color fb;
        Some (s\<lparr>screen := fb\<rparr>) })"

section \<open>Composing a window\<close>

text \<open>The pixels of the screen after rows have been copied: \<open>g\<close> gives the new ones.\<close>

definition overlay :: "(nat \<Rightarrow> u32 option) \<Rightarrow> framebuf \<Rightarrow> framebuf" where
  "overlay g fb = fb\<lparr>fb_back := map (\<lambda>k. case g k of None \<Rightarrow> fb_back fb ! k | Some c \<Rightarrow> c) [0..<length (fb_back fb)]\<rparr>"

lemma overlay_simps [simp]:
  "fb_w (overlay g fb) = fb_w fb" "fb_h (overlay g fb) = fb_h fb" "length (fb_back (overlay g fb)) = length (fb_back fb)"
  "fb_width (overlay g fb) = fb_width fb" "fb_height (overlay g fb) = fb_height fb" "fb_front (overlay g fb) = fb_front fb"
  by (simp_all add: overlay_def fb_w_def fb_h_def)

lemma nth_overlay:
  "k < length (fb_back fb) \<Longrightarrow> fb_back (overlay g fb) ! k = (case g k of None \<Rightarrow> fb_back fb ! k | Some c \<Rightarrow> c)"
  by (simp add: overlay_def cong: option.case_cong)

lemma overlay_none: "overlay (\<lambda>_. None) fb = fb"
  by (simp add: overlay_def map_nth)

lemma plot_overlay:
  assumes "unat i < length (fb_back fb)"
  shows "plot i c (overlay g fb) = Some (overlay (g(unat i \<mapsto> c)) fb)"
proof -
  have "(fb_back (overlay g fb))[unat i := c] = fb_back (overlay (g(unat i \<mapsto> c)) fb)"
    using assms by (intro nth_equalityI) (auto simp: nth_overlay nth_list_update)
  then show ?thesis using assms by (simp add: plot_def wr_at_def overlay_def)
qed

definition block :: "framebuf \<Rightarrow> nat \<Rightarrow> nat \<Rightarrow> nat \<Rightarrow> nat \<Rightarrow> (nat \<Rightarrow> nat \<Rightarrow> u32) \<Rightarrow> nat \<Rightarrow> u32 option" where
  "block fb l t w h pix k =
     (let x = k mod unat (fb_w fb); y = k div unat (fb_w fb) in
      if l \<le> x \<and> x < l + w \<and> t \<le> y \<and> y < t + h then Some (pix x y) else None)"

lemma px_div_mod: "x < unat (fb_w fb) \<Longrightarrow> px fb x y div unat (fb_w fb) = y \<and> px fb x y mod unat (fb_w fb) = x"
  by (simp add: px_def)

lemma row_overlay:
  assumes ok: "fb_ok fb" and w: "l + w \<le> unat (fb_w fb)" and y: "y < unat (fb_h fb)"
  shows "fold_opt (\<lambda>i. plot (of_nat y * fb_w fb + of_nat l + of_nat i) (pix (l + i) y)) [0..<w] (overlay g fb) =
    Some (overlay (g ++ block fb l y w 1 pix) fb)"
  using w
proof (induction w)
  case 0
  have "block fb l y 0 1 pix = Map.empty" by (auto simp: block_def Let_def)
  then show ?case by simp
next
  case (Suc w)
  let ?k = "px fb (l + w) y"
  have x: "l + w < unat (fb_w fb)" using Suc.prems by simp
  have idx: "unat (of_nat y * fb_w fb + of_nat l + of_nat w) = ?k"
    using unat_px(1) [OF x y] by (simp add: add.assoc)
  have "(g ++ block fb l y w 1 pix)(?k \<mapsto> pix (l + w) y) = g ++ block fb l y (Suc w) 1 pix"
  proof
    fix k
    show "((g ++ block fb l y w 1 pix)(?k \<mapsto> pix (l + w) y)) k = (g ++ block fb l y (Suc w) 1 pix) k"
    proof (cases "k = ?k")
      case True
      then show ?thesis using px_div_mod [OF x, of y] by (simp add: block_def map_add_def Let_def)
    next
      case False
      have "k \<noteq> ?k \<Longrightarrow> k div unat (fb_w fb) = y \<Longrightarrow> k mod unat (fb_w fb) \<noteq> l + w"
        by (metis div_mult_mod_eq px_def)
      then show ?thesis using False by (auto simp: block_def map_add_def Let_def)
    qed
  qed
  moreover have "?k < length (fb_back fb)" by (rule px_less [OF ok x y])
  ultimately show ?case using Suc by (simp add: fold_opt_append plot_overlay idx)
qed

lemma rows_overlay:
  assumes ok: "fb_ok fb" and w: "l + w \<le> unat (fb_w fb)" and h: "t + h \<le> unat (fb_h fb)"
  shows "fold_opt (\<lambda>y. fold_opt (\<lambda>i. plot (of_nat (t + y) * fb_w fb + of_nat l + of_nat i) (pix (l + i) (t + y))) [0..<w]) [0..<h] fb =
    Some (overlay (block fb l t w h pix) fb)"
  using h
proof (induction h)
  case 0
  have "block fb l t w 0 pix = Map.empty" by (auto simp: block_def Let_def)
  then show ?case by (simp add: overlay_none)
next
  case (Suc h)
  have "block fb l t w h pix ++ block fb l (t + h) w 1 pix = block fb l t w (Suc h) pix"
    by (rule ext) (auto simp: block_def map_add_def Let_def)
  with Suc row_overlay [OF ok w, of "t + h" pix] show ?case
    by (simp add: fold_opt_append del: of_nat_add)
qed

lemma sint_small: "sint (w :: u32) = int (unat w)" if "unat w < 2 ^ 31"
proof -
  have "uint w < 2 ^ 31" using that unfolding unat_eq_nat_uint by (subst (asm) nat_less_iff) simp_all
  then show ?thesis by (simp add: sint_u32)
qed

lemma clip_1d:
  fixes a b w :: u32
  assumes w: "unat w < 2 ^ 16"
    and cl: "cl = (if sint a < 0 then 0 else a)" and cr: "cr = (if sint w < sint b then w else b)"
    and lt: "sint cl < sint cr"
  shows "unat cl + unat (cr - cl) \<le> unat w"
    and "x < unat w \<Longrightarrow> sint a \<le> int x \<and> int x < sint b \<longleftrightarrow> unat cl \<le> x \<and> x < unat cl + unat (cr - cl)"
proof -
  have cl0: "0 \<le> sint cl" using cl by simp
  have ucl: "sint cl = int (unat cl)" and ucr: "sint cr = int (unat cr)"
    using sint_nonneg [of cl] sint_nonneg [of cr] cl0 lt by linarith+
  have uw: "sint w = int (unat w)" using w by (intro sint_small) simp
  have "cl \<le> cr" unfolding word_le_nat_alt using lt ucl ucr by linarith
  then have d: "unat (cr - cl) = unat cr - unat cl" "unat cl \<le> unat cr" by (simp_all add: unat_sub word_le_nat_alt)
  have crw: "sint cr \<le> sint w" using cr by simp
  show "unat cl + unat (cr - cl) \<le> unat w" using d crw ucr uw by linarith
  show "sint a \<le> int x \<and> int x < sint b \<longleftrightarrow> unat cl \<le> x \<and> x < unat cl + unat (cr - cl)" if "x < unat w"
  proof -
    have "unat cl \<le> x \<longleftrightarrow> sint cl \<le> int x" using ucl by linarith
    also have "\<dots> \<longleftrightarrow> sint a \<le> int x" using cl by auto
    finally have "unat cl \<le> x \<longleftrightarrow> sint a \<le> int x" .
    moreover have "x < unat cl + unat (cr - cl) \<longleftrightarrow> int x < sint cr" using d ucr by linarith
    moreover have "int x < sint w" using uw that by linarith
    moreover have "int x < sint cr \<longleftrightarrow> int x < sint b" using cr \<open>int x < sint w\<close> by auto
    ultimately show ?thesis by simp
  qed
qed

lemma clip_none_1d:
  fixes a b w :: u32
  assumes w: "unat w < 2 ^ 16"
    and le: "sint (if sint w < sint b then w else b) \<le> sint (if sint a < 0 then 0 else a)" and x: "x < unat w"
  shows "\<not> (sint a \<le> int x \<and> int x < sint b)"
proof -
  have "sint w = int (unat w)" using w by (intro sint_small) simp
  then have "int x < sint w" using x by linarith
  then show ?thesis using le by (auto split: if_splits)
qed

definition covers :: "framebuf \<Rightarrow> window \<Rightarrow> nat \<Rightarrow> nat \<Rightarrow> bool" where
  "covers fb w x y = (x < unat (fb_w fb) \<and> y < unat (fb_h fb) \<and> inside (of_nat x) (of_nat y) w)"

lemma sint_of_nat_small: "n < 2 ^ 16 \<Longrightarrow> sint (of_nat n :: u32) = int n"
  by (subst sint_small) (simp_all add: unat_of_nat)

text \<open>What a window shows at a point of the screen.\<close>

definition window_pixel :: "(u32 \<Rightarrow> u32) \<Rightarrow> window \<Rightarrow> nat \<Rightarrow> nat \<Rightarrow> u32" where
  "window_pixel mem w x y = mem (w_buffer w + 4 * ((of_nat y - w_y w) * w_width w + (of_nat x - w_x w)))"

lemma covers_iff:
  assumes "x < unat (fb_w fb)" and "y < unat (fb_h fb)"
  shows "covers fb w x y \<longleftrightarrow> (sint (w_x w) \<le> int x \<and> int x < sint (w_x w + w_width w)) \<and>
    (sint (w_y w) \<le> int y \<and> int y < sint (w_y w + w_height w))"
proof -
  have "sint (of_nat x :: u32) = int x" "sint (of_nat y :: u32) = int y"
    using assms fb_dims [of fb] by (auto intro!: sint_of_nat_small elim: less_trans)
  then show ?thesis using assms by (auto simp: covers_def inside_def)
qed

lemma clip_none: "clip_window fb w = None \<Longrightarrow> \<not> covers fb w x y"
proof
  assume none: "clip_window fb w = None" and cov: "covers fb w x y"
  then have xy: "x < unat (fb_w fb)" "y < unat (fb_h fb)" by (simp_all add: covers_def)
  from none consider
    "sint (if sint (fb_w fb) < sint (w_x w + w_width w) then fb_w fb else w_x w + w_width w) \<le> sint (if sint (w_x w) < 0 then 0 else w_x w)" |
    "sint (if sint (fb_h fb) < sint (w_y w + w_height w) then fb_h fb else w_y w + w_height w) \<le> sint (if sint (w_y w) < 0 then 0 else w_y w)"
    unfolding clip_window_def Let_def by (metis option.distinct(1))
  then show False
  proof cases
    case 1
    from clip_none_1d [OF fb_dims(1) this xy(1)] cov covers_iff [OF xy] show False by blast
  next
    case 2
    from clip_none_1d [OF fb_dims(2) this xy(2)] cov covers_iff [OF xy] show False by blast
  qed
qed

lemma copy_window_exact:
  assumes ok: "fb_ok fb" and clip: "clip_window fb w = Some c"
  obtains b where "copy_window mem w c fb = Some (fb\<lparr>fb_back := b\<rparr>)" and "length b = length (fb_back fb)"
    and "\<And>x y. x < unat (fb_w fb) \<Longrightarrow> y < unat (fb_h fb) \<Longrightarrow>
      b ! px fb x y = (if covers fb w x y then window_pixel mem w x y else fb_back fb ! px fb x y)"
proof -
  define cl ct cr cb where d: "cl = (if sint (w_x w) < 0 then 0 else w_x w)" "ct = (if sint (w_y w) < 0 then 0 else w_y w)"
    "cr = (if sint (fb_w fb) < sint (w_x w + w_width w) then fb_w fb else w_x w + w_width w)"
    "cb = (if sint (fb_h fb) < sint (w_y w + w_height w) then fb_h fb else w_y w + w_height w)"
  have c: "c = (cl, ct, cr - cl, cb - ct)" and lt: "sint cl < sint cr" "sint ct < sint cb"
    using clip by (auto simp: clip_window_def Let_def d [symmetric] split: if_splits)
  note x1 = clip_1d [OF fb_dims(1) d(1) d(3) lt(1)] and y1 = clip_1d [OF fb_dims(2) d(2) d(4) lt(2)]
  let ?g = "block fb (unat cl) (unat ct) (unat (cr - cl)) (unat (cb - ct)) (window_pixel mem w)"
  have "copy_window mem w c fb = Some (overlay ?g fb)"
    using rows_overlay [OF ok x1(1) y1(1), of "window_pixel mem w"]
    by (simp add: copy_window_def c window_pixel_def algebra_simps)
  moreover have "fb_back (overlay ?g fb) ! px fb x y = (if covers fb w x y then window_pixel mem w x y else fb_back fb ! px fb x y)"
    if "x < unat (fb_w fb)" "y < unat (fb_h fb)" for x y
    using px_less [OF ok that] px_div_mod [OF that(1), of y] x1(2) [OF that(1)] y1(2) [OF that(2)] covers_iff [OF that, of w]
    by (simp add: nth_overlay block_def Let_def)
  ultimately show thesis
    by (intro that [of "fb_back (overlay ?g fb)"]) (simp_all add: overlay_def)
qed

end
