(* ===== verification/Descriptors.thy ===== *)
theory Descriptors
  imports Sockets "HOL-Library.AList"
begin

text \<open>
  The descriptors of a process (\<open>core/tasks/DescriptorTable.cpp\<close>, \<open>FileDescriptor.cpp\<close>,
  \<open>SocketDescriptor.cpp\<close>): the table from numbers to descriptors, the position in an open file, and
  the socket calls above the UDP and ICMP sockets, the only two protocols the code creates. A
  structure passed by pointer is the list of its bytes, \<open>None\<close> for a null pointer; what a call writes
  through a pointer comes with its result. A descriptor owns its object, so the table holds it by value.
\<close>

section \<open>Definitions\<close>

text \<open>The class \<open>ProtocolSocket\<close>: an address tagged with the class of the object behind it.\<close>

datatype protocol_socket = UDP u32 | ICMP u32

record socket_descriptor =
  sd_domain :: u32
  sd_type :: u32
  sd_protocol :: u32
  sd_socket :: "protocol_socket option"

record file_descriptor =
  fd_inode :: u32
  fd_offset :: u32
  fd_flags :: u32

datatype descriptor = FileDescriptor file_descriptor | SocketDescriptor socket_descriptor

subsection \<open>The table\<close>

record descriptor_table =
  table :: "(u32 \<times> descriptor) list"
  nextFd :: u32

definition newDescriptorTable :: descriptor_table where
  "newDescriptorTable = \<lparr>table = [], nextFd = 3\<rparr>"

definition dt_allocate :: "descriptor \<Rightarrow> descriptor_table \<Rightarrow> u32 \<times> descriptor_table" where
  "dt_allocate d t = (nextFd t, t\<lparr>table := AList.update (nextFd t) d (table t), nextFd := nextFd t + 1\<rparr>)"

definition dt_get :: "u32 \<Rightarrow> descriptor_table \<Rightarrow> descriptor option" where
  "dt_get fd t = map_of (table t) fd"

definition dt_contains :: "u32 \<Rightarrow> descriptor_table \<Rightarrow> bool" where
  "dt_contains fd t = (dt_get fd t \<noteq> None)"

definition dt_count :: "descriptor_table \<Rightarrow> nat" where
  "dt_count t = length (table t)"

definition dt_erase :: "u32 \<Rightarrow> descriptor_table \<Rightarrow> descriptor_table" where
  "dt_erase fd t = t\<lparr>table := AList.delete fd (table t)\<rparr>"

definition dt_put :: "u32 \<Rightarrow> descriptor \<Rightarrow> descriptor_table \<Rightarrow> descriptor_table" where
  "dt_put fd d t = t\<lparr>table := AList.update fd d (table t)\<rparr>"

subsection \<open>Open files\<close>

definition newFileDescriptor :: "u32 \<Rightarrow> u32 \<Rightarrow> file_descriptor" where
  "newFileDescriptor inode flags = \<lparr>fd_inode = inode, fd_offset = 0, fd_flags = flags\<rparr>"

definition advanceOffset :: "u32 \<Rightarrow> file_descriptor \<Rightarrow> file_descriptor" where
  "advanceOffset n f = f\<lparr>fd_offset := fd_offset f + n\<rparr>"

text \<open>The methods delegate to the inode; \<open>io\<close> is its method, from the position to a byte count.\<close>

definition fd_transfer :: "(u32 \<Rightarrow> 's \<Rightarrow> (u32 \<times> 's) option) \<Rightarrow> file_descriptor \<Rightarrow> 's \<Rightarrow> (u32 \<times> file_descriptor \<times> 's) option" where
  "fd_transfer io f s =
     (if fd_inode f = 0 then Some (0, f, s)
      else do { (n, s) \<leftarrow> io (fd_offset f) s; Some (n, advanceOffset n f, s) })"

subsection \<open>Socket addresses\<close>

definition validateSockaddr :: "bytes option \<Rightarrow> u32 \<Rightarrow> bool option" where
  "validateSockaddr addr addrlen =
     (case addr of
        None \<Rightarrow> Some False
      | Some bs \<Rightarrow>
          if addrlen < 16 then Some False
          else do { family \<leftarrow> get_uint16_t bs 0; Some (family = 2) })"

definition parseSockaddr :: "bytes \<Rightarrow> (u32 \<times> u16) option" where
  "parseSockaddr bs =
     do { port \<leftarrow> get_uint16_t bs 2; ip \<leftarrow> get_uint32_t bs 4; Some (toBigEndian32 ip, toBigEndian16 port) }"

definition buildSockaddr :: "u32 \<Rightarrow> u16 \<Rightarrow> bytes" where
  "buildSockaddr ip port = bytes16 2 @ bytes16 (toBigEndian16 port) @ bytes32 (toBigEndian32 ip) @ replicate 8 0"

subsection \<open>Sockets\<close>

text \<open>\<open>p\<close> is the address the heap gives for the protocol socket, 0 when it has no room.\<close>

definition newSocketDescriptor ::
    "u32 \<Rightarrow> u32 \<Rightarrow> u32 \<Rightarrow> u32 \<Rightarrow> 'a socks_scheme \<Rightarrow> (socket_descriptor \<times> 'a socks_scheme) option" where
  "newSocketDescriptor p domain type protocol s =
     (let this = \<lparr>sd_domain = domain, sd_type = type, sd_protocol = protocol, sd_socket = None\<rparr> in
      if domain \<noteq> 2 then Some (this, s)
      else if type \<noteq> 2 \<and> type \<noteq> 1 \<and> type \<noteq> 3 then Some (this, s)
      else if protocol = 0 \<and> type = 3 then Some (this, s)
      else
        let this = (if protocol = 0 then this\<lparr>sd_protocol := (if type = 1 then 6 else 17)\<rparr> else this) in
        if type = 2 then
          (if p = 0 then Some (this, s) else Some (this\<lparr>sd_socket := Some (UDP p)\<rparr>, newUDPSocket p s))
        else if type = 1 then Some (this, s)
        else if protocol = 1 then
          (if p = 0 then Some (this, s)
           else do { s \<leftarrow> newICMPSocket p s; Some (this\<lparr>sd_socket := Some (ICMP p)\<rparr>, s) })
        else Some (this, s))"

definition destroySocketDescriptor :: "socket_descriptor \<Rightarrow> 'a socks_scheme \<Rightarrow> 'a socks_scheme option" where
  "destroySocketDescriptor this s =
     (case sd_socket this of
        None \<Rightarrow> Some s
      | Some (UDP p) \<Rightarrow> destroyUDPSocket p s
      | Some (ICMP p) \<Rightarrow> destroyICMPSocket p s)"

definition destroyDescriptor :: "descriptor \<Rightarrow> 'a socks_scheme \<Rightarrow> 'a socks_scheme option" where
  "destroyDescriptor d s = (case d of FileDescriptor f \<Rightarrow> Some s | SocketDescriptor sd \<Rightarrow> destroySocketDescriptor sd s)"

definition dt_release :: "u32 \<Rightarrow> descriptor_table \<Rightarrow> 'a socks_scheme \<Rightarrow> (descriptor_table \<times> 'a socks_scheme) option" where
  "dt_release fd t s =
     (case dt_get fd t of
        None \<Rightarrow> Some (t, s)
      | Some d \<Rightarrow> do { s \<leftarrow> destroyDescriptor d s; Some (dt_erase fd t, s) })"

definition destroyDescriptorTable :: "descriptor_table \<Rightarrow> 'a socks_scheme \<Rightarrow> 'a socks_scheme option" where
  "destroyDescriptorTable t s = fold_opt (\<lambda>(fd, d). destroyDescriptor d) (table t) s"

text \<open>The virtual methods, by class.\<close>

definition ps_isConnected :: "protocol_socket \<Rightarrow> 'a socks_scheme \<Rightarrow> bool option" where
  "ps_isConnected p s =
     (case p of UDP p \<Rightarrow> map_option (\<lambda>t. us_state t = Connected) (us_deref p s)
      | ICMP p \<Rightarrow> map_option (\<lambda>t. is_state t = Connected) (is_deref p s))"

definition ps_local :: "protocol_socket \<Rightarrow> 'a socks_scheme \<Rightarrow> (u32 \<times> u16) option" where
  "ps_local p s =
     (case p of UDP p \<Rightarrow> map_option (\<lambda>t. (us_localIP t, us_localPort t)) (us_deref p s)
      | ICMP p \<Rightarrow> map_option (\<lambda>t. (is_localIP t, 0)) (is_deref p s))"

definition ps_remote :: "protocol_socket \<Rightarrow> 'a socks_scheme \<Rightarrow> (u32 \<times> u16) option" where
  "ps_remote p s =
     (case p of UDP p \<Rightarrow> map_option (\<lambda>t. (us_remoteIP t, us_remotePort t)) (us_deref p s)
      | ICMP p \<Rightarrow> map_option (\<lambda>t. (is_remoteIP t, 0)) (is_deref p s))"

definition ps_bind :: "protocol_socket \<Rightarrow> u32 \<Rightarrow> u16 \<Rightarrow> 'a socks_scheme \<Rightarrow> (int \<times> 'a socks_scheme) option" where
  "ps_bind p ip port = (case p of UDP p \<Rightarrow> udp_bind p ip port | ICMP p \<Rightarrow> icmp_bind p ip)"

definition ps_connect :: "protocol_socket \<Rightarrow> u32 \<Rightarrow> u16 \<Rightarrow> 'a socks_scheme \<Rightarrow> (int \<times> 'a socks_scheme) option" where
  "ps_connect p ip port = (case p of UDP p \<Rightarrow> udp_connect p ip port | ICMP p \<Rightarrow> icmp_connect p ip)"

definition ps_recvfrom :: "protocol_socket \<Rightarrow> u32 \<Rightarrow> 'a socks_scheme \<Rightarrow> ((u32 \<times> packet option) \<times> 'a socks_scheme) option" where
  "ps_recvfrom p len = (case p of UDP p \<Rightarrow> recvfrom p len | ICMP p \<Rightarrow> icmp_recvfrom p len)"

definition ps_sendto ::
    "('a socks_scheme \<Rightarrow> 'a socks_scheme option) \<Rightarrow> protocol_socket \<Rightarrow> bytes \<Rightarrow> u32 \<Rightarrow> u32 \<Rightarrow> u16 \<Rightarrow> 'a socks_scheme \<Rightarrow>
      (u32 \<times> 'a socks_scheme) option" where
  "ps_sendto poll p buffer len ip port =
     (case p of UDP p \<Rightarrow> sendto poll p buffer len ip port | ICMP p \<Rightarrow> icmp_sendto poll (Some buffer) len ip)"

definition ps_getBytesAvailable :: "protocol_socket \<Rightarrow> 'a socks_scheme \<Rightarrow> nat option" where
  "ps_getBytesAvailable p = (case p of UDP p \<Rightarrow> getBytesAvailable p | ICMP p \<Rightarrow> icmp_getBytesAvailable p)"

definition ps_getsockopt ::
    "protocol_socket \<Rightarrow> u32 \<Rightarrow> u32 \<Rightarrow> bool \<Rightarrow> u32 \<Rightarrow> 'a socks_scheme \<Rightarrow> ((int \<times> u32 option) \<times> 'a socks_scheme) option" where
  "ps_getsockopt p = (case p of UDP p \<Rightarrow> udp_getsockopt p | ICMP p \<Rightarrow> icmp_getsockopt p)"

definition ps_setsockopt :: "protocol_socket \<Rightarrow> u32 \<Rightarrow> u32 \<Rightarrow> u32 \<Rightarrow> u32 \<Rightarrow> 'a socks_scheme \<Rightarrow> (int \<times> 'a socks_scheme) option" where
  "ps_setsockopt p level optname optval optlen s =
     (case p of UDP p \<Rightarrow> udp_setsockopt p level optname optval optlen s
      | ICMP p \<Rightarrow> Some (icmp_setsockopt level optname, s))"

text \<open>The calls; without a protocol socket each one answers \<open>-EBADF\<close>.\<close>

definition sd_read :: "socket_descriptor \<Rightarrow> u32 \<Rightarrow> 'a socks_scheme \<Rightarrow> ((u32 \<times> packet option) \<times> 'a socks_scheme) option" where
  "sd_read this len s = (case sd_socket this of None \<Rightarrow> Some ((- 9, None), s) | Some p \<Rightarrow> ps_recvfrom p len s)"

definition sd_write ::
    "('a socks_scheme \<Rightarrow> 'a socks_scheme option) \<Rightarrow> socket_descriptor \<Rightarrow> bytes \<Rightarrow> u32 \<Rightarrow> 'a socks_scheme \<Rightarrow> (u32 \<times> 'a socks_scheme) option" where
  "sd_write poll this buffer len s =
     (case sd_socket this of
        None \<Rightarrow> Some (- 9, s)
      | Some p \<Rightarrow> do {
          connected \<leftarrow> ps_isConnected p s;
          if \<not> connected then Some (- 107, s)
          else do { (ip, port) \<leftarrow> ps_remote p s; ps_sendto poll p buffer len ip port s } })"

definition set_nonblocking :: "u32 \<Rightarrow> bool \<Rightarrow> 'a socks_scheme \<Rightarrow> 'a socks_scheme option" where
  "set_nonblocking p b s = do { t \<leftarrow> us_deref p s; Some (us_set p (t\<lparr>nonBlocking := b\<rparr>) s) }"

text \<open>\<open>arg\<close> is the integer behind the pointer; the second result is what is written there. Only a
  datagram socket has a UDP object, so the cast of the code is the constructor.\<close>

definition sd_ioctl :: "socket_descriptor \<Rightarrow> u32 \<Rightarrow> u32 option \<Rightarrow> 'a socks_scheme \<Rightarrow> ((int \<times> u32 option) \<times> 'a socks_scheme) option" where
  "sd_ioctl this request arg s =
     (case sd_socket this of
        None \<Rightarrow> Some ((- 9, None), s)
      | Some p \<Rightarrow>
          if request = 0x5421 then
            (case arg of
               None \<Rightarrow> Some ((- 22, None), s)
             | Some v \<Rightarrow>
                 if sd_type this = 2 then
                   (case p of UDP p \<Rightarrow> do { s \<leftarrow> set_nonblocking p (v \<noteq> 0) s; Some ((0, None), s) } | ICMP _ \<Rightarrow> None)
                 else Some ((- 95, None), s))
          else if request = 0x541B then
            (case arg of
               None \<Rightarrow> Some ((- 22, None), s)
             | Some v \<Rightarrow> do { n \<leftarrow> ps_getBytesAvailable p s; Some ((0, Some (of_nat n)), s) })
          else Some ((- 22, None), s))"

definition sd_bind :: "socket_descriptor \<Rightarrow> bytes option \<Rightarrow> u32 \<Rightarrow> 'a socks_scheme \<Rightarrow> (int \<times> 'a socks_scheme) option" where
  "sd_bind this addr addrlen s =
     (case sd_socket this of
        None \<Rightarrow> Some (- 9, s)
      | Some p \<Rightarrow> do {
          valid \<leftarrow> validateSockaddr addr addrlen;
          if \<not> valid then Some (- 22, s)
          else do {
            bs \<leftarrow> addr;
            (ip, port) \<leftarrow> parseSockaddr bs;
            if port = 0 then Some (- 22, s) else ps_bind p ip port s } })"

definition sd_connect :: "socket_descriptor \<Rightarrow> bytes option \<Rightarrow> u32 \<Rightarrow> 'a socks_scheme \<Rightarrow> (int \<times> 'a socks_scheme) option" where
  "sd_connect this addr addrlen s =
     (case sd_socket this of
        None \<Rightarrow> Some (- 9, s)
      | Some p \<Rightarrow> do {
          valid \<leftarrow> validateSockaddr addr addrlen;
          if \<not> valid then Some (- 22, s)
          else do { bs \<leftarrow> addr; (ip, port) \<leftarrow> parseSockaddr bs; ps_connect p ip port s } })"

definition sd_sendto ::
    "('a socks_scheme \<Rightarrow> 'a socks_scheme option) \<Rightarrow> socket_descriptor \<Rightarrow> bytes \<Rightarrow> u32 \<Rightarrow> bytes option \<Rightarrow> u32 \<Rightarrow>
      'a socks_scheme \<Rightarrow> (u32 \<times> 'a socks_scheme) option" where
  "sd_sendto poll this buffer len addr addrlen s =
     (case sd_socket this of
        None \<Rightarrow> Some (- 9, s)
      | Some p \<Rightarrow>
          if addr \<noteq> None \<and> 0 < addrlen then do {
            valid \<leftarrow> validateSockaddr addr addrlen;
            if \<not> valid then Some (- 22, s)
            else do { bs \<leftarrow> addr; (ip, port) \<leftarrow> parseSockaddr bs; ps_sendto poll p buffer len ip port s } }
          else do {
            connected \<leftarrow> ps_isConnected p s;
            if connected then do { (ip, port) \<leftarrow> ps_remote p s; ps_sendto poll p buffer len ip port s }
            else Some (- 107, s) })"

text \<open>The count is unsigned, so a negative error number counts as bytes received and the source
  address is filled in. \<open>out\<close>: both pointers are there. The third result is the address written.\<close>

definition sd_recvfrom ::
    "socket_descriptor \<Rightarrow> u32 \<Rightarrow> bool \<Rightarrow> 'a socks_scheme \<Rightarrow> ((u32 \<times> bytes \<times> bytes option) \<times> 'a socks_scheme) option" where
  "sd_recvfrom this len out s =
     (case sd_socket this of
        None \<Rightarrow> Some ((- 9, [], None), s)
      | Some p \<Rightarrow> do {
          ((result, pkt), s) \<leftarrow> ps_recvfrom p len s;
          let (ip, port, data) = (case pkt of None \<Rightarrow> (0, 0, []) | Some k \<Rightarrow> (p_srcIP k, p_srcPort k, p_data k)) in
            Some ((result, data, if 0 < result \<and> out then Some (buildSockaddr ip port) else None), s) })"

definition sd_setsockopt :: "socket_descriptor \<Rightarrow> u32 \<Rightarrow> u32 \<Rightarrow> u32 \<Rightarrow> u32 \<Rightarrow> 'a socks_scheme \<Rightarrow> (int \<times> 'a socks_scheme) option" where
  "sd_setsockopt this level optname optval optlen s =
     (case sd_socket this of None \<Rightarrow> Some (- 9, s) | Some p \<Rightarrow> ps_setsockopt p level optname optval optlen s)"

definition sd_getsockopt ::
    "socket_descriptor \<Rightarrow> u32 \<Rightarrow> u32 \<Rightarrow> bool \<Rightarrow> u32 \<Rightarrow> 'a socks_scheme \<Rightarrow> ((int \<times> u32 option) \<times> 'a socks_scheme) option" where
  "sd_getsockopt this level optname out optlen s =
     (case sd_socket this of None \<Rightarrow> Some ((- 9, None), s) | Some p \<Rightarrow> ps_getsockopt p level optname out optlen s)"

text \<open>\<open>len\<close>: the length behind the pointer, \<open>None\<close> when a pointer is null.\<close>

definition sd_getsockname :: "socket_descriptor \<Rightarrow> u32 option \<Rightarrow> 'a socks_scheme \<Rightarrow> (int \<times> bytes option) option" where
  "sd_getsockname this len s =
     (case sd_socket this of
        None \<Rightarrow> Some (- 9, None)
      | Some p \<Rightarrow>
          (case len of
             None \<Rightarrow> Some (- 22, None)
           | Some n \<Rightarrow>
               if n < 16 then Some (- 22, None)
               else do { (ip, port) \<leftarrow> ps_local p s; Some (0, Some (buildSockaddr ip port)) }))"

definition sd_getpeername :: "socket_descriptor \<Rightarrow> u32 option \<Rightarrow> 'a socks_scheme \<Rightarrow> (int \<times> bytes option) option" where
  "sd_getpeername this len s =
     (case sd_socket this of
        None \<Rightarrow> Some (- 9, None)
      | Some p \<Rightarrow> do {
          connected \<leftarrow> ps_isConnected p s;
          if \<not> connected then Some (- 107, None)
          else case len of
             None \<Rightarrow> Some (- 22, None)
           | Some n \<Rightarrow>
               if n < 16 then Some (- 22, None)
               else do { (ip, port) \<leftarrow> ps_remote p s; Some (0, Some (buildSockaddr ip port)) } })"

text \<open>Both protocols answer \<open>-EOPNOTSUPP\<close>, and \<open>accept\<close> finds no connection.\<close>

definition sd_listen :: "socket_descriptor \<Rightarrow> int" where
  "sd_listen this = (if sd_socket this = None then - 9 else - 95)"

definition sd_shutdown :: "socket_descriptor \<Rightarrow> int" where
  "sd_shutdown this = (if sd_socket this = None then - 9 else - 95)"

definition sd_accept :: "socket_descriptor \<Rightarrow> socket_descriptor option" where
  "sd_accept this = None"

section \<open>Numbers handed out\<close>

text \<open>
  What a process relies on: a number given out is new, stands for the descriptor until it is
  released, and operations on one number leave the others alone. \<open>used\<close> holds every number given
  out so far, released or not.
\<close>

datatype 'v handle_request = OpenD 'v | CloseD u32

locale handle_table =
  fixes alloc :: "'v \<Rightarrow> 't \<Rightarrow> u32 \<times> 't"
    and free :: "u32 \<Rightarrow> 't \<Rightarrow> 't"
    and lookup :: "'t \<Rightarrow> u32 \<Rightarrow> 'v option"
    and used :: "'t \<Rightarrow> u32 set"
    and inv :: "'t \<Rightarrow> bool"
    and room :: "'t \<Rightarrow> nat"
  assumes alloc_new: "inv t \<Longrightarrow> 0 < room t \<Longrightarrow> alloc v t = (k, t') \<Longrightarrow> k \<notin> used t"
    and alloc_used: "inv t \<Longrightarrow> 0 < room t \<Longrightarrow> alloc v t = (k, t') \<Longrightarrow> used t' = insert k (used t)"
    and alloc_lookup: "inv t \<Longrightarrow> 0 < room t \<Longrightarrow> alloc v t = (k, t') \<Longrightarrow> lookup t' = (lookup t)(k \<mapsto> v)"
    and alloc_inv: "inv t \<Longrightarrow> 0 < room t \<Longrightarrow> alloc v t = (k, t') \<Longrightarrow> inv t' \<and> room t' = room t - 1"
    and free_used: "inv t \<Longrightarrow> used (free k t) = used t"
    and free_lookup: "inv t \<Longrightarrow> lookup (free k t) = (lookup t)(k := None)"
    and free_inv: "inv t \<Longrightarrow> inv (free k t) \<and> room (free k t) = room t"
begin

fun run :: "'v handle_request list \<Rightarrow> 't \<Rightarrow> u32 list \<times> 't" where
  "run [] t = ([], t)"
| "run (OpenD v # rs) t = (let (k, t) = alloc v t; (ks, t) = run rs t in (k # ks, t))"
| "run (CloseD k # rs) t = run rs (free k t)"

lemma run_distinct:
  assumes "inv t" and "length rs \<le> room t" and "run rs t = (ks, t')"
  shows "distinct ks \<and> set ks \<inter> used t = {} \<and> used t' = used t \<union> set ks \<and> inv t'"
  using assms
proof (induction rs t arbitrary: ks t' rule: run.induct)
  case (2 v rs t)
  obtain k t1 where 1: "alloc v t = (k, t1)" by fastforce
  obtain ks1 where ks: "run rs t1 = (ks1, t')" "ks = k # ks1" using "2.prems"(3) 1 by (auto simp: Let_def split: prod.splits)
  have "0 < room t" using "2.prems"(2) by simp
  note law = alloc_new [OF "2.prems"(1) this 1] alloc_used [OF "2.prems"(1) this 1] alloc_inv [OF "2.prems"(1) this 1]
  have "distinct ks1 \<and> set ks1 \<inter> used t1 = {} \<and> used t' = used t1 \<union> set ks1 \<and> inv t'"
    using law "2.prems"(2) ks(1) by (intro "2.IH" [OF 1 [symmetric] refl]) auto
  then show ?case using law ks by auto
next
  case (3 k rs t)
  from free_inv [OF "3.prems"(1)] free_used [OF "3.prems"(1)] "3.prems" "3.IH" show ?case by simp
qed simp

text \<open>A number keeps its value as long as it is not released.\<close>

lemma run_keeps:
  assumes "inv t" and "length rs \<le> room t" and "run rs t = (ks, t')" and "lookup t k = Some v" and "k \<in> used t"
    and "CloseD k \<notin> set rs"
  shows "lookup t' k = Some v"
  using assms
proof (induction rs t arbitrary: ks t' rule: run.induct)
  case (2 w rs t)
  obtain j t1 where 1: "alloc w t = (j, t1)" by fastforce
  obtain ks1 where ks: "run rs t1 = (ks1, t')" using "2.prems"(3) 1 by (auto simp: Let_def split: prod.splits)
  have "0 < room t" using "2.prems"(2) by simp
  note law = alloc_new [OF "2.prems"(1) this 1] alloc_used [OF "2.prems"(1) this 1] alloc_inv [OF "2.prems"(1) this 1]
    alloc_lookup [OF "2.prems"(1) this 1]
  have "j \<noteq> k" using law(1) "2.prems"(5) by auto
  show ?case
  proof (rule "2.IH" [OF 1 [symmetric] refl])
    show "inv t1" "length rs \<le> room t1" using law(3) "2.prems"(2) by auto
    show "run rs t1 = (ks1, t')" by (rule ks)
    show "lookup t1 k = Some v" using \<open>j \<noteq> k\<close> law(4) "2.prems"(4) by simp
    show "k \<in> used t1" using law(2) "2.prems"(5) by simp
    show "CloseD k \<notin> set rs" using "2.prems"(6) by simp
  qed
next
  case (3 j rs t)
  then show ?case using free_inv [of t j] free_used [of t j] free_lookup [of t j] by simp
qed simp

end

definition fds_used :: "descriptor_table \<Rightarrow> u32 set" where
  "fds_used t = {3..<nextFd t}"

definition dt_ok :: "descriptor_table \<Rightarrow> bool" where
  "dt_ok t = (3 \<le> nextFd t \<and> distinct (map fst (table t)) \<and> fst ` set (table t) \<subseteq> fds_used t)"

text \<open>How many descriptors can still be opened before the counter wraps.\<close>

definition dt_room :: "descriptor_table \<Rightarrow> nat" where
  "dt_room t = 2 ^ 32 - 1 - unat (nextFd t)"

lemma nextFd_inc:
  assumes "0 < dt_room t"
  shows "unat (nextFd t + 1) = Suc (unat (nextFd t))"
proof -
  have "unat (nextFd t) + 1 < 2 ^ 32" using assms by (simp add: dt_room_def)
  then show ?thesis by (subst unat_add_lem [THEN iffD1]) simp_all
qed

interpretation fds: handle_table dt_allocate dt_erase "\<lambda>t k. dt_get k t" fds_used dt_ok dt_room
proof
  fix t t' :: descriptor_table and v k
  assume ok: "dt_ok t" and room: "0 < dt_room t" and al: "dt_allocate v t = (k, t')"
  have k: "k = nextFd t" and t': "t' = t\<lparr>table := AList.update (nextFd t) v (table t), nextFd := nextFd t + 1\<rparr>"
    using al unfolding dt_allocate_def by (metis prod.inject)+
  note inc = nextFd_inc [OF room]
  show "k \<notin> fds_used t" by (simp add: k fds_used_def)
  have "3 \<le> nextFd t" using ok by (simp add: dt_ok_def)
  then show used: "fds_used t' = insert k (fds_used t)"
    by (auto simp: fds_used_def k t' word_less_nat_alt word_le_nat_alt inc less_Suc_eq word_unat_eq_iff [symmetric])
  show "(\<lambda>k. dt_get k t') = (\<lambda>k. dt_get k t)(k \<mapsto> v)"
    by (simp add: dt_get_def k t' update_conv' fun_eq_iff)
  have "fst ` set (table t') \<subseteq> insert k (fst ` set (table t))"
    by (simp add: t' k dom_update)
  then show "dt_ok t' \<and> dt_room t' = dt_room t - 1"
    using ok used inc by (auto simp: dt_ok_def t' distinct_update dt_room_def word_le_nat_alt)
next
  fix t :: descriptor_table and k
  assume "dt_ok t"
  moreover have "set (map fst (AList.delete k (table t))) \<subseteq> set (map fst (table t))"
    by (auto simp only: delete_keys set_removeAll)
  ultimately show "dt_ok (dt_erase k t) \<and> dt_room (dt_erase k t) = dt_room t"
    by (auto simp: dt_ok_def dt_erase_def dt_room_def fds_used_def delete_keys distinct_removeAll simp flip: set_map)
qed (simp_all add: fds_used_def dt_erase_def dt_get_def delete_conv' fun_eq_iff)

end
