(* ===== verification/Print_Format.thy ===== *)
theory Print_Format
  imports Number_Text Cstring
begin

text \<open>
  Formatted output (\<open>libs/stdio.cpp\<close>: \<open>vsprintf\<close>, \<open>vsnprintf\<close>). A format is a list of bytes with its
  terminator, and reading past it is \<open>None\<close>. The variable arguments are the 32-bit words the caller
  pushed, a string among them being its text: a 64-bit argument is two words, low one first, so a
  conversion that reads the wrong width takes part of the next argument, as it does on this machine.
  The conversion \<open>%f\<close> (a \<open>double\<close>) is not modelled and is \<open>None\<close>.
\<close>

section \<open>Definitions\<close>

datatype vararg = Word u32 | Text bytes

definition arg_word :: "vararg list \<Rightarrow> (u32 \<times> vararg list) option" where
  "arg_word args = (case args of Word w # as \<Rightarrow> Some (w, as) | _ \<Rightarrow> None)"

definition arg_text :: "vararg list \<Rightarrow> (bytes \<times> vararg list) option" where
  "arg_text args = (case args of Text t # as \<Rightarrow> Some (t, as) | _ \<Rightarrow> None)"

definition arg_wide :: "vararg list \<Rightarrow> (u64 \<times> vararg list) option" where
  "arg_wide args = do { (l, args) \<leftarrow> arg_word args; (h, args) \<leftarrow> arg_word args;
     Some (push_bit 32 (ucast h) OR ucast l, args) }"

text \<open>What a caller pushes for a 64-bit argument.\<close>

definition wide :: "u64 \<Rightarrow> vararg list" where
  "wide v = [Word (ucast v), Word (ucast (drop_bit 32 v))]"

definition is_digit :: "byte \<Rightarrow> bool" where
  "is_digit c = (48 \<le> c \<and> c \<le> 57)"

text \<open>The text of a number as \<open>strcpy\<close> takes it, and padding with \<open>0\<close> to a width.\<close>

definition number_text :: "bytes option \<Rightarrow> bytes option" where
  "number_text num_str = map_option (takeWhile (\<lambda>c. c \<noteq> 0)) num_str"

definition padded :: "u32 \<Rightarrow> bytes \<Rightarrow> bytes" where
  "padded width t = (if of_nat (length t) < width then replicate (unat (width - of_nat (length t))) 48 @ t else t)"

text \<open>A signed 64-bit value: a sign, then the digits of its magnitude.\<close>

definition long_text :: "u64 \<Rightarrow> bytes option" where
  "long_text v =
     (if sint v < 0 then map_option (\<lambda>t. 45 # t) (number_text (uitoa64 (- v) 10 False))
      else number_text (uitoa64 v 10 False))"

text \<open>A conversion: the format from its letter on, to the text, the format after it and the arguments.\<close>

definition convert_long :: "bytes \<Rightarrow> vararg list \<Rightarrow> (bytes \<times> bytes \<times> vararg list) option" where
  "convert_long fmt args =
     (case fmt of
        [] \<Rightarrow> None
      | c # r \<Rightarrow>
          if c = 100 then do { (v, args) \<leftarrow> arg_wide args; t \<leftarrow> long_text v; Some (t, r, args) }
          else if c = 117 then do { (v, args) \<leftarrow> arg_word args; t \<leftarrow> number_text (uitoa64 (ucast v) 10 False); Some (t, r, args) }
          else if c = 108 then
            (case r of
               [] \<Rightarrow> None
             | c' # r' \<Rightarrow>
                 if c' = 100 then do { (v, args) \<leftarrow> arg_wide args; t \<leftarrow> long_text v; Some (t, r', args) }
                 else if c' = 117 then do { (v, args) \<leftarrow> arg_wide args; t \<leftarrow> number_text (uitoa64 v 10 False); Some (t, r', args) }
                 else if c' = 120 then do { (v, args) \<leftarrow> arg_wide args; t \<leftarrow> number_text (uitoa64 v 16 False); Some (t, r', args) }
                 else if c' = 88 then do { (v, args) \<leftarrow> arg_wide args; t \<leftarrow> number_text (uitoa64 v 16 True); Some (t, r', args) }
                 else Some ([37, 108, 108], r, args))
          else Some ([37, 108], fmt, args))"

definition convert :: "u32 \<Rightarrow> bytes \<Rightarrow> vararg list \<Rightarrow> (bytes \<times> bytes \<times> vararg list) option" where
  "convert width fmt args =
     (case fmt of
        [] \<Rightarrow> None
      | c # r \<Rightarrow>
          if c = 115 then do { (s, args) \<leftarrow> arg_text args; Some (s, r, args) }
          else if c = 99 then do { (d, args) \<leftarrow> arg_word args; Some ([ucast d], r, args) }
          else if c = 112 then
            do { (d, args) \<leftarrow> arg_word args; t \<leftarrow> number_text (itoa_u32 d 16 False); Some ([48, 120] @ t, r, args) }
          else if c = 100 \<or> c = 105 then
            do { (d, args) \<leftarrow> arg_word args; t \<leftarrow> number_text (itoa d 10 False); Some (padded width t, r, args) }
          else if c = 117 then
            do { (d, args) \<leftarrow> arg_word args; t \<leftarrow> number_text (itoa_u32 d 10 False); Some (padded width t, r, args) }
          else if c = 98 then do { (d, args) \<leftarrow> arg_word args; t \<leftarrow> number_text (itoa_u32 d 2 False); Some (t, r, args) }
          else if c = 120 then do { (d, args) \<leftarrow> arg_word args; t \<leftarrow> number_text (itoa_u32 d 16 False); Some (t, r, args) }
          else if c = 88 then do { (d, args) \<leftarrow> arg_word args; t \<leftarrow> number_text (itoa_u32 d 16 True); Some (t, r, args) }
          else if c = 122 then
            (case r of
               [] \<Rightarrow> None
             | c' # r' \<Rightarrow>
                 if c' = 117 then do { (d, args) \<leftarrow> arg_word args; t \<leftarrow> number_text (uitoa64 (ucast d) 10 False); Some (t, r', args) }
                 else Some ([37, 122], r, args))
          else if c = 108 then convert_long r args
          else if c = 102 then None
          else Some ([37, c], r, args))"

text \<open>Width and precision: the format after them, and the width.\<close>

definition spec :: "bytes \<Rightarrow> (u32 \<times> bytes) option" where
  "spec fmt =
     do { c \<leftarrow> rd_at fmt 0;
          width \<leftarrow> (if is_digit c then atoi fmt else Some 0);
          let fmt = dropWhile is_digit fmt in do {
            c \<leftarrow> rd_at fmt 0;
            Some (width, if c = 46 then dropWhile is_digit (tl fmt) else fmt) } }"

lemma spec_length: "spec fmt = Some (width, fmt') \<Longrightarrow> length fmt' \<le> length fmt"
  using length_dropWhile_le [of is_digit fmt] length_dropWhile_le [of is_digit "tl (dropWhile is_digit fmt)"]
  by (auto simp: spec_def bind_eq_Some_conv Let_def split: if_splits)

lemma convert_long_length: "convert_long fmt args = Some (t, fmt', args') \<Longrightarrow> length fmt' \<le> length fmt"
  by (auto simp: convert_long_def bind_eq_Some_conv split: if_splits list.splits)

lemma convert_length: "convert width fmt args = Some (t, fmt', args') \<Longrightarrow> length fmt' < length fmt"
  using convert_long_length [of "tl fmt" args t fmt' args']
  by (auto simp: convert_def bind_eq_Some_conv split: if_splits list.splits)

function vsprintf_from :: "bytes \<Rightarrow> vararg list \<Rightarrow> bytes option" where
  "vsprintf_from [] args = None"
| "vsprintf_from (c # fmt) args =
     (if c = 0 then Some []
      else if c \<noteq> 37 then map_option (\<lambda>t. c # t) (vsprintf_from fmt args)
      else case fmt of
        [] \<Rightarrow> None
      | c' # fmt' \<Rightarrow>
          if c' = 37 then map_option (\<lambda>t. 37 # t) (vsprintf_from fmt' args)
          else do {
            (width, fmt') \<leftarrow> spec fmt;
            (t, fmt'', args') \<leftarrow> convert width fmt' args;
            map_option (\<lambda>u. t @ u) (vsprintf_from fmt'' args') })"
  by pat_completeness auto
termination
  by (relation "measure (\<lambda>(fmt, args). length fmt)") (auto dest!: spec_length convert_length)

text \<open>The text of a call; the code writes it and a terminator at the start of \<open>str\<close>.\<close>

definition vsprintf :: "bytes \<Rightarrow> bytes \<Rightarrow> vararg list \<Rightarrow> (u32 \<times> bytes) option" where
  "vsprintf str fmt args =
     do { t \<leftarrow> vsprintf_from fmt args; str \<leftarrow> blit str 0 (t @ [0]); Some (of_nat (length t), str) }"

text \<open>\<open>vsnprintf\<close>: the local buffer has 1024 bytes. \<open>str\<close> is the memory from the destination on.\<close>

definition vsnprintf :: "bytes \<Rightarrow> nat \<Rightarrow> bytes \<Rightarrow> vararg list \<Rightarrow> (u32 \<times> bytes) option" where
  "vsnprintf str n fmt args =
     do { (written, buffer) \<leftarrow> vsprintf (replicate 1024 0) fmt args;
          let written = (if n < unat written then of_nat n else written) in do {
            copied \<leftarrow> slice buffer 0 (unat written);
            str \<leftarrow> blit str 0 copied;
            str \<leftarrow> wr_at str (unat written) 0;
            Some (written, str) } }"

definition sprintf :: "bytes \<Rightarrow> bytes \<Rightarrow> vararg list \<Rightarrow> (u32 \<times> bytes) option" where
  "sprintf str fmt args = vsprintf str fmt args"

definition snprintf :: "bytes \<Rightarrow> nat \<Rightarrow> bytes \<Rightarrow> vararg list \<Rightarrow> (u32 \<times> bytes) option" where
  "snprintf str n fmt args = vsnprintf str n fmt args"

section \<open>Laws\<close>

lemma wide_read: "arg_wide (wide v @ args) = Some (v, args)"
proof -
  have "push_bit 32 (ucast (ucast (drop_bit 32 v) :: u32)) OR ucast (ucast v :: u32) = v"
    by (rule bit_word_eqI) (auto simp: bit_simps)
  then show ?thesis by (simp add: arg_wide_def wide_def arg_word_def)
qed

text \<open>The full text of a call is its text and a terminator, when the local buffer can hold it.\<close>

lemma vsnprintf_result:
  assumes "vsprintf_from fmt args = Some t" and "length t < 1024" and "min n (length t) < length str"
  shows "vsnprintf str n fmt args =
    Some (of_nat (min n (length t)), take n t @ [0] @ drop (Suc (min n (length t))) str)"
proof -
  have len: "unat (of_nat (length t) :: u32) = length t" "unat (of_nat (min n (length t)) :: u32) = min n (length t)"
    using assms(2) by (simp_all add: unat_of_nat)
  let ?m = "min n (length t)"
  have w: "(if n < unat (of_nat (length t) :: u32) then of_nat n else of_nat (length t) :: u32) = of_nat ?m"
    using len by (auto simp: min_def)
  have buf: "blit (replicate 1024 0) 0 (t @ [0]) = Some (t @ [0] @ replicate (1023 - length t) 0)"
    using assms(2) by (simp add: blit_def)
  have "slice (t @ [0] @ replicate (1023 - length t) 0) 0 ?m = Some (take n t)"
    using assms(2) by (auto simp: slice_def min_def)
  moreover have "blit str 0 (take n t) = Some (take n t @ drop ?m str)"
    using assms(3) by (simp add: blit_def min.commute)
  moreover have "wr_at (take n t @ drop ?m str) ?m 0 = Some (take n t @ [0] @ drop (Suc ?m) str)"
    using assms(3) by (simp add: wr_at_def list_update_append min.commute Cons_nth_drop_Suc [symmetric])
  ultimately show ?thesis
    using assms(1) w len by (simp add: vsnprintf_def vsprintf_def buf Let_def)
qed

lemma vsnprintf_overflow:
  assumes "vsprintf_from fmt args = Some t" and "length t < 1024" and "length str \<le> length t"
  shows "vsnprintf str (length str) fmt args = None"
proof -
  have len: "unat (of_nat (length t) :: u32) = length t" "unat (of_nat (length str) :: u32) = length str"
    using assms(2,3) by (simp_all add: unat_of_nat)
  have w: "(if length str < unat (of_nat (length t) :: u32) then of_nat (length str) else of_nat (length t) :: u32) = of_nat (length str)"
    using len(1) assms(3) by (cases "length t = length str") auto
  have buf: "blit (replicate 1024 0) 0 (t @ [0]) = Some (t @ [0] @ replicate (1023 - length t) 0)"
    using assms(2) by (simp add: blit_def)
  have "slice (t @ [0] @ replicate (1023 - length t) 0) 0 (length str) = Some (take (length str) t)"
    using assms(2,3) by (simp add: slice_def)
  moreover have "blit str 0 (take (length str) t) = Some (take (length str) t)"
    using assms(3) by (simp add: blit_def)
  ultimately show ?thesis
    using assms(1) w len by (simp add: vsnprintf_def vsprintf_def buf Let_def wr_at_def)
qed

end
