(* ===== verification/Process.thy ===== *)
theory Process
  imports Paging Windows Descriptors Vfs Print_Format
begin

text \<open>
  A process (\<open>core/tasks/Process.cpp\<close>): its page directory and stacks, the images of its arguments in
  memory, its environment and the texts of its entries under \<open>/proc\<close>. The state of the kernel the
  processes share is the record \<open>tasks\<close>; \<open>k_mem\<close> is memory as the kernel sees it, through the
  identity mapping of its own directory, and its accesses are not checked against that directory.
  \<open>k\<close> is the fuel of the page allocator. C strings are the list of their characters without the
  terminator. The selectors of the descriptor table and the address of \<open>dispatcher\<close> are data of the
  state. \<open>serializeStat\<close> and \<open>status\<close>, which only format numbers, are not modelled.
\<close>

section \<open>Memory\<close>

type_synonym memory = "u32 \<Rightarrow> byte"

definition store_bytes :: "u32 \<Rightarrow> bytes \<Rightarrow> memory \<Rightarrow> memory" where
  "store_bytes a bs m = (\<lambda>x. if unat (x - a) < length bs then bs ! unat (x - a) else m x)"

definition load_bytes :: "u32 \<Rightarrow> nat \<Rightarrow> memory \<Rightarrow> bytes" where
  "load_bytes a n m = map (\<lambda>i. m (a + of_nat i)) [0..<n]"

definition store32 :: "u32 \<Rightarrow> u32 \<Rightarrow> memory \<Rightarrow> memory" where
  "store32 a v = store_bytes a (bytes32 v)"

definition load32 :: "u32 \<Rightarrow> memory \<Rightarrow> u32" where
  "load32 a m = le32 (m a) (m (a + 1)) (m (a + 2)) (m (a + 3))"

definition ascii :: "string \<Rightarrow> bytes" where
  "ascii s = map of_char s"

section \<open>Data\<close>

datatype pstate = New | Ready | Running | Terminated | Waiting | Killed

datatype pmode = Kernel | User

datatype priority = VeryLow | Low | Medium | High | VeryHigh

fun priority_value :: "priority \<Rightarrow> u32" where
  "priority_value VeryLow = 1"
| "priority_value Low = 2"
| "priority_value Medium = 5"
| "priority_value High = 7"
| "priority_value VeryHigh = 10"

record cpu_regs =
  r_cr3 :: u32
  r_gs :: u32
  r_fs :: u32
  r_es :: u32
  r_ds :: u32
  r_edi :: u32
  r_esi :: u32
  r_ebp :: u32
  r_esp :: u32
  r_ebx :: u32
  r_edx :: u32
  r_ecx :: u32
  r_eax :: u32
  r_intNo :: u32
  r_errorCode :: u32
  r_eip :: u32
  r_cs :: u32
  r_eflags :: u32
  r_userEsp :: u32
  r_ss :: u32

definition zero_regs :: cpu_regs where
  "zero_regs = \<lparr>r_cr3 = 0, r_gs = 0, r_fs = 0, r_es = 0, r_ds = 0, r_edi = 0, r_esi = 0, r_ebp = 0, r_esp = 0, r_ebx = 0,
     r_edx = 0, r_ecx = 0, r_eax = 0, r_intNo = 0, r_errorCode = 0, r_eip = 0, r_cs = 0, r_eflags = 0, r_userEsp = 0, r_ss = 0\<rparr>"

text \<open>The packed structure: 20 words, the interrupt number at offset 52, the user stack pointer at 72.\<close>

definition regs_words :: "cpu_regs \<Rightarrow> u32 list" where
  "regs_words r = [r_cr3 r, r_gs r, r_fs r, r_es r, r_ds r, r_edi r, r_esi r, r_ebp r, r_esp r, r_ebx r, r_edx r, r_ecx r,
     r_eax r, r_intNo r, r_errorCode r, r_eip r, r_cs r, r_eflags r, r_userEsp r, r_ss r]"

record process =
  pr_pid :: u32
  pr_age :: u32
  pr_state :: pstate
  pr_mode :: pmode
  pr_priority :: priority
  pr_regs :: cpu_regs
  pr_exitCode :: u32
  pr_pages :: "u32 list"
  pr_stdout :: bytes
  pr_stderr :: bytes
  pr_command :: bytes
  pr_args :: "bytes list"
  pr_env :: "(bytes \<times> bytes) list"
  pr_auxv :: "(u32 \<times> u32) list"
  pr_dir :: u32
  pr_userStack :: u32
  pr_kernelStack :: u32
  pr_windows :: "u32 list"
  pr_fds :: descriptor_table
  pr_entryEip :: u32
  pr_lastEip :: u32
  pr_argvBlock :: u32
  pr_upTime :: u64
  pr_cpuTime :: u64
  pr_startTime :: u64
  pr_initial_brk :: u32
  pr_current_brk :: u32
  pr_max_brk :: u32

record tasks =
  k_paging :: paging
  k_dir :: u32
  k_lastPage :: u32
  k_mem :: memory
  k_vfs :: vfs
  k_wm :: wm
  k_ticks :: u64
  k_dispatcher :: u32
  k_selectors :: "pmode \<Rightarrow> u32 \<times> u32"
  k_kernelStack :: u32
  processes :: "process list"
  currentIndex :: u32
  atomicLevel :: u32
  pid_count :: u32
  k_overrun :: bool

section \<open>Pages\<close>

definition registerPages :: "u32 \<Rightarrow> u32 \<Rightarrow> process \<Rightarrow> process" where
  "registerPages address count p = p\<lparr>pr_pages := pr_pages p @ map (\<lambda>i. address + push_bit 12 (of_nat i)) [0..<unat count]\<rparr>"

definition deregisterPage :: "u32 \<Rightarrow> process \<times> tasks \<Rightarrow> (process \<times> tasks) option" where
  "deregisterPage address ps =
     (let (p, s) = ps in
      if address \<in> set (pr_pages p) then
        do { pg \<leftarrow> freePage (k_dir s) address (k_paging s);
             Some (p\<lparr>pr_pages := remove1 address (pr_pages p)\<rparr>, s\<lparr>k_paging := pg\<rparr>) }
      else Some (p, s))"

definition deregisterPages :: "u32 \<Rightarrow> u32 \<Rightarrow> process \<times> tasks \<Rightarrow> (process \<times> tasks) option" where
  "deregisterPages address count =
     fold_opt (\<lambda>i. deregisterPage (address + push_bit 12 (of_nat i))) [0..<unat count]"

text \<open>The result of the allocator is used without a check: 0 means that it had no room.\<close>

definition allocatePagesAt_with :: "nat \<Rightarrow> (u32 \<Rightarrow> u32) \<Rightarrow> u32 \<Rightarrow> process \<times> tasks \<Rightarrow> (u32 \<times> process \<times> tasks) option" where
  "allocatePagesAt_with k virtual count ps =
     (let (p, s) = ps in
      do { (address, pg) \<leftarrow> allocatePages k (k_dir s) count (k_paging s);
           let p = registerPages address count p in do {
             pg \<leftarrow> mapPages k (pr_dir p) address (virtual address) count (Present OR ReadWrite OR UserSupervisor) pg;
             Some (address, p, s\<lparr>k_paging := pg\<rparr>) } })"

definition proc_allocatePages :: "nat \<Rightarrow> u32 \<Rightarrow> process \<times> tasks \<Rightarrow> (u32 \<times> process \<times> tasks) option" where
  "proc_allocatePages k count = allocatePagesAt_with k (\<lambda>address. address) count"

definition allocatePagesAt :: "nat \<Rightarrow> u32 \<Rightarrow> u32 \<Rightarrow> process \<times> tasks \<Rightarrow> (u32 \<times> process \<times> tasks) option" where
  "allocatePagesAt k virtual count = allocatePagesAt_with k (\<lambda>_. virtual) count"

section \<open>Construction\<close>

definition initializePagingDirectory :: "nat \<Rightarrow> bool \<Rightarrow> process \<times> tasks \<Rightarrow> (process \<times> tasks) option" where
  "initializePagingDirectory k isInternal ps =
     (let (p, s) = ps in
      do {
        (p, pg) \<leftarrow>
          (if pr_mode p = Kernel then Some (p\<lparr>pr_dir := k_dir s\<rparr>, k_paging s)
           else do {
             (dir, pg) \<leftarrow> allocatePages k (k_dir s) 3 (k_paging s);
             pg \<leftarrow> newPagingDirectory dir pg;
             let p = registerPages dir 3 (p\<lparr>pr_dir := dir\<rparr>) in do {
               pg \<leftarrow> mapPages k dir dir dir 3 (Present OR ReadWrite OR UserSupervisor) pg;
               Some (p, pg) } });
        (stack, pg) \<leftarrow> allocatePages k (k_dir s) 10 pg;
        let p = registerPages stack 10 (p\<lparr>pr_kernelStack := stack\<rparr>) in do {
          pg \<leftarrow> mapPages k (pr_dir p) stack stack 10 (Present OR ReadWrite) pg;
          if pr_mode p = User then do {
            (ustack, p, s) \<leftarrow> proc_allocatePages k 128 (p, s\<lparr>k_paging := pg\<rparr>);
            pg \<leftarrow> mapPages k (pr_dir p) 0 0 (k_lastPage s)
                   (if isInternal then Present OR ReadWrite OR UserSupervisor else Present OR ReadWrite) (k_paging s);
            Some (p\<lparr>pr_userStack := ustack\<rparr>, s\<lparr>k_paging := pg\<rparr>) }
          else Some (p, s\<lparr>k_paging := pg\<rparr>) } })"

text \<open>EFLAGS: the reserved bit 1 and the interrupt flag. The user stack starts 512 bytes below its top.\<close>

definition initializeCPUState :: "process \<times> tasks \<Rightarrow> process \<times> tasks" where
  "initializeCPUState ps =
     (let (p, s) = ps;
          (data, code) = k_selectors s (pr_mode p);
          r = (pr_regs p)\<lparr>r_gs := data, r_fs := data, r_es := data, r_ds := data, r_ss := data, r_cs := code,
                r_esp := pr_kernelStack p + 4096 * 10, r_eip := k_dispatcher s, r_eflags := 0x202\<rparr>;
          top' = pr_userStack p + 4096 * 128 - 512;
          (r, m) = (if pr_mode p = User then (r\<lparr>r_userEsp := top'\<rparr>, store_bytes top' (replicate 512 0) (k_mem s)) else (r, k_mem s))
      in (p\<lparr>pr_regs := r\<lparr>r_cr3 := pr_dir p + 4096\<rparr>\<rparr>, s\<lparr>k_mem := m\<rparr>))"

text \<open>Strings and the array of pointers to them: from a slot and a place for text on.\<close>

fun copy_strings :: "u32 \<Rightarrow> u32 \<Rightarrow> bytes list \<Rightarrow> memory \<Rightarrow> u32 \<times> memory" where
  "copy_strings slot str [] m = (str, m)"
| "copy_strings slot str (t # ts) m =
     copy_strings (slot + 4) (str + of_nat (length t + 1)) ts (store_bytes str (t @ [0]) (store32 slot str m))"

definition strings_size :: "bytes list \<Rightarrow> nat" where
  "strings_size ts = sum_list (map (\<lambda>t. length t + 1) ts)"

definition pages_for :: "u32 \<Rightarrow> u32" where
  "pages_for n = drop_bit 12 (n + 4096 - 1)"

definition initializeArguments :: "nat \<Rightarrow> u32 \<Rightarrow> bytes list \<Rightarrow> process \<times> tasks \<Rightarrow> (process \<times> tasks) option" where
  "initializeArguments k entry argv ps =
     (let argc = of_nat (length argv); total' = (argc + 1) * 4 + of_nat (strings_size argv) in
      do { (block, p, s) \<leftarrow> proc_allocatePages k (pages_for total') ps;
           let p = p\<lparr>pr_argvBlock := block\<rparr>;
               (str, m) = copy_strings block (block + (argc + 1) * 4) argv (k_mem s);
               m = store32 (block + argc * 4) 0 m;
               r = pr_regs p
           in Some (
             if pr_mode p = Kernel then
               let esp = r_esp r - 12;
                   m = store_bytes esp (bytes32 entry @ bytes32 argc @ bytes32 block) m
               in (p\<lparr>pr_regs := r\<lparr>r_esp := esp, r_ss := esp\<rparr>\<rparr>, s\<lparr>k_mem := m\<rparr>)
             else
               let esp = r_userEsp r - 12;
                   m = store_bytes esp (bytes32 entry @ bytes32 argc @ bytes32 block) m;
                   m = store32 (esp - 4) esp m
               in (p\<lparr>pr_regs := r\<lparr>r_userEsp := esp - 4 - 4\<rparr>\<rparr>, s\<lparr>k_mem := m\<rparr>)) })"

text \<open>The map keeps its keys sorted; a later setting of a key replaces the earlier one.\<close>

definition split_entry :: "bytes \<Rightarrow> (bytes \<times> bytes) option" where
  "split_entry e = (if 61 \<in> set e then Some (takeWhile (\<lambda>c. c \<noteq> 61) e, tl (dropWhile (\<lambda>c. c \<noteq> 61) e)) else None)"

definition default_env :: "(bytes \<times> bytes) list" where
  "default_env =
     [(ascii ''PATH'', ascii ''/bin''), (ascii ''HOME'', ascii ''/''), (ascii ''USER'', ascii ''root''),
      (ascii ''SHELL'', ascii ''/bin/terminal.elf'')]"

definition env_add :: "bytes \<times> bytes \<Rightarrow> (bytes \<times> bytes) list \<Rightarrow> (bytes \<times> bytes) list" where
  "env_add kv env = dentry_put (fst kv) (snd kv) env"

definition captureEnvironment :: "bytes list option \<Rightarrow> process \<Rightarrow> process" where
  "captureEnvironment envp p =
     p\<lparr>pr_env := fold env_add (case envp of None \<Rightarrow> default_env | Some es \<Rightarrow> List.map_filter split_entry es) []\<rparr>"

definition captureCommandlineArguments :: "bytes list \<Rightarrow> process \<Rightarrow> process" where
  "captureCommandlineArguments argv p =
     (case argv of [] \<Rightarrow> p | a # as \<Rightarrow> p\<lparr>pr_command := a, pr_args := argv\<rparr>)"

subsection \<open>Entries under \<open>/proc\<close>\<close>

definition proc_directory :: "u32 \<Rightarrow> bytes option" where
  "proc_directory i = do { (n, t) \<leftarrow> snprintf (replicate 50 0) 50 (ascii ''/proc/%d'' @ [0]) [Word i]; Some (takeWhile (\<lambda>c. c \<noteq> 0) t) }"

definition proc_node :: "bytes \<Rightarrow> bytes \<Rightarrow> vfs \<Rightarrow> vfs option" where
  "proc_node directory name v =
     (let (node, v) = newFunctionInode v in do { (ok, v) \<leftarrow> setInodeByPath (directory @ name) node v; Some v })"

definition initializeProcessInVFS :: "process \<Rightarrow> vfs \<Rightarrow> vfs option" where
  "initializeProcessInVFS p v =
     do { directory \<leftarrow> proc_directory (pr_pid p);
          (d, v) \<leftarrow> vfs_createDirectory directory 0x100 0 0 v;
          fold_opt (\<lambda>name. proc_node directory name)
            [ascii ''/status'', ascii ''/stdout'', ascii ''/stderr'', ascii ''/cmdline'', ascii ''/environ'', ascii ''/stat''] v }"

fun serialize_from :: "nat \<Rightarrow> bytes list \<Rightarrow> bytes \<Rightarrow> bytes" where
  "serialize_from n [] written = written"
| "serialize_from n (t # ts) written =
     (if n < length written + length t + 1 then written else serialize_from n ts (written @ t @ [0]))"

definition serializeCmdline :: "nat \<Rightarrow> process \<Rightarrow> bytes" where
  "serializeCmdline n p = (if n = 0 then [] else serialize_from n (pr_args p) [])"

definition env_entry :: "bytes \<times> bytes \<Rightarrow> bytes" where
  "env_entry kv = fst kv @ [61] @ snd kv"

definition serialize_environ :: "process \<Rightarrow> bytes" where
  "serialize_environ p = serialize_from 2048 (map env_entry (pr_env p)) []"

text \<open>How each of these files answers a read of \<open>n\<close> bytes at an offset.\<close>

definition proc_read :: "bytes \<Rightarrow> nat \<Rightarrow> nat \<Rightarrow> bytes" where
  "proc_read content n offset = (if length content \<le> offset then [] else take (min (length content - offset) n) (drop offset content))"

definition read_stdout :: "process \<Rightarrow> nat \<Rightarrow> nat \<Rightarrow> bytes" where
  "read_stdout p = proc_read (pr_stdout p)"

definition read_stderr :: "process \<Rightarrow> nat \<Rightarrow> nat \<Rightarrow> bytes" where
  "read_stderr p = proc_read (pr_stderr p)"

definition read_cmdline :: "process \<Rightarrow> nat \<Rightarrow> nat \<Rightarrow> bytes" where
  "read_cmdline p = proc_read (serializeCmdline 512 p)"

definition read_environ :: "process \<Rightarrow> nat \<Rightarrow> nat \<Rightarrow> bytes" where
  "read_environ p = proc_read (serialize_environ p)"

definition stateToChar :: "process \<Rightarrow> byte" where
  "stateToChar p =
     (case pr_state p of Running \<Rightarrow> 82 | Ready \<Rightarrow> 83 | Terminated \<Rightarrow> 90 | Killed \<Rightarrow> 88 | Waiting \<Rightarrow> 68 | New \<Rightarrow> 63)"

subsection \<open>The constructor\<close>

definition newProcessObject ::
    "nat \<Rightarrow> u32 \<Rightarrow> u32 \<Rightarrow> pmode \<Rightarrow> priority \<Rightarrow> bytes list \<Rightarrow> bytes list option \<Rightarrow> bool \<Rightarrow> tasks \<Rightarrow> (process \<times> tasks) option" where
  "newProcessObject k entry i md prio argv envp isInternal s =
     (if k_lastPage s < drop_bit 12 entry then None
      else
        let p = \<lparr>pr_pid = i, pr_age = 2, pr_state = Ready, pr_mode = md, pr_priority = prio, pr_regs = zero_regs,
                  pr_exitCode = - 1, pr_pages = [], pr_stdout = [], pr_stderr = [], pr_command = [], pr_args = [],
                  pr_env = [], pr_auxv = [], pr_dir = 0, pr_userStack = 0, pr_kernelStack = 0, pr_windows = [],
                  pr_fds = newDescriptorTable, pr_entryEip = 0, pr_lastEip = 0, pr_argvBlock = 0, pr_upTime = 0,
                  pr_cpuTime = 0, pr_startTime = 0, pr_initial_brk = 0, pr_current_brk = 0, pr_max_brk = 0\<rparr>
        in do {
          ps \<leftarrow> initializePagingDirectory k isInternal (p, s);
          let (p, s) = initializeCPUState ps;
              p = captureEnvironment envp p
          in do {
            (p, s) \<leftarrow> (if isInternal then initializeArguments k entry argv (p, s) else Some (p, s));
            let r = pr_regs p; r = r\<lparr>r_esp := r_esp r - 80\<rparr>;
                s = s\<lparr>k_mem := store_bytes (r_esp r) (concat (map bytes32 (regs_words r))) (k_mem s)\<rparr>;
                r = r\<lparr>r_esp := r_esp r + 52\<rparr>;
                p = captureCommandlineArguments argv (p\<lparr>pr_regs := r, pr_entryEip := entry, pr_startTime := k_ticks s\<rparr>)
            in do {
              v \<leftarrow> initializeProcessInVFS p (k_vfs s);
              Some (p, s\<lparr>k_vfs := v\<rparr>) } } })"

section \<open>The end of a process\<close>

definition terminate :: "u32 \<Rightarrow> process \<Rightarrow> process" where
  "terminate exitCode p = p\<lparr>pr_state := Terminated, pr_exitCode := exitCode\<rparr>"

definition kill :: "process \<times> tasks \<Rightarrow> (process \<times> tasks) option" where
  "kill ps =
     (let (p, s) = ps in
      do { pg \<leftarrow> fold_opt (freePage (k_dir s)) (pr_pages p) (k_paging s);
           w \<leftarrow> fold_opt closeWindow (pr_windows p) (k_wm s);
           Some (p\<lparr>pr_state := Killed, pr_age := 0, pr_pages := [], pr_windows := []\<rparr>, s\<lparr>k_paging := pg, k_wm := w\<rparr>) })"

text \<open>A corrupted stack pointer is a panic. The second test looks at the mask \<open>0x11\<close> of the selector.\<close>

definition checkStackOverflow :: "process \<Rightarrow> bool option" where
  "checkStackOverflow p =
     (let r = pr_regs p in
      if r_esp r < pr_kernelStack p then None
      else if pr_mode p = User \<and> r_cs r AND 0x11 \<noteq> 0 \<and> r_userEsp r < pr_userStack p then None
      else Some True)"

end
