(* ===== verification/Scheduler.thy ===== *)
theory Scheduler
  imports Process
begin

text \<open>
  The scheduler (\<open>core/tasks/ProcessManager.cpp\<close>): creating processes and switching between them on
  every tick of the clock. A handler gets the address of the saved registers and their value and
  returns the address the interrupt returns through. The array of processes is reserved for 512
  elements and \<open>currentIndex\<close> is 512 before the first switch.
\<close>

section \<open>Definitions\<close>

definition TaskManager_initialize :: "tasks \<Rightarrow> tasks" where
  "TaskManager_initialize s = s\<lparr>processes := []\<rparr>"

definition put_process :: "nat \<Rightarrow> process \<Rightarrow> tasks \<Rightarrow> tasks" where
  "put_process i p s = s\<lparr>processes := (processes s)[i := p]\<rparr>"

definition getCurrentProcess :: "tasks \<Rightarrow> process option" where
  "getCurrentProcess s = rd_at (processes s) (unat (currentIndex s))"

definition update_current :: "(process \<Rightarrow> process) \<Rightarrow> tasks \<Rightarrow> tasks option" where
  "update_current f s = do { p \<leftarrow> getCurrentProcess s; Some (put_process (unat (currentIndex s)) (f p) s) }"

definition getProcess :: "u32 \<Rightarrow> tasks \<Rightarrow> process option" where
  "getProcess i s = rd_at (processes s) (unat i)"

text \<open>The index of the new process; \<open>None\<close> inside: there is no room.\<close>

definition newProcess ::
    "nat \<Rightarrow> u32 \<Rightarrow> pmode \<Rightarrow> priority \<Rightarrow> bytes list \<Rightarrow> bytes list option \<Rightarrow> bool \<Rightarrow> tasks \<Rightarrow> (nat option \<times> tasks) option" where
  "newProcess k entry md prio argv envp isInternal s =
     (if length (processes s) = 511 then Some (None, s)
      else do {
        (p, t) \<leftarrow> newProcessObject k entry (pid_count s) md prio argv envp isInternal s;
        Some (Some (length (processes s)), t\<lparr>processes := processes s @ [p], pid_count := pid_count s + 1\<rparr>) })"

definition execv_builtin ::
    "nat \<Rightarrow> u32 \<Rightarrow> pmode \<Rightarrow> priority \<Rightarrow> bytes list \<Rightarrow> bytes list option \<Rightarrow> tasks \<Rightarrow> (nat option \<times> tasks) option" where
  "execv_builtin k entry md prio argv envp s = newProcess k entry md prio argv envp True s"

definition startAtomicOperation :: "tasks \<Rightarrow> tasks option" where
  "startAtomicOperation s =
     do { p \<leftarrow> getCurrentProcess s; Some (if pr_mode p \<noteq> Kernel then s else s\<lparr>atomicLevel := atomicLevel s + 1\<rparr>) }"

definition endAtomicOperation :: "tasks \<Rightarrow> tasks" where
  "endAtomicOperation s = (if 0 < atomicLevel s then s\<lparr>atomicLevel := atomicLevel s - 1\<rparr> else s)"

subsection \<open>The clock tick\<close>

text \<open>The debug field of the current process is written before the index has been checked.\<close>

definition record_eip :: "u32 \<Rightarrow> tasks \<Rightarrow> tasks" where
  "record_eip eip s =
     (case getCurrentProcess s of
        None \<Rightarrow> s\<lparr>k_overrun := True\<rparr>
      | Some p \<Rightarrow> put_process (unat (currentIndex s)) (p\<lparr>pr_lastEip := eip\<rparr>) s)"

definition reap :: "nat \<Rightarrow> tasks \<Rightarrow> tasks option" where
  "reap i s =
     (if of_nat i = currentIndex s then Some s
      else do {
        p \<leftarrow> rd_at (processes s) i;
        if pr_state p = Terminated then do { (p, s) \<leftarrow> kill (p, s); Some (put_process i p s) } else Some s })"

definition save_current :: "cpu_regs \<Rightarrow> process \<Rightarrow> process" where
  "save_current regs p = p\<lparr>pr_cpuTime := pr_cpuTime p + 1, pr_regs := regs\<rparr>"

text \<open>The current process gives up a part of its turn: \<open>True\<close> when some of it is left.\<close>

definition spend_turn :: "process \<Rightarrow> bool \<times> process" where
  "spend_turn p =
     (if pr_state p \<noteq> Terminated \<and> pr_state p \<noteq> Killed then
        let p = (if 0 < pr_age p then p\<lparr>pr_age := pr_age p - 1\<rparr> else p) in
          if 0 < pr_age p then (True, p)
          else (False, p\<lparr>pr_state := Ready, pr_age := priority_value (pr_priority p)\<rparr>)
      else (False, p))"

fun scan :: "process list \<Rightarrow> u32 \<Rightarrow> nat list \<Rightarrow> u32 \<Rightarrow> u32" where
  "scan ps cur [] nxt = nxt"
| "scan ps cur (i # is) nxt =
     (let n = (cur + 1 + of_nat i) mod of_nat (length ps) in
      if pr_state (ps ! unat n) = Ready then n else scan ps cur is n)"

definition next_process :: "tasks \<Rightarrow> u32" where
  "next_process s = scan (processes s) (currentIndex s) [0..<length (processes s)] (currentIndex s)"

definition dispatch :: "tasks \<Rightarrow> (u32 \<times> tasks) option" where
  "dispatch s =
     (let s = s\<lparr>currentIndex := next_process s\<rparr> in
      do { s \<leftarrow> update_current (\<lambda>p. p\<lparr>pr_state := Running, pr_upTime := pr_upTime p + 1\<rparr>) s;
           p \<leftarrow> getCurrentProcess s;
           let s = (if pr_mode p = User then s\<lparr>k_kernelStack := pr_kernelStack p + 4096 * 10 - 1\<rparr> else s) in
             Some (r_esp (pr_regs p) - 52, s) })"

definition interruptHandler :: "u32 \<Rightarrow> cpu_regs \<Rightarrow> tasks \<Rightarrow> (u32 \<times> tasks) option" where
  "interruptHandler address regs s =
     (if processes s = [] then Some (address, s)
      else if 0 < atomicLevel s then Some (address, s)
      else do {
        s \<leftarrow> fold_opt reap [0..<length (processes s)] (record_eip (r_eip regs) s);
        if currentIndex s < 512 then do {
          p \<leftarrow> getCurrentProcess s;
          let p = save_current regs p in do {
            intact \<leftarrow> checkStackOverflow p;
            let (stay, p) = spend_turn p; s = put_process (unat (currentIndex s)) p s in
              if stay then Some (address, s) else dispatch s } }
        else dispatch s })"

section \<open>Programs from files\<close>

text \<open>
  Starting a program from an ELF file (\<open>execv_elf\<close> of \<open>core/tasks/ProcessManager.cpp\<close> and the stack
  a program is started with, from \<open>core/tasks/Process.cpp\<close>). The file is the content of a buffer at
  the address \<open>file\<close>; reading past its end is \<open>None\<close>. The offsets are those of the 32-bit ELF header
  and program header, the numbers those of \<open>elf.h\<close>.
\<close>

definition valid_ident :: "bytes \<Rightarrow> bool" where
  "valid_ident content =
     (16 \<le> length content \<and> take 4 content = [0x7f, 0x45, 0x4c, 0x46] \<and>
      content ! 4 = 1 \<and> content ! 5 = 1 \<and> content ! 6 = 1)"

record program_header =
  ph_type :: u32
  ph_offset :: u32
  ph_vaddr :: u32
  ph_filesz :: u32
  ph_memsz :: u32

definition program_header_at :: "bytes \<Rightarrow> nat \<Rightarrow> program_header option" where
  "program_header_at content off =
     do { t \<leftarrow> get_uint32_t content off; o' \<leftarrow> get_uint32_t content (off + 4); v \<leftarrow> get_uint32_t content (off + 8);
          fs \<leftarrow> get_uint32_t content (off + 16); ms \<leftarrow> get_uint32_t content (off + 20);
          Some \<lparr>ph_type = t, ph_offset = o', ph_vaddr = v, ph_filesz = fs, ph_memsz = ms\<rparr> }"

text \<open>One segment: the pages around it, its bytes of the file, zeros after them. A null address ends the loading.\<close>

definition load_segment ::
    "nat \<Rightarrow> bytes \<Rightarrow> program_header \<Rightarrow> process \<times> tasks \<Rightarrow> (bool \<times> process \<times> tasks) option" where
  "load_segment k content ph ps =
     (let aligned_vaddr = ph_vaddr ph AND NOT 4095;
          page_offset = ph_vaddr ph - aligned_vaddr;
          segment_size = ph_memsz ph + page_offset;
          num_pages = drop_bit 12 (segment_size + 4096 - 1)
      in do {
        (segment, p, s) \<leftarrow> allocatePagesAt k aligned_vaddr num_pages ps;
        if segment = 0 then Some (False, p, s)
        else do {
          bs \<leftarrow> slice content (unat (ph_offset ph)) (unat (ph_filesz ph));
          let m = store_bytes (segment + page_offset) bs (k_mem s);
              m = (if ph_filesz ph < ph_memsz ph
                   then store_bytes (segment + page_offset + ph_filesz ph) (replicate (unat (ph_memsz ph - ph_filesz ph)) 0) m
                   else m)
          in Some (True, p, s\<lparr>k_mem := m\<rparr>) } })"

fun load_segments ::
    "nat \<Rightarrow> bytes \<Rightarrow> nat list \<Rightarrow> u32 \<Rightarrow> process \<times> tasks \<Rightarrow> (u32 option \<times> process \<times> tasks) option" where
  "load_segments k content [] highest ps = Some (Some highest, ps)"
| "load_segments k content (off # offs) highest ps =
     do { ph \<leftarrow> program_header_at content off;
          if ph_type ph \<noteq> 1 then load_segments k content offs highest ps
          else do {
            (ok, ps) \<leftarrow> load_segment k content ph ps;
            if \<not> ok then Some (None, ps)
            else load_segments k content offs (max highest (ph_vaddr ph + ph_memsz ph)) ps } }"

definition buildAuxiliaryVectorForELF :: "u32 \<Rightarrow> u16 \<Rightarrow> u32 \<Rightarrow> process \<Rightarrow> process" where
  "buildAuxiliaryVectorForELF e_entry e_phnum headers p =
     p\<lparr>pr_auxv := [(6, 4096), (17, 100), (3, headers), (4, 32), (5, ucast e_phnum), (9, e_entry), (15, 0),
                   (11, 0), (12, 0), (13, 0), (14, 0), (23, 0)]\<rparr>"

section \<open>The initial stack\<close>

text \<open>The platform string goes to the first entry of its type.\<close>

fun set_platform :: "u32 \<Rightarrow> (u32 \<times> u32) list \<Rightarrow> (u32 \<times> u32) list" where
  "set_platform a [] = []"
| "set_platform a (e # es) = (if fst e = 15 then (15, a) # es else e # set_platform a es)"

fun store_words :: "u32 \<Rightarrow> u32 list \<Rightarrow> memory \<Rightarrow> memory" where
  "store_words a [] m = m"
| "store_words a (w # ws) m = store_words (a + 4) ws (store32 a w m)"

definition auxv_words :: "(u32 \<times> u32) list \<Rightarrow> u32 list" where
  "auxv_words es = concat (map (\<lambda>e. [fst e, snd e]) es) @ [0, 0]"

definition push_copy :: "u32 \<Rightarrow> u32 \<Rightarrow> u32 \<times> memory \<Rightarrow> u32 \<times> memory" where
  "push_copy src n em = (let (esp, m) = em in (esp - n, store_bytes (esp - n) (load_bytes src (unat n) m) m))"

definition elf_block_size :: "bytes list \<Rightarrow> process \<Rightarrow> u32" where
  "elf_block_size argv p =
     (of_nat (length argv) + 1) * 4 + (of_nat (length (pr_env p)) + 1) * 4 + (of_nat (length (pr_auxv p)) + 1) * 2 * 4 +
     of_nat (strings_size argv) + of_nat (strings_size (map env_entry (pr_env p))) + 5"

text \<open>The block: pointers to the arguments and to the environment, the auxiliary vector, the texts.\<close>

definition write_block :: "u32 \<Rightarrow> bytes list \<Rightarrow> bytes list \<Rightarrow> (u32 \<times> u32) list \<Rightarrow> memory \<Rightarrow> (u32 \<times> u32) list \<times> memory" where
  "write_block blk argv envs auxv m =
     (let argc = of_nat (length argv); envc = of_nat (length envs);
          envp_copy = blk + (argc + 1) * 4;
          aux = envp_copy + (envc + 1) * 4;
          str = aux + (of_nat (length auxv) + 1) * 2 * 4;
          (str, m) = copy_strings blk str argv m;
          m = store32 (blk + argc * 4) 0 m;
          (str, m) = copy_strings envp_copy str envs m;
          m = store32 (envp_copy + envc * 4) 0 m;
          m = store_bytes str (ascii ''i386'' @ [0]) m;
          auxv = set_platform str auxv
      in (auxv, store_words aux (auxv_words auxv) m))"

definition push_block :: "u32 \<Rightarrow> nat \<Rightarrow> nat \<Rightarrow> nat \<Rightarrow> u32 \<times> memory \<Rightarrow> u32 \<times> memory" where
  "push_block blk argc envc auxc em =
     (let envp_copy = blk + (of_nat argc + 1) * 4;
          aux = envp_copy + (of_nat envc + 1) * 4;
          em = push_copy aux ((of_nat auxc + 1) * 2 * 4) em;
          em = push_copy envp_copy ((of_nat envc + 1) * 4) em;
          (esp, m) = push_copy blk ((of_nat argc + 1) * 4) em
      in (esp - 4, store32 (esp - 4) (of_nat argc) m))"

definition initializeArgumentsForELF :: "nat \<Rightarrow> bytes list \<Rightarrow> process \<times> tasks \<Rightarrow> (process \<times> tasks) option" where
  "initializeArgumentsForELF k argv ps =
     do { (block, p, s) \<leftarrow> proc_allocatePages k (pages_for (elf_block_size argv (fst ps))) ps;
          let (auxv, m) = write_block block argv (map env_entry (pr_env p)) (pr_auxv p) (k_mem s);
              (esp, m) = push_block block (length argv) (length (pr_env p)) (length auxv) (r_userEsp (pr_regs p), m)
          in Some (p\<lparr>pr_auxv := auxv, pr_regs := (pr_regs p)\<lparr>r_userEsp := esp\<rparr>\<rparr>, s\<lparr>k_mem := m\<rparr>) }"

section \<open>Loading\<close>

definition elf_ready :: "nat \<Rightarrow> u32 \<Rightarrow> bytes list \<Rightarrow> u32 \<Rightarrow> u16 \<Rightarrow> u32 \<Rightarrow> u32 \<Rightarrow> process \<times> tasks \<Rightarrow> (process \<times> tasks) option" where
  "elf_ready k file argv e_entry e_phnum e_phoff highest ps =
     (let (p, s) = ps;
          brk = (highest + 4096 - 1) AND NOT 4095;
          p = buildAuxiliaryVectorForELF e_entry e_phnum (file + e_phoff)
                (p\<lparr>pr_initial_brk := brk, pr_current_brk := brk, pr_max_brk := brk\<rparr>)
      in do {
        (p, s) \<leftarrow> initializeArgumentsForELF k argv (p, s);
        let r = pr_regs p;
            m = store32 (r_esp r + 8) e_entry (k_mem s);
            p = p\<lparr>pr_regs := r\<lparr>r_eip := e_entry\<rparr>, pr_entryEip := e_entry\<rparr>;
            m = store32 (r_esp r - 52 + 72) (r_userEsp r) m
        in Some (p\<lparr>pr_state := Ready\<rparr>, s\<lparr>k_mem := m\<rparr>) })"

text \<open>
  The result is the index of the new process. The process is in the table, marked as killed, while
  its segments are loaded, and stays so when that fails.
\<close>

definition execv_elf ::
    "nat \<Rightarrow> u32 \<Rightarrow> bytes \<Rightarrow> pmode \<Rightarrow> priority \<Rightarrow> bytes list \<Rightarrow> bytes list option \<Rightarrow> tasks \<Rightarrow> (nat option \<times> tasks) option" where
  "execv_elf k file content md prio argv envp s =
     (if \<not> valid_ident content then Some (None, s)
      else do {
        e_type \<leftarrow> get_uint16_t content 16;
        e_machine \<leftarrow> get_uint16_t content 18;
        if e_type \<noteq> 2 \<or> e_machine \<noteq> 3 then Some (None, s)
        else do {
          (r, s) \<leftarrow> newProcess k 0 md prio argv envp False s;
          case r of None \<Rightarrow> Some (None, s)
          | Some i \<Rightarrow> do {
              p \<leftarrow> rd_at (processes s) i;
              e_entry \<leftarrow> get_uint32_t content 24;
              e_phoff \<leftarrow> get_uint32_t content 28;
              e_phnum \<leftarrow> get_uint16_t content 44;
              (highest, p, s) \<leftarrow> load_segments k content (map (\<lambda>j. unat e_phoff + 32 * j) [0..<unat e_phnum]) 0
                 (p\<lparr>pr_state := Killed\<rparr>, s);
              case highest of None \<Rightarrow> Some (None, put_process i p s)
              | Some h \<Rightarrow> do {
                  (p, s) \<leftarrow> elf_ready k file argv e_entry e_phnum e_phoff h (p, s);
                  Some (Some i, put_process i p s) } } } })"

end
