(* ===== verification/Scheduler_Steps.thy ===== *)
theory Scheduler_Steps
  imports Scheduler
begin

text \<open>
  The invariant of the scheduler over every sequence of its operations: the table has at most 511
  processes and each stands at the index that is its number, a process is running only while it
  is the current one, and no age exceeds the largest priority.
\<close>

section \<open>What an operation leaves alone\<close>

text \<open>What the scheduler sees of the table, and of a process under construction next to it.\<close>

definition table_view :: "tasks \<Rightarrow> process list \<times> u32 \<times> u32 \<times> u32 \<times> bool" where
  "table_view s = (processes s, currentIndex s, atomicLevel s, pid_count s, k_overrun s)"

definition task_view :: "process \<times> tasks \<Rightarrow> (u32 \<times> u32 \<times> pstate) \<times> process list \<times> u32 \<times> u32 \<times> u32 \<times> bool" where
  "task_view ps = ((pr_pid (fst ps), pr_age (fst ps), pr_state (fst ps)), table_view (snd ps))"

lemma registerPages_view [simp]: "task_view (registerPages a n p, s) = task_view (p, s)"
  by (simp add: registerPages_def task_view_def)

lemma view_simps [simp]:
  "task_view (p, t\<lparr>k_paging := pg\<rparr>) = task_view (p, t)" "task_view (p, t\<lparr>k_mem := m\<rparr>) = task_view (p, t)"
  "task_view (p, t\<lparr>k_vfs := v\<rparr>) = task_view (p, t)" "task_view (p, t\<lparr>k_wm := w\<rparr>) = task_view (p, t)"
  "task_view (p\<lparr>pr_dir := d\<rparr>, t) = task_view (p, t)" "task_view (p\<lparr>pr_kernelStack := d\<rparr>, t) = task_view (p, t)"
  "task_view (p\<lparr>pr_userStack := d\<rparr>, t) = task_view (p, t)" "task_view (p\<lparr>pr_pages := ds\<rparr>, t) = task_view (p, t)"
  "task_view (p\<lparr>pr_regs := r\<rparr>, t) = task_view (p, t)" "task_view (p\<lparr>pr_env := e\<rparr>, t) = task_view (p, t)"
  "task_view (p\<lparr>pr_argvBlock := d\<rparr>, t) = task_view (p, t)" "task_view (p\<lparr>pr_auxv := a\<rparr>, t) = task_view (p, t)"
  "task_view (p\<lparr>pr_command := c\<rparr>, t) = task_view (p, t)" "task_view (p\<lparr>pr_args := as\<rparr>, t) = task_view (p, t)"
  "task_view (p\<lparr>pr_entryEip := d\<rparr>, t) = task_view (p, t)" "task_view (p\<lparr>pr_startTime := i\<rparr>, t) = task_view (p, t)"
  "task_view (p\<lparr>pr_initial_brk := d\<rparr>, t) = task_view (p, t)" "task_view (p\<lparr>pr_current_brk := d\<rparr>, t) = task_view (p, t)"
  "task_view (p\<lparr>pr_max_brk := d\<rparr>, t) = task_view (p, t)"
  by (simp_all add: task_view_def table_view_def)

lemma allocatePagesAt_with_view: "allocatePagesAt_with k f n (p, s) = Some (a, ps) \<Longrightarrow> task_view ps = task_view (p, s)"
  by (auto simp: allocatePagesAt_with_def Let_def split: Option.bind_splits)

lemma proc_allocatePages_view: "proc_allocatePages k n (p, s) = Some (a, ps) \<Longrightarrow> task_view ps = task_view (p, s)"
  by (simp add: proc_allocatePages_def allocatePagesAt_with_view)

lemma allocatePagesAt_view: "allocatePagesAt k v n (p, s) = Some (a, ps) \<Longrightarrow> task_view ps = task_view (p, s)"
  by (simp add: allocatePagesAt_def allocatePagesAt_with_view)

lemma initializePagingDirectory_view: "initializePagingDirectory k b (p, s) = Some ps \<Longrightarrow> task_view ps = task_view (p, s)"
  by (auto simp: initializePagingDirectory_def Let_def split: Option.bind_splits if_splits dest!: proc_allocatePages_view)

lemma initializeCPUState_view [simp]: "task_view (initializeCPUState ps) = task_view ps"
  by (cases ps) (simp add: initializeCPUState_def Let_def split: prod.split)

lemma initializeArguments_view: "initializeArguments k e as (p, s) = Some ps \<Longrightarrow> task_view ps = task_view (p, s)"
  by (auto simp: initializeArguments_def Let_def case_prod_unfold split: Option.bind_splits if_splits dest!: proc_allocatePages_view)

lemma captureEnvironment_view [simp]: "task_view (captureEnvironment e p, s) = task_view (p, s)"
  by (simp add: captureEnvironment_def)

lemma captureCommandlineArguments_view [simp]: "task_view (captureCommandlineArguments as p, s) = task_view (p, s)"
  by (simp add: captureCommandlineArguments_def split: list.split)

lemma newProcessObject_view:
  assumes "newProcessObject k e i md prio argv envp b s = Some (p, t)"
  shows "task_view (p, t) = ((i, 2, Ready), table_view s)"
proof -
  have start: "task_view (p0, s) = ((pr_pid p0, pr_age p0, pr_state p0), table_view s)" for p0
    by (simp add: task_view_def)
  show ?thesis
    using assms unfolding newProcessObject_def Let_def case_prod_unfold
    by (auto simp: start split: Option.bind_splits if_splits
        dest!: initializePagingDirectory_view initializeArguments_view)
qed

section \<open>Steps and invariant\<close>

text \<open>\<open>work\<close> is everything else a process does in the kernel.\<close>

definition task_keys :: "tasks \<Rightarrow> (u32 \<times> u32 \<times> pstate) list" where
  "task_keys s = map (\<lambda>p. (pr_pid p, pr_age p, pr_state p)) (processes s)"

inductive sched_step :: "tasks \<Rightarrow> tasks \<Rightarrow> bool" where
  builtin: "execv_builtin k entry md prio argv envp s = Some (r, t) \<Longrightarrow> sched_step s t"
| elf: "execv_elf k file content md prio argv envp s = Some (r, t) \<Longrightarrow> sched_step s t"
| tick: "interruptHandler address regs s = Some (v, t) \<Longrightarrow> sched_step s t"
| exit: "update_current (terminate c) s = Some t \<Longrightarrow> sched_step s t"
| yield: "update_current (\<lambda>p. p\<lparr>pr_age := 0\<rparr>) s = Some t \<Longrightarrow> sched_step s t"
| lock: "startAtomicOperation s = Some t \<Longrightarrow> sched_step s t"
| unlock: "sched_step s (endAtomicOperation s)"
| work: "task_keys t = task_keys s \<Longrightarrow> currentIndex t = currentIndex s \<Longrightarrow> pid_count t = pid_count s \<Longrightarrow>
    atomicLevel t = atomicLevel s \<Longrightarrow> sched_step s t"

inductive_cases sched_stepE [elim]: "sched_step s t"

definition slot_ok :: "u32 \<Rightarrow> nat \<Rightarrow> process \<Rightarrow> bool" where
  "slot_ok cur i p = (pr_pid p = of_nat i \<and> pr_age p \<le> 10 \<and> (pr_state p = Running \<longrightarrow> unat cur = i))"

definition sched_ok :: "tasks \<Rightarrow> bool" where
  "sched_ok s =
     (length (processes s) \<le> 511 \<and> pid_count s = of_nat (length (processes s)) \<and>
      (currentIndex s = 512 \<or> unat (currentIndex s) < length (processes s)) \<and>
      (\<forall>i<length (processes s). slot_ok (currentIndex s) i (processes s ! i)))"

lemma sched_ok_cong:
  assumes "sched_ok s" and "task_keys t = task_keys s" and "currentIndex t = currentIndex s" and "pid_count t = pid_count s"
  shows "sched_ok t"
proof -
  have len: "length (processes t) = length (processes s)"
    using arg_cong [OF assms(2), of length] by (simp add: task_keys_def)
  have "slot_ok c i (processes t ! i) = slot_ok c i (processes s ! i)" if "i < length (processes s)" for c i
    using arg_cong [OF assms(2), of "\<lambda>xs. xs ! i"] that len by (simp add: task_keys_def slot_ok_def)
  then show ?thesis using assms(1,3,4) len unfolding sched_ok_def by metis
qed

lemma sched_ok_view: "table_view t = table_view s \<Longrightarrow> sched_ok t = sched_ok s"
  by (simp add: table_view_def sched_ok_def)

lemma put_process_ok: "sched_ok s \<Longrightarrow> slot_ok (currentIndex s) i p \<Longrightarrow> sched_ok (put_process i p s)"
  by (cases "i < length (processes s)")
    (simp_all add: sched_ok_def put_process_def nth_list_update list_update_beyond)

lemma update_current_ok:
  assumes "sched_ok s" and "update_current f s = Some t"
    and "\<And>p. pr_pid (f p) = pr_pid p" "\<And>p. pr_age p \<le> 10 \<Longrightarrow> pr_age (f p) \<le> 10"
  shows "sched_ok t"
  using assms(1,2) assms(3,4) by (auto simp: update_current_def getCurrentProcess_def rd_at_def sched_ok_def slot_ok_def put_process_def
      nth_list_update split: Option.bind_splits if_splits)

subsection \<open>New processes\<close>

lemma newProcess_view:
  assumes "newProcess k e md prio argv envp b s = Some (Some i, t)"
  obtains p where "i = length (processes s)" and "i \<noteq> 511" and "processes t = processes s @ [p]"
    and "pr_pid p = pid_count s" and "pr_age p = 2" and "pr_state p = Ready" and "pid_count t = pid_count s + 1"
    and "currentIndex t = currentIndex s" and "atomicLevel t = atomicLevel s"
  using assms by (fastforce simp: newProcess_def task_view_def table_view_def split: Option.bind_splits if_splits
      dest!: newProcessObject_view)

lemma newProcess_None: "newProcess k e md prio argv envp b s = Some (None, t) \<Longrightarrow> t = s"
  by (auto simp: newProcess_def split: Option.bind_splits if_splits)

lemma sched_ok_append:
  assumes "sched_ok s" and "length (processes s) \<noteq> 511" and "processes t = processes s @ [p]"
    and "pr_pid p = pid_count s" and "pr_age p \<le> 10" and "pr_state p \<noteq> Running" and "pid_count t = pid_count s + 1"
    and "currentIndex t = currentIndex s"
  shows "sched_ok t"
  using assms by (auto simp: sched_ok_def slot_ok_def nth_append less_Suc_eq)

lemma newProcess_ok:
  assumes ok: "sched_ok s" and n: "newProcess k e md prio argv envp b s = Some (r, t)"
  shows "sched_ok t"
proof (cases r)
  case None
  then show ?thesis using ok n by (auto dest: newProcess_None)
next
  case (Some i)
  obtain p where "length (processes s) \<noteq> 511" "processes t = processes s @ [p]" "pr_pid p = pid_count s"
    "pr_age p = 2" "pr_state p = Ready" "pid_count t = pid_count s + 1" "currentIndex t = currentIndex s"
    using newProcess_view [OF n [unfolded Some]] by metis
  then show ?thesis by (intro sched_ok_append [OF ok, where p = p]) simp_all
qed

lemma load_segment_view: "load_segment k content ph (p, s) = Some (b, ps) \<Longrightarrow> task_view ps = task_view (p, s)"
  by (auto simp: load_segment_def Let_def split: Option.bind_splits if_splits dest!: allocatePagesAt_view)

lemma load_segments_view: "load_segments k content offs h ps = Some (r, qt) \<Longrightarrow> task_view qt = task_view ps"
proof (induction offs arbitrary: h ps)
  case Nil
  then show ?case by simp
next
  case (Cons off offs)
  then show ?case
    by (cases ps) (auto split: Option.bind_splits if_splits dest!: load_segment_view dest: Cons.IH)
qed

lemma initializeArgumentsForELF_view: "initializeArgumentsForELF k as (p, s) = Some ps \<Longrightarrow> task_view ps = task_view (p, s)"
  by (auto simp: initializeArgumentsForELF_def Let_def case_prod_unfold split: Option.bind_splits dest!: proc_allocatePages_view)

lemma task_view_state: "task_view (p\<lparr>pr_state := st\<rparr>, s) = ((pr_pid p, pr_age p, st), table_view s)"
  by (simp add: task_view_def)

lemma elf_ready_view:
  assumes "elf_ready k file as e n o' h (p, s) = Some (q, t)"
  shows "task_view (q, t) = ((pr_pid p, pr_age p, Ready), table_view s)"
proof -
  obtain p0 p1 s1 where i: "initializeArgumentsForELF k as (p0, s) = Some (p1, s1)"
    and p0: "pr_pid p0 = pr_pid p" "pr_age p0 = pr_age p"
    and q: "pr_pid q = pr_pid p1" "pr_age q = pr_age p1" "pr_state q = Ready" and t: "table_view t = table_view s1"
    using assms by (fastforce simp: elf_ready_def Let_def buildAuxiliaryVectorForELF_def table_view_def split: Option.bind_splits)
  then show ?thesis using initializeArgumentsForELF_view [OF i] by (simp add: task_view_def)
qed

lemma put_new_ok:
  assumes "sched_ok s" and "newProcess k e md prio argv envp b s = Some (Some i, n)" and "rd_at (processes n) i = Some p"
    and "pr_state q \<noteq> Running" and "pr_pid q = pr_pid p" and "pr_age q = pr_age p" and "table_view u = table_view n"
  shows "sched_ok (put_process i q u)"
proof (rule put_process_ok)
  have n: "sched_ok n" by (rule newProcess_ok [OF assms(1,2)])
  then show "sched_ok u" using assms(7) sched_ok_view by blast
  have "slot_ok (currentIndex n) i p"
    using n assms(3) by (auto simp: sched_ok_def rd_at_def split: if_splits)
  then show "slot_ok (currentIndex u) i q"
    using assms(4-7) by (simp add: slot_ok_def table_view_def)
qed

lemma execv_elf_ok:
  assumes "sched_ok s" and "execv_elf k file content md prio argv envp s = Some (r, t)"
  shows "sched_ok t"
  using assms
  by (auto simp: execv_elf_def task_view_def split: Option.bind_splits if_splits option.splits
      dest!: load_segments_view elf_ready_view)
    (blast intro: newProcess_ok, (rule put_new_ok, simp_all)+)

subsection \<open>The clock tick\<close>

lemma kill_view:
  "kill (p, s) = Some (q, t) \<Longrightarrow> table_view t = table_view s \<and> pr_pid q = pr_pid p \<and> pr_state q = Killed \<and> pr_age q = 0"
  by (auto simp: kill_def table_view_def split: Option.bind_splits)

lemma reap_ok:
  assumes "sched_ok s" and "reap i s = Some t"
  shows "sched_ok t \<and> currentIndex t = currentIndex s \<and> length (processes t) = length (processes s)"
proof (cases "t = s")
  case False
  then obtain p q u where p: "rd_at (processes s) i = Some p" and k: "kill (p, s) = Some (q, u)" and t: "t = put_process i q u"
    using assms(2) by (auto simp: reap_def split: Option.bind_splits if_splits)
  have "slot_ok (currentIndex s) i p" using assms(1) p by (auto simp: sched_ok_def rd_at_def split: if_splits)
  then have "slot_ok (currentIndex u) i q" using kill_view [OF k] by (simp add: slot_ok_def table_view_def)
  moreover have "sched_ok u" using kill_view [OF k] assms(1) sched_ok_view by blast
  ultimately have "sched_ok t" unfolding t by (rule put_process_ok [rotated])
  then show ?thesis using kill_view [OF k] by (simp add: t put_process_def table_view_def)
qed (simp add: assms)

lemma reap_all_ok:
  assumes "fold_opt reap is s = Some t" and "sched_ok s"
  shows "sched_ok t \<and> currentIndex t = currentIndex s \<and> length (processes t) = length (processes s)"
proof -
  have "sched_ok s \<and> currentIndex s = currentIndex s \<and> length (processes s) = length (processes s)" using assms(2) by simp
  then show ?thesis
    by (rule fold_opt_inv [OF assms(1), where P = "\<lambda>t. sched_ok t \<and> currentIndex t = currentIndex s \<and>
          length (processes t) = length (processes s)"])
      (use reap_ok in fastforce)
qed

lemma record_eip_ok: "sched_ok s \<Longrightarrow> sched_ok (record_eip e s)"
proof (cases "getCurrentProcess s")
  case None
  assume "sched_ok s"
  then show ?thesis using None by (simp add: record_eip_def sched_ok_def)
next
  case (Some p)
  assume ok: "sched_ok s"
  then have "slot_ok (currentIndex s) (unat (currentIndex s)) (p\<lparr>pr_lastEip := e\<rparr>)"
    using Some by (auto simp: getCurrentProcess_def rd_at_def sched_ok_def slot_ok_def split: if_splits)
  then show ?thesis using Some ok by (simp add: record_eip_def put_process_ok)
qed

definition none_runs :: "tasks \<Rightarrow> bool" where
  "none_runs s = (\<forall>p\<in>set (processes s). pr_state p \<noteq> Running)"

lemma scan_range:
  assumes "ps \<noteq> []" and "length ps < 2 ^ 32" and "is \<noteq> []"
  shows "unat (scan ps cur is n) < length ps"
  using assms(3)
proof (induction "is" arbitrary: n)
  case (Cons i "is")
  have "unat ((cur + 1 + of_nat i) mod of_nat (length ps) :: u32) < length ps"
    using assms(1,2) by (simp add: unat_mod unat_of_nat take_bit_nat_eq_self)
  then show ?case using Cons by (cases "is") (simp_all add: Let_def)
qed simp

lemma next_process_range:
  "sched_ok s \<Longrightarrow> processes s \<noteq> [] \<Longrightarrow> unat (next_process s) < length (processes s)"
  unfolding next_process_def by (rule scan_range) (auto simp: sched_ok_def)

lemma dispatch_ok:
  assumes "sched_ok s" and "none_runs s" and "dispatch s = Some (v, t)"
  shows "sched_ok t"
proof -
  let ?n = "unat (next_process s)"
  from assms(3) have lt: "?n < length (processes s)"
    and t: "processes t = (processes s)[?n := (processes s ! ?n)\<lparr>pr_state := Running, pr_upTime := pr_upTime (processes s ! ?n) + 1\<rparr>]"
      "currentIndex t = next_process s" "pid_count t = pid_count s"
    by (auto simp: dispatch_def Let_def update_current_def getCurrentProcess_def rd_at_def put_process_def
        split: Option.bind_splits if_splits)
  then show ?thesis using assms(1,2) by (auto simp: sched_ok_def slot_ok_def none_runs_def nth_list_update)
qed

lemma spend_turn_ok:
  assumes "slot_ok cur i p" and "spend_turn p = (stay, q)"
  shows "slot_ok cur i q" and "\<not> stay \<Longrightarrow> pr_state q \<noteq> Running"
proof -
  have prio: "priority_value pr \<le> 10" for pr by (cases pr) simp_all
  have "pr_age p - 1 \<le> 10" if "0 < pr_age p" "pr_age p \<le> 10"
    using that unat_minus_one [of "pr_age p"] by (auto simp: word_le_nat_alt)
  then show "slot_ok cur i q" using assms prio
    by (auto simp: spend_turn_def slot_ok_def Let_def split: if_splits)
  show "\<not> stay \<Longrightarrow> pr_state q \<noteq> Running"
    using assms by (auto simp: spend_turn_def Let_def split: if_splits)
qed

lemma interruptHandler_ok:
  assumes ok: "sched_ok s" and h: "interruptHandler address regs s = Some (v, t)"
  shows "sched_ok t"
proof (cases "processes s = [] \<or> 0 < atomicLevel s")
  case True
  then show ?thesis using ok h by (auto simp: interruptHandler_def split: if_splits)
next
  case False
  let ?r = "record_eip (r_eip regs) s"
  from False h obtain u where u: "fold_opt reap [0..<length (processes s)] ?r = Some u"
    and rest: "(if currentIndex u < 512 then do { p \<leftarrow> getCurrentProcess u; let p = save_current regs p in do {
            intact \<leftarrow> checkStackOverflow p;
            let (stay, p) = spend_turn p; s = put_process (unat (currentIndex u)) p u in
              if stay then Some (address, s) else dispatch s } } else dispatch u) = Some (v, t)"
    by (auto simp: interruptHandler_def split: Option.bind_splits)
  have u_ok: "sched_ok u" using reap_all_ok [OF u record_eip_ok [OF ok]] by simp
  show ?thesis
  proof (cases "currentIndex u < 512")
    case True
    with rest obtain p stay q where p: "getCurrentProcess u = Some p" and q: "spend_turn (save_current regs p) = (stay, q)"
      and t: "(if stay then Some (address, put_process (unat (currentIndex u)) q u) else dispatch (put_process (unat (currentIndex u)) q u)) = Some (v, t)"
      by (auto simp: Let_def split: Option.bind_splits prod.splits)
    have "slot_ok (currentIndex u) (unat (currentIndex u)) (save_current regs p)"
      using u_ok p by (auto simp: getCurrentProcess_def rd_at_def sched_ok_def slot_ok_def save_current_def split: if_splits)
    note spent = spend_turn_ok [OF this q]
    have w: "sched_ok (put_process (unat (currentIndex u)) q u)" by (rule put_process_ok [OF u_ok spent(1)])
    show ?thesis
    proof (cases stay)
      case True
      then show ?thesis using t w by simp
    next
      case False
      have "none_runs (put_process (unat (currentIndex u)) q u)"
        using u_ok spent(2) [OF False] unfolding none_runs_def put_process_def sched_ok_def slot_ok_def
        by (auto simp: in_set_conv_nth nth_list_update split: if_splits)
      with False t w show ?thesis by (auto intro: dispatch_ok)
    qed
  next
    case False
    then have "none_runs u"
      using u_ok unfolding none_runs_def sched_ok_def slot_ok_def
      by (auto simp: in_set_conv_nth word_less_nat_alt)
    then show ?thesis using False rest u_ok by (auto intro: dispatch_ok)
  qed
qed

lemma sched_step_ok:
  assumes ok: "sched_ok s" and "sched_step s t"
  shows "sched_ok t"
  using assms(2)
proof cases
  case builtin
  then show ?thesis using ok by (auto simp: execv_builtin_def intro: newProcess_ok)
next
  case elf
  then show ?thesis using ok by (auto intro: execv_elf_ok)
next
  case tick
  then show ?thesis using ok by (auto intro: interruptHandler_ok)
next
  case exit
  then show ?thesis by (rule update_current_ok [OF ok]) (simp_all add: terminate_def)
next
  case yield
  then show ?thesis by (rule update_current_ok [OF ok]) simp_all
next
  case lock
  then show ?thesis using ok
    by (auto simp: startAtomicOperation_def sched_ok_def split: Option.bind_splits if_splits)
next
  case unlock
  then show ?thesis using ok by (simp add: endAtomicOperation_def sched_ok_def)
next
  case work
  then show ?thesis by (intro sched_ok_cong [OF ok])
qed

end
