(* ===== verification/Scheduler_Fair.thy ===== *)
theory Scheduler_Fair
  imports Scheduler_Steps
begin

text \<open>
  Fairness of the scheduler: with no process terminating and no lock held, the clock ticks reach
  every ready process, within a number of ticks given by the number of processes.
\<close>

section \<open>Runs of the clock\<close>

fun ticks :: "(u32 \<times> cpu_regs) list \<Rightarrow> tasks \<Rightarrow> tasks list option" where
  "ticks [] s = Some []"
| "ticks ((a, r) # rs) s = do { (v, t) \<leftarrow> interruptHandler a r s; ts \<leftarrow> ticks rs t; Some (t # ts) }"

text \<open>The saved registers never show a stack pointer below the stack of the process they are saved for.\<close>

fun intact :: "(u32 \<times> cpu_regs) list \<Rightarrow> tasks \<Rightarrow> bool" where
  "intact [] s = True"
| "intact ((a, r) # rs) s =
     ((case getCurrentProcess s of None \<Rightarrow> True | Some p \<Rightarrow> checkStackOverflow (save_current r p) \<noteq> None) \<and>
      (case interruptHandler a r s of None \<Rightarrow> True | Some (v, t) \<Rightarrow> intact rs t))"

definition quiet :: "tasks \<Rightarrow> bool" where
  "quiet s = (sched_ok s \<and> atomicLevel s = 0 \<and> processes s \<noteq> [] \<and> (\<forall>p\<in>set (processes s). pr_state p \<noteq> Terminated))"

abbreviation state_of :: "tasks \<Rightarrow> nat \<Rightarrow> pstate" where
  "state_of s i \<equiv> pr_state (processes s ! i)"

definition ring :: "tasks \<Rightarrow> nat \<Rightarrow> nat" where
  "ring s d = (unat (currentIndex s) + d) mod length (processes s)"

definition turn :: "tasks \<Rightarrow> nat" where
  "turn s = (if currentIndex s < 512 then unat (pr_age (processes s ! unat (currentIndex s))) else 0)"

section \<open>The search\<close>

lemma scan_first:
  assumes "a \<le> c" and "c < b" and "pr_state (ps ! unat ((cur + 1 + of_nat c) mod of_nat (length ps) :: u32)) = Ready"
  shows "\<exists>k. a \<le> k \<and> k \<le> c \<and> scan ps cur [a..<b] n = (cur + 1 + of_nat k) mod of_nat (length ps) \<and>
    pr_state (ps ! unat ((cur + 1 + of_nat k) mod of_nat (length ps) :: u32)) = Ready"
  using assms(1)
proof (induction "c - a" arbitrary: a n)
  case 0
  then show ?case using assms by (auto simp: upt_conv_Cons Let_def)
next
  case (Suc m)
  have up: "[a..<b] = a # [Suc a..<b]" using Suc.hyps(2) assms(2) by (intro upt_conv_Cons) linarith
  show ?case
  proof (cases "pr_state (ps ! unat ((cur + 1 + of_nat a) mod of_nat (length ps) :: u32)) = Ready")
    case True
    then show ?thesis using Suc.prems by (intro exI [where x = a]) (simp add: up Let_def)
  next
    case False
    have "m = c - Suc a" and "Suc a \<le> c" using Suc.hyps(2) by linarith+
    from Suc.hyps(1) [OF this, of "(cur + 1 + of_nat a) mod of_nat (length ps)"]
    obtain k where "Suc a \<le> k" and "k \<le> c"
      and "scan ps cur [Suc a..<b] ((cur + 1 + of_nat a) mod of_nat (length ps)) = (cur + 1 + of_nat k) mod of_nat (length ps)"
      and "pr_state (ps ! unat ((cur + 1 + of_nat k) mod of_nat (length ps) :: u32)) = Ready" by blast
    with False show ?thesis by (intro exI [where x = k]) (simp add: up Let_def)
  qed
qed

lemma ring_word:
  assumes "sched_ok s" and "processes s \<noteq> []" and "k < length (processes s)"
  shows "unat ((currentIndex s + 1 + of_nat k) mod of_nat (length (processes s)) :: u32) = ring s (Suc k)"
proof -
  have c: "unat (currentIndex s) \<le> 512" and n: "length (processes s) \<le> 511"
    using assms(1) by (auto simp: sched_ok_def)
  have "unat (currentIndex s + 1 + of_nat k :: u32) = unat (currentIndex s) + 1 + k"
  proof -
    have "currentIndex s + 1 + of_nat k = (of_nat (unat (currentIndex s) + 1 + k) :: u32)" by simp
    then show ?thesis using c n assms(3) by (simp only: unat_of_nat) (simp add: take_bit_nat_eq_self)
  qed
  then show ?thesis using n by (simp add: ring_def unat_mod unat_of_nat take_bit_nat_eq_self)
qed

lemma next_process_first:
  assumes ok: "sched_ok s" and "0 < d" and "d \<le> length (processes s)" and "state_of s (ring s d) = Ready"
  obtains e where "0 < e" and "e \<le> d" and "unat (next_process s) = ring s e" and "state_of s (ring s e) = Ready"
proof -
  have ne: "processes s \<noteq> []" using assms(2,3) by auto
  have "state_of s (unat ((currentIndex s + 1 + of_nat (d - 1)) mod of_nat (length (processes s)) :: u32)) = Ready"
    using assms ring_word [OF ok ne, of "d - 1"] by simp
  moreover have "d - 1 < length (processes s)" using assms(2,3) by linarith
  ultimately obtain k where "k \<le> d - 1" and "next_process s = (currentIndex s + 1 + of_nat k) mod of_nat (length (processes s))"
    and "state_of s (unat ((currentIndex s + 1 + of_nat k) mod of_nat (length (processes s)) :: u32)) = Ready"
    using scan_first [of 0 "d - 1" "length (processes s)" "processes s" "currentIndex s"]
    unfolding next_process_def by blast
  with ring_word [OF ok ne, of k] assms(2,3) show ?thesis by (intro that [of "Suc k"]) auto
qed

section \<open>One tick\<close>

lemma reap_none:
  assumes "\<forall>p\<in>set (processes s). pr_state p \<noteq> Terminated" and "\<forall>i\<in>set is. i < length (processes s)"
  shows "fold_opt reap is s = Some s"
  using assms(2) by (induction "is") (use assms(1) in \<open>auto simp: reap_def rd_at_def\<close>)

lemma record_eip_keeps:
  "currentIndex (record_eip e s) = currentIndex s" "atomicLevel (record_eip e s) = atomicLevel s"
  "length (processes (record_eip e s)) = length (processes s)"
  by (simp_all add: record_eip_def put_process_def split: option.split)

lemma record_eip_keys: "task_keys (record_eip e s) = task_keys s"
  by (rule nth_equalityI)
    (auto simp: record_eip_def put_process_def task_keys_def getCurrentProcess_def rd_at_def nth_list_update
      split: option.split if_splits)

lemma task_keys_state:
  assumes "task_keys t = task_keys s" and "i < length (processes s)"
  shows "state_of t i = state_of s i" and "pr_age (processes t ! i) = pr_age (processes s ! i)"
proof -
  have len: "length (processes t) = length (processes s)"
    using arg_cong [OF assms(1), of length] by (simp add: task_keys_def)
  with arg_cong [OF assms(1), of "\<lambda>xs. xs ! i"] assms(2)
  show "state_of t i = state_of s i" "pr_age (processes t ! i) = pr_age (processes s ! i)"
    by (simp_all add: task_keys_def)
qed

text \<open>A tick either leaves the current process its turn or passes the turn on.\<close>

definition stays :: "tasks \<Rightarrow> tasks \<Rightarrow> bool" where
  "stays s t = (currentIndex t = currentIndex s \<and> (\<forall>j<length (processes s). state_of t j = state_of s j) \<and> turn t < turn s)"

definition switches :: "tasks \<Rightarrow> tasks \<Rightarrow> bool" where
  "switches s t =
     (\<exists>u. sched_ok u \<and> currentIndex u = currentIndex s \<and> length (processes u) = length (processes s) \<and>
        (\<forall>j<length (processes s). state_of s j = Ready \<longrightarrow> state_of u j = Ready) \<and>
        currentIndex t = next_process u \<and> state_of t (unat (currentIndex t)) = Running \<and>
        (\<forall>j<length (processes s). j \<noteq> unat (currentIndex t) \<longrightarrow> state_of u j = Ready \<longrightarrow> state_of t j = Ready))"

lemma dispatch_total:
  assumes ok: "sched_ok u" and ne: "processes u \<noteq> []" and none: "none_runs u" and at: "atomicLevel u = 0"
    and alive: "\<forall>p\<in>set (processes u). pr_state p \<noteq> Terminated"
  obtains v t where "dispatch u = Some (v, t)" and "quiet t" and "length (processes t) = length (processes u)"
    and "currentIndex t = next_process u" and "state_of t (unat (currentIndex t)) = Running"
    and "\<forall>j<length (processes u). j \<noteq> unat (currentIndex t) \<longrightarrow> state_of t j = state_of u j"
proof -
  define n where "n = unat (next_process u)"
  have n: "n < length (processes u)" unfolding n_def by (rule next_process_range [OF ok ne])
  let ?p = "(processes u ! n)\<lparr>pr_state := Running, pr_upTime := pr_upTime (processes u ! n) + 1\<rparr>"
  obtain v t where d: "dispatch u = Some (v, t)" and t: "processes t = (processes u)[n := ?p]"
      "currentIndex t = next_process u" "atomicLevel t = 0"
    using n at by (auto simp: dispatch_def Let_def update_current_def getCurrentProcess_def rd_at_def put_process_def n_def [symmetric])
  have "quiet t"
    using dispatch_ok [OF ok none d] ne alive t n
    by (auto simp: quiet_def dest!: set_update_subset_insert [THEN subsetD])
  then show ?thesis using that [OF d] t n by (simp add: n_def [symmetric])
qed

lemma checkStackOverflow_eip:
  "checkStackOverflow (save_current r (p\<lparr>pr_lastEip := e\<rparr>)) = checkStackOverflow (save_current r p)"
  by (simp add: checkStackOverflow_def save_current_def Let_def)

lemma spend_turn_cases:
  assumes "spend_turn p = (stay, q)"
  shows "stay \<Longrightarrow> pr_state q = pr_state p \<and> unat (pr_age q) < unat (pr_age p)"
    and "\<not> stay \<Longrightarrow> pr_state q = pr_state p \<or> pr_state q = Ready"
proof -
  have "unat (pr_age p - 1) < unat (pr_age p)" if "0 < pr_age p"
    using that unat_minus_one [of "pr_age p"] word_less_nat_alt [of 0 "pr_age p"] by fastforce
  then show "stay \<Longrightarrow> pr_state q = pr_state p \<and> unat (pr_age q) < unat (pr_age p)"
    and "\<not> stay \<Longrightarrow> pr_state q = pr_state p \<or> pr_state q = Ready"
    using assms by (auto simp: spend_turn_def Let_def split: if_splits)
qed

lemma quiet_record_eip: "quiet s \<Longrightarrow> quiet (record_eip e s)"
proof -
  assume q: "quiet s"
  have "pr_state p \<noteq> Terminated" if "p \<in> set (processes (record_eip e s))" for p
  proof -
    from that obtain i where "i < length (processes s)" "p = processes (record_eip e s) ! i"
      by (auto simp: in_set_conv_nth record_eip_keeps)
    then show ?thesis using q task_keys_state(1) [OF record_eip_keys, of i s e] by (simp add: quiet_def)
  qed
  moreover have "processes (record_eip e s) \<noteq> []"
    using q record_eip_keeps(3) [of e s] unfolding quiet_def by (metis length_0_conv)
  ultimately show ?thesis using q record_eip_ok [of s e] by (simp add: quiet_def record_eip_keeps)
qed

lemma sched_ok_slot: "sched_ok s \<Longrightarrow> i < length (processes s) \<Longrightarrow> slot_ok (currentIndex s) i (processes s ! i)"
  unfolding sched_ok_def by blast

lemma turn_bound: "sched_ok s \<Longrightarrow> turn s \<le> 10"
proof (cases "currentIndex s < 512")
  case True
  assume ok: "sched_ok s"
  with True have "unat (currentIndex s) < length (processes s)" by (auto simp: sched_ok_def)
  with sched_ok_slot [OF ok] have "pr_age (processes s ! unat (currentIndex s)) \<le> 10" by (simp add: slot_ok_def)
  then show ?thesis using True by (simp add: turn_def word_le_nat_alt)
qed (simp add: turn_def)

lemma tick_cases:
  assumes q: "quiet s" and int: "intact ((a, r) # rs) s"
  obtains v t where "interruptHandler a r s = Some (v, t)" and "quiet t" and "length (processes t) = length (processes s)"
    and "stays s t \<or> switches s t"
proof -
  define u where "u = record_eip (r_eip r) s"
  have uq: "quiet u" unfolding u_def by (rule quiet_record_eip [OF q])
  have u: "currentIndex u = currentIndex s" "length (processes u) = length (processes s)" "atomicLevel u = 0"
    using q by (simp_all add: u_def record_eip_keeps quiet_def)
  have us: "state_of u j = state_of s j" "pr_age (processes u ! j) = pr_age (processes s ! j)" if "j < length (processes s)" for j
    using task_keys_state [OF record_eip_keys that] by (simp_all add: u_def)
  have reap: "fold_opt reap [0..<length (processes s)] u = Some u"
    using uq u by (intro reap_none) (auto simp: quiet_def)
  have ne: "processes s \<noteq> []" using q by (simp add: quiet_def)
  have handler: "interruptHandler a r s =
     (if currentIndex u < 512 then do { p \<leftarrow> getCurrentProcess u; let p = save_current r p in do {
            intact \<leftarrow> checkStackOverflow p;
            let (stay, p) = spend_turn p; s = put_process (unat (currentIndex u)) p u in
              if stay then Some (a, s) else dispatch s } } else dispatch u)"
    using q ne reap by (simp add: interruptHandler_def quiet_def u_def)
  show ?thesis
  proof (cases "currentIndex u < 512")
    case False
    have none: "none_runs u"
      using uq False unfolding none_runs_def sched_ok_def slot_ok_def quiet_def
      by (auto simp: in_set_conv_nth word_less_nat_alt)
    obtain v t where d: "dispatch u = Some (v, t)" "quiet t" "length (processes t) = length (processes u)"
        "currentIndex t = next_process u" "state_of t (unat (currentIndex t)) = Running"
        "\<forall>j<length (processes u). j \<noteq> unat (currentIndex t) \<longrightarrow> state_of t j = state_of u j"
      using uq none dispatch_total [of u] by (auto simp: quiet_def)
    have "switches s t" unfolding switches_def
      using d u us uq by (intro exI [where x = u]) (simp add: quiet_def)
    then show ?thesis using that d u(2) False handler by simp
  next
    case True
    let ?c = "unat (currentIndex s)"
    have c: "?c < length (processes s)" using True q u by (auto simp: quiet_def sched_ok_def)
    define p where "p = save_current r ((processes s ! ?c)\<lparr>pr_lastEip := r_eip r\<rparr>)"
    have cur: "getCurrentProcess u = Some ((processes s ! ?c)\<lparr>pr_lastEip := r_eip r\<rparr>)"
      using c by (simp add: u_def record_eip_def getCurrentProcess_def rd_at_def put_process_def)
    obtain b where chk: "checkStackOverflow p = Some b"
      using int c by (auto simp: p_def checkStackOverflow_eip getCurrentProcess_def rd_at_def)
    obtain stay p' where sp: "spend_turn p = (stay, p')" by fastforce
    define w where "w = put_process ?c p' u"
    have h: "interruptHandler a r s = (if stay then Some (a, w) else dispatch w)"
      using True cur chk sp by (simp add: handler w_def u p_def [symmetric] Let_def)
    have pk: "pr_state p = state_of s ?c" "pr_age p = pr_age (processes s ! ?c)"
      by (simp_all add: p_def save_current_def)
    have "slot_ok (currentIndex u) ?c p"
      using sched_ok_slot [of s ?c] q c u by (simp add: p_def save_current_def quiet_def slot_ok_def)
    note spent = spend_turn_ok [OF this sp]
    have wok: "sched_ok w" unfolding w_def using uq by (intro put_process_ok) (simp_all add: spent quiet_def)
    have w: "currentIndex w = currentIndex s" "length (processes w) = length (processes s)" "atomicLevel w = 0"
      by (simp_all add: w_def put_process_def u)
    have wp: "processes w = (processes u)[?c := p']" by (simp add: w_def put_process_def)
    have alive: "\<forall>x\<in>set (processes w). pr_state x \<noteq> Terminated"
    proof -
      have "pr_state p' \<noteq> Terminated"
        using spend_turn_cases [OF sp] pk(1) q c by (cases stay) (auto simp: quiet_def)
      then show ?thesis using uq by (auto simp: wp quiet_def dest!: set_update_subset_insert [THEN subsetD])
    qed
    show ?thesis
    proof (cases stay)
      case True
      have "turn w < turn s"
        using spend_turn_cases(1) [OF sp True] c u \<open>currentIndex u < 512\<close> by (simp add: turn_def w wp pk)
      then have "stays s w"
        using spend_turn_cases(1) [OF sp True] c u us by (simp add: stays_def w wp nth_list_update pk)
      moreover have "quiet w" using wok alive w ne by (auto simp: quiet_def)
      ultimately show ?thesis using that True h w by simp
    next
      case False
      have none: "none_runs w"
        using uq spent(2) [OF False] unfolding none_runs_def sched_ok_def slot_ok_def quiet_def wp
        by (auto simp: in_set_conv_nth nth_list_update u split: if_splits)
      obtain v t where d: "dispatch w = Some (v, t)" "quiet t" "length (processes t) = length (processes w)"
        "currentIndex t = next_process w" "state_of t (unat (currentIndex t)) = Running"
        "\<forall>j<length (processes w). j \<noteq> unat (currentIndex t) \<longrightarrow> state_of t j = state_of w j"
        using dispatch_total [OF wok _ none w(3) alive] w(2) ne by (metis length_0_conv)
      have "state_of w j = Ready" if "j < length (processes s)" "state_of s j = Ready" for j
        using spend_turn_cases(2) [OF sp False] that c us u by (auto simp: wp nth_list_update pk)
      then have "switches s t" unfolding switches_def
        using d w wok by (intro exI [where x = w]) simp
      then show ?thesis using that d w(2) False h by simp
    qed
  qed
qed

section \<open>Runs\<close>

lemma ticks_total: "quiet s \<Longrightarrow> intact rs s \<Longrightarrow> \<exists>ts. ticks rs s = Some ts \<and> length ts = length rs"
proof (induction rs arbitrary: s)
  case (Cons ar rs)
  obtain a r where ar: "ar = (a, r)" by fastforce
  from Cons.prems obtain v t where h: "interruptHandler a r s = Some (v, t)" and "quiet t"
    unfolding ar by (rule tick_cases)
  moreover from h Cons.prems(2) have "intact rs t" by (simp add: ar)
  ultimately show ?case using Cons.IH [of t] by (auto simp: ar)
qed simp

lemma ring_less: "0 < length (processes s) \<Longrightarrow> ring s d < length (processes s)"
  unfolding ring_def by (rule mod_less_divisor)

lemma switch_distance:
  assumes sw: "switches s t" and d: "0 < d" "d \<le> length (processes s)" and rdy: "state_of s (ring s d) = Ready"
    and len: "length (processes t) = length (processes s)"
  shows "unat (currentIndex t) = ring s d \<or>
    (\<exists>d'>0. d' < d \<and> ring t d' = ring s d \<and> state_of t (ring s d) = Ready)"
proof -
  from sw obtain u where u: "sched_ok u" "currentIndex u = currentIndex s" "length (processes u) = length (processes s)"
      "\<forall>j<length (processes s). state_of s j = Ready \<longrightarrow> state_of u j = Ready" "currentIndex t = next_process u"
      "\<forall>j<length (processes s). j \<noteq> unat (currentIndex t) \<longrightarrow> state_of u j = Ready \<longrightarrow> state_of t j = Ready"
    unfolding switches_def by blast
  have ring_u: "ring u e = ring s e" for e by (simp add: ring_def u)
  have lt: "ring s d < length (processes s)" using d by (intro ring_less) linarith
  then have "state_of u (ring u d) = Ready" using u(4) rdy by (simp add: ring_u)
  then obtain e where e: "0 < e" "e \<le> d" "unat (next_process u) = ring u e"
    using next_process_first [OF u(1) d(1)] d(2) u(3) by metis
  show ?thesis
  proof (cases "e = d")
    case True
    then show ?thesis using e u(5) by (simp add: ring_u)
  next
    case False
    have "ring t (d - e) = ring s d"
    proof -
      have "ring t (d - e) = (ring s e + (d - e)) mod length (processes s)"
        using e(3) by (simp add: ring_def [of t] u(5) ring_u len)
      also have "\<dots> = (unat (currentIndex s) + e + (d - e)) mod length (processes s)"
        unfolding ring_def by (rule mod_add_left_eq)
      finally show ?thesis using e(2) by (simp add: ring_def)
    qed
    then show ?thesis using False e u(4-6) lt rdy by (cases "unat (currentIndex t) = ring s d") (auto intro!: exI [where x = "d - e"])
  qed
qed

lemma reaches:
  assumes "quiet s" and "intact rs s" and "0 < d" and "d \<le> length (processes s)" and "state_of s (ring s d) = Ready"
    and "turn s + 11 * d \<le> length rs"
  shows "\<exists>ts t. ticks rs s = Some ts \<and> t \<in> set ts \<and> unat (currentIndex t) = ring s d \<and> state_of t (ring s d) = Running"
  using assms
proof (induction rs arbitrary: s d)
  case Nil
  then show ?case by simp
next
  case (Cons ar rs)
  obtain a r where ar: "ar = (a, r)" by fastforce
  from Cons.prems(1,2) obtain v t where h: "interruptHandler a r s = Some (v, t)" and q: "quiet t"
    and len: "length (processes t) = length (processes s)" and step: "stays s t \<or> switches s t"
    unfolding ar by (rule tick_cases)
  have int: "intact rs t" using h Cons.prems(2) by (simp add: ar)
  have lt: "ring s d < length (processes s)" using Cons.prems(3,4) by (intro ring_less) linarith
  have later: ?case if "0 < d'" "d' \<le> d" "ring t d' = ring s d" "state_of t (ring s d) = Ready" "turn t + 11 * d' \<le> length rs" for d'
    using Cons.IH [OF q int that(1), unfolded that(3) len] that Cons.prems(4) h by (auto simp: ar)
  from step show ?case
  proof
    assume st: "stays s t"
    then have "ring t d = ring s d" by (simp add: stays_def ring_def len)
    then show ?case using st Cons.prems(3,5,6) lt by (intro later) (auto simp: stays_def)
  next
    assume sw: "switches s t"
    from switch_distance [OF sw Cons.prems(3-5) len] show ?case
    proof (elim disjE exE conjE)
      assume "unat (currentIndex t) = ring s d"
      moreover have "state_of t (unat (currentIndex t)) = Running" using sw unfolding switches_def by blast
      ultimately show ?case using ticks_total [OF q int] h by (auto simp: ar)
    next
      fix d'
      assume d': "0 < d'" "d' < d" "ring t d' = ring s d" "state_of t (ring s d) = Ready"
      have "turn t \<le> 10" using q by (intro turn_bound) (simp add: quiet_def)
      with d' Cons.prems(6) show ?case by (intro later) auto
    qed
  qed
qed

lemma ring_reaches: "i < length (processes s) \<Longrightarrow> \<exists>d>0. d \<le> length (processes s) \<and> ring s d = i"
proof -
  assume i: "i < length (processes s)"
  define n where "n = length (processes s)"
  define c where "c = unat (currentIndex s) mod n"
  have c: "c < n" unfolding c_def using i n_def by (intro mod_less_divisor) linarith
  have r: "ring s d = (c + d) mod n" for d by (simp add: ring_def c_def n_def mod_add_left_eq)
  show ?thesis
  proof (cases "c < i")
    case True
    then show ?thesis using i by (intro exI [where x = "i - c"]) (simp add: r n_def [symmetric])
  next
    case False
    then show ?thesis using i c by (intro exI [where x = "n + i - c"]) (simp add: r n_def [symmetric])
  qed
qed

lemma ready_runs:
  assumes "quiet s" and "intact rs s" and "i < length (processes s)" and "state_of s i = Ready"
    and "11 * (length (processes s) + 1) \<le> length rs"
  shows "\<exists>ts t. ticks rs s = Some ts \<and> t \<in> set ts \<and> unat (currentIndex t) = i \<and> state_of t i = Running"
proof -
  obtain d where "0 < d" "d \<le> length (processes s)" "ring s d = i" using ring_reaches [OF assms(3)] by blast
  moreover have "turn s \<le> 10" using assms(1) by (intro turn_bound) (simp add: quiet_def)
  ultimately show ?thesis using reaches [OF assms(1,2), of d] assms(4,5) by auto
qed

end
