(* ===== verification/Windows_Steps.thy ===== *)
theory Windows_Steps
  imports Windows "HOL-Library.Multiset"
begin

text \<open>
  The invariant of the window manager, over every sequence of its operations: window numbers are
  distinct and never 0, no queue of a window holds more than 21 events, a window waiting to be
  erased is not visible, and the mouse stays on the screen.
\<close>

inductive wm_step :: "wm \<Rightarrow> wm \<Rightarrow> bool" where
  mouse: "wm_step s (queueMouseEvent e s)"
| key: "wm_step s (queueKeyboardEvent e s)"
| request: "window_count s \<noteq> - 1 \<Longrightarrow> wm_step s (snd (requestWindow buf x y width height s))"
| close: "closeWindow i s = Some t \<Longrightarrow> wm_step s t"
| erase: "doEraseWindows s = Some t \<Longrightarrow> wm_step s t"
| activate: "wm_step s (setActiveWindow i s)"
| order: "mset ws = mset (wins s) \<Longrightarrow> wm_step s (s\<lparr>wins := ws, sortingNeeded := False\<rparr>)"
| forward_mouse: "forwardMouseEvents s = Some t \<Longrightarrow> wm_step s t"
| forward_key: "forwardKeyboardEvents s = Some t \<Longrightarrow> wm_step s t"
| pop_key: "wm_step s (snd (wm_popKeyboardEvent i s))"
| pop_mouse: "wm_step s (snd (wm_popMouseEvent i s))"

inductive_cases wm_stepE [elim]: "wm_step s t"

definition window_ok :: "wm \<Rightarrow> window \<Rightarrow> bool" where
  "window_ok s w =
     (0 < w_id w \<and> w_id w \<le> window_count s \<and> length (w_keys w) \<le> 21 \<and> length (w_mouse w) \<le> 21 \<and>
      (\<forall>q. deletedQueue s = Some q \<longrightarrow> w_id w \<in> set q \<longrightarrow> \<not> w_visible w))"

definition mouse_ok :: "wm \<Rightarrow> bool" where
  "mouse_ok s = ((0 < fb_w (screen s) \<longrightarrow> mouseX s < fb_w (screen s)) \<and> (0 < fb_h (screen s) \<longrightarrow> mouseY s < fb_h (screen s)))"

definition wm_ok :: "wm \<Rightarrow> bool" where
  "wm_ok s = (distinct (map w_id (wins s)) \<and> (\<forall>w\<in>set (wins s). window_ok s w) \<and> mouse_ok s \<and>
     (\<forall>q. deletedQueue s = Some q \<longrightarrow> (\<forall>i\<in>set q. i \<le> window_count s)))"

subsection \<open>Updating windows in place\<close>

text \<open>A change of one window that keeps its number, lets it hide but not show, and bounds its queues.\<close>

definition tame :: "(window \<Rightarrow> window) \<Rightarrow> bool" where
  "tame f = (\<forall>w. w_id (f w) = w_id w \<and> (w_visible (f w) \<longrightarrow> w_visible w) \<and>
     (length (w_keys w) \<le> 21 \<longrightarrow> length (w_keys (f w)) \<le> 21) \<and>
     (length (w_mouse w) \<le> 21 \<longrightarrow> length (w_mouse (f w)) \<le> 21))"

lemma push_bounded_length: "length q \<le> 21 \<Longrightarrow> length (push_bounded e q) \<le> 21"
  by (auto simp: push_bounded_def)

lemma tame_simps [simp]:
  "tame (raise_window i n)" "tame (\<lambda>w. w\<lparr>w_visible := False\<rparr>)" "tame (win_setPosition x y)"
  "tame (win_queueMouseEvent e)" "tame (\<lambda>w. snd (win_popKeyboardEvent w))" "tame (\<lambda>w. snd (win_popMouseEvent s w))"
  by (auto simp: tame_def raise_window_def win_setPosition_def win_queueMouseEvent_def push_bounded_length
      win_popKeyboardEvent_def win_popMouseEvent_def split: list.splits)

lemma tame_ok: "tame f \<Longrightarrow> window_ok s w \<Longrightarrow> window_ok s (f w)"
  by (simp add: tame_def window_ok_def) blast

lemma map_id_at_window: "tame f \<Longrightarrow> map w_id (at_window i f ws) = map w_id ws"
  by (induction ws) (simp_all add: tame_def)

lemma at_window_ok: "tame f \<Longrightarrow> \<forall>w\<in>set ws. window_ok s w \<Longrightarrow> \<forall>w\<in>set (at_window i f ws). window_ok s w"
  by (induction ws) (auto intro: tame_ok)

lemma window_ok_cong:
  "window_count t = window_count s \<Longrightarrow> deletedQueue t = deletedQueue s \<Longrightarrow> window_ok t = window_ok s"
  by (simp add: window_ok_def fun_eq_iff)

text \<open>What most operations leave alone.\<close>

definition same_manager :: "wm \<Rightarrow> wm \<Rightarrow> bool" where
  "same_manager s t = (window_count t = window_count s \<and> deletedQueue t = deletedQueue s \<and>
     screen t = screen s \<and> mouseX t = mouseX s \<and> mouseY t = mouseY s)"

lemma wm_okI:
  assumes "wm_ok s" and "same_manager s t" and "map w_id (wins t) = map w_id (wins s)"
    and "\<forall>w\<in>set (wins t). window_ok s w"
  shows "wm_ok t"
  using assms window_ok_cong [of t s] by (simp add: wm_ok_def same_manager_def mouse_ok_def)

lemma same_wins: "wm_ok s \<Longrightarrow> same_manager s t \<Longrightarrow> wins t = wins s \<Longrightarrow> wm_ok t"
  by (rule wm_okI) (auto simp: wm_ok_def)

lemma at_window_wm_ok:
  "wm_ok s \<Longrightarrow> tame f \<Longrightarrow> same_manager s t \<Longrightarrow> wins t = at_window i f (wins s) \<Longrightarrow> wm_ok t"
  by (rule wm_okI) (auto simp: map_id_at_window wm_ok_def dest: at_window_ok)

lemma setActiveWindow_ok: "wm_ok s \<Longrightarrow> wm_ok (setActiveWindow i s)"
proof (rule wm_okI [where s = s])
  assume "wm_ok s"
  have t: "tame (raise_window i (length (wins s)))" by simp
  then have id: "w_id (raise_window i (length (wins s)) w) = w_id w" for w unfolding tame_def by blast
  show "map w_id (wins (setActiveWindow i s)) = map w_id (wins s)"
    by (simp add: setActiveWindow_def id)
  show "\<forall>w\<in>set (wins (setActiveWindow i s)). window_ok s w"
    using \<open>wm_ok s\<close> tame_ok [OF t] by (auto simp: setActiveWindow_def wm_ok_def)
qed (simp_all add: same_manager_def setActiveWindow_def)

subsection \<open>Dragging and the mouse\<close>

lemma startDragging_ok: "wm_ok s \<Longrightarrow> wm_ok (startDragging s)"
  using setActiveWindow_ok [of s "getWindowAtPosition (mouseX s) (mouseY s) s"]
  by (auto simp: startDragging_def Let_def same_manager_def split: option.splits
      intro: same_wins [of "setActiveWindow _ s"])

lemma updateDragging_ok: "wm_ok s \<Longrightarrow> wm_ok (updateDragging s)"
  by (auto simp: updateDragging_def Let_def same_manager_def split: option.splits
      intro: at_window_wm_ok [of s "win_setPosition _ _" _ "d_window (drag s)"])

lemma updateMouseButtonState_ok: "wm_ok s \<Longrightarrow> wm_ok (updateMouseButtonState e s)"
proof -
  assume ok: "wm_ok s"
  define u where "u = s\<lparr>wasLeftDown := leftDown s, leftDown := me_left e\<rparr>"
  have eq: "updateMouseButtonState e s =
     (if leftDown u then
        (if \<not> wasLeftDown u then startDragging u else if d_dragging (drag u) then updateDragging u else u)
      else if wasLeftDown u \<and> d_dragging (drag u) then stopDragging u else u)"
    by (simp add: updateMouseButtonState_def Let_def u_def)
  have "wm_ok u" by (rule same_wins [OF ok]) (simp_all add: same_manager_def u_def)
  moreover have "wm_ok (stopDragging u)"
    by (rule same_wins [OF ok]) (simp_all add: same_manager_def stopDragging_def u_def)
  ultimately show ?thesis by (simp add: eq startDragging_ok updateDragging_ok)
qed

lemma clamp_less:
  assumes "0 < w" and "unat w < 2 ^ 16"
  shows "clamp v 0 (w - 1) < w"
proof -
  have "unat (w - 1) = unat w - 1" using assms(1) by (intro unat_minus_one) auto
  then have hi: "sint (w - 1) = int (unat w) - 1" "w - 1 < w"
    using assms by (simp_all add: sint_small word_less_nat_alt)
  show ?thesis
  proof (cases "sint v < 0 \<or> sint (w - 1) < sint v")
    case True
    then show ?thesis using hi(2) assms(1) by (auto simp: clamp_def)
  next
    case False
    then have "int (unat v) \<le> int (unat w) - 1" using hi(1) sint_nonneg [of v] by linarith
    moreover have "0 < unat w" using assms(1) by (simp add: word_less_nat_alt)
    ultimately have "unat v < unat w" by linarith
    then show ?thesis using False by (auto simp: clamp_def word_less_nat_alt)
  qed
qed

lemma updateMousePosition_ok:
  "wm_ok s \<Longrightarrow> wm_ok (updateMousePosition e (fb_w (screen s)) (fb_h (screen s)) s)"
  using clamp_less [of "fb_w (screen s)"] clamp_less [of "fb_h (screen s)"] fb_dims [of "screen s"]
    window_ok_cong [of "updateMousePosition e (fb_w (screen s)) (fb_h (screen s)) s" s]
  by (simp add: wm_ok_def mouse_ok_def updateMousePosition_def)

lemma queueMouseEvent_ok: "wm_ok s \<Longrightarrow> wm_ok (queueMouseEvent e s)"
proof -
  assume "wm_ok s"
  then have "wm_ok (updateMouseButtonState e (updateMousePosition e (fb_w (screen s)) (fb_h (screen s)) s))"
    by (intro updateMouseButtonState_ok updateMousePosition_ok)
  then show ?thesis
    by (auto simp: queueMouseEvent_def Let_def same_manager_def split: option.splits elim: same_wins)
qed

subsection \<open>Every operation\<close>

lemma queueKeyboardEvent_ok: "wm_ok s \<Longrightarrow> wm_ok (queueKeyboardEvent e s)"
proof -
  assume ok: "wm_ok s"
  have "wm_ok (s\<lparr>keyQueue := q\<rparr>)" for q by (rule same_wins [OF ok]) (simp_all add: same_manager_def)
  with setActiveWindow_ok [OF ok] show ?thesis
    using ok by (simp add: queueKeyboardEvent_def Let_def split: option.splits)
qed

lemma window_ok_more:
  "window_ok s w \<Longrightarrow> window_count s \<le> n \<Longrightarrow> window_ok (s\<lparr>window_count := n, wins := ws\<rparr>) w"
  unfolding window_ok_def by (auto intro: order_trans)

lemma requestWindow_ok:
  assumes ok: "wm_ok s" and nowrap: "window_count s \<noteq> - 1"
  shows "wm_ok (snd (requestWindow buf x y width height s))"
proof -
  let ?i = "window_count s + 1"
  let ?t = "s\<lparr>window_count := ?i, wins := wins s @ [newWindow ?i buf x y width height]\<rparr>"
  have lt: "window_count s < ?i" "0 < ?i" proof -
    have "1 + window_count s \<noteq> 0" using nowrap by (metis add_eq_0_iff minus_equation_iff)
    then have "unat ?i = Suc (unat (window_count s))" by (subst add.commute) (rule unatSuc)
    then show "window_count s < ?i" "0 < ?i" by (simp_all only: word_less_nat_alt unat_0)
  qed
  have old: "w_id w < ?i" if "w \<in> set (wins s)" for w
    using ok that lt(1) by (auto simp: wm_ok_def window_ok_def)
  have "?i \<notin> set q" if "deletedQueue s = Some q" for q
  proof
    assume "?i \<in> set q"
    then have "?i \<le> window_count s" using ok that by (auto simp: wm_ok_def)
    with lt(1) show False by simp
  qed
  then have fresh: "window_ok ?t (newWindow ?i buf x y width height)"
    using ok lt by (auto simp: window_ok_def newWindow_def wm_ok_def)
  have "wm_ok ?t"
    unfolding wm_ok_def
  proof (intro conjI)
    show "distinct (map w_id (wins ?t))" using ok old by (force simp: wm_ok_def newWindow_def)
    show "\<forall>w\<in>set (wins ?t). window_ok ?t w"
      using fresh ok lt(1) by (auto simp: wm_ok_def intro: window_ok_more)
    show "mouse_ok ?t" using ok by (simp add: wm_ok_def mouse_ok_def)
    show "\<forall>q. deletedQueue ?t = Some q \<longrightarrow> (\<forall>i\<in>set q. i \<le> window_count ?t)"
      using ok lt(1) by (fastforce simp: wm_ok_def)
  qed
  then show ?thesis by (simp add: requestWindow_def Let_def setActiveWindow_ok)
qed

lemma at_window_hidden:
  "distinct (map w_id ws) \<Longrightarrow> w \<in> set (at_window i (\<lambda>w. w\<lparr>w_visible := False\<rparr>) ws) \<Longrightarrow> w_id w = i \<Longrightarrow> \<not> w_visible w"
proof (induction ws)
  case (Cons a ws)
  show ?case
  proof (cases "w_id a = i")
    case True
    have "w = a\<lparr>w_visible := False\<rparr> \<or> w \<in> set ws" using True Cons.prems(2) by simp
    moreover have "i \<notin> w_id ` set ws" using True Cons.prems(1) by simp
    ultimately show ?thesis using Cons.prems(3) by (elim disjE) (simp, blast)
  next
    case False
    then have "w \<in> set (at_window i (\<lambda>w. w\<lparr>w_visible := False\<rparr>) ws)" using Cons.prems by auto
    then show ?thesis using Cons by simp
  qed
qed simp

lemma closeWindow_ok:
  assumes ok: "wm_ok s" and close: "closeWindow i s = Some t"
  shows "wm_ok t"
proof (cases "i \<in> w_id ` set (wins s)")
  case False
  then show ?thesis using close setActiveWindow_ok [OF ok, of 0] by (auto simp: closeWindow_def)
next
  case True
  let ?f = "\<lambda>w. w\<lparr>w_visible := False\<rparr>"
  from True close obtain q where q: "deletedQueue s = Some q"
    and t: "t = setActiveWindow 0 (s\<lparr>wins := at_window i ?f (wins s), deletedQueue := Some (q @ [i])\<rparr>)"
    by (simp add: closeWindow_def bind_eq_Some_conv) blast
  let ?u = "s\<lparr>wins := at_window i ?f (wins s), deletedQueue := Some (q @ [i])\<rparr>"
  have ws: "\<forall>w\<in>set (at_window i ?f (wins s)). window_ok s w"
    using at_window_ok [of ?f "wins s" s i] ok by (simp add: wm_ok_def)
  have hid: "\<not> w_visible w" if "w \<in> set (at_window i ?f (wins s))" "w_id w = i" for w
    using at_window_hidden [OF _ that] ok by (simp add: wm_ok_def)
  have "wm_ok ?u"
    unfolding wm_ok_def
  proof (intro conjI)
    show "distinct (map w_id (wins ?u))" using ok by (simp add: map_id_at_window wm_ok_def)
    show "\<forall>w\<in>set (wins ?u). window_ok ?u w" using ws hid q by (auto simp: window_ok_def)
    show "mouse_ok ?u" using ok by (simp add: wm_ok_def mouse_ok_def)
    have "i \<le> window_count s" using True ok by (auto simp: wm_ok_def window_ok_def)
    then show "\<forall>q. deletedQueue ?u = Some q \<longrightarrow> (\<forall>i\<in>set q. i \<le> window_count ?u)"
      using ok q by (auto simp: wm_ok_def)
  qed
  then show ?thesis by (simp add: t setActiveWindow_ok)
qed

lemma fold_filter: "fold (\<lambda>i. filter (\<lambda>w. w_id w \<noteq> i)) q ws = filter (\<lambda>w. w_id w \<notin> set q) ws"
  by (induction q arbitrary: ws) (auto simp: conj_commute intro: arg_cong [where f = "\<lambda>P. filter P _"])

lemma doEraseWindows_ok:
  assumes ok: "wm_ok s" and erase: "doEraseWindows s = Some t"
  shows "wm_ok t"
proof -
  from erase obtain q where "t = s\<lparr>wins := filter (\<lambda>w. w_id w \<notin> set q) (wins s), deletedQueue := Some []\<rparr>"
    by (auto simp: doEraseWindows_def bind_eq_Some_conv fold_filter)
  with ok show ?thesis
    by (auto simp: wm_ok_def mouse_ok_def window_ok_def distinct_map inj_on_def)
qed

lemma forwardMouseEvents_ok:
  assumes ok: "wm_ok s" and fwd: "forwardMouseEvents s = Some t"
  shows "wm_ok t"
proof -
  let ?step = "\<lambda>e s. let i = getWindowAtPosition (me_x e) (me_y e) s in
                   if i = 0 then s else s\<lparr>wins := at_window i (win_queueMouseEvent e) (wins s)\<rparr>"
  have step: "wm_ok (?step e s)" if "wm_ok s" for e s
    using that by (auto simp: Let_def same_manager_def intro: at_window_wm_ok [OF that tame_simps(4)])
  have fold: "wm_ok s \<Longrightarrow> wm_ok (fold ?step q s)" for q s
    by (induction q arbitrary: s) (simp_all only: fold_simps step)
  have "wm_ok (s\<lparr>mouseQueue := Some []\<rparr>)" by (rule same_wins [OF ok]) (simp_all add: same_manager_def)
  with fwd fold show ?thesis by (auto simp: forwardMouseEvents_def bind_eq_Some_conv)
qed

lemma forward_keys_ok: "wm_ok s \<Longrightarrow> forward_keys n q s = Some t \<Longrightarrow> wm_ok t"
proof (induction n q s rule: forward_keys.induct)
  case (1 q s)
  then show ?case by (auto simp: same_manager_def intro: same_wins)
next
  case (2 n q s)
  show ?case
  proof (cases "getWindowById (activeWindowId s) s")
    case None
    then show ?thesis using 2 by simp
  next
    case (Some w)
    with 2(4) obtain e q' w' where q: "q = e # q'" and w': "win_queueKeyboardEvent e w = Some w'"
      and t: "forward_keys n q' (s\<lparr>wins := at_window (activeWindowId s) (\<lambda>_. w') (wins s)\<rparr>) = Some t"
      by (auto simp: bind_eq_Some_conv split: list.splits)
    have "w \<in> set (wins s)" "w_id w = activeWindowId s" using Some by (auto simp: getWindowById_def find_Some_iff)
    then have "window_ok s w'" "w_id w' = activeWindowId s"
      using w' 2(3) by (auto simp: wm_ok_def window_ok_def win_queueKeyboardEvent_def push_bounded_length split: if_splits)
    then have put: "\<forall>w\<in>set (at_window (activeWindowId s) (\<lambda>_. w') ws). window_ok s w"
      "map w_id (at_window (activeWindowId s) (\<lambda>_. w') ws) = map w_id ws" if "\<forall>w\<in>set ws. window_ok s w" for ws
      using that by (induction ws) auto
    then have "wm_ok (s\<lparr>wins := at_window (activeWindowId s) (\<lambda>_. w') (wins s)\<rparr>)"
      using 2(3) put [of "wins s"] by (intro wm_okI [OF 2(3)]) (simp_all add: same_manager_def wm_ok_def)
    from "2.IH"(2) [OF refl Some q w' this t] show ?thesis .
  qed
qed

lemma forwardKeyboardEvents_ok: "wm_ok s \<Longrightarrow> forwardKeyboardEvents s = Some t \<Longrightarrow> wm_ok t"
  by (auto simp: forwardKeyboardEvents_def bind_eq_Some_conv same_manager_def
      intro: same_wins elim: forward_keys_ok split: if_splits)

lemma reorder_ok:
  assumes ok: "wm_ok s" and ws: "mset ws = mset (wins s)"
  shows "wm_ok (s\<lparr>wins := ws, sortingNeeded := False\<rparr>)"
proof -
  have "mset (map w_id ws) = mset (map w_id (wins s))" using ws by simp
  then have "distinct (map w_id ws)" using ok mset_eq_imp_distinct_iff unfolding wm_ok_def by blast
  moreover have "set ws = set (wins s)" using ws by (rule mset_eq_setD)
  ultimately show ?thesis
    using ok window_ok_cong [of "s\<lparr>wins := ws, sortingNeeded := False\<rparr>" s] by (simp add: wm_ok_def mouse_ok_def)
qed

lemma pops_ok:
  assumes ok: "wm_ok s"
  shows "wm_ok (snd (wm_popKeyboardEvent i s))" and "wm_ok (snd (wm_popMouseEvent i s))"
  using ok at_window_wm_ok [OF ok tame_simps(5), of _ i] at_window_wm_ok [OF ok tame_simps(6), of _ i s]
  by (auto simp: wm_popKeyboardEvent_def wm_popMouseEvent_def same_manager_def split: option.splits)

lemmas operations_ok = queueMouseEvent_ok queueKeyboardEvent_ok requestWindow_ok closeWindow_ok doEraseWindows_ok
  setActiveWindow_ok reorder_ok forwardMouseEvents_ok forwardKeyboardEvents_ok pops_ok

lemma wm_step_ok: "wm_step s t \<Longrightarrow> wm_ok s \<Longrightarrow> wm_ok t"
  by (induction rule: wm_step.induct) (blast intro: operations_ok)+

definition ex_screen :: framebuf where
  "ex_screen = \<lparr>fb_width = 4, fb_height = 3, fb_front = replicate 12 0, fb_back = replicate 12 0\<rparr>"

definition ex_wm :: wm where
  "ex_wm = wm_initialize \<lparr>wins = [], activeWindowId = 0, keyQueue = None, mouseQueue = None, deletedQueue = None,
     mouseX = 0, mouseY = 0, leftDown = False, wasLeftDown = False,
     drag = \<lparr>d_window = 0, d_offsetX = 0, d_offsetY = 0, d_dragging = False\<rparr>, sortingNeeded = False, window_count = 0,
     screen = ex_screen\<rparr>"

lemma initialize_wm_ok: "wins s = [] \<Longrightarrow> wm_ok (wm_initialize s)"
  using fb_dims [of "screen s"]
  by (auto simp: wm_ok_def mouse_ok_def wm_initialize_def word_less_nat_alt unat_div)

end
