(* ===== verification/Scheduler_Laws.thy ===== *)
theory Scheduler_Laws
  imports Scheduler_Fair Windows_Steps Mem_Laws Kernel_Laws
begin

text \<open>Properties of the scheduler, with a table of two processes as the example.\<close>

definition ex_process :: "u32 \<Rightarrow> pstate \<Rightarrow> process" where
  "ex_process i st = \<lparr>pr_pid = i, pr_age = 2, pr_state = st, pr_mode = User, pr_priority = Low, pr_regs = zero_regs,
     pr_exitCode = - 1, pr_pages = [], pr_stdout = [], pr_stderr = [], pr_command = [], pr_args = [], pr_env = [],
     pr_auxv = [], pr_dir = 0, pr_userStack = 0x80000, pr_kernelStack = 0x90000, pr_windows = [], pr_fds = newDescriptorTable,
     pr_entryEip = 0, pr_lastEip = 0, pr_argvBlock = 0, pr_upTime = 0, pr_cpuTime = 0, pr_startTime = 0,
     pr_initial_brk = 0, pr_current_brk = 0, pr_max_brk = 0\<rparr>"

definition ex_tasks :: "process list \<Rightarrow> u32 \<Rightarrow> tasks" where
  "ex_tasks ps cur = \<lparr>k_paging = Mem_Laws.ex_paging, k_dir = 0x5000, k_lastPage = 256, k_mem = (\<lambda>_. 0), k_vfs = ex_tree,
     k_wm = ex_wm, k_ticks = 0, k_dispatcher = 0x1000, k_selectors = (\<lambda>_. (0x23, 0x1B)), k_kernelStack = 0,
     processes = ps, currentIndex = cur, atomicLevel = 0, pid_count = of_nat (length ps), k_overrun = False\<rparr>"

definition top_regs :: cpu_regs where
  "top_regs = zero_regs\<lparr>r_esp := - 1, r_userEsp := - 1\<rparr>"

lemma top_regs_intact: "intact (replicate n (a, top_regs)) s"
proof (induction n arbitrary: s)
  case (Suc n)
  have "checkStackOverflow (save_current top_regs p) \<noteq> None" for p
    by (simp add: checkStackOverflow_def save_current_def top_regs_def Let_def not_less)
  with Suc show ?case by (auto split: option.split)
qed simp

lemma ex_tasks_quiet: "quiet (ex_tasks [ex_process 0 Running, ex_process 1 Ready] 0)"
  by (auto simp: quiet_def sched_ok_def slot_ok_def ex_tasks_def ex_process_def less_Suc_eq nth_Cons')

text \<open>C38: Whatever the processes do, whenever the clock ticks and whichever programs are started, a
  process is found under its number, at most the current process is running, and the table never
  outgrows the space reserved for it.
\<close>

theorem scheduler_invariant:
  assumes "sched_ok s" and "sched_step\<^sup>*\<^sup>* s t"
  shows "sched_ok t \<and> (\<forall>i p. getProcess i t = Some p \<longrightarrow> pr_pid p = i)"
proof -
  from assms(2) have "sched_ok t"
    by induction (use assms(1) sched_step_ok in auto)
  moreover from this have "getProcess i t = Some p \<Longrightarrow> pr_pid p = i" for i p
    using sched_ok_slot [of t "unat i"] by (auto simp: getProcess_def rd_at_def slot_ok_def split: if_splits)
  ultimately show ?thesis by blast
qed

theorem scheduler_invariant_witness:
  "\<exists>t. sched_step\<^sup>*\<^sup>* (ex_tasks [ex_process 0 Running, ex_process 1 Ready] 0) t \<and> sched_ok t \<and>
     (\<forall>i p. getProcess i t = Some p \<longrightarrow> pr_pid p = i)"
proof -
  let ?s = "ex_tasks [ex_process 0 Running, ex_process 1 Ready] 0"
  have "intact [(0, top_regs)] ?s" using top_regs_intact [of 1 0 ?s] by (simp only: One_nat_def replicate.simps)
  then obtain v t where "interruptHandler 0 top_regs ?s = Some (v, t)" by (rule tick_cases [OF ex_tasks_quiet])
  then have "sched_step\<^sup>*\<^sup>* ?s t" by (intro r_into_rtranclp tick)
  moreover have "sched_ok ?s" using ex_tasks_quiet by (simp add: quiet_def)
  ultimately show ?thesis using scheduler_invariant [of ?s t] by blast
qed

text \<open>C37: The scheduler starves no process: while no process ends and no lock is held, a process that
  is ready runs within eleven ticks of the clock per process, and the ticks never stop the kernel.
\<close>

theorem scheduler_fair:
  assumes "quiet s" and "intact rs s" and "i < length (processes s)" and "pr_state (processes s ! i) = Ready"
    and "11 * (length (processes s) + 1) \<le> length rs"
  shows "\<exists>ts t. ticks rs s = Some ts \<and> t \<in> set ts \<and> unat (currentIndex t) = i \<and> pr_state (processes t ! i) = Running"
  using assms by (rule ready_runs)

theorem scheduler_fair_witness:
  "\<exists>ts t. ticks (replicate 33 (0, top_regs)) (ex_tasks [ex_process 0 Running, ex_process 1 Ready] 0) = Some ts \<and>
     t \<in> set ts \<and> unat (currentIndex t) = 1 \<and> pr_state (processes t ! 1) = Running"
  by (rule scheduler_fair [OF ex_tasks_quiet top_regs_intact]) (simp_all add: ex_tasks_def ex_process_def)

lemma scan_none:
  assumes "\<forall>i. i < length ps \<longrightarrow> pr_state (ps ! i) \<noteq> Ready" and "0 < length ps" and "length ps < 2 ^ 32"
  shows "scan ps cur is n = (if is = [] then n else (cur + 1 + of_nat (last is)) mod of_nat (length ps))"
proof (induction "is" arbitrary: n)
  case (Cons i "is")
  have "unat ((cur + 1 + of_nat i) mod of_nat (length ps) :: u32) < length ps"
    using assms(2,3) by (simp add: unat_mod unat_of_nat take_bit_nat_eq_self)
  then show ?case using assms(1) Cons.IH by (simp add: Let_def)
qed simp

lemma next_process_none:
  assumes ok: "sched_ok s" and cur: "unat (currentIndex s) < length (processes s)"
    and none: "\<forall>i<length (processes s). pr_state (processes s ! i) \<noteq> Ready"
  shows "next_process s = currentIndex s"
proof -
  let ?n = "length (processes s)"
  have ne: "processes s \<noteq> []" and n: "?n \<le> 511" using cur ok by (auto simp: sched_ok_def)
  have "next_process s = (currentIndex s + 1 + of_nat (?n - 1)) mod of_nat ?n"
    using scan_none [OF none] ne n by (simp add: next_process_def)
  moreover have "unat \<dots> = ring s ?n" using ring_word [OF ok ne, of "?n - 1"] ne by simp
  moreover have "ring s ?n = unat (currentIndex s)" using cur by (simp add: ring_def)
  ultimately show ?thesis by (simp add: word_unat_eq_iff)
qed

text \<open>When the process that has just ended is the current one and no other process is ready, the
  scheduler resumes it: its state is running again.
\<close>

lemma ended_process_resumed:
  assumes ok: "sched_ok s" and at: "atomicLevel s = 0" and cur: "getCurrentProcess s = Some p" and ended: "pr_state p = Terminated"
    and others: "\<forall>j<length (processes s). j \<noteq> unat (currentIndex s) \<longrightarrow>
      pr_state (processes s ! j) \<noteq> Ready \<and> pr_state (processes s ! j) \<noteq> Terminated"
    and stack: "checkStackOverflow (save_current regs p) \<noteq> None"
  shows "\<exists>v t q. interruptHandler a regs s = Some (v, t) \<and> getCurrentProcess t = Some q \<and> pr_pid q = pr_pid p \<and> pr_state q = Running"
proof -
  let ?c = "unat (currentIndex s)"
  have c: "?c < length (processes s)" and p: "p = processes s ! ?c"
    using cur by (auto simp: getCurrentProcess_def rd_at_def split: if_splits)
  then have cur512: "currentIndex s < 512" using ok by (auto simp: sched_ok_def word_less_nat_alt)
  define u where "u = record_eip (r_eip regs) s"
  have u: "processes u = (processes s)[?c := p\<lparr>pr_lastEip := r_eip regs\<rparr>]" "currentIndex u = currentIndex s"
    using cur by (simp_all add: u_def record_eip_def put_process_def)
  have u_ok: "sched_ok u" unfolding u_def by (rule record_eip_ok [OF ok])
  have reap1: "reap j u = Some u" if "j < length (processes s)" for j
  proof (cases "j = ?c")
    case True
    then show ?thesis by (simp add: reap_def u)
  next
    case False
    then have "pr_state (processes u ! j) \<noteq> Terminated" using others that by (simp add: u)
    then show ?thesis using that by (simp add: reap_def rd_at_def u)
  qed
  have "fold_opt reap is u = Some u" if "\<forall>j\<in>set is. j < length (processes s)" for "is"
    using that by (induction "is") (simp_all add: reap1)
  then have reaped: "fold_opt reap [0..<length (processes s)] u = Some u" by simp
  define q where "q = save_current regs (p\<lparr>pr_lastEip := r_eip regs\<rparr>)"
  define w where "w = put_process ?c q u"
  have q: "pr_state q = Terminated" "pr_pid q = pr_pid p" "pr_age q = pr_age p" by (simp_all add: q_def save_current_def ended)
  have w: "processes w = (processes s)[?c := q]" "currentIndex w = currentIndex s" by (simp_all add: w_def put_process_def u)
  obtain b where chk: "checkStackOverflow q = Some b" using stack by (auto simp: q_def checkStackOverflow_eip)
  have h: "interruptHandler a regs s = dispatch w"
    using at c cur512 reaped chk q(1)
    by (auto simp: interruptHandler_def u_def [symmetric] u getCurrentProcess_def rd_at_def q_def [symmetric] Let_def
        spend_turn_def w_def)
  have "slot_ok (currentIndex u) ?c q"
    using sched_ok_slot [OF ok c] q by (simp add: slot_ok_def u p)
  then have w_ok: "sched_ok w" unfolding w_def by (rule put_process_ok [OF u_ok])
  have "next_process w = currentIndex w"
    using c others q by (intro next_process_none [OF w_ok]) (simp_all add: w nth_list_update)
  then show ?thesis
    using c by (auto simp: h dispatch_def Let_def update_current_def getCurrentProcess_def rd_at_def put_process_def w q)
qed

lemma ended_process_resumed_witness:
  "\<exists>v t q. interruptHandler 0 top_regs (ex_tasks [ex_process 0 Terminated] 0) = Some (v, t) \<and>
     getCurrentProcess t = Some q \<and> pr_pid q = 0 \<and> pr_state q = Running"
  using ended_process_resumed [of "ex_tasks [ex_process 0 Terminated] 0" "ex_process 0 Terminated" top_regs 0]
  by (simp add: sched_ok_def slot_ok_def ex_tasks_def getCurrentProcess_def rd_at_def ex_process_def
      checkStackOverflow_def save_current_def top_regs_def not_less)

text \<open>Before the first switch the current index is 512: the tick writes behind the table.\<close>

lemma first_tick_overruns:
  assumes "sched_ok s" and "atomicLevel s = 0" and "processes s \<noteq> []" and "currentIndex s = 512"
  shows "k_overrun (record_eip e s)"
  using assms by (auto simp: record_eip_def getCurrentProcess_def rd_at_def sched_ok_def)

end
