(* ===== verification/Text_Renderer.thy ===== *)
theory Text_Renderer
  imports Frame_Buffer Print_Format
begin

text \<open>
  Text on the screen: \<open>Font::getGlyph\<close>, \<open>setGlyph\<close> (\<open>core/Font.cpp\<close>) and the class \<open>TextRenderer\<close>
  (\<open>core/Display.cpp\<close>). A \<open>char\<close> is signed, so a byte above 127 is widened to a large index and
  takes the first glyph. A shift by more than 31, a division by a glyph of width 0 and a read past
  the terminator of a string are \<open>None\<close>. A \<open>double\<close> cannot be streamed.
\<close>

section \<open>Definitions\<close>

record glyph =
  g_bitmap :: "u32 list"
  g_width :: u32
  g_height :: u32
  g_offsetX :: u16
  g_offsetY :: u16

definition getGlyph :: "glyph list \<Rightarrow> u32 \<Rightarrow> glyph option" where
  "getGlyph font character = (if 128 \<le> character then rd_at font 0 else rd_at font (unat character))"

text \<open>The assignment copies \<open>width\<close> entries of the bitmap and leaves the others.\<close>

definition assign_glyph :: "glyph \<Rightarrow> glyph \<Rightarrow> glyph option" where
  "assign_glyph this other =
     do { row \<leftarrow> slice (g_bitmap other) 0 (unat (g_width other));
          b \<leftarrow> blit (g_bitmap this) 0 row;
          Some (other\<lparr>g_bitmap := b\<rparr>) }"

definition setGlyph :: "u32 \<Rightarrow> glyph \<Rightarrow> glyph list \<Rightarrow> glyph list option" where
  "setGlyph character g font =
     do { old \<leftarrow> rd_at font (unat character); new \<leftarrow> assign_glyph old g; wr_at font (unat character) new }"

datatype numeral_system = Hex | Dec | Bin

record text_renderer =
  tr_font :: "glyph list"
  tr_color :: u32
  tr_repr :: numeral_system
  tr_precision :: u8
  cursor_x :: u32
  cursor_y :: u32
  lineSpacing :: u32
  tabSize :: u32
  position_x :: u32
  position_y :: u32
  area_width :: u32
  area_height :: u32

definition tr_reset :: "text_renderer \<Rightarrow> text_renderer" where
  "tr_reset tr = tr\<lparr>cursor_x := 0, cursor_y := 0\<rparr>"

definition tr_setPosition :: "u32 \<Rightarrow> u32 \<Rightarrow> text_renderer \<Rightarrow> text_renderer" where
  "tr_setPosition x y tr = tr\<lparr>position_x := x, position_y := y\<rparr>"

definition tr_setSize :: "u32 \<Rightarrow> u32 \<Rightarrow> text_renderer \<Rightarrow> text_renderer" where
  "tr_setSize w h tr = tr\<lparr>area_width := w, area_height := h\<rparr>"

definition tr_setCursor :: "u32 \<Rightarrow> u32 \<Rightarrow> text_renderer \<Rightarrow> text_renderer" where
  "tr_setCursor x y tr = tr\<lparr>cursor_x := x, cursor_y := y\<rparr>"

definition newTextRenderer :: "framebuf \<Rightarrow> glyph list \<Rightarrow> text_renderer" where
  "newTextRenderer fb font =
     tr_setSize (fb_w fb) (fb_h fb)
       \<lparr>tr_font = font, tr_color = color_of 255 255 255 255, tr_repr = Dec, tr_precision = 3, cursor_x = 0, cursor_y = 0,
        lineSpacing = 3, tabSize = 8, position_x = 0, position_y = 0, area_width = 640, area_height = 480\<rparr>"

definition next_tab :: "text_renderer \<Rightarrow> u32 \<Rightarrow> u32 option" where
  "next_tab tr at =
     do { g \<leftarrow> getGlyph (tr_font tr) 32;
          let stop = tabSize tr * g_width g in
            if stop = 0 then None else Some ((at div stop + 1) * stop) }"

definition draw_dot :: "text_renderer \<Rightarrow> glyph \<Rightarrow> nat \<Rightarrow> nat \<Rightarrow> framebuf \<Rightarrow> framebuf option" where
  "draw_dot tr g x y fb =
     do { row \<leftarrow> rd_at (g_bitmap g) x;
          if 32 \<le> y then None
          else if row AND push_bit y 1 \<noteq> push_bit y 1 then Some fb
          else
            let x' = position_x tr + cursor_x tr + of_nat x;
                y' = position_y tr + cursor_y tr + ucast (g_offsetY g) + g_height g - of_nat y
            in if position_x tr + area_width tr \<le> x' then Some fb
               else if x' < position_x tr then Some fb
               else if fb_w fb \<le> x' then Some fb
               else if position_y tr + area_height tr \<le> y' then Some fb
               else if y' < position_y tr then Some fb
               else if fb_h fb \<le> y' then Some fb
               else
                 let index = x' + y' * fb_w fb in
                   if getSize fb \<le> index * 4 then Some fb else plot index (tr_color tr) fb }"

definition draw_glyph :: "text_renderer \<Rightarrow> glyph \<Rightarrow> framebuf \<Rightarrow> framebuf option" where
  "draw_glyph tr g =
     fold_opt (\<lambda>x. fold_opt (\<lambda>y. draw_dot tr g x y) [0..<unat (g_height g)]) [0..<unat (g_width g)]"

definition putChar :: "byte \<Rightarrow> text_renderer \<times> framebuf \<Rightarrow> (text_renderer \<times> framebuf) option" where
  "putChar ch st =
     (let (tr, fb) = st in
      if ch = 10 then
        do { g \<leftarrow> getGlyph (tr_font tr) 65;
             Some (tr\<lparr>cursor_x := 0, cursor_y := cursor_y tr + (g_height g + lineSpacing tr)\<rparr>, fb) }
      else if ch = 13 then Some (tr\<lparr>cursor_x := 0\<rparr>, fb)
      else if ch = 9 then do { stop \<leftarrow> next_tab tr (cursor_x tr); Some (tr\<lparr>cursor_x := stop\<rparr>, fb) }
      else do {
        g \<leftarrow> getGlyph (tr_font tr) (scast ch);
        a \<leftarrow> getGlyph (tr_font tr) 65;
        let tr = (if area_width tr \<le> cursor_x tr + g_width g
                  then tr\<lparr>cursor_x := 0, cursor_y := cursor_y tr + (g_height a + 3)\<rparr> else tr) in do {
          fb \<leftarrow> draw_glyph tr g fb;
          Some (tr\<lparr>cursor_x := cursor_x tr + g_width g\<rparr>, fb) } })"

text \<open>The loop of \<open>putString\<close> stops after the character at index 1024.\<close>

fun putString_from :: "nat \<Rightarrow> bytes \<Rightarrow> text_renderer \<times> framebuf \<Rightarrow> (text_renderer \<times> framebuf) option" where
  "putString_from i [] st = None"
| "putString_from i (ch # s) st =
     (if ch = 0 then Some st
      else do { st \<leftarrow> putChar ch st; if 1024 \<le> i then Some st else putString_from (Suc i) s st })"

definition putString :: "bytes \<Rightarrow> text_renderer \<times> framebuf \<Rightarrow> (text_renderer \<times> framebuf) option" where
  "putString = putString_from 0"

definition stream_u64 :: "u64 \<Rightarrow> text_renderer \<times> framebuf \<Rightarrow> (text_renderer \<times> framebuf) option" where
  "stream_u64 num st = do { s \<leftarrow> uitoa64 num 10 False; putString s st }"

definition stream_i64 :: "u64 \<Rightarrow> text_renderer \<times> framebuf \<Rightarrow> (text_renderer \<times> framebuf) option" where
  "stream_i64 num st = do { s \<leftarrow> itoa64 num 10 False; putString s st }"

definition getFormat :: "text_renderer \<Rightarrow> byte" where
  "getFormat tr = (case tr_repr tr of Dec \<Rightarrow> 100 | Hex \<Rightarrow> 120 | Bin \<Rightarrow> 98)"

definition stream_formatted :: "byte \<Rightarrow> u32 \<Rightarrow> text_renderer \<times> framebuf \<Rightarrow> (text_renderer \<times> framebuf) option" where
  "stream_formatted letter num st =
     do { (n, buffer) \<leftarrow> snprintf (replicate 1024 0) 1024 [37, letter, 0] [Word num]; putString buffer st }"

definition stream_u32 :: "u32 \<Rightarrow> text_renderer \<times> framebuf \<Rightarrow> (text_renderer \<times> framebuf) option" where
  "stream_u32 num st = stream_formatted (if tr_repr (fst st) = Dec then 117 else getFormat (fst st)) num st"

definition stream_int :: "u32 \<Rightarrow> text_renderer \<times> framebuf \<Rightarrow> (text_renderer \<times> framebuf) option" where
  "stream_int num st = stream_formatted (getFormat (fst st)) num st"

definition stream_u16 :: "u16 \<Rightarrow> text_renderer \<times> framebuf \<Rightarrow> (text_renderer \<times> framebuf) option" where
  "stream_u16 num st = stream_formatted (getFormat (fst st)) (ucast num) st"

fun calculateWidth_from :: "text_renderer \<Rightarrow> u32 \<Rightarrow> bytes \<Rightarrow> u32 option" where
  "calculateWidth_from tr acc [] = None"
| "calculateWidth_from tr acc (ch # s) =
     (if ch = 0 then Some acc
      else if ch = 9 then do { acc \<leftarrow> next_tab tr acc; calculateWidth_from tr acc s }
      else if ch = 10 \<or> ch = 13 then calculateWidth_from tr acc s
      else do { g \<leftarrow> getGlyph (tr_font tr) (scast ch); calculateWidth_from tr (acc + g_width g) s })"

definition calculateWidth :: "bytes \<Rightarrow> text_renderer \<Rightarrow> u32 option" where
  "calculateWidth s tr = calculateWidth_from tr 0 s"

definition calculateHeight :: "text_renderer \<Rightarrow> u32 option" where
  "calculateHeight tr = map_option g_height (getGlyph (tr_font tr) 124)"

section \<open>Text stays in the buffer\<close>

text \<open>The bitmaps have 32 columns of 32 dots, and the tab stop is not 0.\<close>

definition glyph_ok :: "glyph \<Rightarrow> bool" where
  "glyph_ok g = (length (g_bitmap g) = 32 \<and> unat (g_width g) \<le> 32 \<and> unat (g_height g) \<le> 32)"

definition font_ok :: "glyph list \<Rightarrow> bool" where
  "font_ok font = (length font = 128 \<and> list_all glyph_ok font)"

lemma getGlyph_ok: "font_ok font \<Longrightarrow> \<exists>g. getGlyph font c = Some g \<and> glyph_ok g"
  by (auto simp: getGlyph_def rd_at_def font_ok_def list_all_length word_le_nat_alt)

lemma draw_dot_safe:
  assumes "glyph_ok g" and "x < 32" and "y < 32"
  shows "frame_safe (draw_dot tr g x y)"
proof (rule frame_safeI)
  fix fb
  assume ok: "fb_ok fb"
  let ?x = "position_x tr + cursor_x tr + of_nat x"
    and ?y = "position_y tr + cursor_y tr + ucast (g_offsetY g) + g_height g - of_nat y"
  have id: "\<exists>A. Some fb = Some (painted A (tr_color tr) fb)" by (rule exI [where x = "{}"]) simp
  have "\<exists>A. plot (?x + ?y * fb_w fb) (tr_color tr) fb = Some (painted A (tr_color tr) fb)"
    if "\<not> fb_w fb \<le> ?x" "\<not> fb_h fb \<le> ?y"
  proof -
    have "unat ?x < unat (fb_w fb)" "unat ?y < unat (fb_h fb)" using that by (simp_all add: word_le_nat_alt not_le)
    from plot_px [OF ok this, of "tr_color tr" "{}"] show ?thesis
      by (simp add: add.commute) blast
  qed
  with assms id show "\<exists>A. draw_dot tr g x y fb = Some (painted A (tr_color tr) fb)"
    by (simp add: draw_dot_def rd_at_def glyph_ok_def Let_def)
qed

lemma draw_glyph_safe: "glyph_ok g \<Longrightarrow> frame_safe (draw_glyph tr g)"
  unfolding draw_glyph_def by (intro frame_safe_fold draw_dot_safe) (auto simp: glyph_ok_def)

text \<open>A printed string needs a proper font, a tab stop and a terminator; it paints within the back
  buffer, and changes nothing else of the screen.\<close>

definition prints :: "(text_renderer \<times> framebuf \<Rightarrow> (text_renderer \<times> framebuf) option) \<Rightarrow> bool" where
  "prints f = (\<forall>tr fb. fb_ok fb \<and> font_ok (tr_font tr) \<and> next_tab tr 0 \<noteq> None \<longrightarrow>
     (\<exists>tr' b. f (tr, fb) = Some (tr', fb\<lparr>fb_back := b\<rparr>) \<and> length b = length (fb_back fb) \<and>
        tr_font tr' = tr_font tr \<and> tabSize tr' = tabSize tr))"

lemma prints_intro:
  assumes "\<And>tr fb. fb_ok fb \<Longrightarrow> font_ok (tr_font tr) \<Longrightarrow> next_tab tr 0 \<noteq> None \<Longrightarrow>
     \<exists>tr' b. f (tr, fb) = Some (tr', fb\<lparr>fb_back := b\<rparr>) \<and> length b = length (fb_back fb) \<and>
        tr_font tr' = tr_font tr \<and> tabSize tr' = tabSize tr"
  shows "prints f"
  using assms by (simp add: prints_def)

lemma prints_Some: "prints Some"
proof (rule prints_intro)
  fix tr fb
  show "\<exists>tr' b. Some (tr, fb) = Some (tr', fb\<lparr>fb_back := b\<rparr>) \<and> length b = length (fb_back fb) \<and>
        tr_font tr' = tr_font tr \<and> tabSize tr' = tabSize tr"
    by (intro exI [where x = tr] exI [where x = "fb_back fb"]) simp
qed

lemma next_tab_None: "next_tab tr at = None \<longleftrightarrow> next_tab tr 0 = None"
  by (auto simp: next_tab_def Let_def bind_eq_None_conv)

lemma next_tab_cong: "tr_font tr' = tr_font tr \<Longrightarrow> tabSize tr' = tabSize tr \<Longrightarrow> next_tab tr' = next_tab tr"
  by (simp add: next_tab_def [abs_def])

lemma prints_bind:
  assumes f: "prints f" and g: "prints g"
  shows "prints (\<lambda>st. Option.bind (f st) g)"
proof (rule prints_intro)
  fix tr fb
  assume ok: "fb_ok fb" and font: "font_ok (tr_font tr)" and tab: "next_tab tr 0 \<noteq> None"
  with f obtain tr1 b1 where 1: "f (tr, fb) = Some (tr1, fb\<lparr>fb_back := b1\<rparr>)" and b1: "length b1 = length (fb_back fb)"
    and t1: "tr_font tr1 = tr_font tr" "tabSize tr1 = tabSize tr" unfolding prints_def by blast
  have "fb_ok (fb\<lparr>fb_back := b1\<rparr>)" "font_ok (tr_font tr1)" "next_tab tr1 0 \<noteq> None"
    using frame_safe_ok [OF ok b1] font tab next_tab_cong [OF t1] t1 by simp_all
  with g [unfolded prints_def, rule_format, of "fb\<lparr>fb_back := b1\<rparr>" tr1] obtain tr2 b2 where "g (tr1, fb\<lparr>fb_back := b1\<rparr>) = Some (tr2, fb\<lparr>fb_back := b1\<rparr>\<lparr>fb_back := b2\<rparr>)"
    "length b2 = length b1" "tr_font tr2 = tr_font tr1" "tabSize tr2 = tabSize tr1"
    by auto
  with 1 b1 t1 show "\<exists>tr' b. Option.bind (f (tr, fb)) g = Some (tr', fb\<lparr>fb_back := b\<rparr>) \<and>
      length b = length (fb_back fb) \<and> tr_font tr' = tr_font tr \<and> tabSize tr' = tabSize tr"
    by (intro exI [where x = tr2] exI [where x = b2]) simp
qed

lemma prints_glyph:
  assumes "glyph_ok g" and "tr_font (h tr) = tr_font tr" and "tabSize (h tr) = tabSize tr" and "fb_ok fb"
    and "tr_font (k (h tr)) = tr_font (h tr)" and "tabSize (k (h tr)) = tabSize (h tr)"
  shows "\<exists>tr' b. Option.bind (draw_glyph (h tr) g fb) (\<lambda>fb. Some (k (h tr), fb)) = Some (tr', fb\<lparr>fb_back := b\<rparr>) \<and>
      length b = length (fb_back fb) \<and> tr_font tr' = tr_font tr \<and> tabSize tr' = tabSize tr"
proof -
  obtain b where "draw_glyph (h tr) g fb = Some (fb\<lparr>fb_back := b\<rparr>)" "length b = length (fb_back fb)"
    using draw_glyph_safe [OF assms(1)] assms(4) unfolding frame_safe_def by blast
  then show ?thesis using assms by (intro exI [where x = "k (h tr)"] exI [where x = b]) simp
qed

lemma putChar_prints: "prints (putChar ch)"
proof (rule prints_intro)
  fix tr fb
  assume ok: "fb_ok fb" and font: "font_ok (tr_font tr)" and tab: "next_tab tr 0 \<noteq> None"
  obtain g where g: "getGlyph (tr_font tr) (scast ch) = Some g" "glyph_ok g" using getGlyph_ok [OF font] by blast
  obtain a where a: "getGlyph (tr_font tr) 65 = Some a" using getGlyph_ok [OF font] by blast
  obtain stop where stop: "next_tab tr (cursor_x tr) = Some stop" using tab next_tab_None [of tr "cursor_x tr"] by auto
  have keep: "\<exists>b. fb = fb\<lparr>fb_back := b\<rparr> \<and> length b = length (fb_back fb)"
    by (rule exI [where x = "fb_back fb"]) simp
  let ?h = "\<lambda>tr. if area_width tr \<le> cursor_x tr + g_width g then tr\<lparr>cursor_x := 0, cursor_y := cursor_y tr + (g_height a + 3)\<rparr> else tr"
  let ?k = "\<lambda>tr. tr\<lparr>cursor_x := cursor_x tr + g_width g\<rparr>"
  consider "ch = 10" | "ch = 13" | "ch = 9" | "ch \<noteq> 10 \<and> ch \<noteq> 13 \<and> ch \<noteq> 9" by blast
  then show "\<exists>tr' b. putChar ch (tr, fb) = Some (tr', fb\<lparr>fb_back := b\<rparr>) \<and> length b = length (fb_back fb) \<and>
        tr_font tr' = tr_font tr \<and> tabSize tr' = tabSize tr"
  proof cases
    case 4
    then have "putChar ch (tr, fb) = Option.bind (draw_glyph (?h tr) g fb) (\<lambda>fb. Some (?k (?h tr), fb))"
      using g a by (simp add: putChar_def Let_def)
    then show ?thesis using prints_glyph [OF g(2), of ?h tr fb ?k] ok by simp
  qed (use keep a stop in \<open>simp_all add: putChar_def Let_def\<close>)
qed

lemma putString_from_prints: "0 \<in> set s \<Longrightarrow> prints (putString_from i s)"
proof (induction s arbitrary: i)
  case (Cons ch s)
  show ?case
  proof (cases "ch = 0")
    case True
    then have "putString_from i (ch # s) = Some" by (simp add: fun_eq_iff)
    then show ?thesis by (simp add: prints_Some)
  next
    case False
    have "putString_from i (ch # s) = (\<lambda>st. Option.bind (putChar ch st) (\<lambda>st. if 1024 \<le> i then Some st else putString_from (Suc i) s st))"
      using False by (simp add: fun_eq_iff)
    moreover have "prints (\<lambda>st. if 1024 \<le> i then Some st else putString_from (Suc i) s st)"
      using Cons False prints_Some by (cases "1024 \<le> i") simp_all
    ultimately show ?thesis by (simp add: prints_bind putChar_prints)
  qed
qed simp

lemma putString_prints: "0 \<in> set s \<Longrightarrow> prints (putString s)"
  unfolding putString_def by (rule putString_from_prints)

end
