(* ===== verification/Compositor.thy ===== *)
theory Compositor
  imports Scheduler_Steps Windows_Steps Text_Renderer
begin

text \<open>
  Composing the screen (\<open>composite\<close> and \<open>composeWindow\<close> of \<open>core/tasks/WindowManager.cpp\<close>), which
  holds off the scheduler meanwhile. The standard library sorts the windows: \<open>srt\<close> stands for any
  sorting by the depth. \<open>texts\<close> is what the line with counters prints.
\<close>

section \<open>Definitions\<close>

definition composeWindow :: "window \<Rightarrow> tasks \<Rightarrow> tasks option" where
  "composeWindow w s =
     (if \<not> w_visible w then Some s
      else do {
        s \<leftarrow> startAtomicOperation s;
        case clip_window (screen (k_wm s)) w of
          None \<Rightarrow> Some s
        | Some c \<Rightarrow> do {
            fb \<leftarrow> copy_window (\<lambda>a. load32 a (k_mem s)) w c (screen (k_wm s));
            Some (endAtomicOperation (s\<lparr>k_wm := (k_wm s)\<lparr>screen := fb\<rparr>\<rparr>)) } })"

definition on_frame :: "(framebuf \<Rightarrow> framebuf option) \<Rightarrow> wm \<Rightarrow> wm option" where
  "on_frame f w = do { fb \<leftarrow> f (screen w); Some (w\<lparr>screen := fb\<rparr>) }"

definition sort_windows :: "(window list \<Rightarrow> window list) \<Rightarrow> wm \<Rightarrow> wm" where
  "sort_windows srt w = (if sortingNeeded w then w\<lparr>wins := srt (wins w), sortingNeeded := False\<rparr> else w)"

definition print_status :: "bytes list \<Rightarrow> text_renderer \<Rightarrow> framebuf \<Rightarrow> (text_renderer \<times> framebuf) option" where
  "print_status texts tr fb =
     do { (tr, fb) \<leftarrow> fold_opt putString texts (tr_setPosition 20 (fb_h fb - 20) tr, fb);
          Some (tr_reset tr, fb) }"

definition composite ::
    "(window list \<Rightarrow> window list) \<Rightarrow> bytes list \<Rightarrow> text_renderer \<Rightarrow> tasks \<Rightarrow> (text_renderer \<times> tasks) option" where
  "composite srt texts tr s =
     do { s \<leftarrow> startAtomicOperation s;
          w \<leftarrow> on_frame (fb_fill (color_of 10 10 10 255)) (k_wm s);
          w \<leftarrow> doEraseWindows w;
          let w = sort_windows srt w in do {
            s \<leftarrow> fold_opt composeWindow (wins w) (s\<lparr>k_wm := w\<rparr>);
            w \<leftarrow> renderMouseCursor (k_wm s);
            (tr, fb) \<leftarrow> print_status texts tr (screen w);
            fb \<leftarrow> swapBuffers fb;
            w \<leftarrow> forwardKeyboardEvents (w\<lparr>screen := fb\<rparr>);
            w \<leftarrow> forwardMouseEvents w;
            Some (tr, endAtomicOperation (s\<lparr>k_wm := w\<rparr>)) } }"

section \<open>Windows over windows\<close>

definition shown_at :: "u32 \<Rightarrow> u32 \<Rightarrow> window list \<Rightarrow> window option" where
  "shown_at x y ws = find (\<lambda>w. w_visible w \<and> inside x y w) (rev ws)"

definition hidden_off :: "framebuf \<Rightarrow> window \<Rightarrow> bool" where
  "hidden_off fb w = (w_visible w \<and> clip_window fb w = None)"

lemma clip_window_cong: "fb_w fb' = fb_w fb \<Longrightarrow> fb_h fb' = fb_h fb \<Longrightarrow> clip_window fb' w = clip_window fb w"
  by (simp only: clip_window_def)

text \<open>The kernel with other pixels on the screen and another level of the lock.\<close>

definition recomposed :: "u32 list \<Rightarrow> u32 \<Rightarrow> tasks \<Rightarrow> tasks" where
  "recomposed b l s = s\<lparr>k_wm := (k_wm s)\<lparr>screen := (screen (k_wm s))\<lparr>fb_back := b\<rparr>\<rparr>, atomicLevel := l\<rparr>"

lemma recomposed_simps [simp]:
  "k_mem (recomposed b l s) = k_mem s" "getCurrentProcess (recomposed b l s) = getCurrentProcess s"
  "fb_w (screen (k_wm (recomposed b l s))) = fb_w (screen (k_wm s))"
  "fb_h (screen (k_wm (recomposed b l s))) = fb_h (screen (k_wm s))"
  "fb_back (screen (k_wm (recomposed b l s))) = b" "atomicLevel (recomposed b l s) = l"
  "recomposed b' l' (recomposed b l s) = recomposed b' l' s"
  by (simp_all add: recomposed_def getCurrentProcess_def fb_w_def fb_h_def)

lemma recomposed_same [simp]: "recomposed (fb_back (screen (k_wm s))) (atomicLevel s) s = s"
  by (simp add: recomposed_def)

lemma recomposed_screen:
  "screen (k_wm (recomposed b l s)) = (screen (k_wm s))\<lparr>fb_back := b\<rparr>" "fb_ok (screen (k_wm s)) \<Longrightarrow>
   length b = length (fb_back (screen (k_wm s))) \<Longrightarrow> fb_ok (screen (k_wm (recomposed b l s)))"
  by (simp_all add: recomposed_def frame_safe_ok)

abbreviation pixels :: "tasks \<Rightarrow> u32 \<Rightarrow> u32" where
  "pixels s \<equiv> \<lambda>a. load32 a (k_mem s)"

lemma composeWindow_exact:
  assumes ok: "fb_ok (screen (k_wm s))" and p: "getCurrentProcess s = Some p" "pr_mode p = Kernel"
    and level: "unat (atomicLevel s) + 1 < 2 ^ 32"
  obtains b where "composeWindow w s = Some (recomposed b (atomicLevel s + (if hidden_off (screen (k_wm s)) w then 1 else 0)) s)"
    and "length b = length (fb_back (screen (k_wm s)))"
    and "\<forall>x y. x < unat (fb_w (screen (k_wm s))) \<longrightarrow> y < unat (fb_h (screen (k_wm s))) \<longrightarrow>
      b ! px (screen (k_wm s)) x y =
        (if w_visible w \<and> inside (of_nat x) (of_nat y) w then window_pixel (pixels s) w x y
         else fb_back (screen (k_wm s)) ! px (screen (k_wm s)) x y)"
proof -
  let ?fb = "screen (k_wm s)"
  define l where "l = atomicLevel s + 1"
  have up: "startAtomicOperation s = Some (s\<lparr>atomicLevel := l\<rparr>)"
    using p by (simp add: startAtomicOperation_def l_def)
  have l: "0 < l" "l - 1 = atomicLevel s"
    using level unat_add_lem [of "atomicLevel s" 1] by (simp_all add: l_def word_less_nat_alt)
  consider (hidden) "\<not> w_visible w" | (off) "w_visible w" "clip_window ?fb w = None"
    | (on) c where "w_visible w" "clip_window ?fb w = Some c" by (cases "clip_window ?fb w") auto
  then show thesis
  proof cases
    case hidden
    then show thesis by (intro that [of "fb_back ?fb"]) (simp_all add: composeWindow_def hidden_off_def)
  next
    case off
    have no: "\<not> inside (of_nat x) (of_nat y) w" if "x < unat (fb_w ?fb)" "y < unat (fb_h ?fb)" for x y
      using clip_none [OF off(2), of x y] that by (simp add: covers_def)
    show thesis
    proof (rule that [of "fb_back ?fb"])
      show "composeWindow w s = Some (recomposed (fb_back ?fb) (atomicLevel s + (if hidden_off ?fb w then 1 else 0)) s)"
        using off by (simp add: composeWindow_def up hidden_off_def recomposed_def l_def)
    qed (simp_all add: no)
  next
    case on
    show thesis
    proof (rule copy_window_exact [OF ok on(2), of "pixels s"])
      fix b
      assume b: "copy_window (pixels s) w c ?fb = Some (?fb\<lparr>fb_back := b\<rparr>)" "length b = length (fb_back ?fb)"
        and pix: "\<And>x y. x < unat (fb_w ?fb) \<Longrightarrow> y < unat (fb_h ?fb) \<Longrightarrow>
          b ! px ?fb x y = (if covers ?fb w x y then window_pixel (pixels s) w x y else fb_back ?fb ! px ?fb x y)"
      show thesis
      proof (rule that [of b])
        show "composeWindow w s = Some (recomposed b (atomicLevel s + (if hidden_off ?fb w then 1 else 0)) s)"
          using on b l by (simp add: composeWindow_def up hidden_off_def recomposed_def endAtomicOperation_def)
      qed (use on pix b in \<open>simp_all add: covers_def\<close>)
    qed
  qed
qed

lemma unat_plus_of_nat_le: "unat (a + of_nat n :: u32) \<le> unat a + n"
proof -
  have "unat (a + of_nat n :: u32) \<le> unat a + unat (of_nat n :: u32)"
    by (simp only: unat_word_ariths(1) mod_less_eq_dividend)
  moreover have "unat (of_nat n :: u32) \<le> n" by (simp add: unat_of_nat)
  ultimately show ?thesis by linarith
qed

lemma shown_at_snoc:
  "shown_at x y (ws @ [w]) = (if w_visible w \<and> inside x y w then Some w else shown_at x y ws)"
  by (simp add: shown_at_def)

lemma compose_all:
  assumes ok: "fb_ok (screen (k_wm s))" and p: "getCurrentProcess s = Some p" "pr_mode p = Kernel"
    and level: "unat (atomicLevel s) + length ws < 2 ^ 32"
  obtains b where "fold_opt composeWindow ws s =
      Some (recomposed b (atomicLevel s + of_nat (length (filter (hidden_off (screen (k_wm s))) ws))) s)"
    and "length b = length (fb_back (screen (k_wm s)))"
    and "\<forall>x y. x < unat (fb_w (screen (k_wm s))) \<longrightarrow> y < unat (fb_h (screen (k_wm s))) \<longrightarrow>
      b ! px (screen (k_wm s)) x y =
        (case shown_at (of_nat x) (of_nat y) ws of Some w \<Rightarrow> window_pixel (pixels s) w x y
         | None \<Rightarrow> fb_back (screen (k_wm s)) ! px (screen (k_wm s)) x y)"
  using level
proof (induction ws arbitrary: thesis rule: rev_induct)
  case Nil
  show ?case by (rule Nil.prems(1) [of "fb_back (screen (k_wm s))"]) (simp_all add: shown_at_def)
next
  case (snoc w ws)
  let ?fb = "screen (k_wm s)"
  let ?n = "\<lambda>ws. length (filter (hidden_off ?fb) ws)"
  obtain b where b: "fold_opt composeWindow ws s = Some (recomposed b (atomicLevel s + of_nat (?n ws)) s)"
    "length b = length (fb_back ?fb)"
    and pix: "\<forall>x y. x < unat (fb_w ?fb) \<longrightarrow> y < unat (fb_h ?fb) \<longrightarrow> b ! px ?fb x y =
        (case shown_at (of_nat x) (of_nat y) ws of Some w \<Rightarrow> window_pixel (pixels s) w x y | None \<Rightarrow> fb_back ?fb ! px ?fb x y)"
    using snoc.IH snoc.prems(2) by auto
  define t where "t = recomposed b (atomicLevel s + of_nat (?n ws)) s"
  have fb: "fb_ok (screen (k_wm t))" unfolding t_def by (rule recomposed_screen(2) [OF ok b(2)])
  have dims: "fb_w (screen (k_wm t)) = fb_w ?fb" "fb_h (screen (k_wm t)) = fb_h ?fb" by (simp_all add: t_def)
  then have px: "px (screen (k_wm t)) = px ?fb" and hid: "hidden_off (screen (k_wm t)) = hidden_off ?fb"
    using clip_window_cong [OF dims] by (simp_all add: px_def hidden_off_def fun_eq_iff)
  have "unat (atomicLevel s + of_nat (?n ws) :: u32) \<le> unat (atomicLevel s) + length ws"
    using unat_plus_of_nat_le [of "atomicLevel s" "?n ws"] length_filter_le [of "hidden_off ?fb" ws] by linarith
  then have lev: "unat (atomicLevel t) + 1 < 2 ^ 32" using snoc.prems(2) by (simp add: t_def)
  have pt: "getCurrentProcess t = Some p" and bk: "fb_back (screen (k_wm t)) = b" using p(1) by (simp_all add: t_def)
  obtain b' where b': "composeWindow w t = Some (recomposed b' (atomicLevel t + (if hidden_off ?fb w then 1 else 0)) t)"
      "length b' = length b"
    and pix': "\<forall>x y. x < unat (fb_w ?fb) \<longrightarrow> y < unat (fb_h ?fb) \<longrightarrow> b' ! px ?fb x y =
        (if w_visible w \<and> inside (of_nat x) (of_nat y) w then window_pixel (pixels t) w x y else b ! px ?fb x y)"
    by (rule composeWindow_exact [OF fb pt p(2) lev, of w, unfolded px hid dims bk])
  show ?case
  proof (rule snoc.prems(1) [of b'])
    show "fold_opt composeWindow (ws @ [w]) s = Some (recomposed b' (atomicLevel s + of_nat (?n (ws @ [w]))) s)"
      using b(1) b'(1) by (simp add: fold_opt_append t_def [symmetric]) (simp add: t_def add.assoc)
  qed (use b(2) b' pix pix' in \<open>auto simp: shown_at_snoc t_def split: option.split\<close>)
qed

section \<open>The whole screen\<close>

locale window_order =
  fixes srt :: "window list \<Rightarrow> window list"
  assumes perm: "mset (srt ws) = mset ws"
    and sorted_z: "sorted (map w_z (srt ws))"
begin

lemma count_sorted: "length (filter P (wins (sort_windows srt w))) = length (filter P (wins w))"
proof -
  have "size (filter_mset P (mset (srt ws))) = size (filter_mset P (mset ws))" for ws by (simp only: perm)
  then show ?thesis by (simp add: sort_windows_def flip: mset_filter size_mset)
qed

lemma length_sorted: "length (wins (sort_windows srt w)) = length (wins w)"
  using count_sorted [of "\<lambda>_. True" w] by simp

end

text \<open>A stable sort is one of the sortings.\<close>

interpretation z_order: window_order "sort_key w_z"
  by unfold_locales (simp_all add: sorted_sort_key)

lemma plots_total:
  assumes "\<forall>i\<in>set is. i < length (fb_back fb)"
  shows "\<exists>b. fold_opt (\<lambda>i. plot (of_nat i) c) is fb = Some (fb\<lparr>fb_back := b\<rparr>) \<and> length b = length (fb_back fb)"
  using assms
proof (induction "is" arbitrary: fb)
  case Nil
  show ?case by (rule exI [where x = "fb_back fb"]) simp
next
  case (Cons i "is")
  have "unat (of_nat i :: u32) \<le> i" by (simp add: unat_of_nat)
  with Cons.prems have "unat (of_nat i :: u32) < length (fb_back fb)" by simp
  then have "plot (of_nat i) c fb = Some (fb\<lparr>fb_back := (fb_back fb)[unat (of_nat i :: u32) := c]\<rparr>)"
    by (simp add: plot_def wr_at_def)
  with Cons.IH [of "fb\<lparr>fb_back := (fb_back fb)[unat (of_nat i :: u32) := c]\<rparr>"] Cons.prems show ?case by simp
qed

lemma fb_fill_safe: "frame_safe (fb_fill c)"
  unfolding frame_safe_def fb_fill_def
proof (intro allI impI plots_total ballI)
  fix fb i
  assume "fb_ok fb" and "i \<in> set [0..<unat (fb_h fb * fb_w fb)]"
  moreover have "unat (fb_h fb * fb_w fb) \<le> unat (fb_h fb) * unat (fb_w fb)" by (simp only: unat_word_ariths(2) mod_less_eq_dividend)
  ultimately show "i < length (fb_back fb)" by (simp add: fb_ok_def)
qed

lemma on_frame_total:
  assumes "frame_safe f" and "fb_ok (screen w)"
  shows "\<exists>b. on_frame f w = Some (w\<lparr>screen := (screen w)\<lparr>fb_back := b\<rparr>\<rparr>) \<and> length b = length (fb_back (screen w))"
proof -
  obtain b where "f (screen w) = Some ((screen w)\<lparr>fb_back := b\<rparr>)" "length b = length (fb_back (screen w))"
    using assms unfolding frame_safe_def by blast
  then show ?thesis by (intro exI [where x = b]) (simp add: on_frame_def)
qed

lemma renderMouseCursor_frame:
  "renderMouseCursor w = on_frame (\<lambda>fb. do {
     let x = mouseX w; y = mouseY w; black = color_of 2 2 2 255;
         color = (if leftDown w then color_of 252 177 3 255 else color_of 245 245 245 255)
     in do { fb \<leftarrow> drawLine (x + 1) y (x + 8 + 1) (y + 12) black fb;
             fb \<leftarrow> drawVLine (x - 1) y (y + 12) black fb;
             fb \<leftarrow> drawHLine x (x + 8) (y + 12 + 1) black fb;
             fb \<leftarrow> drawLine x y (x + 8) (y + 12) color fb;
             fb \<leftarrow> drawVLine x y (y + 12) color fb;
             drawHLine x (x + 8) (y + 12) color fb } }) w"
  by (simp add: renderMouseCursor_def on_frame_def Let_def)

lemma renderMouseCursor_total:
  assumes "fb_ok (screen w)"
  shows "\<exists>b. renderMouseCursor w = Some (w\<lparr>screen := (screen w)\<lparr>fb_back := b\<rparr>\<rparr>) \<and> length b = length (fb_back (screen w))"
proof -
  have "frame_safe (\<lambda>fb. do { fb \<leftarrow> drawLine x1 y1 x2 y2 c1 fb; fb \<leftarrow> drawVLine x3 y3 y4 c1 fb; fb \<leftarrow> drawHLine x4 x5 y5 c1 fb;
      fb \<leftarrow> drawLine x6 y6 x7 y7 c2 fb; fb \<leftarrow> drawVLine x8 y8 y9 c2 fb; drawHLine x9 x10 y10 c2 fb })"
    for x1 y1 x2 y2 x3 y3 y4 x4 x5 y5 x6 y6 x7 y7 x8 y8 y9 x9 x10 y10 c1 c2
    by (intro frame_safe_bind drawLine_safe drawVLine_safe drawHLine_safe)
  then show ?thesis unfolding renderMouseCursor_frame Let_def by (rule on_frame_total [OF _ assms])
qed

lemma print_status_total:
  assumes "fb_ok fb" and "font_ok (tr_font tr)" and "next_tab tr 0 \<noteq> None" and "\<forall>t\<in>set texts. 0 \<in> set t"
  obtains tr' b where "print_status texts tr fb = Some (tr', fb\<lparr>fb_back := b\<rparr>)" and "length b = length (fb_back fb)"
proof -
  have "prints (fold_opt putString texts)"
    using assms(4)
  proof (induction texts)
    case Nil
    have "fold_opt putString [] = Some" by (simp add: fun_eq_iff)
    then show ?case by (simp add: prints_Some)
  next
    case (Cons t texts)
    have "fold_opt putString (t # texts) = (\<lambda>st. Option.bind (putString t st) (fold_opt putString texts))" by (simp add: fun_eq_iff)
    with Cons show ?case by (simp add: prints_bind putString_prints)
  qed
  moreover have "tr_font (tr_setPosition 20 (fb_h fb - 20) tr) = tr_font tr" "tabSize (tr_setPosition 20 (fb_h fb - 20) tr) = tabSize tr"
    by (simp_all add: tr_setPosition_def)
  moreover from next_tab_cong [OF this] have "next_tab (tr_setPosition 20 (fb_h fb - 20) tr) 0 \<noteq> None" using assms(3) by simp
  ultimately obtain tr' b where "fold_opt putString texts (tr_setPosition 20 (fb_h fb - 20) tr, fb) = Some (tr', fb\<lparr>fb_back := b\<rparr>)"
      "length b = length (fb_back fb)"
    using assms(1,2) unfolding prints_def by metis
  then show thesis by (intro that [of "tr_reset tr'" b]) (simp_all add: print_status_def)
qed

lemma swapBuffers_total:
  assumes "fb_ok fb" and "length (fb_front fb) = length (fb_back fb)"
  obtains f where "swapBuffers fb = Some (fb\<lparr>fb_front := f\<rparr>)"
proof -
  have "unat (fb_w fb * fb_h fb) \<le> unat (fb_w fb) * unat (fb_h fb)" by (simp only: unat_word_ariths(2) mod_less_eq_dividend)
  then have "unat (fb_w fb * fb_h fb) \<le> length (fb_back fb)" using assms(1) by (simp add: fb_ok_def mult.commute)
  then show thesis using assms(2) by (auto simp: swapBuffers_def slice_def blit_def intro: that)
qed

lemma forward_keys_total:
  "n \<le> length q \<Longrightarrow> list_all ke_valid q \<Longrightarrow> \<exists>t. forward_keys n q s = Some t \<and> mouseQueue t = mouseQueue s"
proof (induction n q s rule: forward_keys.induct)
  case (2 n q s)
  show ?case
  proof (cases "getWindowById (activeWindowId s) s")
    case None
    then show ?thesis using 2 by simp
  next
    case (Some w)
    from "2.prems"(1) obtain e q' where q: "q = e # q'" by (cases q) auto
    then show ?thesis using 2 Some by (simp add: win_queueKeyboardEvent_def)
  qed
qed simp

lemma forward_events_total:
  assumes "keyQueue w = Some kq" and "list_all ke_valid kq" and "mouseQueue w \<noteq> None"
  obtains u v where "forwardKeyboardEvents w = Some u" and "forwardMouseEvents u = Some v"
proof -
  obtain u where u: "forwardKeyboardEvents w = Some u" "mouseQueue u = mouseQueue w"
    using assms(1,2) forward_keys_total [of "length kq" kq w] by (cases "wins w = []") (auto simp: forwardKeyboardEvents_def)
  then obtain v where "forwardMouseEvents u = Some v" using assms(3) by (auto simp: forwardMouseEvents_def)
  with u(1) show thesis by (rule that)
qed

text \<open>What composing needs: buffers of the size of the screen, a font, queues that exist, keys that are valid.\<close>

definition composable :: "bytes list \<Rightarrow> text_renderer \<Rightarrow> tasks \<Rightarrow> bool" where
  "composable texts tr s =
     (wm_ok (k_wm s) \<and> fb_ok (screen (k_wm s)) \<and> length (fb_front (screen (k_wm s))) = length (fb_back (screen (k_wm s))) \<and>
      font_ok (tr_font tr) \<and> next_tab tr 0 \<noteq> None \<and> list_all (\<lambda>t. 0 \<in> set t) texts \<and>
      deletedQueue (k_wm s) \<noteq> None \<and> mouseQueue (k_wm s) \<noteq> None \<and>
      (case keyQueue (k_wm s) of None \<Rightarrow> False | Some q \<Rightarrow> list_all ke_valid q) \<and>
      unat (atomicLevel s) + length (wins (k_wm s)) + 1 < 2 ^ 32 \<and>
      (case getCurrentProcess s of None \<Rightarrow> False | Some p \<Rightarrow> pr_mode p = Kernel))"

text \<open>A window on its way out is not visible, so erasing it does not change which ones are off the screen.\<close>

lemma erased_hidden:
  assumes "wm_ok w" and "deletedQueue w = Some q"
  shows "filter (hidden_off fb) (fold (\<lambda>i. filter (\<lambda>v. w_id v \<noteq> i)) q (wins w)) = filter (hidden_off fb) (wins w)"
proof -
  have "hidden_off fb v \<Longrightarrow> v \<in> set (wins w) \<Longrightarrow> w_id v \<notin> set q" for v
    using assms by (auto simp: wm_ok_def window_ok_def hidden_off_def)
  then show ?thesis by (auto simp: fold_filter intro!: filter_cong)
qed

lemma composite_level:
  assumes srt: "window_order srt" and c: "composable texts tr s"
  shows "\<exists>tr' t. composite srt texts tr s = Some (tr', t) \<and>
     atomicLevel t = atomicLevel s + of_nat (length (filter (hidden_off (screen (k_wm s))) (wins (k_wm s))))"
proof -
  let ?fb = "screen (k_wm s)"
  define n where "n = length (filter (hidden_off ?fb) (wins (k_wm s)))"
  from c obtain p q kq where p: "getCurrentProcess s = Some p" "pr_mode p = Kernel" and q: "deletedQueue (k_wm s) = Some q"
    and kq: "keyQueue (k_wm s) = Some kq" "list_all ke_valid kq"
    by (auto simp: composable_def split: option.splits)
  define l where "l = atomicLevel s + 1"
  have level: "unat (atomicLevel s) + length (wins (k_wm s)) + 1 < 2 ^ 32" and ok: "fb_ok ?fb" using c by (simp_all add: composable_def)
  then have l: "unat l = unat (atomicLevel s) + 1"
    using unat_add_lem [of "atomicLevel s" 1] by (simp add: l_def)
  have up: "startAtomicOperation s = Some (s\<lparr>atomicLevel := l\<rparr>)" using p by (simp add: startAtomicOperation_def l_def)
  obtain b1 where b1: "on_frame (fb_fill (color_of 10 10 10 255)) (k_wm s) = Some ((k_wm s)\<lparr>screen := ?fb\<lparr>fb_back := b1\<rparr>\<rparr>)"
    "length b1 = length (fb_back ?fb)" using on_frame_total [OF fb_fill_safe ok] by blast
  define w1 where "w1 = (k_wm s)\<lparr>screen := ?fb\<lparr>fb_back := b1\<rparr>,
    wins := fold (\<lambda>i. filter (\<lambda>v. w_id v \<noteq> i)) q (wins (k_wm s)), deletedQueue := Some []\<rparr>"
  have er: "doEraseWindows ((k_wm s)\<lparr>screen := ?fb\<lparr>fb_back := b1\<rparr>\<rparr>) = Some w1" using q by (simp add: doEraseWindows_def w1_def)
  define w2 where "w2 = sort_windows srt w1"
  have w2: "screen w2 = ?fb\<lparr>fb_back := b1\<rparr>" "keyQueue w2 = Some kq" "mouseQueue w2 = mouseQueue (k_wm s)"
    using kq by (simp_all add: w2_def sort_windows_def w1_def)
  have fb2: "fb_ok (screen w2)" using frame_safe_ok [OF ok b1(2)] by (simp add: w2)
  have hid: "hidden_off (screen w2) = hidden_off ?fb"
    using clip_window_cong [of "screen w2" ?fb] by (simp add: hidden_off_def fun_eq_iff w2 fb_w_def fb_h_def)
  have n2: "length (filter (hidden_off (screen w2)) (wins w2)) = n"
    using window_order.count_sorted [OF srt] erased_hidden [OF _ q] c
    by (simp add: w2_def [symmetric] hid w1_def composable_def n_def) (simp add: w2_def hid window_order.count_sorted [OF srt] w1_def)
  have "length (wins w2) \<le> length (wins (k_wm s))"
    by (simp add: w2_def window_order.length_sorted [OF srt] w1_def fold_filter)
  then have lev2: "unat (atomicLevel (s\<lparr>atomicLevel := l, k_wm := w2\<rparr>)) + length (wins w2) < 2 ^ 32" using level l by simp
  have p2: "getCurrentProcess (s\<lparr>atomicLevel := l, k_wm := w2\<rparr>) = Some p" using p(1) by (simp add: getCurrentProcess_def)
  have fb2': "fb_ok (screen (k_wm (s\<lparr>atomicLevel := l, k_wm := w2\<rparr>)))" using fb2 by simp
  obtain b2 where "fold_opt composeWindow (wins w2) (s\<lparr>atomicLevel := l, k_wm := w2\<rparr>) =
      Some (recomposed b2 (l + of_nat n) (s\<lparr>atomicLevel := l, k_wm := w2\<rparr>))" and b2: "length b2 = length (fb_back (screen w2))"
    by (rule compose_all [OF fb2' p2 p(2) lev2]) (simp add: n2 del: of_nat_add)
  define w3 where "w3 = w2\<lparr>screen := (screen w2)\<lparr>fb_back := b2\<rparr>\<rparr>"
  have fold: "fold_opt composeWindow (wins w2) (s\<lparr>atomicLevel := l, k_wm := w2\<rparr>) = Some (s\<lparr>atomicLevel := l + of_nat n, k_wm := w3\<rparr>)"
    using \<open>fold_opt composeWindow _ _ = _\<close> by (simp add: recomposed_def w3_def)
  have fb3: "fb_ok (screen w3)" using frame_safe_ok [OF fb2 b2] by (simp add: w3_def)
  then obtain b3 where b3: "renderMouseCursor w3 = Some (w3\<lparr>screen := (screen w3)\<lparr>fb_back := b3\<rparr>\<rparr>)" "length b3 = length (fb_back (screen w3))"
    using renderMouseCursor_total by blast
  have fb4: "fb_ok ((screen w3)\<lparr>fb_back := b3\<rparr>)" by (rule frame_safe_ok [OF fb3 b3(2)])
  have tr: "font_ok (tr_font tr)" "next_tab tr 0 \<noteq> None" "\<forall>t\<in>set texts. 0 \<in> set t"
    using c by (simp_all add: composable_def list_all_iff)
  obtain tr' b4 where st: "print_status texts tr ((screen w3)\<lparr>fb_back := b3\<rparr>) = Some (tr', (screen w3)\<lparr>fb_back := b4\<rparr>)"
    "length b4 = length b3"
    using print_status_total [OF fb4 tr] by auto
  have fb5: "fb_ok ((screen w3)\<lparr>fb_back := b4\<rparr>)" using frame_safe_ok [OF fb4, of b4] st(2) by simp
  have front: "length (fb_front ((screen w3)\<lparr>fb_back := b4\<rparr>)) = length (fb_back ((screen w3)\<lparr>fb_back := b4\<rparr>))"
    using c b1 b2 b3 st(2) by (simp add: composable_def w3_def w2)
  obtain f where sw: "swapBuffers ((screen w3)\<lparr>fb_back := b4\<rparr>) = Some ((screen w3)\<lparr>fb_back := b4, fb_front := f\<rparr>)"
    using swapBuffers_total [OF fb5 front] by auto
  define w5 where "w5 = w3\<lparr>screen := (screen w3)\<lparr>fb_back := b4, fb_front := f\<rparr>\<rparr>"
  have "keyQueue w5 = Some kq" "mouseQueue w5 \<noteq> None" using w2 c by (simp_all add: w5_def w3_def composable_def)
  then obtain u v where ev: "forwardKeyboardEvents w5 = Some u" "forwardMouseEvents u = Some v"
    by (rule forward_events_total [OF _ kq(2)])
  have "n \<le> length (wins (k_wm s))" by (simp add: n_def)
  then have "unat (l + of_nat n :: u32) = unat l + n"
    using level l unat_add_lem [of l "of_nat n"] by (simp add: unat_of_nat take_bit_nat_eq_self)
  then have "0 < l + of_nat n" using l by (simp add: word_less_nat_alt)
  then have "composite srt texts tr s = Some (tr', s\<lparr>atomicLevel := l + of_nat n - 1, k_wm := v\<rparr>)"
    using up b1(1) er fold b3(1) st(1) sw ev
    by (simp add: composite_def w2_def [symmetric] Let_def w5_def [symmetric] endAtomicOperation_def)
  then show ?thesis by (simp add: l_def n_def)
qed

end
