(* ===== verification/Desktop_Laws.thy ===== *)
theory Desktop_Laws
  imports Scheduler_Laws Compositor
begin

text \<open>Properties of the window manager, the text on the screen and the descriptors of a process.\<close>

section \<open>Examples\<close>

definition ex_desk :: "u32 \<Rightarrow> tasks" where
  "ex_desk x = (ex_tasks [(ex_process 0 Running)\<lparr>pr_mode := Kernel\<rparr>] 0)\<lparr>k_wm := snd (requestWindow 0x100 x 1 2 1 ex_wm)\<rparr>"

definition ex_glyph :: glyph where
  "ex_glyph = \<lparr>g_bitmap = replicate 32 5, g_width = 3, g_height = 3, g_offsetX = 0, g_offsetY = 0\<rparr>"

definition ex_renderer :: text_renderer where
  "ex_renderer = newTextRenderer ex_screen (replicate 128 ex_glyph)"

lemma ex_wm_ok: "wm_ok ex_wm"
  unfolding ex_wm_def by (rule initialize_wm_ok) simp

lemma ex_request: "wm_step ex_wm (snd (requestWindow buf x y w h ex_wm))"
  by (rule wm_step.request) (simp add: ex_wm_def wm_initialize_def)

lemma ex_desk_ok: "wm_ok (k_wm (ex_desk x))"
  using wm_step_ok [OF ex_request ex_wm_ok] by (simp add: ex_desk_def)

lemma ex_desk_simps [simp]:
  "screen (k_wm (ex_desk x)) = ex_screen" "atomicLevel (ex_desk x) = 0" "fb_w ex_screen = 4" "fb_h ex_screen = 3"
  "getCurrentProcess (ex_desk x) = Some ((ex_process 0 Running)\<lparr>pr_mode := Kernel\<rparr>)" "fb_ok ex_screen"
  "deletedQueue (k_wm (ex_desk x)) = Some []" "keyQueue (k_wm (ex_desk x)) = Some []" "mouseQueue (k_wm (ex_desk x)) = Some []"
  "wins (k_wm (ex_desk x)) = [newWindow 1 0x100 x 1 2 1\<lparr>w_z := 1\<rparr>]"
  by (simp_all add: ex_desk_def requestWindow_def setActiveWindow_def raise_window_def ex_wm_def wm_initialize_def
      ex_screen_def fb_w_def fb_h_def ex_tasks_def getCurrentProcess_def rd_at_def fb_ok_def newWindow_def)

lemma ex_desk_composable: "composable [[72, 105, 0]] ex_renderer (ex_desk x)"
  using ex_desk_ok [of x]
  by (simp add: composable_def ex_renderer_def newTextRenderer_def tr_setSize_def font_ok_def list_all_length glyph_ok_def
      ex_glyph_def next_tab_def getGlyph_def rd_at_def)
    (simp add: ex_screen_def)

section \<open>Windows\<close>

text \<open>C40: Any sequence of window requests, closings, erasures, activations, mouse and keyboard events
  keeps the window manager in order: numbers are distinct and not 0, the queue of a window holds at
  most 21 events, a window about to be erased is hidden, and the mouse stays on the screen.
\<close>

theorem window_manager_invariant:
  assumes "wm_ok s" and "wm_step\<^sup>*\<^sup>* s t"
  shows "wm_ok t"
  using assms(2) by induction (use assms(1) wm_step_ok in auto)

theorem window_manager_invariant_witness:
  "wm_ok (queueMouseEvent \<lparr>me_x = 5, me_y = - 9, me_left = True, me_right = False, me_middle = False, me_event = True\<rparr>
     (snd (requestWindow 0x100 1 1 2 1 ex_wm)))"
proof (rule window_manager_invariant [OF ex_wm_ok])
  show "wm_step\<^sup>*\<^sup>* ex_wm (queueMouseEvent \<lparr>me_x = 5, me_y = - 9, me_left = True, me_right = False, me_middle = False, me_event = True\<rparr>
     (snd (requestWindow 0x100 1 1 2 1 ex_wm)))"
    by (meson ex_request wm_step.mouse rtranclp.rtrancl_into_rtrancl rtranclp.rtrancl_refl)
qed

text \<open>C39: What is seen is what is clicked: after the windows have been composed, each point of the screen
  shows the pixel of the window that a click at that point reaches, and the background where a click
  reaches none.
\<close>

theorem seen_is_clicked:
  assumes ok: "wm_ok (k_wm s)" "fb_ok (screen (k_wm s))" and p: "getCurrentProcess s = Some p" "pr_mode p = Kernel"
    and level: "unat (atomicLevel s) + length (wins (k_wm s)) < 2 ^ 32"
  shows "\<exists>t. fold_opt composeWindow (wins (k_wm s)) s = Some t \<and>
    (\<forall>x y. x < unat (fb_w (screen (k_wm s))) \<longrightarrow> y < unat (fb_h (screen (k_wm s))) \<longrightarrow>
       fb_back (screen (k_wm t)) ! px (screen (k_wm s)) x y =
         (case getWindowById (getWindowAtPosition (of_nat x) (of_nat y) (k_wm s)) (k_wm s) of
            Some w \<Rightarrow> window_pixel (\<lambda>a. load32 a (k_mem s)) w x y
          | None \<Rightarrow> fb_back (screen (k_wm s)) ! px (screen (k_wm s)) x y))"
proof -
  have "getWindowById (getWindowAtPosition x y (k_wm s)) (k_wm s) = shown_at x y (wins (k_wm s))" for x y
  proof (cases "shown_at x y (wins (k_wm s))")
    case None
    have "\<forall>w\<in>set (wins (k_wm s)). w_id w \<noteq> 0" using ok(1) by (auto simp: wm_ok_def window_ok_def)
    then have "find (\<lambda>w. w_id w = 0) (wins (k_wm s)) = None" by (simp add: find_None_iff)
    then show ?thesis using None by (simp add: getWindowAtPosition_def getWindowById_def shown_at_def)
  next
    case (Some w)
    have at: "getWindowAtPosition x y (k_wm s) = w_id w" using Some by (simp add: getWindowAtPosition_def shown_at_def)
    have "w \<in> set (rev (wins (k_wm s)))" using Some unfolding shown_at_def find_Some_iff by (metis length_rev nth_mem)
    then have w: "w \<in> set (wins (k_wm s))" by simp
    have "find (\<lambda>v. w_id v = w_id w) ws = Some w" if "distinct (map w_id ws)" "w \<in> set ws" for ws
      using that by (induction ws) auto
    then show ?thesis using ok(1) w Some by (simp add: getWindowById_def at wm_ok_def)
  qed
  moreover obtain b where "fold_opt composeWindow (wins (k_wm s)) s =
      Some (recomposed b (atomicLevel s + of_nat (length (filter (hidden_off (screen (k_wm s))) (wins (k_wm s))))) s)"
    "\<forall>x y. x < unat (fb_w (screen (k_wm s))) \<longrightarrow> y < unat (fb_h (screen (k_wm s))) \<longrightarrow>
      b ! px (screen (k_wm s)) x y = (case shown_at (of_nat x) (of_nat y) (wins (k_wm s)) of
         Some w \<Rightarrow> window_pixel (pixels s) w x y | None \<Rightarrow> fb_back (screen (k_wm s)) ! px (screen (k_wm s)) x y)"
    by (rule compose_all [OF ok(2) p level])
  ultimately show ?thesis by simp
qed

theorem seen_is_clicked_witness:
  "\<exists>t. fold_opt composeWindow (wins (k_wm (ex_desk 1))) (ex_desk 1) = Some t \<and>
    (\<forall>x y. x < 4 \<longrightarrow> y < 3 \<longrightarrow> fb_back (screen (k_wm t)) ! px ex_screen x y =
         (case getWindowById (getWindowAtPosition (of_nat x) (of_nat y) (k_wm (ex_desk 1))) (k_wm (ex_desk 1)) of
            Some w \<Rightarrow> window_pixel (\<lambda>a. load32 a (k_mem (ex_desk 1))) w x y | None \<Rightarrow> fb_back ex_screen ! px ex_screen x y))"
  using seen_is_clicked [OF ex_desk_ok, of 1 "(ex_process 0 Running)\<lparr>pr_mode := Kernel\<rparr>"] by (simp del: fold_opt.simps cong: option.case_cong)

text \<open>Composing the screen raises the lock of the scheduler by one for every visible window that lies
  outside the screen and never lowers it again, so with one such window no clock tick switches
  processes any more.
\<close>

lemma window_off_screen_stops_scheduler:
  assumes srt: "window_order srt" and c: "composable texts tr s"
  shows "\<exists>tr' t. composite srt texts tr s = Some (tr', t) \<and>
    atomicLevel t = atomicLevel s + of_nat (length (filter (\<lambda>w. w_visible w \<and> clip_window (screen (k_wm s)) w = None) (wins (k_wm s)))) \<and>
    (\<forall>w\<in>set (wins (k_wm s)). w_visible w \<longrightarrow> clip_window (screen (k_wm s)) w = None \<longrightarrow>
      (\<forall>a regs. interruptHandler a regs t = Some (a, t)))"
proof -
  let ?n = "length (filter (hidden_off (screen (k_wm s))) (wins (k_wm s)))"
  obtain tr' t where t: "composite srt texts tr s = Some (tr', t)" "atomicLevel t = atomicLevel s + of_nat ?n"
    using composite_level [OF srt c] by blast
  have "0 < atomicLevel t" if "w \<in> set (wins (k_wm s))" "hidden_off (screen (k_wm s)) w" for w
  proof -
    have "filter (hidden_off (screen (k_wm s))) (wins (k_wm s)) \<noteq> []" using that by (auto simp: filter_empty_conv)
    then have n: "0 < ?n" "?n \<le> length (wins (k_wm s))" by simp_all
    have level: "unat (atomicLevel s) + length (wins (k_wm s)) + 1 < 2 ^ 32" using c by (simp add: composable_def)
    with n(2) have "?n < 2 ^ 32" by linarith
    then have "unat (of_nat ?n :: u32) = ?n" by (simp add: unat_of_nat)
    moreover have "unat (atomicLevel s) + ?n < 2 ^ LENGTH(32)" using level n(2) by (simp del: length_filter_le)
    ultimately have "unat (atomicLevel t) = unat (atomicLevel s) + ?n"
      unfolding t(2) by (subst unat_add_lem [THEN iffD1]) simp_all
    then show ?thesis using n(1) by (simp add: word_less_nat_alt)
  qed
  then show ?thesis using t by (auto simp: interruptHandler_def hidden_off_def [abs_def])
qed

lemma window_off_screen_stops_scheduler_witness:
  "\<exists>tr' t. composite (sort_key w_z) [[72, 105, 0]] ex_renderer (ex_desk 100) = Some (tr', t) \<and> atomicLevel t = 1 \<and>
    (\<forall>a regs. interruptHandler a regs t = Some (a, t))"
  using window_off_screen_stops_scheduler [OF z_order.window_order_axioms ex_desk_composable, of 100]
  by (simp add: newWindow_def clip_window_def Let_def sint_uint)

section \<open>Text\<close>

text \<open>Printing a string never writes outside the back buffer and never reads outside the font,
  whatever the position, the size of the text area and the characters are.
\<close>

theorem text_stays_on_screen:
  assumes "fb_ok fb" and "font_ok (tr_font tr)" and "next_tab tr 0 \<noteq> None" and "0 \<in> set s"
  shows "\<exists>tr' b. putString s (tr, fb) = Some (tr', fb\<lparr>fb_back := b\<rparr>) \<and> length b = length (fb_back fb)"
  using putString_prints [OF assms(4)] assms(1-3) unfolding prints_def by blast

theorem text_stays_on_screen_witness:
  "\<exists>tr' b. putString [72, 9, 10, 255, 0] (tr_setPosition 2 2 ex_renderer, ex_screen) = Some (tr', ex_screen\<lparr>fb_back := b\<rparr>) \<and>
     length b = 12"
proof -
  have "font_ok (tr_font (tr_setPosition 2 2 ex_renderer))" and "next_tab (tr_setPosition 2 2 ex_renderer) 0 \<noteq> None"
    by (simp_all add: ex_renderer_def newTextRenderer_def tr_setSize_def tr_setPosition_def font_ok_def list_all_length
        glyph_ok_def ex_glyph_def next_tab_def getGlyph_def rd_at_def)
  from text_stays_on_screen [OF ex_desk_simps(6) this, of "[72, 9, 10, 255, 0]"] show ?thesis
    by (simp add: ex_screen_def)
qed

text \<open>Formatting into a buffer of \<open>n\<close> bytes, for a text that the local buffer of 1024 bytes can hold:
  a text of fewer than \<open>n\<close> characters is written with its terminator and the rest of the buffer stays;
  for any longer text the terminator is written behind the end of the buffer.
\<close>

lemma vsnprintf_exact:
  assumes "vsprintf_from fmt args = Some t" and "length t < 1024" and "length str = n"
  shows "vsnprintf str n fmt args =
    (if length t < n then Some (of_nat (length t), t @ [0] @ drop (Suc (length t)) str) else None)"
proof (cases "length t < n")
  case True
  with vsnprintf_result [OF assms(1,2), of n str] assms(3) show ?thesis by simp
next
  case False
  with vsnprintf_overflow [OF assms(1,2), of str] assms(3) show ?thesis by simp
qed

lemma vsnprintf_exact_witness:
  "vsnprintf [1, 2, 3, 4, 5, 6] 6 [72, 37, 115, 33, 37, 37, 0] [Text [111, 107]] = Some (5, [72, 111, 107, 33, 37, 0])"
proof -
  have "vsprintf_from [72, 37, 115, 33, 37, 37, 0] [Text [111, 107]] = Some [72, 111, 107, 33, 37]" by code_simp
  from vsnprintf_exact [OF this, of "[1, 2, 3, 4, 5, 6]" 6] show ?thesis by simp
qed

section \<open>Descriptors\<close>

text \<open>The numbers handed out and the table after a sequence of openings and closings.\<close>

fun open_and_close :: "descriptor handle_request list \<Rightarrow> descriptor_table \<Rightarrow> u32 list \<times> descriptor_table" where
  "open_and_close [] t = ([], t)"
| "open_and_close (OpenD v # rs) t = (let (k, t) = dt_allocate v t; (ks, t) = open_and_close rs t in (k # ks, t))"
| "open_and_close (CloseD k # rs) t = open_and_close rs (dt_erase k t)"

lemma open_and_close_run: "open_and_close rs t = fds.run rs t"
  by (induction rs t rule: open_and_close.induct) (simp_all split: prod.split)

text \<open>No descriptor number is ever handed out twice, not even after it was closed, and a number that
  stays open keeps its descriptor through every sequence of openings and closings of others, up to
  the wrap of the 32-bit counter.
\<close>

lemma descriptors_never_reused:
  assumes "dt_ok t" and "length rs \<le> dt_room t" and "open_and_close rs t = (ks, t')"
  shows "distinct ks \<and> (\<forall>k\<in>set ks. dt_get k t = None) \<and>
    (\<forall>k v. dt_get k t = Some v \<longrightarrow> CloseD k \<notin> set rs \<longrightarrow> dt_get k t' = Some v)"
proof -
  have run: "fds.run rs t = (ks, t')" using assms(3) by (simp add: open_and_close_run)
  have used: "k \<in> fds_used t" if "dt_get k t = Some v" for k v
  proof -
    have "k \<in> fst ` set (table t)" using that map_of_SomeD [of "table t" k v] by (force simp: dt_get_def)
    then show ?thesis using assms(1) by (auto simp: dt_ok_def)
  qed
  note d = fds.run_distinct [OF assms(1,2) run]
  have "dt_get k t = None" if "k \<in> set ks" for k
    using d that used by (cases "dt_get k t") auto
  moreover have "dt_get k t' = Some v" if "dt_get k t = Some v" "CloseD k \<notin> set rs" for k v
    by (rule fds.run_keeps [OF assms(1,2) run that(1) used [OF that(1)] that(2)])
  ultimately show ?thesis using d by blast
qed

lemma descriptors_never_reused_witness:
  "fst (open_and_close [OpenD (FileDescriptor (newFileDescriptor 0x10 0)), CloseD 3, OpenD (FileDescriptor (newFileDescriptor 0x10 0))] newDescriptorTable) = [3, 4] \<and>
   distinct [3, 4 :: u32]"
proof -
  obtain ks t' where r: "open_and_close [OpenD (FileDescriptor (newFileDescriptor 0x10 0)), CloseD 3, OpenD (FileDescriptor (newFileDescriptor 0x10 0))]
      newDescriptorTable = (ks, t')" by fastforce
  have "ks = [3, 4]" using r by (auto simp: newDescriptorTable_def dt_allocate_def dt_erase_def)
  moreover have "distinct ks"
    using descriptors_never_reused [OF _ _ r] by (simp add: newDescriptorTable_def dt_ok_def dt_room_def fds_used_def)
  ultimately show ?thesis using r by simp
qed

end
