(* ===== verification/Fat_Inodes.thy ===== *)
theory Fat_Inodes
  imports Vfs Fat_File Fat_Create
begin

text \<open>
  The inodes with behaviour of their own: directories and files of a FAT32 partition
  (\<open>core/files/Fat32FileSystem.cpp\<close>), builtin programs (\<open>BuiltinExecutableInode.cpp\<close>) and nodes that
  call functions (\<open>FunctionInode\<close> of \<open>VirtualFileSystem.cpp\<close>). The class of an inode is the value at
  its address; a call of a virtual method is a case distinction on it. A partition object is known by
  its address. The functions behind a \<open>FunctionInode\<close> work on the state \<open>'x\<close>; a null function is
  \<open>None\<close>. A buffer handed to a method is the list of its bytes, and what a method writes into one is
  part of its result.
\<close>

section \<open>Definitions\<close>

record 'x device =
  readFunction :: "(u32 \<Rightarrow> u32 \<Rightarrow> 'x \<Rightarrow> u32 \<times> bytes \<times> 'x) option"
  writeFunction :: "(bytes \<Rightarrow> u32 \<Rightarrow> 'x \<Rightarrow> u32 \<times> 'x) option"
  ioctlFunction :: "(u32 \<Rightarrow> u32 \<Rightarrow> 'x \<Rightarrow> u32 \<times> bytes \<times> 'x) option"

datatype 'x inode_class =
    InodeBase
  | FunctionInode "'x device"
  | BuiltinExecutableInode u32
  | FAT32Directory u32 u32
  | FAT32Archive u32 DirectoryEntry

record 'x fsys =
  fs_vfs :: vfs
  fs_class :: "u32 \<Rightarrow> 'x inode_class"
  fs_size :: "u32 \<Rightarrow> u32"
  fs_partition :: "u32 \<Rightarrow> (part \<times> vdisk) option"
  fs_devices :: 'x

definition inode_getSize :: "u32 \<Rightarrow> 'x fsys \<Rightarrow> u32" where
  "inode_getSize this s = fs_size s this"

definition getType_of :: "u32 \<Rightarrow> 'x fsys \<Rightarrow> inode_type option" where
  "getType_of this s = map_option itype (deref this (fs_vfs s))"

definition isBuiltinExecutable :: "u32 \<Rightarrow> 'x fsys \<Rightarrow> bool" where
  "isBuiltinExecutable this s = (case fs_class s this of BuiltinExecutableInode _ \<Rightarrow> True | _ \<Rightarrow> False)"

definition new_inode ::
    "'x inode_class \<Rightarrow> u32 \<Rightarrow> inode_type \<Rightarrow> u32 \<Rightarrow> u32 \<Rightarrow> u32 \<Rightarrow> 'x fsys \<Rightarrow> u32 \<times> 'x fsys" where
  "new_inode c n t m u g s =
     (let (a, v) = newInode t m u g (fs_vfs s) in
      if a = 0 then (0, s)
      else (a, s\<lparr>fs_vfs := v, fs_class := (fs_class s)(a := c), fs_size := (fs_size s)(a := n)\<rparr>))"

definition newFAT32Directory :: "u32 \<Rightarrow> u32 \<Rightarrow> u32 \<Rightarrow> u32 \<Rightarrow> u32 \<Rightarrow> 'x fsys \<Rightarrow> u32 \<times> 'x fsys" where
  "newFAT32Directory parentPartition start m u g = new_inode (FAT32Directory parentPartition start) 0 Directory m u g"

definition newFAT32Archive :: "u32 \<Rightarrow> DirectoryEntry \<Rightarrow> u32 \<Rightarrow> u32 \<Rightarrow> u32 \<Rightarrow> 'x fsys \<Rightarrow> u32 \<times> 'x fsys" where
  "newFAT32Archive parentPartition e m u g = new_inode (FAT32Archive parentPartition e) (e_fileSize e) File m u g"

text \<open>Readable and executable by everyone.\<close>

definition newBuiltinExecutableInode :: "u32 \<Rightarrow> 'x fsys \<Rightarrow> u32 \<times> 'x fsys" where
  "newBuiltinExecutableInode entry = new_inode (BuiltinExecutableInode entry) 0 File 0x16D 0 0"

definition new_FunctionInode :: "'x device \<Rightarrow> 'x fsys \<Rightarrow> u32 \<times> 'x fsys" where
  "new_FunctionInode d = new_inode (FunctionInode d) 0 CharacterDevice 0x1A4 0 0"

definition with_vfs :: "(vfs \<Rightarrow> vfs option) \<Rightarrow> 'x fsys \<Rightarrow> 'x fsys option" where
  "with_vfs f s = map_option (\<lambda>v. s\<lparr>fs_vfs := v\<rparr>) (f (fs_vfs s))"

definition put_disk :: "u32 \<Rightarrow> vdisk \<Rightarrow> 'x fsys \<Rightarrow> 'x fsys" where
  "put_disk dk d s = s\<lparr>fs_partition := (fs_partition s)(dk := map_option (\<lambda>pd. (fst pd, d)) (fs_partition s dk))\<rparr>"

subsection \<open>Directories\<close>

text \<open>The inode for an entry of the disk; entries that are neither directory nor file have none.\<close>

definition entry_inode :: "u32 \<Rightarrow> u32 \<Rightarrow> DirectoryEntry \<Rightarrow> 'x fsys \<Rightarrow> (u32 \<times> 'x fsys) option" where
  "entry_inode this dk e s =
     do { t \<leftarrow> deref this (fs_vfs s);
          Some (if e_attributes e AND ATTR_DIRECTORY \<noteq> 0 then
                  newFAT32Directory dk (getFirstCluster e) (mode t) (userId t) (groupId t) s
                else if e_attributes e AND ATTR_ARCHIVE \<noteq> 0 then newFAT32Archive dk e (mode t) (userId t) (groupId t) s
                else (0, s)) }"

definition add_entry :: "u32 \<Rightarrow> u32 \<Rightarrow> DirectoryEntry \<Rightarrow> 'x fsys \<Rightarrow> 'x fsys option" where
  "add_entry this dk e s =
     do { (a, s) \<leftarrow> entry_inode this dk e s;
          if a = 0 then Some s else with_vfs (addDentry this (e_longName e) a) s }"

text \<open>The first two entries are skipped.\<close>

definition list_directory :: "u32 \<Rightarrow> u32 \<Rightarrow> u32 \<Rightarrow> 'x fsys \<Rightarrow> 'x fsys option" where
  "list_directory this dk start s =
     do { s \<leftarrow> with_vfs (clearDentries this) s;
          (p, d) \<leftarrow> fs_partition s dk;
          entries \<leftarrow> getDirectoryEntries p d start;
          fold_opt (add_entry this dk) (drop 2 entries) s }"

definition fs_getDentries :: "u32 \<Rightarrow> nat \<Rightarrow> nat \<Rightarrow> 'x fsys \<Rightarrow> ((bytes \<times> u32) list \<times> 'x fsys) option" where
  "fs_getDentries this offset count s =
     do { s \<leftarrow> (case fs_class s this of FAT32Directory dk start \<Rightarrow> list_directory this dk start s | _ \<Rightarrow> Some s);
          ds \<leftarrow> getDentries this offset count (fs_vfs s);
          Some (ds, s) }"

definition fs_getDentry :: "u32 \<Rightarrow> bytes \<Rightarrow> 'x fsys \<Rightarrow> (u32 \<times> 'x fsys) option" where
  "fs_getDentry this name s =
     do { t \<leftarrow> deref this (fs_vfs s);
          s \<leftarrow> (case fs_class s this of
                  FAT32Directory _ _ \<Rightarrow> if dentries t = [] then map_option snd (fs_getDentries this 0 100 s) else Some s
                | _ \<Rightarrow> Some s);
          a \<leftarrow> getDentry this name (fs_vfs s);
          Some (a, s) }"

text \<open>The entry the partition is given for a directory.\<close>

definition directory_entry :: "u32 \<Rightarrow> DirectoryEntry" where
  "directory_entry start =
     mkDirectoryEntry 0 start [0x2E]
       (zero_dentry\<lparr>d_attribute := ATTR_DIRECTORY, d_firstClusterLow := ucast (start AND 0xFFFF),
                    d_firstClusterHigh := ucast (drop_bit 16 start AND 0xFFFF)\<rparr>)"

definition register_new :: "u32 \<Rightarrow> bytes \<Rightarrow> u32 \<times> 'x fsys \<Rightarrow> (u32 \<times> 'x fsys) option" where
  "register_new this name as =
     (let (a, s) = as in
      if a = 0 then Some (0, s) else do { s \<leftarrow> with_vfs (addDentry this name a) s; Some (a, s) })"

definition fs_createFile :: "u32 \<Rightarrow> bytes \<Rightarrow> u32 \<Rightarrow> u32 \<Rightarrow> u32 \<Rightarrow> 'x fsys \<Rightarrow> (u32 \<times> 'x fsys) option" where
  "fs_createFile this name m u g s =
     (case fs_class s this of
        FAT32Directory dk start \<Rightarrow> do {
          (p, d) \<leftarrow> fs_partition s dk;
          (created, _, d) \<leftarrow> createFile p (directory_entry start) name ATTR_ARCHIVE d;
          let s = put_disk dk d s in
          case created of None \<Rightarrow> Some (0, s) | Some e \<Rightarrow> register_new this name (newFAT32Archive dk e m u g s) }
      | _ \<Rightarrow> Some (0, s))"

definition fs_createDirectory :: "u32 \<Rightarrow> bytes \<Rightarrow> u32 \<Rightarrow> u32 \<Rightarrow> u32 \<Rightarrow> 'x fsys \<Rightarrow> (u32 \<times> 'x fsys) option" where
  "fs_createDirectory this name m u g s =
     (case fs_class s this of
        FAT32Directory dk start \<Rightarrow> do {
          (p, d) \<leftarrow> fs_partition s dk;
          (created, _, d) \<leftarrow> createDirectory p (directory_entry start) name d;
          let s = put_disk dk d s in
          case created of None \<Rightarrow> Some (0, s)
          | Some e \<Rightarrow> register_new this name (newFAT32Directory dk (getFirstCluster e) m u g s) }
      | _ \<Rightarrow> Some (0, s))"

definition fs_delete ::
    "(part \<Rightarrow> DirectoryEntry \<Rightarrow> bytes \<Rightarrow> vdisk \<Rightarrow> (bool \<times> vdisk) option) \<Rightarrow> u32 \<Rightarrow> bytes \<Rightarrow> 'x fsys \<Rightarrow> (bool \<times> 'x fsys) option" where
  "fs_delete on_disk this name s =
     (case fs_class s this of
        FAT32Directory dk start \<Rightarrow> do {
          (p, d) \<leftarrow> fs_partition s dk;
          (success, d) \<leftarrow> on_disk p (directory_entry start) name d;
          let s = put_disk dk d s in
          if \<not> success then Some (False, s)
          else do { s \<leftarrow> with_vfs (\<lambda>v. map_option snd (removeDentry this name v)) s; Some (True, s) } }
      | _ \<Rightarrow> Some (False, s))"

definition fs_deleteFile :: "u32 \<Rightarrow> bytes \<Rightarrow> 'x fsys \<Rightarrow> (bool \<times> 'x fsys) option" where
  "fs_deleteFile = fs_delete deleteFile"

definition fs_deleteDirectory :: "u32 \<Rightarrow> bytes \<Rightarrow> 'x fsys \<Rightarrow> (bool \<times> 'x fsys) option" where
  "fs_deleteDirectory = fs_delete deleteDirectory"

subsection \<open>Files\<close>

text \<open>The count a read returns, and the bytes it puts into the buffer.\<close>

definition inode_read :: "u32 \<Rightarrow> u32 \<Rightarrow> u32 \<Rightarrow> 'x fsys \<Rightarrow> ((u32 \<times> bytes) \<times> 'x fsys) option" where
  "inode_read this n offset s =
     (case fs_class s this of
        FAT32Archive dk e \<Rightarrow>
          if inode_getSize this s \<le> offset then Some ((0, []), s)
          else do {
            (p, d) \<leftarrow> fs_partition s dk;
            data \<leftarrow> readFileRange p d (getFirstCluster e) offset n;
            let bytesToRead = min (unat n) (length data) in Some ((of_nat bytesToRead, take bytesToRead data), s) }
      | FunctionInode f \<Rightarrow>
          (case readFunction f of
             None \<Rightarrow> Some ((0, []), s)
           | Some r \<Rightarrow> let (count, bs, x) = r n offset (fs_devices s) in Some ((count, bs), s\<lparr>fs_devices := x\<rparr>))
      | _ \<Rightarrow> Some ((0, []), s))"

text \<open>The length of the buffer is the size. The entry is passed by reference, so it keeps its changes on failure.\<close>

definition inode_write :: "u32 \<Rightarrow> bytes \<Rightarrow> u32 \<Rightarrow> 'x fsys \<Rightarrow> (u32 \<times> 'x fsys) option" where
  "inode_write this data offset s =
     (case fs_class s this of
        FAT32Archive dk e \<Rightarrow> do {
          (p, d) \<leftarrow> fs_partition s dk;
          (success, e, d) \<leftarrow> writeAtOffset p e data offset d;
          let s = (put_disk dk d s)\<lparr>fs_class := (fs_class s)(this := FAT32Archive dk e)\<rparr>;
              newSize = offset + of_nat (length data)
          in Some (if \<not> success then (0, s)
                   else (of_nat (length data),
                         if inode_getSize this s < newSize then s\<lparr>fs_size := (fs_size s)(this := newSize)\<rparr> else s)) }
      | FunctionInode f \<Rightarrow>
          (case writeFunction f of
             None \<Rightarrow> Some (0, s)
           | Some w \<Rightarrow> let (count, x) = w data offset (fs_devices s) in Some (count, s\<lparr>fs_devices := x\<rparr>))
      | _ \<Rightarrow> Some (0, s))"

definition inode_truncate :: "u32 \<Rightarrow> u32 \<Rightarrow> 'x fsys \<Rightarrow> (u32 \<times> 'x fsys) option" where
  "inode_truncate this newSize s =
     (case fs_class s this of
        FAT32Archive dk e \<Rightarrow>
          if newSize \<noteq> 0 then Some (- 1, s)
          else do {
            (p, d) \<leftarrow> fs_partition s dk;
            (ok, e, d) \<leftarrow> write_entry p e [] d;
            let s = put_disk dk d s in
            Some (if \<not> ok then (- 1, s\<lparr>fs_class := (fs_class s)(this := FAT32Archive dk e)\<rparr>)
                  else (0, s\<lparr>fs_class := (fs_class s)(this := FAT32Archive dk (setClusterChain 0 (setFileSize 0 e))),
                             fs_size := (fs_size s)(this := 0)\<rparr>)) }
      | _ \<Rightarrow> Some (- 1, s))"

definition inode_ioctl :: "u32 \<Rightarrow> u32 \<Rightarrow> u32 \<Rightarrow> 'x fsys \<Rightarrow> (u32 \<times> bytes) \<times> 'x fsys" where
  "inode_ioctl this request arg s =
     (case fs_class s this of
        FunctionInode f \<Rightarrow>
          (case ioctlFunction f of
             None \<Rightarrow> ((- 1, []), s)
           | Some c \<Rightarrow> let (status, bs, x) = c request arg (fs_devices s) in ((status, bs), s\<lparr>fs_devices := x\<rparr>))
      | _ \<Rightarrow> ((- 1, []), s))"

subsection \<open>Paths\<close>

fun fs_traversePath :: "u32 \<Rightarrow> bytes list \<Rightarrow> 'x fsys \<Rightarrow> (u32 \<times> 'x fsys) option" where
  "fs_traversePath currentInode [] s = Some (currentInode, s)"
| "fs_traversePath currentInode (component # components) s =
     do { (dentry, s) \<leftarrow> fs_getDentry currentInode component s;
          if dentry = 0 then Some (0, s) else fs_traversePath dentry components s }"

definition fs_getInodeByPath :: "bytes \<Rightarrow> 'x fsys \<Rightarrow> (u32 \<times> 'x fsys) option" where
  "fs_getInodeByPath path s =
     (if rootNode (fs_vfs s) = 0 then None else fs_traversePath (rootNode (fs_vfs s)) (components_of path) s)"

definition fs_getParentDirectory :: "bytes list \<Rightarrow> 'x fsys \<Rightarrow> (u32 \<times> 'x fsys) option" where
  "fs_getParentDirectory path s = (if path = [] then None else fs_traversePath (rootNode (fs_vfs s)) (butlast path) s)"

section \<open>What a listing holds\<close>

definition has_inode :: "DirectoryEntry \<Rightarrow> bool" where
  "has_inode e = (e_attributes e AND ATTR_DIRECTORY \<noteq> 0 \<or> e_attributes e AND ATTR_ARCHIVE \<noteq> 0)"

text \<open>The entry a name stands for: the last one that carries it.\<close>

definition listed :: "bytes \<Rightarrow> DirectoryEntry list \<Rightarrow> DirectoryEntry option" where
  "listed name es = find (\<lambda>e. e_longName e = name \<and> has_inode e) (rev es)"

definition class_of :: "u32 \<Rightarrow> DirectoryEntry \<Rightarrow> 'x inode_class" where
  "class_of dk e = (if e_attributes e AND ATTR_DIRECTORY \<noteq> 0 then FAT32Directory dk (getFirstCluster e) else FAT32Archive dk e)"

definition size_of :: "DirectoryEntry \<Rightarrow> u32" where
  "size_of e = (if e_attributes e AND ATTR_DIRECTORY \<noteq> 0 then 0 else e_fileSize e)"

text \<open>The addresses the heap will give are new: not null, not repeated, not the directory.\<close>

definition fresh_for :: "u32 \<Rightarrow> 'x fsys \<Rightarrow> bool" where
  "fresh_for this s = (distinct (addresses (fs_vfs s)) \<and> 0 \<notin> set (addresses (fs_vfs s)) \<and> this \<notin> set (addresses (fs_vfs s)))"

lemma find_append: "find P (xs @ ys) = (case find P xs of Some x \<Rightarrow> Some x | None \<Rightarrow> find P ys)"
  by (induction xs) auto

lemma listed_Cons:
  "listed name (e # es) =
     (case listed name es of Some x \<Rightarrow> Some x | None \<Rightarrow> if e_longName e = name \<and> has_inode e then Some e else None)"
  by (auto simp: listed_def find_append split: option.split)

lemma addDentry_frame:
  assumes "addDentry this name a v = Some v'"
  shows "addresses v' = addresses v \<and> freed v' = freed v \<and>
    (\<forall>q. deref q v' = None \<longleftrightarrow> deref q v = None) \<and>
    (\<forall>q c. getDentry q c v' = (if q = this \<and> c = name then Some a else getDentry q c v))"
proof -
  obtain t d where td: "deref this v = Some t" "deref a v = Some d" and a: "a \<noteq> 0"
    using assms unfolding addDentry_def by (auto split: if_splits bind_splits)
  have "addresses v' = addresses v \<and> (\<forall>q. deref q v' = None \<longleftrightarrow> deref q v = None)"
    using assms td a unfolding addDentry_def Let_def
    by (auto simp: set_inode_def deref_def split: if_splits bind_splits)
  moreover have "freed v' = freed v \<and> (\<forall>q c. getDentry q c v' = (if q = this \<and> c = name then Some a else getDentry q c v))"
    using addDentry_spec [OF td, of name] assms by fastforce
  ultimately show ?thesis by blast
qed

lemma new_inode_spec:
  assumes "addresses (fs_vfs s) = a # as" and "a \<noteq> 0"
  shows "\<exists>s'. new_inode c n t m u g s = (a, s') \<and> addresses (fs_vfs s') = as \<and> fs_partition s' = fs_partition s \<and>
    fs_class s' = (fs_class s)(a := c) \<and> fs_size s' = (fs_size s)(a := n) \<and>
    deref a (fs_vfs s') \<noteq> None \<and> (\<forall>q. q \<noteq> a \<longrightarrow> deref q (fs_vfs s') = deref q (fs_vfs s)) \<and>
    (\<forall>q k. q \<noteq> a \<longrightarrow> getDentry q k (fs_vfs s') = getDentry q k (fs_vfs s))"
  using assms by (simp add: new_inode_def newInode_def deref_def getDentry_def)

lemma add_entry_spec:
  assumes "deref this (fs_vfs s) \<noteq> None" and "fresh_for this s" and "addresses (fs_vfs s) \<noteq> []"
  shows "\<exists>s'. add_entry this dk e s = Some s' \<and> deref this (fs_vfs s') \<noteq> None \<and> fresh_for this s' \<and>
    fs_partition s' = fs_partition s \<and>
    (if has_inode e then
       \<exists>a. addresses (fs_vfs s) = a # addresses (fs_vfs s') \<and>
         fs_class s' = (fs_class s)(a := class_of dk e) \<and> fs_size s' = (fs_size s)(a := size_of e) \<and>
         (\<forall>q. q \<noteq> a \<longrightarrow> (deref q (fs_vfs s') = None \<longleftrightarrow> deref q (fs_vfs s) = None)) \<and>
         (\<forall>k. getDentry this k (fs_vfs s') = (if k = e_longName e then Some a else getDentry this k (fs_vfs s)))
     else s' = s)"
proof (cases "has_inode e")
  case False
  then show ?thesis using assms by (auto simp: add_entry_def entry_inode_def has_inode_def)
next
  case True
  obtain a as where as: "addresses (fs_vfs s) = a # as" using assms(3) by (cases "addresses (fs_vfs s)") auto
  have a: "a \<noteq> 0" "a \<noteq> this" "this \<noteq> 0" using assms(1,2) as by (auto simp: fresh_for_def deref_def)
  obtain t where t: "deref this (fs_vfs s) = Some t" using assms(1) by blast
  obtain s1 where s1: "entry_inode this dk e s = Some (a, s1)" "addresses (fs_vfs s1) = as" "fs_partition s1 = fs_partition s"
    "fs_class s1 = (fs_class s)(a := class_of dk e)" "fs_size s1 = (fs_size s)(a := size_of e)"
    "deref a (fs_vfs s1) \<noteq> None" "\<forall>q. q \<noteq> a \<longrightarrow> deref q (fs_vfs s1) = deref q (fs_vfs s)"
    "\<forall>q k. q \<noteq> a \<longrightarrow> getDentry q k (fs_vfs s1) = getDentry q k (fs_vfs s)"
    using new_inode_spec [OF as a(1)] True t
    unfolding entry_inode_def has_inode_def newFAT32Directory_def newFAT32Archive_def class_of_def size_of_def
    by (cases "e_attributes e AND ATTR_DIRECTORY \<noteq> 0") (simp; metis)+
  obtain d where d: "deref a (fs_vfs s1) = Some d" using s1(6) by blast
  have th: "deref this (fs_vfs s1) = Some t" using s1(7) a t by simp
  obtain v where v: "addDentry this (e_longName e) a (fs_vfs s1) = Some v" using addDentry_spec [OF th d] by blast
  have "add_entry this dk e s = Some (s1\<lparr>fs_vfs := v\<rparr>)" using s1(1) a(1) v by (simp add: add_entry_def with_vfs_def)
  moreover note fr = addDentry_frame [OF v]
  have "addresses v = as" and "deref this v \<noteq> None" using fr s1(2) th by simp_all
  moreover have "\<forall>q. q \<noteq> a \<longrightarrow> (deref q v = None \<longleftrightarrow> deref q (fs_vfs s) = None)" using fr s1(7) by simp
  moreover have "\<forall>k. getDentry this k v = (if k = e_longName e then Some a else getDentry this k (fs_vfs s))"
    using fr s1(8) a(2) by simp
  moreover have "fresh_for this (s1\<lparr>fs_vfs := v\<rparr>)" using \<open>addresses v = as\<close> assms(2) as by (simp add: fresh_for_def)
  ultimately show ?thesis
    using True as s1(3,4,5) by (intro exI [of _ "s1\<lparr>fs_vfs := v\<rparr>"]) simp
qed

text \<open>The whole loop: each name is there with the inode of its last entry, other names as before.\<close>

lemma fold_add_entry:
  assumes "deref this (fs_vfs s) \<noteq> None" and "fresh_for this s" and "length es \<le> length (addresses (fs_vfs s))"
  shows "\<exists>s'. fold_opt (add_entry this dk) es s = Some s' \<and> deref this (fs_vfs s') \<noteq> None \<and>
    fs_partition s' = fs_partition s \<and>
    (\<forall>q. q \<notin> set (addresses (fs_vfs s)) \<longrightarrow> fs_class s' q = fs_class s q \<and> fs_size s' q = fs_size s q \<and>
       (deref q (fs_vfs s') = None \<longleftrightarrow> deref q (fs_vfs s) = None)) \<and>
    (\<forall>k. case listed k es of
           None \<Rightarrow> getDentry this k (fs_vfs s') = getDentry this k (fs_vfs s)
         | Some e \<Rightarrow> \<exists>a. getDentry this k (fs_vfs s') = Some a \<and> a \<in> set (addresses (fs_vfs s)) \<and>
             fs_class s' a = class_of dk e \<and> fs_size s' a = size_of e)"
  using assms
proof (induction es arbitrary: s)
  case Nil
  then show ?case by (simp add: listed_def)
next
  case (Cons e es)
  have ne: "addresses (fs_vfs s) \<noteq> []" using Cons.prems(3) by auto
  obtain s1 where s1: "add_entry this dk e s = Some s1" "deref this (fs_vfs s1) \<noteq> None" "fresh_for this s1"
    "fs_partition s1 = fs_partition s"
    and step: "if has_inode e then
       \<exists>a. addresses (fs_vfs s) = a # addresses (fs_vfs s1) \<and>
         fs_class s1 = (fs_class s)(a := class_of dk e) \<and> fs_size s1 = (fs_size s)(a := size_of e) \<and>
         (\<forall>q. q \<noteq> a \<longrightarrow> (deref q (fs_vfs s1) = None \<longleftrightarrow> deref q (fs_vfs s) = None)) \<and>
         (\<forall>k. getDentry this k (fs_vfs s1) = (if k = e_longName e then Some a else getDentry this k (fs_vfs s)))
     else s1 = s"
    using add_entry_spec [OF Cons.prems(1,2) ne, of dk e] by blast
  have "length es \<le> length (addresses (fs_vfs s1))" using step Cons.prems(3) by (auto split: if_splits)
  from Cons.IH [OF s1(2,3) this] obtain s' where s': "fold_opt (add_entry this dk) es s1 = Some s'"
    "deref this (fs_vfs s') \<noteq> None" "fs_partition s' = fs_partition s1"
    and keep: "\<forall>q. q \<notin> set (addresses (fs_vfs s1)) \<longrightarrow> fs_class s' q = fs_class s1 q \<and> fs_size s' q = fs_size s1 q \<and>
       (deref q (fs_vfs s') = None \<longleftrightarrow> deref q (fs_vfs s1) = None)"
    and look: "\<forall>k. case listed k es of
           None \<Rightarrow> getDentry this k (fs_vfs s') = getDentry this k (fs_vfs s1)
         | Some e \<Rightarrow> \<exists>a. getDentry this k (fs_vfs s') = Some a \<and> a \<in> set (addresses (fs_vfs s1)) \<and>
             fs_class s' a = class_of dk e \<and> fs_size s' a = size_of e" by blast
  have run: "fold_opt (add_entry this dk) (e # es) s = Some s'" using s1(1) s'(1) by simp
  have part: "fs_partition s' = fs_partition s" using s'(3) s1(4) by simp
  show ?case
  proof (cases "has_inode e")
    case False
    then have s1s: "s1 = s" using step by simp
    have "listed k (e # es) = listed k es" for k using False by (simp add: listed_Cons split: option.split)
    then show ?thesis using run part s'(2) keep look unfolding s1s by (intro exI [of _ s']) simp
  next
    case True
    then obtain a where a: "addresses (fs_vfs s) = a # addresses (fs_vfs s1)"
      "fs_class s1 = (fs_class s)(a := class_of dk e)" "fs_size s1 = (fs_size s)(a := size_of e)"
      "\<forall>q. q \<noteq> a \<longrightarrow> (deref q (fs_vfs s1) = None \<longleftrightarrow> deref q (fs_vfs s) = None)"
      "\<forall>k. getDentry this k (fs_vfs s1) = (if k = e_longName e then Some a else getDentry this k (fs_vfs s))"
      using step by auto
    have an: "a \<notin> set (addresses (fs_vfs s1))" using Cons.prems(2) a(1) by (auto simp: fresh_for_def)
    have "case listed k (e # es) of
           None \<Rightarrow> getDentry this k (fs_vfs s') = getDentry this k (fs_vfs s)
         | Some e \<Rightarrow> \<exists>a. getDentry this k (fs_vfs s') = Some a \<and> a \<in> set (addresses (fs_vfs s)) \<and>
             fs_class s' a = class_of dk e \<and> fs_size s' a = size_of e" for k
      using look [rule_format, of k] a(1,5) True keep [rule_format, OF an] a(2,3)
      by (cases "listed k es") (auto simp: listed_Cons)
    then show ?thesis using run part s'(2) keep a by auto
  qed
qed

lemma free_all:
  "rootNode (fold (\<lambda>(name, p). heap_free p) ds v) = rootNode v \<and> addresses (fold (\<lambda>(name, p). heap_free p) ds v) = addresses v \<and>
   deref q (fold (\<lambda>(name, p). heap_free p) ds v) = (if q \<in> snd ` set ds then None else deref q v)"
proof (induction ds arbitrary: v)
  case (Cons d ds)
  show ?case using Cons [of "heap_free (snd d) v"] by (cases d) (auto simp: heap_free_def deref_def)
qed simp

lemma clear_spec:
  assumes "deref this v = Some t" and "this \<notin> snd ` set (dentries t)"
  shows "\<exists>v'. clearDentries this v = Some v' \<and> addresses v' = addresses v \<and> deref this v' = Some (t\<lparr>dentries := []\<rparr>) \<and>
    (\<forall>q. q \<noteq> this \<longrightarrow> deref q v' = (if q \<in> snd ` set (dentries t) then None else deref q v))"
proof -
  let ?v = "fold (\<lambda>(name, p). heap_free p) (dentries t) v"
  have this0: "this \<noteq> 0" using assms(1) by (auto simp: deref_def)
  have "deref this ?v = Some t" using assms free_all [of "dentries t" v this] by simp
  then have "clearDentries this v = Some (set_inode this (t\<lparr>dentries := []\<rparr>) ?v)"
    using assms(1) by (simp add: clearDentries_def)
  moreover have "deref q (set_inode this i ?v) = (if q = this then Some i else deref q ?v)" for q i
    using this0 by (simp add: deref_def set_inode_def)
  moreover have "addresses (set_inode this i ?v) = addresses v" for i
    using free_all [of "dentries t" v] by (simp add: set_inode_def del: fold.simps)
  ultimately show ?thesis using free_all [of "dentries t" v] by simp
qed

lemma list_directory_spec:
  assumes "deref this (fs_vfs s) = Some t" and "this \<notin> snd ` set (dentries t)" and "fresh_for this s"
    and "fs_partition s dk = Some (p, d)" and "getDirectoryEntries p d start = Some es"
    and "length es \<le> length (addresses (fs_vfs s)) + 2"
  shows "\<exists>s'. list_directory this dk start s = Some s' \<and> deref this (fs_vfs s') \<noteq> None \<and> fs_partition s' = fs_partition s \<and>
    (\<forall>q \<in> snd ` set (dentries t). q \<notin> set (addresses (fs_vfs s)) \<longrightarrow>
       deref q (fs_vfs s') = None \<and> fs_class s' q = fs_class s q) \<and>
    (\<forall>k. case listed k (drop 2 es) of
           None \<Rightarrow> getDentry this k (fs_vfs s') = Some 0
         | Some e \<Rightarrow> \<exists>a. getDentry this k (fs_vfs s') = Some a \<and> a \<in> set (addresses (fs_vfs s)) \<and>
             fs_class s' a = class_of dk e \<and> fs_size s' a = size_of e)"
proof -
  obtain v where v: "clearDentries this (fs_vfs s) = Some v" "addresses v = addresses (fs_vfs s)"
    "deref this v = Some (t\<lparr>dentries := []\<rparr>)"
    "\<forall>q. q \<noteq> this \<longrightarrow> deref q v = (if q \<in> snd ` set (dentries t) then None else deref q (fs_vfs s))"
    using clear_spec [OF assms(1,2)] by blast
  let ?s = "s\<lparr>fs_vfs := v\<rparr>"
  have d: "deref this (fs_vfs ?s) \<noteq> None" using v(3) by simp
  have f: "fresh_for this ?s" using assms(3) v(2) by (simp add: fresh_for_def)
  have l: "length (drop 2 es) \<le> length (addresses (fs_vfs ?s))" using assms(6) v(2) by simp
  have ad: "addresses (fs_vfs ?s) = addresses (fs_vfs s)" using v(2) by simp
  have g0: "getDentry this k (fs_vfs ?s) = Some 0" for k using v(3) by (simp add: getDentry_def)
  have gone: "q \<in> snd ` set (dentries t) \<Longrightarrow> deref q v = None" for q using v(4) assms(2) by metis
  obtain s' where s': "fold_opt (add_entry this dk) (drop 2 es) ?s = Some s'" "deref this (fs_vfs s') \<noteq> None"
    "fs_partition s' = fs_partition ?s"
    and keep: "\<forall>q. q \<notin> set (addresses (fs_vfs ?s)) \<longrightarrow> fs_class s' q = fs_class ?s q \<and> fs_size s' q = fs_size ?s q \<and>
       (deref q (fs_vfs s') = None \<longleftrightarrow> deref q (fs_vfs ?s) = None)"
    and look: "\<forall>k. case listed k (drop 2 es) of
           None \<Rightarrow> getDentry this k (fs_vfs s') = getDentry this k (fs_vfs ?s)
         | Some e \<Rightarrow> \<exists>a. getDentry this k (fs_vfs s') = Some a \<and> a \<in> set (addresses (fs_vfs ?s)) \<and>
             fs_class s' a = class_of dk e \<and> fs_size s' a = size_of e"
    using fold_add_entry [OF d f l, of dk] by blast
  have "list_directory this dk start s = Some s'"
    using v(1) assms(4,5) s'(1) by (simp add: list_directory_def with_vfs_def)
  moreover have "\<forall>q \<in> snd ` set (dentries t). q \<notin> set (addresses (fs_vfs s)) \<longrightarrow>
       deref q (fs_vfs s') = None \<and> fs_class s' q = fs_class s q"
    using keep gone v(2) by simp
  moreover have "\<forall>k. case listed k (drop 2 es) of
           None \<Rightarrow> getDentry this k (fs_vfs s') = Some 0
         | Some e \<Rightarrow> \<exists>a. getDentry this k (fs_vfs s') = Some a \<and> a \<in> set (addresses (fs_vfs s)) \<and>
             fs_class s' a = class_of dk e \<and> fs_size s' a = size_of e"
    using look unfolding g0 ad .
  ultimately show ?thesis using s'(2,3) by (intro exI [of _ s']) simp
qed

end
