(* ===== verification/Inode_Laws.thy ===== *)
theory Inode_Laws
  imports Fat_Inodes Fat_Example
begin

text \<open>
  The properties of the inodes of a FAT32 partition, with their application to the example volume.
\<close>

section \<open>The order of a listing\<close>

lemma vec_less_trans: "vec_less a b \<Longrightarrow> vec_less b c \<Longrightarrow> vec_less a c"
proof (induction a b arbitrary: c rule: vec_less.induct)
  case (2 y ys)
  then show ?case by (cases c) auto
next
  case (3 x xs y ys)
  then obtain z zs where "c = z # zs" by (cases c) auto
  then show ?case using 3 by (auto dest: order_less_trans)
qed simp

lemma name_less_trans: "name_less a b \<Longrightarrow> name_less b c \<Longrightarrow> name_less a c"
  unfolding name_less_def by (rule vec_less_trans)

text \<open>The entries stand in the order of their names, each name once, and none is null.\<close>

definition in_order :: "(bytes \<times> u32) list \<Rightarrow> bool" where
  "in_order ds = (sorted_wrt name_less (map fst ds) \<and> (\<forall>d \<in> set ds. snd d \<noteq> 0))"

lemma in_order_Nil: "in_order []"
  by (simp add: in_order_def)

lemma dentry_put_keys: "fst ` set (dentry_put k v ds) = insert k (fst ` set ds)"
proof (induction ds)
  case (Cons d ds)
  obtain a b where d: "d = (a, b)" by (cases d)
  show ?case using Cons same_name [of k a] by (auto simp: d)
qed simp

lemma in_order_put: "in_order ds \<Longrightarrow> v \<noteq> 0 \<Longrightarrow> in_order (dentry_put k v ds)"
proof (induction ds)
  case (Cons d ds)
  obtain a b where d: "d = (a, b)" by (cases d)
  have ds: "in_order ds" "b \<noteq> 0" "\<forall>x \<in> fst ` set ds. name_less a x" using Cons.prems(1) by (auto simp: d in_order_def)
  consider "name_less k a" | "\<not> name_less k a" "name_less a k" | "k = a" using same_name by metis
  then show ?case
  proof cases
    case 1
    then show ?thesis using ds Cons.prems(2) name_less_trans [OF 1] by (auto simp: d in_order_def)
  next
    case 2
    have "\<forall>x \<in> fst ` set (dentry_put k v ds). name_less a x" using ds(3) 2 by (simp add: dentry_put_keys)
    then show ?thesis using 2 ds(2) Cons.IH [OF ds(1) Cons.prems(2)] by (auto simp: d in_order_def)
  next
    case 3
    then show ?thesis using ds Cons.prems(2) by (auto simp: d in_order_def)
  qed
qed (simp add: in_order_def)

definition listing_in_order :: "u32 \<Rightarrow> vfs \<Rightarrow> bool" where
  "listing_in_order this v = (\<forall>t. deref this v = Some t \<longrightarrow> in_order (dentries t))"

lemma addDentry_in_order:
  assumes "addDentry this name a v = Some v'" and "listing_in_order this v"
  shows "listing_in_order this v'"
  using assms unfolding addDentry_def Let_def
  by (auto simp: listing_in_order_def set_inode_def deref_def in_order_put split: if_splits bind_splits)

lemma add_entry_in_order:
  assumes "add_entry this dk e s = Some s'" and "listing_in_order this (fs_vfs s)"
  shows "listing_in_order this (fs_vfs s')"
proof -
  obtain a u where u: "entry_inode this dk e s = Some (a, u)" using assms(1) by (auto simp: add_entry_def split: bind_splits)
  have "listing_in_order this (fs_vfs u)"
    using u assms(2) by (auto simp: entry_inode_def newFAT32Directory_def newFAT32Archive_def new_inode_def newInode_def
      listing_in_order_def in_order_Nil deref_def split: if_splits bind_splits list.splits)
  then show ?thesis
    using assms(1) u by (auto simp: add_entry_def with_vfs_def addDentry_in_order split: if_splits)
qed

lemma list_directory_in_order:
  assumes "list_directory this dk start s = Some s'"
  shows "listing_in_order this (fs_vfs s')"
proof -
  obtain v es where v: "clearDentries this (fs_vfs s) = Some v"
    "fold_opt (add_entry this dk) es (s\<lparr>fs_vfs := v\<rparr>) = Some s'"
    using assms by (auto simp: list_directory_def with_vfs_def split: bind_splits)
  have "listing_in_order this (fs_vfs (s\<lparr>fs_vfs := v\<rparr>))"
    using v(1) by (auto simp: clearDentries_def Let_def listing_in_order_def in_order_def set_inode_def deref_def split: bind_splits)
  then show ?thesis by (rule fold_opt_inv [OF v(2)]) (simp add: add_entry_in_order)
qed

section \<open>What is listed\<close>

text \<open>C18: Listing a directory of a FAT32 partition gives the entries on the disk: \<open>all\<close> holds each name that
  stands on the disk once, in the order of the names, and no other, and the caller gets the part of
  \<open>all\<close> that starts at its offset, up to \<open>offset + n\<close> entries. Behind each name is a new inode of the
  class and size of the last entry on the disk that carries the name, and a search for a name finds
  that inode, or nothing, whatever was listed before. The entries are those after the first two, in the
  root directory as well, which has no entries for itself and its parent: the first two files there
  cannot be reached.\<close>

theorem listing_matches_disk:
  assumes "fs_class s this = FAT32Directory dk start" and "deref this (fs_vfs s) = Some t"
    and "this \<notin> snd ` set (dentries t)" and "fresh_for this s"
    and "fs_partition s dk = Some (p, d)" and "getDirectoryEntries p d start = Some es"
    and "length es \<le> length (addresses (fs_vfs s)) + 2"
  shows "\<exists>all s'. fs_partition s' = fs_partition s \<and> sorted_wrt name_less (map fst all) \<and>
    (\<forall>offset n. fs_getDentries this offset n s =
       (if offset \<le> length all then Some (take (offset + n) (drop offset all), s') else None)) \<and>
    (\<forall>k. case listed k (drop 2 es) of
           None \<Rightarrow> map_of all k = None \<and> getDentry this k (fs_vfs s') = Some 0
         | Some e \<Rightarrow> \<exists>a. map_of all k = Some a \<and> getDentry this k (fs_vfs s') = Some a \<and>
             a \<in> set (addresses (fs_vfs s)) \<and> fs_class s' a = class_of dk e \<and> fs_size s' a = size_of e)"
proof -
  obtain s' where s': "list_directory this dk start s = Some s'" "deref this (fs_vfs s') \<noteq> None"
    "fs_partition s' = fs_partition s"
    and k: "\<forall>k. case listed k (drop 2 es) of
           None \<Rightarrow> getDentry this k (fs_vfs s') = Some 0
         | Some e \<Rightarrow> \<exists>a. getDentry this k (fs_vfs s') = Some a \<and> a \<in> set (addresses (fs_vfs s)) \<and>
             fs_class s' a = class_of dk e \<and> fs_size s' a = size_of e"
    using list_directory_spec [OF assms(2-)] by blast
  obtain t' where t': "deref this (fs_vfs s') = Some t'" using s'(2) by blast
  let ?all = "dentries t'"
  have o: "in_order ?all" using list_directory_in_order [OF s'(1)] t' by (simp add: listing_in_order_def)
  have get: "getDentry this k (fs_vfs s') = Some (case map_of ?all k of None \<Rightarrow> 0 | Some a \<Rightarrow> a)" for k
    using t' by (simp add: getDentry_def dentry_find_map)
  have nz: "map_of ?all k \<noteq> Some 0" for k using o by (force simp: in_order_def dest: map_of_SomeD)
  have z: "0 \<notin> set (addresses (fs_vfs s))" using assms(4) by (simp add: fresh_for_def)
  have "case listed k (drop 2 es) of
           None \<Rightarrow> map_of ?all k = None \<and> getDentry this k (fs_vfs s') = Some 0
         | Some e \<Rightarrow> \<exists>a. map_of ?all k = Some a \<and> getDentry this k (fs_vfs s') = Some a \<and>
             a \<in> set (addresses (fs_vfs s)) \<and> fs_class s' a = class_of dk e \<and> fs_size s' a = size_of e" for k
    using k [rule_format, of k] nz [of k] z
    by (cases "listed k (drop 2 es)"; cases "map_of ?all k") (auto simp: get)
  moreover have "fs_getDentries this offset n s =
       (if offset \<le> length ?all then Some (take (offset + n) (drop offset ?all), s') else None)" for offset n
    using assms(1) s'(1) t' by (simp add: fs_getDentries_def getDentries_def)
  moreover have "sorted_wrt name_less (map fst ?all)" using o by (simp add: in_order_def)
  ultimately show ?thesis using s'(3) by (intro exI [of _ ?all] exI [of _ s']) simp
qed

text \<open>The root directory of the example volume, listed before: \<open>E\<close> is at \<open>0x2000\<close>.\<close>

definition ex_inode :: "inode_type \<Rightarrow> (bytes \<times> u32) list \<Rightarrow> inode" where
  "ex_inode t ds = \<lparr>inodeNumber = 1, mode = 0x100, itype = t, userId = 0, groupId = 0, superBlock = 0, dentries = ds\<rparr>"

definition ex_files :: "unit fsys" where
  "ex_files =
     \<lparr>fs_vfs = \<lparr>inodes = [0x1000 \<mapsto> ex_inode Directory [([0x45], 0x2000)], 0x2000 \<mapsto> ex_inode Directory []],
        inode_counter = 3, superblocks = Map.empty, rootNode = 0x1000, deviceInode = 0, binaryInode = 0,
        addresses = [0x3000, 0x4000, 0x5000], freed = []\<rparr>,
      fs_class = (\<lambda>_. InodeBase)(0x1000 := FAT32Directory 1 2, 0x2000 := FAT32Directory 1 6), fs_size = (\<lambda>_. 0),
      fs_partition = [1 \<mapsto> (ex_part, ex_disk)], fs_devices = ()\<rparr>"

lemma ex_files_ready:
  "fs_class ex_files 0x1000 = FAT32Directory 1 2" "deref 0x1000 (fs_vfs ex_files) = Some (ex_inode Directory [([0x45], 0x2000)])"
  "0x1000 \<notin> snd ` set (dentries (ex_inode Directory [([0x45], 0x2000)]))" "fresh_for 0x1000 ex_files"
  "fs_partition ex_files 1 = Some (ex_part, ex_disk)" "addresses (fs_vfs ex_files) = [0x3000, 0x4000, 0x5000]"
  by (simp_all add: ex_files_def ex_inode_def deref_def fresh_for_def)

lemma ex_root_listing: "getDirectoryEntries ex_part ex_disk 2 = Some [ex_A, ex_D, ex_E]"
  using getDirectoryEntries_list [OF ex_part_ok ex_disk_ok ex_dir_ok(1)] by (simp add: ex_dir_list ex_root_fields)

lemma ex_listed: "listed (e_longName ex_A) [ex_E] = None" "listed (e_longName ex_E) [ex_E] = Some ex_E"
  "class_of dk ex_E = FAT32Directory dk 6"
  using ex_entries by (simp_all add: listed_def has_inode_def class_of_def isDirectory_def)

theorem listing_matches_disk_witness:
  "\<exists>a s'. fs_getDentries 0x1000 0 100 ex_files = Some ([(e_longName ex_E, a)], s') \<and>
    getDentry 0x1000 (e_longName ex_A) (fs_vfs s') = Some 0 \<and> a \<noteq> 0x2000 \<and> fs_class s' a = FAT32Directory 1 6"
proof -
  have l: "length [ex_A, ex_D, ex_E] \<le> length (addresses (fs_vfs ex_files)) + 2" by (simp add: ex_files_ready)
  obtain all s' where o: "sorted_wrt name_less (map fst all)"
    and r: "\<forall>offset n. fs_getDentries 0x1000 offset n ex_files =
       (if offset \<le> length all then Some (take (offset + n) (drop offset all), s') else None)"
    and k: "\<forall>k. case listed k (drop 2 [ex_A, ex_D, ex_E]) of
           None \<Rightarrow> map_of all k = None \<and> getDentry 0x1000 k (fs_vfs s') = Some 0
         | Some e \<Rightarrow> \<exists>a. map_of all k = Some a \<and> getDentry 0x1000 k (fs_vfs s') = Some a \<and>
             a \<in> set (addresses (fs_vfs ex_files)) \<and> fs_class s' a = class_of 1 e \<and> fs_size s' a = size_of e"
    using listing_matches_disk [OF ex_files_ready(1-5) ex_root_listing l] by blast
  obtain a where a: "map_of all (e_longName ex_E) = Some a" "a \<in> set (addresses (fs_vfs ex_files))"
    "fs_class s' a = class_of 1 ex_E"
    using k [rule_format, of "e_longName ex_E"] by (auto simp: ex_listed)
  have "fst ` set all \<subseteq> {e_longName ex_E}"
  proof (clarsimp, rule ccontr)
    fix n b assume "(n, b) \<in> set all" and "n \<noteq> e_longName ex_E"
    then have "listed n [ex_E] = None" by (simp add: listed_def)
    then show False using k [rule_format, of n] \<open>(n, b) \<in> set all\<close> by (auto simp: map_of_eq_None_iff image_iff)
  qed
  moreover have "all \<noteq> []" using a(1) by auto
  ultimately obtain b rest where all: "all = (e_longName ex_E, b) # rest" and sub: "fst ` set rest \<subseteq> {e_longName ex_E}"
    by (cases all) auto
  then have "\<forall>x \<in> fst ` set rest. name_less (e_longName ex_E) x" using o by simp
  then have "rest = []" using sub by (cases rest) auto
  then have "all = [(e_longName ex_E, a)]" using all a(1) by simp
  moreover have "getDentry 0x1000 (e_longName ex_A) (fs_vfs s') = Some 0"
    using k [rule_format, of "e_longName ex_A"] by (simp add: ex_listed)
  ultimately show ?thesis using r a(2,3) by (auto simp: ex_files_ready ex_listed)
qed

text \<open>Listing a directory of a FAT32 partition frees the inodes of the listing before it, whether or
  not a descriptor still refers to them: the inode an open file was opened with is then no inode any
  more, although its address still reads as the file.\<close>

lemma listing_frees_open_inodes:
  assumes "fs_class s this = FAT32Directory dk start" and "deref this (fs_vfs s) = Some t"
    and "this \<notin> snd ` set (dentries t)" and "fresh_for this s"
    and "fs_partition s dk = Some (p, d)" and "getDirectoryEntries p d start = Some es"
    and "length es \<le> length (addresses (fs_vfs s)) + 2"
    and "q \<in> snd ` set (dentries t)" and "q \<notin> set (addresses (fs_vfs s))"
  shows "\<exists>ds s'. fs_getDentries this 0 n s = Some (ds, s') \<and> deref q (fs_vfs s') = None \<and> fs_class s' q = fs_class s q"
proof -
  obtain s' where s': "list_directory this dk start s = Some s'" "deref this (fs_vfs s') \<noteq> None"
    "deref q (fs_vfs s') = None" "fs_class s' q = fs_class s q"
    using list_directory_spec [OF assms(2-7)] assms(8,9) by blast
  moreover obtain ds where "getDentries this 0 n (fs_vfs s') = Some ds"
    using s'(2) by (auto simp: getDentries_def)
  ultimately have "fs_getDentries this 0 n s = Some (ds, s')"
    using assms(1) by (simp add: fs_getDentries_def)
  then show ?thesis using s'(3,4) by blast
qed

lemma listing_frees_open_inodes_witness:
  "\<exists>ds s'. fs_getDentries 0x1000 0 100 ex_files = Some (ds, s') \<and> deref 0x2000 (fs_vfs s') = None"
proof -
  have l: "length [ex_A, ex_D, ex_E] \<le> length (addresses (fs_vfs ex_files)) + 2" by (simp add: ex_files_ready)
  have q: "0x2000 \<in> snd ` set (dentries (ex_inode Directory [([0x45], 0x2000)]))" "0x2000 \<notin> set (addresses (fs_vfs ex_files))"
    by (simp_all add: ex_inode_def ex_files_ready)
  show ?thesis using listing_frees_open_inodes [OF ex_files_ready(1-5) ex_root_listing l q] by blast
qed

end
