(* ===== verification/Call_State.thy ===== *)
theory Call_State
  imports Scheduler Fat_Inodes Net
begin

text \<open>
  What a system call works on (\<open>core/tasks/SystemCalls.cpp\<close>): the saved registers of the caller, the
  processes and their memory, the inodes and the network. A handler maps this state to the next one.
  The entry of an interrupt switches to the directory of the kernel. A pointer of the caller is checked
  against the directory of the caller, but followed through the one of the kernel, and a fault there is
  \<open>None\<close>. The pages of the kernel itself are mapped there and in the directory of every process, so a
  pointer into them passes the check: \<open>kn_own\<close> holds the physical bytes where the kernel keeps its own
  objects, which the state has as records and not as bytes, and a call that reads or overwrites one of
  these through a pointer leaves what is modelled (\<open>None\<close> as well). The tree of inodes is the one of the processes: \<open>on_files\<close> lends it to the operations of \<open>Fat_Inodes\<close>.
\<close>

section \<open>State\<close>

record 'x kernel =
  kn_regs :: cpu_regs
  kn_tasks :: tasks
  kn_files :: "'x fsys"
  kn_net :: dns
  kn_heap :: "u32 list"
  kn_power :: bool
  kn_own :: "u32 set"

text \<open>
  The surroundings of a call: the fuel of the page allocator and of polling, how many rounds a waiting
  call is followed, what the other processes do while it yields, and the address of a file buffer.
\<close>

record 'x surroundings =
  en_pages :: nat
  en_poll :: nat
  en_rounds :: nat
  en_others :: "'x kernel \<Rightarrow> 'x kernel option"
  en_file :: u32

definition answer :: "u32 \<Rightarrow> 'x kernel \<Rightarrow> 'x kernel" where
  "answer v s = s\<lparr>kn_regs := (kn_regs s)\<lparr>r_eax := v\<rparr>\<rparr>"

definition caller :: "'x kernel \<Rightarrow> process option" where
  "caller s = getCurrentProcess (kn_tasks s)"

definition with_caller :: "(process \<Rightarrow> process) \<Rightarrow> 'x kernel \<Rightarrow> 'x kernel option" where
  "with_caller f s = do { t \<leftarrow> update_current f (kn_tasks s); Some (s\<lparr>kn_tasks := t\<rparr>) }"

text \<open>A method of the process that allocates works on it and on the rest of the kernel.\<close>

definition on_caller :: "(process \<times> tasks \<Rightarrow> ('r \<times> process \<times> tasks) option) \<Rightarrow> 'x kernel \<Rightarrow> ('r \<times> 'x kernel) option" where
  "on_caller f s =
     do { p \<leftarrow> caller s;
          (r, p, t) \<leftarrow> f (p, kn_tasks s);
          Some (r, s\<lparr>kn_tasks := put_process (unat (currentIndex t)) p t\<rparr>) }"

definition on_windows :: "(wm \<Rightarrow> ('r \<times> wm) option) \<Rightarrow> 'x kernel \<Rightarrow> ('r \<times> 'x kernel) option" where
  "on_windows f s =
     do { (r, w) \<leftarrow> f (k_wm (kn_tasks s)); Some (r, s\<lparr>kn_tasks := (kn_tasks s)\<lparr>k_wm := w\<rparr>\<rparr>) }"

definition files :: "'x kernel \<Rightarrow> 'x fsys" where
  "files s = (kn_files s)\<lparr>fs_vfs := k_vfs (kn_tasks s)\<rparr>"

definition on_files :: "('x fsys \<Rightarrow> ('r \<times> 'x fsys) option) \<Rightarrow> 'x kernel \<Rightarrow> ('r \<times> 'x kernel) option" where
  "on_files f s =
     do { (r, g) \<leftarrow> f (files s); Some (r, s\<lparr>kn_files := g, kn_tasks := (kn_tasks s)\<lparr>k_vfs := fs_vfs g\<rparr>\<rparr>) }"

definition on_net :: "(dns \<Rightarrow> ('r \<times> dns) option) \<Rightarrow> 'x kernel \<Rightarrow> ('r \<times> 'x kernel) option" where
  "on_net f s = do { (r, n) \<leftarrow> f (kn_net s); Some (r, s\<lparr>kn_net := n\<rparr>) }"

text \<open>What the heap answers for the next object: its address, or 0.\<close>

definition heap_answer :: "'x kernel \<Rightarrow> u32 \<times> 'x kernel" where
  "heap_answer s = (case kn_heap s of [] \<Rightarrow> (0, s) | a # as \<Rightarrow> (a, s\<lparr>kn_heap := as\<rparr>))"

section \<open>Pointers of the caller\<close>

definition isValidAddress_call :: "u32 \<Rightarrow> 'x kernel \<Rightarrow> (bool \<times> 'x kernel) option" where
  "isValidAddress_call addr s =
     do { p \<leftarrow> caller s;
          d \<leftarrow> dirs (k_paging (kn_tasks s)) (pr_dir p);
          valid \<leftarrow> isAddressValid d addr (k_paging (kn_tasks s));
          if valid then Some (True, s) else do { s \<leftarrow> with_caller (terminate (- 14)) s; Some (False, s) } }"

text \<open>The guard most handlers start with; \<open>error\<close>: the answer on a bad address, if there is one.\<close>

definition guarded :: "u32 option \<Rightarrow> u32 \<Rightarrow> ('x kernel \<Rightarrow> 'x kernel option) \<Rightarrow> 'x kernel \<Rightarrow> 'x kernel option" where
  "guarded error addr body s =
     do { (valid, s) \<leftarrow> isValidAddress_call addr s;
          if valid then body s else Some (case error of None \<Rightarrow> s | Some e \<Rightarrow> answer e s) }"

text \<open>A pointer that may be null is only checked when it is not.\<close>

definition guarded_opt :: "u32 \<Rightarrow> u32 \<Rightarrow> ('x kernel \<Rightarrow> 'x kernel option) \<Rightarrow> 'x kernel \<Rightarrow> 'x kernel option" where
  "guarded_opt error addr body s = (if addr = 0 then body s else guarded (Some error) addr body s)"

definition physical :: "u32 \<Rightarrow> 'x kernel \<Rightarrow> u32 option" where
  "physical a s =
     do { p \<leftarrow> caller s;
          d \<leftarrow> dirs (k_paging (kn_tasks s)) (pr_dir p);
          getPhysicalAddress d a (k_paging (kn_tasks s)) }"

definition user_address :: "u32 \<Rightarrow> 'x kernel \<Rightarrow> u32 option" where
  "user_address a s =
     do { d \<leftarrow> dirs (k_paging (kn_tasks s)) (k_dir (kn_tasks s));
          pa \<leftarrow> getPhysicalAddress d a (k_paging (kn_tasks s));
          if pa = 0 then None else Some pa }"

definition user_byte :: "u32 \<Rightarrow> 'x kernel \<Rightarrow> byte option" where
  "user_byte a s =
     do { pa \<leftarrow> user_address a s; if pa \<in> kn_own s then None else Some (k_mem (kn_tasks s) pa) }"

definition user_load :: "u32 \<Rightarrow> nat \<Rightarrow> 'x kernel \<Rightarrow> bytes option" where
  "user_load a n s = those (map (\<lambda>i. user_byte (a + of_nat i) s) [0..<n])"

definition user_u32 :: "u32 \<Rightarrow> 'x kernel \<Rightarrow> u32 option" where
  "user_u32 a s = do { bs \<leftarrow> user_load a 4 s; get_uint32_t bs 0 }"

definition user_u64 :: "u32 \<Rightarrow> 'x kernel \<Rightarrow> u64 option" where
  "user_u64 a s = do { lo \<leftarrow> user_u32 a s; hi \<leftarrow> user_u32 (a + 4) s; Some (push_bit 32 (ucast hi) OR ucast lo) }"

definition user_put :: "u32 \<Rightarrow> byte \<Rightarrow> 'x kernel \<Rightarrow> 'x kernel option" where
  "user_put a b s =
     do { pa \<leftarrow> user_address a s;
          if pa \<in> kn_own s then None
          else Some (s\<lparr>kn_tasks := (kn_tasks s)\<lparr>k_mem := (k_mem (kn_tasks s))(pa := b)\<rparr>\<rparr>) }"

fun user_store :: "u32 \<Rightarrow> bytes \<Rightarrow> 'x kernel \<Rightarrow> 'x kernel option" where
  "user_store a [] s = Some s"
| "user_store a (b # bs) s = do { s \<leftarrow> user_put a b s; user_store (a + 1) bs s }"

definition bytes64 :: "u64 \<Rightarrow> bytes" where
  "bytes64 v = bytes32 (ucast v) @ bytes32 (ucast (drop_bit 32 v))"

text \<open>A text ends at its zero byte, an array of pointers at its null pointer.\<close>

partial_function (option) user_string :: "u32 \<Rightarrow> 'x kernel \<Rightarrow> bytes option" where
  "user_string a s =
     do { c \<leftarrow> user_byte a s;
          if c = 0 then Some [] else do { cs \<leftarrow> user_string (a + 1) s; Some (c # cs) } }"

partial_function (option) user_pointers :: "u32 \<Rightarrow> 'x kernel \<Rightarrow> u32 list option" where
  "user_pointers a s =
     do { w \<leftarrow> user_u32 a s;
          if w = 0 then Some [] else do { ws \<leftarrow> user_pointers (a + 4) s; Some (w # ws) } }"

definition user_strings :: "u32 \<Rightarrow> 'x kernel \<Rightarrow> bytes list option" where
  "user_strings a s = do { ps \<leftarrow> user_pointers a s; those (map (\<lambda>q. user_string q s) ps) }"

text \<open>Memory as the caller itself reads and writes it, through its own directory.\<close>

definition caller_byte :: "u32 \<Rightarrow> 'x kernel \<Rightarrow> byte option" where
  "caller_byte a s = do { pa \<leftarrow> physical a s; if pa = 0 then None else Some (k_mem (kn_tasks s) pa) }"

definition caller_load :: "u32 \<Rightarrow> nat \<Rightarrow> 'x kernel \<Rightarrow> bytes option" where
  "caller_load a n s = those (map (\<lambda>i. caller_byte (a + of_nat i) s) [0..<n])"

fun caller_store :: "u32 \<Rightarrow> bytes \<Rightarrow> 'x kernel \<Rightarrow> 'x kernel option" where
  "caller_store a [] s = Some s"
| "caller_store a (b # bs) s =
     do { pa \<leftarrow> physical a s;
          if pa = 0 then None
          else caller_store (a + 1) bs (s\<lparr>kn_tasks := (kn_tasks s)\<lparr>k_mem := (k_mem (kn_tasks s))(pa := b)\<rparr>\<rparr>) }"

section \<open>Descriptors of the caller\<close>

definition descriptor_at :: "u32 \<Rightarrow> 'x kernel \<Rightarrow> descriptor option option" where
  "descriptor_at fd s = do { p \<leftarrow> caller s; Some (dt_get fd (pr_fds p)) }"

text \<open>A descriptor that could not be created takes a number all the same, with nothing behind it.\<close>

definition add_descriptor :: "descriptor option \<Rightarrow> 'x kernel \<Rightarrow> (u32 \<times> 'x kernel) option" where
  "add_descriptor d s =
     do { p \<leftarrow> caller s;
          let (fd, t) = (case d of Some d \<Rightarrow> dt_allocate d (pr_fds p)
                         | None \<Rightarrow> (nextFd (pr_fds p), (pr_fds p)\<lparr>nextFd := nextFd (pr_fds p) + 1\<rparr>)) in do {
            s \<leftarrow> with_caller (\<lambda>p. p\<lparr>pr_fds := t\<rparr>) s; Some (fd, s) } }"

definition put_file :: "u32 \<Rightarrow> file_descriptor \<Rightarrow> 'x kernel \<Rightarrow> 'x kernel option" where
  "put_file fd f = with_caller (\<lambda>p. p\<lparr>pr_fds := dt_put fd (FileDescriptor f) (pr_fds p)\<rparr>)"

text \<open>The inode of an open file has to be there still.\<close>

definition with_file ::
    "u32 \<Rightarrow> u32 \<Rightarrow> u32 \<Rightarrow> (file_descriptor \<Rightarrow> 'x kernel \<Rightarrow> 'x kernel option) \<Rightarrow> 'x kernel \<Rightarrow> 'x kernel option" where
  "with_file fd missing wrong_kind body s =
     do { d \<leftarrow> descriptor_at fd s;
          case d of
            None \<Rightarrow> Some (answer missing s)
          | Some (SocketDescriptor _) \<Rightarrow> Some (answer wrong_kind s)
          | Some (FileDescriptor f) \<Rightarrow> body f s }"

definition inode_of :: "file_descriptor \<Rightarrow> 'x kernel \<Rightarrow> inode option" where
  "inode_of f s = deref (fd_inode f) (k_vfs (kn_tasks s))"

definition with_socket ::
    "u32 \<Rightarrow> (socket_descriptor \<Rightarrow> 'x kernel \<Rightarrow> 'x kernel option) \<Rightarrow> 'x kernel \<Rightarrow> 'x kernel option" where
  "with_socket fd body s =
     do { d \<leftarrow> descriptor_at fd s;
          case d of Some (SocketDescriptor sd) \<Rightarrow> body sd s | _ \<Rightarrow> Some (answer (- 9) s) }"

end
