(* ===== verification/System_Calls.thy ===== *)
theory System_Calls
  imports Call_State
begin

text \<open>
  The handlers of the system calls (\<open>core/tasks/SystemCalls.cpp\<close>): processes and their memory, time,
  files, directories, windows and sockets, and the dispatch of the interrupt. A handler reads its
  arguments from the saved registers and answers in \<open>eax\<close>. A call that lets interrupts in while it
  works on the disk runs as one step; one that waits gives the others a turn each round.
\<close>

section \<open>Processes\<close>

type_synonym 'x handler = "'x kernel \<Rightarrow> 'x kernel option"

definition handleExit :: "'x handler" where
  "handleExit s = with_caller (terminate (r_ebx (kn_regs s))) s"

definition handleGetPid :: "'x handler" where
  "handleGetPid s = do { p \<leftarrow> caller s; Some (answer (pr_pid p) s) }"

definition handleYield :: "'x handler" where
  "handleYield s = with_caller (\<lambda>p. p\<lparr>pr_age := 0\<rparr>) (answer 0 s)"

definition handleMmap :: "nat \<Rightarrow> 'x handler" where
  "handleMmap k s =
     do { (a, s) \<leftarrow> on_caller (proc_allocatePages k (drop_bit 12 (r_ecx (kn_regs s)) + 1)) s;
          Some (answer (if a \<noteq> 0 then a else - 1) s) }"

definition set_brk :: "u32 \<Rightarrow> process \<Rightarrow> process" where
  "set_brk b p = p\<lparr>pr_current_brk := b\<rparr>"

definition brk_pages :: "u32 \<Rightarrow> u32 \<Rightarrow> u32" where
  "brk_pages requested highest = (requested - highest + 4096 - 1) div 4096"

definition handleBrk :: "nat \<Rightarrow> 'x handler" where
  "handleBrk k s =
     (let requested = r_ebx (kn_regs s) in
      do { p \<leftarrow> caller s;
           if requested = 0 then Some (answer (pr_current_brk p) s)
           else if pr_initial_brk p \<le> requested \<and> requested \<le> pr_max_brk p then
             with_caller (set_brk requested) (answer requested s)
           else if pr_max_brk p < requested then
             let additional_pages = brk_pages requested (pr_max_brk p) in do {
               (a, s) \<leftarrow> on_caller (allocatePagesAt k (pr_max_brk p) additional_pages) s;
               if a \<noteq> 0 then
                 with_caller (\<lambda>p. set_brk requested (p\<lparr>pr_max_brk := pr_max_brk p + additional_pages * 4096\<rparr>))
                   (answer requested s)
               else Some (answer (- 1) s) }
           else Some (answer (- 1) s) })"

definition handleArchPrctl :: "'x handler" where
  "handleArchPrctl s =
     (let code = r_ebx (kn_regs s); addr = r_ecx (kn_regs s) in
      if code = 0x1002 then with_caller (\<lambda>p. p\<lparr>pr_regs := (pr_regs p)\<lparr>r_fs := addr\<rparr>\<rparr>) (answer 0 s)
      else if code = 0x1003 then do { p \<leftarrow> caller s; Some (answer (r_fs (pr_regs p)) s) }
      else if code = 0x1001 then with_caller (\<lambda>p. p\<lparr>pr_regs := (pr_regs p)\<lparr>r_gs := addr\<rparr>\<rparr>) (answer 0 s)
      else if code = 0x1004 then do { p \<leftarrow> caller s; Some (answer (r_gs (pr_regs p)) s) }
      else Some (answer (- 22) s))"

definition handleGetUID :: "'x handler" where "handleGetUID s = Some (answer 1000 s)"
definition handleGetGID :: "'x handler" where "handleGetGID s = Some (answer 1000 s)"
definition handleGetEUID :: "'x handler" where "handleGetEUID s = Some (answer 1000 s)"
definition handleGetEGID :: "'x handler" where "handleGetEGID s = Some (answer 1000 s)"
definition handleSetThreadArea :: "'x handler" where "handleSetThreadArea s = Some (answer 0 s)"

text \<open>
  When power management is there, rebooting and shutting down do not come back; otherwise they fail,
  which the handler does not look at.
\<close>

definition power_action :: "'x handler" where
  "power_action s = (if kn_power s then None else Some (answer 0 s))"

definition handleReboot :: "'x handler" where
  "handleReboot s =
     (let magic = r_ebx (kn_regs s); magic2 = r_ecx (kn_regs s); cmd = r_edx (kn_regs s) in
      if magic \<noteq> 0xfee1dead then Some (answer (- 22) s)
      else if magic2 \<notin> {0x07011995, 0x05121996, 0x16041998, 0x20112000} then Some (answer (- 22) s)
      else if cmd = 0x01234567 \<or> cmd = 0x4321FEDC \<or> cmd = 0xCDEF0123 \<or> cmd = 0xA1B2C3D4 then power_action s
      else if cmd = 0x89ABCDEF \<or> cmd = 0 then Some (answer 0 s)
      else Some (answer (- 22) s))"

text \<open>A new program: a builtin one, or a file read whole into memory.\<close>

definition load_arguments :: "u32 list \<Rightarrow> u32 \<Rightarrow> 'x kernel \<Rightarrow> (bytes list \<times> bytes list option) option" where
  "load_arguments argv envp s =
     do { args \<leftarrow> those (map (\<lambda>q. user_string q s) argv);
          env \<leftarrow> (if envp = 0 then Some None else map_option Some (user_strings envp s));
          Some (args, env) }"

definition start_program :: "'x surroundings \<Rightarrow> u32 \<Rightarrow> u32 list \<Rightarrow> u32 \<Rightarrow> 'x kernel \<Rightarrow> ((u32 + nat option) \<times> 'x kernel) option" where
  "start_program en inode argv envp s =
     (case fs_class (kn_files s) inode of
        BuiltinExecutableInode entry \<Rightarrow> do {
          (args, env) \<leftarrow> load_arguments argv envp s;
          (r, t) \<leftarrow> execv_builtin (en_pages en) entry User Low args env (kn_tasks s);
          Some (Inr r, s\<lparr>kn_tasks := t\<rparr>) }
      | _ \<Rightarrow> do {
          i \<leftarrow> deref inode (k_vfs (kn_tasks s));
          if itype i \<noteq> File then Some (Inl (- 13), s)
          else let fileSize = inode_getSize inode (files s) in do {
            ((n, content), s) \<leftarrow> on_files (inode_read inode fileSize 0) s;
            if n \<noteq> fileSize then Some (Inl (- 5), s)
            else do {
              (args, env) \<leftarrow> load_arguments argv envp s;
              (r, t) \<leftarrow> execv_elf (en_pages en) (en_file en) content User Low args env (kn_tasks s);
              Some (Inr r, s\<lparr>kn_tasks := t\<rparr>) } } })"

definition handleSpawn :: "'x surroundings \<Rightarrow> 'x handler" where
  "handleSpawn en s =
     (let pid = r_ebx (kn_regs s); path = r_ecx (kn_regs s) in
      guarded (Some (- 14)) path (\<lambda>s. do {
        argv \<leftarrow> user_pointers (r_edx (kn_regs s)) s;
        name \<leftarrow> user_string path s;
        (inode, s) \<leftarrow> on_files (fs_getInodeByPath name) s;
        if inode = 0 then Some (answer (- 2) s)
        else do {
          (r, s) \<leftarrow> start_program en inode argv (r_esi (kn_regs s)) s;
          case r of
            Inl e \<Rightarrow> Some (answer e s)
          | Inr None \<Rightarrow> Some (answer (- 12) s)
          | Inr (Some i) \<Rightarrow> do {
              p \<leftarrow> rd_at (processes (kn_tasks s)) i;
              (valid, s) \<leftarrow> isValidAddress_call pid s;
              s \<leftarrow> (if valid then user_store pid (bytes32 (pr_pid p)) s else Some s);
              Some (answer 0 s) } } }) s)"

section \<open>Time and waiting\<close>

definition handleGetTime :: "'x handler" where
  "handleGetTime s =
     (let timeSpec = r_esi (kn_regs s) in
      guarded None timeSpec (\<lambda>s.
        let nsec = k_ticks (kn_tasks s) * 1000000 div 250; sec = nsec div 1000000 in
          map_option (answer 0) (user_store timeSpec (bytes64 sec @ bytes64 nsec) s)) s)"

text \<open>\<open>None\<close>: the condition did not come true in the rounds followed.\<close>

fun wait_for :: "nat \<Rightarrow> ('x kernel \<Rightarrow> bool) \<Rightarrow> 'x handler \<Rightarrow> 'x handler" where
  "wait_for 0 ready_now others s = (if ready_now s then Some s else None)"
| "wait_for (Suc n) ready_now others s =
     (if ready_now s then Some s else do { s \<leftarrow> others s; wait_for n ready_now others s })"

definition target_ticks :: "u64 \<Rightarrow> u64 \<Rightarrow> u64 \<Rightarrow> u64" where
  "target_ticks ticks sec nsec = ticks + sec * 250 + nsec * 250 div 1000000000"

definition handleClockNanoSleep64 :: "'x surroundings \<Rightarrow> 'x handler" where
  "handleClockNanoSleep64 en s =
     (let req = r_edx (kn_regs s); rem' = r_esi (kn_regs s) in
      guarded (Some (- 14)) req (guarded_opt (- 14) rem' (\<lambda>s. do {
        sec \<leftarrow> user_u64 req s;
        nsec \<leftarrow> user_u64 (req + 8) s;
        let target = target_ticks (k_ticks (kn_tasks s)) sec nsec in do {
          s \<leftarrow> wait_for (en_rounds en) (\<lambda>s. target \<le> k_ticks (kn_tasks s)) (en_others en) s;
          Some (answer 0 s) } })) s)"

definition killed :: "u32 \<Rightarrow> 'x kernel \<Rightarrow> bool" where
  "killed pid s = (case getProcess pid (kn_tasks s) of Some p \<Rightarrow> pr_state p = Killed | None \<Rightarrow> False)"

definition handleWaitPID :: "'x surroundings \<Rightarrow> 'x handler" where
  "handleWaitPID en s =
     (let pid = r_ebx (kn_regs s); status' = r_ecx (kn_regs s) in
      guarded_opt (- 14) status' (\<lambda>s.
        if getProcess pid (kn_tasks s) = None then Some (answer (- 10) s)
        else do {
          s \<leftarrow> wait_for (en_rounds en) (killed pid) (en_others en) s;
          child \<leftarrow> getProcess pid (kn_tasks s);
          s \<leftarrow> (if status' = 0 then Some s else user_store status' (bytes32 (pr_exitCode child)) s);
          Some (answer pid s) }) s)"

section \<open>Files\<close>

text \<open>Opening: an error number, or the inode.\<close>

definition open_existing :: "u32 \<Rightarrow> u32 \<Rightarrow> 'x fsys \<Rightarrow> ((u32 + u32) \<times> 'x fsys) option" where
  "open_existing flags inode s =
     (if flags AND 0x40 \<noteq> 0 \<and> flags AND 0x80 \<noteq> 0 then Some (Inl (- 17), s)
      else if flags AND 0x200 \<noteq> 0 then do {
        t \<leftarrow> getType_of inode s;
        if t \<noteq> File then Some (Inl (- 21), s)
        else if flags AND 1 = 0 \<and> flags AND 2 = 0 then Some (Inl (- 22), s)
        else do { (r, s) \<leftarrow> inode_truncate inode 0 s; Some (if r \<noteq> 0 then Inl (- 1) else Inr inode, s) } }
      else Some (Inr inode, s))"

text \<open>The directory a path ends in, when it is one.\<close>

definition parent_directory :: "bytes list \<Rightarrow> 'x fsys \<Rightarrow> (u32 option \<times> 'x fsys) option" where
  "parent_directory components s =
     do { (parent, s) \<leftarrow> fs_getParentDirectory components s;
          if parent = 0 then Some (None, s)
          else do { t \<leftarrow> getType_of parent s; Some (if t = Directory then Some parent else None, s) } }"

definition open_missing :: "u32 \<Rightarrow> bytes list \<Rightarrow> 'x fsys \<Rightarrow> ((u32 + u32) \<times> 'x fsys) option" where
  "open_missing flags components s =
     (if flags AND 0x40 = 0 then Some (Inl (- 2), s)
      else if components = [] then Some (Inl (- 2), s)
      else do {
        (parent, s) \<leftarrow> parent_directory components s;
        case parent of None \<Rightarrow> Some (Inl (- 2), s)
        | Some d \<Rightarrow> do {
            (inode, s) \<leftarrow> fs_createFile d (last components) 0x180 0 0 s;
            Some (if inode = 0 then Inl (- 1) else Inr inode, s) } })"

definition open_path :: "bytes \<Rightarrow> u32 \<Rightarrow> 'x fsys \<Rightarrow> ((u32 + u32) \<times> 'x fsys) option" where
  "open_path path flags s =
     do { (inode, s) \<leftarrow> fs_getInodeByPath path s;
          if inode \<noteq> 0 then open_existing flags inode s else open_missing flags (components_of path) s }"

definition handleOpen :: "'x handler" where
  "handleOpen s =
     (let pathname = r_ebx (kn_regs s); flags = r_ecx (kn_regs s) in
      guarded (Some (- 14)) pathname (\<lambda>s. do {
        path \<leftarrow> user_string pathname s;
        (r, s) \<leftarrow> on_files (open_path path flags) s;
        case r of Inl e \<Rightarrow> Some (answer e s)
        | Inr inode \<Rightarrow>
            let (a, s) = heap_answer s in do {
              (fd, s) \<leftarrow> add_descriptor (if a = 0 then None else Some (FileDescriptor (newFileDescriptor inode flags))) s;
              Some (answer fd s) } }) s)"

definition handleMkdir :: "'x handler" where
  "handleMkdir s =
     (let pathname = r_ebx (kn_regs s) in
      guarded (Some (- 14)) pathname (\<lambda>s. do {
        path \<leftarrow> user_string pathname s;
        let components = components_of path in
        if components = [] then Some (answer (- 2) s)
        else do {
          (parent, s) \<leftarrow> on_files (parent_directory components) s;
          case parent of None \<Rightarrow> Some (answer (- 2) s)
          | Some d \<Rightarrow> do {
              (newDir, s) \<leftarrow> on_files (fs_createDirectory d (last components) 0x1C0 0 0) s;
              Some (answer (if newDir = 0 then - 17 else 0) s) } } }) s)"

text \<open>\<open>rmdir\<close> and \<open>unlink\<close>: the target has to be there and of the right kind.\<close>

definition remove_call ::
    "(inode_type \<Rightarrow> u32 option) \<Rightarrow> (u32 \<Rightarrow> bytes \<Rightarrow> 'x fsys \<Rightarrow> (bool \<times> 'x fsys) option) \<Rightarrow> u32 \<Rightarrow> 'x handler" where
  "remove_call reject remove failed s =
     (let pathname = r_ebx (kn_regs s) in
      guarded (Some (- 14)) pathname (\<lambda>s. do {
        path \<leftarrow> user_string pathname s;
        (target, s) \<leftarrow> on_files (fs_getInodeByPath path) s;
        if target = 0 then Some (answer (- 2) s)
        else do {
          t \<leftarrow> getType_of target (files s);
          case reject t of Some e \<Rightarrow> Some (answer e s)
          | None \<Rightarrow>
              let components = components_of path in
              if components = [] then Some (answer (- 2) s)
              else do {
                (parent, s) \<leftarrow> on_files (parent_directory components) s;
                case parent of None \<Rightarrow> Some (answer (- 2) s)
                | Some d \<Rightarrow> do {
                    (success, s) \<leftarrow> on_files (remove d (last components)) s;
                    Some (answer (if success then 0 else failed) s) } } } }) s)"

definition handleRmdir :: "'x handler" where
  "handleRmdir = remove_call (\<lambda>t. if t \<noteq> Directory then Some (- 20) else None) fs_deleteDirectory (- 39)"

definition handleUnlink :: "'x handler" where
  "handleUnlink = remove_call (\<lambda>t. if t = Directory then Some (- 21) else None) fs_deleteFile (- 2)"

definition handleClose :: "'x handler" where
  "handleClose s =
     do { p \<leftarrow> caller s;
          (t, n) \<leftarrow> dt_release (r_ebx (kn_regs s)) (pr_fds p) (kn_net s);
          s \<leftarrow> with_caller (\<lambda>p. p\<lparr>pr_fds := t\<rparr>) (s\<lparr>kn_net := n\<rparr>);
          Some (answer 0 s) }"

text \<open>
  The buffer of a write is read at its physical address, as one run of memory. The outputs of the
  process take the bytes before the first zero byte.
\<close>

definition handleWrite :: "'x handler" where
  "handleWrite s =
     (let fd = r_ebx (kn_regs s); count = r_edx (kn_regs s) in
      guarded None (r_ecx (kn_regs s)) (\<lambda>s. do {
        buffer \<leftarrow> physical (r_ecx (kn_regs s)) s;
        let data = load_bytes buffer (unat count) (k_mem (kn_tasks s)); out = takeWhile (\<lambda>c. c \<noteq> 0) data in
        if fd = 1 then with_caller (\<lambda>p. p\<lparr>pr_stdout := pr_stdout p @ out\<rparr>) (answer (of_nat (length out)) s)
        else if fd = 2 then with_caller (\<lambda>p. p\<lparr>pr_stderr := pr_stderr p @ out\<rparr>) (answer (of_nat (length out)) s)
        else with_file fd 0 (- 22) (\<lambda>f s. do {
          i \<leftarrow> inode_of f s;
          (n, s) \<leftarrow> on_files (inode_write (fd_inode f) data (fd_offset f)) s;
          s \<leftarrow> put_file fd (advanceOffset n f) s;
          Some (answer n s) }) s }) s)"

definition handleRead :: "'x handler" where
  "handleRead s =
     (let fd = r_ebx (kn_regs s); buffer = r_ecx (kn_regs s); count = r_edx (kn_regs s) in
      guarded None buffer (with_file fd 0 (- 22) (\<lambda>f s. do {
        i \<leftarrow> inode_of f s;
        ((n, data), s) \<leftarrow> on_files (inode_read (fd_inode f) count (fd_offset f)) s;
        s \<leftarrow> user_store buffer data s;
        s \<leftarrow> put_file fd (advanceOffset n f) s;
        Some (answer n s) })) s)"

definition handleIoctl :: "'x handler" where
  "handleIoctl s =
     (let fd = r_ebx (kn_regs s); argp = r_edx (kn_regs s) in
      guarded None argp (with_file fd (- 9) (- 22) (\<lambda>f s. do {
        i \<leftarrow> inode_of f s;
        ((status', bs), s) \<leftarrow> on_files (\<lambda>g. Some (inode_ioctl (fd_inode f) (r_ecx (kn_regs s)) argp g)) s;
        s \<leftarrow> user_store argp bs s;
        Some (answer status' s) })) s)"

definition handleLongSeek :: "'x handler" where
  "handleLongSeek s =
     (let fd = r_ebx (kn_regs s); offset = r_ecx (kn_regs s); whence = r_edx (kn_regs s) in
      with_file fd (- 9) (- 29) (\<lambda>f s.
        if 2 < whence then Some (answer (- 22) s)
        else do {
          newOffset \<leftarrow>
            (if whence = 0 then Some offset
             else if whence = 1 then Some (fd_offset f + offset)
             else do { i \<leftarrow> inode_of f s; Some (inode_getSize (fd_inode f) (files s) + offset) });
          if sint newOffset < 0 then Some (answer (- 22) s)
          else do { s \<leftarrow> put_file fd (f\<lparr>fd_offset := newOffset\<rparr>) s; Some (answer newOffset s) } }) s)"

fun type_code :: "inode_type \<Rightarrow> byte" where
  "type_code inode_type.Invalid = 0"
| "type_code FIFO = 1"
| "type_code CharacterDevice = 2"
| "type_code Directory = 4"
| "type_code BlockDevice = 6"
| "type_code File = 8"
| "type_code Link = 16"

text \<open>The packed records of \<open>getdents\<close>: 10 bytes, the name at offset 10, the type in the last byte.\<close>

definition put_dirent :: "u32 \<Rightarrow> u32 \<Rightarrow> nat \<Rightarrow> bytes \<Rightarrow> inode \<Rightarrow> 'x handler" where
  "put_dirent at reclen next' name i s =
     do { s \<leftarrow> user_store at (bytes32 (inodeNumber i) @ bytes32 (of_nat next') @ bytes16 (ucast reclen)) s;
          s \<leftarrow> user_store (at + 10) (name @ [0]) s;
          user_store (at + reclen - 1) [type_code (itype i)] s }"

fun put_dirents :: "u32 \<Rightarrow> nat \<Rightarrow> (bytes \<times> u32) list \<Rightarrow> nat \<Rightarrow> 'x kernel \<Rightarrow> (nat \<times> 'x kernel) option" where
  "put_dirents buffer count [] bytesRead s = Some (bytesRead, s)"
| "put_dirents buffer count ((name, inode) # ds) bytesRead s =
     (if count \<le> bytesRead then Some (bytesRead, s)
      else do {
        i \<leftarrow> deref inode (k_vfs (kn_tasks s));
        let reclen = 12 + length name + 1 + 1 in
        if count < bytesRead + reclen then Some (bytesRead, s)
        else do {
          s \<leftarrow> put_dirent (buffer + of_nat bytesRead) (of_nat reclen) (bytesRead + reclen) name i s;
          put_dirents buffer count ds (bytesRead + reclen) s } })"

definition handleGetdents :: "'x handler" where
  "handleGetdents s =
     (let fd = r_ebx (kn_regs s); buffer = r_ecx (kn_regs s); count = min (r_edx (kn_regs s)) 4096 in
      guarded None buffer (guarded None (buffer + r_edx (kn_regs s)) (with_file fd (- 9) (- 22) (\<lambda>f s. do {
        i \<leftarrow> inode_of f s;
        if itype i \<noteq> Directory then Some (answer (- 20) s)
        else do {
          (ds, s) \<leftarrow> on_files (fs_getDentries (fd_inode f) (unat (fd_offset f)) (unat count)) s;
          s \<leftarrow> put_file fd (advanceOffset (of_nat (length ds)) f) s;
          (n, s) \<leftarrow> put_dirents buffer (unat count) ds 0 s;
          Some (answer (of_nat n) s) } }))) s)"

section \<open>Windows\<close>

text \<open>\<open>CEIL_DIV_PAGE_SIZE\<close>.\<close>

definition window_pages :: "u32 \<Rightarrow> u32 \<Rightarrow> u32" where
  "window_pages width height = drop_bit 12 (width * height * 4 + 4096 - 1)"

definition handleInitWindow :: "nat \<Rightarrow> 'x handler" where
  "handleInitWindow k s =
     (let userBuffer = r_ebx (kn_regs s); windowInfo = r_ecx (kn_regs s) in
      guarded (Some (- 22)) windowInfo (\<lambda>s. do {
        x \<leftarrow> user_u32 windowInfo s;
        y \<leftarrow> user_u32 (windowInfo + 4) s;
        width \<leftarrow> user_u32 (windowInfo + 8) s;
        height \<leftarrow> user_u32 (windowInfo + 12) s;
        guarded (Some (- 22)) userBuffer (\<lambda>s. do {
          (buffer, s) \<leftarrow> on_caller (proc_allocatePages k (window_pages width height)) s;
          s \<leftarrow> user_store userBuffer (bytes32 buffer) s;
          (i, s) \<leftarrow> on_windows (\<lambda>w. Some (requestWindow buffer x y width height w)) s;
          movable \<leftarrow> user_byte (windowInfo + 16) s;
          (_, s) \<leftarrow> on_windows (\<lambda>w. Some ((), w\<lparr>wins := at_window i (win_setMovable (movable \<noteq> 0)) (wins w)\<rparr>)) s;
          with_caller (\<lambda>p. p\<lparr>pr_windows := pr_windows p @ [i]\<rparr>) (answer i s) }) s }) s)"

text \<open>Whoever the window belongs to, it is closed.\<close>

definition handleCloseWindow :: "'x handler" where
  "handleCloseWindow s =
     (let i = r_ebx (kn_regs s) in
      do { s \<leftarrow> with_caller (\<lambda>p. p\<lparr>pr_windows := remove1 i (pr_windows p)\<rparr>) s;
           (_, s) \<leftarrow> on_windows (\<lambda>w. map_option (Pair ()) (closeWindow i w)) s;
           Some s })"

definition flag :: "bool \<Rightarrow> byte" where
  "flag b = (if b then 1 else 0)"

definition key_event_bytes :: "key_event \<Rightarrow> bytes" where
  "key_event_bytes e = [ke_key e, flag (ke_pressed e), flag (ke_ctrl e), flag (ke_shift e), flag (ke_alt e), flag (ke_valid e)]"

definition mouse_event_bytes :: "mouse_event \<Rightarrow> bytes" where
  "mouse_event_bytes e =
     bytes32 (me_x e) @ bytes32 (me_y e) @ [flag (me_left e), flag (me_right e), flag (me_middle e), flag (me_event e)]"

definition handleNextKeyboardEvent :: "'x handler" where
  "handleNextKeyboardEvent s =
     (let event = r_ecx (kn_regs s) in
      guarded None event (\<lambda>s. do {
        (e, s) \<leftarrow> on_windows (\<lambda>w. Some (wm_popKeyboardEvent (r_ebx (kn_regs s)) w)) s;
        user_store event (key_event_bytes e) s }) s)"

definition handleNextMouseEvent :: "'x handler" where
  "handleNextMouseEvent s =
     (let event = r_ecx (kn_regs s) in
      guarded None event (\<lambda>s. do {
        (e, s) \<leftarrow> on_windows (\<lambda>w. Some (wm_popMouseEvent (r_ebx (kn_regs s)) w)) s;
        user_store event (mouse_event_bytes e) s }) s)"

text \<open>The bytes that fill the structure up are not written.\<close>

definition handleGetWindowStatus :: "'x handler" where
  "handleGetWindowStatus s =
     (let status' = r_ecx (kn_regs s); i = r_ebx (kn_regs s) in
      guarded None status' (\<lambda>s.
        case getWindowById i (k_wm (kn_tasks s)) of
          None \<Rightarrow> Some s
        | Some w \<Rightarrow> user_store status'
            (bytes32 (w_x w) @ bytes32 (w_y w) @ bytes32 (w_width w) @ bytes32 (w_height w) @
             [flag (activeWindowId (k_wm (kn_tasks s)) = i)]) s) s)"

section \<open>Sockets\<close>

text \<open>The data of a send is fetched first: a part of it that is not mapped is a fault on every path.\<close>

definition handleSocket :: "'x handler" where
  "handleSocket s =
     (let (a, s) = heap_answer s in
      if a = 0 then Some (answer (- 12) s)
      else let (p, s) = heap_answer s in do {
        (sd, s) \<leftarrow> on_net (newSocketDescriptor p (r_ebx (kn_regs s)) (r_ecx (kn_regs s)) (r_edx (kn_regs s))) s;
        (fd, s) \<leftarrow> add_descriptor (Some (SocketDescriptor sd)) s;
        Some (answer fd s) })"

text \<open>A socket address is only read when its length says that it is all there.\<close>

definition load_sockaddr :: "u32 \<Rightarrow> u32 \<Rightarrow> 'x kernel \<Rightarrow> bytes option" where
  "load_sockaddr addr addrlen s = (if addrlen < 16 then Some [] else user_load addr 16 s)"

definition handle_address_call ::
    "(socket_descriptor \<Rightarrow> bytes option \<Rightarrow> u32 \<Rightarrow> dns \<Rightarrow> (int \<times> dns) option) \<Rightarrow> 'x handler" where
  "handle_address_call f s =
     (let sockfd = r_ebx (kn_regs s); addr = r_ecx (kn_regs s); addrlen = r_edx (kn_regs s) in
      guarded (Some (- 14)) addr (with_socket sockfd (\<lambda>sd s. do {
        bs \<leftarrow> load_sockaddr addr addrlen s;
        (result, s) \<leftarrow> on_net (f sd (Some bs) addrlen) s;
        Some (answer (of_int result) s) })) s)"

definition handleBind :: "'x handler" where "handleBind = handle_address_call sd_bind"

definition handleConnect :: "'x handler" where "handleConnect = handle_address_call sd_connect"

definition handleSendto :: "nat \<Rightarrow> 'x handler" where
  "handleSendto k s =
     (let sockfd = r_ebx (kn_regs s); buffer = r_ecx (kn_regs s); len = r_edx (kn_regs s);
          destAddr = r_edi (kn_regs s); addrlen = r_ebp (kn_regs s)
      in guarded (Some (- 14)) buffer (guarded_opt (- 14) destAddr (with_socket sockfd (\<lambda>sd s. do {
           data \<leftarrow> user_load buffer (unat len) s;
           addr \<leftarrow> (if destAddr = 0 then Some None else map_option Some (load_sockaddr destAddr addrlen s));
           (result, s) \<leftarrow> on_net (sd_sendto (poll k) sd data len addr addrlen) s;
           Some (answer result s) }))) s)"

definition handleRecvfrom :: "'x handler" where
  "handleRecvfrom s =
     (let sockfd = r_ebx (kn_regs s); buffer = r_ecx (kn_regs s); len = r_edx (kn_regs s);
          srcAddr = r_edi (kn_regs s); addrlen = r_ebp (kn_regs s)
      in guarded (Some (- 14)) buffer (guarded_opt (- 14) srcAddr (guarded_opt (- 14) addrlen (with_socket sockfd (\<lambda>sd s. do {
           ((result, data, src), s) \<leftarrow> on_net (sd_recvfrom sd len (srcAddr \<noteq> 0 \<and> addrlen \<noteq> 0)) s;
           s \<leftarrow> user_store buffer data s;
           s \<leftarrow> (case src of None \<Rightarrow> Some s
                 | Some bs \<Rightarrow> do { s \<leftarrow> user_store srcAddr bs s; user_store addrlen (bytes32 16) s });
           Some (answer result s) })))) s)"

text \<open>The options of a datagram socket that read the value; a null pointer is followed as well.\<close>

definition reads_option :: "socket_descriptor \<Rightarrow> u32 \<Rightarrow> u32 \<Rightarrow> u32 \<Rightarrow> bool" where
  "reads_option sd level optname optlen =
     ((\<exists>p. sd_socket sd = Some (UDP p)) \<and> level = 1 \<and> (optname = 2 \<or> optname = 6) \<and> 4 \<le> optlen)"

definition handleSetsockopt :: "'x handler" where
  "handleSetsockopt s =
     (let sockfd = r_ebx (kn_regs s); level = r_ecx (kn_regs s); optname = r_edx (kn_regs s);
          optval = r_esi (kn_regs s); optlen = r_edi (kn_regs s)
      in guarded_opt (- 14) optval (with_socket sockfd (\<lambda>sd s. do {
           v \<leftarrow> (if reads_option sd level optname optlen then user_u32 optval s else Some 0);
           (result, s) \<leftarrow> on_net (sd_setsockopt sd level optname v optlen) s;
           Some (answer (of_int result) s) })) s)"

definition handleGetsockopt :: "'x handler" where
  "handleGetsockopt s =
     (let sockfd = r_ebx (kn_regs s); level = r_ecx (kn_regs s); optname = r_edx (kn_regs s);
          optval = r_esi (kn_regs s); optlen = r_edi (kn_regs s); out = (optval \<noteq> 0 \<and> optlen \<noteq> 0)
      in guarded_opt (- 14) optval (guarded_opt (- 14) optlen (with_socket sockfd (\<lambda>sd s. do {
           n \<leftarrow> (if out then user_u32 optlen s else Some 0);
           ((result, v), s) \<leftarrow> on_net (sd_getsockopt sd level optname out n) s;
           s \<leftarrow> (case v of None \<Rightarrow> Some s
                 | Some v \<Rightarrow> do { s \<leftarrow> user_store optval (bytes32 v) s; user_store optlen (bytes32 4) s });
           Some (answer (of_int result) s) }))) s)"

definition handle_name_call :: "(socket_descriptor \<Rightarrow> u32 option \<Rightarrow> dns \<Rightarrow> (int \<times> bytes option) option) \<Rightarrow> 'x handler" where
  "handle_name_call f s =
     (let sockfd = r_ebx (kn_regs s); addr = r_ecx (kn_regs s); addrlen = r_edx (kn_regs s) in
      guarded (Some (- 14)) addr (guarded (Some (- 14)) addrlen (with_socket sockfd (\<lambda>sd s. do {
        n \<leftarrow> user_u32 addrlen s;
        (result, name) \<leftarrow> f sd (Some n) (kn_net s);
        s \<leftarrow> (case name of None \<Rightarrow> Some s
              | Some bs \<Rightarrow> do { s \<leftarrow> user_store addr bs s; user_store addrlen (bytes32 16) s });
        Some (answer (of_int result) s) }))) s)"

definition handleGetsockname :: "'x handler" where "handleGetsockname = handle_name_call sd_getsockname"

definition handleGetpeername :: "'x handler" where "handleGetpeername = handle_name_call sd_getpeername"

definition handleListen :: "'x handler" where
  "handleListen s = with_socket (r_ebx (kn_regs s)) (\<lambda>sd s. Some (answer (of_int (sd_listen sd)) s)) s"

definition handleShutdown :: "'x handler" where
  "handleShutdown s = with_socket (r_ebx (kn_regs s)) (\<lambda>sd s. Some (answer (of_int (sd_shutdown sd)) s)) s"

definition handleAccept :: "'x handler" where
  "handleAccept s =
     guarded_opt (- 14) (r_ecx (kn_regs s)) (guarded_opt (- 14) (r_edx (kn_regs s)) (with_socket (r_ebx (kn_regs s)) (\<lambda>sd s.
       case sd_accept sd of
         None \<Rightarrow> Some (answer (- 95) s)
       | Some newSocket \<Rightarrow> do {
           (fd, s) \<leftarrow> add_descriptor (Some (SocketDescriptor newSocket)) s; Some (answer fd s) }))) s"

section \<open>The interrupt\<close>

text \<open>The map of the handlers: the number for the effective group has the handler of the effective user.\<close>

definition systemCallHandlers :: "'x surroundings \<Rightarrow> (u32 \<times> 'x handler) list" where
  "systemCallHandlers en =
     [(1, handleExit), (20, handleGetPid), (158, handleYield), (90, handleMmap (en_pages en)), (228, handleGetTime),
      (407, handleClockNanoSleep64 en), (45, handleBrk (en_pages en)), (243, handleSetThreadArea), (199, handleGetUID),
      (200, handleGetGID), (201, handleGetEUID), (202, handleGetEUID), (88, handleReboot),
      (5, handleOpen), (6, handleClose), (4, handleWrite), (3, handleRead), (54, handleIoctl), (19, handleLongSeek),
      (39, handleMkdir), (40, handleRmdir), (10, handleUnlink), (7, handleWaitPID en), (9600, handleSpawn en),
      (9500, handleInitWindow (en_pages en)), (9501, handleCloseWindow), (9502, handleNextKeyboardEvent),
      (9503, handleNextMouseEvent), (9504, handleGetWindowStatus), (141, handleGetdents), (384, handleArchPrctl),
      (359, handleSocket), (361, handleBind), (362, handleConnect), (363, handleListen), (364, handleAccept),
      (369, handleSendto (en_poll en)), (371, handleRecvfrom), (366, handleSetsockopt), (365, handleGetsockopt),
      (367, handleGetsockname), (368, handleGetpeername), (373, handleShutdown)]"

definition run_handler :: "'x surroundings \<Rightarrow> 'x handler" where
  "run_handler en s =
     (case map_of (systemCallHandlers en) (r_eax (kn_regs s)) of
        Some h \<Rightarrow> h s
      | None \<Rightarrow> Some (answer (- 22) s))"

text \<open>The address the interrupt returns through; \<open>regs\<close> is where the registers were saved.\<close>

definition handleInterrupt :: "'x surroundings \<Rightarrow> u32 \<Rightarrow> 'x kernel \<Rightarrow> (u32 \<times> 'x kernel) option" where
  "handleInterrupt en regs s =
     do { s \<leftarrow> run_handler en s;
          p \<leftarrow> caller s;
          if pr_state p = Terminated \<or> pr_age p = 0 then do {
            (a, t) \<leftarrow> interruptHandler regs (kn_regs s) (kn_tasks s); Some (a, s\<lparr>kn_tasks := t\<rparr>) }
          else Some (regs, s) }"

end
