(* ===== verification/Call_Steps.thy ===== *)
theory Call_Steps
  imports System_Calls Scheduler_Steps
begin

text \<open>
  What the handlers of the system calls do to the table of processes. A relation between the states
  before and after a call that holds for the basic actions (work on the record of the caller, its end,
  its yielding, the start of a program) holds for every call: the locale \<open>call_effects\<close>. It is used
  twice, for the steps of the scheduler and for what a call leaves alone.
\<close>

section \<open>Work on the record of the caller\<close>

text \<open>The records of the other processes stay, and so does what the scheduler looks at in that of the caller.\<close>

definition works :: "'x kernel \<Rightarrow> 'x kernel \<Rightarrow> bool" where
  "works s t =
     (currentIndex (kn_tasks t) = currentIndex (kn_tasks s) \<and> pid_count (kn_tasks t) = pid_count (kn_tasks s) \<and>
      atomicLevel (kn_tasks t) = atomicLevel (kn_tasks s) \<and> task_keys (kn_tasks t) = task_keys (kn_tasks s) \<and>
      (\<forall>j. j \<noteq> unat (currentIndex (kn_tasks s)) \<longrightarrow>
         rd_at (processes (kn_tasks t)) j = rd_at (processes (kn_tasks s)) j))"

lemma works_refl: "works s s"
  by (simp add: works_def)

lemma works_tasks: "kn_tasks t = kn_tasks s \<Longrightarrow> works s t"
  by (simp add: works_def)

lemma works_view:
  assumes "table_view (kn_tasks t) = table_view (kn_tasks s)"
  shows "works s t"
  using assms by (simp add: works_def table_view_def task_keys_def)

lemma works_answer: "works s (answer v s)"
  by (simp add: answer_def works_tasks)

lemma works_update:
  assumes "getCurrentProcess (kn_tasks s) = Some p" and "table_view u = table_view (kn_tasks s)"
    and "pr_pid q = pr_pid p" "pr_age q = pr_age p" "pr_state q = pr_state p"
  shows "works s (s\<lparr>kn_tasks := put_process (unat (currentIndex u)) q u\<rparr>)"
proof -
  let ?c = "unat (currentIndex (kn_tasks s))"
  have u: "processes u = processes (kn_tasks s)" "currentIndex u = currentIndex (kn_tasks s)"
    "pid_count u = pid_count (kn_tasks s)" "atomicLevel u = atomicLevel (kn_tasks s)"
    using assms(2) by (simp_all add: table_view_def)
  have c: "?c < length (processes (kn_tasks s))" "processes (kn_tasks s) ! ?c = p"
    using assms(1) by (auto simp: getCurrentProcess_def rd_at_def split: if_splits)
  have "map (\<lambda>p. (pr_pid p, pr_age p, pr_state p)) ((processes (kn_tasks s))[?c := q]) = task_keys (kn_tasks s)"
    using c assms(3-5) by (auto simp: task_keys_def map_update list_update_same_conv)
  then show ?thesis by (auto simp: works_def put_process_def u task_keys_def rd_at_def nth_list_update)
qed

lemma works_caller:
  assumes "with_caller f s = Some t" and "\<And>p. pr_pid (f p) = pr_pid p \<and> pr_age (f p) = pr_age p \<and> pr_state (f p) = pr_state p"
  shows "works s t"
proof -
  obtain p where p: "getCurrentProcess (kn_tasks s) = Some p"
    and t: "t = s\<lparr>kn_tasks := put_process (unat (currentIndex (kn_tasks s))) (f p) (kn_tasks s)\<rparr>"
    using assms(1) by (auto simp: with_caller_def update_current_def split: Option.bind_splits)
  show ?thesis unfolding t by (rule works_update [OF p refl]) (simp_all add: assms(2))
qed

lemma works_on_caller:
  assumes "on_caller f s = Some (r, t)"
    and "\<And>p a ps. f (p, kn_tasks s) = Some (a, ps) \<Longrightarrow> task_view ps = task_view (p, kn_tasks s)"
  shows "works s t"
proof -
  obtain p q u where p: "getCurrentProcess (kn_tasks s) = Some p" and f: "f (p, kn_tasks s) = Some (r, q, u)"
    and t: "t = s\<lparr>kn_tasks := put_process (unat (currentIndex u)) q u\<rparr>"
    using assms(1) by (auto simp: on_caller_def caller_def split: Option.bind_splits)
  show ?thesis unfolding t using assms(2) [OF f] by (intro works_update [OF p]) (auto simp: task_view_def)
qed

lemma works_mmap: "on_caller (proc_allocatePages k n) s = Some (r, t) \<Longrightarrow> works s t"
  by (erule works_on_caller) (rule proc_allocatePages_view)

lemma works_map_at: "on_caller (allocatePagesAt k v n) s = Some (r, t) \<Longrightarrow> works s t"
  by (erule works_on_caller) (rule allocatePagesAt_view)

lemma works_windows: "on_windows f s = Some (r, t) \<Longrightarrow> works s t"
  by (rule works_view) (auto simp: on_windows_def table_view_def split: Option.bind_splits)

lemma works_files: "on_files f s = Some (r, t) \<Longrightarrow> works s t"
  by (rule works_view) (auto simp: on_files_def table_view_def split: Option.bind_splits)

lemma works_net: "on_net f s = Some (r, t) \<Longrightarrow> works s t"
  by (rule works_tasks) (auto simp: on_net_def split: Option.bind_splits)

lemma works_heap: "heap_answer s = (a, t) \<Longrightarrow> works s t"
  by (rule works_tasks) (auto simp: heap_answer_def split: list.splits)

lemma works_store: "user_store a bs s = Some t \<Longrightarrow> works s t"
proof -
  have "user_store a bs s = Some t \<Longrightarrow> table_view (kn_tasks t) = table_view (kn_tasks s)"
    by (induction a bs s rule: user_store.induct)
      (auto simp: user_put_def table_view_def split: Option.bind_splits if_splits)
  then show "user_store a bs s = Some t \<Longrightarrow> works s t" by (rule works_view)
qed

lemma works_put_file: "put_file fd f s = Some t \<Longrightarrow> works s t"
  unfolding put_file_def by (erule works_caller) simp

lemma works_add_descriptor: "add_descriptor d s = Some (fd, t) \<Longrightarrow> works s t"
  unfolding add_descriptor_def
  by (auto simp: Let_def split: Option.bind_splits prod.splits intro: works_caller)

section \<open>Effects of the handlers\<close>

locale call_effects =
  fixes R :: "'x kernel \<Rightarrow> 'x kernel \<Rightarrow> bool"
  assumes trans: "R s t \<Longrightarrow> R t u \<Longrightarrow> R s u"
    and works: "works s t \<Longrightarrow> R s t"
    and ended: "with_caller (terminate c) s = Some t \<Longrightarrow> R s t"
    and yielded: "with_caller (\<lambda>p. p\<lparr>pr_age := 0\<rparr>) s = Some t \<Longrightarrow> R s t"
    and builtin: "execv_builtin k entry md prio argv envp (kn_tasks s) = Some (r, ts) \<Longrightarrow> R s (s\<lparr>kn_tasks := ts\<rparr>)"
    and elf: "execv_elf k file content md prio argv envp (kn_tasks s) = Some (r, ts) \<Longrightarrow> R s (s\<lparr>kn_tasks := ts\<rparr>)"
begin

lemma refl: "R s s"
  by (rule works [OF works_refl])

lemma step: "works s t \<Longrightarrow> R a s \<Longrightarrow> R a t"
  using trans works by blast

lemma step_answer [simp]: "R a s \<Longrightarrow> R a (answer v s)"
  using trans works [OF works_answer] by blast

lemma step_tasks: "kn_tasks t = kn_tasks s \<Longrightarrow> R a s \<Longrightarrow> R a t"
  using step [OF works_tasks] by blast

lemma step_caller:
  "with_caller f s = Some t \<Longrightarrow> R a s \<Longrightarrow>
     (\<And>p. pr_pid (f p) = pr_pid p \<and> pr_age (f p) = pr_age p \<and> pr_state (f p) = pr_state p) \<Longrightarrow> R a t"
  using step [OF works_caller] by blast

lemma step_valid: "isValidAddress_call p s = Some (v, t) \<Longrightarrow> R a s \<Longrightarrow> R a t"
  unfolding isValidAddress_call_def using trans ended by (auto split: Option.bind_splits if_splits)

lemmas steps = step_valid step [OF works_mmap] step [OF works_map_at] step [OF works_windows] step [OF works_files]
  step [OF works_net] step [OF works_heap] step [OF works_store] step [OF works_put_file] step [OF works_add_descriptor]

text \<open>What a guard and a descriptor ask of the handler behind them.\<close>

lemma guarded_R:
  assumes "guarded e p body s = Some t" and "R a s" and "\<And>u. R a u \<Longrightarrow> body u = Some t \<Longrightarrow> R a t"
  shows "R a t"
proof -
  obtain v u where "isValidAddress_call p s = Some (v, u)"
    and "(if v then body u else Some (case e of None \<Rightarrow> u | Some e \<Rightarrow> answer e u)) = Some t"
    using assms(1) by (auto simp: guarded_def split: Option.bind_splits)
  moreover from this(1) have "R a u" using assms(2) by (rule step_valid)
  ultimately show ?thesis using assms(3) by (auto split: if_splits option.splits)
qed

lemma guarded_opt_R:
  assumes "guarded_opt e p body s = Some t" and "R a s" and "\<And>u. R a u \<Longrightarrow> body u = Some t \<Longrightarrow> R a t"
  shows "R a t"
proof (cases "p = 0")
  case False
  with assms(1) have "guarded (Some e) p body s = Some t" by (simp add: guarded_opt_def)
  then show ?thesis using assms(2,3) by (rule guarded_R)
qed (use assms in \<open>simp add: guarded_opt_def\<close>)

lemma with_file_R:
  assumes "with_file fd x y body s = Some t" and "R a s" and "\<And>f. body f s = Some t \<Longrightarrow> R a t"
  shows "R a t"
  using assms unfolding with_file_def by (auto split: Option.bind_splits option.splits descriptor.splits)

lemma with_socket_R:
  assumes "with_socket fd body s = Some t" and "R a s" and "\<And>sd. body sd s = Some t \<Longrightarrow> R a t"
  shows "R a t"
  using assms unfolding with_socket_def by (auto split: Option.bind_splits option.splits descriptor.splits)

lemmas splits = Option.bind_splits if_splits option.splits prod.splits sum.splits

lemma power_action_R: "power_action s = Some t \<Longrightarrow> R a s \<Longrightarrow> R a t"
  by (auto simp: power_action_def split: if_splits)

lemma process_calls:
  "handleExit s = Some t \<Longrightarrow> R s t" "handleGetPid s = Some t \<Longrightarrow> R s t" "handleYield s = Some t \<Longrightarrow> R s t"
  "handleMmap k s = Some t \<Longrightarrow> R s t" "handleArchPrctl s = Some t \<Longrightarrow> R s t" "handleGetUID s = Some t \<Longrightarrow> R s t"
  "handleGetGID s = Some t \<Longrightarrow> R s t" "handleGetEUID s = Some t \<Longrightarrow> R s t" "handleSetThreadArea s = Some t \<Longrightarrow> R s t"
  "handleReboot s = Some t \<Longrightarrow> R s t" "handleGetTime s = Some t \<Longrightarrow> R s t"
  subgoal unfolding handleExit_def by (rule ended)
  subgoal using refl by (auto simp: handleGetPid_def split: splits)
  subgoal using trans [OF works [OF works_answer] yielded] unfolding handleYield_def .
  subgoal using refl by (auto 0 8 simp: handleMmap_def split: splits intro!: step_answer intro: steps)
  subgoal using refl by (auto simp: handleArchPrctl_def Let_def split: splits intro: step_caller)
  subgoal using refl by (auto simp: handleGetUID_def)
  subgoal using refl by (auto simp: handleGetGID_def)
  subgoal using refl by (auto simp: handleGetEUID_def)
  subgoal using refl by (auto simp: handleSetThreadArea_def)
  subgoal using refl by (auto simp: handleReboot_def Let_def split: splits dest: power_action_R)
  subgoal unfolding handleGetTime_def Let_def by (erule guarded_R [OF _ refl]) (auto intro!: step_answer intro: steps)
  done

lemma handleBrk_R: "handleBrk k s = Some t \<Longrightarrow> R s t"
proof -
  assume h: "handleBrk k s = Some t"
  have c: "with_caller (\<lambda>p. set_brk b (p\<lparr>pr_max_brk := f p\<rparr>)) (answer b u) = Some v \<Longrightarrow> R s u \<Longrightarrow> R s v" for f b u v
    by (erule step_caller) (simp_all add: set_brk_def)
  have d: "with_caller (set_brk b) (answer b u) = Some v \<Longrightarrow> R s u \<Longrightarrow> R s v" for b u v
    by (erule step_caller) (simp_all add: set_brk_def)
  show ?thesis using h refl [of s] unfolding handleBrk_def Let_def
    by (auto 0 8 split: splits intro: c d dest: step [OF works_map_at])
qed

lemma file_calls:
  "handleOpen s = Some t \<Longrightarrow> R s t" "handleMkdir s = Some t \<Longrightarrow> R s t" "remove_call rej rm e s = Some t \<Longrightarrow> R s t"
  "handleClose s = Some t \<Longrightarrow> R s t" "handleWrite s = Some t \<Longrightarrow> R s t" "handleRead s = Some t \<Longrightarrow> R s t"
  "handleIoctl s = Some t \<Longrightarrow> R s t" "handleLongSeek s = Some t \<Longrightarrow> R s t"
  subgoal unfolding handleOpen_def Let_def
    by (erule guarded_R [OF _ refl]) (auto 0 8 split: splits intro!: step_answer intro: steps)
  subgoal unfolding handleMkdir_def Let_def
    by (erule guarded_R [OF _ refl]) (auto 0 8 split: splits intro!: step_answer intro: steps)
  subgoal unfolding remove_call_def Let_def
    by (erule guarded_R [OF _ refl]) (auto 0 8 split: splits intro!: step_answer intro: steps)
  subgoal using refl [of s] unfolding handleClose_def
    by (auto 0 8 split: splits intro!: step_answer intro: step_caller step_tasks)
  subgoal unfolding handleWrite_def Let_def
    by (erule guarded_R [OF _ refl])
      (auto 0 8 split: splits intro!: step_answer intro: steps step_caller elim!: with_file_R)
  subgoal unfolding handleRead_def Let_def
    by (erule guarded_R [OF _ refl]) (erule with_file_R, auto 0 8 split: splits intro!: step_answer intro: steps)
  subgoal unfolding handleIoctl_def Let_def
    by (erule guarded_R [OF _ refl]) (erule with_file_R, auto 0 8 split: splits intro!: step_answer intro: steps)
  subgoal unfolding handleLongSeek_def Let_def
    using refl [of s] by - (erule with_file_R, auto 0 8 split: splits intro!: step_answer intro: steps)
  done

lemma handleGetdents_R: "handleGetdents s = Some t \<Longrightarrow> R s t"
proof -
  have one: "put_dirent p n m x i s = Some t \<Longrightarrow> R a s \<Longrightarrow> R a t" for p n m x i s t a
    unfolding put_dirent_def by (auto 0 8 simp del: user_store.simps split: splits intro: steps)
  have more: "put_dirents b c ds n s = Some (m, t) \<Longrightarrow> R a s \<Longrightarrow> R a t" for a b c ds n m s t
  proof (induction ds arbitrary: n s)
    case (Cons d ds)
    then show ?case by (cases d) (auto simp: Let_def split: splits dest: one)
  qed simp
  show "handleGetdents s = Some t \<Longrightarrow> R s t"
    unfolding handleGetdents_def Let_def
    by (erule guarded_R [OF _ refl], erule guarded_R, assumption, erule with_file_R, assumption)
      (auto 0 8 split: splits intro!: step_answer intro: steps more)
qed

lemma window_calls:
  "handleInitWindow k s = Some t \<Longrightarrow> R s t" "handleCloseWindow s = Some t \<Longrightarrow> R s t"
  "handleNextKeyboardEvent s = Some t \<Longrightarrow> R s t" "handleNextMouseEvent s = Some t \<Longrightarrow> R s t"
  "handleGetWindowStatus s = Some t \<Longrightarrow> R s t"
  subgoal unfolding handleInitWindow_def Let_def
    by (erule guarded_R [OF _ refl])
      (auto 0 9 split: splits intro!: step_answer intro: steps step_caller elim!: guarded_R)
  subgoal using refl [of s] unfolding handleCloseWindow_def Let_def
    by (auto 0 8 split: splits intro: steps step_caller)
  subgoal unfolding handleNextKeyboardEvent_def Let_def
    by (erule guarded_R [OF _ refl]) (auto 0 8 split: splits intro: steps)
  subgoal unfolding handleNextMouseEvent_def Let_def
    by (erule guarded_R [OF _ refl]) (auto 0 8 split: splits intro: steps)
  subgoal unfolding handleGetWindowStatus_def Let_def
    by (erule guarded_R [OF _ refl]) (auto 0 8 split: splits intro: steps)
  done

lemma socket_calls:
  "handleSocket s = Some t \<Longrightarrow> R s t" "handle_address_call f s = Some t \<Longrightarrow> R s t" "handleSendto k s = Some t \<Longrightarrow> R s t"
  "handleRecvfrom s = Some t \<Longrightarrow> R s t" "handleSetsockopt s = Some t \<Longrightarrow> R s t" "handleGetsockopt s = Some t \<Longrightarrow> R s t"
  "handle_name_call g s = Some t \<Longrightarrow> R s t" "handleListen s = Some t \<Longrightarrow> R s t" "handleShutdown s = Some t \<Longrightarrow> R s t"
  "handleAccept s = Some t \<Longrightarrow> R s t"
  subgoal using refl [of s] unfolding handleSocket_def Let_def
    by (auto 0 8 split: splits intro!: step_answer intro: steps)
  subgoal unfolding handle_address_call_def Let_def
    by (erule guarded_R [OF _ refl], erule with_socket_R, assumption)
      (auto 0 8 split: splits intro!: step_answer intro: steps)
  subgoal unfolding handleSendto_def Let_def
    by (erule guarded_R [OF _ refl], erule guarded_opt_R, assumption, erule with_socket_R, assumption)
      (auto 0 8 split: splits intro!: step_answer intro: steps)
  subgoal unfolding handleRecvfrom_def Let_def
    by (erule guarded_R [OF _ refl], erule guarded_opt_R, assumption, erule guarded_opt_R, assumption, erule with_socket_R, assumption)
      (auto 0 8 split: splits intro!: step_answer intro: steps)
  subgoal unfolding handleSetsockopt_def Let_def
    by (erule guarded_opt_R [OF _ refl], erule with_socket_R, assumption)
      (auto 0 8 split: splits intro!: step_answer intro: steps)
  subgoal unfolding handleGetsockopt_def Let_def
    by (erule guarded_opt_R [OF _ refl], erule guarded_opt_R, assumption, erule with_socket_R, assumption)
      (auto 0 8 split: splits intro!: step_answer intro: steps)
  subgoal unfolding handle_name_call_def Let_def
    by (erule guarded_R [OF _ refl], erule guarded_R, assumption, erule with_socket_R, assumption)
      (auto 0 8 split: splits intro!: step_answer intro: steps)
  subgoal unfolding handleListen_def by (erule with_socket_R [OF _ refl]) (auto intro!: step_answer refl)
  subgoal unfolding handleShutdown_def by (erule with_socket_R [OF _ refl]) (auto intro!: step_answer refl)
  subgoal unfolding handleAccept_def
    by (erule guarded_opt_R [OF _ refl], erule guarded_opt_R, assumption, erule with_socket_R, assumption)
      (auto 0 8 split: splits intro!: step_answer intro: steps)
  done

lemma start_program_R: "start_program en i argv envp s = Some (r, t) \<Longrightarrow> R a s \<Longrightarrow> R a t"
proof -
  have b: "R a u \<Longrightarrow> execv_builtin k e User Low as ev (kn_tasks u) = Some (x, ts) \<Longrightarrow> R a (u\<lparr>kn_tasks := ts\<rparr>)" for k e as ev u x ts
    by (rule trans [OF _ builtin])
  have c: "R a u \<Longrightarrow> execv_elf k f c User Low as ev (kn_tasks u) = Some (x, ts) \<Longrightarrow> R a (u\<lparr>kn_tasks := ts\<rparr>)" for k as ev u x ts f c
    by (rule trans [OF _ elf])
  show "start_program en i argv envp s = Some (r, t) \<Longrightarrow> R a s \<Longrightarrow> R a t"
    unfolding start_program_def
    by (auto 0 8 simp: Let_def split: inode_class.splits splits intro: b c steps)
qed

lemma handleSpawn_R: "handleSpawn en s = Some t \<Longrightarrow> R s t"
  unfolding handleSpawn_def Let_def
  by (erule guarded_R [OF _ refl]) (auto split: splits intro!: step_answer, (meson steps start_program_R)+)

text \<open>What happens while a call waits is the doing of the others.\<close>

definition others_follow :: "'x surroundings \<Rightarrow> bool" where
  "others_follow en = (0 < en_rounds en \<longrightarrow> (\<forall>s t. en_others en s = Some t \<longrightarrow> R s t))"

lemma wait_for_R:
  "wait_for n P others s = Some t \<Longrightarrow> (0 < n \<longrightarrow> (\<forall>s t. others s = Some t \<longrightarrow> R s t)) \<Longrightarrow> R a s \<Longrightarrow> R a t"
proof (induction n arbitrary: s)
  case (Suc n)
  show ?case
  proof (cases "P s")
    case False
    then obtain u where u: "others s = Some u" "wait_for n P others u = Some t"
      using Suc.prems(1) by (auto split: Option.bind_splits)
    have "R s u" using Suc.prems(2) u(1) by blast
    then have "R a u" by (rule trans [OF Suc.prems(3)])
    then show ?thesis using Suc.IH [OF u(2)] Suc.prems(2) by blast
  qed (use Suc.prems in simp)
qed (simp split: if_splits)

lemma waiting_calls:
  assumes "others_follow en"
  shows "handleClockNanoSleep64 en s = Some t \<Longrightarrow> R s t" "handleWaitPID en s = Some t \<Longrightarrow> R s t"
proof -
  have w: "wait_for (en_rounds en) P (en_others en) s = Some t \<Longrightarrow> R a s \<Longrightarrow> R a t" for P s t a
    by (erule wait_for_R [OF _ assms [unfolded others_follow_def]])
  show "handleClockNanoSleep64 en s = Some t \<Longrightarrow> R s t"
    unfolding handleClockNanoSleep64_def Let_def
    by (erule guarded_R [OF _ refl], erule guarded_opt_R, assumption)
      (auto 0 8 split: splits intro!: step_answer intro: w)
  show "handleWaitPID en s = Some t \<Longrightarrow> R s t"
    unfolding handleWaitPID_def Let_def
    by (erule guarded_opt_R [OF _ refl]) (auto 0 8 split: splits intro!: step_answer intro: w steps)
qed

lemma run_handler_R:
  assumes "run_handler en s = Some t" and "others_follow en"
  shows "R s t"
proof -
  have "h s = Some t \<Longrightarrow> R s t" if "(n, h) \<in> set (systemCallHandlers en)" for n h
    using that unfolding systemCallHandlers_def handleBind_def handleConnect_def handleGetsockname_def handleGetpeername_def
      handleRmdir_def handleUnlink_def
    by (auto dest!: process_calls handleBrk_R file_calls handleGetdents_R window_calls socket_calls handleSpawn_R
        waiting_calls [OF assms(2)])
  then show ?thesis using assms(1) refl [of s]
    unfolding run_handler_def by (auto split: option.splits dest: map_of_SomeD)
qed

end

section \<open>Calls as steps of the scheduler\<close>

definition task_steps :: "'x kernel \<Rightarrow> 'x kernel \<Rightarrow> bool" where
  "task_steps s t = sched_step\<^sup>*\<^sup>* (kn_tasks s) (kn_tasks t)"

lemma with_caller_tasks: "with_caller f s = Some t \<Longrightarrow> update_current f (kn_tasks s) = Some (kn_tasks t)"
  by (auto simp: with_caller_def split: Option.bind_splits)

interpretation steps: call_effects "task_steps :: 'x kernel \<Rightarrow> 'x kernel \<Rightarrow> bool"
proof
  show "task_steps s t \<Longrightarrow> task_steps t u \<Longrightarrow> task_steps s u" for s t u :: "'x kernel"
    by (simp add: task_steps_def)
  show "works s t \<Longrightarrow> task_steps s t" for s t :: "'x kernel"
    unfolding works_def task_steps_def by (intro r_into_rtranclp work) simp_all
  show "with_caller (terminate c) s = Some t \<Longrightarrow> task_steps s t" for c and s t :: "'x kernel"
    unfolding task_steps_def by (intro r_into_rtranclp exit) (rule with_caller_tasks)
  show "with_caller (\<lambda>p. p\<lparr>pr_age := 0\<rparr>) s = Some t \<Longrightarrow> task_steps s t" for s t :: "'x kernel"
    unfolding task_steps_def by (intro r_into_rtranclp yield) (rule with_caller_tasks)
  show "execv_builtin k entry md prio argv envp (kn_tasks s) = Some (r, u) \<Longrightarrow> task_steps s (s\<lparr>kn_tasks := u\<rparr>)"
    for k entry md prio argv envp r u and s :: "'x kernel"
    unfolding task_steps_def by (intro r_into_rtranclp) (simp add: builtin)
  show "execv_elf k fl content md prio argv envp (kn_tasks s) = Some (r, u) \<Longrightarrow> task_steps s (s\<lparr>kn_tasks := u\<rparr>)"
    for k fl content md prio argv envp r u and s :: "'x kernel"
    unfolding task_steps_def by (intro r_into_rtranclp) (simp add: elf)
qed

lemma handleInterrupt_steps:
  assumes "handleInterrupt en a s = Some (v, t)" and "steps.others_follow en"
  shows "sched_step\<^sup>*\<^sup>* (kn_tasks s) (kn_tasks t)"
proof -
  obtain u p where u: "run_handler en s = Some u" "caller u = Some p"
    and t: "(if pr_state p = Terminated \<or> pr_age p = 0
      then do { (a, ts) \<leftarrow> interruptHandler a (kn_regs u) (kn_tasks u); Some (a, u\<lparr>kn_tasks := ts\<rparr>) }
      else Some (a, u)) = Some (v, t)"
    using assms(1) unfolding handleInterrupt_def by (auto split: Option.bind_splits)
  have "task_steps s u" by (rule steps.run_handler_R [OF u(1) assms(2)])
  moreover have "sched_step\<^sup>*\<^sup>* (kn_tasks u) (kn_tasks t)"
    using t by (auto split: if_splits Option.bind_splits intro!: r_into_rtranclp [of sched_step] sched_step.tick)
  ultimately show ?thesis by (simp add: task_steps_def)
qed

section \<open>What a call leaves alone\<close>

definition others_same :: "'x kernel \<Rightarrow> 'x kernel \<Rightarrow> bool" where
  "others_same s t =
     (currentIndex (kn_tasks t) = currentIndex (kn_tasks s) \<and>
      (\<forall>j p. j \<noteq> unat (currentIndex (kn_tasks s)) \<longrightarrow> rd_at (processes (kn_tasks s)) j = Some p \<longrightarrow>
         rd_at (processes (kn_tasks t)) j = Some p))"

lemma execv_builtin_keeps:
  assumes "execv_builtin k e md prio argv envp s = Some (r, t)"
  shows "currentIndex t = currentIndex s \<and> (\<exists>ps. processes t = processes s @ ps)"
proof (cases r)
  case None
  then show ?thesis using assms unfolding execv_builtin_def by (auto dest: newProcess_None)
next
  case (Some i)
  with assms have "newProcess k e md prio argv envp True s = Some (Some i, t)" by (simp add: execv_builtin_def)
  then show ?thesis by (rule newProcess_view) auto
qed

lemma execv_elf_keeps:
  assumes "execv_elf k file content md prio argv envp s = Some (r, t)"
  shows "currentIndex t = currentIndex s \<and> (\<exists>ps. processes t = processes s @ ps)"
proof -
  have put: "currentIndex (put_process i q u) = currentIndex s \<and> (\<exists>ps. processes (put_process i q u) = processes s @ ps)"
    if n: "newProcess k 0 md prio argv envp False s = Some (Some i, n)" and v: "table_view u = table_view n" for i q u n
  proof -
    obtain p where "i = length (processes s)" "processes n = processes s @ [p]" "currentIndex n = currentIndex s"
      using newProcess_view [OF n] by blast
    then show ?thesis using v by (auto simp: put_process_def table_view_def list_update_append)
  qed
  have "t = s \<or> (\<exists>i n q u. newProcess k 0 md prio argv envp False s = Some (Some i, n) \<and>
      t = put_process i q u \<and> table_view u = table_view n)"
    using assms unfolding execv_elf_def
    by (auto split: if_splits Option.bind_splits option.splits dest!: newProcess_None load_segments_view elf_ready_view
        simp: task_view_def)
  then show ?thesis using put by auto
qed

interpretation isolation: call_effects "others_same :: 'x kernel \<Rightarrow> 'x kernel \<Rightarrow> bool"
proof
  show "others_same s t \<Longrightarrow> others_same t u \<Longrightarrow> others_same s u" for s t u :: "'x kernel"
    by (simp add: others_same_def)
  show "works s t \<Longrightarrow> others_same s t" for s t :: "'x kernel"
    by (simp add: works_def others_same_def)
  have c: "with_caller f s = Some t \<Longrightarrow> others_same s t" for f and s t :: "'x kernel"
    by (auto simp: with_caller_def update_current_def others_same_def put_process_def rd_at_def split: Option.bind_splits)
  show "with_caller (terminate c) s = Some t \<Longrightarrow> others_same s t" for c and s t :: "'x kernel" by (rule c)
  show "with_caller (\<lambda>p. p\<lparr>pr_age := 0\<rparr>) s = Some t \<Longrightarrow> others_same s t" for s t :: "'x kernel" by (rule c)
  have x: "currentIndex u = currentIndex (kn_tasks s) \<and> (\<exists>ps. processes u = processes (kn_tasks s) @ ps) \<Longrightarrow>
    others_same s (s\<lparr>kn_tasks := u\<rparr>)" for u and s :: "'x kernel"
    by (auto simp: others_same_def rd_at_def nth_append split: if_splits)
  show "execv_builtin k entry md prio argv envp (kn_tasks s) = Some (r, u) \<Longrightarrow> others_same s (s\<lparr>kn_tasks := u\<rparr>)"
    for k entry md prio argv envp r u and s :: "'x kernel" by (rule x [OF execv_builtin_keeps])
  show "execv_elf k fl content md prio argv envp (kn_tasks s) = Some (r, u) \<Longrightarrow> others_same s (s\<lparr>kn_tasks := u\<rparr>)"
    for k fl content md prio argv envp r u and s :: "'x kernel" by (rule x [OF execv_elf_keeps])
qed

end
