(* ===== verification/Call_Laws.thy ===== *)
theory Call_Laws
  imports Call_Steps Scheduler_Laws Net_Laws
begin

text \<open>
  The properties of the system calls: how they fit the scheduler, what they leave alone, what a bad
  pointer does, the bounds of the data segment, output, waiting and the reading of directories. The
  example is a kernel with two processes; the first has the pages \<open>0x3000\<close> and \<open>0x4000\<close>, in frames
  that are not next to each other.
\<close>

section \<open>A kernel\<close>

definition ex_fsys :: "unit fsys" where
  "ex_fsys = \<lparr>fs_vfs = ex_tree, fs_class = (\<lambda>_. InodeBase), fs_size = (\<lambda>_. 0), fs_partition = Map.empty, fs_devices = ()\<rparr>"

definition ex_pages :: paging where
  "ex_pages = ex_paging\<lparr>entry_at := (\<lambda>_ i.
     if i = 3 then \<lparr>present = True, rw = True, user = True, other_bits = 0, frame_no = 4\<rparr>
     else if i = 4 then \<lparr>present = True, rw = True, user = True, other_bits = 0, frame_no = 9\<rparr> else zero_entry)\<rparr>"

definition ex_caller :: process where
  "ex_caller = (ex_process 0 Running)\<lparr>pr_dir := 0x100000, pr_initial_brk := 0x3000, pr_current_brk := 0x3000, pr_max_brk := 0x5000\<rparr>"

definition ex_call_tasks :: tasks where
  "ex_call_tasks = (ex_tasks [ex_caller, ex_process 1 Ready] 0)\<lparr>k_paging := ex_pages, k_mem := (\<lambda>a. if a = 0x4FFF then 0x41 else if a = 0x9000 then 0x42 else 0)\<rparr>"

definition ex_kernel :: "u32 \<Rightarrow> u32 \<Rightarrow> u32 \<Rightarrow> u32 \<Rightarrow> unit kernel" where
  "ex_kernel a b c d =
     \<lparr>kn_regs = top_regs\<lparr>r_eax := a, r_ebx := b, r_ecx := c, r_edx := d\<rparr>, kn_tasks = ex_call_tasks, kn_files = ex_fsys,
      kn_net = ex_host 0x0A000002 2 [] [], kn_heap = [0x7000], kn_power = True, kn_own = {}\<rparr>"

definition ex_surroundings :: "unit surroundings" where
  "ex_surroundings = \<lparr>en_pages = 100, en_poll = 10, en_rounds = 0, en_others = (\<lambda>s. Some s), en_file = 0x8000\<rparr>"

lemma ex_kernel_fields [simp]:
  "r_eax (kn_regs (ex_kernel a b c d)) = a" "r_ebx (kn_regs (ex_kernel a b c d)) = b" "r_ecx (kn_regs (ex_kernel a b c d)) = c"
  "r_edx (kn_regs (ex_kernel a b c d)) = d" "caller (ex_kernel a b c d) = Some ex_caller" "kn_tasks (ex_kernel a b c d) = ex_call_tasks"
  "dirs (k_paging ex_call_tasks) 0x100000 = Some ex_page_dir" "pr_dir ex_caller = 0x100000" "en_rounds ex_surroundings = 0"
  by (simp_all add: ex_kernel_def caller_def getCurrentProcess_def rd_at_def ex_call_tasks_def ex_tasks_def ex_pages_def
      ex_paging_def ex_caller_def ex_surroundings_def)

lemma ex_call_ok: "sched_ok ex_call_tasks"
  by (auto simp: sched_ok_def slot_ok_def ex_call_tasks_def ex_tasks_def ex_caller_def ex_process_def less_Suc_eq nth_Cons')

section \<open>Calls and the scheduler\<close>

text \<open>C14: Whatever a process asks of the kernel, the call is a sequence of the steps of the scheduler: it
  does its work, ends or yields, starts a program or lets the clock tick. The invariant of the table
  of processes therefore holds after every system call.\<close>

theorem system_call_is_steps:
  assumes "handleInterrupt en a s = Some (v, t)"
    and "\<forall>s t. 0 < en_rounds en \<longrightarrow> en_others en s = Some t \<longrightarrow> sched_step\<^sup>*\<^sup>* (kn_tasks s) (kn_tasks t)"
    and "sched_ok (kn_tasks s)"
  shows "sched_step\<^sup>*\<^sup>* (kn_tasks s) (kn_tasks t) \<and> sched_ok (kn_tasks t)"
proof -
  have "steps.others_follow en" using assms(2) by (simp add: steps.others_follow_def task_steps_def)
  then have "sched_step\<^sup>*\<^sup>* (kn_tasks s) (kn_tasks t)" using assms(1) by (rule handleInterrupt_steps [rotated])
  moreover from this have "sched_ok (kn_tasks t)"
    by induction (use assms(3) sched_step_ok in auto)
  ultimately show ?thesis by blast
qed

text \<open>\<open>getpid\<close>.\<close>

lemma ex_getpid: "handleInterrupt ex_surroundings 0x500 (ex_kernel 20 0 0 0) = Some (0x500, answer 0 (ex_kernel 20 0 0 0))"
  by (simp add: handleInterrupt_def run_handler_def systemCallHandlers_def handleGetPid_def)
    (simp add: caller_def answer_def ex_kernel_def ex_call_tasks_def ex_tasks_def getCurrentProcess_def rd_at_def ex_caller_def ex_process_def)

theorem system_call_is_steps_witness:
  "\<exists>v t. handleInterrupt ex_surroundings 0x500 (ex_kernel 20 0 0 0) = Some (v, t) \<and> sched_ok (kn_tasks t)"
  using system_call_is_steps [OF ex_getpid] ex_call_ok ex_getpid by fastforce

text \<open>C15: A system call that stays within what is modelled leaves the kernel's record of every other process
  as it is: state, priority, age, registers, directory, pages, break, descriptors, environment, output
  and list of windows. A program that it starts is put behind them. This is about the records only: the
  frames behind the pages of another process and its windows are not protected, since a pointer is
  only asked to be mapped and a window is closed whoever it belongs to, and a call that follows a
  pointer into the kernel's own objects leaves the model.\<close>

theorem calls_leave_others_alone:
  assumes "run_handler en s = Some t" and "\<forall>s t. 0 < en_rounds en \<longrightarrow> en_others en s = Some t \<longrightarrow> others_same s t"
    and "j \<noteq> unat (currentIndex (kn_tasks s))" and "j < length (processes (kn_tasks s))"
  shows "j < length (processes (kn_tasks t)) \<and> processes (kn_tasks t) ! j = processes (kn_tasks s) ! j"
proof -
  have "isolation.others_follow en" using assms(2) by (simp add: isolation.others_follow_def)
  then have "others_same s t" using assms(1) by (rule isolation.run_handler_R [rotated])
  then show ?thesis using assms(3,4) by (auto simp: others_same_def rd_at_def split: if_splits)
qed

lemma ex_exit: "run_handler ex_surroundings (ex_kernel 1 5 0 0) = with_caller (terminate 5) (ex_kernel 1 5 0 0)"
  by (simp add: run_handler_def systemCallHandlers_def handleExit_def)

theorem calls_leave_others_alone_witness:
  "\<exists>t. run_handler ex_surroundings (ex_kernel 1 5 0 0) = Some t \<and> processes (kn_tasks t) ! 1 = ex_process 1 Ready"
proof -
  have c: "getCurrentProcess ex_call_tasks = Some ex_caller" "unat (currentIndex ex_call_tasks) = 0"
    "processes ex_call_tasks = [ex_caller, ex_process 1 Ready]"
    by (simp_all add: ex_call_tasks_def ex_tasks_def getCurrentProcess_def rd_at_def)
  then obtain t where t: "run_handler ex_surroundings (ex_kernel 1 5 0 0) = Some t"
    by (simp add: ex_exit with_caller_def update_current_def)
  show ?thesis using calls_leave_others_alone [OF t, of 1] t c by simp
qed

text \<open>What bounds the property: the pages of the kernel are mapped for every process and the check of a
  pointer asks for no more, so that a call can be given an address of the kernel's own objects and goes
  on to write there.\<close>

lemma call_writes_kernel_objects:
  assumes "r_eax (kn_regs s) = 228" and "isValidAddress_call (r_esi (kn_regs s)) s = Some (True, s)"
    and "user_address (r_esi (kn_regs s)) s = Some pa" and "pa \<in> kn_own s"
  shows "run_handler en s = None"
proof -
  have "user_put (r_esi (kn_regs s)) b s = None" for b using assms(3,4) by (simp add: user_put_def)
  then have n: "user_store (r_esi (kn_regs s)) bs s = None" if "bs \<noteq> []" for bs using that by (cases bs) simp_all
  have "user_store (r_esi (kn_regs s)) (bytes64 x @ bytes64 y) s = None" for x y
    by (rule n) (simp add: bytes64_def bytes32_def)
  moreover have "map_of (systemCallHandlers en) 228 = Some handleGetTime" by (simp add: systemCallHandlers_def)
  ultimately show ?thesis using assms(1,2) by (simp add: run_handler_def handleGetTime_def guarded_def Let_def)
qed

section \<open>Bad pointers\<close>

text \<open>The pointers a call checks before it does anything, by its number; one that may be null is only
  checked when it is not.\<close>

definition optional :: "u32 \<Rightarrow> u32 list" where
  "optional a = (if a = 0 then [] else [a])"

definition checked_pointers :: "cpu_regs \<Rightarrow> u32 list" where
  "checked_pointers r =
     (if r_eax r \<in> {5, 10, 39, 40} then [r_ebx r]
      else if r_eax r \<in> {3, 4, 361, 362, 9502, 9503, 9504, 9600} then [r_ecx r]
      else if r_eax r = 54 then [r_edx r]
      else if r_eax r = 228 then [r_esi r]
      else if r_eax r = 141 then [r_ecx r, r_ecx r + r_edx r]
      else if r_eax r \<in> {367, 368} then [r_ecx r, r_edx r]
      else if r_eax r = 9500 then [r_ecx r, r_ebx r]
      else if r_eax r = 7 then optional (r_ecx r)
      else if r_eax r = 364 then optional (r_ecx r) @ optional (r_edx r)
      else if r_eax r = 365 then optional (r_esi r) @ optional (r_edi r)
      else if r_eax r = 366 then optional (r_esi r)
      else if r_eax r = 369 then r_ecx r # optional (r_edi r)
      else if r_eax r = 371 then r_ecx r # optional (r_edi r) @ optional (r_ebp r)
      else if r_eax r = 407 then r_edx r # optional (r_esi r)
      else [])"

text \<open>\<open>initWindow\<close> reads its record before it checks its second pointer.\<close>

definition record_readable :: "'x kernel \<Rightarrow> bool" where
  "record_readable s =
     (r_eax (kn_regs s) = 9500 \<longrightarrow> (\<forall>i \<in> {0, 4, 8, 12}. user_u32 (r_ecx (kn_regs s) + i) s \<noteq> None))"

definition only_ended :: "process \<Rightarrow> 'x kernel \<Rightarrow> 'x kernel \<Rightarrow> bool" where
  "only_ended p s t =
     (kn_tasks t = put_process (unat (currentIndex (kn_tasks s))) (terminate (- 14) p) (kn_tasks s) \<and>
      kn_files t = kn_files s \<and> kn_net t = kn_net s \<and> kn_heap t = kn_heap s)"

text \<open>A pointer of the caller, as the check sees it: mapped, or not.\<close>

definition pointer_check :: "'x kernel \<Rightarrow> u32 \<Rightarrow> bool option" where
  "pointer_check s a =
     do { p \<leftarrow> caller s; d \<leftarrow> dirs (k_paging (kn_tasks s)) (pr_dir p); isAddressValid d a (k_paging (kn_tasks s)) }"

lemma guarded_ends:
  assumes "caller s = Some p" and "pointer_check s a = Some v" and "v \<Longrightarrow> \<exists>t. body s = Some t \<and> only_ended p s t"
  shows "\<exists>t. guarded e a body s = Some t \<and> only_ended p s t"
  using assms
  by (cases v; cases e) (auto simp: pointer_check_def guarded_def isValidAddress_call_def with_caller_def update_current_def
      caller_def only_ended_def answer_def split: Option.bind_splits)

lemma guarded_opt_ends:
  assumes "caller s = Some p" and "a \<noteq> 0 \<Longrightarrow> pointer_check s a = Some v"
    and "a = 0 \<or> v \<Longrightarrow> \<exists>t. body s = Some t \<and> only_ended p s t"
  shows "\<exists>t. guarded_opt e a body s = Some t \<and> only_ended p s t"
  using assms guarded_ends [OF assms(1), of a v body "Some e"] by (cases "a = 0") (simp_all add: guarded_opt_def)

lemma handlers:
  "map_of (systemCallHandlers en) 3 = Some handleRead" "map_of (systemCallHandlers en) 4 = Some handleWrite"
  "map_of (systemCallHandlers en) 141 = Some handleGetdents" "map_of (systemCallHandlers en) 361 = Some handleBind"
  "map_of (systemCallHandlers en) 362 = Some handleConnect" "map_of (systemCallHandlers en) 367 = Some handleGetsockname"
  "map_of (systemCallHandlers en) 368 = Some handleGetpeername" "map_of (systemCallHandlers en) 369 = Some (handleSendto (en_poll en))"
  "map_of (systemCallHandlers en) 371 = Some handleRecvfrom" "map_of (systemCallHandlers en) 9500 = Some (handleInitWindow (en_pages en))"
  "map_of (systemCallHandlers en) 9502 = Some handleNextKeyboardEvent" "map_of (systemCallHandlers en) 9503 = Some handleNextMouseEvent"
  "map_of (systemCallHandlers en) 9504 = Some handleGetWindowStatus" "map_of (systemCallHandlers en) 9600 = Some (handleSpawn en)"
  "map_of (systemCallHandlers en) 5 = Some handleOpen" "map_of (systemCallHandlers en) 10 = Some handleUnlink"
  "map_of (systemCallHandlers en) 39 = Some handleMkdir" "map_of (systemCallHandlers en) 40 = Some handleRmdir"
  "map_of (systemCallHandlers en) 54 = Some handleIoctl" "map_of (systemCallHandlers en) 407 = Some (handleClockNanoSleep64 en)"
  "map_of (systemCallHandlers en) 228 = Some handleGetTime" "map_of (systemCallHandlers en) 7 = Some (handleWaitPID en)"
  "map_of (systemCallHandlers en) 364 = Some handleAccept" "map_of (systemCallHandlers en) 365 = Some handleGetsockopt"
  "map_of (systemCallHandlers en) 366 = Some handleSetsockopt"
  unfolding systemCallHandlers_def by simp_all

lemmas handler_starts = handleRead_def handleWrite_def handleGetdents_def handleBind_def handleConnect_def handle_address_call_def
  handleGetsockname_def handleGetpeername_def handle_name_call_def handleSendto_def handleRecvfrom_def handleInitWindow_def
  handleNextKeyboardEvent_def handleNextMouseEvent_def handleGetWindowStatus_def handleSpawn_def handleOpen_def handleUnlink_def
  handleMkdir_def handleRmdir_def remove_call_def handleIoctl_def handleClockNanoSleep64_def handleGetTime_def handleWaitPID_def
  handleAccept_def handleGetsockopt_def handleSetsockopt_def

text \<open>With every pointer of a call either good or bad, one bad one is enough, whichever it is.\<close>

lemma bad_pointer_calls:
  fixes s :: "'x kernel"
  assumes c: "caller s = Some p" and k: "\<forall>a \<in> set (checked_pointers (kn_regs s)). pointer_check s a = Some (v a)"
    and b: "\<exists>a \<in> set (checked_pointers (kn_regs s)). \<not> v a" and r: "record_readable s"
  shows "\<exists>t. run_handler en s = Some t \<and> only_ended p s t"
proof -
  consider "r_eax (kn_regs s) \<in> {5, 10, 39, 40}" | "r_eax (kn_regs s) \<in> {3, 4, 361, 362, 9502, 9503, 9504, 9600}"
    | "r_eax (kn_regs s) \<in> {54, 228, 141}" | "r_eax (kn_regs s) \<in> {367, 368}" | "r_eax (kn_regs s) = 9500"
    | "r_eax (kn_regs s) \<in> {7, 364, 365, 366}" | "r_eax (kn_regs s) \<in> {369, 371, 407}"
    using b by (auto simp: checked_pointers_def split: if_splits)
  then show ?thesis
  proof cases
    case 1
    then show ?thesis using k b
      by (elim insertE emptyE; simp add: run_handler_def handlers Let_def handler_starts checked_pointers_def)
        (rule guarded_ends [OF c], assumption, simp)+
  next
    case 2
    then show ?thesis using k b
      by (elim insertE emptyE; simp add: run_handler_def handlers Let_def handler_starts checked_pointers_def)
        (rule guarded_ends [OF c], assumption, simp)+
  next
    case 3
    then show ?thesis using k b
      by (elim insertE emptyE; simp add: run_handler_def handlers Let_def handler_starts checked_pointers_def)
        (auto intro!: guarded_ends [OF c])
  next
    case 4
    then show ?thesis using k b
      by (elim insertE emptyE; simp add: run_handler_def handlers Let_def handler_starts checked_pointers_def)
        (auto intro!: guarded_ends [OF c])
  next
    case 5
    then show ?thesis using k b r
      by (simp add: run_handler_def handlers Let_def handler_starts checked_pointers_def record_readable_def)
        (auto intro!: guarded_ends [OF c])
  next
    case 6
    then show ?thesis using k b
      by (elim insertE emptyE; simp add: run_handler_def handlers Let_def handler_starts checked_pointers_def optional_def)
        (auto intro!: guarded_opt_ends [OF c] split: if_splits)
  next
    case 7
    then show ?thesis using k b
      by (elim insertE emptyE; simp add: run_handler_def handlers Let_def handler_starts checked_pointers_def optional_def)
        (auto intro!: guarded_ends [OF c] guarded_opt_ends [OF c] split: if_splits)
  qed
qed

text \<open>C16: A call that is given an unmapped pointer where it checks its pointers ends the caller, with the
  exit code \<open>-EFAULT\<close>, and does nothing else: no file, no socket, no memory and no other process
  changes. This holds for each of the pointers the call checks before it starts its work, the second
  and the optional ones too. What is checked is the page of the first byte; the vectors of arguments and
  the environment of \<open>posix_spawn\<close> are not checked at all, and its pointer to the process number only
  after the program has been started.\<close>

theorem bad_pointer_ends_caller:
  assumes "caller s = Some p" and "\<forall>a \<in> set (checked_pointers (kn_regs s)). pointer_check s a \<noteq> None"
    and "\<exists>a \<in> set (checked_pointers (kn_regs s)). pointer_check s a = Some False" and "record_readable s"
  shows "\<exists>t. run_handler en s = Some t \<and> only_ended p s t"
proof (rule bad_pointer_calls [OF assms(1) _ _ assms(4)])
  show "\<forall>a \<in> set (checked_pointers (kn_regs s)). pointer_check s a = Some (the (pointer_check s a))" using assms(2) by auto
  show "\<exists>a \<in> set (checked_pointers (kn_regs s)). \<not> the (pointer_check s a)" using assms(3) by force
qed

lemma ex_valid: "isAddressValid ex_page_dir va (k_paging ex_call_tasks) = Some (va \<noteq> 0 \<and> (page_index va = 3 \<or> page_index va = 4))"
  if "unat va < 4194304" for va
proof -
  have "table_index va = 0"
    using that by (simp add: table_index_def drop_bit_eq_div word_unat_eq_iff unat_div)
  then show ?thesis
    by (simp add: isAddressValid_def ex_page_dir_def rd_at_def ex_call_tasks_def ex_pages_def zero_entry_def)
qed

text \<open>\<open>getsockname\<close> with a good pointer for the address and a bad one for its length.\<close>

theorem bad_pointer_ends_caller_witness:
  "\<exists>t. run_handler ex_surroundings (ex_kernel 367 1 0x3000 0x9000) = Some t \<and>
     only_ended ex_caller (ex_kernel 367 1 0x3000 0x9000) t"
proof -
  let ?s = "ex_kernel 367 1 0x3000 0x9000"
  have f: "checked_pointers (kn_regs ?s) = [0x3000, 0x9000]" by (simp add: checked_pointers_def)
  have v: "pointer_check ?s 0x3000 = Some True" "pointer_check ?s 0x9000 = Some False"
    using ex_valid [of "0x3000"] ex_valid [of "0x9000"] by (simp_all add: pointer_check_def page_index_def drop_bit_eq_div)
  have r: "record_readable ?s" by (simp add: record_readable_def)
  show ?thesis by (rule bad_pointer_ends_caller [where s = ?s, OF _ _ _ r]) (simp_all add: f v del: not_None_eq)
qed

text \<open>The pointer to the process number of \<open>posix_spawn\<close>: when it is bad the caller is ended, but the
  program runs by then, and the answer is that of a success.\<close>

lemma bad_pid_pointer_too_late:
  assumes "r_eax (kn_regs s) = 9600" and "isValidAddress_call (r_ecx (kn_regs s)) s = Some (True, s)"
    and "user_pointers (r_edx (kn_regs s)) s = Some argv" and "user_string (r_ecx (kn_regs s)) s = Some name"
    and "on_files (fs_getInodeByPath name) s = Some (inode, s1)" and "inode \<noteq> 0"
    and "start_program en inode argv (r_esi (kn_regs s1)) s1 = Some (Inr (Some i), s2)"
    and "rd_at (processes (kn_tasks s2)) i = Some child" and "caller s2 = Some p"
    and "pointer_check s2 (r_ebx (kn_regs s)) = Some False"
  shows "\<exists>t. run_handler en s = Some t \<and> only_ended p s2 t \<and> r_eax (kn_regs t) = 0"
  using assms
  by (auto simp: run_handler_def handlers handleSpawn_def guarded_def Let_def pointer_check_def isValidAddress_call_def
      with_caller_def update_current_def caller_def only_ended_def answer_def split: Option.bind_splits)

text \<open>C21: A path is checked against the pages of the caller but read through those of the kernel. When
  \<open>open\<close>, \<open>unlink\<close>, \<open>mkdir\<close> or \<open>rmdir\<close> gets a path in a page that the caller has and the kernel has not (the
  segments of a program loaded from a file are such pages), the call faults inside the kernel, which stops.\<close>

theorem valid_path_stops_kernel:
  assumes "r_eax (kn_regs s) \<in> {5, 10, 39, 40}" and "caller s = Some p"
    and "dirs (k_paging (kn_tasks s)) (pr_dir p) = Some d"
    and "isAddressValid d (r_ebx (kn_regs s)) (k_paging (kn_tasks s)) = Some True"
    and "user_address (r_ebx (kn_regs s)) s = None"
  shows "run_handler en s = None"
proof -
  have v: "isValidAddress_call (r_ebx (kn_regs s)) s = Some (True, s)"
    using assms(2-4) by (simp add: isValidAddress_call_def)
  have "user_string (r_ebx (kn_regs s)) s = None"
    using assms(5) by (simp add: user_string.simps [of "r_ebx (kn_regs s)"] user_byte_def)
  then show ?thesis using assms(1) v
    by (elim insertE emptyE; simp add: run_handler_def handlers Let_def handleOpen_def handleUnlink_def handleMkdir_def
        handleRmdir_def remove_call_def guarded_def)
qed

text \<open>The caller of the example, with a directory of the kernel that does not have the page \<open>0x3000\<close>.\<close>

definition ex_kernel_dir :: paging_dir where
  "ex_kernel_dir = \<lparr>pageTables = replicate 1024 0, pageDirectory = replicate 1024 zero_entry, pagesCount = 0\<rparr>"

definition ex_opening :: "unit kernel" where
  "ex_opening = (ex_kernel 5 0x3000 0 0)\<lparr>kn_tasks := ex_call_tasks\<lparr>k_paging := set_dir 0x5000 ex_kernel_dir ex_pages\<rparr>\<rparr>"

theorem valid_path_stops_kernel_witness:
  "run_handler ex_surroundings ex_opening = None \<and> isAddressValid ex_page_dir 0x3000 (k_paging (kn_tasks ex_opening)) = Some True"
proof -
  have k: "k_dir (kn_tasks ex_opening) = 0x5000" "dirs (k_paging (kn_tasks ex_opening)) 0x5000 = Some ex_kernel_dir"
    by (simp_all add: ex_opening_def ex_call_tasks_def ex_tasks_def set_dir_def)
  have "table_index 0x3000 = 0" by (simp add: table_index_def)
  then have u: "user_address 0x3000 ex_opening = None"
    by (simp add: user_address_def k getPhysicalAddress_def ex_kernel_dir_def rd_at_def zero_entry_def)
  have c: "caller ex_opening = Some ex_caller" "r_eax (kn_regs ex_opening) \<in> {5, 10, 39, 40}" "r_ebx (kn_regs ex_opening) = 0x3000"
    "dirs (k_paging (kn_tasks ex_opening)) (pr_dir ex_caller) = Some ex_page_dir"
    by (simp_all add: ex_opening_def ex_kernel_def caller_def getCurrentProcess_def rd_at_def ex_call_tasks_def ex_tasks_def
        ex_pages_def set_dir_def ex_paging_def ex_caller_def)
  have v: "isAddressValid ex_page_dir 0x3000 (k_paging (kn_tasks ex_opening)) = Some True"
  proof -
    have "entry_at (k_paging (kn_tasks ex_opening)) = entry_at (k_paging ex_call_tasks)"
      by (simp add: ex_opening_def ex_call_tasks_def set_dir_def)
    then have "isAddressValid ex_page_dir 0x3000 (k_paging (kn_tasks ex_opening)) = isAddressValid ex_page_dir 0x3000 (k_paging ex_call_tasks)"
      by (simp only: isAddressValid_def)
    then show ?thesis using ex_valid [of "0x3000"] by (simp add: page_index_def drop_bit_eq_div)
  qed
  show ?thesis using valid_path_stops_kernel [OF c(2,1,4)] c(3) v u by simp
qed

section \<open>The data segment\<close>

definition brk_ok :: "process \<Rightarrow> bool" where
  "brk_ok p = (pr_initial_brk p \<le> pr_current_brk p \<and> pr_current_brk p \<le> pr_max_brk p)"

definition same_brk :: "process \<Rightarrow> process \<Rightarrow> bool" where
  "same_brk p q = (pr_initial_brk q = pr_initial_brk p \<and> pr_current_brk q = pr_current_brk p \<and> pr_max_brk q = pr_max_brk p)"

lemma caller_put:
  assumes "caller s = Some p" and "table_view u = table_view (kn_tasks s)"
  shows "getCurrentProcess (put_process (unat (currentIndex u)) q u) = Some q"
  using assms by (auto simp: caller_def getCurrentProcess_def rd_at_def put_process_def table_view_def split: if_splits)

lemma with_caller_caller:
  assumes "caller s = Some p"
  shows "\<exists>t. with_caller f s = Some t \<and> caller t = Some (f p) \<and> kn_regs t = kn_regs s"
  using assms caller_put [OF assms refl] by (simp add: with_caller_def update_current_def caller_def)

lemma answer_fields [simp]: "caller (answer v s) = caller s" "r_eax (kn_regs (answer v s)) = v" "kn_tasks (answer v s) = kn_tasks s"
  by (simp_all add: answer_def caller_def)

lemma map_at_brk:
  assumes "on_caller (allocatePagesAt k v n) s = Some (a, t)" and "caller s = Some p"
  shows "\<exists>q. caller t = Some q \<and> same_brk p q"
proof -
  obtain q u where f: "allocatePagesAt k v n (p, kn_tasks s) = Some (a, q, u)"
    and t: "t = s\<lparr>kn_tasks := put_process (unat (currentIndex u)) q u\<rparr>"
    using assms by (auto simp: on_caller_def split: Option.bind_splits)
  have "table_view u = table_view (kn_tasks s)" using allocatePagesAt_view [OF f] by (simp add: task_view_def)
  then have "caller t = Some q" using caller_put [OF assms(2)] by (simp add: t caller_def)
  moreover have "same_brk p q"
    using f by (auto simp: allocatePagesAt_def allocatePagesAt_with_def registerPages_def same_brk_def Let_def
        split: Option.bind_splits)
  ultimately show ?thesis by blast
qed

text \<open>Rounding up to pages reaches the request and does not wrap.\<close>

lemma grown_max:
  assumes "m < r" and "r \<le> (0xFFFFF000 :: u32)"
  shows "r \<le> m + brk_pages r m * 4096"
proof -
  have le: "unat m < unat r" "unat r \<le> 4294963200" using assms by (simp_all add: word_less_nat_alt word_le_nat_alt)
  define d where "d = unat r - unat m"
  have "unat (r - m) = d" using assms(1) by (simp add: d_def unat_sub_le less_imp_le)
  then have s: "unat (r - m + 4095) = d + 4095" using le by (subst unat_add_small) (auto simp: d_def)
  have "(d + 4095) div 4096 * 4096 + (d + 4095) mod 4096 = d + 4095" "(d + 4095) mod 4096 < 4096" by simp_all
  then have q: "(d + 4095) div 4096 * 4096 \<le> d + 4095" "d \<le> (d + 4095) div 4096 * 4096" by linarith+
  have "unat ((r - m + 4095) div 4096 * 4096) = (d + 4095) div 4096 * 4096"
    using q(1) le by (subst unat_mult_small) (simp_all add: unat_div s d_def)
  moreover have "brk_pages r m = (r - m + 4095) div 4096" by (simp add: brk_pages_def add.commute)
  ultimately have "unat (m + brk_pages r m * 4096) = unat m + (d + 4095) div 4096 * 4096"
    using q(1) le by (subst unat_add_small) (simp_all add: d_def)
  then show ?thesis using q(2) le by (simp add: word_le_nat_alt d_def)
qed

text \<open>C17: \<open>brk\<close> keeps the end of the data segment between its start and the end of the pages behind it.
  It answers with the new end, or with \<open>-1\<close> and no change: below the start always, above the pages
  when there is no memory. Zero asks for the end.\<close>

theorem brk_stays_mapped:
  assumes "handleBrk k s = Some t" and "caller s = Some p" and "brk_ok p" and "r_ebx (kn_regs s) \<le> 0xFFFFF000"
  shows "\<exists>q. caller t = Some q \<and> brk_ok q \<and> pr_initial_brk q = pr_initial_brk p \<and>
    (if r_ebx (kn_regs s) = 0 then r_eax (kn_regs t) = pr_current_brk p \<and> same_brk p q
     else if r_ebx (kn_regs s) < pr_initial_brk p then r_eax (kn_regs t) = - 1 \<and> same_brk p q
     else r_eax (kn_regs t) = r_ebx (kn_regs s) \<and> pr_current_brk q = r_ebx (kn_regs s) \<or>
       pr_max_brk p < r_ebx (kn_regs s) \<and> r_eax (kn_regs t) = - 1 \<and> same_brk p q)"
proof -
  let ?r = "r_ebx (kn_regs s)" and ?n = "brk_pages (r_ebx (kn_regs s)) (pr_max_brk p)"
  have ok: "pr_initial_brk p \<le> pr_current_brk p" "pr_current_brk p \<le> pr_max_brk p" using assms(3) by (simp_all add: brk_ok_def)
  consider "?r = 0" | "?r \<noteq> 0" "pr_initial_brk p \<le> ?r" "?r \<le> pr_max_brk p" | "?r \<noteq> 0" "pr_max_brk p < ?r"
    | "?r \<noteq> 0" "?r < pr_initial_brk p" by force
  then show ?thesis
  proof cases
    case 1
    then show ?thesis using assms(1,2,3) by (auto simp: handleBrk_def same_brk_def)
  next
    case 2
    obtain u where u: "with_caller (set_brk ?r) (answer ?r s) = Some u" "caller u = Some (set_brk ?r p)"
      "kn_regs u = kn_regs (answer ?r s)"
      using with_caller_caller [of "answer ?r s" p "set_brk ?r"] assms(2) by auto
    have "t = u" using assms(1,2) 2 u(1) by (simp add: handleBrk_def Let_def)
    then show ?thesis using 2 u by (auto simp: set_brk_def brk_ok_def)
  next
    case 3
    obtain a u where u: "on_caller (allocatePagesAt k (pr_max_brk p) ?n) s = Some (a, u)"
      and t: "(if a \<noteq> 0 then with_caller (\<lambda>p. set_brk ?r (p\<lparr>pr_max_brk := pr_max_brk p + ?n * 4096\<rparr>)) (answer ?r u)
        else Some (answer (- 1) u)) = Some t"
      using assms(1,2) 3 by (auto simp: handleBrk_def Let_def not_le [symmetric] split: Option.bind_splits)
    obtain q where q: "caller u = Some q" "same_brk p q" using map_at_brk [OF u assms(2)] by blast
    have i: "pr_initial_brk p \<le> ?r" using ok 3 by (meson order.trans less_imp_le)
    show ?thesis
    proof (cases "a = 0")
      case True
      then have "t = answer (- 1) u" using t by simp
      then show ?thesis using q 3 assms(3) i by (auto simp: same_brk_def brk_ok_def)
    next
      case False
      let ?f = "\<lambda>p. set_brk ?r (p\<lparr>pr_max_brk := pr_max_brk p + ?n * 4096\<rparr>)"
      obtain v where v: "with_caller ?f (answer ?r u) = Some v" "caller v = Some (?f q)" "kn_regs v = kn_regs (answer ?r u)"
        using with_caller_caller [of "answer ?r u" q ?f] q(1) by auto
      have "t = v" using t False v(1) by simp
      moreover have "?r \<le> pr_max_brk p + ?n * 4096" by (rule grown_max [OF 3(2) assms(4)])
      ultimately show ?thesis using v(2,3) q(2) i 3(1) by (auto simp: set_brk_def brk_ok_def same_brk_def)
    qed
  next
    case 4
    have n: "\<not> pr_max_brk p < ?r" "\<not> pr_initial_brk p \<le> ?r" using ok 4(2) by (meson less_trans not_less order.trans less_imp_le)+
    show ?thesis using assms(1,2,3) 4 n by (auto simp: handleBrk_def Let_def same_brk_def)
  qed
qed

theorem brk_stays_mapped_witness:
  "\<exists>t q. handleBrk 100 (ex_kernel 45 0x4800 0 0) = Some t \<and> caller t = Some q \<and> pr_current_brk q = 0x4800 \<and> brk_ok q"
proof -
  have c: "pr_initial_brk ex_caller = 0x3000" "pr_max_brk ex_caller = 0x5000" "pr_current_brk ex_caller = 0x3000"
    by (simp_all add: ex_caller_def)
  obtain t where t: "handleBrk 100 (ex_kernel 45 0x4800 0 0) = Some t"
    using with_caller_caller [of "answer 0x4800 (ex_kernel 45 0x4800 0 0)" ex_caller "set_brk 0x4800"]
    by (auto simp: handleBrk_def c)
  have "brk_ok ex_caller" "r_ebx (kn_regs (ex_kernel 45 0x4800 0 0)) \<le> 0xFFFFF000" by (simp_all add: brk_ok_def c)
  then show ?thesis using brk_stays_mapped [OF t ex_kernel_fields(5)] t by (auto simp: c)
qed

section \<open>Output\<close>

text \<open>C19: A write to the standard output appends exactly the bytes before the first zero byte of the run of
  physical memory that starts at the frame of the buffer, counts them in \<open>eax\<close> and changes nothing
  else. These are the caller's bytes as long as the frames of the buffer are next to each other.\<close>

theorem write_takes_physical_run:
  assumes "r_ebx (kn_regs s) = 1" and "caller s = Some p" and "dirs (k_paging (kn_tasks s)) (pr_dir p) = Some d"
    and "isAddressValid d (r_ecx (kn_regs s)) (k_paging (kn_tasks s)) = Some True"
    and "physical (r_ecx (kn_regs s)) s = Some pa"
  defines "out \<equiv> takeWhile (\<lambda>c. c \<noteq> 0) (load_bytes pa (unat (r_edx (kn_regs s))) (k_mem (kn_tasks s)))"
  shows "handleWrite s = Some (s\<lparr>kn_regs := (kn_regs s)\<lparr>r_eax := of_nat (length out)\<rparr>,
      kn_tasks := put_process (unat (currentIndex (kn_tasks s))) (p\<lparr>pr_stdout := pr_stdout p @ out\<rparr>) (kn_tasks s)\<rparr>) \<and>
    (\<forall>bs. caller_load (r_ecx (kn_regs s)) (unat (r_edx (kn_regs s))) s = Some bs \<longrightarrow>
       (\<forall>i < unat (r_edx (kn_regs s)). pa + of_nat i \<noteq> 0 \<and> physical (r_ecx (kn_regs s) + of_nat i) s = Some (pa + of_nat i)) \<longrightarrow>
       out = takeWhile (\<lambda>c. c \<noteq> 0) bs)"
proof -
  have "isValidAddress_call (r_ecx (kn_regs s)) s = Some (True, s)"
    using assms(2-4) by (simp add: isValidAddress_call_def)
  then have "handleWrite s = with_caller (\<lambda>p. p\<lparr>pr_stdout := pr_stdout p @ out\<rparr>) (answer (of_nat (length out)) s)"
    using assms(1,5) by (simp add: handleWrite_def guarded_def out_def Let_def)
  moreover have "bs = load_bytes pa n (k_mem (kn_tasks s))"
    if "caller_load a n s = Some bs" and "\<forall>i < n. pa + of_nat i \<noteq> 0 \<and> physical (a + of_nat i) s = Some (pa + of_nat i)" for a n bs
  proof -
    have "map (\<lambda>i. caller_byte (a + of_nat i) s) [0..<n] = map Some (load_bytes pa n (k_mem (kn_tasks s)))"
      using that(2) by (simp add: caller_byte_def load_bytes_def)
    moreover have "those (map Some xs) = Some xs" for xs :: bytes by (induction xs) simp_all
    ultimately show ?thesis using that(1) by (simp add: caller_load_def)
  qed
  ultimately show ?thesis
    using assms(2) by (auto simp: out_def with_caller_def update_current_def caller_def answer_def)
qed

text \<open>The caller has \<open>A\<close> at the end of one page and \<open>B\<close> at the start of the next; only \<open>A\<close> is written.\<close>

theorem write_takes_physical_run_witness:
  "\<exists>t q. handleWrite (ex_kernel 4 1 0x3FFF 2) = Some t \<and> caller t = Some q \<and> pr_stdout q = [0x41] \<and>
     caller_byte 0x3FFF (ex_kernel 4 1 0x3FFF 2) = Some 0x41 \<and> caller_byte 0x4000 (ex_kernel 4 1 0x3FFF 2) = Some 0x42"
proof -
  let ?s = "ex_kernel 4 1 0x3FFF 2"
  have i: "page_index 0x3FFF = 3" "page_index 0x4000 = 4" by (simp_all add: page_index_def drop_bit_eq_div)
  have v: "isAddressValid ex_page_dir (r_ecx (kn_regs ?s)) (k_paging (kn_tasks ?s)) = Some True"
    using ex_valid [of "0x3FFF"] i by simp
  have t: "has_table ex_page_dir 0x3FFF" "table_of ex_page_dir 0x3FFF = 0x5000" "has_table ex_page_dir 0x4000"
    "table_of ex_page_dir 0x4000 = 0x5000" using ex_has_table [of "0x3FFF"] ex_has_table [of "0x4000"] by simp_all
  have pa: "physical 0x3FFF ?s = Some 0x4FFF" "physical 0x4000 ?s = Some 0x9000"
    by (simp_all add: physical_def translate_eq [OF ex_page_dir_ok] t i ex_call_tasks_def ex_pages_def entry_address_def push_bit_eq_mult)
  have mem: "k_mem ex_call_tasks 0x4FFF = 0x41" "k_mem ex_call_tasks 0x5000 = 0" "k_mem ex_call_tasks 0x9000 = 0x42"
    by (simp_all add: ex_call_tasks_def)
  have "[0..<2] = [0, 1]" by (simp add: upt_rec)
  then have out: "load_bytes 0x4FFF 2 (k_mem ex_call_tasks) = [0x41, 0]" by (simp add: load_bytes_def mem)
  have pc: "processes ex_call_tasks = [ex_caller, ex_process 1 Ready]" "currentIndex ex_call_tasks = 0"
    by (simp_all add: ex_call_tasks_def ex_tasks_def)
  have one: "r_ebx (kn_regs ?s) = 1" "dirs (k_paging (kn_tasks ?s)) (pr_dir ex_caller) = Some ex_page_dir" by simp_all
  have ph: "physical (r_ecx (kn_regs ?s)) ?s = Some 0x4FFF" using pa(1) by simp
  have "pr_stdout ex_caller = []" by (simp add: ex_caller_def ex_process_def)
  then show ?thesis
    using write_takes_physical_run [OF one(1) ex_kernel_fields(5) one(2) v ph] pa
    by (auto simp: out mem pc caller_byte_def caller_def getCurrentProcess_def rd_at_def put_process_def)
qed

section \<open>Waiting\<close>

fun rounds :: "('x kernel \<Rightarrow> 'x kernel option) \<Rightarrow> nat \<Rightarrow> 'x kernel \<Rightarrow> 'x kernel option" where
  "rounds others 0 s = Some s"
| "rounds others (Suc n) s = do { s \<leftarrow> others s; rounds others n s }"

lemma wait_for_reaches:
  assumes "rounds others n s = Some u" and "P u" and "\<forall>m v. m < n \<longrightarrow> rounds others m s = Some v \<longrightarrow> \<not> P v" and "n \<le> k"
  shows "wait_for k P others s = Some u"
  using assms
proof (induction n arbitrary: k s)
  case 0
  then show ?case by (cases k) auto
next
  case (Suc n)
  obtain v where v: "others s = Some v" "rounds others n v = Some u" using Suc.prems(1) by (auto split: Option.bind_splits)
  obtain j where k: "k = Suc j" using Suc.prems(4) by (cases k) auto
  have "\<not> P s" using Suc.prems(3) by (auto dest: spec [of _ 0])
  moreover have "\<forall>m w. m < n \<longrightarrow> rounds others m v = Some w \<longrightarrow> \<not> P w"
  proof (intro allI impI)
    fix m w assume "m < n" and "rounds others m v = Some w"
    then have "Suc m < Suc n" "rounds others (Suc m) s = Some w" using v(1) by simp_all
    then show "\<not> P w" using Suc.prems(3) by blast
  qed
  then have "wait_for j P others v = Some u" using Suc.IH [OF v(2) Suc.prems(2)] Suc.prems(4) k by simp
  ultimately show ?case using v(1) k by simp
qed

text \<open>A process that waits for another returns once the other has been killed: it has then yielded
  exactly as often as it took, answers with the number it waited for and hands over the exit code the
  other left.\<close>

lemma waitpid_returns:
  assumes "getProcess (r_ebx (kn_regs s)) (kn_tasks s) \<noteq> None"
    and "r_ecx (kn_regs s) = 0 \<or> isValidAddress_call (r_ecx (kn_regs s)) s = Some (True, s)"
    and "rounds (en_others en) n s = Some u" and "n \<le> en_rounds en"
    and "getProcess (r_ebx (kn_regs s)) (kn_tasks u) = Some child" and "pr_state child = Killed"
    and "\<forall>m v. m < n \<longrightarrow> rounds (en_others en) m s = Some v \<longrightarrow> \<not> killed (r_ebx (kn_regs s)) v"
  shows "handleWaitPID en s =
    do { v \<leftarrow> (if r_ecx (kn_regs s) = 0 then Some u else user_store (r_ecx (kn_regs s)) (bytes32 (pr_exitCode child)) u);
         Some (answer (r_ebx (kn_regs s)) v) }"
proof -
  have "killed (r_ebx (kn_regs s)) u" using assms(5,6) by (simp add: killed_def)
  then have "wait_for (en_rounds en) (killed (r_ebx (kn_regs s))) (en_others en) s = Some u"
    using assms(3,4,7) by (intro wait_for_reaches) auto
  then show ?thesis
    using assms(1,2,5) by (auto simp: handleWaitPID_def guarded_opt_def guarded_def Let_def)
qed

text \<open>The second process ends while the first waits.\<close>

definition ex_reaper :: "unit kernel \<Rightarrow> unit kernel option" where
  "ex_reaper s = Some (s\<lparr>kn_tasks := put_process 1 ((ex_process 1 Killed)\<lparr>pr_exitCode := 7\<rparr>) (kn_tasks s)\<rparr>)"

lemma waitpid_returns_witness:
  "\<exists>v. handleWaitPID (ex_surroundings\<lparr>en_rounds := 3, en_others := ex_reaper\<rparr>) (ex_kernel 7 1 0 0) = Some v \<and> r_eax (kn_regs v) = 1"
proof -
  let ?s = "ex_kernel 7 1 0 0" and ?en = "ex_surroundings\<lparr>en_rounds := 3, en_others := ex_reaper\<rparr>"
  let ?u = "?s\<lparr>kn_tasks := put_process 1 ((ex_process 1 Killed)\<lparr>pr_exitCode := 7\<rparr>) (kn_tasks ?s)\<rparr>"
  have p: "processes ex_call_tasks = [ex_caller, ex_process 1 Ready]" by (simp add: ex_call_tasks_def ex_tasks_def)
  have a: "getProcess (r_ebx (kn_regs ?s)) (kn_tasks ?s) \<noteq> None" "rounds (en_others ?en) 1 ?s = Some ?u" "1 \<le> en_rounds ?en"
    "getProcess (r_ebx (kn_regs ?s)) (kn_tasks ?u) = Some ((ex_process 1 Killed)\<lparr>pr_exitCode := 7\<rparr>)"
    by (simp_all add: getProcess_def rd_at_def p put_process_def ex_reaper_def)
  have k: "pr_state ((ex_process 1 Killed)\<lparr>pr_exitCode := 7\<rparr>) = Killed" by (simp add: ex_process_def)
  have w: "\<forall>m v. m < 1 \<longrightarrow> rounds (en_others ?en) m ?s = Some v \<longrightarrow> \<not> killed (r_ebx (kn_regs ?s)) v"
    by (simp add: killed_def getProcess_def rd_at_def p ex_process_def)
  show ?thesis using waitpid_returns [OF a(1) _ a(2-4) k w] by simp
qed

section \<open>Reading a directory\<close>

definition record_bytes :: "(bytes \<times> u32) list \<Rightarrow> nat" where
  "record_bytes ds = sum_list (map (\<lambda>d. 14 + length (fst d)) ds)"

text \<open>How many of the entries fit into what is left of a buffer.\<close>

fun fitting :: "nat \<Rightarrow> (bytes \<times> u32) list \<Rightarrow> nat \<Rightarrow> nat" where
  "fitting c [] n = 0"
| "fitting c (d # ds) n =
     (if n + 14 + length (fst d) \<le> c then Suc (fitting c ds (n + 14 + length (fst d))) else 0)"

lemma user_store_view: "user_store a bs s = Some t \<Longrightarrow> table_view (kn_tasks t) = table_view (kn_tasks s)"
  by (induction a bs s rule: user_store.induct) (auto simp: user_put_def table_view_def split: Option.bind_splits if_splits)

lemma put_dirents_spec:
  "put_dirents b c ds n s = Some (k, t) \<Longrightarrow>
     k = n + record_bytes (take (fitting c ds n) ds) \<and> table_view (kn_tasks t) = table_view (kn_tasks s)"
proof (induction ds arbitrary: n s)
  case Nil
  then show ?case by (simp add: record_bytes_def)
next
  case (Cons d ds)
  obtain name x where d: "d = (name, x)" by (cases d)
  show ?case
  proof (cases "n + 14 + length name \<le> c")
    case True
    then obtain i u where u: "put_dirent (b + of_nat n) (of_nat (14 + length name)) (n + (14 + length name)) name i s = Some u"
      and r: "put_dirents b c ds (n + (14 + length name)) u = Some (k, t)"
      using Cons.prems by (auto simp: d Let_def add.commute split: if_splits Option.bind_splits)
    have "table_view (kn_tasks u) = table_view (kn_tasks s)"
      using u by (auto simp: put_dirent_def simp del: user_store.simps split: Option.bind_splits dest!: user_store_view)
    then show ?thesis using Cons.IH [OF r] True by (simp add: d record_bytes_def add.assoc)
  next
    case False
    then show ?thesis using Cons.prems by (auto simp: d Let_def record_bytes_def split: if_splits Option.bind_splits)
  qed
qed

lemma descriptor_view: "table_view (kn_tasks t) = table_view (kn_tasks s) \<Longrightarrow> descriptor_at fd t = descriptor_at fd s"
  by (simp add: descriptor_at_def caller_def getCurrentProcess_def table_view_def)

text \<open>\<open>getdents\<close> returns the records of the first entries that fit into the buffer and nothing of the
  others; but the position in the directory moves past all the entries listed, so those that did not
  fit are not returned by the next call either.\<close>

lemma getdents_skips:
  assumes "handleGetdents s = Some t" and "isValidAddress_call (r_ecx (kn_regs s)) s = Some (True, s)"
    and "isValidAddress_call (r_ecx (kn_regs s) + r_edx (kn_regs s)) s = Some (True, s)"
    and "descriptor_at (r_ebx (kn_regs s)) s = Some (Some (FileDescriptor f))"
    and "inode_of f s = Some i" and "itype i = Directory"
    and "on_files (fs_getDentries (fd_inode f) (unat (fd_offset f)) (unat (min (r_edx (kn_regs s)) 4096))) s = Some (ds, u)"
  shows "r_eax (kn_regs t) = of_nat (record_bytes (take (fitting (unat (min (r_edx (kn_regs s)) 4096)) ds 0) ds)) \<and>
    descriptor_at (r_ebx (kn_regs s)) t = Some (Some (FileDescriptor (advanceOffset (of_nat (length ds)) f)))"
proof -
  let ?fd = "r_ebx (kn_regs s)" and ?f = "advanceOffset (of_nat (length ds)) f"
  obtain p where p: "caller s = Some p" using assms(4) by (auto simp: descriptor_at_def split: Option.bind_splits)
  have "caller u = Some p"
    using assms(7) p by (auto simp: on_files_def caller_def getCurrentProcess_def split: Option.bind_splits)
  then obtain v where v: "put_file ?fd ?f u = Some v" "caller v = Some (p\<lparr>pr_fds := dt_put ?fd (FileDescriptor ?f) (pr_fds p)\<rparr>)"
    using with_caller_caller unfolding put_file_def by blast
  obtain n w where w: "put_dirents (r_ecx (kn_regs s)) (unat (min (r_edx (kn_regs s)) 4096)) ds 0 v = Some (n, w)"
    and t: "t = answer (of_nat n) w"
    using assms v(1) by (auto simp: handleGetdents_def guarded_def with_file_def Let_def split: Option.bind_splits)
  have "descriptor_at ?fd v = Some (Some (FileDescriptor ?f))"
    using v(2) by (simp add: descriptor_at_def dt_get_def dt_put_def update_conv')
  moreover note put_dirents_spec [OF w]
  ultimately show ?thesis using descriptor_view [of w v ?fd] by (auto simp: t descriptor_at_def)
qed

text \<open>The caller has the root directory open, which holds one entry, and a buffer of five bytes.\<close>

definition ex_reader :: "unit kernel" where
  "ex_reader = (ex_kernel 141 3 0x3000 5)\<lparr>kn_tasks := ex_call_tasks\<lparr>processes :=
     [ex_caller\<lparr>pr_fds := \<lparr>table = [(3, FileDescriptor (newFileDescriptor 0x1000 0))], nextFd = 4\<rparr>\<rparr>, ex_process 1 Ready]\<rparr>\<rparr>"

lemma getdents_skips_witness:
  "\<exists>t. handleGetdents ex_reader = Some t \<and> r_eax (kn_regs t) = 0 \<and>
     descriptor_at 3 t = Some (Some (FileDescriptor \<lparr>fd_inode = 0x1000, fd_offset = 1, fd_flags = 0\<rparr>))"
proof -
  let ?f = "newFileDescriptor 0x1000 0"
  have r: "r_ebx (kn_regs ex_reader) = 3" "r_ecx (kn_regs ex_reader) = 0x3000" "r_edx (kn_regs ex_reader) = 5"
    by (simp_all add: ex_reader_def)
  have ct: "currentIndex ex_call_tasks = 0" "k_paging ex_call_tasks = ex_pages" "k_vfs ex_call_tasks = ex_tree"
    "k_paging (kn_tasks ex_reader) = ex_pages"
    by (simp_all add: ex_call_tasks_def ex_tasks_def ex_reader_def)
  obtain p where p: "caller ex_reader = Some p" "pr_dir p = 0x100000"
    "pr_fds p = \<lparr>table = [(3, FileDescriptor ?f)], nextFd = 4\<rparr>"
    by (simp add: caller_def getCurrentProcess_def rd_at_def ex_reader_def ct)
  have v: "isValidAddress_call a ex_reader = Some (True, ex_reader)" if "unat a < 4194304" "a \<noteq> 0" "page_index a = 3" for a
    using ex_valid [OF that(1)] that p ex_kernel_fields(7) by (simp add: isValidAddress_call_def ct)
  have va: "isValidAddress_call (r_ecx (kn_regs ex_reader)) ex_reader = Some (True, ex_reader)"
    "isValidAddress_call (r_ecx (kn_regs ex_reader) + r_edx (kn_regs ex_reader)) ex_reader = Some (True, ex_reader)"
    unfolding r by (rule v; simp add: page_index_def drop_bit_eq_div)+
  have d: "descriptor_at (r_ebx (kn_regs ex_reader)) ex_reader = Some (Some (FileDescriptor ?f))"
    using p by (simp add: descriptor_at_def dt_get_def r)
  let ?ds = "[([0x64, 0x65, 0x76], 0x2000)]"
  have root: "deref 0x1000 ex_tree = Some \<lparr>inodeNumber = 1, mode = 0, itype = Directory, userId = 0, groupId = 0,
      superBlock = 0, dentries = ?ds\<rparr>" by (simp add: deref_def ex_tree_def)
  have i: "inode_of ?f ex_reader = Some \<lparr>inodeNumber = 1, mode = 0, itype = Directory, userId = 0, groupId = 0,
      superBlock = 0, dentries = ?ds\<rparr>"
    by (simp add: inode_of_def newFileDescriptor_def ex_reader_def ct root)
  have dev: "deref 0x2000 ex_tree \<noteq> None" by (simp add: deref_def ex_tree_def)
  obtain u where u: "on_files (fs_getDentries (fd_inode ?f) (unat (fd_offset ?f))
      (unat (min (r_edx (kn_regs ex_reader)) 4096))) ex_reader = Some (?ds, u)" "k_vfs (kn_tasks u) = ex_tree" "caller u = Some p"
    using root p(1) by (simp add: on_files_def files_def fs_getDentries_def getDentries_def newFileDescriptor_def r ct
        ex_reader_def ex_kernel_def ex_fsys_def caller_def getCurrentProcess_def)
  obtain w where w: "put_file 3 (advanceOffset 1 ?f) u = Some w" "k_vfs (kn_tasks w) = ex_tree"
    using u(2,3) by (simp add: put_file_def with_caller_def update_current_def caller_def put_process_def)
  have "handleGetdents ex_reader = Some (answer 0 w)"
    using va d i u(1) w dev by (auto simp: handleGetdents_def guarded_def with_file_def Let_def r)
  moreover from getdents_skips [OF this va d i _ u(1)] have "descriptor_at 3 (answer 0 w) = Some (Some (FileDescriptor (advanceOffset 1 ?f)))"
    by (simp add: r)
  ultimately show ?thesis by (simp add: advanceOffset_def newFileDescriptor_def)
qed

end
