(* ===== verification/User_Library.thy ===== *)
theory User_Library
  imports System_Calls
begin

text \<open>
  The functions programs call (\<open>palmyraOS/unistd.cpp\<close>, \<open>palmyraOS/stdio.cpp\<close>, \<open>palmyraOS/stdlib.cpp\<close>): each puts the
  number of a system call and its arguments into registers, raises interrupt \<open>0x80\<close> and takes its result
  from \<open>eax\<close>. A function that hands out a structure has the address of that local variable as an argument.
  The names carry the prefix \<open>u_\<close>.
\<close>

section \<open>The interrupt as a program sees it\<close>

text \<open>
  Where the registers are saved, and what happens until a program that lost the processor has it again;
  its own registers, with the result, are those that were saved.
\<close>

record 'x machine =
  mc_calls :: "'x surroundings"
  mc_frame :: u32
  mc_back :: "'x kernel \<Rightarrow> 'x kernel option"

definition system_call :: "'x machine \<Rightarrow> (cpu_regs \<Rightarrow> cpu_regs) \<Rightarrow> 'x kernel \<Rightarrow> (u32 \<times> 'x kernel) option" where
  "system_call m args s =
     do { (a, t) \<leftarrow> handleInterrupt (mc_calls m) (mc_frame m) (s\<lparr>kn_regs := args (kn_regs s)\<rparr>);
          u \<leftarrow> (if a = mc_frame m then Some t else mc_back m t);
          Some (r_eax (kn_regs t), u\<lparr>kn_regs := kn_regs t\<rparr>) }"

type_synonym ('x, 'r) program = "'x kernel \<Rightarrow> ('r \<times> 'x kernel) option"

section \<open>Processes and time\<close>

definition u_get_pid :: "'x machine \<Rightarrow> ('x, u32) program" where
  "u_get_pid m = system_call m (\<lambda>r. r\<lparr>r_eax := 20\<rparr>)"

definition u_exit :: "'x machine \<Rightarrow> u32 \<Rightarrow> ('x, u32) program" where
  "u_exit m exitCode = system_call m (\<lambda>r. r\<lparr>r_eax := 1, r_ebx := exitCode\<rparr>)"

definition u_sched_yield :: "'x machine \<Rightarrow> ('x, u32) program" where
  "u_sched_yield m = system_call m (\<lambda>r. r\<lparr>r_eax := 158\<rparr>)"

definition u_mmap :: "'x machine \<Rightarrow> u32 \<Rightarrow> u32 \<Rightarrow> u32 \<Rightarrow> u32 \<Rightarrow> u32 \<Rightarrow> ('x, u32) program" where
  "u_mmap m addr len prot flags fd =
     system_call m (\<lambda>r. r\<lparr>r_eax := 90, r_ebx := addr, r_ecx := len, r_edx := prot, r_esi := flags, r_edi := fd\<rparr>)"

definition u_clock_gettime :: "'x machine \<Rightarrow> u32 \<Rightarrow> u32 \<Rightarrow> ('x, u32) program" where
  "u_clock_gettime m clk_id tp = system_call m (\<lambda>r. r\<lparr>r_eax := 228, r_edi := clk_id, r_esi := tp\<rparr>)"

definition u_clock_nanosleep :: "'x machine \<Rightarrow> u32 \<Rightarrow> u32 \<Rightarrow> u32 \<Rightarrow> u32 \<Rightarrow> ('x, u32) program" where
  "u_clock_nanosleep m clock_id flags req rem' =
     system_call m (\<lambda>r. r\<lparr>r_eax := 407, r_ebx := clock_id, r_ecx := flags, r_edx := req, r_esi := rem'\<rparr>)"

text \<open>\<open>posix_spawn\<close>: the file actions and the attributes are not passed on.\<close>

definition u_posix_spawn :: "'x machine \<Rightarrow> u32 \<Rightarrow> u32 \<Rightarrow> u32 \<Rightarrow> u32 \<Rightarrow> u32 \<Rightarrow> u32 \<Rightarrow> ('x, u32) program" where
  "u_posix_spawn m pid path file_actions attrp argv envp =
     system_call m (\<lambda>r. r\<lparr>r_eax := 9600, r_ebx := pid, r_ecx := path, r_edx := argv, r_esi := envp\<rparr>)"

definition u_waitpid :: "'x machine \<Rightarrow> u32 \<Rightarrow> u32 \<Rightarrow> u32 \<Rightarrow> ('x, u32) program" where
  "u_waitpid m pid status' options = system_call m (\<lambda>r. r\<lparr>r_eax := 7, r_ebx := pid, r_ecx := status', r_edx := options\<rparr>)"

definition u_arch_prctl :: "'x machine \<Rightarrow> u32 \<Rightarrow> u32 \<Rightarrow> ('x, u32) program" where
  "u_arch_prctl m code addr = system_call m (\<lambda>r. r\<lparr>r_eax := 384, r_ebx := code, r_ecx := addr\<rparr>)"

definition u_brk :: "'x machine \<Rightarrow> u32 \<Rightarrow> ('x, u32) program" where
  "u_brk m end_data_segment = system_call m (\<lambda>r. r\<lparr>r_eax := 45, r_ebx := end_data_segment\<rparr>)"

definition u_getuid :: "'x machine \<Rightarrow> ('x, u32) program" where
  "u_getuid m = system_call m (\<lambda>r. r\<lparr>r_eax := 199\<rparr>)"

definition u_getgid :: "'x machine \<Rightarrow> ('x, u32) program" where
  "u_getgid m = system_call m (\<lambda>r. r\<lparr>r_eax := 200\<rparr>)"

definition u_geteuid32 :: "'x machine \<Rightarrow> ('x, u32) program" where
  "u_geteuid32 m = system_call m (\<lambda>r. r\<lparr>r_eax := 201\<rparr>)"

definition u_getegid32 :: "'x machine \<Rightarrow> ('x, u32) program" where
  "u_getegid32 m = system_call m (\<lambda>r. r\<lparr>r_eax := 202\<rparr>)"

definition u_reboot :: "'x machine \<Rightarrow> u32 \<Rightarrow> u32 \<Rightarrow> u32 \<Rightarrow> u32 \<Rightarrow> ('x, u32) program" where
  "u_reboot m magic magic2 cmd arg =
     system_call m (\<lambda>r. r\<lparr>r_eax := 88, r_ebx := magic, r_ecx := magic2, r_edx := cmd, r_esi := arg\<rparr>)"

section \<open>Files\<close>

definition u_open :: "'x machine \<Rightarrow> u32 \<Rightarrow> u32 \<Rightarrow> ('x, u32) program" where
  "u_open m pathname flags = system_call m (\<lambda>r. r\<lparr>r_eax := 5, r_ebx := pathname, r_ecx := flags\<rparr>)"

definition u_close :: "'x machine \<Rightarrow> u32 \<Rightarrow> ('x, u32) program" where
  "u_close m fd = system_call m (\<lambda>r. r\<lparr>r_eax := 6, r_ebx := fd\<rparr>)"

definition u_write :: "'x machine \<Rightarrow> u32 \<Rightarrow> u32 \<Rightarrow> u32 \<Rightarrow> ('x, u32) program" where
  "u_write m fd buf n = system_call m (\<lambda>r. r\<lparr>r_eax := 4, r_ebx := fd, r_ecx := buf, r_edx := n\<rparr>)"

definition u_read :: "'x machine \<Rightarrow> u32 \<Rightarrow> u32 \<Rightarrow> u32 \<Rightarrow> ('x, u32) program" where
  "u_read m fd buf n = system_call m (\<lambda>r. r\<lparr>r_eax := 3, r_ebx := fd, r_ecx := buf, r_edx := n\<rparr>)"

definition u_ioctl :: "'x machine \<Rightarrow> u32 \<Rightarrow> u32 \<Rightarrow> u32 \<Rightarrow> ('x, u32) program" where
  "u_ioctl m fd request argp = system_call m (\<lambda>r. r\<lparr>r_eax := 54, r_ebx := fd, r_ecx := request, r_edx := argp\<rparr>)"

definition u_getdents :: "'x machine \<Rightarrow> u32 \<Rightarrow> u32 \<Rightarrow> u32 \<Rightarrow> ('x, u32) program" where
  "u_getdents m fd dirp n = system_call m (\<lambda>r. r\<lparr>r_eax := 141, r_ebx := fd, r_ecx := dirp, r_edx := n\<rparr>)"

definition u_lseek :: "'x machine \<Rightarrow> u32 \<Rightarrow> u32 \<Rightarrow> u32 \<Rightarrow> ('x, u32) program" where
  "u_lseek m fd offset whence = system_call m (\<lambda>r. r\<lparr>r_eax := 19, r_ebx := fd, r_ecx := offset, r_edx := whence\<rparr>)"

definition u_mkdir :: "'x machine \<Rightarrow> u32 \<Rightarrow> u16 \<Rightarrow> ('x, u32) program" where
  "u_mkdir m pathname mode' = system_call m (\<lambda>r. r\<lparr>r_eax := 39, r_ebx := pathname, r_ecx := ucast mode'\<rparr>)"

definition u_unlink :: "'x machine \<Rightarrow> u32 \<Rightarrow> ('x, u32) program" where
  "u_unlink m pathname = system_call m (\<lambda>r. r\<lparr>r_eax := 10, r_ebx := pathname\<rparr>)"

definition u_rmdir :: "'x machine \<Rightarrow> u32 \<Rightarrow> ('x, u32) program" where
  "u_rmdir m pathname = system_call m (\<lambda>r. r\<lparr>r_eax := 40, r_ebx := pathname\<rparr>)"

section \<open>Windows\<close>

definition u_initializeWindow :: "'x machine \<Rightarrow> u32 \<Rightarrow> u32 \<Rightarrow> ('x, u32) program" where
  "u_initializeWindow m buffer palmyraWindow =
     system_call m (\<lambda>r. r\<lparr>r_eax := 9500, r_ebx := buffer, r_ecx := palmyraWindow\<rparr>)"

definition u_closeWindow :: "'x machine \<Rightarrow> u32 \<Rightarrow> ('x, u32) program" where
  "u_closeWindow m windowID = system_call m (\<lambda>r. r\<lparr>r_eax := 9501, r_ebx := windowID\<rparr>)"

text \<open>A structure that the call fills in is returned as its bytes.\<close>

definition filled_in :: "'x machine \<Rightarrow> u32 \<Rightarrow> nat \<Rightarrow> u32 \<Rightarrow> u32 \<Rightarrow> ('x, bytes) program" where
  "filled_in m number n windowID var s =
     do { (_, s) \<leftarrow> system_call m (\<lambda>r. r\<lparr>r_eax := number, r_ebx := windowID, r_ecx := var\<rparr>) s;
          bs \<leftarrow> caller_load var n s;
          Some (bs, s) }"

definition u_nextKeyboardEvent :: "'x machine \<Rightarrow> u32 \<Rightarrow> u32 \<Rightarrow> ('x, bytes) program" where
  "u_nextKeyboardEvent m = filled_in m 9502 6"

definition u_nextMouseEvent :: "'x machine \<Rightarrow> u32 \<Rightarrow> u32 \<Rightarrow> ('x, bytes) program" where
  "u_nextMouseEvent m = filled_in m 9503 12"

definition u_getStatus :: "'x machine \<Rightarrow> u32 \<Rightarrow> u32 \<Rightarrow> ('x, bytes) program" where
  "u_getStatus m = filled_in m 9504 17"

section \<open>Sockets\<close>

definition u_socket :: "'x machine \<Rightarrow> u32 \<Rightarrow> u32 \<Rightarrow> u32 \<Rightarrow> ('x, u32) program" where
  "u_socket m domain type protocol = system_call m (\<lambda>r. r\<lparr>r_eax := 359, r_ebx := domain, r_ecx := type, r_edx := protocol\<rparr>)"

definition u_bind :: "'x machine \<Rightarrow> u32 \<Rightarrow> u32 \<Rightarrow> u32 \<Rightarrow> ('x, u32) program" where
  "u_bind m sockfd addr addrlen = system_call m (\<lambda>r. r\<lparr>r_eax := 361, r_ebx := sockfd, r_ecx := addr, r_edx := addrlen\<rparr>)"

definition u_connect :: "'x machine \<Rightarrow> u32 \<Rightarrow> u32 \<Rightarrow> u32 \<Rightarrow> ('x, u32) program" where
  "u_connect m sockfd addr addrlen = system_call m (\<lambda>r. r\<lparr>r_eax := 362, r_ebx := sockfd, r_ecx := addr, r_edx := addrlen\<rparr>)"

definition u_sendto :: "'x machine \<Rightarrow> u32 \<Rightarrow> u32 \<Rightarrow> u32 \<Rightarrow> u32 \<Rightarrow> u32 \<Rightarrow> u32 \<Rightarrow> ('x, u32) program" where
  "u_sendto m sockfd buf len flags dest_addr addrlen =
     system_call m (\<lambda>r. r\<lparr>r_eax := 369, r_ebx := sockfd, r_ecx := buf, r_edx := len, r_esi := flags, r_edi := dest_addr,
       r_ebp := addrlen\<rparr>)"

definition u_recvfrom :: "'x machine \<Rightarrow> u32 \<Rightarrow> u32 \<Rightarrow> u32 \<Rightarrow> u32 \<Rightarrow> u32 \<Rightarrow> u32 \<Rightarrow> ('x, u32) program" where
  "u_recvfrom m sockfd buf len flags src_addr addrlen =
     system_call m (\<lambda>r. r\<lparr>r_eax := 371, r_ebx := sockfd, r_ecx := buf, r_edx := len, r_esi := flags, r_edi := src_addr,
       r_ebp := addrlen\<rparr>)"

definition u_setsockopt :: "'x machine \<Rightarrow> u32 \<Rightarrow> u32 \<Rightarrow> u32 \<Rightarrow> u32 \<Rightarrow> u32 \<Rightarrow> ('x, u32) program" where
  "u_setsockopt m sockfd level optname optval optlen =
     system_call m (\<lambda>r. r\<lparr>r_eax := 366, r_ebx := sockfd, r_ecx := level, r_edx := optname, r_esi := optval, r_edi := optlen\<rparr>)"

definition u_getsockopt :: "'x machine \<Rightarrow> u32 \<Rightarrow> u32 \<Rightarrow> u32 \<Rightarrow> u32 \<Rightarrow> u32 \<Rightarrow> ('x, u32) program" where
  "u_getsockopt m sockfd level optname optval optlen =
     system_call m (\<lambda>r. r\<lparr>r_eax := 365, r_ebx := sockfd, r_ecx := level, r_edx := optname, r_esi := optval, r_edi := optlen\<rparr>)"

definition u_getsockname :: "'x machine \<Rightarrow> u32 \<Rightarrow> u32 \<Rightarrow> u32 \<Rightarrow> ('x, u32) program" where
  "u_getsockname m sockfd addr addrlen = system_call m (\<lambda>r. r\<lparr>r_eax := 367, r_ebx := sockfd, r_ecx := addr, r_edx := addrlen\<rparr>)"

definition u_getpeername :: "'x machine \<Rightarrow> u32 \<Rightarrow> u32 \<Rightarrow> u32 \<Rightarrow> ('x, u32) program" where
  "u_getpeername m sockfd addr addrlen = system_call m (\<lambda>r. r\<lparr>r_eax := 368, r_ebx := sockfd, r_ecx := addr, r_edx := addrlen\<rparr>)"

definition u_listen :: "'x machine \<Rightarrow> u32 \<Rightarrow> u32 \<Rightarrow> ('x, u32) program" where
  "u_listen m sockfd backlog = system_call m (\<lambda>r. r\<lparr>r_eax := 363, r_ebx := sockfd, r_ecx := backlog\<rparr>)"

definition u_accept :: "'x machine \<Rightarrow> u32 \<Rightarrow> u32 \<Rightarrow> u32 \<Rightarrow> ('x, u32) program" where
  "u_accept m sockfd addr addrlen = system_call m (\<lambda>r. r\<lparr>r_eax := 364, r_ebx := sockfd, r_ecx := addr, r_edx := addrlen\<rparr>)"

definition u_shutdown :: "'x machine \<Rightarrow> u32 \<Rightarrow> u32 \<Rightarrow> ('x, u32) program" where
  "u_shutdown m sockfd how = system_call m (\<lambda>r. r\<lparr>r_eax := 373, r_ebx := sockfd, r_ecx := how\<rparr>)"

section \<open>Output and memory\<close>

text \<open>\<open>printf\<close> with its local buffer at \<open>buffer\<close>. \<open>perror\<close> with the two texts it adds at their addresses.\<close>

definition u_printf :: "'x machine \<Rightarrow> u32 \<Rightarrow> bytes \<Rightarrow> vararg list \<Rightarrow> ('x, u32) program" where
  "u_printf m buffer format args s =
     do { before \<leftarrow> caller_load buffer 1024 s;
          (written, bs) \<leftarrow> vsnprintf before 1024 format args;
          s \<leftarrow> caller_store buffer bs s;
          (_, s) \<leftarrow> (if 0 <s written then u_write m 1 buffer written s else Some (0, s));
          Some (written, s) }"

partial_function (option) caller_string :: "u32 \<Rightarrow> 'x kernel \<Rightarrow> bytes option" where
  "caller_string a s =
     do { c \<leftarrow> caller_byte a s;
          if c = 0 then Some [] else do { cs \<leftarrow> caller_string (a + 1) s; Some (c # cs) } }"

definition u_perror :: "'x machine \<Rightarrow> u32 \<Rightarrow> u32 \<Rightarrow> u32 \<Rightarrow> 'x kernel \<Rightarrow> 'x kernel option" where
  "u_perror m colon newline str s =
     do { t \<leftarrow> (if str = 0 then Some [] else caller_string str s);
          s \<leftarrow> (if t = [] then Some s
                else do { (_, s) \<leftarrow> u_write m 2 str (of_nat (length t)) s; (_, s) \<leftarrow> u_write m 2 colon 2 s; Some s });
          (_, s) \<leftarrow> u_write m 2 newline 1 s;
          Some s }"

text \<open>The protection and the flags: read and write; anonymous and private. Nothing is ever given back.\<close>

definition u_malloc :: "'x machine \<Rightarrow> u32 \<Rightarrow> ('x, u32) program" where
  "u_malloc m sz = u_mmap m 0 sz (1 OR 2) (0x20 OR 2) (- 1)"

definition u_free :: "u32 \<Rightarrow> 'x kernel \<Rightarrow> 'x kernel" where
  "u_free ptr s = s"

end
