(* ===== verification/User_Network.thy ===== *)
theory User_Network
  imports User_Library
begin

text \<open>
  The network functions of the library (\<open>palmyraOS/network.cpp\<close>): names and responses of the resolver, the
  checksum of an echo message, addresses as text, and the two protocols over sockets, a resolver
  query and an echo request. Their waiting loops count the rounds and not the time; a loop that never
  ends is \<open>None\<close>. Errors are the negative numbers of the code.
\<close>

section \<open>Names and responses\<close>

text \<open>The loop over the positions of the name; the bytes so far, or an empty or overlong label.\<close>

fun u_name_loop :: "bytes \<Rightarrow> nat list \<Rightarrow> nat \<Rightarrow> bytes \<Rightarrow> bytes option option" where
  "u_name_loop name [] segmentStart out = Some (Some out)"
| "u_name_loop name (i # is) segmentStart out =
     (if i = length name \<or> name ! i = 0x2E
      then let segmentLen = i - segmentStart in
        if segmentLen = 0 \<or> 63 < segmentLen then Some None
        else do { segment \<leftarrow> slice name segmentStart segmentLen;
                  u_name_loop name is (i + 1) (out @ of_nat segmentLen # map dns_lower segment) }
      else u_name_loop name is segmentStart out)"

definition encodeDNSName :: "bytes \<Rightarrow> nat \<Rightarrow> (int + bytes) option" where
  "encodeDNSName hostname bufferSize =
     (if length hostname = 0 \<or> 253 < length hostname then Some (Inl (- 22))
      else if bufferSize < length hostname + 2 then Some (Inl (- 7))
      else do {
        r \<leftarrow> u_name_loop hostname [0..<Suc (length hostname)] 0 [];
        Some (case r of None \<Rightarrow> Inl (- 22) | Some out \<Rightarrow> Inr (out @ [0])) })"

text \<open>Skipping labels up to a zero byte; \<open>None\<close> inside: a label longer than \<open>most\<close>.\<close>

function skip_labels :: "nat \<Rightarrow> bytes \<Rightarrow> nat \<Rightarrow> nat \<Rightarrow> nat option option" where
  "skip_labels most data len off =
     (if off < len then do {
        b \<leftarrow> rd_at data off;
        if b = 0 then Some (Some off)
        else if most < unat b then Some None
        else skip_labels most data len (off + unat b + 1) }
      else Some (Some off))"
  by pat_completeness auto
termination by (relation "measure (\<lambda>(most, data, len, off). len - off)") auto

declare skip_labels.simps [simp del]

text \<open>
  The records of a response. The four bytes of an address are read without comparing their place with
  the length of the response.
\<close>

fun u_records :: "bytes \<Rightarrow> nat \<Rightarrow> nat \<Rightarrow> nat \<Rightarrow> (int + u32) option" where
  "u_records response len 0 off = Some (Inl (- 2))"
| "u_records response len (Suc answers) off =
     (if len \<le> off then Some (Inl (- 2))
      else do {
        b \<leftarrow> rd_at response off;
        off1 \<leftarrow> (if b AND 0xC0 = 0xC0 then Some (off + 2)
                 else do { r \<leftarrow> skip_labels 255 response len off; map_option Suc r });
        if len < off1 + 10 then Some (Inl (- 22))
        else do {
          type \<leftarrow> be16_at response off1;
          dataLen \<leftarrow> be16_at response (off1 + 8);
          let off2 = off1 + 10 in
          if type = 1 \<and> dataLen = 4 then map_option Inr (be32_at response off2)
          else u_records response len answers (off2 + unat dataLen) } })"

definition parseDNSResponse :: "bytes \<Rightarrow> nat \<Rightarrow> (int + u32) option" where
  "parseDNSResponse response len =
     (if len < 12 then Some (Inl (- 22))
      else do {
        an \<leftarrow> get_uint16_t response 6;
        let answers = unat (toBigEndian16 an) in
        if answers = 0 then Some (Inl (- 2))
        else do {
          r \<leftarrow> skip_labels 63 response len 12;
          case r of None \<Rightarrow> Some (Inl (- 22))
          | Some off \<Rightarrow> let off = off + 1 + 4 in
              if len \<le> off then Some (Inl (- 22)) else u_records response len answers off } })"

section \<open>The checksum of an echo message\<close>

text \<open>The sum of the 16-bit words as the processor reads them.\<close>

fun word_sum :: "bytes \<Rightarrow> u32 \<Rightarrow> u32" where
  "word_sum [] acc = acc"
| "word_sum [b] acc = acc + ucast b"
| "word_sum (a # b # bs) acc = word_sum bs (acc + ucast (le16 a b))"

definition calculateICMPChecksum :: "bytes \<Rightarrow> u16" where
  "calculateICMPChecksum data = ucast (NOT (fold_carries (word_sum data 0)))"

section \<open>Addresses as text\<close>

fun addr_loop :: "bytes \<Rightarrow> u8 list \<Rightarrow> u32 \<Rightarrow> bool \<Rightarrow> u32" where
  "addr_loop [] octets value digit =
     (if \<not> digit \<or> length octets \<noteq> 3 then 0
      else case octets @ [ucast value] of
        [a, b, c, d] \<Rightarrow> push_bit 24 (ucast a) OR push_bit 16 (ucast b) OR push_bit 8 (ucast c) OR ucast d
      | _ \<Rightarrow> 0)"
| "addr_loop (ch # s) octets value digit =
     (if is_digit ch then
        let value = value * 10 + (ucast ch - 48) in
        if 255 < value then 0 else addr_loop s octets value True
      else if ch = 46 then
        if \<not> digit \<or> 3 \<le> length octets then 0
        else addr_loop s (octets @ [ucast value]) 0 False
      else 0)"

definition inet_addr :: "bytes \<Rightarrow> u32" where
  "inet_addr ipString = addr_loop ipString [] 0 False"

definition octet :: "nat \<Rightarrow> u32 \<Rightarrow> u32" where
  "octet n ip = drop_bit n ip AND 0xFF"

text \<open>The memory from the buffer on, or \<open>None\<close> for a buffer that is too small.\<close>

definition inet_ntoa_r :: "u32 \<Rightarrow> bytes \<Rightarrow> nat \<Rightarrow> bytes option option" where
  "inet_ntoa_r ip buffer bufferSize =
     (if bufferSize < 16 then Some None
      else do {
        (_, bs) \<leftarrow> snprintf buffer bufferSize (ascii ''%u.%u.%u.%u'' @ [0])
          [Word (octet 24 ip), Word (octet 16 ip), Word (octet 8 ip), Word (octet 0 ip)];
        Some (Some bs) })"

section \<open>A resolver query\<close>

text \<open>The addresses of the local variables.\<close>

record locals =
  lo_print :: u32
  lo_flag :: u32
  lo_query :: u32
  lo_dest :: u32
  lo_answer :: u32
  lo_source :: u32
  lo_sourceLen :: u32

definition sockaddr_in :: "u32 \<Rightarrow> u16 \<Rightarrow> bytes" where
  "sockaddr_in ip port = bytes16 2 @ bytes16 (toBigEndian16 port) @ bytes32 (toBigEndian32 ip) @ replicate 8 0"

text \<open>Closing a socket before the result is returned.\<close>

definition closing :: "'x machine \<Rightarrow> u32 \<Rightarrow> 'r \<Rightarrow> ('x, 'r) program" where
  "closing m sockfd r s = do { (_, s) \<leftarrow> u_close m sockfd s; Some (r, s) }"

definition say :: "'x machine \<Rightarrow> locals \<Rightarrow> string \<Rightarrow> vararg list \<Rightarrow> 'x kernel \<Rightarrow> 'x kernel option" where
  "say m l text args s =
     do { (_, s) \<leftarrow> u_printf m (lo_print l) (ascii (''gethostbyname: '' @ text) @ [10, 0]) args s; Some s }"

text \<open>The header: number \<open>0x1234\<close>, recursion desired, one question; then the question for an address.\<close>

definition query_packet :: "bytes \<Rightarrow> bytes" where
  "query_packet name =
     (let q = bytes16 (toBigEndian16 0x1234) @ bytes16 (toBigEndian16 0x0100) @ bytes16 (toBigEndian16 1) @
        bytes16 0 @ bytes16 0 @ bytes16 0 @ name @ [0, 1, 0, 1]
      in q @ replicate (512 - length q) 0)"

partial_function (option) dns_poll :: "'x machine \<Rightarrow> locals \<Rightarrow> u32 \<Rightarrow> u32 \<Rightarrow> u32 \<Rightarrow> u32 \<Rightarrow> ('x, int + u32) program" where
  "dns_poll m l sockfd timeout_ms elapsed retries s =
     (if elapsed < timeout_ms then do {
        (n, s) \<leftarrow> u_recvfrom m sockfd (lo_answer l) 512 0 (lo_source l) (lo_sourceLen l) s;
        if 0 <s n then do {
          s \<leftarrow> say m l ''Received %d bytes from DNS server'' [Word n] s;
          response \<leftarrow> caller_load (lo_answer l) 512 s;
          result \<leftarrow> parseDNSResponse response (unat n);
          s \<leftarrow> (case result of
                  Inr ip \<Rightarrow> say m l ''Successfully resolved to IP 0x%X'' [Word ip] s
                | Inl e \<Rightarrow> say m l ''Parse failed with error %d'' [Word (of_int e)] s);
          closing m sockfd result s }
        else if n = - 11 \<or> n = 0 then do {
          (_, s) \<leftarrow> u_sched_yield m s;
          dns_poll m l sockfd timeout_ms (elapsed + 10) (retries + 1) s }
        else do {
          s \<leftarrow> say m l ''recvfrom() error: %d'' [Word n] s;
          closing m sockfd (Inl (sint n)) s } }
      else do {
        s \<leftarrow> say m l ''Timeout after %u retries'' [Word retries] s;
        closing m sockfd (Inl (- 110)) s })"

text \<open>The host name is a text, the result the address or an error.\<close>

definition gethostbyname_dns :: "'x machine \<Rightarrow> locals \<Rightarrow> bytes \<Rightarrow> u32 \<Rightarrow> u32 \<Rightarrow> ('x, int + u32) program" where
  "gethostbyname_dns m l hostname dnsServer timeout_ms s =
     (let timeout_ms = (if timeout_ms = 0 then 5000 else timeout_ms) in do {
        (sockfd, s) \<leftarrow> u_socket m 2 2 0 s;
        if sockfd <s 0 then do { s \<leftarrow> say m l ''socket() failed with %d'' [Word sockfd] s; Some (Inl (sint sockfd), s) }
        else do {
          s \<leftarrow> say m l ''Created socket fd=%d'' [Word sockfd] s;
          s \<leftarrow> caller_store (lo_flag l) (bytes32 1) s;
          (_, s) \<leftarrow> u_ioctl m sockfd 0x5421 (lo_flag l) s;
          name \<leftarrow> encodeDNSName hostname 500;
          case name of Inl e \<Rightarrow> closing m sockfd (Inl e) s
          | Inr name \<Rightarrow>
              if 512 < 12 + length name + 4 then closing m sockfd (Inl (- 7)) s
              else do {
                s \<leftarrow> caller_store (lo_query l) (query_packet name) s;
                s \<leftarrow> caller_store (lo_dest l) (sockaddr_in dnsServer 53) s;
                let n = of_nat (16 + length name) in do {
                  s \<leftarrow> say m l ''Sending DNS query (%u bytes) to server 0x%X:53'' [Word n, Word dnsServer] s;
                  (sentBytes, s) \<leftarrow> u_sendto m sockfd (lo_query l) n 0 (lo_dest l) 16 s;
                  if sentBytes <s 0 then do {
                    s \<leftarrow> say m l ''sendto() failed with %d'' [Word sentBytes] s;
                    closing m sockfd (Inl (sint sentBytes)) s }
                  else do {
                    s \<leftarrow> say m l ''Sent %d bytes, waiting for response...'' [Word sentBytes] s;
                    s \<leftarrow> caller_store (lo_sourceLen l) (bytes32 16) s;
                    dns_poll m l sockfd timeout_ms 0 0 s } } } } })"

fun try_servers :: "'x machine \<Rightarrow> locals \<Rightarrow> bytes \<Rightarrow> u32 \<Rightarrow> u32 list \<Rightarrow> ('x, int + u32) program" where
  "try_servers m l hostname timeout_ms [] s = Some (Inl (- 110), s)"
| "try_servers m l hostname timeout_ms (server # servers) s =
     do { (r, s) \<leftarrow> gethostbyname_dns m l hostname server (if timeout_ms \<noteq> 0 then timeout_ms else 5000) s;
          case r of Inr ip \<Rightarrow> Some (Inr ip, s) | Inl _ \<Rightarrow> try_servers m l hostname timeout_ms servers s }"

definition gethostbyname :: "'x machine \<Rightarrow> locals \<Rightarrow> bytes \<Rightarrow> u32 \<Rightarrow> ('x, int + u32) program" where
  "gethostbyname m l hostname timeout_ms =
     try_servers m l hostname timeout_ms [0x08080808, 0x0A000203, 0x01010101]"

section \<open>An echo request\<close>

text \<open>The request: number of the process, first in the sequence, and 56 bytes that count on.\<close>

definition ping_header :: "u16 \<Rightarrow> u16 \<Rightarrow> bytes" where
  "ping_header checksum ident =
     [8, 0] @ bytes16 checksum @ bytes16 (toBigEndian16 ident) @ bytes16 (toBigEndian16 1)"

definition ping_packet :: "u32 \<Rightarrow> bytes" where
  "ping_packet pid =
     (let ident = ucast (pid AND 0xFFFF); data = map of_nat [8..<64]
      in ping_header (calculateICMPChecksum (ping_header 0 ident @ data)) ident @ data)"

partial_function (option) ping_poll :: "'x machine \<Rightarrow> locals \<Rightarrow> u32 \<Rightarrow> u32 \<Rightarrow> u32 \<Rightarrow> u32 \<Rightarrow> ('x, int + u32) program" where
  "ping_poll m l sockfd targetIP timeout_ms elapsed s =
     (if elapsed < timeout_ms then do {
        (n, s) \<leftarrow> u_recvfrom m sockfd (lo_answer l) 1500 0 (lo_source l) (lo_sourceLen l) s;
        if \<not> 0 <s n \<and> n \<noteq> - 11 \<and> n \<noteq> 0 then closing m sockfd (Inl (sint n)) s
        else do {
          (ours, s) \<leftarrow> (if 0 <s n then do {
                reply \<leftarrow> caller_load (lo_answer l) 8 s;
                ident \<leftarrow> get_uint16_t reply 4;
                if reply ! 0 \<noteq> 0 then Some (False, s)
                else do {
                  (pid, s) \<leftarrow> u_get_pid m s;
                  if ucast (toBigEndian16 ident) \<noteq> pid AND 0xFFFF then Some (False, s)
                  else do {
                    from \<leftarrow> caller_load (lo_source l) 16 s;
                    ip \<leftarrow> get_uint32_t from 4;
                    Some (toBigEndian32 ip = targetIP, s) } } }
              else Some (False, s));
          if ours then closing m sockfd (Inr 1) s
          else do {
            (_, s) \<leftarrow> u_sched_yield m s;
            ping_poll m l sockfd targetIP timeout_ms (elapsed + 10) s } } }
      else closing m sockfd (Inl (- 110)) s)"

text \<open>The round trip is always reported as one millisecond.\<close>

definition ping :: "'x machine \<Rightarrow> locals \<Rightarrow> u32 \<Rightarrow> u32 \<Rightarrow> ('x, int + u32) program" where
  "ping m l targetIP timeout_ms s =
     (let timeout_ms = (if timeout_ms = 0 then 5000 else timeout_ms) in do {
        (sockfd, s) \<leftarrow> u_socket m 2 3 1 s;
        if sockfd <s 0 then do {
          (_, s) \<leftarrow> u_printf m (lo_print l) (ascii ''ping: Failed to create raw socket: %d'' @ [10, 0]) [Word sockfd] s;
          Some (Inl (sint sockfd), s) }
        else do {
          s \<leftarrow> caller_store (lo_flag l) (bytes32 1) s;
          (_, s) \<leftarrow> u_ioctl m sockfd 0x5421 (lo_flag l) s;
          (pid, s) \<leftarrow> u_get_pid m s;
          s \<leftarrow> caller_store (lo_query l) (ping_packet pid) s;
          s \<leftarrow> caller_store (lo_dest l) (sockaddr_in targetIP 0) s;
          (sent, s) \<leftarrow> u_sendto m sockfd (lo_query l) 64 0 (lo_dest l) 16 s;
          if sent <s 0 then do {
            (_, s) \<leftarrow> u_printf m (lo_print l) (ascii ''ping: sendto() failed: %d'' @ [10, 0]) [Word sent] s;
            closing m sockfd (Inl (sint sent)) s }
          else do {
            s \<leftarrow> caller_store (lo_sourceLen l) (bytes32 16) s;
            ping_poll m l sockfd targetIP timeout_ms 0 s } } })"

definition ping_host :: "'x machine \<Rightarrow> locals \<Rightarrow> bytes \<Rightarrow> u32 \<Rightarrow> ('x, int + u32) program" where
  "ping_host m l hostname timeout_ms s =
     (let ip = inet_addr hostname in
      if ip \<noteq> 0 then ping m l ip timeout_ms s
      else do {
        (r, s) \<leftarrow> gethostbyname m l hostname (timeout_ms div 2) s;
        case r of Inl e \<Rightarrow> Some (Inl e, s) | Inr ip \<Rightarrow> ping m l ip (timeout_ms div 2) s })"

end
