(* ===== verification/User_Laws.thy ===== *)
theory User_Laws
  imports User_Network Dns_Laws
begin

text \<open>
  The properties of the network functions of the library: the text of an address is read back, names and
  echo messages are the ones the kernel builds, and what its reader of responses does at their end.
\<close>

section \<open>The checksum in the two byte orders\<close>

fun total_le :: "bytes \<Rightarrow> nat" where
  "total_le [] = 0"
| "total_le [b] = unat b"
| "total_le (a # b # bs) = unat (le16 a b) + total_le bs"

lemma unat_le16: "unat (le16 a b) = unat a + 256 * unat b"
proof -
  have d: "unat (a :: u8) < 256" "unat (b :: u8) < 256" by (simp_all add: unat_u8_lt)
  have "ucast a AND (push_bit 8 (ucast b) :: u16) = 0"
    by (rule bit_word_eqI) (auto simp: bit_simps)
  then have "(ucast a :: u16) OR push_bit 8 (ucast b) = ucast a + push_bit 8 (ucast b)"
    by (rule disjunctive_add_eq_or [symmetric])
  moreover have "unat (push_bit 8 (ucast b) :: u16) = 256 * unat b"
    using d by (simp add: push_bit_eq_mult unat_word_ariths unat_ucast_8_16)
  ultimately show ?thesis using d by (simp add: le16_def unat_word_ariths unat_ucast_8_16)
qed

lemma word_sum_total: "unat acc + total_le xs < 4294967296 \<Longrightarrow> unat (word_sum xs acc) = unat acc + total_le xs"
proof (induction xs acc rule: word_sum.induct)
  case (3 a b bs acc)
  then have "unat (acc + ucast (le16 a b)) = unat acc + unat (le16 a b)" by (simp add: unat_add_small unat_ucast_16_32)
  then show ?case using 3 by simp
qed (simp_all add: unat_add_small unat_ucast_8_32)

lemma total_le_bound: "total_le xs \<le> 65535 * length xs"
proof (induction xs rule: total_le.induct)
  case (3 a b bs)
  then show ?case using unat_u16_lt [of "le16 a b"] by simp
next
  case (2 b)
  then show ?case using unat_u8_lt [of b] by simp
qed simp

lemma total_zero: "total_le xs = 0 \<longleftrightarrow> total16 xs = 0"
  by (induction xs rule: total_le.induct) (auto simp: unat_le16)

lemma total_swap: "even (length xs) \<Longrightarrow> total_le xs mod 65535 = 256 * total16 xs mod 65535"
proof (induction xs rule: total_le.induct)
  case (3 a b bs)
  have "256 * total16 (a # b # bs) = ((unat a + 256 * unat b) + 256 * total16 bs) + 65535 * unat a"
    by (simp add: unat_le16)
  then have "256 * total16 (a # b # bs) mod 65535 = ((unat a + 256 * unat b) + 256 * total16 bs) mod 65535"
    by (rule mod_offset)
  also have "\<dots> = ((unat a + 256 * unat b) + total_le bs) mod 65535"
    using 3 by (metis even_Suc_Suc_iff length_Cons mod_add_right_eq)
  finally show ?case by (simp add: unat_le16)
qed simp_all

lemma ones_cong: "0 < n \<Longrightarrow> 0 < r \<Longrightarrow> r \<le> 65535 \<Longrightarrow> r mod 65535 = n mod 65535 \<Longrightarrow> ones n = r"
proof -
  assume a: "0 < n" "0 < r" "r \<le> 65535" "r mod 65535 = n mod 65535"
  have "(n - 1) mod 65535 = (r - 1) mod 65535"
  proof -
    have "(Suc (n - 1)) mod 65535 = (Suc (r - 1)) mod 65535" using a by simp
    then show ?thesis by (simp add: mod_Suc split: if_splits)
  qed
  then show ?thesis using a by (simp add: ones_def)
qed

lemma ones_mod: "ones n mod 65535 = n mod 65535"
proof (cases "n = 0")
  case False
  then have "((n - 1) mod 65535 + 1) mod 65535 = (n - 1 + 1) mod 65535" by (simp only: mod_add_left_eq)
  then show ?thesis using False by (simp add: ones_def)
qed (simp add: ones_def)

definition swapped :: "nat \<Rightarrow> nat" where
  "swapped x = x mod 256 * 256 + x div 256"

lemma unat_toBigEndian16: "unat (toBigEndian16 v) = swapped (unat v)"
proof -
  have "bytes16 (toBigEndian16 v) = [ucast (drop_bit 8 v), ucast v]" by (rule bytes16_big)
  then have b: "ucast (toBigEndian16 v) = (ucast (drop_bit 8 v) :: u8)" "ucast (drop_bit 8 (toBigEndian16 v)) = (ucast v :: u8)"
    by (simp_all add: bytes16_def)
  have w: "w = le16 (ucast w) (ucast (drop_bit 8 w))" for w :: u16
    by (rule bit_word_eqI) (auto simp: le16_def bit_simps)
  have u: "unat (ucast w :: u8) = unat w mod 256" "unat (ucast (drop_bit 8 w) :: u8) = unat w div 256" for w :: u16
  proof -
    show "unat (ucast w :: u8) = unat w mod 256" by (simp add: unsigned_ucast_eq take_bit_eq_mod)
    have "unat w div 256 < 256" using unat_u16_lt [of w] by (simp add: less_mult_imp_div_less)
    then show "unat (ucast (drop_bit 8 w) :: u8) = unat w div 256"
      unfolding unsigned_ucast_eq unat_drop_bit_eq by (simp add: take_bit_eq_mod drop_bit_eq_div)
  qed
  have "unat (toBigEndian16 v) = unat (le16 (ucast (toBigEndian16 v)) (ucast (drop_bit 8 (toBigEndian16 v))))"
    by (rule arg_cong [OF w])
  then have "unat (toBigEndian16 v) = unat (ucast (drop_bit 8 v) :: u8) + 256 * unat (ucast v :: u8)"
    unfolding unat_le16 b .
  then show ?thesis unfolding u(2) [of v] unfolding u(1) [of v] swapped_def by simp
qed

lemma swapped_mod: "swapped x mod 65535 = 256 * x mod 65535"
proof -
  have "x = 256 * (x div 256) + x mod 256" by simp
  then have "256 * x = swapped x + 65535 * (x div 256)" unfolding swapped_def by linarith
  then have "256 * x mod 65535 = swapped x mod 65535" by (rule mod_offset)
  then show ?thesis by simp
qed

text \<open>The folded sum in one byte order is the other one with its bytes swapped.\<close>

lemma ones_swap:
  assumes "even (length xs)"
  shows "ones (total_le xs) = swapped (ones (total16 xs))"
proof (cases "total16 xs = 0")
  case True
  then show ?thesis using total_zero [of xs] by (simp add: ones_def swapped_def)
next
  case False
  let ?o = "ones (total16 xs)"
  have o: "0 < ?o" "?o \<le> 65535" using False ones_le [of "total16 xs"] by (simp_all add: ones_def)
  have pos: "0 < swapped ?o" using o(1) by (cases "?o mod 256 = 0") (auto simp: swapped_def)
  have "?o div 256 < 256" using o(2) by (simp add: less_mult_imp_div_less)
  moreover have "?o mod 256 < 256" by simp
  ultimately have le: "swapped ?o \<le> 65535" unfolding swapped_def by linarith
  have "swapped ?o mod 65535 = (256 * (?o mod 65535)) mod 65535" using swapped_mod [of ?o] by (simp add: mod_mult_right_eq)
  also have "\<dots> = total_le xs mod 65535" unfolding ones_mod using total_swap [OF assms] by (simp add: mod_mult_right_eq)
  finally show ?thesis using False total_zero [of xs] pos le by (intro ones_cong) auto
qed

lemma toBigEndian16_not: "toBigEndian16 (NOT v) = NOT (toBigEndian16 v)"
proof -
  have m: "(0xFF :: u16) = mask 8" by (simp add: mask_eq_exp_minus_1)
  show ?thesis unfolding toBigEndian16_def m by (rule bit_word_eqI) (auto simp: bit_simps)
qed

lemma checksum_swap:
  assumes "even (length xs)" and "length xs < 65536"
  shows "calculateICMPChecksum xs = toBigEndian16 (ucast (NOT (fold_carries (sum16 xs 0))))"
proof -
  have small: "total_le xs < 4294967296" "total16 xs < 4294967296"
    using total_le_bound [of xs] total16_bound [of xs] assms(2) by linarith+
  have n: "ucast (NOT x) = NOT (ucast x :: u16)" for x :: u32
    by (rule bit_word_eqI) (auto simp: bit_simps)
  have f: "unat (ucast (fold_carries x) :: u16) = ones (unat x)" for x :: u32
    using fold_carries_ones [of x] ones_le [of "unat x"] by (simp add: unsigned_ucast_eq take_bit_eq_mod)
  have "ucast (fold_carries (word_sum xs 0)) = toBigEndian16 (ucast (fold_carries (sum16 xs 0)))"
    unfolding word_unat_eq_iff unat_toBigEndian16 f
    using small ones_swap [OF assms(1)] word_sum_total [of 0 xs] sum16_total [of 0 xs] by simp
  then show ?thesis unfolding calculateICMPChecksum_def n toBigEndian16_not by simp
qed


text \<open>C26: The echo request a program builds on its own is byte for byte the one the kernel builds for the
  same process number, sequence number and data: the two checksums agree, though the one adds the
  words as the processor reads them and the other in the order of the network.\<close>

theorem ping_packet_is_echo:
  "echo_message 8 (ucast (pid AND 0xFFFF)) 1 (map of_nat [8..<64]) 56 = Some (ping_packet pid, 64)"
proof -
  let ?i = "ucast (pid AND 0xFFFF) :: u16" and ?d = "map of_nat [8..<64] :: bytes"
  let ?c = "ucast (NOT (fold_carries (sum16 (echo_header 8 0 ?i 1 @ ?d) 0))) :: u16"
  have len: "length ?d = 56" "length (echo_header 8 0 ?i 1 @ ?d) = 64" by (simp_all add: echo_header_def)
  have "icmp_checksum (echo_header 8 0 ?i 1 @ ?d) 64 = Some ?c"
    using len by (simp add: icmp_checksum_def slice_def)
  moreover have "slice ?d 0 56 = Some ?d" by (simp add: slice_def)
  ultimately have e: "echo_message 8 ?i 1 ?d 56 = Some (echo_header 8 (toBigEndian16 ?c) ?i 1 @ ?d, 64)"
    using len(1) by (simp add: echo_message_def)
  have h: "ping_header c ?i = echo_header 8 c ?i 1" for c by (simp add: ping_header_def echo_header_def)
  have "calculateICMPChecksum (echo_header 8 0 ?i 1 @ ?d) = toBigEndian16 ?c"
    using len(2) by (intro checksum_swap) simp_all
  then show ?thesis unfolding e ping_packet_def h Let_def by simp
qed

section \<open>Addresses as text\<close>

text \<open>The digits of a number, and their value as the reader adds it up.\<close>

definition dec :: "u32 \<Rightarrow> bytes" where
  "dec v = (if v = 0 then [48] else map (digit_char False) (rev (digs 10 v)))"

lemma dec_printed: "number_text (itoa_u32 v 10 False) = Some (dec v)"
proof (cases "v = 0")
  case True
  then show ?thesis by (simp add: number_text_def itoa_u32_def itoa_unsigned_def dec_def)
next
  case False
  have "digit_char False d \<noteq> 0" if "d \<in> set (digs 10 v)" for d
    using digs_less [OF that] digit_of_char(2) [of d False] by (simp add: word_less_nat_alt)
  then have "takeWhile (\<lambda>c. c \<noteq> 0) (map (digit_char False) (rev (digs 10 v)) @ [0]) = map (digit_char False) (rev (digs 10 v))"
    by (intro takeWhile_tail [THEN trans]) (auto simp: takeWhile_eq_all_conv)
  then show ?thesis using itoa_u32_text [OF False, of 10 False] False by (simp add: number_text_def dec_def)
qed

definition value_of :: "nat \<Rightarrow> u32 list \<Rightarrow> nat" where
  "value_of r ds = foldl (\<lambda>r d. r * 10 + unat d) r ds"

lemma value_of_mono: "r \<le> value_of r ds"
proof (induction ds arbitrary: r)
  case (Cons d ds)
  have "r \<le> r * 10 + unat d" by simp
  also have "\<dots> \<le> value_of r (d # ds)" using Cons [of "r * 10 + unat d"] by (simp add: value_of_def)
  finally show ?case .
qed (simp add: value_of_def)

lemma value_of_digs: "value_of 0 (rev (digs 10 v)) = unat v"
proof (induction "10 :: u32" v rule: digs.induct)
  case (1 v)
  show ?case
  proof (cases "v = 0")
    case True
    then show ?thesis by (subst digs.simps) (simp add: value_of_def)
  next
    case False
    then have "value_of 0 (rev (digs 10 v)) = unat (v div 10) * 10 + unat (v mod 10)"
      using 1 by (subst digs.simps) (simp add: value_of_def)
    then show ?thesis by (simp add: unat_div unat_mod)
  qed
qed

lemma digit_step:
  assumes "d < (10 :: u32)"
  shows "is_digit (digit_char False d)" "ucast (digit_char False d) - 48 = d"
proof -
  have "list_all (\<lambda>n. let c = digit_char False (word_of_nat n :: u32) in is_digit c \<and> ucast c - 48 = (word_of_nat n :: u32)) [0..<10]"
    by (simp add: upt_conv_Cons digit_char_def is_digit_def)
  moreover have "unat d \<in> set [0..<10]" using assms by (simp add: word_less_nat_alt)
  moreover have "word_of_nat (unat d) = d" by simp
  ultimately have "is_digit (digit_char False d) \<and> ucast (digit_char False d) - 48 = d"
    unfolding list_all_iff Let_def by metis
  then show "is_digit (digit_char False d)" "ucast (digit_char False d) - 48 = d" by blast+
qed

lemma addr_digits:
  assumes "\<forall>d \<in> set ds. d < 10" and "value_of (unat v) ds \<le> 255"
  shows "addr_loop (map (digit_char False) ds @ rest) octets v b =
    addr_loop rest octets (of_nat (value_of (unat v) ds)) (b \<or> ds \<noteq> [])"
  using assms
proof (induction ds arbitrary: v b)
  case (Cons d ds)
  let ?v = "v * 10 + d"
  have d: "d < 10" "unat d < 10" using Cons.prems by (simp_all add: word_less_nat_alt)
  have le: "unat v * 10 + unat d \<le> 255"
    using value_of_mono [of "unat v * 10 + unat d" ds] Cons.prems(2) by (simp add: value_of_def)
  then have u: "unat ?v = unat v * 10 + unat d" by (simp add: unat_word_ariths)
  then have "\<not> 255 < ?v" using le by (simp add: word_less_nat_alt)
  moreover have "value_of (unat ?v) ds = value_of (unat v) (d # ds)" by (simp add: u value_of_def)
  ultimately show ?case using Cons digit_step [OF d(1)] by (simp add: Let_def)
qed (simp add: value_of_def)

lemma addr_dec:
  assumes "v \<le> 255"
  shows "addr_loop (dec v @ rest) octets 0 False = addr_loop rest octets v True"
proof (cases "v = 0")
  case True
  then show ?thesis by (simp add: dec_def is_digit_def)
next
  case False
  have "\<forall>d \<in> set (rev (digs 10 v)). d < 10" using digs_less by auto
  moreover have "unat v \<le> 255" using assms by (simp add: word_le_nat_alt)
  moreover have "digs 10 v \<noteq> []" using digs_nonempty [OF False, of 10] by simp
  ultimately show ?thesis
    using addr_digits [of "rev (digs 10 v)" 0 rest octets False] False by (simp add: dec_def value_of_digs)
qed

lemma formatted:
  "vsprintf_from (ascii ''%u.%u.%u.%u'' @ [0]) [Word a, Word b, Word c, Word d] =
     Some (dec a @ 46 # dec b @ 46 # dec c @ 46 # dec d)"
proof -
  have f: "ascii ''%u.%u.%u.%u'' @ [0] = [37, 117, 46, 37, 117, 46, 37, 117, 46, 37, 117, 0]"
    by (simp add: ascii_def)
  have "padded 0 t = t" for t by (simp add: padded_def)
  then show ?thesis unfolding f
    by (simp add: spec_def rd_at_def is_digit_def convert_def arg_word_def dec_printed)
qed

lemma octet_bounds: "octet n ip \<le> 255"
  by (simp add: octet_def word_and_le1)

lemma length_digs: "unat v < 10 ^ k \<Longrightarrow> length (digs 10 v) \<le> k"
proof (induction k arbitrary: v)
  case 0
  then have "v = 0" by (simp add: unsigned_eq_0_iff)
  then show ?case by (subst digs.simps) simp
next
  case (Suc k)
  have "unat (v div 10) < 10 ^ k" using Suc.prems by (simp add: unat_div less_mult_imp_div_less mult.commute)
  then show ?case using Suc.IH [of "v div 10"] by (subst digs.simps) simp
qed

lemma length_dec: "v \<le> 255 \<Longrightarrow> length (dec v) \<le> 3"
  using length_digs [of v 3] by (simp add: dec_def word_le_nat_alt)

lemma octet_ucast: "ucast (ucast (octet n ip) :: u8) = octet n ip"
proof -
  have m: "(0xFF :: u32) = mask 8" by (simp add: mask_eq_exp_minus_1)
  show ?thesis unfolding octet_def m by (rule bit_word_eqI) (auto simp: bit_simps)
qed

lemma octets_join:
  "push_bit 24 (octet 24 ip) OR push_bit 16 (octet 16 ip) OR push_bit 8 (octet 8 ip) OR octet 0 ip = ip"
proof -
  have m: "(0xFF :: u32) = mask 8" by (simp add: mask_eq_exp_minus_1)
  show ?thesis unfolding octet_def m
  proof (rule bit_word_eqI)
    fix n assume "n < LENGTH(32)"
    then consider "n < 8" | "8 \<le> n" "n < 16" | "16 \<le> n" "n < 24" | "24 \<le> n" "n < 32" by fastforce
    then show "bit (push_bit 24 (drop_bit 24 ip AND mask 8) OR push_bit 16 (drop_bit 16 ip AND mask 8) OR
        push_bit 8 (drop_bit 8 ip AND mask 8) OR (drop_bit 0 ip AND mask 8)) n = bit ip n"
      by cases (auto simp: bit_simps)
  qed
qed

text \<open>C27: An address that is written as text is read back, whatever buffer of sixteen or more bytes it is
  written to.\<close>

theorem address_read_back:
  assumes "16 \<le> n" and "16 \<le> length buffer"
  shows "\<exists>text rest. inet_ntoa_r ip buffer n = Some (Some (text @ 0 # rest)) \<and> inet_addr text = ip"
proof -
  let ?o = "\<lambda>k. octet k ip" and ?f = "ascii ''%u.%u.%u.%u'' @ [0]"
  let ?t = "dec (?o 24) @ 46 # dec (?o 16) @ 46 # dec (?o 8) @ 46 # dec (?o 0)"
  have "length ?t \<le> 15" using octet_bounds [THEN length_dec, of 24 ip] octet_bounds [THEN length_dec, of 16 ip]
      octet_bounds [THEN length_dec, of 8 ip] octet_bounds [THEN length_dec, of 0 ip] by simp
  then have l: "length ?t < 1024" "min n (length ?t) = length ?t" "length ?t < length buffer" "length ?t \<le> n"
    using assms by linarith+
  have "inet_ntoa_r ip buffer n = Some (Some (?t @ 0 # drop (Suc (length ?t)) buffer))"
    using assms(1) l vsnprintf_result [where str = buffer and n = n, OF formatted l(1)]
    by (simp add: inet_ntoa_r_def snprintf_def)
  moreover have "inet_addr ?t = ip"
    using octets_join [of ip] addr_dec [OF octet_bounds, of 0 ip "[]"]
    by (simp add: inet_addr_def addr_dec [OF octet_bounds] is_digit_def octet_ucast)
  ultimately show ?thesis by blast
qed

theorem address_read_back_witness:
  "\<exists>text rest. inet_ntoa_r 0xC0A80001 (replicate 16 0) 16 = Some (Some (text @ 0 # rest)) \<and> inet_addr text = 0xC0A80001"
  by (rule address_read_back) simp_all

section \<open>Names\<close>

lemma u_name_skip:
  assumes "\<forall>i \<in> set is. i < length name \<and> name ! i \<noteq> 0x2E"
  shows "u_name_loop name (is @ js) start out = u_name_loop name js start out"
  using assms by (induction "is") simp_all

lemma u_name_label:
  assumes l: "proper_label l" and d: "drop p name = l @ rest" "rest = [] \<or> hd rest = 0x2E"
  shows "u_name_loop name ([p..<p + length l] @ (p + length l) # js) p out =
    u_name_loop name js (p + length l + 1) (out @ of_nat (length l) # map dns_lower l)"
proof -
  have "length name - p = length l + length rest" "0 < length l"
    using arg_cong [OF d(1), of length] l by (simp_all add: proper_label_def)
  then have p: "p < length name" "p + length l \<le> length name" by linarith+
  have nth: "name ! (p + i) = (l @ rest) ! i" if "p + i < length name" for i
    unfolding d(1) [symmetric] using that by (simp add: nth_drop)
  have "\<forall>i \<in> set [p..<p + length l]. i < length name \<and> name ! i \<noteq> 0x2E"
  proof
    fix i assume "i \<in> set [p..<p + length l]"
    then obtain k where k: "i = p + k" "k < length l" by (auto simp: le_iff_add)
    then have "name ! i \<in> set l" using nth [of k] p by (simp add: nth_append)
    then show "i < length name \<and> name ! i \<noteq> 0x2E" using l k p by (auto simp: proper_label_def)
  qed
  note skip = u_name_skip [OF this]
  have e: "p + length l = length name \<or> name ! (p + length l) = 0x2E"
    using d(2) nth [of "length l"] p arg_cong [OF d(1), of length]
    by (cases rest) (auto simp: nth_append)
  have sl: "slice name p (length l) = Some l" using p d(1) by (simp add: slice_def)
  show ?thesis unfolding skip using e sl l by (auto simp: proper_label_def Let_def)
qed

lemma u_name_labels:
  assumes "ls \<noteq> []" and "list_all proper_label ls" and "drop p name = dotted ls"
  shows "u_name_loop name [p..<p + length (dotted ls) + 1] p out = Some (Some (out @ wire ls))"
  using assms
proof (induction ls arbitrary: p out rule: dotted.induct)
  case (2 l)
  then show ?case using u_name_label [of l p name "[]" "[]" out] by simp
next
  case (3 l m ls)
  let ?d = "dotted (m # ls)" and ?out = "out @ of_nat (length l) # map dns_lower l"
  have d: "drop p name = l @ 0x2E # ?d" using 3 by simp
  have dp: "drop (p + length l + 1) name = ?d"
    using arg_cong [OF d, of "drop (length l + 1)"] by (simp add: add_ac)
  have u: "[p..<p + length (dotted (l # m # ls)) + 1] =
      [p..<p + length l] @ (p + length l) # [p + length l + 1..<p + length l + 1 + length ?d + 1]"
    using upt_around [of p "length l" "length ?d + 1"] by (simp add: add_ac)
  have e: "u_name_loop name [p + length l + 1..<p + length l + 1 + length ?d + 1] (p + length l + 1) ?out =
      Some (Some (?out @ wire (m # ls)))"
    using 3 dp by (intro 3) simp_all
  have lb: "proper_label l" using 3 by simp
  have s: "u_name_loop name ([p..<p + length l] @ (p + length l) # js) p out = u_name_loop name js (p + length l + 1) ?out" for js
    by (rule u_name_label [OF lb d]) simp
  show ?case unfolding u add.assoc [of "p + length l + 1" "length ?d" 1, symmetric] s e by simp
qed simp

text \<open>The library and the kernel encode a name of proper labels to the same bytes: lower case labels, each
  behind its length, and a zero byte.\<close>

lemma names_encoded_alike:
  assumes "ls \<noteq> []" and "list_all proper_label ls" and "length (dotted ls) \<le> 253"
  shows "encodeDNSName (dotted ls) 500 = Some (Inr (wire ls @ [0])) \<and>
    encodeDomainName (dotted ls @ [0]) 500 = Some (wire ls @ [0])"
proof -
  have "dotted ls \<noteq> []" using assms(1,2) by (cases ls rule: dotted.cases) (auto simp: proper_label_def)
  then have "encodeDNSName (dotted ls) 500 = Some (Inr (wire ls @ [0]))"
    using assms u_name_labels [OF assms(1,2), of 0 "dotted ls" "[]"] by (simp add: encodeDNSName_def del: upt_Suc)
  then show ?thesis using assms encodeDomainName_wire [OF assms(1,2), of 500 "[]"] by simp
qed

lemma names_encoded_alike_witness:
  "encodeDNSName (dotted [[0x61, 0x42], [0x63]]) 500 = Some (Inr (wire [[0x61, 0x42], [0x63]] @ [0])) \<and>
    encodeDomainName (dotted [[0x61, 0x42], [0x63]] @ [0]) 500 = Some (wire [[0x61, 0x42], [0x63]] @ [0])"
  by (rule names_encoded_alike) (simp_all add: proper_label_def)

section \<open>Responses\<close>

text \<open>A response whose last record announces an address but ends before it: the library returns the four
  bytes behind the response in its buffer, the kernel reports no address.\<close>

lemma address_behind_response:
  fixes h0 h1 h2 h3 h4 h5 h8 h9 h10 h11 t0 t1 t2 t3 x y z w :: byte and rest :: bytes
  defines "response \<equiv> [h0, h1, h2, h3, h4, h5, 0, 1, h8, h9, h10, h11, 0, 0, 1, 0, 1, 0xC0, 12, 0, 1, 0, 1, t0, t1, t2, t3, 0, 4] @ [x, y, z, w] @ rest"
  shows "parseDNSResponse response 29 = Some (Inr (push_bit 24 (ucast x) OR push_bit 16 (ucast y) OR push_bit 8 (ucast z) OR ucast w))"
    and "parse_answers response 29 1 17 = Some None"
proof -
  have r: "rd_at response 12 = Some 0" "rd_at response 17 = Some 0xC0" "be16_at response 19 = Some 1" "be16_at response 27 = Some 4"
    "be16_at response 21 = Some 1"
    "be32_at response 29 = Some (push_bit 24 (ucast x) OR push_bit 16 (ucast y) OR push_bit 8 (ucast z) OR ucast w)"
    by (simp_all add: response_def rd_at_def be16_at_def be32_at_def)
  have n: "get_uint16_t response 6 = Some (le16 0 1)"
    by (simp add: response_def get_uint16_t_def slice_def)
  have "unat (toBigEndian16 (le16 0 1)) = 1"
    by (simp add: unat_toBigEndian16 unat_le16 swapped_def)
  moreover have "skip_labels 63 response 29 12 = Some (Some 12)" by (subst skip_labels.simps) (simp add: r)
  ultimately show "parseDNSResponse response 29 = Some (Inr (push_bit 24 (ucast x) OR push_bit 16 (ucast y) OR push_bit 8 (ucast z) OR ucast w))"
    using u_records.simps(2) [of response 29 0 17] by (simp add: parseDNSResponse_def n Let_def r)
  show "parse_answers response 29 1 17 = Some None"
    using parse_answers.simps(2) [of response 29 0 17] by (simp add: r)
qed

end
