(* ===== verification/Segments.thy ===== *)
theory Segments
  imports Prelude
begin

text \<open>
  The descriptors the processor reads from memory: segments (\<open>core/GlobalDescriptorTable.cpp\<close>) and interrupt
  gates (\<open>core/Interrupts.cpp\<close>). A packed structure is the record of its fields, each of its own width, and
  the bytes the processor sees. Loading the tables into the processor is not modelled.
\<close>

section \<open>Segments\<close>

record segment_input =
  si_base :: u32
  si_limitRaw :: u32
  si_codeData :: bool
  si_codeDataType :: u8
  si_systemType :: u8
  si_privilege :: "2 word"
  si_present :: bool
  si_page :: bool
  si_operand32 :: bool
  si_longMode :: bool
  si_availableSW :: bool

record descriptor_bits =
  limit_0_15 :: u16
  base_0_15 :: u16
  base_16_23 :: u8
  segmentType :: "4 word"
  segmentKind :: bool
  privilege :: "2 word"
  presence :: bool
  limit_16_19 :: "4 word"
  isAvailableSW :: bool
  isLongMode :: bool
  defaultOperand32 :: bool
  granularity :: bool
  base_24_31 :: u8

definition segmentDescriptor :: "segment_input \<Rightarrow> descriptor_bits" where
  "segmentDescriptor i =
     (let lim20 = si_limitRaw i AND 0xFFFFF in
      \<lparr>limit_0_15 = ucast (lim20 AND 0xFFFF), base_0_15 = ucast (si_base i AND 0xFFFF),
       base_16_23 = ucast (drop_bit 16 (si_base i) AND 0xFF),
       segmentType = ucast (if si_codeData i then si_codeDataType i else si_systemType i),
       segmentKind = si_codeData i, privilege = si_privilege i, presence = si_present i,
       limit_16_19 = ucast (drop_bit 16 lim20 AND 0x0F), isAvailableSW = si_availableSW i, isLongMode = si_longMode i,
       defaultOperand32 = si_operand32 i, granularity = si_page i, base_24_31 = ucast (drop_bit 24 (si_base i) AND 0xFF)\<rparr>)"

definition getBase :: "descriptor_bits \<Rightarrow> u32" where
  "getBase d = push_bit 24 (ucast (base_24_31 d)) OR push_bit 16 (ucast (base_16_23 d)) OR ucast (base_0_15 d)"

definition getLimit :: "descriptor_bits \<Rightarrow> u32" where
  "getLimit d = push_bit 16 (ucast (limit_16_19 d)) OR ucast (limit_0_15 d)"

definition effectiveLimit :: "descriptor_bits \<Rightarrow> u32" where
  "effectiveLimit d = (if granularity d then push_bit 12 (getLimit d) OR 0xFFF else getLimit d)"

definition code_data :: "u8 \<Rightarrow> 2 word \<Rightarrow> segment_input" where
  "code_data type ring = \<lparr>si_base = 0, si_limitRaw = 0xFFFFF, si_codeData = True, si_codeDataType = type, si_systemType = 9,
     si_privilege = ring, si_present = True, si_page = True, si_operand32 = True, si_longMode = False, si_availableSW = False\<rparr>"

text \<open>Null, kernel code and data, user code and data, and the task state segment at \<open>tss\<close>, of 104 bytes.\<close>

definition globalDescriptorTable :: "u32 \<Rightarrow> descriptor_bits list" where
  "globalDescriptorTable tss =
     map segmentDescriptor
       [(code_data 10 0)\<lparr>si_limitRaw := 0, si_codeData := False, si_systemType := 0, si_present := False, si_page := False,
          si_operand32 := False\<rparr>,
        code_data 10 0, code_data 2 0, code_data 10 3, code_data 2 3,
        (code_data 10 0)\<lparr>si_base := tss, si_limitRaw := 103, si_codeData := False, si_systemType := 9, si_page := False\<rparr>]"

text \<open>A selector: the offset of a descriptor in the table, with the privilege it asks for.\<close>

definition selector :: "nat \<Rightarrow> u16 \<Rightarrow> u16" where
  "selector index rpl = (of_nat (8 * index) AND 0xFFFC) OR rpl"

section \<open>Interrupt gates\<close>

datatype gate_type = TaskGate | InterruptGate | TrapGate

fun gate_code :: "gate_type \<Rightarrow> u8" where
  "gate_code TaskGate = 5"
| "gate_code InterruptGate = 14"
| "gate_code TrapGate = 15"

record interrupt_entry =
  handlerAddressLow :: u16
  gate_selector :: u16
  reserved :: u8
  attributes :: u8
  handlerAddressHigh :: u16

definition gate :: "u16 \<Rightarrow> u32 \<Rightarrow> u8 \<Rightarrow> gate_type \<Rightarrow> interrupt_entry" where
  "gate codeSegmentSelector handler ring type =
     \<lparr>handlerAddressLow = ucast (handler AND 0xFFFF), gate_selector = codeSegmentSelector, reserved = 0,
      attributes = gate_code type OR push_bit 5 ring OR push_bit 7 1, handlerAddressHigh = ucast (drop_bit 16 handler)\<rparr>"

definition setDescriptor ::
    "u8 \<Rightarrow> u16 \<Rightarrow> u32 \<Rightarrow> u8 \<Rightarrow> gate_type \<Rightarrow> interrupt_entry list \<Rightarrow> interrupt_entry list option" where
  "setDescriptor vector sel handler ring type table = wr_at table (unat vector) (gate sel handler ring type)"

definition gate_handler :: "interrupt_entry \<Rightarrow> u32" where
  "gate_handler e = push_bit 16 (ucast (handlerAddressHigh e)) OR ucast (handlerAddressLow e)"

text \<open>
  The table of the processor: the default routine everywhere, a routine of its own (at \<open>isr v\<close>) for the
  exceptions and interrupts, and the one for system calls, which programs may raise.
\<close>

definition routines :: "u8 list" where
  "routines = [0, 1, 2, 3, 4, 5, 6, 7, 8, 10, 11, 12, 13, 14] @ map of_nat [0x20..<0x30]"

definition no_gate :: interrupt_entry where
  "no_gate = \<lparr>handlerAddressLow = 0, gate_selector = 0, reserved = 0, attributes = 0, handlerAddressHigh = 0\<rparr>"

definition interruptDescriptorTable :: "u16 \<Rightarrow> u32 \<Rightarrow> (u8 \<Rightarrow> u32) \<Rightarrow> interrupt_entry list option" where
  "interruptDescriptorTable code default_isr isr =
     do { t \<leftarrow> fold_opt (\<lambda>v. setDescriptor v code default_isr 0 InterruptGate) (map of_nat [0..<256]) (replicate 256 no_gate);
          t \<leftarrow> fold_opt (\<lambda>v. setDescriptor v code (isr v) 0 InterruptGate) routines t;
          setDescriptor 0x80 code (isr 0x80) 3 InterruptGate t }"

section \<open>What the processor reads back\<close>

lemma masks: "(0xFF :: u32) = mask 8" "(0xFFFF :: u32) = mask 16" "(0xF :: u32) = mask 4" "(0xFFFFF :: u32) = mask 20"
  by (simp_all add: mask_eq_exp_minus_1)

lemma base_joined:
  "push_bit 24 (ucast (ucast (drop_bit 24 (v :: u32) AND mask 8) :: u8)) OR push_bit 16 (ucast (ucast (drop_bit 16 v AND mask 8) :: u8)) OR
     (ucast (ucast (v AND mask 16) :: u16) :: u32) = v"
proof (rule bit_word_eqI)
  fix n assume "n < LENGTH(32)"
  then consider "n < 16" | "16 \<le> n" "n < 24" | "24 \<le> n" "n < 32" by fastforce
  then show "bit (push_bit 24 (ucast (ucast (drop_bit 24 v AND mask 8) :: u8)) OR push_bit 16 (ucast (ucast (drop_bit 16 v AND mask 8) :: u8)) OR
     (ucast (ucast (v AND mask 16) :: u16) :: u32)) n = bit v n"
    by cases (auto simp: bit_simps)
qed

lemma limit_joined:
  "push_bit 16 (ucast (ucast (drop_bit 16 ((v :: u32) AND mask 20) AND mask 4) :: 4 word)) OR
     (ucast (ucast ((v AND mask 20) AND mask 16) :: u16) :: u32) = v AND mask 20"
proof (rule bit_word_eqI)
  fix n assume "n < LENGTH(32)"
  then consider "n < 16" | "16 \<le> n" "n < 20" | "20 \<le> n" "n < 32" by fastforce
  then show "bit (push_bit 16 (ucast (ucast (drop_bit 16 (v AND mask 20) AND mask 4) :: 4 word)) OR
     (ucast (ucast ((v AND mask 20) AND mask 16) :: u16) :: u32)) n = bit (v AND mask 20) n"
    by cases (auto simp: bit_simps)
qed

lemma base_read_back: "getBase (segmentDescriptor i) = si_base i"
  unfolding getBase_def segmentDescriptor_def Let_def masks using base_joined [of "si_base i"] by simp

lemma limit_read_back: "getLimit (segmentDescriptor i) = si_limitRaw i AND 0xFFFFF"
  unfolding getLimit_def segmentDescriptor_def Let_def masks using limit_joined [of "si_limitRaw i"] by (simp del: drop_bit_and)

lemma handler_read_back: "gate_handler (gate sel handler ring type) = handler"
proof -
  have "push_bit 16 (ucast (ucast (drop_bit 16 handler) :: u16)) OR (ucast (ucast (handler AND mask 16) :: u16) :: u32) = handler"
  proof (rule bit_word_eqI)
    fix n assume "n < LENGTH(32)"
    then consider "n < 16" | "16 \<le> n" "n < 32" by fastforce
    then show "bit (push_bit 16 (ucast (ucast (drop_bit 16 handler) :: u16)) OR (ucast (ucast (handler AND mask 16) :: u16) :: u32)) n = bit handler n"
      by cases (auto simp: bit_simps)
  qed
  then show ?thesis by (simp add: gate_handler_def gate_def masks)
qed

text \<open>How the processor reads the attributes of a gate: whether it is there, of which kind it is (the
  system bit with it), and from which privilege a program may raise it.\<close>

definition gate_present :: "interrupt_entry \<Rightarrow> bool" where
  "gate_present e \<longleftrightarrow> bit (attributes e) 7"

definition gate_kind :: "interrupt_entry \<Rightarrow> u8" where
  "gate_kind e = attributes e AND 0x1F"

definition from_program :: "interrupt_entry \<Rightarrow> bool" where
  "from_program e \<longleftrightarrow> drop_bit 5 (attributes e) AND 3 = 3"

lemma table_fold:
  assumes "\<forall>v \<in> set vs. unat v < length t"
  shows "\<exists>u. fold_opt (\<lambda>v. setDescriptor v code (f v) 0 InterruptGate) vs t = Some u \<and> length u = length t \<and>
    (\<forall>i < length t. u ! i = (if i \<in> unat ` set vs then gate code (f (of_nat i)) 0 InterruptGate else t ! i))"
  using assms
proof (induction vs arbitrary: t)
  case (Cons v vs)
  have v: "unat v < length t" using Cons.prems by simp
  let ?t = "t[unat v := gate code (f v) 0 InterruptGate]"
  obtain u where u: "fold_opt (\<lambda>v. setDescriptor v code (f v) 0 InterruptGate) vs ?t = Some u" "length u = length t"
    "\<forall>i < length t. u ! i = (if i \<in> unat ` set vs then gate code (f (of_nat i)) 0 InterruptGate else ?t ! i)"
    using Cons.IH [of ?t] Cons.prems by auto
  have "setDescriptor v code (f v) 0 InterruptGate t = Some ?t" using v by (simp add: setDescriptor_def wr_at_def)
  then show ?case using u by (auto simp: nth_list_update)
qed simp

lemma gate_read_back:
  "\<not> from_program (gate sel h 0 InterruptGate)" "from_program (gate sel h 3 InterruptGate)"
  "ring \<in> {0, 3} \<Longrightarrow> gate_present (gate sel h ring InterruptGate)"
  "ring \<in> {0, 3} \<Longrightarrow> gate_kind (gate sel h ring InterruptGate) = 0xE"
  "gate_selector (gate sel h ring type) = sel" "reserved (gate sel h ring type) = 0"
  by (auto simp: from_program_def gate_present_def gate_kind_def gate_def bit_simps)

text \<open>The finished table: every gate is there and is an interrupt gate into the given code segment, a
  program can raise the interrupt of the system calls and no other, and every interrupt with a routine
  of its own goes there.\<close>

lemma table_spec:
  "\<exists>t. interruptDescriptorTable code d isr = Some t \<and> length t = 256 \<and>
    (\<forall>i < 256. gate_present (t ! i) \<and> gate_kind (t ! i) = 0xE \<and> reserved (t ! i) = 0 \<and> gate_selector (t ! i) = code \<and>
       (from_program (t ! i) \<longleftrightarrow> i = 0x80) \<and>
       gate_handler (t ! i) = (if i = 0x80 \<or> i \<in> unat ` set routines then isr (of_nat i) else d))"
proof -
  let ?z = "replicate 256 no_gate" and ?all = "map of_nat [0..<256] :: u8 list"
  have all: "i \<in> unat ` set ?all" if "i < 256" for i
  proof -
    have "unat (of_nat i :: u8) = i" using that by (simp add: unat_of_nat)
    then show ?thesis using that by (auto simp: image_iff intro!: bexI [of _ i])
  qed
  obtain t where t: "fold_opt (\<lambda>v. setDescriptor v code d 0 InterruptGate) ?all ?z = Some t" "length t = 256"
    "\<forall>i < 256. t ! i = gate code d 0 InterruptGate"
    using table_fold [of ?all ?z code "\<lambda>_. d"] all unat_u8_lt by auto
  obtain u where u: "fold_opt (\<lambda>v. setDescriptor v code (isr v) 0 InterruptGate) routines t = Some u" "length u = 256"
    "\<forall>i < 256. u ! i = (if i \<in> unat ` set routines then gate code (isr (of_nat i)) 0 InterruptGate else t ! i)"
    using table_fold [of routines t code isr] unat_u8_lt t(2) by auto
  have "setDescriptor 0x80 code (isr 0x80) 3 InterruptGate u = Some (u[128 := gate code (isr 0x80) 3 InterruptGate])"
    using u(2) by (simp add: setDescriptor_def wr_at_def)
  then have "interruptDescriptorTable code d isr = Some (u[128 := gate code (isr 0x80) 3 InterruptGate])"
    using t(1) u(1) by (simp add: interruptDescriptorTable_def)
  then show ?thesis
    using t(3) u(2,3) by (auto simp: nth_list_update gate_read_back handler_read_back)
qed

end
