(* ===== verification/Ports.thy ===== *)
theory Ports
  imports Prelude
begin

text \<open>
  Input and output ports (\<open>core/port.cpp\<close>) and what is reached through a pair of them: the registers of the
  CMOS (\<open>peripherals/CMOS.cpp\<close>), the controller of keyboard and mouse, the interrupt controllers and
  the timer. A device is not part of the sources: it is a state of any type, and the record \<open>bus\<close> says
  how it answers an access.
\<close>

record 'd bus =
  in8 :: "u16 \<Rightarrow> 'd \<Rightarrow> u8 \<times> 'd"
  out8 :: "u16 \<Rightarrow> u8 \<Rightarrow> 'd \<Rightarrow> 'd"
  in16 :: "u16 \<Rightarrow> 'd \<Rightarrow> u16 \<times> 'd"
  out16 :: "u16 \<Rightarrow> u16 \<Rightarrow> 'd \<Rightarrow> 'd"
  in32 :: "u16 \<Rightarrow> 'd \<Rightarrow> u32 \<times> 'd"
  out32 :: "u16 \<Rightarrow> u32 \<Rightarrow> 'd \<Rightarrow> 'd"

text \<open>Every port takes and gives a 32-bit value and passes on its low part.\<close>

definition byte_write :: "'d bus \<Rightarrow> u16 \<Rightarrow> u32 \<Rightarrow> 'd \<Rightarrow> 'd" where
  "byte_write b port v = out8 b port (ucast v)"

definition byte_read :: "'d bus \<Rightarrow> u16 \<Rightarrow> 'd \<Rightarrow> u32 \<times> 'd" where
  "byte_read b port d = (let (v, d) = in8 b port d in (ucast v, d))"

definition word_write :: "'d bus \<Rightarrow> u16 \<Rightarrow> u32 \<Rightarrow> 'd \<Rightarrow> 'd" where
  "word_write b port v = out16 b port (ucast v)"

definition word_read :: "'d bus \<Rightarrow> u16 \<Rightarrow> 'd \<Rightarrow> u32 \<times> 'd" where
  "word_read b port d = (let (v, d) = in16 b port d in (ucast v, d))"

definition double_write :: "'d bus \<Rightarrow> u16 \<Rightarrow> u32 \<Rightarrow> 'd \<Rightarrow> 'd" where
  "double_write b port v = out32 b port v"

definition double_read :: "'d bus \<Rightarrow> u16 \<Rightarrow> 'd \<Rightarrow> u32 \<times> 'd" where
  "double_read b port d = in32 b port d"

text \<open>Reading a port until its value is as wanted; a device that never answers keeps the loop going.\<close>

partial_function (option) poll_until :: "'d bus \<Rightarrow> u16 \<Rightarrow> (u32 \<Rightarrow> bool) \<Rightarrow> 'd \<Rightarrow> 'd option" where
  "poll_until b port wanted d =
     (let (v, d) = byte_read b port d in if wanted v then Some d else poll_until b port wanted d)"

section \<open>CMOS\<close>

definition cmos_write :: "'d bus \<Rightarrow> u8 \<Rightarrow> u8 \<Rightarrow> 'd \<Rightarrow> 'd" where
  "cmos_write b index value d = byte_write b 0x71 (ucast value) (byte_write b 0x70 (ucast index) d)"

definition cmos_read :: "'d bus \<Rightarrow> u8 \<Rightarrow> 'd \<Rightarrow> u8 \<times> 'd" where
  "cmos_read b index d = (let (v, d) = byte_read b 0x71 (byte_write b 0x70 (ucast index) d) in (ucast v, d))"

section \<open>The controller of keyboard and mouse\<close>

definition waitForInputBufferEmpty :: "'d bus \<Rightarrow> 'd \<Rightarrow> 'd option" where
  "waitForInputBufferEmpty b = poll_until b 0x64 (\<lambda>v. v AND 0x02 = 0)"

definition waitForOutputBufferFull :: "'d bus \<Rightarrow> 'd \<Rightarrow> 'd option" where
  "waitForOutputBufferFull b = poll_until b 0x64 (\<lambda>v. v AND 0x01 \<noteq> 0)"

text \<open>Writing to the command port, writing to the data port and reading from it, each when it is ready.\<close>

definition command :: "'d bus \<Rightarrow> u32 \<Rightarrow> 'd \<Rightarrow> 'd option" where
  "command b v d = do { d \<leftarrow> waitForInputBufferEmpty b d; Some (byte_write b 0x64 v d) }"

definition data_out :: "'d bus \<Rightarrow> u32 \<Rightarrow> 'd \<Rightarrow> 'd option" where
  "data_out b v d = do { d \<leftarrow> waitForInputBufferEmpty b d; Some (byte_write b 0x60 v d) }"

definition data_in :: "'d bus \<Rightarrow> 'd \<Rightarrow> (u32 \<times> 'd) option" where
  "data_in b d = do { d \<leftarrow> waitForOutputBufferFull b d; Some (byte_read b 0x60 d) }"

text \<open>Throwing away what is left in the output buffer.\<close>

partial_function (option) drain :: "'d bus \<Rightarrow> 'd \<Rightarrow> 'd option" where
  "drain b d =
     (let (v, d) = byte_read b 0x64 d in
      if v AND 0x01 \<noteq> 0 then drain b (snd (byte_read b 0x60 d)) else Some d)"

text \<open>The configuration byte: read, changed and written back.\<close>

definition configure :: "'d bus \<Rightarrow> (u8 \<Rightarrow> u8) \<Rightarrow> 'd \<Rightarrow> 'd option" where
  "configure b change d =
     do { d \<leftarrow> command b 0x20 d;
          (v, d) \<leftarrow> data_in b d;
          d \<leftarrow> command b 0x60 d;
          data_out b (ucast (change (ucast v))) d }"

end
