(* ===== verification/Input.thy ===== *)
theory Input
  imports Ports Windows
begin

text \<open>
  Keyboard and mouse (\<open>core/peripherals/Keyboard.cpp\<close>, \<open>Mouse.cpp\<close>): starting them over the ports of their
  controller, and what an interrupt does with the byte it fetches: a scan code changes the modifiers
  and becomes an event of the window manager, three bytes of the mouse become one.
\<close>

section \<open>Keyboard\<close>

record keyboard =
  kb_last :: nat
  kb_buffer :: bytes
  kb_shift :: bool
  kb_ctrl :: bool
  kb_alt :: bool
  kb_capsLock :: bool
  kb_numLock :: bool
  kb_scrollLock :: bool
  kb_counter :: "64 word"

definition newKeyboard :: keyboard where
  "newKeyboard = \<lparr>kb_last = 0, kb_buffer = replicate 10 0, kb_shift = False, kb_ctrl = False, kb_alt = False,
     kb_capsLock = False, kb_numLock = False, kb_scrollLock = False, kb_counter = 0\<rparr>"

text \<open>The table of the 128 keys; shift makes no difference.\<close>

definition qwertzToAscii :: bytes where
  "qwertzToAscii =
     [0, 27] @ map of_char ''1234567890B/'' @ [8, 9] @ map of_char ''qwertzuiopu+'' @ [10, 0] @
     map of_char ''asdfghjkloa#'' @ [0] @ map of_char ''#yxcvbnm,./'' @ [0] @ map of_char ''*'' @ [0] @ map of_char '' '' @
     replicate 70 0"

text \<open>The answer to the last command has to be an acknowledgement.\<close>

definition keyboard_initialize :: "'d bus \<Rightarrow> 'd \<Rightarrow> (bool \<times> 'd) option" where
  "keyboard_initialize b d =
     do { d \<leftarrow> command b 0xAD d;
          d \<leftarrow> drain b d;
          d \<leftarrow> configure b (\<lambda>c. (c OR 0x01 OR 0x02) AND NOT 0x10 AND NOT 0x20) d;
          d \<leftarrow> command b 0xAE d;
          d \<leftarrow> data_out b 0xF4 d;
          (response, d) \<leftarrow> data_in b d;
          Some (response = 0xFA, d) }"

text \<open>\<open>togglKey\<close> does nothing.\<close>

definition togglKey :: "u32 \<Rightarrow> bool" where
  "togglKey lockKey = False"

definition updateLockKeyStatus :: "'d bus \<Rightarrow> keyboard \<times> 'd \<Rightarrow> bool \<times> keyboard \<times> 'd" where
  "updateLockKeyStatus b = (\<lambda>(k, d).
     let (ack, d) = byte_read b 0x60 (byte_write b 0x64 0xED d) in
     if ack \<noteq> 0xFA then (False, k, d)
     else let (led, d) = byte_read b 0x60 d in
       if led = 0xFF then (False, k, d)
       else (True, k\<lparr>kb_scrollLock := led AND 0x01 \<noteq> 0, kb_numLock := led AND 0x02 \<noteq> 0, kb_capsLock := led AND 0x04 \<noteq> 0\<rparr>, d))"

definition toggleLockKeys :: "'d bus \<Rightarrow> u8 \<Rightarrow> keyboard \<times> 'd \<Rightarrow> keyboard \<times> 'd" where
  "toggleLockKeys b keyCode = (\<lambda>(k, d).
     let d = byte_write b 0x60 0xED d;
         off = (keyCode = 0x3A \<and> \<not> kb_capsLock k \<or> keyCode = 0x45 \<and> \<not> kb_numLock k \<or> keyCode = 0x46 \<and> \<not> kb_scrollLock k);
         (ack, d) = byte_read b 0x60 (byte_write b 0x60 (if off then 0 else 7) d)
     in if ack = 0xFA
        then (k\<lparr>kb_capsLock := (if keyCode = 0x3A then \<not> kb_capsLock k else kb_capsLock k),
                kb_numLock := (if keyCode = 0x45 then \<not> kb_numLock k else kb_numLock k),
                kb_scrollLock := (if keyCode = 0x46 then \<not> kb_scrollLock k else kb_scrollLock k)\<rparr>, d)
        else (k, d))"

definition initializeLockKeys :: "'d bus \<Rightarrow> keyboard \<times> 'd \<Rightarrow> keyboard \<times> 'd" where
  "initializeLockKeys b kd = toggleLockKeys b 0x46 (toggleLockKeys b 0x45 (toggleLockKeys b 0x3A kd))"

text \<open>What a scan code does: the modifiers, the lock keys, the ring of characters and the event.\<close>

definition key_modifiers :: "u8 \<Rightarrow> bool \<Rightarrow> keyboard \<Rightarrow> keyboard" where
  "key_modifiers key pressed k =
     (if key = 0x38 then k\<lparr>kb_alt := pressed\<rparr>
      else if key = 0x36 \<or> key = 0x2A then k\<lparr>kb_shift := pressed\<rparr>
      else if key = 0x1D then k\<lparr>kb_ctrl := pressed\<rparr>
      else k)"

definition key_locks :: "'d bus \<Rightarrow> u8 \<Rightarrow> bool \<Rightarrow> keyboard \<times> 'd \<Rightarrow> keyboard \<times> 'd" where
  "key_locks b key pressed kd =
     (if (key = 0x3A \<or> key = 0x45 \<or> key = 0x46) \<and> pressed then toggleLockKeys b key kd else kd)"

definition key_event_of :: "byte \<Rightarrow> bool \<Rightarrow> keyboard \<Rightarrow> key_event" where
  "key_event_of c pressed k =
     \<lparr>ke_key = c, ke_pressed = pressed, ke_ctrl = kb_ctrl k, ke_shift = kb_shift k, ke_alt = kb_alt k, ke_valid = True\<rparr>"

definition scan_code :: "'d bus \<Rightarrow> u8 \<Rightarrow> keyboard \<times> wm \<times> 'd \<Rightarrow> (keyboard \<times> wm \<times> 'd) option" where
  "scan_code b code = (\<lambda>(k, w, d).
     let pressed = (code < 0x80); key = (if pressed then code else code - 0x80);
         (k, d) = key_locks b key pressed (key_modifiers key pressed k, d);
         i = (if 10 \<le> kb_last k + 1 then 0 else kb_last k + 1)
     in do { c \<leftarrow> rd_at qwertzToAscii (unat key);
             buffer \<leftarrow> wr_at (kb_buffer k) i c;
             let k = k\<lparr>kb_last := i, kb_buffer := buffer\<rparr> in
             Some (k, if c \<noteq> 0 then queueKeyboardEvent (key_event_of c pressed k) w else w, d) })"

text \<open>Bit 5 of the status says that the byte is from the mouse.\<close>

definition keyboard_handleInterrupt :: "'d bus \<Rightarrow> keyboard \<times> wm \<times> 'd \<Rightarrow> (keyboard \<times> wm \<times> 'd) option" where
  "keyboard_handleInterrupt b = (\<lambda>(k, w, d).
     let (status, d) = byte_read b 0x64 d in
     if status AND 0x20 \<noteq> 0 then Some (k, w, d)
     else let (code, d) = byte_read b 0x60 d in
       scan_code b (ucast code) (k\<lparr>kb_counter := kb_counter k + 1\<rparr>, w, d))"

section \<open>Mouse\<close>

record mouse =
  ms_buffer :: bytes
  ms_offset :: u8
  ms_count :: "64 word"

definition newMouse :: mouse where
  "newMouse = \<lparr>ms_buffer = [0, 0, 0], ms_offset = 0, ms_count = 0\<rparr>"

text \<open>A byte for the mouse, the answers it has to give, and a step that fails on any other answer.\<close>

definition to_mouse :: "'d bus \<Rightarrow> u32 \<Rightarrow> 'd \<Rightarrow> 'd option" where
  "to_mouse b v d = do { d \<leftarrow> command b 0xD4 d; data_out b v d }"

fun expect :: "'d bus \<Rightarrow> u32 list \<Rightarrow> 'd \<Rightarrow> (bool \<times> 'd) option" where
  "expect b [] d = Some (True, d)"
| "expect b (v # vs) d = do { (x, d) \<leftarrow> data_in b d; if x \<noteq> v then Some (False, d) else expect b vs d }"

fun mouse_setup :: "'d bus \<Rightarrow> (u32 \<times> u32 list) list \<Rightarrow> 'd \<Rightarrow> (bool \<times> 'd) option" where
  "mouse_setup b [] d = Some (True, d)"
| "mouse_setup b ((v, answers) # steps) d =
     do { d \<leftarrow> to_mouse b v d;
          (ok, d) \<leftarrow> expect b answers d;
          if ok then mouse_setup b steps d else Some (False, d) }"

text \<open>Reset with its self test, default settings, data reporting; the interrupt is enabled at the end.\<close>

definition mouse_initialize :: "'d bus \<Rightarrow> 'd \<Rightarrow> (bool \<times> 'd) option" where
  "mouse_initialize b d =
     do { d \<leftarrow> configure b (\<lambda>c. ((c AND NOT 0x02) OR 0x01) AND NOT 0x10 AND NOT 0x20) d;
          d \<leftarrow> command b 0xA8 d;
          d \<leftarrow> drain b d;
          (ok, d) \<leftarrow> mouse_setup b [(0xFF, [0xFA, 0xAA, 0x00]), (0xF6, [0xFA]), (0xF4, [0xFA])] d;
          if \<not> ok then Some (False, d)
          else do { d \<leftarrow> configure b (\<lambda>c. c OR 0x02) d; Some (True, d) } }"

definition expectACK :: "'d bus \<Rightarrow> 'd \<Rightarrow> (bool \<times> 'd) option" where
  "expectACK b d = do { (response, d) \<leftarrow> data_in b d; Some (response = 0xFA, d) }"

text \<open>A movement: a signed byte, doubled on overflow; the vertical one is turned round.\<close>

definition movement :: "bool \<Rightarrow> byte \<Rightarrow> u32" where
  "movement overflow v = (if overflow then scast v * 2 else scast v)"

definition packet_event :: "bytes \<Rightarrow> mouse_event" where
  "packet_event p =
     \<lparr>me_x = movement (bit (p ! 0) 6) (p ! 1), me_y = - movement (bit (p ! 0) 7) (p ! 2),
      me_left = bit (p ! 0) 0, me_right = bit (p ! 0) 1, me_middle = bit (p ! 0) 2, me_event = True\<rparr>"

text \<open>
  The byte goes where the offset says; the first byte of a packet has bit 3 set and is ignored otherwise,
  which leaves the offset at 0, where the packet counts as complete.
\<close>

definition mouse_byte :: "byte \<Rightarrow> mouse \<times> wm \<Rightarrow> mouse \<times> wm" where
  "mouse_byte c = (\<lambda>(m, w).
     let m = (if ms_offset m = 0 then
                if c AND 0x08 = 0 then m else m\<lparr>ms_buffer := (ms_buffer m)[0 := c], ms_offset := 1\<rparr>
              else if ms_offset m = 1 then m\<lparr>ms_buffer := (ms_buffer m)[1 := c], ms_offset := 2\<rparr>
              else if ms_offset m = 2 then m\<lparr>ms_buffer := (ms_buffer m)[2 := c], ms_offset := 0\<rparr>
              else m\<lparr>ms_offset := 0\<rparr>)
     in if ms_offset m \<noteq> 0 then (m, w) else (m, queueMouseEvent (packet_event (ms_buffer m)) w))"

definition mouse_handleInterrupt :: "'d bus \<Rightarrow> mouse \<times> wm \<times> 'd \<Rightarrow> mouse \<times> wm \<times> 'd" where
  "mouse_handleInterrupt b = (\<lambda>(m, w, d).
     let (status, d) = byte_read b 0x64 d in
     if status AND 0x20 = 0 then (m, w, d)
     else let (c, d) = byte_read b 0x60 d; (m, w) = mouse_byte (ucast c) (m\<lparr>ms_count := ms_count m + 1\<rparr>, w)
       in (m, w, d))"

section \<open>Laws\<close>

text \<open>Any scan code has a place in the table of keys, and the ring of characters keeps its ten places.\<close>

lemma length_qwertz: "length qwertzToAscii = 128"
  by (simp add: qwertzToAscii_def)

definition keyboard_ok :: "keyboard \<Rightarrow> bool" where
  "keyboard_ok k \<longleftrightarrow> length (kb_buffer k) = 10 \<and> kb_last k < 10"

lemma toggle_fields:
  "toggleLockKeys b c (k, d) = (k', d') \<Longrightarrow>
     kb_buffer k' = kb_buffer k \<and> kb_last k' = kb_last k \<and> kb_shift k' = kb_shift k \<and> kb_ctrl k' = kb_ctrl k \<and> kb_alt k' = kb_alt k"
  by (auto simp: toggleLockKeys_def Let_def split: if_splits prod.splits)

lemma modifiers_fields: "kb_buffer (key_modifiers c p k) = kb_buffer k" "kb_last (key_modifiers c p k) = kb_last k"
  by (simp_all add: key_modifiers_def)

lemma key_index: "unat (if code < 0x80 then code else code - (0x80 :: u8)) < 128"
proof (cases "code < 0x80")
  case True
  then show ?thesis by (simp add: word_less_nat_alt)
next
  case False
  then have "0x80 \<le> code" by simp
  then have "unat (code - 0x80) = unat code - 128" by (simp add: unat_sub)
  then show ?thesis using False unat_u8_lt [of code] by simp
qed

lemma scan_code_spec:
  assumes "keyboard_ok k"
  shows "\<exists>k' w' d'. scan_code b code (k, w, d) = Some (k', w', d') \<and> keyboard_ok k' \<and>
    (let p = (code < 0x80); key = (if p then code else code - 0x80); c = qwertzToAscii ! unat key;
         m = key_modifiers key p k
     in kb_shift k' = kb_shift m \<and> kb_ctrl k' = kb_ctrl m \<and> kb_alt k' = kb_alt m \<and>
        w' = (if c \<noteq> 0 then queueKeyboardEvent (key_event_of c p m) w else w))"
proof -
  define p where "p = (code < 0x80)"
  define key where "key = (if p then code else code - 0x80)"
  have i: "unat key < length qwertzToAscii" using key_index [of code] by (simp add: key_def p_def length_qwertz)
  obtain k1 d1 where l: "key_locks b key p (key_modifiers key p k, d) = (k1, d1)" by fastforce
  let ?m = "key_modifiers key p k"
  have f: "kb_buffer k1 = kb_buffer k" "kb_last k1 = kb_last k" "kb_shift k1 = kb_shift ?m" "kb_ctrl k1 = kb_ctrl ?m" "kb_alt k1 = kb_alt ?m"
    using l toggle_fields [of b key ?m d k1 d1] by (auto simp: key_locks_def modifiers_fields split: if_splits)
  let ?i = "if 10 \<le> kb_last k1 + 1 then 0 else kb_last k1 + 1"
  have n: "?i < length (kb_buffer k1)" using assms f by (simp add: keyboard_ok_def)
  then have w: "wr_at (kb_buffer k1) ?i (qwertzToAscii ! unat key) = Some ((kb_buffer k1)[?i := qwertzToAscii ! unat key])"
    by (simp add: wr_at_def)
  have "rd_at qwertzToAscii (unat key) = Some (qwertzToAscii ! unat key)" using i by (simp add: rd_at_def)
  then show ?thesis
    using w l f n assms
    by (simp add: scan_code_def Let_def p_def [symmetric] key_def [symmetric] keyboard_ok_def key_event_of_def split: prod.splits)
qed

end
