(* ===== verification/Real_Time.thy ===== *)
theory Real_Time
  imports Ports Process
begin

text \<open>
  Time: the clock of the timer interrupt (\<open>core/SystemClock.cpp\<close>), whose number of ticks is an argument
  here, and the clock that keeps the date (\<open>core/peripherals/RTC.cpp\<close>). The functions of the latter
  read its registers over the CMOS ports; a month outside the year reads behind the table of the
  months, which is \<open>None\<close>.
\<close>

section \<open>Ticks\<close>

text \<open>The handlers attached to the timer (at most eight) and the frequency; attaching a ninth is a panic.\<close>

record 'h clock =
  ck_handlers :: "'h list"
  ck_frequency :: u32

definition attachHandler :: "'h \<Rightarrow> 'h clock \<Rightarrow> 'h clock option" where
  "attachHandler h s = (if 8 \<le> length (ck_handlers s) then None else Some (s\<lparr>ck_handlers := ck_handlers s @ [h]\<rparr>))"

definition pit_divisor :: "u32 \<Rightarrow> u16" where
  "pit_divisor frequency = ucast (3579545 div frequency div 3)"

definition setFrequency :: "'d bus \<Rightarrow> u32 \<Rightarrow> 'h clock \<times> 'd \<Rightarrow> (bool \<times> 'h clock \<times> 'd) option" where
  "setFrequency b frequency = (\<lambda>(s, d).
     if frequency < 1 then Some (False, s, d)
     else let divisor = pit_divisor frequency in
       if divisor = 0 then None
       else Some (True, s\<lparr>ck_frequency := frequency\<rparr>,
         byte_write b 0x40 (ucast (drop_bit 8 divisor AND 0xFF)) (byte_write b 0x40 (ucast (divisor AND 0xFF)) (byte_write b 0x43 0x36 d))))"

definition clock_initialize :: "'d bus \<Rightarrow> u32 \<Rightarrow> 'h clock \<times> 'd \<Rightarrow> ('h clock \<times> 'd) option" where
  "clock_initialize b frequency sd =
     do { (ok, sd) \<leftarrow> setFrequency b frequency sd; if ok then Some sd else None }"

definition getMilliseconds :: "u64 \<Rightarrow> 'h clock \<Rightarrow> u64 option" where
  "getMilliseconds ticks s = (if ck_frequency s = 0 then None else Some (ticks * 1000 div ucast (ck_frequency s)))"

definition getNanoseconds :: "u64 \<Rightarrow> 'h clock \<Rightarrow> u64 option" where
  "getNanoseconds ticks s = (if ck_frequency s = 0 then None else Some (ticks * 1000000 div ucast (ck_frequency s)))"

definition getSeconds :: "u64 \<Rightarrow> 'h clock \<Rightarrow> u64 option" where
  "getSeconds ticks s = (if ck_frequency s = 0 then None else Some (ticks div ucast (ck_frequency s)))"

definition readCurrentCount :: "'d bus \<Rightarrow> 'd \<Rightarrow> u16 \<times> 'd" where
  "readCurrentCount b d =
     (let (lsb, d) = byte_read b 0x40 (byte_write b 0x43 0 d); (msb, d) = byte_read b 0x40 d
      in (ucast (push_bit 8 msb OR lsb), d))"

section \<open>The calendar\<close>

definition bcd_to_dec :: "u8 \<Rightarrow> u8" where
  "bcd_to_dec bcd = drop_bit 4 bcd * 10 + bcd mod 16"

definition isLeapYear :: "u32 \<Rightarrow> bool" where
  "isLeapYear year \<longleftrightarrow> year mod 4 = 0 \<and> (year mod 100 \<noteq> 0 \<or> year mod 400 = 0)"

definition daysInYear :: "u32 \<Rightarrow> u16" where
  "daysInYear year = (if isLeapYear year then 366 else 365)"

definition month_days :: "u32 \<Rightarrow> u32 list" where
  "month_days year = [31, if isLeapYear year then 29 else 28, 31, 30, 31, 30, 31, 31, 30, 31, 30, 31]"

definition sum_days :: "u32 list \<Rightarrow> u32" where
  "sum_days ds = foldl (+) 0 ds"

definition daysSinceEpoch :: "u16 \<Rightarrow> u8 \<Rightarrow> u8 \<Rightarrow> u32 option" where
  "daysSinceEpoch year month day =
     do { months \<leftarrow> those (map (\<lambda>m. rd_at (month_days (ucast year)) m) [0..<unat month - 1]);
          Some (sum_days (map (\<lambda>y. ucast (daysInYear (of_nat y))) [1970..<unat year]) + sum_days months + ucast day - 1) }"

definition toEpochTime :: "u16 \<Rightarrow> u8 \<Rightarrow> u8 \<Rightarrow> u8 \<Rightarrow> u8 \<Rightarrow> u8 \<Rightarrow> u64 option" where
  "toEpochTime year month day hour minute second =
     do { days \<leftarrow> daysSinceEpoch year month day;
          Some (ucast (days * 86400 + ucast hour * 3600 + ucast minute * 60 + ucast second)) }"

section \<open>The clock with the date\<close>

record rtc =
  rt_seconds :: u8
  rt_minutes :: u8
  rt_hours :: u8
  rt_day :: u8
  rt_month :: u8
  rt_year :: u16
  rt_lastUpdated :: u64
  rt_time :: u64

definition newRTC :: rtc where
  "newRTC = \<lparr>rt_seconds = 0, rt_minutes = 0, rt_hours = 0, rt_day = 0, rt_month = 0, rt_year = 0, rt_lastUpdated = 0, rt_time = 0\<rparr>"

text \<open>The control register: 24-hour mode; the digits of a value are its two halves.\<close>

definition rtc_initialize :: "'d bus \<Rightarrow> 'd \<Rightarrow> 'd" where
  "rtc_initialize b = cmos_write b 0x0B 0x02"

definition bcd_register :: "'d bus \<Rightarrow> u8 \<Rightarrow> 'd \<Rightarrow> u8 \<times> 'd" where
  "bcd_register b index d = (let (v, d) = cmos_read b index d in (bcd_to_dec v, d))"

definition rtc_update :: "'d bus \<Rightarrow> rtc \<times> 'd \<Rightarrow> (rtc \<times> 'd) option" where
  "rtc_update b = (\<lambda>(s, d).
     let (seconds, d) = bcd_register b 0x00 d; (minutes, d) = bcd_register b 0x02 d; (hours, d) = bcd_register b 0x04 d;
         (day, d) = bcd_register b 0x07 d; (month, d) = bcd_register b 0x08 d;
         (century, d) = bcd_register b 0x32 d; (year, d) = bcd_register b 0x09 d;
         y = ucast century * 100 + ucast year
     in do { t \<leftarrow> toEpochTime y month day hours minutes seconds;
             Some (s\<lparr>rt_seconds := seconds, rt_minutes := minutes, rt_hours := hours, rt_day := day, rt_month := month,
                     rt_year := y, rt_time := t\<rparr>, d) })"

definition rtc_now :: "'d bus \<Rightarrow> u64 \<Rightarrow> rtc \<times> 'd \<Rightarrow> (u64 \<times> rtc \<times> 'd) option" where
  "rtc_now b millis = (\<lambda>(s, d).
     if 250 < millis - rt_lastUpdated s
     then do { (s, d) \<leftarrow> rtc_update b (s, d); Some (rt_time s, s\<lparr>rt_lastUpdated := millis\<rparr>, d) }
     else Some (rt_time s, s, d))"

text \<open>The structure \<open>rtc_time\<close>: nine numbers.\<close>

definition rtc_ioctl :: "'d bus \<Rightarrow> u64 \<Rightarrow> rtc \<times> 'd \<Rightarrow> (u32 list \<times> rtc \<times> 'd) option" where
  "rtc_ioctl b millis sd =
     do { (_, s, d) \<leftarrow> rtc_now b millis sd;
          today \<leftarrow> daysSinceEpoch (rt_year s) (rt_month s) (rt_day s);
          newYear \<leftarrow> daysSinceEpoch (rt_year s) 1 1;
          Some ([ucast (rt_seconds s), ucast (rt_minutes s), ucast (rt_hours s), ucast (rt_day s), ucast (rt_month s) - 1,
                 ucast (rt_year s) - 1900, (today + 4) mod 7, today - newYear, - 1], s, d) }"

definition rtc_format :: bytes where
  "rtc_format = ascii ''rtc_time'' @ [9] @ ascii '': %02u:%02u:%02u'' @ [10] @ ascii ''rtc_date'' @ [9] @ ascii '': %04u-%02u-%02u'' @ [10] @
     concat (map (\<lambda>(name, value). ascii name @ [9] @ ascii '': '' @ ascii value @ [10])
       [(''alrm_time'', ''00:00:00''), (''alrm_date'', ''2024-07-10''), (''alarm_IRQ'', ''no''), (''alrm_pending'', ''no''),
        (''update IRQ enabled'', ''no''), (''periodic IRQ enabled'', ''no''), (''periodic IRQ frequency'', ''1024''),
        (''max user IRQ frequency '', ''64''), (''24hr'', ''yes''), (''periodic_IRQ'', ''no''), (''update_IRQ'', ''no''),
        (''HPET_emulated'', ''no''), (''BCD'', ''yes''), (''DST_enable'', ''no''), (''periodic_freq'', ''1024''),
        (''batt_status'', ''okay'')]) @ [0]"

text \<open>Reading the node: the text of the date from an offset on, at most \<open>n\<close> bytes.\<close>

definition rtc_read :: "'d bus \<Rightarrow> nat \<Rightarrow> nat \<Rightarrow> rtc \<times> 'd \<Rightarrow> (bytes \<times> rtc \<times> 'd) option" where
  "rtc_read b n offset sd =
     do { (s, d) \<leftarrow> rtc_update b sd;
          (written, output) \<leftarrow> snprintf (replicate 512 0) 512 rtc_format
            [Word (ucast (rt_hours s)), Word (ucast (rt_minutes s)), Word (ucast (rt_seconds s)), Word (ucast (rt_year s)),
             Word (ucast (rt_month s)), Word (ucast (rt_day s))];
          if unat written \<le> offset then Some ([], s, d)
          else do { bs \<leftarrow> slice output offset (min n (unat written - offset)); Some (bs, s, d) } }"

definition getSecondsOfDay :: "'d bus \<Rightarrow> rtc \<times> 'd \<Rightarrow> u64 \<times> rtc \<times> 'd" where
  "getSecondsOfDay b = (\<lambda>(s, d).
     let (seconds, d) = bcd_register b 0x00 d; (minutes, d) = bcd_register b 0x02 d; (hours, d) = bcd_register b 0x04 d
     in (ucast (ucast seconds + ucast minutes * 60 + ucast hours * 24 :: u32),
         s\<lparr>rt_seconds := seconds, rt_minutes := minutes, rt_hours := hours\<rparr>, d))"

section \<open>The calendar as a succession of days\<close>

definition leap :: "nat \<Rightarrow> bool" where
  "leap y \<longleftrightarrow> y mod 4 = 0 \<and> (y mod 100 \<noteq> 0 \<or> y mod 400 = 0)"

definition days_of :: "nat \<Rightarrow> nat \<Rightarrow> nat" where
  "days_of y m = (if m = 2 then if leap y then 29 else 28 else if m \<in> {4, 6, 9, 11} then 30 else 31)"

text \<open>A date is a year, a month and a day, counted from 1.\<close>

fun next_day :: "nat \<times> nat \<times> nat \<Rightarrow> nat \<times> nat \<times> nat" where
  "next_day (y, m, d) =
     (if d < days_of y m then (y, m, d + 1) else if m < 12 then (y, m + 1, 1) else (y + 1, 1, 1))"

fun date_ok :: "nat \<times> nat \<times> nat \<Rightarrow> bool" where
  "date_ok (y, m, d) \<longleftrightarrow> 1970 \<le> y \<and> 1 \<le> m \<and> m \<le> 12 \<and> 1 \<le> d \<and> d \<le> days_of y m"

fun day_number :: "nat \<times> nat \<times> nat \<Rightarrow> nat" where
  "day_number (y, m, d) = (\<Sum>k \<leftarrow> [1970..<y]. if leap k then 366 else 365) + (\<Sum>j \<leftarrow> [1..<m]. days_of y j) + (d - 1)"

lemma days_of_pos: "1 \<le> days_of y m"
  by (simp add: days_of_def)

lemma year_length: "(\<Sum>j \<leftarrow> [1..<12]. days_of y j) + days_of y 12 = (if leap y then 366 else 365)"
  by (simp add: upt_rec days_of_def)

lemma next_day_ok: "date_ok x \<Longrightarrow> date_ok (next_day x)"
  using days_of_pos by (cases x) (auto simp: Suc_le_eq)

lemma next_day_number: "date_ok x \<Longrightarrow> day_number (next_day x) = day_number x + 1"
proof -
  assume ok: "date_ok x"
  obtain y m d where x: "x = (y, m, d)" by (cases x)
  consider "d < days_of y m" | "d = days_of y m" "m < 12" | "d = days_of y m" "m = 12"
    using ok x by fastforce
  then show ?thesis
  proof cases
    case 1
    then show ?thesis using ok x by simp
  next
    case 2
    then have "[1..<Suc m] = [1..<m] @ [m]" using ok x by simp
    then show ?thesis using 2 ok x by simp
  next
    case 3
    have "[1970..<Suc y] = [1970..<y] @ [y]" using ok x by simp
    then show ?thesis using 3 ok x year_length [of y] by simp
  qed
qed

lemma nth_day: "date_ok ((next_day ^^ n) (1970, 1, 1)) \<and> day_number ((next_day ^^ n) (1970, 1, 1)) = n"
proof (induction n)
  case 0
  show ?case using days_of_pos [of 1970 1] by simp
next
  case (Suc n)
  then show ?case using next_day_ok next_day_number by simp
qed

text \<open>The words of the code have room for these numbers.\<close>

lemma isLeapYear_leap: "y < 65536 \<Longrightarrow> isLeapYear (of_nat y) \<longleftrightarrow> leap y"
proof -
  assume "y < 65536"
  then have u: "unat (of_nat y :: u32) = y" by (simp add: unat_of_nat)
  have "(of_nat y :: u32) mod k = 0 \<longleftrightarrow> y mod unat k = 0" for k
    using u by (simp add: word_unat_eq_iff unat_mod)
  then show ?thesis by (simp add: isLeapYear_def leap_def)
qed

lemma month_days_nth: "y < 65536 \<Longrightarrow> m < 12 \<Longrightarrow> rd_at (month_days (of_nat y)) m = Some (of_nat (days_of y (m + 1)))"
proof -
  assume y: "y < 65536" and "m < 12"
  then have "m \<in> {0, 1, 2, 3, 4, 5, 6, 7, 8, 9, 10, 11}" unfolding insert_iff empty_iff by presburger
  then show ?thesis
    by (elim insertE emptyE) (simp_all add: rd_at_def month_days_def days_of_def isLeapYear_leap [OF y])
qed

lemma sum_days_nat: "sum_days (map of_nat ds) = of_nat (sum_list ds)"
proof -
  have "foldl (+) a (map of_nat ds) = a + of_nat (sum_list ds)" for a :: u32
    by (induction ds arbitrary: a) (simp_all add: add.assoc)
  then show ?thesis by (simp add: sum_days_def)
qed

lemma those_all: "\<forall>x \<in> set xs. f x = Some (g x) \<Longrightarrow> those (map f xs) = Some (map g xs)"
  by (induction xs) auto

lemma daysSinceEpoch_number:
  assumes "date_ok (y, m, d)" and "y < 65536"
  shows "daysSinceEpoch (of_nat y) (of_nat m) (of_nat d) = Some (of_nat (day_number (y, m, d)))"
proof -
  have m: "1 \<le> m" "m \<le> 12" "1 \<le> d" "d \<le> 31" using assms(1) by (auto simp: days_of_def split: if_splits)
  have u: "unat (of_nat y :: u16) = y" "unat (of_nat m :: u8) = m" "ucast (of_nat y :: u16) = (of_nat y :: u32)"
    "ucast (of_nat d :: u8) = (of_nat d :: u32)"
    using assms(2) m by (simp_all add: unat_of_nat word_unat_eq_iff unsigned_ucast_eq take_bit_nat_eq_self)
  have "those (map (\<lambda>j. rd_at (month_days (of_nat y)) j) [0..<m - 1]) = Some (map (\<lambda>j. of_nat (days_of y (j + 1)) :: u32) [0..<m - 1])"
    using month_days_nth [OF assms(2)] m by (intro those_all) auto
  moreover have "map (\<lambda>j. of_nat (days_of y (j + 1)) :: u32) [0..<m - 1] = map of_nat (map (days_of y) [1..<m])"
  proof -
    have "[1..<m] = map Suc [0..<m - 1]" using m(1) map_Suc_upt [of 0 "m - 1"] by simp
    then show ?thesis by simp
  qed
  moreover have "map (\<lambda>k. ucast (daysInYear (of_nat k)) :: u32) [1970..<y] = map of_nat (map (\<lambda>k. if leap k then 366 else 365) [1970..<y])"
    using assms(2) by (auto simp: daysInYear_def isLeapYear_leap)
  moreover have "of_nat (d - 1) = (of_nat d - 1 :: u32)" using m(3) by (simp add: of_nat_diff)
  ultimately show ?thesis
    by (simp only: daysSinceEpoch_def u sum_days_nat bind.bind_lunit day_number.simps of_nat_add add_diff_eq)
qed

end
