(* ===== verification/Machine.thy ===== *)
theory Machine
  imports Call_Steps Segments Input Real_Time
begin

text \<open>
  The kernel behind its interrupts (\<open>core/Interrupts.cpp\<close>, \<open>core/SystemClock.cpp\<close>): the interrupt controllers, the
  table of handlers, the first handler every interrupt runs through, and the handlers of the clock,
  the keyboard, the mouse, the network and the system calls on one state. The registers of what was
  interrupted are in the kernel's state; the result is the address the processor resumes from. Of the
  handlers attached to the clock one switches tasks, and it looks at those registers.
\<close>

section \<open>The interrupt controllers\<close>

definition port_writes :: "'d bus \<Rightarrow> (u16 \<times> u32) list \<Rightarrow> 'd \<Rightarrow> 'd" where
  "port_writes b ws d = foldl (\<lambda>d (port, v). byte_write b port v d) d ws"

text \<open>Commands to master and slave: start, first vectors, cascade, mode, and all interrupts masked.\<close>

definition newPICManager :: "'d bus \<Rightarrow> 'd \<Rightarrow> 'd" where
  "newPICManager b = port_writes b
     [(0x20, 0x11), (0xA0, 0x11), (0x21, 0x20), (0xA1, 0x28), (0x21, 4), (0xA1, 2), (0x21, 1), (0xA1, 1), (0x21, 0xFF), (0xA1, 0xFF)]"

definition pic_enableInterrupts :: "'d bus \<Rightarrow> 'd \<Rightarrow> 'd" where
  "pic_enableInterrupts b = port_writes b [(0x21, 0), (0xA1, 0)]"

definition pic_disableInterrupts :: "'d bus \<Rightarrow> 'd \<Rightarrow> 'd" where
  "pic_disableInterrupts b = port_writes b [(0x21, 0xFF), (0xA1, 0xFF)]"

section \<open>The state\<close>

datatype interrupt_handler = PageFault | Clock | Keyboard | Mouse | Network | SystemCall

datatype clock_handler = TaskSwitch | NetworkPoll

record ('x, 'd) hardware =
  hw_kernel :: "'x kernel"
  hw_device :: 'd
  hw_handlers :: "interrupt_handler option list"
  hw_pic :: bool
  hw_clock :: "clock_handler clock"
  hw_keyboard :: keyboard
  hw_mouse :: mouse
  hw_pollCounter :: u32

definition newInterruptController ::
    "'d bus \<Rightarrow> u16 \<Rightarrow> u32 \<Rightarrow> (u8 \<Rightarrow> u32) \<Rightarrow> ('x, 'd) hardware \<Rightarrow> (interrupt_entry list \<times> ('x, 'd) hardware) option" where
  "newInterruptController b code default_isr isr h =
     do { t \<leftarrow> interruptDescriptorTable code default_isr isr;
          Some (t, h\<lparr>hw_device := pic_enableInterrupts b (newPICManager b (hw_device h)), hw_pic := True\<rparr>) }"

definition setInterruptHandler :: "u8 \<Rightarrow> interrupt_handler \<Rightarrow> ('x, 'd) hardware \<Rightarrow> ('x, 'd) hardware option" where
  "setInterruptHandler n f h =
     do { hs \<leftarrow> wr_at (hw_handlers h) (unat n) (Some f); Some (h\<lparr>hw_handlers := hs\<rparr>) }"

text \<open>Starting a device: its ports, and its handler when it answers as it should.\<close>

definition start_keyboard :: "'d bus \<Rightarrow> ('x, 'd) hardware \<Rightarrow> (bool \<times> ('x, 'd) hardware) option" where
  "start_keyboard b h =
     do { (ok, d) \<leftarrow> keyboard_initialize b (hw_device h);
          let h = h\<lparr>hw_device := d\<rparr> in
          if ok then map_option (Pair True) (setInterruptHandler 0x21 Keyboard h) else Some (False, h) }"

definition start_mouse :: "'d bus \<Rightarrow> ('x, 'd) hardware \<Rightarrow> (bool \<times> ('x, 'd) hardware) option" where
  "start_mouse b h =
     do { (ok, d) \<leftarrow> mouse_initialize b (hw_device h);
          let h = h\<lparr>hw_device := d\<rparr> in
          if ok then map_option (Pair True) (setInterruptHandler 0x2C Mouse h) else Some (False, h) }"

definition start_clock :: "'d bus \<Rightarrow> u32 \<Rightarrow> ('x, 'd) hardware \<Rightarrow> ('x, 'd) hardware option" where
  "start_clock b frequency h =
     do { (c, d) \<leftarrow> clock_initialize b frequency (hw_clock h, hw_device h);
          setInterruptHandler 0x20 Clock (h\<lparr>hw_clock := c, hw_device := d\<rparr>) }"

text \<open>The clock with the date gets one node under two paths; its functions are the device \<open>rtc_functions\<close>.\<close>

definition initializeVFSElements :: "'x device \<Rightarrow> ('x, 'd) hardware \<Rightarrow> (bool \<times> ('x, 'd) hardware) option" where
  "initializeVFSElements rtc_functions h =
     (let s = hw_kernel h; (p, f) = new_FunctionInode rtc_functions (kn_files s) in
      if p = 0 then Some (False, h\<lparr>hw_kernel := s\<lparr>kn_files := f\<rparr>\<rparr>)
      else do {
        (_, v) \<leftarrow> setInodeByPath (ascii ''/dev/rtc'') p (fs_vfs f);
        (_, v) \<leftarrow> setInodeByPath (ascii ''/proc/driver/rtc'') p v;
        Some (True, h\<lparr>hw_kernel := s\<lparr>kn_files := f\<lparr>fs_vfs := v\<rparr>\<rparr>\<rparr>) })"

definition start_rtc :: "'d bus \<Rightarrow> 'x device \<Rightarrow> ('x, 'd) hardware \<Rightarrow> ('x, 'd) hardware option" where
  "start_rtc b rtc_functions h =
     (if rootNode (fs_vfs (kn_files (hw_kernel h))) = 0 then None
      else map_option snd (initializeVFSElements rtc_functions (h\<lparr>hw_device := rtc_initialize b (hw_device h)\<rparr>)))"

section \<open>The handlers\<close>

text \<open>
  The network: every interrupt of the interface processes what has come in; the clock does so on
  every 25th tick, when the interface is up.
\<close>

definition network_handleInterrupt :: "nat \<Rightarrow> 'x kernel \<Rightarrow> 'x kernel option" where
  "network_handleInterrupt k s =
     (if defaultInterface (kn_net s) = 0 then Some s
      else do { n \<leftarrow> poll k (kn_net s); Some (s\<lparr>kn_net := n\<rparr>) })"

definition interface_up :: "'x kernel \<Rightarrow> bool" where
  "interface_up s =
     (case netif_at (kn_net s) (defaultInterface (kn_net s)) of Some i \<Rightarrow> if_state i = Up | None \<Rightarrow> False)"

definition networkTimerPollHandler :: "nat \<Rightarrow> ('x, 'd) hardware \<Rightarrow> ('x, 'd) hardware option" where
  "networkTimerPollHandler k h =
     (if 25 \<le> hw_pollCounter h + 1
      then do {
        s \<leftarrow> (if defaultInterface (kn_net (hw_kernel h)) \<noteq> 0 \<and> interface_up (hw_kernel h)
              then network_handleInterrupt k (hw_kernel h) else Some (hw_kernel h));
        Some (h\<lparr>hw_kernel := s, hw_pollCounter := 0\<rparr>) }
      else Some (h\<lparr>hw_pollCounter := hw_pollCounter h + 1\<rparr>))"

text \<open>The clock: one more tick, then the handlers one after the other, each with the address of the last.\<close>

fun clock_chain :: "nat \<Rightarrow> clock_handler list \<Rightarrow> u32 \<Rightarrow> ('x, 'd) hardware \<Rightarrow> (u32 \<times> ('x, 'd) hardware) option" where
  "clock_chain k [] a h = Some (a, h)"
| "clock_chain k (TaskSwitch # hs) a h =
     do { (a, t) \<leftarrow> interruptHandler a (kn_regs (hw_kernel h)) (kn_tasks (hw_kernel h));
          clock_chain k hs a (h\<lparr>hw_kernel := (hw_kernel h)\<lparr>kn_tasks := t\<rparr>\<rparr>) }"
| "clock_chain k (NetworkPoll # hs) a h =
     do { h \<leftarrow> networkTimerPollHandler k h; clock_chain k hs a h }"

definition clock_handleInterrupt :: "nat \<Rightarrow> u32 \<Rightarrow> ('x, 'd) hardware \<Rightarrow> (u32 \<times> ('x, 'd) hardware) option" where
  "clock_handleInterrupt k a h =
     (let s = hw_kernel h; s = s\<lparr>kn_tasks := (kn_tasks s)\<lparr>k_ticks := k_ticks (kn_tasks s) + 1\<rparr>\<rparr>
      in clock_chain k (ck_handlers (hw_clock h)) a (h\<lparr>hw_kernel := s\<rparr>))"

text \<open>A peripheral works on the window manager of the kernel.\<close>

definition windows_of :: "('x, 'd) hardware \<Rightarrow> wm" where
  "windows_of h = k_wm (kn_tasks (hw_kernel h))"

definition with_windows :: "wm \<Rightarrow> 'x kernel \<Rightarrow> 'x kernel" where
  "with_windows w s = s\<lparr>kn_tasks := (kn_tasks s)\<lparr>k_wm := w\<rparr>\<rparr>"

definition run_interrupt ::
    "'x surroundings \<Rightarrow> 'd bus \<Rightarrow> interrupt_handler \<Rightarrow> u32 \<Rightarrow> ('x, 'd) hardware \<Rightarrow> (u32 \<times> ('x, 'd) hardware) option" where
  "run_interrupt en b f a h =
     (case f of
        PageFault \<Rightarrow> None
      | Clock \<Rightarrow> clock_handleInterrupt (en_poll en) a h
      | Keyboard \<Rightarrow> do {
          (k, w, d) \<leftarrow> keyboard_handleInterrupt b (hw_keyboard h, windows_of h, hw_device h);
          Some (a, h\<lparr>hw_keyboard := k, hw_device := d, hw_kernel := with_windows w (hw_kernel h)\<rparr>) }
      | Mouse \<Rightarrow>
          let (m, w, d) = mouse_handleInterrupt b (hw_mouse h, windows_of h, hw_device h) in
          Some (a, h\<lparr>hw_mouse := m, hw_device := d, hw_kernel := with_windows w (hw_kernel h)\<rparr>)
      | Network \<Rightarrow> do { s \<leftarrow> network_handleInterrupt (en_poll en) (hw_kernel h); Some (a, h\<lparr>hw_kernel := s\<rparr>) }
      | SystemCall \<Rightarrow> do { (a, s) \<leftarrow> handleInterrupt en a (hw_kernel h); Some (a, h\<lparr>hw_kernel := s\<rparr>) })"

section \<open>The first handler\<close>

text \<open>With paging on, the directory of the kernel is used from here on.\<close>

definition enter_kernel :: "'x kernel \<Rightarrow> 'x kernel option" where
  "enter_kernel s =
     (if paging_enabled (k_paging (kn_tasks s))
      then do { pg \<leftarrow> switchPageDirectory (k_dir (kn_tasks s)) (k_paging (kn_tasks s));
                Some (s\<lparr>kn_tasks := (kn_tasks s)\<lparr>k_paging := pg\<rparr>\<rparr>) }
      else Some s)"

text \<open>The end of an interrupt of the controllers is signalled first, to the slave only for its own.\<close>

definition end_of_interrupt :: "'d bus \<Rightarrow> u32 \<Rightarrow> 'd \<Rightarrow> 'd" where
  "end_of_interrupt b n d =
     (if 0x20 \<le> n \<and> n < 0x30 then byte_write b 0x20 0x20 (if 0x28 \<le> n then byte_write b 0xA0 0x20 d else d) else d)"

definition primary_isr_handler ::
    "'x surroundings \<Rightarrow> 'd bus \<Rightarrow> u32 \<Rightarrow> ('x, 'd) hardware \<Rightarrow> (u32 \<times> ('x, 'd) hardware) option" where
  "primary_isr_handler en b registers h =
     do { s \<leftarrow> enter_kernel (hw_kernel h);
          if \<not> hw_pic h then None
          else let n = r_intNo (kn_regs s);
                   h = h\<lparr>hw_kernel := s, hw_device := end_of_interrupt b n (hw_device h)\<rparr> in do {
            f \<leftarrow> rd_at (hw_handlers h) (unat n);
            case f of
              Some f \<Rightarrow> do { (a, h) \<leftarrow> run_interrupt en b f registers h; Some (a - 4, h) }
            | None \<Rightarrow> if 0x20 \<le> n \<and> n < 0x30 then Some (registers - 4, h) else None } }"

section \<open>Any sequence of interrupts\<close>

text \<open>What runs between two interrupts changes the registers and the memory of the process that runs.\<close>

inductive machine_step :: "'x surroundings \<Rightarrow> 'd bus \<Rightarrow> ('x, 'd) hardware \<Rightarrow> ('x, 'd) hardware \<Rightarrow> bool"
  for en :: "'x surroundings" and b :: "'d bus" where
  interrupt: "primary_isr_handler en b a h = Some (r, h') \<Longrightarrow> machine_step en b h h'"
| running: "machine_step en b h (h\<lparr>hw_kernel := (hw_kernel h)\<lparr>kn_regs := r, kn_tasks := (kn_tasks (hw_kernel h))\<lparr>k_mem := m\<rparr>\<rparr>, hw_device := d\<rparr>)"

inductive_cases machine_stepE [elim]: "machine_step en b h h'"

definition hw_table :: "('x, 'd) hardware \<Rightarrow> tasks" where
  "hw_table h = kn_tasks (hw_kernel h)"

lemma view_step:
  assumes "table_view t = table_view s"
  shows "sched_step\<^sup>*\<^sup>* s t"
  using assms by (intro r_into_rtranclp work) (simp_all add: table_view_def task_keys_def)

lemma network_steps: "network_handleInterrupt k s = Some t \<Longrightarrow> kn_tasks t = kn_tasks s"
  by (auto simp: network_handleInterrupt_def split: if_splits Option.bind_splits)

lemma poll_handler_steps: "networkTimerPollHandler k h = Some h' \<Longrightarrow> hw_table h' = hw_table h"
  by (auto simp: networkTimerPollHandler_def hw_table_def split: if_splits Option.bind_splits dest: network_steps)

lemma chain_steps: "clock_chain k hs a h = Some (r, h') \<Longrightarrow> sched_step\<^sup>*\<^sup>* (hw_table h) (hw_table h')"
proof (induction k hs a h rule: clock_chain.induct)
  case (2 k hs a h)
  then obtain v t where t: "interruptHandler a (kn_regs (hw_kernel h)) (kn_tasks (hw_kernel h)) = Some (v, t)"
    and r: "clock_chain k hs v (h\<lparr>hw_kernel := (hw_kernel h)\<lparr>kn_tasks := t\<rparr>\<rparr>) = Some (r, h')"
    by (auto split: Option.bind_splits)
  have "sched_step (hw_table h) t" using t by (auto simp: hw_table_def intro: tick)
  moreover have "sched_step\<^sup>*\<^sup>* t (hw_table h')" using 2(1) [OF t _ r] by (simp add: hw_table_def)
  ultimately show ?case by simp
next
  case (3 k hs a h)
  then obtain u where u: "networkTimerPollHandler k h = Some u" "clock_chain k hs a u = Some (r, h')"
    by (auto split: Option.bind_splits)
  then show ?case using 3(1) [OF u] poll_handler_steps [OF u(1)] by simp
qed simp

lemma interrupt_steps:
  assumes "run_interrupt en b f a h = Some (r, h')" and "steps.others_follow en"
  shows "sched_step\<^sup>*\<^sup>* (hw_table h) (hw_table h')"
proof (cases f)
  case Clock
  let ?h = "h\<lparr>hw_kernel := (hw_kernel h)\<lparr>kn_tasks := (hw_table h)\<lparr>k_ticks := k_ticks (hw_table h) + 1\<rparr>\<rparr>\<rparr>"
  have "clock_chain (en_poll en) (ck_handlers (hw_clock h)) a ?h = Some (r, h')"
    using assms(1) Clock by (simp add: run_interrupt_def clock_handleInterrupt_def Let_def hw_table_def)
  from chain_steps [OF this] have "sched_step\<^sup>*\<^sup>* (hw_table ?h) (hw_table h')" .
  moreover have "sched_step\<^sup>*\<^sup>* (hw_table h) (hw_table ?h)" by (rule view_step) (simp add: hw_table_def table_view_def)
  ultimately show ?thesis by simp
next
  case SystemCall
  then show ?thesis
    using assms by (auto simp: run_interrupt_def hw_table_def split: Option.bind_splits dest: handleInterrupt_steps)
next
  case Keyboard
  then have "table_view (hw_table h') = table_view (hw_table h)"
    using assms(1) by (auto simp: run_interrupt_def hw_table_def with_windows_def table_view_def split: Option.bind_splits)
  then show ?thesis by (rule view_step)
next
  case Mouse
  then have "table_view (hw_table h') = table_view (hw_table h)"
    using assms(1) by (auto simp: run_interrupt_def hw_table_def with_windows_def table_view_def split: prod.splits)
  then show ?thesis by (rule view_step)
next
  case Network
  then show ?thesis
    using assms(1) by (auto simp: run_interrupt_def hw_table_def split: Option.bind_splits dest: network_steps)
qed (use assms(1) in \<open>simp add: run_interrupt_def\<close>)

lemma enter_kernel_view: "enter_kernel s = Some t \<Longrightarrow> table_view (kn_tasks t) = table_view (kn_tasks s)"
  by (auto simp: enter_kernel_def table_view_def split: if_splits Option.bind_splits)

lemma isr_steps:
  assumes "primary_isr_handler en b a h = Some (r, h')" and "steps.others_follow en"
  shows "sched_step\<^sup>*\<^sup>* (hw_table h) (hw_table h')"
proof -
  obtain s where s: "enter_kernel (hw_kernel h) = Some s"
    using assms(1) by (auto simp: primary_isr_handler_def split: Option.bind_splits)
  let ?h = "h\<lparr>hw_kernel := s, hw_device := end_of_interrupt b (r_intNo (kn_regs s)) (hw_device h)\<rparr>"
  have e: "sched_step\<^sup>*\<^sup>* (hw_table h) (hw_table ?h)"
    using enter_kernel_view [OF s] by (intro view_step) (simp add: hw_table_def)
  have "h' = ?h \<or> (\<exists>f v. run_interrupt en b f a ?h = Some (v, h'))"
    using assms(1) by (auto simp: primary_isr_handler_def s Let_def split: Option.bind_splits option.splits if_splits)
  then have "sched_step\<^sup>*\<^sup>* (hw_table ?h) (hw_table h')" using interrupt_steps [OF _ assms(2)] by blast
  then show ?thesis using e by simp
qed

end
