(* ===== verification/Machine_Laws.thy ===== *)
theory Machine_Laws
  imports Machine Call_Laws
begin

text \<open>
  The properties of the kernel behind its interrupts: the table of processes over any run, the gates a
  program can use, what the keyboard and the mouse make of their bytes, and the calendar.
\<close>

section \<open>Interrupts\<close>

text \<open>C20: Over any run of the machine, interrupts of all kinds in any order with programs running in
  between, the invariant of the table of processes holds.\<close>

theorem machine_keeps_table:
  assumes "(machine_step en b)\<^sup>*\<^sup>* h h'" and "sched_ok (hw_table h)"
    and "\<forall>s t. 0 < en_rounds en \<longrightarrow> en_others en s = Some t \<longrightarrow> sched_step\<^sup>*\<^sup>* (kn_tasks s) (kn_tasks t)"
  shows "sched_ok (hw_table h')"
proof -
  have o: "steps.others_follow en" using assms(3) by (simp add: steps.others_follow_def task_steps_def)
  have step: "sched_step\<^sup>*\<^sup>* (hw_table u) (hw_table v)" if "machine_step en b u v" for u v
    using that
  proof (cases rule: machine_step.cases)
    case (interrupt a r)
    then show ?thesis using isr_steps o by blast
  qed (auto simp: hw_table_def table_view_def intro: view_step)
  have "sched_step\<^sup>*\<^sup>* (hw_table h) (hw_table h')"
    using assms(1) by induction (use step in \<open>auto intro: rtranclp_trans\<close>)
  then show ?thesis by induction (use assms(2) sched_step_ok in auto)
qed

text \<open>A machine whose ports always read \<open>0x20\<close>, the status of a waiting mouse.\<close>

definition ex_bus :: "unit bus" where
  "ex_bus = \<lparr>in8 = (\<lambda>_ d. (0x20, d)), out8 = (\<lambda>_ _ d. d), in16 = (\<lambda>_ d. (0, d)), out16 = (\<lambda>_ _ d. d),
     in32 = (\<lambda>_ d. (0, d)), out32 = (\<lambda>_ _ d. d)\<rparr>"

definition ex_machine :: "(unit, unit) hardware" where
  "ex_machine = \<lparr>hw_kernel = (ex_kernel 0 0 0 0)\<lparr>kn_regs := top_regs\<lparr>r_intNo := 0x2C\<rparr>\<rparr>, hw_device = (),
     hw_handlers = (replicate 256 None)[0x2C := Some Mouse], hw_pic = True,
     hw_clock = \<lparr>ck_handlers = [], ck_frequency = 250\<rparr>, hw_keyboard = newKeyboard, hw_mouse = newMouse, hw_pollCounter = 0\<rparr>"

theorem machine_keeps_table_witness:
  "\<exists>r h'. primary_isr_handler ex_surroundings ex_bus 0x500 ex_machine = Some (r, h') \<and> sched_ok (hw_table h')"
proof -
  have p: "paging_enabled (k_paging (kn_tasks (hw_kernel ex_machine))) = False"
    by (simp add: ex_machine_def ex_call_tasks_def ex_pages_def ex_paging_def)
  have "hw_handlers ex_machine = (replicate 256 None)[0x2C := Some Mouse]" "r_intNo (kn_regs (hw_kernel ex_machine)) = 0x2C"
    "hw_pic ex_machine" by (simp_all add: ex_machine_def)
  then obtain r h' where r: "primary_isr_handler ex_surroundings ex_bus 0x500 ex_machine = Some (r, h')"
    by (fastforce simp: primary_isr_handler_def enter_kernel_def p rd_at_def run_interrupt_def Let_def split_beta)
  have ok: "sched_ok (hw_table ex_machine)" using ex_call_ok by (simp add: hw_table_def ex_machine_def)
  show ?thesis using machine_keeps_table [OF r_into_rtranclp [where r = "machine_step ex_surroundings ex_bus", OF machine_step.interrupt [OF r]] ok] r by auto
qed

text \<open>C22: The finished table of interrupts has a usable gate for every number: as the processor reads
  it, it is present, a 32-bit interrupt gate (kind \<open>0xE\<close>, which masks further interrupts) into the given
  code segment. A program can raise the interrupt of the system calls and no other, the exceptions and
  the lines of the controllers go to their own routines, everything else to the default one.\<close>

theorem only_system_calls_raised:
  "\<exists>t. interruptDescriptorTable code d isr = Some t \<and>
    map (\<lambda>g. (gate_present g, gate_kind g, reserved g, gate_selector g, from_program g, gate_handler g)) t =
      map (\<lambda>i. (True, 0xE, 0, code, i = 0x80, if i = 0x80 \<or> i \<in> unat ` set routines then isr (of_nat i) else d)) [0..<256]"
proof -
  obtain t where "interruptDescriptorTable code d isr = Some t" "length t = 256"
    "\<forall>i < 256. gate_present (t ! i) \<and> gate_kind (t ! i) = 0xE \<and> reserved (t ! i) = 0 \<and> gate_selector (t ! i) = code \<and>
       (from_program (t ! i) \<longleftrightarrow> i = 0x80) \<and>
       gate_handler (t ! i) = (if i = 0x80 \<or> i \<in> unat ` set routines then isr (of_nat i) else d)"
    using table_spec [of code d isr] by blast
  then show ?thesis by (intro exI [of _ t]) (auto intro!: nth_equalityI)
qed

section \<open>Keyboard and mouse\<close>

text \<open>The modifiers as three flags, and the events of a sequence of scan codes.\<close>

fun after_key :: "u8 \<Rightarrow> bool \<times> bool \<times> bool \<Rightarrow> bool \<times> bool \<times> bool" where
  "after_key code (shift, ctrl, alt) =
     (let down = (code < 0x80); key = (if down then code else code - 0x80) in
      (if key = 0x36 \<or> key = 0x2A then down else shift, if key = 0x1D then down else ctrl, if key = 0x38 then down else alt))"

fun typed :: "u8 list \<Rightarrow> bool \<times> bool \<times> bool \<Rightarrow> key_event list" where
  "typed [] m = []"
| "typed (code # codes) m =
     (let m = after_key code m; down = (code < 0x80);
          c = qwertzToAscii ! unat (if down then code else code - 0x80)
      in (if c = 0 then [] else [\<lparr>ke_key = c, ke_pressed = down, ke_ctrl = fst (snd m), ke_shift = fst m, ke_alt = snd (snd m), ke_valid = True\<rparr>])
         @ typed codes m)"

definition held :: "keyboard \<Rightarrow> bool \<times> bool \<times> bool" where
  "held k = (kb_shift k, kb_ctrl k, kb_alt k)"

lemma held_modifiers:
  "held (key_modifiers (if code < 0x80 then code else code - 0x80) (code < 0x80) k) = after_key code (held k)"
  by (auto simp: held_def key_modifiers_def Let_def)

text \<open>C23: Any sequence of scan codes is handled without leaving the tables of the keyboard. Shift, control and
  alt are as their keys were left last, and the window manager gets one event for each key that has a
  character, in the order of the keys and with the modifiers held at its time.\<close>

theorem keys_become_events:
  assumes "keyboard_ok k"
  shows "\<exists>k' d'. fold_opt (scan_code b) codes (k, w, d) = Some (k', fold queueKeyboardEvent (typed codes (held k)) w, d') \<and>
    keyboard_ok k' \<and> held k' = fold after_key codes (held k)"
  using assms
proof (induction codes arbitrary: k w d)
  case (Cons code codes)
  let ?p = "code < 0x80" let ?key = "if ?p then code else code - 0x80"
  let ?c = "qwertzToAscii ! unat ?key" and ?m = "key_modifiers ?key ?p k"
  obtain k1 w1 d1 where s: "scan_code b code (k, w, d) = Some (k1, w1, d1)" "keyboard_ok k1"
    and m: "kb_shift k1 = kb_shift ?m" "kb_ctrl k1 = kb_ctrl ?m" "kb_alt k1 = kb_alt ?m"
    and w1: "w1 = (if ?c \<noteq> 0 then queueKeyboardEvent (key_event_of ?c ?p ?m) w else w)"
    using scan_code_spec [OF Cons.prems, of b code w d] by (auto simp: Let_def)
  have h: "held k1 = after_key code (held k)" "held ?m = after_key code (held k)"
    using m held_modifiers [of code k] by (simp_all add: held_def)
  have e: "fold queueKeyboardEvent (typed (code # codes) (held k)) w = fold queueKeyboardEvent (typed codes (held k1)) w1"
    using h by (simp add: w1 Let_def key_event_of_def held_def [of ?m] flip: h(2))
  show ?case using Cons.IH [OF s(2), of w1 d1] s(1) e h(1) by simp
qed simp

theorem keys_become_events_witness:
  "\<exists>k' d'. fold_opt (scan_code ex_bus) [0x2A, 0x1E, 0xAA] (newKeyboard, windows_of ex_machine, ()) =
     Some (k', fold queueKeyboardEvent (typed [0x2A, 0x1E, 0xAA] (held newKeyboard)) (windows_of ex_machine), d') \<and>
     keyboard_ok k' \<and> held k' = fold after_key [0x2A, 0x1E, 0xAA] (held newKeyboard)"
  by (rule keys_become_events) (simp add: keyboard_ok_def newKeyboard_def)

lemma movement_value: "sint (movement f v) = (if f then 2 * sint v else sint v)"
proof -
  have b: "- 128 \<le> sint v" "sint v < 128" using sint_ge [of v] sint_lt [of v] by simp_all
  have s: "sint (scast v :: u32) = sint v" by (rule sint_up_scast) (simp add: is_up)
  have "sint (2 :: u32) = 2" by simp
  then have "sint (scast v * 2 :: u32) = signed_take_bit 31 (sint v * 2)"
    unfolding sint_word_ariths(3) s by simp
  also have "\<dots> = 2 * sint v" using b by (simp add: signed_take_bit_int_eq_self)
  finally have "sint (scast v * 2 :: u32) = 2 * sint v" .
  then show ?thesis by (simp add: movement_def s)
qed

lemma movement_negated: "sint (- movement f v) = - sint (movement f v)"
proof -
  have "- 256 \<le> sint (movement f v)" "sint (movement f v) < 256"
    using sint_ge [of v] sint_lt [of v] by (simp_all add: movement_value)
  then show ?thesis unfolding sint_word_ariths(4) by (simp add: signed_take_bit_int_eq_self)
qed

text \<open>A packet of the mouse: three bytes, the first one with bit 3.\<close>

definition mouse_packet :: "bytes \<Rightarrow> bool" where
  "mouse_packet p \<longleftrightarrow> length p = 3 \<and> p ! 0 AND 0x08 \<noteq> 0"

lemma one_packet:
  assumes "mouse_packet p" and "ms_offset m = 0" and "length (ms_buffer m) = 3"
  shows "fold mouse_byte p (m, w) = (m\<lparr>ms_buffer := p\<rparr>, queueMouseEvent (packet_event p) w)"
proof -
  obtain x y z where p: "p = [x, y, z]" using assms(1) by (auto simp: mouse_packet_def length_Suc_conv numeral_3_eq_3)
  obtain u v t where b: "ms_buffer m = [u, v, t]" using assms(3) by (auto simp: length_Suc_conv numeral_3_eq_3)
  have "x AND 8 \<noteq> 0" using assms(1) by (simp add: mouse_packet_def p)
  moreover have "[u, v, t][0 := x, 1 := y, 2 := z] = [x, y, z]" by (simp add: numeral_2_eq_2)
  ultimately show ?thesis using assms(2) b
    by (simp add: p mouse_byte_def Let_def numeral_2_eq_2)
qed

text \<open>C24: From a state between two packets the mouse handler makes of any sequence of packets one event each,
  in order, with the movement and the buttons of that packet: two signed numbers of eight bits, doubled
  on overflow, the second one downwards. A byte that cannot start a packet makes
  it send the event of the last packet once more.\<close>

theorem packets_become_events:
  assumes "\<forall>p \<in> set ps. mouse_packet p" and "ms_offset m = 0" and "length (ms_buffer m) = 3"
  shows "fold mouse_byte (concat ps) (m, w) =
      (m\<lparr>ms_buffer := last (ms_buffer m # ps)\<rparr>, fold queueMouseEvent (map packet_event ps) w) \<and>
    (\<forall>p \<in> set ps.
       sint (me_x (packet_event p)) = (if bit (p ! 0) 6 then 2 * sint (p ! 1) else sint (p ! 1)) \<and>
       sint (me_y (packet_event p)) = - (if bit (p ! 0) 7 then 2 * sint (p ! 2) else sint (p ! 2)) \<and>
       (me_left (packet_event p) \<longleftrightarrow> bit (p ! 0) 0) \<and> (me_right (packet_event p) \<longleftrightarrow> bit (p ! 0) 1)) \<and>
    (\<forall>c. c AND 0x08 = 0 \<longrightarrow> mouse_byte c (m, w) = (m, queueMouseEvent (packet_event (ms_buffer m)) w))"
proof (intro conjI)
  show "fold mouse_byte (concat ps) (m, w) = (m\<lparr>ms_buffer := last (ms_buffer m # ps)\<rparr>, fold queueMouseEvent (map packet_event ps) w)"
    using assms
  proof (induction ps arbitrary: m w)
    case (Cons p ps)
    have p: "mouse_packet p" "length p = 3" using Cons.prems(1) by (simp_all add: mouse_packet_def)
    show ?case
      using Cons.IH [of "m\<lparr>ms_buffer := p\<rparr>"] Cons.prems p(2) one_packet [OF p(1) Cons.prems(2,3)] by simp
  qed simp
qed (use assms(2) in \<open>simp_all add: mouse_byte_def packet_event_def movement_value movement_negated Let_def\<close>)

theorem packets_become_events_witness:
  "fold mouse_byte (concat [[0x08, 1, 2], [0x09, 0xFF, 0]]) (newMouse, windows_of ex_machine) =
     (newMouse\<lparr>ms_buffer := [0x09, 0xFF, 0]\<rparr>, fold queueMouseEvent (map packet_event [[0x08, 1, 2], [0x09, 0xFF, 0]]) (windows_of ex_machine))"
  using packets_become_events [of "[[0x08, 1, 2], [0x09, 0xFF, 0]]" newMouse] by (simp add: mouse_packet_def newMouse_def)

section \<open>The calendar\<close>

text \<open>C25: The number of a date is the number of days since the first of January 1970: counting days one by one,
  through months of their lengths and leap years, reaches after \<open>n\<close> days the date of number \<open>n\<close>, for
  every year that fits its 16 bits.\<close>

theorem epoch_counts_days:
  assumes "(next_day ^^ n) (1970, 1, 1) = (y, m, d)" and "y < 65536"
  shows "daysSinceEpoch (of_nat y) (of_nat m) (of_nat d) = Some (of_nat n)"
  using daysSinceEpoch_number [of y m d] nth_day [of n] assms by (simp del: day_number.simps date_ok.simps)

lemma days_in_month: "d + k \<le> days_of y m \<Longrightarrow> (next_day ^^ k) (y, m, d) = (y, m, d + k)"
  by (induction k) simp_all

theorem epoch_counts_days_witness: "daysSinceEpoch 1970 2 2 = Some 32"
proof -
  have "(next_day ^^ 30) (1970, 1, 1) = (1970, 1, 31)" using days_in_month [of 1 30 1970 1] by (simp add: days_of_def)
  then have "(next_day ^^ (2 + 30)) (1970, 1, 1) = (1970, 2, 2)"
    unfolding funpow_add by (simp add: numeral_2_eq_2 days_of_def leap_def)
  from epoch_counts_days [OF this] show ?thesis by simp
qed

text \<open>The seconds are counted in 32 bits: in February 2106 they start again at zero.\<close>

lemma seconds_wrap: "toEpochTime 2106 2 7 6 28 16 = Some 0"
proof -
  have n: "day_number (2106, 2, 7) = 49710" by (simp add: upt_rec_numeral upt_rec [of _ 2] days_of_def leap_def)
  have "daysSinceEpoch 2106 2 7 = Some 49710"
    using daysSinceEpoch_number [of 2106 2 7] unfolding n by (simp add: days_of_def)
  then show ?thesis by (simp add: toEpochTime_def)
qed

end
