(* ===== verification/Scan_Format.thy ===== *)
theory Scan_Format
  imports Print_Format Bytes
begin

text \<open>
  Formatted input (\<open>libs/stdio.cpp\<close>: \<open>vsscanf\<close> and its parsers). Format and input are C strings; the variable
  arguments are addresses, and the result is the number of items with the bytes stored at each address,
  in order. A signed overflow wraps. The conversion \<open>%f\<close> is not modelled and is \<open>None\<close>.
\<close>

section \<open>Definitions\<close>

definition white :: "byte \<Rightarrow> bool" where
  "white c \<longleftrightarrow> c = 32 \<or> c = 9 \<or> c = 10 \<or> c = 13"

fun skip_whitespace :: "bytes \<Rightarrow> bytes option" where
  "skip_whitespace [] = None"
| "skip_whitespace (c # cs) = (if white c then skip_whitespace cs else Some (c # cs))"

definition dec_digit :: "byte \<Rightarrow> u32 option" where
  "dec_digit c = (if is_digit c then Some (ucast c - 48) else None)"

definition hex_digit :: "byte \<Rightarrow> u32 option" where
  "hex_digit c =
     (if is_digit c then Some (ucast c - 48)
      else if 97 \<le> c \<and> c \<le> 102 then Some (ucast c - 97 + 10)
      else if 65 \<le> c \<and> c \<le> 70 then Some (ucast c - 65 + 10)
      else None)"

definition bin_digit :: "byte \<Rightarrow> u32 option" where
  "bin_digit c = (if c = 48 \<or> c = 49 then Some (ucast c - 48) else None)"

text \<open>The digits of a number from here on: its value and the rest.\<close>

fun scan_digits :: "(byte \<Rightarrow> u32 option) \<Rightarrow> u32 \<Rightarrow> bytes \<Rightarrow> u32 \<Rightarrow> (u32 \<times> bytes) option" where
  "scan_digits d base [] v = None"
| "scan_digits d base (c # cs) v =
     (case d c of None \<Rightarrow> Some (v, c # cs) | Some k \<Rightarrow> scan_digits d base cs (v * base + k))"

text \<open>A parser fails (\<open>None\<close> inside) unless there is a digit.\<close>

definition scan_number :: "(byte \<Rightarrow> u32 option) \<Rightarrow> u32 \<Rightarrow> bytes \<Rightarrow> (u32 \<times> bytes) option option" where
  "scan_number d base s =
     do { c \<leftarrow> rd_at s 0; if d c = None then Some None else map_option Some (scan_digits d base s 0) }"

definition parse_int :: "bytes \<Rightarrow> (u32 \<times> bytes) option option" where
  "parse_int str =
     do { s \<leftarrow> skip_whitespace str;
          c \<leftarrow> rd_at s 0;
          let (negative, s) = (if c = 45 then (True, drop 1 s) else if c = 43 then (False, drop 1 s) else (False, s)) in do {
            r \<leftarrow> scan_number dec_digit 10 s;
            Some (map_option (\<lambda>(v, s). (if negative then - v else v, s)) r) } }"

definition parse_uint :: "bytes \<Rightarrow> (u32 \<times> bytes) option option" where
  "parse_uint str = do { s \<leftarrow> skip_whitespace str; scan_number dec_digit 10 s }"

definition parse_hex :: "bytes \<Rightarrow> (u32 \<times> bytes) option option" where
  "parse_hex str = do { s \<leftarrow> skip_whitespace str; (_, s) \<leftarrow> hex_prefix 16 s; scan_number hex_digit 16 s }"

definition parse_binary :: "bytes \<Rightarrow> (u32 \<times> bytes) option option" where
  "parse_binary str = do { s \<leftarrow> skip_whitespace str; scan_number bin_digit 2 s }"

text \<open>
  What a conversion does: it ends the call, or it goes on with the rest of the format, the input and the
  arguments; both with what it has stored.
\<close>

datatype scan_step = Stop "(u32 \<times> bytes) list" | Go "(u32 \<times> bytes) list" bytes bytes "u32 list"

definition scan_with :: "(bytes \<Rightarrow> (u32 \<times> bytes) option option) \<Rightarrow> (u32 \<Rightarrow> bytes) \<Rightarrow> bytes \<Rightarrow> bytes \<Rightarrow> u32 list \<Rightarrow> scan_step option" where
  "scan_with parse stored fmt input args =
     (case args of
        [] \<Rightarrow> None
      | ptr # args \<Rightarrow>
          if ptr = 0 then Some (Stop [])
          else do {
            r \<leftarrow> parse input;
            Some (case r of None \<Rightarrow> Stop [] | Some (v, input) \<Rightarrow> Go [(ptr, stored v)] fmt input args) })"

fun take_word :: "nat \<Rightarrow> bytes \<Rightarrow> (bytes \<times> bytes) option" where
  "take_word n [] = None"
| "take_word n (c # cs) =
     (if c \<noteq> 0 \<and> 0 < n \<and> \<not> isspace c then map_option (\<lambda>(w, r). (c # w, r)) (take_word (n - 1) cs)
      else Some ([], c # cs))"

text \<open>A word of at most \<open>width - 1\<close> characters; its terminator is stored even where there is no word.\<close>

definition scan_string :: "u32 \<Rightarrow> bytes \<Rightarrow> bytes \<Rightarrow> u32 list \<Rightarrow> scan_step option" where
  "scan_string width fmt input args =
     (case args of
        [] \<Rightarrow> None
      | ptr # args \<Rightarrow>
          if ptr = 0 \<or> width <=s 0 then Some (Stop [])
          else do {
            (word, input) \<leftarrow> take_word (unat (width - 1)) input;
            Some (if word = [] then Stop [(ptr, [0])] else Go [(ptr, word @ [0])] fmt input args) })"

definition scan_char :: "bytes \<Rightarrow> bytes \<Rightarrow> u32 list \<Rightarrow> scan_step option" where
  "scan_char fmt input args =
     (case args of
        [] \<Rightarrow> None
      | ptr # args \<Rightarrow>
          if ptr = 0 then Some (Stop [])
          else do { c \<leftarrow> rd_at input 0; Some (if c = 0 then Stop [] else Go [(ptr, [c])] fmt (drop 1 input) args) })"

text \<open>A \<open>long long\<close> gets the 32 bits that were parsed, with their sign.\<close>

definition sign_extended :: "u32 \<Rightarrow> bytes" where
  "sign_extended v = bytes32 v @ bytes32 (if v <s 0 then - 1 else 0)"

definition zero_extended :: "u32 \<Rightarrow> bytes" where
  "zero_extended v = bytes32 v @ bytes32 0"

definition scan_long :: "bytes \<Rightarrow> bytes \<Rightarrow> u32 list \<Rightarrow> scan_step option" where
  "scan_long fmt input args =
     do { c \<leftarrow> rd_at fmt 0;
          if c = 100 then scan_with parse_int bytes32 (drop 1 fmt) input args
          else if c = 117 then scan_with parse_uint bytes32 (drop 1 fmt) input args
          else if c = 108 then do {
            c \<leftarrow> rd_at fmt 1;
            if c = 100 then scan_with parse_int sign_extended (drop 2 fmt) input args
            else if c = 117 then scan_with parse_uint zero_extended (drop 2 fmt) input args
            else Some (Go [] (drop 1 fmt) input args) }
          else Some (Go [] fmt input args) }"

definition scan_conversion :: "u32 \<Rightarrow> bytes \<Rightarrow> bytes \<Rightarrow> u32 list \<Rightarrow> scan_step option" where
  "scan_conversion width fmt input args =
     (case fmt of
        [] \<Rightarrow> None
      | c # r \<Rightarrow>
          if c = 100 then scan_with parse_int bytes32 r input args
          else if c = 117 then scan_with parse_uint bytes32 r input args
          else if c = 120 \<or> c = 88 then scan_with parse_hex bytes32 r input args
          else if c = 98 then scan_with parse_binary bytes32 r input args
          else if c = 102 then None
          else if c = 115 then scan_string width r input args
          else if c = 99 then scan_char r input args
          else if c = 112 then scan_with parse_hex bytes32 r input args
          else if c = 108 then scan_long r input args
          else if c = 122 then do {
            c \<leftarrow> rd_at r 0;
            if c = 117 then scan_with parse_uint bytes32 (drop 1 r) input args else Some (Go [] r input args) }
          else Some (Stop []))"

definition scan_width :: "bytes \<Rightarrow> (u32 \<times> bytes) option" where
  "scan_width fmt =
     do { c \<leftarrow> rd_at fmt 0; if is_digit c then scan_digits dec_digit 10 fmt 0 else Some (- 1, fmt) }"

lemma scan_with_length: "scan_with p e fmt input args = Some (Go ss fmt' input' args') \<Longrightarrow> fmt' = fmt"
  by (auto simp: scan_with_def split: list.splits if_splits Option.bind_splits option.splits)

lemma scan_digits_length: "scan_digits d base s v = Some (w, s') \<Longrightarrow> length s' \<le> length s"
  by (induction d base s v rule: scan_digits.induct) (auto split: option.splits)

lemma scan_width_length: "scan_width fmt = Some (w, fmt') \<Longrightarrow> length fmt' \<le> length fmt"
  by (auto simp: scan_width_def split: Option.bind_splits if_splits dest: scan_digits_length)

lemma scan_long_length: "scan_long fmt input args = Some (Go ss fmt' input' args') \<Longrightarrow> length fmt' \<le> length fmt"
  by (auto simp: scan_long_def split: Option.bind_splits if_splits dest!: scan_with_length)

lemma scan_conversion_length:
  "scan_conversion w fmt input args = Some (Go ss fmt' input' args') \<Longrightarrow> length fmt' < length fmt"
  by (auto simp: scan_conversion_def scan_string_def scan_char_def le_imp_less_Suc
      split: list.splits if_splits Option.bind_splits dest!: scan_with_length scan_long_length)

function vsscanf_from :: "bytes \<Rightarrow> bytes \<Rightarrow> u32 list \<Rightarrow> (nat \<times> (u32 \<times> bytes) list) option" where
  "vsscanf_from [] input args = None"
| "vsscanf_from (c # fmt) input args =
     (if c = 0 then Some (0, [])
      else if c = 32 \<or> c = 9 \<or> c = 10 then
        do { input \<leftarrow> skip_whitespace input;
             vsscanf_from (dropWhile (\<lambda>c. c = 32 \<or> c = 9 \<or> c = 10) fmt) input args }
      else if c \<noteq> 37 then
        do { i \<leftarrow> rd_at input 0;
             if i = 0 \<or> i \<noteq> c then Some (0, []) else vsscanf_from fmt (drop 1 input) args }
      else case fmt of
        [] \<Rightarrow> None
      | c' # fmt' \<Rightarrow>
          if c' = 37 then
            do { i \<leftarrow> rd_at input 0; if i \<noteq> 37 then Some (0, []) else vsscanf_from fmt' (drop 1 input) args }
          else do {
            (width, fmt') \<leftarrow> scan_width fmt;
            input \<leftarrow> skip_whitespace input;
            r \<leftarrow> scan_conversion width fmt' input args;
            case r of
              Stop ss \<Rightarrow> Some (0, ss)
            | Go ss fmt' input args \<Rightarrow>
                map_option (\<lambda>(n, ts). (length ss + n, ss @ ts)) (vsscanf_from fmt' input args) })"
  by pat_completeness auto
termination
  by (relation "measure (\<lambda>(fmt, input, args). length fmt)")
    (auto dest!: scan_width_length scan_conversion_length simp: length_dropWhile_le le_imp_less_Suc)

definition vsscanf :: "bytes \<Rightarrow> bytes \<Rightarrow> u32 list \<Rightarrow> (u32 \<times> (u32 \<times> bytes) list) option" where
  "vsscanf str fmt args = map_option (\<lambda>(n, ss). (of_nat n, ss)) (vsscanf_from fmt str args)"

definition sscanf :: "bytes \<Rightarrow> bytes \<Rightarrow> u32 list \<Rightarrow> (u32 \<times> (u32 \<times> bytes) list) option" where
  "sscanf str fmt args = vsscanf str fmt args"

text \<open>
  The properties of formatted input: it reads back what formatted output has written, and on C strings
  it stays inside them.
\<close>

section \<open>The text of a number\<close>

definition numeral_digits :: "u32 \<Rightarrow> u32 \<Rightarrow> u32 list" where
  "numeral_digits base v = (if v = 0 then [0] else rev (digs base v))"

lemma numeral_digits_props:
  assumes "2 \<le> base"
  shows "numeral_digits base v \<noteq> []" "\<forall>d \<in> set (numeral_digits base v). d < base" "horner base (numeral_digits base v) 0 = v"
    "hd (numeral_digits base v) = 0 \<longleftrightarrow> v = 0"
proof -
  have p: "0 < base" using assms by (simp add: word_less_nat_alt word_le_nat_alt)
  note n = digs_nonempty [OF _ assms, of v]
  show "numeral_digits base v \<noteq> []" using n by (auto simp: numeral_digits_def)
  show "\<forall>d \<in> set (numeral_digits base v). d < base" using digs_less [OF _ assms] p by (auto simp: numeral_digits_def)
  show "horner base (numeral_digits base v) 0 = v"
    using horner_digs [OF assms, of v] by (simp add: numeral_digits_def horner_def)
  show "hd (numeral_digits base v) = 0 \<longleftrightarrow> v = 0" using n by (auto simp: numeral_digits_def hd_rev)
qed

definition numeral_text :: "u32 \<Rightarrow> u32 \<Rightarrow> bytes" where
  "numeral_text base v = map (digit_char False) (numeral_digits base v)"

lemma text_of_digits:
  assumes "\<forall>d \<in> set (ds :: u32 list). unat d < 36"
  shows "takeWhile (\<lambda>c. c \<noteq> 0) (map (digit_char False) ds @ [0]) = map (digit_char False) ds"
  using assms by (induction ds) (simp_all add: digit_of_char(2))

lemma numeral_below: "2 \<le> base \<Longrightarrow> unat base \<le> 36 \<Longrightarrow> \<forall>d \<in> set (numeral_digits base v). unat d < 36"
  using numeral_digits_props(2) [of base v] by (auto simp: word_less_nat_alt)

lemma itoa_u32_numeral:
  assumes "2 \<le> base" and "unat base \<le> 36"
  shows "number_text (itoa_u32 v base False) = Some (numeral_text base v)"
proof (cases "v = 0")
  case True
  then show ?thesis
    by (simp add: number_text_def itoa_u32_def itoa_unsigned_def numeral_text_def numeral_digits_def digit_char_def)
next
  case False
  then show ?thesis
    using itoa_u32_text [OF False assms(1)] text_of_digits [OF numeral_below [OF assms, of v]]
    by (simp add: number_text_def numeral_text_def numeral_digits_def)
qed

definition signed_text :: "u32 \<Rightarrow> bytes" where
  "signed_text v = (if sint v < 0 then 45 # numeral_text 10 (- v) else numeral_text 10 v)"

lemma itoa_signed_text:
  assumes "sint v \<noteq> - 2147483648"
  shows "number_text (itoa v 10 False) = Some (signed_text v)"
proof (cases "v = 0")
  case True
  then show ?thesis
    by (simp add: number_text_def itoa_def itoa_signed_def signed_text_def numeral_text_def numeral_digits_def digit_char_def)
next
  case False
  let ?n = "if sint v < 0 then - v else v"
  have n: "?n \<noteq> 0" using False by simp
  have "\<forall>d \<in> set (rev (digs 10 ?n)). unat d < 36"
    using numeral_below [of 10 ?n] n by (simp add: numeral_digits_def split: if_splits)
  note t = text_of_digits [OF this]
  show ?thesis
    using itoa_text [OF False assms, of False] t n False
    by (cases "sint v < 0") (simp_all add: number_text_def signed_text_def numeral_text_def numeral_digits_def)
qed

section \<open>Scanning a number\<close>

lemma digits_read_small:
  "list_all (\<lambda>n. hex_digit (digit_char False (word_of_nat n :: u32)) = Some (word_of_nat n)) [0..<16]"
  "list_all (\<lambda>n. dec_digit (digit_char False (word_of_nat n :: u32)) = Some (word_of_nat n)) [0..<10]"
  by (simp_all add: upt_conv_Cons hex_digit_def dec_digit_def digit_char_def is_digit_def)

lemma digit_read:
  "d < 16 \<Longrightarrow> hex_digit (digit_char False d) = Some (d :: u32)"
  "d < 10 \<Longrightarrow> dec_digit (digit_char False d) = Some (d :: u32)"
proof -
  have w: "word_of_nat (unat d) = d" by simp
  show "hex_digit (digit_char False d) = Some d" if "d < 16"
    using digits_read_small(1) that by (auto simp: list_all_iff word_less_nat_alt dest!: bspec [where x = "unat d"])
  show "dec_digit (digit_char False d) = Some d" if "d < 10"
    using digits_read_small(2) that by (auto simp: list_all_iff word_less_nat_alt dest!: bspec [where x = "unat d"])
qed

lemma scan_digits_text:
  assumes "\<forall>d \<in> set ds. f (digit_char False d) = Some d" and "f c = None"
  shows "scan_digits f base (map (digit_char False) ds @ c # r) v = Some (horner base ds v, c # r)"
  using assms by (induction ds arbitrary: v) (simp_all add: horner_def)

lemma scan_numeral:
  assumes "2 \<le> base" and "\<forall>d < base. f (digit_char False d) = Some d" and "f c = None"
  shows "scan_number f base (numeral_text base v @ c # r) = Some (Some (v, c # r))"
proof -
  note p = numeral_digits_props [OF assms(1), of v]
  obtain d ds where d: "numeral_digits base v = d # ds" using p(1) by (cases "numeral_digits base v") auto
  have "f (digit_char False d) = Some d" using p(2) assms(2) by (simp add: d)
  moreover have "scan_digits f base (numeral_text base v @ c # r) 0 = Some (v, c # r)"
    unfolding numeral_text_def using scan_digits_text [of "numeral_digits base v" f c base r 0] p(2,3) assms(2,3) by simp
  ultimately show ?thesis by (simp add: scan_number_def rd_at_def numeral_text_def d)
qed

lemma first_char:
  assumes "2 \<le> base" and "unat base \<le> 36"
  shows "\<exists>c t. numeral_text base v = c # t \<and> \<not> white c \<and> c \<noteq> 45 \<and> c \<noteq> 43 \<and> (c = 48 \<longleftrightarrow> v = 0) \<and> (v = 0 \<longrightarrow> t = [])"
proof -
  note p = numeral_digits_props [OF assms(1), of v]
  obtain d ds where d: "numeral_digits base v = d # ds" using p(1) by (cases "numeral_digits base v") auto
  have "unat d < 36" using numeral_below [OF assms, of v] by (simp add: d)
  note c = digit_of_char [OF this, of False]
  have "v = 0 \<Longrightarrow> ds = []" using d by (simp add: numeral_digits_def)
  then show ?thesis using c p(4) d by (auto simp: numeral_text_def white_def isspace_def)
qed

lemma skip_to: "\<not> white c \<Longrightarrow> skip_whitespace (c # s) = Some (c # s)"
  by simp

lemma parse_uint_text: "parse_uint (numeral_text 10 v @ 32 # r) = Some (Some (v, 32 # r))"
proof -
  obtain c t where "numeral_text 10 v = c # t" "\<not> white c" using first_char [of 10 v] by auto
  moreover have "scan_number dec_digit 10 (numeral_text 10 v @ 32 # r) = Some (Some (v, 32 # r))"
    by (rule scan_numeral) (simp_all add: digit_read, simp add: dec_digit_def is_digit_def)
  ultimately show ?thesis by (simp add: parse_uint_def)
qed

lemma parse_hex_text: "parse_hex (numeral_text 16 v @ 32 # r) = Some (Some (v, 32 # r))"
proof -
  obtain c t where c: "numeral_text 16 v = c # t" "\<not> white c" "c = 48 \<longrightarrow> t = []" using first_char [of 16 v] by auto
  have "hex_prefix 16 (c # t @ 32 # r) = Some (16, c # t @ 32 # r)"
    using c(3) by (auto simp: hex_prefix_def rd_at_def)
  moreover have "scan_number hex_digit 16 (numeral_text 16 v @ 32 # r) = Some (Some (v, 32 # r))"
    by (rule scan_numeral) (simp_all add: digit_read, simp add: hex_digit_def is_digit_def)
  ultimately show ?thesis using c by (simp add: parse_hex_def)
qed

lemma parse_int_text: "parse_int (signed_text v @ 32 # r) = Some (Some (v, 32 # r))"
proof -
  have n: "scan_number dec_digit 10 (numeral_text 10 w @ 32 # r) = Some (Some (w, 32 # r))" for w
    by (rule scan_numeral) (simp_all add: digit_read, simp add: dec_digit_def is_digit_def)
  obtain c t where c: "numeral_text 10 v = c # t" "\<not> white c" "c \<noteq> 45" "c \<noteq> 43" using first_char [of 10 v] by auto
  show ?thesis using n [of v] n [of "- v"] c by (simp add: parse_int_def signed_text_def white_def rd_at_def)
qed

section \<open>Printing and scanning\<close>

datatype number_kind = Signed | Unsigned | Hexadecimal

fun letter :: "number_kind \<Rightarrow> byte" where
  "letter Signed = 100"
| "letter Unsigned = 117"
| "letter Hexadecimal = 120"

fun printed :: "number_kind \<Rightarrow> u32 \<Rightarrow> bytes" where
  "printed Signed v = signed_text v"
| "printed Unsigned v = numeral_text 10 v"
| "printed Hexadecimal v = numeral_text 16 v"

text \<open>One conversion for each number, with a space behind it, and the terminator.\<close>

definition number_format :: "number_kind list \<Rightarrow> bytes" where
  "number_format ks = concat (map (\<lambda>k. [37, letter k, 32]) ks) @ [0]"

lemma print_one:
  assumes "sint v \<noteq> - 2147483648"
  shows "vsprintf_from (37 # letter k # 32 # fmt) (Word v # args) = map_option (\<lambda>t. printed k v @ 32 # t) (vsprintf_from fmt args)"
proof -
  have "letter k \<noteq> 37" "\<not> is_digit (letter k)" "letter k \<noteq> 46" by (cases k; simp add: is_digit_def)+
  then have s: "spec (letter k # 32 # fmt) = Some (0, letter k # 32 # fmt)" by (simp add: spec_def rd_at_def)
  have "padded 0 t = t" for t by (simp add: padded_def)
  then have c: "convert 0 (letter k # 32 # fmt) (Word v # args) = Some (printed k v, 32 # fmt, args)"
    using itoa_signed_text [OF assms] itoa_u32_numeral [of 10 v] itoa_u32_numeral [of 16 v]
    by (cases k) (simp_all add: convert_def arg_word_def)
  show ?thesis using \<open>letter k \<noteq> 37\<close> s c by (simp add: option.map_comp comp_def)
qed

lemma print_all:
  assumes "\<forall>(k, v) \<in> set kvs. sint v \<noteq> - 2147483648"
  shows "vsprintf_from (number_format (map fst kvs)) (map (Word \<circ> snd) kvs) = Some (concat (map (\<lambda>(k, v). printed k v @ [32]) kvs))"
  using assms
proof (induction kvs)
  case (Cons x kvs)
  obtain k v where x: "x = (k, v)" by fastforce
  have "number_format (map fst (x # kvs)) = 37 # letter k # 32 # number_format (map fst kvs)"
    by (simp add: number_format_def x)
  then show ?case
    using Cons print_one [of v k "number_format (map fst kvs)" "map (Word \<circ> snd) kvs"]
    by (simp add: x comp_def del: vsprintf_from.simps)
qed (simp add: number_format_def)

lemma printed_first: "\<exists>c t. printed k v = c # t \<and> \<not> white c"
proof (cases k)
  case Signed
  then show ?thesis using first_char [of 10 v] by (cases "sint v < 0") (auto simp: signed_text_def white_def)
next
  case Unsigned
  then show ?thesis using first_char [of 10 v] by auto
next
  case Hexadecimal
  then show ?thesis using first_char [of 16 v] by auto
qed

text \<open>The rest of a text starts with a number or is its end.\<close>

lemma scan_one:
  assumes "p \<noteq> 0" and "\<not> white c"
  shows "vsscanf_from (37 # letter k # 32 # f # fmt) (printed k v @ 32 # c # r) (p # ps) =
    map_option (\<lambda>(n, ts). (Suc n, (p, bytes32 v) # ts)) (vsscanf_from (dropWhile (\<lambda>c. c = 32 \<or> c = 9 \<or> c = 10) (f # fmt)) (c # r) ps)"
proof -
  obtain d t where d: "printed k v = d # t" "\<not> white d" using printed_first [of k v] by blast
  have l: "letter k \<noteq> 37" "\<not> is_digit (letter k)" by (cases k; simp add: is_digit_def)+
  then have w: "scan_width (letter k # 32 # f # fmt) = Some (- 1, letter k # 32 # f # fmt)"
    by (simp add: scan_width_def rd_at_def)
  have "scan_conversion (- 1) (letter k # 32 # f # fmt) (printed k v @ 32 # c # r) (p # ps) =
      Some (Go [(p, bytes32 v)] (32 # f # fmt) (32 # c # r) ps)"
    using assms(1) parse_int_text [of v "c # r"] parse_uint_text [of v "c # r"] parse_hex_text [of v "c # r"]
    by (cases k) (simp_all add: scan_conversion_def scan_with_def)
  then have "vsscanf_from (37 # letter k # 32 # f # fmt) (printed k v @ 32 # c # r) (p # ps) =
      map_option (\<lambda>(n, ts). (Suc n, (p, bytes32 v) # ts)) (vsscanf_from (32 # f # fmt) (32 # c # r) ps)"
    using l w d by simp
  moreover have "skip_whitespace (32 # c # r) = Some (c # r)" using assms(2) by (simp add: white_def)
  ultimately show ?thesis by simp
qed

lemma scan_all:
  assumes "0 \<notin> set ps" and "length ps = length kvs"
  shows "vsscanf_from (number_format (map fst kvs)) (concat (map (\<lambda>(k, v). printed k v @ [32]) kvs) @ [0]) ps =
    Some (length kvs, zip ps (map (bytes32 \<circ> snd) kvs))"
  using assms
proof (induction kvs arbitrary: ps)
  case (Cons x kvs)
  obtain k v where x: "x = (k, v)" by fastforce
  obtain p qs where ps: "ps = p # qs" using Cons.prems(2) by (cases ps) auto
  let ?text = "concat (map (\<lambda>(k, v). printed k v @ [32]) kvs) @ [0]"
  have "\<exists>c r. ?text = c # r \<and> \<not> white c"
  proof (cases kvs)
    case (Cons y ys)
    then show ?thesis using printed_first [of "fst y" "snd y"] by (auto simp: split_beta)
  qed (simp add: white_def)
  then obtain c r where t: "?text = c # r" "\<not> white c" by blast
  obtain f fmt where f: "number_format (map fst kvs) = f # fmt" "f = 37 \<or> f = 0"
    by (cases kvs) (auto simp: number_format_def)
  have "p \<noteq> 0" "0 \<notin> set qs" "length qs = length kvs" using Cons.prems by (auto simp: ps)
  then have "vsscanf_from (f # fmt) (c # r) qs = Some (length kvs, zip qs (map (bytes32 \<circ> snd) kvs))"
    using Cons.IH [of qs] unfolding t(1) f(1) by blast
  moreover have "dropWhile (\<lambda>c. c = 32 \<or> c = 9 \<or> c = 10) (f # fmt) = f # fmt" using f(2) by auto
  moreover have "number_format (map fst (x # kvs)) = 37 # letter k # 32 # f # fmt"
    using f(1) by (simp add: number_format_def x)
  moreover have "concat (map (\<lambda>(k, v). printed k v @ [32]) (x # kvs)) @ [0] = printed k v @ 32 # c # r"
    using t(1) by (simp add: x)
  ultimately show ?case using scan_one [OF \<open>p \<noteq> 0\<close> t(2), of k f fmt v r qs] by (simp add: ps x comp_def del: vsscanf_from.simps)
qed (simp add: number_format_def)

text \<open>C29: Numbers of any kinds, signed, unsigned and hexadecimal, that are printed one behind the other are read
  back by scanning the text with the same format: every number is stored at its address, and the count
  is the number of them.\<close>

theorem printed_numbers_scanned:
  assumes "\<forall>(k, v) \<in> set kvs. sint v \<noteq> - 2147483648" and "0 \<notin> set ps" and "length ps = length kvs"
  shows "\<exists>t. vsprintf_from (number_format (map fst kvs)) (map (Word \<circ> snd) kvs) = Some t \<and>
    vsscanf (t @ [0]) (number_format (map fst kvs)) ps = Some (of_nat (length kvs), zip ps (map (bytes32 \<circ> snd) kvs))"
  using print_all [OF assms(1)] scan_all [OF assms(2,3)] by (simp add: vsscanf_def)

theorem printed_numbers_scanned_witness:
  "\<exists>t. vsprintf_from (number_format [Signed, Hexadecimal]) [Word (- 5), Word 0xBEEF] = Some t \<and>
    vsscanf (t @ [0]) (number_format [Signed, Hexadecimal]) [0x100, 0x104] = Some (2, [(0x100, bytes32 (- 5)), (0x104, bytes32 0xBEEF)])"
  using printed_numbers_scanned [of "[(Signed, - 5), (Hexadecimal, 0xBEEF)]" "[0x100, 0x104]"] by simp

end
