(* ===== verification/Drive.thy ===== *)
theory Drive
  imports Ports Disk Libgcc
begin

text \<open>
  The driver of the disks (\<open>core/peripherals/ATA.cpp\<close>) and the partition table
  (\<open>core/files/partitions/MasterBootRecord.cpp\<close>). The record \<open>timed\<close> adds to a bus what the driver asks of the
  rest of the kernel: the number of ticks, their frequency, and a delay. A loop that waits for the drive
  with a deadline is a partial function, since it ends by the clock only.
\<close>

section \<open>The driver\<close>

record 'd timed =
  td_bus :: "'d bus"
  td_now :: "'d \<Rightarrow> u64"
  td_frequency :: u32
  td_delay :: "u64 \<Rightarrow> 'd \<Rightarrow> 'd"

record ata =
  ata_base :: u16
  ata_slave :: bool
  ata_serialNumber :: bytes
  ata_firmwareVersion :: bytes
  ata_modelNumber :: bytes
  ata_storageSize :: u64
  ata_sectors28Bit :: u32

definition newATA :: "u16 \<Rightarrow> bool \<Rightarrow> ata" where
  "newATA portBase slave = \<lparr>ata_base = portBase, ata_slave = slave, ata_serialNumber = replicate 21 0,
     ata_firmwareVersion = replicate 9 0, ata_modelNumber = replicate 41 0, ata_storageSize = 0, ata_sectors28Bit = 0\<rparr>"

datatype ata_command = Identify | ReadSectors | WriteSectors

fun command_code :: "ata_command \<Rightarrow> u8" where
  "command_code Identify = 0xEC"
| "command_code ReadSectors = 0x20"
| "command_code WriteSectors = 0x30"

text \<open>Writing a register of the drive, and reading its status.\<close>

definition to_drive :: "'d timed \<Rightarrow> ata \<Rightarrow> u16 \<Rightarrow> u32 \<Rightarrow> 'd \<Rightarrow> 'd" where
  "to_drive t a register = byte_write (td_bus t) (ata_base a + register)"

definition ata_status :: "'d timed \<Rightarrow> ata \<Rightarrow> 'd \<Rightarrow> u8 \<times> 'd" where
  "ata_status t a d = (let (v, d) = byte_read (td_bus t) (ata_base a + 7) d in (ucast v, d))"

definition isDevicePresent :: "'d timed \<Rightarrow> ata \<Rightarrow> 'd \<Rightarrow> bool \<times> 'd" where
  "isDevicePresent t a d =
     (let d = to_drive t a 0x206 0 (to_drive t a 6 (if ata_slave a then 0xB0 else 0xA0) d);
          (v, d) = ata_status t a d
      in (v \<noteq> 0, d))"

definition selectDevice :: "'d timed \<Rightarrow> ata \<Rightarrow> u32 \<Rightarrow> 'd \<Rightarrow> 'd" where
  "selectDevice t a lba = to_drive t a 6 ((if ata_slave a then 0xF0 else 0xE0) OR (drop_bit 24 lba AND 0x0F))"

definition setLBA :: "'d timed \<Rightarrow> ata \<Rightarrow> u32 \<Rightarrow> 'd \<Rightarrow> 'd" where
  "setLBA t a lba d =
     to_drive t a 5 (drop_bit 16 lba AND 0xFF) (to_drive t a 4 (drop_bit 8 lba AND 0xFF) (to_drive t a 3 (lba AND 0xFF) d))"

text \<open>The deadlines are in ticks; the product of timeout and frequency has 32 bits.\<close>

definition deadline :: "'d timed \<Rightarrow> u32 \<Rightarrow> 'd \<Rightarrow> u64" where
  "deadline t timeout d = td_now t d + ucast (timeout * td_frequency t div 1000)"

partial_function (option) busy_loop :: "'d timed \<Rightarrow> ata \<Rightarrow> u64 \<Rightarrow> 'd \<Rightarrow> (bool \<times> 'd) option" where
  "busy_loop t a target d =
     (let (v, d) = ata_status t a d in
      if v AND 0x80 = 0 then Some (True, d)
      else if target < td_now t d then Some (False, d)
      else busy_loop t a target d)"

definition waitForBusy :: "'d timed \<Rightarrow> ata \<Rightarrow> u32 \<Rightarrow> 'd \<Rightarrow> (bool \<times> 'd) option" where
  "waitForBusy t a timeout d = busy_loop t a (deadline t timeout d) d"

partial_function (option) ready_loop :: "'d timed \<Rightarrow> ata \<Rightarrow> u64 \<Rightarrow> 'd \<Rightarrow> (bool \<times> 'd) option" where
  "ready_loop t a target d =
     (let (v, d) = ata_status t a d in
      if v AND 0x80 = 0 \<and> v AND 0x08 \<noteq> 0 then Some (True, d)
      else if v AND 0x01 \<noteq> 0 then Some (False, d)
      else if target < td_now t d then Some (False, d)
      else ready_loop t a target d)"

definition waitForReady :: "'d timed \<Rightarrow> ata \<Rightarrow> u32 \<Rightarrow> 'd \<Rightarrow> (bool \<times> 'd) option" where
  "waitForReady t a timeout d = ready_loop t a (deadline t timeout d) d"

partial_function (option) not_busy_loop :: "'d timed \<Rightarrow> ata \<Rightarrow> u64 \<Rightarrow> 'd \<Rightarrow> (bool \<times> 'd) option" where
  "not_busy_loop t a target d =
     (if td_now t d < target
      then let (v, d) = ata_status t a d in if v AND 0x80 = 0 then Some (True, d) else not_busy_loop t a target d
      else Some (False, d))"

definition waitForNotBusy :: "'d timed \<Rightarrow> ata \<Rightarrow> u32 \<Rightarrow> 'd \<Rightarrow> (bool \<times> 'd) option" where
  "waitForNotBusy t a timeout d = not_busy_loop t a (deadline t timeout d) d"

text \<open>The words of a sector over the data port.\<close>

fun words_of :: "bytes \<Rightarrow> u16 list" where
  "words_of (x # y # bs) = le16 x y # words_of bs"
| "words_of _ = []"

definition bytes_of :: "u16 list \<Rightarrow> bytes" where
  "bytes_of ws = concat (map bytes16 ws)"

definition write_words :: "'d timed \<Rightarrow> ata \<Rightarrow> u16 list \<Rightarrow> 'd \<Rightarrow> 'd" where
  "write_words t a ws d = foldl (\<lambda>d w. word_write (td_bus t) (ata_base a) (ucast w) d) d ws"

fun read_words :: "'d timed \<Rightarrow> ata \<Rightarrow> nat \<Rightarrow> 'd \<Rightarrow> u16 list \<times> 'd" where
  "read_words t a 0 d = ([], d)"
| "read_words t a (Suc n) d =
     (let (w, d) = word_read (td_bus t) (ata_base a) d; (ws, d) = read_words t a n d in (ucast w # ws, d))"

text \<open>A command: the outcome and the buffer afterwards.\<close>

definition executeCommand ::
    "'d timed \<Rightarrow> ata \<Rightarrow> ata_command \<Rightarrow> u32 \<Rightarrow> u8 \<Rightarrow> bytes \<Rightarrow> u32 \<Rightarrow> 'd \<Rightarrow> (bool \<times> bytes \<times> 'd) option" where
  "executeCommand t a cmd lba sectorCount buffer timeout d =
     do { (ok, d) \<leftarrow> waitForNotBusy t a timeout d;
          if \<not> ok then Some (False, buffer, d)
          else let d = to_drive t a 7 (ucast (command_code cmd)) (setLBA t a lba (to_drive t a 2 (ucast sectorCount) (selectDevice t a lba d)))
          in do {
            (ok, d) \<leftarrow> waitForBusy t a 100000 d;
            if \<not> ok then Some (False, buffer, d)
            else do {
              (ok, d) \<leftarrow> waitForReady t a 100000 d;
              if \<not> ok then Some (False, buffer, d)
              else case cmd of
                WriteSectors \<Rightarrow> do { bs \<leftarrow> slice buffer 0 512; Some (True, buffer, write_words t a (words_of bs) d) }
              | ReadSectors \<Rightarrow>
                  let (ws, d) = read_words t a 256 d in do { buffer \<leftarrow> blit buffer 0 (bytes_of ws); Some (True, buffer, d) }
              | Identify \<Rightarrow> Some (True, buffer, d) } } }"

definition clearError :: "'d timed \<Rightarrow> ata \<Rightarrow> 'd \<Rightarrow> bool \<times> 'd" where
  "clearError t a d =
     (let (v, d) = ata_status t a d in
      if v AND 0x01 \<noteq> 0
      then let d = to_drive t a 0x206 0 (td_delay t 1000 (to_drive t a 0x206 4 d)); (v, d) = ata_status t a d
        in (v AND 0x01 = 0, d)
      else (True, d))"

definition checkStatus :: "'d timed \<Rightarrow> ata \<Rightarrow> 'd \<Rightarrow> bool \<times> 'd" where
  "checkStatus t a d =
     (let (v, d) = ata_status t a d in if v AND 0x01 \<noteq> 0 then (False, snd (clearError t a d)) else (True, d))"

definition ata_transfer ::
    "ata_command \<Rightarrow> 'd timed \<Rightarrow> ata \<Rightarrow> u32 \<Rightarrow> bytes \<Rightarrow> u32 \<Rightarrow> 'd \<Rightarrow> (bool \<times> bytes \<times> 'd) option" where
  "ata_transfer cmd t a lba buffer timeout d =
     (let (present, d) = isDevicePresent t a d in
      if \<not> present then Some (False, buffer, d)
      else do {
        (ok, buffer, d) \<leftarrow> executeCommand t a cmd lba 1 buffer timeout d;
        if \<not> ok then Some (False, buffer, d)
        else let (ok, d) = checkStatus t a d in Some (ok, buffer, d) })"

definition ata_readSector :: "'d timed \<Rightarrow> ata \<Rightarrow> u32 \<Rightarrow> bytes \<Rightarrow> u32 \<Rightarrow> 'd \<Rightarrow> (bool \<times> bytes \<times> 'd) option" where
  "ata_readSector = ata_transfer ReadSectors"

definition ata_writeSector :: "'d timed \<Rightarrow> ata \<Rightarrow> u32 \<Rightarrow> bytes \<Rightarrow> u32 \<Rightarrow> 'd \<Rightarrow> (bool \<times> 'd) option" where
  "ata_writeSector t a lba buffer timeout d =
     map_option (\<lambda>(ok, _, d). (ok, d)) (ata_transfer WriteSectors t a lba buffer timeout d)"

text \<open>The texts of the identity: two characters in a word, high byte first.\<close>

definition extractString :: "u16 list \<Rightarrow> bytes \<Rightarrow> nat \<Rightarrow> nat \<Rightarrow> bytes option" where
  "extractString source dest start lengthBytes =
     do { ws \<leftarrow> slice source start (lengthBytes div 2);
          blit dest 0 (concat (map (\<lambda>w. [ucast (drop_bit 8 w), ucast (w AND 0xFF)]) ws) @ [0]) }"

definition identify :: "'d timed \<Rightarrow> u32 \<Rightarrow> ata \<times> 'd \<Rightarrow> (bool \<times> ata \<times> 'd) option" where
  "identify t timeout = (\<lambda>(a, d).
     let (present, d) = isDevicePresent t a d in
     if \<not> present then Some (False, a, d)
     else do {
       (ok, _, d) \<leftarrow> executeCommand t a Identify 0 0 [] timeout d;
       if \<not> ok then Some (False, a, d)
       else let (buffer, d) = read_words t a 256 d in do {
         serial \<leftarrow> extractString buffer (ata_serialNumber a) 10 20;
         firmware \<leftarrow> extractString buffer (ata_firmwareVersion a) 23 8;
         model \<leftarrow> extractString buffer (ata_modelNumber a) 27 40;
         hi \<leftarrow> rd_at buffer 61;
         lo \<leftarrow> rd_at buffer 60;
         let sectors = push_bit 16 (ucast hi) OR ucast lo :: u32 in
         Some (True, a\<lparr>ata_serialNumber := serial, ata_firmwareVersion := firmware, ata_modelNumber := model,
                       ata_sectors28Bit := sectors, ata_storageSize := ucast (sectors * 512)\<rparr>, d) } })"

section \<open>The partition table\<close>

datatype partition_type = Invalid | FAT16 | FAT16_LBA | FAT32 | FAT32_LBA | NTFS

definition castToPartitionType :: "u8 \<Rightarrow> partition_type" where
  "castToPartitionType v =
     (if v = 0x04 then FAT16 else if v = 0x0E then FAT16_LBA else if v = 0x0B then FAT32 else if v = 0x0C then FAT32_LBA
      else if v = 0x07 then NTFS else Invalid)"

record mbr_entry =
  me_isBootable :: bool
  me_type :: partition_type
  me_lbaStart :: u32
  me_lbaCount :: u32

definition no_entry :: mbr_entry where
  "no_entry = \<lparr>me_isBootable = False, me_type = Invalid, me_lbaStart = 0, me_lbaCount = 0\<rparr>"

definition decode_entry :: "bytes \<Rightarrow> mbr_entry option" where
  "decode_entry raw =
     do { v \<leftarrow> rd_at raw 4;
          let type = castToPartitionType v in
          if type = Invalid then Some no_entry
          else do {
            b \<leftarrow> rd_at raw 0;
            start \<leftarrow> get_uint32_t raw 8;
            n \<leftarrow> get_uint32_t raw 12;
            Some \<lparr>me_isBootable = bit b 7, me_type = type, me_lbaStart = start, me_lbaCount = n\<rparr> } }"

record mbr =
  mbr_entries :: "mbr_entry list"
  mbr_isValid :: bool

text \<open>The signature is looked at, but the record counts as valid in the end whatever it is.\<close>

definition masterBootRecord :: "bytes \<Rightarrow> mbr option" where
  "masterBootRecord masterSector =
     do { _ \<leftarrow> slice masterSector 0x1FE 2;
          entries \<leftarrow> those (map (\<lambda>i. decode_entry (drop (0x1BE + 16 * i) masterSector)) [0..<4]);
          Some \<lparr>mbr_entries = entries, mbr_isValid = True\<rparr> }"

definition mbr_getEntry :: "nat \<Rightarrow> mbr \<Rightarrow> mbr_entry" where
  "mbr_getEntry n m = (if 4 \<le> n then no_entry else mbr_entries m ! n)"

text \<open>
  The driver against drives that follow the ATA protocol for programmed transfers: a read gives the sector, a
  write stores it and nothing else. The two drives of a channel are described by \<open>pio\<close>, the state devices
  have to have behind the ports; any devices whose answers are those of such a state will do, however long
  they are busy, as long as the timeouts of the driver allow it.
\<close>

section \<open>The protocol\<close>

text \<open>\<open>Sending\<close> and \<open>Taking\<close> hold the words of the present sector that are to come, and that have come.\<close>

datatype pio_mode = Idle | Sending "u16 list" | Taking "u16 list"

text \<open>The registers; the transfer, with its drive, its present sector and the number of sectors after that; how many
  more times the status will be read as busy, how long that takes each time, and how often it has been; what
  is on the drives. A sector can be addressed by its number or by cylinder, head and sector, where
  \<open>pio_geometry\<close> says which one the registers mean.\<close>

record pio =
  pio_count :: u8
  pio_low :: u8
  pio_mid :: u8
  pio_high :: u8
  pio_dev :: u8
  pio_mode :: pio_mode
  pio_drive :: bool
  pio_at :: u32
  pio_left :: nat
  pio_busy :: nat
  pio_turn :: nat
  pio_seek :: "nat \<Rightarrow> nat"
  pio_geometry :: "u32 \<Rightarrow> u32"
  pio_size :: "bool \<Rightarrow> u32"
  pio_identity :: "bool \<Rightarrow> u16 list"
  pio_sectors :: "bool \<Rightarrow> u32 \<Rightarrow> u16 list"

definition pio_lba :: "pio \<Rightarrow> u32" where
  "pio_lba p = push_bit 24 (ucast (pio_dev p AND 0x0F)) OR push_bit 16 (ucast (pio_high p)) OR
     push_bit 8 (ucast (pio_mid p)) OR ucast (pio_low p)"

text \<open>Bit 4 of the device register selects the drive, bit 6 says that the address is a number.\<close>

definition pio_slave :: "pio \<Rightarrow> bool" where
  "pio_slave p = bit (pio_dev p) 4"

definition pio_address :: "pio \<Rightarrow> u32" where
  "pio_address p = (if bit (pio_dev p) 6 then pio_lba p else pio_geometry p (pio_lba p))"

text \<open>A count of 0 means 256 sectors.\<close>

definition pio_requested :: "pio \<Rightarrow> nat" where
  "pio_requested p = (if pio_count p = 0 then 256 else unat (pio_count p))"

definition pio_wait :: "pio \<Rightarrow> pio" where
  "pio_wait p = p\<lparr>pio_busy := pio_seek p (pio_turn p), pio_turn := pio_turn p + 1\<rparr>"

definition pio_start :: "pio_mode \<Rightarrow> u32 \<Rightarrow> nat \<Rightarrow> pio \<Rightarrow> pio" where
  "pio_start m at left p = pio_wait (p\<lparr>pio_mode := m, pio_drive := pio_slave p, pio_at := at, pio_left := left\<rparr>)"

text \<open>The commands: \<open>READ SECTORS\<close>, \<open>WRITE SECTORS\<close> and \<open>IDENTIFY DEVICE\<close>. Nothing is assumed of others, or of sectors
  that are not there.\<close>

definition pio_accepts :: "u8 \<Rightarrow> pio \<Rightarrow> bool" where
  "pio_accepts v p =
     (v = 0xEC \<or> v \<in> {0x20, 0x30} \<and> unat (pio_address p) + pio_requested p \<le> unat (pio_size p (pio_slave p)))"

definition pio_command :: "u8 \<Rightarrow> pio \<Rightarrow> pio" where
  "pio_command v p =
     (if v = 0x20 then pio_start (Sending (pio_sectors p (pio_slave p) (pio_address p))) (pio_address p) (pio_requested p - 1) p
      else if v = 0x30 then pio_start (Taking []) (pio_address p) (pio_requested p - 1) p
      else pio_start (Sending (pio_identity p (pio_slave p))) 0 0 p)"

definition pio_write :: "u16 \<Rightarrow> u8 \<Rightarrow> pio \<Rightarrow> pio" where
  "pio_write k v p =
     (if k = 2 then p\<lparr>pio_count := v\<rparr> else if k = 3 then p\<lparr>pio_low := v\<rparr> else if k = 4 then p\<lparr>pio_mid := v\<rparr>
      else if k = 5 then p\<lparr>pio_high := v\<rparr> else if k = 6 then p\<lparr>pio_dev := v\<rparr> else p)"

text \<open>The status: bit 7 when busy, when the other bits say nothing but that there is no error; otherwise bit 6 for
  a drive that is ready, and bit 3 when it asks for data. Every reading brings the end of being busy nearer.\<close>

definition pio_status :: "pio \<Rightarrow> u8 \<Rightarrow> bool" where
  "pio_status p v \<longleftrightarrow> (bit v 7 \<longleftrightarrow> 0 < pio_busy p) \<and> \<not> bit v 0 \<and> (pio_busy p = 0 \<longrightarrow> bit v 6 \<and> (bit v 3 \<longleftrightarrow> pio_mode p \<noteq> Idle))"

definition pio_polled :: "pio \<Rightarrow> pio" where
  "pio_polled p = p\<lparr>pio_busy := pio_busy p - 1\<rparr>"

text \<open>The next word is read: after the last one of a sector comes the next sector, if there is one.\<close>

definition pio_sent :: "u16 list \<Rightarrow> pio \<Rightarrow> pio" where
  "pio_sent ws p =
     (if ws \<noteq> [] then p\<lparr>pio_mode := Sending ws\<rparr>
      else if pio_left p = 0 then p\<lparr>pio_mode := Idle\<rparr>
      else pio_wait (p\<lparr>pio_mode := Sending (pio_sectors p (pio_drive p) (pio_at p + 1)), pio_at := pio_at p + 1,
        pio_left := pio_left p - 1\<rparr>))"

text \<open>A word is written: a full sector is stored, for which the drive is busy, and the next one is asked for.\<close>

definition pio_stored :: "u16 list \<Rightarrow> pio \<Rightarrow> pio" where
  "pio_stored ws p = p\<lparr>pio_sectors := (pio_sectors p)(pio_drive p := (pio_sectors p (pio_drive p))(pio_at p := ws))\<rparr>"

definition pio_take :: "u16 \<Rightarrow> u16 list \<Rightarrow> pio \<Rightarrow> pio" where
  "pio_take w ws p =
     (if length ws < 255 then p\<lparr>pio_mode := Taking (ws @ [w])\<rparr>
      else pio_wait (if pio_left p = 0 then (pio_stored (ws @ [w]) p)\<lparr>pio_mode := Idle\<rparr>
        else (pio_stored (ws @ [w]) p)\<lparr>pio_mode := Taking [], pio_at := pio_at p + 1, pio_left := pio_left p - 1\<rparr>))"

text \<open>Devices at \<open>base\<close> whose states \<open>view\<close> maps to such states. While they are busy they take nothing into their
  registers, and in a transfer nothing is assumed of that. Clearing the device control register changes
  nothing. A read of the status takes at most one tick.\<close>

definition speaks_ata :: "'d timed \<Rightarrow> u16 \<Rightarrow> ('d \<Rightarrow> pio) \<Rightarrow> bool" where
  "speaks_ata t base view \<longleftrightarrow>
     (\<forall>k \<in> {2, 3, 4, 5, 6}. \<forall>v d. 0 < pio_busy (view d) \<longrightarrow> view (out8 (td_bus t) (base + k) v d) = view d) \<and>
     (\<forall>k \<in> {2, 3, 4, 5, 6}. \<forall>v d. pio_busy (view d) = 0 \<and> pio_mode (view d) = Idle \<longrightarrow>
        view (out8 (td_bus t) (base + k) v d) = pio_write k v (view d)) \<and>
     (\<forall>v d. pio_busy (view d) = 0 \<and> pio_mode (view d) = Idle \<and> pio_accepts v (view d) \<longrightarrow>
        view (out8 (td_bus t) (base + 7) v d) = pio_command v (view d)) \<and>
     (\<forall>d. view (out8 (td_bus t) (base + 0x206) 0 d) = view d) \<and>
     (\<forall>d. pio_status (view d) (fst (in8 (td_bus t) (base + 7) d)) \<and> view (snd (in8 (td_bus t) (base + 7) d)) = pio_polled (view d) \<and>
        unat (td_now t (snd (in8 (td_bus t) (base + 7) d))) \<le> unat (td_now t d) + 1) \<and>
     (\<forall>d w ws. pio_busy (view d) = 0 \<and> pio_mode (view d) = Sending (w # ws) \<longrightarrow>
        fst (in16 (td_bus t) base d) = w \<and> view (snd (in16 (td_bus t) base d)) = pio_sent ws (view d)) \<and>
     (\<forall>w d ws. pio_busy (view d) = 0 \<and> pio_mode (view d) = Taking ws \<longrightarrow>
        view (out16 (td_bus t) base w d) = pio_take w ws (view d)) \<and>
     (\<forall>d. unat (td_now t d) < 2 ^ 62)"

section \<open>Steps of the driver\<close>

lemma narrow [simp]: "ucast (ucast (v :: u8) :: u32) = v" "ucast (ucast (w :: u16) :: u32) = w"
  by (rule bit_word_eqI; auto simp: bit_simps)+

lemma register:
  assumes "speaks_ata t (ata_base a) view" and "k \<in> {2, 3, 4, 5, 6}" and "pio_busy (view d) = 0" "pio_mode (view d) = Idle"
  shows "view (to_drive t a k v d) = pio_write k (ucast v) (view d)"
  using assms unfolding speaks_ata_def to_drive_def byte_write_def by blast

lemma register_busy:
  assumes "speaks_ata t (ata_base a) view" and "k \<in> {2, 3, 4, 5, 6}" and "0 < pio_busy (view d)"
  shows "view (to_drive t a k v d) = view d"
  using assms unfolding speaks_ata_def to_drive_def byte_write_def by blast

lemma command_taken:
  assumes "speaks_ata t (ata_base a) view" and "pio_busy (view d) = 0" "pio_mode (view d) = Idle" and "pio_accepts code (view d)"
  shows "view (to_drive t a 7 (ucast code) d) = pio_command code (view d)"
  using assms unfolding speaks_ata_def to_drive_def byte_write_def narrow by blast

lemma control_cleared:
  assumes "speaks_ata t (ata_base a) view"
  shows "view (to_drive t a 0x206 0 d) = view d"
  using assms unfolding speaks_ata_def to_drive_def byte_write_def by simp

lemma status:
  assumes "speaks_ata t (ata_base a) view"
  shows "\<exists>v d'. ata_status t a d = (v, d') \<and> pio_status (view d) v \<and> view d' = pio_polled (view d) \<and>
    unat (td_now t d') \<le> unat (td_now t d) + 1"
proof -
  have "pio_status (view d) (fst (in8 (td_bus t) (ata_base a + 7) d)) \<and>
      view (snd (in8 (td_bus t) (ata_base a + 7) d)) = pio_polled (view d) \<and>
      unat (td_now t (snd (in8 (td_bus t) (ata_base a + 7) d))) \<le> unat (td_now t d) + 1"
    using assms unfolding speaks_ata_def by blast
  then show ?thesis by (cases "in8 (td_bus t) (ata_base a + 7) d") (simp add: ata_status_def byte_read_def)
qed

text \<open>How the driver takes the status apart.\<close>

lemma status_bits:
  fixes v :: u8
  shows "v AND 0x80 = 0 \<longleftrightarrow> \<not> bit v 7" "v AND 0x08 = 0 \<longleftrightarrow> \<not> bit v 3" "v AND 0x01 = 0 \<longleftrightarrow> \<not> bit v 0"
  using and_exp_eq_0_iff_not_bit [of v 7] and_exp_eq_0_iff_not_bit [of v 3] and_exp_eq_0_iff_not_bit [of v 0] by simp_all

lemma status_present: "pio_status p v \<Longrightarrow> v \<noteq> 0"
  by (cases "pio_busy p = 0") (auto simp: pio_status_def)

lemma polled_idle [simp]: "pio_busy p = 0 \<Longrightarrow> pio_polled p = p"
  by (simp add: pio_polled_def)

lemma busy_ends:
  assumes "speaks_ata t (ata_base a) view" and "unat (td_now t d) + pio_busy (view d) \<le> unat target"
  shows "\<exists>d'. busy_loop t a target d = Some (True, d') \<and> view d' = (view d)\<lparr>pio_busy := 0\<rparr>"
  using assms(2)
proof (induction "pio_busy (view d)" arbitrary: d)
  case 0
  obtain v d' where "ata_status t a d = (v, d')" "pio_status (view d) v" "view d' = pio_polled (view d)" using status [OF assms(1)] by blast
  then show ?case using 0 by (subst busy_loop.simps) (auto simp: status_bits pio_status_def)
next
  case (Suc n)
  obtain v d' where d: "ata_status t a d = (v, d')" "pio_status (view d) v" "view d' = pio_polled (view d)"
    "unat (td_now t d') \<le> unat (td_now t d) + 1" using status [OF assms(1)] by blast
  have b: "pio_busy (view d') = n" using d(3) Suc(2) by (simp add: pio_polled_def)
  then have "unat (td_now t d') + pio_busy (view d') \<le> unat target" using d(4) Suc(2,3) by simp
  moreover from this have "\<not> target < td_now t d'" by (simp add: word_less_nat_alt)
  moreover have "bit v 7" using Suc(2) d(2) by (simp add: pio_status_def)
  ultimately show ?case
    using Suc(1) [of d'] b d(1,3) by (subst busy_loop.simps) (auto simp: status_bits pio_polled_def)
qed

lemma not_busy_ends:
  assumes "speaks_ata t (ata_base a) view" and "unat (td_now t d) + pio_busy (view d) < unat target"
  shows "\<exists>d'. not_busy_loop t a target d = Some (True, d') \<and> view d' = (view d)\<lparr>pio_busy := 0\<rparr>"
  using assms(2)
proof (induction "pio_busy (view d)" arbitrary: d)
  case 0
  obtain v d' where "ata_status t a d = (v, d')" "pio_status (view d) v" "view d' = pio_polled (view d)" using status [OF assms(1)] by blast
  then show ?case using 0 by (subst not_busy_loop.simps) (auto simp: status_bits pio_status_def word_less_nat_alt)
next
  case (Suc n)
  obtain v d' where d: "ata_status t a d = (v, d')" "pio_status (view d) v" "view d' = pio_polled (view d)"
    "unat (td_now t d') \<le> unat (td_now t d) + 1" using status [OF assms(1)] by blast
  have b: "pio_busy (view d') = n" using d(3) Suc(2) by (simp add: pio_polled_def)
  then have "unat (td_now t d') + pio_busy (view d') < unat target" using d(4) Suc(2,3) by simp
  moreover have "td_now t d < target" using Suc(3) by (simp add: word_less_nat_alt)
  moreover have "bit v 7" using Suc(2) d(2) by (simp add: pio_status_def)
  ultimately show ?case
    using Suc(1) [of d'] b d(1,3) by (subst not_busy_loop.simps) (auto simp: status_bits pio_polled_def)
qed

lemma ready_at_once:
  assumes "speaks_ata t (ata_base a) view" and "pio_busy (view d) = 0" and "pio_mode (view d) \<noteq> Idle"
  shows "\<exists>d'. ready_loop t a target d = Some (True, d') \<and> view d' = view d"
proof -
  obtain v d' where "ata_status t a d = (v, d')" "pio_status (view d) v" "view d' = pio_polled (view d)" using status [OF assms(1)] by blast
  then show ?thesis
    using assms(2,3) by (subst ready_loop.simps) (auto simp: status_bits pio_status_def)
qed

text \<open>A single sector goes over the data port.\<close>

lemma words_read:
  assumes "speaks_ata t (ata_base a) view" and "view d = p\<lparr>pio_mode := Sending ws\<rparr>" and "ws \<noteq> []" and "pio_busy p = 0" "pio_left p = 0"
  shows "\<exists>d'. read_words t a (length ws) d = (ws, d') \<and> view d' = p\<lparr>pio_mode := Idle\<rparr>"
  using assms(2,3)
proof (induction ws arbitrary: d)
  case (Cons w ws)
  have "pio_busy (view d) = 0 \<and> pio_mode (view d) = Sending (w # ws)" using Cons.prems(1) assms(4) by simp
  then have r: "fst (in16 (td_bus t) (ata_base a) d) = w" "view (snd (in16 (td_bus t) (ata_base a) d)) = pio_sent ws (view d)"
    using assms(1) unfolding speaks_ata_def by blast+
  obtain e where e: "word_read (td_bus t) (ata_base a) d = (ucast w, e)" "view e = pio_sent ws (view d)"
    using r by (cases "in16 (td_bus t) (ata_base a) d") (simp add: word_read_def)
  show ?case
  proof (cases "ws = []")
    case True
    then show ?thesis using e Cons.prems(1) assms(5) by (simp add: pio_sent_def)
  next
    case False
    then have "view e = p\<lparr>pio_mode := Sending ws\<rparr>" using e(2) Cons.prems(1) by (simp add: pio_sent_def)
    from Cons.IH [OF this False] show ?thesis using e(1) by auto
  qed
qed simp

lemma words_written:
  assumes "speaks_ata t (ata_base a) view" and "view d = p\<lparr>pio_mode := Taking acc\<rparr>" and "length acc + length ws = 256" and "ws \<noteq> []"
    and "pio_busy p = 0" "pio_left p = 0"
  shows "view (write_words t a ws d) = pio_wait ((pio_stored (acc @ ws) p)\<lparr>pio_mode := Idle\<rparr>)"
  using assms(2-4)
proof (induction ws arbitrary: d acc)
  case (Cons w ws)
  let ?d = "word_write (td_bus t) (ata_base a) (ucast w) d"
  have "pio_busy (view d) = 0 \<and> pio_mode (view d) = Taking acc" using Cons.prems(1) assms(5) by simp
  then have v: "view ?d = pio_take w acc (view d)"
    using assms(1) unfolding speaks_ata_def word_write_def narrow by blast
  show ?case
  proof (cases "ws = []")
    case True
    then show ?thesis using Cons.prems v assms(6) by (simp add: write_words_def pio_take_def pio_stored_def)
  next
    case False
    then have "length acc < 255" using Cons.prems(2) by (cases ws) auto
    then have "view ?d = p\<lparr>pio_mode := Taking (acc @ [w])\<rparr>" using Cons.prems(1) v by (simp add: pio_take_def)
    from Cons.IH [OF this] show ?thesis using Cons.prems(2) False by (simp add: write_words_def)
  qed
qed simp

section \<open>Reading and writing sectors\<close>

text \<open>Between two commands, with every time of being busy, the present one too, at most \<open>n\<close> readings of the status long.\<close>

definition at_rest :: "nat \<Rightarrow> pio \<Rightarrow> bool" where
  "at_rest n p \<longleftrightarrow> pio_mode p = Idle \<and> pio_busy p \<le> n \<and> (\<forall>i. pio_seek p i \<le> n) \<and> (\<forall>s. pio_size p s \<le> 0x10000000) \<and>
     (\<forall>s. length (pio_identity p s) = 256) \<and> (\<forall>s lba. length (pio_sectors p s lba) = 256)"

definition same_drive :: "pio \<Rightarrow> pio \<Rightarrow> bool" where
  "same_drive p q \<longleftrightarrow> pio_sectors p = pio_sectors q \<and> pio_size p = pio_size q \<and> pio_identity p = pio_identity q \<and> pio_seek p = pio_seek q"

text \<open>Timeouts that outlast the drive.\<close>

definition patient :: "'d timed \<Rightarrow> u32 \<Rightarrow> nat \<Rightarrow> bool" where
  "patient t timeout n \<longleftrightarrow> n < unat (timeout * td_frequency t div 1000) \<and> n \<le> unat (100000 * td_frequency t div 1000 :: u32)"

lemma unat_deadline:
  assumes "speaks_ata t base view"
  shows "unat (deadline t timeout d) = unat (td_now t d) + unat (timeout * td_frequency t div 1000)"
proof -
  have "unat (td_now t d) < 2 ^ 62" using assms unfolding speaks_ata_def by blast
  moreover have "unat (ucast (timeout * td_frequency t div 1000) :: u64) = unat (timeout * td_frequency t div 1000)"
    by (simp add: unsigned_ucast_eq take_bit_nat_eq_self order_less_trans [OF unat_u32_lt])
  moreover have "unat (timeout * td_frequency t div 1000) < 4294967296" by (rule unat_u32_lt)
  ultimately show ?thesis by (simp add: deadline_def unat_word_ariths)
qed

lemma octet_narrow: "ucast (ucast ((v :: u32) AND 0xFF) :: u8) = v AND 0xFF"
proof -
  have m: "(0xFF :: u32) = mask 8" by (simp add: mask_eq_exp_minus_1)
  show ?thesis unfolding m by (rule bit_word_eqI) (auto simp: bit_simps)
qed

lemma top_narrow:
  assumes "s = push_bit 4 0x0E \<or> s = push_bit 4 0x0F"
  shows "ucast (ucast ((s :: u32) OR (v AND 0x0F)) AND 0x0F :: u8) = v AND 0x0F"
proof -
  have m: "(0x0F :: u8) = mask 4" "(0x0F :: u32) = mask 4" by (simp_all add: mask_eq_exp_minus_1)
  have z: "\<not> bit s k" if "k < 4" for k
    using assms that by (elim disjE) (simp_all only: Bit_Operations.bit_push_bit_iff, simp_all)
  show ?thesis unfolding m by (rule bit_word_eqI) (auto simp: bit_simps dest: z)
qed

lemma lba_joined:
  assumes "lba < 0x10000000" and "s = 0xE0 \<or> s = 0xF0"
  shows "push_bit 24 (ucast (ucast ((s :: u32) OR (drop_bit 24 lba AND 0x0F)) AND 0x0F :: u8)) OR
     push_bit 16 (ucast (ucast (drop_bit 16 lba AND 0xFF) :: u8)) OR push_bit 8 (ucast (ucast (drop_bit 8 lba AND 0xFF) :: u8)) OR
     ucast (ucast (lba AND 0xFF) :: u8) = (lba :: u32)"
proof -
  have h: "\<not> bit lba k" if "28 \<le> k" for k
  proof -
    have "lba < 2 ^ 28" using assms by simp
    then have "take_bit 28 lba = lba" by (simp add: less_mask_eq take_bit_eq_mask)
    then have "bit lba k = (k < 28 \<and> bit lba k)" using bit_take_bit_iff [of 28 lba k] by simp
    then show ?thesis using that by simp
  qed
  have m: "(0x0F :: u32) = mask 4" "(0xFF :: u32) = mask 8" by (simp_all add: mask_eq_exp_minus_1)
  have s: "s = push_bit 4 0x0E \<or> s = push_bit 4 0x0F" using assms(2) by simp
  show ?thesis unfolding octet_narrow top_narrow [OF s] unfolding m
  proof (rule bit_word_eqI)
    fix n assume "n < LENGTH(32)"
    then consider "n < 8" | "8 \<le> n" "n < 16" | "16 \<le> n" "n < 24" | "24 \<le> n" "n < 28" | "28 \<le> n" "n < 32" by fastforce
    then show "bit (push_bit 24 (drop_bit 24 lba AND mask 4) OR push_bit 16 (drop_bit 16 lba AND mask 8) OR
        push_bit 8 (drop_bit 8 lba AND mask 8) OR (lba AND mask 8)) n = bit lba n"
      by cases (auto simp: bit_simps h)
  qed
qed

text \<open>The registers of a command: the drive selected, a number for the address, and how many sectors.\<close>

lemma device_register:
  fixes lba :: u32
  defines "v \<equiv> \<lambda>slave. ucast ((if slave then 0xF0 else 0xE0) OR (drop_bit 24 lba AND 0x0F)) :: u8"
  shows "bit (v slave) 4 = slave" "bit (v slave) 6"
proof -
  have m: "(0x0F :: u32) = mask 4" by (simp add: mask_eq_exp_minus_1)
  have p: "(0xF0 :: u32) = push_bit 4 0x0F" "(0xE0 :: u32) = push_bit 4 0x0E" by simp_all
  have "bit ((if slave then 0xF0 else 0xE0) :: u32) 4 = slave" "bit ((if slave then 0xF0 else 0xE0) :: u32) 6"
    by (simp_all only: p Bit_Operations.bit_push_bit_iff split: if_split) simp_all
  then show "bit (v slave) 4 = slave" "bit (v slave) 6" unfolding v_def m by (simp_all add: bit_simps)
qed

lemma commanded:
  assumes S: "speaks_ata t (ata_base a) view" and "lba < 0x10000000" and r: "pio_busy (view d) = 0" "pio_mode (view d) = Idle"
    and ok: "code = 0xEC \<or> code \<in> {0x20, 0x30} \<and> n \<noteq> 0 \<and> unat lba + unat n \<le> unat (pio_size (view d) (ata_slave a))"
  shows "\<exists>p. view (to_drive t a 7 (ucast code) (setLBA t a lba (to_drive t a 2 (ucast n) (selectDevice t a lba d)))) = pio_command code p \<and>
    pio_address p = lba \<and> pio_slave p = ata_slave a \<and> pio_count p = n \<and> pio_turn p = pio_turn (view d) \<and> same_drive p (view d)"
proof -
  let ?dev = "ucast ((if ata_slave a then 0xF0 else 0xE0) OR (drop_bit 24 lba AND 0x0F) :: u32) :: u8"
  let ?p = "(view d)\<lparr>pio_dev := ?dev, pio_count := n, pio_low := ucast (lba AND 0xFF), pio_mid := ucast (drop_bit 8 lba AND 0xFF),
    pio_high := ucast (drop_bit 16 lba AND 0xFF)\<rparr>"
  let ?d = "setLBA t a lba (to_drive t a 2 (ucast n) (selectDevice t a lba d))"
  have v: "view ?d = ?p"
    using r by (simp add: setLBA_def selectDevice_def register [OF S] pio_write_def)
  have l: "pio_lba ?p = lba" using lba_joined [OF assms(2), of "if ata_slave a then 0xF0 else 0xE0"] by (simp add: pio_lba_def)
  have a: "pio_address ?p = lba" "pio_slave ?p = ata_slave a"
    using device_register [of "ata_slave a" lba] l by (simp_all add: pio_address_def pio_slave_def)
  have "pio_accepts code (view ?d)" using ok a unfolding v by (auto simp: pio_accepts_def pio_requested_def)
  then have "view (to_drive t a 7 (ucast code) ?d) = pio_command code ?p"
    using command_taken [OF S, of ?d code] r unfolding v by simp
  then show ?thesis using a by (intro exI [of _ ?p]) (simp add: same_drive_def)
qed

text \<open>What the driver does before the transfer.\<close>

lemma started:
  assumes S: "speaks_ata t (ata_base a) view" and "lba < 0x10000000" and rest: "at_rest k (view d)" and pt: "patient t timeout k"
    and ok: "cmd = Identify \<or> n \<noteq> 0 \<and> unat lba + unat n \<le> unat (pio_size (view d) (ata_slave a))"
  shows "\<exists>e p. view e = (pio_command (command_code cmd) p)\<lparr>pio_busy := 0\<rparr> \<and> pio_address p = lba \<and> pio_slave p = ata_slave a \<and>
    pio_count p = n \<and> same_drive p (view d) \<and>
    executeCommand t a cmd lba n buffer timeout d =
      (case cmd of
         WriteSectors \<Rightarrow> do { bs \<leftarrow> slice buffer 0 512; Some (True, buffer, write_words t a (words_of bs) e) }
       | ReadSectors \<Rightarrow> let (ws, e) = read_words t a 256 e in do { buffer \<leftarrow> blit buffer 0 (bytes_of ws); Some (True, buffer, e) }
       | Identify \<Rightarrow> Some (True, buffer, e))"
proof -
  have "unat (td_now t d) + pio_busy (view d) < unat (deadline t timeout d)"
    using unat_deadline [OF S, of timeout d] pt rest by (simp add: patient_def at_rest_def)
  then obtain d1 where d1: "waitForNotBusy t a timeout d = Some (True, d1)" "view d1 = (view d)\<lparr>pio_busy := 0\<rparr>"
    using not_busy_ends [OF S] unfolding waitForNotBusy_def by blast
  let ?d2 = "to_drive t a 7 (ucast (command_code cmd)) (setLBA t a lba (to_drive t a 2 (ucast n) (selectDevice t a lba d1)))"
  have "pio_busy (view d1) = 0" "pio_mode (view d1) = Idle" using d1(2) rest by (simp_all add: at_rest_def)
  moreover have "command_code cmd = 0xEC \<or> command_code cmd \<in> {0x20, 0x30} \<and> n \<noteq> 0 \<and>
      unat lba + unat n \<le> unat (pio_size (view d1) (ata_slave a))"
    using ok d1(2) by (cases cmd) auto
  ultimately obtain p where p: "view ?d2 = pio_command (command_code cmd) p" "pio_address p = lba" "pio_slave p = ata_slave a"
    "pio_count p = n" "same_drive p (view d1)"
    using commanded [OF S assms(2), of d1 "command_code cmd" n] by blast
  have sd: "same_drive p (view d)" using p(5) d1(2) by (simp add: same_drive_def)
  have b: "pio_busy (view ?d2) = pio_seek (view d) (pio_turn p)" "pio_mode (view ?d2) \<noteq> Idle"
    using p(1) sd by (cases cmd; simp add: pio_command_def pio_start_def pio_wait_def same_drive_def)+
  have "unat (td_now t ?d2) + pio_busy (view ?d2) \<le> unat (deadline t 100000 ?d2)"
    using unat_deadline [OF S, of 100000 ?d2] pt rest b(1)
    by (simp add: patient_def at_rest_def) (meson order_trans)
  then obtain d3 where d3: "waitForBusy t a 100000 ?d2 = Some (True, d3)" "view d3 = (view ?d2)\<lparr>pio_busy := 0\<rparr>"
    using busy_ends [OF S] unfolding waitForBusy_def by blast
  obtain d4 where d4: "waitForReady t a 100000 d3 = Some (True, d4)" "view d4 = view d3"
    using ready_at_once [OF S, of d3] d3(2) b(2) by (auto simp: waitForReady_def)
  show ?thesis
    using p sd d1(1) d3 d4 by (intro exI [of _ d4] exI [of _ p]) (simp add: executeCommand_def Let_def)
qed

text \<open>Asking for the device: a drive that is still busy does not take the selection, but it answers.\<close>

lemma present:
  assumes S: "speaks_ata t (ata_base a) view" and "at_rest k (view d)"
  shows "\<exists>d'. isDevicePresent t a d = (True, d') \<and> at_rest k (view d') \<and> same_drive (view d') (view d)"
proof -
  let ?v = "if ata_slave a then 0xB0 else 0xA0 :: u32"
  let ?d = "to_drive t a 0x206 0 (to_drive t a 6 ?v d)"
  have "view (to_drive t a 6 ?v d) = view d \<or> view (to_drive t a 6 ?v d) = (view d)\<lparr>pio_dev := ucast ?v\<rparr>"
    using register_busy [OF S, of 6 d ?v] register [OF S, of 6 d ?v] assms(2)
    by (cases "pio_busy (view d) = 0") (simp_all add: at_rest_def pio_write_def)
  then have r: "at_rest k (view ?d)" "same_drive (view ?d) (view d)"
    using assms(2) by (auto simp: control_cleared [OF S] at_rest_def same_drive_def)
  obtain v d' where d': "ata_status t a ?d = (v, d')" "pio_status (view ?d) v" "view d' = pio_polled (view ?d)"
    using status [OF S] by blast
  then have "isDevicePresent t a d = (True, d')" by (simp add: isDevicePresent_def status_present)
  moreover have "at_rest k (view d')" "same_drive (view d') (view d)"
    using r d'(3) by (auto simp: at_rest_def same_drive_def pio_polled_def)
  ultimately show ?thesis by blast
qed

lemma status_clear:
  assumes "speaks_ata t (ata_base a) view"
  shows "\<exists>d'. checkStatus t a d = (True, d') \<and> view d' = pio_polled (view d)"
proof -
  obtain v d' where "ata_status t a d = (v, d')" "pio_status (view d) v" "view d' = pio_polled (view d)" using status [OF assms] by blast
  then show ?thesis by (auto simp: checkStatus_def status_bits pio_status_def)
qed

lemma length_words_of: "length (words_of bs) = length bs div 2"
  by (induction bs rule: words_of.induct) simp_all

lemma bytes_of_words: "even (length bs) \<Longrightarrow> bytes_of (words_of bs) = bs"
  by (induction bs rule: words_of.induct) (simp_all add: bytes_of_def)

lemma length_bytes_of: "length (bytes_of ws) = 2 * length ws"
  by (induction ws) (simp_all add: bytes_of_def bytes16_def)

lemma one_sector: "at_rest k p \<Longrightarrow> lba < pio_size p s \<Longrightarrow> lba < 0x10000000 \<and> unat lba + unat (1 :: u8) \<le> unat (pio_size p s)"
proof -
  assume "at_rest k p" and lt: "lba < pio_size p s"
  then have "pio_size p s \<le> 0x10000000" by (simp add: at_rest_def)
  then have "lba < 0x10000000" using lt by (rule order_less_le_trans [rotated])
  then show ?thesis using lt by (simp add: word_less_nat_alt)
qed

lemma same_drive_trans: "same_drive p q \<Longrightarrow> same_drive q r \<Longrightarrow> same_drive p r"
  by (simp add: same_drive_def)

lemma rest_same:
  "at_rest k q \<Longrightarrow> same_drive p q \<Longrightarrow> at_rest k p \<longleftrightarrow> pio_mode p = Idle \<and> pio_busy p \<le> k"
  by (simp add: at_rest_def same_drive_def)

lemma sector_read:
  assumes S: "speaks_ata t (ata_base a) view" and "lba < pio_size (view d) (ata_slave a)" and "at_rest k (view d)"
    and "patient t timeout k" and "512 \<le> length buffer"
  shows "\<exists>d'. ata_readSector t a lba buffer timeout d =
      Some (True, bytes_of (pio_sectors (view d) (ata_slave a) lba) @ drop 512 buffer, d') \<and>
    same_drive (view d') (view d) \<and> at_rest k (view d')"
proof -
  obtain d1 where d1: "isDevicePresent t a d = (True, d1)" "at_rest k (view d1)" "same_drive (view d1) (view d)"
    using present [OF S assms(3)] by blast
  let ?ws = "pio_sectors (view d) (ata_slave a) lba"
  have lt: "lba < pio_size (view d1) (ata_slave a)" using assms(2) d1(3) by (simp add: same_drive_def)
  note one = one_sector [OF d1(2) lt]
  obtain e p where e: "view e = (pio_command 0x20 p)\<lparr>pio_busy := 0\<rparr>" "pio_address p = lba" "pio_slave p = ata_slave a"
    "pio_count p = 1" "same_drive p (view d1)"
    and x: "executeCommand t a ReadSectors lba 1 buffer timeout d1 =
      (let (ws, e) = read_words t a 256 e in do { buffer \<leftarrow> blit buffer 0 (bytes_of ws); Some (True, buffer, e) })"
    using started [OF S _ d1(2) assms(4), of lba ReadSectors 1 buffer] one by auto
  have sd: "same_drive p (view d)" using e(5) d1(3) by (rule same_drive_trans)
  let ?q = "(view e)\<lparr>pio_mode := Idle\<rparr>"
  have l: "length ?ws = 256" using assms(3) by (simp add: at_rest_def)
  then have ne: "?ws \<noteq> []" by auto
  have "view e = ?q\<lparr>pio_mode := Sending ?ws\<rparr>" "pio_busy ?q = 0" "pio_left ?q = 0"
    using e sd by (simp_all add: pio_command_def pio_start_def pio_wait_def pio_requested_def same_drive_def)
  from words_read [OF S this(1) ne this(2,3)] obtain d2 where d2: "read_words t a 256 e = (?ws, d2)" "view d2 = ?q"
    unfolding l by auto
  have sd2: "same_drive (view d2) (view d)"
    using d2(2) e(1) sd by (simp add: same_drive_def pio_command_def pio_start_def pio_wait_def)
  then have r: "at_rest k (view d2)" using assms(3) d2(2) e(1) by (simp add: rest_same [OF assms(3)])
  obtain d3 where d3: "checkStatus t a d2 = (True, d3)" "view d3 = view d2"
    using status_clear [OF S, of d2] d2(2) e(1) by auto
  have "blit buffer 0 (bytes_of ?ws) = Some (bytes_of ?ws @ drop 512 buffer)"
    using assms(5) l by (simp add: blit_def length_bytes_of)
  then show ?thesis
    using d1(1) x d2(1) d3 r sd2 by (simp add: ata_readSector_def ata_transfer_def)
qed

lemma sector_written:
  assumes S: "speaks_ata t (ata_base a) view" and "lba < pio_size (view d) (ata_slave a)" and "at_rest k (view d)"
    and "patient t timeout k" and "512 \<le> length buffer"
  shows "\<exists>d'. ata_writeSector t a lba buffer timeout d = Some (True, d') \<and>
    same_drive (view d') ((view d)\<lparr>pio_sectors := (pio_sectors (view d))(ata_slave a :=
      (pio_sectors (view d) (ata_slave a))(lba := words_of (take 512 buffer)))\<rparr>) \<and> at_rest k (view d')"
proof -
  obtain d1 where d1: "isDevicePresent t a d = (True, d1)" "at_rest k (view d1)" "same_drive (view d1) (view d)"
    using present [OF S assms(3)] by blast
  let ?ws = "words_of (take 512 buffer)"
  have lt: "lba < pio_size (view d1) (ata_slave a)" using assms(2) d1(3) by (simp add: same_drive_def)
  note one = one_sector [OF d1(2) lt]
  obtain e p where e: "view e = (pio_command 0x30 p)\<lparr>pio_busy := 0\<rparr>" "pio_address p = lba" "pio_slave p = ata_slave a"
    "pio_count p = 1" "same_drive p (view d1)"
    and x: "executeCommand t a WriteSectors lba 1 buffer timeout d1 =
      do { bs \<leftarrow> slice buffer 0 512; Some (True, buffer, write_words t a (words_of bs) e) }"
    using started [OF S _ d1(2) assms(4), of lba WriteSectors 1 buffer] one by auto
  have sd: "same_drive p (view d)" using e(5) d1(3) by (rule same_drive_trans)
  let ?q = "(view e)\<lparr>pio_mode := Idle\<rparr>"
  have l: "length [] + length ?ws = 256" and ne: "?ws \<noteq> []" using assms(5) by (auto simp: length_words_of dest: arg_cong [of _ _ length])
  have q: "view e = ?q\<lparr>pio_mode := Taking []\<rparr>" "pio_busy ?q = 0" "pio_left ?q = 0" "pio_drive ?q = ata_slave a" "pio_at ?q = lba"
    "same_drive ?q (view d)"
    using e sd by (simp_all add: pio_command_def pio_start_def pio_wait_def pio_requested_def same_drive_def)
  let ?d2 = "write_words t a ?ws e"
  have v: "view ?d2 = pio_wait ((pio_stored ?ws ?q)\<lparr>pio_mode := Idle\<rparr>)"
    using words_written [OF S q(1) l ne q(2,3)] by simp
  have k: "\<forall>i. pio_seek (view d) i \<le> k" using assms(3) by (simp add: at_rest_def)
  have l256: "length ?ws = 256" using l by simp
  have sd2: "same_drive (view ?d2) ((view d)\<lparr>pio_sectors := (pio_sectors (view d))(ata_slave a :=
      (pio_sectors (view d) (ata_slave a))(lba := ?ws))\<rparr>)" (is "same_drive _ ?r")
    and i: "pio_mode (view ?d2) = Idle" "pio_busy (view ?d2) \<le> k"
    using v q(4,5,6) k by (simp_all add: pio_wait_def pio_stored_def same_drive_def)
  have "at_rest k ?r" using assms(3) l256 by (simp add: at_rest_def)
  note rs = rest_same [OF this]
  obtain d3 where d3: "checkStatus t a ?d2 = (True, d3)" "view d3 = pio_polled (view ?d2)"
    using status_clear [OF S] by blast
  have "same_drive (view d3) ?r" using sd2 d3(2) by (simp add: same_drive_def pio_polled_def)
  moreover from this have "at_rest k (view d3)" using i d3(2) by (simp add: rs pio_polled_def)
  moreover have "slice buffer 0 512 = Some (take 512 buffer)" using assms(5) by (simp add: slice_def)
  ultimately show ?thesis
    using d1(1) x d3(1) by (simp add: ata_writeSector_def ata_transfer_def)
qed

text \<open>C28: Against any two drives on a channel that keep the ATA protocol, with their counts of sectors,
  their two kinds of addresses and their being busy after each command and after each sector stored, a
  write of a sector succeeds, a read of the same sector then gives the 512 bytes that were written, and a
  read of any other sector of the two drives gives what it gave before; the drives are between two
  commands again after it. The sectors have to be there, and the timeouts have to outlast the drives.\<close>

theorem drive_keeps_sectors:
  assumes "speaks_ata t (ata_base a) view" and "at_rest n (view d)" and "patient t timeout n"
    and "lba < pio_size (view d) (ata_slave a)" and "length data = 512" and "length buffer = 512"
    and "ata_base other = ata_base a" and "lba' < pio_size (view d) (ata_slave other)"
  shows "\<exists>d1 d2 d3 old. ata_writeSector t a lba data timeout d = Some (True, d1) \<and>
    ata_readSector t other lba' buffer timeout d = Some (True, old, d2) \<and>
    ata_readSector t other lba' buffer timeout d1 =
      Some (True, if ata_slave other = ata_slave a \<and> lba' = lba then data else old, d3) \<and> at_rest n (view d3)"
proof -
  have S: "speaks_ata t (ata_base other) view" using assms(1,7) by simp
  obtain d1 where d1: "ata_writeSector t a lba data timeout d = Some (True, d1)" "at_rest n (view d1)"
    and v: "same_drive (view d1) ((view d)\<lparr>pio_sectors := (pio_sectors (view d))(ata_slave a :=
      (pio_sectors (view d) (ata_slave a))(lba := words_of data))\<rparr>)"
    using sector_written [OF assms(1,4,2,3), of data] assms(5) by auto
  obtain d2 where d2: "ata_readSector t other lba' buffer timeout d = Some (True, bytes_of (pio_sectors (view d) (ata_slave other) lba'), d2)"
    using sector_read [OF S assms(8,2,3), of buffer] assms(6) by auto
  have "lba' < pio_size (view d1) (ata_slave other)" using v assms(8) by (simp add: same_drive_def)
  from sector_read [OF S this d1(2) assms(3), of buffer] obtain d3 where
    "ata_readSector t other lba' buffer timeout d1 = Some (True, bytes_of (pio_sectors (view d1) (ata_slave other) lba'), d3)"
    "at_rest n (view d3)"
    using assms(6) by auto
  then show ?thesis using d1 d2 v assms(5) by (auto simp: same_drive_def bytes_of_words)
qed

text \<open>Drives that are nothing but the state of the protocol, at the first channel, and a clock that stands. They
  take longer every time.\<close>

definition ex_drive_in8 :: "pio \<Rightarrow> u8 \<times> pio" where
  "ex_drive_in8 p = (if 0 < pio_busy p then 0x80 else if pio_mode p = Idle then 0x50 else 0x58, pio_polled p)"

definition ex_drive_out8 :: "u16 \<Rightarrow> u8 \<Rightarrow> pio \<Rightarrow> pio" where
  "ex_drive_out8 port v p =
     (if 0 < pio_busy p then p else if port = 0x1F7 then pio_command v p else pio_write (port - 0x1F0) v p)"

definition ex_timed :: "pio timed" where
  "ex_timed = \<lparr>td_bus = \<lparr>in8 = (\<lambda>_. ex_drive_in8), out8 = ex_drive_out8,
       in16 = (\<lambda>_ p. case pio_mode p of Sending (w # ws) \<Rightarrow> (w, pio_sent ws p) | _ \<Rightarrow> (0, p)),
       out16 = (\<lambda>_ w p. case pio_mode p of Taking ws \<Rightarrow> pio_take w ws p | _ \<Rightarrow> p),
       in32 = (\<lambda>_ p. (0, p)), out32 = (\<lambda>_ _ p. p)\<rparr>,
     td_now = (\<lambda>_. 1000), td_frequency = 250, td_delay = (\<lambda>_ p. p)\<rparr>"

definition ex_drive :: pio where
  "ex_drive = \<lparr>pio_count = 0, pio_low = 0, pio_mid = 0, pio_high = 0, pio_dev = 0, pio_mode = Idle, pio_drive = False, pio_at = 0,
     pio_left = 0, pio_busy = 0, pio_turn = 0, pio_seek = min 20, pio_geometry = (\<lambda>_. 0), pio_size = (\<lambda>_. 1000),
     pio_identity = (\<lambda>_. replicate 256 0), pio_sectors = (\<lambda>_ _. replicate 256 0)\<rparr>"

lemma ex_drive_speaks: "speaks_ata ex_timed 0x1F0 (\<lambda>p. p)"
proof -
  have "pio_status p (fst (ex_drive_in8 p))" "snd (ex_drive_in8 p) = pio_polled p" for p
    by (simp_all add: ex_drive_in8_def pio_status_def bit_iff_odd)
  then show ?thesis by (auto simp: speaks_ata_def ex_timed_def ex_drive_out8_def pio_write_def)
qed

theorem drive_keeps_sectors_witness:
  "\<exists>d1 d3. ata_writeSector ex_timed (newATA 0x1F0 True) 5 (replicate 512 0xAB) 100 ex_drive = Some (True, d1) \<and>
    ata_readSector ex_timed (newATA 0x1F0 True) 5 (replicate 512 0) 100 d1 = Some (True, replicate 512 0xAB, d3)"
proof -
  let ?a = "newATA 0x1F0 True"
  have a: "ata_base ?a = 0x1F0" by (simp add: newATA_def)
  have "at_rest 20 ex_drive" by (simp add: at_rest_def ex_drive_def)
  moreover have "patient ex_timed 100 20" by (simp add: patient_def ex_timed_def)
  moreover have "5 < pio_size ex_drive (ata_slave ?a)" by (simp add: ex_drive_def)
  ultimately show ?thesis
    using drive_keeps_sectors [of ex_timed ?a "\<lambda>p. p" 20 ex_drive 100 5 "replicate 512 0xAB" "replicate 512 0" ?a 5] ex_drive_speaks
    unfolding a by auto
qed

text \<open>The number of sectors a drive tells of, in the words 60 and 61 of its identity.\<close>

lemma drive_identified:
  assumes S: "speaks_ata t (ata_base a) view" and "at_rest n (view d)" and "patient t timeout n"
    and "length (ata_serialNumber a) = 21" "length (ata_firmwareVersion a) = 9" "length (ata_modelNumber a) = 41"
  shows "\<exists>a' d'. identify t timeout (a, d) = Some (True, a', d') \<and> at_rest n (view d') \<and>
    ata_sectors28Bit a' = push_bit 16 (ucast (pio_identity (view d) (ata_slave a) ! 61)) OR ucast (pio_identity (view d) (ata_slave a) ! 60)"
proof -
  obtain d1 where d1: "isDevicePresent t a d = (True, d1)" "at_rest n (view d1)" "same_drive (view d1) (view d)"
    using present [OF S assms(2)] by blast
  let ?ws = "pio_identity (view d) (ata_slave a)"
  obtain e p where e: "view e = (pio_command 0xEC p)\<lparr>pio_busy := 0\<rparr>" "pio_slave p = ata_slave a" "same_drive p (view d1)"
    and x: "executeCommand t a Identify 0 0 [] timeout d1 = Some (True, [], e)"
    using started [OF S _ d1(2) assms(3), of 0 Identify 0 "[]"] by auto
  have sd: "same_drive p (view d)" using e(3) d1(3) by (rule same_drive_trans)
  let ?q = "(view e)\<lparr>pio_mode := Idle\<rparr>"
  have l: "length ?ws = 256" using assms(2) by (simp add: at_rest_def)
  then have ne: "?ws \<noteq> []" by auto
  have "view e = ?q\<lparr>pio_mode := Sending ?ws\<rparr>" "pio_busy ?q = 0" "pio_left ?q = 0"
    using e sd by (simp_all add: pio_command_def pio_start_def pio_wait_def same_drive_def)
  from words_read [OF S this(1) ne this(2,3)] obtain d2 where d2: "read_words t a 256 e = (?ws, d2)" "view d2 = ?q"
    unfolding l by auto
  have "same_drive (view d2) (view d)"
    using d2(2) e(1) sd by (simp add: same_drive_def pio_command_def pio_start_def pio_wait_def)
  then have "at_rest n (view d2)" using d2(2) e(1) by (simp add: rest_same [OF assms(2)])
  moreover have s: "\<exists>b. extractString ?ws dest i n = Some b" if "i + n div 2 \<le> 256" "n < length dest" for dest i n
    using that l by (auto simp: extractString_def slice_def blit_def length_concat comp_def sum_list_triv)
  moreover obtain b1 b2 b3 where "extractString ?ws (ata_serialNumber a) 10 20 = Some b1"
    "extractString ?ws (ata_firmwareVersion a) 23 8 = Some b2" "extractString ?ws (ata_modelNumber a) 27 40 = Some b3"
    using s [of 10 20 "ata_serialNumber a"] s [of 23 8 "ata_firmwareVersion a"] s [of 27 40 "ata_modelNumber a"] assms(4-6) by auto
  ultimately show ?thesis using d1(1) x d2(1) l by (simp add: identify_def rd_at_def Let_def)
qed

end
