(* ===== verification/Mount.thy ===== *)
theory Mount
  imports Drive Fat_Inodes
begin

text \<open>
  What the kernel puts into the tree when it starts (\<open>initializeDrivers\<close>, \<open>initializePartitions\<close> and
  \<open>initializeBinaries\<close> of \<open>core/kernel.cpp\<close>): the file systems of the partitions and the builtin programs.
  A drive is what it answers, a \<open>vdisk\<close> without bounds of its own, and what the buffer on the stack
  holds before the boot record is read into it. The directory that is listed to the log for analysis is
  left out, as is all output.
\<close>

section \<open>Drives\<close>

definition new_drives :: "ata list" where
  "new_drives = [newATA 0x1F0 False, newATA 0x1F0 True, newATA 0x170 False, newATA 0x170 True]"

text \<open>Each drive is asked for its identity; one that does not answer stays in the list.\<close>

fun initializeDrivers :: "'d timed \<Rightarrow> ata list \<Rightarrow> 'd \<Rightarrow> (ata list \<times> 'd) option" where
  "initializeDrivers t [] d = Some ([], d)"
| "initializeDrivers t (a # as) d =
     do { (_, a, d) \<leftarrow> identify t 1000 (a, d);
          (as, d) \<leftarrow> initializeDrivers t as d;
          Some (a # as, d) }"

section \<open>Partitions\<close>

text \<open>The object of the disk and that of the partition; the one of the disk is never freed.\<close>

definition new_partition :: "vdisk \<Rightarrow> mbr_entry \<Rightarrow> 'x fsys \<Rightarrow> (u32 \<times> part \<times> vdisk \<times> 'x fsys) option" where
  "new_partition disk e s =
     (let d = disk\<lparr>vd_start := me_lbaStart e, vd_count := me_lbaCount e\<rparr>;
          (da, v) = newObject (fs_vfs s); (pa, v) = newObject v in
      if da = 0 \<or> pa = 0 then None
      else do { p \<leftarrow> mkFAT32Partition d (me_lbaStart e) (me_lbaCount e);
                Some (pa, p, d, s\<lparr>fs_vfs := v\<rparr>) })"

definition test_folder :: bytes where
  "test_folder = map of_char ''/exp4/''"

definition test_file :: bytes where
  "test_file = map of_char ''e7newfile19.txt''"

text \<open>An entry of the boot record; the drive's new contents are the result.\<close>

definition mount_entry :: "bytes \<Rightarrow> mbr_entry \<Rightarrow> vdisk \<times> 'x fsys \<Rightarrow> (vdisk \<times> 'x fsys) option" where
  "mount_entry name e = (\<lambda>(disk, s).
     if me_type e \<noteq> partition_type.FAT32_LBA then Some (disk, s)
     else do {
       (pa, p, d, s) \<leftarrow> new_partition disk e s;
       if ptype p \<noteq> fat_type.FAT32 then Some (disk, s\<lparr>fs_vfs := heap_free pa (fs_vfs s)\<rparr>)
       else let (root, s) = newFAT32Directory pa 2 0x100 0 0 (s\<lparr>fs_partition := (fs_partition s)(pa \<mapsto> (p, d))\<rparr>) in do {
         (_, v) \<leftarrow> setInodeByPath name root (fs_vfs s);
         folder \<leftarrow> resolvePathToEntry p d test_folder;
         (_, _, d) \<leftarrow> createFile p folder test_file 0x20 d;
         Some (disk\<lparr>vd_read := vd_read d\<rparr>, put_disk pa d (s\<lparr>fs_vfs := v\<rparr>)) } })"

text \<open>The boot record of a drive. The result of reading it is not looked at.\<close>

definition mount_drive :: "bytes \<Rightarrow> vdisk \<Rightarrow> bytes \<Rightarrow> 'x fsys \<Rightarrow> (vdisk \<times> 'x fsys) option" where
  "mount_drive name disk stack s =
     do { m \<leftarrow> masterBootRecord (case vd_read disk 0 of Some sector \<Rightarrow> sector | None \<Rightarrow> stack);
          fold_opt (\<lambda>i. mount_entry name (mbr_getEntry i m)) [0..<4] (disk, s) }"

text \<open>The four drives under their names, \<open>None\<close> being a null pointer: the first may be missing, the others not.\<close>

fun mount_drives :: "bytes \<Rightarrow> (bytes \<times> vdisk option) list \<Rightarrow> 'x fsys \<Rightarrow> 'x fsys option" where
  "mount_drives stack [] s = Some s"
| "mount_drives stack ((name, None) # drives) s = None"
| "mount_drives stack ((name, Some disk) # drives) s =
     do { (_, s) \<leftarrow> mount_drive name disk stack s; mount_drives stack drives s }"

definition drive_names :: "bytes list" where
  "drive_names = map (map of_char) [''/dev/sda'', ''/dev/sdb'', ''/dev/sdc'', ''/dev/sde'']"

definition initializePartitions :: "bytes \<Rightarrow> vdisk option list \<Rightarrow> 'x fsys \<Rightarrow> 'x fsys option" where
  "initializePartitions stack drives s =
     (if drives = [] \<or> hd drives = None then Some s else mount_drives stack (zip drive_names drives) s)"

section \<open>Builtin programs\<close>

definition registerBuiltin :: "bytes \<Rightarrow> u32 \<Rightarrow> 'x fsys \<Rightarrow> (bool \<times> 'x fsys) option" where
  "registerBuiltin path entry s =
     (let (inode, s) = newBuiltinExecutableInode entry s in
      if inode = 0 then Some (False, s)
      else do { (ok, v) \<leftarrow> setInodeByPath path inode (fs_vfs s); Some (ok, s\<lparr>fs_vfs := v\<rparr>) })"

definition builtin_paths :: "bytes list" where
  "builtin_paths = map (map of_char) [''/bin/terminal.elf'', ''/bin/imgview.elf'', ''/bin/filemanager.elf'',
     ''/bin/taskmanager.elf'', ''/bin/clock.elf'', ''/bin/udp_echo.elf'']"

definition initializeBinaries :: "(bytes \<Rightarrow> u32) \<Rightarrow> 'x fsys \<Rightarrow> 'x fsys option" where
  "initializeBinaries main = fold_opt (\<lambda>path s. map_option snd (registerBuiltin path (main path) s)) builtin_paths"

section \<open>What mounting makes visible\<close>

lemma newObject_fields:
  "newObject s = (a, t) \<Longrightarrow> inodes t = inodes s \<and> rootNode t = rootNode s \<and> freed t = freed s"
  by (auto simp: newObject_def split: list.splits)

text \<open>A partition that is mounted is found under its name: a directory that starts at cluster 2, whatever cluster
  the volume names as the first of its root.\<close>

lemma mount_entry_visible:
  assumes "mount_entry name e (disk, s) = Some (disk', t)" and "me_type e = partition_type.FAT32_LBA"
    and "new_partition disk e s = Some (pa, p, d, u)" and "ptype p = fat_type.FAT32"
  shows "\<exists>root v w d'. newFAT32Directory pa 2 0x100 0 0 (u\<lparr>fs_partition := (fs_partition u)(pa \<mapsto> (p, d))\<rparr>) = (root, v) \<and>
    setInodeByPath name root (fs_vfs v) = Some w \<and> fs_vfs t = snd w \<and> fs_class t = fs_class v \<and>
    fs_partition t pa = Some (p, d') \<and> (root \<noteq> 0 \<longrightarrow> fs_class t root = FAT32Directory pa 2)"
proof -
  obtain root v where r: "newFAT32Directory pa 2 0x100 0 0 (u\<lparr>fs_partition := (fs_partition u)(pa \<mapsto> (p, d))\<rparr>) = (root, v)"
    by fastforce
  then have f: "fs_partition v = (fs_partition u)(pa \<mapsto> (p, d))" "root \<noteq> 0 \<longrightarrow> fs_class v root = FAT32Directory pa 2"
    by (auto simp: newFAT32Directory_def new_inode_def Let_def split: prod.splits if_splits)
  obtain w folder x y d' where w: "setInodeByPath name root (fs_vfs v) = Some w" "resolvePathToEntry p d test_folder = Some folder"
    "createFile p folder test_file 0x20 d = Some (x, y, d')" "t = put_disk pa d' (v\<lparr>fs_vfs := snd w\<rparr>)"
    using assms r by (auto simp: mount_entry_def split: Option.bind_splits)
  then show ?thesis using r f by (intro exI [of _ root] exI [of _ v] exI [of _ w] exI [of _ d']) (simp add: put_disk_def)
qed

end
