(* ===== verification/Card.thy ===== *)
theory Card
  imports Net_Laws Ports Paging
begin

text \<open>
  The driver of the network card (\<open>core/network/PCnetDriver.cpp\<close>) with its registers, buffers and rings of
  descriptors, and the configuration space it is set up through (\<open>core/pcie/PCIe.cpp\<close>). \<open>dma\<close> is the memory the
  driver shares with the card, which may change it at every access to a port; what else the card consists of
  extends that record. The state of the driver extends that of the network stack, so that the stack handles a
  frame while its descriptor still waits in the ring. The layers above send through the
  abstract device of \<open>Net_Interface\<close>, which \<open>pc_sendPacket\<close> refines.
\<close>

section \<open>Configuration space\<close>

text \<open>A bus with configuration registers in memory.\<close>

record 'd config_bus = "'d bus" +
  config_read :: "u32 \<Rightarrow> 'd \<Rightarrow> u32 \<times> 'd"
  config_write :: "u32 \<Rightarrow> u32 \<Rightarrow> 'd \<Rightarrow> 'd"

record pcie =
  pe_initialized :: bool
  pe_baseAddress :: u32
  pe_segmentGroup :: u16
  pe_startBus :: u8
  pe_endBus :: u8
  pe_deviceCount :: u32

text \<open>The table is \<open>None\<close> when the firmware has none; its first entry is behind the header.\<close>

definition pcie_initialize :: "bool \<Rightarrow> bytes option \<Rightarrow> pcie \<Rightarrow> (bool \<times> pcie) option" where
  "pcie_initialize acpi mcfg e =
     (if pe_initialized e then Some (True, e)
      else if \<not> acpi then Some (False, e)
      else case mcfg of
        None \<Rightarrow> Some (False, e)
      | Some table \<Rightarrow> do {
          base \<leftarrow> get_uint32_t table 44;
          segment \<leftarrow> get_uint16_t table 52;
          first \<leftarrow> get_uint8_t table 54;
          last \<leftarrow> get_uint8_t table 55;
          Some (True, e\<lparr>pe_baseAddress := base, pe_segmentGroup := segment, pe_startBus := first, pe_endBus := last,
                        pe_initialized := True\<rparr>) })"

text \<open>A function of a device is its bus, device and function number. The null pointer is 0.\<close>

type_synonym pci_function = "u8 \<times> u8 \<times> u8"

fun getConfigAddress :: "pcie \<Rightarrow> pci_function \<Rightarrow> u16 \<Rightarrow> u32" where
  "getConfigAddress e (bus, device, func) offset =
     (if \<not> pe_initialized e then 0
      else if bus < pe_startBus e \<or> pe_endBus e < bus then 0
      else if 32 \<le> device \<or> 8 \<le> func then 0
      else pe_baseAddress e + push_bit 20 (ucast bus) + push_bit 15 (ucast device) + push_bit 12 (ucast func) +
        (ucast offset AND 0xFFC))"

definition readConfig32 :: "('d, 'z) config_bus_scheme \<Rightarrow> pcie \<Rightarrow> pci_function \<Rightarrow> u16 \<Rightarrow> 'd \<Rightarrow> u32 \<times> 'd" where
  "readConfig32 b e f offset d =
     (let address = getConfigAddress e f offset in if address = 0 then (0xFFFFFFFF, d) else config_read b address d)"

definition writeConfig32 :: "('d, 'z) config_bus_scheme \<Rightarrow> pcie \<Rightarrow> pci_function \<Rightarrow> u16 \<Rightarrow> u32 \<Rightarrow> 'd \<Rightarrow> 'd" where
  "writeConfig32 b e f offset value d =
     (let address = getConfigAddress e f offset in if address = 0 then d else config_write b address value d)"

definition readConfig16 :: "('d, 'z) config_bus_scheme \<Rightarrow> pcie \<Rightarrow> pci_function \<Rightarrow> u16 \<Rightarrow> 'd \<Rightarrow> u16 \<times> 'd" where
  "readConfig16 b e f offset d =
     (let (value, d) = readConfig32 b e f (offset AND 0xFFFC) d
      in (if offset AND 2 \<noteq> 0 then ucast (drop_bit 16 value) else ucast (value AND 0xFFFF), d))"

definition writeConfig16 :: "('d, 'z) config_bus_scheme \<Rightarrow> pcie \<Rightarrow> pci_function \<Rightarrow> u16 \<Rightarrow> u16 \<Rightarrow> 'd \<Rightarrow> 'd" where
  "writeConfig16 b e f offset value d =
     (let (old, d) = readConfig32 b e f (offset AND 0xFFFC) d;
          new = (if offset AND 2 \<noteq> 0 then (old AND 0x0000FFFF) OR push_bit 16 (ucast value)
                 else (old AND 0xFFFF0000) OR ucast value)
      in writeConfig32 b e f (offset AND 0xFFFC) new d)"

definition readConfig8 :: "('d, 'z) config_bus_scheme \<Rightarrow> pcie \<Rightarrow> pci_function \<Rightarrow> u16 \<Rightarrow> 'd \<Rightarrow> u8 \<times> 'd" where
  "readConfig8 b e f offset d =
     (let (value, d) = readConfig32 b e f (offset AND 0xFFFC) d
      in (ucast (drop_bit (unat (offset AND 3) * 8) value AND 0xFF), d))"

definition writeConfig8 :: "('d, 'z) config_bus_scheme \<Rightarrow> pcie \<Rightarrow> pci_function \<Rightarrow> u16 \<Rightarrow> u8 \<Rightarrow> 'd \<Rightarrow> 'd" where
  "writeConfig8 b e f offset value d =
     (let (old, d) = readConfig32 b e f (offset AND 0xFFFC) d;
          shift = unat (offset AND 3) * 8
      in writeConfig32 b e f (offset AND 0xFFFC) ((old AND NOT (push_bit shift 0xFF)) OR push_bit shift (ucast value)) d)"

definition deviceExists :: "('d, 'z) config_bus_scheme \<Rightarrow> pcie \<Rightarrow> pci_function \<Rightarrow> 'd \<Rightarrow> bool \<times> 'd" where
  "deviceExists b e f d = (let (vendorID, d) = readConfig16 b e f 0 d in (vendorID \<noteq> 0xFFFF \<and> vendorID \<noteq> 0, d))"

text \<open>The enumeration: every function that exists is looked at for the log and counted.\<close>

definition count_function :: "('d, 'z) config_bus_scheme \<Rightarrow> pcie \<Rightarrow> pci_function \<Rightarrow> u32 \<times> 'd \<Rightarrow> u32 \<times> 'd" where
  "count_function b e f = (\<lambda>(n, d).
     let (present, d) = deviceExists b e f d in
     if \<not> present then (n, d)
     else let (_, d) = readConfig16 b e f 0 d; (_, d) = readConfig16 b e f 2 d;
              (_, d) = readConfig8 b e f 0x0B d; (_, d) = readConfig8 b e f 0x0A d
          in (n + 1, d))"

definition count_device :: "('d, 'z) config_bus_scheme \<Rightarrow> pcie \<Rightarrow> u8 \<times> u8 \<Rightarrow> u32 \<times> 'd \<Rightarrow> u32 \<times> 'd" where
  "count_device b e = (\<lambda>(bus, device) (n, d).
     let (present, d) = deviceExists b e (bus, device, 0) d in
     if \<not> present then (n, d)
     else let (_, d) = readConfig16 b e (bus, device, 0) 0 d; (_, d) = readConfig16 b e (bus, device, 0) 2 d;
              (headerType, d) = readConfig8 b e (bus, device, 0) 0x0E d;
              (_, d) = readConfig8 b e (bus, device, 0) 0x0B d; (_, d) = readConfig8 b e (bus, device, 0) 0x0A d
          in if headerType AND 0x80 \<noteq> 0
             then fold (\<lambda>f. count_function b e (bus, device, of_nat f)) [1..<8] (n + 1, d)
             else (n + 1, d))"

definition enumerateDevices :: "('d, 'z) config_bus_scheme \<Rightarrow> pcie \<times> 'd \<Rightarrow> pcie \<times> 'd" where
  "enumerateDevices b = (\<lambda>(e, d).
     if \<not> pe_initialized e then (e, d)
     else let (n, d) = fold (count_device b e)
            [(of_nat bus, of_nat device). bus \<leftarrow> [unat (pe_startBus e)..<Suc (unat (pe_endBus e))], device \<leftarrow> [0..<32]] (0, d)
          in (e\<lparr>pe_deviceCount := n\<rparr>, d))"

section \<open>The driver\<close>

record ring_descriptor =
  rd_address :: u32
  rd_length :: u16
  rd_status :: u16
  rd_misc :: u32
  rd_reserved :: u32

record init_block =
  ib_mode :: u16
  ib_rlen :: u8
  ib_tlen :: u8
  ib_mac :: bytes
  ib_reserved :: u16
  ib_ladrf :: "u32 list"
  ib_rxRingAddr :: u32
  ib_txRingAddr :: u32

text \<open>The memory shared with the card.\<close>

record dma =
  initBlock :: init_block
  txRing :: "ring_descriptor list"
  rxRing :: "ring_descriptor list"
  txBuffers :: "bytes list"
  rxBuffers :: "bytes list"

text \<open>The driver: its pointers into that memory, 0 being the null pointer. \<open>pc_polled\<close> says whether the handler that polls
  is attached to the clock, \<open>pc_vector\<close> which vector has the interrupt handler of the card.\<close>

record 'd card = dns +
  pc_this :: u32
  pc_function :: pci_function
  pc_irqLine :: u8
  pc_ioBase :: u16
  pc_initBlock :: u32
  pc_txRing :: u32
  pc_rxRing :: u32
  pc_txBuffers :: "u32 list"
  pc_rxBuffers :: "u32 list"
  currentTx :: u8
  currentRx :: u8
  pc_vector :: "u8 option"
  pc_polled :: bool
  pc_mem :: 'd

definition newPCnetDriver :: "u32 \<Rightarrow> pci_function \<Rightarrow> ('d, 'a) card_scheme \<Rightarrow> ('d, 'a) card_scheme" where
  "newPCnetDriver this f s = s\<lparr>pc_this := this, pc_function := f, pc_irqLine := 0, pc_ioBase := 0, pc_initBlock := 0,
     pc_txRing := 0, pc_rxRing := 0, pc_txBuffers := replicate 8 0, pc_rxBuffers := replicate 8 0,
     currentTx := 0, currentRx := 0\<rparr>"

subsection \<open>Registers\<close>

definition readCSR :: "('d, 'z) bus_scheme \<Rightarrow> u16 \<Rightarrow> u16 \<Rightarrow> 'd \<Rightarrow> u32 \<times> 'd" where
  "readCSR b io csr d =
     (let (v, d) = in16 b (io + 0x10) (out16 b (io + 0x12) csr d) in (ucast v, d))"

definition writeCSR :: "('d, 'z) bus_scheme \<Rightarrow> u16 \<Rightarrow> u16 \<Rightarrow> u32 \<Rightarrow> 'd \<Rightarrow> 'd" where
  "writeCSR b io csr value d = out16 b (io + 0x10) (ucast value) (out16 b (io + 0x12) csr d)"

definition readBCR :: "('d, 'z) bus_scheme \<Rightarrow> u16 \<Rightarrow> u16 \<Rightarrow> 'd \<Rightarrow> u32 \<times> 'd" where
  "readBCR b io bcr d =
     (let (v, d) = in16 b (io + 0x16) (out16 b (io + 0x12) bcr d) in (ucast v, d))"

definition writeBCR :: "('d, 'z) bus_scheme \<Rightarrow> u16 \<Rightarrow> u16 \<Rightarrow> u32 \<Rightarrow> 'd \<Rightarrow> 'd" where
  "writeBCR b io bcr value d = out16 b (io + 0x16) (ucast value) (out16 b (io + 0x12) bcr d)"

definition pc_reset :: "('d, 'z) bus_scheme \<Rightarrow> u16 \<Rightarrow> 'd \<Rightarrow> 'd" where
  "pc_reset b io d = snd (in16 b (io + 0x18) d)"

fun read_bytes :: "('d, 'z) bus_scheme \<Rightarrow> u16 list \<Rightarrow> 'd \<Rightarrow> bytes \<times> 'd" where
  "read_bytes b [] d = ([], d)"
| "read_bytes b (p # ps) d = (let (v, d) = in8 b p d; (vs, d) = read_bytes b ps d in (v # vs, d))"

definition readMACAddress :: "('d, 'z) bus_scheme \<Rightarrow> ('d, 'a) card_scheme \<Rightarrow> ('d, 'a) card_scheme option" where
  "readMACAddress b s =
     (let (mac, d) = read_bytes b (map ((+) (pc_ioBase s)) [0, 1, 2, 3, 4, 5]) (pc_mem s) in
      netif_update (pc_this s) (\<lambda>i. i\<lparr>macAddress_of := mac\<rparr>) (s\<lparr>pc_mem := d\<rparr>))"

definition setState :: "if_state \<Rightarrow> ('d, 'a) card_scheme \<Rightarrow> ('d, 'a) card_scheme option" where
  "setState v s = netif_update (pc_this s) (\<lambda>i. i\<lparr>if_state := v\<rparr>) s"

subsection \<open>Buffers\<close>

text \<open>Pages of the kernel's directory \<open>dir\<close>, which is null before paging is set up; \<open>k\<close> bounds the recursion of the
  allocation as in \<open>Paging\<close>.\<close>

definition alloc_pages :: "nat \<Rightarrow> u32 \<Rightarrow> u32 \<Rightarrow> paging \<Rightarrow> (u32 \<times> paging) option" where
  "alloc_pages k dir n pg = (if dir = 0 then Some (0, pg) else allocatePages k dir ((n + 4095) div 4096) pg)"

definition alignTo16 :: "u32 \<Rightarrow> u32" where
  "alignTo16 addr = (addr + 15) AND NOT 0xF"

fun alloc_buffers :: "nat \<Rightarrow> u32 \<Rightarrow> nat \<Rightarrow> paging \<Rightarrow> (bool \<times> u32 list \<times> paging) option" where
  "alloc_buffers k dir 0 pg = Some (True, [], pg)"
| "alloc_buffers k dir (Suc n) pg =
     do { (p, pg) \<leftarrow> alloc_pages k dir 1536 pg;
          if p = 0 then Some (False, replicate (Suc n) 0, pg)
          else do { (ok, ps, pg) \<leftarrow> alloc_buffers k dir n pg; Some (ok, p # ps, pg) } }"

definition zero_block :: init_block where
  "zero_block = \<lparr>ib_mode = 0, ib_rlen = 0, ib_tlen = 0, ib_mac = replicate 6 0, ib_reserved = 0, ib_ladrf = [0, 0],
     ib_rxRingAddr = 0, ib_txRingAddr = 0\<rparr>"

definition zero_descriptor :: ring_descriptor where
  "zero_descriptor = \<lparr>rd_address = 0, rd_length = 0, rd_status = 0, rd_misc = 0, rd_reserved = 0\<rparr>"

text \<open>A buffer that could not be allocated has no bytes.\<close>

definition zero_buffers :: "u32 list \<Rightarrow> bytes list" where
  "zero_buffers = map (\<lambda>p. if p = 0 then [] else replicate 1536 0)"

definition allocateBuffers ::
    "nat \<Rightarrow> u32 \<Rightarrow> ('x dma_scheme, 'a) card_scheme \<times> paging \<Rightarrow> (bool \<times> ('x dma_scheme, 'a) card_scheme \<times> paging) option" where
  "allocateBuffers k dir = (\<lambda>(s, pg). do {
     (block, pg) \<leftarrow> alloc_pages k dir 28 pg;
     let s = s\<lparr>pc_initBlock := block\<rparr> in
     if block = 0 then Some (False, s, pg)
     else let s = s\<lparr>pc_mem := pc_mem s\<lparr>initBlock := zero_block\<rparr>\<rparr> in do {
       (tx, pg) \<leftarrow> alloc_pages k dir (16 * 8 + 16) pg;
       if tx = 0 then Some (False, s, pg)
       else let s = s\<lparr>pc_txRing := alignTo16 tx, pc_mem := pc_mem s\<lparr>txRing := replicate 8 zero_descriptor\<rparr>\<rparr> in do {
         (rx, pg) \<leftarrow> alloc_pages k dir (16 * 8 + 16) pg;
         if rx = 0 then Some (False, s, pg)
         else let s = s\<lparr>pc_rxRing := alignTo16 rx, pc_mem := pc_mem s\<lparr>rxRing := replicate 8 zero_descriptor\<rparr>\<rparr> in
         if pc_txRing s mod 16 \<noteq> 0 \<or> pc_rxRing s mod 16 \<noteq> 0 then Some (False, s, pg)
         else do {
           (ok, ps, pg) \<leftarrow> alloc_buffers k dir 8 pg;
           let s = s\<lparr>pc_txBuffers := ps, pc_mem := pc_mem s\<lparr>txBuffers := zero_buffers ps\<rparr>\<rparr> in
           if \<not> ok then Some (False, s, pg)
           else do {
             (ok, ps, pg) \<leftarrow> alloc_buffers k dir 8 pg;
             Some (ok, s\<lparr>pc_rxBuffers := ps, pc_mem := pc_mem s\<lparr>rxBuffers := zero_buffers ps\<rparr>\<rparr>, pg) } } } } })"

definition freeBuffers :: "('x dma_scheme, 'a) card_scheme \<Rightarrow> ('x dma_scheme, 'a) card_scheme" where
  "freeBuffers s = s\<lparr>pc_txBuffers := replicate 8 0, pc_rxBuffers := replicate 8 0, pc_txRing := 0, pc_rxRing := 0,
     pc_initBlock := 0\<rparr>"

text \<open>The processor owns the descriptors for sending, the card those for receiving.\<close>

definition tx_descriptor :: "u32 \<Rightarrow> ring_descriptor" where
  "tx_descriptor buf = \<lparr>rd_address = buf, rd_length = 0, rd_status = 0, rd_misc = 0, rd_reserved = 0\<rparr>"

definition rx_descriptor :: "u32 \<Rightarrow> ring_descriptor" where
  "rx_descriptor buf = \<lparr>rd_address = buf, rd_length = - 1536, rd_status = 0x8000, rd_misc = 0, rd_reserved = 0\<rparr>"

definition initializeDescriptors :: "('x dma_scheme, 'a) card_scheme \<Rightarrow> ('x dma_scheme, 'a) card_scheme option" where
  "initializeDescriptors s =
     do { i \<leftarrow> netif_deref (pc_this s) s;
          if pc_initBlock s = 0 \<or> pc_txRing s = 0 \<or> pc_rxRing s = 0 then None
          else Some (s\<lparr>pc_mem := pc_mem s\<lparr>
            initBlock := \<lparr>ib_mode = 0, ib_rlen = push_bit 4 3, ib_tlen = push_bit 4 3, ib_mac = macAddress_of i, ib_reserved = 0,
              ib_ladrf = [0, 0], ib_rxRingAddr = pc_rxRing s, ib_txRingAddr = pc_txRing s\<rparr>,
            txRing := map tx_descriptor (pc_txBuffers s), rxRing := map rx_descriptor (pc_rxBuffers s)\<rparr>,
            currentTx := 0, currentRx := 0\<rparr>) }"

subsection \<open>Sending\<close>

text \<open>The frame in the buffer of the current descriptor, which then belongs to the card.\<close>

definition post_frame :: "nat \<Rightarrow> bytes \<Rightarrow> u32 \<Rightarrow> 'x dma_scheme \<Rightarrow> 'x dma_scheme option" where
  "post_frame i frame txLen m =
     do { d \<leftarrow> rd_at (txRing m) i;
          buf \<leftarrow> rd_at (txBuffers m) i;
          buf \<leftarrow> blit buf 0 (frame @ replicate (unat txLen - length frame) 0);
          Some (m\<lparr>txBuffers := (txBuffers m)[i := buf],
                  txRing := (txRing m)[i := d\<lparr>rd_length := - ucast txLen, rd_misc := 0, rd_status := 0x8300\<rparr>]\<rparr>) }"

text \<open>The demand to transmit. Looking at the descriptor afterwards for 10000 times has no effect.\<close>

definition transmit_demand :: "('d, 'z) bus_scheme \<Rightarrow> u16 \<Rightarrow> 'd \<Rightarrow> 'd" where
  "transmit_demand b io d = (let (csr0, d) = readCSR b io 0 d in writeCSR b io 0 (csr0 OR 8) d)"

definition pc_sendPacket ::
    "('x dma_scheme, 'z) bus_scheme \<Rightarrow> bytes \<Rightarrow> u32 \<Rightarrow> ('x dma_scheme, 'a) card_scheme \<Rightarrow>
     (bool \<times> ('x dma_scheme, 'a) card_scheme) option" where
  "pc_sendPacket b data len s =
     do { i \<leftarrow> netif_deref (pc_this s) s;
          if if_state i \<noteq> Up then Some (False, s)
          else if 1536 < len then map_option (Pair False) (netif_update (pc_this s) (updateStatistics len True True) s)
          else let txLen = (if len < 60 then 60 else len); n = unat (currentTx s) in do {
            d \<leftarrow> rd_at (txRing (pc_mem s)) n;
            if bit (rd_status d) 15 then map_option (Pair False) (netif_update (pc_this s) (updateStatistics len True True) s)
            else do {
              frame \<leftarrow> slice data 0 (unat len);
              m \<leftarrow> post_frame n frame txLen (pc_mem s);
              map_option (Pair True) (netif_update (pc_this s) (updateStatistics txLen True False)
                (s\<lparr>pc_mem := transmit_demand b (pc_ioBase s) m, currentTx := (currentTx s + 1) mod 8\<rparr>)) } } }"

subsection \<open>Receiving\<close>

text \<open>The frame of a descriptor goes to the protocol it is for; \<open>polled\<close> is what polling the card does meanwhile.\<close>

definition handle_descriptor ::
    "(('x dma_scheme, 'a) card_scheme \<Rightarrow> ('x dma_scheme, 'a) card_scheme option) \<Rightarrow> ring_descriptor \<Rightarrow>
     ('x dma_scheme, 'a) card_scheme \<Rightarrow> ('x dma_scheme, 'a) card_scheme option" where
  "handle_descriptor polled d s =
     (let frameLength = rd_misc d AND 0xFFF in
      if bit (rd_status d) 14 then netif_update (pc_this s) (updateStatistics 0 False True) s
      else if rd_status d AND 0x300 \<noteq> 0x300 then Some s
      else if 14 \<le> frameLength \<and> frameLength \<le> 1518 then do {
        receivedFrameBuffer \<leftarrow> rd_at (pc_rxBuffers s) (unat (currentRx s));
        if receivedFrameBuffer = 0 then Some s
        else do {
          buf \<leftarrow> rd_at (rxBuffers (pc_mem s)) (unat (currentRx s));
          frame \<leftarrow> slice buf 0 (unat frameLength);
          process_frame polled frame s } }
      else netif_update (pc_this s) (updateStatistics 0 False True) s)"

text \<open>Then the descriptor at the current place, wherever that is by now, goes back to the card.\<close>

definition give_back :: "('x dma_scheme, 'a) card_scheme \<Rightarrow> ('x dma_scheme, 'a) card_scheme option" where
  "give_back s =
     do { d \<leftarrow> rd_at (rxRing (pc_mem s)) (unat (currentRx s));
          Some (s\<lparr>pc_mem := pc_mem s\<lparr>rxRing := (rxRing (pc_mem s))[unat (currentRx s) := d\<lparr>rd_status := 0x8000, rd_misc := 0\<rparr>]\<rparr>,
                  currentRx := (currentRx s + 1) mod 8\<rparr>) }"

text \<open>Clearing the flags that were set when the interrupt began.\<close>

definition acknowledge :: "('d, 'z) bus_scheme \<Rightarrow> u32 \<Rightarrow> ('d, 'a) card_scheme \<Rightarrow> ('d, 'a) card_scheme" where
  "acknowledge b csr0 s =
     s\<lparr>pc_mem := fold (\<lambda>flag d. if csr0 AND flag \<noteq> 0 then writeCSR b (pc_ioBase s) 0 (csr0 OR flag) d else d)
       [0x400, 0x200, 0x8000] (pc_mem s)\<rparr>"

definition interrupt_with ::
    "(('x dma_scheme, 'a) card_scheme \<Rightarrow> ('x dma_scheme, 'a) card_scheme option) \<Rightarrow> ('x dma_scheme, 'z) bus_scheme \<Rightarrow>
     ('x dma_scheme, 'a) card_scheme \<Rightarrow> ('x dma_scheme, 'a) card_scheme option" where
  "interrupt_with receive b s =
     (let (csr0, d) = readCSR b (pc_ioBase s) 0 (pc_mem s) in
      map_option (acknowledge b csr0) (receive (s\<lparr>pc_mem := d\<rparr>)))"

text \<open>
  The loop over the ring. It handles a frame with itself as the polling, one level deeper; \<open>fuel\<close> bounds
  the levels and the rounds together.
\<close>

fun processReceivedPackets ::
    "nat \<Rightarrow> ('x dma_scheme, 'z) bus_scheme \<Rightarrow> ('x dma_scheme, 'a) card_scheme \<Rightarrow> ('x dma_scheme, 'a) card_scheme option" where
  "processReceivedPackets 0 b s = None"
| "processReceivedPackets (Suc fuel) b s =
     do { d \<leftarrow> rd_at (rxRing (pc_mem s)) (unat (currentRx s));
          if bit (rd_status d) 15 then Some s
          else do {
            s \<leftarrow> handle_descriptor (interrupt_with (processReceivedPackets fuel b) b) d s;
            s \<leftarrow> give_back s;
            processReceivedPackets fuel b s } }"

definition pc_handleInterrupt ::
    "nat \<Rightarrow> ('x dma_scheme, 'z) bus_scheme \<Rightarrow> ('x dma_scheme, 'a) card_scheme \<Rightarrow> ('x dma_scheme, 'a) card_scheme option" where
  "pc_handleInterrupt fuel b = interrupt_with (processReceivedPackets fuel b) b"

subsection \<open>Starting and stopping\<close>

text \<open>Reading the status until the flags are set, for at most \<open>n\<close> times.\<close>

fun await_flags :: "('d, 'z) bus_scheme \<Rightarrow> u16 \<Rightarrow> u32 \<Rightarrow> nat \<Rightarrow> 'd \<Rightarrow> bool \<times> 'd" where
  "await_flags b io flags 0 d = (False, d)"
| "await_flags b io flags (Suc n) d =
     (let (csr0, d) = readCSR b io 0 d in if csr0 AND flags = flags then (True, d) else await_flags b io flags n d)"

definition pc_enable :: "('d, 'z) bus_scheme \<Rightarrow> ('d, 'a) card_scheme \<Rightarrow> (bool \<times> ('d, 'a) card_scheme) option" where
  "pc_enable b s =
     (if pc_initBlock s = 0 then Some (False, s)
      else let io = pc_ioBase s; (csr0, d) = readCSR b io 0 (pc_mem s) in
      if csr0 AND 0x100 = 0 then Some (False, s\<lparr>pc_mem := d\<rparr>)
      else let d = writeCSR b io 0 ((csr0 AND NOT 0x8600) OR 0x42) d;
               (online, d) = await_flags b io 0x30 1000 d in
      if online
      then let (_, d) = readCSR b io 3 d; (_, d) = readCSR b io 4 d in
        map_option (Pair True) (setState Up (s\<lparr>pc_mem := d, pc_polled := True\<rparr>))
      else Some (False, s\<lparr>pc_mem := snd (readCSR b io 0 d)\<rparr>))"

definition pc_disable :: "('d, 'z) bus_scheme \<Rightarrow> ('d, 'a) card_scheme \<Rightarrow> (bool \<times> ('d, 'a) card_scheme) option" where
  "pc_disable b s =
     (if pc_initBlock s = 0 then Some (True, s)
      else map_option (Pair True) (setState Down (s\<lparr>pc_mem := writeCSR b (pc_ioBase s) 0 4 (pc_mem s)\<rparr>)))"

definition destroyPCnetDriver ::
    "('x dma_scheme, 'z) bus_scheme \<Rightarrow> ('x dma_scheme, 'a) card_scheme \<Rightarrow> ('x dma_scheme, 'a) card_scheme option" where
  "destroyPCnetDriver b s = do { (_, s) \<leftarrow> pc_disable b s; Some (freeBuffers s) }"

text \<open>The line of the interrupt is enabled at its controller and in the configuration space.\<close>

definition unmask_line :: "('d, 'z) bus_scheme \<Rightarrow> u8 \<Rightarrow> 'd \<Rightarrow> 'd" where
  "unmask_line b irq d =
     (let (port, n) = (if 8 \<le> irq then (0xA1, unat (irq - 8)) else (0x21, unat irq));
          (before, d) = in8 b port d;
          d = out8 b port (before AND NOT (push_bit n 1)) d
      in snd (in8 b port d))"

definition connect_interrupt :: "('d, 'z) config_bus_scheme \<Rightarrow> pcie \<Rightarrow> ('d, 'a) card_scheme \<Rightarrow> ('d, 'a) card_scheme" where
  "connect_interrupt b e s =
     (let irq = pc_irqLine s in
      if irq \<noteq> 0 \<and> irq < 16
      then let d = unmask_line b irq (pc_mem s);
               (command, d) = readConfig16 b e (pc_function s) 4 d;
               d = (if command AND 0x400 \<noteq> 0
                    then snd (readConfig16 b e (pc_function s) 4 (writeConfig16 b e (pc_function s) 4 (command AND NOT 0x400) d))
                    else d)
        in s\<lparr>pc_vector := Some (0x20 + irq), pc_mem := d\<rparr>
      else s)"

text \<open>The registers written once the buffers are there.\<close>

definition start_controller :: "('d, 'z) bus_scheme \<Rightarrow> u16 \<Rightarrow> u32 \<Rightarrow> 'd \<Rightarrow> bool \<times> 'd" where
  "start_controller b io block d =
     (let d = writeCSR b io 2 (drop_bit 16 block AND 0xFFFF) (writeCSR b io 1 (block AND 0xFFFF) d);
          d = writeCSR b io 0 1 (writeCSR b io 15 0 (writeCSR b io 4 0x0915 (writeCSR b io 3 0x5F00 d)));
          (done, d) = await_flags b io 0x100 1000 d
      in if \<not> done then (False, d)
         else let d = writeCSR b io 3 0x0040 d; (_, d) = readCSR b io 3 d; (_, d) = readCSR b io 4 d; (_, d) = readCSR b io 15 d
              in (True, d))"

definition pc_initialize ::
    "nat \<Rightarrow> u32 \<Rightarrow> ('x dma_scheme, 'z) config_bus_scheme \<Rightarrow> pcie \<Rightarrow> ('x dma_scheme, 'a) card_scheme \<times> paging \<Rightarrow>
     (bool \<times> ('x dma_scheme, 'a) card_scheme \<times> paging) option" where
  "pc_initialize k dir b e = (\<lambda>(s, pg).
     let f = pc_function s; (irq, d) = readConfig8 b e f 0x3C (pc_mem s); (_, d) = readConfig8 b e f 0x3D d;
         s = connect_interrupt b e (s\<lparr>pc_irqLine := irq, pc_mem := d\<rparr>); (bar0, d) = readConfig32 b e f 0x10 (pc_mem s)
     in if bar0 AND 1 = 0 then Some (False, s\<lparr>pc_mem := d\<rparr>, pg)
        else let io = ucast (bar0 AND 0xFFF0); (command, d) = readConfig16 b e f 4 d;
                 d = pc_reset b io (writeConfig16 b e f 4 (command OR 5) d) in do {
          s \<leftarrow> readMACAddress b (s\<lparr>pc_ioBase := io, pc_mem := d\<rparr>);
          (ok, s, pg) \<leftarrow> allocateBuffers k dir (s\<lparr>pc_mem := writeBCR b io 20 0x0102 (pc_mem s)\<rparr>, pg);
          if \<not> ok then Some (False, s, pg)
          else do {
            s \<leftarrow> initializeDescriptors s;
            let (ok, d) = start_controller b io (pc_initBlock s) (pc_mem s) in
            if ok then map_option (\<lambda>s. (True, s, pg)) (setState Down (s\<lparr>pc_mem := d\<rparr>))
            else Some (False, s\<lparr>pc_mem := d\<rparr>, pg) } })"

section \<open>What was sent stays sent\<close>

definition sends_on :: "'a netmgr_scheme \<Rightarrow> 'a netmgr_scheme \<Rightarrow> bool" where
  "sends_on s s' \<longleftrightarrow> (\<exists>fs. sent s' = sent s @ fs)"

lemma sends_on_refl [simp]: "sends_on s s" and sends_on_eq: "sent s' = sent s \<Longrightarrow> sends_on s s'"
  by (simp_all add: sends_on_def)

lemma sends_on_trans [trans]: "sends_on s t \<Longrightarrow> sends_on t u \<Longrightarrow> sends_on s u"
  by (auto simp: sends_on_def)

lemma netif_update_sent: "netif_update p f s = Some s' \<Longrightarrow> sent s' = sent s"
  by (auto simp: netif_update_def bind_eq_Some_conv)

lemma nm_sendPacket_sent: "nm_sendPacket f l s = Some (b, s') \<Longrightarrow> sends_on s s'"
  by (auto simp: nm_sendPacket_def driver_sendPacket_def bind_eq_Some_conv Let_def sends_on_def dest!: netif_update_sent
      split: if_splits list.splits bool.splits)

lemma sendARPRequest_sent: "sendARPRequest ip s = Some (b, s') \<Longrightarrow> sends_on s s'"
  by (auto simp: sendARPRequest_def dest: nm_sendPacket_sent split: if_splits)

lemma sendARPReply_sent: "sendARPReply ip m s = Some (b, s') \<Longrightarrow> sends_on s s'"
  by (auto simp: sendARPReply_def bind_eq_Some_conv dest: nm_sendPacket_sent split: if_splits option.splits)

lemma addCacheEntry_sent: "addCacheEntry ip m s = Some (b, s') \<Longrightarrow> sent s' = sent s"
  by (auto simp: addCacheEntry_def bind_eq_Some_conv getSystemTime_def Let_def split: if_splits option.splits)

lemma handleARPPacket_sent: "handleARPPacket f l s = Some (b, s') \<Longrightarrow> sends_on s s'"
  by (auto simp: handleARPPacket_def bind_eq_Some_conv Let_def sends_on_def dest!: addCacheEntry_sent sendARPReply_sent
      split: if_splits)

lemma fold_opt_sent:
  assumes "\<And>i s s'. f i s = Some s' \<Longrightarrow> sent s' = sent s" and "fold_opt f is s = Some s'"
  shows "sent s' = sent s"
  using assms(2) by (induction "is" arbitrary: s) (auto simp: bind_eq_Some_conv dest: assms(1))

lemma heap_alloc_sent: "sent (snd (heap_alloc n s)) = sent s"
  by (simp add: heap_alloc_def split: list.split)

lemma us_set_sent [simp]: "sent (us_set p t s) = sent s" and is_set_sent [simp]: "sent (is_set p u s) = sent s"
  by (simp_all add: us_set_def is_set_def)

lemma handleIncomingPacket_sent: "handleIncomingPacket p ip port d l s = Some s' \<Longrightarrow> sent s' = sent s"
  using heap_alloc_sent [of l s]
  by (auto simp: handleIncomingPacket_def bind_eq_Some_conv case_prod_unfold Let_def split: if_splits option.split_asm)

lemma deliverPacket_sent: "deliverPacket p ip d l s = Some s' \<Longrightarrow> sent s' = sent s"
  using heap_alloc_sent [of l s]
  by (auto simp: deliverPacket_def bind_eq_Some_conv case_prod_unfold Let_def split: if_splits option.split_asm)

lemma trampoline_sent: "udpReceiveCallbackTrampoline ip port d l s = Some s' \<Longrightarrow> sent s' = sent s"
  by (cases "registryCount s = 0") (auto simp: udpReceiveCallbackTrampoline_def bind_eq_Some_conv
      dest: handleIncomingPacket_sent split: if_splits elim!: fold_opt_sent [rotated])

lemma deliverToAllSockets_sent: "deliverToAllSockets ip d l s = Some s' \<Longrightarrow> sent s' = sent s"
  unfolding deliverToAllSockets_def
  by (erule fold_opt_sent [rotated]) (auto simp: bind_eq_Some_conv dest: deliverPacket_sent split: if_splits)

lemma handleDNSResponse_sent: "handleDNSResponse d l ip s = Some s' \<Longrightarrow> sent s' = sent s"
  by (auto simp: handleDNSResponse_def bind_eq_Some_conv Let_def split: if_splits option.splits)

lemma call_handler_sent: "call_handler h ip port d l s = Some s' \<Longrightarrow> sent s' = sent s"
  by (auto simp: call_handler_def dest: trampoline_sent handleDNSResponse_sent split: udp_handler.splits)

lemma handleUDPPacket_sent: "handleUDPPacket call_handler p l sip dip s = Some (b, s') \<Longrightarrow> sent s' = sent s"
  by (auto simp: handleUDPPacket_def bind_eq_Some_conv Let_def dest: call_handler_sent
      split: if_splits option.splits bool.splits)

text \<open>Polling that only sends makes every layer above it one that only sends.\<close>

definition polls_on :: "('a netmgr_scheme \<Rightarrow> 'a netmgr_scheme option) \<Rightarrow> bool" where
  "polls_on P \<longleftrightarrow> (\<forall>s s'. P s = Some s' \<longrightarrow> sends_on s s')"

lemma attempts_sent: "polls_on P \<Longrightarrow> attempts P ip k s = Some (r, s') \<Longrightarrow> sends_on s s'"
proof (induction k arbitrary: s)
  case (Suc k)
  then obtain ok s1 where s1: "sendARPRequest ip s = Some (ok, s1)" by (auto simp: bind_eq_Some_conv)
  note e1 = sendARPRequest_sent [OF s1]
  show ?case
  proof (cases ok)
    case False
    then show ?thesis using Suc.prems(2) Suc.IH [OF Suc.prems(1), of s1] s1 sends_on_trans [OF e1] by simp
  next
    case True
    obtain s2 c where s2: "(if defaultInterface s1 = 0 then Some s1 else P s1) = Some s2" "cached ip s2 = Some c"
      "(case c of Some m \<Rightarrow> Some (Some m, s2) | None \<Rightarrow> attempts P ip k s2) = Some (r, s')"
      using Suc.prems(2) s1 True by (auto simp: bind_eq_Some_conv split: if_splits)
    have "sends_on s1 s2" using s2(1) Suc.prems(1) by (auto simp: polls_on_def split: if_splits)
    then have "sends_on s s2" by (rule sends_on_trans [OF e1])
    then show ?thesis using s2(3) Suc.IH [OF Suc.prems(1), of s2] sends_on_trans [of s s2] by (auto split: option.splits)
  qed
qed simp

lemma resolveMacAddress_sent: "polls_on P \<Longrightarrow> resolveMacAddress P ip s = Some (r, s') \<Longrightarrow> sends_on s s'"
  by (auto simp: resolveMacAddress_def bind_eq_Some_conv dest: attempts_sent split: if_splits option.splits)

lemma resolved_sent:
  assumes "(case m of None \<Rightarrow> Some (False, s)
    | Some mac \<Rightarrow> if defaultInterface s = 0 then Some (False, s)
        else do { i \<leftarrow> netif_deref (defaultInterface s) s; nm_sendPacket (g mac i) n s }) = Some (b, s')"
  shows "sends_on s s'"
  using assms by (auto simp: bind_eq_Some_conv dest: nm_sendPacket_sent split: option.splits if_splits)

lemma ip_sendPacket_sent: "polls_on P \<Longrightarrow> ip_sendPacket P ip p d l s = Some (b, s') \<Longrightarrow> sends_on s s'"
  unfolding ip_sendPacket_def Let_def
  by (auto simp: bind_eq_Some_conv split: if_splits dest!: resolved_sent dest: resolveMacAddress_sent intro: sends_on_trans)

lemma handleICMPPacket_sent: "polls_on P \<Longrightarrow> handleICMPPacket P d l ip s = Some (b, s') \<Longrightarrow> sends_on s s'"
  by (auto simp: handleICMPPacket_def sendEchoReply_def getSystemTimeMs_def bind_eq_Some_conv Let_def
      dest: ip_sendPacket_sent intro: sends_on_eq split: if_splits)

lemma routePacket_sent: "polls_on P \<Longrightarrow> routePacket P ip p d l s = Some (b, s') \<Longrightarrow> sends_on s s'"
  by (auto simp: routePacket_def bind_eq_Some_conv dest!: deliverToAllSockets_sent
      dest: handleICMPPacket_sent handleUDPPacket_sent intro: sends_on_eq sends_on_trans [OF _ sends_on_eq] split: if_splits)

lemma process_frame_sent:
  assumes P: "polls_on P" and "process_frame P f s = Some s'"
  shows "sends_on s s'"
proof -
  have d: "sends_on s s1"
    if "(if e = 0x0806 then handleARPPacket f n s
         else if e = 0x0800 then handleIPv4Packet (routePacket P) f n s else Some (True, s)) = Some (b, s1)"
    for e :: u16 and n b s1
    using that routePacket_sent [OF P]
    by (auto dest: handleARPPacket_sent handleIPv4Packet_result split: if_splits)
  show ?thesis
  proof (cases "14 \<le> length f \<and> length f \<le> 1518")
    case False
    show ?thesis using assms(2) unfolding process_frame_def Let_def if_not_P [OF False] by (simp add: netif_update_sent sends_on_eq)
  next
    case True
    from assms(2) obtain e :: u16 and n r where r: "(if e = 0x0806 then handleARPPacket f n s
         else if e = 0x0800 then handleIPv4Packet (routePacket P) f n s else Some (True, s)) = Some r"
      "(case r of (b, s1) \<Rightarrow> netif_update (defaultInterface s1) (updateStatistics n False False) s1) = Some s'"
      unfolding process_frame_def Let_def if_P [OF True] by (elim bind_SomeE)
    then show ?thesis by (cases r) (auto dest!: d netif_update_sent intro: sends_on_trans [OF _ sends_on_eq])
  qed
qed

lemma handle_descriptor_sent: "polls_on P \<Longrightarrow> handle_descriptor P d s = Some s' \<Longrightarrow> sends_on s s'"
  by (auto simp: handle_descriptor_def Let_def bind_eq_Some_conv dest: process_frame_sent netif_update_sent intro: sends_on_eq
      split: if_splits)

lemma interrupt_sent:
  assumes "polls_on receive"
  shows "polls_on (interrupt_with receive b :: ('x dma_scheme, 'a) card_scheme \<Rightarrow> _)"
  unfolding polls_on_def
proof (intro allI impI)
  fix s t :: "('x dma_scheme, 'a) card_scheme"
  assume "interrupt_with receive b s = Some t"
  then obtain m u where u: "receive (s\<lparr>pc_mem := m\<rparr>) = Some u" "sent t = sent u"
    by (auto simp: interrupt_with_def acknowledge_def split: prod.splits)
  have "sends_on (s\<lparr>pc_mem := m\<rparr>) u" using assms u(1) by (simp add: polls_on_def)
  then show "sends_on s t" using u(2) by (simp add: sends_on_def)
qed

lemma processReceivedPackets_sent: "polls_on (processReceivedPackets m b :: ('x dma_scheme, 'a) card_scheme \<Rightarrow> _)"
proof (induction m)
  case (Suc m)
  let ?P = "interrupt_with (processReceivedPackets m b) b :: ('x dma_scheme, 'a) card_scheme \<Rightarrow> _"
  have P: "polls_on ?P" using Suc by (rule interrupt_sent)
  have "sends_on s t" if r: "processReceivedPackets (Suc m) b s = Some t" for s t :: "('x dma_scheme, 'a) card_scheme"
  proof (cases "s = t")
    case False
    then obtain d s1 s2 where "handle_descriptor ?P d s = Some s1" "give_back s1 = Some s2"
      "processReceivedPackets m b s2 = Some t"
      using r by (auto simp: bind_eq_Some_conv split: if_splits)
    then have "sends_on s s1" "sent s2 = sent s1" "sends_on s2 t"
      using handle_descriptor_sent [OF P] Suc by (auto simp: give_back_def polls_on_def bind_eq_Some_conv)
    then show ?thesis using sends_on_trans sends_on_eq by blast
  qed simp
  then show ?case by (simp add: polls_on_def)
qed (simp add: polls_on_def)

lemma loop_sent: "processReceivedPackets m b s = Some t \<Longrightarrow> sends_on s t"
  using processReceivedPackets_sent unfolding polls_on_def by blast

section \<open>An echo request during polling\<close>

text \<open>A card keeps away from the descriptors that belong to the processor, and from their buffers.\<close>

definition same_slot :: "nat \<Rightarrow> 'x dma_scheme \<Rightarrow> 'x dma_scheme \<Rightarrow> bool" where
  "same_slot i m m' \<longleftrightarrow> rd_at (rxRing m') i = rd_at (rxRing m) i \<and> rd_at (rxBuffers m') i = rd_at (rxBuffers m) i"

definition keeps_away :: "('x dma_scheme, 'z) bus_scheme \<Rightarrow> bool" where
  "keeps_away b \<longleftrightarrow> (\<forall>m i d port v. rd_at (rxRing m) i = Some d \<and> \<not> bit (rd_status d) 15 \<longrightarrow>
     same_slot i m (out16 b port v m) \<and> same_slot i m (snd (in16 b port m)))"

text \<open>A frame waits in the current descriptor, which has a buffer.\<close>

definition frame_waits :: "bytes \<Rightarrow> ('x dma_scheme, 'a) card_scheme \<Rightarrow> bool" where
  "frame_waits f s \<longleftrightarrow> (\<exists>d buf p. rd_at (pc_rxBuffers s) (unat (currentRx s)) = Some p \<and> p \<noteq> 0 \<and> rd_at (rxRing (pc_mem s)) (unat (currentRx s)) = Some d \<and> rd_status d = 0x0300 \<and>
     rd_misc d AND 0xFFF = of_nat (length f) \<and> 14 \<le> length f \<and> length f \<le> 1518 \<and>
     rd_at (rxBuffers (pc_mem s)) (unat (currentRx s)) = Some buf \<and> slice buf 0 (length f) = Some f)"

lemma readCSR_same_slot:
  assumes "keeps_away b" and "rd_at (rxRing mem) n = Some d" "\<not> bit (rd_status d) 15" and "readCSR b io csr mem = (v, m)"
  shows "same_slot n mem m"
proof -
  let ?m1 = "out16 b (io + 0x12) csr mem"
  have 1: "same_slot n mem ?m1" using assms(1-3) by (auto simp: keeps_away_def)
  then have "rd_at (rxRing ?m1) n = Some d" using assms(2) by (simp add: same_slot_def)
  then have "same_slot n ?m1 (snd (in16 b (io + 0x10) ?m1))" using assms(1,3) by (auto simp: keeps_away_def)
  moreover have "m = snd (in16 b (io + 0x10) ?m1)" using assms(4) by (auto simp: readCSR_def Let_def split: prod.splits)
  ultimately show ?thesis using 1 by (simp add: same_slot_def)
qed

lemma frame_waits_readCSR:
  assumes "keeps_away b" and "frame_waits f s" and "readCSR b io csr (pc_mem s) = (v, m)"
  shows "frame_waits f (s\<lparr>pc_mem := m\<rparr>)"
proof -
  let ?i = "unat (currentRx s)"
  obtain d buf p where d: "rd_at (rxRing (pc_mem s)) ?i = Some d" "rd_status d = 0x0300"
    "rd_misc d AND 0xFFF = of_nat (length f)" "14 \<le> length f" "length f \<le> 1518"
    "rd_at (rxBuffers (pc_mem s)) ?i = Some buf" "slice buf 0 (length f) = Some f"
    "rd_at (pc_rxBuffers s) ?i = Some p" "p \<noteq> 0"
    using assms(2) by (auto simp: frame_waits_def)
  have "same_slot ?i (pc_mem s) m"
    by (rule readCSR_same_slot [OF assms(1) d(1) _ assms(3)]) (simp add: d(2) bit_iff_odd)
  then show ?thesis using d by (auto simp: frame_waits_def same_slot_def)
qed

lemma handle_waiting:
  assumes "frame_waits f s"
  shows "\<exists>d. rd_at (rxRing (pc_mem s)) (unat (currentRx s)) = Some d \<and> \<not> bit (rd_status d) 15 \<and>
    (\<forall>P. handle_descriptor P d s = process_frame P f s)"
proof -
  obtain d buf p where d: "rd_at (rxRing (pc_mem s)) (unat (currentRx s)) = Some d" "rd_status d = 0x0300"
    "rd_misc d AND 0xFFF = of_nat (length f)" "14 \<le> length f" "length f \<le> 1518"
    "rd_at (rxBuffers (pc_mem s)) (unat (currentRx s)) = Some buf" "slice buf 0 (length f) = Some f"
    "rd_at (pc_rxBuffers s) (unat (currentRx s)) = Some p" "p \<noteq> 0"
    using assms by (auto simp: frame_waits_def)
  have u: "unat (of_nat (length f) :: u32) = length f" using d(5) by (simp add: unat_of_nat)
  have "(14 :: u32) \<le> of_nat (length f)" "(of_nat (length f) :: u32) \<le> 1518" using d(4,5) u by (simp_all add: word_le_nat_alt)
  then have "handle_descriptor P d s = process_frame P f s" for P
    using d by (simp add: handle_descriptor_def u bit_iff_odd)
  then show ?thesis using d(1,2) by (intro exI [of _ d]) (simp add: bit_iff_odd)
qed

text \<open>The request for the address of the next hop to \<open>sip\<close>.\<close>

definition address_request :: "u32 \<Rightarrow> 'a ipv4_scheme \<Rightarrow> bytes" where
  "address_request sip s = arp_frame (replicate 6 0xFF) (localMAC s) 1 (localIP s) (replicate 6 0) (next_hop sip s)"

text \<open>Resolving an address that is not in the table polls, and so does answering a request from it: neither
  comes to its end before the polling does.\<close>

lemma resolve_waits:
  assumes "arp_ok s" "can_send s" "arp_map s ip = None" and P: "polls_on P" and r: "resolveMacAddress P ip s = Some (m, u)"
  shows "\<exists>t. P (transmit (arp_frame (replicate 6 0xFF) (localMAC s) 1 (localIP s) (replicate 6 0) ip) s) = Some t \<and> sends_on t u"
proof -
  let ?t = "transmit (arp_frame (replicate 6 0xFF) (localMAC s) 1 (localIP s) (replicate 6 0) ip) s"
  have "defaultInterface s \<noteq> 0" "initialized s" using assms(1,2) by (simp_all add: can_send_def link_up_def arp_ok_def)
  moreover from this have "attempts P ip (Suc k) s =
      do { t \<leftarrow> P ?t; c \<leftarrow> cached ip t; case c of Some m \<Rightarrow> Some (Some m, t) | None \<Rightarrow> attempts P ip k t }" for k
    using request_step [OF assms(1,2), of ip] by simp
  from this [of 2] have "attempts P ip 3 s =
      do { t \<leftarrow> P ?t; c \<leftarrow> cached ip t; case c of Some m \<Rightarrow> Some (Some m, t) | None \<Rightarrow> attempts P ip 2 t }" by simp
  ultimately obtain t c where "P ?t = Some t" "(case c of Some m \<Rightarrow> Some (Some m, t) | None \<Rightarrow> attempts P ip 2 t) = Some (m, u)"
    using r assms(3) by (auto simp: resolveMacAddress_def cached_spec [OF assms(1)] bind_eq_Some_conv)
  then show ?thesis using attempts_sent [OF P] by (auto split: option.splits)
qed

lemma reply_waits:
  assumes ok: "icmp_initialized s" "ip_initialized s" "arp_ok s" "can_send s" "arp_map s (next_hop sip s) = None"
    and d: "slice data 0 (unat n) = Some d" "length d \<le> 248"
    and P: "polls_on P" and r: "sendEchoReply P sip i q data n s = Some (v, u)"
  shows "\<exists>t. P (transmit (address_request sip s) s) = Some t \<and> sends_on t u"
proof -
  have n: "unat n = length d" using length_slice [OF d(1)] by simp
  have u: "unat (8 + n) = 8 + length d" using d(2) unat_add_small [of "8" n] n by simp
  obtain c where c: "echo_message 0 i q data n = Some (echo_header 0 c i q @ d, 8 + n)" using echo_message_some [OF d] by blast
  have "unat (14 + 20 + (8 + n)) = 34 + (8 + length d)" using d(2) unat_add_small [of "34" "8 + n"] u by simp
  then have fs: "\<not> 1514 < 14 + 20 + (8 + n)" using d(2) by (simp add: word_less_nat_alt)
  have "\<exists>m w. resolveMacAddress P (next_hop sip s) s = Some (m, w) \<and> sends_on w u"
    using r ok(1,2) c fs unfolding sendEchoReply_def ip_sendPacket_def Let_def next_hop_def
    by (auto simp: bind_eq_Some_conv split: if_splits dest!: resolved_sent)
  then show ?thesis
    using resolve_waits [OF ok(3-5) P] sends_on_trans unfolding address_request_def by blast
qed

lemma card_fields [simp]:
  fixes s :: "('d, 'a) card_scheme"
  shows "arp_ok (s\<lparr>pc_mem := m\<rparr>) = arp_ok s" "arp_map (s\<lparr>pc_mem := m\<rparr>) = arp_map s" "link_up (s\<lparr>pc_mem := m\<rparr>) = link_up s"
    "next_hop ip (s\<lparr>pc_mem := m\<rparr>) = next_hop ip s"
  by (simp_all add: arp_ok_def arp_map_def entries_def link_up_def next_hop_def isLocalAddress_def)

lemma card_transmit [simp]:
  fixes s :: "('d, 'a) card_scheme"
  shows "icmp_initialized (transmit f s) = icmp_initialized s" "ip_initialized (transmit f s) = ip_initialized s"
    "ip_localIP (transmit f s) = ip_localIP s" "next_hop ip (transmit f s) = next_hop ip s"
    "pc_mem (transmit f s) = pc_mem s" "pc_rxBuffers (transmit f s) = pc_rxBuffers s" "pc_ioBase (transmit f s) = pc_ioBase s" "currentRx (transmit f s) = currentRx s"
  by (simp_all add: transmit_def next_hop_def isLocalAddress_def)

lemma frame_waits_transmit [simp]: "frame_waits f (transmit g s) = frame_waits f s"
  by (simp add: frame_waits_def)

lemma address_request_simps [simp]:
  fixes s :: "('d, 'a) card_scheme"
  shows "address_request sip (transmit f s) = address_request sip s" "address_request sip (s\<lparr>pc_mem := m\<rparr>) = address_request sip s"
  by (simp_all add: address_request_def)

text \<open>The loop at \<open>s\<close> has another loop within it, at \<open>u\<close>: that one starts at the same place of the ring, with
  the same descriptor and the same frame in it, and comes to its end before the loop at \<open>s\<close> does.\<close>

definition loops_within ::
    "('x dma_scheme, 'z) bus_scheme \<Rightarrow> ('x dma_scheme, 'a) card_scheme \<Rightarrow> ('x dma_scheme, 'a) card_scheme \<Rightarrow> bool" where
  "loops_within b s u \<longleftrightarrow>
     currentRx u = currentRx s \<and> same_slot (unat (currentRx s)) (pc_mem s) (pc_mem u) \<and>
     (\<forall>m t. processReceivedPackets m b s = Some t \<longrightarrow>
        (\<exists>k v. m = Suc k \<and> processReceivedPackets k b u = Some v \<and> sends_on v t))"

lemma loops_within_power:
  "(loops_within b ^^ n) s u \<Longrightarrow> processReceivedPackets m b s = Some t \<Longrightarrow>
    \<exists>k v. m = n + k \<and> processReceivedPackets k b u = Some v \<and> sends_on v t"
proof (induction n arbitrary: s m t)
  case (Suc n)
  obtain w where w: "loops_within b s w" "(loops_within b ^^ n) w u" using relpowp_Suc_D2 [OF Suc.prems(1)] by blast
  obtain k v where k: "m = Suc k" "processReceivedPackets k b w = Some v" "sends_on v t"
    using w(1) Suc.prems(2) unfolding loops_within_def by blast
  show ?case using Suc.IH [OF w(2) k(2)] k(1,3) sends_on_trans by fastforce
qed auto

text \<open>One level: the loop at a waiting echo request.\<close>

lemma echo_loops_within:
  fixes d pad dst src :: bytes and c ck i q :: u16 and sip :: u32 and s :: "('x dma_scheme, 'a) card_scheme"
  defines "req \<equiv> ip_frame dst src (of_nat (20 + (8 + length d))) 1 c sip (ip_localIP s) ((echo_header 8 ck i q @ d) @ pad)"
  assumes b: "keeps_away b" and l: "length dst = 6" "length src = 6" and d: "length d \<le> 248" "length d + length pad \<le> 1472"
    and ok: "icmp_initialized s" "ip_initialized s" "arp_ok s" "can_send s" "arp_map s (next_hop sip s) = None"
    and w: "frame_waits req s" and m: "readCSR b (pc_ioBase s) 0 (pc_mem s) = (v, mem)"
  shows "loops_within b s (transmit (address_request sip s) s\<lparr>pc_mem := mem\<rparr>)"
proof -
  let ?t = "transmit (address_request sip s) s"
  obtain r where r: "rd_at (rxRing (pc_mem s)) (unat (currentRx s)) = Some r" "\<not> bit (rd_status r) 15"
    and h: "\<And>P. handle_descriptor P r s = process_frame P req s"
    using handle_waiting [OF w] by fastforce
  have un: "unat (of_nat (length d) :: u32) = length d" using d(1) by (simp add: unat_of_nat)
  have sl: "slice (d @ pad) 0 (unat (of_nat (length d) :: u32)) = Some d" unfolding un by (simp add: slice_def)
  have "\<exists>k x. n = Suc k \<and> processReceivedPackets k b (?t\<lparr>pc_mem := mem\<rparr>) = Some x \<and> sends_on x t"
    if run: "processReceivedPackets n b s = Some t" for n t
  proof (cases n)
    case (Suc k)
    let ?P = "interrupt_with (processReceivedPackets k b) b :: ('x dma_scheme, 'a) card_scheme \<Rightarrow> _"
    have P: "polls_on ?P" by (intro interrupt_sent processReceivedPackets_sent)
    obtain s1 s2 where s1: "process_frame ?P req s = Some s1" "give_back s1 = Some s2" "processReceivedPackets k b s2 = Some t"
      using run r h by (auto simp: Suc bind_eq_Some_conv)
    obtain y s3 where y: "sendEchoReply ?P sip i q (d @ pad) (of_nat (length d)) s = Some (y, s3)" and s3: "sends_on s3 s1"
      using s1(1) unfolding req_def process_echo [OF ok(1,2) l d(2)]
      by (auto simp: bind_eq_Some_conv sends_on_def dest!: deliverToAllSockets_sent netif_update_sent)
    obtain z where z: "?P ?t = Some z" "sends_on z s3" using reply_waits [OF ok sl d(1) P y] by blast
    obtain x where x: "processReceivedPackets k b (?t\<lparr>pc_mem := mem\<rparr>) = Some x" "sent z = sent x"
      using z(1) m by (auto simp: interrupt_with_def acknowledge_def)
    have "sends_on x z" "sends_on s1 s2" "sends_on s2 t"
      using x(2) s1(2,3) processReceivedPackets_sent [of k b]
      by (auto simp: give_back_def bind_eq_Some_conv polls_on_def intro: sends_on_eq)
    then have "sends_on x t" using z(2) s3 sends_on_trans by meson
    then show ?thesis using x(1) Suc by blast
  qed (use that in simp)
  moreover have "same_slot (unat (currentRx s)) (pc_mem s) mem" using readCSR_same_slot [OF b r m] .
  ultimately show ?thesis by (simp add: loops_within_def)
qed

lemma echo_recursion:
  fixes d pad dst src :: bytes and c ck i q :: u16 and sip :: u32 and s :: "('x dma_scheme, 'a) card_scheme"
  defines "req \<equiv> \<lambda>ip. ip_frame dst src (of_nat (20 + (8 + length d))) 1 c sip ip ((echo_header 8 ck i q @ d) @ pad)"
  assumes b: "keeps_away b" and l: "length dst = 6" "length src = 6" and d: "length d \<le> 248" "length d + length pad \<le> 1472"
  shows "icmp_initialized s \<Longrightarrow> ip_initialized s \<Longrightarrow> arp_ok s \<Longrightarrow> link_up s \<Longrightarrow> arp_map s (next_hop sip s) = None \<Longrightarrow>
    frame_waits (req (ip_localIP s)) s \<Longrightarrow> take n (ring_free s) = replicate n True \<Longrightarrow>
    \<exists>u. (loops_within b ^^ n) s u \<and> frame_waits (req (ip_localIP s)) u \<and> sent u = sent s @ replicate n (address_request sip s)"
proof (induction n arbitrary: s)
  case (Suc n)
  let ?a = "address_request sip s" and ?t = "transmit (address_request sip s) s"
  have r: "ring_free s \<noteq> []" "hd (ring_free s)" "take n (tl (ring_free s)) = replicate n True"
    using Suc.prems(7) by (cases "ring_free s"; simp)+
  obtain v m where m: "readCSR b (pc_ioBase s) 0 (pc_mem s) = (v, m)" by fastforce
  have la: "length ?a = 60" using Suc.prems(3) by (simp add: address_request_def arp_frame_fields arp_ok_def)
  have cs: "can_send s" using Suc.prems(4) r by (simp add: can_send_def)
  note one = echo_loops_within [OF b l d Suc.prems(1-3) cs Suc.prems(5) Suc.prems(6) [unfolded req_def] m]
  have fw: "frame_waits (req (ip_localIP s)) (?t\<lparr>pc_mem := m\<rparr>)"
    using Suc.prems(6) m by (intro frame_waits_readCSR [OF b]) simp_all
  have "\<exists>u. (loops_within b ^^ n) (?t\<lparr>pc_mem := m\<rparr>) u \<and> frame_waits (req (ip_localIP (?t\<lparr>pc_mem := m\<rparr>))) u \<and>
      sent u = sent (?t\<lparr>pc_mem := m\<rparr>) @ replicate n (address_request sip (?t\<lparr>pc_mem := m\<rparr>))"
    using Suc.prems r fw by (intro Suc.IH) simp_all
  then obtain u where "(loops_within b ^^ n) (?t\<lparr>pc_mem := m\<rparr>) u" "frame_waits (req (ip_localIP s)) u"
    "sent u = sent s @ ?a # replicate n ?a"
    using la by auto
  moreover from this(1) have "(loops_within b ^^ Suc n) s u" by (rule relpowp_Suc_I2 [where P = "loops_within b", OF one])
  ultimately show ?case unfolding replicate_Suc by blast
qed simp

text \<open>C34: Answering an echo request from a sender whose address is not in the table sends a request for the
  address and polls for the answer while the descriptor of the echo request still counts as unhandled, so
  the polling handles the same echo request again, one level deeper, and so on for each frame that the
  card takes over for sending. With \<open>n\<close> free descriptors there are \<open>n\<close> loops within each other, all at the
  same frame, the innermost of which still has it before it; however much fuel it is given, the handler
  of the interrupt comes back only after all of them, more than \<open>n\<close> levels deep, and after \<open>n\<close> identical
  requests for the address, where resolving it by itself gives up after three.\<close>

theorem echo_request_handled_again:
  fixes d pad dst src :: bytes and c ck i q :: u16 and sip :: u32 and s :: "('x dma_scheme, 'a) card_scheme"
  defines "req \<equiv> ip_frame dst src (of_nat (20 + (8 + length d))) 1 c sip (ip_localIP s) ((echo_header 8 ck i q @ d) @ pad)"
  assumes "keeps_away b"
    and "icmp_initialized s" "ip_initialized s" "arp_ok s" "link_up s"
    and "arp_map s (next_hop sip s) = None"
    and "length dst = 6" "length src = 6" "length d \<le> 248" "length d + length pad \<le> 1472"
    and "frame_waits req s"
    and "take n (ring_free s) = replicate n True"
  shows "(\<exists>u. (loops_within b ^^ n) (s\<lparr>pc_mem := snd (readCSR b (pc_ioBase s) 0 (pc_mem s))\<rparr>) u \<and> frame_waits req u \<and>
      sent u = sent s @ replicate n (address_request sip s)) \<and>
    (\<forall>m t. pc_handleInterrupt m b s = Some t \<longrightarrow>
      n < m \<and> (\<exists>later. sent t = sent s @ replicate n (address_request sip s) @ later))"
proof -
  obtain v mem where m: "readCSR b (pc_ioBase s) 0 (pc_mem s) = (v, mem)" by fastforce
  let ?s = "s\<lparr>pc_mem := mem\<rparr>"
  have "\<exists>u. (loops_within b ^^ n) ?s u \<and> frame_waits req u \<and> sent u = sent ?s @ replicate n (address_request sip ?s)"
    using echo_recursion [OF assms(2,8-11), where s = ?s and n = n] assms(3-7,12,13) frame_waits_readCSR [OF assms(2,12) m]
    by (simp add: req_def)
  then obtain u where u: "(loops_within b ^^ n) ?s u" "frame_waits req u" "sent u = sent s @ replicate n (address_request sip s)" by auto
  have "n < k \<and> (\<exists>later. sent t = sent s @ replicate n (address_request sip s) @ later)"
    if run: "pc_handleInterrupt k b s = Some t" for k t
  proof -
    obtain t1 where t1: "processReceivedPackets k b ?s = Some t1" "sent t = sent t1"
      using run m by (auto simp: pc_handleInterrupt_def interrupt_with_def acknowledge_def)
    obtain j x where j: "k = n + j" "processReceivedPackets j b u = Some x" "sends_on x t1"
      using loops_within_power [OF u(1) t1(1)] by blast
    have "j \<noteq> 0" using j(2) by (cases j) simp_all
    moreover have "sends_on u t1" using loop_sent [OF j(2)] j(3) by (rule sends_on_trans)
    ultimately show ?thesis using j(1) t1(2) u(3) by (auto simp: sends_on_def)
  qed
  then show ?thesis using u m by auto
qed

text \<open>A card with a ping of 26 bytes from the router, which is not in the table.\<close>

definition ex_ping :: bytes where
  "ex_ping = ip_frame (replicate 6 0) (replicate 6 0) (of_nat (20 + (8 + length (replicate 26 (0 :: byte))))) 1 0 0x0A000202 0x0A00020F
     ((echo_header 8 0 1 1 @ replicate 26 0) @ [])"

definition ex_dma :: dma where
  "ex_dma = \<lparr>initBlock = zero_block, txRing = replicate 8 zero_descriptor,
     rxRing = (rx_descriptor 0)\<lparr>rd_status := 0x0300, rd_misc := 68\<rparr> # replicate 7 (rx_descriptor 0),
     txBuffers = replicate 8 (replicate 1536 0), rxBuffers = (ex_ping @ replicate 1468 0) # replicate 7 (replicate 1536 0)\<rparr>"

definition ex_card :: "dma card" where
  "ex_card = dns.extend (ex_host 0x0A00020F 1 [] [])
     (card.fields 0x100 (0, 3, 0) 11 0xC000 0x1000 0x2000 0x3000 (replicate 8 0x4000) (replicate 8 0x5000) 0 0 None True ex_dma)"

definition ex_bus :: "'d bus" where
  "ex_bus = \<lparr>in8 = (\<lambda>_ d. (0, d)), out8 = (\<lambda>_ _ d. d), in16 = (\<lambda>_ d. (0, d)), out16 = (\<lambda>_ _ d. d),
     in32 = (\<lambda>_ d. (0, d)), out32 = (\<lambda>_ _ d. d)\<rparr>"

lemma ex_bus_keeps_away: "keeps_away ex_bus"
  by (simp add: keeps_away_def ex_bus_def same_slot_def)

lemma ex_card_host:
  "icmp_initialized ex_card" "ip_initialized ex_card" "arp_ok ex_card" "link_up ex_card" "arp_map ex_card = Map.empty"
  "next_hop 0x0A000202 ex_card = 0x0A000202" "ip_localIP ex_card = 0x0A00020F" "ring_free ex_card = replicate 4 True"
proof -
  have e: "arp_ok (dns.extend h x) = arp_ok h" "link_up (dns.extend h x) = link_up h" "arp_map (dns.extend h x) = arp_map h"
    "icmp_initialized (dns.extend h x) = icmp_initialized h" "ip_initialized (dns.extend h x) = ip_initialized h"
    "ip_localIP (dns.extend h x) = ip_localIP h" "next_hop ip (dns.extend h x) = next_hop ip h"
    "ring_free (dns.extend h x) = ring_free h" for h :: dns and x :: "(dma, unit) card_ext" and ip
    by (simp_all add: arp_ok_def entries_def link_up_def arp_map_def next_hop_def isLocalAddress_def dns.extend_def)
  have l: "link_up (ex_host 0x0A00020F 1 [] [])" using ex_host_link(1) by (simp add: can_send_def)
  have n: "next_hop 0x0A000202 (ex_host 0x0A00020F 1 [] []) = 0x0A000202"
    by (simp add: next_hop_def isLocalAddress_def ex_host_fields)
  have r: "ring_free (ex_host 0x0A00020F 1 [] []) = replicate 4 True" by (simp add: ex_host_def)
  show "icmp_initialized ex_card" "ip_initialized ex_card" "arp_ok ex_card" "link_up ex_card" "arp_map ex_card = Map.empty"
    "next_hop 0x0A000202 ex_card = 0x0A000202" "ip_localIP ex_card = 0x0A00020F" "ring_free ex_card = replicate 4 True"
    using l by (simp_all add: ex_card_def e n r ex_host_arp ex_host_fields)
qed

lemma ex_card_waits: "frame_waits ex_ping ex_card"
proof -
  have l: "length ex_ping = 68" by (simp add: ex_ping_def length_ip_frame echo_header_def)
  have c: "pc_mem ex_card = ex_dma" "currentRx ex_card = 0" "pc_rxBuffers ex_card = replicate 8 0x5000"
    by (simp_all add: ex_card_def dns.extend_def card.fields_def)
  show ?thesis
    by (simp add: frame_waits_def c ex_dma_def rd_at_def l slice_def)
qed

text \<open>The driver of this card takes four frames: four levels down it has asked for the address of the router
  four times in a row and the frame still waits, so fuel for four levels is not enough for the handler.\<close>

lemma echo_request_handled_again_witness:
  "(\<exists>u. (loops_within ex_bus ^^ 4) ex_card u \<and> frame_waits ex_ping u \<and> sent u = replicate 4 (address_request 0x0A000202 ex_card)) \<and>
    pc_handleInterrupt 4 ex_bus ex_card = None"
proof -
  have w: "frame_waits (ip_frame (replicate 6 0) (replicate 6 0) (of_nat (20 + (8 + length (replicate 26 (0 :: byte))))) 1 0 0x0A000202
      (ip_localIP ex_card) ((echo_header 8 0 1 1 @ replicate 26 0) @ [])) ex_card"
    using ex_card_waits unfolding ex_ping_def ex_card_host(7) .
  have z: "ex_card\<lparr>pc_mem := snd (readCSR ex_bus (pc_ioBase ex_card) 0 (pc_mem ex_card))\<rparr> = ex_card" "sent ex_card = []"
    by (simp_all add: readCSR_def ex_bus_def ex_card_def dns.extend_def card.fields_def ex_host_def)
  have l: "length (replicate 6 (0 :: byte)) = 6" "length (replicate 26 (0 :: byte)) \<le> 248"
    "length (replicate 26 (0 :: byte)) + length ([] :: bytes) \<le> 1472" by simp_all
  have a: "arp_map ex_card (next_hop 0x0A000202 ex_card) = None" "take 4 (ring_free ex_card) = replicate 4 True"
    by (simp_all add: ex_card_host)
  have h: "(\<exists>u. (loops_within ex_bus ^^ 4) ex_card u \<and> frame_waits ex_ping u \<and> sent u = replicate 4 (address_request 0x0A000202 ex_card)) \<and>
    (\<forall>m t. pc_handleInterrupt m ex_bus ex_card = Some t \<longrightarrow>
      4 < m \<and> (\<exists>later. sent t = replicate 4 (address_request 0x0A000202 ex_card) @ later))"
    using echo_request_handled_again [OF ex_bus_keeps_away ex_card_host(1-4) a(1) l(1,1,2,3) w a(2)]
    unfolding z ex_card_host(7) ex_ping_def append_Nil .
  then have "pc_handleInterrupt 4 ex_bus ex_card = None" by (cases "pc_handleInterrupt 4 ex_bus ex_card") auto
  with h show ?thesis by simp
qed

section \<open>A ring of ARP frames\<close>

text \<open>What an ARP frame does has nothing to do with the ring, and it never polls. \<open>at_slot r s\<close> is \<open>s\<close> with the
  memory, the place in the ring and the buffers of \<open>r\<close>.\<close>

definition at_slot :: "('d, 'a) card_scheme \<Rightarrow> ('d, 'a) card_scheme \<Rightarrow> ('d, 'a) card_scheme" where
  "at_slot r s = s\<lparr>pc_mem := pc_mem r, currentRx := currentRx r, pc_rxBuffers := pc_rxBuffers r\<rparr>"

lemma at_slot_simps [simp]:
  "at_slot r (at_slot r' s) = at_slot r s" "at_slot (at_slot r s) t = at_slot r t" "at_slot s s = s"
  "pc_mem (at_slot r s) = pc_mem r" "currentRx (at_slot r s) = currentRx r" "pc_rxBuffers (at_slot r s) = pc_rxBuffers r"
  "defaultInterface (at_slot r s) = defaultInterface s"
  "localIP (at_slot r s) = localIP s" "initialized (at_slot r s) = initialized s"
  by (simp_all add: at_slot_def)

lemma at_slot_netif_update: "netif_update p f (at_slot r s) = map_option (at_slot r) (netif_update p f s)"
  by (auto simp: netif_update_def netif_deref_def at_slot_def split: Option.bind_splits)

lemma at_slot_deref: "netif_deref p (at_slot r s) = netif_deref p s" "ring_free (at_slot r s) = ring_free s"
  by (simp_all add: netif_deref_def at_slot_def)

text \<open>The change of place goes through the steps of an operation.\<close>

lemma through_bind: "(\<And>x. F x = map_option h (G x)) \<Longrightarrow> Option.bind y F = map_option h (Option.bind y G)"
  by (cases y) simp_all

lemma through_step: "(\<And>x. F (g x) = map_option h (G x)) \<Longrightarrow> Option.bind (map_option g y) F = map_option h (Option.bind y G)"
  by (cases y) simp_all

lemma through_if:
  "(q \<Longrightarrow> x = map_option h x') \<Longrightarrow> (\<not> q \<Longrightarrow> y = map_option h y') \<Longrightarrow> (if q then x else y) = map_option h (if q then x' else y')"
  by simp

lemmas through = through_step through_bind through_if

lemma at_slot_driver: "driver_sendPacket p data n (at_slot r s) = map_option (map_prod id (at_slot r)) (driver_sendPacket p data n s)"
proof (cases "ring_free s")
  case Nil
  show ?thesis
    unfolding driver_sendPacket_def at_slot_netif_update at_slot_deref Let_def Nil list.case
    by (intro through) (simp_all add: at_slot_def)
next
  case (Cons free answers)
  show ?thesis
    unfolding driver_sendPacket_def at_slot_netif_update at_slot_deref Let_def Cons list.case
    by (cases free; simp only: bool.case; intro through; simp add: at_slot_def)
qed

lemma at_slot_send: "nm_sendPacket data n (at_slot r s) = map_option (map_prod id (at_slot r)) (nm_sendPacket data n s)"
  unfolding nm_sendPacket_def at_slot_driver by (auto simp: netif_deref_def at_slot_def split: Option.bind_splits)

lemma at_slot_reply: "sendARPReply ip mac (at_slot r s) = map_option (map_prod id (at_slot r)) (sendARPReply ip mac s)"
proof -
  have "localMAC (at_slot r s) = localMAC s" by (simp add: at_slot_def)
  then show ?thesis unfolding sendARPReply_def at_slot_simps at_slot_send by (auto split: option.splits Option.bind_splits)
qed

lemma at_slot_find: "findCacheEntry ip (at_slot r s) = findCacheEntry ip s"
  by (simp add: findCacheEntry_def at_slot_def)

lemma at_slot_add: "addCacheEntry ip mac (at_slot r s) = map_option (map_prod id (at_slot r)) (addCacheEntry ip mac s)"
  unfolding addCacheEntry_def at_slot_find at_slot_simps
  by (auto simp: getSystemTime_def at_slot_def Let_def split: option.splits Option.bind_splits)

lemma at_slot_arp: "handleARPPacket f n (at_slot r s) = map_option (map_prod id (at_slot r)) (handleARPPacket f n s)"
proof -
  have learnt: "(if q then map_option snd (addCacheEntry ip mac (at_slot r s)) else Some (at_slot r s)) =
      map_option (at_slot r) (if q then map_option snd (addCacheEntry ip mac s) else Some s)" for q ip mac
    by (simp add: at_slot_add option.map_comp comp_def)
  show ?thesis
    unfolding handleARPPacket_def learnt Let_def at_slot_simps
    by (intro through; simp add: at_slot_reply; intro impI through_step; simp)
qed

definition is_arp :: "bytes \<Rightarrow> bool" where
  "is_arp f \<longleftrightarrow> 14 \<le> length f \<and> length f \<le> 1518 \<and> f ! 12 = 0x08 \<and> f ! 13 = 0x06"

lemma process_arp:
  assumes "is_arp f"
  shows "process_frame P f s =
    do { (_, s1) \<leftarrow> handleARPPacket f (of_nat (length f)) s;
         netif_update (defaultInterface s1) (updateStatistics (of_nat (length f)) False False) s1 }"
proof -
  have "get_uint8_t f 12 = Some 0x08" "get_uint8_t f 13 = Some 0x06" "14 \<le> length f \<and> length f \<le> 1518"
    using assms by (simp_all add: is_arp_def get_uint8_t_def rd_at_def)
  moreover have "(push_bit 8 (ucast (0x08 :: u8)) OR ucast (0x06 :: u8) :: u16) = 0x0806" by (simp add: push_bit_eq_mult)
  ultimately show ?thesis unfolding process_frame_def Let_def by simp
qed

lemma at_slot_process: "is_arp f \<Longrightarrow> process_frame P f (at_slot r s) = map_option (at_slot r) (process_frame Q f s)"
  unfolding process_arp at_slot_arp
  by (auto simp: at_slot_netif_update bind_map_option comp_def case_prod_beta split: Option.bind_splits)

lemma at_slot_frames:
  "\<forall>f \<in> set fs. is_arp f \<Longrightarrow> fold_opt (process_frame P) fs (at_slot r s) = map_option (at_slot r) (fold_opt (process_frame Q) fs s)"
proof (induction fs arbitrary: s)
  case (Cons f fs)
  then have "process_frame P f (at_slot r s) = map_option (at_slot r) (process_frame Q f s)"
    by (intro at_slot_process) simp
  then show ?case using Cons by (cases "process_frame Q f s") simp_all
qed simp

text \<open>Frames wait one after the other, and behind them the card owns the ring.\<close>

fun ring_waits :: "bytes list \<Rightarrow> ('x dma_scheme, 'a) card_scheme \<Rightarrow> bool" where
  "ring_waits [] s = (case rd_at (rxRing (pc_mem s)) (unat (currentRx s)) of Some d \<Rightarrow> bit (rd_status d) 15 | None \<Rightarrow> False)"
| "ring_waits (f # fs) s = (frame_waits f s \<and> (case give_back s of Some t \<Rightarrow> ring_waits fs t | None \<Rightarrow> False))"

fun give_backs :: "nat \<Rightarrow> ('x dma_scheme, 'a) card_scheme \<Rightarrow> ('x dma_scheme, 'a) card_scheme option" where
  "give_backs 0 s = Some s"
| "give_backs (Suc n) s = do { t \<leftarrow> give_back s; give_backs n t }"

lemma frame_waits_slot: "frame_waits f (at_slot s t) = frame_waits f s"
  by (simp add: frame_waits_def)

lemma give_back_slot: "give_back (at_slot s t) = map_option (\<lambda>u. at_slot u t) (give_back s)"
  by (auto simp: give_back_def at_slot_def split: Option.bind_splits)

lemma ring_waits_slot: "ring_waits fs (at_slot s t) = ring_waits fs s"
  by (induction fs arbitrary: s t) (auto simp: frame_waits_slot give_back_slot split: option.splits)

lemma give_backs_slot: "give_backs n (at_slot s t) = map_option (\<lambda>u. at_slot u t) (give_backs n s)"
  by (induction n arbitrary: s t) (auto simp: give_back_slot bind_map_option comp_def split: Option.bind_splits)

lemma ring_loop:
  "ring_waits fs s \<Longrightarrow> \<forall>f \<in> set fs. is_arp f \<Longrightarrow> fold_opt (process_frame P) fs s = Some t \<Longrightarrow>
    \<exists>u. give_backs (length fs) s = Some u \<and>
      processReceivedPackets (Suc (length fs)) b s = Some (at_slot u t)"
proof (induction fs arbitrary: s t)
  case Nil
  then show ?case by (auto split: option.splits)
next
  case (Cons f fs)
  let ?P = "interrupt_with (processReceivedPackets (Suc (length fs)) b) b"
  obtain s1 where s1: "process_frame P f s = Some s1" "fold_opt (process_frame P) fs s1 = Some t"
    using Cons.prems(3) by (auto split: Option.bind_splits)
  obtain r where r: "give_back s = Some r" "ring_waits fs r" using Cons.prems(1) by (auto split: option.splits)
  have at: "process_frame Q f s = Some (at_slot s s1)" for Q
    using at_slot_process [of f Q s s P] Cons.prems(2) s1(1) by simp
  let ?r = "at_slot r s1"
  have g: "give_back (at_slot s s1) = Some ?r" using r(1) by (simp add: give_back_slot)
  have "fold_opt (process_frame P) fs ?r = Some (at_slot r t)"
    using at_slot_frames [of fs P _ s1 P] Cons.prems(2) s1(2) by simp
  moreover have "ring_waits fs ?r" using r(2) by (simp add: ring_waits_slot)
  ultimately obtain u where u: "give_backs (length fs) ?r = Some u"
    "processReceivedPackets (Suc (length fs)) b ?r = Some (at_slot u t)"
    using Cons.IH [of ?r] Cons.prems(2) by fastforce
  then obtain v where v: "give_backs (length fs) r = Some v" "u = at_slot v s1"
    by (auto simp: give_backs_slot)
  obtain d where d: "rd_at (rxRing (pc_mem s)) (unat (currentRx s)) = Some d" "\<not> bit (rd_status d) 15"
    "handle_descriptor ?P d s = process_frame ?P f s"
    using handle_waiting [of f s] Cons.prems(1) by auto
  have "processReceivedPackets (Suc (length (f # fs))) b s = Some (at_slot v t)"
    using d at [of ?P] g u(2) v(2) by simp
  then show ?case using r(1) v(1) by auto
qed

text \<open>A ring of ARP frames: the loop handles them in order, as polling does in the model of the stack where
  they come in together, gives each descriptor back and stops at the first one that belongs to the card; one
  round more than there are frames is enough.
\<close>

lemma ring_drained:
  assumes "ring_waits fs s" and "\<forall>f \<in> set fs. is_arp f" and "poll (Suc k) (s\<lparr>rx := fs # rx s\<rparr>) = Some t"
  shows "\<exists>u. give_backs (length fs) s = Some u \<and>
    processReceivedPackets (Suc (length fs)) b s = Some (at_slot u t)"
  using ring_loop [OF assms(1,2), of "poll k" t b] assms(3) by (simp add: at_slot_def)

section \<open>Sending\<close>

lemma padded_length:
  fixes n :: u32
  defines "txLen \<equiv> (if n < 60 then 60 else n)"
  assumes "slice data 0 (unat n) = Some f" and "n \<le> 1536"
  shows "unat (txLen - n) = unat txLen - length f" "unat txLen = max 60 (length f)" "length f \<le> 1536"
proof -
  have l: "length f = unat n" using length_slice [OF assms(2)] .
  show "unat (txLen - n) = unat txLen - length f"
    unfolding l txLen_def by (subst unat_sub) (auto simp: word_le_nat_alt word_less_nat_alt)
  show "unat txLen = max 60 (length f)" unfolding l txLen_def by (auto simp: word_less_nat_alt)
  show "length f \<le> 1536" using assms(3) unfolding l by (simp add: word_le_nat_alt)
qed

text \<open>C35: Sending over the ring does what the abstract device does: the same answer, the same statistics, and the frame that
  device was handed is, padding included, in the buffer of a descriptor that is given to the card.
\<close>

theorem card_send_refines:
  fixes s :: "('x dma_scheme, 'a) card_scheme"
  assumes "driver_sendPacket (pc_this s) data n s = Some (ok, t)"
    and "rd_at (txRing (pc_mem s)) (unat (currentTx s)) = Some d"
    and "rd_at (txBuffers (pc_mem s)) (unat (currentTx s)) = Some buf" "length buf = 1536"
    and "ring_free s = (\<not> bit (rd_status d) 15) # rest"
  shows "\<exists>u. pc_sendPacket b data n s = Some (ok, u) \<and> netif_at u = netif_at t \<and>
    (if ok
     then \<exists>f m. sent t = sent s @ [f] \<and> take (length f) (txBuffers m ! unat (currentTx s)) = f \<and>
       txRing m = (txRing (pc_mem s))[unat (currentTx s) :=
         d\<lparr>rd_length := - of_nat (length f), rd_misc := 0, rd_status := 0x8300\<rparr>] \<and>
       pc_mem u = transmit_demand b (pc_ioBase s) m \<and> currentTx u = (currentTx s + 1) mod 8
     else sent t = sent s \<and> pc_mem u = pc_mem s \<and> currentTx u = currentTx s)"
proof -
  obtain i where i: "netif_deref (pc_this s) s = Some i"
    using assms(1) by (auto simp: driver_sendPacket_def split: Option.bind_splits)
  have up: "netif_update (pc_this s) F s = Some (s\<lparr>netif_at := (netif_at s)(pc_this s \<mapsto> F i)\<rparr>)" for F
    using i by (simp add: netif_update_def)
  show ?thesis
  proof (cases "if_state i = Up \<and> n \<le> 1536 \<and> \<not> bit (rd_status d) 15")
    case False
    then show ?thesis using assms i up
      by (auto simp: driver_sendPacket_def pc_sendPacket_def Let_def not_less not_le split: if_splits)
  next
    case True
    let ?l = "if n < 60 then 60 else n" and ?i = "unat (currentTx s)"
    have n: "\<not> 1536 < n" and rf: "ring_free s = True # rest" using True assms(5) by (simp_all add: not_less)
    have "driver_sendPacket (pc_this s) data n s = do { f \<leftarrow> slice data 0 (unat n);
        Some (True, s\<lparr>netif_at := (netif_at s)(pc_this s \<mapsto> updateStatistics ?l True False i), ring_free := rest,
          sent := sent s @ [f @ replicate (unat (?l - n)) 0]\<rparr>) }"
      using True n by (simp add: driver_sendPacket_def i up rf Let_def)
    then obtain f where f: "slice data 0 (unat n) = Some f" and ok: "ok"
      and t: "t = s\<lparr>netif_at := (netif_at s)(pc_this s \<mapsto> updateStatistics ?l True False i), ring_free := rest,
        sent := sent s @ [f @ replicate (unat (?l - n)) 0]\<rparr>"
      using assms(1) by (auto split: Option.bind_splits)
    have "n \<le> 1536" using True by simp
    note p = padded_length [OF f this]
    let ?f = "f @ replicate (unat ?l - length f) 0"
    have lf: "length ?f = unat ?l" "length ?f \<le> 1536" using p True by auto
    then obtain buf' where buf': "blit buf 0 ?f = Some buf'" using assms(4) by (auto simp: blit_def)
    then have tk: "take (length ?f) buf' = ?f" using assms(4) lf by (auto simp: blit_def split: if_splits)
    let ?m = "(pc_mem s)\<lparr>txBuffers := (txBuffers (pc_mem s))[?i := buf'],
      txRing := (txRing (pc_mem s))[?i := d\<lparr>rd_length := - ucast ?l, rd_misc := 0, rd_status := 0x8300\<rparr>]\<rparr>"
    have m: "post_frame ?i f ?l (pc_mem s) = Some ?m"
      using assms(2,3) buf' by (simp add: post_frame_def)
    have u: "pc_sendPacket b data n s = Some (True, s\<lparr>pc_mem := transmit_demand b (pc_ioBase s) ?m, currentTx := (currentTx s + 1) mod 8,
        netif_at := (netif_at s)(pc_this s \<mapsto> updateStatistics ?l True False i)\<rparr>)"
      using True n m f assms(2) i by (simp add: pc_sendPacket_def Let_def netif_update_def netif_deref_def split: if_splits)
    define g where "g = ?f"
    have "ucast ?l = (of_nat (length ?f) :: u16)" unfolding lf(1) by (simp add: unsigned_ucast_eq)
    then have w: "txRing ?m = (txRing (pc_mem s))[?i := d\<lparr>rd_length := - of_nat (length g), rd_misc := 0, rd_status := 0x8300\<rparr>]"
      by (simp only: g_def) simp
    have "?i < length (txBuffers (pc_mem s))" using assms(3) by (simp add: rd_at_def split: if_splits)
    then have x: "take (length g) (txBuffers ?m ! ?i) = g" using tk by (simp add: g_def)
    have "sent t = sent s @ [g]" unfolding t g_def p(1) by simp
    with w x have "\<exists>g m. sent t = sent s @ [g] \<and> take (length g) (txBuffers m ! ?i) = g \<and>
       txRing m = (txRing (pc_mem s))[?i := d\<lparr>rd_length := - of_nat (length g), rd_misc := 0, rd_status := 0x8300\<rparr>] \<and>
       transmit_demand b (pc_ioBase s) ?m = transmit_demand b (pc_ioBase s) m" by blast
    then show ?thesis using ok u t by simp
  qed
qed

lemma card_send_refines_witness:
  "\<exists>u. pc_sendPacket ex_bus [1, 2, 3] 3 ex_card = Some (True, u) \<and> currentTx u = 1"
proof -
  have c: "pc_this ex_card = 0x100" "ring_free ex_card = True # replicate 3 True" "currentTx ex_card = 0" "pc_mem ex_card = ex_dma"
    "netif_at ex_card = [0x100 \<mapsto> ex_netif 1]"
    by (simp_all add: ex_card_def dns.extend_def card.fields_def ex_host_def numeral_eq_Suc)
  have "\<exists>t. driver_sendPacket (pc_this ex_card) [1, 2, 3] 3 ex_card = Some (True, t)"
    by (simp add: driver_sendPacket_def netif_deref_def netif_update_def c ex_netif_def slice_def)
  then obtain t where t: "driver_sendPacket (pc_this ex_card) [1, 2, 3] 3 ex_card = Some (True, t)" by blast
  have "rd_at (txRing (pc_mem ex_card)) (unat (currentTx ex_card)) = Some zero_descriptor"
    "rd_at (txBuffers (pc_mem ex_card)) (unat (currentTx ex_card)) = Some (replicate 1536 0)"
    by (simp_all add: c ex_dma_def rd_at_def)
  moreover have "ring_free ex_card = (\<not> bit (rd_status zero_descriptor) 15) # replicate 3 True"
    by (simp add: c zero_descriptor_def)
  ultimately show ?thesis
    using card_send_refines [OF t, of zero_descriptor "replicate 1536 0" "replicate 3 True" ex_bus] c(3) by auto
qed

end
