(* ===== verification/Spec2Isabelle.thy ===== *)
theory Spec2Isabelle
  imports Fat_Laws Fat_Dir_Laws Fat_File_Laws Mem_Laws Kernel_Laws Net_Laws Scheduler_Laws Desktop_Laws Inode_Laws Call_Laws
    User_Laws Machine_Laws Scan_Format Mount Card
begin

text \<open>
  A model of the core of PalmyraOS, a 32-bit x86 kernel in C++, and the theorems that make it
  correct. Paths below are relative to \<open>src/PalmyraOS\<close>.

  \<^bold>\<open>Conventions.\<close> Machine integers are words of their width (\<open>u8\<close>, \<open>u16\<close>, \<open>u32\<close>), so arithmetic
  wraps where the code's does. A class is a record, its methods are functions from the state to a
  result and the new state, in the order of the code. Reading or writing outside a buffer, a null
  dereference and a kernel panic are the value \<open>None\<close> of an option; the error values the code itself
  returns are ordinary results. A pointer is an address in a store where the code shares or
  mutates the object, and the value itself where it does not; a pointer that may be null is then an
  option. A loop is structural recursion, a \<open>function\<close> with a measure, or a \<open>partial_function (option)\<close>
  where it need not end; fuel is used where code outside the model (a device, a cyclic table) feeds
  the loop, and for every use of fuel a theorem says how much is enough. Messages to the log are not
  modelled.

  \<^bold>\<open>Storage.\<close> \<open>Disk\<close> is the virtual disk (\<open>include/core/files/partitions/VirtualDisk.h\<close>) with the
  contract of a block device as a locale. \<open>source/core/files/partitions/Fat32.cpp\<close> is split by what the
  code does: \<open>Fat_Layout\<close> parses the boot sector and computes addresses, \<open>Fat_Table\<close> and \<open>Fat_Chain\<close>
  read, write, allocate and free cluster chains, \<open>Fat_Data\<close> reads and writes their contents,
  \<open>Fat_Names\<close> makes short names and long-name slots (on the strings of \<open>Kstring\<close>, \<open>include/libs/string.h\<close>,
  and the encodings of \<open>Utf\<close>, \<open>source/core/encodings.cpp\<close>), \<open>Fat_Entry\<close> and \<open>Fat_Dir\<close> are directory entries
  and directories, \<open>Fat_File\<close> and \<open>Fat_Create\<close> the operations on files and directories. The
  abstraction is in \<open>Fat_Chain\<close> (the table as a function, a chain as a list of clusters),
  \<open>Fat_Content\<close> (the bytes of a chain) and \<open>Fat_Scan\<close> (the listing of a directory);
  \<open>Fat_Append\<close>, \<open>Fat_Remove\<close> and \<open>Fat_Insert\<close> show what each operation does to it, and \<open>Fat_Laws\<close>,
  \<open>Fat_Dir_Laws\<close> and \<open>Fat_File_Laws\<close> state the properties, evaluated on the volume of \<open>Fat_Volume\<close> and
  \<open>Fat_Example\<close>.

  \<^bold>\<open>Memory.\<close> \<open>Phys_Mem\<close> is the bitmap of frames (\<open>source/core/memory/PhysicalMemory.cpp\<close>) behind the locale
  \<open>frame_allocator\<close>; \<open>Paging\<close> (\<open>paging.cpp\<close>) the directories and tables on top of it; \<open>Heap\<close> and \<open>Heap_Ops\<close>
  (\<open>source/palmyraOS/shared/memory/Heap.cpp\<close>) the chunk list over any \<open>page_source\<close>; \<open>Kernel_Heap\<close>
  interprets that locale by the pages of the current directory. \<open>Mem_Laws\<close> states the properties.

  \<^bold>\<open>Inodes and runtime.\<close> \<open>Vfs\<close> is the tree of inodes, its paths and the device file system
  (\<open>source/core/files/VirtualFileSystem.cpp\<close>, \<open>VirtualFileSystemBase.cpp\<close>); \<open>Fat_Inodes\<close> adds what the classes of
  inodes do: directories and files of a FAT32 partition (\<open>Fat32FileSystem.cpp\<close>), builtin programs and nodes that
  call functions (\<open>BuiltinExecutableInode.cpp\<close>), with the properties in \<open>Inode_Laws\<close>; \<open>Libgcc\<close> the 64-bit division of
  \<open>source/libs/libgcc.cpp\<close>; \<open>Number_Text\<close> the conversions of \<open>stdlib.cpp\<close>; \<open>Cstring\<close> the functions of
  \<open>string.cpp\<close> and \<open>memory.cpp\<close>. \<open>Kernel_Laws\<close> states the properties.

  \<^bold>\<open>Network.\<close> The static members of each layer of \<open>source/core/network\<close> extend the record of the layer
  below, so that a function of a layer applies to the state of the whole stack: \<open>Net_Interface\<close>
  (\<open>NetworkInterface.cpp\<close>, \<open>NetworkManager.cpp\<close>, the transmit path of \<open>PCnetDriver.cpp\<close>), \<open>Arp\<close>, \<open>Ipv4\<close>,
  \<open>Icmp\<close>, \<open>Udp\<close>, \<open>Sockets\<close> and \<open>Dns\<close>. \<open>Net\<close> closes the circle: frames that come in while a layer waits are
  processed by all of them. The device is in the state as the frames it will deliver (\<open>rx\<close>), the
  descriptors it will give back (\<open>ring_free\<close>) and the frames it was handed (\<open>sent\<close>). The tables of
  addresses and ports interpret the locale \<open>bounded_table\<close> of \<open>Arp\<close>. \<open>Net_Poll\<close> shows that the fuel of polling, one
  more than the batches of frames to come, is enough, \<open>Net_Echo\<close> what echo messages and ARP frames
  cause, \<open>Dns_Laws\<close> that any response is read within its bounds, and \<open>Net_Laws\<close> states the properties. \<open>Card\<close> is the driver
  of the card itself (\<open>PCnetDriver.cpp\<close>), with its registers, the memory it shares with the card and the two rings,
  over the configuration space of \<open>source/core/pcie/PCIe.cpp\<close>: sending over the ring refines the abstract device, the
  loop over the ring agrees with the polling on ARP frames; on frames whose handling polls it does not, but handles
  them again within itself, as deep as the card takes frames for sending. The fuel of this loop bounds its rounds and
  its levels: one more than the frames is enough for ARP frames, and for the others the theorem holds for any fuel.

  \<^bold>\<open>Screen and windows.\<close> \<open>Frame_Buffer\<close> and \<open>Text_Renderer\<close> draw on the back buffer (\<open>source/core/FrameBuffer.cpp\<close>,
  \<open>Display.cpp\<close>, \<open>Font.cpp\<close>); \<open>Print_Format\<close> is the formatted output of \<open>source/libs/stdio.cpp\<close>, \<open>Scan_Format\<close> its
  formatted input with the property that one reads back what the other prints; \<open>Windows\<close> the
  window manager (\<open>source/core/tasks/WindowManager.cpp\<close>), \<open>Windows_Steps\<close> its invariant over any sequence
  of operations, \<open>Compositor\<close> the composing of the screen under the lock of the scheduler.

  \<^bold>\<open>Processes.\<close> \<open>Descriptors\<close> is the descriptor table with file and socket descriptors, \<open>Process\<close> a process with its
  memory and arguments, \<open>Scheduler\<close> the table of processes, the clock tick and the start of a program
  from a file (\<open>source/core/tasks\<close>). The state they share is the record \<open>tasks\<close>. \<open>Scheduler_Steps\<close> proves the
  invariant of the table, \<open>Scheduler_Fair\<close> that the clock reaches every ready process; \<open>Scheduler_Laws\<close> and
  \<open>Desktop_Laws\<close> state the properties.

  \<^bold>\<open>System calls.\<close> \<open>Call_State\<close> puts the parts together: the record \<open>kernel\<close> holds the saved registers, the processes,
  the inodes and disks, the network and the heap. A pointer of the caller is checked against its page directory and
  followed through the one of the kernel. What the kernel keeps in its own memory is in the model as records; its
  physical bytes are the set \<open>kn_own\<close>, and a call that follows a pointer to one of them, which the check
  does not stop, is \<open>None\<close>. So what is proved of the records holds for calls that stay out of the kernel's
  own objects. \<open>System_Calls\<close> has every handler of \<open>source/core/tasks/SystemCalls.cpp\<close>, the table of the numbers and the
  dispatch. A handler that polls gives the others a turn in each round (\<open>en_others\<close>, at most \<open>en_rounds\<close> rounds; a wait
  that takes longer is \<open>None\<close>); \<open>en_pages\<close> bounds the search for free pages and \<open>en_poll\<close> the polling of the
  network. A call that lets interrupts in while it works on a disk is one step. The functions behind the
  device and process nodes are parameters, and a node made while the system runs answers as a plain inode.
  \<open>Call_Steps\<close> proves once, in the locale \<open>call_effects\<close>, that a relation between kernels which the elementary
  effects keep is kept by every call, and interprets it twice: by the steps of the scheduler and by the
  relation that leaves all other processes alone. \<open>Call_Laws\<close> states the properties.

  \<^bold>\<open>Interrupts, peripherals and time.\<close> \<open>Ports\<close> is the access to ports (\<open>source/core/port.cpp\<close>, \<open>CMOS.cpp\<close>): what a device
  answers is the record \<open>bus\<close>, a parameter, and a loop that waits for a device is a partial function. \<open>Input\<close> is the
  keyboard and the mouse, \<open>Real_Time\<close> the timer and the clock with the date (\<open>SystemClock.cpp\<close>, \<open>RTC.cpp\<close>), \<open>Segments\<close>
  the descriptors the processor reads (\<open>GlobalDescriptorTable.cpp\<close>, \<open>Interrupts.cpp\<close>). \<open>Machine\<close> puts the kernel behind its
  interrupts: the table of handlers, the clock with the handlers attached to it, the first handler of every
  interrupt, which changes to the directory of the kernel, and any sequence of interrupts with programs
  running in between as a step relation. Its invariant rests on the steps of the scheduler that every
  handler takes; \<open>Machine_Laws\<close> states the properties.

  \<^bold>\<open>Drives.\<close> \<open>Drive\<close> is the driver of the disks over their ports (\<open>source/core/peripherals/ATA.cpp\<close>) and the decoding of
  the boot record (\<open>MasterBootRecord.cpp\<close>). What two drives on a channel have to do by the ATA
  standard is the record \<open>pio\<close> with its operations: registers with counts and both kinds of addresses, transfers of
  many sectors, being busy after a command and after a sector stored, and the identity. Against any
  device that behaves like one, a sector that is written is read back and no other
  changes, which is the contract the file system relies on. \<open>Mount\<close> is the part of \<open>source/core/kernel.cpp\<close> that puts the
  partitions and the builtin programs into the tree when the system starts.

  \<^bold>\<open>User library.\<close> \<open>User_Library\<close> has the functions of \<open>source/palmyraOS/unistd.cpp\<close>, \<open>stdio.cpp\<close> and \<open>stdlib.cpp\<close>: a program is a
  function on the kernel's state, a system call sets the registers and runs the handler, and what happens while
  the program waits for the processor is a parameter (\<open>mc_back\<close>). Local variables that are passed by address are
  addresses in the memory of the caller, which it reaches through its own page directory. \<open>User_Network\<close> has the
  resolver, the echo request and the text of addresses (\<open>network.cpp\<close>) over these calls; \<open>User_Laws\<close> states the
  properties, most of them against the kernel's own functions for the same formats.

  \<^bold>\<open>Bounds and fuel.\<close> The traversal of a cluster chain stops in the code after \<open>MAX_CHAIN\<close>
  steps or on a repeated cluster, and that number is its fuel; releasing a chain is a partial function, whose
  termination on any table is a theorem; the heap loops run over finite chains; the wait for a
  reply is the number of rounds of the code (3 attempts for an address, 500 rounds for echo and
  resolver).

  \<^bold>\<open>Not modelled.\<close> The display adapter, the tables of the
  firmware (ACPI), the processor features (\<open>cpu.cpp\<close>), the start-up order (\<open>kernelEntry.cpp\<close>, most of \<open>kernel.cpp\<close>):
  their effect is on devices whose behaviour is not in the sources. The example programs, which are clients of the
  system calls, are not modelled either. Of the entry to an interrupt, the assembly that
  saves and restores registers is not modelled, nor are the instructions that load a table. The glyphs are data.
  Allocation failures are modelled where the code
  tests for them. Concurrency is not modelled: the kernel code here runs to completion between
  interrupts. The red-black tree support of the C++ library is taken from its own project.
\<close>

end
